(* ===== verification/Capy_Prelude.thy ===== *)
theory Capy_Prelude
  imports Complex_Main "HOL-Library.Word"
begin

text \<open>
  What every component of the Capybara Wars engine shares: the machine integer types of the
  C++ source, the faults a run can end in, the C library's string routines the source calls
  (over character buffers that end in a NUL), and the little-endian byte layout of the
  structures it sends over the network and writes to files.
\<close>

section \<open>Machine types and faults\<close>

type_synonym byte = "8 word"
type_synonym u16 = "16 word"
type_synonym u32 = "32 word"
type_synonym u64 = "64 word"

text \<open>
  A C++ expression whose behaviour is undefined (or that kills the process) ends the modelled
  run with a \<open>fault\<close> that says why. Everything the source handles itself (early returns,
  error codes) is an ordinary value and never a fault.
\<close>

datatype fault =
    NullDeref          \<comment> \<open>a null or never-set pointer was dereferenced\<close>
  | OutOfBoundsRead    \<comment> \<open>a read past the end of an object\<close>
  | OutOfBoundsWrite   \<comment> \<open>a write past the end of an object\<close>
  | UseAfterFree       \<comment> \<open>a read or write of a deleted object\<close>
  | DoubleFree         \<comment> \<open>a second delete of the same object\<close>
  | BadCast            \<comment> \<open>a float converted to an integer type that cannot hold it\<close>
  | NullCall           \<comment> \<open>a call through a null function pointer\<close>
  | AssertFailed       \<comment> \<open>a failed \<open>assert\<close>\<close>
  | Terminated         \<comment> \<open>\<open>std::terminate\<close>, or an exit in the middle of an operation\<close>
  | NoReturn           \<comment> \<open>a loop that never ends\<close>
  | OverlappingCopy    \<comment> \<open>a library copy between two ranges that overlap\<close>
  | Uninitialised      \<comment> \<open>an object or pointer that was never set is used\<close>

type_synonym 'a res = "fault + 'a"

definition bind_res :: "'a res \<Rightarrow> ('a \<Rightarrow> 'b res) \<Rightarrow> 'b res" where
  "bind_res m f = (case m of Inl e \<Rightarrow> Inl e | Inr x \<Rightarrow> f x)"

definition map_res :: "('a \<Rightarrow> 'b) \<Rightarrow> 'a res \<Rightarrow> 'b res" where
  "map_res f m = bind_res m (\<lambda>x. Inr (f x))"

definition is_ok :: "'a res \<Rightarrow> bool" where
  "is_ok m = (case m of Inl _ \<Rightarrow> False | Inr _ \<Rightarrow> True)"

named_theorems res_simps "evaluation of the result monad"

lemma bind_res_Inl [simp, res_simps]: "bind_res (Inl e) f = Inl e"
  by (simp add: bind_res_def)

lemma bind_res_Inr [simp, res_simps]: "bind_res (Inr x) f = f x"
  by (simp add: bind_res_def)

lemma bind_res_eq_Inr [res_simps]:
  "bind_res m f = Inr y \<longleftrightarrow> (\<exists>x. m = Inr x \<and> f x = Inr y)"
  by (cases m) auto

lemma map_res_simps [simp, res_simps]:
  "map_res f (Inl e) = Inl e" "map_res f (Inr x) = Inr (f x)"
  by (simp_all add: map_res_def)

lemma is_ok_simps [simp, res_simps]: "is_ok (Inl e) = False" "is_ok (Inr x) = True"
  by (simp_all add: is_ok_def)

lemma is_ok_iff: "is_ok m \<longleftrightarrow> (\<exists>x. m = Inr x)"
  by (cases m) auto

section \<open>The C library's strings\<close>

text \<open>
  A buffer is a list of characters; the C string at its start runs up to the first NUL (or
  the end of the list). A \<open>string\<close> of the model holds no NUL.
\<close>

definition NUL :: char where "NUL = CHR 0x00"

definition c_str :: "char list \<Rightarrow> string" where
  "c_str buf = takeWhile (\<lambda>c. c \<noteq> NUL) buf"

definition is_c_string :: "string \<Rightarrow> bool" where
  "is_c_string s = list_all (\<lambda>c. c \<noteq> NUL) s"

text \<open>\<open>isspace\<close> of the C locale, and the delimiter set of \<open>STRING_WHITESPACE_DELIMITERS\<close>.\<close>

definition is_space :: "char \<Rightarrow> bool" where
  "is_space c = (c = CHR '' '' \<or> c = CHR 0x09 \<or> c = CHR 0x0A \<or> c = CHR 0x0B \<or> c = CHR 0x0C \<or> c = CHR 0x0D)"

text \<open>\<open>tolower\<close> of the C locale, and the equality test \<open>!strcasecmp(a, b)\<close>.\<close>

definition to_lower :: "char \<Rightarrow> char" where
  "to_lower c =
     (let n = (of_char c :: nat) in if 65 \<le> n \<and> n \<le> 90 then char_of (n + 32) else c)"

definition strcaseeq :: "string \<Rightarrow> string \<Rightarrow> bool" where
  "strcaseeq a b = (map to_lower a = map to_lower b)"

text \<open>\<open>strncpy(dst, src, n)\<close>: copies at most \<open>n\<close> characters and pads with NULs up to \<open>n\<close>;
  no terminator when \<open>src\<close> is \<open>n\<close> long or longer.\<close>

definition strncpy :: "char list \<Rightarrow> string \<Rightarrow> nat \<Rightarrow> char list" where
  "strncpy dst src n = take n (src @ replicate n NUL) @ drop n dst"

text \<open>\<open>!strncmp(a, b, n)\<close> on two C strings.\<close>

definition strneq :: "string \<Rightarrow> string \<Rightarrow> nat \<Rightarrow> bool" where
  "strneq a b n = (take n a = take n b)"

text \<open>\<open>strstr(hay, needle) != NULL\<close>.\<close>

fun has_prefix :: "string \<Rightarrow> string \<Rightarrow> bool" where
  "has_prefix [] s = True"
| "has_prefix (p # ps) [] = False"
| "has_prefix (p # ps) (c # cs) = (p = c \<and> has_prefix ps cs)"

fun strstr :: "string \<Rightarrow> string \<Rightarrow> bool" where
  "strstr [] needle = has_prefix needle []"
| "strstr (c # cs) needle = (has_prefix needle (c # cs) \<or> strstr cs needle)"

subsection \<open>Lemmas\<close>

lemma strcaseeq_refl [simp]: "strcaseeq s s"
  by (simp add: strcaseeq_def)

lemma strcaseeq_sym: "strcaseeq a b \<longleftrightarrow> strcaseeq b a"
  by (auto simp: strcaseeq_def)

lemma strcaseeq_trans: "strcaseeq a b \<Longrightarrow> strcaseeq b c \<Longrightarrow> strcaseeq a c"
  by (simp add: strcaseeq_def)

lemma strcaseeq_cong: "strcaseeq a b \<Longrightarrow> strcaseeq a c \<longleftrightarrow> strcaseeq b c"
  by (simp add: strcaseeq_def)

lemma c_str_append_NUL: "is_c_string s \<Longrightarrow> c_str (s @ NUL # rest) = s"
  by (simp add: c_str_def is_c_string_def list_all_iff takeWhile_tail)

lemma is_c_string_simps [simp]:
  "is_c_string []" "is_c_string (c # s) \<longleftrightarrow> c \<noteq> NUL \<and> is_c_string s"
  "is_c_string (s @ t) \<longleftrightarrow> is_c_string s \<and> is_c_string t"
  by (auto simp: is_c_string_def)

lemma is_c_string_c_str [simp]: "is_c_string (c_str buf)"
  by (auto simp: c_str_def is_c_string_def list_all_iff dest: set_takeWhileD)

lemma c_str_id: "is_c_string s \<Longrightarrow> c_str s = s"
  by (simp add: c_str_def is_c_string_def list_all_iff)

lemma length_strncpy: "n \<le> length dst \<Longrightarrow> length (strncpy dst src n) = length dst"
  by (simp add: strncpy_def)

lemma strncpy_short:
  "length src \<le> n \<Longrightarrow> strncpy dst src n = src @ replicate (n - length src) NUL @ drop n dst"
  by (simp add: strncpy_def)

lemma c_str_strncpy:
  assumes "is_c_string src" and "length src < n"
  shows "c_str (strncpy dst src n) = src"
proof -
  from assms(2) obtain k where k: "n - length src = Suc k"
    by (metis Suc_diff_Suc)
  have "strncpy dst src n = src @ NUL # (replicate k NUL @ drop n dst)"
    using assms(2) k by (simp add: strncpy_short)
  with assms(1) show ?thesis by (simp add: c_str_append_NUL)
qed

section \<open>Bytes\<close>

definition byte_of_char :: "char \<Rightarrow> byte" where
  "byte_of_char c = of_nat (of_char c)"

definition char_of_byte :: "byte \<Rightarrow> char" where
  "char_of_byte b = char_of (unat b)"

text \<open>The little-endian layout of an unsigned integer in \<open>n\<close> bytes, and its reading.\<close>

fun le_enc :: "nat \<Rightarrow> nat \<Rightarrow> byte list" where
  "le_enc 0 k = []"
| "le_enc (Suc n) k = of_nat (k mod 256) # le_enc n (k div 256)"

fun le_dec :: "byte list \<Rightarrow> nat" where
  "le_dec [] = 0"
| "le_dec (b # bs) = unat b + 256 * le_dec bs"

lemma of_char_less [simp]: "(of_char c :: nat) < 256"
  by (metis of_char_mod_256 mod_less_divisor zero_less_numeral)

lemma unat_byte_less [simp]: "unat (b :: byte) < 256"
  using unsigned_less [of b, where ?'a = nat] by simp

lemma char_of_byte_of_char [simp]: "char_of_byte (byte_of_char c) = c"
  by (simp add: char_of_byte_def byte_of_char_def unat_of_nat)

lemma byte_of_char_NUL [simp]: "byte_of_char NUL = 0"
  by (simp add: byte_of_char_def NUL_def)

lemma byte_of_char_inj: "byte_of_char a = byte_of_char b \<Longrightarrow> a = b"
  by (metis char_of_byte_of_char)

lemma byte_of_char_eq_0 [simp]: "byte_of_char c = 0 \<longleftrightarrow> c = NUL"
  by (metis byte_of_char_NUL byte_of_char_inj)

lemma length_le_enc [simp]: "length (le_enc n k) = n"
  by (induction n arbitrary: k) auto

lemma le_dec_enc: "le_dec (le_enc n k) = k mod 256 ^ n"
proof (induction n arbitrary: k)
  case 0
  then show ?case by simp
next
  case (Suc n)
  have "le_dec (le_enc (Suc n) k) = k mod 256 + 256 * ((k div 256) mod 256 ^ n)"
    by (simp add: Suc.IH unat_of_nat)
  also have "\<dots> = k mod (256 * 256 ^ n)"
    by (simp add: mod_mult2_eq)
  finally show ?case by simp
qed

lemma le_dec_enc_id: "k < 256 ^ n \<Longrightarrow> le_dec (le_enc n k) = k"
  by (simp add: le_dec_enc)

lemma le_dec_less: "le_dec bs < 256 ^ length bs"
proof (induction bs)
  case Nil
  then show ?case by simp
next
  case (Cons b bs)
  from Cons have "256 * Suc (le_dec bs) \<le> 256 * 256 ^ length bs"
    by (simp only: Suc_le_eq mult_le_mono2)
  then show ?case using unat_byte_less [of b] by (simp del: unat_byte_less)
qed

lemma le_enc_dec: "le_enc (length bs) (le_dec bs) = bs"
proof (induction bs)
  case Nil
  then show ?case by simp
next
  case (Cons b bs)
  have b: "unat b < 256" by simp
  have "(unat b + 256 * le_dec bs) mod 256 = unat b"
    using b by simp
  moreover have "(unat b + 256 * le_dec bs) div 256 = le_dec bs"
    using b by simp
  ultimately show ?case using Cons by simp
qed


section \<open>Loops\<close>

text \<open>A counted loop whose body may fault.\<close>

fun fold_res :: "('b \<Rightarrow> 'a \<Rightarrow> 'a res) \<Rightarrow> 'b list \<Rightarrow> 'a \<Rightarrow> 'a res" where
  "fold_res f [] s = Inr s"
| "fold_res f (x # xs) s = bind_res (f x s) (fold_res f xs)"

lemma fold_res_append [res_simps]:
  "fold_res f (xs @ ys) s = bind_res (fold_res f xs s) (fold_res f ys)"
proof (induction xs arbitrary: s)
  case Nil
  then show ?case by simp
next
  case (Cons x xs)
  then show ?case by (cases "f x s") simp_all
qed

lemma fold_res_idle: "(\<And>x. x \<in> set xs \<Longrightarrow> f x s = Inr s) \<Longrightarrow> fold_res f xs s = Inr s"
  by (induction xs) auto

lemma fold_res_Suc: "fold_res f [0..<Suc n] s = bind_res (fold_res f [0..<n] s) (f n)"
proof -
  have "bind_res m Inr = m" for m :: "'b res" by (cases m) simp_all
  moreover have "fold_res f [] = Inr" by (rule ext) simp
  ultimately have "fold_res f [n] = f n" by (intro ext) simp
  then show ?thesis by (simp add: fold_res_append)
qed

text \<open>The rule for such a loop over \<open>0, ..., n - 1\<close>: an invariant that each turn keeps.\<close>

lemma fold_res_upt:
  assumes "P 0 s" and "\<And>i t. i < n \<Longrightarrow> P i t \<Longrightarrow> \<exists>t'. f i t = Inr t' \<and> P (Suc i) t'"
  shows "\<exists>s'. fold_res f [0..<n] s = Inr s' \<and> P n s'"
  using assms(2)
proof (induction n)
  case 0
  then show ?case using assms(1) by simp
next
  case (Suc n)
  then obtain t where t: "fold_res f [0..<n] s = Inr t" "P n t" by (meson less_SucI)
  moreover obtain t' where "f n t = Inr t'" "P (Suc n) t'"
    using Suc.prems [of n t] t(2) by auto
  ultimately show ?case by (simp add: fold_res_append)
qed

end
