(* ===== verification/Capy_Logging.thy ===== *)
theory Capy_Logging
  imports Capy_Prelude
begin

unbundle bit_operations_syntax

text \<open>
  \<open>util/logging.cpp\<close>, \<open>util/logging.hpp\<close>: the logger that everything else calls, with its channels, its destinations, the escape
  codes of the terminal and the fixed buffers a line is put together in. What \<open>vsnprintf\<close> makes of the format and the arguments, and the
  text of the date, are arguments; whether the log file can be opened is, too. The debug build is modelled: the release build's
  assignment to the channel is left out.
\<close>

section \<open>Data\<close>

definition LOGGING_MAX_LENGTH_TEXT :: nat where "LOGGING_MAX_LENGTH_TEXT = 1024"
definition LOGGING_MAX_LENGTH_DATE :: nat where "LOGGING_MAX_LENGTH_DATE = 32"
definition LOGGING_MAX_LENGTH_TOTAL :: nat where "LOGGING_MAX_LENGTH_TOTAL = LOGGING_MAX_LENGTH_TEXT + LOGGING_MAX_LENGTH_DATE"

definition CONSOLE_TERMINAL_COMMAND_PREFIX :: string where "CONSOLE_TERMINAL_COMMAND_PREFIX = CHR 0x1B # ''[''"

datatype console_color = Black | Red | Green | Yellow | Blue | Magenta | Cyan | White
  | BrightBlack | BrightRed | BrightGreen | BrightYellow | BrightBlue | BrightMagenta | BrightCyan | BrightWhite

fun color_num :: "console_color \<Rightarrow> u32" where
  "color_num Black = 0" | "color_num Red = 1" | "color_num Green = 2" | "color_num Yellow = 3" | "color_num Blue = 4"
| "color_num Magenta = 5" | "color_num Cyan = 6" | "color_num White = 7" | "color_num BrightBlack = 8" | "color_num BrightRed = 9"
| "color_num BrightGreen = 10" | "color_num BrightYellow = 11" | "color_num BrightBlue = 12" | "color_num BrightMagenta = 13"
| "color_num BrightCyan = 14" | "color_num BrightWhite = 15"

definition FirstBright :: u32 where "FirstBright = 8"

text \<open>Channels are flags; a value may have several.\<close>

definition Debug :: u32 where "Debug = 1"
definition Message :: u32 where "Message = 2"
definition Warning :: u32 where "Warning = 4"
definition Error :: u32 where "Error = 8"
definition Fatal :: u32 where "Fatal = 16"
definition SuperFatal :: u32 where "SuperFatal = 32"

definition Printf :: u32 where "Printf = 1"
definition File :: u32 where "File = 2"

record log_settings =
  fileName :: "string option"
  channels :: u32
  destination :: u32
  keepOldLogs :: bool
  changed :: bool
  suppressSignOnMessage :: bool
  fatalFunction :: "nat option"     \<comment> \<open>which function, when one is set\<close>

datatype log_handle = NoHandle | OpenHandle | ClosedHandle

text \<open>The logger, and what it has printed, written to its file and called.\<close>

record logger =
  settings :: log_settings
  handle :: log_handle
  initialised :: bool
  initFailed :: bool
  printed :: string
  logfile :: string
  fatal_calls :: "nat list"

text \<open>\<open>Logger logger = { 0 }\<close>.\<close>

definition logger0 :: logger where
  "logger0 = \<lparr>settings = \<lparr>fileName = None, channels = 0, destination = 0, keepOldLogs = False, changed = False,
     suppressSignOnMessage = False, fatalFunction = None\<rparr>, handle = NoHandle, initialised = False, initFailed = False,
     printed = [], logfile = [], fatal_calls = []\<rparr>"

definition has_flag :: "u32 \<Rightarrow> u32 \<Rightarrow> bool" where "has_flag x f \<longleftrightarrow> x AND f \<noteq> 0"

definition printf_log :: "string \<Rightarrow> logger \<Rightarrow> logger" where "printf_log s l = l\<lparr>printed := printed l @ s\<rparr>"

section \<open>The terminal's colours\<close>

fun decimal :: "nat \<Rightarrow> string" where
  "decimal n = (if n < 10 then [char_of (48 + n)] else decimal (n div 10) @ [char_of (48 + n mod 10)])"

declare decimal.simps [simp del]

definition Util_ConsoleSetForegroundColor :: "console_color \<Rightarrow> logger \<Rightarrow> logger" where
  "Util_ConsoleSetForegroundColor color =
     (let c = color_num color;
          colorFinal = (if FirstBright \<le> c then 90 + (c AND (FirstBright - 1)) else 30 + c)
      in printf_log (CONSOLE_TERMINAL_COMMAND_PREFIX @ decimal (unat colorFinal) @ ''m''))"

definition Util_ConsoleSetBackgroundColor :: "console_color \<Rightarrow> logger \<Rightarrow> logger" where
  "Util_ConsoleSetBackgroundColor color =
     (let c = color_num color;
          colorFinal = (if FirstBright \<le> c then 100 + (c AND (FirstBright - 1)) else 40 + c)
      in printf_log (CONSOLE_TERMINAL_COMMAND_PREFIX @ decimal (unat colorFinal) @ ''m''))"

definition Util_ConsoleResetForegroundColor :: "logger \<Rightarrow> logger" where
  "Util_ConsoleResetForegroundColor = printf_log (CONSOLE_TERMINAL_COMMAND_PREFIX @ ''39m'')"

definition Util_ConsoleResetBackgroundColor :: "logger \<Rightarrow> logger" where
  "Util_ConsoleResetBackgroundColor = printf_log (CONSOLE_TERMINAL_COMMAND_PREFIX @ ''49m'')"

section \<open>One line\<close>

text \<open>\<open>snprintf (buf + strlen buf, sizeof buf - strlen buf, ...)\<close>: what is appended is cut to leave room for the terminator.\<close>

definition sn_append :: "nat \<Rightarrow> string \<Rightarrow> string \<Rightarrow> string" where
  "sn_append sz buf s = buf @ take (sz - length buf - 1) s"

text \<open>The date without its last character, which is a new line.\<close>

definition log_date :: "string \<Rightarrow> string res" where
  "log_date now = (let d = take (LOGGING_MAX_LENGTH_DATE - 1) now in if d = [] then Inl OutOfBoundsWrite else Inr (butlast d))"

definition log_prefix :: "u32 \<Rightarrow> string" where
  "log_prefix channel =
     (if channel = Debug then ''[DEBUG] [''
      else if channel = Warning then ''[WARNING] [''
      else if channel = Error then ''[ERROR] [''
      else if channel = Fatal then ''[FATAL] [''
      else if channel = SuperFatal then ''[SUPER FATAL] [''
      else ''['')"

definition log_line :: "u32 \<Rightarrow> string \<Rightarrow> string \<Rightarrow> string" where
  "log_line channel date msg =
     (let buf = sn_append LOGGING_MAX_LENGTH_TOTAL [] (log_prefix channel @ date @ '']: '' @ '' '');
          buf = sn_append LOGGING_MAX_LENGTH_TOTAL buf msg
      in sn_append LOGGING_MAX_LENGTH_TOTAL buf ('' '' @ [CHR 0x0A]))"

definition log_color :: "u32 \<Rightarrow> console_color option" where
  "log_color channel =
     (if channel = Debug then Some BrightBlue
      else if channel = Warning then Some BrightYellow
      else if channel = Error \<or> channel = Fatal \<or> channel = SuperFatal then Some BrightRed
      else None)"

definition print_line :: "u32 \<Rightarrow> string \<Rightarrow> logger \<Rightarrow> logger" where
  "print_line channel line l =
     (let l = (case log_color channel of None \<Rightarrow> l | Some c \<Rightarrow> Util_ConsoleSetForegroundColor c l);
          l = Util_ConsoleResetForegroundColor (printf_log line l)
      in if has_flag channel Fatal \<and> \<not> has_flag channel SuperFatal
         then (case fatalFunction (settings l) of None \<Rightarrow> l | Some f \<Rightarrow> l\<lparr>fatal_calls := fatal_calls l @ [f]\<rparr>)
         else l)"

definition file_line :: "string \<Rightarrow> logger \<Rightarrow> logger res" where
  "file_line line l =
     (case handle l of
        NoHandle \<Rightarrow> Inl NullDeref
      | ClosedHandle \<Rightarrow> Inl UseAfterFree
      | OpenHandle \<Rightarrow> Inr (l\<lparr>logfile := logfile l @ line\<rparr>))"

text \<open>\<open>text\<close> is the format, \<open>msg\<close> what it makes of the arguments, \<open>now\<close> what \<open>ctime\<close> says.\<close>

definition Logging_Log :: "string \<Rightarrow> string \<Rightarrow> u32 \<Rightarrow> string \<Rightarrow> logger \<Rightarrow> logger res" where
  "Logging_Log text msg channel now l =
     (if \<not> initialised l \<and> \<not> initFailed l then Inr (printf_log (''SSLS: Call Logging_Init!'' @ [CHR 0x0A]) l)
      else if channels (settings l) AND channel = 0 then Inr l
      else if LOGGING_MAX_LENGTH_TEXT < length text then
        Inr (printf_log (''Log failed: Maximum log string length is '' @ decimal LOGGING_MAX_LENGTH_TEXT @ '' bytes!'') l)
      else bind_res (log_date now) (\<lambda>date.
        let line = log_line channel date msg;
            l = (if has_flag (destination (settings l)) Printf then print_line channel line l else l)
        in bind_res (if has_flag (destination (settings l)) File then file_line line l else Inr l) (\<lambda>l.
             if has_flag channel SuperFatal then Inl Terminated else Inr l)))"

definition Logging_LogChannel :: "string \<Rightarrow> string \<Rightarrow> u32 \<Rightarrow> string \<Rightarrow> logger \<Rightarrow> logger res" where
  "Logging_LogChannel text msg channel = Logging_Log text msg channel"

definition Logging_LogAll :: "string \<Rightarrow> string \<Rightarrow> string \<Rightarrow> logger \<Rightarrow> logger res" where
  "Logging_LogAll text msg = Logging_Log text msg (Debug OR Message OR Warning OR Error)"

section \<open>Starting and stopping\<close>

definition sign_on :: string where
  "sign_on = ''Starfrost Shared Logging System 4.7 (February 11, 2026)'' @ '' initialised''"

definition all_channels :: u32 where "all_channels = (Debug OR Message OR Warning OR Error OR Fatal OR SuperFatal)"

definition init_settings :: "log_settings \<Rightarrow> log_settings" where
  "init_settings st =
     (let st = (if \<not> changed st then st\<lparr>channels := all_channels, destination := Printf OR File, keepOldLogs := False\<rparr> else st)
      in if fileName st = None then st\<lparr>fileName := Some ''latest.log''\<rparr> else st)"

text \<open>\<open>can_open\<close>: whether \<open>fopen\<close> succeeds, which empties the file; \<open>errno\<close> is printed when it does not.\<close>

definition Logging_Init :: "bool \<Rightarrow> nat \<Rightarrow> string \<Rightarrow> logger \<Rightarrow> (bool \<times> logger) res" where
  "Logging_Init can_open errno now l =
     (let l = l\<lparr>settings := init_settings (settings l)\<rparr>;
          l = (if has_flag (destination (settings l)) File then
                 if can_open then l\<lparr>handle := OpenHandle, logfile := []\<rparr>
                 else (printf_log (''Log failed: 0x0002DEAD Error opening logfile '' @ the (fileName (settings l)) @ '': errno '' @
                         decimal errno @ [CHR 0x0A]) l)\<lparr>handle := NoHandle, initFailed := True\<rparr>
               else l)
      in if initFailed l then Inr (False, l)
         else let l = l\<lparr>initialised := True, initFailed := False\<rparr>
              in if suppressSignOnMessage (settings l) then Inr (True, l)
                 else map_res (Pair True) (Logging_LogChannel sign_on sign_on Debug now l))"

definition Logging_Shutdown :: "logger \<Rightarrow> logger res" where
  "Logging_Shutdown l =
     (case handle l of
        NoHandle \<Rightarrow> Inl NullDeref
      | ClosedHandle \<Rightarrow> Inl DoubleFree
      | OpenHandle \<Rightarrow> Inr (l\<lparr>handle := ClosedHandle\<rparr>))"


section \<open>Properties\<close>

lemma sn_append_cut: "sn_append (Suc n) (take n buf) s = take n (buf @ s)"
  by (cases "length buf \<le> n") (simp_all add: sn_append_def)

lemma length_le_take: "x = take n y \<Longrightarrow> length x \<le> n"
  by simp

lemma log_date_Inr: "now \<noteq> [] \<Longrightarrow> log_date now = Inr (butlast (take 31 now))"
  by (simp add: log_date_def LOGGING_MAX_LENGTH_DATE_def)

lemma length_log_prefix: "length (log_prefix channel) \<le> 15"
  by (simp add: log_prefix_def)

lemma log_line_cut:
  assumes "length date \<le> 30"
  shows "log_line channel date msg = take 1055 (log_prefix channel @ date @ '']:  '' @ msg @ '' '' @ [CHR 0x0A])"
proof -
  let ?h = "log_prefix channel @ date @ '']: '' @ '' ''"
  have n: "LOGGING_MAX_LENGTH_TOTAL = Suc 1055"
    by (simp add: LOGGING_MAX_LENGTH_TOTAL_def LOGGING_MAX_LENGTH_TEXT_def LOGGING_MAX_LENGTH_DATE_def)
  have h: "length ?h \<le> 1055" using assms length_log_prefix [of channel] by simp
  have "sn_append (Suc 1055) [] ?h = take 1055 ?h" using sn_append_cut [of 1055 "[]" ?h] by simp
  then show ?thesis
    unfolding log_line_def Let_def n by (simp only: sn_append_cut) simp
qed

text \<open>A logger that writes to its file and to the terminal.\<close>

definition logging :: "logger \<Rightarrow> bool" where
  "logging l \<longleftrightarrow> initialised l \<and> handle l = OpenHandle \<and> channels (settings l) = all_channels \<and>
     has_flag (destination (settings l)) Printf \<and> has_flag (destination (settings l)) File"

lemma print_line_file [simp]:
  "logfile (print_line c line l) = logfile l" "handle (print_line c line l) = handle l" "settings (print_line c line l) = settings l"
  "initialised (print_line c line l) = initialised l"
  by (auto simp: print_line_def printf_log_def Let_def Util_ConsoleSetForegroundColor_def Util_ConsoleResetForegroundColor_def split: option.splits)

text \<open>The escape codes around a line on the terminal.\<close>

definition color_codes :: "u32 \<Rightarrow> string" where
  "color_codes channel = (case log_color channel of None \<Rightarrow> [] | Some c \<Rightarrow> printed (Util_ConsoleSetForegroundColor c logger0))"

definition color_end :: string where "color_end = printed (Util_ConsoleResetForegroundColor logger0)"

lemma print_line_printed: "printed (print_line channel line l) = printed l @ color_codes channel @ line @ color_end"
  by (auto simp: print_line_def color_codes_def color_end_def printf_log_def Let_def Util_ConsoleSetForegroundColor_def
      Util_ConsoleResetForegroundColor_def logger0_def split: option.splits)

lemma log_written:
  assumes "logging l" and "length text \<le> LOGGING_MAX_LENGTH_TEXT" and "now \<noteq> []" and "channel \<in> {Message, Debug, Warning, Error, Fatal}"
  shows "\<exists>l' line. Logging_LogChannel text msg channel now l = Inr l' \<and> logging l' \<and> logfile l' = logfile l @ line \<and>
    printed l' = printed l @ color_codes channel @ line @ color_end \<and>
    line = take (LOGGING_MAX_LENGTH_TOTAL - 1) (log_prefix channel @ butlast (take 31 now) @ '']:  '' @ msg @ '' '' @ [CHR 0x0A]) \<and>
    length line < LOGGING_MAX_LENGTH_TOTAL"
proof -
  have ch: "channels (settings l) AND channel \<noteq> 0" "\<not> has_flag channel SuperFatal"
    using assms(1,4) by (auto simp: logging_def all_channels_def has_flag_def Message_def Debug_def Warning_def Error_def Fatal_def SuperFatal_def)
  have d: "length (butlast (take 31 now)) \<le> 30" by simp
  define line where "line = log_line channel (butlast (take 31 now)) msg"
  let ?l' = "(print_line channel line l)\<lparr>logfile := logfile l @ line\<rparr>"
  have log: "Logging_LogChannel text msg channel now l = Inr ?l'"
    using assms(1,2,3) ch by (simp add: Logging_LogChannel_def Logging_Log_def logging_def log_date_Inr file_line_def Let_def line_def)
  have ok: "logging ?l'" "logfile ?l' = logfile l @ line" "printed ?l' = printed l @ color_codes channel @ line @ color_end"
    using assms(1) by (simp_all add: logging_def print_line_printed)
  have line: "line = take (LOGGING_MAX_LENGTH_TOTAL - 1) (log_prefix channel @ butlast (take 31 now) @ '']:  '' @ msg @ '' '' @ [CHR 0x0A])"
    unfolding line_def log_line_cut [OF d] by (simp only: LOGGING_MAX_LENGTH_TOTAL_def LOGGING_MAX_LENGTH_TEXT_def LOGGING_MAX_LENGTH_DATE_def) simp
  have "0 < LOGGING_MAX_LENGTH_TOTAL" by (simp add: LOGGING_MAX_LENGTH_TOTAL_def LOGGING_MAX_LENGTH_TEXT_def)
  then have "length line < LOGGING_MAX_LENGTH_TOTAL" using length_le_take [OF line] by linarith
  then show ?thesis using log ok line by blast
qed


definition logger1 :: logger where
  "logger1 = logger0\<lparr>settings := init_settings (settings logger0), handle := OpenHandle, initialised := True\<rparr>"


text \<open>
  A log file that cannot be opened is not survived: \<open>Logging_Init\<close> says that it failed, and the next message on any channel, which
  the engine logs at once, is written through the null handle.
\<close>

theorem log_after_failed_init:
  assumes "\<not> changed (settings l)" and "length text \<le> LOGGING_MAX_LENGTH_TEXT" and "now \<noteq> []"
    and "channel \<in> {Message, Debug, Warning, Error, Fatal, SuperFatal}"
  shows "\<exists>l'. Logging_Init False errno now l = Inr (False, l') \<and> Logging_LogChannel text msg channel now l' = Inl NullDeref"
proof -
  let ?st = "init_settings (settings l)"
  have st: "channels ?st AND channel \<noteq> 0" "has_flag (destination ?st) File"
    using assms(1,4) by (auto simp: init_settings_def all_channels_def has_flag_def File_def Printf_def Let_def
        Message_def Debug_def Warning_def Error_def Fatal_def SuperFatal_def)
  obtain l' where l': "Logging_Init False errno now l = Inr (False, l')" "settings l' = ?st" "handle l' = NoHandle" "initFailed l'"
    using st(2) by (simp add: Logging_Init_def Let_def printf_log_def)
  then have "Logging_LogChannel text msg channel now l' = Inl NullDeref"
    using st assms(2,3) by (simp add: Logging_LogChannel_def Logging_Log_def log_date_Inr file_line_def Let_def)
  then show ?thesis using l'(1) by blast
qed

theorem log_after_failed_init_witness:
  "\<exists>l'. Logging_Init False 13 ''now'' logger0 = Inr (False, l') \<and> Logging_LogChannel ''x'' ''x'' Message ''now'' l' = Inl NullDeref"
  using log_after_failed_init [of logger0 "''x''" "''now''" Message 13 "''x''"]
  by (simp add: logger0_def LOGGING_MAX_LENGTH_TEXT_def)

end
