(* ===== verification/Capy_Memory.thy ===== *)
theory Capy_Memory
  imports Capy_Logging
begin

text \<open>
  \<open>core/tier0/memory/memory.cpp\<close> and the copy in \<open>tools/brewery/memory/memory.cpp\<close>: the replaced allocation operators, which count the
  allocations and the bytes. \<open>malloc\<close>'s answer, whether \<open>-memdebug\<close> was given, and the text that \<open>%x\<close> makes of a pointer are arguments; the
  debug build is modelled.
\<close>

section \<open>Data\<close>

record memory =
  sysTotalRam :: u64
  sysNumAllocs :: u64

definition memory0 :: memory where "memory0 = \<lparr>sysTotalRam = 0, sysNumAllocs = 0\<rparr>"

definition POINTER_SIZE :: u64 where "POINTER_SIZE = 8"

text \<open>What \<open>%ld\<close> prints.\<close>

definition show_ld :: "u64 \<Rightarrow> string" where
  "show_ld w = (if sint w < 0 then CHR ''-'' # decimal (nat (- sint w)) else decimal (nat (sint w)))"

type_synonym mem_log = "memory \<times> logger"

definition log_when :: "bool \<Rightarrow> string \<Rightarrow> string \<Rightarrow> u32 \<Rightarrow> string \<Rightarrow> logger \<Rightarrow> logger res" where
  "log_when b text msg channel now l = (if b then Logging_LogChannel text msg channel now l else Inr l)"

section \<open>The engine's operators\<close>

definition operator_new :: "bool \<Rightarrow> string \<Rightarrow> nat option \<Rightarrow> u64 \<Rightarrow> mem_log \<Rightarrow> (nat option \<times> mem_log) res" where
  "operator_new memdebug now ptr sz = (\<lambda>(m, l).
     let m = m\<lparr>sysNumAllocs := sysNumAllocs m + 1, sysTotalRam := sysTotalRam m + sz\<rparr>
     in bind_res (log_when (ptr = None) ''**** Internal Problem **** Failed to allocate %ld bytes.''
                   (''**** Internal Problem **** Failed to allocate '' @ show_ld sz @ '' bytes.'') SuperFatal now l) (\<lambda>l.
        map_res (\<lambda>l. (ptr, m, l))
          (log_when memdebug ''operator new: Allocated %ld bytes (total is now %ld)''
             (''operator new: Allocated '' @ show_ld sz @ '' bytes (total is now '' @ show_ld (sysTotalRam m) @ '')'') Debug now l)))"

definition operator_new_array :: "bool \<Rightarrow> string \<Rightarrow> nat option \<Rightarrow> u64 \<Rightarrow> mem_log \<Rightarrow> (nat option \<times> mem_log) res" where
  "operator_new_array memdebug now ptr sz = (\<lambda>(m, l).
     let m = m\<lparr>sysNumAllocs := sysNumAllocs m + 1, sysTotalRam := sysTotalRam m + sz\<rparr>
     in bind_res (log_when (ptr = None) ''**** Internal Problem **** operator new[]: Failed to allocate %ld bytes.''
                   (''**** Internal Problem **** operator new[]: Failed to allocate '' @ show_ld sz @ '' bytes.'') SuperFatal now l) (\<lambda>l.
        map_res (\<lambda>l. (ptr, m, l))
          (log_when memdebug ''operator new[]: Allocated %ld bytes (total is now %ld)''
             (''operator new[]: Allocated '' @ show_ld sz @ '' bytes (total is now '' @ show_ld (sysTotalRam m) @ '')'') Debug now l)))"

text \<open>The size that is subtracted is the pointer's, not the block's.\<close>

definition operator_delete :: "bool \<Rightarrow> string \<Rightarrow> string \<Rightarrow> nat option \<Rightarrow> mem_log \<Rightarrow> mem_log res" where
  "operator_delete memdebug now hex p = (\<lambda>(m, l).
     bind_res (log_when (p = None) ''**** Internal Problem **** operator delete: Failed to free memory at 0x%x.''
       (''**** Internal Problem **** operator delete: Failed to free memory at 0x'' @ hex @ ''.'') SuperFatal now l) (\<lambda>l.
     bind_res (log_when (sysNumAllocs m = 0) ''**** Internal Problem **** operator delete: Tried to free 0x%x with no allocations!''
       (''**** Internal Problem **** operator delete: Tried to free 0x'' @ hex @ '' with no allocations!'') SuperFatal now l) (\<lambda>l.
     let m = m\<lparr>sysNumAllocs := sysNumAllocs m - 1, sysTotalRam := sysTotalRam m - POINTER_SIZE\<rparr>
     in map_res (Pair m)
          (log_when memdebug ''operator delete: Freed %ld bytes (total is now %ld)''
             (''operator delete: Freed '' @ show_ld POINTER_SIZE @ '' bytes (total is now '' @ show_ld (sysTotalRam m) @ '')'') Debug now l))))"

definition operator_delete_array :: "bool \<Rightarrow> string \<Rightarrow> string \<Rightarrow> nat option \<Rightarrow> mem_log \<Rightarrow> mem_log res" where
  "operator_delete_array memdebug now hex p = (\<lambda>(m, l).
     bind_res (log_when (p = None) ''**** Internal Problem **** operator delete[]: Failed to free memory at 0x%x.''
       (''**** Internal Problem **** operator delete[]: Failed to free memory at 0x'' @ hex @ ''.'') SuperFatal now l) (\<lambda>l.
     bind_res (log_when (sysNumAllocs m = 0) ''**** Internal Problem **** operator delete[]: Tried to free 0x%x with no allocations!''
       (''**** Internal Problem **** operator delete[]: Tried to free 0x'' @ hex @ '' with no allocations!'') SuperFatal now l) (\<lambda>l.
     let m = m\<lparr>sysNumAllocs := sysNumAllocs m - 1, sysTotalRam := sysTotalRam m - POINTER_SIZE\<rparr>
     in map_res (Pair m)
          (log_when memdebug ''operator delete[]: Freed %ld bytes (total is now %ld)''
             (''operator delete[]: Freed '' @ show_ld POINTER_SIZE @ '' bytes (total is now '' @ show_ld (sysTotalRam m) @ '')'') Debug now l))))"

definition Memory_GetTotalRam :: "memory \<Rightarrow> u64" where "Memory_GetTotalRam m = sysTotalRam m"
definition Memory_GetNumAllocs :: "memory \<Rightarrow> u64" where "Memory_GetNumAllocs m = sysNumAllocs m"

section \<open>The tool's operators\<close>

text \<open>They throw \<open>std::bad_alloc\<close>, which nobody catches, and print the sizes with \<open>%d\<close>.\<close>

definition show_d :: "u64 \<Rightarrow> string" where
  "show_d w = (let k = sint (ucast w :: u32) in if k < 0 then CHR ''-'' # decimal (nat (- k)) else decimal (nat k))"

definition throw_when :: "bool \<Rightarrow> unit res" where "throw_when b = (if b then Inl Terminated else Inr ())"

definition brewery_operator_new :: "bool \<Rightarrow> string \<Rightarrow> nat option \<Rightarrow> u64 \<Rightarrow> mem_log \<Rightarrow> (nat option \<times> mem_log) res" where
  "brewery_operator_new memdebug now ptr sz = (\<lambda>(m, l).
     let m = m\<lparr>sysNumAllocs := sysNumAllocs m + 1, sysTotalRam := sysTotalRam m + sz\<rparr>
     in bind_res (throw_when (ptr = None)) (\<lambda>_.
        map_res (\<lambda>l. (ptr, m, l))
          (log_when memdebug ''operator new: Allocated %d bytes (total is now %d)''
             (''operator new: Allocated '' @ show_d sz @ '' bytes (total is now '' @ show_d (sysTotalRam m) @ '')'') Debug now l)))"

definition brewery_operator_new_array :: "bool \<Rightarrow> string \<Rightarrow> nat option \<Rightarrow> u64 \<Rightarrow> mem_log \<Rightarrow> (nat option \<times> mem_log) res" where
  "brewery_operator_new_array memdebug now ptr sz = (\<lambda>(m, l).
     let m = m\<lparr>sysNumAllocs := sysNumAllocs m + 1, sysTotalRam := sysTotalRam m + sz\<rparr>
     in bind_res (throw_when (ptr = None)) (\<lambda>_.
        map_res (\<lambda>l. (ptr, m, l))
          (log_when memdebug ''operator new[]: Allocated %d bytes (total is now %d)''
             (''operator new[]: Allocated '' @ show_d sz @ '' bytes (total is now '' @ show_d (sysTotalRam m) @ '')'') Debug now l)))"

definition brewery_operator_delete :: "bool \<Rightarrow> string \<Rightarrow> nat option \<Rightarrow> mem_log \<Rightarrow> mem_log res" where
  "brewery_operator_delete memdebug now p = (\<lambda>(m, l).
     bind_res (throw_when (p = None)) (\<lambda>_.
     bind_res (throw_when (sysNumAllocs m = 0)) (\<lambda>_.
     let m = m\<lparr>sysNumAllocs := sysNumAllocs m - 1, sysTotalRam := sysTotalRam m - POINTER_SIZE\<rparr>
     in map_res (Pair m)
          (log_when memdebug ''operator delete: Freed %d bytes (total is now %d)''
             (''operator delete: Freed '' @ show_d POINTER_SIZE @ '' bytes (total is now '' @ show_d (sysTotalRam m) @ '')'') Debug now l))))"

definition brewery_operator_delete_array :: "bool \<Rightarrow> string \<Rightarrow> nat option \<Rightarrow> mem_log \<Rightarrow> mem_log res" where
  "brewery_operator_delete_array memdebug now p = (\<lambda>(m, l).
     bind_res (throw_when (p = None)) (\<lambda>_.
     bind_res (throw_when (sysNumAllocs m = 0)) (\<lambda>_.
     let m = m\<lparr>sysNumAllocs := sysNumAllocs m - 1, sysTotalRam := sysTotalRam m - POINTER_SIZE\<rparr>
     in map_res (Pair m)
          (log_when memdebug ''operator delete[]: Freed %d bytes (total is now %d)''
             (''operator delete[]: Freed '' @ show_d POINTER_SIZE @ '' bytes (total is now '' @ show_d (sysTotalRam m) @ '')'') Debug now l))))"

section \<open>What the counters count\<close>

datatype mem_op = New u64 "nat option" | NewArray u64 "nat option" | Delete "nat option" | DeleteArray "nat option"

fun mem_do :: "string \<Rightarrow> string \<Rightarrow> mem_op \<Rightarrow> mem_log \<Rightarrow> mem_log res" where
  "mem_do now hex (New sz p) s = map_res snd (operator_new False now p sz s)"
| "mem_do now hex (NewArray sz p) s = map_res snd (operator_new_array False now p sz s)"
| "mem_do now hex (Delete p) s = operator_delete False now hex p s"
| "mem_do now hex (DeleteArray p) s = operator_delete_array False now hex p s"

fun allocs :: "mem_op list \<Rightarrow> nat" where
  "allocs [] = 0"
| "allocs (New _ _ # os) = Suc (allocs os)"
| "allocs (NewArray _ _ # os) = Suc (allocs os)"
| "allocs (_ # os) = allocs os"

fun frees :: "mem_op list \<Rightarrow> nat" where
  "frees [] = 0"
| "frees (Delete _ # os) = Suc (frees os)"
| "frees (DeleteArray _ # os) = Suc (frees os)"
| "frees (_ # os) = frees os"

fun bytes :: "mem_op list \<Rightarrow> nat" where
  "bytes [] = 0"
| "bytes (New sz _ # os) = unat sz + bytes os"
| "bytes (NewArray sz _ # os) = unat sz + bytes os"
| "bytes (_ # os) = bytes os"


text \<open>With a working logger nothing survives a super-fatal message.\<close>

lemma super_fatal:
  assumes "logging l" and "now \<noteq> []" and "length text \<le> LOGGING_MAX_LENGTH_TEXT"
  shows "log_when b text msg SuperFatal now l = (if b then Inl Terminated else Inr l)"
proof -
  have "channels (settings l) AND SuperFatal \<noteq> 0" "has_flag SuperFatal SuperFatal"
    using assms(1) by (simp_all add: logging_def all_channels_def has_flag_def Message_def Debug_def Warning_def Error_def Fatal_def SuperFatal_def)
  then have "Logging_LogChannel text msg SuperFatal now l = Inl Terminated"
    using assms by (simp add: Logging_LogChannel_def Logging_Log_def logging_def log_date_Inr file_line_def Let_def)
  then show ?thesis by (simp add: log_when_def)
qed

lemma log_when_False [simp]: "log_when False text msg ch now l = Inr l"
  by (simp add: log_when_def)

text \<open>What one operator does then.\<close>

definition mem_effect :: "mem_op \<Rightarrow> memory \<Rightarrow> memory res" where
  "mem_effect op m =
     (case op of
        New sz p \<Rightarrow> if p = None then Inl Terminated else Inr \<lparr>sysTotalRam = sysTotalRam m + sz, sysNumAllocs = sysNumAllocs m + 1\<rparr>
      | NewArray sz p \<Rightarrow> if p = None then Inl Terminated else Inr \<lparr>sysTotalRam = sysTotalRam m + sz, sysNumAllocs = sysNumAllocs m + 1\<rparr>
      | Delete p \<Rightarrow> if p = None \<or> sysNumAllocs m = 0 then Inl Terminated else Inr \<lparr>sysTotalRam = sysTotalRam m - 8, sysNumAllocs = sysNumAllocs m - 1\<rparr>
      | DeleteArray p \<Rightarrow> if p = None \<or> sysNumAllocs m = 0 then Inl Terminated else Inr \<lparr>sysTotalRam = sysTotalRam m - 8, sysNumAllocs = sysNumAllocs m - 1\<rparr>)"

lemma mem_do_effect:
  assumes "logging l" and "now \<noteq> []"
  shows "mem_do now hex op (m, l) = map_res (\<lambda>m. (m, l)) (mem_effect op m)"
  by (cases op; cases m) (simp_all add: operator_new_def operator_new_array_def operator_delete_def operator_delete_array_def
      super_fatal [OF assms] LOGGING_MAX_LENGTH_TEXT_def mem_effect_def POINTER_SIZE_def map_res_def)

lemma mem_run_counts:
  assumes "logging l" and "now \<noteq> []"
  shows "fold_res (mem_do now hex) os (m, l) = Inr (m', l') \<Longrightarrow> unat (sysNumAllocs m) + allocs os < 2 ^ 64 \<Longrightarrow>
    l' = l \<and> frees os \<le> unat (sysNumAllocs m) + allocs os \<and> unat (sysNumAllocs m') = unat (sysNumAllocs m) + allocs os - frees os \<and>
    sysTotalRam m' = sysTotalRam m + of_nat (bytes os) - 8 * of_nat (frees os)"
proof (induction os arbitrary: m)
  case Nil
  then show ?case by simp
next
  case (Cons op os)
  from Cons.prems(1) obtain u where u: "mem_effect op m = Inr u" "fold_res (mem_do now hex) os (u, l) = Inr (m', l')"
    by (auto simp: mem_do_effect [OF assms] bind_res_eq_Inr map_res_def)
  have up: "unat (sysNumAllocs m + 1) = unat (sysNumAllocs m) + 1" if "unat (sysNumAllocs m) + 1 < 2 ^ 64"
    using that by (simp add: unat_word_ariths)
  have down: "unat (sysNumAllocs m - 1) + 1 = unat (sysNumAllocs m)" if "sysNumAllocs m \<noteq> 0"
    using that by (simp add: unat_minus_one unat_gt_0)
  show ?case
    using u(1) Cons.IH [OF u(2)] Cons.prems(2) up down
    by (cases op) (auto simp: mem_effect_def algebra_simps split: if_splits)
qed

text \<open>
  What the allocator's counters are worth, with a working logger: in any run that survives, no more blocks are freed than were
  allocated and the number of allocations is exact; but the total is the bytes allocated less eight for each block that was freed,
  whatever its size, modulo the machine word.
\<close>

theorem memory_counters:
  assumes "logging l" and "now \<noteq> []" and "fold_res (mem_do now hex) os (memory0, l) = Inr (m, l')" and "allocs os < 2 ^ 64"
  shows "frees os \<le> allocs os \<and> unat (Memory_GetNumAllocs m) = allocs os - frees os \<and>
    Memory_GetTotalRam m = of_nat (bytes os) - 8 * of_nat (frees os)"
  using mem_run_counts [OF assms(1,2,3)] assms(4) by (simp add: memory0_def Memory_GetNumAllocs_def Memory_GetTotalRam_def)

lemma logging_logger1: "logging logger1"
  by (simp add: logging_def logger1_def logger0_def init_settings_def has_flag_def Printf_def File_def Let_def)

theorem memory_counters_witness:
  "\<exists>m. fold_res (mem_do ''now'' ''0'') [New 100 (Some 1), NewArray 4 (Some 2), Delete (Some 1), DeleteArray (Some 2)] (memory0, logger1) = Inr (m, logger1) \<and>
    Memory_GetNumAllocs m = 0 \<and> Memory_GetTotalRam m = 88"
proof -
  let ?os = "[New 100 (Some 1), NewArray 4 (Some 2), Delete (Some 1), DeleteArray (Some 2)]"
  obtain m where m: "fold_res (mem_do ''now'' ''0'') ?os (memory0, logger1) = Inr (m, logger1)"
    by (simp add: mem_do_effect [OF logging_logger1] mem_effect_def memory0_def del: mem_do.simps)
  from memory_counters [OF logging_logger1 _ this] show ?thesis
    using m by (auto simp: unat_eq_0)
qed

end
