(* ===== verification/Capy_Stream.thy ===== *)
theory Capy_Stream
  imports Capy_Prelude
begin

text \<open>
  \<open>std::fstream\<close> as the source uses it: a disk of files, and a stream with its open mode, its
  position and its three state bits. Every write reaches the disk at once (the source never
  reads a file that another of its streams still holds unflushed data for).
\<close>

record disk =
  files :: "string \<Rightarrow> byte list option"
  dirs :: "string \<Rightarrow> bool"
  creatable :: "string \<Rightarrow> bool"       \<comment> \<open>the paths the system lets the program create or truncate\<close>

definition path_exists :: "disk \<Rightarrow> string \<Rightarrow> bool" where
  "path_exists d p = (files d p \<noteq> None \<or> dirs d p)"

definition file_bytes :: "disk \<Rightarrow> string \<Rightarrow> byte list" where
  "file_bytes d p = (case files d p of None \<Rightarrow> [] | Some bs \<Rightarrow> bs)"

record stream =
  st_open :: bool
  st_path :: string
  st_in :: bool
  st_out :: bool
  st_pos :: nat
  st_eof :: bool
  st_fail :: bool
  st_bad :: bool

definition stream0 :: stream where
  "stream0 = \<lparr>st_open = False, st_path = [], st_in = False, st_out = False, st_pos = 0,
     st_eof = False, st_fail = False, st_bad = False\<rparr>"

definition st_good :: "stream \<Rightarrow> bool" where
  "st_good st = (\<not> st_eof st \<and> \<not> st_fail st \<and> \<not> st_bad st)"

text \<open>\<open>fail()\<close> tests both bits, \<open>bad()\<close> only the bad bit.\<close>

definition st_failed :: "stream \<Rightarrow> bool" where
  "st_failed st = (st_fail st \<or> st_bad st)"

text \<open>\<open>open(path, mode)\<close>: sets the fail bit, and only it, when it cannot open the file; clears the
  bits when it can. The modes are \<open>in\<close>, \<open>out|trunc\<close> and \<open>in|out|trunc\<close>.\<close>

definition stream_open :: "string \<Rightarrow> bool \<Rightarrow> bool \<Rightarrow> disk \<Rightarrow> stream \<Rightarrow> disk \<times> stream" where
  "stream_open p inp trunc d st =
     (let opened = \<lparr>st_open = True, st_path = p, st_in = inp, st_out = trunc, st_pos = 0,
                     st_eof = False, st_fail = False, st_bad = False\<rparr>
      in if st_open st then (d, st\<lparr>st_fail := True\<rparr>)
         else if trunc then
           (if creatable d p then (d\<lparr>files := (files d)(p \<mapsto> [])\<rparr>, opened) else (d, st\<lparr>st_fail := True\<rparr>))
         else if files d p \<noteq> None then (d, opened)
         else (d, st\<lparr>st_fail := True\<rparr>))"

definition stream_close :: "stream \<Rightarrow> stream" where
  "stream_close st =
     (if st_open st then st\<lparr>st_open := False, st_in := False, st_out := False\<rparr> else st\<lparr>st_fail := True\<rparr>)"

text \<open>\<open>read(p, n)\<close>: the bytes it stores (\<open>gcount()\<close> is their number).\<close>

definition stream_read :: "nat \<Rightarrow> disk \<Rightarrow> stream \<Rightarrow> byte list \<times> stream" where
  "stream_read n d st =
     (if \<not> st_good st then ([], st\<lparr>st_fail := True\<rparr>)
      else if \<not> st_in st then ([], st\<lparr>st_eof := True, st_fail := True\<rparr>)
      else let bs = take n (drop (st_pos st) (file_bytes d (st_path st)));
               st' = st\<lparr>st_pos := st_pos st + length bs\<rparr>
           in (bs, if length bs < n then st'\<lparr>st_eof := True, st_fail := True\<rparr> else st'))"

text \<open>\<open>get()\<close>: \<open>None\<close> is \<open>EOF\<close>.\<close>

definition stream_get :: "disk \<Rightarrow> stream \<Rightarrow> byte option \<times> stream" where
  "stream_get d st =
     (let (bs, st') = stream_read 1 d st in (case bs of [] \<Rightarrow> None | b # _ \<Rightarrow> Some b, st'))"

definition put_at :: "nat \<Rightarrow> byte list \<Rightarrow> byte list \<Rightarrow> byte list" where
  "put_at k bs f = take k (f @ replicate (k - length f) 0) @ bs @ drop (k + length bs) f"

definition stream_write :: "byte list \<Rightarrow> disk \<Rightarrow> stream \<Rightarrow> disk \<times> stream" where
  "stream_write bs d st =
     (if \<not> st_good st then (d, st)
      else if \<not> st_out st then (d, st\<lparr>st_bad := True\<rparr>)
      else (d\<lparr>files := (files d)(st_path st \<mapsto> put_at (st_pos st) bs (file_bytes d (st_path st)))\<rparr>,
            st\<lparr>st_pos := st_pos st + length bs\<rparr>))"

text \<open>\<open>getline(buf, n)\<close>: the characters it stores before the terminating NUL.\<close>

definition stream_getline :: "nat \<Rightarrow> disk \<Rightarrow> stream \<Rightarrow> string \<times> stream" where
  "stream_getline n d st =
     (if \<not> st_good st then ([], st\<lparr>st_fail := True\<rparr>)
      else if \<not> st_in st then ([], st\<lparr>st_eof := True, st_fail := True\<rparr>)
      else let rest = map char_of_byte (drop (st_pos st) (file_bytes d (st_path st)));
               line = takeWhile (\<lambda>c. c \<noteq> CHR 0x0A) rest
           in if n - 1 < length line then
                (take (n - 1) line, st\<lparr>st_pos := st_pos st + (n - 1), st_fail := True\<rparr>)
              else if length line < length rest then
                (line, st\<lparr>st_pos := st_pos st + length line + 1\<rparr>)
              else (line, st\<lparr>st_pos := st_pos st + length line, st_eof := True,
                            st_fail := (st_fail st \<or> line = [])\<rparr>))"

text \<open>\<open>tellp()\<close> is \<open>None\<close> for -1; \<open>seekp\<close> does nothing on a failed stream; \<open>seekg\<close> clears the
  end-of-file bit first.\<close>

definition stream_tellp :: "stream \<Rightarrow> nat option" where
  "stream_tellp st = (if st_failed st then None else Some (st_pos st))"

definition stream_seekp :: "nat \<Rightarrow> stream \<Rightarrow> stream" where
  "stream_seekp k st = (if st_failed st then st else st\<lparr>st_pos := k\<rparr>)"

definition stream_seekg :: "nat \<Rightarrow> stream \<Rightarrow> stream" where
  "stream_seekg k st = (let st' = st\<lparr>st_eof := False\<rparr> in if st_failed st' then st' else st'\<lparr>st_pos := k\<rparr>)"

section \<open>Lemmas\<close>

named_theorems stream_simps "a stream in a known state"

text \<open>A stream that was opened for writing and has written everything so far.\<close>

definition writing :: "disk \<Rightarrow> stream \<Rightarrow> string \<Rightarrow> byte list \<Rightarrow> bool" where
  "writing d st p bs = (st_open st \<and> st_good st \<and> st_out st \<and> st_path st = p \<and>
     files d p = Some bs \<and> st_pos st = length bs)"

lemma put_at_end [simp]: "put_at (length f) bs f = f @ bs"
  by (simp add: put_at_def)

lemma stream_open_writing:
  assumes "\<not> st_open st" and "creatable d p" and "stream_open p i True d st = (d', st')"
  shows "writing d' st' p []" and "\<And>q. q \<noteq> p \<Longrightarrow> files d' q = files d q"
    and "creatable d' = creatable d" and "dirs d' = dirs d"
  using assms by (auto simp: stream_open_def writing_def st_good_def)

lemma stream_write_writing:
  assumes "writing d st p bs" and "stream_write cs d st = (d', st')"
  shows "writing d' st' p (bs @ cs)" and "\<And>q. q \<noteq> p \<Longrightarrow> files d' q = files d q"
    and "creatable d' = creatable d" and "dirs d' = dirs d"
  using assms by (auto simp: stream_write_def writing_def st_good_def file_bytes_def)

lemma stream_write_cases:
  assumes "stream_write bs d st = (d', st')"
  shows "(\<forall>q. q \<noteq> st_path st \<longrightarrow> files d' q = files d q) \<and> st_path st' = st_path st \<and> st_open st' = st_open st"
  using assms by (auto simp: stream_write_def split: if_splits)

lemma stream_read_not_in:
  "\<not> st_in st \<Longrightarrow> fst (stream_read n d st) = []"
  by (simp add: stream_read_def)

text \<open>Reading back a file from its start.\<close>

lemma stream_open_read:
  assumes "\<not> st_open st" and "files d p = Some bs"
  shows "stream_open p True False d st = (d, \<lparr>st_open = True, st_path = p, st_in = True, st_out = False,
     st_pos = 0, st_eof = False, st_fail = False, st_bad = False\<rparr>)"
  using assms by (simp add: stream_open_def)

end
