(* ===== verification/Capy_Beer.thy ===== *)
theory Capy_Beer
  imports Capy_Stream
begin

text \<open>
  The package file ("beerfile") writer, which the engine (\<open>core/filesystem/filesystem.cpp\<close>) and the
  packaging tool (\<open>tools/brewery/filesystem/filesystem.hpp\<close>) share: adding a file, which strips the
  base directory off its path, and writing the header, the entries and the files' contents. The two
  copies differ in where the base directory is kept and in the entry's \<open>id\<close>, which only the engine
  has; both are arguments here.
\<close>

section \<open>Data\<close>

definition MAX_PATH :: nat where "MAX_PATH = 260"
definition PACKAGE_EXTENSION :: string where "PACKAGE_EXTENSION = ''.beer''"
definition PACKAGE_MAGIC :: nat where "PACKAGE_MAGIC = 0x52454542"
definition PACKAGE_VERSION :: nat where "PACKAGE_VERSION = 1"
definition PACKAGE_CHUNK_SIZE :: nat where "PACKAGE_CHUNK_SIZE = 1048576"

record beer_header =
  magic :: nat
  version :: nat
  numFiles :: nat

record beer_entry =
  be_path :: string
  be_location :: nat
  be_size :: nat
  be_id :: int

section \<open>Adding a file\<close>

text \<open>The loop that looks for the end of the base directory; its index is incremented in the body
  and once more in the header.\<close>

function basedir_end :: "string \<Rightarrow> string \<Rightarrow> nat \<Rightarrow> nat" where
  "basedir_end path basedir pos =
     (if \<not> pos < length path then pos
      else if length basedir \<le> pos then pos
      else if path ! pos \<noteq> basedir ! pos then pos
      else basedir_end path basedir (pos + 2))"
  by pat_completeness auto
termination by (relation "measure (\<lambda>(path, basedir, pos). length path - pos)") auto

declare basedir_end.simps [simp del]

text \<open>\<open>strncpy (buf, buf + pos, len)\<close> for the \<open>len\<close> characters that are left. The two ranges must not overlap, or the behaviour is
  undefined: they do when more is left than is dropped.\<close>

definition shift_down :: "string \<Rightarrow> nat \<Rightarrow> string res" where
  "shift_down buf pos = (if pos < length buf - pos then Inl OverlappingCopy else Inr (drop pos buf))"

text \<open>The rest of the path, shifted to the buffer's start. A position past the terminator makes the
  remaining length wrap around and the copy run off the buffer.\<close>

definition strip_basedir :: "string \<Rightarrow> string \<Rightarrow> string res" where
  "strip_basedir basedir path =
     (let pos = basedir_end path basedir 0;
          pos' = (if pos < length path \<and> (path ! pos = CHR 0x5C \<or> path ! pos = CHR ''/'') then pos + 1 else pos)
      in if length path < pos' then Inl OutOfBoundsWrite else shift_down path pos')"

text \<open>\<open>AddFile\<close>: \<open>None\<close> when there is no such file. The size of a directory is an exception nobody
  catches, and a path that fills its buffer has no terminator.\<close>

definition add_entry :: "string \<Rightarrow> int \<Rightarrow> disk \<Rightarrow> string \<Rightarrow> beer_entry option res" where
  "add_entry basedir junk d path =
     (if \<not> path_exists d path then Inr None
      else case files d path of
        None \<Rightarrow> Inl Terminated
      | Some content \<Rightarrow>
          if MAX_PATH \<le> length path then Inl OutOfBoundsRead
          else map_res (\<lambda>p. Some \<lparr>be_path = p, be_location = 0, be_size = length content, be_id = junk\<rparr>)
                 (strip_basedir basedir path))"

section \<open>Writing a package\<close>

definition image_open :: "string \<Rightarrow> disk \<Rightarrow> stream \<Rightarrow> bool \<times> disk \<times> stream" where
  "image_open path d st =
     (if \<not> strstr path PACKAGE_EXTENSION then (False, d, st)
      else let (d', st') = stream_open path False True d st
           in (\<not> st_bad st', d', st'))"

definition header_bytes :: "beer_header \<Rightarrow> byte list" where
  "header_bytes h = le_enc 4 (magic h) @ le_enc 4 (version h) @ le_enc 4 (numFiles h)"

definition name_bytes :: "string \<Rightarrow> byte list" where
  "name_bytes p = map byte_of_char p @ [0]"

fun write_entries :: "beer_entry list \<Rightarrow> nat \<Rightarrow> disk \<Rightarrow> stream \<Rightarrow> disk \<times> stream" where
  "write_entries [] loc d st = (d, st)"
| "write_entries (e # es) loc d st =
     (let (d, st) = stream_write (le_enc 8 (be_size e)) d st;
          (d, st) = stream_write (le_enc 8 loc) d st;
          (d, st) = stream_write (name_bytes (be_path e)) d st
      in write_entries es (loc + be_size e) d st)"

text \<open>The chunk loop of one file. It ends unless the file read grows as fast as the package.\<close>

partial_function (option) copy_chunks :: "nat \<Rightarrow> disk \<Rightarrow> stream \<Rightarrow> stream \<Rightarrow> (nat \<times> disk \<times> stream \<times> stream) option" where
  "copy_chunks gcount d tmp st =
     (if st_eof tmp \<or> st_failed tmp then Some (gcount, d, tmp, st)
      else let (bs, tmp') = stream_read PACKAGE_CHUNK_SIZE d tmp;
               (d', st') = stream_write bs d st
           in copy_chunks (length bs) d' tmp' st')"

definition real_file_name :: "string \<Rightarrow> string \<Rightarrow> string" where
  "real_file_name basedir p = take (MAX_PATH * 2 - 1) (basedir @ CHR ''/'' # p)"

text \<open>The loop over the files: \<open>(False, _)\<close> when a stream went bad.\<close>

fun write_files :: "string \<Rightarrow> beer_entry list \<Rightarrow> disk \<Rightarrow> stream \<Rightarrow> stream \<Rightarrow> (bool \<times> disk \<times> stream) res" where
  "write_files basedir [] d tmp st = Inr (True, d, st)"
| "write_files basedir (e # es) d tmp st =
     (let (d, tmp) = stream_open (real_file_name basedir (be_path e)) True False d tmp
      in if st_bad tmp then Inr (False, d, st)
         else case copy_chunks 0 d tmp st of
           None \<Rightarrow> Inl NoReturn
         | Some (gcount, d, tmp, st) \<Rightarrow> write_files basedir es d (stream_close tmp) st)"

definition image_write ::
    "string \<Rightarrow> string \<Rightarrow> beer_header \<Rightarrow> beer_entry list \<Rightarrow> disk \<Rightarrow> stream \<Rightarrow> (bool \<times> beer_header \<times> disk \<times> stream) res" where
  "image_write basedir path hdr es d st =
     (let (ok, d, st) = image_open path d st
      in if \<not> ok then Inr (False, hdr, d, st)
         else let hdr = hdr\<lparr>magic := PACKAGE_MAGIC, version := PACKAGE_VERSION\<rparr>;
                  (d, st) = stream_write (header_bytes hdr) d st;
                  (d, st) = write_entries es 0 d st
              in map_res (\<lambda>(ok, d, st). (ok, hdr, d, if ok then stream_close st else st))
                   (write_files basedir es d stream0 st))"

section \<open>What a path becomes\<close>

lemma basedir_end_prefix:
  assumes "pos \<le> length basedir" and "even pos"
  shows "basedir_end (basedir @ rest) basedir pos = length basedir + length basedir mod 2"
  using assms
proof (induction "length basedir - pos" arbitrary: pos rule: less_induct)
  case less
  show ?case
  proof (cases "pos < length basedir")
    case True
    show ?thesis
    proof (cases "pos + 2 \<le> length basedir")
      case two: True
      have "basedir_end (basedir @ rest) basedir pos = basedir_end (basedir @ rest) basedir (pos + 2)"
        using True by (simp add: basedir_end.simps [of _ basedir pos] nth_append)
      also have "\<dots> = length basedir + length basedir mod 2"
        using less.hyps [of "pos + 2"] less.prems(2) True two by simp
      finally show ?thesis .
    next
      case False
      then have len: "length basedir = pos + 1" using True by simp
      have "basedir_end (basedir @ rest) basedir pos = basedir_end (basedir @ rest) basedir (pos + 2)"
        using True by (simp add: basedir_end.simps [of _ basedir pos] nth_append)
      also have "\<dots> = pos + 2"
        using len by (subst basedir_end.simps) simp
      also have "\<dots> = length basedir + length basedir mod 2"
        using len less.prems(2) by (simp add: mod_2_eq_odd)
      finally show ?thesis .
    qed
  next
    case False
    then have "pos = length basedir" using less.prems(1) by simp
    with less.prems(2) show ?thesis by (subst basedir_end.simps) (simp add: mod_2_eq_odd)
  qed
qed

definition no_slash :: "string \<Rightarrow> string" where
  "no_slash s = (case s of [] \<Rightarrow> [] | c # cs \<Rightarrow> if c = CHR 0x5C \<or> c = CHR ''/'' then cs else s)"

lemma drop_no_slash:
  assumes "pos \<le> length path"
  shows "drop (if pos < length path \<and> (path ! pos = CHR 0x5C \<or> path ! pos = CHR ''/'') then pos + 1 else pos) path =
    no_slash (drop pos path)"
proof (cases "pos < length path")
  case True
  then have "drop pos path = path ! pos # drop (pos + 1) path"
    by (metis Cons_nth_drop_Suc Suc_eq_plus1)
  then show ?thesis using True by (simp add: no_slash_def)
next
  case False
  then show ?thesis using assms by (simp add: no_slash_def)
qed

lemma strip_basedir_prefix:
  assumes "rest \<noteq> [] \<or> even (length basedir)"
  shows "strip_basedir basedir (basedir @ rest) =
    (let name = no_slash (drop (length basedir mod 2) rest)
     in if 2 * length name \<le> length (basedir @ rest) then Inr name else Inl OverlappingCopy)"
proof -
  let ?pos = "length basedir + length basedir mod 2"
  have pos: "basedir_end (basedir @ rest) basedir 0 = ?pos"
    by (rule basedir_end_prefix) simp_all
  have le: "?pos \<le> length (basedir @ rest)"
    using assms by (cases rest) (auto simp: mod_2_eq_odd)
  let ?path = "basedir @ rest" and ?name = "no_slash (drop (length basedir mod 2) rest)"
  define p where "p = (if ?pos < length ?path \<and> (?path ! ?pos = CHR 0x5C \<or> ?path ! ?pos = CHR ''/'') then ?pos + 1 else ?pos)"
  have "drop ?pos ?path = drop (length basedir mod 2) rest" by simp
  then have name: "drop p ?path = ?name" using drop_no_slash [OF le] by (simp add: p_def)
  have "p \<le> length ?path" using le by (auto simp: p_def)
  moreover from this have "p < length ?path - p \<longleftrightarrow> \<not> 2 * length ?name \<le> length ?path" unfolding name [symmetric] length_drop by linarith
  moreover have "strip_basedir basedir ?path = (if length ?path < p then Inl OutOfBoundsWrite else shift_down ?path p)"
    unfolding strip_basedir_def Let_def pos p_def ..
  ultimately show ?thesis using name by (simp add: shift_down_def Let_def del: length_append drop_append)
qed


section \<open>What a package holds\<close>

fun entries_bytes :: "beer_entry list \<Rightarrow> nat \<Rightarrow> byte list" where
  "entries_bytes [] loc = []"
| "entries_bytes (e # es) loc =
     le_enc 8 (be_size e) @ le_enc 8 loc @ name_bytes (be_path e) @ entries_bytes es (loc + be_size e)"

definition content_of :: "string \<Rightarrow> disk \<Rightarrow> beer_entry \<Rightarrow> byte list" where
  "content_of basedir d e = file_bytes d (real_file_name basedir (be_path e))"

definition store :: "disk \<Rightarrow> string \<Rightarrow> byte list \<Rightarrow> disk" where
  "store d p bs = d\<lparr>files := (files d)(p \<mapsto> bs)\<rparr>"

lemma store_simps [simp]:
  "store (store d p bs) p cs = store d p cs" "files (store d p bs) = (files d)(p \<mapsto> bs)"
  "creatable (store d p bs) = creatable d" "dirs (store d p bs) = dirs d"
  by (simp_all add: store_def)

lemma file_bytes_store [simp]:
  "q \<noteq> p \<Longrightarrow> file_bytes (store d p bs) q = file_bytes d q" "file_bytes (store d p bs) p = bs"
  by (simp_all add: file_bytes_def)

lemma content_of_store:
  "real_file_name basedir (be_path e) \<noteq> p \<Longrightarrow> content_of basedir (store d p bs) e = content_of basedir d e"
  by (simp add: content_of_def)

lemma write_store:
  assumes "writing d st p bs"
  shows "\<exists>st'. stream_write cs d st = (store d p (bs @ cs), st') \<and> writing (store d p (bs @ cs)) st' p (bs @ cs)"
  using assms by (auto simp: stream_write_def writing_def st_good_def file_bytes_def store_def)

lemma write_entries_bytes:
  "writing d st p bs \<Longrightarrow>
    \<exists>st'. write_entries es loc d st = (store d p (bs @ entries_bytes es loc), st') \<and>
      writing (store d p (bs @ entries_bytes es loc)) st' p (bs @ entries_bytes es loc)"
proof (induction es arbitrary: loc d st bs)
  case Nil
  then have "store d p bs = d" by (simp add: writing_def store_def fun_upd_idem)
  with Nil show ?case by simp
next
  case (Cons e es)
  from write_store [OF Cons.prems, of "le_enc 8 (be_size e)"] obtain s1 d1 where
    w1: "stream_write (le_enc 8 (be_size e)) d st = (d1, s1)" "d1 = store d p (bs @ le_enc 8 (be_size e))"
      "writing d1 s1 p (bs @ le_enc 8 (be_size e))" by auto
  from write_store [OF w1(3), of "le_enc 8 loc"] obtain s2 d2 where
    w2: "stream_write (le_enc 8 loc) d1 s1 = (d2, s2)"
      "d2 = store d1 p ((bs @ le_enc 8 (be_size e)) @ le_enc 8 loc)"
      "writing d2 s2 p ((bs @ le_enc 8 (be_size e)) @ le_enc 8 loc)" by auto
  from write_store [OF w2(3), of "name_bytes (be_path e)"] obtain s3 d3 where
    w3: "stream_write (name_bytes (be_path e)) d2 s2 = (d3, s3)"
      "d3 = store d2 p (((bs @ le_enc 8 (be_size e)) @ le_enc 8 loc) @ name_bytes (be_path e))"
      "writing d3 s3 p (((bs @ le_enc 8 (be_size e)) @ le_enc 8 loc) @ name_bytes (be_path e))" by auto
  from Cons.IH [OF w3(3), of "loc + be_size e"] show ?case
    by (simp add: w1(1) w2(1) w3(1)) (simp add: w1(2) w2(2) w3(2))
qed

definition reading :: "disk \<Rightarrow> stream \<Rightarrow> string \<Rightarrow> byte list \<Rightarrow> nat \<Rightarrow> bool" where
  "reading d st q f k = (st_open st \<and> st_good st \<and> st_in st \<and> st_path st = q \<and> files d q = Some f \<and>
     st_pos st = k \<and> k \<le> length f)"

lemma copy_chunks_append:
  assumes "writing d st p bs" and "reading d tmp q f k" and "q \<noteq> p"
  shows "\<exists>g tmp' st'. copy_chunks g0 d tmp st = Some (g, store d p (bs @ drop k f), tmp', st') \<and>
    writing (store d p (bs @ drop k f)) st' p (bs @ drop k f) \<and> st_open tmp' \<and> \<not> st_bad tmp'"
  using assms
proof (induction "length f - k" arbitrary: d st tmp bs k g0 rule: less_induct)
  case less
  let ?chunk = "take PACKAGE_CHUNK_SIZE (drop k f)"
  from less.prems(2) have tmp: "st_good tmp" "st_in tmp" "st_open tmp" "\<not> st_eof tmp" "\<not> st_failed tmp"
    "file_bytes d (st_path tmp) = f" "st_pos tmp = k" "k \<le> length f" "\<not> st_bad tmp" "\<not> st_fail tmp"
    "st_path tmp = q" "files d q = Some f"
    by (auto simp: reading_def st_good_def st_failed_def file_bytes_def)
  obtain tmp' where read: "stream_read PACKAGE_CHUNK_SIZE d tmp = (?chunk, tmp')" and
    tmp': "tmp' = (let t = tmp\<lparr>st_pos := k + length ?chunk\<rparr> in
      if length ?chunk < PACKAGE_CHUNK_SIZE then t\<lparr>st_eof := True, st_fail := True\<rparr> else t)"
    using tmp by (simp add: stream_read_def Let_def)
  from write_store [OF less.prems(1), of ?chunk] obtain st' where
    wrote: "stream_write ?chunk d st = (store d p (bs @ ?chunk), st')" and
    w': "writing (store d p (bs @ ?chunk)) st' p (bs @ ?chunk)" by auto
  have step: "copy_chunks g0 d tmp st = copy_chunks (length ?chunk) (store d p (bs @ ?chunk)) tmp' st'"
    using tmp by (subst copy_chunks.simps) (simp add: read wrote)
  show ?case
  proof (cases "length ?chunk < PACKAGE_CHUNK_SIZE")
    case True
    then have "?chunk = drop k f" by simp
    moreover have "copy_chunks n d'' tmp' st'' = Some (n, d'', tmp', st'')" for n d'' st''
      using True by (subst copy_chunks.simps) (auto simp: tmp' Let_def)
    ultimately show ?thesis
      using step w' True tmp by (auto simp: tmp' Let_def)
  next
    case False
    then have len: "length ?chunk = PACKAGE_CHUNK_SIZE" "k + PACKAGE_CHUNK_SIZE \<le> length f"
      by (auto simp: PACKAGE_CHUNK_SIZE_def split: if_splits)
    have "reading (store d p (bs @ ?chunk)) tmp' q f (k + PACKAGE_CHUNK_SIZE)"
      using False len tmp less.prems(3) by (simp add: reading_def tmp' Let_def st_good_def)
    moreover have "length f - (k + PACKAGE_CHUNK_SIZE) < length f - k"
      using len by (simp add: PACKAGE_CHUNK_SIZE_def)
    moreover have "(bs @ ?chunk) @ drop (k + PACKAGE_CHUNK_SIZE) f = bs @ drop k f"
        using append_take_drop_id [of PACKAGE_CHUNK_SIZE "drop k f"] by (simp only: append.assoc drop_drop add.commute)
    ultimately show ?thesis
      using less.hyps [OF _ w', of "k + PACKAGE_CHUNK_SIZE" tmp' "length ?chunk"] less.prems(3) step by auto
  qed
qed


lemma reading_open:
  assumes "files d q = Some f" and "\<not> st_open tmp"
  shows "\<exists>tmp'. stream_open q True False d tmp = (d, tmp') \<and> reading d tmp' q f 0 \<and> \<not> st_bad tmp'"
  using assms by (auto simp: stream_open_def reading_def st_good_def)

lemma write_files_contents:
  assumes "writing d st p bs" and "\<not> st_open tmp"
    and "\<And>e. e \<in> set es \<Longrightarrow> real_file_name basedir (be_path e) \<noteq> p \<and> files d (real_file_name basedir (be_path e)) \<noteq> None"
  shows "\<exists>st'. write_files basedir es d tmp st =
      Inr (True, store d p (bs @ concat (map (content_of basedir d) es)), st') \<and>
    writing (store d p (bs @ concat (map (content_of basedir d) es))) st' p
      (bs @ concat (map (content_of basedir d) es))"
  using assms
proof (induction es arbitrary: d st tmp bs)
  case Nil
  then have "store d p bs = d" by (simp add: writing_def store_def fun_upd_idem)
  with Nil show ?case by simp
next
  case (Cons e es)
  let ?q = "real_file_name basedir (be_path e)"
  from Cons.prems(3) [of e] obtain f where f: "files d ?q = Some f" "?q \<noteq> p" by auto
  then have c: "content_of basedir d e = f" by (simp add: content_of_def file_bytes_def)
  from reading_open [OF f(1) Cons.prems(2)] obtain tmp' where
    opened: "stream_open ?q True False d tmp = (d, tmp')" and r: "reading d tmp' ?q f 0" "\<not> st_bad tmp'" by auto
  from copy_chunks_append [OF Cons.prems(1) r(1) f(2), of 0] obtain g t s where
    copy: "copy_chunks 0 d tmp' st = Some (g, store d p (bs @ f), t, s)" and
    w: "writing (store d p (bs @ f)) s p (bs @ f)" by auto
  have closed: "\<not> st_open (stream_close t)" by (simp add: stream_close_def)
  have "\<exists>st'. write_files basedir es (store d p (bs @ f)) (stream_close t) s =
      Inr (True, store (store d p (bs @ f)) p ((bs @ f) @ concat (map (content_of basedir (store d p (bs @ f))) es)), st') \<and>
    writing (store (store d p (bs @ f)) p ((bs @ f) @ concat (map (content_of basedir (store d p (bs @ f))) es))) st' p
      ((bs @ f) @ concat (map (content_of basedir (store d p (bs @ f))) es))"
    using Cons.prems(3) by (intro Cons.IH [OF w closed]) simp
  moreover have "map (content_of basedir (store d p (bs @ f))) es = map (content_of basedir d) es"
    using Cons.prems(3) by (intro map_cong [OF refl] content_of_store) simp
  ultimately show ?case by (auto simp: opened r(2) copy c)
qed

section \<open>Reading one back\<close>

text \<open>A reference reader of the format that the writer produces, told how many files there are.\<close>

fun parse_entries :: "nat \<Rightarrow> byte list \<Rightarrow> (string \<times> nat \<times> nat) list \<times> byte list" where
  "parse_entries 0 bs = ([], bs)"
| "parse_entries (Suc n) bs =
     (let name = takeWhile (\<lambda>b. b \<noteq> 0) (drop 16 bs);
          (es, rest) = parse_entries n (drop (16 + length name + 1) bs)
      in ((map char_of_byte name, le_dec (take 8 (drop 8 bs)), le_dec (take 8 bs)) # es, rest))"

definition unpack :: "nat \<Rightarrow> byte list \<Rightarrow> (string \<times> byte list) list" where
  "unpack n bs =
     (let (es, body) = parse_entries n (drop 12 bs)
      in map (\<lambda>(name, loc, size). (name, take size (drop loc body))) es)"

lemma takeWhile_name:
  "is_c_string p \<Longrightarrow> takeWhile (\<lambda>b. b \<noteq> 0) (name_bytes p @ rest) = map byte_of_char p"
  by (induction p) (simp_all add: name_bytes_def)

lemma drop_name: "drop (length p + 1) (name_bytes p @ rest) = rest"
  by (simp add: name_bytes_def)

fun located :: "beer_entry list \<Rightarrow> nat \<Rightarrow> (string \<times> nat \<times> nat) list" where
  "located [] loc = []"
| "located (e # es) loc = (be_path e, loc, be_size e) # located es (loc + be_size e)"

lemma parse_entries_bytes:
  assumes "\<And>e. e \<in> set es \<Longrightarrow> is_c_string (be_path e)" and "loc + sum_list (map be_size es) < 2 ^ 64"
  shows "parse_entries (length es) (entries_bytes es loc @ body) = (located es loc, body)"
  using assms
proof (induction es arbitrary: loc)
  case Nil
  then show ?case by simp
next
  case (Cons e es)
  let ?bs = "entries_bytes (e # es) loc @ body"
  let ?tl = "entries_bytes es (loc + be_size e) @ body"
  have d16: "drop 16 ?bs = name_bytes (be_path e) @ ?tl"
    by simp
  have name: "takeWhile (\<lambda>b. b \<noteq> 0) (drop 16 ?bs) = map byte_of_char (be_path e)"
    using Cons.prems(1) unfolding d16 by (intro takeWhile_name) simp
  have "drop (16 + length (map byte_of_char (be_path e)) + 1) ?bs = drop (length (be_path e) + 1) (drop 16 ?bs)"
    by (simp only: drop_drop length_map ac_simps)
  then have rest: "drop (16 + length (map byte_of_char (be_path e)) + 1) ?bs = ?tl"
    by (simp only: d16 drop_name)
  have small: "be_size e < 256 ^ 8" "loc < 256 ^ 8"
    using Cons.prems(2) by simp_all
  have "parse_entries (length es) ?tl = (located es (loc + be_size e), body)"
    using Cons.prems by (intro Cons.IH) (simp_all add: add.assoc)
  moreover have "le_dec (take 8 ?bs) = be_size e" "le_dec (take 8 (drop 8 ?bs)) = loc"
    using small by (simp_all add: le_dec_enc_id)
  ultimately show ?case
    by (simp only: length_Cons parse_entries.simps Let_def name rest) (simp add: o_def)
qed

lemma located_contents:
  assumes "\<And>e. e \<in> set es \<Longrightarrow> length (c e) = be_size e"
  shows "map (\<lambda>(name, loc, size). (name, take size (drop loc (pre @ concat (map c es))))) (located es (length pre)) =
    map (\<lambda>e. (be_path e, c e)) es"
  using assms
proof (induction es arbitrary: pre)
  case Nil
  then show ?case by simp
next
  case (Cons e es)
  have "length (pre @ c e) = length pre + be_size e" using Cons.prems by simp
  with Cons.IH [of "pre @ c e"] Cons.prems show ?case by simp
qed


lemma image_write_ok:
  assumes "strstr path PACKAGE_EXTENSION" and "\<not> st_open st" and "creatable d path" and "files d path = None"
    and real: "\<And>e. e \<in> set es \<Longrightarrow> files d (real_file_name basedir (be_path e)) \<noteq> None"
    and hdr'_def: "hdr' = hdr\<lparr>magic := PACKAGE_MAGIC, version := PACKAGE_VERSION\<rparr>"
  shows "\<exists>st'. image_write basedir path hdr es d st = Inr (True, hdr',
    store d path (header_bytes hdr' @ entries_bytes es 0 @ concat (map (content_of basedir d) es)), st')"
proof -
  have away: "real_file_name basedir (be_path e) \<noteq> path" if "e \<in> set es" for e
    using real [OF that] assms(4) by metis
  obtain s0 where s0: "stream_open path False True d st = (store d path [], s0)" "writing (store d path []) s0 path []"
    "\<not> st_bad s0"
    using assms(2,3) by (auto simp: stream_open_def store_def writing_def st_good_def)
  obtain s1 where s1: "stream_write (header_bytes hdr') (store d path []) s0 = (store d path (header_bytes hdr'), s1)"
    "writing (store d path (header_bytes hdr')) s1 path (header_bytes hdr')"
    using write_store [OF s0(2), of "header_bytes hdr'"] by auto
  obtain s2 where s2: "write_entries es 0 (store d path (header_bytes hdr')) s1 =
      (store d path (header_bytes hdr' @ entries_bytes es 0), s2)"
    "writing (store d path (header_bytes hdr' @ entries_bytes es 0)) s2 path (header_bytes hdr' @ entries_bytes es 0)"
    using write_entries_bytes [OF s1(2), of es 0] by auto
  let ?d2 = "store d path (header_bytes hdr' @ entries_bytes es 0)"
  have same: "map (content_of basedir ?d2) es = map (content_of basedir d) es"
    using away by (intro map_cong [OF refl] content_of_store) simp
  have "\<exists>s. write_files basedir es ?d2 stream0 s2 =
      Inr (True, store ?d2 path ((header_bytes hdr' @ entries_bytes es 0) @ concat (map (content_of basedir ?d2) es)), s)"
    using write_files_contents [OF s2(2), of stream0 es basedir] away real by (auto simp: stream0_def)
  then show ?thesis
    using assms(1) s0(1,3) s1(1) s2(1)
    by (auto simp: image_write_def image_open_def hdr'_def [symmetric] same)
qed

lemma length_header_bytes [simp]: "length (header_bytes h) = 12"
  by (simp add: header_bytes_def)

lemma unpack_written:
  assumes "\<And>e. e \<in> set es \<Longrightarrow> is_c_string (be_path e) \<and> length (c e) = be_size e"
    and "sum_list (map be_size es) < 2 ^ 64"
  shows "unpack (length es) (header_bytes h @ entries_bytes es 0 @ concat (map c es)) = map (\<lambda>e. (be_path e, c e)) es"
  using assms parse_entries_bytes [of es 0 "concat (map c es)"] located_contents [of es c "[]"]
  by (simp add: unpack_def)

section \<open>Properties\<close>

text \<open>
  C22. A package round trip: writing a list of files to a new beerfile succeeds, and the format's
  reader (told how many files there are) gets every name back with the exact content of the file
  under the base directory. The header holds the magic number and the version, but its file count
  is whatever the object held: nothing ever sets it.
\<close>

theorem image_write_roundtrip:
  assumes "strstr path PACKAGE_EXTENSION" and "\<not> st_open st" and "creatable d path" and "files d path = None"
    and "\<And>e. e \<in> set es \<Longrightarrow> files d (real_file_name basedir (be_path e)) \<noteq> None"
    and "\<And>e. e \<in> set es \<Longrightarrow> is_c_string (be_path e) \<and> length (content_of basedir d e) = be_size e"
    and "sum_list (map be_size es) < 2 ^ 64"
  shows "\<exists>hdr' d' st'. image_write basedir path hdr es d st = Inr (True, hdr', d', st') \<and>
    unpack (length es) (file_bytes d' path) = map (\<lambda>e. (be_path e, content_of basedir d e)) es \<and>
    take 12 (file_bytes d' path) = le_enc 4 PACKAGE_MAGIC @ le_enc 4 PACKAGE_VERSION @ le_enc 4 (numFiles hdr) \<and>
    (\<forall>q. q \<noteq> path \<longrightarrow> files d' q = files d q)"
proof -
  define hdr' where "hdr' = hdr\<lparr>magic := PACKAGE_MAGIC, version := PACKAGE_VERSION\<rparr>"
  obtain st' where "image_write basedir path hdr es d st = Inr (True, hdr',
      store d path (header_bytes hdr' @ entries_bytes es 0 @ concat (map (content_of basedir d) es)), st')"
    using image_write_ok [OF assms(1-5) hdr'_def] by blast
  then show ?thesis
    using unpack_written [of es "content_of basedir d" hdr'] assms(6,7)
    by (auto simp: hdr'_def header_bytes_def)
qed

definition small_disk :: disk where
  "small_disk = \<lparr>files = [''b/x'' \<mapsto> [1, 2], ''b/y'' \<mapsto> [3]], dirs = (\<lambda>p. p = ''b''), creatable = (\<lambda>p. True)\<rparr>"

definition small_entries :: "beer_entry list" where
  "small_entries = [\<lparr>be_path = ''x'', be_location = 0, be_size = 2, be_id = 0\<rparr>,
     \<lparr>be_path = ''y'', be_location = 0, be_size = 1, be_id = 0\<rparr>]"

theorem image_write_roundtrip_witness:
  "\<exists>hdr' d' st'. image_write ''b'' ''p.beer'' \<lparr>magic = 0, version = 0, numFiles = 7\<rparr> small_entries small_disk stream0 =
      Inr (True, hdr', d', st') \<and>
    unpack 2 (file_bytes d' ''p.beer'') = [(''x'', [1, 2]), (''y'', [3])] \<and>
    take 12 (file_bytes d' ''p.beer'') = le_enc 4 PACKAGE_MAGIC @ le_enc 4 PACKAGE_VERSION @ le_enc 4 7 \<and>
    (\<forall>q. q \<noteq> ''p.beer'' \<longrightarrow> files d' q = files small_disk q)"
proof -
  have ext: "strstr ''p.beer'' PACKAGE_EXTENSION" by (simp add: PACKAGE_EXTENSION_def)
  have names: "real_file_name ''b'' ''x'' = ''b/x''" "real_file_name ''b'' ''y'' = ''b/y''"
    by (simp_all add: real_file_name_def MAX_PATH_def)
  have content: "map (\<lambda>e. (be_path e, content_of ''b'' small_disk e)) small_entries = [(''x'', [1, 2]), (''y'', [3])]"
    by (simp add: small_entries_def content_of_def file_bytes_def names small_disk_def)
  have len: "length small_entries = 2" by (simp add: small_entries_def)
  have exist: "files small_disk (real_file_name ''b'' (be_path e)) \<noteq> None" if "e \<in> set small_entries" for e
    using that by (auto simp: small_entries_def small_disk_def names)
  have sizes: "is_c_string (be_path e) \<and> length (content_of ''b'' small_disk e) = be_size e"
    if "e \<in> set small_entries" for e
    using that by (auto simp: small_entries_def small_disk_def names content_of_def file_bytes_def NUL_def)
  have sum: "sum_list (map be_size small_entries) < 2 ^ 64" by (simp add: small_entries_def)
  have st: "\<not> st_open stream0" "creatable small_disk ''p.beer''" "files small_disk ''p.beer'' = None"
    by (simp_all add: stream0_def small_disk_def)
  show ?thesis
    using image_write_roundtrip [where es = small_entries, OF ext st exist sizes sum,
        of "\<lparr>magic = 0, version = 0, numFiles = 7\<rparr>"]
    by (simp only: content len beer_header.simps simp_thms)
qed

text \<open>
  Adding an existing file under the base directory strips the base directory and one leading
  slash off its stored path, but when the base directory's length is odd it strips one character
  more: the index runs past the end of the base directory. What is left is moved to the start of the buffer by a copy that
  must not overlap: where more is left than was stripped the behaviour is undefined.
\<close>

theorem add_entry_path:
  assumes "files d (basedir @ rest) = Some content" and "length (basedir @ rest) < MAX_PATH"
    and "rest \<noteq> [] \<or> even (length basedir)"
  shows "add_entry basedir junk d (basedir @ rest) =
    (let name = no_slash (drop (length basedir mod 2) rest)
     in if 2 * length name \<le> length (basedir @ rest)
        then Inr (Some \<lparr>be_path = name, be_location = 0, be_size = length content, be_id = junk\<rparr>)
        else Inl OverlappingCopy)"
  using assms by (simp add: add_entry_def path_exists_def strip_basedir_prefix Let_def del: length_append)

theorem add_entry_path_witness:
  "add_entry ''./b/'' 0 (small_disk\<lparr>files := [''./b/foo'' \<mapsto> [9]]\<rparr>) ''./b/foo'' =
     Inr (Some \<lparr>be_path = ''foo'', be_location = 0, be_size = 1, be_id = 0\<rparr>) \<and>
   add_entry ''bb/'' 0 (small_disk\<lparr>files := [''bb/foo'' \<mapsto> [9]]\<rparr>) ''bb/foo'' =
     Inr (Some \<lparr>be_path = ''oo'', be_location = 0, be_size = 1, be_id = 0\<rparr>) \<and>
   add_entry ''./'' 0 (small_disk\<lparr>files := [''./foo'' \<mapsto> [9]]\<rparr>) ''./foo'' = Inl OverlappingCopy"
  using add_entry_path [of "small_disk\<lparr>files := [''./b/foo'' \<mapsto> [9]]\<rparr>" "''./b/''" "''foo''" "[9]" 0]
    add_entry_path [of "small_disk\<lparr>files := [''bb/foo'' \<mapsto> [9]]\<rparr>" "''bb/''" "''foo''" "[9]" 0]
    add_entry_path [of "small_disk\<lparr>files := [''./foo'' \<mapsto> [9]]\<rparr>" "''./''" "''foo''" "[9]" 0]
  by (simp add: MAX_PATH_def no_slash_def)

end
