(* ===== verification/Capy_Float.thy ===== *)
theory Capy_Float
  imports Capy_Prelude "HOL-Library.Log_Nat"
begin

text \<open>
  The C++ \<open>float\<close> (IEEE binary32), the arithmetic the source does on it, and \<open>atof\<close>.
  A finite value is the rational number it stands for; every operation rounds its exact
  result to the nearest representable value, ties to even. Signed zeros are not
  distinguished: the source divides by a float only where the divisor comes from an
  unsigned integer. The lemmas give what the components rely on: integers below
  \<open>2 ^ 24\<close> are exact, and rounding is monotone.
\<close>

section \<open>Rounding\<close>

definition ilog2 :: "rat \<Rightarrow> int" where
  "ilog2 q =
     (let (n, d) = quotient_of \<bar>q\<bar>; e = bitlen n - bitlen d
      in if 2 powi e \<le> \<bar>q\<bar> then e else e - 1)"

definition rne :: "rat \<Rightarrow> int" where
  "rne r =
     (let f = \<lfloor>r\<rfloor>; d = r - of_int f
      in if d < 1 / 2 then f else if 1 / 2 < d then f + 1 else if even f then f else f + 1)"

definition ulp :: "int \<Rightarrow> int \<Rightarrow> rat \<Rightarrow> rat" where
  "ulp p emin q = 2 powi (max (ilog2 q - (p - 1)) emin)"

definition fp_round :: "int \<Rightarrow> int \<Rightarrow> rat \<Rightarrow> rat" where
  "fp_round p emin q = (if q = 0 then 0 else of_int (rne (q / ulp p emin q)) * ulp p emin q)"

datatype f32 = Fin rat | Inf bool | NaN  \<comment> \<open>\<open>Inf True\<close> is minus infinity\<close>

definition f32_max :: rat where "f32_max = 2 ^ 128"

definition round32 :: "rat \<Rightarrow> f32" where
  "round32 q =
     (let r = fp_round 24 (-149) q in if f32_max \<le> \<bar>r\<bar> then Inf (r < 0) else Fin r)"

section \<open>Arithmetic and comparisons\<close>

fun f32_neg :: "f32 \<Rightarrow> f32" where
  "f32_neg (Fin x) = Fin (- x)"
| "f32_neg (Inf s) = Inf (\<not> s)"
| "f32_neg NaN = NaN"

fun f32_add :: "f32 \<Rightarrow> f32 \<Rightarrow> f32" where
  "f32_add (Fin x) (Fin y) = round32 (x + y)"
| "f32_add (Inf s) (Fin y) = Inf s"
| "f32_add (Fin x) (Inf t) = Inf t"
| "f32_add (Inf s) (Inf t) = (if s = t then Inf s else NaN)"
| "f32_add _ _ = NaN"

definition f32_sub :: "f32 \<Rightarrow> f32 \<Rightarrow> f32" where
  "f32_sub a b = f32_add a (f32_neg b)"

fun f32_mul :: "f32 \<Rightarrow> f32 \<Rightarrow> f32" where
  "f32_mul (Fin x) (Fin y) = round32 (x * y)"
| "f32_mul (Inf s) (Fin y) = (if y = 0 then NaN else Inf (s \<noteq> (y < 0)))"
| "f32_mul (Fin x) (Inf t) = (if x = 0 then NaN else Inf (t \<noteq> (x < 0)))"
| "f32_mul (Inf s) (Inf t) = Inf (s \<noteq> t)"
| "f32_mul _ _ = NaN"

fun f32_div :: "f32 \<Rightarrow> f32 \<Rightarrow> f32" where
  "f32_div (Fin x) (Fin y) =
     (if y = 0 then (if x = 0 then NaN else Inf (x < 0)) else round32 (x / y))"
| "f32_div (Inf s) (Fin y) = Inf (s \<noteq> (y < 0))"
| "f32_div (Fin x) (Inf t) = Fin 0"
| "f32_div _ _ = NaN"

fun f32_less :: "f32 \<Rightarrow> f32 \<Rightarrow> bool" where
  "f32_less (Fin x) (Fin y) = (x < y)"
| "f32_less (Fin x) (Inf t) = (\<not> t)"
| "f32_less (Inf s) (Fin y) = s"
| "f32_less (Inf s) (Inf t) = (s \<and> \<not> t)"
| "f32_less _ _ = False"

fun f32_eq :: "f32 \<Rightarrow> f32 \<Rightarrow> bool" where
  "f32_eq (Fin x) (Fin y) = (x = y)"
| "f32_eq (Inf s) (Inf t) = (s = t)"
| "f32_eq _ _ = False"

definition f32_le :: "f32 \<Rightarrow> f32 \<Rightarrow> bool" where
  "f32_le a b = (f32_less a b \<or> f32_eq a b)"

text \<open>Conversions: an integer rounds to a float; a float truncates towards zero to an integer
  type, and is undefined behaviour when the truncated value does not fit.\<close>

definition f32_of_int :: "int \<Rightarrow> f32" where
  "f32_of_int i = round32 (of_int i)"

definition trunc_rat :: "rat \<Rightarrow> int" where
  "trunc_rat q = (if 0 \<le> q then \<lfloor>q\<rfloor> else - \<lfloor>- q\<rfloor>)"

fun f32_to_int :: "int \<Rightarrow> int \<Rightarrow> f32 \<Rightarrow> int res" where
  "f32_to_int lo hi (Fin q) =
     (let i = trunc_rat q in if lo \<le> i \<and> i \<le> hi then Inr i else Inl BadCast)"
| "f32_to_int lo hi _ = Inl BadCast"

abbreviation f32_to_i32 :: "f32 \<Rightarrow> int res" where
  "f32_to_i32 \<equiv> f32_to_int (- (2 ^ 31)) (2 ^ 31 - 1)"

abbreviation f32_to_u32 :: "f32 \<Rightarrow> int res" where
  "f32_to_u32 \<equiv> f32_to_int 0 (2 ^ 32 - 1)"

abbreviation f32_to_u16 :: "f32 \<Rightarrow> int res" where
  "f32_to_u16 \<equiv> f32_to_int 0 (2 ^ 16 - 1)"

section \<open>Rounding to an integer\<close>

lemma rne_of_int [simp]: "rne (of_int k) = k"
  by (simp add: rne_def)

lemma rne_bounds: "\<lfloor>r\<rfloor> \<le> rne r \<and> rne r \<le> \<lfloor>r\<rfloor> + 1"
  by (simp add: rne_def Let_def)

lemma rne_mono:
  assumes "r \<le> s"
  shows "rne r \<le> rne s"
proof (cases "\<lfloor>r\<rfloor> = \<lfloor>s\<rfloor>")
  case True
  with assms show ?thesis by (auto simp: rne_def Let_def)
next
  case False
  moreover have "\<lfloor>r\<rfloor> \<le> \<lfloor>s\<rfloor>" using assms by (rule floor_mono)
  ultimately have "\<lfloor>r\<rfloor> + 1 \<le> \<lfloor>s\<rfloor>" by simp
  with rne_bounds [of r] rne_bounds [of s] show ?thesis by linarith
qed

lemma rne_error: "\<bar>of_int (rne r) - r\<bar> \<le> 1 / 2"
proof -
  have "of_int \<lfloor>r\<rfloor> \<le> r" "r < of_int \<lfloor>r\<rfloor> + 1" by linarith+
  then show ?thesis unfolding rne_def Let_def by (simp only: abs_if split: if_split) linarith
qed

lemma rne_minus: "rne (- r) = - rne r"
proof (cases "r = of_int \<lfloor>r\<rfloor>")
  case True
  then show ?thesis by (metis of_int_minus rne_of_int)
next
  case False
  have "of_int \<lfloor>r\<rfloor> \<le> r" and up: "r < of_int \<lfloor>r\<rfloor> + 1" by linarith+
  with False have lo: "of_int \<lfloor>r\<rfloor> < r" by linarith
  have fl: "\<lfloor>- r\<rfloor> = - \<lfloor>r\<rfloor> - 1"
    using lo up by (intro floor_unique) simp_all
  show ?thesis
    using lo up by (auto simp: rne_def Let_def fl)
qed

section \<open>The binade of a number\<close>

lemma powi2_pos [simp]: "(0 :: rat) < 2 powi k"
  by simp

lemma powi2_le: "i \<le> j \<Longrightarrow> (2 :: rat) powi i \<le> 2 powi j"
  by (simp add: power_int_increasing)

lemma powi2_bitlen:
  assumes "0 < n"
  shows "2 powi (bitlen n - 1) \<le> (of_int n :: rat)" and "(of_int n :: rat) < 2 powi (bitlen n)"
proof -
  have pos: "0 < bitlen n" 
    using assms bitlen_nonneg [of n] bitlen_eq_zero_iff [of n] by linarith
  have b: "2 ^ nat (bitlen n - 1) \<le> n \<and> n < 2 ^ nat (bitlen n)"
    using assms by (rule bitlen_bounds)
  have eq: "(2 :: rat) powi k = of_int (2 ^ nat k)" if "0 \<le> k" for k
    using that by (simp add: power_int_def)
  show "2 powi (bitlen n - 1) \<le> (of_int n :: rat)"
    using b pos by (simp only: eq of_int_le_iff)
  show "(of_int n :: rat) < 2 powi (bitlen n)"
    using b pos by (simp only: eq of_int_less_iff)
qed

lemma ilog2_bounds:
  assumes "q \<noteq> 0"
  shows "2 powi ilog2 q \<le> \<bar>q\<bar>" and "\<bar>q\<bar> < 2 powi (ilog2 q + 1)"
proof -
  obtain n d where nd: "quotient_of \<bar>q\<bar> = (n, d)" by (cases "quotient_of \<bar>q\<bar>")
  have q: "\<bar>q\<bar> = of_int n / of_int d" and d: "0 < d"
    using quotient_of_div [OF nd] quotient_of_denom_pos [OF nd] by simp_all
  from assms have "0 < \<bar>q\<bar>" by simp
  with q d have n: "0 < n" by (simp add: zero_less_divide_iff)
  let ?e = "bitlen n - bitlen d"
  have up: "\<bar>q\<bar> < 2 powi (?e + 1)"
  proof -
    have "\<bar>q\<bar> < 2 powi (bitlen n) / of_int d"
      using powi2_bitlen(2) [OF n] d by (simp add: q divide_strict_right_mono)
    also have "\<dots> \<le> 2 powi (bitlen n) / 2 powi (bitlen d - 1)"
      using powi2_bitlen(1) [OF d] d by (intro divide_left_mono) simp_all
    also have "\<dots> = 2 powi (bitlen n - (bitlen d - 1))"
      by (simp add: power_int_diff)
    finally show ?thesis by (simp add: algebra_simps)
  qed
  have lo: "2 powi (?e - 1) \<le> \<bar>q\<bar>"
  proof -
    have "2 powi ((bitlen n - 1) - bitlen d) = 2 powi (bitlen n - 1) / (2 :: rat) powi (bitlen d)"
      by (simp add: power_int_diff)
    also have "\<dots> \<le> 2 powi (bitlen n - 1) / of_int d"
      using powi2_bitlen(2) [OF d] d by (intro divide_left_mono) simp_all
    also have "\<dots> \<le> \<bar>q\<bar>"
      using powi2_bitlen(1) [OF n] d by (simp add: q divide_right_mono)
    finally show ?thesis by (simp add: algebra_simps)
  qed
  show "2 powi ilog2 q \<le> \<bar>q\<bar>"
    using lo by (simp add: ilog2_def nd Let_def)
  show "\<bar>q\<bar> < 2 powi (ilog2 q + 1)"
    using up by (simp add: ilog2_def nd Let_def)
qed

lemma ilog2_mono:
  assumes "q \<noteq> 0" and "\<bar>q\<bar> \<le> \<bar>r\<bar>"
  shows "ilog2 q \<le> ilog2 r"
proof (rule ccontr)
  assume "\<not> ilog2 q \<le> ilog2 r"
  then have "2 powi (ilog2 r + 1) \<le> (2 :: rat) powi ilog2 q" by (intro powi2_le) simp
  moreover from assms have "r \<noteq> 0" by auto
  ultimately show False
    using ilog2_bounds(1) [OF assms(1)] ilog2_bounds(2) [OF \<open>r \<noteq> 0\<close>] assms(2) by linarith
qed

lemma ilog2_minus [simp]: "ilog2 (- q) = ilog2 q"
  by (simp add: ilog2_def)

lemma ilog2_less: "q \<noteq> 0 \<Longrightarrow> \<bar>q\<bar> < 2 powi k \<Longrightarrow> ilog2 q < k"
  using ilog2_bounds(1) [of q] powi2_le [of k "ilog2 q"] by linarith

lemma ulp_pos [simp]: "0 < ulp p emin q"
  by (simp add: ulp_def)

section \<open>Rounding to a float\<close>

lemma fp_round_0 [simp]: "fp_round p emin 0 = 0"
  by (simp add: fp_round_def)

lemma fp_round_minus: "fp_round p emin (- q) = - fp_round p emin q"
  by (simp add: fp_round_def ulp_def rne_minus)

text \<open>A multiple of the unit in the last place bounds the rounding on its side.\<close>

lemma fp_round_le_multiple:
  assumes "q \<le> of_int k * ulp p emin q"
  shows "fp_round p emin q \<le> of_int k * ulp p emin q"
proof (cases "q = 0")
  case True
  with assms show ?thesis by simp
next
  case False
  have "rne (q / ulp p emin q) \<le> rne (of_int k)"
    using assms by (intro rne_mono) (simp add: pos_divide_le_eq)
  with False show ?thesis by (simp add: fp_round_def mult_right_mono)
qed

lemma fp_round_ge_multiple:
  assumes "of_int k * ulp p emin q \<le> q"
  shows "of_int k * ulp p emin q \<le> fp_round p emin q"
proof (cases "q = 0")
  case True
  with assms show ?thesis by simp
next
  case False
  have "rne (of_int k) \<le> rne (q / ulp p emin q)"
    using assms by (intro rne_mono) (simp add: pos_le_divide_eq)
  with False show ?thesis by (simp add: fp_round_def mult_right_mono)
qed

lemma powi2_multiple:
  assumes "i \<le> j"
  obtains k where "(2 :: rat) powi j = of_int k * 2 powi i"
proof -
  have "(2 :: rat) powi j = 2 powi (j - i) * 2 powi i"
    by (simp flip: power_int_add)
  also have "2 powi (j - i) = (of_int (2 ^ nat (j - i)) :: rat)"
    using assms by (simp add: power_int_def)
  finally show ?thesis by (rule that)
qed

lemma fp_round_mono_pos:
  assumes p: "1 \<le> p" and q: "0 < q" and qr: "q \<le> r"
  shows "fp_round p emin q \<le> fp_round p emin r"
proof (cases "ulp p emin q = ulp p emin r")
  case True
  have "q / ulp p emin r \<le> r / ulp p emin r"
    using qr by (intro divide_right_mono) (simp_all add: less_imp_le)
  then have "rne (q / ulp p emin r) \<le> rne (r / ulp p emin r)" by (rule rne_mono)
  with True q qr show ?thesis by (simp add: fp_round_def mult_right_mono)
next
  case False
  have r: "0 < r" using q qr by simp
  have "ilog2 q \<le> ilog2 r" using q qr by (intro ilog2_mono) simp_all
  moreover have "ilog2 q \<noteq> ilog2 r" using False by (auto simp: ulp_def)
  ultimately have lt: "ilog2 q < ilog2 r" by simp
  have er: "emin \<le> ilog2 r - (p - 1)"
  proof (rule ccontr)
    assume "\<not> emin \<le> ilog2 r - (p - 1)"
    with lt have "max (ilog2 q - (p - 1)) emin = max (ilog2 r - (p - 1)) emin" by simp
    with False show False by (simp add: ulp_def)
  qed
  have ur: "ulp p emin r = 2 powi (ilog2 r - (p - 1))"
    using er by (simp add: ulp_def)
  let ?B = "(2 :: rat) powi ilog2 r"
  have qB: "q \<le> ?B"
  proof -
    have "2 powi (ilog2 q + 1) \<le> ?B" using lt by (intro powi2_le) simp
    with ilog2_bounds(2) [of q] q show ?thesis by simp
  qed
  have Br: "?B \<le> r" using ilog2_bounds(1) [of r] r by simp
  have "max (ilog2 q - (p - 1)) emin \<le> ilog2 r"
    using lt er p by simp
  then obtain k where k: "?B = of_int k * ulp p emin q"
    unfolding ulp_def by (rule powi2_multiple)
  have "ilog2 r - (p - 1) \<le> ilog2 r" using p by simp
  then obtain l where l: "?B = of_int l * ulp p emin r"
    unfolding ur by (rule powi2_multiple)
  have "fp_round p emin q \<le> ?B" using qB unfolding k by (rule fp_round_le_multiple)
  also have "\<dots> \<le> fp_round p emin r" using Br unfolding l by (rule fp_round_ge_multiple)
  finally show ?thesis .
qed

lemma fp_round_nonneg: "0 \<le> q \<Longrightarrow> 0 \<le> fp_round p emin q"
  using fp_round_ge_multiple [of 0 p emin q] by simp

lemma fp_round_mono:
  assumes p: "1 \<le> p" and "q \<le> r"
  shows "fp_round p emin q \<le> fp_round p emin r"
proof -
  consider "0 < q" | "q \<le> 0" "0 \<le> r" | "r < 0" using assms(2) by linarith
  then show ?thesis
  proof cases
    case 1
    then show ?thesis using assms by (intro fp_round_mono_pos)
  next
    case 2
    have "fp_round p emin q \<le> 0"
      using fp_round_nonneg [of "- q" p emin] 2 by (simp add: fp_round_minus)
    with fp_round_nonneg [of r p emin] 2 show ?thesis by simp
  next
    case 3
    then have "fp_round p emin (- r) \<le> fp_round p emin (- q)"
      using assms by (intro fp_round_mono_pos) simp_all
    then show ?thesis by (simp add: fp_round_minus)
  qed
qed

text \<open>Integers of fewer than \<open>p\<close> bits are represented exactly.\<close>

lemma fp_round_of_int:
  assumes "1 \<le> p" and "emin \<le> 0" and "\<bar>k\<bar> < 2 ^ nat p"
  shows "fp_round p emin (of_int k) = of_int k"
proof (cases "k = 0")
  case True
  then show ?thesis by simp
next
  case False
  have "\<bar>rat_of_int k\<bar> < of_int (2 ^ nat p)"
    using assms(3) by (simp only: of_int_abs [symmetric] of_int_less_iff)
  also have "\<dots> = 2 powi p" using assms(1) by (simp add: power_int_def)
  finally have "ilog2 (of_int k) < p" using False by (intro ilog2_less) simp_all
  then have "max (ilog2 (of_int k) - (p - 1)) emin \<le> 0" using assms(2) by simp
  then obtain m where m: "(2 :: rat) powi 0 = of_int m * ulp p emin (of_int k)"
    unfolding ulp_def by (rule powi2_multiple)
  then have eq: "rat_of_int k = of_int (k * m) * ulp p emin (of_int k)"
    by (simp add: mult.assoc)
  show ?thesis
    using fp_round_le_multiple [of "of_int k" "k * m" p emin]
      fp_round_ge_multiple [of "k * m" p emin "of_int k"] eq
    by (metis order.antisym order.refl)
qed

lemma f32_of_int_exact:
  assumes "\<bar>k\<bar> < 2 ^ 24"
  shows "f32_of_int k = Fin (of_int k)"
proof -
  have "fp_round 24 (-149) (of_int k) = of_int k"
    using assms by (intro fp_round_of_int) simp_all
  moreover have "\<not> f32_max \<le> \<bar>rat_of_int k\<bar>"
  proof -
    have "\<bar>rat_of_int k\<bar> < of_int (2 ^ 24)"
      using assms by (simp only: of_int_abs [symmetric] of_int_less_iff)
    also have "\<dots> \<le> f32_max" by (simp add: f32_max_def)
    finally show ?thesis by simp
  qed
  ultimately show ?thesis by (simp add: f32_of_int_def round32_def)
qed

text \<open>Between two small integers a rounded value stays between them.\<close>

lemma round32_between:
  assumes "of_int a \<le> q" and "q \<le> of_int b" and "\<bar>a\<bar> < 2 ^ 24" and "\<bar>b\<bar> < 2 ^ 24"
  shows "\<exists>r. round32 q = Fin r \<and> of_int a \<le> r \<and> r \<le> of_int b"
proof -
  let ?r = "fp_round 24 (-149) q"
  have "fp_round 24 (-149) (of_int a) \<le> ?r" "?r \<le> fp_round 24 (-149) (of_int b)"
    using assms(1,2) by (simp_all add: fp_round_mono)
  then have ab: "of_int a \<le> ?r" "?r \<le> of_int b"
    using assms(3,4) by (simp_all add: fp_round_of_int)
  have "\<bar>rat_of_int a\<bar> < of_int (2 ^ 24)" "\<bar>rat_of_int b\<bar> < of_int (2 ^ 24)"
    using assms(3,4) by (simp_all only: of_int_abs [symmetric] of_int_less_iff)
  with ab have "\<bar>?r\<bar> < of_int (2 ^ 24)" by (simp add: abs_less_iff)
  also have "\<dots> \<le> f32_max" by (simp add: f32_max_def)
  finally show ?thesis using ab by (simp add: round32_def)
qed

section \<open>\<open>atof\<close>\<close>

text \<open>
  \<open>strtod\<close> on the longest prefix that is a number: optional white space and sign, then
  decimal digits with an optional point and exponent, or the hexadecimal form after
  \<open>0x\<close>, or \<open>inf\<close>/\<open>nan\<close> in any case; zero when there is none. The result rounds
  to a double, and assigning it to \<open>Cvar::value\<close> rounds again to a float.
\<close>

definition digit_val :: "char \<Rightarrow> nat option" where
  "digit_val c =
     (let n = (of_char (to_lower c) :: nat)
      in if 48 \<le> n \<and> n \<le> 57 then Some (n - 48)
         else if 97 \<le> n \<and> n \<le> 102 then Some (n - 87) else None)"

fun scan_digits :: "nat \<Rightarrow> string \<Rightarrow> nat list \<times> string" where
  "scan_digits b [] = ([], [])"
| "scan_digits b (c # cs) =
     (case digit_val c of
        Some d \<Rightarrow> if d < b then (let (ds, r) = scan_digits b cs in (d # ds, r)) else ([], c # cs)
      | None \<Rightarrow> ([], c # cs))"

definition digits_nat :: "nat \<Rightarrow> nat list \<Rightarrow> nat" where
  "digits_nat b ds = foldl (\<lambda>a d. b * a + d) 0 ds"

definition scan_sign :: "string \<Rightarrow> bool \<times> string" where
  "scan_sign s = (case s of c # cs \<Rightarrow> if c = CHR ''-'' then (True, cs)
                                 else if c = CHR ''+'' then (False, cs) else (False, s)
                   | [] \<Rightarrow> (False, []))"

definition scan_exponent :: "char \<Rightarrow> string \<Rightarrow> int" where
  "scan_exponent e s =
     (case s of c # cs \<Rightarrow>
        if to_lower c = e then
          (let (neg, r) = scan_sign cs; n = int (digits_nat 10 (fst (scan_digits 10 r)))
           in if neg then - n else n)
        else 0
      | [] \<Rightarrow> 0)"

definition scan_number :: "nat \<Rightarrow> char \<Rightarrow> nat \<Rightarrow> string \<Rightarrow> rat option" where
  "scan_number b e eb s =
     (let (ip, r) = scan_digits b s;
          (fp, r') = (case r of c # cs \<Rightarrow> if c = CHR ''.'' then scan_digits b cs else ([], r) | [] \<Rightarrow> ([], r))
      in if ip = [] \<and> fp = [] then None
         else Some (of_nat (digits_nat b (ip @ fp)) / of_nat (b ^ length fp)
                    * of_nat eb powi scan_exponent e r'))"

definition scan_float :: "string \<Rightarrow> f32" where
  "scan_float s =
     (if has_prefix ''inf'' (map to_lower s) then Inf False
      else if has_prefix ''nan'' (map to_lower s) then NaN
      else
        (let hex = (if has_prefix ''0x'' (map to_lower s) then scan_number 16 (CHR ''p'') 2 (drop 2 s) else None);
             dec = scan_number 10 (CHR ''e'') 10 s
         in case hex of Some q \<Rightarrow> Fin q | None \<Rightarrow> (case dec of Some q \<Rightarrow> Fin q | None \<Rightarrow> Fin 0)))"

definition atof :: "string \<Rightarrow> f32" where
  "atof s =
     (let (neg, r) = scan_sign (dropWhile is_space s);
          v = (case scan_float r of
                 Fin q \<Rightarrow> let d = fp_round 53 (-1074) q in if 2 ^ 1024 \<le> d then Inf False else round32 d
               | v \<Rightarrow> v)
      in if neg then f32_neg v else v)"

text \<open>\<open>atoi\<close> in glibc: a decimal \<open>long\<close>, saturated, cut to 32 bits.\<close>

definition atoi :: "string \<Rightarrow> u32" where
  "atoi s =
     (let (neg, r) = scan_sign (dropWhile is_space s);
          n = int (digits_nat 10 (fst (scan_digits 10 r)));
          v = (if neg then max (- (2 ^ 63)) (- n) else min (2 ^ 63 - 1) n)
      in word_of_int v)"

subsection \<open>Decimal integers read back exactly\<close>

definition is_digit :: "char \<Rightarrow> bool" where
  "is_digit c = (48 \<le> (of_char c :: nat) \<and> (of_char c :: nat) \<le> 57)"

definition digit_of :: "char \<Rightarrow> nat" where
  "digit_of c = of_char c - 48"

lemma digit_lower: "is_digit c \<Longrightarrow> to_lower c = c"
  by (simp add: is_digit_def to_lower_def)

lemma digit_val_digit: "is_digit c \<Longrightarrow> digit_val c = Some (digit_of c)"
  by (simp add: digit_val_def digit_lower) (simp add: is_digit_def digit_of_def)

lemma digit_of_less: "is_digit c \<Longrightarrow> digit_of c < 10"
  by (auto simp: is_digit_def digit_of_def)

lemma not_digit [simp]: "\<not> is_digit (CHR '' '')" "\<not> is_digit (CHR 0x09)" "\<not> is_digit (CHR 0x0A)"
  "\<not> is_digit (CHR 0x0B)" "\<not> is_digit (CHR 0x0C)" "\<not> is_digit (CHR 0x0D)" "\<not> is_digit (CHR ''-'')"
  "\<not> is_digit (CHR ''+'')" "\<not> is_digit (CHR ''i'')" "\<not> is_digit (CHR ''n'')" "\<not> is_digit (CHR ''x'')"
  by (simp_all add: is_digit_def)

lemma scan_digits_decimal:
  "list_all is_digit s \<Longrightarrow> scan_digits 10 s = (map digit_of s, [])"
  by (induction s) (simp_all add: digit_val_digit digit_of_less)

lemma map_to_lower_digits: "list_all is_digit s \<Longrightarrow> map to_lower s = s"
  by (induction s) (simp_all add: digit_lower)

lemma has_prefix_take: "has_prefix p s \<longleftrightarrow> take (length p) s = p"
  by (induction p s rule: has_prefix.induct) auto

lemma scan_float_decimal:
  assumes "s \<noteq> []" and "list_all is_digit s"
  shows "scan_float s = Fin (of_nat (digits_nat 10 (map digit_of s)))"
proof -
  obtain c cs where s: "s = c # cs" using assms(1) by (cases s) auto
  have c: "is_digit c" using assms(2) s by simp
  then have "c \<noteq> CHR ''i''" "c \<noteq> CHR ''n''" by auto
  then have no_word: "\<not> has_prefix ''inf'' s" "\<not> has_prefix ''nan'' s"
    by (auto simp: s)
  have no_hex: "\<not> has_prefix ''0x'' s"
    using assms(2) by (cases cs) (auto simp: s)
  have "scan_number 10 (CHR ''e'') 10 s = Some (of_nat (digits_nat 10 (map digit_of s)))"
    using assms by (simp add: scan_number_def scan_digits_decimal scan_exponent_def)
  then show ?thesis
    by (simp add: scan_float_def map_to_lower_digits [OF assms(2)] no_word no_hex)
qed

lemma atof_decimal:
  assumes "s \<noteq> []" and "list_all is_digit s" and "digits_nat 10 (map digit_of s) < 2 ^ 24"
  shows "atof s = Fin (of_nat (digits_nat 10 (map digit_of s)))"
proof -
  obtain c cs where s: "s = c # cs" using assms(1) by (cases s) auto
  have c: "is_digit c" using assms(2) s by simp
  then have "\<not> is_space c" by (auto simp: is_space_def)
  then have "dropWhile is_space s = s" by (simp add: s)
  moreover have "scan_sign s = (False, s)"
    using c by (auto simp: s scan_sign_def)
  moreover note scan_float_decimal [OF assms(1,2)]
  moreover have "fp_round 53 (-1074) (of_int (int (digits_nat 10 (map digit_of s)))) =
      of_int (int (digits_nat 10 (map digit_of s)))"
    using assms(3) by (intro fp_round_of_int) simp_all
  moreover have "\<not> (2 :: rat) ^ 1024 \<le> of_nat (digits_nat 10 (map digit_of s))"
  proof -
    have "rat_of_nat (digits_nat 10 (map digit_of s)) < of_nat (2 ^ 24)"
      using assms(3) by (simp only: of_nat_less_iff)
    also have "\<dots> = 2 ^ 24" by simp
    also have "\<dots> \<le> 2 ^ 1024" by (intro power_increasing) simp_all
    finally show ?thesis by simp
  qed
  moreover have "round32 (of_nat (digits_nat 10 (map digit_of s))) =
      Fin (of_nat (digits_nat 10 (map digit_of s)))"
    using f32_of_int_exact [of "int (digits_nat 10 (map digit_of s))"] assms(3)
    by (simp add: f32_of_int_def)
  ultimately show ?thesis by (simp add: atof_def)
qed

end
