(* ===== verification/Capy_List.thy ===== *)
theory Capy_List
  imports Capy_Prelude
begin

text \<open>
  The intrusive linked lists of the engine (convars, console commands, pak images): nodes on
  a heap of addresses, each with a \<open>next\<close> and maybe a \<open>prev\<close> pointer, between a head and a
  tail. A heap maps the addresses of the live nodes; a freed address is not in it. The three
  loops the source runs over such a list (search, visit, free) are \<open>partial_function\<close>s, so
  that a cyclic list is a loop that does not return; the lemmas show that on a well-formed list
  they return what the loop means, and that appending at the tail keeps the list well-formed.
\<close>

type_synonym 'n heap = "nat \<Rightarrow> 'n option"

section \<open>Loops over a list\<close>

text \<open>\<open>while (p) { if (P(p)) return p; p = p->next; }\<close>\<close>

partial_function (option) walk ::
  "('n \<Rightarrow> nat option) \<Rightarrow> ('n \<Rightarrow> bool) \<Rightarrow> 'n heap \<Rightarrow> nat option \<Rightarrow> nat option res option" where
  "walk nx P h p =
     (case p of None \<Rightarrow> Some (Inr None)
      | Some a \<Rightarrow> (case h a of None \<Rightarrow> Some (Inl UseAfterFree)
                  | Some n \<Rightarrow> if P n then Some (Inr (Some a)) else walk nx P h (nx n)))"

text \<open>\<open>while (p) { visit(p); p = p->next; }\<close>, with the visited nodes in order.\<close>

partial_function (option) visit ::
  "('n \<Rightarrow> nat option) \<Rightarrow> 'n heap \<Rightarrow> 'n list \<Rightarrow> nat option \<Rightarrow> 'n list res option" where
  "visit nx h acc p =
     (case p of None \<Rightarrow> Some (Inr acc)
      | Some a \<Rightarrow> (case h a of None \<Rightarrow> Some (Inl UseAfterFree)
                  | Some n \<Rightarrow> visit nx h (acc @ [n]) (nx n)))"

text \<open>\<open>while (p) { q = p->next; delete p; p = q; }\<close>\<close>

partial_function (option) free_all ::
  "('n \<Rightarrow> nat option) \<Rightarrow> 'n heap \<Rightarrow> nat option \<Rightarrow> 'n heap res option" where
  "free_all nx h p =
     (case p of None \<Rightarrow> Some (Inr h)
      | Some a \<Rightarrow> (case h a of None \<Rightarrow> Some (Inl UseAfterFree)
                  | Some n \<Rightarrow> free_all nx (h(a := None)) (nx n)))"

definition run_loop :: "'a res option \<Rightarrow> 'a res" where
  "run_loop r = (case r of None \<Rightarrow> Inl NoReturn | Some x \<Rightarrow> x)"

lemma run_loop_Some [simp]: "run_loop (Some x) = x"
  by (simp add: run_loop_def)

section \<open>Well-formed lists\<close>

text \<open>\<open>dchain nx pv h q p as\<close>: from \<open>p\<close> on, the list has exactly the nodes \<open>as\<close>, and the \<open>prev\<close>
  pointers point back, the first one to \<open>q\<close>.\<close>

fun dchain :: "('n \<Rightarrow> nat option) \<Rightarrow> ('n \<Rightarrow> nat option) \<Rightarrow> 'n heap \<Rightarrow> nat option \<Rightarrow> nat option
    \<Rightarrow> nat list \<Rightarrow> bool" where
  "dchain nx pv h q p [] = (p = None)"
| "dchain nx pv h q p (a # as) =
     (p = Some a \<and> (\<exists>n. h a = Some n \<and> pv n = q \<and> dchain nx pv h (Some a) (nx n) as))"

definition dlist :: "('n \<Rightarrow> nat option) \<Rightarrow> ('n \<Rightarrow> nat option) \<Rightarrow> 'n heap \<Rightarrow> nat option \<Rightarrow> nat option
    \<Rightarrow> nat list \<Rightarrow> bool" where
  "dlist nx pv h hd_p tl_p as =
     (dchain nx pv h None hd_p as \<and> distinct as \<and> set as = dom h
      \<and> tl_p = (if as = [] then None else Some (last as)))"

lemma dchain_in_heap: "dchain nx pv h q p as \<Longrightarrow> a \<in> set as \<Longrightarrow> \<exists>n. h a = Some n"
  by (induction as arbitrary: q p) auto

lemma walk_dchain:
  "dchain nx pv h q p as \<Longrightarrow> walk nx P h p = Some (Inr (find (\<lambda>a. P (the (h a))) as))"
proof (induction as arbitrary: q p)
  case Nil
  then show ?case by (simp add: walk.simps)
next
  case (Cons a as)
  then obtain n where n: "p = Some a" "h a = Some n" "dchain nx pv h (Some a) (nx n) as" by auto
  from Cons.IH [OF n(3)] n(1,2) show ?case by (simp add: walk.simps [of nx P h "Some a"])
qed

lemma visit_dchain:
  "dchain nx pv h q p as \<Longrightarrow> visit nx h acc p = Some (Inr (acc @ map (\<lambda>a. the (h a)) as))"
proof (induction as arbitrary: q p acc)
  case Nil
  then show ?case by (simp add: visit.simps)
next
  case (Cons a as)
  then obtain n where n: "p = Some a" "h a = Some n" "dchain nx pv h (Some a) (nx n) as" by auto
  from Cons.IH [OF n(3), of "acc @ [n]"] n(1,2) show ?case
    by (simp add: visit.simps [of nx h acc "Some a"])
qed

lemma dchain_upd_other:
  "a \<notin> set as \<Longrightarrow> dchain nx pv (h(a := x)) q p as = dchain nx pv h q p as"
  by (induction as arbitrary: q p) auto

text \<open>A write that leaves the pointers of a node alone leaves the list alone.\<close>

lemma dchain_upd_same:
  assumes "h a = Some n" and "nx n' = nx n" and "pv n' = pv n"
  shows "dchain nx pv (h(a \<mapsto> n')) q p as = dchain nx pv h q p as"
  using assms by (induction as arbitrary: q p) auto

lemma free_all_dchain:
  "dchain nx pv h q p as \<Longrightarrow> distinct as \<Longrightarrow> free_all nx h p = Some (Inr (h |` (- set as)))"
proof (induction as arbitrary: q p h)
  case Nil
  then show ?case by (simp add: free_all.simps)
next
  case (Cons a as)
  then obtain n where n: "p = Some a" "h a = Some n" "dchain nx pv h (Some a) (nx n) as" by auto
  from n(3) Cons.prems(2) have ch: "dchain nx pv (h(a := None)) (Some a) (nx n) as"
    by (simp add: dchain_upd_other)
  have "distinct as" using Cons.prems(2) by simp
  from Cons.IH [OF ch this]
  have IH: "free_all nx (h(a := None)) (nx n) = Some (Inr ((h(a := None)) |` (- set as)))" .
  have "free_all nx h p = free_all nx (h(a := None)) (nx n)"
    using n(1,2) by (subst free_all.simps) simp
  also note IH
  also have "(h(a := None)) |` (- set as) = h |` (- set (a # as))"
    by (auto simp: restrict_map_def fun_eq_iff)
  finally show ?case .
qed

lemma dchain_snoc:
  assumes "dchain nx pv h q p as" and "distinct as" and "as \<noteq> []" and "a \<notin> set as"
    and "h (last as) = Some t" and "nx t' = Some a" and "pv t' = pv t"
    and "pv n = Some (last as)" and "nx n = None"
  shows "dchain nx pv (h(last as \<mapsto> t', a \<mapsto> n)) q p (as @ [a])"
  using assms
proof (induction as arbitrary: q p)
  case Nil
  then show ?case by simp
next
  case (Cons b bs)
  from Cons.prems(1) obtain m where m: "p = Some b" "h b = Some m" "pv m = q"
    "dchain nx pv h (Some b) (nx m) bs" by auto
  show ?case
  proof (cases "bs = []")
    case True
    with Cons.prems m show ?thesis by auto
  next
    case False
    with Cons.prems m have "dchain nx pv (h(last bs \<mapsto> t', a \<mapsto> n)) (Some b) (nx m) (bs @ [a])"
      by (intro Cons.IH) auto
    moreover from Cons.prems False have "b \<noteq> last bs" "b \<noteq> a" by auto
    moreover from this have "(h(last bs \<mapsto> t', a \<mapsto> n)) b = Some m" using m by simp
    ultimately show ?thesis using False m by (simp del: fun_upd_apply)
  qed
qed

subsection \<open>Lists between a head and a tail\<close>

lemma dlist_empty: "dlist nx pv Map.empty None None []"
  by (simp add: dlist_def)

lemma dlist_head_None: "dlist nx pv h None tl_p as \<Longrightarrow> as = []"
  by (cases as) (auto simp: dlist_def)

lemma dlist_head_Some: "dlist nx pv h (Some a) tl_p as \<Longrightarrow> as \<noteq> []"
  by (cases as) (auto simp: dlist_def)

lemma dlist_first:
  assumes "a \<notin> dom h" and "dlist nx pv h None tl_p as" and "pv n = None" and "nx n = None"
  shows "dlist nx pv (h(a \<mapsto> n)) (Some a) (Some a) [a]"
proof -
  have "as = []" using assms(2) by (rule dlist_head_None)
  with assms(2) have "dom h = {}" by (simp add: dlist_def)
  then have "h = Map.empty" by simp
  with assms(3,4) show ?thesis by (simp add: dlist_def)
qed

lemma dlist_snoc:
  assumes "dlist nx pv h hd_p (Some t) as" and "a \<notin> dom h" and "h t = Some m"
    and "nx m' = Some a" and "pv m' = pv m" and "pv n = Some t" and "nx n = None"
  shows "dlist nx pv (h(t \<mapsto> m', a \<mapsto> n)) hd_p (Some a) (as @ [a])"
proof -
  have as: "as \<noteq> []" "t = last as" "dchain nx pv h None hd_p as" "distinct as" "set as = dom h"
    using assms(1) by (auto simp: dlist_def split: if_splits)
  have "a \<notin> set as" using as(5) assms(2) by simp
  then have "dchain nx pv (h(last as \<mapsto> m', a \<mapsto> n)) None hd_p (as @ [a])"
    using as assms by (intro dchain_snoc) auto
  moreover have "dom (h(t \<mapsto> m', a \<mapsto> n)) = insert a (dom h)"
    using assms(3) by auto
  ultimately show ?thesis using as \<open>a \<notin> set as\<close> by (simp add: dlist_def)
qed

lemma dlist_upd_same:
  assumes "dlist nx pv h hd_p tl_p as" and "h a = Some n" and "nx n' = nx n" and "pv n' = pv n"
  shows "dlist nx pv (h(a \<mapsto> n')) hd_p tl_p as"
  using assms dchain_upd_same [of h a n nx n' pv None hd_p as]
  by (auto simp: dlist_def)

lemma dlist_tail:
  assumes "dlist nx pv h (Some a) tl_p as"
  shows "\<exists>t m. tl_p = Some t \<and> h t = Some m \<and> t = last as"
proof -
  have "as \<noteq> []" using assms by (rule dlist_head_Some)
  then have "last as \<in> set as" by simp
  with assms have "\<exists>m. h (last as) = Some m"
    by (auto simp: dlist_def dest: dchain_in_heap)
  with assms \<open>as \<noteq> []\<close> show ?thesis by (simp add: dlist_def)
qed

lemma walk_dlist:
  "dlist nx pv h hd_p tl_p as \<Longrightarrow>
     run_loop (walk nx P h hd_p) = Inr (find (\<lambda>a. P (the (h a))) as)"
  using walk_dchain [of nx pv h None hd_p as P] by (simp add: dlist_def)

lemma visit_dlist:
  "dlist nx pv h hd_p tl_p as \<Longrightarrow>
     run_loop (visit nx h [] hd_p) = Inr (map (\<lambda>a. the (h a)) as)"
  using visit_dchain [of nx pv h None hd_p as "[]"] by (simp add: dlist_def)

lemma free_all_dlist:
  assumes "dlist nx pv h hd_p tl_p as"
  shows "run_loop (free_all nx h hd_p) = Inr Map.empty"
proof -
  have "h |` (- dom h) = Map.empty" by (auto simp: restrict_map_def fun_eq_iff)
  with assms free_all_dchain [of nx pv h None hd_p as] show ?thesis by (simp add: dlist_def)
qed

lemma dlist_address:
  "dlist nx pv h hd_p tl_p as \<Longrightarrow> a \<in> set as \<Longrightarrow> \<exists>n. h a = Some n"
  by (auto simp: dlist_def dest: dchain_in_heap)

lemma find_Some_set: "find P xs = Some x \<Longrightarrow> x \<in> set xs \<and> P x"
  by (induction xs) (auto split: if_splits)

end
