(* ===== verification/Capy_Machine.thy ===== *)
theory Capy_Machine
  imports Main
begin

text \<open>
  The contract every stateful component of the engine is held to: a set of start states, a
  step relation, and an invariant that holds at the start and that every step keeps. Its
  client gets the invariant in every reachable state, and along every run.
\<close>

locale kept_invariant =
  fixes start :: "'s \<Rightarrow> bool"
    and step :: "'s \<Rightarrow> 's \<Rightarrow> bool"
    and inv :: "'s \<Rightarrow> bool"
  assumes inv_start: "start s \<Longrightarrow> inv s"
    and inv_step: "inv s \<Longrightarrow> step s t \<Longrightarrow> inv t"
begin

lemma inv_steps: "step\<^sup>*\<^sup>* s t \<Longrightarrow> inv s \<Longrightarrow> inv t"
  by (induction rule: rtranclp_induct) (auto intro: inv_step)

lemma inv_reachable: "start s \<Longrightarrow> step\<^sup>*\<^sup>* s t \<Longrightarrow> inv t"
  by (blast intro: inv_start inv_steps)

end

text \<open>A component whose invariant also excludes an error: no reachable state can take a step
  that \<open>bad\<close> describes.\<close>

locale safe_machine = kept_invariant +
  fixes bad :: "'s \<Rightarrow> bool"
  assumes inv_safe: "inv s \<Longrightarrow> \<not> bad s"
begin

lemma reachable_safe: "start s \<Longrightarrow> step\<^sup>*\<^sup>* s t \<Longrightarrow> \<not> bad t"
  by (rule inv_safe, rule inv_reachable)

end

end
