(* ===== verification/Capy_Cvar.thy ===== *)
theory Capy_Cvar
  imports Capy_Float Capy_List Capy_Machine
begin

text \<open>
  The convar system (\<open>core/cvar/cvar.cpp\<close>): a doubly linked list of convars between
  \<open>cvarlist_head\<close> and \<open>cvarlist_tail\<close>, searched by name without regard to case.
  A convar stores the two \<open>const char*\<close> it was given, not copies: a pointer to a literal or
  to a command line argument always reads the same text (\<open>Lit\<close>), a pointer into the command
  system's token buffer \<open>lastToken\<close> reads whatever that buffer holds now (\<open>Tok\<close>). Every
  operation that compares or parses names therefore takes the buffer's content \<open>mem\<close>.
\<close>

section \<open>Data\<close>

datatype cstr = Lit string | Tok nat

fun deref :: "char list \<Rightarrow> cstr \<Rightarrow> string" where
  "deref mem (Lit s) = s"
| "deref mem (Tok i) = c_str (drop i mem)"

text \<open>\<open>CvarFlags\<close>\<close>

type_synonym cvar_flags = u32

definition Cvar_Default :: cvar_flags where "Cvar_Default = 0"
definition Cvar_NoUser :: cvar_flags where "Cvar_NoUser = 1"
definition Cvar_Archive :: cvar_flags where "Cvar_Archive = 2"
definition Cvar_Replicate :: cvar_flags where "Cvar_Replicate = 4"

text \<open>Function pointers are numbered; a null one is \<open>None\<close>.\<close>

record cvar =
  cv_name :: cstr
  cv_string :: cstr
  cv_flags :: cvar_flags
  cv_value :: f32
  cv_prev :: "nat option"
  cv_next :: "nat option"
  cv_onGet :: "nat option"
  cv_onSet :: "nat option"

text \<open>The globals of the convar system, the addresses not yet given out by \<open>new\<close> (from
  \<open>cvar_fresh\<close> on), and the callbacks called so far.\<close>

record cvar_sys =
  cvars :: "cvar heap"
  cvar_fresh :: nat
  cvarlist_head :: "nat option"
  cvarlist_tail :: "nat option"
  cvar_calls :: "nat list"

definition cvar_sys0 :: cvar_sys where
  "cvar_sys0 = \<lparr>cvars = Map.empty, cvar_fresh = 0, cvarlist_head = None, cvarlist_tail = None,
     cvar_calls = []\<rparr>"

section \<open>Operations\<close>

definition call_cb :: "nat option \<Rightarrow> cvar_sys \<Rightarrow> cvar_sys" where
  "call_cb cb s = (case cb of None \<Rightarrow> s | Some f \<Rightarrow> s\<lparr>cvar_calls := cvar_calls s @ [f]\<rparr>)"

definition name_is :: "char list \<Rightarrow> string \<Rightarrow> cvar \<Rightarrow> bool" where
  "name_is mem n c = strcaseeq (deref mem (cv_name c)) n"

text \<open>The search loop \<open>Cvar_Exists\<close>, \<open>Cvar_Get\<close> and \<open>Cvar_Set\<close> all run.\<close>

definition Cvar_Exists :: "char list \<Rightarrow> cvar_sys \<Rightarrow> cstr \<Rightarrow> nat option res" where
  "Cvar_Exists mem s name =
     run_loop (walk cv_next (name_is mem (deref mem name)) (cvars s) (cvarlist_head s))"

text \<open>The branch of \<open>Cvar_Set\<close> for a convar that exists.\<close>

definition Cvar_Set_found :: "char list \<Rightarrow> cvar_sys \<Rightarrow> nat \<Rightarrow> cstr \<Rightarrow> bool \<Rightarrow> cvar_sys res" where
  "Cvar_Set_found mem s a string internal =
     (case cvars s a of
        None \<Rightarrow> Inl UseAfterFree
      | Some c \<Rightarrow>
          if \<not> internal \<and> and (cv_flags c) Cvar_NoUser \<noteq> 0 then Inr s
          else
            let c' = c\<lparr>cv_string := string, cv_value := atof (deref mem string)\<rparr>
            in Inr (call_cb (cv_onSet c') (s\<lparr>cvars := (cvars s)(a \<mapsto> c')\<rparr>)))"

text \<open>\<open>new Cvar()\<close> linked at the tail, with its fields set; it is value-initialised, so what
  \<open>Cvar_Create\<close> does not assign (the flags and the callbacks) is zero.\<close>

definition new_cvar :: "char list \<Rightarrow> cstr \<Rightarrow> cstr \<Rightarrow> nat option \<Rightarrow> cvar" where
  "new_cvar mem name string prev =
     \<lparr>cv_name = name, cv_string = string, cv_flags = 0, cv_value = atof (deref mem string),
      cv_prev = prev, cv_next = None, cv_onGet = None, cv_onSet = None\<rparr>"

definition Cvar_Append :: "char list \<Rightarrow> cvar_sys \<Rightarrow> cstr \<Rightarrow> cstr \<Rightarrow> (nat \<times> cvar_sys) res" where
  "Cvar_Append mem s name string =
     (let a = cvar_fresh s; s1 = s\<lparr>cvar_fresh := Suc a\<rparr> in
      case cvarlist_head s of
        None \<Rightarrow>
          let c = new_cvar mem name string None
          in Inr (a, call_cb (cv_onSet c)
                (s1\<lparr>cvars := (cvars s)(a \<mapsto> c), cvarlist_head := Some a, cvarlist_tail := Some a\<rparr>))
      | Some _ \<Rightarrow>
          (case cvarlist_tail s of
             None \<Rightarrow> Inl NullDeref
           | Some t \<Rightarrow>
               (case cvars s t of
                  None \<Rightarrow> Inl UseAfterFree
                | Some ct \<Rightarrow>
                    let c = new_cvar mem name string (Some t)
                    in Inr (a, call_cb (cv_onSet c)
                          (s1\<lparr>cvars := (cvars s)(t \<mapsto> ct\<lparr>cv_next := Some a\<rparr>, a \<mapsto> c),
                             cvarlist_tail := Some a\<rparr>)))))"

text \<open>
  \<open>Cvar_Create\<close>. For a name that exists it calls \<open>Cvar_Set(name, string, flags & Cvar_NoUser)\<close>:
  the overload with a \<open>bool\<close>, which calls the four-argument \<open>Cvar_Set\<close> with
  \<open>internal = false\<close>; that one searches the same list for the same name again, so it runs
  \<open>Cvar_Set_found\<close> on the convar just found.
\<close>

definition Cvar_Create ::
  "char list \<Rightarrow> cvar_sys \<Rightarrow> cstr \<Rightarrow> cstr \<Rightarrow> cvar_flags \<Rightarrow> bool \<Rightarrow> (nat \<times> cvar_sys) res" where
  "Cvar_Create mem s name string flags internal =
     bind_res (Cvar_Exists mem s name) (\<lambda>r.
       case r of
         Some a \<Rightarrow> map_res (Pair a) (Cvar_Set_found mem s a string False)
       | None \<Rightarrow> Cvar_Append mem s name string)"

text \<open>\<open>Cvar_Get(name, string, flags, internal)\<close> and its overload with a \<open>bool\<close>.\<close>

definition Cvar_Get ::
  "char list \<Rightarrow> cvar_sys \<Rightarrow> cstr \<Rightarrow> cstr \<Rightarrow> cvar_flags \<Rightarrow> bool \<Rightarrow> (nat \<times> cvar_sys) res" where
  "Cvar_Get mem s name string flags internal =
     bind_res (Cvar_Exists mem s name) (\<lambda>r.
       case r of
         Some a \<Rightarrow> (case cvars s a of
                      None \<Rightarrow> Inl UseAfterFree
                    | Some c \<Rightarrow> Inr (a, call_cb (cv_onGet c) s))
       | None \<Rightarrow> Cvar_Create mem s name string flags internal)"

definition Cvar_Get_bool ::
  "char list \<Rightarrow> cvar_sys \<Rightarrow> cstr \<Rightarrow> cstr \<Rightarrow> bool \<Rightarrow> (nat \<times> cvar_sys) res" where
  "Cvar_Get_bool mem s name string internal =
     Cvar_Get mem s name string (if internal then Cvar_NoUser else Cvar_Default) False"

text \<open>\<open>Cvar_Set(name, string, flags, internal)\<close> and its overload with a \<open>bool\<close>.\<close>

definition Cvar_Set ::
  "char list \<Rightarrow> cvar_sys \<Rightarrow> cstr \<Rightarrow> cstr \<Rightarrow> cvar_flags \<Rightarrow> bool \<Rightarrow> cvar_sys res" where
  "Cvar_Set mem s name string flags internal =
     bind_res (Cvar_Exists mem s name) (\<lambda>r.
       case r of
         Some a \<Rightarrow> Cvar_Set_found mem s a string internal
       | None \<Rightarrow> map_res snd (Cvar_Create mem s name string flags False))"

definition Cvar_Set_bool :: "char list \<Rightarrow> cvar_sys \<Rightarrow> cstr \<Rightarrow> cstr \<Rightarrow> bool \<Rightarrow> cvar_sys res" where
  "Cvar_Set_bool mem s name string internal =
     Cvar_Set mem s name string (if internal then Cvar_NoUser else Cvar_Default) False"

text \<open>\<open>Cvar_SetOnGetCallback\<close> and \<open>Cvar_SetOnSetCallback\<close>: nothing happens for a null convar.\<close>

definition Cvar_SetOnGetCallback :: "cvar_sys \<Rightarrow> nat option \<Rightarrow> nat option \<Rightarrow> cvar_sys res" where
  "Cvar_SetOnGetCallback s cv cb =
     (case cv of None \<Rightarrow> Inr s
      | Some a \<Rightarrow> (case cvars s a of None \<Rightarrow> Inl UseAfterFree
                  | Some c \<Rightarrow> Inr (s\<lparr>cvars := (cvars s)(a \<mapsto> c\<lparr>cv_onGet := cb\<rparr>)\<rparr>)))"

definition Cvar_SetOnSetCallback :: "cvar_sys \<Rightarrow> nat option \<Rightarrow> nat option \<Rightarrow> cvar_sys res" where
  "Cvar_SetOnSetCallback s cv cb =
     (case cv of None \<Rightarrow> Inr s
      | Some a \<Rightarrow> (case cvars s a of None \<Rightarrow> Inl UseAfterFree
                  | Some c \<Rightarrow> Inr (s\<lparr>cvars := (cvars s)(a \<mapsto> c\<lparr>cv_onSet := cb\<rparr>)\<rparr>)))"

text \<open>\<open>Cvar_List\<close>: the name, value and flags of each line it logs.\<close>

definition Cvar_List :: "char list \<Rightarrow> cvar_sys \<Rightarrow> (string \<times> string \<times> cvar_flags) list res" where
  "Cvar_List mem s =
     map_res (map (\<lambda>c. (deref mem (cv_name c), deref mem (cv_string c), cv_flags c)))
       (run_loop (visit cv_next (cvars s) [] (cvarlist_head s)))"

definition Cvar_Shutdown :: "cvar_sys \<Rightarrow> cvar_sys res" where
  "Cvar_Shutdown s =
     (if cvarlist_head s = None \<or> cvarlist_tail s = None then Inr s
      else map_res (\<lambda>h. s\<lparr>cvars := h, cvarlist_head := None, cvarlist_tail := None\<rparr>)
             (run_loop (free_all cv_next (cvars s) (cvarlist_head s))))"

section \<open>The list of convars stays a list\<close>

abbreviation cvar_dlist :: "cvar_sys \<Rightarrow> nat list \<Rightarrow> bool" where
  "cvar_dlist s as \<equiv>
     dlist cv_next cv_prev (cvars s) (cvarlist_head s) (cvarlist_tail s) as"

definition cvar_wf :: "cvar_sys \<Rightarrow> nat list \<Rightarrow> bool" where
  "cvar_wf s as = (cvar_dlist s as \<and> (\<forall>a \<in> set as. a < cvar_fresh s))"

text \<open>What a convar holds apart from its links.\<close>

definition cv_payload :: "cvar \<Rightarrow> cstr \<times> cstr \<times> cvar_flags \<times> f32 \<times> nat option \<times> nat option" where
  "cv_payload c = (cv_name c, cv_string c, cv_flags c, cv_value c, cv_onGet c, cv_onSet c)"

lemma cvars_call_cb [simp]:
  "cvars (call_cb f s) = cvars s" "cvar_fresh (call_cb f s) = cvar_fresh s"
  "cvarlist_head (call_cb f s) = cvarlist_head s" "cvarlist_tail (call_cb f s) = cvarlist_tail s"
  by (simp_all add: call_cb_def split: option.split)

lemma call_cb_None [simp]: "call_cb None s = s"
  by (simp add: call_cb_def)

lemma cvar_wf_call_cb [simp]: "cvar_wf (call_cb f s) as = cvar_wf s as"
  by (simp add: cvar_wf_def)

lemma cvar_wf_dom: "cvar_wf s as \<Longrightarrow> set as = dom (cvars s)"
  by (simp add: cvar_wf_def dlist_def)

lemma cvar_wf_fresh: "cvar_wf s as \<Longrightarrow> cvar_fresh s \<notin> dom (cvars s)"
  unfolding cvar_wf_def dlist_def by (metis less_irrefl)

lemma cvar_wf_empty: "cvar_wf cvar_sys0 []"
  by (simp add: cvar_wf_def cvar_sys0_def dlist_empty)

definition found :: "char list \<Rightarrow> cvar_sys \<Rightarrow> nat list \<Rightarrow> cstr \<Rightarrow> nat option" where
  "found mem s as name = find (\<lambda>a. name_is mem (deref mem name) (the (cvars s a))) as"

lemma Cvar_Exists_wf: "cvar_wf s as \<Longrightarrow> Cvar_Exists mem s name = Inr (found mem s as name)"
  using walk_dlist [of cv_next cv_prev "cvars s" "cvarlist_head s" "cvarlist_tail s" as]
  by (simp add: Cvar_Exists_def cvar_wf_def found_def)

lemma found_Some:
  assumes "cvar_wf s as" and "found mem s as name = Some a"
  obtains c where "a \<in> set as" "cvars s a = Some c" "name_is mem (deref mem name) c"
proof -
  have a: "a \<in> set as" "name_is mem (deref mem name) (the (cvars s a))"
    using assms(2) unfolding found_def by (auto dest: find_Some_set)
  then obtain c where "cvars s a = Some c"
    using cvar_wf_dom [OF assms(1)] by auto
  with a show ?thesis by (intro that) auto
qed

text \<open>The branch for an existing convar keeps the list and every other convar.\<close>

lemma Cvar_Set_found_wf:
  assumes "cvar_wf s as" and "cvars s a = Some c"
  shows "\<exists>s'. Cvar_Set_found mem s a string internal = Inr s' \<and> cvar_wf s' as
    \<and> cvars s' = (if \<not> internal \<and> and (cv_flags c) Cvar_NoUser \<noteq> 0 then cvars s
        else (cvars s)(a \<mapsto> c\<lparr>cv_string := string, cv_value := atof (deref mem string)\<rparr>))
    \<and> cvar_fresh s' = cvar_fresh s"
  using assms dlist_upd_same [of cv_next cv_prev "cvars s" "cvarlist_head s" "cvarlist_tail s" as a c
      "c\<lparr>cv_string := string, cv_value := atof (deref mem string)\<rparr>"]
  by (auto simp: Cvar_Set_found_def cvar_wf_def Let_def)

text \<open>A new convar goes to the end of the list; the others keep what they hold.\<close>

lemma Cvar_Append_wf:
  assumes wf: "cvar_wf s as"
  shows "\<exists>s' c. Cvar_Append mem s name string = Inr (cvar_fresh s, s')
    \<and> cvar_wf s' (as @ [cvar_fresh s])
    \<and> cvars s' (cvar_fresh s) = Some c
    \<and> cv_payload c = (name, string, 0, atof (deref mem string), None, None)
    \<and> (\<forall>b. b \<noteq> cvar_fresh s \<longrightarrow>
          map_option cv_payload (cvars s' b) = map_option cv_payload (cvars s b))
    \<and> cvar_calls s' = cvar_calls s"
proof -
  let ?a = "cvar_fresh s"
  have dl: "cvar_dlist s as" and lt: "\<forall>b \<in> set as. b < ?a"
    using wf by (simp_all add: cvar_wf_def)
  have fresh: "?a \<notin> dom (cvars s)" using wf by (rule cvar_wf_fresh)
  show ?thesis
  proof (cases "cvarlist_head s")
    case None
    let ?c = "new_cvar mem name string None"
    have "as = []" using dl None by (simp add: dlist_head_None)
    moreover have "dlist cv_next cv_prev ((cvars s)(?a \<mapsto> ?c)) (Some ?a) (Some ?a) [?a]"
      using dl None fresh by (intro dlist_first) (simp_all add: new_cvar_def)
    ultimately show ?thesis
      using None by (simp add: Cvar_Append_def Let_def cvar_wf_def new_cvar_def cv_payload_def)
  next
    case (Some h)
    then obtain t ct where t: "cvarlist_tail s = Some t" "cvars s t = Some ct"
      using dl dlist_tail by metis
    let ?c = "new_cvar mem name string (Some t)"
    have ne: "?a \<noteq> t" using fresh t(2) by auto
    have "dlist cv_next cv_prev ((cvars s)(t \<mapsto> ct\<lparr>cv_next := Some ?a\<rparr>, ?a \<mapsto> ?c))
        (Some h) (Some ?a) (as @ [?a])"
      using dl Some t fresh by (intro dlist_snoc) (simp_all add: new_cvar_def)
    then show ?thesis
      using Some t ne lt
      by (auto simp: Cvar_Append_def Let_def cvar_wf_def new_cvar_def cv_payload_def)
  qed
qed

section \<open>Refinement of a plain list\<close>

text \<open>
  What the convar system promises, without pointers: a list of convars in the order of their
  creation, looked up by the first name that matches, updated in place, extended at the end.
\<close>

type_synonym cvar_entry = "nat \<times> cstr \<times> cstr \<times> cvar_flags \<times> f32 \<times> nat option \<times> nat option"

definition cvar_abs :: "cvar_sys \<Rightarrow> nat list \<Rightarrow> cvar_entry list" where
  "cvar_abs s as = map (\<lambda>a. (a, cv_payload (the (cvars s a)))) as"

definition spec_found :: "char list \<Rightarrow> cvar_entry list \<Rightarrow> string \<Rightarrow> cvar_entry option" where
  "spec_found mem l n = find (\<lambda>e. strcaseeq (deref mem (fst (snd e))) n) l"

definition spec_add :: "char list \<Rightarrow> cvar_entry list \<Rightarrow> nat \<Rightarrow> cstr \<Rightarrow> cstr \<Rightarrow> cvar_entry list" where
  "spec_add mem l a name string = l @ [(a, name, string, 0, atof (deref mem string), None, None)]"

definition put_text :: "char list \<Rightarrow> cstr
    \<Rightarrow> cstr \<times> cstr \<times> cvar_flags \<times> f32 \<times> nat option \<times> nat option
    \<Rightarrow> cstr \<times> cstr \<times> cvar_flags \<times> f32 \<times> nat option \<times> nat option" where
  "put_text mem string = (\<lambda>(n, v, fl, x, g, t). (n, string, fl, atof (deref mem string), g, t))"

definition spec_put :: "char list \<Rightarrow> cvar_entry list \<Rightarrow> nat \<Rightarrow> cstr \<Rightarrow> cvar_entry list" where
  "spec_put mem l a string = map (\<lambda>(b, p). (b, if b = a then put_text mem string p else p)) l"

definition spec_get :: "char list \<Rightarrow> cvar_entry list \<Rightarrow> nat \<Rightarrow> cstr \<Rightarrow> cstr \<Rightarrow> nat \<times> cvar_entry list" where
  "spec_get mem l a name string =
     (case spec_found mem l (deref mem name) of
        Some e \<Rightarrow> (fst e, l)
      | None \<Rightarrow> (a, spec_add mem l a name string))"

definition spec_set :: "char list \<Rightarrow> cvar_entry list \<Rightarrow> nat \<Rightarrow> cstr \<Rightarrow> cstr \<Rightarrow> bool \<Rightarrow> cvar_entry list" where
  "spec_set mem l a name string internal =
     (case spec_found mem l (deref mem name) of
        Some (b, n, v, fl, _) \<Rightarrow>
          if \<not> internal \<and> and fl Cvar_NoUser \<noteq> 0 then l else spec_put mem l b string
      | None \<Rightarrow> spec_add mem l a name string)"

lemma find_map: "find P (map f xs) = map_option f (find (P \<circ> f) xs)"
  by (induction xs) auto

lemma spec_found_abs:
  "spec_found mem (cvar_abs s as) (deref mem name) =
     map_option (\<lambda>a. (a, cv_payload (the (cvars s a)))) (found mem s as name)"
proof -
  have "(\<lambda>e. strcaseeq (deref mem (fst (snd e))) (deref mem name)) \<circ>
      (\<lambda>a. (a, cv_payload (the (cvars s a)))) =
      (\<lambda>a. name_is mem (deref mem name) (the (cvars s a)))"
    by (simp add: fun_eq_iff name_is_def cv_payload_def)
  then show ?thesis
    by (simp add: spec_found_def cvar_abs_def found_def find_map)
qed

lemma cvar_abs_call_cb [simp]: "cvar_abs (call_cb f s) as = cvar_abs s as"
  by (simp add: cvar_abs_def)

lemma cvar_abs_append:
  assumes wf: "cvar_wf s as"
    and new: "cvars s' (cvar_fresh s) = Some c"
      "cv_payload c = (name, string, 0, atof (deref mem string), None, None)"
    and old: "\<forall>b. b \<noteq> cvar_fresh s \<longrightarrow>
      map_option cv_payload (cvars s' b) = map_option cv_payload (cvars s b)"
  shows "cvar_abs s' (as @ [cvar_fresh s]) = spec_add mem (cvar_abs s as) (cvar_fresh s) name string"
proof -
  have "cv_payload (the (cvars s' b)) = cv_payload (the (cvars s b))" if b: "b \<in> set as" for b
  proof -
    have "b \<noteq> cvar_fresh s" using wf b by (auto simp: cvar_wf_def)
    moreover obtain n where "cvars s b = Some n"
      using wf b dlist_address unfolding cvar_wf_def by metis
    ultimately show ?thesis using old by (metis option.map(2) option.sel map_option_eq_Some)
  qed
  then show ?thesis using new by (simp add: cvar_abs_def spec_add_def)
qed

lemma cvar_abs_put:
  assumes wf: "cvar_wf s as" and c: "cvars s a = Some c"
    and s': "cvars s' = (cvars s)(a \<mapsto> c\<lparr>cv_string := string, cv_value := atof (deref mem string)\<rparr>)"
  shows "cvar_abs s' as = spec_put mem (cvar_abs s as) a string"
  using c by (auto simp: cvar_abs_def spec_put_def put_text_def s' cv_payload_def)

lemma Cvar_Create_new:
  assumes "cvar_wf s as" and "found mem s as name = None"
  shows "Cvar_Create mem s name string flags internal = Cvar_Append mem s name string"
  using assms by (simp add: Cvar_Create_def Cvar_Exists_wf)

theorem Cvar_Get_refines:
  assumes wf: "cvar_wf s as"
  shows "\<exists>a s' as'. Cvar_Get mem s name string flags internal = Inr (a, s') \<and> cvar_wf s' as'
    \<and> (a, cvar_abs s' as') = spec_get mem (cvar_abs s as) (cvar_fresh s) name string"
proof (cases "found mem s as name")
  case None
  obtain s' c where "Cvar_Append mem s name string = Inr (cvar_fresh s, s')"
    "cvar_wf s' (as @ [cvar_fresh s])"
    "cvar_abs s' (as @ [cvar_fresh s]) = spec_add mem (cvar_abs s as) (cvar_fresh s) name string"
    using Cvar_Append_wf [OF wf, of mem name string] cvar_abs_append [OF wf] by metis
  then show ?thesis
    using wf None by (auto simp: Cvar_Get_def Cvar_Exists_wf Cvar_Create_new spec_get_def spec_found_abs)
next
  case (Some a)
  then obtain c where "cvars s a = Some c" using wf by (auto elim: found_Some)
  with Some wf show ?thesis
    by (auto simp: Cvar_Get_def Cvar_Exists_wf spec_get_def spec_found_abs intro!: exI [of _ as])
qed

theorem Cvar_Set_refines:
  assumes wf: "cvar_wf s as"
  shows "\<exists>s' as'. Cvar_Set mem s name string flags internal = Inr s' \<and> cvar_wf s' as'
    \<and> cvar_abs s' as' = spec_set mem (cvar_abs s as) (cvar_fresh s) name string internal"
proof (cases "found mem s as name")
  case None
  obtain s' c where "Cvar_Append mem s name string = Inr (cvar_fresh s, s')"
    "cvar_wf s' (as @ [cvar_fresh s])"
    "cvar_abs s' (as @ [cvar_fresh s]) = spec_add mem (cvar_abs s as) (cvar_fresh s) name string"
    using Cvar_Append_wf [OF wf, of mem name string] cvar_abs_append [OF wf] by metis
  then show ?thesis
    using wf None by (auto simp: Cvar_Set_def Cvar_Exists_wf Cvar_Create_new spec_set_def spec_found_abs)
next
  case (Some a)
  then obtain c where c: "cvars s a = Some c" using wf by (auto elim: found_Some)
  obtain s' where s': "Cvar_Set_found mem s a string internal = Inr s'" "cvar_wf s' as"
    "cvars s' = (if \<not> internal \<and> and (cv_flags c) Cvar_NoUser \<noteq> 0 then cvars s
      else (cvars s)(a \<mapsto> c\<lparr>cv_string := string, cv_value := atof (deref mem string)\<rparr>))"
    using Cvar_Set_found_wf [OF wf c] by metis
  have spec: "spec_set mem (cvar_abs s as) (cvar_fresh s) name string internal =
      (if \<not> internal \<and> and (cv_flags c) Cvar_NoUser \<noteq> 0 then cvar_abs s as
       else spec_put mem (cvar_abs s as) a string)"
    using Some c by (simp add: spec_set_def spec_found_abs cv_payload_def)
  have "cvar_abs s' as = spec_set mem (cvar_abs s as) (cvar_fresh s) name string internal"
  proof (cases "\<not> internal \<and> and (cv_flags c) Cvar_NoUser \<noteq> 0")
    case True
    with s'(3) spec show ?thesis by (simp add: cvar_abs_def)
  next
    case False
    with s'(3) have "cvars s' =
        (cvars s)(a \<mapsto> c\<lparr>cv_string := string, cv_value := atof (deref mem string)\<rparr>)" by simp
    with cvar_abs_put [OF wf c] have "cvar_abs s' as = spec_put mem (cvar_abs s as) a string" .
    with spec False show ?thesis by simp
  qed
  with s' Some wf show ?thesis by (auto simp: Cvar_Set_def Cvar_Exists_wf)
qed

lemma spec_get_found:
  assumes "(b, l') = spec_get mem l a name string"
  obtains e where "spec_found mem l' (deref mem name) = Some e" "fst e = b"
proof (cases "spec_found mem l (deref mem name)")
  case None
  then have "find (\<lambda>e. strcaseeq (deref mem (fst (snd e))) (deref mem name)) (l @ [x]) =
      (if strcaseeq (deref mem (fst (snd x))) (deref mem name) then Some x else None)" for x
    unfolding spec_found_def by (induction l) (auto split: if_splits)
  with assms None show ?thesis
    by (intro that) (auto simp: spec_get_def spec_add_def spec_found_def)
next
  case (Some e)
  with assms show ?thesis by (intro that [of e]) (simp_all add: spec_get_def)
qed

section \<open>Every run of the convar system\<close>

inductive cvar_step :: "cvar_sys \<Rightarrow> cvar_sys \<Rightarrow> bool" where
  get: "Cvar_Get mem s name string flags internal = Inr (a, t) \<Longrightarrow> cvar_step s t"
| set: "Cvar_Set mem s name string flags internal = Inr t \<Longrightarrow> cvar_step s t"
| on_get: "Cvar_SetOnGetCallback s cv cb = Inr t \<Longrightarrow> cvar_step s t"
| on_set: "Cvar_SetOnSetCallback s cv cb = Inr t \<Longrightarrow> cvar_step s t"
| shutdown: "Cvar_Shutdown s = Inr t \<Longrightarrow> cvar_step s t"

definition cvar_ok :: "cvar_sys \<Rightarrow> bool" where
  "cvar_ok s = ((\<exists>as. cvar_wf s as) \<and> (\<forall>a c. cvars s a = Some c \<longrightarrow> cv_flags c = 0))"

text \<open>Some convar is write-protected.\<close>

definition cvar_protected :: "cvar_sys \<Rightarrow> bool" where
  "cvar_protected s = (\<exists>a c. cvars s a = Some c \<and> and (cv_flags c) Cvar_NoUser \<noteq> 0)"

lemma cvar_ok_abs:
  assumes "cvar_wf s as"
  shows "(\<forall>a c. cvars s a = Some c \<longrightarrow> cv_flags c = 0) \<longleftrightarrow>
    (\<forall>e \<in> set (cvar_abs s as). fst (snd (snd (snd e))) = 0)"
  using cvar_wf_dom [OF assms] by (force simp: cvar_abs_def cv_payload_def dom_def)

lemma spec_get_flags:
  "(b, l') = spec_get mem l a name string \<Longrightarrow> \<forall>e \<in> set l. fst (snd (snd (snd e))) = 0
    \<Longrightarrow> \<forall>e \<in> set l'. fst (snd (snd (snd e))) = 0"
  by (auto simp: spec_get_def spec_add_def split: option.splits)

lemma spec_put_flags:
  "\<forall>e \<in> set l. fst (snd (snd (snd e))) = 0
    \<Longrightarrow> \<forall>e \<in> set (spec_put mem l a string). fst (snd (snd (snd e))) = 0"
  by (induction l) (auto simp: spec_put_def put_text_def)

lemma spec_set_flags:
  "\<forall>e \<in> set l. fst (snd (snd (snd e))) = 0
    \<Longrightarrow> \<forall>e \<in> set (spec_set mem l a name string internal). fst (snd (snd (snd e))) = 0"
proof -
  assume l: "\<forall>e \<in> set l. fst (snd (snd (snd e))) = 0"
  have "spec_set mem l a name string internal \<in>
      {l, spec_add mem l a name string} \<union> range (\<lambda>b. spec_put mem l b string)"
    by (auto simp: spec_set_def split: option.splits)
  then show ?thesis
    using l spec_put_flags [OF l, of mem _ string]
    by (elim UnE insertE rangeE) (simp_all add: spec_add_def)
qed

lemma callback_ok:
  assumes ok: "cvar_ok s" and c: "cvars s a = Some c"
    and c': "cv_next c' = cv_next c" "cv_prev c' = cv_prev c" "cv_flags c' = cv_flags c"
  shows "cvar_ok (s\<lparr>cvars := (cvars s)(a \<mapsto> c')\<rparr>)"
proof -
  from ok obtain as where "cvar_wf s as" by (auto simp: cvar_ok_def)
  then have "cvar_wf (s\<lparr>cvars := (cvars s)(a \<mapsto> c')\<rparr>) as"
    using dlist_upd_same [of cv_next cv_prev "cvars s" "cvarlist_head s" "cvarlist_tail s" as a c c'] c c'
    by (simp add: cvar_wf_def)
  then show ?thesis using ok c c' by (auto simp: cvar_ok_def)
qed

lemma Cvar_Shutdown_wf:
  assumes "cvar_wf s as"
  shows "Cvar_Shutdown s =
    Inr (s\<lparr>cvars := Map.empty, cvarlist_head := None, cvarlist_tail := None\<rparr>)"
proof (cases "cvarlist_head s")
  case None
  then have as: "as = []" using assms by (auto simp: cvar_wf_def dest: dlist_head_None)
  with assms have "cvarlist_tail s = None" "dom (cvars s) = {}"
    by (simp_all add: cvar_wf_def dlist_def)
  with None show ?thesis by (simp add: Cvar_Shutdown_def)
next
  case (Some h)
  then obtain t where t: "cvarlist_tail s = Some t"
    using assms dlist_tail unfolding cvar_wf_def by metis
  have "run_loop (free_all cv_next (cvars s) (cvarlist_head s)) = Inr Map.empty"
    using assms free_all_dlist unfolding cvar_wf_def by metis
  with Some t show ?thesis by (simp add: Cvar_Shutdown_def)
qed

lemma cvar_step_ok: "cvar_step s t \<Longrightarrow> cvar_ok s \<Longrightarrow> cvar_ok t"
proof (induction rule: cvar_step.induct)
  case (get mem s name string flags internal a t)
  from get.prems obtain as where wf: "cvar_wf s as" by (auto simp: cvar_ok_def)
  obtain as' where as': "cvar_wf t as'"
    "(a, cvar_abs t as') = spec_get mem (cvar_abs s as) (cvar_fresh s) name string"
    using Cvar_Get_refines [OF wf, of mem name string flags internal] get.hyps by auto
  have "\<forall>e \<in> set (cvar_abs t as'). fst (snd (snd (snd e))) = 0"
    using get.prems wf by (intro spec_get_flags [OF as'(2)]) (simp add: cvar_ok_def cvar_ok_abs)
  with as'(1) show ?case by (auto simp: cvar_ok_def cvar_ok_abs)
next
  case (set mem s name string flags internal t)
  from set.prems obtain as where wf: "cvar_wf s as" by (auto simp: cvar_ok_def)
  obtain as' where as': "cvar_wf t as'"
    "cvar_abs t as' = spec_set mem (cvar_abs s as) (cvar_fresh s) name string internal"
    using Cvar_Set_refines [OF wf, of mem name string flags internal] set.hyps by auto
  have "\<forall>e \<in> set (cvar_abs t as'). fst (snd (snd (snd e))) = 0"
    unfolding as'(2) using set.prems wf by (intro spec_set_flags) (simp add: cvar_ok_def cvar_ok_abs)
  with as'(1) show ?case by (auto simp: cvar_ok_def cvar_ok_abs)
next
  case (on_get s cv cb t)
  then show ?case
    by (auto simp: Cvar_SetOnGetCallback_def intro: callback_ok split: option.splits)
next
  case (on_set s cv cb t)
  then show ?case
    by (auto simp: Cvar_SetOnSetCallback_def intro: callback_ok split: option.splits)
next
  case (shutdown s t)
  then have "t = s\<lparr>cvars := Map.empty, cvarlist_head := None, cvarlist_tail := None\<rparr>"
    using Cvar_Shutdown_wf by (auto simp: cvar_ok_def)
  then show ?case
    by (auto simp: cvar_ok_def cvar_wf_def intro!: exI [of _ "[]"] dlist_empty)
qed

interpretation cvar_run: safe_machine "\<lambda>s. s = cvar_sys0" cvar_step cvar_ok cvar_protected
proof unfold_locales
  fix s assume "s = cvar_sys0"
  then show "cvar_ok s" using cvar_wf_empty by (auto simp: cvar_ok_def cvar_sys0_def)
next
  fix s t assume "cvar_ok s" "cvar_step s t"
  then show "cvar_ok t" by (blast intro: cvar_step_ok)
next
  fix s assume "cvar_ok s"
  then show "\<not> cvar_protected s" by (auto simp: cvar_ok_def cvar_protected_def)
qed

text \<open>
  C1. The list of convars is well-formed in every state that any sequence of convar operations
  reaches: doubly linked, acyclic, its nodes exactly the live convars, its tail the last one.
  So no search, listing or shutdown of it ever touches a freed node or fails to return, and a
  shutdown frees every convar.
\<close>

theorem cvar_list_well_formed:
  assumes "cvar_step\<^sup>*\<^sup>* cvar_sys0 s"
  shows "(\<exists>as. cvar_wf s as)
    \<and> is_ok (Cvar_Exists mem s name) \<and> is_ok (Cvar_List mem s)
    \<and> Cvar_Shutdown s = Inr (s\<lparr>cvars := Map.empty, cvarlist_head := None, cvarlist_tail := None\<rparr>)"
proof -
  from assms have "cvar_ok s" by (rule cvar_run.inv_reachable [OF refl])
  then obtain as where as: "cvar_wf s as" by (auto simp: cvar_ok_def)
  moreover have "is_ok (Cvar_List mem s)"
    using as visit_dlist [of cv_next cv_prev "cvars s" "cvarlist_head s" "cvarlist_tail s" as]
    by (simp add: Cvar_List_def cvar_wf_def)
  ultimately show ?thesis by (auto simp: Cvar_Exists_wf Cvar_Shutdown_wf)
qed

text \<open>The state after the first convar is created.\<close>

definition one_cvar :: "string \<Rightarrow> string \<Rightarrow> cvar_sys" where
  "one_cvar n v = \<lparr>cvars = [0 \<mapsto> new_cvar [] (Lit n) (Lit v) None], cvar_fresh = 1,
     cvarlist_head = Some 0, cvarlist_tail = Some 0, cvar_calls = []\<rparr>"

lemma Cvar_Get_first:
  "Cvar_Get mem cvar_sys0 (Lit n) (Lit v) flags internal = Inr (0, one_cvar n v)"
proof -
  have "Cvar_Exists mem cvar_sys0 (Lit n) = Inr None"
    by (simp add: Cvar_Exists_wf [OF cvar_wf_empty] found_def)
  moreover have "Cvar_Append mem cvar_sys0 (Lit n) (Lit v) = Inr (0, one_cvar n v)"
    by (simp add: Cvar_Append_def cvar_sys0_def new_cvar_def one_cvar_def)
  ultimately show ?thesis by (simp add: Cvar_Get_def Cvar_Create_def)
qed

lemma one_cvar_reachable: "cvar_step\<^sup>*\<^sup>* cvar_sys0 (one_cvar n v)"
  by (rule r_into_rtranclp, rule cvar_step.get, rule Cvar_Get_first)

theorem cvar_list_well_formed_witness:
  "(\<exists>as. cvar_wf (one_cvar ''map'' ''x'') as) \<and> is_ok (Cvar_List [] (one_cvar ''map'' ''x''))"
  using cvar_list_well_formed [OF one_cvar_reachable] by blast

text \<open>
  C15. \<open>Cvar_Get\<close> refines the plain list: on a well-formed list it returns, gives the first convar
  whose name matches without regard to case, and adds one at the end, with the given text and
  its number, only when there is none.
\<close>

theorem Cvar_Get_refines_list:
  assumes "cvar_wf s as"
  shows "\<exists>a s' as'. Cvar_Get mem s name string flags internal = Inr (a, s') \<and> cvar_wf s' as'
    \<and> (a, cvar_abs s' as') = spec_get mem (cvar_abs s as) (cvar_fresh s) name string"
  using assms by (rule Cvar_Get_refines)

theorem Cvar_Get_refines_list_witness:
  "\<exists>a s' as'. Cvar_Get [] cvar_sys0 (Lit ''netMode'') (Lit ''0'') Cvar_Default False = Inr (a, s')
    \<and> cvar_wf s' as'
    \<and> (a, cvar_abs s' as') = spec_get [] (cvar_abs cvar_sys0 []) 0 (Lit ''netMode'') (Lit ''0'')"
  using Cvar_Get_refines_list [OF cvar_wf_empty] by (simp add: cvar_sys0_def)

text \<open>
  C16. \<open>Cvar_Set\<close> refines the plain list: on a well-formed list it returns; an existing convar gets
  the new text and its number, unless it is \<open>Cvar_NoUser\<close> and the call is not internal; a
  missing one is created. No other convar changes.
\<close>

theorem Cvar_Set_refines_list:
  assumes "cvar_wf s as"
  shows "\<exists>s' as'. Cvar_Set mem s name string flags internal = Inr s' \<and> cvar_wf s' as'
    \<and> cvar_abs s' as' = spec_set mem (cvar_abs s as) (cvar_fresh s) name string internal"
  using assms by (rule Cvar_Set_refines)

theorem Cvar_Set_refines_list_witness:
  "\<exists>s' as'. Cvar_Set [] cvar_sys0 (Lit ''netPort'') (Lit ''6769'') Cvar_Default False = Inr s'
    \<and> cvar_wf s' as'
    \<and> cvar_abs s' as' = spec_set [] (cvar_abs cvar_sys0 []) 0 (Lit ''netPort'') (Lit ''6769'') False"
  using Cvar_Set_refines_list [OF cvar_wf_empty] by (simp add: cvar_sys0_def)

text \<open>
  The \<open>Cvar_NoUser\<close> flag never takes effect: \<open>Cvar_Create\<close> drops the flags it is given, so in
  every reachable state a convar obtained with \<open>Cvar_NoUser\<close> and \<open>internal = true\<close> is
  overwritten by a user's \<open>Cvar_Set\<close> with \<open>internal = false\<close>.
\<close>

theorem Cvar_NoUser_has_no_effect:
  assumes reach: "cvar_step\<^sup>*\<^sup>* cvar_sys0 s"
    and get: "Cvar_Get mem s name string Cvar_NoUser True = Inr (a, t)"
  shows "\<exists>u c. Cvar_Set mem t name v flags False = Inr u \<and> cvars u a = Some c \<and> cv_string c = v
    \<and> cv_value c = atof (deref mem v)"
proof -
  have ok: "cvar_ok s" using reach by (rule cvar_run.inv_reachable [OF refl])
  then obtain as where wf: "cvar_wf s as" by (auto simp: cvar_ok_def)
  obtain as' where as': "cvar_wf t as'"
    "(a, cvar_abs t as') = spec_get mem (cvar_abs s as) (cvar_fresh s) name string"
    using Cvar_Get_refines [OF wf, of mem name string Cvar_NoUser True] get by auto
  obtain e where "spec_found mem (cvar_abs t as') (deref mem name) = Some e" "fst e = a"
    using as'(2) by (rule spec_get_found)
  then have f: "found mem t as' name = Some a" by (auto simp: spec_found_abs)
  then obtain c where c: "cvars t a = Some c" using as'(1) by (auto elim: found_Some)
  have "cvar_ok t" using get ok by (blast intro: cvar_step_ok cvar_step.get)
  with c have "cv_flags c = 0" by (auto simp: cvar_ok_def)
  with f c as'(1) show ?thesis
    by (auto simp: Cvar_Set_def Cvar_Exists_wf Cvar_Set_found_def Let_def)
qed

theorem Cvar_NoUser_has_no_effect_witness:
  "\<exists>u c. Cvar_Set [] (one_cvar ''netPort'' ''6769'') (Lit ''netPort'') (Lit ''0'') Cvar_Default False
      = Inr u \<and> cvars u 0 = Some c \<and> cv_string c = Lit ''0'' \<and> cv_value c = atof (deref [] (Lit ''0''))"
  by (rule Cvar_NoUser_has_no_effect [OF rtranclp.rtrancl_refl Cvar_Get_first])

end
