(* ===== verification/Capy_Cvar_Store.thy ===== *)
theory Capy_Cvar_Store
  imports Capy_Cvar
begin

text \<open>
  The convar system as the rest of the engine uses it: \<open>Cvar_Get(name, default, false)\<close> with
  string literals at start-up, keeping the returned \<open>Cvar*\<close> in a global, and reading
  \<open>string\<close> and \<open>value\<close> through it ever after. The locale states what those clients rely on;
  the interpretation shows that the convar list provides it.
\<close>

locale convar_store =
  fixes inv :: "'s \<Rightarrow> bool"
    and get :: "string \<Rightarrow> string \<Rightarrow> 's \<Rightarrow> (nat \<times> 's) res"
    and put :: "string \<Rightarrow> string \<Rightarrow> 's \<Rightarrow> 's res"
    and lookup :: "'s \<Rightarrow> string \<Rightarrow> nat option"
    and contents :: "'s \<Rightarrow> nat \<Rightarrow> string option"
    and num :: "'s \<Rightarrow> nat \<Rightarrow> f32 option"
  assumes get_ok: "inv s \<Longrightarrow> \<exists>a t. get n d s = Inr (a, t) \<and> inv t
      \<and> lookup t = (\<lambda>m. if lookup s m = None \<and> strcaseeq n m then Some a else lookup s m)
      \<and> (\<forall>b. lookup s n = Some b \<longrightarrow> a = b)
      \<and> contents t a = (if lookup s n = None then Some d else contents s a)
      \<and> (\<forall>b. contents s b \<noteq> None \<longrightarrow> contents t b = contents s b)"
    and put_ok: "inv s \<Longrightarrow> lookup s n = Some a \<Longrightarrow> \<exists>t. put n v s = Inr t \<and> inv t
      \<and> lookup t = lookup s \<and> contents t = (contents s)(a \<mapsto> v)"
    and lookup_contents: "inv s \<Longrightarrow> lookup s n = Some a \<Longrightarrow> contents s a \<noteq> None"
    and lookup_case: "inv s \<Longrightarrow> strcaseeq n m \<Longrightarrow> lookup s n = lookup s m"
    and num_contents: "inv s \<Longrightarrow> num s a = map_option atof (contents s a)"
begin

text \<open>What one call of \<open>Cvar_Get\<close> gives.\<close>

lemma get_result:
  assumes "inv s" and "get n d s = Inr (a, t)"
  shows "inv t" and "lookup t n = Some a" and "contents t a \<noteq> None"
    and "lookup s n = None \<Longrightarrow> contents t a = Some d"
    and "lookup s n = Some b \<Longrightarrow> a = b \<and> contents t = contents t"
    and "contents s b \<noteq> None \<Longrightarrow> contents t b = contents s b"
    and "lookup s m = Some b \<Longrightarrow> lookup t m = Some b"
proof -
  note ok = get_ok [OF assms(1), of n d, unfolded assms(2), simplified]
  show "inv t" "lookup s n = None \<Longrightarrow> contents t a = Some d"
    "lookup s n = Some b \<Longrightarrow> a = b \<and> contents t = contents t"
    "contents s b \<noteq> None \<Longrightarrow> contents t b = contents s b"
    "lookup s m = Some b \<Longrightarrow> lookup t m = Some b"
    using ok by auto
  show l: "lookup t n = Some a"
    using ok by (cases "lookup s n") auto
  show "contents t a \<noteq> None"
    using \<open>inv t\<close> l by (rule lookup_contents)
qed

text \<open>Asking again, in any case and with any default, gives the same convar unchanged.\<close>

lemma get_again:
  assumes "inv s" and "get n d s = Inr (a, t)" and "strcaseeq n m"
  shows "\<exists>u. get m e t = Inr (a, u) \<and> inv u \<and> contents u a = contents t a"
proof -
  have t: "inv t" "lookup t n = Some a" "contents t a \<noteq> None"
    using get_result [OF assms(1,2)] by auto
  have "lookup t m = Some a" using t(2) lookup_case [OF t(1) assms(3)] by simp
  with get_ok [OF t(1), of m e] t(3) show ?thesis by fastforce
qed

text \<open>A pointer stays good: later \<open>Cvar_Get\<close>s never change what it reads.\<close>

lemma pointer_survives:
  assumes "inv s" and "contents s b = Some v" and "get n d s = Inr (a, t)"
  shows "inv t \<and> contents t b = Some v \<and> num t b = Some (atof v)"
  using get_result [OF assms(1,3)] assms(2) num_contents by auto

text \<open>Setting by name is seen through the pointer.\<close>

lemma put_through_pointer:
  assumes "inv s" and "lookup s n = Some a" and "put n v s = Inr t"
  shows "inv t \<and> contents t a = Some v \<and> num t a = Some (atof v)
    \<and> (\<forall>b. b \<noteq> a \<longrightarrow> contents t b = contents s b)"
  using put_ok [OF assms(1,2), of v] assms(3) num_contents by auto

end

text \<open>Setting a name that is not there creates it, as asking for it with that default does.\<close>

locale convar_creation = convar_store +
  assumes put_new: "inv s \<Longrightarrow> lookup s n = None \<Longrightarrow> put n v s = map_res snd (get n v s)"
begin

lemma put_fresh:
  assumes "inv s" and "lookup s n = None"
  shows "\<exists>a t. put n v s = Inr t \<and> inv t \<and> lookup t = (\<lambda>m. if lookup s m = None \<and> strcaseeq n m then Some a else lookup s m) \<and>
    contents t a = Some v \<and> (\<forall>b. contents s b \<noteq> None \<longrightarrow> contents t b = contents s b)"
proof -
  obtain a t where t: "get n v s = Inr (a, t)" "inv t" "lookup t = (\<lambda>m. if lookup s m = None \<and> strcaseeq n m then Some a else lookup s m)"
    "contents t a = Some v" "\<forall>b. contents s b \<noteq> None \<longrightarrow> contents t b = contents s b"
    using get_ok [OF assms(1), of n v] assms(2) by auto
  then show ?thesis using put_new [OF assms] by (intro exI [of _ a] exI [of _ t]) simp
qed

end

section \<open>The convar list provides it\<close>

definition engine_get :: "string \<Rightarrow> string \<Rightarrow> cvar_sys \<Rightarrow> (nat \<times> cvar_sys) res" where
  "engine_get n d s = Cvar_Get_bool [] s (Lit n) (Lit d) False"

definition engine_put :: "string \<Rightarrow> string \<Rightarrow> cvar_sys \<Rightarrow> cvar_sys res" where
  "engine_put n v s = Cvar_Set_bool [] s (Lit n) (Lit v) False"

definition cvar_lookup :: "cvar_sys \<Rightarrow> string \<Rightarrow> nat option" where
  "cvar_lookup s n = (case Cvar_Exists [] s (Lit n) of Inr r \<Rightarrow> r | Inl _ \<Rightarrow> None)"

definition cvar_text :: "cvar_sys \<Rightarrow> nat \<Rightarrow> string option" where
  "cvar_text s a = map_option (\<lambda>c. deref [] (cv_string c)) (cvars s a)"

definition cvar_num :: "cvar_sys \<Rightarrow> nat \<Rightarrow> f32 option" where
  "cvar_num s a = map_option cv_value (cvars s a)"

text \<open>Every value is the number its text stands for.\<close>

definition engine_inv :: "cvar_sys \<Rightarrow> bool" where
  "engine_inv s =
     (cvar_ok s \<and> (\<forall>a c. cvars s a = Some c \<longrightarrow> cv_value c = atof (deref [] (cv_string c))))"

lemma map_of_cvar_abs:
  assumes "cvar_wf s as"
  shows "map_of (cvar_abs s as) a = map_option cv_payload (cvars s a)"
proof (cases "a \<in> set as")
  case True
  then obtain c where "cvars s a = Some c" using cvar_wf_dom [OF assms] by auto
  with True show ?thesis by (simp add: cvar_abs_def map_of_map_restrict)
next
  case False
  then have "cvars s a = None" using cvar_wf_dom [OF assms] by auto
  with False show ?thesis by (simp add: cvar_abs_def map_of_map_restrict)
qed

lemma cvar_text_abs:
  assumes "cvar_wf s as"
  shows "cvar_text s a = map_option (\<lambda>(n, v, r). deref [] v) (map_of (cvar_abs s as) a)"
  unfolding map_of_cvar_abs [OF assms]
  by (cases "cvars s a") (simp_all add: cvar_text_def cv_payload_def)

lemma cvar_lookup_abs:
  assumes "cvar_wf s as"
  shows "cvar_lookup s n = map_option fst (spec_found [] (cvar_abs s as) n)"
  using spec_found_abs [of "[]" s as "Lit n"]
  by (simp add: cvar_lookup_def Cvar_Exists_wf [OF assms] option.map_comp comp_def option.map_ident)

definition texts_parsed :: "cvar_entry list \<Rightarrow> bool" where
  "texts_parsed l = list_all (\<lambda>(a, n, v, fl, x, _). x = atof (deref [] v)) l"

lemma engine_inv_abs:
  assumes "cvar_wf s as"
  shows "engine_inv s \<longleftrightarrow> cvar_ok s \<and> texts_parsed (cvar_abs s as)"
  using cvar_wf_dom [OF assms]
  by (force simp: engine_inv_def texts_parsed_def list_all_iff cvar_abs_def cv_payload_def dom_def)

lemma spec_found_set: "spec_found mem l n = Some e \<Longrightarrow> e \<in> set l"
  by (auto simp: spec_found_def dest: find_Some_set)

lemma spec_found_snoc:
  "spec_found mem (l @ [e]) n =
     (case spec_found mem l n of Some x \<Rightarrow> Some x
      | None \<Rightarrow> if strcaseeq (deref mem (fst (snd e))) n then Some e else None)"
  unfolding spec_found_def by (induction l) auto

lemma spec_found_put:
  "map_option fst (spec_found [] (spec_put mem l a v) n) = map_option fst (spec_found [] l n)"
  unfolding spec_found_def
  by (induction l) (auto simp: spec_put_def put_text_def split: prod.splits if_splits)

lemma map_of_put:
  "map_of (spec_put mem l a v) b =
     (if b = a then map_option (put_text mem v) (map_of l a) else map_of l b)"
  unfolding spec_put_def by (induction l) auto

lemma cvar_abs_nonNone: "cvar_wf s as \<Longrightarrow> cvar_text s a \<noteq> None \<longleftrightarrow> map_of (cvar_abs s as) a \<noteq> None"
  by (simp add: cvar_text_abs)

lemma fresh_not_abs: "cvar_wf s as \<Longrightarrow> map_of (cvar_abs s as) (cvar_fresh s) = None"
  using cvar_wf_fresh [of s as] by (auto simp: map_of_cvar_abs)

lemma engine_get_ok:
  assumes inv: "engine_inv s"
  shows "\<exists>a t. engine_get n d s = Inr (a, t) \<and> engine_inv t
      \<and> cvar_lookup t = (\<lambda>m. if cvar_lookup s m = None \<and> strcaseeq n m then Some a else cvar_lookup s m)
      \<and> (\<forall>b. cvar_lookup s n = Some b \<longrightarrow> a = b)
      \<and> cvar_text t a = (if cvar_lookup s n = None then Some d else cvar_text s a)
      \<and> (\<forall>b. cvar_text s b \<noteq> None \<longrightarrow> cvar_text t b = cvar_text s b)"
proof -
  from inv obtain as where wf: "cvar_wf s as" by (auto simp: engine_inv_def cvar_ok_def)
  let ?l = "cvar_abs s as"
  obtain a t as' where g: "engine_get n d s = Inr (a, t)" and wf': "cvar_wf t as'"
    and ab: "(a, cvar_abs t as') = spec_get [] ?l (cvar_fresh s) (Lit n) (Lit d)"
    using Cvar_Get_refines [OF wf, of "[]" "Lit n" "Lit d" Cvar_Default False]
    by (auto simp: engine_get_def Cvar_Get_bool_def)
  have ok: "cvar_ok t"
    using g inv unfolding engine_get_def Cvar_Get_bool_def engine_inv_def
    by (blast intro: cvar_step_ok cvar_step.get)
  note abs = cvar_lookup_abs [OF wf] cvar_lookup_abs [OF wf'] cvar_text_abs [OF wf] cvar_text_abs [OF wf']
  show ?thesis
  proof (cases "spec_found [] ?l n")
    case None
    with ab have eq: "a = cvar_fresh s" "cvar_abs t as' = spec_add [] ?l a (Lit n) (Lit d)"
      by (simp_all add: spec_get_def)
    have "engine_inv t"
      using inv ok by (simp add: engine_inv_abs [OF wf] engine_inv_abs [OF wf'] eq spec_add_def texts_parsed_def)
    moreover have "map_of (cvar_abs t as') b = map_of ?l b" if "map_of ?l b \<noteq> None" for b
      using that by (auto simp: eq(2) spec_add_def map_add_def)
    moreover have "map_of (cvar_abs t as') a = Some (Lit n, Lit d, 0, atof d, None, None)"
      using fresh_not_abs [OF wf] by (simp add: eq spec_add_def map_add_def)
    ultimately show ?thesis
      using g None by (auto simp: abs eq(2) spec_add_def spec_found_snoc fun_eq_iff split: option.splits)
  next
    case (Some e)
    with ab have eq: "a = fst e" "cvar_abs t as' = ?l" by (simp_all add: spec_get_def)
    have "engine_inv t"
      using inv ok by (simp add: engine_inv_abs [OF wf] engine_inv_abs [OF wf'] eq)
    moreover have "spec_found [] ?l m = Some e" if "strcaseeq n m" for m
      using Some that by (simp add: spec_found_def strcaseeq_def)
    ultimately show ?thesis
      using g Some by (auto simp: abs eq fun_eq_iff simp del: split_paired_All split_paired_Ex)
  qed
qed

lemma engine_put_ok:
  assumes inv: "engine_inv s" and a: "cvar_lookup s n = Some a"
  shows "\<exists>t. engine_put n v s = Inr t \<and> engine_inv t \<and> cvar_lookup t = cvar_lookup s
      \<and> cvar_text t = (cvar_text s)(a \<mapsto> v)"
proof -
  from inv obtain as where wf: "cvar_wf s as" by (auto simp: engine_inv_def cvar_ok_def)
  let ?l = "cvar_abs s as"
  obtain t as' where p: "engine_put n v s = Inr t" and wf': "cvar_wf t as'"
    and ab: "cvar_abs t as' = spec_set [] ?l (cvar_fresh s) (Lit n) (Lit v) False"
    using Cvar_Set_refines [OF wf, of "[]" "Lit n" "Lit v" Cvar_Default False]
    by (auto simp: engine_put_def Cvar_Set_bool_def)
  have ok: "cvar_ok t"
    using p inv unfolding engine_put_def Cvar_Set_bool_def engine_inv_def
    by (blast intro: cvar_step_ok cvar_step.set)
  note abs = cvar_lookup_abs [OF wf] cvar_lookup_abs [OF wf'] cvar_text_abs [OF wf] cvar_text_abs [OF wf']
  obtain e where e: "spec_found [] ?l n = Some e" "fst e = a" using a by (auto simp: abs)
  then have "e \<in> set ?l" by (auto dest: spec_found_set)
  then have "fst (snd (snd (snd e))) = 0"
    using inv by (simp add: engine_inv_def cvar_ok_def cvar_ok_abs [OF wf])
  with ab e have eq: "cvar_abs t as' = spec_put [] ?l a (Lit v)"
    by (auto simp: spec_set_def split: prod.splits)
  have "a \<in> set as" using \<open>e \<in> set ?l\<close> e(2) by (auto simp: cvar_abs_def)
  then obtain c where c: "cvars s a = Some c" using cvar_wf_dom [OF wf] by auto
  have "texts_parsed (spec_put [] ?l a (Lit v))"
    using inv unfolding engine_inv_abs [OF wf]
    by (auto simp: texts_parsed_def spec_put_def put_text_def list_all_iff split: prod.splits)
  then have "engine_inv t" using ok by (simp add: engine_inv_abs [OF wf'] eq)
  moreover have "cvar_lookup t = cvar_lookup s"
    by (simp add: abs eq fun_eq_iff spec_found_put)
  moreover have "cvar_text t = (cvar_text s)(a \<mapsto> v)"
    using c by (auto simp: abs eq fun_eq_iff map_of_put map_of_cvar_abs [OF wf] cv_payload_def put_text_def)
  ultimately show ?thesis using p by blast
qed

interpretation capy_cvars: convar_store engine_inv engine_get engine_put cvar_lookup cvar_text cvar_num
proof unfold_locales
  fix s :: cvar_sys and n m a
  assume inv: "engine_inv s"
  then obtain as where wf: "cvar_wf s as" by (auto simp: engine_inv_def cvar_ok_def)
  show "cvar_lookup s n = Some a \<Longrightarrow> cvar_text s a \<noteq> None"
  proof -
    assume "cvar_lookup s n = Some a"
    then have "found [] s as (Lit n) = Some a"
      by (simp add: cvar_lookup_def Cvar_Exists_wf [OF wf])
    with wf obtain c where "cvars s a = Some c" by (auto elim: found_Some)
    then show ?thesis by (simp add: cvar_text_def)
  qed
  show "strcaseeq n m \<Longrightarrow> cvar_lookup s n = cvar_lookup s m"
    by (simp add: cvar_lookup_abs [OF wf] spec_found_def strcaseeq_def)
  show "cvar_num s a = map_option atof (cvar_text s a)"
    using inv by (cases "cvars s a") (auto simp: engine_inv_def cvar_num_def cvar_text_def)
qed (rule engine_get_ok engine_put_ok; assumption)+

lemma engine_put_new:
  assumes "engine_inv s" and "cvar_lookup s n = None"
  shows "engine_put n v s = map_res snd (engine_get n v s)"
proof -
  from assms(1) obtain as where wf: "cvar_wf s as" by (auto simp: engine_inv_def cvar_ok_def)
  then have "found [] s as (Lit n) = None" using assms(2) by (simp add: cvar_lookup_def Cvar_Exists_wf)
  then show ?thesis
    by (simp add: engine_put_def engine_get_def Cvar_Set_bool_def Cvar_Get_bool_def Cvar_Set_def Cvar_Get_def Cvar_Exists_wf [OF wf] Cvar_Create_new [OF wf])
qed

interpretation capy_created: convar_creation engine_inv engine_get engine_put cvar_lookup cvar_text cvar_num
  by unfold_locales (rule engine_put_new)

end
