(* ===== verification/Capy_Cmdline.thy ===== *)
theory Capy_Cmdline
  imports Capy_Cvar_Store
begin

text \<open>
  \<open>core/cmdline/cmdline.cpp\<close> and the copy in \<open>tools/brewery/cmdline/cmdline.cpp\<close>: the program's arguments, and the convars that
  \<open>+set\<close> creates. The loops run to \<open>argc - 2\<close> and \<open>argc - 1\<close> in unsigned arithmetic, which wraps when there are fewer arguments; the null
  pointer after the last argument stops them.
\<close>

section \<open>Data\<close>

text \<open>\<open>argv\<close> is the array, with the null pointer at its end.\<close>

record cmdline =
  cmdline_argc :: u32
  cmdline_argv :: "string option list"

definition STRING_EMPTY :: string where "STRING_EMPTY = []"

definition os_argv :: "string list \<Rightarrow> string option list" where "os_argv args = map Some args @ [None]"

definition argv_at :: "string option list \<Rightarrow> nat \<Rightarrow> string option res" where
  "argv_at argv i = (if i < length argv then Inr (argv ! i) else Inl OutOfBoundsRead)"

definition the_string :: "string option \<Rightarrow> string res" where
  "the_string p = (case p of None \<Rightarrow> Inl NullDeref | Some s \<Rightarrow> Inr s)"

section \<open>Looking arguments up\<close>

definition check_arg :: "string \<Rightarrow> string option list \<Rightarrow> nat \<Rightarrow> bool \<Rightarrow> bool res" where
  "check_arg option argv arg hit =
     (if hit then Inr True
      else bind_res (argv_at argv arg) (\<lambda>p. map_res (\<lambda>s. strcaseeq s option) (the_string p)))"

definition Cmdline_Check :: "string \<Rightarrow> cmdline \<Rightarrow> bool res" where
  "Cmdline_Check option c = fold_res (check_arg option (cmdline_argv c)) [0..<unat (cmdline_argc c)] False"

definition Cmdline_Argc :: "cmdline \<Rightarrow> u32" where "Cmdline_Argc c = cmdline_argc c"

definition Cmdline_Argv :: "u32 \<Rightarrow> cmdline \<Rightarrow> string res" where
  "Cmdline_Argv n c =
     (if cmdline_argc c \<le> n \<or> n < 0 then Inr STRING_EMPTY
      else bind_res (argv_at (cmdline_argv c) (unat n)) the_string)"

section \<open>Early convars\<close>

text \<open>The loop from \<open>arg\<close> up to \<open>bound\<close>; a match skips the two arguments it used.\<close>

function parse_cvars :: "string option list \<Rightarrow> nat \<Rightarrow> nat \<Rightarrow> cvar_sys \<Rightarrow> cvar_sys res" where
  "parse_cvars argv bound arg s =
     (if bound \<le> arg then Inr s
      else if length argv \<le> arg then Inl OutOfBoundsRead
      else case argv ! arg of
        None \<Rightarrow> Inr s
      | Some a \<Rightarrow>
          if strcaseeq a ''+set'' then
            bind_res (bind_res (argv_at argv (arg + 1)) the_string) (\<lambda>name.
            bind_res (bind_res (argv_at argv (arg + 2)) the_string) (\<lambda>value.
            bind_res (engine_put name value s) (parse_cvars argv bound (arg + 3))))
          else parse_cvars argv bound (arg + 1) s)"
  by pat_completeness auto
termination by (relation "measure (\<lambda>(argv, bound, arg, s). length argv - arg)") auto

declare parse_cvars.simps [simp del]

definition Cmdline_ParseEarlyCvars :: "cmdline \<Rightarrow> cvar_sys \<Rightarrow> cvar_sys res" where
  "Cmdline_ParseEarlyCvars c = parse_cvars (cmdline_argv c) (unat (cmdline_argc c - 2)) 0"

definition Cmdline_Init :: "int \<Rightarrow> string option list \<Rightarrow> cvar_sys \<Rightarrow> (cmdline \<times> cvar_sys) res" where
  "Cmdline_Init argc argv s =
     (let c = \<lparr>cmdline_argc = word_of_int argc, cmdline_argv = argv\<rparr>
      in map_res (Pair c) (Cmdline_ParseEarlyCvars c s))"

text \<open>\<open>Cmdline_ParseExec\<close> only walks over the arguments; what it would do is commented out.\<close>

function walk_args :: "string option list \<Rightarrow> nat \<Rightarrow> nat \<Rightarrow> unit res" where
  "walk_args argv bound arg =
     (if bound \<le> arg then Inr ()
      else if length argv \<le> arg then Inl OutOfBoundsRead
      else if argv ! arg = None then Inr ()
      else walk_args argv bound (arg + 1))"
  by pat_completeness auto
termination by (relation "measure (\<lambda>(argv, bound, arg). length argv - arg)") auto

declare walk_args.simps [simp del]

definition Cmdline_ParseExec :: "cmdline \<Rightarrow> unit res" where
  "Cmdline_ParseExec c = walk_args (cmdline_argv c) (unat (cmdline_argc c - 1)) 0"

section \<open>The tool's copy\<close>

text \<open>The same without early convars.\<close>

definition Brewery_Cmdline_Init :: "int \<Rightarrow> string option list \<Rightarrow> cmdline" where
  "Brewery_Cmdline_Init argc argv = \<lparr>cmdline_argc = word_of_int argc, cmdline_argv = argv\<rparr>"

definition Brewery_Cmdline_Argv :: "u32 \<Rightarrow> cmdline \<Rightarrow> string res" where
  "Brewery_Cmdline_Argv n c =
     (if cmdline_argc c \<le> n \<or> n < 0 then Inr STRING_EMPTY
      else bind_res (argv_at (cmdline_argv c) (unat n)) the_string)"

section \<open>What they do\<close>

text \<open>The pairs that \<open>+set\<close> names.\<close>

fun set_pairs :: "string list \<Rightarrow> (string \<times> string) list" where
  "set_pairs (a # n # v # rest) = (if strcaseeq a ''+set'' then (n, v) # set_pairs rest else set_pairs (n # v # rest))"
| "set_pairs _ = []"

lemma argv_at_os: "argv_at (os_argv args) i = (if i < length args then Inr (Some (args ! i)) else if i = length args then Inr None else Inl OutOfBoundsRead)"
  by (auto simp: argv_at_def os_argv_def nth_append)

lemma nth_os_argv: "i \<le> length args \<Longrightarrow> os_argv args ! i = (if i < length args then Some (args ! i) else None)"
  by (auto simp: os_argv_def nth_append)

lemma length_os_argv [simp]: "length (os_argv args) = length args + 1"
  by (simp add: os_argv_def)

lemma drop_three: "i + 2 < length xs \<Longrightarrow> drop i xs = xs ! i # xs ! (i + 1) # xs ! (i + 2) # drop (i + 3) xs"
  by (simp add: Cons_nth_drop_Suc numeral_eq_Suc)

lemma set_pairs_short: "length xs < 3 \<Longrightarrow> set_pairs xs = []"
  by (induction xs rule: set_pairs.induct) auto

lemma parse_cvars_pairs:
  assumes "2 \<le> length args"
  shows "parse_cvars (os_argv args) (length args - 2) arg s = fold_res (\<lambda>(n, v). engine_put n v) (set_pairs (drop arg args)) s"
proof (induction "length args - arg" arbitrary: arg s rule: less_induct)
  case less
  show ?case
  proof (cases "arg < length args - 2")
    case False
    then have "length (drop arg args) < 3" by simp
    then have "set_pairs (drop arg args) = []" by (rule set_pairs_short)
    moreover have "parse_cvars (os_argv args) (length args - 2) arg s = Inr s"
      using False by (simp add: parse_cvars.simps [of _ _ arg])
    ultimately show ?thesis by simp
  next
    case True
    then have i: "arg + 2 < length args" by simp
    have d: "drop arg args = args ! arg # args ! (arg + 1) # args ! (arg + 2) # drop (arg + 3) args" by (rule drop_three [OF i])
    have d1: "drop (arg + 1) args = args ! (arg + 1) # args ! (arg + 2) # drop (arg + 3) args"
      using arg_cong [OF d, of tl] by (simp add: tl_drop drop_Suc)
    have step: "parse_cvars (os_argv args) (length args - 2) arg s =
        (if strcaseeq (args ! arg) ''+set'' then bind_res (engine_put (args ! (arg + 1)) (args ! (arg + 2)) s)
           (parse_cvars (os_argv args) (length args - 2) (arg + 3))
         else parse_cvars (os_argv args) (length args - 2) (arg + 1) s)"
      using True i by (simp add: parse_cvars.simps [of _ _ arg] nth_os_argv argv_at_os the_string_def)
    show ?thesis
    proof (cases "strcaseeq (args ! arg) ''+set''")
      case True
      have "parse_cvars (os_argv args) (length args - 2) (arg + 3) = (\<lambda>s. fold_res (\<lambda>(n, v). engine_put n v) (set_pairs (drop (arg + 3) args)) s)"
        using less.hyps [of "arg + 3"] i by (intro ext) simp
      then show ?thesis using step True by (simp add: d)
    next
      case False
      have "parse_cvars (os_argv args) (length args - 2) (arg + 1) s = fold_res (\<lambda>(n, v). engine_put n v) (set_pairs (drop (arg + 1) args)) s"
        using less.hyps [of "arg + 1"] i by simp
      moreover have "set_pairs (drop arg args) = set_pairs (drop (arg + 1) args)" unfolding d d1 using False by simp
      ultimately show ?thesis using step False by simp
    qed
  qed
qed


lemma parse_cvars_short:
  assumes "length args < 2" and "\<And>a. args = [a] \<Longrightarrow> \<not> strcaseeq a ''+set''"
  shows "parse_cvars (os_argv args) b 0 s = Inr s"
proof (cases args)
  case Nil
  then show ?thesis by (simp add: parse_cvars.simps os_argv_def)
next
  case (Cons a as)
  then have "args = [a]" using assms(1) by simp
  then show ?thesis using assms(2) by (simp add: parse_cvars.simps os_argv_def)
qed

lemma engine_puts_ok:
  "cvar_wf s as \<Longrightarrow> \<exists>t bs. fold_res (\<lambda>(n, v). engine_put n v) ps s = Inr t \<and> cvar_wf t bs"
proof (induction ps arbitrary: s as)
  case Nil
  then show ?case by auto
next
  case (Cons p ps)
  obtain u cs where "engine_put (fst p) (snd p) s = Inr u" "cvar_wf u cs"
    using Cvar_Set_refines [OF Cons.prems] unfolding engine_put_def Cvar_Set_bool_def by metis
  then show ?case using Cons.IH [of u cs] by (cases p) simp
qed

lemma argc_minus_2:
  assumes "2 \<le> n" and "n < 2 ^ 31"
  shows "unat ((word_of_int (int n) :: u32) - 2) = n - 2"
proof -
  have "unat (of_nat n :: u32) = n" using assms by (simp add: unat_of_nat)
  moreover have "(2 :: u32) \<le> of_nat n" using assms by (simp add: word_le_nat_alt unat_of_nat)
  ultimately show ?thesis by (simp add: unat_sub)
qed

text \<open>
  C31. The command line is read safely and exactly: for any arguments but a lone \<open>+set\<close>, however few, the loop stops inside
  the array although its bound wraps around; it sets the convars that the \<open>+set\<close> triples name, from left to right, and
  nothing else; and that always returns and keeps the convar list well-formed.
\<close>

theorem Cmdline_Init_sets_pairs:
  assumes "length args < 2 ^ 31" and "\<And>a. args = [a] \<Longrightarrow> \<not> strcaseeq a ''+set''" and "cvar_wf s as"
  shows "\<exists>t bs. Cmdline_Init (int (length args)) (os_argv args) s =
      Inr (\<lparr>cmdline_argc = of_nat (length args), cmdline_argv = os_argv args\<rparr>, t) \<and>
    fold_res (\<lambda>(n, v). engine_put n v) (set_pairs args) s = Inr t \<and> cvar_wf t bs"
proof -
  obtain t bs where t: "fold_res (\<lambda>(n, v). engine_put n v) (set_pairs args) s = Inr t" "cvar_wf t bs"
    using engine_puts_ok [OF assms(3)] by blast
  have "parse_cvars (os_argv args) (unat ((word_of_int (int (length args)) :: u32) - 2)) 0 s = Inr t"
  proof (cases "2 \<le> length args")
    case True
    then show ?thesis using parse_cvars_pairs [OF True, of 0 s] argc_minus_2 [OF True assms(1)] t(1) by simp
  next
    case False
    then have "t = s" using t(1) set_pairs_short [of args] by simp
    then show ?thesis using parse_cvars_short [OF _ assms(2)] False by simp
  qed
  then show ?thesis using t by (intro exI [of _ t] exI [of _ bs]) (simp add: Cmdline_Init_def Cmdline_ParseEarlyCvars_def Let_def)
qed

theorem Cmdline_Init_sets_pairs_witness:
  "\<exists>t bs. Cmdline_Init 5 (os_argv [''capy'', ''+set'', ''netMode'', ''2'', ''+set'']) cvar_sys0 =
      Inr (\<lparr>cmdline_argc = 5, cmdline_argv = os_argv [''capy'', ''+set'', ''netMode'', ''2'', ''+set'']\<rparr>, t) \<and>
    engine_put ''netMode'' ''2'' cvar_sys0 = Inr t \<and> cvar_wf t bs"
proof -
  have p: "set_pairs [''capy'', ''+set'', ''netMode'', ''2'', ''+set''] = [(''netMode'', ''2'')]"
    by (simp add: strcaseeq_def to_lower_def)
  let ?args = "[''capy'', ''+set'', ''netMode'', ''2'', ''+set'']"
  have n: "length ?args = 5" by simp
  obtain t bs where "Cmdline_Init (int (length ?args)) (os_argv ?args) cvar_sys0 =
      Inr (\<lparr>cmdline_argc = of_nat (length ?args), cmdline_argv = os_argv ?args\<rparr>, t)"
    "fold_res (\<lambda>(n, v). engine_put n v) (set_pairs ?args) cvar_sys0 = Inr t" "cvar_wf t bs"
    using Cmdline_Init_sets_pairs [of ?args cvar_sys0 "[]", OF _ _ cvar_wf_empty] by auto
  then show ?thesis unfolding p n by (intro exI [of _ t] exI [of _ bs]) (simp add: bind_res_eq_Inr)
qed

end
