(* ===== verification/Capy_Brewery.thy ===== *)
theory Capy_Brewery
  imports Capy_Beer Capy_Cmdline Capy_Logging
begin

text \<open>
  \<open>tools/brewery/\<close>: the tool that packs a folder into a package. Its own package class holds the base directory; adding a file and
  writing the package are the shared code. The walk over the folder is the library's: its entries, and whether it ends with an
  exception, are arguments. Of what it logs, the start of the log is modelled: the log file is emptied. A path is a file's one name:
  that two spellings may name one file is not modelled.
\<close>

section \<open>Data\<close>

definition FILESYSTEM_PACKAGE_MAGIC :: nat where "FILESYSTEM_PACKAGE_MAGIC = 0x52454542"
definition FILESYSTEM_PACKAGE_VERSION :: nat where "FILESYSTEM_PACKAGE_VERSION = 1"

record brewery_image =
  bi_header :: beer_header
  bi_fileList :: "beer_entry list"
  bi_stream :: stream
  bi_basedir :: string

text \<open>Adding a file returns a flag or throws the library's exception.\<close>

datatype add_result = Added brewery_image | NotThere | Threw

definition Brewery_AddFile :: "disk \<Rightarrow> string \<Rightarrow> brewery_image \<Rightarrow> add_result res" where
  "Brewery_AddFile d path img =
     (if path_exists d path \<and> files d path = None then Inr Threw
      else map_res (\<lambda>e. case e of None \<Rightarrow> NotThere | Some e \<Rightarrow> Added (img\<lparr>bi_fileList := bi_fileList img @ [e]\<rparr>))
             (add_entry (bi_basedir img) 0 d path))"

definition Brewery_Write :: "string \<Rightarrow> disk \<Rightarrow> brewery_image \<Rightarrow> (bool \<times> disk \<times> brewery_image) res" where
  "Brewery_Write path d img =
     map_res (\<lambda>(ok, hdr, d, st). (ok, d, img\<lparr>bi_header := hdr, bi_stream := st\<rparr>))
       (image_write (bi_basedir img) path (bi_header img) (bi_fileList img) d (bi_stream img))"

section \<open>The program\<close>

text \<open>The loop over the folder: \<open>None\<close> when it leaves for the failure exit.\<close>

fun add_files :: "disk \<Rightarrow> string list \<Rightarrow> bool \<Rightarrow> brewery_image \<Rightarrow> brewery_image option res" where
  "add_files d [] throws img = Inr (if throws then None else Some img)"
| "add_files d (p # ps) throws img =
     bind_res (Brewery_AddFile d p img) (\<lambda>r.
       case r of Added img \<Rightarrow> add_files d ps throws img | NotThere \<Rightarrow> Inr None | Threw \<Rightarrow> Inr None)"

text \<open>\<open>Logging_Init\<close> empties the log file, and the first message is written to it; where it cannot be opened that message is
  written through a null handle. What is logged later is left out. \<open>log_path\<close> is the disk's name of \<open>latest.log\<close> in the folder the tool is started
  in, \<open>now\<close> the date and \<open>build\<close> that of the build.\<close>

definition APP_SIGNON_STRING :: "string \<Rightarrow> string" where
  "APP_SIGNON_STRING build = ''Brewery 1.0.0 '' @ build"

definition Brewery_Logging :: "string \<Rightarrow> nat \<Rightarrow> string \<Rightarrow> string \<Rightarrow> disk \<Rightarrow> (disk \<times> logger) res" where
  "Brewery_Logging log_path errno now build d =
     (let can = creatable d log_path
      in bind_res (Logging_Init can errno now logger0) (\<lambda>(_, l).
         map_res (\<lambda>l. (if can then store d log_path [] else d, l))
           (Logging_LogChannel (APP_SIGNON_STRING build) (APP_SIGNON_STRING build) Debug now l)))"

text \<open>The exit code is whether it succeeded. The image is a local variable: the number of files in its header is never set.\<close>

definition Brewery_Main ::
    "(disk \<Rightarrow> string \<Rightarrow> string list \<times> bool) \<Rightarrow> nat \<Rightarrow> string \<Rightarrow> nat \<Rightarrow> string \<Rightarrow> string \<Rightarrow> int \<Rightarrow> string option list \<Rightarrow> disk \<Rightarrow>
     (bool \<times> disk) res" where
  "Brewery_Main listing junk log_path errno now build argc argv d =
     (let c = Brewery_Cmdline_Init argc argv
      in bind_res (Brewery_Logging log_path errno now build d) (\<lambda>(d, l).
         if Cmdline_Argc c < 2 then Inr (False, d)
         else bind_res (Brewery_Cmdline_Argv 1 c) (\<lambda>base.
           if MAX_PATH \<le> length base then Inl OutOfBoundsRead
           else let img = \<lparr>bi_header = \<lparr>magic = FILESYSTEM_PACKAGE_MAGIC, version = FILESYSTEM_PACKAGE_VERSION, numFiles = junk\<rparr>,
                           bi_fileList = [], bi_stream = stream0, bi_basedir = base\<rparr>;
                    (ps, throws) = listing d base
                in bind_res (add_files d ps throws img) (\<lambda>r.
                     case r of None \<Rightarrow> Inr (False, d)
                     | Some img \<Rightarrow>
                         bind_res (Brewery_Cmdline_Argv 2 c) (\<lambda>dest.
                           map_res (\<lambda>(ok, d, img). (True, d)) (Brewery_Write dest d img))))))"

section \<open>Packing a folder\<close>

definition plain_name :: "string \<Rightarrow> bool" where
  "plain_name n \<longleftrightarrow> is_c_string n \<and> n \<noteq> [] \<and> hd n \<noteq> CHR ''/'' \<and> hd n \<noteq> CHR 0x5C"

definition in_folder :: "string \<Rightarrow> string \<Rightarrow> string" where "in_folder base n = base @ CHR ''/'' # n"

definition entry_of :: "disk \<Rightarrow> string \<Rightarrow> string \<Rightarrow> beer_entry" where
  "entry_of d base n = \<lparr>be_path = n, be_location = 0, be_size = length (file_bytes d (in_folder base n)), be_id = 0\<rparr>"

lemma no_slash_plain: "plain_name n \<Longrightarrow> no_slash (drop (k mod 2) (CHR ''/'' # n)) = n"
  by (cases "even k"; cases n) (auto simp: no_slash_def plain_name_def mod_2_eq_odd)

text \<open>A name that is longer than its folder's overlaps with itself when it is moved.\<close>

definition moves_down :: "string \<Rightarrow> string \<Rightarrow> bool" where
  "moves_down base n \<longleftrightarrow> length n \<le> length base + 1"

lemma strip_in_folder:
  assumes "plain_name n"
  shows "strip_basedir base (in_folder base n) = (if moves_down base n then Inr n else Inl OverlappingCopy)"
  using strip_basedir_prefix [of "CHR ''/'' # n" base] no_slash_plain [OF assms, of "length base"]
  by (simp add: in_folder_def moves_down_def Let_def)

lemma Brewery_AddFile_folder:
  assumes "files d (in_folder base n) \<noteq> None" and "length (in_folder base n) < MAX_PATH" and "plain_name n" and "bi_basedir img = base"
  shows "Brewery_AddFile d (in_folder base n) img =
    (if moves_down base n then Inr (Added (img\<lparr>bi_fileList := bi_fileList img @ [entry_of d base n]\<rparr>)) else Inl OverlappingCopy)"
  using assms strip_in_folder [OF assms(3), of base]
  by (auto simp: Brewery_AddFile_def add_entry_def path_exists_def entry_of_def file_bytes_def)

lemma add_files_folder:
  assumes "\<And>n. n \<in> set ns \<Longrightarrow> files d (in_folder base n) \<noteq> None \<and> length (in_folder base n) < MAX_PATH \<and> plain_name n"
    and "bi_basedir img = base"
  shows "add_files d (map (in_folder base) ns @ ps) throws img =
    (if list_all (moves_down base) ns then add_files d ps throws (img\<lparr>bi_fileList := bi_fileList img @ map (entry_of d base) ns\<rparr>)
     else Inl OverlappingCopy)"
  using assms
proof (induction ns arbitrary: img)
  case Nil
  then show ?case by simp
next
  case (Cons n ns)
  then show ?case using Brewery_AddFile_folder [of d base n img] by simp
qed

lemma argc_init: "Cmdline_Argc (Brewery_Cmdline_Init n argv) = word_of_int n"
  by (simp add: Cmdline_Argc_def Brewery_Cmdline_Init_def)

lemma argv_three:
  "Brewery_Cmdline_Argv 1 (Brewery_Cmdline_Init 3 (os_argv [a, b, c])) = Inr b"
  "Brewery_Cmdline_Argv 2 (Brewery_Cmdline_Init 3 (os_argv [a, b, c])) = Inr c"
  by (simp_all add: Brewery_Cmdline_Argv_def Brewery_Cmdline_Init_def argv_at_os the_string_def word_le_nat_alt)

lemma argv_two:
  "Brewery_Cmdline_Argv 1 (Brewery_Cmdline_Init 2 (os_argv [a, b])) = Inr b"
  "Brewery_Cmdline_Argv 2 (Brewery_Cmdline_Init 2 (os_argv [a, b])) = Inr []"
  by (simp_all add: Brewery_Cmdline_Argv_def Brewery_Cmdline_Init_def argv_at_os the_string_def STRING_EMPTY_def word_le_nat_alt)

text \<open>Where the log file can be opened it is emptied; where it cannot, the tool ends in its first message.\<close>

definition log_starts :: "string \<Rightarrow> string \<Rightarrow> string \<Rightarrow> disk \<Rightarrow> bool" where
  "log_starts log_path now build d \<longleftrightarrow> creatable d log_path \<and> now \<noteq> [] \<and> length build = 20"

lemma Brewery_Logging_starts:
  assumes "log_starts log_path now build d"
  shows "\<exists>l. Brewery_Logging log_path errno now build d = Inr (store d log_path [], l)"
proof -
  have "logging (logger0\<lparr>settings := init_settings (settings logger0), handle := OpenHandle, logfile := [], initialised := True, initFailed := False\<rparr>)"
    by (simp add: logging_def logger0_def init_settings_def has_flag_def Printf_def File_def Let_def)
  from log_written [OF this, of sign_on now Debug sign_on] obtain l where l:
    "Logging_LogChannel sign_on sign_on Debug now
       (logger0\<lparr>settings := init_settings (settings logger0), handle := OpenHandle, logfile := [], initialised := True, initFailed := False\<rparr>) = Inr l" "logging l"
    using assms by (auto simp: log_starts_def sign_on_def LOGGING_MAX_LENGTH_TEXT_def)
  then have "Logging_Init True errno now logger0 = Inr (True, l)"
    by (simp add: Logging_Init_def logger0_def init_settings_def has_flag_def Printf_def File_def Let_def)
  moreover obtain l2 where "Logging_LogChannel (APP_SIGNON_STRING build) (APP_SIGNON_STRING build) Debug now l = Inr l2"
    using log_written [OF l(2), of "APP_SIGNON_STRING build" now Debug "APP_SIGNON_STRING build"] assms
    by (auto simp: log_starts_def APP_SIGNON_STRING_def LOGGING_MAX_LENGTH_TEXT_def)
  ultimately show ?thesis using assms by (simp add: Brewery_Logging_def log_starts_def)
qed

text \<open>A folder of plain files whose names fit, and none of which is the log.\<close>

definition flat_folder :: "disk \<Rightarrow> string \<Rightarrow> string \<Rightarrow> string list \<Rightarrow> bool" where
  "flat_folder d log_path base ns \<longleftrightarrow> length base < MAX_PATH \<and>
     (\<forall>n\<in>set ns. in_folder base n \<noteq> log_path \<and> files d (in_folder base n) \<noteq> None \<and> length (in_folder base n) < MAX_PATH \<and> plain_name n)"


definition two_files :: disk where
  "two_files = \<lparr>files = [''g/a'' \<mapsto> [1, 2], ''g/b'' \<mapsto> [3], ''g/long'' \<mapsto> []], dirs = (\<lambda>p. p = ''g''), creatable = (\<lambda>_. True)\<rparr>"

lemma two_files_flat: "flat_folder two_files ''latest.log'' ''g'' [''a'', ''b'']" "flat_folder two_files ''latest.log'' ''g'' [''a'', ''long'']"
  by (simp_all add: flat_folder_def two_files_def in_folder_def plain_name_def MAX_PATH_def NUL_def)

lemma two_files_log: "log_starts ''latest.log'' ''now'' ''Mar 01 2026 12:00:00'' two_files"
  by (simp add: log_starts_def two_files_def)


text \<open>
  Two failures the tool does not tell apart from success, and one it need not have: started without a package name it walks the folder,
  packs nothing and says that it succeeded; and a folder inside the folder, which the walk lists, ends it in failure with nothing
  packed.
\<close>

theorem brewery_writes_nothing:
  assumes "flat_folder d log_path base ns" and "list_all (moves_down base) ns" and "log_starts log_path now build d"
    and "dirs d (in_folder base sub)" and "files d (in_folder base sub) = None" and "in_folder base sub \<noteq> log_path"
    and flat: "flat_walk (store d log_path []) base = (map (in_folder base) ns, False)"
    and deep: "deep_walk (store d log_path []) base = (map (in_folder base) ns @ in_folder base sub # rest, False)"
  shows "Brewery_Main flat_walk junk log_path errno now build 2 (os_argv [prog, base]) d = Inr (True, store d log_path []) \<and>
    Brewery_Main deep_walk junk log_path errno now build 3 (os_argv [prog, base, dest]) d = Inr (False, store d log_path [])"
proof -
  let ?d = "store d log_path []"
  let ?img = "\<lparr>bi_header = \<lparr>magic = FILESYSTEM_PACKAGE_MAGIC, version = FILESYSTEM_PACKAGE_VERSION, numFiles = junk\<rparr>,
                           bi_fileList = [], bi_stream = stream0, bi_basedir = base\<rparr>"
  have ns: "n \<in> set ns \<Longrightarrow> files ?d (in_folder base n) \<noteq> None \<and> length (in_folder base n) < MAX_PATH \<and> plain_name n" for n
    using assms(1) by (auto simp: flat_folder_def)
  have base: "length base < MAX_PATH" using assms(1) by (simp add: flat_folder_def)
  obtain l where log_path: "Brewery_Logging log_path errno now build d = Inr (?d, l)" using Brewery_Logging_starts [OF assms(3)] by blast
  have no_ext: "\<not> strstr [] PACKAGE_EXTENSION" by (simp add: PACKAGE_EXTENSION_def)
  have "Brewery_Main flat_walk junk log_path errno now build 2 (os_argv [prog, base]) d = Inr (True, ?d)"
    using flat base add_files_folder [of ns ?d base ?img "[]" False] ns no_ext log_path assms(2)
    by (simp add: Brewery_Main_def argv_two Let_def Brewery_Write_def argc_init image_write_def image_open_def)
  moreover have "Brewery_Main deep_walk junk log_path errno now build 3 (os_argv [prog, base, dest]) d = Inr (False, ?d)"
    using deep base assms(2,4,5,6) add_files_folder [of ns ?d base ?img "in_folder base sub # rest" False] ns log_path
    by (simp add: Brewery_Main_def argv_three Let_def argc_init Brewery_AddFile_def path_exists_def)
  ultimately show ?thesis by blast
qed

theorem brewery_writes_nothing_witness:
  "\<exists>d'. Brewery_Main (\<lambda>_ _. ([''g/a'', ''g/b''], False)) 0 ''latest.log'' 0 ''now'' ''Mar 01 2026 12:00:00'' 2
      (os_argv [''brewery'', ''g'']) (two_files\<lparr>dirs := \<lambda>_. True\<rparr>) = Inr (True, d') \<and>
    Brewery_Main (\<lambda>_ _. ([''g/a'', ''g/b'', ''g/s''], False)) 0 ''latest.log'' 0 ''now'' ''Mar 01 2026 12:00:00'' 3
      (os_argv [''brewery'', ''g'', ''p.beer'']) (two_files\<lparr>dirs := \<lambda>_. True\<rparr>) = Inr (False, d')"
proof -
  have "flat_folder (two_files\<lparr>dirs := \<lambda>_. True\<rparr>) ''latest.log'' ''g'' [''a'', ''b'']"
    using two_files_flat(1) by (simp add: flat_folder_def)
  moreover have "list_all (moves_down ''g'') [''a'', ''b'']" by (simp add: moves_down_def)
  moreover have "log_starts ''latest.log'' ''now'' ''Mar 01 2026 12:00:00'' (two_files\<lparr>dirs := \<lambda>_. True\<rparr>)"
    using two_files_log by (simp add: log_starts_def)
  ultimately have "Brewery_Main (\<lambda>_ _. ([''g/a'', ''g/b''], False)) 0 ''latest.log'' 0 ''now'' ''Mar 01 2026 12:00:00'' 2
      (os_argv [''brewery'', ''g'']) (two_files\<lparr>dirs := \<lambda>_. True\<rparr>) = Inr (True, store (two_files\<lparr>dirs := \<lambda>_. True\<rparr>) ''latest.log'' []) \<and>
    Brewery_Main (\<lambda>_ _. ([''g/a'', ''g/b'', ''g/s''], False)) 0 ''latest.log'' 0 ''now'' ''Mar 01 2026 12:00:00'' 3
      (os_argv [''brewery'', ''g'', ''p.beer'']) (two_files\<lparr>dirs := \<lambda>_. True\<rparr>) = Inr (False, store (two_files\<lparr>dirs := \<lambda>_. True\<rparr>) ''latest.log'' [])"
    by (rule brewery_writes_nothing [where sub = "''s''" and rest = "[]"]) (simp_all add: two_files_def in_folder_def)
  then show ?thesis by blast
qed

end
