(* ===== verification/Capy_Filesystem.thy ===== *)
theory Capy_Filesystem
  imports Capy_Beer Capy_Cvar
begin

text \<open>
  The engine's file access (\<open>core/filesystem/filesystem.cpp\<close>, \<open>.hpp\<close>): opening and closing files,
  the list of loaded packages and reading them. Streams, file objects and package objects live on
  heaps, because a file object may share the stream of the package it comes from. A path is the
  string its buffer holds; one that fills its 260 characters keeps them all here.
\<close>

section \<open>Data\<close>

definition PACKAGE_NAMESPACE :: string where "PACKAGE_NAMESPACE = ''beer!''"
definition PACKAGE_SEPARATOR :: char where "PACKAGE_SEPARATOR = CHR '':''"

definition FILE_TEXT :: u32 where "FILE_TEXT = 1"
definition FILE_BINARY :: u32 where "FILE_BINARY = 2"

datatype file_type = FILETYPE_FS | FILETYPE_PAK

record fs_file =
  ff_stream :: nat
  ff_path :: string
  ff_open :: bool

record fs_image =
  im_header :: beer_header
  im_fileList :: "beer_entry list"
  im_stream :: nat
  im_next :: "nat option"
  im_path :: string

record fs_sys =
  fs_disk :: disk
  fs_streams :: "stream heap"
  fs_files :: "fs_file heap"
  fs_images :: "fs_image heap"
  imageListHead :: "nat option"
  imageListTail :: "nat option"
  fsBasedir :: "nat option"
  fs_fresh :: nat

text \<open>\<open>fsBasedir->string\<close>\<close>

definition basedir_string :: "char list \<Rightarrow> cvar_sys \<Rightarrow> fs_sys \<Rightarrow> string res" where
  "basedir_string mem cs s =
     (case fsBasedir s of None \<Rightarrow> Inl NullDeref
      | Some a \<Rightarrow> (case cvars cs a of None \<Rightarrow> Inl UseAfterFree | Some c \<Rightarrow> Inr (deref mem (cv_string c))))"

definition Filesystem_Init :: "char list \<Rightarrow> cvar_sys \<Rightarrow> fs_sys \<Rightarrow> (cvar_sys \<times> fs_sys) res" where
  "Filesystem_Init mem cs s =
     bind_res (Cvar_Get_bool mem cs (Lit ''fsBasedir'') (Lit ''./'') False) (\<lambda>(a, cs).
     let s = s\<lparr>fsBasedir := Some a\<rparr> in
     bind_res (basedir_string mem cs s) (\<lambda>base.
       if path_exists (fs_disk s) base then Inr (cs, s)
       else if \<not> creatable (fs_disk s) base then Inl Terminated
       else Inr (cs, s\<lparr>fs_disk := (fs_disk s)\<lparr>dirs := (dirs (fs_disk s))(base := True)\<rparr>\<rparr>)))"

section \<open>The list of packages\<close>

definition FS_GetImageByName :: "fs_sys \<Rightarrow> string \<Rightarrow> nat option res" where
  "FS_GetImageByName s name =
     run_loop (walk im_next (\<lambda>im. im_path im = name) (fs_images s) (imageListHead s))"

definition with_image :: "fs_sys \<Rightarrow> nat \<Rightarrow> (fs_image \<Rightarrow> 'a res) \<Rightarrow> 'a res" where
  "with_image s i f = (case fs_images s i of None \<Rightarrow> Inl UseAfterFree | Some im \<Rightarrow> f im)"

definition with_stream :: "fs_sys \<Rightarrow> nat \<Rightarrow> (stream \<Rightarrow> 'a res) \<Rightarrow> 'a res" where
  "with_stream s a f = (case fs_streams s a of None \<Rightarrow> Inl UseAfterFree | Some st \<Rightarrow> f st)"

text \<open>\<open>AddFile\<close>, \<open>Open\<close>, \<open>Write\<close> and \<open>Close\<close> of a package.\<close>

definition FilesystemImage_AddFile ::
    "char list \<Rightarrow> cvar_sys \<Rightarrow> int \<Rightarrow> nat \<Rightarrow> string \<Rightarrow> fs_sys \<Rightarrow> (bool \<times> fs_sys) res" where
  "FilesystemImage_AddFile mem cs junk i path s =
     with_image s i (\<lambda>im.
       if \<not> path_exists (fs_disk s) path then Inr (False, s)
       else bind_res (basedir_string mem cs s) (\<lambda>base.
         map_res (\<lambda>r. case r of
             None \<Rightarrow> (False, s)
           | Some e \<Rightarrow> (True, s\<lparr>fs_images := (fs_images s)(i \<mapsto> im\<lparr>im_fileList := im_fileList im @ [e]\<rparr>)\<rparr>))
           (add_entry base junk (fs_disk s) path)))"

definition FilesystemImage_Open :: "nat \<Rightarrow> string option \<Rightarrow> fs_sys \<Rightarrow> (bool \<times> fs_sys) res" where
  "FilesystemImage_Open i path s =
     with_image s i (\<lambda>im. with_stream s (im_stream im) (\<lambda>st.
       case path of None \<Rightarrow> Inr (False, s)
       | Some p \<Rightarrow>
           let (ok, d, st) = image_open p (fs_disk s) st;
               s = s\<lparr>fs_disk := d, fs_streams := (fs_streams s)(im_stream im \<mapsto> st)\<rparr>
           in Inr (ok, if ok then s\<lparr>fs_images := (fs_images s)(i \<mapsto> im\<lparr>im_path := take MAX_PATH p\<rparr>)\<rparr> else s)))"

definition FilesystemImage_Write ::
    "char list \<Rightarrow> cvar_sys \<Rightarrow> nat \<Rightarrow> string \<Rightarrow> fs_sys \<Rightarrow> (bool \<times> fs_sys) res" where
  "FilesystemImage_Write mem cs i path s =
     with_image s i (\<lambda>im. with_stream s (im_stream im) (\<lambda>st.
       bind_res (basedir_string mem cs s) (\<lambda>base.
       map_res (\<lambda>(ok, hdr, d, st').
           (ok, s\<lparr>fs_disk := d, fs_streams := (fs_streams s)(im_stream im \<mapsto> st'),
                  fs_images := (fs_images s)(i \<mapsto> im\<lparr>im_header := hdr,
                    im_path := (if fst (image_open path (fs_disk s) st) then take MAX_PATH path else im_path im)\<rparr>)\<rparr>))
         (image_write base path (im_header im) (im_fileList im) (fs_disk s) st))))"

definition FilesystemImage_Close :: "nat \<Rightarrow> fs_sys \<Rightarrow> fs_sys res" where
  "FilesystemImage_Close i s =
     with_image s i (\<lambda>im. with_stream s (im_stream im) (\<lambda>st.
       Inr (s\<lparr>fs_streams := (fs_streams s)(im_stream im \<mapsto> stream_close st)\<rparr>)))"

subsection \<open>Reading a package\<close>

text \<open>A read into a structure replaces as many of its bytes as the stream gave.\<close>

definition read_header :: "beer_header \<Rightarrow> byte list \<Rightarrow> beer_header" where
  "read_header h bs =
     (let raw = bs @ drop (length bs) (header_bytes h)
      in \<lparr>magic = le_dec (take 4 raw), version = le_dec (take 4 (drop 4 raw)), numFiles = le_dec (take 4 (drop 8 raw))\<rparr>)"

text \<open>\<open>while (len < MAX_PATH && curByte != 0)\<close>; neither variable is reset between two entries, and
  \<open>curByte\<close> starts as 0. \<open>get()\<close> at the end of the file stores \<open>(char)EOF\<close>.\<close>

function scan_name :: "nat \<Rightarrow> byte \<Rightarrow> disk \<Rightarrow> stream \<Rightarrow> nat \<times> byte \<times> stream" where
  "scan_name len cur d st =
     (if len < MAX_PATH \<and> cur \<noteq> 0 then
        let (b, st) = stream_get d st
        in scan_name (len + 1) (case b of None \<Rightarrow> 255 | Some b \<Rightarrow> b) d st
      else (len, cur, st))"
  by pat_completeness auto
termination by (relation "measure (\<lambda>(len, cur, d, st). MAX_PATH - len)") auto

declare scan_name.simps [simp del]

fun read_entries :: "nat \<Rightarrow> nat \<Rightarrow> nat \<Rightarrow> byte \<Rightarrow> disk \<Rightarrow> stream \<Rightarrow> beer_entry list \<times> stream" where
  "read_entries 0 i len cur d st = ([], st)"
| "read_entries (Suc n) i len cur d st =
     (let (sz, st) = stream_read 8 d st;
          (loc, st) = stream_read 8 d st;
          (len, cur, st) = scan_name len cur d st;
          st = stream_seekg (st_pos st - len) st;
          (name, st) = stream_read len d st;
          (es, st) = read_entries n (Suc i) len cur d st
      in (\<lparr>be_path = c_str (map char_of_byte name), be_location = le_dec loc, be_size = le_dec sz,
           be_id = int i\<rparr> # es, st))"

definition FilesystemImage_Read :: "nat \<Rightarrow> string option \<Rightarrow> fs_sys \<Rightarrow> (bool \<times> fs_sys) res" where
  "FilesystemImage_Read i path s =
     bind_res (FilesystemImage_Open i path s) (\<lambda>(ok, s).
     if \<not> ok then Inr (False, s)
     else with_image s i (\<lambda>im. with_stream s (im_stream im) (\<lambda>st.
       let (bs, st) = stream_read 12 (fs_disk s) st;
           im = im\<lparr>im_header := read_header (im_header im) bs\<rparr>;
           s = s\<lparr>fs_streams := (fs_streams s)(im_stream im \<mapsto> st), fs_images := (fs_images s)(i \<mapsto> im)\<rparr>
       in if magic (im_header im) \<noteq> PACKAGE_MAGIC then Inr (False, s)
          else if version (im_header im) \<noteq> PACKAGE_MAGIC then Inr (False, s)
          else if numFiles (im_header im) = 0 then Inr (False, s)
          else let (es, st) = read_entries (numFiles (im_header im)) 0 0 0 (fs_disk s) st;
                   im = im\<lparr>im_fileList := im_fileList im @ es\<rparr>;
                   s = s\<lparr>fs_streams := (fs_streams s)(im_stream im \<mapsto> st), fs_images := (fs_images s)(i \<mapsto> im)\<rparr>
               in case imageListHead s of
                    None \<Rightarrow> Inr (True, s\<lparr>imageListHead := Some i, imageListTail := Some i\<rparr>)
                  | Some _ \<Rightarrow>
                      (case imageListTail s of None \<Rightarrow> Inl NullDeref
                       | Some t \<Rightarrow> with_image s t (\<lambda>tl.
                           Inr (True, s\<lparr>fs_images := (fs_images s)(t \<mapsto> tl\<lparr>im_next := Some i\<rparr>),
                                        imageListTail := Some i\<rparr>))))))"

subsection \<open>Files inside a package\<close>

definition GetFileByPath :: "beer_entry list \<Rightarrow> string \<Rightarrow> nat option" where
  "GetFileByPath es name = find (\<lambda>i. strneq (be_path (es ! i)) name MAX_PATH) [0..<length es]"

text \<open>The sum of the sizes before the entry; the bound on the index is one too wide.\<close>

fun sum_sizes :: "nat \<Rightarrow> nat \<Rightarrow> beer_entry list \<Rightarrow> nat \<Rightarrow> nat res" where
  "sum_sizes 0 i es loc = Inr loc"
| "sum_sizes (Suc n) i es loc =
     (if length es < i then Inr loc
      else if i < length es then sum_sizes n (Suc i) es (loc + be_size (es ! i))
      else Inl OutOfBoundsRead)"

definition FilesystemImage_OpenFile :: "nat \<Rightarrow> string \<Rightarrow> fs_sys \<Rightarrow> (nat option \<times> fs_sys) res" where
  "FilesystemImage_OpenFile i name s =
     with_image s i (\<lambda>im.
       case GetFileByPath (im_fileList im) name of
         None \<Rightarrow> Inl NullDeref
       | Some k \<Rightarrow>
           bind_res (sum_sizes (nat (be_id (im_fileList im ! k))) 0 (im_fileList im) 0) (\<lambda>loc.
           with_stream s (im_stream im) (\<lambda>st.
             let full = PACKAGE_NAMESPACE @ im_path im @ PACKAGE_SEPARATOR # name;
                 a = fs_fresh s
             in if MAX_PATH \<le> length full then Inl OutOfBoundsWrite
                else Inr (Some (a + 1), s\<lparr>fs_fresh := a + 2,
                  fs_streams := (fs_streams s)(im_stream im \<mapsto> stream_seekg loc st, a \<mapsto> stream0),
                  fs_files := (fs_files s)(a + 1 \<mapsto> \<lparr>ff_stream = im_stream im, ff_path = full, ff_open = True\<rparr>)\<rparr>))))"

section \<open>Opening and closing files\<close>

definition strchr :: "string \<Rightarrow> char \<Rightarrow> nat option" where
  "strchr s c = (if c \<in> set s then Some (length (takeWhile (\<lambda>x. x \<noteq> c) s)) else None)"

definition OpenInternal ::
    "char list \<Rightarrow> cvar_sys \<Rightarrow> string \<Rightarrow> u32 \<Rightarrow> file_type \<Rightarrow> fs_sys \<Rightarrow> (nat option \<times> fs_sys) res" where
  "OpenInternal mem cs path mode type s =
     (case type of
        FILETYPE_FS \<Rightarrow>
          bind_res (basedir_string mem cs s) (\<lambda>base.
            let final = take (MAX_PATH - 1) (base @ path);
                a = fs_fresh s;
                (d, st) = stream_open final True True (fs_disk s) stream0;
                s = s\<lparr>fs_disk := d, fs_fresh := a + 2\<rparr>
            in if st_bad st then Inr (None, s)
               else Inr (Some (a + 1), s\<lparr>fs_streams := (fs_streams s)(a \<mapsto> st),
                      fs_files := (fs_files s)(a + 1 \<mapsto> \<lparr>ff_stream = a, ff_path = final, ff_open = True\<rparr>)\<rparr>))
      | FILETYPE_PAK \<Rightarrow>
          (case strchr path PACKAGE_SEPARATOR of
             None \<Rightarrow> Inr (None, s)
           | Some colon \<Rightarrow>
               if colon < length PACKAGE_NAMESPACE \<or> MAX_PATH < colon - length PACKAGE_NAMESPACE
               then Inl OutOfBoundsWrite
               else bind_res (FS_GetImageByName s path) (\<lambda>r.
                 case r of None \<Rightarrow> Inr (None, s)
                 | Some i \<Rightarrow>
                     let inner = drop (colon - length PACKAGE_NAMESPACE) path
                     in if MAX_PATH \<le> length inner then Inl OutOfBoundsRead
                        else FilesystemImage_OpenFile i inner s)))"

definition Filesystem_Open ::
    "char list \<Rightarrow> cvar_sys \<Rightarrow> string \<Rightarrow> u32 \<Rightarrow> fs_sys \<Rightarrow> (nat option \<times> fs_sys) res" where
  "Filesystem_Open mem cs path mode s =
     (if strstr path PACKAGE_NAMESPACE \<and> strchr path PACKAGE_SEPARATOR \<noteq> None
      then OpenInternal mem cs path mode FILETYPE_PAK s
      else OpenInternal mem cs path mode FILETYPE_FS s)"

text \<open>\<open>delete ff\<close>, whose destructor deletes the stream.\<close>

definition delete_file :: "nat \<Rightarrow> fs_sys \<Rightarrow> fs_sys res" where
  "delete_file a s =
     (case fs_files s a of None \<Rightarrow> Inl DoubleFree
      | Some ff \<Rightarrow>
          (case fs_streams s (ff_stream ff) of None \<Rightarrow> Inl DoubleFree
           | Some _ \<Rightarrow> Inr (s\<lparr>fs_files := (fs_files s)(a := None),
                              fs_streams := (fs_streams s)(ff_stream ff := None)\<rparr>)))"

definition Filesystem_Close :: "nat option \<Rightarrow> fs_sys \<Rightarrow> fs_sys res" where
  "Filesystem_Close ff s =
     (case ff of None \<Rightarrow> Inr s
      | Some a \<Rightarrow>
          (case fs_files s a of None \<Rightarrow> Inl UseAfterFree
           | Some f \<Rightarrow> with_stream s (ff_stream f) (\<lambda>st.
               delete_file a (s\<lparr>fs_streams := (fs_streams s)(ff_stream f \<mapsto> stream_close st)\<rparr>))))"


section \<open>Well-formed file systems\<close>

text \<open>The heaps hold nothing past the next free address, and the live files have live streams of
  their own.\<close>

definition fs_wf :: "fs_sys \<Rightarrow> bool" where
  "fs_wf s =
     ((\<forall>a. fs_fresh s \<le> a \<longrightarrow> fs_streams s a = None \<and> fs_files s a = None) \<and>
      (\<forall>a f. fs_files s a = Some f \<longrightarrow> fs_streams s (ff_stream f) \<noteq> None) \<and>
      inj_on (\<lambda>a. ff_stream (the (fs_files s a))) (dom (fs_files s)))"

definition is_package_path :: "string \<Rightarrow> bool" where
  "is_package_path path = (strstr path PACKAGE_NAMESPACE \<and> strchr path PACKAGE_SEPARATOR \<noteq> None)"

definition opened_stream :: "string \<Rightarrow> stream" where
  "opened_stream p = \<lparr>st_open = True, st_path = p, st_in = True, st_out = True, st_pos = 0,
     st_eof = False, st_fail = False, st_bad = False\<rparr>"

lemma Filesystem_Open_file:
  assumes "basedir_string mem cs s = Inr base" and "\<not> is_package_path path"
  shows "Filesystem_Open mem cs path mode s =
    (let p = take (MAX_PATH - 1) (base @ path); a = fs_fresh s; ok = creatable (fs_disk s) p
     in Inr (Some (a + 1), s\<lparr>fs_disk := (if ok then store (fs_disk s) p [] else fs_disk s), fs_fresh := a + 2,
          fs_streams := (fs_streams s)(a \<mapsto> (if ok then opened_stream p else stream0\<lparr>st_fail := True\<rparr>)),
          fs_files := (fs_files s)(a + 1 \<mapsto> \<lparr>ff_stream = a, ff_path = p, ff_open = True\<rparr>)\<rparr>))"
proof -
  have "Filesystem_Open mem cs path mode s = OpenInternal mem cs path mode FILETYPE_FS s"
    using assms(2) by (auto simp: Filesystem_Open_def is_package_path_def)
  then show ?thesis
    using assms(1)
    by (simp add: OpenInternal_def Let_def stream_open_def stream0_def opened_stream_def store_def)
qed

lemma fs_wf_open:
  assumes "fs_wf s"
  shows "fs_wf (s\<lparr>fs_disk := d, fs_fresh := fs_fresh s + 2,
    fs_streams := (fs_streams s)(fs_fresh s \<mapsto> st),
    fs_files := (fs_files s)(fs_fresh s + 1 \<mapsto> \<lparr>ff_stream = fs_fresh s, ff_path = p, ff_open = True\<rparr>)\<rparr>)"
proof -
  have new: "fs_streams s (fs_fresh s) = None" "fs_files s (Suc (fs_fresh s)) = None"
    using assms by (auto simp: fs_wf_def)
  have old: "ff_stream f \<noteq> fs_fresh s" if "fs_files s a = Some f" for a f
    using assms that new(1) by (metis fs_wf_def)
  show ?thesis
    unfolding fs_wf_def
  proof (intro conjI allI impI)
    show "inj_on (\<lambda>a. ff_stream (the (fs_files (s\<lparr>fs_disk := d, fs_fresh := fs_fresh s + 2,
        fs_streams := (fs_streams s)(fs_fresh s \<mapsto> st),
        fs_files := (fs_files s)(fs_fresh s + 1 \<mapsto> \<lparr>ff_stream = fs_fresh s, ff_path = p, ff_open = True\<rparr>)\<rparr>) a)))
      (dom (fs_files (s\<lparr>fs_disk := d, fs_fresh := fs_fresh s + 2,
        fs_streams := (fs_streams s)(fs_fresh s \<mapsto> st),
        fs_files := (fs_files s)(fs_fresh s + 1 \<mapsto> \<lparr>ff_stream = fs_fresh s, ff_path = p, ff_open = True\<rparr>)\<rparr>)))"
    proof (rule inj_onI, goal_cases)
      case (1 x y)
      have "inj_on (\<lambda>a. ff_stream (the (fs_files s a))) (dom (fs_files s))"
        using assms by (simp add: fs_wf_def)
      from inj_onD [OF this, of x y] 1 old show ?case
        by (auto split: if_splits) metis+
    qed
  qed (use assms new in \<open>auto simp: fs_wf_def split: if_splits\<close>)
qed

lemma Filesystem_Close_live:
  assumes "fs_files s a = Some f" and "fs_streams s (ff_stream f) = Some st"
  shows "Filesystem_Close (Some a) s =
    Inr (s\<lparr>fs_files := (fs_files s)(a := None), fs_streams := (fs_streams s)(ff_stream f := None)\<rparr>)"
  using assms by (simp add: Filesystem_Close_def with_stream_def delete_file_def)

lemma Filesystem_Close_wf:
  assumes "fs_wf s" and "fs_files s a = Some f"
  shows "\<exists>s'. Filesystem_Close (Some a) s = Inr s' \<and> fs_wf s' \<and> fs_files s' a = None"
proof -
  obtain st where st: "fs_streams s (ff_stream f) = Some st"
    using assms unfolding fs_wf_def by blast
  have "ff_stream g \<noteq> ff_stream f" if "fs_files s b = Some g" "b \<noteq> a" for b g
  proof
    assume same: "ff_stream g = ff_stream f"
    have "inj_on (\<lambda>a. ff_stream (the (fs_files s a))) (dom (fs_files s))"
      using assms(1) by (simp add: fs_wf_def)
    from inj_onD [OF this, of b a] show False using that assms(2) same by auto
  qed
  then have "fs_wf (s\<lparr>fs_files := (fs_files s)(a := None), fs_streams := (fs_streams s)(ff_stream f := None)\<rparr>)"
    using assms(1) by (auto simp: fs_wf_def inj_on_def)
  then show ?thesis using Filesystem_Close_live [OF assms(2) st] by simp
qed

section \<open>Properties\<close>



definition fs0 :: "disk \<Rightarrow> fs_sys" where
  "fs0 d = \<lparr>fs_disk = d, fs_streams = Map.empty, fs_files = Map.empty, fs_images = Map.empty,
     imageListHead = None, imageListTail = None, fsBasedir = None, fs_fresh = 0\<rparr>"

lemma fs_wf_fs0 [simp]: "fs_wf (fs0 d)"
  by (simp add: fs_wf_def fs0_def)

lemma fs_wf_basedir [simp]: "fs_wf (s\<lparr>fsBasedir := b\<rparr>) = fs_wf s"
  by (simp add: fs_wf_def)

definition one_file :: fs_sys where
  "one_file = (fs0 \<lparr>files = [''./a.cfg'' \<mapsto> [115, 101, 116]], dirs = (\<lambda>p. p = ''./''), creatable = (\<lambda>p. True)\<rparr>)
     \<lparr>fsBasedir := Some 0\<rparr>"

lemma basedir_one_file: "basedir_string mem (one_cvar ''fsBasedir'' ''./'') one_file = Inr ''./''"
  by (simp add: basedir_string_def one_cvar_def one_file_def new_cvar_def)

lemma not_package_a_cfg: "\<not> is_package_path ''a.cfg''"
  by (simp add: is_package_path_def PACKAGE_NAMESPACE_def)


text \<open>
  A file object is closed once: on a well-formed file system, closing a file that is open
  succeeds, frees the object and its stream and keeps the system well-formed; closing the same
  pointer again is a use after free. A null pointer is ignored.
\<close>

theorem Filesystem_Close_once:
  assumes "fs_wf s" and "fs_files s a = Some f"
  shows "\<exists>s'. Filesystem_Close (Some a) s = Inr s' \<and> fs_wf s' \<and> fs_files s' a = None \<and>
    fs_streams s' (ff_stream f) = None \<and> Filesystem_Close (Some a) s' = Inl UseAfterFree \<and>
    Filesystem_Close None s = Inr s"
proof -
  obtain s' where s': "Filesystem_Close (Some a) s = Inr s'" "fs_wf s'" "fs_files s' a = None"
    using Filesystem_Close_wf [OF assms] by auto
  obtain st where "fs_streams s (ff_stream f) = Some st"
    using assms unfolding fs_wf_def by blast
  then have "fs_streams s' (ff_stream f) = None"
    using s'(1) Filesystem_Close_live [OF assms(2)] by auto
  with s' show ?thesis by (auto simp: Filesystem_Close_def)
qed

definition one_open :: fs_sys where
  "one_open = one_file\<lparr>fs_fresh := 2, fs_streams := [0 \<mapsto> opened_stream ''./a.cfg''],
     fs_files := [1 \<mapsto> \<lparr>ff_stream = 0, ff_path = ''./a.cfg'', ff_open = True\<rparr>]\<rparr>"

theorem Filesystem_Close_once_witness:
  "\<exists>s'. Filesystem_Close (Some 1) one_open = Inr s' \<and> fs_files s' 1 = None \<and>
    Filesystem_Close (Some 1) s' = Inl UseAfterFree"
proof -
  have "fs_wf one_open" by (simp add: one_open_def fs_wf_def one_file_def fs0_def)
  moreover have "fs_files one_open 1 = Some \<lparr>ff_stream = 0, ff_path = ''./a.cfg'', ff_open = True\<rparr>"
    by (simp add: one_open_def)
  ultimately show ?thesis using Filesystem_Close_once [of one_open 1] by blast
qed

text \<open>
  Reading a package fails and destroys it: \<open>Open\<close> truncates the file and opens it for writing
  only, so the header read keeps the object's own version, which is compared with the magic number.
  For every object whose version is not the magic number (as after \<open>Write\<close>), \<open>Read\<close> returns false,
  leaves the file empty and adds nothing to the list of packages.
\<close>

theorem FilesystemImage_Read_fails:
  assumes "fs_images s i = Some im" and "fs_streams s (im_stream im) = Some st"
    and "\<not> st_open st" and "strstr p PACKAGE_EXTENSION" and "creatable (fs_disk s) p"
    and "version (im_header im) \<noteq> PACKAGE_MAGIC" and "version (im_header im) < 2 ^ 32"
  shows "\<exists>s'. FilesystemImage_Read i (Some p) s = Inr (False, s') \<and> files (fs_disk s') p = Some [] \<and>
    imageListHead s' = imageListHead s \<and> imageListTail s' = imageListTail s"
proof -
  let ?st = "\<lparr>st_open = True, st_path = p, st_in = False, st_out = True, st_pos = 0,
     st_eof = False, st_fail = False, st_bad = False\<rparr>"
  have opened: "image_open p (fs_disk s) st = (True, store (fs_disk s) p [], ?st)"
    using assms(3-5) by (simp add: image_open_def stream_open_def store_def)

  have "version (read_header h []) = version h mod 256 ^ 4" for h
    by (simp add: read_header_def header_bytes_def le_dec_enc)
  then have "version (read_header (im_header im) []) \<noteq> PACKAGE_MAGIC"
    using assms(6,7) by simp
  then have v: "version (im_header (im\<lparr>im_path := take MAX_PATH p, im_header := read_header (im_header im) []\<rparr>)) \<noteq> PACKAGE_MAGIC"
    by simp
  let ?s = "s\<lparr>fs_disk := store (fs_disk s) p [], fs_streams := (fs_streams s)(im_stream im \<mapsto> ?st),
    fs_images := (fs_images s)(i \<mapsto> im\<lparr>im_path := take MAX_PATH p\<rparr>)\<rparr>"
  have "FilesystemImage_Open i (Some p) s = Inr (True, ?s)"
    using assms(1,2) by (simp add: FilesystemImage_Open_def with_image_def with_stream_def opened)
  moreover have "fs_images ?s i = Some (im\<lparr>im_path := take MAX_PATH p\<rparr>)" "fs_streams ?s (im_stream im) = Some ?st"
    "fs_disk ?s = store (fs_disk s) p []"
    by simp_all
  ultimately show ?thesis
    using v unfolding FilesystemImage_Read_def with_image_def with_stream_def
    by (simp add: stream_read_def st_good_def Let_def)
qed

definition one_image :: fs_sys where
  "one_image = one_file\<lparr>fs_fresh := 1, fs_streams := [0 \<mapsto> stream0],
     fs_images := [0 \<mapsto> \<lparr>im_header = \<lparr>magic = PACKAGE_MAGIC, version = PACKAGE_VERSION, numFiles = 1\<rparr>,
       im_fileList = [], im_stream = 0, im_next = None, im_path = []\<rparr>]\<rparr>"

theorem FilesystemImage_Read_fails_witness:
  "\<exists>s'. FilesystemImage_Read 0 (Some ''p.beer'') one_image = Inr (False, s') \<and>
    files (fs_disk s') ''p.beer'' = Some [] \<and> imageListHead s' = None \<and> imageListTail s' = None"
proof -
  have "fs_images one_image 0 = Some \<lparr>im_header = \<lparr>magic = PACKAGE_MAGIC, version = PACKAGE_VERSION, numFiles = 1\<rparr>,
       im_fileList = [], im_stream = 0, im_next = None, im_path = []\<rparr>"
    by (simp add: one_image_def)
  then show ?thesis
    using FilesystemImage_Read_fails [of one_image 0 _ stream0 "''p.beer''"]
    by (simp add: one_image_def one_file_def fs0_def stream0_def PACKAGE_EXTENSION_def PACKAGE_MAGIC_def
        PACKAGE_VERSION_def)
qed

end
