(* ===== verification/Capy_Quad.thy ===== *)
theory Capy_Quad
  imports Capy_Float
begin

text \<open>
  \<open>core/tier0/vector2.hpp\<close> and \<open>core/tier0/quadtree.hpp\<close>: pairs of coordinates, and the quadtree that
  the world keeps for collisions. A \<open>float\<close> is an instance of the arithmetic classes, so that the
  vector operations read the same at every coordinate type.
\<close>

section \<open>Vectors\<close>

instantiation f32 :: "{zero, plus, minus, times, divide}"
begin

definition "0 = Fin 0"
definition "x + y = f32_add x y" for x y :: f32
definition "x - y = f32_sub x y" for x y :: f32
definition "x * y = f32_mul x y" for x y :: f32
definition "x div y = f32_div x y" for x y :: f32

instance ..

end

record 'a vec2 =
  vx :: 'a
  vy :: 'a

definition Vector2_zero :: "'a::zero vec2" where "Vector2_zero = \<lparr>vx = 0, vy = 0\<rparr>"

definition Vector2_add :: "'a::plus vec2 \<Rightarrow> 'a vec2 \<Rightarrow> 'a vec2" where
  "Vector2_add v w = \<lparr>vx = vx v + vx w, vy = vy v + vy w\<rparr>"

definition Vector2_sub :: "'a::minus vec2 \<Rightarrow> 'a vec2 \<Rightarrow> 'a vec2" where
  "Vector2_sub v w = \<lparr>vx = vx v - vx w, vy = vy v - vy w\<rparr>"

definition Vector2_mul :: "'a::times vec2 \<Rightarrow> 'a vec2 \<Rightarrow> 'a vec2" where
  "Vector2_mul v w = \<lparr>vx = vx v * vx w, vy = vy v * vy w\<rparr>"

definition Vector2_div :: "'a::divide vec2 \<Rightarrow> 'a vec2 \<Rightarrow> 'a vec2" where
  "Vector2_div v w = \<lparr>vx = vx v div vx w, vy = vy v div vy w\<rparr>"

section \<open>Quads\<close>

datatype divide_type = DIVIDE_2BY2 | DIVIDE_1BY2 | DIVIDE_2BY1 | DIVIDE_NONE

datatype quad = Quad (q_position: "f32 vec2") (q_size: "int vec2") (q_divide: divide_type) (q_children: "quad option list")

text \<open>The three constructors. The last assigns the origin to its own parameter \<open>position\<close>, which hides
  the member of that name; the member is left at the origin its own constructor gave it.\<close>

definition Quad_new :: "quad" where
  "Quad_new = Quad Vector2_zero Vector2_zero DIVIDE_NONE [None, None, None, None]"

definition Quad_new_size :: "int vec2 \<Rightarrow> quad" where
  "Quad_new_size sz = Quad Vector2_zero sz DIVIDE_NONE [None, None, None, None]"

definition Quad_new_at :: "f32 vec2 \<Rightarrow> int vec2 \<Rightarrow> quad" where
  "Quad_new_at position sz =
     (let member = Vector2_zero; position = Vector2_zero :: f32 vec2
      in Quad member sz DIVIDE_NONE [None, None, None, None])"

definition Divide :: "divide_type \<Rightarrow> quad \<Rightarrow> quad" where
  "Divide ty q =
     (let p = q_position q; w = vx (q_size q); h = vy (q_size q);
          halfWidth = w div 2; halfHeight = h div 2;
          right = f32_add (vx p) (f32_of_int halfWidth); down = f32_add (vy p) (f32_of_int halfHeight)
      in Quad p (q_size q) ty
           (case ty of
              DIVIDE_1BY2 \<Rightarrow>
                [Some (Quad_new_at \<lparr>vx = vx p, vy = vy p\<rparr> \<lparr>vx = w, vy = halfHeight\<rparr>),
                 Some (Quad_new_at \<lparr>vx = vx p, vy = down\<rparr> \<lparr>vx = w, vy = halfHeight\<rparr>), None, None]
            | DIVIDE_2BY1 \<Rightarrow>
                [Some (Quad_new_at \<lparr>vx = vx p, vy = vy p\<rparr> \<lparr>vx = halfWidth, vy = h\<rparr>),
                 Some (Quad_new_at \<lparr>vx = right, vy = vy p\<rparr> \<lparr>vx = halfWidth, vy = h\<rparr>), None, None]
            | DIVIDE_2BY2 \<Rightarrow>
                [Some (Quad_new_at \<lparr>vx = vx p, vy = vy p\<rparr> \<lparr>vx = halfWidth, vy = halfHeight\<rparr>),
                 Some (Quad_new_at \<lparr>vx = right, vy = vy p\<rparr> \<lparr>vx = halfWidth, vy = halfHeight\<rparr>),
                 Some (Quad_new_at \<lparr>vx = vx p, vy = down\<rparr> \<lparr>vx = halfWidth, vy = halfHeight\<rparr>),
                 Some (Quad_new_at \<lparr>vx = right, vy = down\<rparr> \<lparr>vx = halfWidth, vy = halfHeight\<rparr>)]
            | DIVIDE_NONE \<Rightarrow> q_children q))"

definition IsDivisible :: "quad \<Rightarrow> bool" where
  "IsDivisible q = (1 < vx (q_size q) \<and> 1 < vy (q_size q))"

definition HasChildren :: "quad \<Rightarrow> bool" where
  "HasChildren q = (q_children q ! 0 \<noteq> None)"

text \<open>\<open>children[i]->Divide()\<close>\<close>

definition divide_child :: "nat \<Rightarrow> quad \<Rightarrow> quad res" where
  "divide_child i q =
     (case q_children q ! i of
        None \<Rightarrow> Inl NullDeref
      | Some c \<Rightarrow> Inr (Quad (q_position q) (q_size q) (q_divide q) ((q_children q)[i := Some (Divide DIVIDE_2BY2 c)])))"

section \<open>Lemmas\<close>

text \<open>A tree the constructors and \<open>Divide\<close> build: four slots, none, the first two or all four of them
  used, the size of a child no larger than its parent's, and every quad at the origin.\<close>

fun quad_wf :: "quad \<Rightarrow> bool" where
  "quad_wf (Quad p sz ty ch) =
     (p = Vector2_zero \<and> length ch = 4 \<and>
      (ch = [None, None, None, None] \<or>
       (\<exists>a b. ch = [Some a, Some b, None, None]) \<or>
       (\<exists>a b c d. ch = [Some a, Some b, Some c, Some d])) \<and>
      list_all (\<lambda>x. case x of None \<Rightarrow> True | Some c \<Rightarrow> quad_wf c) ch)"

lemma quad_wf_new [simp]: "quad_wf Quad_new" "quad_wf (Quad_new_size sz)" "quad_wf (Quad_new_at p sz)"
  by (simp_all add: Quad_new_def Quad_new_size_def Quad_new_at_def Let_def)

lemma quad_wf_Divide: "quad_wf q \<Longrightarrow> quad_wf (Divide ty q)"
  by (cases q; cases ty) (simp_all add: Divide_def Let_def)

lemma HasChildren_Divide:
  assumes "quad_wf q"
  shows "HasChildren (Divide ty q) \<longleftrightarrow> ty \<noteq> DIVIDE_NONE \<or> HasChildren q"
  by (cases q; cases ty) (simp_all add: Divide_def Let_def HasChildren_def)

end
