(* ===== verification/Capy_Texture.thy ===== *)
theory Capy_Texture
  imports Capy_Filesystem Capy_Quad
begin

text \<open>
  \<open>core/render/assets/\<close>: textures, loaded by the image library from a path. What \<open>stbi_load\<close> makes of the disk and a path is an argument:
  the three numbers it is passed by address come back, set or not, with the decoded bytes where it could. Decoded images live on a heap of
  their own, from which \<open>stbi_image_free\<close> takes them.
\<close>

section \<open>Data\<close>

type_synonym image_loader = "disk \<Rightarrow> string \<Rightarrow> int \<times> int \<times> int \<Rightarrow> (int \<times> int \<times> int) \<times> byte list option"

record asset_texture =
  tx_size :: "int vec2"
  tx_bpp :: int
  tx_data :: "nat option"

record images =
  im_heap :: "byte list heap"
  im_fresh :: nat

definition SetSize :: "int vec2 \<Rightarrow> asset_texture \<Rightarrow> asset_texture" where "SetSize sz t = t\<lparr>tx_size := sz\<rparr>"

definition push3 :: "int \<Rightarrow> int" where "push3 c = (c * 8 + 2 ^ 31) mod 2 ^ 32 - 2 ^ 31"

text \<open>The earlier image is not freed. The size is the library's even where it fails.\<close>

definition AssetTexture_Load :: "image_loader \<Rightarrow> disk \<Rightarrow> string \<Rightarrow> asset_texture \<times> images \<Rightarrow> asset_texture \<times> images" where
  "AssetTexture_Load stbi_load d path = (\<lambda>(t, im).
     let ((x, y, c), r) = stbi_load d path (vx (tx_size t), vy (tx_size t), 0);
         t = t\<lparr>tx_size := \<lparr>vx = x, vy = y\<rparr>, tx_bpp := push3 c\<rparr>
     in case r of
          None \<Rightarrow> (t\<lparr>tx_data := None\<rparr>, im)
        | Some bs \<Rightarrow> (t\<lparr>tx_data := Some (im_fresh im)\<rparr>, im\<lparr>im_heap := (im_heap im)(im_fresh im \<mapsto> bs), im_fresh := im_fresh im + 1\<rparr>))"

definition AssetTexture_LoadFile ::
    "image_loader \<Rightarrow> char list \<Rightarrow> nat option \<Rightarrow> fs_sys \<Rightarrow> asset_texture \<times> images \<Rightarrow> (fs_sys \<times> asset_texture \<times> images) res" where
  "AssetTexture_LoadFile stbi_load junk ff s ti =
     (case ff of None \<Rightarrow> Inl NullDeref
      | Some a \<Rightarrow>
          (case fs_files s a of None \<Rightarrow> Inl UseAfterFree
           | Some f \<Rightarrow>
               let newPath = strncpy junk (ff_path f) MAX_PATH
               in bind_res (Filesystem_Close ff s) (\<lambda>s.
                    if NUL \<notin> set newPath then Inl OutOfBoundsRead
                    else Inr (s, AssetTexture_Load stbi_load (fs_disk s) (c_str newPath) ti))))"

definition AssetTexture_Unload :: "asset_texture \<times> images \<Rightarrow> (asset_texture \<times> images) res" where
  "AssetTexture_Unload = (\<lambda>(t, im).
     case tx_data t of None \<Rightarrow> Inr (t, im)
     | Some a \<Rightarrow>
         if im_heap im a = None then Inl DoubleFree
         else Inr (t\<lparr>tx_data := None\<rparr>, im\<lparr>im_heap := (im_heap im)(a := None)\<rparr>))"

section \<open>Lemmas\<close>

definition images_wf :: "asset_texture \<times> images \<Rightarrow> bool" where
  "images_wf = (\<lambda>(t, im). finite (dom (im_heap im)) \<and> (\<forall>a\<in>dom (im_heap im). a < im_fresh im) \<and>
     (\<forall>a. tx_data t = Some a \<longrightarrow> im_heap im a \<noteq> None))"

definition live_images :: "asset_texture \<times> images \<Rightarrow> nat" where "live_images = (\<lambda>(t, im). card (dom (im_heap im)))"

text \<open>Loads and unloads keep the texture's pointer valid; an image replaced by a load stays behind.\<close>

lemma AssetTexture_Load_wf: "images_wf ti \<Longrightarrow> images_wf (AssetTexture_Load stbi_load d path ti)"
  by (cases ti) (auto simp: images_wf_def AssetTexture_Load_def Let_def split: prod.splits option.splits intro: less_SucI)

lemma AssetTexture_Unload_wf:
  assumes "images_wf ti"
  shows "\<exists>ti'. AssetTexture_Unload ti = Inr ti' \<and> images_wf ti' \<and> tx_data (fst ti') = None"
  using assms by (cases ti) (auto simp: images_wf_def AssetTexture_Unload_def split: option.splits)

lemma AssetTexture_Load_None:
  assumes "\<And>xyz. snd (stbi_load d p xyz) = None"
  shows "tx_data (fst (AssetTexture_Load stbi_load d p ti)) = None \<and> snd (AssetTexture_Load stbi_load d p ti) = snd ti"
proof -
  obtain t im where ti: "ti = (t, im)" by fastforce
  obtain x y c where "stbi_load d p (vx (tx_size t), vy (tx_size t), 0) = ((x, y, c), None)"
    using assms [of "(vx (tx_size t), vy (tx_size t), 0)"] by (metis prod.collapse)
  then show ?thesis by (simp add: ti AssetTexture_Load_def)
qed

lemma c_str_newPath: "is_c_string p \<Longrightarrow> length p < MAX_PATH \<Longrightarrow> length junk = MAX_PATH \<Longrightarrow>
  c_str (strncpy junk p MAX_PATH) = p \<and> NUL \<in> set (strncpy junk p MAX_PATH)"
  using c_str_strncpy [of p MAX_PATH junk] by (simp add: strncpy_short)

text \<open>
  A texture is never loaded from a file that the engine opened. Opening the file empties it, and the texture is loaded from the path of
  the opened file after that: with an image library that refuses an empty file, the texture ends without data, and the image file that was
  there is gone. The file object is closed.
\<close>

theorem texture_file_is_empty:
  assumes "fs_wf s" and "basedir_string mem cs s = Inr base" and "\<not> is_package_path path" and "is_c_string (base @ path)"
    and "creatable (fs_disk s) (take (MAX_PATH - 1) (base @ path))" and "length junk = MAX_PATH"
    and refuses: "\<And>d p xyz. files d p = Some [] \<Longrightarrow> snd (stbi_load d p xyz) = None"
  shows "\<exists>a s1 s2 t im. Filesystem_Open mem cs path mode s = Inr (Some a, s1) \<and>
    AssetTexture_LoadFile stbi_load junk (Some a) s1 ti = Inr (s2, t, im) \<and> tx_data t = None \<and> im = snd ti \<and>
    fs_files s2 a = None \<and> files (fs_disk s2) (take (MAX_PATH - 1) (base @ path)) = Some []"
proof -
  let ?p = "take (MAX_PATH - 1) (base @ path)"
  have p: "is_c_string ?p" "length ?p < MAX_PATH" using assms(4) by (auto simp: is_c_string_def list_all_iff MAX_PATH_def dest: in_set_takeD)
  let ?f = "\<lparr>ff_stream = fs_fresh s, ff_path = ?p, ff_open = True\<rparr>"
  let ?s1 = "s\<lparr>fs_disk := store (fs_disk s) ?p [], fs_fresh := fs_fresh s + 2,
    fs_streams := (fs_streams s)(fs_fresh s \<mapsto> opened_stream ?p), fs_files := (fs_files s)(fs_fresh s + 1 \<mapsto> ?f)\<rparr>"
  have s1: "Filesystem_Open mem cs path mode s = Inr (Some (fs_fresh s + 1), ?s1)"
    using Filesystem_Open_file [OF assms(2,3), of mode] assms(5) by (simp add: Let_def)
  obtain s2 where s2: "Filesystem_Close (Some (fs_fresh s + 1)) ?s1 = Inr s2" "fs_files s2 (fs_fresh s + 1) = None" "fs_disk s2 = fs_disk ?s1"
    using Filesystem_Close_live [of ?s1 "fs_fresh s + 1" ?f "opened_stream ?p"] by auto
  have empty: "files (fs_disk s2) ?p = Some []" using s2(3) by (simp add: store_def)
  obtain t im where t: "AssetTexture_Load stbi_load (fs_disk s2) ?p ti = (t, im)" by fastforce
  have "tx_data t = None \<and> im = snd ti"
    using AssetTexture_Load_None [of stbi_load "fs_disk s2" ?p ti, OF refuses [OF empty]] t by simp
  moreover have "AssetTexture_LoadFile stbi_load junk (Some (fs_fresh s + 1)) ?s1 ti = Inr (s2, t, im)"
    using s2(1) t c_str_newPath [OF p assms(6)] by (simp add: AssetTexture_LoadFile_def)
  ultimately show ?thesis using s1 s2(2) empty by blast
qed

text \<open>A loader that takes the file's first byte for the width of one row of grey dots.\<close>

definition row_loader :: image_loader where
  "row_loader = (\<lambda>d p xyz. case files d p of Some (b # bs) \<Rightarrow> ((int (length bs), 1, 1), Some bs) | _ \<Rightarrow> (xyz, None))"

definition no_texture :: asset_texture where "no_texture = \<lparr>tx_size = \<lparr>vx = 0, vy = 0\<rparr>, tx_bpp = 0, tx_data = None\<rparr>"

theorem texture_file_is_empty_witness:
  "\<exists>a s1 s2 t im. Filesystem_Open [] (one_cvar ''fsBasedir'' ''./'') ''a.cfg'' FILE_BINARY one_file = Inr (Some a, s1) \<and>
    AssetTexture_LoadFile row_loader (replicate MAX_PATH NUL) (Some a) s1 (no_texture, \<lparr>im_heap = Map.empty, im_fresh = 0\<rparr>) = Inr (s2, t, im) \<and>
    tx_data t = None \<and> snd (row_loader (fs_disk one_file) ''./a.cfg'' (0, 0, 0)) = Some [101, 116]"
proof -
  have wf: "fs_wf one_file" by (simp add: one_file_def)
  have p: "take (MAX_PATH - 1) (''./'' @ ''a.cfg'') = ''./a.cfg''" by (simp add: MAX_PATH_def)
  have c: "creatable (fs_disk one_file) ''./a.cfg''" "files (fs_disk one_file) ''./a.cfg'' = Some [115, 101, 116]"
    by (simp_all add: one_file_def fs0_def)
  have s: "is_c_string (''./'' @ ''a.cfg'')" by (simp add: NUL_def)
  have r: "snd (row_loader d p xyz) = None" if "files d p = Some []" for d p xyz using that by (simp add: row_loader_def)
  have now: "snd (row_loader (fs_disk one_file) ''./a.cfg'' (0, 0, 0)) = Some [101, 116]" using c(2) by (simp add: row_loader_def)
  show ?thesis
    using texture_file_is_empty [OF wf basedir_one_file not_package_a_cfg s _ _ r, unfolded p, OF c(1), where junk = "replicate MAX_PATH NUL" and mem = "[]" and mode = FILE_BINARY] now
    by fastforce
qed

end
