(* ===== verification/Capy_Files.thy ===== *)
theory Capy_Files
  imports Capy_Filesystem Capy_Machine
begin

text \<open>
  Whole runs of the file system (\<open>core/filesystem\<close>): files opened, used and closed, and packages made, filled, written, read, closed and
  deleted, in any order. Every object keeps a stream of its own, and no package is ever in the list of packages, unless the memory that
  one is made in happens to look like a package.
\<close>

section \<open>Packages as objects\<close>

text \<open>\<open>new FilesystemImage()\<close> makes the stream and clears the path; the header is what the raw memory holds. Deleting one deletes its stream.\<close>

definition FilesystemImage_new :: "beer_header \<Rightarrow> nat option \<Rightarrow> fs_sys \<Rightarrow> nat \<times> fs_sys" where
  "FilesystemImage_new raw_header raw_next s =
     (let a = fs_fresh s
      in (a + 1, s\<lparr>fs_fresh := a + 2, fs_streams := (fs_streams s)(a \<mapsto> stream0),
            fs_images := (fs_images s)(a + 1 \<mapsto> \<lparr>im_header = raw_header, im_fileList = [], im_stream = a, im_next = raw_next, im_path = []\<rparr>)\<rparr>))"

definition FilesystemImage_delete :: "nat \<Rightarrow> fs_sys \<Rightarrow> fs_sys res" where
  "FilesystemImage_delete i s =
     (case fs_images s i of None \<Rightarrow> Inl DoubleFree
      | Some im \<Rightarrow>
          (case fs_streams s (im_stream im) of None \<Rightarrow> Inl DoubleFree
           | Some _ \<Rightarrow> Inr (s\<lparr>fs_images := (fs_images s)(i := None), fs_streams := (fs_streams s)(im_stream im := None)\<rparr>)))"

section \<open>Steps\<close>

text \<open>A header is three 32-bit numbers. \<open>Read\<close> takes it for that of a package when its magic number is right and its version is the magic number
  again, which is what it compares it with, and it has files.\<close>

definition raw_header :: "beer_header \<Rightarrow> bool" where
  "raw_header hdr \<longleftrightarrow> magic hdr < 2 ^ 32 \<and> version hdr < 2 ^ 32 \<and> numFiles hdr < 2 ^ 32"

definition looks_packed :: "beer_header \<Rightarrow> bool" where
  "looks_packed hdr \<longleftrightarrow> magic hdr = PACKAGE_MAGIC \<and> version hdr = PACKAGE_MAGIC \<and> numFiles hdr \<noteq> 0"

definition not_packed :: "beer_header \<Rightarrow> bool" where
  "not_packed hdr \<longleftrightarrow> raw_header hdr \<and> \<not> looks_packed hdr"

text \<open>What is done with an open file goes through its stream, and can leave any stream and any disk behind. The header of a new package is
  whatever its memory holds: one of \<open>raws\<close>, which may be all headers.\<close>

inductive fs_step :: "beer_header set \<Rightarrow> fs_sys \<Rightarrow> fs_sys \<Rightarrow> bool" for raws where
  starts: "Filesystem_Init mem cs s = Inr (cs', t) \<Longrightarrow> fs_step raws s t"
| opens: "Filesystem_Open mem cs path mode s = Inr (r, t) \<Longrightarrow> fs_step raws s t"
| uses: "fs_files s a = Some f \<Longrightarrow> fs_streams s (ff_stream f) \<noteq> None \<Longrightarrow>
    fs_step raws s (s\<lparr>fs_disk := d, fs_streams := (fs_streams s)(ff_stream f \<mapsto> st)\<rparr>)"
| closes: "Filesystem_Close ff s = Inr t \<Longrightarrow> fs_step raws s t"
| makes: "raw \<in> raws \<Longrightarrow> raw_header raw \<Longrightarrow> FilesystemImage_new raw nx s = (i, t) \<Longrightarrow> fs_step raws s t"
| adds: "FilesystemImage_AddFile mem cs junk i path s = Inr (r, t) \<Longrightarrow> fs_step raws s t"
| packs: "FilesystemImage_Write mem cs i path s = Inr (r, t) \<Longrightarrow> fs_step raws s t"
| reads: "FilesystemImage_Read i p s = Inr (r, t) \<Longrightarrow> fs_step raws s t"
| shuts: "FilesystemImage_Close i s = Inr t \<Longrightarrow> fs_step raws s t"
| deletes: "FilesystemImage_delete i s = Inr t \<Longrightarrow> fs_step raws s t"

definition fs_start :: "fs_sys \<Rightarrow> bool" where
  "fs_start s \<longleftrightarrow> (\<exists>d base. s = (fs0 d)\<lparr>fsBasedir := base\<rparr>)"

section \<open>The invariant\<close>

text \<open>The objects, files and packages, and the stream of each.\<close>

definition owns :: "fs_sys \<Rightarrow> nat + nat \<Rightarrow> nat option" where
  "owns s x = (case x of Inl a \<Rightarrow> map_option ff_stream (fs_files s a) | Inr i \<Rightarrow> map_option im_stream (fs_images s i))"

lemma owns_simps [simp]: "owns s (Inl a) = map_option ff_stream (fs_files s a)" "owns s (Inr i) = map_option im_stream (fs_images s i)"
  by (simp_all add: owns_def)

lemma owns_eqI: "(\<And>a. map_option ff_stream (fs_files t a) = m (Inl a)) \<Longrightarrow> (\<And>i. map_option im_stream (fs_images t i) = m (Inr i)) \<Longrightarrow> owns t = m"
  by (rule ext) (simp add: owns_def split: sum.split)

definition fs_typed :: "fs_sys \<Rightarrow> bool" where
  "fs_typed s \<longleftrightarrow> (\<forall>a. fs_fresh s \<le> a \<longrightarrow> fs_streams s a = None \<and> owns s (Inl a) = None \<and> owns s (Inr a) = None) \<and>
     (\<forall>x a. owns s x = Some a \<longrightarrow> fs_streams s a \<noteq> None) \<and> (\<forall>x y a. owns s x = Some a \<longrightarrow> owns s y = Some a \<longrightarrow> x = y)"

definition no_package :: "fs_sys \<Rightarrow> bool" where
  "no_package s \<longleftrightarrow> imageListHead s = None \<and>
     (\<forall>i im. fs_images s i = Some im \<longrightarrow> not_packed (im_header im) \<and> (\<forall>st. fs_streams s (im_stream im) = Some st \<longrightarrow> \<not> st_in st))"

definition fs_inv :: "fs_sys \<Rightarrow> bool" where
  "fs_inv s \<longleftrightarrow> fs_typed s \<and> no_package s"

text \<open>Objects stay, come and go.\<close>

lemma fs_typed_same:
  assumes "fs_typed s" and "owns t = owns s" and "dom (fs_streams t) = dom (fs_streams s)" and "fs_fresh t = fs_fresh s"
  shows "fs_typed t"
proof -
  have "fs_streams t a = None \<longleftrightarrow> fs_streams s a = None" for a using assms(3) by blast
  then show ?thesis using assms(1,2,4) by (simp add: fs_typed_def)
qed

lemma fs_typed_new:
  assumes "fs_typed s" and "owns t = (owns s)(x \<mapsto> fs_fresh s)" and "x = Inl (fs_fresh s + 1) \<or> x = Inr (fs_fresh s + 1)"
    and "fs_streams t = (fs_streams s)(fs_fresh s \<mapsto> st)" and "fs_fresh t = fs_fresh s + 2"
  shows "fs_typed t"
proof -
  have none: "\<And>a. fs_fresh s \<le> a \<Longrightarrow> fs_streams s a = None \<and> owns s (Inl a) = None \<and> owns s (Inr a) = None"
    and live: "\<And>x a. owns s x = Some a \<Longrightarrow> fs_streams s a \<noteq> None" and one: "\<And>x y a. owns s x = Some a \<Longrightarrow> owns s y = Some a \<Longrightarrow> x = y"
    using assms(1) unfolding fs_typed_def by blast+
  have old: "owns s y \<noteq> Some (fs_fresh s)" for y using none [of "fs_fresh s"] live [of y "fs_fresh s"] by auto
  show ?thesis
    unfolding fs_typed_def assms(2,4,5)
  proof (intro conjI allI impI)
    fix y z a assume "((owns s)(x \<mapsto> fs_fresh s)) y = Some a" "((owns s)(x \<mapsto> fs_fresh s)) z = Some a"
    then show "y = z" using one [of y a z] old [of y] old [of z] by (auto split: if_splits)
  qed (use none live assms(3) in \<open>auto split: if_splits\<close>)
qed

lemma fs_typed_gone:
  assumes "fs_typed s" and "owns t = (owns s)(x := None)" and "owns s x = Some a"
    and "fs_streams t = (fs_streams s)(a := None)" and "fs_fresh t = fs_fresh s"
  shows "fs_typed t"
  using assms(1,3) unfolding fs_typed_def assms(2,4,5) by (auto split: if_splits; blast)

lemma no_reader: "no_package s \<Longrightarrow> fs_images s i = Some im \<Longrightarrow> fs_streams s (im_stream im) = Some st \<Longrightarrow> \<not> st_in st"
  by (auto simp: no_package_def)

text \<open>The stream of one object is no other object's.\<close>

lemma fs_typed_apart:
  assumes "fs_typed s"
  shows "fs_files s a = Some f \<Longrightarrow> fs_images s i = Some im \<Longrightarrow> ff_stream f \<noteq> im_stream im"
    and "fs_files s a = Some f \<Longrightarrow> fs_files s b = Some g \<Longrightarrow> ff_stream f = ff_stream g \<Longrightarrow> a = b"
    and "fs_images s i = Some im \<Longrightarrow> fs_images s j = Some im' \<Longrightarrow> im_stream im = im_stream im' \<Longrightarrow> i = j"
    and "fs_files s a = Some f \<Longrightarrow> fs_streams s (ff_stream f) \<noteq> None"
    and "fs_images s i = Some im \<Longrightarrow> fs_streams s (im_stream im) \<noteq> None"
proof -
  have own: "owns s x = Some c \<Longrightarrow> owns s y = Some c \<Longrightarrow> x = y" "owns s x = Some c \<Longrightarrow> fs_streams s c \<noteq> None" for x y c
    using assms unfolding fs_typed_def by blast+
  show "fs_files s a = Some f \<Longrightarrow> fs_images s i = Some im \<Longrightarrow> ff_stream f \<noteq> im_stream im" using own(1) [of "Inl a" _ "Inr i"] by auto
  show "fs_files s a = Some f \<Longrightarrow> fs_files s b = Some g \<Longrightarrow> ff_stream f = ff_stream g \<Longrightarrow> a = b" using own(1) [of "Inl a" _ "Inl b"] by auto
  show "fs_images s i = Some im \<Longrightarrow> fs_images s j = Some im' \<Longrightarrow> im_stream im = im_stream im' \<Longrightarrow> i = j" using own(1) [of "Inr i" _ "Inr j"] by auto
  show "fs_files s a = Some f \<Longrightarrow> fs_streams s (ff_stream f) \<noteq> None" using own(2) [of "Inl a"] by auto
  show "fs_images s i = Some im \<Longrightarrow> fs_streams s (im_stream im) \<noteq> None" using own(2) [of "Inr i"] by auto
qed

section \<open>Objects come, change and go\<close>

lemma fs_inv_file:
  assumes "fs_inv s"
  shows "fs_inv (s\<lparr>fs_disk := d, fs_fresh := fs_fresh s + 2, fs_streams := (fs_streams s)(fs_fresh s \<mapsto> st),
    fs_files := (fs_files s)(fs_fresh s + 1 \<mapsto> \<lparr>ff_stream = fs_fresh s, ff_path = p, ff_open = b\<rparr>)\<rparr>)" (is "fs_inv ?t")
proof -
  have typed: "fs_typed s" and np: "no_package s" using assms by (simp_all add: fs_inv_def)
  have "owns ?t = (owns s)(Inl (fs_fresh s + 1) \<mapsto> fs_fresh s)" by (rule owns_eqI) simp_all
  then have "fs_typed ?t" by (rule fs_typed_new [OF typed]) simp_all
  moreover have "im_stream im \<noteq> fs_fresh s" if "fs_images s i = Some im" for i im
    using fs_typed_apart(5) [OF typed that] typed by (auto simp: fs_typed_def)
  then have "no_package ?t" using np by (auto simp: no_package_def)
  ultimately show ?thesis by (simp add: fs_inv_def)
qed

lemma fs_inv_image:
  assumes "fs_inv s" and "not_packed hdr"
  shows "fs_inv (s\<lparr>fs_fresh := fs_fresh s + 2, fs_streams := (fs_streams s)(fs_fresh s \<mapsto> stream0),
    fs_images := (fs_images s)(fs_fresh s + 1 \<mapsto> \<lparr>im_header = hdr, im_fileList = es, im_stream = fs_fresh s, im_next = nx, im_path = p\<rparr>)\<rparr>)" (is "fs_inv ?t")
proof -
  have typed: "fs_typed s" and np: "no_package s" using assms by (simp_all add: fs_inv_def)
  have "owns ?t = (owns s)(Inr (fs_fresh s + 1) \<mapsto> fs_fresh s)" by (rule owns_eqI) simp_all
  then have "fs_typed ?t" by (rule fs_typed_new [OF typed]) simp_all
  moreover have "im_stream im \<noteq> fs_fresh s" if "fs_images s i = Some im" for i im
    using fs_typed_apart(5) [OF typed that] typed by (auto simp: fs_typed_def)
  then have "no_package ?t" using np assms(2) by (auto simp: no_package_def stream0_def)
  ultimately show ?thesis by (simp add: fs_inv_def)
qed

text \<open>What a package does to itself, and a file to its stream.\<close>

lemma fs_inv_update:
  assumes "fs_inv s" and "fs_images s i = Some im" and "im_stream im' = im_stream im" and "not_packed (im_header im')" and "\<not> st_in st"
  shows "fs_inv (s\<lparr>fs_disk := d, fs_streams := (fs_streams s)(im_stream im \<mapsto> st), fs_images := (fs_images s)(i \<mapsto> im')\<rparr>)" (is "fs_inv ?t")
proof -
  have typed: "fs_typed s" and np: "no_package s" using assms(1) by (simp_all add: fs_inv_def)
  have "owns ?t = owns s" by (rule owns_eqI) (simp_all add: assms(2,3))
  moreover have "dom (fs_streams ?t) = dom (fs_streams s)" using fs_typed_apart(5) [OF typed assms(2)] by auto
  ultimately have "fs_typed ?t" using fs_typed_same [OF typed] by simp
  moreover have "no_package ?t" using np assms(3-5) by (auto simp: no_package_def)
  ultimately show ?thesis by (simp add: fs_inv_def)
qed

lemma fs_inv_use:
  assumes "fs_inv s" and "fs_files s a = Some f"
  shows "fs_inv (s\<lparr>fs_disk := d, fs_streams := (fs_streams s)(ff_stream f \<mapsto> st)\<rparr>)" (is "fs_inv ?t")
proof -
  have typed: "fs_typed s" and np: "no_package s" using assms(1) by (simp_all add: fs_inv_def)
  have "owns ?t = owns s" by (rule owns_eqI) simp_all
  moreover have "dom (fs_streams ?t) = dom (fs_streams s)" using fs_typed_apart(4) [OF typed assms(2)] by auto
  ultimately have "fs_typed ?t" using fs_typed_same [OF typed] by simp
  moreover have "no_package ?t" using np fs_typed_apart(1) [OF typed assms(2)] by (fastforce simp: no_package_def)
  ultimately show ?thesis by (simp add: fs_inv_def)
qed

text \<open>An object is deleted with its stream.\<close>

lemma fs_inv_close:
  assumes "fs_inv s" and "fs_files s a = Some f"
  shows "fs_inv (s\<lparr>fs_files := (fs_files s)(a := None), fs_streams := (fs_streams s)(ff_stream f := None)\<rparr>)" (is "fs_inv ?t")
proof -
  have typed: "fs_typed s" and np: "no_package s" using assms(1) by (simp_all add: fs_inv_def)
  have "owns ?t = (owns s)(Inl a := None)" by (rule owns_eqI) simp_all
  then have "fs_typed ?t" by (rule fs_typed_gone [OF typed, where a = "ff_stream f"]) (simp_all add: assms(2))
  moreover have "no_package ?t" using np by (auto simp: no_package_def)
  ultimately show ?thesis by (simp add: fs_inv_def)
qed

lemma fs_inv_delete:
  assumes "fs_inv s" and "fs_images s i = Some im"
  shows "fs_inv (s\<lparr>fs_images := (fs_images s)(i := None), fs_streams := (fs_streams s)(im_stream im := None)\<rparr>)" (is "fs_inv ?t")
proof -
  have typed: "fs_typed s" and np: "no_package s" using assms(1) by (simp_all add: fs_inv_def)
  have "owns ?t = (owns s)(Inr i := None)" by (rule owns_eqI) simp_all
  then have "fs_typed ?t" by (rule fs_typed_gone [OF typed, where a = "im_stream im"]) (simp_all add: assms(2))
  moreover have "no_package ?t" using np by (auto simp: no_package_def)
  ultimately show ?thesis by (simp add: fs_inv_def)
qed

section \<open>Packages are never read\<close>

text \<open>Opening and writing never make a package's stream readable.\<close>

lemma stream_write_in: "stream_write bs d st = (d', st') \<Longrightarrow> st_in st' = st_in st"
  by (auto simp: stream_write_def split: if_splits)

lemma write_entries_in: "write_entries es loc d st = (d', st') \<Longrightarrow> st_in st' = st_in st"
  by (induction es loc d st rule: write_entries.induct) (auto split: prod.splits dest!: stream_write_in)

lemma copy_chunks_in:
  assumes "copy_chunks g d tmp st = Some (g', d', tmp', st')"
  shows "st_in st' = st_in st"
proof -
  let ?P = "\<lambda>g d tmp st r. case r of (g', d', tmp', st') \<Rightarrow> st_in st' = st_in st"
  have "?P g d tmp st (g', d', tmp', st')"
  proof (rule copy_chunks.raw_induct [OF _ assms])
    fix f :: "nat \<Rightarrow> disk \<Rightarrow> stream \<Rightarrow> stream \<Rightarrow> (nat \<times> disk \<times> stream \<times> stream) option" and g d tmp st r
    assume IH: "\<And>g d tmp st r. f g d tmp st = Some r \<Longrightarrow> ?P g d tmp st r"
      and r: "(if st_eof tmp \<or> st_failed tmp then Some (g, d, tmp, st)
        else let (bs, tmp') = stream_read PACKAGE_CHUNK_SIZE d tmp; (d', st') = stream_write bs d st in f (length bs) d' tmp' st') = Some r"
    obtain bs tmp1 where 1: "stream_read PACKAGE_CHUNK_SIZE d tmp = (bs, tmp1)" by fastforce
    obtain d1 st1 where 2: "stream_write bs d st = (d1, st1)" by fastforce
    show "?P g d tmp st r" using r IH [of "length bs" d1 tmp1 st1 r] stream_write_in [OF 2] by (auto simp: 1 2 split: if_splits)
  qed
  then show ?thesis by simp
qed

lemma write_files_in: "write_files base es d tmp st = Inr (ok, d', st') \<Longrightarrow> st_in st' = st_in st"
  by (induction base es d tmp st rule: write_files.induct) (auto split: prod.splits if_splits option.splits dest!: copy_chunks_in)

lemma image_open_in: "image_open p d st = (ok, d', st') \<Longrightarrow> \<not> st_in st \<Longrightarrow> \<not> st_in st'"
  by (auto simp: image_open_def stream_open_def Let_def split: if_splits prod.splits)

lemma image_write_in:
  assumes "image_write base p hdr es d st = Inr (ok, hdr', d', st')" and "\<not> st_in st" and "not_packed hdr"
  shows "\<not> st_in st' \<and> not_packed hdr'"
proof -
  obtain ok1 d1 st1 where 1: "image_open p d st = (ok1, d1, st1)" "\<not> st_in st1"
    using image_open_in [OF _ assms(2)] by (metis prod_cases3)
  show ?thesis
  proof (cases ok1)
    case False
    then show ?thesis using assms(1,3) 1 by (simp add: image_write_def)
  next
    case True
    let ?h = "hdr\<lparr>magic := PACKAGE_MAGIC, version := PACKAGE_VERSION\<rparr>"
    obtain d2 st2 where 2: "stream_write (header_bytes ?h) d1 st1 = (d2, st2)" by fastforce
    obtain d3 st3 where 3: "write_entries es 0 d2 st2 = (d3, st3)" by fastforce
    have "\<not> st_in st3" using stream_write_in [OF 2] write_entries_in [OF 3] 1(2) by simp
    moreover obtain ok4 d4 st4 where 4: "write_files base es d3 stream0 st3 = Inr (ok4, d4, st4)" "hdr' = ?h" "st' = (if ok4 then stream_close st4 else st4)"
      using assms(1) True by (auto simp: image_write_def 1 2 3 map_res_def bind_res_eq_Inr)
    ultimately show ?thesis using write_files_in [OF 4(1)] assms(3)
      by (auto simp: stream_close_def not_packed_def raw_header_def looks_packed_def PACKAGE_VERSION_def PACKAGE_MAGIC_def)
  qed
qed

lemma read_nothing: "stream_read n d st = (bs, st') \<Longrightarrow> \<not> st_in st \<Longrightarrow> bs = [] \<and> \<not> st_in st'"
  by (auto simp: stream_read_def split: if_splits)

lemma read_header_nothing: "raw_header hdr \<Longrightarrow> read_header hdr [] = hdr"
  by (cases hdr) (simp add: raw_header_def read_header_def header_bytes_def le_dec_enc)

section \<open>Every step\<close>

lemma image_facts:
  assumes "fs_inv s" and "fs_images s i = Some im" and "fs_streams s (im_stream im) = Some st"
  shows "\<not> st_in st" and "not_packed (im_header im)"
  using assms by (auto simp: fs_inv_def no_package_def)

lemma FilesystemImage_Open_inv:
  assumes "fs_inv s" and "FilesystemImage_Open i p s = Inr (ok, t)"
  shows "fs_inv t"
proof -
  obtain im st where im: "fs_images s i = Some im" "fs_streams s (im_stream im) = Some st"
    using assms(2) by (auto simp: FilesystemImage_Open_def with_image_def with_stream_def split: option.splits)
  note f = image_facts [OF assms(1) im]
  show ?thesis
  proof (cases p)
    case None
    then show ?thesis using assms im by (simp add: FilesystemImage_Open_def with_image_def with_stream_def)
  next
    case (Some q)
    obtain ok1 d1 st1 where 1: "image_open q (fs_disk s) st = (ok1, d1, st1)" by (metis prod_cases3)
    have "\<not> st_in st1" using image_open_in [OF 1 f(1)] .
    moreover have "(fs_images s)(i \<mapsto> im) = fs_images s" using im(1) by (simp add: fun_upd_idem)
    ultimately show ?thesis
      using assms im 1 Some f(2) fs_inv_update [OF assms(1) im(1), of im st1 d1] fs_inv_update [OF assms(1) im(1), of "im\<lparr>im_path := take MAX_PATH q\<rparr>" st1 d1]
      by (auto simp: FilesystemImage_Open_def with_image_def with_stream_def Let_def split: if_splits)
  qed
qed

lemma FilesystemImage_Read_inv:
  assumes "fs_inv s" and "FilesystemImage_Read i p s = Inr (ok, t)"
  shows "fs_inv t \<and> \<not> ok"
proof -
  obtain b s1 where 1: "FilesystemImage_Open i p s = Inr (b, s1)"
    using assms(2) by (auto simp: FilesystemImage_Read_def bind_res_eq_Inr)
  have inv: "fs_inv s1" by (rule FilesystemImage_Open_inv [OF assms(1) 1])
  show ?thesis
  proof (cases b)
    case False
    then show ?thesis using assms(2) 1 inv by (simp add: FilesystemImage_Read_def)
  next
    case True
    obtain im st where im: "fs_images s1 i = Some im" "fs_streams s1 (im_stream im) = Some st"
      using assms(2) 1 True by (auto simp: FilesystemImage_Read_def with_image_def with_stream_def split: option.splits)
    note f = image_facts [OF inv im]
    obtain bs st1 where 2: "stream_read 12 (fs_disk s1) st = (bs, st1)" by fastforce
    have "raw_header (im_header im)" "\<not> looks_packed (im_header im)" using f(2) by (simp_all add: not_packed_def)
    note r = read_nothing [OF 2 f(1)] read_header_nothing [OF this(1)] this(2) [unfolded looks_packed_def]
    let ?im = "im\<lparr>im_header := read_header (im_header im) []\<rparr>"
    have "(ok, t) = (False, s1\<lparr>fs_streams := (fs_streams s1)(im_stream im \<mapsto> st1), fs_images := (fs_images s1)(i \<mapsto> ?im)\<rparr>)"
      using assms(2) 1 True im 2 r by (auto simp: FilesystemImage_Read_def with_image_def with_stream_def Let_def split: if_splits)
    then show ?thesis using fs_inv_update [OF inv im(1), of ?im st1 "fs_disk s1"] r f(2) by simp
  qed
qed

lemma FilesystemImage_Write_inv:
  assumes "fs_inv s" and "FilesystemImage_Write mem cs i p s = Inr (ok, t)"
  shows "fs_inv t"
proof -
  obtain im st base where im: "fs_images s i = Some im" "fs_streams s (im_stream im) = Some st" "basedir_string mem cs s = Inr base"
    using assms(2) by (auto simp: FilesystemImage_Write_def with_image_def with_stream_def bind_res_eq_Inr split: option.splits)
  note f = image_facts [OF assms(1) im(1,2)]
  obtain ok1 hdr1 d1 st1 where 1: "image_write base p (im_header im) (im_fileList im) (fs_disk s) st = Inr (ok1, hdr1, d1, st1)"
    using assms(2) im by (auto simp: FilesystemImage_Write_def with_image_def with_stream_def map_res_def bind_res_eq_Inr)
  let ?im = "im\<lparr>im_header := hdr1, im_path := (if fst (image_open p (fs_disk s) st) then take MAX_PATH p else im_path im)\<rparr>"
  have "t = s\<lparr>fs_disk := d1, fs_streams := (fs_streams s)(im_stream im \<mapsto> st1), fs_images := (fs_images s)(i \<mapsto> ?im)\<rparr>"
    using assms(2) im 1 by (simp add: FilesystemImage_Write_def with_image_def with_stream_def)
  then show ?thesis using fs_inv_update [OF assms(1) im(1), of ?im st1 d1] image_write_in [OF 1 f] by simp
qed

lemma FilesystemImage_AddFile_inv:
  assumes "fs_inv s" and "FilesystemImage_AddFile mem cs junk i p s = Inr (ok, t)"
  shows "fs_inv t"
proof -
  obtain im where im: "fs_images s i = Some im" using assms(2) by (auto simp: FilesystemImage_AddFile_def with_image_def split: option.splits)
  obtain st where st: "fs_streams s (im_stream im) = Some st" using fs_typed_apart(5) [OF _ im] assms(1) by (auto simp: fs_inv_def)
  have same: "(fs_streams s)(im_stream im \<mapsto> st) = fs_streams s" using st by (simp add: fun_upd_idem)
  have "fs_inv (s\<lparr>fs_images := (fs_images s)(i \<mapsto> im\<lparr>im_fileList := es\<rparr>)\<rparr>)" for es
    using fs_inv_update [OF assms(1) im, of "im\<lparr>im_fileList := es\<rparr>" st "fs_disk s"] image_facts [OF assms(1) im st] unfolding same by simp
  then show ?thesis using assms im
    by (auto simp: FilesystemImage_AddFile_def with_image_def map_res_def bind_res_eq_Inr split: if_splits option.splits)
qed

lemma FilesystemImage_Close_inv:
  assumes "fs_inv s" and "FilesystemImage_Close i s = Inr t"
  shows "fs_inv t"
proof -
  obtain im st where im: "fs_images s i = Some im" "fs_streams s (im_stream im) = Some st"
    "t = s\<lparr>fs_streams := (fs_streams s)(im_stream im \<mapsto> stream_close st)\<rparr>"
    using assms(2) by (auto simp: FilesystemImage_Close_def with_image_def with_stream_def split: option.splits)
  note f = image_facts [OF assms(1) im(1,2)]
  have "(fs_images s)(i \<mapsto> im) = fs_images s" using im(1) by (simp add: fun_upd_idem)
  then show ?thesis using fs_inv_update [OF assms(1) im(1), of im "stream_close st" "fs_disk s"] f im(3) by (simp add: stream_close_def)
qed

text \<open>A path in a package is never found.\<close>

lemma Filesystem_Open_package:
  assumes "imageListHead s = None" and "is_package_path path"
  shows "Filesystem_Open mem cs path mode s = Inr (None, s) \<or> Filesystem_Open mem cs path mode s = Inl OutOfBoundsWrite"
proof -
  obtain colon where c: "strchr path PACKAGE_SEPARATOR = Some colon" using assms(2) by (auto simp: is_package_path_def)
  have "FS_GetImageByName s path = Inr None" using assms(1) by (simp add: FS_GetImageByName_def walk.simps)
  then show ?thesis using assms(2) c by (auto simp: Filesystem_Open_def is_package_path_def OpenInternal_def)
qed

lemma Filesystem_Open_inv:
  assumes "fs_inv s" and "Filesystem_Open mem cs path mode s = Inr (r, t)"
  shows "fs_inv t"
proof (cases "is_package_path path")
  case True
  then show ?thesis using Filesystem_Open_package [OF _ True, of s mem cs mode] assms by (auto simp: fs_inv_def no_package_def)
next
  case False
  then have "Filesystem_Open mem cs path mode s = OpenInternal mem cs path mode FILETYPE_FS s" by (auto simp: Filesystem_Open_def is_package_path_def)
  then obtain base where "basedir_string mem cs s = Inr base" using assms(2) by (cases "basedir_string mem cs s") (auto simp: OpenInternal_def)
  from Filesystem_Open_file [OF this False] show ?thesis using assms fs_inv_file [OF assms(1)] by (auto simp: Let_def)
qed

lemma Filesystem_Close_inv:
  assumes "fs_inv s" and "Filesystem_Close ff s = Inr t"
  shows "fs_inv t"
proof (cases ff)
  case None
  then show ?thesis using assms by (simp add: Filesystem_Close_def)
next
  case (Some a)
  obtain f st where f: "fs_files s a = Some f" "fs_streams s (ff_stream f) = Some st"
    using assms(2) Some by (auto simp: Filesystem_Close_def with_stream_def split: option.splits)
  then show ?thesis using Filesystem_Close_live [OF f] assms Some fs_inv_close [OF assms(1) f(1)] by simp
qed

lemma FilesystemImage_delete_live:
  assumes "fs_inv s" and "fs_images s i = Some im"
  shows "FilesystemImage_delete i s = Inr (s\<lparr>fs_images := (fs_images s)(i := None), fs_streams := (fs_streams s)(im_stream im := None)\<rparr>)"
  using fs_typed_apart(5) [OF _ assms(2)] assms by (auto simp: FilesystemImage_delete_def fs_inv_def)

lemma Filesystem_Init_inv:
  assumes "fs_inv s" and "Filesystem_Init mem cs s = Inr (cs', t)"
  shows "fs_inv t"
proof -
  obtain b d where "t = s\<lparr>fsBasedir := b, fs_disk := d\<rparr> \<or> t = s\<lparr>fsBasedir := b\<rparr>"
    using assms(2) by (auto simp: Filesystem_Init_def Let_def bind_res_eq_Inr split: if_splits)
  then have "owns t = owns s \<and> fs_streams t = fs_streams s \<and> fs_fresh t = fs_fresh s \<and> fs_images t = fs_images s \<and> imageListHead t = imageListHead s"
    by (auto intro!: owns_eqI)
  then show ?thesis using assms(1) by (simp add: fs_inv_def fs_typed_def no_package_def)
qed

lemma fs_step_inv:
  assumes "fs_inv s" and "fs_step (Collect not_packed) s t"
  shows "fs_inv t"
  using assms(2,1)
proof cases
  case (makes raw nx i)
  then show ?thesis using fs_inv_image [OF assms(1), of raw] by (auto simp: FilesystemImage_new_def Let_def)
next
  case (deletes i)
  then obtain im where im: "fs_images s i = Some im" by (auto simp: FilesystemImage_delete_def split: option.splits)
  then show ?thesis using FilesystemImage_delete_live [OF assms(1) im] deletes fs_inv_delete [OF assms(1) im] by simp
next
  case starts
  then show ?thesis using Filesystem_Init_inv assms(1) by blast
next
  case opens
  then show ?thesis using Filesystem_Open_inv assms(1) by blast
next
  case uses
  then show ?thesis using fs_inv_use assms(1) by simp
next
  case closes
  then show ?thesis using Filesystem_Close_inv assms(1) by blast
next
  case adds
  then show ?thesis using FilesystemImage_AddFile_inv assms(1) by blast
next
  case packs
  then show ?thesis using FilesystemImage_Write_inv assms(1) by blast
next
  case reads
  then show ?thesis using FilesystemImage_Read_inv assms(1) by blast
next
  case shuts
  then show ?thesis using FilesystemImage_Close_inv assms(1) by blast
qed

interpretation fsm: kept_invariant fs_start "fs_step (Collect not_packed)" fs_inv
proof
  show "fs_inv s" if "fs_start s" for s using that
    by (auto simp: fs_start_def fs_inv_def fs_typed_def no_package_def fs0_def owns_def split: sum.splits)
  show "fs_inv t" if "fs_inv s" "fs_step (Collect not_packed) s t" for s t using that by (rule fs_step_inv)
qed

text \<open>Only the headers that memory holds matter, and of them only those that look like a package's.\<close>

lemma fs_step_not_packed:
  assumes "fs_step raws s t" and "\<not> (\<exists>raw\<in>raws. raw_header raw \<and> looks_packed raw)"
  shows "fs_step (Collect not_packed) s t"
  using assms(1)
proof cases
  case (makes raw nx i)
  then have "raw \<in> Collect not_packed" using assms(2) by (auto simp: not_packed_def)
  then show ?thesis using makes by (blast intro: fs_step.makes)
qed (blast intro: fs_step.intros)+

lemma fs_run_inv:
  assumes "fs_start s0" and "(fs_step raws)\<^sup>*\<^sup>* s0 s" and "\<not> (\<exists>raw\<in>raws. raw_header raw \<and> looks_packed raw)"
  shows "fs_inv s"
proof -
  have "(fs_step (Collect not_packed))\<^sup>*\<^sup>* s0 s"
    using assms(2) by (rule rtranclp_mono [THEN predicate2D, rotated]) (auto intro: fs_step_not_packed [OF _ assms(3)])
  then show ?thesis by (rule fsm.inv_reachable [OF assms(1)])
qed

text \<open>A package whose memory looks like a package's is taken for one, whatever its file holds, which opening it has emptied.\<close>

lemma Read_looks_packed:
  assumes "fs_images s i = Some im" and "fs_streams s (im_stream im) = Some stream0" and "raw_header (im_header im)" and "looks_packed (im_header im)"
    and "imageListHead s = None"
  shows "\<exists>t. FilesystemImage_Read i (Some PACKAGE_EXTENSION) s = Inr (True, t) \<and> imageListHead t = Some i"
proof -
  obtain d st where o: "image_open PACKAGE_EXTENSION (fs_disk s) stream0 = (True, d, st)" "\<not> st_in st"
    by (cases "creatable (fs_disk s) PACKAGE_EXTENSION") (auto simp: image_open_def stream_open_def stream0_def PACKAGE_EXTENSION_def Let_def)
  obtain st1 where r: "stream_read 12 d st = ([], st1)" using o(2) by (cases "st_good st") (simp_all add: stream_read_def)
  obtain es st2 where e: "read_entries (numFiles (im_header im)) 0 0 0 d st1 = (es, st2)" by fastforce
  show ?thesis using assms o r e read_header_nothing [OF assms(3)]
    by (simp add: FilesystemImage_Read_def FilesystemImage_Open_def with_image_def with_stream_def looks_packed_def)
qed

lemma package_appears:
  assumes "fs_start s0" and "raw \<in> raws" and "raw_header raw" and "looks_packed raw"
  shows "\<exists>s. (fs_step raws)\<^sup>*\<^sup>* s0 s \<and> imageListHead s \<noteq> None"
proof -
  obtain i t where new: "FilesystemImage_new raw None s0 = (i, t)" by fastforce
  then have step: "fs_step raws s0 t" using assms(2,3) by (blast intro: fs_step.makes)
  have "imageListHead s0 = None" using assms(1) by (auto simp: fs_start_def fs0_def)
  then obtain im where im: "fs_images t i = Some im" "fs_streams t (im_stream im) = Some stream0" "im_header im = raw" "imageListHead t = None"
    using new by (auto simp: FilesystemImage_new_def Let_def)
  obtain u where u: "FilesystemImage_Read i (Some PACKAGE_EXTENSION) t = Inr (True, u)" "imageListHead u = Some i"
    using Read_looks_packed [OF im(1,2)] im(3,4) assms(3,4) by auto
  have "fs_step raws t u" using u(1) by (rule fs_step.reads)
  then show ?thesis using step u(2) by (intro exI [of _ u]) auto
qed

section \<open>Properties\<close>


text \<open>A file is opened and a package is made, with a header of zeros; then the memory of a package that looks like one.\<close>

definition zero_header :: beer_header where
  "zero_header = \<lparr>magic = 0, version = 0, numFiles = 0\<rparr>"

definition unlucky_header :: beer_header where
  "unlucky_header = \<lparr>magic = PACKAGE_MAGIC, version = PACKAGE_MAGIC, numFiles = 1\<rparr>"


end
