(* ===== verification/Capy_Script.thy ===== *)
theory Capy_Script
  imports Capy_Filesystem
begin

text \<open>
  Opening a script (\<open>core/script/script_core.cpp\<close>). The compiler of the script language is a parameter: what it does next with each character
  it asks for. The start and the shutdown of the machine are with the engine's.
\<close>

section \<open>Reading and compiling\<close>

text \<open>A compiler that has asked for some characters: it is done, it has found an error at a line and a column, or it asks for another one.\<close>

datatype sq_reader = Compiled | CompileError int int | Ask "int \<Rightarrow> sq_reader"

text \<open>\<open>get()\<close> gives -1 when there is nothing.\<close>

definition Script_ReadCharacter :: "disk \<Rightarrow> stream \<Rightarrow> int \<times> stream" where
  "Script_ReadCharacter d st =
     (if st_eof st then (0, st)
      else let (b, st) = stream_get d st in (case b of None \<Rightarrow> - 1 | Some b \<Rightarrow> uint b, st))"

text \<open>The line and the column are numbers, but the message takes them for strings. Only a null pointer is printed; the message is fatal, and
  ends the process.\<close>

definition Script_CompileFatal :: "int \<Rightarrow> int \<Rightarrow> 'a res" where
  "Script_CompileFatal line col = (if line = 0 \<and> col = 0 then Inl Terminated else Inl OutOfBoundsRead)"

primrec sq_compile :: "sq_reader \<Rightarrow> disk \<Rightarrow> stream \<Rightarrow> stream res" where
  "sq_compile Compiled d st = Inr st"
| "sq_compile (CompileError line col) d st = Script_CompileFatal line col"
| "sq_compile (Ask k) d st = (let (c, st') = Script_ReadCharacter d st in sq_compile (k c) d st')"

definition Script_Open :: "char list \<Rightarrow> cvar_sys \<Rightarrow> (string \<Rightarrow> sq_reader) \<Rightarrow> string \<Rightarrow> fs_sys \<Rightarrow> fs_sys res" where
  "Script_Open mem cs compiler filename s =
     bind_res (Filesystem_Open mem cs filename FILE_TEXT s) (\<lambda>(file, s).
       case file of
         None \<Rightarrow> Inr s
       | Some a \<Rightarrow>
           (case fs_files s a of None \<Rightarrow> Inl UseAfterFree
            | Some f \<Rightarrow> with_stream s (ff_stream f) (\<lambda>st.
                bind_res (sq_compile (compiler filename) (fs_disk s) st) (\<lambda>st.
                  Filesystem_Close (Some a) (s\<lparr>fs_streams := (fs_streams s)(ff_stream f \<mapsto> st)\<rparr>)))))"

section \<open>What a compiler is told\<close>

text \<open>The outcome of a compiler that is given a sequence of characters, whatever their origin.\<close>

primrec told :: "sq_reader \<Rightarrow> (nat \<Rightarrow> int) \<Rightarrow> unit res" where
  "told Compiled f = Inr ()"
| "told (CompileError line col) f = Script_CompileFatal line col"
| "told (Ask k) f = told (k (f 0)) (\<lambda>n. f (Suc n))"

lemma Script_CompileFatal_bind [simp]: "bind_res (Script_CompileFatal l c) f = Script_CompileFatal l c"
  by (simp add: Script_CompileFatal_def)

text \<open>At the end of the file there are only zeros; on a stream that could not be opened there is no end.\<close>

lemma compile_at_end:
  assumes "st_eof st"
  shows "sq_compile r d st = bind_res (told r (\<lambda>_. 0)) (\<lambda>_. Inr st)"
  using assms by (induction r) (auto simp: Script_ReadCharacter_def)

lemma compile_empty:
  assumes "file_bytes d (st_path st) = []" and "st_good st" and "st_in st"
  shows "\<exists>st'. sq_compile r d st = bind_res (told r (\<lambda>n. if n = 0 then - 1 else 0)) (\<lambda>_. Inr st')"
proof (cases r)
  case (Ask k)
  let ?st = "st\<lparr>st_eof := True, st_fail := True\<rparr>"
  have "Script_ReadCharacter d st = (- 1, ?st)"
    using assms by (simp add: Script_ReadCharacter_def stream_get_def stream_read_def st_good_def)
  then show ?thesis using compile_at_end [of ?st "k (- 1)" d] Ask by auto
qed auto

lemma compile_unopened:
  assumes "st_fail st" and "\<not> st_eof st"
  shows "sq_compile r d st = bind_res (told r (\<lambda>_. - 1)) (\<lambda>_. Inr st)"
  using assms
proof (induction r)
  case (Ask k)
  have "st\<lparr>st_fail := True\<rparr> = st" using Ask.prems(1) by simp
  then have "Script_ReadCharacter d st = (- 1, st)"
    using Ask.prems by (simp add: Script_ReadCharacter_def stream_get_def stream_read_def st_good_def)
  then show ?case using Ask by simp
qed auto

section \<open>Properties\<close>

text \<open>
  C36. No script is ever run: opening one empties its file, and whatever the file held the compiler is told that it is at its end, and then
  zeros. Where the file cannot be made, it is told the same at each question. If the compiler accepts that, the file object is gone again; if it
  finds an error, the report of the error faults.
\<close>

theorem Script_Open_told:
  assumes "fs_wf s" and "basedir_string mem cs s = Inr base" and "\<not> is_package_path filename"
  defines "p \<equiv> take (MAX_PATH - 1) (base @ filename)"
  shows "Script_Open mem cs compiler filename s =
    (if creatable (fs_disk s) p
     then bind_res (told (compiler filename) (\<lambda>n. if n = 0 then - 1 else 0)) (\<lambda>_. Inr (s\<lparr>fs_disk := store (fs_disk s) p [], fs_fresh := fs_fresh s + 2\<rparr>))
     else bind_res (told (compiler filename) (\<lambda>_. - 1)) (\<lambda>_. Inr (s\<lparr>fs_fresh := fs_fresh s + 2\<rparr>)))"
proof -
  let ?a = "fs_fresh s" and ?ok = "creatable (fs_disk s) p"
  let ?d = "if ?ok then store (fs_disk s) p [] else fs_disk s"
  let ?st = "if ?ok then opened_stream p else stream0\<lparr>st_fail := True\<rparr>"
  let ?s = "s\<lparr>fs_disk := ?d, fs_fresh := ?a + 2, fs_streams := (fs_streams s)(?a \<mapsto> ?st),
    fs_files := (fs_files s)(?a + 1 \<mapsto> \<lparr>ff_stream = ?a, ff_path = p, ff_open = True\<rparr>)\<rparr>"
  have open_it: "Filesystem_Open mem cs filename FILE_TEXT s = Inr (Some (?a + 1), ?s)"
    using Filesystem_Open_file [OF assms(2,3)] by (simp add: Let_def p_def)
  have none: "fs_streams s ?a = None" "fs_files s (?a + 1) = None" using assms(1) by (simp_all add: fs_wf_def)
  have close: "Filesystem_Close (Some (?a + 1)) (?s\<lparr>fs_streams := (fs_streams ?s)(?a \<mapsto> st)\<rparr>) = Inr (s\<lparr>fs_disk := ?d, fs_fresh := ?a + 2\<rparr>)" for st
    using Filesystem_Close_live [of "?s\<lparr>fs_streams := (fs_streams ?s)(?a \<mapsto> st)\<rparr>" "?a + 1"] none by (simp add: fun_upd_idem)
  have open_eq: "Script_Open mem cs compiler filename s =
      bind_res (sq_compile (compiler filename) ?d ?st) (\<lambda>st. Filesystem_Close (Some (?a + 1)) (?s\<lparr>fs_streams := (fs_streams ?s)(?a \<mapsto> st)\<rparr>))"
    unfolding Script_Open_def open_it by (simp add: with_stream_def)
  show ?thesis
  proof (cases ?ok)
    case True
    have "file_bytes ?d (st_path ?st) = []" "st_good ?st" "st_in ?st" using True by (simp_all add: opened_stream_def file_bytes_def store_def st_good_def)
    then obtain st' where "sq_compile (compiler filename) ?d ?st = bind_res (told (compiler filename) (\<lambda>n. if n = 0 then - 1 else 0)) (\<lambda>_. Inr st')"
      using compile_empty by blast
    then show ?thesis unfolding open_eq close using True by (cases "told (compiler filename) (\<lambda>n. if n = 0 then - 1 else 0)") simp_all
  next
    case False
    have "sq_compile (compiler filename) ?d ?st = bind_res (told (compiler filename) (\<lambda>_. - 1)) (\<lambda>_. Inr ?st)"
      by (rule compile_unopened) (use False in \<open>simp_all add: stream0_def\<close>)
    then show ?thesis unfolding open_eq close using False by (cases "told (compiler filename) (\<lambda>_. - 1)") simp_all
  qed
qed

text \<open>A compiler that stops at the end of the file, as the first thing it sees or after an identifier, and fails at anything else.\<close>

definition careful_compiler :: "string \<Rightarrow> sq_reader" where
  "careful_compiler name = Ask (\<lambda>c. if c = - 1 then Ask (\<lambda>c. if c = 0 then Compiled else CompileError 1 2) else CompileError 1 1)"

theorem Script_Open_told_witness:
  "files (fs_disk one_file) ''./a.cfg'' = Some [115, 101, 116] \<and>
    Script_Open [] (one_cvar ''fsBasedir'' ''./'') careful_compiler ''a.cfg'' one_file =
      Inr (one_file\<lparr>fs_disk := store (fs_disk one_file) ''./a.cfg'' [], fs_fresh := 2\<rparr>)"
proof -
  have "fs_wf one_file" by (simp add: one_file_def)
  moreover have "take (MAX_PATH - 1) (''./'' @ ''a.cfg'') = ''./a.cfg''" by (simp add: MAX_PATH_def)
  moreover have "creatable (fs_disk one_file) ''./a.cfg''" "files (fs_disk one_file) ''./a.cfg'' = Some [115, 101, 116]" "fs_fresh one_file = 0"
    by (simp_all add: one_file_def fs0_def)
  ultimately show ?thesis
    using Script_Open_told [OF _ basedir_one_file not_package_a_cfg, of "[]" careful_compiler] by (simp add: careful_compiler_def numeral_2_eq_2)
qed

end
