(* ===== verification/Capy_Codec.thy ===== *)
theory Capy_Codec
  imports Capy_Prelude
begin

text \<open>
  Blocks of bytes on the C++ heap (\<open>new uint8_t[n]\<close>), and the interface of everything that is copied
  into one as raw bytes: a fixed width, an encoding and its reading. A write past the end of a block
  corrupts memory that the model does not have; it goes on as if those bytes went nowhere, and
  counts them.
\<close>

section \<open>Blocks\<close>

record byte_heap =
  blocks :: "nat \<Rightarrow> byte list option"
  bh_fresh :: nat
  bh_junk :: "nat \<Rightarrow> nat \<Rightarrow> byte"      \<comment> \<open>what uninitialised memory happens to hold\<close>
  bh_over :: nat                      \<comment> \<open>bytes written past the end of a block so far\<close>

definition new_block :: "nat \<Rightarrow> byte_heap \<Rightarrow> nat \<times> byte_heap" where
  "new_block n h =
     (bh_fresh h, h\<lparr>blocks := (blocks h)(bh_fresh h \<mapsto> map (bh_junk h (bh_fresh h)) [0..<n]),
                    bh_fresh := Suc (bh_fresh h)\<rparr>)"

definition free_block :: "nat \<Rightarrow> byte_heap \<Rightarrow> byte_heap res" where
  "free_block a h =
     (case blocks h a of None \<Rightarrow> Inl DoubleFree | Some _ \<Rightarrow> Inr (h\<lparr>blocks := (blocks h)(a := None)\<rparr>))"

definition read_block :: "nat \<Rightarrow> nat \<Rightarrow> nat \<Rightarrow> byte_heap \<Rightarrow> byte list res" where
  "read_block a i n h =
     (case blocks h a of
        None \<Rightarrow> Inl UseAfterFree
      | Some b \<Rightarrow> if i + n \<le> length b then Inr (take n (drop i b)) else Inl OutOfBoundsRead)"

definition write_block :: "nat \<Rightarrow> nat \<Rightarrow> byte list \<Rightarrow> byte_heap \<Rightarrow> byte_heap res" where
  "write_block a i bs h =
     (case blocks h a of
        None \<Rightarrow> Inl UseAfterFree
      | Some b \<Rightarrow>
          Inr (h\<lparr>blocks := (blocks h)(a \<mapsto> take (length b) (take i b @ bs @ drop (i + length bs) b)),
                 bh_over := bh_over h + (i + length bs - max i (length b))\<rparr>))"

definition heap_wf :: "byte_heap \<Rightarrow> bool" where
  "heap_wf h = (\<forall>a. bh_fresh h \<le> a \<longrightarrow> blocks h a = None)"

lemma heap_wf_less: "heap_wf h \<Longrightarrow> blocks h a = Some b \<Longrightarrow> a < bh_fresh h"
  by (metis heap_wf_def not_le option.distinct(1))

lemma heap_wf_new: "heap_wf h \<Longrightarrow> heap_wf (snd (new_block n h))"
  by (auto simp: heap_wf_def new_block_def)

lemma heap_wf_free: "heap_wf h \<Longrightarrow> free_block a h = Inr h' \<Longrightarrow> heap_wf h'"
  by (auto simp: heap_wf_def free_block_def split: option.splits)

lemma heap_wf_write: "heap_wf h \<Longrightarrow> write_block a i bs h = Inr h' \<Longrightarrow> heap_wf h'"
  by (fastforce simp: heap_wf_def write_block_def split: option.splits)

section \<open>Encodings of a fixed width\<close>

locale byte_codec =
  fixes enc :: "'a \<Rightarrow> byte list" and dec :: "byte list \<Rightarrow> 'a" and width :: nat
  assumes length_enc [simp]: "length (enc x) = width"
    and dec_enc [simp]: "dec (enc x) = x"
begin

lemma enc_inj: "enc x = enc y \<longleftrightarrow> x = y"
  by (metis dec_enc)

lemma dec_prefix: "dec (take width (enc x @ rest)) = x"
  by simp

lemma drop_enc: "drop width (enc x @ rest) = rest"
  by simp

text \<open>A value written inside a block is read back.\<close>

lemma read_after_write:
  assumes "blocks h a = Some b" and "i + width \<le> length b" and "write_block a i (enc x) h = Inr h'"
  shows "map_res dec (read_block a i width h') = Inr x"
proof -
  have h': "blocks h' a = Some (take i b @ enc x @ drop (i + width) b)"
    using assms by (auto simp: write_block_def)
  then show ?thesis
    using assms(2) by (simp add: read_block_def)
qed

lemma write_inside:
  assumes "blocks h a = Some b" and "i + width \<le> length b" and "write_block a i (enc x) h = Inr h'"
  shows "bh_over h' = bh_over h" and "\<And>j n. j + n \<le> i \<Longrightarrow> read_block a j n h' = read_block a j n h"
proof -
  have h': "h' = h\<lparr>blocks := (blocks h)(a \<mapsto> take i b @ enc x @ drop (i + width) b)\<rparr>"
    using assms by (simp add: write_block_def max_def)
  show "bh_over h' = bh_over h" by (simp add: h')
  fix j n assume "j + n \<le> i"
  then have "take n (drop j (take i b @ enc x @ drop (i + width) b)) = take n (drop j b)"
    using assms(2) by (simp add: drop_take)
  with \<open>j + n \<le> i\<close> assms(1,2) show "read_block a j n h' = read_block a j n h"
    by (simp add: read_block_def h')
qed

end

text \<open>Two encodings one after the other.\<close>

locale codec_pair =
  l: byte_codec enc1 dec1 width1 + r: byte_codec enc2 dec2 width2
  for enc1 :: "'a \<Rightarrow> byte list" and dec1 width1 and enc2 :: "'b \<Rightarrow> byte list" and dec2 width2
sublocale codec_pair \<subseteq> pair: byte_codec "\<lambda>p. enc1 (fst p) @ enc2 (snd p)"
    "\<lambda>bs. (dec1 (take width1 bs), dec2 (drop width1 bs))" "width1 + width2"
  by unfold_locales simp_all

section \<open>The encodings the source uses\<close>

definition u8_enc :: "byte \<Rightarrow> byte list" where "u8_enc b = [b]"
definition u8_dec :: "byte list \<Rightarrow> byte" where "u8_dec bs = hd bs"

definition u32_enc :: "u32 \<Rightarrow> byte list" where "u32_enc w = le_enc 4 (unat w)"
definition u32_dec :: "byte list \<Rightarrow> u32" where "u32_dec bs = of_nat (le_dec bs)"

definition u64_enc :: "u64 \<Rightarrow> byte list" where "u64_enc w = le_enc 8 (unat w)"
definition u64_dec :: "byte list \<Rightarrow> u64" where "u64_dec bs = of_nat (le_dec bs)"

lemma u32_dec_enc: "u32_dec (u32_enc w) = w"
proof -
  have "unat w < 256 ^ 4" using unsigned_less [of w, where ?'a = nat] by simp
  then show ?thesis by (simp add: u32_dec_def u32_enc_def le_dec_enc)
qed

lemma u64_dec_enc: "u64_dec (u64_enc w) = w"
proof -
  have "unat w < 256 ^ 8" using unsigned_less [of w, where ?'a = nat] by simp
  then show ?thesis by (simp add: u64_dec_def u64_enc_def le_dec_enc)
qed

interpretation u8: byte_codec u8_enc u8_dec 1
  by unfold_locales (simp_all add: u8_enc_def u8_dec_def)

interpretation u32: byte_codec u32_enc u32_dec 4
  by unfold_locales (simp_all add: u32_dec_enc, simp add: u32_enc_def)

interpretation u64: byte_codec u64_enc u64_dec 8
  by unfold_locales (simp_all add: u64_dec_enc, simp add: u64_enc_def)

text \<open>\<open>Vector2<int32_t>\<close>, a pair of 32-bit integers kept as words.\<close>

interpretation vec: codec_pair u32_enc u32_dec 4 u32_enc u32_dec 4 ..

definition vec_enc :: "u32 \<times> u32 \<Rightarrow> byte list" where
  "vec_enc v = u32_enc (fst v) @ u32_enc (snd v)"

definition vec_dec :: "byte list \<Rightarrow> u32 \<times> u32" where
  "vec_dec bs = (u32_dec (take 4 bs), u32_dec (drop 4 bs))"

lemma length_vec_enc [simp]: "length (vec_enc v) = 8"
  using vec.pair.length_enc [of v] by (simp add: vec_enc_def)

lemma vec_dec_enc [simp]: "vec_dec (vec_enc v) = v"
  using vec.pair.dec_enc [of v] by (simp add: vec_enc_def vec_dec_def)

end
