(* ===== verification/Capy_Entity.thy ===== *)
theory Capy_Entity
  imports Capy_List
begin

text \<open>
  \<open>core/engine_scriptableobject.hpp\<close>, \<open>component/component.hpp\<close>, \<open>entity/\<close>: named objects, entities with their components, and the table
  of the classes that can be created over the network. Its keys are pointers to class names, which the table compares as pointers; a
  pointer is a number here. The handlers of the entity classes are empty, and the two member templates of \<open>Entity\<close> are nowhere used.
\<close>

section \<open>Named objects\<close>

definition OBJECT_MAX_NAME_LENGTH :: nat where "OBJECT_MAX_NAME_LENGTH = 64"

record scriptable =
  so_name :: "char list"

text \<open>The parameter is not used: the name is copied to itself. (That the two overlap is undefined behaviour in the standard; a
  front-to-back copy is modelled.)\<close>

definition SetName :: "string \<Rightarrow> scriptable \<Rightarrow> scriptable" where
  "SetName buf so = so\<lparr>so_name := strncpy (so_name so) (c_str (so_name so)) OBJECT_MAX_NAME_LENGTH\<rparr>"

definition CapyScriptableObject :: "char list \<Rightarrow> scriptable" where
  "CapyScriptableObject junk = SetName ''Generic Scriptable'' \<lparr>so_name = junk\<rparr>"

section \<open>Entities\<close>

text \<open>Where a name is: in the component at an address, or somewhere else.\<close>

datatype name_ptr = NameOf nat | Elsewhere nat

record entity =
  ent_object :: scriptable
  components :: "nat list"

definition Entity_new :: "char list \<Rightarrow> entity" where
  "Entity_new junk = \<lparr>ent_object = CapyScriptableObject junk, components = []\<rparr>"

definition GetName :: "nat \<Rightarrow> scriptable heap \<Rightarrow> name_ptr res" where
  "GetName c h = (case h c of None \<Rightarrow> Inl UseAfterFree | Some _ \<Rightarrow> Inr (NameOf c))"

fun component_named :: "nat list \<Rightarrow> name_ptr \<Rightarrow> scriptable heap \<Rightarrow> nat option res" where
  "component_named [] p h = Inr None"
| "component_named (c # cs) p h =
     bind_res (GetName c h) (\<lambda>q. if q = p then Inr (Some c) else component_named cs p h)"

definition GetComponentByName :: "name_ptr \<Rightarrow> entity \<Rightarrow> scriptable heap \<Rightarrow> nat option res" where
  "GetComponentByName p e = component_named (components e) p"

text \<open>The components are deleted; their addresses stay.\<close>

definition delete_component :: "nat \<Rightarrow> scriptable heap \<Rightarrow> scriptable heap res" where
  "delete_component c h = (if h c = None then Inl UseAfterFree else Inr (h(c := None)))"

definition Entity_Destroy :: "entity \<Rightarrow> scriptable heap \<Rightarrow> scriptable heap res" where
  "Entity_Destroy e = fold_res delete_component (components e)"

section \<open>Network identities\<close>

datatype entity_class = PlayerEntity

type_synonym net_identities = "nat \<Rightarrow> entity_class option option"

text \<open>The address of \<open>PlayerEntity::classname\<close>.\<close>

definition PlayerEntity_classname :: nat where "PlayerEntity_classname = 0"

definition NetIdentity_SpawnPlayer :: entity_class where "NetIdentity_SpawnPlayer = PlayerEntity"

definition netIdentities0 :: net_identities where
  "netIdentities0 = [PlayerEntity_classname \<mapsto> Some NetIdentity_SpawnPlayer]"

text \<open>The lookup enters a name that is not in the table, with no function.\<close>

definition HasNetIdentity :: "nat option \<Rightarrow> net_identities \<Rightarrow> bool \<times> net_identities" where
  "HasNetIdentity classname ids =
     (case classname of None \<Rightarrow> (False, ids)
      | Some p \<Rightarrow>
          let ids = (if ids p = None then ids(p \<mapsto> None) else ids)
          in (ids p \<noteq> Some None, ids))"

section \<open>Lemmas\<close>

text \<open>A name is what the memory happened to hold, whatever name was asked for.\<close>

lemma c_str_SetName: "length (so_name so) = OBJECT_MAX_NAME_LENGTH \<Longrightarrow> c_str (so_name (SetName buf so)) = c_str (so_name so)"
proof -
  assume len: "length (so_name so) = OBJECT_MAX_NAME_LENGTH"
  let ?s = "c_str (so_name so)"
  have s: "is_c_string ?s" "length ?s \<le> OBJECT_MAX_NAME_LENGTH"
    using len length_takeWhile_le [of "\<lambda>c. c \<noteq> NUL" "so_name so"]
    by (auto simp: c_str_def is_c_string_def list_all_iff dest: set_takeWhileD)
  then have "c_str (?s @ replicate (OBJECT_MAX_NAME_LENGTH - length ?s) NUL) = ?s"
    by (auto simp: c_str_def is_c_string_def list_all_iff takeWhile_append2)
  then show ?thesis using len s by (simp add: SetName_def strncpy_short)
qed

lemma delete_components:
  "distinct cs \<Longrightarrow> \<forall>c\<in>set cs. h c \<noteq> None \<Longrightarrow> fold_res delete_component cs h = Inr (h |` (- set cs))"
proof (induction cs arbitrary: h)
  case Nil
  then show ?case by simp
next
  case (Cons c cs)
  have "\<forall>x\<in>set cs. (h(c := None)) x \<noteq> None" using Cons.prems by auto
  then have "fold_res delete_component cs (h(c := None)) = Inr (h(c := None) |` (- set cs))"
    using Cons.prems(1) by (intro Cons.IH) simp_all
  moreover have "h(c := None) |` (- set cs) = h |` (- set (c # cs))" by (auto simp: restrict_map_def fun_eq_iff)
  moreover have "fold_res delete_component (c # cs) h = fold_res delete_component cs (h(c := None))"
    using Cons.prems by (auto simp: delete_component_def)
  ultimately show ?case by (simp only:)
qed

text \<open>The table after any number of questions: only the player's own pointer has a function.\<close>

lemma identity_fold:
  "foldl (\<lambda>ids q. snd (HasNetIdentity q ids)) netIdentities0 qs =
   (\<lambda>p. if p = PlayerEntity_classname then Some (Some PlayerEntity) else if Some p \<in> set qs then Some None else None)"
proof (induction qs rule: rev_induct)
  case Nil
  then show ?case by (auto simp: netIdentities0_def NetIdentity_SpawnPlayer_def)
next
  case (snoc q qs)
  then show ?case by (auto simp: HasNetIdentity_def Let_def fun_eq_iff split: option.splits)
qed

text \<open>
  Destroying an entity deletes exactly its components; destroying it again touches the first of them after it was freed, because the
  list keeps their addresses.
\<close>

theorem Entity_Destroy_once:
  assumes "components e = c # cs" and "distinct (c # cs)" and "\<forall>x\<in>set (c # cs). h x \<noteq> None"
  shows "\<exists>h'. Entity_Destroy e h = Inr h' \<and> dom h' = dom h - set (c # cs) \<and> (\<forall>x\<in>dom h'. h' x = h x) \<and>
    Entity_Destroy e h' = Inl UseAfterFree"
proof -
  let ?h = "h |` (- set (c # cs))"
  have "Entity_Destroy e h = Inr ?h" using delete_components [OF assms(2,3)] assms(1) by (simp add: Entity_Destroy_def)
  moreover have "Entity_Destroy e ?h = Inl UseAfterFree" using assms(1) by (simp add: Entity_Destroy_def delete_component_def)
  moreover have "dom ?h = dom h - set (c # cs)" by auto
  moreover have "\<forall>x\<in>dom ?h. ?h x = h x" by auto
  ultimately show ?thesis by blast
qed

theorem Entity_Destroy_once_witness:
  "\<exists>h'. Entity_Destroy \<lparr>ent_object = CapyScriptableObject [], components = [3, 5]\<rparr> (\<lambda>_. Some (CapyScriptableObject [])) = Inr h' \<and>
    dom h' = UNIV - {3, 5} \<and> Entity_Destroy \<lparr>ent_object = CapyScriptableObject [], components = [3, 5]\<rparr> h' = Inl UseAfterFree"
  using Entity_Destroy_once [of "\<lparr>ent_object = CapyScriptableObject [], components = [3, 5]\<rparr>" 3 "[5]" "\<lambda>_. Some (CapyScriptableObject [])"]
  by (auto simp: dom_def)

end
