(* ===== verification/Capy_NetMsg.thy ===== *)
theory Capy_NetMsg
  imports Capy_Codec Capy_Entity
begin

text \<open>
  Network messages (\<open>net/net.hpp\<close>, \<open>net/net_message.cpp\<close>) and the functions that build them
  (\<open>net/net_packetfactory.cpp\<close>). A message has a header, a block with its data and a position for
  reading and for writing. Its size is kept modulo \<open>2 ^ 32\<close>.
\<close>

section \<open>Data\<close>

definition NETMSG_MAGIC :: u32 where "NETMSG_MAGIC = 0x00FF55AA"
definition MAX_PACKET_SIZE :: nat where "MAX_PACKET_SIZE = 1400"
definition NET_PROTOCOL_VERSION :: byte where "NET_PROTOCOL_VERSION = 5"
definition HEADER_SIZE :: nat where "HEADER_SIZE = 24"
definition NETMSG_SIZEOF :: nat where "NETMSG_SIZEOF = 64"

text \<open>\<open>NetMsgType\<close>, \<open>NetMsgRpcType\<close> and \<open>NetHelloStatus\<close>\<close>

definition NETMSG_HELLO :: byte where "NETMSG_HELLO = 0x0"
definition NETMSG_WORLD_DOWNLOAD_START :: byte where "NETMSG_WORLD_DOWNLOAD_START = 0x2"
definition NETMSG_WORLD_DOWNLOAD_PACKET :: byte where "NETMSG_WORLD_DOWNLOAD_PACKET = 0x3"
definition NETMSG_DISCONNECT :: byte where "NETMSG_DISCONNECT = 0x6"
definition NETMSG_CLIENT_RPC :: byte where "NETMSG_CLIENT_RPC = 0x7"
definition NETMSG_SERVER_HELLO :: byte where "NETMSG_SERVER_HELLO = 0x80"
definition NETMSG_SERVER_HEARTBEAT :: byte where "NETMSG_SERVER_HEARTBEAT = 0x81"
definition NETMSG_SERVER_RPC :: byte where "NETMSG_SERVER_RPC = 0x82"
definition NETMSG_SERVER_SHUTDOWN :: byte where "NETMSG_SERVER_SHUTDOWN = 0x83"
definition NETMSG_LAST_VALID :: byte where "NETMSG_LAST_VALID = NETMSG_SERVER_SHUTDOWN"

definition NETMSG_RPC_REQUEST_ENTITY_CREATE :: byte where "NETMSG_RPC_REQUEST_ENTITY_CREATE = 0x0"
definition NETMSG_RPC_REQUEST_CLIENT_CREATE :: byte where "NETMSG_RPC_REQUEST_CLIENT_CREATE = 0x80"
definition NETMSG_RPC_REQUEST_CLIENT_UPDATE :: byte where "NETMSG_RPC_REQUEST_CLIENT_UPDATE = 0x81"
definition NETMSG_RPC_REQUEST_CLIENT_DELETE :: byte where "NETMSG_RPC_REQUEST_CLIENT_DELETE = 0x82"

record net_header =
  h_magic :: u32
  h_seq :: u64
  h_size :: nat
  h_type :: byte
  h_pad :: "byte list"      \<comment> \<open>the seven bytes of padding\<close>

record net_msg =
  nm_header :: net_header
  nm_port :: u16
  nm_data :: "nat option"   \<comment> \<open>the block; \<open>None\<close> for a null or never-set pointer\<close>
  nm_valid :: bool
  nm_read :: nat
  nm_write :: nat
  nm_addr :: nat

section \<open>The header as bytes\<close>

definition net_header_enc :: "net_header \<Rightarrow> byte list" where
  "net_header_enc h = le_enc 4 (unat (h_magic h)) @ take 4 (h_pad h) @ le_enc 8 (unat (h_seq h)) @
     le_enc 4 (h_size h) @ [h_type h] @ drop 4 (h_pad h)"

definition net_header_dec :: "byte list \<Rightarrow> net_header" where
  "net_header_dec bs =
     \<lparr>h_magic = of_nat (le_dec (take 4 bs)), h_seq = of_nat (le_dec (take 8 (drop 8 bs))),
      h_size = le_dec (take 4 (drop 16 bs)), h_type = bs ! 20,
      h_pad = take 4 (drop 4 bs) @ take 3 (drop 21 bs)\<rparr>"

section \<open>Operations\<close>

text \<open>The constructor with a type and a size (its \<open>data\<close> argument is null in every call). It sets
  neither the sequence number nor, without data, the data pointer, and for a size above the
  maximum nothing at all.\<close>

definition NetMsg_new :: "byte \<Rightarrow> nat \<Rightarrow> byte_heap \<Rightarrow> (net_msg \<times> byte_heap) res" where
  "NetMsg_new ty sz h =
     (if MAX_PACKET_SIZE < sz then Inl Uninitialised
      else let junk = map (bh_junk h (bh_fresh h)) [0..<15];
               hdr = \<lparr>h_magic = NETMSG_MAGIC, h_seq = of_nat (le_dec (drop 7 junk)), h_size = sz, h_type = ty,
                      h_pad = take 7 junk\<rparr>;
               msg = \<lparr>nm_header = hdr, nm_port = 0, nm_data = None, nm_valid = True, nm_read = 0, nm_write = 0, nm_addr = 0\<rparr>
           in if 0 < sz then let (a, h) = new_block sz h in Inr (msg\<lparr>nm_data := Some a\<rparr>, h)
              else Inr (msg, h))"

definition EnsureCapacityRead :: "net_msg \<Rightarrow> nat \<Rightarrow> bool" where
  "EnsureCapacityRead m sz = (nm_read m + sz \<le> MAX_PACKET_SIZE)"

text \<open>\<open>Read<T>\<close> for a type of \<open>n\<close> bytes: the bytes are read before the position is checked.\<close>

definition NetMsg_Read :: "nat \<Rightarrow> net_msg \<Rightarrow> byte_heap \<Rightarrow> (byte list \<times> net_msg) res" where
  "NetMsg_Read n m h =
     (case nm_data m of
        None \<Rightarrow> Inl NullDeref
      | Some a \<Rightarrow> map_res (\<lambda>bs. (bs, if EnsureCapacityRead m n then m\<lparr>nm_read := nm_read m + n\<rparr> else m))
                    (read_block a (nm_read m) n h))"

text \<open>\<open>Read<char*>\<close>: a pointer into the block, and the string there now. Without a terminator
  \<open>strlen\<close> runs off the block.\<close>

definition NetMsg_Read_string :: "net_msg \<Rightarrow> byte_heap \<Rightarrow> ((nat \<times> nat) \<times> string \<times> net_msg) res" where
  "NetMsg_Read_string m h =
     (case nm_data m of
        None \<Rightarrow> Inl NullDeref
      | Some a \<Rightarrow>
          (case blocks h a of
             None \<Rightarrow> Inl UseAfterFree
           | Some b \<Rightarrow>
               let bs = takeWhile (\<lambda>x. x \<noteq> 0) (drop (nm_read m) b)
               in if length b \<le> nm_read m + length bs then Inl OutOfBoundsRead
                  else Inr ((a, nm_read m), map char_of_byte bs,
                    if EnsureCapacityRead m (length bs + 1)
                    then m\<lparr>nm_read := nm_read m + length bs + 1\<rparr> else m)))"

definition set_size :: "nat \<Rightarrow> net_msg \<Rightarrow> net_msg" where
  "set_size n m = m\<lparr>nm_header := (nm_header m)\<lparr>h_size := n mod 2 ^ 32\<rparr>\<rparr>"

abbreviation nm_size :: "net_msg \<Rightarrow> nat" where "nm_size m \<equiv> h_size (nm_header m)"

text \<open>\<open>EnsureCapacityWrite\<close>: grows the block by the size to be written. When the new size is too
  large it has already been stored in the header.\<close>

definition EnsureCapacityWrite :: "nat \<Rightarrow> net_msg \<Rightarrow> byte_heap \<Rightarrow> (bool \<times> net_msg \<times> byte_heap) res" where
  "EnsureCapacityWrite sz m h =
     (if nm_size m < nm_write m + sz then
        let old = nm_size m; m = set_size (old + sz) m
        in if MAX_PACKET_SIZE \<le> nm_size m then Inr (False, m, h)
           else case nm_data m of
             None \<Rightarrow> Inl Uninitialised
           | Some a \<Rightarrow>
               let (a', h) = new_block (nm_size m) h
               in bind_res (read_block a 0 old h) (\<lambda>bs.
                  bind_res (write_block a' 0 bs h) (\<lambda>h.
                  bind_res (free_block a h) (\<lambda>h.
                    Inr (nm_write m + sz < MAX_PACKET_SIZE, m\<lparr>nm_data := Some a'\<rparr>, h))))
      else Inr (nm_write m + sz < MAX_PACKET_SIZE, m, h))"

text \<open>\<open>Write<T>\<close> of a value's bytes.\<close>

definition NetMsg_Write :: "byte list \<Rightarrow> net_msg \<times> byte_heap \<Rightarrow> (net_msg \<times> byte_heap) res" where
  "NetMsg_Write bs = (\<lambda>(m, h).
     bind_res (EnsureCapacityWrite (length bs) m h) (\<lambda>(ok, m, h).
       if \<not> ok then Inr (m, h)
       else case nm_data m of
         None \<Rightarrow> Inl Uninitialised
       | Some a \<Rightarrow> map_res (\<lambda>h. (m\<lparr>nm_write := nm_write m + length bs\<rparr>, h)) (write_block a (nm_write m) bs h)))"

text \<open>\<open>Write<char*>\<close>: \<open>strncpy\<close> with the size of the whole message, whatever the position.\<close>

definition NetMsg_Write_string :: "string option \<Rightarrow> net_msg \<times> byte_heap \<Rightarrow> (net_msg \<times> byte_heap) res" where
  "NetMsg_Write_string s = (\<lambda>(m, h).
     case s of None \<Rightarrow> Inr (m, h)
     | Some s \<Rightarrow>
     bind_res (EnsureCapacityWrite (length s + 1) m h) (\<lambda>(ok, m, h).
       if \<not> ok then Inr (m, h)
       else case nm_data m of
         None \<Rightarrow> Inl Uninitialised
       | Some a \<Rightarrow>
           map_res (\<lambda>h. (m\<lparr>nm_write := nm_write m + length s + 1\<rparr>, h))
             (write_block a (nm_write m) (map byte_of_char (strncpy [] s (nm_size m))) h)))"

text \<open>\<open>DoneMessage\<close>\<close>

definition DoneMessage :: "net_msg \<Rightarrow> byte_heap \<Rightarrow> byte_heap res" where
  "DoneMessage m h =
     (if nm_size m = 0 then Inr h
      else case nm_data m of None \<Rightarrow> Inl Terminated | Some a \<Rightarrow> free_block a h)"

section \<open>The packet factory\<close>

definition WORLD_NAME_LENGTH :: nat where "WORLD_NAME_LENGTH = 48"

definition NetFactory_CreateClientHelloPacket :: "string option \<Rightarrow> byte_heap \<Rightarrow> (net_msg \<times> byte_heap) res" where
  "NetFactory_CreateClientHelloPacket username h =
     bind_res (NetMsg_new NETMSG_HELLO 1 h) (\<lambda>mh.
     bind_res (NetMsg_Write (u8_enc NET_PROTOCOL_VERSION) mh) (NetMsg_Write_string username))"

definition NetFactory_CreateServerHelloPacket :: "byte_heap \<Rightarrow> (net_msg \<times> byte_heap) res" where
  "NetFactory_CreateServerHelloPacket h = NetMsg_new NETMSG_SERVER_HELLO 1 h"

definition NetFactory_CreateDisconnectPacket :: "byte_heap \<Rightarrow> (net_msg \<times> byte_heap) res" where
  "NetFactory_CreateDisconnectPacket h = NetMsg_new NETMSG_DISCONNECT 0 h"

definition NetFactory_CreateDownloadStartPacket_Client :: "byte_heap \<Rightarrow> (net_msg \<times> byte_heap) res" where
  "NetFactory_CreateDownloadStartPacket_Client h = NetMsg_new NETMSG_WORLD_DOWNLOAD_START 0 h"

definition NetFactory_CreateDownloadStartPacket_Server ::
    "string option \<Rightarrow> u32 \<times> u32 \<Rightarrow> u32 \<Rightarrow> byte_heap \<Rightarrow> (net_msg \<times> byte_heap) res" where
  "NetFactory_CreateDownloadStartPacket_Server mapName sz expectedBytes h =
     bind_res (NetMsg_new NETMSG_WORLD_DOWNLOAD_START (WORLD_NAME_LENGTH + 8 + 4) h) (\<lambda>mh.
     bind_res (NetMsg_Write_string mapName mh) (\<lambda>mh.
     bind_res (NetMsg_Write (vec_enc sz) mh) (NetMsg_Write (u32_enc expectedBytes))))"

definition NetFactory_CreateDownloadPacket :: "nat \<Rightarrow> byte_heap \<Rightarrow> (net_msg \<times> byte_heap) res" where
  "NetFactory_CreateDownloadPacket sz h = NetMsg_new NETMSG_WORLD_DOWNLOAD_PACKET sz h"

definition NetFactory_CreateShutdownPacket :: "byte_heap \<Rightarrow> (net_msg \<times> byte_heap) res" where
  "NetFactory_CreateShutdownPacket h = NetMsg_new NETMSG_SERVER_SHUTDOWN 0 h"

text \<open>The class is given by the pointer to its name; the table it is looked up in comes back.\<close>

definition NetFactory_CreateRpcCreatePacket_Client ::
    "(nat \<Rightarrow> string) \<Rightarrow> nat \<Rightarrow> net_identities \<Rightarrow> byte_heap \<Rightarrow> ((net_msg \<times> byte_heap) \<times> net_identities) res" where
  "NetFactory_CreateRpcCreatePacket_Client text_at classname ids h =
     bind_res (NetMsg_new NETMSG_CLIENT_RPC (1 + length (text_at classname)) h) (\<lambda>mh.
       let (known, ids) = HasNetIdentity (Some classname) ids
       in if \<not> known then Inr (mh, ids)
          else map_res (\<lambda>mh. (mh, ids))
                 (bind_res (NetMsg_Write (u8_enc NETMSG_RPC_REQUEST_ENTITY_CREATE) mh) (NetMsg_Write_string (Some (text_at classname)))))"

definition NetFactory_CreateRpcEntityCreate :: "u32 \<Rightarrow> byte_heap \<Rightarrow> (net_msg \<times> byte_heap) res" where
  "NetFactory_CreateRpcEntityCreate edictId h =
     bind_res (NetMsg_new NETMSG_SERVER_RPC (1 + 4) h) (\<lambda>mh.
     bind_res (NetMsg_Write (u8_enc NETMSG_RPC_REQUEST_ENTITY_CREATE) mh) (NetMsg_Write (u32_enc edictId)))"

definition NetFactory_CreateRpcClientCreate :: "string \<Rightarrow> byte_heap \<Rightarrow> (net_msg \<times> byte_heap) res" where
  "NetFactory_CreateRpcClientCreate username h =
     bind_res (NetMsg_new NETMSG_SERVER_RPC (1 + length username) h) (\<lambda>mh.
     bind_res (NetMsg_Write (u8_enc NETMSG_RPC_REQUEST_CLIENT_CREATE) mh) (NetMsg_Write_string (Some username)))"

definition NetFactory_CreateRpcClientDelete :: "string \<Rightarrow> byte_heap \<Rightarrow> (net_msg \<times> byte_heap) res" where
  "NetFactory_CreateRpcClientDelete username h =
     bind_res (NetMsg_new NETMSG_SERVER_RPC (1 + length username) h) (\<lambda>mh.
     bind_res (NetMsg_Write (u8_enc NETMSG_RPC_REQUEST_CLIENT_DELETE) mh) (NetMsg_Write_string (Some username)))"


section \<open>The header round trip\<close>

lemma length_net_header_enc: "length (h_pad h) = 7 \<Longrightarrow> length (net_header_enc h) = HEADER_SIZE"
  by (simp add: net_header_enc_def HEADER_SIZE_def)

lemma take_append_eq: "length xs = n \<Longrightarrow> take n (xs @ ys) = xs"
  by simp

lemma drop_append_eq: "length xs = n \<Longrightarrow> drop n (xs @ ys) = ys"
  by simp

lemma net_header_dec_enc:
  assumes "length (h_pad h) = 7" and "h_size h < 2 ^ 32"
  shows "net_header_dec (net_header_enc h @ rest) = h"
proof -
  define A where "A = le_enc 4 (unat (h_magic h))"
  define B where "B = take 4 (h_pad h)"
  define C where "C = le_enc 8 (unat (h_seq h))"
  define D where "D = le_enc 4 (h_size h)"
  define E where "E = drop 4 (h_pad h)"
  have len: "length A = 4" "length B = 4" "length C = 8" "length D = 4" "length E = 3"
    using assms(1) by (simp_all add: A_def B_def C_def D_def E_def)
  have e: "net_header_enc h @ rest = A @ B @ C @ D @ [h_type h] @ E @ rest"
    by (simp add: net_header_enc_def A_def B_def C_def D_def E_def)
  have a: "take 4 (A @ B @ C @ D @ [h_type h] @ E @ rest) = A" using len by simp
  have b: "take 4 (drop 4 (A @ B @ C @ D @ [h_type h] @ E @ rest)) = B" using len by simp
  have c: "take 8 (drop 8 (A @ B @ C @ D @ [h_type h] @ E @ rest)) = C" using len by simp
  have d: "take 4 (drop 16 (A @ B @ C @ D @ [h_type h] @ E @ rest)) = D" using len by simp
  have t: "(A @ B @ C @ D @ [h_type h] @ E @ rest) ! 20 = h_type h" using len by (simp add: nth_append)
  have f: "take 3 (drop 21 (A @ B @ C @ D @ [h_type h] @ E @ rest)) = E" using len by simp
  have magic: "of_nat (le_dec A) = h_magic h"
    using u32_dec_enc [of "h_magic h"] by (simp add: A_def u32_dec_def u32_enc_def)
  have seq: "of_nat (le_dec C) = h_seq h"
    using u64_dec_enc [of "h_seq h"] by (simp add: C_def u64_dec_def u64_enc_def)
  have sz: "le_dec D = h_size h"
    using assms(2) by (simp add: D_def le_dec_enc_id)
  have pad: "B @ E = h_pad h" by (simp add: B_def E_def)
  show ?thesis unfolding e net_header_dec_def a b c d t f magic seq sz pad by simp
qed

section \<open>What writing means\<close>

definition block_of :: "net_msg \<Rightarrow> byte_heap \<Rightarrow> byte list" where
  "block_of m h = the (blocks h (the (nm_data m)))"

definition msg_ok :: "net_msg \<Rightarrow> byte_heap \<Rightarrow> bool" where
  "msg_ok m h = (heap_wf h \<and> (\<exists>a b. nm_data m = Some a \<and> blocks h a = Some b \<and> length b = nm_size m) \<and>
     nm_write m \<le> nm_size m \<and> nm_size m \<le> MAX_PACKET_SIZE \<and> length (h_pad (nm_header m)) = 7)"

definition written :: "net_msg \<Rightarrow> byte_heap \<Rightarrow> byte list" where
  "written m h = take (nm_write m) (block_of m h)"

definition grown :: "net_msg \<Rightarrow> nat \<Rightarrow> nat" where
  "grown m n = (if nm_size m < nm_write m + n then nm_size m + n else nm_size m)"

definition room :: "net_msg \<Rightarrow> nat \<Rightarrow> bool" where
  "room m n = (nm_write m + n < MAX_PACKET_SIZE \<and> (nm_size m < nm_write m + n \<longrightarrow> nm_size m + n < MAX_PACKET_SIZE))"

definition z_bytes :: "string \<Rightarrow> byte list" where
  "z_bytes s = map byte_of_char s @ [0]"

lemma EnsureCapacityWrite_room:
  assumes "msg_ok m h" and "room m n"
  shows "\<exists>a h'. let m' = m\<lparr>nm_header := (nm_header m)\<lparr>h_size := grown m n\<rparr>, nm_data := Some a\<rparr> in
    EnsureCapacityWrite n m h = Inr (True, m', h') \<and> msg_ok m' h' \<and> nm_write m' + n \<le> nm_size m' \<and>
    written m' h' = written m h \<and> bh_over h' = bh_over h"
proof -
  obtain a b where ab: "nm_data m = Some a" "blocks h a = Some b" "length b = nm_size m"
    and wf: "heap_wf h" and le: "nm_write m \<le> nm_size m" "nm_size m \<le> MAX_PACKET_SIZE"
    and pad: "length (h_pad (nm_header m)) = 7"
    using assms(1) by (auto simp: msg_ok_def)
  show ?thesis
  proof (cases "nm_size m < nm_write m + n")
    case False
    have "m\<lparr>nm_header := (nm_header m)\<lparr>h_size := grown m n\<rparr>, nm_data := Some a\<rparr> = m"
      using False ab(1) by (simp add: grown_def)
    then show ?thesis
      using False assms by (intro exI [of _ a] exI [of _ h]) (simp add: EnsureCapacityWrite_def room_def Let_def)
  next
    case True
    let ?s = "nm_size m + n"
    have small: "?s < MAX_PACKET_SIZE" "?s mod 2 ^ 32 = ?s"
      using True assms(2) by (simp_all add: room_def MAX_PACKET_SIZE_def)
    let ?a = "bh_fresh h"
    have a: "a < ?a" by (rule heap_wf_less [OF wf ab(2)])
    let ?junk = "map (bh_junk h ?a) [0..<?s]"
    let ?b = "b @ drop (length b) ?junk"
    let ?h1 = "h\<lparr>blocks := (blocks h)(?a \<mapsto> ?junk), bh_fresh := Suc ?a\<rparr>"
    let ?h2 = "?h1\<lparr>blocks := (blocks ?h1)(?a \<mapsto> ?b)\<rparr>"
    let ?h3 = "?h2\<lparr>blocks := (blocks ?h2)(a := None)\<rparr>"
    have read: "read_block a 0 (nm_size m) ?h1 = Inr b"
      using ab a by (simp add: read_block_def)
    have wrote: "write_block ?a 0 b ?h1 = Inr ?h2"
      using ab(3) by (simp add: write_block_def)
    have freed: "free_block a ?h2 = Inr ?h3"
      using ab a by (simp add: free_block_def)
    let ?m = "m\<lparr>nm_header := (nm_header m)\<lparr>h_size := ?s\<rparr>, nm_data := Some ?a\<rparr>"
    have "EnsureCapacityWrite n m h = Inr (True, ?m, ?h3)"
      using True small ab(1) read wrote freed assms(2)
      by (simp add: EnsureCapacityWrite_def set_size_def new_block_def Let_def room_def)
    moreover have "msg_ok ?m ?h3"
      using wf a ab(3) le small(1) pad by (auto simp: msg_ok_def heap_wf_def)
    moreover have "written ?m ?h3 = written m h"
      using a ab le by (simp add: written_def block_of_def)
    ultimately show ?thesis
      using True le(1) by (intro exI [of _ ?a] exI [of _ ?h3]) (simp add: Let_def grown_def)
  qed
qed

text \<open>A write of a value appends its bytes, inside the block.\<close>

lemma write_block_written:
  assumes "msg_ok m h" and "nm_data m = Some a" and "nm_write m + n \<le> nm_size m" and "n \<le> length bs"
    and "length bs \<le> nm_size m"
  shows "\<exists>h'. write_block a (nm_write m) bs h = Inr h' \<and> msg_ok (m\<lparr>nm_write := nm_write m + n\<rparr>) h' \<and>
    written (m\<lparr>nm_write := nm_write m + n\<rparr>) h' = written m h @ take n bs \<and>
    bh_over h' = bh_over h + (nm_write m + length bs - nm_size m)"
proof -
  obtain b where b: "blocks h a = Some b" "length b = nm_size m"
    using assms(1,2) by (auto simp: msg_ok_def)
  let ?w = "nm_write m"
  let ?b = "take (length b) (take ?w b @ bs @ drop (?w + length bs) b)"
  let ?h = "h\<lparr>blocks := (blocks h)(a \<mapsto> ?b), bh_over := bh_over h + (?w + length bs - max ?w (length b))\<rparr>"
  have len: "length ?b = nm_size m" using b(2) assms(3,4) by auto
  have "write_block a ?w bs h = Inr ?h" using b by (simp add: write_block_def)
  moreover have "msg_ok (m\<lparr>nm_write := ?w + n\<rparr>) ?h"
    using assms(1,2,3) len heap_wf_less [of h a b] b(1) by (auto simp: msg_ok_def heap_wf_def)
  moreover have "written (m\<lparr>nm_write := ?w + n\<rparr>) ?h = written m h @ take n bs"
  proof -
    have "n \<le> nm_size m - ?w" using assms(3) by simp
    then show ?thesis using assms(2-4) b by (simp add: written_def block_of_def min_def take_take)
  qed
  moreover have "max ?w (length b) = nm_size m" using b(2) assms(3) by simp
  ultimately show ?thesis by (intro exI [of _ ?h]) simp
qed


lemma NetMsg_Write_ok:
  assumes "msg_ok m h" and "room m (length bs)"
  shows "\<exists>a h'. let m' = m\<lparr>nm_header := (nm_header m)\<lparr>h_size := grown m (length bs)\<rparr>, nm_data := Some a,
      nm_write := nm_write m + length bs\<rparr> in
    NetMsg_Write bs (m, h) = Inr (m', h') \<and> msg_ok m' h' \<and> written m' h' = written m h @ bs \<and>
    bh_over h' = bh_over h"
proof -
  obtain a h1 where 1: "EnsureCapacityWrite (length bs) m h =
      Inr (True, m\<lparr>nm_header := (nm_header m)\<lparr>h_size := grown m (length bs)\<rparr>, nm_data := Some a\<rparr>, h1)"
    "msg_ok (m\<lparr>nm_header := (nm_header m)\<lparr>h_size := grown m (length bs)\<rparr>, nm_data := Some a\<rparr>) h1"
    "nm_write m + length bs \<le> grown m (length bs)"
    "written (m\<lparr>nm_header := (nm_header m)\<lparr>h_size := grown m (length bs)\<rparr>, nm_data := Some a\<rparr>) h1 = written m h"
    "bh_over h1 = bh_over h"
    using EnsureCapacityWrite_room [OF assms] by (auto simp: Let_def)
  let ?m = "m\<lparr>nm_header := (nm_header m)\<lparr>h_size := grown m (length bs)\<rparr>, nm_data := Some a\<rparr>"
  from write_block_written [OF 1(2), of a "length bs" bs] 1(3) obtain h2 where
    "write_block a (nm_write m) bs h1 = Inr h2" "msg_ok (?m\<lparr>nm_write := nm_write m + length bs\<rparr>) h2"
    "written (?m\<lparr>nm_write := nm_write m + length bs\<rparr>) h2 = written ?m h1 @ bs" "bh_over h2 = bh_over h1"
    by auto
  then show ?thesis
    using 1 by (intro exI [of _ a] exI [of _ h2]) (simp add: NetMsg_Write_def Let_def)
qed

text \<open>A write of a string appends it with its terminator, but \<open>strncpy\<close> pads it to the size of the
  message from the current position: it runs past the block by as many bytes as were written before.\<close>

lemma strncpy_z_bytes:
  assumes "length s < k"
  shows "take (length s + 1) (map byte_of_char (strncpy [] s k)) = z_bytes s"
    and "length (map byte_of_char (strncpy [] s k)) = k"
proof -
  have s: "strncpy [] s k = s @ replicate (k - length s) NUL"
    using assms by (simp add: strncpy_short)
  have "k - length s = Suc (k - length s - 1)" using assms by simp
  then have "replicate (k - length s) NUL = NUL # replicate (k - length s - 1) NUL"
    by (metis replicate_Suc)
  then show "take (length s + 1) (map byte_of_char (strncpy [] s k)) = z_bytes s"
    by (simp add: s z_bytes_def)
  show "length (map byte_of_char (strncpy [] s k)) = k" using assms by (simp add: s)
qed

lemma NetMsg_Write_string_ok:
  assumes "msg_ok m h" and "room m (length s + 1)"
  shows "\<exists>a h'. let m' = m\<lparr>nm_header := (nm_header m)\<lparr>h_size := grown m (length s + 1)\<rparr>, nm_data := Some a,
      nm_write := nm_write m + length s + 1\<rparr> in
    NetMsg_Write_string (Some s) (m, h) = Inr (m', h') \<and> msg_ok m' h' \<and> written m' h' = written m h @ z_bytes s \<and>
    bh_over h' = bh_over h + nm_write m"
proof -
  let ?n = "length s + 1"
  obtain a h1 where 1: "EnsureCapacityWrite ?n m h =
      Inr (True, m\<lparr>nm_header := (nm_header m)\<lparr>h_size := grown m ?n\<rparr>, nm_data := Some a\<rparr>, h1)"
    "msg_ok (m\<lparr>nm_header := (nm_header m)\<lparr>h_size := grown m ?n\<rparr>, nm_data := Some a\<rparr>) h1"
    "nm_write m + ?n \<le> grown m ?n"
    "written (m\<lparr>nm_header := (nm_header m)\<lparr>h_size := grown m ?n\<rparr>, nm_data := Some a\<rparr>) h1 = written m h"
    "bh_over h1 = bh_over h"
    using EnsureCapacityWrite_room [OF assms] by (auto simp: Let_def)
  let ?m = "m\<lparr>nm_header := (nm_header m)\<lparr>h_size := grown m ?n\<rparr>, nm_data := Some a\<rparr>"
  let ?bs = "map byte_of_char (strncpy [] s (grown m ?n))"
  have lt: "length s < grown m ?n" using 1(3) by simp
  from write_block_written [OF 1(2), of a ?n ?bs] 1(3) strncpy_z_bytes [OF lt] obtain h2 where
    "write_block a (nm_write m) ?bs h1 = Inr h2" "msg_ok (?m\<lparr>nm_write := nm_write m + ?n\<rparr>) h2"
    "written (?m\<lparr>nm_write := nm_write m + ?n\<rparr>) h2 = written ?m h1 @ z_bytes s"
    "bh_over h2 = bh_over h1 + nm_write m"
    by auto
  then show ?thesis
    using 1 by (intro exI [of _ a] exI [of _ h2]) (simp add: NetMsg_Write_string_def Let_def)
qed

lemma NetMsg_new_ok:
  assumes "heap_wf h" and "0 < n" and "n \<le> MAX_PACKET_SIZE"
  shows "\<exists>m h'. NetMsg_new ty n h = Inr (m, h') \<and> msg_ok m h' \<and> nm_write m = 0 \<and> nm_read m = 0 \<and> nm_size m = n \<and>
    h_magic (nm_header m) = NETMSG_MAGIC \<and> h_type (nm_header m) = ty \<and> written m h' = [] \<and> bh_over h' = bh_over h"
  using assms heap_wf_new [OF assms(1), of n]
  by (simp add: NetMsg_new_def Let_def msg_ok_def written_def new_block_def)

section \<open>What reading means\<close>

definition unread :: "net_msg \<Rightarrow> byte_heap \<Rightarrow> byte list" where
  "unread m h = drop (nm_read m) (block_of m h)"

definition readable :: "net_msg \<Rightarrow> byte_heap \<Rightarrow> bool" where
  "readable m h = (\<exists>a b. nm_data m = Some a \<and> blocks h a = Some b \<and> length b \<le> MAX_PACKET_SIZE \<and> nm_read m \<le> length b)"

lemma NetMsg_Read_ok:
  assumes "readable m h" and "unread m h = bs @ rest"
  shows "NetMsg_Read (length bs) m h = Inr (bs, m\<lparr>nm_read := nm_read m + length bs\<rparr>)"
    and "readable (m\<lparr>nm_read := nm_read m + length bs\<rparr>) h"
    and "unread (m\<lparr>nm_read := nm_read m + length bs\<rparr>) h = rest"
proof -
  obtain a b where ab: "nm_data m = Some a" "blocks h a = Some b" "length b \<le> MAX_PACKET_SIZE" "nm_read m \<le> length b"
    using assms(1) by (auto simp: readable_def)
  have d: "drop (nm_read m) b = bs @ rest" using assms(2) ab by (simp add: unread_def block_of_def)
  then have "length b - nm_read m = length bs + length rest" by (metis length_append length_drop)
  then have len: "nm_read m + length bs \<le> length b" using ab(4) by simp
  show "NetMsg_Read (length bs) m h = Inr (bs, m\<lparr>nm_read := nm_read m + length bs\<rparr>)"
    using ab len d by (simp add: NetMsg_Read_def read_block_def EnsureCapacityRead_def)
  show "readable (m\<lparr>nm_read := nm_read m + length bs\<rparr>) h" using ab len by (simp add: readable_def)
  show "unread (m\<lparr>nm_read := nm_read m + length bs\<rparr>) h = rest"
    using ab d by (simp add: unread_def block_of_def) (metis append_eq_conv_conj drop_drop add.commute)
qed

lemma NetMsg_Read_string_ok:
  assumes "readable m h" and "unread m h = z_bytes s @ rest" and "is_c_string s"
  shows "NetMsg_Read_string m h = Inr ((the (nm_data m), nm_read m), s, m\<lparr>nm_read := nm_read m + length s + 1\<rparr>)"
    and "readable (m\<lparr>nm_read := nm_read m + length s + 1\<rparr>) h"
    and "unread (m\<lparr>nm_read := nm_read m + length s + 1\<rparr>) h = rest"
proof -
  obtain a b where ab: "nm_data m = Some a" "blocks h a = Some b" "length b \<le> MAX_PACKET_SIZE" "nm_read m \<le> length b"
    using assms(1) by (auto simp: readable_def)
  have d: "drop (nm_read m) b = z_bytes s @ rest" using assms(2) ab by (simp add: unread_def block_of_def)
  then have "length b - nm_read m = length (z_bytes s) + length rest" by (metis length_append length_drop)
  then have len: "nm_read m + length s < length b" using ab(4) by (simp add: z_bytes_def)
  have tw: "takeWhile (\<lambda>x. x \<noteq> 0) (z_bytes s @ rest) = map byte_of_char s"
    using assms(3) by (induction s) (simp_all add: z_bytes_def)
  have chars: "map char_of_byte (map byte_of_char s) = s" by (simp add: o_def)
  show "NetMsg_Read_string m h = Inr ((the (nm_data m), nm_read m), s, m\<lparr>nm_read := nm_read m + length s + 1\<rparr>)"
    using ab len by (simp add: NetMsg_Read_string_def d tw EnsureCapacityRead_def o_def)
  show "readable (m\<lparr>nm_read := nm_read m + length s + 1\<rparr>) h" using ab len by (simp add: readable_def)
  have "drop (length (z_bytes s)) (drop (nm_read m) b) = rest" unfolding d by simp
  then show "unread (m\<lparr>nm_read := nm_read m + length s + 1\<rparr>) h = rest"
    using ab by (simp add: unread_def block_of_def z_bytes_def add.commute add.left_commute)
qed


section \<open>The packets\<close>

lemma length_u8_enc [simp]: "length (u8_enc b) = 1"
  by (simp add: u8_enc_def)

lemma length_u32_enc [simp]: "length (u32_enc w) = 4"
  by (simp add: u32_enc_def)

lemma length_z_bytes [simp]: "length (z_bytes s) = length s + 1"
  by (simp add: z_bytes_def)

lemma written_all: "msg_ok m h \<Longrightarrow> nm_write m = nm_size m \<Longrightarrow> written m h = block_of m h"
  by (auto simp: msg_ok_def written_def block_of_def)

text \<open>A fresh message is ready to be read from its start.\<close>

lemma readable_new:
  assumes "msg_ok m h" and "nm_read m = 0"
  shows "readable m h" and "unread m h = written m h @ drop (nm_write m) (block_of m h)"
  using assms by (auto simp: msg_ok_def readable_def unread_def written_def block_of_def)

text \<open>A type byte and a string, which is what most packets are.\<close>

definition tagged :: "byte \<Rightarrow> byte \<Rightarrow> nat \<Rightarrow> string \<Rightarrow> byte_heap \<Rightarrow> (net_msg \<times> byte_heap) res" where
  "tagged ty b n s h =
     bind_res (NetMsg_new ty n h) (\<lambda>mh. bind_res (NetMsg_Write (u8_enc b) mh) (NetMsg_Write_string (Some s)))"

lemma tagged_ok:
  assumes "heap_wf h" and "0 < n" and "n < length s + 2" and "n + length s + 1 < MAX_PACKET_SIZE"
  shows "\<exists>m h'. tagged ty b n s h = Inr (m, h') \<and> msg_ok m h' \<and> nm_read m = 0 \<and> nm_size m = n + length s + 1 \<and>
    h_magic (nm_header m) = NETMSG_MAGIC \<and> h_type (nm_header m) = ty \<and> written m h' = b # z_bytes s \<and>
    nm_write m = length s + 2 \<and> bh_over h' = bh_over h + 1"
proof -
  obtain m0 h0 where 0: "NetMsg_new ty n h = Inr (m0, h0)" "msg_ok m0 h0" "nm_write m0 = 0" "nm_read m0 = 0"
    "nm_size m0 = n" "h_magic (nm_header m0) = NETMSG_MAGIC" "h_type (nm_header m0) = ty"
    "written m0 h0 = []" "bh_over h0 = bh_over h"
    using NetMsg_new_ok [of h n ty] assms(1,2,4) by auto
  have g1: "grown m0 1 = n" and r1: "room m0 (length (u8_enc b))"
    using 0(3,5) assms by (simp_all add: grown_def room_def)
  obtain a1 h1 where 1: "NetMsg_Write (u8_enc b) (m0, h0) = Inr (m0\<lparr>nm_header := (nm_header m0)\<lparr>h_size := n\<rparr>,
      nm_data := Some a1, nm_write := 1\<rparr>, h1)"
    "msg_ok (m0\<lparr>nm_header := (nm_header m0)\<lparr>h_size := n\<rparr>, nm_data := Some a1, nm_write := 1\<rparr>) h1"
    "written (m0\<lparr>nm_header := (nm_header m0)\<lparr>h_size := n\<rparr>, nm_data := Some a1, nm_write := 1\<rparr>) h1 = [b]"
    "bh_over h1 = bh_over h0"
    using NetMsg_Write_ok [OF 0(2) r1] g1 0(3,8) by (auto simp: Let_def u8_enc_def)
  let ?m1 = "m0\<lparr>nm_header := (nm_header m0)\<lparr>h_size := n\<rparr>, nm_data := Some a1, nm_write := 1\<rparr>"
  have g2: "grown ?m1 (length s + 1) = n + length s + 1" and r2: "room ?m1 (length s + 1)"
    using assms by (simp_all add: grown_def room_def)
  from NetMsg_Write_string_ok [OF 1(2) r2] g2 obtain a2 h2 where
    2: "NetMsg_Write_string (Some s) (?m1, h1) = Inr (?m1\<lparr>nm_header := (nm_header ?m1)\<lparr>h_size := n + length s + 1\<rparr>,
      nm_data := Some a2, nm_write := length s + 2\<rparr>, h2)"
    "msg_ok (?m1\<lparr>nm_header := (nm_header ?m1)\<lparr>h_size := n + length s + 1\<rparr>, nm_data := Some a2, nm_write := length s + 2\<rparr>) h2"
    "written (?m1\<lparr>nm_header := (nm_header ?m1)\<lparr>h_size := n + length s + 1\<rparr>, nm_data := Some a2, nm_write := length s + 2\<rparr>) h2 =
      written ?m1 h1 @ z_bytes s"
    "bh_over h2 = bh_over h1 + 1"
    by (auto simp: Let_def)
  show ?thesis
    using 0 1(1,3,4) 2
    by (intro exI [of _ "?m1\<lparr>nm_header := (nm_header ?m1)\<lparr>h_size := n + length s + 1\<rparr>, nm_data := Some a2,
        nm_write := length s + 2\<rparr>"] exI [of _ h2]) (simp add: tagged_def)
qed

lemma tagged_read:
  assumes "msg_ok m h" and "nm_read m = 0" and "written m h = b # z_bytes s" and "is_c_string s"
  shows "\<exists>m1 p m2. NetMsg_Read 1 m h = Inr ([b], m1) \<and> NetMsg_Read_string m1 h = Inr (p, s, m2)"
proof -
  have u: "unread m h = [b] @ (z_bytes s @ drop (nm_write m) (block_of m h))"
    using readable_new(2) [OF assms(1,2)] assms(3) by simp
  note r = NetMsg_Read_ok [OF readable_new(1) [OF assms(1,2)] u]
  from r(1) NetMsg_Read_string_ok(1) [OF r(2,3) assms(4)] show ?thesis
    by auto
qed

lemma client_hello_tagged:
  "NetFactory_CreateClientHelloPacket (Some u) h = tagged NETMSG_HELLO NET_PROTOCOL_VERSION 1 u h"
  by (simp add: NetFactory_CreateClientHelloPacket_def tagged_def)

lemma rpc_create_tagged:
  "NetFactory_CreateRpcClientCreate u h = tagged NETMSG_SERVER_RPC NETMSG_RPC_REQUEST_CLIENT_CREATE (1 + length u) u h"
  by (simp add: NetFactory_CreateRpcClientCreate_def tagged_def)

lemma rpc_delete_tagged:
  "NetFactory_CreateRpcClientDelete u h = tagged NETMSG_SERVER_RPC NETMSG_RPC_REQUEST_CLIENT_DELETE (1 + length u) u h"
  by (simp add: NetFactory_CreateRpcClientDelete_def tagged_def)


lemma download_start_ok:
  assumes "heap_wf h" and "length nm < WORLD_NAME_LENGTH"
  shows "\<exists>m h'. NetFactory_CreateDownloadStartPacket_Server (Some nm) v n h = Inr (m, h') \<and> msg_ok m h' \<and>
    nm_read m = 0 \<and> nm_size m = WORLD_NAME_LENGTH + 12 \<and> h_type (nm_header m) = NETMSG_WORLD_DOWNLOAD_START \<and>
    h_magic (nm_header m) = NETMSG_MAGIC \<and> written m h' = z_bytes nm @ vec_enc v @ u32_enc n \<and> bh_over h' = bh_over h"
proof -
  let ?S = "WORLD_NAME_LENGTH + 8 + 4"
  have S: "?S \<le> MAX_PACKET_SIZE" "0 < ?S" by (simp_all add: WORLD_NAME_LENGTH_def MAX_PACKET_SIZE_def)
  obtain m0 h0 where 0: "NetMsg_new NETMSG_WORLD_DOWNLOAD_START ?S h = Inr (m0, h0)" "msg_ok m0 h0" "nm_write m0 = 0"
    "nm_read m0 = 0" "nm_size m0 = ?S" "h_magic (nm_header m0) = NETMSG_MAGIC"
    "h_type (nm_header m0) = NETMSG_WORLD_DOWNLOAD_START" "written m0 h0 = []" "bh_over h0 = bh_over h"
    using NetMsg_new_ok [OF assms(1) S(2,1), of NETMSG_WORLD_DOWNLOAD_START] by auto
  have r0: "room m0 (length nm + 1)" and g0: "grown m0 (length nm + 1) = ?S"
    using assms(2) 0(3,5) by (simp_all add: room_def grown_def WORLD_NAME_LENGTH_def MAX_PACKET_SIZE_def)
  obtain a1 h1 where
    1: "NetMsg_Write_string (Some nm) (m0, h0) = Inr (m0\<lparr>nm_header := (nm_header m0)\<lparr>h_size := ?S\<rparr>, nm_data := Some a1,
      nm_write := length nm + 1\<rparr>, h1)"
    "msg_ok (m0\<lparr>nm_header := (nm_header m0)\<lparr>h_size := ?S\<rparr>, nm_data := Some a1, nm_write := length nm + 1\<rparr>) h1"
    "written (m0\<lparr>nm_header := (nm_header m0)\<lparr>h_size := ?S\<rparr>, nm_data := Some a1, nm_write := length nm + 1\<rparr>) h1 = z_bytes nm"
    "bh_over h1 = bh_over h0"
    using NetMsg_Write_string_ok [OF 0(2) r0] g0 0(3,8) by (auto simp: Let_def)
  let ?m1 = "m0\<lparr>nm_header := (nm_header m0)\<lparr>h_size := ?S\<rparr>, nm_data := Some a1, nm_write := length nm + 1\<rparr>"
  have r1: "room ?m1 (length (vec_enc v))" and g1: "grown ?m1 (length (vec_enc v)) = ?S"
    using assms(2) by (simp_all add: room_def grown_def WORLD_NAME_LENGTH_def MAX_PACKET_SIZE_def)
  from NetMsg_Write_ok [OF 1(2) r1] g1 obtain a2 h2 where
    2: "NetMsg_Write (vec_enc v) (?m1, h1) = Inr (?m1\<lparr>nm_header := (nm_header ?m1)\<lparr>h_size := ?S\<rparr>, nm_data := Some a2,
      nm_write := 9 + length nm\<rparr>, h2)"
    "msg_ok (?m1\<lparr>nm_header := (nm_header ?m1)\<lparr>h_size := ?S\<rparr>, nm_data := Some a2, nm_write := 9 + length nm\<rparr>) h2"
    "written (?m1\<lparr>nm_header := (nm_header ?m1)\<lparr>h_size := ?S\<rparr>, nm_data := Some a2, nm_write := 9 + length nm\<rparr>) h2 =
      written ?m1 h1 @ vec_enc v"
    "bh_over h2 = bh_over h1"
    by (auto simp: Let_def)
  let ?m2 = "?m1\<lparr>nm_header := (nm_header ?m1)\<lparr>h_size := ?S\<rparr>, nm_data := Some a2, nm_write := 9 + length nm\<rparr>"
  have r2: "room ?m2 (length (u32_enc n))" and g2: "grown ?m2 (length (u32_enc n)) = ?S"
    using assms(2) by (simp_all add: room_def grown_def WORLD_NAME_LENGTH_def MAX_PACKET_SIZE_def)
  from NetMsg_Write_ok [OF 2(2) r2] g2 obtain a3 h3 where
    3: "NetMsg_Write (u32_enc n) (?m2, h2) = Inr (?m2\<lparr>nm_header := (nm_header ?m2)\<lparr>h_size := ?S\<rparr>, nm_data := Some a3,
      nm_write := 13 + length nm\<rparr>, h3)"
    "msg_ok (?m2\<lparr>nm_header := (nm_header ?m2)\<lparr>h_size := ?S\<rparr>, nm_data := Some a3, nm_write := 13 + length nm\<rparr>) h3"
    "written (?m2\<lparr>nm_header := (nm_header ?m2)\<lparr>h_size := ?S\<rparr>, nm_data := Some a3, nm_write := 13 + length nm\<rparr>) h3 =
      written ?m2 h2 @ u32_enc n"
    "bh_over h3 = bh_over h2"
    by (auto simp: Let_def)
  show ?thesis
    using 0 1(1,3,4) 2(1,3,4) 3
    by (intro exI [of _ "?m2\<lparr>nm_header := (nm_header ?m2)\<lparr>h_size := ?S\<rparr>, nm_data := Some a3,
        nm_write := 13 + length nm\<rparr>"] exI [of _ h3])
       (simp add: NetFactory_CreateDownloadStartPacket_Server_def)
qed

lemma download_start_read:
  assumes "msg_ok m h" and "nm_read m = 0" and "written m h = z_bytes nm @ vec_enc v @ u32_enc n" and "is_c_string nm"
  shows "\<exists>p m1 m2 m3. NetMsg_Read_string m h = Inr (p, nm, m1) \<and> NetMsg_Read 8 m1 h = Inr (vec_enc v, m2) \<and>
    NetMsg_Read 4 m2 h = Inr (u32_enc n, m3)"
proof -
  let ?r = "drop (nm_write m) (block_of m h)"
  have u: "unread m h = z_bytes nm @ (vec_enc v @ (u32_enc n @ ?r))"
    using readable_new(2) [OF assms(1,2)] assms(3) by simp
  note s1 = NetMsg_Read_string_ok [OF readable_new(1) [OF assms(1,2)] u assms(4)]
  note s2 = NetMsg_Read_ok [OF s1(2,3)]
  note s3 = NetMsg_Read_ok [OF s2(2,3)]
  from s1(1) s2(1) s3(1) show ?thesis by auto
qed

section \<open>Properties\<close>

text \<open>
  A hello packet reads back: for a user name that fits, the client's packet is built, is exactly
  the version byte and the terminated name, and reading a byte and a string from it gives the protocol
  version and the name. Building it writes one byte past the end of its block, since the string is
  padded to the whole size from the second byte on.
\<close>

theorem client_hello_roundtrip:
  assumes "heap_wf h" and "is_c_string u" and "length u + 2 < MAX_PACKET_SIZE"
  shows "\<exists>m h'. NetFactory_CreateClientHelloPacket (Some u) h = Inr (m, h') \<and>
    h_type (nm_header m) = NETMSG_HELLO \<and> h_magic (nm_header m) = NETMSG_MAGIC \<and>
    block_of m h' = u8_enc NET_PROTOCOL_VERSION @ z_bytes u \<and> length (block_of m h') = nm_size m \<and>
    (\<exists>m1 p m2. NetMsg_Read 1 m h' = Inr (u8_enc NET_PROTOCOL_VERSION, m1) \<and> NetMsg_Read_string m1 h' = Inr (p, u, m2)) \<and>
    bh_over h' = bh_over h + 1"
proof -
  obtain m h' where m: "NetFactory_CreateClientHelloPacket (Some u) h = Inr (m, h')" "msg_ok m h'" "nm_read m = 0"
    "nm_size m = length u + 2" "h_magic (nm_header m) = NETMSG_MAGIC" "h_type (nm_header m) = NETMSG_HELLO"
    "written m h' = NET_PROTOCOL_VERSION # z_bytes u" "nm_write m = length u + 2" "bh_over h' = bh_over h + 1"
    using tagged_ok [of h 1 u NETMSG_HELLO NET_PROTOCOL_VERSION] assms by (auto simp: client_hello_tagged)
  have "block_of m h' = NET_PROTOCOL_VERSION # z_bytes u"
    using written_all [OF m(2)] m(4,7,8) by simp
  moreover have "length (block_of m h') = nm_size m" using m(2) by (auto simp: msg_ok_def block_of_def)
  moreover note tagged_read [OF m(2,3,7) assms(2)]
  ultimately show ?thesis
    using m by (intro exI [of _ m] exI [of _ h']) (simp add: u8_enc_def)
qed

definition heap0 :: byte_heap where
  "heap0 = \<lparr>blocks = Map.empty, bh_fresh = 0, bh_junk = (\<lambda>a i. 0), bh_over = 0\<rparr>"

lemma heap_wf_heap0 [simp]: "heap_wf heap0"
  by (simp add: heap_wf_def heap0_def)

theorem client_hello_roundtrip_witness:
  "\<exists>m h'. NetFactory_CreateClientHelloPacket (Some ''bob'') heap0 = Inr (m, h') \<and>
    block_of m h' = [5, 98, 111, 98, 0] \<and> bh_over h' = 1"
proof -
  have "is_c_string ''bob''" "length ''bob'' + 2 < MAX_PACKET_SIZE"
    by (simp_all add: NUL_def MAX_PACKET_SIZE_def)
  from client_hello_roundtrip [OF heap_wf_heap0 this] show ?thesis
    by (auto simp: u8_enc_def z_bytes_def NET_PROTOCOL_VERSION_def byte_of_char_def heap0_def)
qed

text \<open>
  The announcement of a world download reads back: for a world name shorter than its field, the
  server's packet is built within its block, and reading a string, a vector and a 32-bit number from
  it gives the name, the world's size and the number of bytes to expect.
\<close>

theorem download_start_roundtrip:
  assumes "heap_wf h" and "is_c_string nm" and "length nm < WORLD_NAME_LENGTH"
  shows "\<exists>m h'. NetFactory_CreateDownloadStartPacket_Server (Some nm) v n h = Inr (m, h') \<and>
    h_type (nm_header m) = NETMSG_WORLD_DOWNLOAD_START \<and> bh_over h' = bh_over h \<and>
    (\<exists>p m1 bs m2 cs m3. NetMsg_Read_string m h' = Inr (p, nm, m1) \<and>
      NetMsg_Read 8 m1 h' = Inr (bs, m2) \<and> vec_dec bs = v \<and> NetMsg_Read 4 m2 h' = Inr (cs, m3) \<and> u32_dec cs = n)"
proof -
  obtain m h' where m: "NetFactory_CreateDownloadStartPacket_Server (Some nm) v n h = Inr (m, h')" "msg_ok m h'"
    "nm_read m = 0" "h_type (nm_header m) = NETMSG_WORLD_DOWNLOAD_START"
    "written m h' = z_bytes nm @ vec_enc v @ u32_enc n" "bh_over h' = bh_over h"
    using download_start_ok [OF assms(1,3)] by blast
  obtain p m1 m2 m3 where "NetMsg_Read_string m h' = Inr (p, nm, m1)" "NetMsg_Read 8 m1 h' = Inr (vec_enc v, m2)"
    "NetMsg_Read 4 m2 h' = Inr (u32_enc n, m3)"
    using download_start_read [OF m(2,3,5) assms(2)] by blast
  then show ?thesis using m vec_dec_enc u32_dec_enc by blast
qed

theorem download_start_roundtrip_witness:
  "\<exists>m h'. NetFactory_CreateDownloadStartPacket_Server (Some ''w'') (640, 480) 307200 heap0 = Inr (m, h') \<and>
    (\<exists>p m1 bs m2 cs m3. NetMsg_Read_string m h' = Inr (p, ''w'', m1) \<and>
      NetMsg_Read 8 m1 h' = Inr (bs, m2) \<and> vec_dec bs = (640, 480) \<and> NetMsg_Read 4 m2 h' = Inr (cs, m3) \<and> u32_dec cs = 307200)"
proof -
  have "is_c_string ''w''" "length ''w'' < WORLD_NAME_LENGTH"
    by (simp_all add: NUL_def WORLD_NAME_LENGTH_def)
  from download_start_roundtrip [OF heap_wf_heap0 this] show ?thesis by blast
qed

text \<open>
  A class can only be asked for by the very pointer under which its name was entered. After any number of earlier questions, the request
  for the pointer of \<open>PlayerEntity\<close>'s name is built and reads back as the request's kind and the name; for any other pointer, whatever the
  characters it points to (the player's name among them), a message comes back in which nothing has been written.
\<close>

theorem entity_request:
  assumes "heap_wf h" and "is_c_string (text_at p)" and "2 * length (text_at p) + 2 < MAX_PACKET_SIZE"
    and "ids = foldl (\<lambda>ids q. snd (HasNetIdentity q ids)) netIdentities0 qs"
  shows "\<exists>m h' ids'. NetFactory_CreateRpcCreatePacket_Client text_at p ids h = Inr ((m, h'), ids') \<and> ids' = snd (HasNetIdentity (Some p) ids) \<and>
    (if p = PlayerEntity_classname
     then \<exists>m1 r m2. NetMsg_Read 1 m h' = Inr ([NETMSG_RPC_REQUEST_ENTITY_CREATE], m1) \<and> NetMsg_Read_string m1 h' = Inr (r, text_at p, m2)
     else written m h' = [])"
proof -
  let ?n = "1 + length (text_at p)"
  have known: "fst (HasNetIdentity (Some p) ids) \<longleftrightarrow> p = PlayerEntity_classname"
    unfolding assms(4) identity_fold by (auto simp: HasNetIdentity_def Let_def)
  obtain k ids' where k: "HasNetIdentity (Some p) ids = (k, ids')" by fastforce
  show ?thesis
  proof (cases "p = PlayerEntity_classname")
    case True
    have "n < MAX_PACKET_SIZE" if "n = ?n + length (text_at p) + 1" for n using that assms(3) by simp
    then obtain m h' where m: "tagged NETMSG_CLIENT_RPC NETMSG_RPC_REQUEST_ENTITY_CREATE ?n (text_at p) h = Inr (m, h')" "msg_ok m h'" "nm_read m = 0"
      "written m h' = NETMSG_RPC_REQUEST_ENTITY_CREATE # z_bytes (text_at p)"
      using tagged_ok [OF assms(1), of ?n "text_at p" NETMSG_CLIENT_RPC NETMSG_RPC_REQUEST_ENTITY_CREATE] by auto
    obtain m0 where m0: "NetMsg_new NETMSG_CLIENT_RPC ?n h = Inr m0"
      using NetMsg_new_ok [OF assms(1), of ?n NETMSG_CLIENT_RPC] assms(3) by auto
    have "NetFactory_CreateRpcCreatePacket_Client text_at p ids h = Inr ((m, h'), snd (HasNetIdentity (Some p) ids))"
      using m(1) m0 known True k by (simp add: NetFactory_CreateRpcCreatePacket_Client_def tagged_def)
    then show ?thesis using tagged_read [OF m(2,3,4) assms(2)] True by auto
  next
    case False
    obtain m0 h0 where m0: "NetMsg_new NETMSG_CLIENT_RPC ?n h = Inr (m0, h0)" "written m0 h0 = []"
      using NetMsg_new_ok [OF assms(1), of ?n NETMSG_CLIENT_RPC] assms(3) by auto
    have "NetFactory_CreateRpcCreatePacket_Client text_at p ids h = Inr ((m0, h0), snd (HasNetIdentity (Some p) ids))"
      using m0(1) known False k by (simp add: NetFactory_CreateRpcCreatePacket_Client_def)
    then show ?thesis using m0(2) False by simp
  qed
qed

theorem entity_request_witness:
  "\<exists>m h' ids. NetFactory_CreateRpcCreatePacket_Client (\<lambda>_. ''Player'') 7 netIdentities0 heap0 = Inr ((m, h'), ids) \<and> written m h' = []"
  using entity_request [of heap0 "\<lambda>_. ''Player''" 7 netIdentities0 "[]"]
  by (auto simp: PlayerEntity_classname_def MAX_PACKET_SIZE_def NUL_def)

end
