(* ===== verification/Capy_NetMode.thy ===== *)
theory Capy_NetMode
  imports Capy_NetMsg Capy_Cvar
begin

text \<open>
  The part of \<open>net/net_core.cpp\<close> and \<open>NetMode\<close> (\<open>net/net.hpp\<close>) that clients and servers share: sending
  a message as a datagram, receiving one into the buffer of pending messages, and handing them out.
  SDL_net is the environment: what \<open>NET_ReceiveDatagram\<close> gives is an argument, what is sent is a list.
  An address is a number.
\<close>

section \<open>Data\<close>

definition PORT_DEFAULT :: u16 where "PORT_DEFAULT = 6769"
definition MAX_CLIENTS :: nat where "MAX_CLIENTS = 32"
definition NET_BUFFER_SIZE :: nat where "NET_BUFFER_SIZE = 64"

text \<open>\<open>NetModeEnum\<close>, from the value of a convar converted to \<open>int\<close>.\<close>

datatype net_mode_enum = NETMODE_CLIENT | NETMODE_SERVER_LISTEN | NETMODE_SERVER_DEDICATED | NETMODE_OTHER

definition net_mode_of :: "f32 \<Rightarrow> net_mode_enum res" where
  "net_mode_of v =
     map_res (\<lambda>k. if k = 0 then NETMODE_CLIENT else if k = 1 then NETMODE_SERVER_LISTEN
         else if k = 2 then NETMODE_SERVER_DEDICATED else NETMODE_OTHER) (f32_to_i32 v)"

record datagram =
  dg_buf :: "byte list"
  dg_addr :: nat
  dg_port :: u16

record net_mode =
  net_heap :: byte_heap
  netBuffer :: "net_msg list"
  netBufferPtr :: int
  seqNumber :: u64
  net_sent :: "(nat \<times> u16 \<times> byte list) list"

section \<open>Start\<close>

record net_cvars =
  netMode :: nat
  netServerAddress :: nat
  netPort :: nat
  netMaxPlayers :: nat

definition CapyNet_Init :: "char list \<Rightarrow> cvar_sys \<Rightarrow> (net_cvars \<times> cvar_sys) res" where
  "CapyNet_Init mem cs =
     bind_res (Cvar_Get_bool mem cs (Lit ''netMode'') (Lit ''0'') False) (\<lambda>(a, cs).
     bind_res (Cvar_Get_bool mem cs (Lit ''netServerAddress'') (Lit ''127.0.0.1'') False) (\<lambda>(b, cs).
     bind_res (Cvar_Get_bool mem cs (Lit ''netPort'') (Lit ''6769'') False) (\<lambda>(c, cs).
     bind_res (Cvar_Get_bool mem cs (Lit ''netMaxPlayers'') (Lit ''32'') False) (\<lambda>(d, cs).
       let nc = \<lparr>netMode = a, netServerAddress = b, netPort = c, netMaxPlayers = d\<rparr>
       in case cvars cs d of
            None \<Rightarrow> Inl UseAfterFree
          | Some v \<Rightarrow>
              if f32_eq (cv_value v) (Fin 0) \<or> f32_less (Fin 32) (cv_value v)
              then map_res (Pair nc) (Cvar_Set_bool mem cs (Lit ''netMaxPlayers'') (Lit ''32'') False)
              else Inr (nc, cs)))))"

section \<open>Receiving\<close>

text \<open>The checks on the header of a datagram that is long enough for one.\<close>

definition header_ok :: "net_header \<Rightarrow> bool" where
  "header_ok hdr = (h_magic hdr = NETMSG_MAGIC \<and> h_size hdr \<le> MAX_PACKET_SIZE \<and> h_type hdr \<le> NETMSG_LAST_VALID)"

text \<open>The message as it is put into the buffer. The data is copied by the size in the header, whatever
  the datagram's length.\<close>

definition take_message :: "net_header \<Rightarrow> datagram \<Rightarrow> byte_heap \<Rightarrow> (net_msg \<times> byte_heap) res" where
  "take_message hdr dg h =
     (let msg = \<lparr>nm_header = hdr, nm_port = dg_port dg, nm_data = None, nm_valid = True, nm_read = 0, nm_write = 0,
                 nm_addr = dg_addr dg\<rparr>
      in if h_size hdr = 0 then Inr (msg, h)
         else if length (dg_buf dg) < HEADER_SIZE + h_size hdr then Inl OutOfBoundsRead
         else let (a, h) = new_block (h_size hdr) h
              in map_res (Pair (msg\<lparr>nm_data := Some a\<rparr>))
                   (write_block a 0 (take (h_size hdr) (drop HEADER_SIZE (dg_buf dg))) h))"

definition GetAllIncomingMessages :: "bool \<times> datagram option \<Rightarrow> 'a net_mode_scheme \<Rightarrow> 'a net_mode_scheme res" where
  "GetAllIncomingMessages received s =
     (case received of
        (False, _) \<Rightarrow> Inr s
      | (True, None) \<Rightarrow> Inr s
      | (True, Some dg) \<Rightarrow>
          if length (dg_buf dg) < HEADER_SIZE then Inr s
          else let hdr = net_header_dec (take HEADER_SIZE (dg_buf dg))
               in if h_magic hdr \<noteq> NETMSG_MAGIC then Inr s
                  else if MAX_PACKET_SIZE < h_size hdr then Inr s
                  else if NETMSG_LAST_VALID < h_type hdr then Inr s
                  else let s = s\<lparr>seqNumber := seqNumber s + 1\<rparr>
                       in bind_res (take_message hdr dg (net_heap s)) (\<lambda>(msg, h).
                            let s = s\<lparr>net_heap := h, netBufferPtr := netBufferPtr s + 1\<rparr>
                            in if int NET_BUFFER_SIZE \<le> netBufferPtr s then Inr (s\<lparr>netBufferPtr := 0\<rparr>)
                               else Inr (s\<lparr>netBuffer := (netBuffer s)[nat (netBufferPtr s) := msg]\<rparr>)))"

text \<open>\<open>GetMessage\<close>: the newest message first.\<close>

definition GetMessage :: "'a net_mode_scheme \<Rightarrow> net_msg option \<times> 'a net_mode_scheme" where
  "GetMessage s =
     (if netBufferPtr s < 0 then (None, s)
      else (Some (netBuffer s ! nat (netBufferPtr s)), s\<lparr>netBufferPtr := netBufferPtr s - 1\<rparr>))"

section \<open>Sending\<close>

text \<open>A message without data is sent as the raw structure: the header and 40 more bytes, some of them
  pointers. The message is deleted after it is sent.\<close>

definition datagram_bytes :: "net_msg \<Rightarrow> byte_heap \<Rightarrow> byte list res" where
  "datagram_bytes m h =
     (if nm_size m = 0 then
        Inr (net_header_enc (nm_header m) @ map (bh_junk h (bh_fresh h)) [0..<NETMSG_SIZEOF - HEADER_SIZE])
      else case nm_data m of
        None \<Rightarrow> Inl Uninitialised
      | Some a \<Rightarrow> map_res (\<lambda>bs. net_header_enc (nm_header m) @ bs) (read_block a 0 (nm_size m) h))"

definition SendMessageToPort :: "net_msg \<Rightarrow> nat \<Rightarrow> u16 \<Rightarrow> 'a net_mode_scheme \<Rightarrow> 'a net_mode_scheme res" where
  "SendMessageToPort m addr port s =
     bind_res (datagram_bytes m (net_heap s)) (\<lambda>bs.
     bind_res (DoneMessage m (net_heap s)) (\<lambda>h.
       Inr (s\<lparr>net_sent := net_sent s @ [(addr, port, bs)], net_heap := h, seqNumber := seqNumber s + 1\<rparr>)))"

definition NetMode_Frame :: "bool \<times> datagram option \<Rightarrow> 'a net_mode_scheme \<Rightarrow> 'a net_mode_scheme res" where
  "NetMode_Frame received s = GetAllIncomingMessages received s"

section \<open>The buffer is a stack\<close>

definition nb_ok :: "'a net_mode_scheme \<Rightarrow> bool" where
  "nb_ok s = (length (netBuffer s) = NET_BUFFER_SIZE \<and> -1 \<le> netBufferPtr s \<and> netBufferPtr s < int NET_BUFFER_SIZE)"

text \<open>The pending messages, the next one to be handed out first.\<close>

definition pending :: "'a net_mode_scheme \<Rightarrow> net_msg list" where
  "pending s = rev (take (nat (netBufferPtr s + 1)) (netBuffer s))"

lemma length_pending: "nb_ok s \<Longrightarrow> length (pending s) = nat (netBufferPtr s + 1)"
  by (auto simp: nb_ok_def pending_def)

lemma pending_push:
  assumes "nb_ok s" and "netBufferPtr s + 1 < int NET_BUFFER_SIZE"
  shows "pending (s\<lparr>netBufferPtr := netBufferPtr s + 1, netBuffer := (netBuffer s)[nat (netBufferPtr s + 1) := m]\<rparr>) = m # pending s"
    and "nb_ok (s\<lparr>netBufferPtr := netBufferPtr s + 1, netBuffer := (netBuffer s)[nat (netBufferPtr s + 1) := m]\<rparr>)"
proof -
  define k where "k = nat (netBufferPtr s + 1)"
  have k: "nat (2 + netBufferPtr s) = Suc k" "k < length (netBuffer s)"
    using assms by (auto simp: k_def nb_ok_def)
  have "take (Suc k) ((netBuffer s)[k := m]) = take k (netBuffer s) @ [m]"
    using k(2) by (simp add: take_Suc_conv_app_nth)
  then show "pending (s\<lparr>netBufferPtr := netBufferPtr s + 1, netBuffer := (netBuffer s)[nat (netBufferPtr s + 1) := m]\<rparr>) = m # pending s"
    by (simp add: pending_def k(1) k_def [symmetric])
  show "nb_ok (s\<lparr>netBufferPtr := netBufferPtr s + 1, netBuffer := (netBuffer s)[nat (netBufferPtr s + 1) := m]\<rparr>)"
    using assms by (simp add: nb_ok_def)
qed

lemma GetMessage_pop:
  assumes "nb_ok s"
  shows "fst (GetMessage s) = (case pending s of [] \<Rightarrow> None | m # _ \<Rightarrow> Some m)"
    and "pending (snd (GetMessage s)) = tl (pending s)" and "nb_ok (snd (GetMessage s))"
proof -
  show "nb_ok (snd (GetMessage s))" using assms by (auto simp: nb_ok_def GetMessage_def)
  have "fst (GetMessage s) = (case pending s of [] \<Rightarrow> None | m # _ \<Rightarrow> Some m) \<and>
    pending (snd (GetMessage s)) = tl (pending s)"
  proof (cases "netBufferPtr s < 0")
    case True
    then show ?thesis by (simp add: GetMessage_def pending_def)
  next
    case False
    define k where "k = nat (netBufferPtr s)"
    have k: "nat (netBufferPtr s + 1) = Suc k" "k < length (netBuffer s)"
      using False assms by (auto simp: k_def nb_ok_def)
    have "pending s = netBuffer s ! k # rev (take k (netBuffer s))"
      using k by (simp add: pending_def take_Suc_conv_app_nth)
    with False show ?thesis by (simp add: GetMessage_def k_def pending_def)
  qed
  then show "fst (GetMessage s) = (case pending s of [] \<Rightarrow> None | m # _ \<Rightarrow> Some m)"
    "pending (snd (GetMessage s)) = tl (pending s)" by simp_all
qed


section \<open>Receiving what was sent\<close>

lemma take_message_ok:
  assumes "heap_wf h" and "length (dg_buf dg) = HEADER_SIZE + h_size hdr" and "h_size hdr \<le> MAX_PACKET_SIZE"
  shows "\<exists>m h'. take_message hdr dg h = Inr (m, h') \<and> heap_wf h' \<and> nm_header m = hdr \<and> nm_read m = 0 \<and>
    nm_addr m = dg_addr dg \<and> nm_port m = dg_port dg \<and>
    (0 < h_size hdr \<longrightarrow> readable m h' \<and> unread m h' = drop HEADER_SIZE (dg_buf dg) \<and>
      block_of m h' = drop HEADER_SIZE (dg_buf dg))"
proof (cases "h_size hdr = 0")
  case True
  then show ?thesis using assms by (simp add: take_message_def Let_def)
next
  case False
  let ?bs = "drop HEADER_SIZE (dg_buf dg)"
  have len: "length ?bs = h_size hdr" using assms(2) by simp
  obtain a h1 where h1: "new_block (h_size hdr) h = (a, h1)" by fastforce
  then have a: "a = bh_fresh h" "blocks h1 a = Some (map (bh_junk h a) [0..<h_size hdr])" "heap_wf h1"
    using heap_wf_new [OF assms(1), of "h_size hdr"] by (auto simp: new_block_def)
  let ?h2 = "h1\<lparr>blocks := (blocks h1)(a \<mapsto> ?bs)\<rparr>"
  have w: "write_block a 0 ?bs h1 = Inr ?h2"
    using a(2) len by (simp add: write_block_def)
  have wf: "heap_wf ?h2" using heap_wf_write [OF a(3) w] .
  let ?m = "\<lparr>nm_header = hdr, nm_port = dg_port dg, nm_data = Some a, nm_valid = True, nm_read = 0, nm_write = 0,
                 nm_addr = dg_addr dg\<rparr>"
  have "take_message hdr dg h = Inr (?m, ?h2)"
    using False assms(2) h1 w len by (simp add: take_message_def Let_def)
  then show ?thesis
    using wf len assms(3) by (intro exI [of _ ?m] exI [of _ ?h2]) (simp add: readable_def unread_def block_of_def)
qed

definition push :: "net_msg \<Rightarrow> byte_heap \<Rightarrow> 'a net_mode_scheme \<Rightarrow> 'a net_mode_scheme" where
  "push m h s = s\<lparr>net_heap := h, seqNumber := seqNumber s + 1, netBufferPtr := netBufferPtr s + 1,
     netBuffer := (netBuffer s)[nat (netBufferPtr s + 1) := m]\<rparr>"

lemma pending_update [simp]:
  "pending (s\<lparr>net_heap := h\<rparr>) = pending s" "pending (s\<lparr>seqNumber := k\<rparr>) = pending s"
  "nb_ok (s\<lparr>net_heap := h\<rparr>) = nb_ok s" "nb_ok (s\<lparr>seqNumber := k\<rparr>) = nb_ok s"
  by (simp_all add: pending_def nb_ok_def)

lemma push_pending:
  assumes "nb_ok s" and "netBufferPtr s + 1 < int NET_BUFFER_SIZE"
  shows "pending (push m h s) = m # pending s" and "nb_ok (push m h s)"
proof -
  have same: "pending (push m h s) = pending (s\<lparr>netBufferPtr := netBufferPtr s + 1, netBuffer := (netBuffer s)[nat (netBufferPtr s + 1) := m]\<rparr>)"
    "nb_ok (push m h s) = nb_ok (s\<lparr>netBufferPtr := netBufferPtr s + 1, netBuffer := (netBuffer s)[nat (netBufferPtr s + 1) := m]\<rparr>)"
    by (simp_all add: push_def pending_def nb_ok_def)
  show "pending (push m h s) = m # pending s" and "nb_ok (push m h s)"
    unfolding same by (rule pending_push [OF assms])+
qed

lemma GetAll_accept:
  assumes "HEADER_SIZE \<le> length (dg_buf dg)" and "header_ok hdr" and "hdr = net_header_dec (take HEADER_SIZE (dg_buf dg))"
    and "take_message hdr dg (net_heap s) = Inr (m, h)"
  shows "GetAllIncomingMessages (True, Some dg) s =
    Inr (if netBufferPtr s + 1 < int NET_BUFFER_SIZE then push m h s
         else s\<lparr>net_heap := h, seqNumber := seqNumber s + 1, netBufferPtr := 0\<rparr>)"
proof -
  have "\<not> length (dg_buf dg) < HEADER_SIZE" "\<not> NETMSG_LAST_VALID < h_type hdr"
    using assms(1,2) by (auto simp: header_ok_def)
  then show ?thesis
    using assms(2,4)
    by (simp add: GetAllIncomingMessages_def Let_def assms(3) [symmetric] header_ok_def push_def)
qed

lemma datagram_bytes_ok:
  assumes "nm_size m = 0 \<or> msg_ok m h" and "length (h_pad (nm_header m)) = 7" and "nm_size m < 2 ^ 32"
  shows "\<exists>bs. datagram_bytes m h = Inr (net_header_enc (nm_header m) @ bs) \<and>
    (0 < nm_size m \<longrightarrow> bs = block_of m h \<and> length bs = nm_size m)"
  using assms by (auto simp: datagram_bytes_def msg_ok_def read_block_def block_of_def)

lemma net_header_dec_take:
  assumes "length (h_pad h) = 7" and "h_size h < 2 ^ 32"
  shows "net_header_dec (take HEADER_SIZE (net_header_enc h @ bs)) = h"
  using net_header_dec_enc [OF assms, of "[]"] length_net_header_enc [OF assms(1)] by simp

section \<open>Properties\<close>

text \<open>
  C24. What one side sends, the other receives: a message with a valid header and data is sent as one
  datagram and its block freed; a peer whose buffer has room takes that datagram as its newest pending
  message, with the same header, the same data ready to be read from the start, and the sender's
  address and port.
\<close>

theorem send_receive:
  assumes "msg_ok m (net_heap s)" and "0 < nm_size m" and "h_magic (nm_header m) = NETMSG_MAGIC"
    and "h_type (nm_header m) \<le> NETMSG_LAST_VALID"
    and "nb_ok r" and "heap_wf (net_heap r)" and "netBufferPtr r + 1 < int NET_BUFFER_SIZE"
  shows "\<exists>s' bs r' m'. SendMessageToPort m addr port s = Inr s' \<and>
    net_sent s' = net_sent s @ [(addr, port, bs)] \<and> blocks (net_heap s') (the (nm_data m)) = None \<and>
    GetAllIncomingMessages (True, Some \<lparr>dg_buf = bs, dg_addr = from, dg_port = p\<rparr>) r = Inr r' \<and>
    nb_ok r' \<and> pending r' = m' # pending r \<and> nm_header m' = nm_header m \<and>
    nm_addr m' = from \<and> nm_port m' = p \<and> readable m' (net_heap r') \<and>
    unread m' (net_heap r') = block_of m (net_heap s)"
proof -
  let ?h = "net_heap s" and ?hdr = "nm_header m"
  have hdr: "length (h_pad ?hdr) = 7" "h_size ?hdr \<le> MAX_PACKET_SIZE"
    using assms(1) by (auto simp: msg_ok_def)
  then have small: "h_size ?hdr < 2 ^ 32" by (simp add: MAX_PACKET_SIZE_def)
  obtain a b where ab: "nm_data m = Some a" "blocks ?h a = Some b" using assms(1) by (auto simp: msg_ok_def)
  obtain bs where bs: "datagram_bytes m ?h = Inr (net_header_enc ?hdr @ bs)" "bs = block_of m ?h" "length bs = nm_size m"
    using datagram_bytes_ok [OF disjI2 [OF assms(1)] hdr(1) small] assms(2) by auto
  let ?s' = "s\<lparr>net_sent := net_sent s @ [(addr, port, net_header_enc ?hdr @ bs)],
    net_heap := ?h\<lparr>blocks := (blocks ?h)(a := None)\<rparr>, seqNumber := seqNumber s + 1\<rparr>"
  have send: "SendMessageToPort m addr port s = Inr ?s'"
    using ab assms(2) by (simp add: SendMessageToPort_def bs(1) DoneMessage_def free_block_def)
  let ?dg = "\<lparr>dg_buf = net_header_enc ?hdr @ bs, dg_addr = from, dg_port = p\<rparr>"
  have len: "length (dg_buf ?dg) = HEADER_SIZE + h_size ?hdr"
    using bs(3) length_net_header_enc [OF hdr(1)] by simp
  obtain m' h' where m': "take_message ?hdr ?dg (net_heap r) = Inr (m', h')" "heap_wf h'" "nm_header m' = ?hdr"
    "nm_addr m' = from" "nm_port m' = p" "readable m' h'" "unread m' h' = drop HEADER_SIZE (dg_buf ?dg)"
    using take_message_ok [OF assms(6) len hdr(2)] assms(2) by auto
  have "header_ok ?hdr" using assms(3,4) hdr(2) by (simp add: header_ok_def)
  moreover have "?hdr = net_header_dec (take HEADER_SIZE (dg_buf ?dg))"
    using net_header_dec_take [OF hdr(1) small] by simp
  ultimately have rec: "GetAllIncomingMessages (True, Some ?dg) r = Inr (push m' h' r)"
    using GetAll_accept [of ?dg ?hdr r m' h'] len m'(1) assms(7) by simp
  have "drop HEADER_SIZE (dg_buf ?dg) = bs"
    using length_net_header_enc [OF hdr(1)] by simp
  moreover have "net_heap (push m' h' r) = h'" by (simp add: push_def)
  ultimately show ?thesis
    using send rec m' bs(2) ab(1) push_pending [OF assms(5,7), of m' h']
    by (intro exI [of _ ?s'] exI [of _ "net_header_enc ?hdr @ bs"] exI [of _ "push m' h' r"] exI [of _ m']) simp
qed

definition net0 :: net_mode where
  "net0 = \<lparr>net_heap = heap0, netBuffer = replicate 64 \<lparr>nm_header = net_header_dec (replicate 24 0), nm_port = 0,
     nm_data = None, nm_valid = False, nm_read = 0, nm_write = 0, nm_addr = 0\<rparr>, netBufferPtr = -1, seqNumber = 0,
     net_sent = []\<rparr>"

lemma net0_ok: "nb_ok net0" "heap_wf (net_heap net0)" "netBufferPtr net0 = -1"
  by (simp_all add: net0_def nb_ok_def NET_BUFFER_SIZE_def)

theorem send_receive_witness:
  "\<exists>m s s' bs r' m'. NetFactory_CreateClientHelloPacket (Some ''bob'') heap0 = Inr (m, s) \<and>
    SendMessageToPort m 7 6769 (net0\<lparr>net_heap := s\<rparr>) = Inr s' \<and> net_sent s' = [(7, 6769, bs)] \<and>
    GetAllIncomingMessages (True, Some \<lparr>dg_buf = bs, dg_addr = 9, dg_port = 1\<rparr>) net0 = Inr r' \<and>
    pending r' = [m'] \<and> unread m' (net_heap r') = [5, 98, 111, 98, 0]"
proof -
  have u: "is_c_string ''bob''" "length ''bob'' + 2 < MAX_PACKET_SIZE" "1 + length ''bob'' + 1 < MAX_PACKET_SIZE"
    "(1::nat) < length ''bob'' + 2"
    by (simp_all add: NUL_def MAX_PACKET_SIZE_def)
  obtain m s where m: "NetFactory_CreateClientHelloPacket (Some ''bob'') heap0 = Inr (m, s)" "msg_ok m s"
    "nm_size m = 5" "h_magic (nm_header m) = NETMSG_MAGIC" "h_type (nm_header m) = NETMSG_HELLO"
    "written m s = NET_PROTOCOL_VERSION # z_bytes ''bob''" "nm_write m = 5"
    using tagged_ok [OF heap_wf_heap0 _ u(4,3), of NETMSG_HELLO NET_PROTOCOL_VERSION] by (auto simp: client_hello_tagged)
  have bl: "block_of m s = [5, 98, 111, 98, 0]"
    using written_all [OF m(2)] m(3,6,7) by (simp add: NET_PROTOCOL_VERSION_def z_bytes_def byte_of_char_def)
  have "pending net0 = []" by (simp add: pending_def net0_def)
  moreover have "h_type (nm_header m) \<le> NETMSG_LAST_VALID"
    by (simp add: m(5) NETMSG_HELLO_def)
  moreover have "netBufferPtr net0 + 1 < int NET_BUFFER_SIZE" by (simp add: net0_ok(3) NET_BUFFER_SIZE_def)
  moreover have "msg_ok m (net_heap (net0\<lparr>net_heap := s\<rparr>))" "net_heap (net0\<lparr>net_heap := s\<rparr>) = s" "net_sent (net0\<lparr>net_heap := s\<rparr>) = []"
    using m(2) by (simp_all add: net0_def)
  ultimately show ?thesis
    using send_receive [of m "net0\<lparr>net_heap := s\<rparr>" net0 7 6769 9 1] m(1,3,4) net0_ok(1,2) bl
    by auto
qed


text \<open>
  C25. The buffer of pending messages is a stack of 64: an accepted datagram becomes the message handed
  out next, so messages are processed newest first; a 65th makes the buffer forget all of them but
  the oldest, and is dropped as well. Handing one out removes it. The position stays inside the
  buffer throughout.
\<close>

theorem net_buffer_stack:
  assumes "nb_ok s" and "HEADER_SIZE \<le> length (dg_buf dg)" and "header_ok (net_header_dec (take HEADER_SIZE (dg_buf dg)))"
    and "take_message (net_header_dec (take HEADER_SIZE (dg_buf dg))) dg (net_heap s) = Inr (m, h)"
  shows "\<exists>s'. GetAllIncomingMessages (True, Some dg) s = Inr s' \<and> nb_ok s' \<and>
    pending s' = (if length (pending s) < NET_BUFFER_SIZE then m # pending s else [last (pending s)]) \<and>
    fst (GetMessage s') = Some (hd (pending s')) \<and> pending (snd (GetMessage s')) = tl (pending s') \<and>
    nb_ok (snd (GetMessage s'))"
proof -
  note acc = GetAll_accept [OF assms(2,3) refl assms(4)]
  have len: "length (pending s) < NET_BUFFER_SIZE \<longleftrightarrow> netBufferPtr s + 1 < int NET_BUFFER_SIZE"
    using length_pending [OF assms(1)] assms(1) by (auto simp: nb_ok_def)
  let ?t = "s\<lparr>net_heap := h, seqNumber := seqNumber s + 1, netBufferPtr := 0\<rparr>"
  have "nb_ok ?t" using assms(1) by (simp add: nb_ok_def NET_BUFFER_SIZE_def)
  moreover have "pending ?t = [last (pending s)]" if "\<not> netBufferPtr s + 1 < int NET_BUFFER_SIZE"
  proof -
    have l: "length (netBuffer s) = NET_BUFFER_SIZE" "nat (netBufferPtr s + 1) = NET_BUFFER_SIZE"
      using assms(1) that by (auto simp: nb_ok_def)
    then obtain x xs where "netBuffer s = x # xs" by (cases "netBuffer s") (auto simp: NET_BUFFER_SIZE_def)
    then show ?thesis using l by (simp add: pending_def last_rev)
  qed
  ultimately obtain s' where s': "GetAllIncomingMessages (True, Some dg) s = Inr s'" "nb_ok s'"
    "pending s' = (if length (pending s) < NET_BUFFER_SIZE then m # pending s else [last (pending s)])"
    using acc push_pending [OF assms(1), of m h] len by (cases "netBufferPtr s + 1 < int NET_BUFFER_SIZE") auto
  then have "pending s' \<noteq> []" by auto
  then have "fst (GetMessage s') = Some (hd (pending s'))"
    using GetMessage_pop(1) [OF s'(2)] by (cases "pending s'") auto
  then show ?thesis using s' GetMessage_pop(2,3) [OF s'(2)] by auto
qed

definition hello_header :: "nat \<Rightarrow> net_header" where
  "hello_header n = \<lparr>h_magic = NETMSG_MAGIC, h_seq = 0, h_size = n, h_type = NETMSG_HELLO, h_pad = [0, 0, 0, 0, 0, 0, 0]\<rparr>"

text \<open>A datagram that is only a header.\<close>

definition hello_datagram :: "nat \<Rightarrow> datagram" where
  "hello_datagram n = \<lparr>dg_buf = net_header_enc (hello_header n), dg_addr = 1, dg_port = 2\<rparr>"

lemma hello_datagram_simps:
  assumes "n \<le> MAX_PACKET_SIZE"
  shows "length (dg_buf (hello_datagram n)) = HEADER_SIZE"
    and "net_header_dec (take HEADER_SIZE (dg_buf (hello_datagram n))) = hello_header n"
    and "header_ok (hello_header n)"
proof -
  have pad: "length (h_pad (hello_header n)) = 7" "h_size (hello_header n) < 2 ^ 32"
    using assms by (simp_all add: hello_header_def MAX_PACKET_SIZE_def)
  show "length (dg_buf (hello_datagram n)) = HEADER_SIZE"
    using length_net_header_enc [OF pad(1)] by (simp add: hello_datagram_def)
  show "net_header_dec (take HEADER_SIZE (dg_buf (hello_datagram n))) = hello_header n"
    using net_header_dec_take [OF pad, of "[]"] by (simp add: hello_datagram_def)
  show "header_ok (hello_header n)"
    using assms by (simp add: header_ok_def hello_header_def NETMSG_HELLO_def)
qed

theorem net_buffer_stack_witness:
  "\<exists>s' m. GetAllIncomingMessages (True, Some (hello_datagram 0)) net0 = Inr s' \<and>
    pending s' = [m] \<and> fst (GetMessage s') = Some m \<and> pending (snd (GetMessage s')) = []"
proof -
  note dg = hello_datagram_simps [of 0, simplified]
  obtain m where m: "take_message (hello_header 0) (hello_datagram 0) (net_heap net0) = Inr (m, net_heap net0)"
    by (simp add: take_message_def Let_def hello_header_def)
  have "pending net0 = []" by (simp add: pending_def net0_def)
  then show ?thesis
    using net_buffer_stack [of net0 "hello_datagram 0" m "net_heap net0", unfolded dg(2), OF net0_ok(1) _ dg(3) m] dg(1)
    by (auto simp: NET_BUFFER_SIZE_def)
qed

text \<open>
  C40. The size in a received header is not checked against the datagram: a datagram with a valid header
  that announces more data than it carries, up to the maximum, makes the receiver read past the end of
  the datagram.
\<close>

theorem short_datagram_overread:
  assumes "HEADER_SIZE \<le> length (dg_buf dg)" and "hdr = net_header_dec (take HEADER_SIZE (dg_buf dg))"
    and "header_ok hdr" and "0 < h_size hdr" and "length (dg_buf dg) < HEADER_SIZE + h_size hdr"
  shows "GetAllIncomingMessages (True, Some dg) s = Inl OutOfBoundsRead"
proof -
  have "\<not> length (dg_buf dg) < HEADER_SIZE" "\<not> NETMSG_LAST_VALID < h_type hdr" "\<not> MAX_PACKET_SIZE < h_size hdr"
    "h_magic hdr = NETMSG_MAGIC"
    using assms(1,3) by (auto simp: header_ok_def)
  moreover have "take_message hdr dg h = Inl OutOfBoundsRead" for h
    using assms(4,5) by (simp add: take_message_def Let_def)
  ultimately show ?thesis
    by (simp add: GetAllIncomingMessages_def Let_def assms(2) [symmetric])
qed

theorem short_datagram_overread_witness:
  "GetAllIncomingMessages (True, Some (hello_datagram 100)) net0 = Inl OutOfBoundsRead"
proof -
  have "100 \<le> MAX_PACKET_SIZE" by (simp add: MAX_PACKET_SIZE_def)
  note dg = hello_datagram_simps [OF this]
  show ?thesis
    using short_datagram_overread [of "hello_datagram 100" "hello_header 100"] dg
    by (simp add: hello_header_def)
qed

text \<open>
  A write that does not fit corrupts the message: when the grown size would reach the maximum,
  \<open>EnsureCapacityWrite\<close> has already stored it in the header but keeps the old block, so the write is
  dropped, and sending the message reads past the end of its block.
\<close>

theorem oversized_write:
  assumes "msg_ok m h" and "nm_size m < nm_write m + length s + 1"
    and "MAX_PACKET_SIZE \<le> nm_size m + length s + 1" and "nm_size m + length s + 1 < 2 ^ 32" and "net_heap st = h"
  shows "\<exists>m'. NetMsg_Write_string (Some s) (m, h) = Inr (m', h) \<and> nm_size m' = nm_size m + length s + 1 \<and>
    nm_data m' = nm_data m \<and> SendMessageToPort m' addr port st = Inl OutOfBoundsRead"
proof -
  obtain a b where ab: "nm_data m = Some a" "blocks h a = Some b" "length b = nm_size m"
    using assms(1) by (auto simp: msg_ok_def)
  let ?m' = "set_size (nm_size m + (length s + 1)) m"
  have "NetMsg_Write_string (Some s) (m, h) = Inr (?m', h)"
    using assms(2-4) by (simp add: NetMsg_Write_string_def EnsureCapacityWrite_def Let_def set_size_def)
  moreover have "nm_size ?m' = nm_size m + length s + 1" "nm_data ?m' = nm_data m"
    using assms(4) by (simp_all add: set_size_def)
  moreover from this have "SendMessageToPort ?m' addr port st = Inl OutOfBoundsRead"
    using ab assms(5) by (simp add: SendMessageToPort_def datagram_bytes_def read_block_def)
  ultimately show ?thesis by blast
qed

theorem oversized_write_witness:
  "\<exists>m h m'. NetMsg_new NETMSG_HELLO 1 heap0 = Inr (m, h) \<and>
    NetMsg_Write_string (Some (replicate 1400 CHR ''a'')) (m, h) = Inr (m', h) \<and> nm_size m' = 1402 \<and>
    SendMessageToPort m' 7 6769 (net0\<lparr>net_heap := h\<rparr>) = Inl OutOfBoundsRead"
proof -
  obtain m h where m: "NetMsg_new NETMSG_HELLO 1 heap0 = Inr (m, h)" "msg_ok m h" "nm_write m = 0" "nm_size m = 1"
    using NetMsg_new_ok [OF heap_wf_heap0, of 1 NETMSG_HELLO] by (auto simp: MAX_PACKET_SIZE_def)
  let ?s = "replicate 1400 CHR ''a''"
  have "nm_size m < nm_write m + length ?s + 1" "MAX_PACKET_SIZE \<le> nm_size m + length ?s + 1"
    "nm_size m + length ?s + 1 < 2 ^ 32" "net_heap (net0\<lparr>net_heap := h\<rparr>) = h"
    using m(3,4) by (simp_all add: MAX_PACKET_SIZE_def)
  from oversized_write [OF m(2) this, of 7 6769] m(1,4) show ?thesis by auto
qed

end
