(* ===== verification/Capy_World.thy ===== *)
theory Capy_World
  imports Capy_Quad Capy_NetMsg "HOL-Library.Signed_Division"
begin

text \<open>
  \<open>world/world_generator.cpp\<close>: the tiles, the world, its generation (noise, terrain, quadtree) and the
  drawing of its tiles into the render target. The random numbers are an argument: the \<open>i\<close>-th call of
  \<open>Util_RandomSingle\<close> returns \<open>rnd i\<close>, and the world counts its calls. The bytes of a fresh tile array are
  an argument too, since \<open>new uint8_t[n]\<close> does not set them.
\<close>

section \<open>Tiles\<close>

datatype tile = WorldTileAir | WorldTileGrass | WorldTileStone | WorldTileLava
  | WorldTileSand | WorldTileGlass | WorldTileCrystal | WorldTileWater

definition TILE_SIZE :: nat where "TILE_SIZE = 8"  \<comment> \<open>\<open>TILE_SIZE_X\<close> and \<open>TILE_SIZE_Y\<close>\<close>
definition NOISE_STEPS :: nat where "NOISE_STEPS = 36"
definition NOISE_MAX_VARIANCE :: int where "NOISE_MAX_VARIANCE = 72"

text \<open>Red, green, blue and alpha of a tile.\<close>

fun tile_colour :: "tile \<Rightarrow> int \<times> int \<times> int \<times> int" where
  "tile_colour WorldTileAir = (0, 0, 0, 0)"
| "tile_colour WorldTileGrass = (20, 170, 50, 255)"
| "tile_colour WorldTileStone = (180, 175, 185, 255)"
| "tile_colour WorldTileLava = (255, 134, 35, 255)"
| "tile_colour WorldTileSand = (180, 175, 185, 255)"
| "tile_colour WorldTileGlass = (241, 243, 242, 127)"
| "tile_colour WorldTileCrystal = (240, 186, 255, 255)"
| "tile_colour WorldTileWater = (4, 24, 155, 127)"

text \<open>\<open>tileIndices\<close> and its inverse, \<open>pointersToIndicesMap\<close>; \<open>heightData\<close>. A key that is not in one of the
  maps gives a null tile.\<close>

definition tileIndices :: "(nat \<times> tile) list" where
  "tileIndices = [(0, WorldTileAir), (1, WorldTileGrass), (2, WorldTileStone), (3, WorldTileLava),
     (4, WorldTileSand), (5, WorldTileGlass), (6, WorldTileCrystal), (7, WorldTileWater)]"

definition heightData :: "(nat \<times> tile) list" where
  "heightData = [(0, WorldTileAir), (16, WorldTileGrass), (28, WorldTileStone), (64, WorldTileLava)]"

definition pointersToIndicesMap :: "tile \<Rightarrow> byte" where
  "pointersToIndicesMap t =
     (case map_of (map (\<lambda>(i, t). (t, i)) tileIndices) t of None \<Rightarrow> 0 | Some i \<Rightarrow> of_nat i)"

section \<open>The world\<close>

definition WORLD_HEADER_MAGIC :: nat where "WORLD_HEADER_MAGIC = 0x59504143"
definition WORLD_FILE_FORMAT_VERSION :: nat where "WORLD_FILE_FORMAT_VERSION = 1"

record world_header =
  wh_magic :: nat
  wh_version :: nat
  wh_pad :: "byte list"      \<comment> \<open>the two bytes before \<open>size\<close>\<close>
  wh_size :: "int vec2"
  wh_name :: "char list"

record world =
  w_header :: world_header
  tileData :: "byte list option"
  collision :: quad
  w_file :: "nat option"
  noiseData :: "f32 list"
  w_draws :: nat

abbreviation size_x :: "world \<Rightarrow> int" where "size_x w \<equiv> vx (wh_size (w_header w))"
abbreviation size_y :: "world \<Rightarrow> int" where "size_y w \<equiv> vy (wh_size (w_header w))"

text \<open>A signed 32-bit value converted to \<open>uint32_t\<close>, and to \<open>size_t\<close>.\<close>

definition to_u32 :: "int \<Rightarrow> nat" where "to_u32 i = nat (i mod 2 ^ 32)"
definition to_size :: "int \<Rightarrow> nat" where "to_size i = nat (i mod 2 ^ 64)"

text \<open>A product of two \<open>int\<close>s, wrapped around to 32 bits.\<close>

definition i32_mul :: "int \<Rightarrow> int \<Rightarrow> int" where
  "i32_mul a b = (a * b + 2 ^ 31) mod 2 ^ 32 - 2 ^ 31"

definition GetSizeInBytes :: "world \<Rightarrow> nat" where
  "GetSizeInBytes w = to_size (i32_mul (size_x w) (size_y w))"

definition World_Init :: "(nat \<Rightarrow> byte) \<Rightarrow> int vec2 \<Rightarrow> world \<Rightarrow> world" where
  "World_Init junk sz w =
     (let w = w\<lparr>w_header := (w_header w)\<lparr>wh_size := \<lparr>vx = vx sz, vy = vy sz\<rparr>\<rparr>\<rparr>
      in if size_x w = 0 \<or> size_y w = 0 then w
         else let mapSizeBytes = to_u32 (i32_mul (size_x w) (size_y w))
              in w\<lparr>tileData := Some (map junk [0..<mapSizeBytes])\<rparr>)"

section \<open>Terrain\<close>

definition CreateGenerateNoise :: "(nat \<Rightarrow> f32) \<Rightarrow> world \<Rightarrow> world" where
  "CreateGenerateNoise rnd w =
     w\<lparr>noiseData := map (\<lambda>i. f32_div (f32_mul (rnd (w_draws w + i)) (f32_of_int NOISE_MAX_VARIANCE)) (Fin 8)) [0..<NOISE_STEPS],
       w_draws := w_draws w + NOISE_STEPS\<rparr>"

text \<open>The first loop: the height of the first layer under the air, in steps of eight. A height of more
  than \<open>2 ^ 32 - 8\<close> is never reached.\<close>

definition first_ground :: "nat \<Rightarrow> nat res" where
  "first_ground h =
     (if 2 ^ 32 - TILE_SIZE < h then Inl NoReturn
      else Inr (snd (fold (\<lambda>k (currentTile, firstGroundY).
        let y = k * TILE_SIZE in
        case map_of heightData y of
          None \<Rightarrow> (currentTile, firstGroundY)
        | Some t \<Rightarrow>
            if 0 < y \<and> t \<noteq> currentTile then
              (t, if t \<noteq> WorldTileAir \<and> firstGroundY = 0 then y else firstGroundY)
            else (currentTile, firstGroundY))
        [0..<(h + (TILE_SIZE - 1)) div TILE_SIZE] (WorldTileAir, 0))))"

text \<open>The height at which a tile of row \<open>y\<close> is put: moved up by the noise, interpolated between two steps.\<close>

definition noise_at :: "f32 list \<Rightarrow> nat \<Rightarrow> nat \<Rightarrow> nat \<Rightarrow> f32" where
  "noise_at noise step stepCurrent stepProgress =
     (let noiseCurrent = noise ! stepCurrent;
          noiseNext = (if stepCurrent < NOISE_STEPS - 1 then noise ! (stepCurrent + 1) else noiseCurrent)
      in f32_add noiseCurrent
           (f32_mul (f32_sub noiseNext noiseCurrent)
             (f32_div (f32_of_int (int stepProgress)) (f32_of_int (int step)))))"

definition place_tile ::
    "f32 list \<Rightarrow> int vec2 \<Rightarrow> nat \<Rightarrow> nat \<Rightarrow> nat \<Rightarrow> tile \<Rightarrow> nat \<Rightarrow> byte list \<times> nat \<times> nat \<Rightarrow> (byte list \<times> nat \<times> nat) res" where
  "place_tile noise sz step firstGroundY y currentTile x = (\<lambda>(tiles, stepCurrent, stepProgress).
     let stepProgress = (stepProgress + TILE_SIZE) mod 2 ^ 32;
         (stepCurrent, stepProgress) = (if step < stepProgress then ((stepCurrent + 1) mod 2 ^ 32, 0) else (stepCurrent, stepProgress))
     in bind_res
          (if firstGroundY \<le> y \<and> stepCurrent < NOISE_STEPS
           then map_res nat (f32_to_u32 (f32_sub (f32_of_int (int y)) (noise_at noise step stepCurrent stepProgress)))
           else Inr y) (\<lambda>adjustedY.
        let lowest = to_u32 (vy sz - int TILE_SIZE);
            adjustedY = (if lowest < adjustedY then lowest else adjustedY);
            index = (adjustedY * to_u32 (vx sz) + x) mod 2 ^ 32
        in if index < length tiles
           then Inr (tiles[index := pointersToIndicesMap currentTile], stepCurrent, stepProgress)
           else Inl OutOfBoundsWrite))"

text \<open>One row: a new layer rerolls the noise.\<close>

definition gen_row :: "(nat \<Rightarrow> f32) \<Rightarrow> nat \<Rightarrow> nat \<Rightarrow> nat \<Rightarrow> world \<times> tile \<Rightarrow> (world \<times> tile) res" where
  "gen_row rnd step firstGroundY y = (\<lambda>(w, currentTile).
     let (w, currentTile) = (case map_of heightData y of
            None \<Rightarrow> (w, currentTile)
          | Some t \<Rightarrow> if 0 < y \<and> t \<noteq> currentTile then (CreateGenerateNoise rnd w, t) else (w, currentTile))
     in if to_u32 (size_x w) = 0 then Inr (w, currentTile)
        else case tileData w of
            None \<Rightarrow> Inl NullDeref
          | Some tiles \<Rightarrow>
              map_res (\<lambda>(tiles, _, _). (w\<lparr>tileData := Some tiles\<rparr>, currentTile))
                (fold_res (place_tile (noiseData w) (wh_size (w_header w)) step firstGroundY y currentTile)
                   [0..<to_u32 (size_x w)] (tiles, 0, 0)))"

definition CreateGenerateWorld :: "(nat \<Rightarrow> f32) \<Rightarrow> world \<Rightarrow> world res" where
  "CreateGenerateWorld rnd w =
     bind_res (first_ground (to_u32 (size_y w))) (\<lambda>firstGroundY.
     let step = to_u32 (size_x w sdiv int NOISE_STEPS)
     in map_res fst (fold_res (gen_row rnd step firstGroundY) [0..<to_u32 (size_y w)] (w, WorldTileAir)))"
section \<open>The quadtree\<close>

text \<open>The inner loop divides the root's children once for each pass over the height; \<open>y\<close> is an \<open>int32_t\<close>
  that the unsigned scale is added to. Fuel bounds both loops; a loop that does not end is \<open>NoReturn\<close>.\<close>

definition to_i32 :: "int \<Rightarrow> int" where "to_i32 i = (i + 2 ^ 31) mod 2 ^ 32 - 2 ^ 31"

definition divide_children :: "quad \<Rightarrow> quad res" where
  "divide_children q =
     bind_res (divide_child 0 q) (\<lambda>q. bind_res (divide_child 1 q) (\<lambda>q.
     bind_res (divide_child 2 q) (\<lambda>q. divide_child 3 q)))"

fun divide_pass :: "nat \<Rightarrow> int \<Rightarrow> nat \<Rightarrow> int \<Rightarrow> quad \<Rightarrow> quad res" where
  "divide_pass 0 h scale y q = Inl NoReturn"
| "divide_pass (Suc n) h scale y q =
     (if y < h then bind_res (divide_children q) (divide_pass n h scale (to_i32 (y + int scale))) else Inr q)"

definition shrink :: "nat \<Rightarrow> nat" where
  "shrink scale = (if TILE_SIZE < scale then scale div 2 else scale)"

fun quadtree_loop :: "nat \<Rightarrow> int \<Rightarrow> nat \<Rightarrow> nat \<Rightarrow> quad \<Rightarrow> quad res" where
  "quadtree_loop 0 h sx sy q = Inl NoReturn"
| "quadtree_loop (Suc n) h sx sy q =
     (if TILE_SIZE \<le> sx \<or> TILE_SIZE \<le> sy
      then bind_res (divide_pass (nat h + 1) h sy 0 q) (quadtree_loop n h (shrink sx) (shrink sy))
      else Inr q)"

definition CreateGenerateQuadtree :: "nat \<Rightarrow> world \<Rightarrow> world res" where
  "CreateGenerateQuadtree fuel w =
     map_res (\<lambda>q. w\<lparr>collision := q\<rparr>)
       (quadtree_loop fuel (size_y w) (to_u32 (size_x w)) (to_u32 (size_y w)) (Divide DIVIDE_2BY2 (collision w)))"

definition Generate :: "nat \<Rightarrow> (nat \<Rightarrow> f32) \<Rightarrow> world \<Rightarrow> world res" where
  "Generate fuel rnd w =
     bind_res (CreateGenerateWorld rnd (CreateGenerateNoise rnd w)) (CreateGenerateQuadtree fuel)"

section \<open>Drawing\<close>

text \<open>\<open>PIXELS_TO_BLOCKS_Y(x)\<close> is \<open>(x)/8\<close>; the colour is computed in unsigned arithmetic and read back as signed,
  and is clamped to a byte.\<close>

definition shade :: "int \<Rightarrow> nat \<Rightarrow> int" where
  "shade c depth =
     (let v = to_i32 (c - 4 * int (depth div TILE_SIZE));
          v = (if 255 < v then 255 else v)
      in if v < 0 then 0 else v)"

text \<open>The value of a pixel of a tile, the same for all of its 64 pixels, and the store of these pixels; the
  texture is the array of pixels that \<open>SDL_LockTexture\<close> gives, of which \<open>pitch\<close> bytes are a line.\<close>

definition pixel_value :: "tile \<Rightarrow> nat \<Rightarrow> nat" where
  "pixel_value t depth =
     (let (r, g, b, a) = tile_colour t
      in nat (a * 2 ^ 24 + shade r depth * 2 ^ 16 + shade g depth * 2 ^ 8 + shade b depth))"

definition draw_pixel :: "nat \<Rightarrow> nat \<Rightarrow> nat \<Rightarrow> nat \<Rightarrow> nat \<times> nat \<Rightarrow> nat list \<Rightarrow> nat list res" where
  "draw_pixel pitch x y v = (\<lambda>(yy, xx) tex.
     let textureLocation = ((((y + yy) * pitch) + (x + xx) * 4) mod 2 ^ 32) div 4
     in if textureLocation < length tex then Inr (tex[textureLocation := v]) else Inl OutOfBoundsWrite)"

definition tile_pixels :: "(nat \<times> nat) list" where
  "tile_pixels = List.product [0..<TILE_SIZE] [0..<TILE_SIZE]"

text \<open>What the loops of \<open>Render\<close> have drawn, and whether they are to stop: \<open>goto done\<close>, or the \<open>return\<close> that
  leaves the texture locked.\<close>

datatype render_end = Running | Done | Returned

text \<open>One tile position of a column: the ground height of the column is set by its first tile that is not air.\<close>

definition render_tile ::
    "byte list option \<Rightarrow> int vec2 \<Rightarrow> nat \<Rightarrow> nat \<Rightarrow> nat \<Rightarrow>
     render_end \<times> nat option \<times> nat list \<Rightarrow> (render_end \<times> nat option \<times> nat list) res" where
  "render_tile tiles sz pitch x k = (\<lambda>(stop, ground, tex).
     let y = k * TILE_SIZE; xTile = x div TILE_SIZE; yTile = y div TILE_SIZE in
     if stop \<noteq> Running then Inr (stop, ground, tex)
     else if to_u32 (vx sz) \<le> xTile \<or> to_u32 (vy sz) \<le> yTile then Inr (Done, ground, tex)
     else let worldIndex = (yTile * to_u32 (vx sz) + xTile) mod 2 ^ 32 in
       case tiles of None \<Rightarrow> Inl NullDeref
       | Some ts \<Rightarrow>
          if length ts \<le> worldIndex then Inl OutOfBoundsRead
          else let index = unat (ts ! worldIndex) in
            if length tileIndices < index then Inr (Returned, ground, tex)
            else case map_of tileIndices index of
                None \<Rightarrow> Inl NullDeref
              | Some t \<Rightarrow>
                  if t = WorldTileAir then Inr (Running, ground, tex)
                  else let groundHeight = (case ground of None \<Rightarrow> y | Some g \<Rightarrow> g)
                       in map_res (\<lambda>tex. (Running, Some groundHeight, tex))
                            (fold_res (draw_pixel pitch x y (pixel_value t (y - groundHeight))) tile_pixels tex))"

definition render_column ::
    "byte list option \<Rightarrow> int vec2 \<Rightarrow> nat \<Rightarrow> nat \<Rightarrow> nat \<Rightarrow> render_end \<times> nat list \<Rightarrow> (render_end \<times> nat list) res" where
  "render_column tiles sz pitch screenY k = (\<lambda>(stop, tex).
     if stop \<noteq> Running then Inr (stop, tex)
     else map_res (\<lambda>(stop, ground, tex). (stop, tex))
       (fold_res (render_tile tiles sz pitch (k * TILE_SIZE)) [0..<(screenY + (TILE_SIZE - 1)) div TILE_SIZE] (Running, None, tex)))"

text \<open>The first component says whether the texture is locked at the end.\<close>

definition Render :: "nat \<Rightarrow> nat \<Rightarrow> nat \<Rightarrow> world \<Rightarrow> nat list \<Rightarrow> (bool \<times> nat list) res" where
  "Render screenX screenY pitch w tex =
     map_res (\<lambda>(stop, tex). (stop = Returned, tex))
       (fold_res (render_column (tileData w) (wh_size (w_header w)) pitch screenY)
          [0..<(screenX + (TILE_SIZE - 1)) div TILE_SIZE] (Running, tex))"

section \<open>The noise\<close>

definition noise_between :: "int \<Rightarrow> int \<Rightarrow> f32 list \<Rightarrow> bool" where
  "noise_between a b noise \<longleftrightarrow> length noise = NOISE_STEPS \<and>
     (\<forall>i < NOISE_STEPS. \<exists>q. noise ! i = Fin q \<and> of_int a \<le> q \<and> q \<le> of_int b)"

text \<open>What \<open>Util_RandomSingle\<close> returns lies in the unit interval, ends included.\<close>

definition unit_random :: "(nat \<Rightarrow> f32) \<Rightarrow> bool" where
  "unit_random rnd \<longleftrightarrow> (\<forall>i. \<exists>q. rnd i = Fin q \<and> 0 \<le> q \<and> q \<le> 1)"

lemma f32_72 [simp]: "f32_of_int NOISE_MAX_VARIANCE = Fin 72"
  using f32_of_int_exact [of 72] by (simp add: NOISE_MAX_VARIANCE_def)

lemma noise_value:
  assumes "of_int a \<le> q" and "q \<le> of_int b" and "0 \<le> a" and "a \<le> b" and "b \<le> 1"
  shows "\<exists>r. f32_div (f32_mul (Fin q) (Fin 72)) (Fin 8) = Fin r \<and> of_int (9 * a) \<le> r \<and> r \<le> of_int (9 * b)"
proof -
  obtain r where r: "round32 (q * 72) = Fin r" "of_int (72 * a) \<le> r" "r \<le> of_int (72 * b)"
    using round32_between [of "72 * a" "q * 72" "72 * b"] assms by auto
  then show ?thesis
    using round32_between [of "9 * a" "r / 8" "9 * b"] assms by auto
qed

lemma CreateGenerateNoise_between:
  assumes "\<And>i. i < NOISE_STEPS \<Longrightarrow> \<exists>q. rnd (w_draws w + i) = Fin q \<and> of_int a \<le> q \<and> q \<le> of_int b"
    and "0 \<le> a" and "a \<le> b" and "b \<le> 1"
  shows "noise_between (9 * a) (9 * b) (noiseData (CreateGenerateNoise rnd w))"
  unfolding noise_between_def CreateGenerateNoise_def
proof (intro conjI allI impI)
  fix i assume i: "i < NOISE_STEPS"
  obtain q where q: "rnd (w_draws w + i) = Fin q" "of_int a \<le> q" "q \<le> of_int b" using assms(1) [OF i] by auto
  show "\<exists>q. noiseData (w\<lparr>noiseData := map (\<lambda>i. f32_div (f32_mul (rnd (w_draws w + i)) (f32_of_int NOISE_MAX_VARIANCE)) (Fin 8)) [0..<NOISE_STEPS],
           w_draws := w_draws w + NOISE_STEPS\<rparr>) ! i = Fin q \<and> of_int (9 * a) \<le> q \<and> q \<le> of_int (9 * b)"
    using noise_value [OF q(2,3) assms(2,3,4)] i q(1) by simp
qed simp

lemma CreateGenerateNoise_simps [simp]:
  "tileData (CreateGenerateNoise rnd w) = tileData w" "w_header (CreateGenerateNoise rnd w) = w_header w"
  "collision (CreateGenerateNoise rnd w) = collision w"
  "w_draws (CreateGenerateNoise rnd w) = w_draws w + NOISE_STEPS"
  by (simp_all add: CreateGenerateNoise_def)

text \<open>The interpolated noise stays within one of the upper end.\<close>

lemma lerp_between:
  fixes p q t :: rat and a b :: int
  assumes "of_int a \<le> p" "p \<le> of_int b" "of_int a \<le> q" "q \<le> of_int b" "0 \<le> t" "t \<le> 1" "0 \<le> a" "b \<le> 100"
  shows "\<exists>r. f32_add (Fin p) (f32_mul (f32_sub (Fin q) (Fin p)) (Fin t)) = Fin r \<and>
    of_int (2 * a - b) \<le> r \<and> r \<le> of_int (b + 1)"
proof -
  define k where "k = \<lfloor>p\<rfloor>"
  have pk: "of_int k \<le> p" "p < of_int k + 1" unfolding k_def by linarith+
  have k: "a \<le> k" "k \<le> b"
    using assms(1,2) by (simp_all add: k_def le_floor_iff floor_le_iff)
  have ab: "a \<le> b" using assms(1,2) by (metis of_int_le_iff order_trans)
  have "q + - p \<le> of_int (b - k)" using assms(4) pk(1) by simp
  moreover have "of_int (a - b) \<le> q + - p" using assms(2,3) by simp
  ultimately obtain d where d: "round32 (q + - p) = Fin d" "of_int (a - b) \<le> d" "d \<le> of_int (b - k)"
    using round32_between [of "a - b" "q + - p" "b - k"] k ab assms(7,8) by auto
  have "of_int (a - b) \<le> d * t \<and> d * t \<le> of_int (b - k)"
  proof (cases "0 \<le> d")
    case True
    then have "0 \<le> d * t" "d * t \<le> d" using assms(5,6) by (simp_all add: mult_left_le)
    moreover have "rat_of_int (a - b) \<le> 0" using ab by simp
    ultimately show ?thesis using d by linarith
  next
    case False
    then have "d * t \<le> 0" "d \<le> d * t" using assms(5,6) by (simp_all add: mult_nonpos_nonneg mult_le_cancel_left1)
    moreover have "0 \<le> rat_of_int (b - k)" using k by simp
    ultimately show ?thesis using d by linarith
  qed
  then obtain e where e: "round32 (d * t) = Fin e" "of_int (a - b) \<le> e" "e \<le> of_int (b - k)"
    using round32_between [of "a - b" "d * t" "b - k"] k ab assms(7,8) by auto
  have "of_int (2 * a - b) \<le> p + e" using assms(1) e(2) by simp
  moreover have "p + e \<le> of_int (b + 1)" using pk(2) e(3) by simp
  ultimately show ?thesis
    using round32_between [of "2 * a - b" "p + e" "b + 1"] k ab assms(7,8) d(1) e(1) by (simp add: f32_sub_def)
qed

lemma step_fraction:
  assumes "0 < step" and "sp \<le> step" and "step < 2 ^ 24"
  shows "\<exists>t. f32_div (f32_of_int (int sp)) (f32_of_int (int step)) = Fin t \<and> 0 \<le> t \<and> t \<le> 1"
proof -
  have "f32_of_int (int sp) = Fin (of_nat sp)" "f32_of_int (int step) = Fin (of_nat step)"
    using f32_of_int_exact [of "int sp"] f32_of_int_exact [of "int step"] assms(2,3) by auto
  then show ?thesis
    using round32_between [of 0 "of_nat sp / of_nat step" 1] assms(1,2) by auto
qed

lemma noise_at_between:
  assumes "noise_between a b noise" and "0 < step" and "sp \<le> step" and "step < 2 ^ 24" and "sc < NOISE_STEPS"
    and "0 \<le> a" and "b \<le> 100"
  shows "\<exists>r. noise_at noise step sc sp = Fin r \<and> of_int (2 * a - b) \<le> r \<and> r \<le> of_int (b + 1)"
proof -
  define sn where "sn = (if sc < NOISE_STEPS - 1 then sc + 1 else sc)"
  have "sn < NOISE_STEPS" using assms(5) by (auto simp: sn_def)
  then obtain p q where pq: "noise ! sc = Fin p" "of_int a \<le> p" "p \<le> of_int b" "noise ! sn = Fin q" "of_int a \<le> q" "q \<le> of_int b"
    using assms(1,5) unfolding noise_between_def by blast
  obtain t where t: "f32_div (f32_of_int (int sp)) (f32_of_int (int step)) = Fin t" "0 \<le> t" "t \<le> 1"
    using step_fraction [OF assms(2,3,4)] by blast
  have "noise_at noise step sc sp = f32_add (Fin p) (f32_mul (f32_sub (Fin q) (Fin p)) (Fin t))"
    unfolding noise_at_def Let_def t(1) pq(1) using pq(1,4) by (simp add: sn_def split: if_splits)
  then show ?thesis using lerp_between [OF pq(2,3,5,6) t(2,3) assms(6,7)] by simp
qed


section \<open>A row of terrain\<close>

text \<open>A change of the tiles that only puts the tile \<open>t\<close>, and only where \<open>R\<close> holds of the column and the row,
  in a world whose rows are \<open>w\<close> wide.\<close>

definition only_puts :: "nat \<Rightarrow> byte \<Rightarrow> (nat \<Rightarrow> nat \<Rightarrow> bool) \<Rightarrow> byte list \<Rightarrow> byte list \<Rightarrow> bool" where
  "only_puts w t R a b \<longleftrightarrow> length b = length a \<and>
     (\<forall>i < length a. b ! i = a ! i \<or> (b ! i = t \<and> R (i mod w) (i div w)))"

lemma only_puts_refl [simp]: "only_puts w t R a a"
  by (simp add: only_puts_def)

lemma only_puts_trans: "only_puts w t R a b \<Longrightarrow> only_puts w t R b c \<Longrightarrow> only_puts w t R a c"
  unfolding only_puts_def by metis

lemma only_puts_update:
  assumes "x < w" and "R x r"
  shows "only_puts w t R a (a[r * w + x := t])"
proof -
  have "(r * w + x) div w = r" "(r * w + x) mod w = x" using assms(1) by simp_all
  then show ?thesis using assms(2) unfolding only_puts_def
    by (metis length_list_update nth_list_update_eq nth_list_update_neq)
qed

text \<open>A step of the noise is this many tiles long.\<close>

definition noise_len :: "nat \<Rightarrow> nat" where "noise_len step = step div 8 + 1"

lemma noise_len_advance:
  "(if step < 8 * (x mod noise_len step) + 8 then (x div noise_len step + 1, 0)
    else (x div noise_len step, 8 * (x mod noise_len step) + 8)) =
   (Suc x div noise_len step, 8 * (Suc x mod noise_len step))"
proof -
  let ?n = "noise_len step"
  have "step < 8 * (x mod ?n) + 8 \<longleftrightarrow> step div 8 < x mod ?n + 1" by (simp add: div_less_iff_less_mult) linarith
  also have "\<dots> \<longleftrightarrow> Suc (x mod ?n) = ?n"
  proof -
    have "x mod ?n < ?n" by (simp add: noise_len_def)
    then show ?thesis unfolding noise_len_def by arith
  qed
  finally have "step < 8 * (x mod ?n) + 8 \<longleftrightarrow> Suc (x mod ?n) = ?n" .
  then show ?thesis by (simp add: mod_Suc div_Suc)
qed

lemma noise_len_le: "8 * (x mod noise_len step) \<le> step"
proof -
  have "x mod noise_len step \<le> step div 8" using mod_less_divisor [of "noise_len step" x] by (simp add: noise_len_def)
  then show ?thesis by linarith
qed

text \<open>The sizes for which the arithmetic of the generator is exact, and those of them for which it is safe whatever the noise.\<close>

definition positive_size :: "int vec2 \<Rightarrow> bool" where
  "positive_size sz \<longleftrightarrow> 0 < vx sz \<and> vx sz < 2 ^ 29 \<and> 0 < vy sz \<and> vy sz < 2 ^ 23 \<and> vx sz * vy sz < 2 ^ 31"

definition good_size :: "int vec2 \<Rightarrow> bool" where
  "good_size sz \<longleftrightarrow> 36 \<le> vx sz \<and> 17 \<le> vy sz \<and> vy sz < 2 ^ 23 \<and> vx sz * vy sz < 2 ^ 31"

lemma positive_size_bounds:
  assumes "positive_size sz"
  shows "to_u32 (vx sz) = nat (vx sz)" and "to_u32 (vy sz) = nat (vy sz)" and "i32_mul (vx sz) (vy sz) = vx sz * vy sz"
    and "0 < nat (vy sz)" and "nat (vy sz) < 2 ^ 23"
proof -
  show "0 < nat (vy sz)" "nat (vy sz) < 2 ^ 23" using assms by (simp_all add: positive_size_def nat_less_iff)
  show "to_u32 (vx sz) = nat (vx sz)" using assms by (auto simp: positive_size_def to_u32_def)
  show "to_u32 (vy sz) = nat (vy sz)" using assms by (auto simp: positive_size_def to_u32_def)
  have "0 \<le> vx sz * vy sz" using assms by (intro mult_nonneg_nonneg) (auto simp: positive_size_def)
  with assms show "i32_mul (vx sz) (vy sz) = vx sz * vy sz" by (auto simp: i32_mul_def positive_size_def)
qed

lemma good_size_bounds:
  assumes "good_size sz"
  shows "to_u32 (vx sz) = nat (vx sz)" and "to_u32 (vy sz) = nat (vy sz)" and "to_u32 (vy sz - 8) = nat (vy sz) - 8"
    and "vx sz < 2 ^ 27" and "i32_mul (vx sz) (vy sz) = vx sz * vy sz"
proof -
  have "vx sz * 17 \<le> vx sz * vy sz" using assms by (intro mult_left_mono) (auto simp: good_size_def)
  moreover have "vx sz * vy sz < 2 ^ 31" using assms by (simp add: good_size_def)
  ultimately have "vx sz * 17 < 2 ^ 31" by (rule le_less_trans)
  then show b: "vx sz < 2 ^ 27" by simp
  show "to_u32 (vx sz) = nat (vx sz)" using assms b by (auto simp: good_size_def to_u32_def)
  show "to_u32 (vy sz) = nat (vy sz)" using assms by (auto simp: good_size_def to_u32_def)
  have "0 \<le> vy sz - 8" "vy sz - 8 < 2 ^ 32" using assms by (auto simp: good_size_def)
  then have "(vy sz - 8) mod 2 ^ 32 = vy sz - 8" by (rule mod_pos_pos_trivial)
  then show "to_u32 (vy sz - 8) = nat (vy sz) - 8" by (simp add: to_u32_def nat_diff_distrib')
  have "0 \<le> vx sz * vy sz" using assms by (intro mult_nonneg_nonneg) (auto simp: good_size_def)
  with assms show "i32_mul (vx sz) (vy sz) = vx sz * vy sz"
    by (auto simp: i32_mul_def good_size_def)
qed

lemma good_size_positive: "good_size sz \<longleftrightarrow> positive_size sz \<and> 36 \<le> vx sz \<and> 17 \<le> vy sz"
  using good_size_bounds(4) [of sz] by (auto simp: good_size_def positive_size_def)

text \<open>The row a tile of row \<open>y\<close> is put into.\<close>

lemma adjusted_between:
  assumes "of_int l \<le> r" and "r \<le> of_int h" and "int y < 2 ^ 23" and "h \<le> int y" and "-200 \<le> l"
  shows "\<exists>k. f32_to_u32 (f32_sub (f32_of_int (int y)) (Fin r)) = Inr k \<and> int y - h \<le> k \<and> k \<le> int y - l"
proof -
  have y: "f32_of_int (int y) = Fin (of_nat y)"
    using f32_of_int_exact [of "int y"] assms(3) by simp
  have lh: "l \<le> h" using assms(1,2) by (metis of_int_le_iff order_trans)
  have "of_int (int y - h) \<le> of_nat y + - r" "of_nat y + - r \<le> of_int (int y - l)"
    using assms(1,2) by simp_all
  then obtain v where v: "round32 (of_nat y + - r) = Fin v" "of_int (int y - h) \<le> v" "v \<le> of_int (int y - l)"
    using round32_between [of "int y - h" "of_nat y + - r" "int y - l"] lh assms(3,4,5) by auto
  have v0: "0 \<le> v" using v(2) assms(4) by (meson diff_ge_0_iff_ge of_int_0_le_iff order_trans)
  have "int y - l \<le> 2 ^ 24" using assms(3,5) by simp
  then have "rat_of_int (int y - l) \<le> of_int (2 ^ 24)" by (rule of_int_le_iff [THEN iffD2])
  with v(3) have v1: "v < 4294967296" by simp
  define k where "k = \<lfloor>v\<rfloor>"
  have "int y - h \<le> k" "k \<le> int y - l"
    using v(2,3) by (simp_all add: k_def le_floor_iff floor_le_iff)
  then show ?thesis
    using assms v0 v1 v(1) by (simp add: f32_sub_def y trunc_rat_def k_def Let_def)
qed

text \<open>Where a row puts its tiles: moved by the noise as long as there are steps of it, or in place; never into
  the last seven rows. All of the noise lies between \<open>a\<close> and \<open>b\<close>.\<close>

definition row_target :: "int \<Rightarrow> int \<Rightarrow> nat \<Rightarrow> nat \<Rightarrow> int \<Rightarrow> nat \<Rightarrow> nat \<Rightarrow> nat \<Rightarrow> bool" where
  "row_target a b step fg h y x r =
     (if fg \<le> y \<and> Suc x div noise_len step < NOISE_STEPS
      then min (int y - b - 1) (h - 8) \<le> int r \<and> int r \<le> h - 8 \<and> int r \<le> int y + b - 2 * a
      else r = min y (nat (h - 8)))"

lemma place_tile_ok:
  assumes sz: "good_size sz" and n: "noise_between a b noise" and ab: "0 \<le> a" "b \<le> 15" "fg \<le> y \<Longrightarrow> b + 1 \<le> int y"
    and y: "y < nat (vy sz)" and step: "0 < step" "step < 2 ^ 24" and x: "x < nat (vx sz)"
    and len: "length tiles = nat (vx sz) * nat (vy sz)"
  shows "\<exists>r. place_tile noise sz step fg y t x (tiles, x div noise_len step, 8 * (x mod noise_len step)) =
      Inr (tiles[r * nat (vx sz) + x := pointersToIndicesMap t], Suc x div noise_len step, 8 * (Suc x mod noise_len step)) \<and>
      row_target a b step fg (vy sz) y x r"
proof -
  note gb = good_size_bounds [OF sz]
  let ?sc = "Suc x div noise_len step" and ?sp = "8 * (Suc x mod noise_len step)"
  have "x + 1 < 2 ^ 32" using x gb(4) by simp
  moreover have "x div noise_len step + 1 \<le> x + 1" by simp
  ultimately have "x div noise_len step + 1 < 2 ^ 32" by (rule le_less_trans [rotated])
  then have wrap: "(x div noise_len step + 1) mod 2 ^ 32 = x div noise_len step + 1" "(8 * (x mod noise_len step) + 8) mod 2 ^ 32 = 8 * (x mod noise_len step) + 8"
    using step(2) noise_len_le [of x step] by simp_all
  let ?target = "if fg \<le> y \<and> ?sc < NOISE_STEPS
      then map_res nat (f32_to_u32 (f32_sub (f32_of_int (int y)) (noise_at noise step ?sc ?sp))) else Inr y"
  have "\<exists>k. ?target = Inr k \<and> (if fg \<le> y \<and> ?sc < NOISE_STEPS
      then int y - b - 1 \<le> int k \<and> int k \<le> int y + b - 2 * a else k = y)"
  proof (cases "fg \<le> y \<and> ?sc < NOISE_STEPS")
    case True
    obtain r where r: "noise_at noise step ?sc ?sp = Fin r" "of_int (2 * a - b) \<le> r" "r \<le> of_int (b + 1)"
      using noise_at_between [OF n step(1) noise_len_le step(2) _ ab(1)] True ab(2) by auto
    have y: "int y < 2 ^ 23" using y sz unfolding good_size_def by linarith
    have by1: "b + 1 \<le> int y" using ab(3) True by simp
    have "a \<le> b"
      using n unfolding noise_between_def NOISE_STEPS_def by (metis of_int_le_iff order_trans zero_less_numeral)
    then have l: "-200 \<le> 2 * a - b" using ab by linarith
    obtain k where k: "f32_to_u32 (f32_sub (f32_of_int (int y)) (Fin r)) = Inr k" "int y - (b + 1) \<le> k" "k \<le> int y - (2 * a - b)"
      using adjusted_between [OF r(2,3) y by1 l] by blast
    have "0 \<le> k" using k(2) by1 by linarith
    with True r(1) k show ?thesis by (intro exI [of _ "nat k"]) (simp del: f32_to_int.simps)
  next
    case False
    show ?thesis unfolding if_not_P [OF False] by simp
  qed
  then obtain k where k: "?target = Inr k" "if fg \<le> y \<and> ?sc < NOISE_STEPS
      then int y - b - 1 \<le> int k \<and> int k \<le> int y + b - 2 * a else k = y" by blast
  define r where "r = (if nat (vy sz) - 8 < k then nat (vy sz) - 8 else k)"
  have sz8: "17 \<le> vy sz" using sz by (simp add: good_size_def)
  have rr: "(if to_u32 (vy sz - int 8) < k then to_u32 (vy sz - int 8) else k) = r"
    using gb(3) by (simp add: r_def)
  have r: "row_target a b step fg (vy sz) y x r"
    using k(2) sz8 by (auto simp: row_target_def r_def)
  have "r < nat (vy sz)" using sz8 by (auto simp: r_def)
  then have "Suc r * nat (vx sz) \<le> nat (vy sz) * nat (vx sz)" by (intro mult_le_mono1) simp
  then have lt: "r * nat (vx sz) + x < nat (vx sz) * nat (vy sz)" using x by (simp add: mult.commute)
  have "nat (vx sz) * nat (vy sz) < 2 ^ 32"
    using sz by (simp add: good_size_def nat_mult_distrib [symmetric] nat_less_iff)
  with lt have m: "(r * nat (vx sz) + x) mod 2 ^ 32 = r * nat (vx sz) + x" by (intro mod_less) linarith
  have "place_tile noise sz step fg y t x (tiles, x div noise_len step, 8 * (x mod noise_len step)) =
      Inr (tiles[r * nat (vx sz) + x := pointersToIndicesMap t], ?sc, ?sp)"
    unfolding place_tile_def split_conv Let_def TILE_SIZE_def wrap noise_len_advance k(1) bind_res_Inr rr gb(1)
    using lt m len by simp
  with r show ?thesis by blast
qed


lemma nth_update_columns:
  assumes "x < w" and "x' < w" and "x \<noteq> x'"
  shows "(a[r * w + x := t]) ! (r' * w + x') = a ! (r' * w + x')"
proof -
  have "(r * w + x) mod w = x" "(r' * w + x') mod w = x'" using assms by simp_all
  with assms(3) have "r * w + x \<noteq> r' * w + x'" by metis
  then show ?thesis by simp
qed

text \<open>A whole row: it puts its tile where it may, and puts it in place in every column the noise does not reach.\<close>

lemma row_ok:
  assumes sz: "good_size sz" and n: "noise_between a b noise" and ab: "0 \<le> a" "b \<le> 15" "fg \<le> y \<Longrightarrow> b + 1 \<le> int y"
    and y: "y < nat (vy sz)" and step: "0 < step" "step < 2 ^ 24"
    and len: "length tiles = nat (vx sz) * nat (vy sz)"
  shows "\<exists>tiles' sc sp. fold_res (place_tile noise sz step fg y t) [0..<nat (vx sz)] (tiles, 0, 0) = Inr (tiles', sc, sp) \<and>
    only_puts (nat (vx sz)) (pointersToIndicesMap t) (row_target a b step fg (vy sz) y) tiles tiles' \<and>
    (\<forall>x < nat (vx sz). fg \<le> y \<longrightarrow> NOISE_STEPS * noise_len step \<le> Suc x \<longrightarrow>
       tiles' ! (min y (nat (vy sz) - 8) * nat (vx sz) + x) = pointersToIndicesMap t) \<and>
    (\<forall>x < nat (vx sz). y < fg \<longrightarrow> tiles' ! (min y (nat (vy sz) - 8) * nat (vx sz) + x) = pointersToIndicesMap t)"
proof -
  let ?w = "nat (vx sz)" and ?t = "pointersToIndicesMap t" and ?k = "min y (nat (vy sz) - 8)" and ?n = "noise_len step"
  define fixed where "fixed = (\<lambda>x. y < fg \<or> NOISE_STEPS * ?n \<le> Suc x)"
  define P where "P = (\<lambda>x (tiles', sc, sp). sc = x div ?n \<and> sp = 8 * (x mod ?n) \<and>
     only_puts ?w ?t (row_target a b step fg (vy sz) y) tiles tiles' \<and>
     (\<forall>x' < x. fixed x' \<longrightarrow> tiles' ! (?k * ?w + x') = ?t))"
  have "\<exists>s'. fold_res (place_tile noise sz step fg y t) [0..<?w] (tiles, 0, 0) = Inr s' \<and> P ?w s'"
  proof (rule fold_res_upt)
    show "P 0 (tiles, 0, 0)" by (simp add: P_def)
  next
    fix x s assume x: "x < ?w" and P: "P x s"
    obtain tiles1 where s: "s = (tiles1, x div ?n, 8 * (x mod ?n))"
      and puts: "only_puts ?w ?t (row_target a b step fg (vy sz) y) tiles tiles1"
      and placed: "\<And>x'. x' < x \<Longrightarrow> fixed x' \<Longrightarrow> tiles1 ! (?k * ?w + x') = ?t"
      using P by (cases s) (auto simp: P_def)
    have len1: "length tiles1 = ?w * nat (vy sz)" using puts len by (simp add: only_puts_def)
    obtain r where r: "place_tile noise sz step fg y t x s = Inr (tiles1[r * ?w + x := ?t], Suc x div ?n, 8 * (Suc x mod ?n))"
      "row_target a b step fg (vy sz) y x r"
      using place_tile_ok [OF sz n ab y step x len1, of fg t] unfolding s by blast
    have k: "?k * ?w + x < length tiles1"
    proof -
      have "Suc ?k * ?w \<le> nat (vy sz) * ?w" using y by (intro mult_le_mono1) simp
      then show ?thesis using x len1 by (simp add: mult.commute)
    qed
    have "r = ?k" if "fixed x"
    proof -
      have "\<not> (fg \<le> y \<and> Suc x div ?n < NOISE_STEPS)"
        using that by (auto simp: fixed_def noise_len_def div_less_iff_less_mult)
      then have "r = min y (nat (vy sz - 8))" using r(2) by (simp add: row_target_def)
      then show ?thesis using sz by (simp add: good_size_def nat_diff_distrib')
    qed
    then have "\<forall>x' < Suc x. fixed x' \<longrightarrow> (tiles1[r * ?w + x := ?t]) ! (?k * ?w + x') = ?t"
      using placed nth_update_columns [of x ?w _ tiles1 r ?t ?k] x k by (auto simp: less_Suc_eq)
    moreover have "only_puts ?w ?t (row_target a b step fg (vy sz) y) tiles (tiles1[r * ?w + x := ?t])"
      by (rule only_puts_trans [OF puts only_puts_update [where R = "row_target a b step fg (vy sz) y", OF x r(2)]])
    ultimately show "\<exists>t'. place_tile noise sz step fg y t x s = Inr t' \<and> P (Suc x) t'"
      using r(1) by (intro exI [of _ "(tiles1[r * ?w + x := ?t], Suc x div ?n, 8 * (Suc x mod ?n))"]) (simp add: P_def)
  qed
  then obtain tiles' sc sp where "fold_res (place_tile noise sz step fg y t) [0..<?w] (tiles, 0, 0) = Inr (tiles', sc, sp)"
    "P ?w (tiles', sc, sp)" by (metis prod_cases3)
  then show ?thesis by (auto simp: P_def fixed_def)
qed


section \<open>All rows\<close>

text \<open>The tile of a height.\<close>

definition layer :: "nat \<Rightarrow> tile" where
  "layer y = (if y < 16 then WorldTileAir else if y < 28 then WorldTileGrass else if y < 64 then WorldTileStone else WorldTileLava)"

definition new_layer :: "nat \<Rightarrow> bool" where "new_layer y \<longleftrightarrow> y = 16 \<or> y = 28 \<or> y = 64"

lemma pointersToIndicesMap_simps [simp]:
  "pointersToIndicesMap WorldTileAir = 0" "pointersToIndicesMap WorldTileGrass = 1"
  "pointersToIndicesMap WorldTileStone = 2" "pointersToIndicesMap WorldTileLava = 3"
  by (simp_all add: pointersToIndicesMap_def tileIndices_def)

lemma layer_index: "pointersToIndicesMap (layer y) < 4"
  by (simp add: layer_def)

lemma layer_step:
  "(case map_of heightData y of None \<Rightarrow> (w, layer (y - 1))
    | Some t \<Rightarrow> if 0 < y \<and> t \<noteq> layer (y - 1) then (w', t) else (w, layer (y - 1))) =
   (if new_layer y then w' else w, layer y)"
  by (auto simp: heightData_def layer_def new_layer_def)

lemma fold_keeps: "(\<And>x s. x \<in> set xs \<Longrightarrow> P s \<Longrightarrow> P (f x s)) \<Longrightarrow> P s \<Longrightarrow> P (fold f xs s)"
  by (induction xs arbitrary: s) auto

lemma first_ground_16:
  assumes "17 \<le> h" and "h \<le> 2 ^ 32 - 8"
  shows "first_ground h = Inr 16"
proof -
  define f where "f = (\<lambda>k (currentTile, firstGroundY).
        let y = k * TILE_SIZE in
        case map_of heightData y of
          None \<Rightarrow> (currentTile, firstGroundY)
        | Some t \<Rightarrow>
            if 0 < y \<and> t \<noteq> currentTile then
              (t, if t \<noteq> WorldTileAir \<and> firstGroundY = 0 then y else firstGroundY)
            else (currentTile, firstGroundY :: nat))"
  define m where "m = (h + (TILE_SIZE - 1)) div TILE_SIZE"
  have "3 \<le> m" using assms(1) by (simp add: m_def TILE_SIZE_def)
  then have "[0..<m] = [0..<3] @ [3..<m]" by (metis upt_add_eq_append le_add_diff_inverse zero_le)
  moreover have "snd (fold f [0..<3] (WorldTileAir, 0)) = 16"
    by (simp add: f_def TILE_SIZE_def heightData_def upt_rec numeral_3_eq_3)
  moreover have "snd (fold f xs s) = 16" if "snd s = 16" for xs s
    by (rule fold_keeps [where P = "\<lambda>s. snd s = 16", OF _ that]) (auto simp: f_def Let_def split: option.splits)
  ultimately have "snd (fold f [0..<m] (WorldTileAir, 0)) = 16" by simp
  then show ?thesis
    using assms(2) unfolding first_ground_def f_def m_def by (simp add: TILE_SIZE_def)
qed

lemma gen_row_ok:
  assumes sz: "good_size (wh_size (w_header w))" and tiles: "tileData w = Some tiles"
    and len: "length tiles = nat (size_x w) * nat (size_y w)" and y: "y < nat (size_y w)"
    and n: "noise_between a b (noiseData (if new_layer y then CreateGenerateNoise rnd w else w))"
    and ab: "0 \<le> a" "b \<le> 15" and step: "0 < step" "step < 2 ^ 24"
  shows "\<exists>tiles'. gen_row rnd step 16 y (w, layer (y - 1)) =
      Inr ((if new_layer y then CreateGenerateNoise rnd w else w)\<lparr>tileData := Some tiles'\<rparr>, layer y) \<and>
    only_puts (nat (size_x w)) (pointersToIndicesMap (layer y)) (row_target a b step 16 (size_y w) y) tiles tiles' \<and>
    (\<forall>x < nat (size_x w). y < 16 \<or> NOISE_STEPS * noise_len step \<le> Suc x \<longrightarrow>
       tiles' ! (min y (nat (size_y w) - 8) * nat (size_x w) + x) = pointersToIndicesMap (layer y))"
proof -
  let ?w = "if new_layer y then CreateGenerateNoise rnd w else w"
  have b: "16 \<le> y \<Longrightarrow> b + 1 \<le> int y" using ab(2) by linarith
  obtain tiles' sc sp where r: "fold_res (place_tile (noiseData ?w) (wh_size (w_header w)) step 16 y (layer y)) [0..<nat (size_x w)] (tiles, 0, 0) = Inr (tiles', sc, sp)"
    "only_puts (nat (size_x w)) (pointersToIndicesMap (layer y)) (row_target a b step 16 (size_y w) y) tiles tiles'"
    "\<forall>x < nat (size_x w). 16 \<le> y \<longrightarrow> NOISE_STEPS * noise_len step \<le> Suc x \<longrightarrow>
       tiles' ! (min y (nat (size_y w) - 8) * nat (size_x w) + x) = pointersToIndicesMap (layer y)"
    "\<forall>x < nat (size_x w). y < 16 \<longrightarrow>
       tiles' ! (min y (nat (size_y w) - 8) * nat (size_x w) + x) = pointersToIndicesMap (layer y)"
    using row_ok [OF sz n ab b y step len, where t = "layer y"] by blast
  have h: "wh_size (w_header ?w) = wh_size (w_header w)" "tileData ?w = Some tiles" using tiles by auto
  have "gen_row rnd step 16 y (w, layer (y - 1)) = Inr (?w\<lparr>tileData := Some tiles'\<rparr>, layer y)"
    unfolding gen_row_def split_conv layer_step Let_def h good_size_bounds(1) [OF sz] r(1)
    using sz by (simp add: r(1) good_size_def)
  then show ?thesis using r(2,3,4) by (metis not_le)
qed

lemma good_size_step:
  assumes "good_size sz"
  shows "to_u32 (vx sz sdiv int NOISE_STEPS) = nat (vx sz) div 36" and "0 < nat (vx sz) div 36" and "nat (vx sz) div 36 < 2 ^ 24"
proof -
  have x: "36 \<le> vx sz" "vx sz < 2 ^ 27" using assms good_size_bounds(4) [OF assms] by (auto simp: good_size_def)
  then have "vx sz sdiv int NOISE_STEPS = vx sz div 36" by (simp add: signed_divide_int_def NOISE_STEPS_def)
  moreover have "to_u32 (vx sz div 36) = nat (vx sz div 36)" using x by (simp add: to_u32_def)
  ultimately show "to_u32 (vx sz sdiv int NOISE_STEPS) = nat (vx sz) div 36"
    using x(1) by (simp add: nat_div_distrib)
  show "0 < nat (vx sz) div 36" "nat (vx sz) div 36 < 2 ^ 24" using x by (simp_all add: div_greater_zero_iff)
qed

text \<open>The noise of a world whose random numbers lie in the unit interval.\<close>

lemma noise_between_random:
  assumes "unit_random rnd"
  shows "noise_between 0 9 (noiseData (CreateGenerateNoise rnd w))"
  using CreateGenerateNoise_between [of rnd w 0 1] assms by (simp add: unit_random_def)

text \<open>The world after the rows before \<open>y\<close>.\<close>

definition rows_done :: "world \<Rightarrow> byte list \<Rightarrow> nat \<Rightarrow> world \<times> tile \<Rightarrow> bool" where
  "rows_done w0 old y s \<longleftrightarrow>
     (let (w, cur) = s; X = nat (size_x w0); Y = nat (size_y w0); n = noise_len (X div 36) in
      cur = layer (y - 1) \<and> w_header w = w_header w0 \<and> collision w = collision w0 \<and> noise_between 0 9 (noiseData w) \<and>
      (\<exists>tiles. tileData w = Some tiles \<and> length tiles = X * Y \<and>
        (\<forall>i < X * Y. tiles ! i = old ! i \<or> (tiles ! i < 4 \<and> i div X \<le> Y - 8)) \<and>
        (\<forall>x < X. \<forall>r < min y 6. tiles ! (r * X + x) = 0) \<and>
        (\<forall>x < X. \<forall>r < min y (Y - 8). NOISE_STEPS * n \<le> Suc x \<longrightarrow> tiles ! (r * X + x) = pointersToIndicesMap (layer r))))"


lemma row_target_low:
  assumes "row_target a b step fg h y x r" and "17 \<le> h"
  shows "r \<le> nat h - 8"
  using assms by (auto simp: row_target_def split: if_splits)

lemma row_target_sky:
  assumes "row_target 0 9 step 16 h y x r" and "17 \<le> h" and "16 \<le> y"
  shows "6 \<le> r"
  using assms by (auto simp: row_target_def split: if_splits)

lemma row_target_flat:
  assumes "row_target a b step fg h y x r" and "NOISE_STEPS * noise_len step \<le> Suc x"
  shows "r = min y (nat h - 8)"
proof -
  have "\<not> Suc x div noise_len step < NOISE_STEPS"
    using assms(2) by (simp add: noise_len_def div_less_iff_less_mult)
  with assms(1) show ?thesis by (auto simp: row_target_def nat_diff_distrib')
qed

lemma index_less: "r < Y \<Longrightarrow> x < X \<Longrightarrow> r * X + x < X * (Y :: nat)"
proof -
  assume "r < Y" "x < X"
  then have "Suc r * X \<le> Y * X" by (intro mult_le_mono1) simp
  with \<open>x < X\<close> show ?thesis by (simp add: mult.commute)
qed

lemma only_puts_at:
  assumes "only_puts X t R a b" and "length a = X * Y" and "x < X" and "r < Y"
  shows "b ! (r * X + x) = a ! (r * X + x) \<or> (b ! (r * X + x) = t \<and> R x r)"
proof -
  have "(r * X + x) div X = r" "(r * X + x) mod X = x" using assms(3) by simp_all
  with assms(1,2) index_less [OF assms(4,3)] show ?thesis unfolding only_puts_def by metis
qed

lemma rows_done_step:
  assumes sz: "good_size (wh_size (w_header w0))" and rnd: "unit_random rnd" and y: "y < nat (size_y w0)"
    and inv: "rows_done w0 old y s"
  shows "\<exists>s'. gen_row rnd (nat (size_x w0) div 36) 16 y s = Inr s' \<and> rows_done w0 old (Suc y) s'"
proof -
  let ?X = "nat (size_x w0)" and ?Y = "nat (size_y w0)" and ?n = "noise_len (nat (size_x w0) div 36)"
  have Y: "17 \<le> size_y w0" using sz by (simp add: good_size_def)
  obtain w tiles where s: "s = (w, layer (y - 1))" and w: "w_header w = w_header w0" "collision w = collision w0"
      "noise_between 0 9 (noiseData w)" "tileData w = Some tiles" and len: "length tiles = ?X * ?Y"
    and i1: "\<And>i. i < ?X * ?Y \<Longrightarrow> tiles ! i = old ! i \<or> (tiles ! i < 4 \<and> i div ?X \<le> ?Y - 8)"
    and i2: "\<And>x r. x < ?X \<Longrightarrow> r < min y 6 \<Longrightarrow> tiles ! (r * ?X + x) = 0"
    and i3: "\<And>x r. x < ?X \<Longrightarrow> r < min y (?Y - 8) \<Longrightarrow> NOISE_STEPS * ?n \<le> Suc x \<Longrightarrow>
      tiles ! (r * ?X + x) = pointersToIndicesMap (layer r)"
    using inv by (cases s) (auto simp: rows_done_def Let_def)
  let ?w1 = "if new_layer y then CreateGenerateNoise rnd w else w" and ?t = "pointersToIndicesMap (layer y)"
  have n: "noise_between 0 9 (noiseData ?w1)" using w(3) noise_between_random [OF rnd] by simp
  have sz': "good_size (wh_size (w_header w))" and len': "length tiles = nat (size_x w) * nat (size_y w)"
    and y': "y < nat (size_y w)" using sz len y w(1) by simp_all
  obtain tiles' where g: "gen_row rnd (?X div 36) 16 y s = Inr (?w1\<lparr>tileData := Some tiles'\<rparr>, layer y)"
    and puts: "only_puts ?X ?t (row_target 0 9 (?X div 36) 16 (size_y w0) y) tiles tiles'"
    and placed: "\<And>x. x < ?X \<Longrightarrow> y < 16 \<or> NOISE_STEPS * ?n \<le> Suc x \<Longrightarrow> tiles' ! (min y (?Y - 8) * ?X + x) = ?t"
    using gen_row_ok [OF sz' w(4) len' y' n order_refl _ good_size_step(2,3) [OF sz]] s w(1) by auto
  have len2: "length tiles' = ?X * ?Y" using puts len by (simp add: only_puts_def)
  have j1: "tiles' ! i = old ! i \<or> (tiles' ! i < 4 \<and> i div ?X \<le> ?Y - 8)" if "i < ?X * ?Y" for i
    using puts i1 [OF that] that len layer_index row_target_low [OF _ Y] unfolding only_puts_def by metis
  have j2: "tiles' ! (r * ?X + x) = 0" if x: "x < ?X" and r: "r < min (Suc y) 6" for x r
  proof (cases "r = y")
    case True
    then have "y < 16" "min y (?Y - 8) = y" using r Y by auto
    then show ?thesis using placed [OF x] True by (simp add: layer_def)
  next
    case False
    then have ry: "r < min y 6" "r < ?Y" using r y by auto
    consider "tiles' ! (r * ?X + x) = tiles ! (r * ?X + x)"
      | "tiles' ! (r * ?X + x) = ?t" "row_target 0 9 (?X div 36) 16 (size_y w0) y x r"
      using only_puts_at [OF puts len x ry(2)] by blast
    then show ?thesis
    proof cases
      case 1
      then show ?thesis using i2 [OF x ry(1)] by simp
    next
      case 2
      then have "y < 16" using row_target_sky [OF 2(2) Y] ry(1) by fastforce
      then show ?thesis using 2(1) by (simp add: layer_def)
    qed
  qed
  have j3: "tiles' ! (r * ?X + x) = pointersToIndicesMap (layer r)"
    if x: "x < ?X" and r: "r < min (Suc y) (?Y - 8)" and flat: "NOISE_STEPS * ?n \<le> Suc x" for x r
  proof (cases "r = y")
    case True
    then show ?thesis using placed [OF x] r flat by simp
  next
    case False
    then have ry: "r < min y (?Y - 8)" "r < ?Y" using r y by auto
    then have "\<not> row_target 0 9 (?X div 36) 16 (size_y w0) y x r"
      using row_target_flat [OF _ flat] by fastforce
    then show ?thesis using only_puts_at [OF puts len x ry(2)] i3 [OF x ry(1) flat] by simp
  qed
  have "rows_done w0 old (Suc y) (?w1\<lparr>tileData := Some tiles'\<rparr>, layer y)"
    using w n len2 j1 j2 j3 by (simp add: rows_done_def Let_def split: if_splits)
  with g show ?thesis by blast
qed

lemma CreateGenerateWorld_rows:
  assumes sz: "good_size (wh_size (w_header w))" and rnd: "unit_random rnd" and old: "tileData w = Some old"
    "length old = nat (size_x w) * nat (size_y w)" and n: "noise_between 0 9 (noiseData w)"
  shows "\<exists>w' t. CreateGenerateWorld rnd w = Inr w' \<and> rows_done w old (nat (size_y w)) (w', t)"
proof -
  have Y: "17 \<le> size_y w" "size_y w < 2 ^ 23" using sz by (simp_all add: good_size_def)
  then have fg: "first_ground (nat (size_y w)) = Inr 16" by (intro first_ground_16) auto
  have "rows_done w old 0 (w, WorldTileAir)"
    using old n by (simp add: rows_done_def Let_def layer_def)
  then obtain s' where "fold_res (gen_row rnd (nat (size_x w) div 36) 16) [0..<nat (size_y w)] (w, WorldTileAir) = Inr s'"
    "rows_done w old (nat (size_y w)) s'"
    using fold_res_upt [of "rows_done w old" "(w, WorldTileAir)" "nat (size_y w)" "gen_row rnd (nat (size_x w) div 36) 16"]
      rows_done_step [OF sz rnd] by blast
  then show ?thesis
    using fg by (cases s') (auto simp: CreateGenerateWorld_def good_size_bounds(2) [OF sz] good_size_step(1) [OF sz])
qed


section \<open>The loop of the quadtree\<close>

text \<open>\<open>scale\<close> after \<open>k\<close> turns of the loop. Neither dimension may come to rest at exactly one tile size.\<close>

definition scale_after :: "nat \<Rightarrow> nat \<Rightarrow> nat" where "scale_after k scale = (shrink ^^ k) scale"

text \<open>Where halving stops; computed by a recursion that halves while it can.\<close>

fun rest_scale :: "nat \<Rightarrow> nat" where
  "rest_scale scale = (if 8 < scale then rest_scale (scale div 2) else scale)"

declare rest_scale.simps [simp del]

lemma rest_scale_le: "rest_scale scale \<le> 8"
  by (induction scale rule: rest_scale.induct) (subst rest_scale.simps, simp)

lemma rest_scale_shrink: "rest_scale (shrink scale) = rest_scale scale"
  by (simp add: shrink_def TILE_SIZE_def rest_scale.simps [of scale])

lemma divide_child_ok:
  assumes "length (q_children q) = 4" and "\<forall>i < 4. q_children q ! i \<noteq> None" and "j < 4"
  shows "\<exists>q'. divide_child j q = Inr q' \<and> length (q_children q') = 4 \<and> (\<forall>i < 4. q_children q' ! i \<noteq> None)"
  using assms by (auto simp: divide_child_def nth_list_update split: option.splits)

definition full_quad :: "quad \<Rightarrow> bool" where
  "full_quad q \<longleftrightarrow> length (q_children q) = 4 \<and> (\<forall>i < 4. q_children q ! i \<noteq> None)"

lemma divide_children_ok:
  assumes "full_quad q"
  shows "\<exists>q'. divide_children q = Inr q' \<and> full_quad q'"
proof -
  have step: "\<exists>q'. divide_child j q = Inr q' \<and> full_quad q'" if "full_quad q" "j < 4" for j q
    using divide_child_ok [of q j] that by (simp add: full_quad_def)
  obtain a where a: "divide_child 0 q = Inr a" "full_quad a" using step [OF assms, of 0] by auto
  obtain b where b: "divide_child 1 a = Inr b" "full_quad b" using step [OF a(2), of 1] by auto
  obtain c where c: "divide_child 2 b = Inr c" "full_quad c" using step [OF b(2), of 2] by auto
  obtain d where d: "divide_child 3 c = Inr d" "full_quad d" using step [OF c(2), of 3] by auto
  show ?thesis using a b c d by (simp add: divide_children_def)
qed

lemma full_quad_Divide [simp]: "full_quad (Divide DIVIDE_2BY2 q)"
  by (simp add: full_quad_def Divide_def Let_def nth_Cons' All_less_Suc numeral_eq_Suc)

lemma divide_pass_ok:
  assumes "0 < scale" and "h < 2 ^ 30" and "int scale < 2 ^ 30" and "0 \<le> y" and "y \<le> h + int scale" and "nat (h - y) < n" and "full_quad q"
  shows "\<exists>q'. divide_pass n h scale y q = Inr q' \<and> full_quad q'"
  using assms(4-)
proof (induction n arbitrary: y q)
  case 0
  then show ?case by simp
next
  case (Suc n)
  show ?case
  proof (cases "y < h")
    case True
    have "to_i32 (y + int scale) = y + int scale"
      using assms(2,3) True Suc.prems(1) by (simp add: to_i32_def)
    moreover obtain q' where "divide_children q = Inr q'" "full_quad q'"
      using divide_children_ok [OF Suc.prems(4)] by blast
    moreover have "nat (h - (y + int scale)) < n" using Suc.prems True assms(1) by linarith
    ultimately show ?thesis using Suc.IH [of "y + int scale" q'] Suc.prems True by simp
  next
    case False
    then show ?thesis using Suc.prems by simp
  qed
qed

lemma shrink_le: "shrink s \<le> s" by (simp add: shrink_def)

lemma shrink_pos: "0 < s \<Longrightarrow> 0 < shrink s" by (simp add: shrink_def TILE_SIZE_def)

lemma shrink_less: "8 < s \<Longrightarrow> shrink s \<le> s div 2" by (simp add: shrink_def TILE_SIZE_def)

lemma quadtree_loop_returns:
  assumes "h < 2 ^ 30" and "rest_scale sx \<noteq> 8" and "rest_scale sy \<noteq> 8" and "0 < sy" and "int sy < 2 ^ 30"
    and "sx + sy < n" and "full_quad q"
  shows "\<exists>q'. quadtree_loop n h sx sy q = Inr q' \<and> full_quad q'"
  using assms(2-)
proof (induction n arbitrary: sx sy q)
  case 0
  then show ?case by simp
next
  case (Suc n)
  show ?case
  proof (cases "TILE_SIZE \<le> sx \<or> TILE_SIZE \<le> sy")
    case True
    obtain q' where q': "divide_pass (nat h + 1) h sy 0 q = Inr q'" "full_quad q'"
    proof (cases "0 \<le> h")
      case True
      then show ?thesis
        using that divide_pass_ok [of sy h 0 "nat h + 1" q] assms(1) Suc.prems by auto
    next
      case False
      then show ?thesis using that [of q] Suc.prems by simp
    qed
    have eight: "s \<noteq> 8" if "rest_scale s \<noteq> 8" for s using that rest_scale.simps [of 8] by auto
    have "shrink sx + shrink sy < sx + sy"
      using True eight [OF Suc.prems(1)] eight [OF Suc.prems(2)]
      by (auto simp: shrink_def TILE_SIZE_def)
    then have "shrink sx + shrink sy < n" using Suc.prems by simp
    moreover have "int (shrink sy) < 2 ^ 30" using shrink_le [of sy] Suc.prems(4) by linarith
    ultimately have "\<exists>q''. quadtree_loop n h (shrink sx) (shrink sy) q' = Inr q'' \<and> full_quad q''"
      using Suc.IH [of "shrink sx" "shrink sy" q'] Suc.prems q'(2) shrink_pos [of sy]
      by (simp add: rest_scale_shrink)
    with True q'(1) show ?thesis by simp
  next
    case False
    then show ?thesis using Suc.prems by simp
  qed
qed

lemma quadtree_loop_hangs:
  assumes "0 \<le> h" and "h < 2 ^ 30" and "rest_scale sx = 8 \<or> rest_scale sy = 8" and "0 < sy" and "int sy < 2 ^ 30" and "full_quad q"
  shows "quadtree_loop n h sx sy q = Inl NoReturn"
  using assms(3-)
proof (induction n arbitrary: sx sy q)
  case 0
  then show ?case by simp
next
  case (Suc n)
  have "8 \<le> s" if "rest_scale s = 8" for s
    using that rest_scale.simps [of s] by (cases "8 < s") auto
  then have big: "TILE_SIZE \<le> sx \<or> TILE_SIZE \<le> sy" using Suc.prems by (auto simp: TILE_SIZE_def)
  obtain q' where q': "divide_pass (nat h + 1) h sy 0 q = Inr q'" "full_quad q'"
    using divide_pass_ok [of sy h 0 "nat h + 1" q] assms(1,2) Suc.prems by auto
  have "int (shrink sy) < 2 ^ 30" using shrink_le [of sy] Suc.prems(3) by linarith
  then have "quadtree_loop n h (shrink sx) (shrink sy) q' = Inl NoReturn"
    using Suc.IH [of "shrink sx" "shrink sy" q'] Suc.prems q'(2) shrink_pos [of sy] by (simp add: rest_scale_shrink)
  with big q'(1) show ?case by simp
qed

text \<open>Halving comes to rest at 8 exactly from the sizes in \<open>[8 * 2 ^ k, 9 * 2 ^ k)\<close>.\<close>

lemma rest_scale_8: "rest_scale s = 8 \<longleftrightarrow> (\<exists>k. s div 2 ^ k = 8)"
proof (induction s rule: rest_scale.induct)
  case (1 s)
  show ?case
  proof (cases "8 < s")
    case True
    have "(\<exists>k. s div 2 ^ k = 8) \<longleftrightarrow> (\<exists>k. s div 2 ^ Suc k = 8)"
    proof
      assume "\<exists>k. s div 2 ^ k = 8"
      then obtain k where k: "s div 2 ^ k = 8" by blast
      then have "k \<noteq> 0" using True by (intro notI) simp
      then show "\<exists>k. s div 2 ^ Suc k = 8" using k by (metis not0_implies_Suc)
    qed blast
    also have "\<dots> \<longleftrightarrow> (\<exists>k. s div 2 div 2 ^ k = 8)" by (simp add: div_mult2_eq)
    finally show ?thesis using True 1 by (simp add: rest_scale.simps [of s])
  next
    case False
    have "s div 2 ^ k = 8 \<longleftrightarrow> s = 8 \<and> k = 0" if "s \<le> 8" for k
    proof (cases k)
      case (Suc j)
      have "s div 2 ^ k \<le> s div 2" using Suc by (simp add: div_mult2_eq)
      then show ?thesis using that Suc by auto
    qed simp
    then show ?thesis using False by (auto simp: rest_scale.simps [of s])
  qed
qed


section \<open>Properties\<close>

definition world0 :: world where
  "world0 = \<lparr>w_header = \<lparr>wh_magic = WORLD_HEADER_MAGIC, wh_version = WORLD_FILE_FORMAT_VERSION, wh_pad = [0, 0],
       wh_size = Vector2_zero, wh_name = replicate WORLD_NAME_LENGTH NUL\<rparr>,
     tileData = None, collision = Quad_new, w_file = None, noiseData = replicate NOISE_STEPS (Fin 0), w_draws = 0\<rparr>"

lemma World_Init_positive:
  assumes "positive_size sz"
  shows "wh_size (w_header (World_Init junk sz w)) = sz"
    and "tileData (World_Init junk sz w) = Some (map junk [0..<nat (vx sz) * nat (vy sz)])"
    and "GetSizeInBytes (World_Init junk sz w) = nat (vx sz) * nat (vy sz)"
proof -
  have pos: "vx sz \<noteq> 0" "vy sz \<noteq> 0" "0 \<le> vx sz * vy sz" "vx sz * vy sz < 2 ^ 31"
    using assms by (auto simp: positive_size_def)
  have u: "to_u32 (vx sz * vy sz) = nat (vx sz) * nat (vy sz)" "to_size (vx sz * vy sz) = nat (vx sz) * nat (vy sz)"
    using pos assms by (simp_all add: to_u32_def to_size_def nat_mult_distrib positive_size_def)
  show "wh_size (w_header (World_Init junk sz w)) = sz" by (simp add: World_Init_def Let_def)
  then show "GetSizeInBytes (World_Init junk sz w) = nat (vx sz) * nat (vy sz)"
    using positive_size_bounds(3) [OF assms] u by (simp add: GetSizeInBytes_def)
  show "tileData (World_Init junk sz w) = Some (map junk [0..<nat (vx sz) * nat (vy sz)])"
    using pos positive_size_bounds(3) [OF assms] u by (simp add: World_Init_def Let_def)
qed

lemmas World_Init_good = World_Init_positive [OF good_size_positive [THEN iffD1, THEN conjunct1]]

lemma terrain_rows:
  assumes "good_size sz" and "unit_random rnd"
  shows "\<exists>w' t. CreateGenerateWorld rnd (CreateGenerateNoise rnd (World_Init junk sz w)) = Inr w' \<and>
    rows_done (CreateGenerateNoise rnd (World_Init junk sz w)) (map junk [0..<nat (vx sz) * nat (vy sz)]) (nat (vy sz)) (w', t)"
  using CreateGenerateWorld_rows [of "CreateGenerateNoise rnd (World_Init junk sz w)" rnd] assms
  by (simp add: World_Init_good noise_between_random)

section \<open>Sizes that are not safe\<close>

text \<open>A loop has no fault that none of its turns has, and keeps what every turn keeps.\<close>

lemma fold_res_never: "(\<And>x s. x \<in> set xs \<Longrightarrow> f x s \<noteq> Inl e) \<Longrightarrow> fold_res f xs s \<noteq> Inl e"
proof (induction xs arbitrary: s)
  case (Cons x xs)
  then show ?case by (cases "f x s") auto
qed simp

lemma fold_res_preserves: "(\<And>x s t. x \<in> set xs \<Longrightarrow> f x s = Inr t \<Longrightarrow> P s \<Longrightarrow> P t) \<Longrightarrow> P s \<Longrightarrow> fold_res f xs s = Inr t \<Longrightarrow> P t"
proof (induction xs arbitrary: s)
  case (Cons x xs)
  then show ?case by (cases "f x s") auto
qed simp

lemma first_ground_0: "h \<le> 16 \<Longrightarrow> first_ground h = Inr 0"
proof -
  assume h: "h \<le> 16"
  then have "set [0..<(h + (TILE_SIZE - 1)) div TILE_SIZE] \<subseteq> {0, 1}" by (auto simp: TILE_SIZE_def)
  then have "snd (fold (\<lambda>k (currentTile, firstGroundY).
        let y = k * TILE_SIZE in
        case map_of heightData y of
          None \<Rightarrow> (currentTile, firstGroundY)
        | Some t \<Rightarrow>
            if 0 < y \<and> t \<noteq> currentTile then
              (t, if t \<noteq> WorldTileAir \<and> firstGroundY = 0 then y else firstGroundY)
            else (currentTile, firstGroundY))
        [0..<(h + (TILE_SIZE - 1)) div TILE_SIZE] (WorldTileAir, 0)) = 0"
    by (intro fold_keeps [where P = "\<lambda>s. snd s = 0"]) (auto simp: heightData_def TILE_SIZE_def Let_def)
  then show ?thesis using h by (simp add: first_ground_def TILE_SIZE_def)
qed

lemma first_ground_positive: "0 < h \<Longrightarrow> h < 2 ^ 23 \<Longrightarrow> first_ground h = Inr (if h \<le> 16 then 0 else 16)"
  using first_ground_0 [of h] first_ground_16 [of h] by auto

lemma place_tile_returns_or_faults: "place_tile noise sz step fg y t x s \<noteq> Inl NoReturn"
proof -
  have "f32_to_u32 v \<noteq> Inl NoReturn" for v by (cases v) (simp_all add: Let_def)
  then show ?thesis by (cases s) (auto simp: place_tile_def map_res_def bind_res_def Let_def split: sum.splits if_splits)
qed

lemma map_res_fault [simp]: "map_res f m = Inl e \<longleftrightarrow> m = Inl e"
  by (cases m) simp_all

lemma gen_row_returns_or_faults: "gen_row rnd step fg y s \<noteq> Inl NoReturn"
proof -
  have "fold_res (place_tile noise sz step fg y t) xs r \<noteq> Inl NoReturn" for noise sz y t xs r
    by (rule fold_res_never) (rule place_tile_returns_or_faults)
  then show ?thesis by (cases s) (simp add: gen_row_def Let_def split: option.split)
qed

lemma gen_row_header: "gen_row rnd step fg y s = Inr t \<Longrightarrow> w_header (fst t) = w_header (fst s)"
  by (cases s) (auto simp: gen_row_def map_res_def bind_res_eq_Inr Let_def split: if_splits option.splits)

lemma CreateGenerateWorld_header:
  assumes "CreateGenerateWorld rnd w = Inr w'"
  shows "w_header w' = w_header w"
proof -
  obtain fg where "map_res fst (fold_res (gen_row rnd (to_u32 (size_x w sdiv int NOISE_STEPS)) fg) [0..<to_u32 (size_y w)] (w, WorldTileAir)) = Inr w'"
    using assms unfolding CreateGenerateWorld_def Let_def bind_res_eq_Inr by blast
  then obtain s where s: "fold_res (gen_row rnd (to_u32 (size_x w sdiv int NOISE_STEPS)) fg) [0..<to_u32 (size_y w)] (w, WorldTileAir) = Inr s"
    "w' = fst s" unfolding map_res_def bind_res_eq_Inr by blast
  have "w_header (fst s) = w_header w"
  proof (rule fold_res_preserves [where P = "\<lambda>s. w_header (fst s) = w_header w", OF _ _ s(1)])
    show "w_header (fst v) = w_header w" if "gen_row rnd (to_u32 (size_x w sdiv int NOISE_STEPS)) fg y u = Inr v" "w_header (fst u) = w_header w" for y u v
      using gen_row_header [OF that(1)] that(2) by simp
  qed simp
  then show ?thesis using s(2) by simp
qed

lemma CreateGenerateWorld_returns_or_faults:
  assumes "positive_size (wh_size (w_header w))"
  shows "CreateGenerateWorld rnd w \<noteq> Inl NoReturn"
proof -
  have "first_ground (to_u32 (size_y w)) = Inr (if nat (size_y w) \<le> 16 then 0 else 16)"
    using first_ground_positive [OF positive_size_bounds(4,5) [OF assms]] positive_size_bounds(2) [OF assms] by simp
  moreover have "fold_res (gen_row rnd step fg) xs r \<noteq> Inl NoReturn" for step fg xs r
    by (rule fold_res_never) (rule gen_row_returns_or_faults)
  ultimately show ?thesis by (simp add: CreateGenerateWorld_def Let_def)
qed

text \<open>Above the ground the tiles go where they are.\<close>

lemma place_tile_in_place:
  assumes "positive_size sz" and "y < fg" and "y < nat (vy sz)" and "x < nat (vx sz)" and "length tiles = nat (vx sz) * nat (vy sz)"
  shows "\<exists>tiles' sc' sp'. place_tile noise sz step fg y t x (tiles, sc, sp) = Inr (tiles', sc', sp') \<and> length tiles' = length tiles"
proof -
  define r where "r = (if to_u32 (vy sz - int TILE_SIZE) < y then to_u32 (vy sz - int TILE_SIZE) else y)"
  have "r < nat (vy sz)" using assms(3) by (simp add: r_def)
  then have lt: "r * nat (vx sz) + x < length tiles" using index_less [OF _ assms(4)] assms(5) by simp
  have "length tiles < 2 ^ 32"
    using assms(1,5) by (simp add: positive_size_def nat_mult_distrib [symmetric] nat_less_iff)
  with lt have m: "(r * nat (vx sz) + x) mod 2 ^ 32 = r * nat (vx sz) + x" by (intro mod_less) linarith
  have "\<not> fg \<le> y" using assms(2) by simp
  then show ?thesis
    using lt m unfolding r_def positive_size_bounds(1) [OF assms(1)] place_tile_def
    by (simp add: positive_size_bounds(1) [OF assms(1)] Let_def del: not_less not_le)
qed

lemma gen_row_in_place:
  assumes "positive_size (wh_size (w_header w))" and "y < fg" and "y < nat (size_y w)" and "tileData w = Some tiles"
    and "length tiles = nat (size_x w) * nat (size_y w)"
  shows "\<exists>w' t' tiles'. gen_row rnd step fg y (w, t) = Inr (w', t') \<and> w_header w' = w_header w \<and> tileData w' = Some tiles' \<and> length tiles' = length tiles"
proof -
  have "\<exists>s'. fold_res (place_tile noise (wh_size (w_header w)) step fg y u) [0..<nat (size_x w)] (tiles, 0, 0) = Inr s' \<and> length (fst s') = length tiles"
    for noise u
  proof (rule fold_res_upt [where P = "\<lambda>_ s. length (fst s) = length tiles"])
    fix x and s :: "byte list \<times> nat \<times> nat" assume "x < nat (size_x w)" "length (fst s) = length tiles"
    then show "\<exists>s'. place_tile noise (wh_size (w_header w)) step fg y u x s = Inr s' \<and> length (fst s') = length tiles"
      using place_tile_in_place [OF assms(1,2,3), of x "fst s" noise step u "fst (snd s)" "snd (snd s)"] assms(5) by fastforce
  qed simp
  then obtain s' where s': "\<And>noise u. fold_res (place_tile noise (wh_size (w_header w)) step fg y u) [0..<nat (size_x w)] (tiles, 0, 0) = Inr (s' noise u)"
    "\<And>noise u. length (fst (s' noise u)) = length tiles" by metis
  have "to_u32 (size_x w) = nat (size_x w)" "nat (size_x w) \<noteq> 0"
    using positive_size_bounds(1) [OF assms(1)] assms(1) by (simp_all add: positive_size_def)
  then show ?thesis using s' assms(4) by (auto simp: gen_row_def Let_def split: option.splits prod.splits) (metis fst_conv)+
qed

text \<open>A world narrower than the noise has steps divides zero by zero in the first tile of the ground.\<close>

lemma place_tile_zero_step: "fg \<le> y \<Longrightarrow> place_tile noise sz 0 fg y t 0 (tiles, 0, 0) = Inl BadCast"
proof -
  have "f32_of_int 0 = Fin 0" using f32_of_int_exact [of 0] by simp
  moreover have "f32_mul a NaN = NaN" "f32_add a NaN = NaN" for a by (cases a; simp)+
  ultimately have "noise_at noise 0 1 0 = NaN" by (simp add: noise_at_def)
  moreover have "f32_sub a NaN = NaN" for a by (cases a) (simp_all add: f32_sub_def)
  ultimately show "fg \<le> y \<Longrightarrow> ?thesis" by (simp add: place_tile_def TILE_SIZE_def NOISE_STEPS_def)
qed

lemma gen_row_first_fault:
  assumes "0 < size_x w" and "size_x w < 2 ^ 29" and "tileData w = Some tiles"
    and "\<And>w1 t. w1 = w \<or> w1 = CreateGenerateNoise rnd w \<Longrightarrow> place_tile (noiseData w1) (wh_size (w_header w)) step fg y t 0 (tiles, 0, 0) = Inl e"
  shows "gen_row rnd step fg y (w, t) = Inl e"
proof -
  have x: "to_u32 (size_x w) = nat (size_x w)" "0 < nat (size_x w)" using assms(1,2) by (simp_all add: to_u32_def)
  then have "[0..<nat (size_x w)] = 0 # [1..<nat (size_x w)]" by (simp add: upt_conv_Cons)
  then show ?thesis using x assms(3,4) by (auto simp: gen_row_def Let_def split: option.splits)
qed

lemma CreateGenerateWorld_narrow:
  assumes sz: "positive_size (wh_size (w_header w))" and narrow: "size_x w < 36" and tiles: "tileData w = Some tiles" "length tiles = nat (size_x w) * nat (size_y w)"
  shows "CreateGenerateWorld rnd w = Inl BadCast"
proof -
  let ?Y = "nat (size_y w)"
  define fg :: nat where "fg = (if nat (size_y w) \<le> 16 then 0 else 16)"
  have pos: "0 < size_x w" "size_x w < 2 ^ 29" "0 < ?Y" "?Y < 2 ^ 23" using sz positive_size_bounds(4,5) [OF sz] by (simp_all add: positive_size_def)
  have ground: "first_ground ?Y = Inr fg" using first_ground_positive [OF pos(3,4)] by (simp add: fg_def)
  have step: "to_u32 (size_x w sdiv int NOISE_STEPS) = 0"
    using pos(1) narrow by (simp add: signed_divide_int_def NOISE_STEPS_def to_u32_def)
  have "fg < ?Y" using pos(3) by (auto simp: fg_def)
  then have rows: "[0..<?Y] = [0..<fg] @ fg # [Suc fg..<?Y]" by (metis less_imp_add_positive upt_add_eq_append upt_conv_Cons zero_le le_add1)
  have "\<exists>s. fold_res (gen_row rnd 0 fg) [0..<fg] (w, WorldTileAir) = Inr s \<and>
    (w_header (fst s) = w_header w \<and> (\<exists>ts. tileData (fst s) = Some ts \<and> length ts = length tiles))"
  proof (rule fold_res_upt [where P = "\<lambda>_ s. w_header (fst s) = w_header w \<and> (\<exists>ts. tileData (fst s) = Some ts \<and> length ts = length tiles)"])
    fix y and s :: "world \<times> tile" assume y: "y < fg" and s: "w_header (fst s) = w_header w \<and> (\<exists>ts. tileData (fst s) = Some ts \<and> length ts = length tiles)"
    then obtain ts where ts: "tileData (fst s) = Some ts" "length ts = length tiles" by blast
    have "y < nat (size_y (fst s))" using y s \<open>fg < ?Y\<close> by simp
    then show "\<exists>t. gen_row rnd 0 fg y s = Inr t \<and> (w_header (fst t) = w_header w \<and> (\<exists>ts. tileData (fst t) = Some ts \<and> length ts = length tiles))"
      using gen_row_in_place [of "fst s" y fg ts rnd 0 "snd s"] sz y s ts tiles(2) by auto
  qed (use tiles in simp)
  then obtain w1 t1 ts where s: "fold_res (gen_row rnd 0 fg) [0..<fg] (w, WorldTileAir) = Inr (w1, t1)" "w_header w1 = w_header w" "tileData w1 = Some ts"
    by auto
  have "gen_row rnd 0 fg fg (w1, t1) = Inl BadCast"
    by (rule gen_row_first_fault) (use pos s in \<open>simp_all add: place_tile_zero_step\<close>)
  then show ?thesis
    using s(1) positive_size_bounds(2) [OF sz] by (simp add: CreateGenerateWorld_def ground step rows fold_res_append del: upt_Suc)
qed

text \<open>In a world too low for its ground the first tile is already moved by the noise, upwards past the top.\<close>

lemma CreateGenerateWorld_low:
  assumes sz: "positive_size (wh_size (w_header w))" and low: "36 \<le> size_x w" "size_y w \<le> 16" and tiles: "tileData w = Some tiles"
    and n: "noise_between 9 9 (noiseData w)" and rnd: "rnd = (\<lambda>_. Fin 1)"
  shows "CreateGenerateWorld rnd w = Inl BadCast"
proof -
  let ?Y = "nat (size_y w)" and ?step = "nat (size_x w) div 36"
  have pos: "0 < size_x w" "size_x w < 2 ^ 29" "0 < ?Y" "?Y < 2 ^ 23" using sz positive_size_bounds(4,5) [OF sz] by (simp_all add: positive_size_def)
  have fg: "first_ground ?Y = Inr 0" using first_ground_0 [of ?Y] low(2) by simp
  have step: "to_u32 (size_x w sdiv int NOISE_STEPS) = ?step" "0 < ?step" "?step < 2 ^ 24"
  proof -
    have "size_x w sdiv int NOISE_STEPS = size_x w div 36" using pos by (simp add: signed_divide_int_def NOISE_STEPS_def)
    moreover have "to_u32 (size_x w div 36) = nat (size_x w div 36)" using pos by (simp add: to_u32_def)
    ultimately show "to_u32 (size_x w sdiv int NOISE_STEPS) = ?step" using pos by (simp add: nat_div_distrib)
    show "0 < ?step" "?step < 2 ^ 24" using low(1) pos by (simp_all add: div_greater_zero_iff)
  qed
  have "place_tile (noiseData w1) (wh_size (w_header w)) ?step 0 0 t 0 (tiles, 0, 0) = Inl BadCast"
    if w1: "w1 = w \<or> w1 = CreateGenerateNoise rnd w" for w1 t
  proof -
    have n1: "noise_between 9 9 (noiseData w1)"
      using w1 n CreateGenerateNoise_between [of rnd w 1 1] rnd by auto
    define sc sp :: nat where "sc = (if ?step < 8 then 1 else 0)" and "sp = (if ?step < 8 then 0 else 8)"
    have sp: "sp \<le> ?step" "sc < NOISE_STEPS" by (simp_all add: sc_def sp_def NOISE_STEPS_def)
    obtain r where r: "noise_at (noiseData w1) ?step sc sp = Fin r" "9 \<le> r" "r \<le> 10"
      using noise_at_between [OF n1 step(2) sp(1) step(3) sp(2)] by auto
    obtain v where v: "round32 (- r) = Fin v" "v \<le> - 9" using round32_between [of "- 10" "- r" "- 9"] r(2,3) by auto
    have "1 \<le> \<lfloor>- v\<rfloor>" using v(2) by (simp add: le_floor_iff)
    then have "trunc_rat v < 0" using v(2) by (simp add: trunc_rat_def)
    moreover have "f32_of_int 0 = Fin 0" using f32_of_int_exact [of 0] by simp
    ultimately have "f32_to_u32 (f32_sub (f32_of_int (int 0)) (noise_at (noiseData w1) ?step sc sp)) = Inl BadCast"
      using r(1) v(1) by (simp add: f32_sub_def Let_def)
    then show ?thesis by (simp add: place_tile_def TILE_SIZE_def NOISE_STEPS_def sc_def sp_def split: if_splits)
  qed
  then have row: "gen_row rnd ?step 0 0 (w, WorldTileAir) = Inl BadCast"
    using gen_row_first_fault [OF pos(1,2) tiles, of rnd ?step 0 0 BadCast WorldTileAir] by blast
  have "[0..<?Y] = 0 # [1..<?Y]" using pos(3) by (simp add: upt_conv_Cons)
  then show ?thesis
    using row positive_size_bounds(2) [OF sz] by (simp add: CreateGenerateWorld_def fg step)
qed

lemma terrain_good:
  assumes "good_size sz" and "unit_random rnd"
  shows "\<exists>w' tiles. CreateGenerateWorld rnd (CreateGenerateNoise rnd (World_Init junk sz w)) = Inr w' \<and>
    tileData w' = Some tiles \<and> length tiles = GetSizeInBytes w' \<and> GetSizeInBytes w' = nat (vx sz) * nat (vy sz) \<and>
    (\<forall>x < nat (vx sz). \<forall>r < 6. tiles ! (r * nat (vx sz) + x) = pointersToIndicesMap WorldTileAir) \<and>
    (\<forall>x < nat (vx sz). \<forall>r < nat (vy sz) - 8. NOISE_STEPS * noise_len (nat (vx sz) div 36) \<le> Suc x \<longrightarrow>
       tiles ! (r * nat (vx sz) + x) = pointersToIndicesMap (layer r))"
proof -
  let ?w = "CreateGenerateNoise rnd (World_Init junk sz w)"
  obtain w' t where w': "CreateGenerateWorld rnd ?w = Inr w'"
    "rows_done ?w (map junk [0..<nat (vx sz) * nat (vy sz)]) (nat (vy sz)) (w', t)"
    using terrain_rows [OF assms] by blast
  moreover have sz: "wh_size (w_header ?w) = sz" using World_Init_good(1) [OF assms(1)] by simp
  moreover have "17 \<le> vy sz" using assms(1) by (simp add: good_size_def)
  moreover have "GetSizeInBytes w' = GetSizeInBytes (World_Init junk sz w)"
    using w'(2) by (simp add: rows_done_def Let_def GetSizeInBytes_def)
  moreover have "r < nat (vy sz)" if "r < nat (vy sz) - 8" for r using that by simp
  ultimately show ?thesis
    using World_Init_good(3) [OF assms(1), of junk w] by (auto simp: rows_done_def Let_def)
qed

text \<open>
  C19. Which worlds can be generated, for the sizes above zero that the arithmetic of the generator is exact for (narrower than \<open>2 ^ 29\<close>, lower than
  \<open>2 ^ 23\<close> and of less than \<open>2 ^ 31\<close> tiles). The terrain comes about for every noise exactly when the world is at least 36 tiles wide and 17 high.
  A narrower one divides zero by zero and converts the result to an integer, whatever the noise. For one that is wide and high enough every
  write falls into the tile array, which has as many bytes as \<open>GetSizeInBytes\<close> says; the six highest rows are air; the columns that the
  noise does not reach are flat, and there each row above the last eight holds the tile of its height: air, then grass from 16, stone from 28
  and lava from 64.
\<close>

theorem terrain_layers:
  assumes "positive_size sz"
  shows "((\<forall>rnd. unit_random rnd \<longrightarrow> is_ok (CreateGenerateWorld rnd (CreateGenerateNoise rnd (World_Init junk sz w)))) \<longleftrightarrow> 36 \<le> vx sz \<and> 17 \<le> vy sz) \<and>
    (vx sz < 36 \<longrightarrow> CreateGenerateWorld rnd (CreateGenerateNoise rnd (World_Init junk sz w)) = Inl BadCast) \<and>
    (36 \<le> vx sz \<longrightarrow> 17 \<le> vy sz \<longrightarrow> unit_random rnd \<longrightarrow>
     (\<exists>w' tiles. CreateGenerateWorld rnd (CreateGenerateNoise rnd (World_Init junk sz w)) = Inr w' \<and>
      tileData w' = Some tiles \<and> length tiles = GetSizeInBytes w' \<and> GetSizeInBytes w' = nat (vx sz) * nat (vy sz) \<and>
      (\<forall>x < nat (vx sz). \<forall>r < 6. tiles ! (r * nat (vx sz) + x) = pointersToIndicesMap WorldTileAir) \<and>
      (\<forall>x < nat (vx sz). \<forall>r < nat (vy sz) - 8. NOISE_STEPS * noise_len (nat (vx sz) div 36) \<le> Suc x \<longrightarrow>
         tiles ! (r * nat (vx sz) + x) = pointersToIndicesMap (layer r))))"
proof -
  let ?w = "\<lambda>rnd. CreateGenerateNoise rnd (World_Init junk sz w)"
  have sz: "wh_size (w_header (?w rnd)) = sz" "tileData (?w rnd) = Some (map junk [0..<nat (vx sz) * nat (vy sz)])" for rnd
    using World_Init_positive(1,2) [OF assms] by simp_all
  have narrow: "CreateGenerateWorld rnd (?w rnd) = Inl BadCast" if "vx sz < 36" for rnd
    by (rule CreateGenerateWorld_narrow [OF _ _ sz(2)]) (simp_all only: sz(1) that assms length_map length_upt diff_zero)
  have low: "CreateGenerateWorld (\<lambda>_. Fin 1) (?w (\<lambda>_. Fin 1)) = Inl BadCast" if "36 \<le> vx sz" "vy sz \<le> 16"
  proof (rule CreateGenerateWorld_low [OF _ _ _ sz(2)])
    show "noise_between 9 9 (noiseData (?w (\<lambda>_. Fin 1)))"
      using CreateGenerateNoise_between [of "\<lambda>_. Fin 1" "World_Init junk sz w" 1 1] by simp
  qed (simp_all only: sz(1) that assms)
  have ones: "unit_random (\<lambda>_. Fin 1)" by (simp add: unit_random_def)
  have good: "\<exists>w' tiles. CreateGenerateWorld rnd (?w rnd) = Inr w' \<and>
      tileData w' = Some tiles \<and> length tiles = GetSizeInBytes w' \<and> GetSizeInBytes w' = nat (vx sz) * nat (vy sz) \<and>
      (\<forall>x < nat (vx sz). \<forall>r < 6. tiles ! (r * nat (vx sz) + x) = pointersToIndicesMap WorldTileAir) \<and>
      (\<forall>x < nat (vx sz). \<forall>r < nat (vy sz) - 8. NOISE_STEPS * noise_len (nat (vx sz) div 36) \<le> Suc x \<longrightarrow>
         tiles ! (r * nat (vx sz) + x) = pointersToIndicesMap (layer r))"
    if "36 \<le> vx sz" "17 \<le> vy sz" "unit_random rnd" for rnd
    by (rule terrain_good) (use that assms in \<open>simp_all add: good_size_positive\<close>)
  have "is_ok (CreateGenerateWorld rnd (?w rnd))" if "36 \<le> vx sz" "17 \<le> vy sz" "unit_random rnd" for rnd
    using good [OF that] by auto
  moreover have "\<exists>rnd. unit_random rnd \<and> \<not> is_ok (CreateGenerateWorld rnd (?w rnd))" if "\<not> (36 \<le> vx sz \<and> 17 \<le> vy sz)"
  proof -
    have "CreateGenerateWorld (\<lambda>_. Fin 1) (?w (\<lambda>_. Fin 1)) = Inl BadCast"
      using that narrow [of "\<lambda>_. Fin 1"] low by (cases "vx sz < 36") simp_all
    then show ?thesis using ones by (intro exI [of _ "\<lambda>_. Fin 1"]) simp
  qed
  ultimately show ?thesis using narrow good by blast
qed

lemma good_size_example: "good_size \<lparr>vx = 4000, vy = 300\<rparr>" "unit_random (\<lambda>_. Fin (1 / 2))"
  by (auto simp: good_size_def unit_random_def intro: exI [of _ "1 / 2"])

lemma small_sizes: "positive_size \<lparr>vx = 4000, vy = 300\<rparr>" "positive_size \<lparr>vx = 35, vy = 300\<rparr>" "positive_size \<lparr>vx = 4000, vy = 16\<rparr>"
  by (simp_all add: positive_size_def)

text \<open>The default world, one that is too narrow and one that is too low.\<close>

theorem terrain_layers_witness:
  "(\<exists>w' tiles. CreateGenerateWorld (\<lambda>_. Fin (1 / 2)) (CreateGenerateNoise (\<lambda>_. Fin (1 / 2)) (World_Init (\<lambda>_. 200) \<lparr>vx = 4000, vy = 300\<rparr> world0)) = Inr w' \<and>
    tileData w' = Some tiles \<and> length tiles = 1200000 \<and> tiles ! (4000 * 20 + 3000) = 1 \<and> tiles ! (4000 * 100 + 504) = 3) \<and>
   CreateGenerateWorld (\<lambda>_. Fin (1 / 2)) (CreateGenerateNoise (\<lambda>_. Fin (1 / 2)) (World_Init (\<lambda>_. 200) \<lparr>vx = 35, vy = 300\<rparr> world0)) = Inl BadCast \<and>
   (\<exists>rnd. unit_random rnd \<and> \<not> is_ok (CreateGenerateWorld rnd (CreateGenerateNoise rnd (World_Init (\<lambda>_. 200) \<lparr>vx = 4000, vy = 16\<rparr> world0))))"
proof (intro conjI)
  obtain w' tiles where r: "CreateGenerateWorld (\<lambda>_. Fin (1 / 2)) (CreateGenerateNoise (\<lambda>_. Fin (1 / 2)) (World_Init (\<lambda>_. 200) \<lparr>vx = 4000, vy = 300\<rparr> world0)) = Inr w'"
    "tileData w' = Some tiles" "length tiles = 1200000"
    and flat: "\<And>x r. x < 4000 \<Longrightarrow> r < 292 \<Longrightarrow> 504 \<le> Suc x \<Longrightarrow> tiles ! (r * 4000 + x) = pointersToIndicesMap (layer r)"
    using terrain_layers [OF small_sizes(1), of "\<lambda>_. 200" world0 "\<lambda>_. Fin (1 / 2)"] good_size_example(2) by (auto simp: NOISE_STEPS_def noise_len_def)
  have "tiles ! (20 * 4000 + 3000) = 1" "tiles ! (100 * 4000 + 504) = 3"
    using flat [of 3000 20] flat [of 504 100] by (simp_all add: layer_def)
  then show "\<exists>w' tiles. CreateGenerateWorld (\<lambda>_. Fin (1 / 2)) (CreateGenerateNoise (\<lambda>_. Fin (1 / 2)) (World_Init (\<lambda>_. 200) \<lparr>vx = 4000, vy = 300\<rparr> world0)) = Inr w' \<and>
    tileData w' = Some tiles \<and> length tiles = 1200000 \<and> tiles ! (4000 * 20 + 3000) = 1 \<and> tiles ! (4000 * 100 + 504) = 3" using r by simp
  show "CreateGenerateWorld (\<lambda>_. Fin (1 / 2)) (CreateGenerateNoise (\<lambda>_. Fin (1 / 2)) (World_Init (\<lambda>_. 200) \<lparr>vx = 35, vy = 300\<rparr> world0)) = Inl BadCast"
    using terrain_layers [OF small_sizes(2), of "\<lambda>_. 200" world0 "\<lambda>_. Fin (1 / 2)"] by simp
  show "\<exists>rnd. unit_random rnd \<and> \<not> is_ok (CreateGenerateWorld rnd (CreateGenerateNoise rnd (World_Init (\<lambda>_. 200) \<lparr>vx = 4000, vy = 16\<rparr> world0)))"
    using terrain_layers [OF small_sizes(3), of "\<lambda>_. 200" world0 undefined, THEN conjunct1] by auto
qed

text \<open>
  Not every byte of a new world is set: every tile is one of the four of the generated layers or the byte that
  the allocator left there, and the last seven rows are never written.
\<close>

theorem terrain_unset_rows:
  assumes "good_size sz" and "unit_random rnd"
  shows "\<exists>w' tiles. CreateGenerateWorld rnd (CreateGenerateNoise rnd (World_Init junk sz w)) = Inr w' \<and> tileData w' = Some tiles \<and>
    (\<forall>i < nat (vx sz) * nat (vy sz). (tiles ! i < 4 \<or> tiles ! i = junk i) \<and>
      (nat (vy sz) - 8 < i div nat (vx sz) \<longrightarrow> tiles ! i = junk i))"
proof -
  let ?w = "CreateGenerateNoise rnd (World_Init junk sz w)"
  obtain w' t where w': "CreateGenerateWorld rnd ?w = Inr w'"
    "rows_done ?w (map junk [0..<nat (vx sz) * nat (vy sz)]) (nat (vy sz)) (w', t)"
    using terrain_rows [OF assms] by blast
  moreover have sz: "wh_size (w_header ?w) = sz" using World_Init_good(1) [OF assms(1)] by simp
  ultimately obtain tiles where t: "tileData w' = Some tiles"
    and i: "\<And>i. i < nat (vx sz) * nat (vy sz) \<Longrightarrow> tiles ! i = map junk [0..<nat (vx sz) * nat (vy sz)] ! i \<or>
      (tiles ! i < 4 \<and> i div nat (vx sz) \<le> nat (vy sz) - 8)"
    by (auto simp: rows_done_def Let_def)
  have "(tiles ! i < 4 \<or> tiles ! i = junk i) \<and> (nat (vy sz) - 8 < i div nat (vx sz) \<longrightarrow> tiles ! i = junk i)"
    if "i < nat (vx sz) * nat (vy sz)" for i
    using i [OF that] that by auto
  with w'(1) t show ?thesis by blast
qed

theorem terrain_unset_rows_witness:
  "\<exists>w' tiles. CreateGenerateWorld (\<lambda>_. Fin (1 / 2)) (CreateGenerateNoise (\<lambda>_. Fin (1 / 2)) (World_Init (\<lambda>_. 200) \<lparr>vx = 4000, vy = 300\<rparr> world0)) = Inr w' \<and>
    tileData w' = Some tiles \<and> tiles ! 1199999 = 200"
proof -
  have "(1199999::nat) < nat (vx \<lparr>vx = 4000, vy = 300 :: int\<rparr>) * nat (vy \<lparr>vx = 4000, vy = 300 :: int\<rparr>)" by simp
  then show ?thesis using terrain_unset_rows [OF good_size_example, of "\<lambda>_. 200" world0] by fastforce
qed


text \<open>A cell that no row puts a tile into is left as it was.\<close>

definition gap_kept :: "world \<Rightarrow> byte list \<Rightarrow> nat \<Rightarrow> world \<times> tile \<Rightarrow> bool" where
  "gap_kept w0 old y s \<longleftrightarrow>
     (let (w, cur) = s; X = nat (size_x w0); Y = nat (size_y w0); n = noise_len (X div 36) in
      cur = layer (y - 1) \<and> w_header w = w_header w0 \<and>
      w_draws w = w_draws w0 + NOISE_STEPS * (if 64 < y then 3 else if 28 < y then 2 else if 16 < y then 1 else 0) \<and>
      (if y \<le> 16 then noise_between 0 9 (noiseData w) else if y \<le> 28 then noise_between 9 9 (noiseData w)
       else noise_between 0 0 (noiseData w)) \<and>
      (\<exists>tiles. tileData w = Some tiles \<and> length tiles = X * Y \<and>
        (\<forall>x < X. \<forall>r < 27. 18 < r \<longrightarrow> Suc x div n < NOISE_STEPS \<longrightarrow> tiles ! (r * X + x) = old ! (r * X + x))))"

lemma gap_kept_step:
  assumes sz: "good_size (wh_size (w_header w0))" and Y: "36 \<le> size_y w0" and y: "y < nat (size_y w0)"
    and r1: "\<And>i. i < 36 \<Longrightarrow> rnd (w_draws w0 + i) = Fin 1" and r0: "\<And>i. 36 \<le> i \<Longrightarrow> rnd (w_draws w0 + i) = Fin 0"
    and inv: "gap_kept w0 old y s"
  shows "\<exists>s'. gen_row rnd (nat (size_x w0) div 36) 16 y s = Inr s' \<and> gap_kept w0 old (Suc y) s'"
proof -
  let ?X = "nat (size_x w0)" and ?Y = "nat (size_y w0)" and ?n = "noise_len (nat (size_x w0) div 36)"
  obtain w tiles where s: "s = (w, layer (y - 1))" and w: "w_header w = w_header w0" "tileData w = Some tiles"
    and draws: "w_draws w = w_draws w0 + NOISE_STEPS * (if 64 < y then 3 else if 28 < y then 2 else if 16 < y then 1 else 0)"
    and noise: "if y \<le> 16 then noise_between 0 9 (noiseData w) else if y \<le> 28 then noise_between 9 9 (noiseData w)
       else noise_between 0 0 (noiseData w)" and len: "length tiles = ?X * ?Y"
    and kept: "\<And>x r. x < ?X \<Longrightarrow> r < 27 \<Longrightarrow> 18 < r \<Longrightarrow> Suc x div ?n < NOISE_STEPS \<Longrightarrow>
      tiles ! (r * ?X + x) = old ! (r * ?X + x)"
    using inv by (cases s) (auto simp: gap_kept_def Let_def)
  let ?w1 = "if new_layer y then CreateGenerateNoise rnd w else w"
  define a b :: int where "a = (if 16 \<le> y \<and> y < 28 then 9 else 0)" and "b = (if y < 28 then 9 else 0)"
  have one: "noise_between 9 9 (noiseData (CreateGenerateNoise rnd w))" if "y = 16"
    using CreateGenerateNoise_between [of rnd w 1 1] r1 draws that by (simp add: NOISE_STEPS_def)
  have zero: "noise_between 0 0 (noiseData (CreateGenerateNoise rnd w))" if "y = 28 \<or> y = 64"
  proof -
    have "rnd (w_draws w + i) = Fin 0" for i
      using r0 [of "w_draws w - w_draws w0 + i"] draws that by (auto simp: NOISE_STEPS_def add.assoc)
    then show ?thesis using CreateGenerateNoise_between [of rnd w 0 0] by simp
  qed
  have n: "noise_between a b (noiseData ?w1)"
    using noise one zero by (auto simp: a_def b_def new_layer_def split: if_splits)
  have ab: "0 \<le> a" "b \<le> 15" by (simp_all add: a_def b_def)
  have pre: "good_size (wh_size (w_header w))" "length tiles = nat (size_x w) * nat (size_y w)" "y < nat (size_y w)"
    using sz len y w(1) by simp_all
  obtain tiles' where g: "gen_row rnd (?X div 36) 16 y s = Inr (?w1\<lparr>tileData := Some tiles'\<rparr>, layer y)"
    and puts: "only_puts ?X (pointersToIndicesMap (layer y)) (row_target a b (?X div 36) 16 (size_y w0) y) tiles tiles'"
    using gen_row_ok [OF pre(1) w(2) pre(2,3) n ab good_size_step(2,3) [OF sz]] s w(1) by auto
  have len2: "length tiles' = ?X * ?Y" using puts len by (simp add: only_puts_def)
  have kept': "tiles' ! (r * ?X + x) = old ! (r * ?X + x)"
    if x: "x < ?X" and r: "r < 27" "18 < r" and c: "Suc x div ?n < NOISE_STEPS" for x r
  proof -
    have "\<not> row_target a b (?X div 36) 16 (size_y w0) y x r"
      using r c Y by (auto simp: row_target_def a_def b_def split: if_splits)
    moreover have "r < ?Y" using r Y by linarith
    ultimately show ?thesis using only_puts_at [OF puts len x] kept [OF x r c] by metis
  qed
  have "w_draws ?w1 = w_draws w0 + NOISE_STEPS * (if 64 < Suc y then 3 else if 28 < Suc y then 2 else if 16 < Suc y then 1 else 0)"
    using draws by (auto simp: new_layer_def)
  moreover have "if Suc y \<le> 16 then noise_between 0 9 (noiseData ?w1) else if Suc y \<le> 28 then noise_between 9 9 (noiseData ?w1)
       else noise_between 0 0 (noiseData ?w1)"
    using n by (auto simp: a_def b_def split: if_splits)
  ultimately have "gap_kept w0 old (Suc y) (?w1\<lparr>tileData := Some tiles'\<rparr>, layer y)"
    using w(1) len2 kept' by (auto simp: gap_kept_def Let_def split: if_splits)
  with g show ?thesis by blast
qed


text \<open>
  Holes in the ground: when the noise of the grass layer is high and that of the stone layer low, the rows
  between them are written by neither. With random numbers 1 for the grass and 0 from the stone on, every
  column that the noise reaches keeps the allocator's bytes in its rows 19 to 26, under the grass.
\<close>

theorem terrain_holes:
  assumes "good_size sz" and "36 \<le> vy sz"
    and "\<forall>i. rnd (w_draws w + i) = Fin (if i < 2 * NOISE_STEPS then 1 else 0)"
  shows "\<exists>w' tiles. CreateGenerateWorld rnd (CreateGenerateNoise rnd (World_Init junk sz w)) = Inr w' \<and> tileData w' = Some tiles \<and>
    (\<forall>x < nat (vx sz). \<forall>r. 19 \<le> r \<and> r \<le> 26 \<longrightarrow> Suc x div noise_len (nat (vx sz) div 36) < NOISE_STEPS \<longrightarrow>
       tiles ! (r * nat (vx sz) + x) = junk (r * nat (vx sz) + x))"
proof -
  let ?w = "CreateGenerateNoise rnd (World_Init junk sz w)" and ?X = "nat (vx sz)" and ?Y = "nat (vy sz)"
  let ?old = "map junk [0..<?X * ?Y]" and ?n = "noise_len (nat (vx sz) div 36)"
  have draws: "w_draws (World_Init junk sz w) = w_draws w" by (simp add: World_Init_def Let_def)
  have sz: "wh_size (w_header ?w) = sz" using World_Init_good(1) [OF assms(1)] by simp
  have n: "noise_between 0 9 (noiseData ?w)"
    using CreateGenerateNoise_between [of rnd "World_Init junk sz w" 0 1] assms(3) by (simp add: draws NOISE_STEPS_def)
  have r1: "rnd (w_draws ?w + i) = Fin 1" if "i < 36" for i
    using assms(3) [rule_format, of "36 + i"] that by (simp add: draws NOISE_STEPS_def add.assoc)
  have r0: "rnd (w_draws ?w + i) = Fin 0" if "36 \<le> i" for i
    using assms(3) [rule_format, of "36 + i"] that by (simp add: draws NOISE_STEPS_def add.assoc)
  have good: "good_size (wh_size (w_header ?w))" "36 \<le> size_y ?w" using assms(1,2) sz by simp_all
  have fg: "first_ground ?Y = Inr 16" using assms(1) by (intro first_ground_16) (auto simp: good_size_def)
  have "gap_kept ?w ?old 0 (?w, WorldTileAir)"
    using n sz World_Init_good(2) [OF assms(1)] by (simp add: gap_kept_def Let_def layer_def)
  then obtain s' where s': "fold_res (gen_row rnd (nat (size_x ?w) div 36) 16) [0..<nat (size_y ?w)] (?w, WorldTileAir) = Inr s'"
    "gap_kept ?w ?old (nat (size_y ?w)) s'"
    using fold_res_upt [of "gap_kept ?w ?old" "(?w, WorldTileAir)" "nat (size_y ?w)" "gen_row rnd (nat (size_x ?w) div 36) 16"]
      gap_kept_step [where rnd = rnd and ?w0.0 = "?w", OF good _ r1 r0] by blast
  then obtain w' t where w': "CreateGenerateWorld rnd ?w = Inr w'" "s' = (w', t)"
    using fg sz by (cases s') (auto simp: CreateGenerateWorld_def good_size_bounds(2) [OF assms(1)] good_size_step(1) [OF assms(1)])
  obtain tiles where tiles: "tileData w' = Some tiles"
    and k: "\<And>x r. x < ?X \<Longrightarrow> r < 27 \<Longrightarrow> 18 < r \<Longrightarrow> Suc x div ?n < NOISE_STEPS \<Longrightarrow> tiles ! (r * ?X + x) = ?old ! (r * ?X + x)"
    using s'(2) w'(2) World_Init_good(1) [OF assms(1), of junk w] by (auto simp: gap_kept_def Let_def)
  have "tiles ! (r * ?X + x) = junk (r * ?X + x)"
    if "x < ?X" "19 \<le> r" "r \<le> 26" "Suc x div ?n < NOISE_STEPS" for x r
  proof -
    have "r < ?Y" using that(3) assms(2) by linarith
    then show ?thesis using k [OF that(1) _ _ that(4), of r] that index_less [of r ?Y x ?X] by simp
  qed
  with w'(1) tiles show ?thesis by blast
qed

theorem terrain_holes_witness:
  "\<exists>w' tiles. CreateGenerateWorld (\<lambda>i. Fin (if i < 2 * NOISE_STEPS then 1 else 0))
      (CreateGenerateNoise (\<lambda>i. Fin (if i < 2 * NOISE_STEPS then 1 else 0)) (World_Init (\<lambda>_. 200) \<lparr>vx = 4000, vy = 300\<rparr> world0)) = Inr w' \<and>
    tileData w' = Some tiles \<and> tiles ! (20 * 4000 + 10) = 200"
proof -
  have "\<forall>i. (\<lambda>i. Fin (if i < 2 * NOISE_STEPS then 1 else 0)) (w_draws world0 + i) = Fin (if i < 2 * NOISE_STEPS then 1 else 0)"
    by (simp add: world0_def)
  moreover have "(36 :: int) \<le> vy \<lparr>vx = 4000, vy = 300 :: int\<rparr>" by simp
  moreover have "Suc 10 div noise_len (nat (vx \<lparr>vx = 4000 :: int, vy = 300 :: int\<rparr>) div 36) < NOISE_STEPS"
    "10 < nat (vx \<lparr>vx = 4000 :: int, vy = 300 :: int\<rparr>)" "nat (vx \<lparr>vx = 4000 :: int, vy = 300 :: int\<rparr>) = 4000"
    by (simp_all add: noise_len_def NOISE_STEPS_def)
  moreover have "19 \<le> (20 :: nat) \<and> (20 :: nat) \<le> 26" by simp
  ultimately show ?thesis using terrain_holes [OF good_size_example(1)] by metis
qed

text \<open>After the terrain, the quadtree: it returns or never ends, and faults in no case.\<close>

definition halves_to_tile :: "int vec2 \<Rightarrow> bool" where
  "halves_to_tile sz \<longleftrightarrow> (\<exists>k. nat (vx sz) div 2 ^ k = 8) \<or> (\<exists>k. nat (vy sz) div 2 ^ k = 8)"

lemma Generate_after_terrain:
  assumes "positive_size sz" and "CreateGenerateWorld rnd (CreateGenerateNoise rnd (World_Init junk sz w)) = Inr w'"
  shows "if halves_to_tile sz then \<forall>fuel. Generate fuel rnd (World_Init junk sz w) = Inl NoReturn
    else is_ok (Generate (Suc (nat (vx sz) + nat (vy sz))) rnd (World_Init junk sz w))"
proof -
  have sz: "wh_size (w_header w') = sz"
    using CreateGenerateWorld_header [OF assms(2)] World_Init_positive(1) [OF assms(1)] by simp
  have gen: "Generate fuel rnd (World_Init junk sz w) = map_res (\<lambda>q. w'\<lparr>collision := q\<rparr>)
      (quadtree_loop fuel (vy sz) (nat (vx sz)) (nat (vy sz)) (Divide DIVIDE_2BY2 (collision w')))" for fuel
    by (simp add: Generate_def assms(2) CreateGenerateQuadtree_def sz positive_size_bounds(1,2) [OF assms(1)])
  have h: "0 \<le> vy sz" "vy sz < 2 ^ 30" "0 < nat (vy sz)" "int (nat (vy sz)) < 2 ^ 30" using assms(1) by (auto simp: positive_size_def)
  show ?thesis
  proof (cases "rest_scale (nat (vx sz)) = 8 \<or> rest_scale (nat (vy sz)) = 8")
    case True
    then have "halves_to_tile sz" by (simp add: halves_to_tile_def rest_scale_8)
    moreover have "Generate fuel rnd (World_Init junk sz w) = Inl NoReturn" for fuel
      unfolding gen using quadtree_loop_hangs [OF h(1,2) True h(3,4) full_quad_Divide] by simp
    ultimately show ?thesis by simp
  next
    case False
    then have "\<not> halves_to_tile sz" by (simp add: halves_to_tile_def rest_scale_8)
    moreover obtain q where "quadtree_loop (Suc (nat (vx sz) + nat (vy sz))) (vy sz) (nat (vx sz)) (nat (vy sz))
        (Divide DIVIDE_2BY2 (collision w')) = Inr q"
      using False quadtree_loop_returns [OF h(2) _ _ h(3,4) lessI full_quad_Divide] by blast
    ultimately show ?thesis by (simp add: gen del: quadtree_loop.simps)
  qed
qed

text \<open>
  C20. When world generation ends, for the same sizes above zero. In a world less than 36 tiles wide it faults, whatever the noise. In any other it
  faults if the terrain does, which no noise makes it do where the world is at least 17 tiles high. Where the terrain comes about, generation
  never ends, with any fuel, exactly when one of the dimensions lies in a range from \<open>8 * 2 ^ k\<close> up to \<open>9 * 2 ^ k\<close>: the quadtree loop
  halves it to one tile size and then tests that size for ever. Otherwise it returns, and the sum of the dimensions is fuel enough.
\<close>

theorem Generate_ends_iff:
  assumes "positive_size sz"
  shows "(vx sz < 36 \<longrightarrow> (\<forall>fuel. Generate fuel rnd (World_Init junk sz w) = Inl BadCast)) \<and>
    (36 \<le> vx sz \<longrightarrow> 17 \<le> vy sz \<longrightarrow> unit_random rnd \<longrightarrow>
      (if halves_to_tile sz then \<forall>fuel. Generate fuel rnd (World_Init junk sz w) = Inl NoReturn
       else is_ok (Generate (Suc (nat (vx sz) + nat (vy sz))) rnd (World_Init junk sz w)))) \<and>
    (case CreateGenerateWorld rnd (CreateGenerateNoise rnd (World_Init junk sz w)) of
       Inl e \<Rightarrow> e \<noteq> NoReturn \<and> (\<forall>fuel. Generate fuel rnd (World_Init junk sz w) = Inl e)
     | Inr w' \<Rightarrow> if halves_to_tile sz then \<forall>fuel. Generate fuel rnd (World_Init junk sz w) = Inl NoReturn
         else is_ok (Generate (Suc (nat (vx sz) + nat (vy sz))) rnd (World_Init junk sz w)))"
proof -
  let ?w = "CreateGenerateNoise rnd (World_Init junk sz w)"
  have sz: "wh_size (w_header ?w) = sz" "tileData ?w = Some (map junk [0..<nat (vx sz) * nat (vy sz)])"
    using World_Init_positive(1,2) [OF assms] by simp_all
  have "CreateGenerateWorld rnd ?w \<noteq> Inl NoReturn" using CreateGenerateWorld_returns_or_faults [of ?w rnd] sz(1) assms by simp
  moreover have fault: "Generate fuel rnd (World_Init junk sz w) = Inl e" if "CreateGenerateWorld rnd ?w = Inl e" for e fuel
    using that by (simp add: Generate_def)
  moreover have "CreateGenerateWorld rnd ?w = Inl BadCast" if "vx sz < 36"
    by (rule CreateGenerateWorld_narrow [OF _ _ sz(2)]) (simp_all only: sz(1) that assms length_map length_upt diff_zero)
  moreover have "\<exists>w'. CreateGenerateWorld rnd ?w = Inr w'" if "36 \<le> vx sz" "17 \<le> vy sz" "unit_random rnd"
    using terrain_rows [of sz rnd junk w] that assms by (auto simp: good_size_positive)
  ultimately show ?thesis using Generate_after_terrain [OF assms, of rnd junk w]
    by (cases "CreateGenerateWorld rnd ?w") auto
qed

theorem Generate_ends_iff_witness:
  "is_ok (Generate 4301 (\<lambda>_. Fin (1 / 2)) (World_Init (\<lambda>_. 200) \<lparr>vx = 4000, vy = 300\<rparr> world0)) \<and>
   (\<forall>fuel. Generate fuel (\<lambda>_. Fin (1 / 2)) (World_Init (\<lambda>_. 200) \<lparr>vx = 4096, vy = 300\<rparr> world0) = Inl NoReturn) \<and>
   (\<forall>fuel. Generate fuel (\<lambda>_. Fin (1 / 2)) (World_Init (\<lambda>_. 200) \<lparr>vx = 35, vy = 300\<rparr> world0) = Inl BadCast)"
proof -
  have pos: "positive_size \<lparr>vx = 4096, vy = 300\<rparr>" by (simp add: positive_size_def)
  have "rest_scale 4000 \<noteq> 8" "rest_scale 300 \<noteq> 8" "rest_scale 4096 = 8" by (simp_all add: rest_scale.simps)
  then have "\<not> halves_to_tile \<lparr>vx = 4000, vy = 300\<rparr>" "halves_to_tile \<lparr>vx = 4096, vy = 300\<rparr>"
    by (simp_all add: halves_to_tile_def rest_scale_8)
  then show ?thesis
    using Generate_ends_iff [OF small_sizes(1), of "\<lambda>_. Fin (1 / 2)" "\<lambda>_. 200" world0] Generate_ends_iff [OF pos, of "\<lambda>_. Fin (1 / 2)" "\<lambda>_. 200" world0]
      Generate_ends_iff [OF small_sizes(2), of "\<lambda>_. Fin (1 / 2)" "\<lambda>_. 200" world0] good_size_example(2) by simp
qed

end
