(* ===== verification/Capy_World_Save.thy ===== *)
theory Capy_World_Save
  imports Capy_World Capy_Filesystem
begin

text \<open>
  \<open>world/world_save.cpp\<close>: a world is saved as the raw bytes of its header, 64 of them, and its tiles. The file
  pointer stays set after the file is closed.
\<close>

section \<open>The header's bytes\<close>

definition world_header_enc :: "world_header \<Rightarrow> byte list" where
  "world_header_enc h =
     le_enc 4 (wh_magic h) @ le_enc 2 (wh_version h) @ wh_pad h @
     le_enc 4 (to_u32 (vx (wh_size h))) @ le_enc 4 (to_u32 (vy (wh_size h))) @ map byte_of_char (wh_name h)"

definition world_header_dec :: "byte list \<Rightarrow> world_header" where
  "world_header_dec bs =
     \<lparr>wh_magic = le_dec (take 4 bs), wh_version = le_dec (take 2 (drop 4 bs)), wh_pad = take 2 (drop 6 bs),
      wh_size = \<lparr>vx = to_i32 (int (le_dec (take 4 (drop 8 bs)))), vy = to_i32 (int (le_dec (take 4 (drop 12 bs))))\<rparr>,
      wh_name = map char_of_byte (take WORLD_NAME_LENGTH (drop 16 bs))\<rparr>"

definition WORLD_HEADER_SIZE :: nat where "WORLD_HEADER_SIZE = 64"

section \<open>Opening and closing\<close>

definition OpenWorldFile ::
    "char list \<Rightarrow> cvar_sys \<Rightarrow> string \<Rightarrow> bool \<Rightarrow> world \<Rightarrow> fs_sys \<Rightarrow> (bool \<times> world \<times> fs_sys) res" where
  "OpenWorldFile mem cs fileName tryCreate w s =
     (case w_file w of
        Some _ \<Rightarrow> Inr (True, w, s)
      | None \<Rightarrow>
          if tryCreate then
            map_res (\<lambda>(f, s). (f \<noteq> None, w\<lparr>w_file := f\<rparr>, s)) (Filesystem_Open mem cs fileName FILE_BINARY s)
          else Inr (False, w, s))"

definition CloseWorldFile :: "world \<Rightarrow> fs_sys \<Rightarrow> fs_sys res" where
  "CloseWorldFile w s = Filesystem_Close (w_file w) s"

text \<open>\<open>file->stream\<close>\<close>

definition world_stream :: "world \<Rightarrow> fs_sys \<Rightarrow> (nat \<times> stream) res" where
  "world_stream w s =
     (case w_file w of None \<Rightarrow> Inl NullDeref
      | Some a \<Rightarrow>
          (case fs_files s a of None \<Rightarrow> Inl UseAfterFree
           | Some ff \<Rightarrow>
               (case fs_streams s (ff_stream ff) of None \<Rightarrow> Inl UseAfterFree
                | Some st \<Rightarrow> Inr (ff_stream ff, st))))"

section \<open>Saving\<close>

text \<open>\<open>write(tileData, n)\<close>: a failed stream does not read its argument.\<close>

definition write_tiles :: "byte list option \<Rightarrow> nat \<Rightarrow> disk \<Rightarrow> stream \<Rightarrow> (disk \<times> stream) res" where
  "write_tiles tiles n d st =
     (if \<not> st_good st then Inr (stream_write [] d st)
      else case tiles of None \<Rightarrow> Inl NullDeref
      | Some ts \<Rightarrow> if length ts < n then Inl OutOfBoundsRead else Inr (stream_write (take n ts) d st))"

definition Serialise :: "char list \<Rightarrow> cvar_sys \<Rightarrow> string \<Rightarrow> world \<Rightarrow> fs_sys \<Rightarrow> (bool \<times> world \<times> fs_sys) res" where
  "Serialise mem cs fileName w s =
     bind_res (OpenWorldFile mem cs fileName True w s) (\<lambda>(ok, w, s).
     if \<not> ok then Inr (False, w, s)
     else let w = (if c_str (wh_name (w_header w)) = []
                   then w\<lparr>w_header := (w_header w)\<lparr>wh_name := strncpy (wh_name (w_header w)) fileName WORLD_NAME_LENGTH\<rparr>\<rparr>
                   else w)
     in bind_res (world_stream w s) (\<lambda>(a, st).
        let (d, st) = stream_write (world_header_enc (w_header w)) (fs_disk s) st;
            finalSize = to_size (i32_mul (size_x w) (size_y w))
        in bind_res (write_tiles (tileData w) finalSize d st) (\<lambda>(d, st).
           let s = s\<lparr>fs_disk := d, fs_streams := (fs_streams s)(a \<mapsto> st)\<rparr>
           in map_res (\<lambda>s. (True, w, s)) (CloseWorldFile w s))))"

section \<open>Loading\<close>

text \<open>A read into the header replaces as many of its bytes as the stream gives.\<close>

definition Deserialise ::
    "char list \<Rightarrow> cvar_sys \<Rightarrow> (nat \<Rightarrow> byte) \<Rightarrow> string \<Rightarrow> world \<Rightarrow> fs_sys \<Rightarrow> (bool \<times> world \<times> fs_sys) res" where
  "Deserialise mem cs junk fileName w s =
     bind_res (OpenWorldFile mem cs fileName False w s) (\<lambda>(ok, w, s).
     if \<not> ok then map_res (\<lambda>s. (False, w, s)) (CloseWorldFile w s)
     else bind_res (world_stream w s) (\<lambda>(a, st).
       let (bs, st) = stream_read WORLD_HEADER_SIZE (fs_disk s) st;
           w = w\<lparr>w_header := world_header_dec (bs @ drop (length bs) (world_header_enc (w_header w)))\<rparr>;
           s = s\<lparr>fs_streams := (fs_streams s)(a \<mapsto> st)\<rparr>;
           sz = i32_mul (size_x w) (size_y w)
       in if wh_version (w_header w) \<noteq> WORLD_FILE_FORMAT_VERSION then map_res (\<lambda>s. (False, w, s)) (CloseWorldFile w s)
          else if size_x w \<le> 0 \<or> size_y w \<le> 0 then map_res (\<lambda>s. (False, w, s)) (CloseWorldFile w s)
          else if sz < 0 then Inl Terminated
          else let (bs, st) = stream_read (nat sz) (fs_disk s) st;
                   w = w\<lparr>tileData := Some (bs @ map junk [length bs..<nat sz])\<rparr>;
                   s = s\<lparr>fs_streams := (fs_streams s)(a \<mapsto> st)\<rparr>
               in map_res (\<lambda>s. (\<not> st_bad st, w, s)) (CloseWorldFile w s)))"

section \<open>Lemmas\<close>

lemma to_i32_u32: "- (2 ^ 31) \<le> i \<Longrightarrow> i < 2 ^ 31 \<Longrightarrow> to_i32 (int (to_u32 i)) = i"
  by (simp add: to_i32_def to_u32_def mod_add_left_eq)

lemma to_u32_less: "to_u32 i < 2 ^ 32"
  by (simp add: to_u32_def nat_less_iff)

definition header_wf :: "world_header \<Rightarrow> bool" where
  "header_wf h \<longleftrightarrow> wh_magic h < 2 ^ 32 \<and> wh_version h < 2 ^ 16 \<and> length (wh_pad h) = 2 \<and> length (wh_name h) = WORLD_NAME_LENGTH \<and>
     - (2 ^ 31) \<le> vx (wh_size h) \<and> vx (wh_size h) < 2 ^ 31 \<and> - (2 ^ 31) \<le> vy (wh_size h) \<and> vy (wh_size h) < 2 ^ 31"

lemma length_world_header_enc: "header_wf h \<Longrightarrow> length (world_header_enc h) = WORLD_HEADER_SIZE"
  by (simp add: world_header_enc_def header_wf_def WORLD_HEADER_SIZE_def WORLD_NAME_LENGTH_def)

lemma world_header_dec_enc:
  assumes "header_wf h"
  shows "world_header_dec (world_header_enc h @ rest) = h"
proof -
  have "le_dec (le_enc 4 (wh_magic h)) = wh_magic h" "le_dec (le_enc 2 (wh_version h)) = wh_version h"
    "le_dec (le_enc 4 (to_u32 (vx (wh_size h)))) = to_u32 (vx (wh_size h))"
    "le_dec (le_enc 4 (to_u32 (vy (wh_size h)))) = to_u32 (vy (wh_size h))"
    using assms to_u32_less by (simp_all add: le_dec_enc header_wf_def)
  moreover have "length (wh_pad h) = 2" "length (wh_name h) = WORLD_NAME_LENGTH" using assms by (auto simp: header_wf_def)
  moreover have "map char_of_byte (map byte_of_char (wh_name h)) = wh_name h" by (simp add: comp_def)
  ultimately show ?thesis
    using assms by (simp add: world_header_dec_def world_header_enc_def header_wf_def to_i32_u32)
qed

lemma header_wf_name:
  assumes "header_wf h" and "length nm = WORLD_NAME_LENGTH"
  shows "header_wf (h\<lparr>wh_name := nm\<rparr>)"
  using assms by (simp add: header_wf_def)

definition saved_header :: "string \<Rightarrow> world_header \<Rightarrow> world_header" where
  "saved_header fileName h =
     (if c_str (wh_name h) = [] then h\<lparr>wh_name := strncpy (wh_name h) fileName WORLD_NAME_LENGTH\<rparr> else h)"

lemma saved_header_wf: "header_wf h \<Longrightarrow> header_wf (saved_header fileName h)"
  unfolding saved_header_def by (auto intro: header_wf_name simp: length_strncpy header_wf_def)

lemma saved_header_simps [simp]: "wh_size (saved_header fileName h) = wh_size h" "wh_version (saved_header fileName h) = wh_version h"
  by (simp_all add: saved_header_def)

section \<open>Properties\<close>

lemma Serialise_saves:
  assumes "fs_wf s" and "basedir_string mem cs s = Inr base" and "\<not> is_package_path fileName"
    and "creatable (fs_disk s) (take (MAX_PATH - 1) (base @ fileName))"
    and "w_file w = None" and "header_wf (w_header w)" and "tileData w = Some tiles"
    and "0 < size_x w" and "0 < size_y w" and "size_x w * size_y w < 2 ^ 31" and "int (length tiles) = size_x w * size_y w"
  shows "\<exists>w' s' bs. Serialise mem cs fileName w s = Inr (True, w', s') \<and> fs_wf s' \<and>
    files (fs_disk s') (take (MAX_PATH - 1) (base @ fileName)) = Some bs \<and>
    world_header_dec bs = saved_header fileName (w_header w) \<and> drop WORLD_HEADER_SIZE bs = tiles \<and>
    Deserialise mem cs junk fileName w' s' = Inl UseAfterFree \<and> Serialise mem cs fileName w' s' = Inl UseAfterFree \<and>
    (\<forall>v. w_file v = None \<longrightarrow> Deserialise mem cs junk fileName v s' = Inr (False, v, s'))"
proof -
  define p where "p = take (MAX_PATH - 1) (base @ fileName)"
  let ?a = "fs_fresh s" and ?h = "saved_header fileName (w_header w)"
  let ?f = "\<lparr>ff_stream = ?a, ff_path = p, ff_open = True\<rparr>"
  let ?s1 = "s\<lparr>fs_disk := store (fs_disk s) p [], fs_fresh := ?a + 2,
    fs_streams := (fs_streams s)(?a \<mapsto> opened_stream p), fs_files := (fs_files s)(?a + 1 \<mapsto> ?f)\<rparr>"
  let ?w1 = "w\<lparr>w_file := Some (?a + 1)\<rparr>" and ?w' = "w\<lparr>w_file := Some (?a + 1), w_header := ?h\<rparr>"
  have op: "Filesystem_Open mem cs fileName FILE_BINARY s = Inr (Some (?a + 1), ?s1)"
    using Filesystem_Open_file [OF assms(2,3), of FILE_BINARY] assms(4)
    unfolding p_def [symmetric] Let_def by simp
  have wf1: "fs_wf ?s1" by (rule fs_wf_open [OF assms(1)])
  have pos: "0 \<le> size_x w * size_y w" using assms(8,9) by simp
  have prod: "i32_mul (size_x w) (size_y w) = size_x w * size_y w" using assms(10) pos by (simp add: i32_mul_def)
  then have n: "to_size (i32_mul (size_x w) (size_y w)) = length tiles"
    using assms(10,11) by (simp add: to_size_def)
  obtain d2 st2 where wr: "stream_write (world_header_enc ?h) (store (fs_disk s) p []) (opened_stream p) = (d2, st2)" by fastforce
  have w0: "writing (store (fs_disk s) p []) (opened_stream p) p []"
    by (simp add: writing_def store_def opened_stream_def st_good_def)
  have w2: "writing d2 st2 p (world_header_enc ?h)" using stream_write_writing(1) [OF w0 wr] by simp
  obtain d3 st3 where wr3: "stream_write tiles d2 st2 = (d3, st3)" by fastforce
  have w3: "writing d3 st3 p (world_header_enc ?h @ tiles)" using stream_write_writing(1) [OF w2 wr3] .
  have tl: "write_tiles (Some tiles) (length tiles) d2 st2 = Inr (d3, st3)"
    using w2 wr3 by (simp add: write_tiles_def writing_def)
  let ?s2 = "?s1\<lparr>fs_disk := d3, fs_streams := (fs_streams ?s1)(?a \<mapsto> st3)\<rparr>"
  have f2: "fs_files ?s2 (?a + 1) = Some ?f" by simp
  have "fs_wf ?s2" using wf1 by (auto simp: fs_wf_def split: if_splits)
  then obtain s' where s': "Filesystem_Close (Some (?a + 1)) ?s2 = Inr s'" "fs_wf s'" "fs_files s' (?a + 1) = None"
    using Filesystem_Close_wf f2 by blast
  have disk: "fs_disk s' = d3" using s'(1) Filesystem_Close_live [OF f2, of st3] by auto
  have ow: "OpenWorldFile mem cs fileName True w s = Inr (True, ?w1, ?s1)"
    using assms(5) op by (simp add: OpenWorldFile_def)
  have nm: "(if c_str (wh_name (w_header ?w1)) = []
      then ?w1\<lparr>w_header := (w_header ?w1)\<lparr>wh_name := strncpy (wh_name (w_header ?w1)) fileName WORLD_NAME_LENGTH\<rparr>\<rparr> else ?w1) = ?w'"
    by (simp add: saved_header_def)
  have ws: "world_stream ?w' ?s1 = Inr (?a, opened_stream p)" by (simp add: world_stream_def)
  have "Serialise mem cs fileName w s = Inr (True, ?w', s')"
    unfolding Serialise_def ow bind_res_Inr split_conv not_True_eq_False if_False Let_def nm ws
    using assms(7) wr tl n s'(1) by (simp add: CloseWorldFile_def)
  moreover have "world_header_dec (world_header_enc ?h @ tiles) = ?h" "drop WORLD_HEADER_SIZE (world_header_enc ?h @ tiles) = tiles"
    using world_header_dec_enc [OF saved_header_wf] length_world_header_enc [OF saved_header_wf] assms(6) by simp_all
  moreover have "files (fs_disk s') p = Some (world_header_enc ?h @ tiles)" using w3 disk by (simp add: writing_def)
  moreover have "Deserialise mem cs junk fileName ?w' s' = Inl UseAfterFree" "Serialise mem cs fileName ?w' s' = Inl UseAfterFree"
    using s'(3) by (simp_all add: Deserialise_def Serialise_def OpenWorldFile_def world_stream_def)
  moreover have "Deserialise mem cs junk fileName v s' = Inr (False, v, s')" if "w_file v = None" for v
    using that by (simp add: Deserialise_def OpenWorldFile_def CloseWorldFile_def Filesystem_Close_def)
  ultimately show ?thesis using s'(2) unfolding p_def by blast
qed

text \<open>
  C34. What is saved and what can be loaded. Saving a world creates a file of a 64-byte header and the tiles, from
  which the format's reader gets the header (with the file name for an empty name) and every tile back.
  But \<open>Deserialise\<close> never reads it: a world without an open file is not allowed to open one and fails at
  once, and the saved world itself still points to its closed file, so that loading or saving it again
  uses a freed object.
\<close>

theorem world_file_roundtrip:
  assumes "fs_wf s" and "basedir_string mem cs s = Inr base" and "\<not> is_package_path fileName"
    and "creatable (fs_disk s) (take (MAX_PATH - 1) (base @ fileName))"
    and "w_file w = None" and "header_wf (w_header w)" and "tileData w = Some tiles"
    and "0 < size_x w" and "0 < size_y w" and "size_x w * size_y w < 2 ^ 31" and "int (length tiles) = size_x w * size_y w"
  shows "\<exists>w' s' bs. Serialise mem cs fileName w s = Inr (True, w', s') \<and> fs_wf s' \<and>
    files (fs_disk s') (take (MAX_PATH - 1) (base @ fileName)) = Some bs \<and>
    world_header_dec bs = saved_header fileName (w_header w) \<and> drop WORLD_HEADER_SIZE bs = tiles \<and>
    Deserialise mem cs junk fileName w' s' = Inl UseAfterFree \<and> Serialise mem cs fileName w' s' = Inl UseAfterFree \<and>
    (\<forall>v. w_file v = None \<longrightarrow> Deserialise mem cs junk fileName v s' = Inr (False, v, s'))"
  by (rule Serialise_saves [OF assms])

definition small_world :: world where
  "small_world = world0\<lparr>w_header := (w_header world0)\<lparr>wh_size := \<lparr>vx = 2, vy = 2\<rparr>\<rparr>, tileData := Some [0, 1, 2, 3]\<rparr>"

theorem world_file_roundtrip_witness:
  "\<exists>w' s' bs. Serialise [] (one_cvar ''fsBasedir'' ''./'') ''a.cfg'' small_world one_file = Inr (True, w', s') \<and>
    files (fs_disk s') ''./a.cfg'' = Some bs \<and> c_str (wh_name (world_header_dec bs)) = ''a.cfg'' \<and> drop WORLD_HEADER_SIZE bs = [0, 1, 2, 3] \<and>
    Deserialise [] (one_cvar ''fsBasedir'' ''./'') (\<lambda>_. 0) ''a.cfg'' small_world s' = Inr (False, small_world, s')"
proof -
  have p': "take (MAX_PATH - Suc 0) ''./a.cfg'' = ''./a.cfg''" by (simp add: MAX_PATH_def)
  have wf: "fs_wf one_file" "creatable (fs_disk one_file) ''./a.cfg''" by (simp add: one_file_def) (simp add: one_file_def fs0_def)
  have w: "w_file small_world = None" "header_wf (w_header small_world)" "tileData small_world = Some [0, 1, 2, 3]"
    "0 < size_x small_world" "0 < size_y small_world" "size_x small_world * size_y small_world < 2 ^ 31"
    "int (length [0::byte, 1, 2, 3]) = size_x small_world * size_y small_world"
    by (simp_all add: small_world_def world0_def header_wf_def WORLD_HEADER_MAGIC_def WORLD_FILE_FORMAT_VERSION_def)
  have "c_str (wh_name (w_header small_world)) = []"
    by (simp add: small_world_def world0_def c_str_def WORLD_NAME_LENGTH_def)
  then have "c_str (wh_name (saved_header ''a.cfg'' (w_header small_world))) = ''a.cfg''"
    using c_str_strncpy [of "''a.cfg''" WORLD_NAME_LENGTH] by (simp add: saved_header_def WORLD_NAME_LENGTH_def NUL_def)
  then show ?thesis
    using world_file_roundtrip [OF wf(1) basedir_one_file not_package_a_cfg _ w, of "[]" "\<lambda>_. 0"] wf(2) w(1)
    by (auto simp: p')
qed

end
