(* ===== verification/Capy_Tokens.thy ===== *)
theory Capy_Tokens
  imports Capy_Prelude
begin

text \<open>
  Tokenising as the source does it: \<open>strtok\<close> of the C library on a fixed-size character
  buffer, which it cuts into tokens by writing NULs, and the two loops over it:
  \<open>Util_GetTokenSeparatedPart\<close> (\<open>util/util.cpp\<close>) and the token count. The state \<open>strtok\<close>
  keeps between calls is the position to go on from.
\<close>

definition whitespace :: string where
  "whitespace = [CHR '' '', CHR 0x0A, CHR 0x0D, CHR 0x09, CHR 0x0C, CHR 0x0B]"

text \<open>The token's position (\<open>None\<close> for a null result), the buffer and the saved position. A buffer
  without a NUL is read past its end.\<close>

definition strtok :: "string \<Rightarrow> char list \<Rightarrow> nat \<Rightarrow> (nat option \<times> char list \<times> nat) res" where
  "strtok ds buf pos =
     (let i = pos + length (takeWhile (\<lambda>c. c \<in> set ds) (drop pos buf));
          j = i + length (takeWhile (\<lambda>c. c \<noteq> NUL \<and> c \<notin> set ds) (drop i buf))
      in if length buf \<le> i then Inl OutOfBoundsRead
         else if buf ! i = NUL then Inr (None, buf, i)
         else if length buf \<le> j then Inl OutOfBoundsRead
         else if buf ! j = NUL then Inr (Some i, buf, j)
         else Inr (Some i, buf[j := NUL], Suc j))"

lemma strtok_Some:
  assumes "strtok ds buf pos = Inr (Some i, buf', pos')" and "NUL \<notin> set ds"
  shows "length buf' = length buf" and "pos < pos'" and "pos' \<le> length buf" and "pos \<le> i" and "i < length buf"
proof -
  define k where "k = pos + length (takeWhile (\<lambda>c. c \<in> set ds) (drop pos buf))"
  define j where "j = k + length (takeWhile (\<lambda>c. c \<noteq> NUL \<and> c \<notin> set ds) (drop k buf))"
  have k: "k < length buf" "buf ! k \<noteq> NUL" "i = k" "j < length buf"
    using assms(1) by (auto simp: strtok_def Let_def k_def j_def split: if_splits)
  have "buf ! k \<notin> set ds"
    using k(1) nth_length_takeWhile [of "\<lambda>c. c \<in> set ds" "drop pos buf"]
    by (simp add: k_def)
  then have "k < j"
    using k(1,2) by (simp add: j_def takeWhile_eq_Nil_iff hd_drop_conv_nth)
  moreover have "pos \<le> k" by (simp add: k_def)
  moreover have "pos' = j \<or> pos' = Suc j" and len: "length buf' = length buf"
    using assms(1) k by (auto simp: strtok_def Let_def k_def j_def split: if_splits)
  ultimately show "length buf' = length buf" and "pos < pos'" and "pos' \<le> length buf"
    and "pos \<le> i" and "i < length buf" using k by auto
qed

section \<open>Loops over the tokens\<close>

text \<open>\<open>while (tok) { amount++; tok = strtok(NULL, delims); }\<close>\<close>

function count_tokens :: "string \<Rightarrow> char list \<Rightarrow> nat \<Rightarrow> (nat \<times> char list) res" where
  "count_tokens ds buf pos =
     (if NUL \<in> set ds then Inl OutOfBoundsRead
      else case strtok ds buf pos of
        Inl e \<Rightarrow> Inl e
      | Inr (None, buf', _) \<Rightarrow> Inr (0, buf')
      | Inr (Some _, buf', pos') \<Rightarrow>
          map_res (\<lambda>(n, b). (Suc n, b)) (count_tokens ds buf' pos'))"
  by pat_completeness auto
termination
proof (relation "measure (\<lambda>(ds, buf, pos). length buf - pos)", goal_cases)
  case 1
  then show ?case by simp
next
  case (2 ds buf pos a b c d buf' pos')
  then have tok: "strtok ds buf pos = Inr (Some d, buf', pos')" and "NUL \<notin> set ds" by auto
  from strtok_Some(1-3) [OF this] show ?case by simp
qed

declare count_tokens.simps [simp del]

text \<open>\<open>Util_GetTokenSeparatedPart(fmt, delim, n)\<close>: the first token, then \<open>n\<close> more, stopping at a null
  one. (Its checks for a null \<open>fmt\<close> or \<open>delim\<close> and for a negative length never fire.)\<close>

fun next_tokens :: "nat \<Rightarrow> string \<Rightarrow> nat option \<times> char list \<times> nat \<Rightarrow> (nat option \<times> char list) res" where
  "next_tokens 0 ds (tok, buf, pos) = Inr (tok, buf)"
| "next_tokens (Suc n) ds (tok, buf, pos) =
     bind_res (strtok ds buf pos) (\<lambda>(tok', buf', pos').
       case tok' of None \<Rightarrow> Inr (None, buf') | Some _ \<Rightarrow> next_tokens n ds (tok', buf', pos'))"

definition Util_GetTokenSeparatedPart :: "char list \<Rightarrow> string \<Rightarrow> nat \<Rightarrow> (nat option \<times> char list) res" where
  "Util_GetTokenSeparatedPart fmt delim n =
     bind_res (strtok delim fmt 0) (next_tokens n delim)"

section \<open>What the tokens are\<close>

text \<open>The reference: the maximal runs of characters that are not delimiters.\<close>

function words :: "string \<Rightarrow> string \<Rightarrow> string list" where
  "words ds s =
     (let r = dropWhile (\<lambda>c. c \<in> set ds) s
      in if r = [] then [] else takeWhile (\<lambda>c. c \<notin> set ds) r # words ds (dropWhile (\<lambda>c. c \<notin> set ds) r))"
  by pat_completeness auto
termination
proof (relation "measure (\<lambda>(ds, s). length s)", goal_cases)
  case 1
  then show ?case by simp
next
  case (2 ds s r)
  then have "r \<noteq> []" and r: "r = dropWhile (\<lambda>c. c \<in> set ds) s" by simp_all
  have "hd r \<notin> set ds"
    using \<open>r \<noteq> []\<close> hd_dropWhile [of "\<lambda>c. c \<in> set ds" s] unfolding r by simp
  moreover obtain x xs where "r = x # xs" using \<open>r \<noteq> []\<close> by (cases r) auto
  ultimately have "length (dropWhile (\<lambda>c. c \<notin> set ds) r) < length r"
    by (simp add: le_imp_less_Suc length_dropWhile_le)
  also have "\<dots> \<le> length s" by (simp add: r length_dropWhile_le)
  finally show ?case by simp
qed

declare words.simps [simp del]

lemma words_Nil [simp]: "words ds [] = []"
  by (simp add: words.simps)

lemma words_delim [simp]: "c \<in> set ds \<Longrightarrow> words ds (c # s) = words ds s"
  by (simp add: words.simps [of ds "c # s"] words.simps [of ds s])

text \<open>One call on a line that starts at the saved position and ends in a NUL: what it skips
  (\<open>sp\<close>), the token (\<open>w\<close>), what is left (\<open>r\<close>).\<close>

lemma takeWhile_line:
  "NUL \<notin> set s \<Longrightarrow> P NUL = False \<Longrightarrow> takeWhile P (s @ NUL # rest) = takeWhile P s"
  by (induction s) auto

lemma nth_after: "(a @ b # c) ! length a = b"
  by simp

lemma strtok_none:
  assumes "set sp \<subseteq> set ds" and "NUL \<notin> set ds"
  shows "strtok ds (pre @ sp @ NUL # rest) (length pre) =
    Inr (None, pre @ sp @ NUL # rest, length pre + length sp)"
proof -
  have "takeWhile (\<lambda>c. c \<in> set ds) (sp @ NUL # rest) = sp"
    using assms by (subst takeWhile_append2) auto
  moreover have "(pre @ sp @ NUL # rest) ! (length pre + length sp) = NUL"
    using nth_after [of "pre @ sp" NUL rest] by simp
  ultimately show ?thesis by (simp add: strtok_def Let_def)
qed

lemma strtok_token:
  assumes "set sp \<subseteq> set ds" and "NUL \<notin> set ds" and "w \<noteq> []" and "NUL \<notin> set w"
    and "set w \<inter> set ds = {}" and "c = NUL \<or> c \<in> set ds"
  shows "strtok ds (pre @ sp @ w @ c # rest) (length pre) =
    Inr (Some (length pre + length sp), pre @ sp @ w @ NUL # rest,
      length pre + length sp + length w + (if c = NUL then 0 else 1))"
proof -
  obtain x xs where w: "w = x # xs" using assms(3) by (cases w) auto
  have i: "takeWhile (\<lambda>c. c \<in> set ds) (sp @ w @ c # rest) = sp"
    using assms(1,5) by (subst takeWhile_append2) (auto simp: w)
  have j: "takeWhile (\<lambda>c. c \<noteq> NUL \<and> c \<notin> set ds) (w @ c # rest) = w"
    using assms(4-6) by (subst takeWhile_append2) auto
  have at_i: "(pre @ sp @ w @ c # rest) ! (length pre + length sp) = x"
    using nth_after [of "pre @ sp" x "xs @ c # rest"] by (simp add: w)
  have at_j: "(pre @ sp @ w @ c # rest) ! (length pre + length sp + length w) = c"
    using nth_after [of "pre @ sp @ w" c rest] by (simp add: add.assoc)
  have upd: "(pre @ sp @ w @ c # rest)[length pre + length sp + length w := NUL] = pre @ sp @ w @ NUL # rest"
    using list_update_length [of "pre @ sp @ w" c rest NUL] by (simp add: add.assoc)
  have "x \<noteq> NUL" using assms(4) w by auto
  have drop_i: "drop (length pre + length sp) (pre @ sp @ w @ c # rest) = w @ c # rest"
    using append_eq_conv_conj [of "pre @ sp" "w @ c # rest"] by simp
  show ?thesis
    using at_i at_j upd \<open>x \<noteq> NUL\<close> i j drop_i
    by (cases "c = NUL") (simp_all add: strtok_def Let_def del: nth_append_length_plus)
qed


text \<open>A line is delimiters only, or ends in its last token, or has a token, a delimiter and more.\<close>

lemma line_induct [case_names none last more]:
  assumes none: "\<And>sp. set sp \<subseteq> set ds \<Longrightarrow> P sp"
    and last: "\<And>sp w. set sp \<subseteq> set ds \<Longrightarrow> w \<noteq> [] \<Longrightarrow> set w \<inter> set ds = {} \<Longrightarrow> P (sp @ w)"
    and more: "\<And>sp w d s. set sp \<subseteq> set ds \<Longrightarrow> w \<noteq> [] \<Longrightarrow> set w \<inter> set ds = {} \<Longrightarrow> d \<in> set ds \<Longrightarrow> P s \<Longrightarrow>
      P (sp @ w @ d # s)"
  shows "P s"
proof (induction "length s" arbitrary: s rule: less_induct)
  case less
  define sp where "sp = takeWhile (\<lambda>c. c \<in> set ds) s"
  define r where "r = dropWhile (\<lambda>c. c \<in> set ds) s"
  define w where "w = takeWhile (\<lambda>c. c \<notin> set ds) r"
  define q where "q = dropWhile (\<lambda>c. c \<notin> set ds) r"
  have s: "s = sp @ w @ q" by (simp add: sp_def w_def q_def r_def)
  have sp: "set sp \<subseteq> set ds" unfolding sp_def by (auto dest: set_takeWhileD)
  have w: "set w \<inter> set ds = {}" unfolding w_def by (auto dest: set_takeWhileD)
  have w_ne: "w \<noteq> []" if "r \<noteq> []"
    using that hd_dropWhile [of "\<lambda>c. c \<in> set ds" s] by (simp add: w_def r_def takeWhile_eq_Nil_iff)
  show ?case
  proof (cases "r = []")
    case True
    then have "s = sp" using s by (simp add: w_def q_def)
    then show ?thesis using none sp by simp
  next
    case False
    show ?thesis
    proof (cases q)
      case Nil
      then show ?thesis using last [OF sp w_ne [OF False] w] s by simp
    next
      case (Cons d t)
      have "d \<in> set ds"
        using hd_dropWhile [of "\<lambda>c. c \<notin> set ds" r, folded q_def] Cons by simp
      moreover have "length t < length s" using s Cons by simp
      ultimately show ?thesis using more [OF sp w_ne [OF False] w] less s Cons by simp
    qed
  qed
qed

lemma words_skip: "set sp \<subseteq> set ds \<Longrightarrow> words ds (sp @ s) = words ds s"
  by (induction sp) auto

lemma words_none: "set sp \<subseteq> set ds \<Longrightarrow> words ds sp = []"
  using words_skip [of sp ds "[]"] by simp

lemma words_token:
  assumes "w \<noteq> []" and "set w \<inter> set ds = {}" and "s = [] \<or> hd s \<in> set ds"
  shows "words ds (w @ s) = w # words ds s"
proof -
  have all: "\<forall>c \<in> set w. c \<notin> set ds" using assms(2) by blast
  then have "dropWhile (\<lambda>c. c \<in> set ds) (w @ s) = w @ s"
    using assms(1) by (cases w) auto
  moreover have "takeWhile (\<lambda>c. c \<notin> set ds) (w @ s) = w" "dropWhile (\<lambda>c. c \<notin> set ds) (w @ s) = s"
    using all assms(3) by (cases s; simp)+
  ultimately show ?thesis
    using assms(1) by (simp add: words.simps [of ds "w @ s"])
qed

lemmas words_simps = words_none words_skip words_token

text \<open>The count of the loop is the number of words.\<close>

lemma count_tokens_eq:
  assumes "NUL \<notin> set ds" and "NUL \<notin> set s"
  shows "map_res fst (count_tokens ds (pre @ s @ NUL # rest) (length pre)) = Inr (length (words ds s))"
  using assms(2)
proof (induction s arbitrary: pre rule: line_induct [of ds])
  case (none sp)
  then show ?case using assms(1) by (simp add: count_tokens.simps [of ds] strtok_none words_simps)
next
  case (last sp w)
  from last have sp: "NUL \<notin> set w" by simp
  have "strtok ds (pre @ sp @ w @ NUL # rest) (length pre) =
      Inr (Some (length pre + length sp), pre @ sp @ w @ NUL # rest, length (pre @ sp @ w))"
    using strtok_token [OF last(1) assms(1) last(2) sp last(3), of NUL] by simp
  moreover have "count_tokens ds (pre @ sp @ w @ NUL # rest) (length (pre @ sp @ w)) =
      Inr (0, pre @ sp @ w @ NUL # rest)"
    using assms(1) strtok_none [of "[]" ds "pre @ sp @ w" rest] by (subst count_tokens.simps) simp
  moreover have "words ds (sp @ w) = [w]" using last words_token [of w ds "[]"] by (simp add: words_simps)
  ultimately show ?case
    using assms(1) by (simp add: count_tokens.simps [of ds "pre @ sp @ w @ NUL # rest" "length pre"])
next
  case (more sp w d s)
  from more have nul: "NUL \<notin> set w" "NUL \<notin> set s" "d \<noteq> NUL" by auto
  have "strtok ds (pre @ sp @ w @ d # s @ NUL # rest) (length pre) =
      Inr (Some (length pre + length sp), pre @ sp @ w @ NUL # s @ NUL # rest,
        length (pre @ sp @ w @ [NUL]))"
    using strtok_token [OF more(1) assms(1) more(2) nul(1) more(3), of d] more(4) nul(3) by simp
  moreover have "words ds (sp @ w @ d # s) = w # words ds s"
    using more by (simp add: words_simps)
  moreover obtain b where
    "count_tokens ds (pre @ sp @ w @ NUL # s @ NUL # rest) (length (pre @ sp @ w @ [NUL])) =
      Inr (length (words ds s), b)"
    using more.IH [OF nul(2), of "pre @ sp @ w @ [NUL]"] by (auto simp: map_res_def bind_res_eq_Inr)
  ultimately show ?case
    using assms(1)
    by (simp add: count_tokens.simps [of ds "pre @ sp @ w @ d # s @ NUL # rest" "length pre"])
qed


text \<open>The loop that fetches token \<open>n\<close>, by what a caller reads through the pointer it returns.\<close>

definition token_text :: "nat option \<times> char list \<Rightarrow> string option" where
  "token_text = (\<lambda>(tok, buf). map_option (\<lambda>i. c_str (drop i buf)) tok)"

lemma token_text_at:
  assumes "NUL \<notin> set w"
  shows "token_text (Some (length pre + length sp), pre @ sp @ w @ NUL # rest) = Some w"
proof -
  have "drop (length pre + length sp) (pre @ sp @ w @ NUL # rest) = w @ NUL # rest"
    using append_eq_conv_conj [of "pre @ sp" "w @ NUL # rest"] by simp
  then show ?thesis
    using assms c_str_append_NUL [of w rest] by (auto simp: token_text_def is_c_string_def list_all_iff)
qed

lemma next_tokens_none:
  assumes "NUL \<notin> set ds"
  shows "next_tokens n ds (None, pre @ NUL # rest, length pre) = Inr (None, pre @ NUL # rest)"
  using strtok_none [of "[]" ds pre rest] assms by (cases n) simp_all

lemma strtok_None_again:
  assumes "strtok ds b p = Inr (None, b', p')" and "NUL \<notin> set ds"
  shows "strtok ds b' p' = Inr (None, b', p')"
proof -
  have p: "p' < length b'" "b' ! p' = NUL"
    using assms(1) by (auto simp: strtok_def Let_def split: if_splits)
  then have "takeWhile (\<lambda>c. c \<in> set ds) (drop p' b') = []"
    using assms(2) by (simp add: takeWhile_eq_Nil_iff hd_drop_conv_nth)
  with p show ?thesis by (simp add: strtok_def Let_def)
qed

lemma next_tokens_None:
  assumes "strtok ds b p = Inr (None, b', p')" and "NUL \<notin> set ds"
  shows "next_tokens n ds (None, b', p') = Inr (None, b')"
  using strtok_None_again [OF assms] by (cases n) simp_all

lemma next_tokens_Suc:
  assumes "strtok ds buf pos = Inr (Some i, buf', pos')"
  shows "next_tokens (Suc n) ds (tok, buf, pos) = next_tokens n ds (Some i, buf', pos')"
  using assms by simp

lemma next_tokens_eq:
  assumes "NUL \<notin> set ds" and "NUL \<notin> set s"
  shows "map_res token_text (bind_res (strtok ds (pre @ s @ NUL # rest) (length pre)) (next_tokens n ds)) =
    Inr (if n < length (words ds s) then Some (words ds s ! n) else None)"
  using assms(2)
proof (induction s arbitrary: pre n rule: line_induct [of ds])
  case (none sp)
  then show ?case
    using assms(1) next_tokens_none [of ds n "pre @ sp" rest]
    by (simp add: strtok_none words_simps token_text_def)
next
  case (last sp w)
  from last have nul: "NUL \<notin> set w" by simp
  have tok: "strtok ds (pre @ sp @ w @ NUL # rest) (length pre) =
      Inr (Some (length pre + length sp), pre @ sp @ w @ NUL # rest, length (pre @ sp @ w))"
    using strtok_token [OF last(1) assms(1) last(2) nul last(3), of NUL] by simp
  have words: "words ds (sp @ w) = [w]" using last words_token [of w ds "[]"] by (simp add: words_simps)
  show ?case
  proof (cases n)
    case 0
    then show ?thesis using tok words token_text_at [OF nul, of pre sp rest] by simp
  next
    case (Suc m)
    then show ?thesis
      using tok words assms(1) strtok_none [of "[]" ds "pre @ sp @ w" rest] by (simp add: token_text_def)
  qed
next
  case (more sp w d s)
  from more have nul: "NUL \<notin> set w" "NUL \<notin> set s" "d \<noteq> NUL" by auto
  have tok: "strtok ds (pre @ sp @ w @ d # s @ NUL # rest) (length pre) =
      Inr (Some (length pre + length sp), pre @ sp @ w @ NUL # s @ NUL # rest,
        length (pre @ sp @ w @ [NUL]))"
    using strtok_token [OF more(1) assms(1) more(2) nul(1) more(3), of d] more(4) nul(3) by simp
  have words: "words ds (sp @ w @ d # s) = w # words ds s"
    using more by (simp add: words_simps)
  show ?case
  proof (cases n)
    case 0
    then show ?thesis using tok words token_text_at [OF nul(1), of pre sp "s @ NUL # rest"] by simp
  next
    case (Suc m)
    show ?thesis
    proof (cases "strtok ds (pre @ sp @ w @ NUL # s @ NUL # rest) (length (pre @ sp @ w @ [NUL]))")
      case (Inl e)
      then show ?thesis using more.IH [OF nul(2), of "pre @ sp @ w @ [NUL]" m] by simp
    next
      case (Inr r)
      then obtain t b p where r: "strtok ds (pre @ sp @ w @ NUL # s @ NUL # rest)
          (length (pre @ sp @ w @ [NUL])) = Inr (t, b, p)" by (cases r) auto
      show ?thesis
      proof (cases t)
        case None
        then show ?thesis
          using more.IH [OF nul(2), of "pre @ sp @ w @ [NUL]" m] tok words r Suc
            next_tokens_None [OF r [unfolded None] assms(1), of m]
          by (simp add: token_text_def split: if_splits)
      next
        case (Some i)
        then show ?thesis
          using more.IH [OF nul(2), of "pre @ sp @ w @ [NUL]" m] tok words r Suc by simp
      qed
    qed
  qed
qed


section \<open>Properties\<close>

lemma Util_GetTokenSeparatedPart_eq:
  assumes "NUL \<notin> set delim" and "NUL \<notin> set s"
  shows "map_res token_text (Util_GetTokenSeparatedPart (s @ NUL # rest) delim n) =
    Inr (if n < length (words delim s) then Some (words delim s ! n) else None)"
  using next_tokens_eq [OF assms, of "[]" rest n] by (simp add: Util_GetTokenSeparatedPart_def)

text \<open>
  C30. \<open>Util_GetTokenSeparatedPart\<close> returns on every C string, reads nothing past its end, and gives
  a pointer to a copy of token \<open>n\<close>: the \<open>n\<close>-th maximal run of characters that are not delimiters.
  It is null when there are not that many.
\<close>

theorem Util_GetTokenSeparatedPart_nth:
  assumes "NUL \<notin> set delim" and "NUL \<notin> set s"
  shows "map_res token_text (Util_GetTokenSeparatedPart (s @ NUL # rest) delim n) =
    Inr (if n < length (words delim s) then Some (words delim s ! n) else None)"
  by (rule Util_GetTokenSeparatedPart_eq [OF assms])

theorem Util_GetTokenSeparatedPart_nth_witness:
  "map_res token_text (Util_GetTokenSeparatedPart (''a,,bc'' @ [NUL]) '','' 1) = Inr (Some ''bc'')"
  using Util_GetTokenSeparatedPart_nth [of "'',''" "''a,,bc''" "[]" 1]
  by (simp add: NUL_def words.simps)

end
