(* ===== verification/Capy_Command.thy ===== *)
theory Capy_Command
  imports Capy_Tokens Capy_Filesystem
begin

text \<open>
  The console commands (\<open>core/command/command.cpp\<close>, \<open>command.hpp\<close>, \<open>commands_basic.cpp\<close>,
  \<open>commands_exec.cpp\<close>, \<open>commands_memory.cpp\<close>): the list of commands, the two line buffers, the
  parameters of the last command and the commands themselves. A parameter is a pointer into
  \<open>lastToken\<close> (\<open>Tok\<close>), which every further call rewrites.
\<close>

section \<open>Data\<close>

definition MAX_STRING :: nat where "MAX_STRING = 256"

text \<open>\<open>CommandType\<close>\<close>

type_synonym command_type = u32

definition COMMAND_CLIENT :: command_type where "COMMAND_CLIENT = 1"
definition COMMAND_CONSOLE :: command_type where "COMMAND_CONSOLE = 2"
definition COMMAND_SERVER :: command_type where "COMMAND_SERVER = 4"
definition COMMAND_GLOBAL :: command_type where "COMMAND_GLOBAL = 7"

text \<open>The functions the source registers.\<close>

datatype handler =
  H_CvarCreate | H_CvarSet | H_Exec | H_Echo | H_MemStats | H_CvarList | H_Shutdown

record command =
  cmd_name :: string
  cmd_type :: command_type
  cmd_onExecute :: "handler option"
  cmd_prev :: "nat option"
  cmd_next :: "nat option"

record cmd_sys =
  commands :: "command heap"
  cmd_fresh :: nat
  commandHead :: "nat option"
  commandTail :: "nat option"
  lastCommand :: "char list"
  lastToken :: "char list"

definition cmd_sys0 :: cmd_sys where
  "cmd_sys0 = \<lparr>commands = Map.empty, cmd_fresh = 0, commandHead = None, commandTail = None,
     lastCommand = replicate MAX_STRING NUL, lastToken = replicate MAX_STRING NUL\<rparr>"

section \<open>The list of commands\<close>

definition Command_Add :: "string option \<Rightarrow> command_type \<Rightarrow> handler option \<Rightarrow> cmd_sys \<Rightarrow> (nat option \<times> cmd_sys) res" where
  "Command_Add name type on_execute s =
     (case name of
        None \<Rightarrow> Inr (None, s)
      | Some nm \<Rightarrow>
          if nm = [] then Inr (None, s)
          else let a = cmd_fresh s;
                   c = \<lparr>cmd_name = nm, cmd_type = type, cmd_onExecute = on_execute, cmd_prev = None, cmd_next = None\<rparr>;
                   s1 = s\<lparr>cmd_fresh := Suc a\<rparr>
               in case commandHead s of
                    None \<Rightarrow> Inr (Some a, s1\<lparr>commands := (commands s)(a \<mapsto> c), commandHead := Some a, commandTail := Some a\<rparr>)
                  | Some _ \<Rightarrow>
                      (case commandTail s of
                         None \<Rightarrow> Inl NullDeref
                       | Some t \<Rightarrow>
                           (case commands s t of
                              None \<Rightarrow> Inl UseAfterFree
                            | Some ct \<Rightarrow> Inr (Some a, s1\<lparr>commands := (commands s)
                                (t \<mapsto> ct\<lparr>cmd_next := Some a\<rparr>, a \<mapsto> c\<lparr>cmd_prev := Some t\<rparr>),
                                commandTail := Some a\<rparr>))))"

definition Command_FindByName :: "cmd_sys \<Rightarrow> string option \<Rightarrow> nat option res" where
  "Command_FindByName s name =
     (case name of None \<Rightarrow> Inr None
      | Some nm \<Rightarrow> run_loop (walk cmd_next (\<lambda>c. strcaseeq (cmd_name c) nm) (commands s) (commandHead s)))"

fun add_all :: "(string \<times> handler) list \<Rightarrow> cmd_sys \<Rightarrow> cmd_sys res" where
  "add_all [] s = Inr s"
| "add_all ((nm, h) # hs) s = bind_res (Command_Add (Some nm) COMMAND_GLOBAL (Some h) s) (\<lambda>(_, s). add_all hs s)"

definition basic_commands :: "bool \<Rightarrow> (string \<times> handler) list" where
  "basic_commands debug =
     [(''create'', H_CvarCreate), (''set'', H_CvarSet), (''exec'', H_Exec)] @
     (if debug then [(''echo'', H_Echo)] else []) @
     [(''memstats'', H_MemStats), (''meminfo'', H_MemStats), (''cvarlist'', H_CvarList), (''shutdown'', H_Shutdown)]"

definition Command_CreateBasicCommands :: "bool \<Rightarrow> cmd_sys \<Rightarrow> cmd_sys res" where
  "Command_CreateBasicCommands debug s = add_all (basic_commands debug) s"

definition Command_Init :: "bool \<Rightarrow> cmd_sys \<Rightarrow> cmd_sys res" where
  "Command_Init debug s = Command_CreateBasicCommands debug s"

definition Command_Shutdown :: "cmd_sys \<Rightarrow> cmd_sys res" where
  "Command_Shutdown s =
     (if commandHead s = None \<or> commandTail s = None then Inr s
      else map_res (\<lambda>h. s\<lparr>commands := h, commandHead := None, commandTail := None\<rparr>)
             (run_loop (free_all cmd_next (commands s) (commandHead s))))"

section \<open>The parameters of the last command\<close>

text \<open>\<open>strncpy(lastToken, lastCommand, MAX_STRING)\<close>\<close>

definition restore :: "cmd_sys \<Rightarrow> cmd_sys" where
  "restore s = s\<lparr>lastToken := strncpy (lastToken s) (c_str (lastCommand s)) MAX_STRING\<rparr>"

definition Command_Argc :: "cmd_sys \<Rightarrow> (nat \<times> cmd_sys) res" where
  "Command_Argc s =
     (let s = restore s
      in bind_res (strtok whitespace (lastToken s) 0) (\<lambda>(_, b, p).
           map_res (\<lambda>(n, b). (n, s\<lparr>lastToken := b\<rparr>)) (count_tokens whitespace b p)))"

definition Command_AllTextAfterName :: "cmd_sys \<Rightarrow> (nat \<times> cmd_sys) res" where
  "Command_AllTextAfterName s =
     (let s = restore s
      in bind_res (strtok whitespace (lastToken s) 0) (\<lambda>(tok, b, p).
           let s = s\<lparr>lastToken := b\<rparr>
           in case tok of
                None \<Rightarrow> Inl NullDeref
              | Some i \<Rightarrow>
                  let name_length = length (c_str (drop i b))
                  in if MAX_STRING \<le> name_length then Inr (0, s) else Inr (name_length + 1, s)))"

text \<open>\<open>Command_Argv\<close>: the pointer of the parameter. The length of a missing one is taken before the
  check for null. The loop ends the string at every white space after its first character.\<close>

definition end_at_space :: "nat \<Rightarrow> nat \<Rightarrow> char list \<Rightarrow> char list" where
  "end_at_space i n b =
     take (i + 1) b @ map (\<lambda>c. if is_space c then NUL else c) (take n (drop (i + 1) b)) @ drop (i + 1 + n) b"

definition Command_Argv :: "nat \<Rightarrow> cmd_sys \<Rightarrow> (nat \<times> cmd_sys) res" where
  "Command_Argv n s =
     (let s = restore s
      in bind_res (Util_GetTokenSeparatedPart (lastToken s) '' '' n) (\<lambda>(tok, b).
           case tok of
             None \<Rightarrow> Inl NullDeref
           | Some i \<Rightarrow>
               let len = length (c_str (drop i b))
               in if length b \<le> i + len then Inl OutOfBoundsRead
                  else Inr (i, s\<lparr>lastToken := end_at_space i len b\<rparr>)))"

section \<open>Running a command\<close>

text \<open>What commands act on. The lines they log are kept, without the numbers \<open>memstats\<close> prints.\<close>

record console =
  con_cmds :: cmd_sys
  con_cvars :: cvar_sys
  con_fs :: fs_sys
  con_log :: "string list"
  con_execCfg :: "nat option"
  con_exited :: bool

definition argc :: "console \<Rightarrow> (nat \<times> console) res" where
  "argc s = map_res (\<lambda>(n, c). (n, s\<lparr>con_cmds := c\<rparr>)) (Command_Argc (con_cmds s))"

definition argv :: "nat \<Rightarrow> console \<Rightarrow> (cstr \<times> console) res" where
  "argv n s = map_res (\<lambda>(i, c). (Tok i, s\<lparr>con_cmds := c\<rparr>)) (Command_Argv n (con_cmds s))"

definition mem_of :: "console \<Rightarrow> char list" where
  "mem_of s = lastToken (con_cmds s)"

text \<open>Two parameters as the arguments of one call: C++ leaves open which is evaluated first.\<close>

definition args12 :: "bool \<Rightarrow> console \<Rightarrow> (cstr \<times> cstr \<times> console) res" where
  "args12 left_first s =
     (if left_first then
        bind_res (argv 1 s) (\<lambda>(a, s). bind_res (argv 2 s) (\<lambda>(b, s). Inr (a, b, s)))
      else
        bind_res (argv 2 s) (\<lambda>(b, s). bind_res (argv 1 s) (\<lambda>(a, s). Inr (a, b, s))))"

text \<open>The common start of \<open>create\<close> and \<open>set\<close>: \<open>None\<close> after the usage message. \<open>Command_Argc\<close> runs
  twice.\<close>

definition flags_of :: "string \<Rightarrow> console \<Rightarrow> (cvar_flags option \<times> console) res" where
  "flags_of usage s =
     bind_res (argc s) (\<lambda>(n, s).
     if n < 2 then Inr (None, s\<lparr>con_log := con_log s @ [usage]\<rparr>)
     else bind_res (argc s) (\<lambda>(n, s).
       if 3 \<le> n then bind_res (argv 3 s) (\<lambda>(p, s). Inr (Some (atoi (deref (mem_of s) p)), s))
       else Inr (Some 0, s)))"

definition usage_create :: string where
  "usage_create = ''Usage: create <name> <value> [flags]'' @ [CHR 0x0A] @ ''Creates a convar.''"

definition usage_set :: string where
  "usage_set = ''Usage: set <name> <value> [flags]'' @ [CHR 0x0A] @ ''Sets the value of a convar.''"

definition Command_CvarCreate :: "bool \<Rightarrow> command_type \<Rightarrow> console \<Rightarrow> console res" where
  "Command_CvarCreate lf origin s =
     bind_res (flags_of usage_create s) (\<lambda>(fl, s).
       case fl of None \<Rightarrow> Inr s
       | Some flags \<Rightarrow>
           let flags = (if origin = COMMAND_CONSOLE then and flags (not Cvar_NoUser) else flags)
           in bind_res (args12 lf s) (\<lambda>(a, b, s).
                map_res (\<lambda>(_, cs). s\<lparr>con_cvars := cs\<rparr>) (Cvar_Get (mem_of s) (con_cvars s) a b flags False)))"

definition Command_CvarSet :: "bool \<Rightarrow> command_type \<Rightarrow> console \<Rightarrow> console res" where
  "Command_CvarSet lf origin s =
     bind_res (flags_of usage_set s) (\<lambda>(fl, s).
       case fl of None \<Rightarrow> Inr s
       | Some flags \<Rightarrow>
           if origin = COMMAND_CONSOLE then
             bind_res (args12 lf s) (\<lambda>(a, b, s).
               map_res (\<lambda>cs. s\<lparr>con_cvars := cs\<rparr>)
                 (Cvar_Set (mem_of s) (con_cvars s) a b (and flags (not Cvar_NoUser)) False))
           else
             bind_res (args12 lf s) (\<lambda>(a, b, s).
               map_res (\<lambda>cs. s\<lparr>con_cvars := cs\<rparr>) (Cvar_Set (mem_of s) (con_cvars s) a b flags True)))"

definition Command_Echo :: "console \<Rightarrow> console res" where
  "Command_Echo s =
     map_res (\<lambda>(i, c). s\<lparr>con_cmds := c, con_log := con_log s @ [c_str (drop i (lastToken c))]\<rparr>)
       (Command_AllTextAfterName (con_cmds s))"

definition Command_MemStats :: "console \<Rightarrow> console res" where
  "Command_MemStats s = Inr (s\<lparr>con_log := con_log s @ [''%d allocations (total memory use: %d bytes)'']\<rparr>)"

definition Command_CvarList :: "console \<Rightarrow> console res" where
  "Command_CvarList s =
     map_res (\<lambda>ls. s\<lparr>con_log := con_log s @ map (\<lambda>(n, v, _). n @ '' '' @ v) ls\<rparr>)
       (Cvar_List (mem_of s) (con_cvars s))"

text \<open>\<open>exec\<close>: the loop over the lines of the file is an argument, since it executes commands again.
  The file object is deleted by \<open>Close\<close> and then once more.\<close>

definition usage_exec :: string where
  "usage_exec = ''Usage: exec <path to cfg file>''"

definition Command_Exec :: "(console \<Rightarrow> console res) \<Rightarrow> console \<Rightarrow> console res" where
  "Command_Exec lines s =
     bind_res (argc s) (\<lambda>(n, s).
     if n < 1 then Inr (s\<lparr>con_log := con_log s @ [usage_exec]\<rparr>)
     else bind_res (argv 1 s) (\<lambda>(p, s).
       bind_res (Filesystem_Open (mem_of s) (con_cvars s) (deref (mem_of s) p) FILE_TEXT (con_fs s)) (\<lambda>(cfg, fs).
         let s = s\<lparr>con_fs := fs, con_execCfg := cfg\<rparr>
         in case cfg of
              None \<Rightarrow> Inr (s\<lparr>con_log := con_log s @ [''exec: File not found!'']\<rparr>)
            | Some _ \<Rightarrow>
                bind_res (lines s) (\<lambda>s.
                bind_res (Filesystem_Close (con_execCfg s) (con_fs s)) (\<lambda>fs.
                case con_execCfg s of
                  None \<Rightarrow> Inr (s\<lparr>con_fs := fs\<rparr>)
                | Some a \<Rightarrow> map_res (\<lambda>fs. s\<lparr>con_fs := fs\<rparr>) (delete_file a fs))))))"

text \<open>\<open>execCfg->stream\<close>\<close>

definition exec_stream :: "console \<Rightarrow> (nat \<times> stream) res" where
  "exec_stream s =
     (case con_execCfg s of
        None \<Rightarrow> Inl NullDeref
      | Some a \<Rightarrow>
          (case fs_files (con_fs s) a of
             None \<Rightarrow> Inl UseAfterFree
           | Some f \<Rightarrow> with_stream (con_fs s) (ff_stream f) (\<lambda>st. Inr (ff_stream f, st))))"

definition put_stream :: "nat \<Rightarrow> stream \<Rightarrow> console \<Rightarrow> console" where
  "put_stream a st s = s\<lparr>con_fs := (con_fs s)\<lparr>fs_streams := (fs_streams (con_fs s))(a \<mapsto> st)\<rparr>\<rparr>"

text \<open>One iteration up to the command: the line, and the position set back to just behind it (where
  the newline is).\<close>

definition exec_line :: "console \<Rightarrow> (string option \<times> console) res" where
  "exec_line s =
     bind_res (exec_stream s) (\<lambda>(a, st).
       if st_eof st then Inr (None, s)
       else let pos = stream_tellp st;
                (line, st) = stream_getline MAX_STRING (fs_disk (con_fs s)) st;
                st = (case pos of None \<Rightarrow> stream_seekp (length line - 1) st
                      | Some k \<Rightarrow> stream_seekp (k + length line) st)
            in Inr (Some line, put_stream a st s))"

text \<open>\<open>Command_Execute\<close>. The fuel bounds the number of nested and repeated executions, and running
  out of it is the value for not returning; the shutdown of the engine is an argument.\<close>

definition run_handler ::
    "bool \<Rightarrow> (console \<Rightarrow> console res) \<Rightarrow> (console \<Rightarrow> console res) \<Rightarrow> handler \<Rightarrow> command_type \<Rightarrow> console \<Rightarrow> console res" where
  "run_handler lf shut lines h origin s =
     (case h of
        H_CvarCreate \<Rightarrow> Command_CvarCreate lf origin s
      | H_CvarSet \<Rightarrow> Command_CvarSet lf origin s
      | H_Exec \<Rightarrow> Command_Exec lines s
      | H_Echo \<Rightarrow> Command_Echo s
      | H_MemStats \<Rightarrow> Command_MemStats s
      | H_CvarList \<Rightarrow> Command_CvarList s
      | H_Shutdown \<Rightarrow> shut s)"

definition load_line :: "string \<Rightarrow> cmd_sys \<Rightarrow> cmd_sys" where
  "load_line cmd s = s\<lparr>lastCommand := strncpy (lastCommand s) cmd MAX_STRING,
     lastToken := strncpy (lastToken s) cmd MAX_STRING\<rparr>"

definition Command_Execute_with ::
    "bool \<Rightarrow> (console \<Rightarrow> console res) \<Rightarrow> (console \<Rightarrow> console res) \<Rightarrow> string \<Rightarrow> command_type \<Rightarrow> console \<Rightarrow> console res" where
  "Command_Execute_with lf shut lines cmd origin s =
     (let c = load_line cmd (con_cmds s)
      in bind_res (strtok whitespace (lastToken c) 0) (\<lambda>(tok, b, p).
           let c = c\<lparr>lastToken := b\<rparr>; s = s\<lparr>con_cmds := c\<rparr>
           in case tok of
                None \<Rightarrow> Inr s
              | Some i \<Rightarrow>
                  let name = c_str (drop i b)
                  in if name = [] then Inr s
                     else bind_res (Command_FindByName c (Some name)) (\<lambda>r.
                       case r of
                         None \<Rightarrow> Inr (s\<lparr>con_log := con_log s @ [''Command not found: '' @ name]\<rparr>)
                       | Some a \<Rightarrow>
                           (case commands c a of
                              None \<Rightarrow> Inl UseAfterFree
                            | Some cm \<Rightarrow>
                                (case cmd_onExecute cm of
                                   None \<Rightarrow> Inr (s\<lparr>con_log := con_log s @ [''Command has no on-execute function: '' @ name]\<rparr>)
                                 | Some h \<Rightarrow>
                                     if and (cmd_type cm) origin \<noteq> 0 then run_handler lf shut lines h origin s
                                     else Inr s)))))"

fun Command_Execute :: "bool \<Rightarrow> (console \<Rightarrow> console res) \<Rightarrow> nat \<Rightarrow> string \<Rightarrow> command_type \<Rightarrow> console \<Rightarrow> console res"
  and exec_lines :: "bool \<Rightarrow> (console \<Rightarrow> console res) \<Rightarrow> nat \<Rightarrow> console \<Rightarrow> console res"
where
  "Command_Execute lf shut 0 cmd origin s = Inl NoReturn"
| "Command_Execute lf shut (Suc n) cmd origin s =
     Command_Execute_with lf shut (\<lambda>s. exec_lines lf shut n s) cmd origin s"
| "exec_lines lf shut 0 s = Inl NoReturn"
| "exec_lines lf shut (Suc n) s =
     bind_res (exec_line s) (\<lambda>(line, s).
       case line of None \<Rightarrow> Inr s
       | Some l \<Rightarrow> bind_res (Command_Execute lf shut n l COMMAND_CONSOLE s) (\<lambda>s. exec_lines lf shut n s))"

definition Command_ExecuteGlobal :: "bool \<Rightarrow> (console \<Rightarrow> console res) \<Rightarrow> nat \<Rightarrow> string \<Rightarrow> console \<Rightarrow> console res" where
  "Command_ExecuteGlobal lf shut n cmd s = Command_Execute lf shut n cmd COMMAND_GLOBAL s"


section \<open>The list of commands, abstractly\<close>

abbreviation cmd_dlist :: "cmd_sys \<Rightarrow> nat list \<Rightarrow> bool" where
  "cmd_dlist s as \<equiv> dlist cmd_next cmd_prev (commands s) (commandHead s) (commandTail s) as"

definition cmd_wf :: "cmd_sys \<Rightarrow> nat list \<Rightarrow> bool" where
  "cmd_wf s as = (cmd_dlist s as \<and> (\<forall>a \<in> set as. a < cmd_fresh s) \<and>
     length (lastCommand s) = MAX_STRING \<and> length (lastToken s) = MAX_STRING)"

type_synonym cmd_entry = "nat \<times> string \<times> command_type \<times> handler option"

definition cmd_abs :: "cmd_sys \<Rightarrow> nat list \<Rightarrow> cmd_entry list" where
  "cmd_abs s as = map (\<lambda>a. let c = the (commands s a) in (a, cmd_name c, cmd_type c, cmd_onExecute c)) as"

definition cmd_lookup :: "string \<Rightarrow> cmd_entry list \<Rightarrow> cmd_entry option" where
  "cmd_lookup nm = find (\<lambda>(_, n, _). strcaseeq n nm)"

lemma cmd_wf_empty: "cmd_wf cmd_sys0 []"
  by (simp add: cmd_wf_def cmd_sys0_def dlist_empty)

lemma cmd_wf_buffers [simp]:
  "cmd_dlist (s\<lparr>lastCommand := b, lastToken := c\<rparr>) as = cmd_dlist s as"
  "cmd_abs (s\<lparr>lastCommand := b, lastToken := c\<rparr>) as = cmd_abs s as"
  "cmd_abs (s\<lparr>lastToken := c\<rparr>) as = cmd_abs s as"
  "cmd_abs (s\<lparr>lastCommand := c\<rparr>) as = cmd_abs s as"
  by (simp_all add: cmd_abs_def)

lemma Command_FindByName_wf:
  assumes "cmd_wf s as"
  shows "Command_FindByName s (Some nm) = Inr (map_option fst (cmd_lookup nm (cmd_abs s as)))"
proof -
  have "run_loop (walk cmd_next (\<lambda>c. strcaseeq (cmd_name c) nm) (commands s) (commandHead s)) =
    Inr (find (\<lambda>a. strcaseeq (cmd_name (the (commands s a))) nm) as)"
    using assms by (intro walk_dlist [where tl_p = "commandTail s" and pv = cmd_prev]) (simp add: cmd_wf_def)
  moreover have "find (\<lambda>a. strcaseeq (cmd_name (the (commands s a))) nm) as =
    map_option fst (cmd_lookup nm (cmd_abs s as))"
    by (induction as) (auto simp: cmd_lookup_def cmd_abs_def Let_def)
  ultimately show ?thesis by (simp add: Command_FindByName_def)
qed

lemma Command_Add_wf:
  assumes wf: "cmd_wf s as" and "nm \<noteq> []"
  shows "\<exists>s'. Command_Add (Some nm) ty h s = Inr (Some (cmd_fresh s), s') \<and> cmd_wf s' (as @ [cmd_fresh s]) \<and>
    cmd_abs s' (as @ [cmd_fresh s]) = cmd_abs s as @ [(cmd_fresh s, nm, ty, h)] \<and>
    lastCommand s' = lastCommand s \<and> lastToken s' = lastToken s"
proof -
  let ?a = "cmd_fresh s"
  let ?c = "\<lparr>cmd_name = nm, cmd_type = ty, cmd_onExecute = h, cmd_prev = None, cmd_next = None\<rparr>"
  have dl: "cmd_dlist s as" and lt: "\<forall>b \<in> set as. b < ?a"
    and len: "length (lastCommand s) = MAX_STRING" "length (lastToken s) = MAX_STRING"
    using wf by (simp_all add: cmd_wf_def)
  have fresh: "?a \<notin> dom (commands s)" using dl lt by (auto simp: dlist_def)
  have lt': "\<forall>b \<in> set (as @ [?a]). b < Suc ?a" using lt by auto
  show ?thesis
  proof (cases "commandHead s")
    case None
    then have "as = []" using dl by (metis dlist_head_None)
    have "dlist cmd_next cmd_prev ((commands s)(?a \<mapsto> ?c)) (Some ?a) (Some ?a) [?a]"
      using dl None fresh by (intro dlist_first [where tl_p = "commandTail s" and as = as]) simp_all
    then show ?thesis
      using None \<open>as = []\<close> assms(2) len
      by (simp add: Command_Add_def Let_def cmd_wf_def cmd_abs_def)
  next
    case (Some hd)
    then obtain t m where t: "commandTail s = Some t" "commands s t = Some m" "t = last as"
      using dl dlist_tail [of cmd_next cmd_prev "commands s" hd "commandTail s" as] by auto
    let ?h = "(commands s)(t \<mapsto> m\<lparr>cmd_next := Some ?a\<rparr>, ?a \<mapsto> ?c\<lparr>cmd_prev := Some t\<rparr>)"
    have "dlist cmd_next cmd_prev ?h (commandHead s) (Some ?a) (as @ [?a])"
      using dl t fresh
      by (intro dlist_snoc [of cmd_next cmd_prev "commands s" "commandHead s" t as ?a m]) simp_all
    moreover have "map (\<lambda>a. let c = the (?h a) in (a, cmd_name c, cmd_type c, cmd_onExecute c)) as =
      map (\<lambda>a. let c = the (commands s a) in (a, cmd_name c, cmd_type c, cmd_onExecute c)) as"
      using lt t(2) by (auto simp: Let_def)
    ultimately show ?thesis
      using Some t assms(2) len lt'
      by (simp add: Command_Add_def Let_def cmd_wf_def cmd_abs_def)
  qed
qed

lemma cmd_lookup_snoc:
  "cmd_lookup nm (es @ [(a, n, ty, h)]) =
    (case cmd_lookup nm es of Some e \<Rightarrow> Some e | None \<Rightarrow> if strcaseeq n nm then Some (a, n, ty, h) else None)"
  by (induction es) (auto simp: cmd_lookup_def)

lemma add_all_wf:
  "cmd_wf s as \<Longrightarrow> \<forall>(nm, h) \<in> set hs. nm \<noteq> [] \<Longrightarrow>
    \<exists>s' bs. add_all hs s = Inr s' \<and> cmd_wf s' (as @ bs) \<and>
      map snd (cmd_abs s' (as @ bs)) = map snd (cmd_abs s as) @ map (\<lambda>(nm, h). (nm, COMMAND_GLOBAL, Some h)) hs \<and>
      lastCommand s' = lastCommand s"
proof (induction hs arbitrary: s as)
  case Nil
  then show ?case by (auto intro: exI [of _ "[]"])
next
  case (Cons p hs)
  obtain nm h where p: "p = (nm, h)" by (cases p) auto
  from Command_Add_wf [OF Cons.prems(1), of nm COMMAND_GLOBAL "Some h"] Cons.prems(2) p obtain t where
    t: "Command_Add (Some nm) COMMAND_GLOBAL (Some h) s = Inr (Some (cmd_fresh s), t)"
      "cmd_wf t (as @ [cmd_fresh s])"
      "cmd_abs t (as @ [cmd_fresh s]) = cmd_abs s as @ [(cmd_fresh s, nm, COMMAND_GLOBAL, Some h)]"
      "lastCommand t = lastCommand s"
    by auto
  from Cons.IH [OF t(2)] Cons.prems(2) obtain s' bs where
    "add_all hs t = Inr s'" "cmd_wf s' ((as @ [cmd_fresh s]) @ bs)"
    "map snd (cmd_abs s' ((as @ [cmd_fresh s]) @ bs)) =
      map snd (cmd_abs t (as @ [cmd_fresh s])) @ map (\<lambda>(nm, h). (nm, COMMAND_GLOBAL, Some h)) hs"
    "lastCommand s' = lastCommand t" by auto
  then show ?case
    using t p by (intro exI [of _ s'] exI [of _ "cmd_fresh s # bs"]) simp
qed


section \<open>The parameters, abstractly\<close>

text \<open>A line that fits: shorter than the buffer and with no NUL. \<open>loaded\<close> is what the buffer holds.\<close>

definition fits :: "string \<Rightarrow> bool" where
  "fits cmd = (NUL \<notin> set cmd \<and> length cmd < MAX_STRING)"

definition last_line :: "string \<Rightarrow> cmd_sys \<Rightarrow> bool" where
  "last_line cmd s = (fits cmd \<and> lastCommand s = strncpy (lastCommand s) cmd MAX_STRING \<and>
     length (lastCommand s) = MAX_STRING \<and> length (lastToken s) = MAX_STRING)"

definition padding :: "string \<Rightarrow> char list" where
  "padding cmd = replicate (MAX_STRING - length cmd - 1) NUL"

lemma strncpy_full:
  assumes "fits cmd" and "length b = MAX_STRING"
  shows "strncpy b cmd MAX_STRING = cmd @ NUL # padding cmd"
proof -
  have "MAX_STRING - length cmd = Suc (MAX_STRING - length cmd - 1)"
    using assms(1) by (simp add: fits_def Suc_diff_Suc)
  then have "replicate (MAX_STRING - length cmd) NUL = NUL # padding cmd"
    by (metis padding_def replicate_Suc)
  then show ?thesis
    using assms by (simp add: strncpy_short fits_def)
qed

lemma is_c_string_iff: "is_c_string s \<longleftrightarrow> NUL \<notin> set s"
  by (induction s) auto

lemma c_str_fits: "fits cmd \<Longrightarrow> c_str (cmd @ NUL # rest) = cmd"
  by (simp add: c_str_append_NUL fits_def is_c_string_iff)

lemma last_line_lastCommand: "last_line cmd s \<Longrightarrow> lastCommand s = cmd @ NUL # padding cmd"
  using strncpy_full by (metis last_line_def)

lemma restore_line:
  assumes "last_line cmd s"
  shows "restore s = s\<lparr>lastToken := cmd @ NUL # padding cmd\<rparr>"
proof -
  have "fits cmd" "length (lastToken s) = MAX_STRING" using assms by (auto simp: last_line_def)
  then show ?thesis
    using last_line_lastCommand [OF assms] by (simp add: restore_def c_str_fits strncpy_full)
qed

lemma length_line: "fits cmd \<Longrightarrow> length (cmd @ NUL # padding cmd) = MAX_STRING"
  by (simp add: padding_def fits_def)

lemma last_line_load:
  assumes "fits cmd" and "length (lastCommand s) = MAX_STRING" and "length (lastToken s) = MAX_STRING"
  shows "load_line cmd s = s\<lparr>lastCommand := cmd @ NUL # padding cmd, lastToken := cmd @ NUL # padding cmd\<rparr>"
    and "last_line cmd (load_line cmd s)"
  using assms strncpy_full [OF assms(1)] length_line [OF assms(1)]
  by (simp_all add: load_line_def last_line_def)

lemma whitespace_NUL [simp]: "NUL \<notin> set whitespace"
  by (simp add: whitespace_def NUL_def)

lemma blank_NUL [simp]: "NUL \<notin> set '' ''"
  by (simp add: NUL_def)

text \<open>Tokenising only ever writes NULs: the buffer keeps its length and its last character.\<close>

lemma strtok_buffer:
  assumes "strtok ds b p = Inr (t, b', p')" and "last b = NUL"
  shows "length b' = length b \<and> last b' = NUL"
proof -
  have "b' = b \<or> (\<exists>j. b' = b[j := NUL])"
    using assms(1) unfolding strtok_def Let_def by (auto split: if_splits)
  then show ?thesis
    using assms(2) by (cases "b = []") (auto simp: last_list_update)
qed

lemma count_tokens_buffer:
  "count_tokens ds b p = Inr (n, b') \<Longrightarrow> last b = NUL \<Longrightarrow> length b' = length b"
proof (induction ds b p arbitrary: n b' rule: count_tokens.induct)
  case (1 ds b p)
  show ?case
  proof (cases "strtok ds b p")
    case (Inl e)
    then show ?thesis using 1(2) by (simp add: count_tokens.simps [of ds b p] split: if_splits)
  next
    case (Inr r)
    obtain t c q where r: "r = (t, c, q)" by (cases r)
    have c: "length c = length b" "last c = NUL"
      using strtok_buffer [of ds b p t c q] Inr r 1(3) by simp_all
    show ?thesis
    proof (cases t)
      case None
      then show ?thesis using 1(2) Inr r c by (simp add: count_tokens.simps [of ds b p] split: if_splits)
    next
      case (Some i)
      then obtain m where "count_tokens ds c q = Inr (m, b')" "NUL \<notin> set ds"
        using 1(2) Inr r
        by (auto simp: count_tokens.simps [of ds b p] map_res_def bind_res_eq_Inr split: if_splits)
      then show ?thesis using 1(1) [OF _ Inr] r Some c by auto
    qed
  qed
qed

lemma next_tokens_buffer:
  "next_tokens n ds (t, b, p) = Inr (t', b') \<Longrightarrow> last b = NUL \<Longrightarrow> length b' = length b \<and> last b' = NUL"
proof (induction n arbitrary: t b p)
  case 0
  then show ?case by simp
next
  case (Suc n)
  then obtain u c q where c: "strtok ds b p = Inr (u, c, q)" by (auto simp: bind_res_eq_Inr)
  then have "length c = length b" "last c = NUL" using strtok_buffer Suc.prems(2) by auto
  then show ?case
    using Suc c by (cases u) (auto simp: split: if_splits)
qed

text \<open>The number of parameters is the number of words after the first.\<close>

lemma Command_Argc_words:
  assumes "last_line cmd s"
  shows "\<exists>b. Command_Argc s = Inr (length (words whitespace cmd) - 1, s\<lparr>lastToken := b\<rparr>) \<and> length b = MAX_STRING"
proof -
  let ?buf = "cmd @ NUL # padding cmd"
  have "fits cmd" and nul: "NUL \<notin> set cmd" using assms by (auto simp: last_line_def fits_def)
  have len: "length ?buf = MAX_STRING" by (rule length_line [OF \<open>fits cmd\<close>])
  have last: "last ?buf = NUL" by (simp add: padding_def)
  obtain b where count: "count_tokens whitespace ?buf 0 = Inr (length (words whitespace cmd), b)"
    using count_tokens_eq [of whitespace cmd "[]" "padding cmd"] nul
    by (auto simp: map_res_def bind_res_eq_Inr)
  obtain t c q where tok: "strtok whitespace ?buf 0 = Inr (t, c, q)"
    using count by (auto simp: count_tokens.simps [of _ ?buf] split: sum.splits)
  have c: "length c = MAX_STRING" "last c = NUL" using strtok_buffer [OF tok last] len by simp_all
  show ?thesis
  proof (cases t)
    case None
    then have "length (words whitespace cmd) = 0" using count tok by (simp add: count_tokens.simps [of _ ?buf])
    moreover have "count_tokens whitespace c q = Inr (0, c)"
      using strtok_None_again [of whitespace ?buf 0 c q] tok None by (simp add: count_tokens.simps [of _ c])
    ultimately show ?thesis
      using tok None c restore_line [OF assms] by (intro exI [of _ c]) (simp add: Command_Argc_def)
  next
    case (Some i)
    then obtain n where n: "count_tokens whitespace c q = Inr (n, b)" "Suc n = length (words whitespace cmd)"
      using count tok by (auto simp: count_tokens.simps [of _ ?buf] map_res_def bind_res_eq_Inr)
    then have "length b = MAX_STRING" "length (words whitespace cmd) - 1 = n" using count_tokens_buffer c by auto
    then show ?thesis
      using tok n restore_line [OF assms] by (intro exI [of _ b]) (simp add: Command_Argc_def)
  qed
qed


text \<open>What a parameter reads as: its first character, and the rest up to a white space.\<close>

definition up_to_space :: "string \<Rightarrow> string" where
  "up_to_space w = (case w of [] \<Rightarrow> [] | c # cs \<Rightarrow> c # takeWhile (\<lambda>c. \<not> is_space c) cs)"

lemma is_space_NUL [simp]: "\<not> is_space NUL"
  by (simp add: is_space_def NUL_def)

lemma c_str_end_at_space:
  assumes "c_str (drop i b) = w" and "w \<noteq> []" and "i + length w < length b"
  shows "c_str (drop i (end_at_space i (length w) b)) = up_to_space w"
proof -
  obtain c cs where w: "w = c # cs" using assms(2) by (cases w) auto
  define d where "d = drop i b"
  have "takeWhile (\<lambda>c. c \<noteq> NUL) d = w" using assms(1) by (simp add: c_str_def d_def)
  then have d: "d = w @ dropWhile (\<lambda>c. c \<noteq> NUL) d" "\<forall>x \<in> set w. x \<noteq> NUL"
    by (metis takeWhile_dropWhile_id, metis set_takeWhileD)
  have "length w < length d" using assms(3) by (simp add: d_def)
  then have "dropWhile (\<lambda>c. c \<noteq> NUL) d \<noteq> []" using d(1) by (metis append_Nil2 less_irrefl)
  then obtain r where r: "dropWhile (\<lambda>c. c \<noteq> NUL) d = NUL # r"
    using hd_dropWhile [of "\<lambda>c. c \<noteq> NUL" d] by (cases "dropWhile (\<lambda>c. c \<noteq> NUL) d") auto
  let ?f = "\<lambda>c. if is_space c then NUL else c"
  have dw: "d = c # cs @ NUL # r" using d(1) r w by simp
  have "drop (i + 1) b = cs @ NUL # r"
    using dw by (metis add.commute d_def drop_drop drop0 drop_Suc_Cons One_nat_def)
  moreover have "drop i (take (i + 1) b) = [c]"
    using dw by (simp add: d_def drop_take take_Suc)
  ultimately have end_d: "drop i (end_at_space i (length w) b) =
      c # map ?f (cs @ [NUL]) @ drop (i + 1 + length w) b"
    using assms(3) by (simp add: end_at_space_def w)
  have "c \<noteq> NUL" "\<forall>x \<in> set cs. x \<noteq> NUL" using d(2) w by simp_all
  moreover have "\<forall>x \<in> set cs. x \<noteq> NUL \<Longrightarrow>
    takeWhile (\<lambda>c. c \<noteq> NUL) (map ?f cs @ NUL # z) = takeWhile (\<lambda>c. \<not> is_space c) cs" for z
    by (induction cs) auto
  ultimately show ?thesis unfolding end_d by (simp add: c_str_def up_to_space_def w)
qed

lemma length_end_at_space: "i + 1 + n \<le> length b \<Longrightarrow> length (end_at_space i n b) = length b"
  by (simp add: end_at_space_def)

lemma words_nonempty: "w \<in> set (words ds s) \<Longrightarrow> w \<noteq> []"
proof (induction s rule: line_induct [of ds])
  case (more sp w d s)
  then show ?case by (auto simp: words_simps)
next
  case (last sp w)
  then show ?case using words_token [of w ds "[]"] by (auto simp: words_simps)
qed (simp add: words_none)

lemma takeWhile_short: "x \<in> set xs \<Longrightarrow> \<not> P x \<Longrightarrow> length (takeWhile P xs) < length xs"
  by (induction xs) auto

lemma Command_Argv_token:
  assumes "last_line cmd s" and "n < length (words '' '' cmd)"
  shows "\<exists>i b. Command_Argv n s = Inr (i, s\<lparr>lastToken := b\<rparr>) \<and> length b = MAX_STRING \<and>
    c_str (drop i b) = up_to_space (words '' '' cmd ! n)"
proof -
  let ?buf = "cmd @ NUL # padding cmd" and ?w = "words '' '' cmd ! n"
  have "fits cmd" and nul: "NUL \<notin> set cmd" using assms by (auto simp: last_line_def fits_def)
  have len: "length ?buf = MAX_STRING" by (rule length_line [OF \<open>fits cmd\<close>])
  have last: "last ?buf = NUL" by (simp add: padding_def)
  obtain i b where tok: "Util_GetTokenSeparatedPart ?buf '' '' n = Inr (Some i, b)" "c_str (drop i b) = ?w"
    using Util_GetTokenSeparatedPart_eq [OF blank_NUL nul, of "padding cmd" n] assms(2)
    by (auto simp: map_res_def bind_res_eq_Inr token_text_def)
  have b: "length b = MAX_STRING" "last b = NUL"
  proof -
    obtain u c q where "strtok '' '' ?buf 0 = Inr (u, c, q)" "next_tokens n '' '' (u, c, q) = Inr (Some i, b)"
      using tok(1) by (auto simp: Util_GetTokenSeparatedPart_def bind_res_eq_Inr)
    with strtok_buffer [OF this(1) last] next_tokens_buffer [OF this(2)] len
    show "length b = MAX_STRING" "last b = NUL" by auto
  qed
  have "?w \<noteq> []" using words_nonempty [OF nth_mem [OF assms(2)]] .
  then have "drop i b \<noteq> []" using tok(2) by (auto simp: c_str_def)
  then have "last (drop i b) = NUL" using b(2) by simp
  then have "NUL \<in> set (drop i b)" using \<open>drop i b \<noteq> []\<close> last_in_set by metis
  then have "length ?w < length (drop i b)"
    using takeWhile_short [of NUL "drop i b" "\<lambda>c. c \<noteq> NUL"] tok(2) by (simp add: c_str_def)
  then have fit: "i + length ?w < length b" by simp
  then have "length (end_at_space i (length ?w) b) = MAX_STRING"
    using length_end_at_space [of i "length ?w" b] b(1) by simp
  moreover have "c_str (drop i (end_at_space i (length ?w) b)) = up_to_space ?w"
    by (rule c_str_end_at_space [OF tok(2) \<open>?w \<noteq> []\<close> fit])
  ultimately show ?thesis
    using tok restore_line [OF assms(1)] fit
    by (intro exI [of _ i] exI [of _ "end_at_space i (length ?w) b"]) (simp add: Command_Argv_def)
qed

lemma Command_Argv_missing:
  assumes "last_line cmd s" and "\<not> n < length (words '' '' cmd)"
  shows "Command_Argv n s = Inl NullDeref"
proof -
  have nul: "NUL \<notin> set cmd" using assms by (auto simp: last_line_def fits_def)
  obtain b where "Util_GetTokenSeparatedPart (cmd @ NUL # padding cmd) '' '' n = Inr (None, b)"
    using Util_GetTokenSeparatedPart_eq [OF blank_NUL nul, of "padding cmd" n] assms(2)
    by (auto simp: map_res_def bind_res_eq_Inr token_text_def)
  then show ?thesis using restore_line [OF assms(1)] by (simp add: Command_Argv_def)
qed


section \<open>Dispatch\<close>

definition console_wf :: "console \<Rightarrow> nat list \<Rightarrow> bool" where
  "console_wf s as = cmd_wf (con_cmds s) as"

definition set_cmds :: "cmd_sys \<Rightarrow> console \<Rightarrow> console" where
  "set_cmds c s = s\<lparr>con_cmds := c\<rparr>"

definition dispatch ::
    "bool \<Rightarrow> (console \<Rightarrow> console res) \<Rightarrow> (console \<Rightarrow> console res) \<Rightarrow> string \<Rightarrow> cmd_entry option \<Rightarrow> command_type \<Rightarrow> console \<Rightarrow> console res" where
  "dispatch lf shut lines w e origin s =
     (case e of
        None \<Rightarrow> Inr (s\<lparr>con_log := con_log s @ [''Command not found: '' @ w]\<rparr>)
      | Some (_, _, _, None) \<Rightarrow> Inr (s\<lparr>con_log := con_log s @ [''Command has no on-execute function: '' @ w]\<rparr>)
      | Some (_, _, ty, Some h) \<Rightarrow> if and ty origin \<noteq> 0 then run_handler lf shut lines h origin s else Inr s)"

lemma Command_Execute_blank:
  assumes "console_wf s as" and "fits cmd" and "words whitespace cmd = []"
  shows "Command_Execute_with lf shut lines cmd origin s = Inr (set_cmds (load_line cmd (con_cmds s)) s)"
proof -
  have len: "length (lastCommand (con_cmds s)) = MAX_STRING" "length (lastToken (con_cmds s)) = MAX_STRING"
    using assms(1) by (simp_all add: console_wf_def cmd_wf_def)
  have nul: "NUL \<notin> set cmd" using assms(2) by (simp add: fits_def)
  obtain b p where tok: "strtok whitespace (cmd @ NUL # padding cmd) 0 = Inr (None, b, p)"
  proof -
    have "map_res fst (count_tokens whitespace (cmd @ NUL # padding cmd) 0) = Inr 0"
      using count_tokens_eq [of whitespace cmd "[]" "padding cmd"] nul assms(3) by simp
    then have "\<exists>b p. strtok whitespace (cmd @ NUL # padding cmd) 0 = Inr (None, b, p)"
      by (auto simp: count_tokens.simps [of whitespace "cmd @ NUL # padding cmd"] map_res_def bind_res_eq_Inr
          split: sum.splits option.splits)
    then show ?thesis using that by blast
  qed
  then have "b = cmd @ NUL # padding cmd" by (auto simp: strtok_def Let_def split: if_splits)
  then show ?thesis
    using tok last_line_load [OF assms(2) len]
    by (simp add: Command_Execute_with_def set_cmds_def)
qed

lemma first_token:
  assumes "fits cmd" and "words whitespace cmd = w # ws"
  shows "\<exists>i b p. strtok whitespace (cmd @ NUL # padding cmd) 0 = Inr (Some i, b, p) \<and> c_str (drop i b) = w \<and>
    length b = MAX_STRING"
proof -
  have nul: "NUL \<notin> set cmd" using assms(1) by (simp add: fits_def)
  have "map_res token_text (bind_res (strtok whitespace (cmd @ NUL # padding cmd) 0) (next_tokens 0 whitespace)) =
      Inr (Some w)"
    using next_tokens_eq [of whitespace cmd "[]" "padding cmd" 0] nul assms(2) by simp
  then obtain i b p where tok: "strtok whitespace (cmd @ NUL # padding cmd) 0 = Inr (Some i, b, p)"
    "c_str (drop i b) = w"
    by (auto simp: map_res_def bind_res_eq_Inr token_text_def)
  moreover have "length b = MAX_STRING"
    using strtok_buffer [OF tok(1)] length_line [OF assms(1)] by (simp add: padding_def)
  ultimately show ?thesis by blast
qed

lemma Command_Execute_words:
  assumes "console_wf s as" and "fits cmd" and "words whitespace cmd = w # ws"
  shows "\<exists>c. Command_Execute_with lf shut lines cmd origin s =
      dispatch lf shut lines w (cmd_lookup w (cmd_abs (con_cmds s) as)) origin (set_cmds c s) \<and>
    last_line cmd c \<and> cmd_wf c as \<and> cmd_abs c as = cmd_abs (con_cmds s) as"
proof -
  let ?c = "con_cmds s"
  have wf: "cmd_wf ?c as" using assms(1) by (simp add: console_wf_def)
  have len: "length (lastCommand ?c) = MAX_STRING" "length (lastToken ?c) = MAX_STRING"
    using wf by (simp_all add: cmd_wf_def)
  obtain i b p where tok: "strtok whitespace (cmd @ NUL # padding cmd) 0 = Inr (Some i, b, p)"
    "c_str (drop i b) = w" "length b = MAX_STRING"
    using first_token [OF assms(2,3)] by blast
  let ?d = "(load_line cmd ?c)\<lparr>lastToken := b\<rparr>"
  have d: "?d = ?c\<lparr>lastCommand := cmd @ NUL # padding cmd, lastToken := b\<rparr>"
    using last_line_load(1) [OF assms(2) len] by simp
  have wf_d: "cmd_wf ?d as"
    using wf tok(3) length_line [OF assms(2)] unfolding d by (simp add: cmd_wf_def)
  have abs_d: "cmd_abs ?d as = cmd_abs ?c as" unfolding d by simp
  have line_d: "last_line cmd ?d"
    using last_line_load(2) [OF assms(2) len] tok(3) by (simp add: last_line_def)
  have "w \<noteq> []" using words_nonempty [of w whitespace cmd] assms(3) by simp
  have found: "Command_FindByName ?d (Some w) = Inr (map_option fst (cmd_lookup w (cmd_abs ?c as)))"
    using Command_FindByName_wf [OF wf_d, of w] unfolding abs_d .
  have entry: "commands ?d a = commands ?c a" for a unfolding d by simp
  have "Command_Execute_with lf shut lines cmd origin s =
      dispatch lf shut lines w (cmd_lookup w (cmd_abs ?c as)) origin (set_cmds ?d s)"
  proof (cases "cmd_lookup w (cmd_abs ?c as)")
    case None
    then show ?thesis
      using tok last_line_load(1) [OF assms(2) len] \<open>w \<noteq> []\<close> found [unfolded d]
      by (simp add: Command_Execute_with_def dispatch_def set_cmds_def Let_def)
  next
    case (Some e)
    obtain a nm ty h where e: "e = (a, nm, ty, h)" by (cases e)
    have "e \<in> set (cmd_abs ?c as)" using find_Some_set [of _ _ e] Some by (simp add: cmd_lookup_def)
    then obtain m where m: "commands ?c a = Some m" "nm = cmd_name m" "ty = cmd_type m" "h = cmd_onExecute m"
      using e wf dlist_address [of cmd_next cmd_prev "commands ?c" "commandHead ?c" "commandTail ?c" as a]
      by (auto simp: cmd_abs_def Let_def cmd_wf_def)
    show ?thesis
      using tok last_line_load(1) [OF assms(2) len] \<open>w \<noteq> []\<close> found [unfolded d] Some e m
      by (cases "cmd_onExecute m") (simp_all add: Command_Execute_with_def dispatch_def set_cmds_def Let_def)
  qed
  with wf_d abs_d line_d show ?thesis by blast
qed

section \<open>The exec command\<close>

lemma exec_line_empty:
  assumes "exec_stream s = Inr (a, st)" and "st_good st" and "st_in st"
    and "drop (st_pos st) (file_bytes (fs_disk (con_fs s)) (st_path st)) = []"
  shows "exec_line s = Inr (Some [], put_stream a (st\<lparr>st_eof := True, st_fail := True\<rparr>) s)"
  using assms
  by (simp add: exec_line_def stream_tellp_def stream_getline_def Let_def st_good_def st_failed_def stream_seekp_def
      split: option.splits)

lemma exec_line_failed:
  assumes "exec_stream s = Inr (a, st)" and "\<not> st_eof st" and "st_failed st"
  shows "exec_line s = Inr (Some [], put_stream a (st\<lparr>st_fail := True\<rparr>) s)"
  using assms
  by (auto simp: exec_line_def stream_tellp_def stream_getline_def Let_def st_good_def st_failed_def stream_seekp_def)

lemma exec_stream_put:
  assumes "exec_stream s = Inr (a, st)"
  shows "exec_stream (put_stream a st' s) = Inr (a, st')"
  using assms by (auto simp: exec_stream_def put_stream_def with_stream_def split: option.splits)

lemma exec_stream_cmds [simp]: "exec_stream (set_cmds c s) = exec_stream s"
  by (simp add: exec_stream_def set_cmds_def with_stream_def split: option.split)

lemma fits_Nil [simp]: "fits []"
  by (simp add: fits_def MAX_STRING_def)

lemma load_line_wf: "cmd_wf c as \<Longrightarrow> fits cmd \<Longrightarrow> cmd_wf (load_line cmd c) as"
  using last_line_load(1) [of cmd c] length_line [of cmd] by (simp add: cmd_wf_def)

lemma Command_Execute_empty:
  assumes "console_wf s as"
  shows "Command_Execute lf shut (Suc n) [] origin s = Inr (set_cmds (load_line [] (con_cmds s)) s)"
  using Command_Execute_blank [OF assms fits_Nil] by simp

lemma exec_lines_failed:
  assumes "console_wf s as" and "exec_stream s = Inr (a, st)" and "\<not> st_eof st" and "st_failed st"
  shows "exec_lines lf shut n s = Inl NoReturn"
  using assms
proof (induction n arbitrary: s st)
  case 0
  then show ?case by simp
next
  case (Suc n)
  let ?s = "put_stream a (st\<lparr>st_fail := True\<rparr>) s"
  have line: "exec_line s = Inr (Some [], ?s)" using Suc.prems by (intro exec_line_failed)
  show ?case
  proof (cases n)
    case 0
    then show ?thesis by (simp add: line)
  next
    case (Suc m)
    have wf: "console_wf ?s as" using Suc.prems(1) by (simp add: console_wf_def put_stream_def)
    have "Command_Execute lf shut n [] COMMAND_CONSOLE ?s = Inr (set_cmds (load_line [] (con_cmds ?s)) ?s)"
      unfolding Suc by (rule Command_Execute_empty [OF wf])
    moreover have "exec_lines lf shut n (set_cmds (load_line [] (con_cmds ?s)) ?s) = Inl NoReturn"
    proof (rule Suc.IH)
      show "console_wf (set_cmds (load_line [] (con_cmds ?s)) ?s) as"
        using wf load_line_wf [of "con_cmds ?s" as "[]"] by (simp add: console_wf_def set_cmds_def)
      show "exec_stream (set_cmds (load_line [] (con_cmds ?s)) ?s) = Inr (a, st\<lparr>st_fail := True\<rparr>)"
        using exec_stream_put [OF Suc.prems(2)] by simp
    qed (use Suc.prems in \<open>simp_all add: st_failed_def\<close>)
    ultimately show ?thesis by (simp add: line)
  qed
qed


text \<open>Lines of two and three words.\<close>

lemma is_space_whitespace: "is_space c \<longleftrightarrow> c \<in> set whitespace"
  by (auto simp: is_space_def whitespace_def)

definition word :: "string \<Rightarrow> bool" where
  "word w = (w \<noteq> [] \<and> NUL \<notin> set w \<and> set w \<inter> set whitespace = {})"

lemma blank_whitespace: "CHR '' '' \<in> set whitespace"
  by (simp add: whitespace_def)

lemma word_blank: "word w \<Longrightarrow> CHR '' '' \<notin> set w"
  using blank_whitespace by (auto simp: word_def)

lemma words_word:
  assumes "word w" and "ds = whitespace \<or> ds = '' ''"
  shows "words ds w = [w]" and "words ds (w @ '' '' @ s) = w # words ds s"
proof -
  have disj: "set w \<inter> set ds = {}" and ne: "w \<noteq> []" and blank: "CHR '' '' \<in> set ds"
    using assms word_blank blank_whitespace by (auto simp: word_def)
  show "words ds w = [w]" using words_token [OF ne disj, of "[]"] by simp
  show "words ds (w @ '' '' @ s) = w # words ds s"
    using words_token [OF ne disj, of "'' '' @ s"] blank by simp
qed

lemma up_to_space_word: "word w \<Longrightarrow> up_to_space w = w"
  by (cases w) (auto simp: up_to_space_def is_space_whitespace word_def intro!: takeWhile_eq_all_conv [THEN iffD2])

lemma last_line_token: "last_line cmd s \<Longrightarrow> length b = MAX_STRING \<Longrightarrow> last_line cmd (s\<lparr>lastToken := b\<rparr>)"
  by (simp add: last_line_def)

lemma argc_line:
  assumes "last_line cmd (con_cmds s)"
  shows "\<exists>b. argc s = Inr (length (words whitespace cmd) - 1, s\<lparr>con_cmds := (con_cmds s)\<lparr>lastToken := b\<rparr>\<rparr>) \<and>
    length b = MAX_STRING"
  using Command_Argc_words [OF assms] by (auto simp: argc_def)

lemma argv_line:
  assumes "last_line cmd (con_cmds s)" and "n < length (words '' '' cmd)"
  shows "\<exists>i b. argv n s = Inr (Tok i, s\<lparr>con_cmds := (con_cmds s)\<lparr>lastToken := b\<rparr>\<rparr>) \<and>
    length b = MAX_STRING \<and> deref b (Tok i) = up_to_space (words '' '' cmd ! n)"
  using Command_Argv_token [OF assms] by (auto simp: argv_def)

definition exec_ready :: "console \<Rightarrow> nat list \<Rightarrow> string \<Rightarrow> bool" where
  "exec_ready s as base =
     (console_wf s as \<and> fs_wf (con_fs s) \<and> (\<forall>mem. basedir_string mem (con_cvars s) (con_fs s) = Inr base) \<and>
      (\<exists>a nm. cmd_lookup ''exec'' (cmd_abs (con_cmds s) as) = Some (a, nm, COMMAND_GLOBAL, Some H_Exec)))"

text \<open>Up to the loop over the lines.\<close>

lemma Command_Exec_opens:
  assumes ready: "exec_ready s as base" and f: "word f" "\<not> is_package_path f"
    and fit: "fits (''exec '' @ f)" and origin: "and COMMAND_GLOBAL origin \<noteq> 0"
  shows "\<exists>c. let path = take (MAX_PATH - 1) (base @ f); a = fs_fresh (con_fs s);
      st = (if creatable (fs_disk (con_fs s)) path then opened_stream path else stream0\<lparr>st_fail := True\<rparr>);
      fs = (con_fs s)\<lparr>fs_disk := (if creatable (fs_disk (con_fs s)) path then store (fs_disk (con_fs s)) path []
            else fs_disk (con_fs s)), fs_fresh := a + 2,
          fs_streams := (fs_streams (con_fs s))(a \<mapsto> st),
          fs_files := (fs_files (con_fs s))(a + 1 \<mapsto> \<lparr>ff_stream = a, ff_path = path, ff_open = True\<rparr>)\<rparr>;
      s' = s\<lparr>con_cmds := c, con_fs := fs, con_execCfg := Some (a + 1)\<rparr>
    in console_wf s' as \<and>
       Command_Execute_with lf shut lines (''exec '' @ f) origin s =
         bind_res (lines s') (\<lambda>s. bind_res (Filesystem_Close (con_execCfg s) (con_fs s)) (\<lambda>fs.
            case con_execCfg s of None \<Rightarrow> Inr (s\<lparr>con_fs := fs\<rparr>)
            | Some a \<Rightarrow> map_res (\<lambda>fs. s\<lparr>con_fs := fs\<rparr>) (delete_file a fs)))"
proof -
  let ?line = "''exec '' @ f"
  have line: "?line = ''exec'' @ '' '' @ f" by simp
  have exec: "word ''exec''" by (simp add: word_def whitespace_def NUL_def)
  have words: "words whitespace ?line = [''exec'', f]" "words '' '' ?line = [''exec'', f]"
    unfolding line using words_word [OF exec] words_word [OF f(1)] by simp_all
  have wf: "console_wf s as" using ready by (simp add: exec_ready_def)
  obtain a nm where entry: "cmd_lookup ''exec'' (cmd_abs (con_cmds s) as) = Some (a, nm, COMMAND_GLOBAL, Some H_Exec)"
    using ready by (auto simp: exec_ready_def)
  obtain c where c: "Command_Execute_with lf shut lines ?line origin s =
      dispatch lf shut lines ''exec'' (cmd_lookup ''exec'' (cmd_abs (con_cmds s) as)) origin (set_cmds c s)"
    "last_line ?line c" "cmd_wf c as"
    using Command_Execute_words [OF wf fit words(1)] by blast
  have run: "Command_Execute_with lf shut lines ?line origin s = Command_Exec lines (set_cmds c s)"
    using c(1) entry origin by (simp add: dispatch_def run_handler_def)
  obtain b1 where b1: "argc (set_cmds c s) = Inr (1, set_cmds (c\<lparr>lastToken := b1\<rparr>) s)" "length b1 = MAX_STRING"
    using argc_line [of ?line "set_cmds c s"] c(2) words(1) by (auto simp: set_cmds_def)
  have line1: "last_line ?line (con_cmds (set_cmds (c\<lparr>lastToken := b1\<rparr>) s))"
    using last_line_token [OF c(2) b1(2)] by (simp add: set_cmds_def)
  obtain i b2 where b2: "argv 1 (set_cmds (c\<lparr>lastToken := b1\<rparr>) s) = Inr (Tok i, set_cmds (c\<lparr>lastToken := b2\<rparr>) s)"
    "length b2 = MAX_STRING" "deref b2 (Tok i) = f"
    using argv_line [OF line1, of 1] words(2) up_to_space_word [OF f(1)] by (auto simp: set_cmds_def)
  have base: "basedir_string b2 (con_cvars s) (con_fs s) = Inr base"
    using ready by (simp add: exec_ready_def)
  have wf': "cmd_wf (c\<lparr>lastToken := b2\<rparr>) as" using c(3) b2(2) by (simp add: cmd_wf_def)
  show ?thesis
    using wf' run b1(1) b2(1,3) Filesystem_Open_file [OF base f(2), of FILE_TEXT]
    by (intro exI [of _ "c\<lparr>lastToken := b2\<rparr>"])
       (simp add: Command_Exec_def Let_def set_cmds_def mem_of_def console_wf_def)
qed


lemma exec_lines_emptied:
  assumes wf: "console_wf s as" and str: "exec_stream s = Inr (a, opened_stream p)"
    and emptied: "files (fs_disk (con_fs s)) p = Some []"
  shows "\<exists>c. exec_lines lf shut (Suc (Suc n)) s =
    Inr (set_cmds c (put_stream a ((opened_stream p)\<lparr>st_eof := True, st_fail := True\<rparr>) s))"
proof -
  let ?st = "(opened_stream p)\<lparr>st_eof := True, st_fail := True\<rparr>"
  let ?s = "put_stream a ?st s"
  have "exec_line s = Inr (Some [], ?s)"
    using emptied by (intro exec_line_empty [OF str]) (simp_all add: opened_stream_def st_good_def file_bytes_def)
  moreover have "console_wf ?s as" using wf by (simp add: console_wf_def put_stream_def)
  from Command_Execute_empty [OF this]
  have "Command_Execute lf shut (Suc n) [] COMMAND_CONSOLE ?s = Inr (set_cmds (load_line [] (con_cmds ?s)) ?s)" .
  moreover have "exec_line (set_cmds c ?s) = Inr (None, set_cmds c ?s)" for c
  proof -
    have "exec_stream (set_cmds c ?s) = Inr (a, ?st)"
      using exec_stream_put [OF str] by simp
    then show ?thesis by (simp add: exec_line_def)
  qed
  ultimately show ?thesis by auto
qed

lemma exec_faults:
  assumes ready: "exec_ready s as base" and f: "word f" "\<not> is_package_path f"
    and fit: "fits (''exec '' @ f)" and origin: "and COMMAND_GLOBAL origin \<noteq> 0"
  shows "Command_Execute lf shut (n + 3) (''exec '' @ f) origin s =
    Inl (if creatable (fs_disk (con_fs s)) (take (MAX_PATH - 1) (base @ f)) then DoubleFree else NoReturn)"
proof -
  define path where "path = take (MAX_PATH - 1) (base @ f)"
  define a where "a = fs_fresh (con_fs s)"
  define ok where "ok = creatable (fs_disk (con_fs s)) path"
  define st where "st = (if ok then opened_stream path else stream0\<lparr>st_fail := True\<rparr>)"
  define fs where "fs = (con_fs s)\<lparr>fs_disk := (if ok then store (fs_disk (con_fs s)) path [] else fs_disk (con_fs s)),
      fs_fresh := a + 2, fs_streams := (fs_streams (con_fs s))(a \<mapsto> st),
      fs_files := (fs_files (con_fs s))(a + 1 \<mapsto> \<lparr>ff_stream = a, ff_path = path, ff_open = True\<rparr>)\<rparr>"
  let ?lines = "\<lambda>s. exec_lines lf shut (n + 2) s"
  obtain c where c: "console_wf (s\<lparr>con_cmds := c, con_fs := fs, con_execCfg := Some (a + 1)\<rparr>) as"
    "Command_Execute_with lf shut ?lines (''exec '' @ f) origin s =
       bind_res (?lines (s\<lparr>con_cmds := c, con_fs := fs, con_execCfg := Some (a + 1)\<rparr>))
         (\<lambda>s. bind_res (Filesystem_Close (con_execCfg s) (con_fs s)) (\<lambda>fs.
            case con_execCfg s of None \<Rightarrow> Inr (s\<lparr>con_fs := fs\<rparr>)
            | Some a \<Rightarrow> map_res (\<lambda>fs. s\<lparr>con_fs := fs\<rparr>) (delete_file a fs)))"
    using Command_Exec_opens [OF assms, of lf shut ?lines]
    unfolding Let_def path_def [symmetric] a_def [symmetric] ok_def [symmetric]
    unfolding st_def [symmetric] fs_def [symmetric] by blast
  define s' where "s' = s\<lparr>con_cmds := c, con_fs := fs, con_execCfg := Some (a + 1)\<rparr>"
  have str: "exec_stream s' = Inr (a, st)"
    by (simp add: exec_stream_def s'_def fs_def with_stream_def)
  have top: "Command_Execute lf shut (n + 3) (''exec '' @ f) origin s =
      Command_Execute_with lf shut ?lines (''exec '' @ f) origin s"
  proof -
    have "n + 3 = Suc (n + 2)" by simp
    then show ?thesis by (simp only: Command_Execute.simps)
  qed
  show ?thesis
  proof (cases ok)
    case True
    have "files (fs_disk (con_fs s')) path = Some []" using True by (simp add: s'_def fs_def)
    then obtain c' where lines: "exec_lines lf shut (n + 2) s' =
        Inr (set_cmds c' (put_stream a ((opened_stream path)\<lparr>st_eof := True, st_fail := True\<rparr>) s'))"
      using exec_lines_emptied [of s' as a path lf shut n] c(1) str True by (auto simp: s'_def st_def)
    let ?s = "set_cmds c' (put_stream a ((opened_stream path)\<lparr>st_eof := True, st_fail := True\<rparr>) s')"
    have "con_execCfg ?s = Some (a + 1)" by (simp add: set_cmds_def put_stream_def s'_def)
    moreover have "fs_files (con_fs ?s) (a + 1) = Some \<lparr>ff_stream = a, ff_path = path, ff_open = True\<rparr>"
      "fs_streams (con_fs ?s) a = Some ((opened_stream path)\<lparr>st_eof := True, st_fail := True\<rparr>)"
      by (simp_all add: set_cmds_def put_stream_def s'_def fs_def)
    ultimately have close: "bind_res (Filesystem_Close (con_execCfg ?s) (con_fs ?s)) (\<lambda>fs.
            case con_execCfg ?s of None \<Rightarrow> Inr (?s\<lparr>con_fs := fs\<rparr>)
            | Some a \<Rightarrow> map_res (\<lambda>fs. ?s\<lparr>con_fs := fs\<rparr>) (delete_file a fs)) = Inl DoubleFree"
      by (simp add: Filesystem_Close_live delete_file_def)
    have "Command_Execute lf shut (n + 3) (''exec '' @ f) origin s = Inl DoubleFree"
      unfolding top c(2) s'_def [symmetric] lines bind_res_Inr by (rule close)
    then show ?thesis
      using True by (simp add: ok_def path_def)
  next
    case False
    have "exec_lines lf shut (n + 2) s' = Inl NoReturn"
      using False c(1) str by (intro exec_lines_failed [of s' as a st])
        (simp_all add: s'_def st_def stream0_def st_failed_def)
    then have "Command_Execute lf shut (n + 3) (''exec '' @ f) origin s = Inl NoReturn"
      unfolding top c(2) s'_def [symmetric] by simp
    then show ?thesis
      using False by (simp add: ok_def path_def)
  qed
qed


section \<open>Parameters share one buffer\<close>

definition line3 :: "string \<Rightarrow> string \<Rightarrow> string \<Rightarrow> string" where
  "line3 w n v = w @ '' '' @ n @ '' '' @ v"

definition cut3 :: "string \<Rightarrow> string \<Rightarrow> string \<Rightarrow> char list" where
  "cut3 w n v = w @ NUL # n @ NUL # v @ NUL # padding (line3 w n v)"

lemma words_line3:
  assumes "word w" and "word n" and "word v" and "ds = whitespace \<or> ds = '' ''"
  shows "words ds (line3 w n v) = [w, n, v]"
  using words_word(2) [OF assms(1,4)] words_word(2) [OF assms(2,4)] words_word(1) [OF assms(3,4)]
  by (simp add: line3_def)

lemma strtok_word:
  assumes "word w" and "c = NUL \<or> c = CHR '' ''"
  shows "strtok '' '' (pre @ w @ c # rest) (length pre) =
    Inr (Some (length pre), pre @ w @ NUL # rest, length pre + length w + (if c = NUL then 0 else 1))"
proof -
  have "w \<noteq> []" "NUL \<notin> set w" "set w \<inter> set '' '' = {}"
    using assms(1) word_blank by (auto simp: word_def)
  with strtok_token [of "[]" "'' ''" w c pre rest] assms(2) show ?thesis by (auto simp: NUL_def)
qed

lemma end_at_space_id:
  assumes "\<forall>c \<in> set (take k (drop (i + 1) b)). \<not> is_space c"
  shows "end_at_space i k b = b"
proof -
  have "map (\<lambda>c. if is_space c then NUL else c) (take k (drop (i + 1) b)) = take k (drop (i + 1) b)"
    using assms by (intro map_idI) auto
  then have "end_at_space i k b = take (i + 1) b @ take k (drop (i + 1) b) @ drop k (drop (i + 1) b)"
    unfolding end_at_space_def by (simp add: add.commute)
  then show ?thesis by (simp only: append_take_drop_id)
qed

lemma end_at_space_word:
  assumes "word u"
  shows "end_at_space (length pre) (length u) (pre @ u @ NUL # rest) = pre @ u @ NUL # rest"
proof (rule end_at_space_id)
  obtain x xs where u: "u = x # xs" using assms by (cases u) (auto simp: word_def)
  have "drop (length pre + 1) (pre @ u @ NUL # rest) = xs @ NUL # rest"
    by (simp add: u)
  then have "take (length u) (drop (length pre + 1) (pre @ u @ NUL # rest)) = xs @ [NUL]"
    by (simp add: u)
  moreover have "\<forall>c \<in> set (xs @ [NUL]). \<not> is_space c"
    using assms by (auto simp: u word_def is_space_whitespace whitespace_NUL)
  ultimately show "\<forall>c \<in> set (take (length u) (drop (length pre + 1) (pre @ u @ NUL # rest))). \<not> is_space c"
    by simp
qed

lemma c_str_word: "word u \<Longrightarrow> c_str (drop (length pre) (pre @ u @ NUL # rest)) = u"
  by (simp add: c_str_append_NUL word_def is_c_string_iff)

lemma Command_Argv_line3:
  assumes line: "last_line (line3 w n v) s" and w: "word w" and n: "word n" and v: "word v"
  shows "Command_Argv 1 s = Inr (length w + 1, s\<lparr>lastToken := cut3 w n v\<rparr>)"
    and "Command_Argv 2 s = Inr (length w + length n + 2, s\<lparr>lastToken := cut3 w n v\<rparr>)"
proof -
  define pad where "pad = padding (line3 w n v)"
  have buf: "line3 w n v @ NUL # padding (line3 w n v) = [] @ w @ CHR '' '' # (n @ CHR '' '' # v @ NUL # pad)"
    by (simp add: line3_def pad_def)
  define b where "b = cut3 w n v"
  have b1: "b = (w @ [NUL]) @ n @ NUL # (v @ NUL # pad)" and b2: "b = (w @ NUL # n @ [NUL]) @ v @ NUL # pad"
    by (simp_all add: b_def cut3_def pad_def)
  have t1: "strtok '' '' ([] @ w @ CHR '' '' # (n @ CHR '' '' # v @ NUL # pad)) 0 =
      Inr (Some 0, (w @ [NUL]) @ n @ CHR '' '' # (v @ NUL # pad), length (w @ [NUL]))"
    using strtok_word [OF w, of "CHR '' ''" "[]"] by (simp add: NUL_def)
  have t2: "strtok '' '' ((w @ [NUL]) @ n @ CHR '' '' # (v @ NUL # pad)) (length (w @ [NUL])) =
      Inr (Some (length (w @ [NUL])), b, length (w @ NUL # n @ [NUL]))"
    using strtok_word [OF n, of "CHR '' ''" "w @ [NUL]" "v @ NUL # pad"] by (simp add: NUL_def b1)
  have t3: "strtok '' '' b (length (w @ NUL # n @ [NUL])) =
      Inr (Some (length (w @ NUL # n @ [NUL])), b, length (w @ NUL # n @ [NUL]) + length v)"
    using strtok_word [OF v, of NUL "w @ NUL # n @ [NUL]" pad] by (simp add: b2)
  have part1: "Util_GetTokenSeparatedPart ([] @ w @ CHR '' '' # (n @ CHR '' '' # v @ NUL # pad)) '' '' 1 =
      Inr (Some (length (w @ [NUL])), b)"
    unfolding Util_GetTokenSeparatedPart_def t1 bind_res_Inr One_nat_def next_tokens_Suc [OF t2] by simp
  have part2: "Util_GetTokenSeparatedPart ([] @ w @ CHR '' '' # (n @ CHR '' '' # v @ NUL # pad)) '' '' 2 =
      Inr (Some (length (w @ NUL # n @ [NUL])), b)"
    unfolding Util_GetTokenSeparatedPart_def t1 bind_res_Inr numeral_2_eq_2 next_tokens_Suc [OF t2] next_tokens_Suc [OF t3]
    by simp
  have c1: "c_str (drop (length (w @ [NUL])) b) = n"
    unfolding b1 by (rule c_str_word [OF n])
  have c2: "c_str (drop (length (w @ NUL # n @ [NUL])) b) = v"
    unfolding b2 by (rule c_str_word [OF v])
  have e1: "end_at_space (length (w @ [NUL])) (length n) b = b"
    unfolding b1 by (rule end_at_space_word [OF n])
  have e2: "end_at_space (length (w @ NUL # n @ [NUL])) (length v) b = b"
    unfolding b2 by (rule end_at_space_word [OF v])
  have l1: "length (w @ [NUL]) + length n < length b" and l2: "length (w @ NUL # n @ [NUL]) + length v < length b"
    by (simp_all add: b2)
  have r: "lastToken (restore s) = [] @ w @ CHR '' '' # (n @ CHR '' '' # v @ NUL # pad)"
    "restore s\<lparr>lastToken := b\<rparr> = s\<lparr>lastToken := b\<rparr>"
    unfolding restore_line [OF line] buf by simp_all
  show "Command_Argv 1 s = Inr (length w + 1, s\<lparr>lastToken := cut3 w n v\<rparr>)"
    using l1 unfolding Command_Argv_def Let_def r part1 bind_res_Inr c1 by (simp add: c1 [simplified] e1 [simplified] r(2) b_def [symmetric])
  show "Command_Argv 2 s = Inr (length w + length n + 2, s\<lparr>lastToken := cut3 w n v\<rparr>)"
    using l2 unfolding Command_Argv_def Let_def r part2 bind_res_Inr c2 by (simp add: c2 [simplified] e2 [simplified] r(2) b_def [symmetric])
qed


lemma length_cut3:
  assumes "fits (line3 w n v)"
  shows "length (cut3 w n v) = MAX_STRING"
proof -
  have "length (cut3 w n v) = length (line3 w n v @ NUL # padding (line3 w n v))"
    by (simp add: cut3_def line3_def)
  then show ?thesis using length_line [OF assms] by simp
qed

lemma deref_cut3:
  assumes "word w" and "word n" and "word v"
  shows "deref (cut3 w n v) (Tok (length w + 1)) = n" and "deref (cut3 w n v) (Tok (length w + length n + 2)) = v"
proof -
  have "cut3 w n v = (w @ [NUL]) @ n @ NUL # (v @ NUL # padding (line3 w n v))" by (simp add: cut3_def)
  then show "deref (cut3 w n v) (Tok (length w + 1)) = n"
    using c_str_word [OF assms(2), of "w @ [NUL]"] by simp
  have "cut3 w n v = (w @ NUL # n @ [NUL]) @ v @ NUL # padding (line3 w n v)" by (simp add: cut3_def)
  then show "deref (cut3 w n v) (Tok (length w + length n + 2)) = v"
    using c_str_word [OF assms(3), of "w @ NUL # n @ [NUL]"] by simp
qed

lemma args12_line3:
  assumes "last_line (line3 w n v) (con_cmds s)" and "word w" and "word n" and "word v"
  shows "args12 lf s = Inr (Tok (length w + 1), Tok (length w + length n + 2),
    set_cmds ((con_cmds s)\<lparr>lastToken := cut3 w n v\<rparr>) s)"
proof -
  have fit: "fits (line3 w n v)" using assms(1) by (simp add: last_line_def)
  let ?t = "set_cmds ((con_cmds s)\<lparr>lastToken := cut3 w n v\<rparr>) s"
  have again: "last_line (line3 w n v) (con_cmds ?t)"
    using last_line_token [OF assms(1) length_cut3 [OF fit]] by (simp add: set_cmds_def)
  have "argv 1 s = Inr (Tok (length w + 1), ?t)" "argv 2 s = Inr (Tok (length w + length n + 2), ?t)"
    using Command_Argv_line3 [OF assms] by (simp_all add: argv_def set_cmds_def)
  moreover have "argv 1 ?t = Inr (Tok (length w + 1), ?t)" "argv 2 ?t = Inr (Tok (length w + length n + 2), ?t)"
    using Command_Argv_line3 [OF again assms(2-4)] by (simp_all add: argv_def set_cmds_def)
  ultimately show ?thesis by (simp add: args12_def)
qed

text \<open>A \<open>set\<close> of two parameters, whichever of them C++ evaluates first.\<close>

definition has_set :: "console \<Rightarrow> nat list \<Rightarrow> bool" where
  "has_set s as = (console_wf s as \<and>
     (\<exists>a nm. cmd_lookup ''set'' (cmd_abs (con_cmds s) as) = Some (a, nm, COMMAND_GLOBAL, Some H_CvarSet)))"

lemma word_set: "word ''set''"
  by (simp add: word_def whitespace_def NUL_def)

lemma origins: "COMMAND_CONSOLE \<noteq> 0" "and COMMAND_GLOBAL COMMAND_CONSOLE \<noteq> 0"
  by (simp_all add: COMMAND_CONSOLE_def COMMAND_GLOBAL_def)

lemma set_console:
  assumes ready: "has_set s as" and n: "word n" and v: "word v" and fit: "fits (line3 ''set'' n v)"
  shows "\<exists>s'. has_set s' as \<and> con_cvars s' = con_cvars s \<and> mem_of s' = cut3 ''set'' n v \<and>
    Command_Execute lf shut (Suc k) (line3 ''set'' n v) COMMAND_CONSOLE s =
      map_res (\<lambda>cs. s'\<lparr>con_cvars := cs\<rparr>)
        (Cvar_Set (cut3 ''set'' n v) (con_cvars s) (Tok 4) (Tok (length n + 5)) 0 False)"
proof -
  let ?line = "line3 ''set'' n v"
  have words: "words whitespace ?line = [''set'', n, v]"
    using words_line3 [OF word_set n v] by simp
  have wf: "console_wf s as" using ready by (simp add: has_set_def)
  obtain a nm where entry: "cmd_lookup ''set'' (cmd_abs (con_cmds s) as) = Some (a, nm, COMMAND_GLOBAL, Some H_CvarSet)"
    using ready by (auto simp: has_set_def)
  obtain c where c: "Command_Execute lf shut (Suc k) ?line COMMAND_CONSOLE s =
      dispatch lf shut (\<lambda>s. exec_lines lf shut k s) ''set'' (cmd_lookup ''set'' (cmd_abs (con_cmds s) as))
        COMMAND_CONSOLE (set_cmds c s)"
    "last_line ?line c" "cmd_wf c as" "cmd_abs c as = cmd_abs (con_cmds s) as"
    using Command_Execute_words [OF wf fit words] by (simp only: Command_Execute.simps) blast
  have run: "Command_Execute lf shut (Suc k) ?line COMMAND_CONSOLE s = Command_CvarSet lf COMMAND_CONSOLE (set_cmds c s)"
    using c(1) entry origins by (simp add: dispatch_def run_handler_def)
  have argc: "\<exists>b. argc (set_cmds (c\<lparr>lastToken := b0\<rparr>) s) = Inr (2, set_cmds (c\<lparr>lastToken := b\<rparr>) s) \<and> length b = MAX_STRING"
    if "length b0 = MAX_STRING" for b0
    using argc_line [of ?line "set_cmds (c\<lparr>lastToken := b0\<rparr>) s"] last_line_token [OF c(2) that] words
    by (auto simp: set_cmds_def)
  have "length (lastToken c) = MAX_STRING" using c(3) by (simp add: cmd_wf_def)
  from argc [OF this] obtain b1 where b1: "argc (set_cmds c s) = Inr (2, set_cmds (c\<lparr>lastToken := b1\<rparr>) s)"
    "length b1 = MAX_STRING" by auto
  from argc [OF b1(2)] obtain b2 where b2:
    "argc (set_cmds (c\<lparr>lastToken := b1\<rparr>) s) = Inr (2, set_cmds (c\<lparr>lastToken := b2\<rparr>) s)" "length b2 = MAX_STRING" by auto
  have flags: "flags_of usage_set (set_cmds c s) = Inr (Some 0, set_cmds (c\<lparr>lastToken := b2\<rparr>) s)"
    by (simp add: flags_of_def b1(1) b2(1))
  let ?s' = "set_cmds (c\<lparr>lastToken := cut3 ''set'' n v\<rparr>) s"
  have "last_line ?line (con_cmds (set_cmds (c\<lparr>lastToken := b2\<rparr>) s))"
    using last_line_token [OF c(2) b2(2)] by (simp add: set_cmds_def)
  from args12_line3 [OF this word_set n v, of lf]
  have args: "args12 lf (set_cmds (c\<lparr>lastToken := b2\<rparr>) s) = Inr (Tok 4, Tok (length n + 5), ?s')"
    by (simp add: set_cmds_def)
  have "Command_CvarSet lf COMMAND_CONSOLE (set_cmds c s) =
      map_res (\<lambda>cs. ?s'\<lparr>con_cvars := cs\<rparr>)
        (Cvar_Set (cut3 ''set'' n v) (con_cvars s) (Tok 4) (Tok (length n + 5)) 0 False)"
    by (simp add: Command_CvarSet_def flags args) (simp add: mem_of_def set_cmds_def)
  moreover have "has_set ?s' as"
    using c(3,4) entry length_cut3 [OF fit] by (simp add: has_set_def console_wf_def set_cmds_def cmd_wf_def)
  ultimately show ?thesis
    using run by (intro exI [of _ ?s']) (simp add: set_cmds_def mem_of_def)
qed


definition plain_names :: "cvar_entry list \<Rightarrow> string \<Rightarrow> bool" where
  "plain_names es n = (\<forall>e \<in> set es. \<exists>l. fst (snd e) = Lit l \<and> \<not> strcaseeq l n)"

lemma spec_found_plain: "plain_names es n \<Longrightarrow> spec_found mem (es @ fs) n = spec_found mem fs n"
  by (induction es) (auto simp: plain_names_def spec_found_def)

lemma spec_found_one:
  "spec_found mem [(a, Tok 4, v, fl, x, g, t)] n =
    (if strcaseeq (deref mem (Tok 4)) n then Some (a, Tok 4, v, fl, x, g, t) else None)"
  by (simp add: spec_found_def)

lemma spec_put_names: "map (\<lambda>e. fst (snd e)) (spec_put mem es a v) = map (\<lambda>e. fst (snd e)) es"
  by (induction es) (auto simp: spec_put_def put_text_def)

lemma spec_found_names:
  "map (\<lambda>e. fst (snd e)) es = map (\<lambda>e. fst (snd e)) fs \<Longrightarrow>
    (spec_found mem es n = None) = (spec_found mem fs n = None)"
proof (induction es arbitrary: fs)
  case Nil
  then show ?case by simp
next
  case (Cons e es)
  then obtain f gs where "fs = f # gs" "fst (snd e) = fst (snd f)"
    "map (\<lambda>e. fst (snd e)) es = map (\<lambda>e. fst (snd e)) gs" by (cases fs) auto
  with Cons.IH [of gs] show ?case by (simp add: spec_found_def)
qed

lemma Cvar_Exists_spec:
  assumes "cvar_wf s as"
  shows "\<exists>r. Cvar_Exists mem s (Lit n) = Inr r \<and> (r = None) = (spec_found mem (cvar_abs s as) n = None)"
  using Cvar_Exists_wf [OF assms, of mem "Lit n"] spec_found_abs [of mem s as "Lit n"] by auto

lemma sets_alias:
  assumes ready: "has_set s as" and wf: "cvar_wf (con_cvars s) cs"
    and plain: "plain_names (cvar_abs (con_cvars s) cs) n1" "plain_names (cvar_abs (con_cvars s) cs) n2"
    and words: "word n1" "word v1" "word n2" "word v2"
    and fit: "fits (line3 ''set'' n1 v1)" "fits (line3 ''set'' n2 v2)"
    and differ: "\<not> strcaseeq n2 n1"
  shows "\<exists>s' cs' a. bind_res (Command_Execute lf shut (Suc k) (line3 ''set'' n1 v1) COMMAND_CONSOLE s)
      (Command_Execute lf shut (Suc k) (line3 ''set'' n2 v2) COMMAND_CONSOLE) = Inr s' \<and>
    cvar_wf (con_cvars s') cs' \<and> length cs' = Suc (length cs) \<and>
    Cvar_Exists (mem_of s') (con_cvars s') (Lit n1) = Inr None \<and>
    Cvar_Exists (mem_of s') (con_cvars s') (Lit n2) = Inr (Some a)"
proof -
  let ?es = "cvar_abs (con_cvars s) cs" and ?fresh = "cvar_fresh (con_cvars s)"
  let ?b1 = "cut3 ''set'' n1 v1" and ?b2 = "cut3 ''set'' n2 v2"
  have four: "length ''set'' + 1 = 4" by simp
  have tok: "deref ?b1 (Tok 4) = n1" "deref ?b2 (Tok 4) = n2"
    using deref_cut3(1) [OF word_set words(1,2)] deref_cut3(1) [OF word_set words(3,4)]
    unfolding four by simp_all
  obtain s1 where s1: "has_set s1 as" "con_cvars s1 = con_cvars s" "mem_of s1 = ?b1"
    "Command_Execute lf shut (Suc k) (line3 ''set'' n1 v1) COMMAND_CONSOLE s =
      map_res (\<lambda>cs. s1\<lparr>con_cvars := cs\<rparr>) (Cvar_Set ?b1 (con_cvars s) (Tok 4) (Tok (length n1 + 5)) 0 False)"
    using set_console [OF ready words(1,2) fit(1), of lf shut k] by blast
  obtain t1 cs1 where t1: "Cvar_Set ?b1 (con_cvars s) (Tok 4) (Tok (length n1 + 5)) 0 False = Inr t1"
    "cvar_wf t1 cs1" "cvar_abs t1 cs1 = spec_set ?b1 ?es ?fresh (Tok 4) (Tok (length n1 + 5)) False"
    using Cvar_Set_refines [OF wf] by blast
  have "spec_found ?b1 ?es n1 = None" using spec_found_plain [OF plain(1), of ?b1 "[]"] by (simp add: spec_found_def)
  then obtain x where abs1: "cvar_abs t1 cs1 = ?es @ [(?fresh, Tok 4, Tok (length n1 + 5), 0, x, None, None)]"
    using t1(3) by (simp only: spec_set_def tok option.simps spec_add_def)
  let ?s1 = "s1\<lparr>con_cvars := t1\<rparr>"
  have "has_set ?s1 as" using s1(1) by (simp add: has_set_def console_wf_def)
  from set_console [OF this words(3,4) fit(2), of lf shut k] obtain s2 where
    s2: "has_set s2 as" "mem_of s2 = ?b2"
    "Command_Execute lf shut (Suc k) (line3 ''set'' n2 v2) COMMAND_CONSOLE ?s1 =
      map_res (\<lambda>cs. s2\<lparr>con_cvars := cs\<rparr>) (Cvar_Set ?b2 t1 (Tok 4) (Tok (length n2 + 5)) 0 False)"
    by auto
  obtain t2 cs2 where t2: "Cvar_Set ?b2 t1 (Tok 4) (Tok (length n2 + 5)) 0 False = Inr t2"
    "cvar_wf t2 cs2" "cvar_abs t2 cs2 = spec_set ?b2 (cvar_abs t1 cs1) (cvar_fresh t1) (Tok 4) (Tok (length n2 + 5)) False"
    using Cvar_Set_refines [OF t1(2)] by blast
  have "spec_found ?b2 (cvar_abs t1 cs1) n2 = Some (?fresh, Tok 4, Tok (length n1 + 5), 0, x, None, None)"
    unfolding abs1 spec_found_plain [OF plain(2)] spec_found_one tok by simp
  then have abs2: "cvar_abs t2 cs2 = spec_put ?b2 (cvar_abs t1 cs1) ?fresh (Tok (length n2 + 5))"
    using t2(3) by (simp add: spec_set_def tok del: deref.simps)
  then have names: "map (\<lambda>e. fst (snd e)) (cvar_abs t2 cs2) = map (\<lambda>e. fst (snd e)) (cvar_abs t1 cs1)"
    by (simp only: spec_put_names)
  have "length cs2 = length (cvar_abs t2 cs2)" "length cs = length ?es"
    by (simp_all add: cvar_abs_def)
  then have len: "length cs2 = Suc (length cs)"
    using arg_cong [OF names, of length] abs1 by simp
  have gone: "spec_found ?b2 (cvar_abs t2 cs2) n1 = None"
    using spec_found_names [OF names, of ?b2 n1] differ
    unfolding abs1 spec_found_plain [OF plain(1)] spec_found_one tok by simp
  have there: "spec_found ?b2 (cvar_abs t2 cs2) n2 \<noteq> None"
    using spec_found_names [OF names, of ?b2 n2]
    unfolding abs1 spec_found_plain [OF plain(2)] spec_found_one tok by simp
  obtain r1 r2 where "Cvar_Exists ?b2 t2 (Lit n1) = Inr r1" "r1 = None" "Cvar_Exists ?b2 t2 (Lit n2) = Inr r2" "r2 \<noteq> None"
    using Cvar_Exists_spec [OF t2(2), of ?b2 n1] Cvar_Exists_spec [OF t2(2), of ?b2 n2] gone there by auto
  then obtain a where ex: "Cvar_Exists ?b2 t2 (Lit n1) = Inr None" "Cvar_Exists ?b2 t2 (Lit n2) = Inr (Some a)"
    by auto
  have "mem_of (s2\<lparr>con_cvars := t2\<rparr>) = ?b2" using s2(2) by (simp add: mem_of_def)
  moreover have "bind_res (Command_Execute lf shut (Suc k) (line3 ''set'' n1 v1) COMMAND_CONSOLE s)
      (Command_Execute lf shut (Suc k) (line3 ''set'' n2 v2) COMMAND_CONSOLE) = Inr (s2\<lparr>con_cvars := t2\<rparr>)"
    unfolding s1(4) t1(1) map_res_simps bind_res_Inr s2(3) t2(1) ..
  ultimately show ?thesis
    using ex t2(2) len by (intro exI [of _ "s2\<lparr>con_cvars := t2\<rparr>"] exI [of _ cs2] exI [of _ a]) simp
qed


section \<open>Properties\<close>

text \<open>A console with the basic commands and nothing else.\<close>

definition basic_console :: "cmd_sys \<Rightarrow> cvar_sys \<Rightarrow> fs_sys \<Rightarrow> console" where
  "basic_console c cs fs = \<lparr>con_cmds = c, con_cvars = cs, con_fs = fs, con_log = [], con_execCfg = None, con_exited = False\<rparr>"

lemma basic_names: "\<forall>(nm, h) \<in> set (basic_commands debug). nm \<noteq> []"
  by (auto simp: basic_commands_def)

lemma Command_Init_ok:
  "\<exists>s as. Command_Init debug cmd_sys0 = Inr s \<and> cmd_wf s as \<and>
    map snd (cmd_abs s as) = map (\<lambda>(nm, h). (nm, COMMAND_GLOBAL, Some h)) (basic_commands debug) \<and>
    lastCommand s = replicate MAX_STRING NUL"
  using add_all_wf [OF cmd_wf_empty basic_names [of debug]]
  by (auto simp: Command_Init_def Command_CreateBasicCommands_def cmd_abs_def cmd_sys0_def)

lemma cmd_lookup_map:
  "map_option snd (cmd_lookup nm es) = find (\<lambda>(n, _). strcaseeq n nm) (map snd es)"
  by (induction es) (auto simp: cmd_lookup_def)

lemma basic_lookup:
  assumes "map snd es = map (\<lambda>(nm, h). (nm, COMMAND_GLOBAL, Some h)) (basic_commands debug)"
  shows "\<exists>a nm. cmd_lookup ''exec'' es = Some (a, nm, COMMAND_GLOBAL, Some H_Exec)"
    and "\<exists>a nm. cmd_lookup ''set'' es = Some (a, nm, COMMAND_GLOBAL, Some H_CvarSet)"
proof -
  have "map_option snd (cmd_lookup ''exec'' es) = Some (''exec'', COMMAND_GLOBAL, Some H_Exec)"
    "map_option snd (cmd_lookup ''set'' es) = Some (''set'', COMMAND_GLOBAL, Some H_CvarSet)"
    unfolding cmd_lookup_map assms by (simp_all add: basic_commands_def strcaseeq_def to_lower_def Let_def)
  then show "\<exists>a nm. cmd_lookup ''exec'' es = Some (a, nm, COMMAND_GLOBAL, Some H_Exec)"
    "\<exists>a nm. cmd_lookup ''set'' es = Some (a, nm, COMMAND_GLOBAL, Some H_CvarSet)"
    by auto
qed

text \<open>
  C18. The command table after \<open>Command_Init\<close> is well-formed and holds exactly the basic commands in
  order, each usable from everywhere; looking a name up, in any case, finds the first entry with that
  name, and registering a command afterwards keeps every lookup that succeeded and makes the new
  name found.
\<close>

theorem Command_table:
  assumes "nm \<noteq> []"
  shows "\<exists>s as s' as'. Command_Init debug cmd_sys0 = Inr s \<and> cmd_wf s as \<and>
    map snd (cmd_abs s as) = map (\<lambda>(nm, h). (nm, COMMAND_GLOBAL, Some h)) (basic_commands debug) \<and>
    (\<forall>n. Command_FindByName s (Some n) = Inr (map_option fst (cmd_lookup n (cmd_abs s as)))) \<and>
    Command_Add (Some nm) ty h s = Inr (Some (cmd_fresh s), s') \<and> cmd_wf s' as' \<and>
    (\<forall>n. cmd_lookup n (cmd_abs s' as') =
      (case cmd_lookup n (cmd_abs s as) of Some e \<Rightarrow> Some e
       | None \<Rightarrow> if strcaseeq nm n then Some (cmd_fresh s, nm, ty, h) else None))"
proof -
  obtain s as where s: "Command_Init debug cmd_sys0 = Inr s" "cmd_wf s as"
    "map snd (cmd_abs s as) = map (\<lambda>(nm, h). (nm, COMMAND_GLOBAL, Some h)) (basic_commands debug)"
    using Command_Init_ok by blast
  obtain s' where s': "Command_Add (Some nm) ty h s = Inr (Some (cmd_fresh s), s')"
    "cmd_wf s' (as @ [cmd_fresh s])" "cmd_abs s' (as @ [cmd_fresh s]) = cmd_abs s as @ [(cmd_fresh s, nm, ty, h)]"
    using Command_Add_wf [OF s(2) assms] by blast
  show ?thesis
    using s s' Command_FindByName_wf [OF s(2)]
    by (intro exI [of _ s] exI [of _ as] exI [of _ s'] exI [of _ "as @ [cmd_fresh s]"])
       (simp add: cmd_lookup_snoc del: append_assoc)
qed

theorem Command_table_witness:
  "\<exists>s as s'. Command_Init False cmd_sys0 = Inr s \<and> cmd_wf s as \<and>
    map fst (map snd (cmd_abs s as)) =
      [''create'', ''set'', ''exec'', ''memstats'', ''meminfo'', ''cvarlist'', ''shutdown''] \<and>
    Command_Add (Some ''SET'') COMMAND_SERVER None s = Inr (Some (cmd_fresh s), s')"
proof -
  have "''SET'' \<noteq> ([] :: string)" by simp
  from Command_table [OF this, of False COMMAND_SERVER None] show ?thesis
    by (elim exE conjE) (auto simp: basic_commands_def)
qed

text \<open>
  The parameters of the last command: \<open>Command_Argc\<close> counts the words after the first, by any
  white space, but \<open>Command_Argv\<close> cuts the line at blanks only. It gives the \<open>n\<close>-th piece, up to the
  first white space behind its first character; when there is no such piece it takes the length of
  a null pointer, so a line that separates its words by tabs passes the count and then crashes.
\<close>

theorem Command_parameters:
  assumes "last_line cmd s"
  shows "map_res fst (Command_Argc s) = Inr (length (words whitespace cmd) - 1) \<and>
    map_res (\<lambda>(i, s'). c_str (drop i (lastToken s'))) (Command_Argv n s) =
      (if n < length (words '' '' cmd) then Inr (up_to_space (words '' '' cmd ! n)) else Inl NullDeref)"
proof (cases "n < length (words '' '' cmd)")
  case True
  then show ?thesis using Command_Argc_words [OF assms] Command_Argv_token [OF assms True] by auto
next
  case False
  then show ?thesis using Command_Argc_words [OF assms] Command_Argv_missing [OF assms False] by auto
qed

definition tab_line :: string where
  "tab_line = ''set'' @ [CHR 0x09] @ ''a'' @ [CHR 0x09] @ ''b''"

theorem Command_parameters_witness:
  "map_res fst (Command_Argc (load_line tab_line cmd_sys0)) = Inr 2 \<and>
   Command_Argv 1 (load_line tab_line cmd_sys0) = Inl NullDeref"
proof -
  have "fits tab_line" by (simp add: fits_def tab_line_def NUL_def MAX_STRING_def)
  then have "last_line tab_line (load_line tab_line cmd_sys0)"
    by (intro last_line_load(2)) (simp_all add: cmd_sys0_def)
  moreover have "words whitespace tab_line = [''set'', ''a'', ''b'']" "words '' '' tab_line = [tab_line]"
    by (simp_all add: tab_line_def whitespace_def words.simps)
  ultimately show ?thesis
    using Command_parameters [of tab_line "load_line tab_line cmd_sys0" 1]
    by (cases "Command_Argv 1 (load_line tab_line cmd_sys0)") (auto simp: )
qed



lemma basic_console_ready:
  assumes "fs_wf fs" and "\<And>mem. basedir_string mem cs fs = Inr base"
  shows "\<exists>c as. Command_Init debug cmd_sys0 = Inr c \<and> exec_ready (basic_console c cs fs) as base \<and>
    has_set (basic_console c cs fs) as"
proof -
  obtain c as where c: "Command_Init debug cmd_sys0 = Inr c" "cmd_wf c as"
    "map snd (cmd_abs c as) = map (\<lambda>(nm, h). (nm, COMMAND_GLOBAL, Some h)) (basic_commands debug)"
    using Command_Init_ok by blast
  with basic_lookup [OF c(3)] assms show ?thesis
    by (intro exI [of _ c] exI [of _ as]) (simp add: exec_ready_def has_set_def console_wf_def basic_console_def)
qed


text \<open>
  The \<open>exec\<close> command never gets through. On a file that can be opened, which empties it, it runs
  one empty line and then deletes the file object a second time; on one that cannot be created it
  never ends, since the failed stream never reports the end of the file. So with any amount of fuel
  from 3 on the outcome is the double free, or not returning.
\<close>

theorem Command_Exec_always_faults:
  assumes "exec_ready s as base" and "word f" and "\<not> is_package_path f"
    and "fits (''exec '' @ f)" and "and COMMAND_GLOBAL origin \<noteq> 0"
  shows "Command_Execute lf shut (n + 3) (''exec '' @ f) origin s =
    Inl (if creatable (fs_disk (con_fs s)) (take (MAX_PATH - 1) (base @ f)) then DoubleFree else NoReturn)"
  by (rule exec_faults [OF assms])

theorem Command_Exec_always_faults_witness:
  "\<exists>c. Command_Init False cmd_sys0 = Inr c \<and>
    Command_Execute True (\<lambda>s. Inr s) 10 ''exec a.cfg'' COMMAND_CONSOLE
      (basic_console c (one_cvar ''fsBasedir'' ''./'') one_file) = Inl DoubleFree"
proof -
  have wf: "fs_wf one_file" by (simp add: one_file_def)
  obtain c as where c: "Command_Init False cmd_sys0 = Inr c"
    "exec_ready (basic_console c (one_cvar ''fsBasedir'' ''./'') one_file) as ''./''"
    using basic_console_ready [OF wf basedir_one_file] by blast
  have "word ''a.cfg''" "fits (''exec '' @ ''a.cfg'')"
    by (simp_all add: word_def whitespace_def NUL_def fits_def MAX_STRING_def)
  from Command_Exec_always_faults [OF c(2) this(1) not_package_a_cfg this(2) origins(2), of True "\<lambda>s. Inr s" 7]
  show ?thesis using c(1) by (auto simp: basic_console_def one_file_def fs0_def)
qed

text \<open>
  Two convars set from the console become one: the name and the value are pointers into the
  buffer of the last line, so after a second \<open>set\<close> of another new name the convar of the first answers
  to the second name and takes its value, no second convar is made, and the first name is gone. This
  holds in either order of evaluation of the call's arguments.
\<close>

theorem console_sets_alias:
  assumes "has_set s as" and "cvar_wf (con_cvars s) cs"
    and "plain_names (cvar_abs (con_cvars s) cs) n1" and "plain_names (cvar_abs (con_cvars s) cs) n2"
    and "word n1" and "word v1" and "word n2" and "word v2"
    and "fits (line3 ''set'' n1 v1)" and "fits (line3 ''set'' n2 v2)" and "\<not> strcaseeq n2 n1"
  shows "\<exists>s' cs' a. bind_res (Command_Execute lf shut (Suc k) (line3 ''set'' n1 v1) COMMAND_CONSOLE s)
      (Command_Execute lf shut (Suc k) (line3 ''set'' n2 v2) COMMAND_CONSOLE) = Inr s' \<and>
    cvar_wf (con_cvars s') cs' \<and> length cs' = Suc (length cs) \<and>
    Cvar_Exists (mem_of s') (con_cvars s') (Lit n1) = Inr None \<and>
    Cvar_Exists (mem_of s') (con_cvars s') (Lit n2) = Inr (Some a)"
  by (rule sets_alias [OF assms])

theorem console_sets_alias_witness:
  "\<exists>c s' cs' a. Command_Init False cmd_sys0 = Inr c \<and>
    bind_res (Command_Execute True (\<lambda>s. Inr s) 1 (line3 ''set'' ''foo'' ''1'') COMMAND_CONSOLE
        (basic_console c cvar_sys0 one_file))
      (Command_Execute True (\<lambda>s. Inr s) 1 (line3 ''set'' ''bar'' ''2'') COMMAND_CONSOLE) = Inr s' \<and>
    cvar_wf (con_cvars s') cs' \<and> length cs' = 1 \<and>
    Cvar_Exists (mem_of s') (con_cvars s') (Lit ''foo'') = Inr None \<and>
    Cvar_Exists (mem_of s') (con_cvars s') (Lit ''bar'') = Inr (Some a)"
proof -
  obtain c as where c: "Command_Init False cmd_sys0 = Inr c" "cmd_wf c as"
    "map snd (cmd_abs c as) = map (\<lambda>(nm, h). (nm, COMMAND_GLOBAL, Some h)) (basic_commands False)"
    using Command_Init_ok by blast
  have set: "has_set (basic_console c cvar_sys0 one_file) as"
    using c(2) basic_lookup(2) [OF c(3)] by (simp add: has_set_def console_wf_def basic_console_def)
  have wf: "cvar_wf (con_cvars (basic_console c cvar_sys0 one_file)) []"
    using cvar_wf_empty by (simp add: basic_console_def)
  have plain: "plain_names (cvar_abs (con_cvars (basic_console c cvar_sys0 one_file)) []) n" for n
    by (simp add: plain_names_def cvar_abs_def)
  have words: "word ''foo''" "word ''1''" "word ''bar''" "word ''2''"
    by (simp_all add: word_def whitespace_def NUL_def)
  have fits: "fits (line3 ''set'' ''foo'' ''1'')" "fits (line3 ''set'' ''bar'' ''2'')" "\<not> strcaseeq ''bar'' ''foo''"
    by (simp_all add: fits_def line3_def NUL_def MAX_STRING_def strcaseeq_def to_lower_def Let_def)
  show ?thesis
    using console_sets_alias [OF set wf plain plain words fits, of True "\<lambda>s. Inr s" 0] c(1)
    by simp
qed

end
