(* ===== verification/Capy_Server.thy ===== *)
theory Capy_Server
  imports Capy_NetMode Capy_World_Save Capy_Command
begin

text \<open>
  \<open>net/server/\<close>: the server's clients, who joins and leaves, the broadcast to all of them, the download of the
  world, and the server's tick. The clients are objects on a heap of their own; the array of 32 slots
  holds pointers to them. The printed form of an address, the largest number of players and the name of
  the map's convar are arguments, as is whether a line of console input is ready.
\<close>

section \<open>Data\<close>

datatype server_state = SERVER_INITIALISING | SERVER_RUNNING | SERVER_SHUTTING_DOWN | SERVER_DEAD

datatype connect_phase = CLIENT_HELLO | CLIENT_HELLO_SENT | CLIENT_DOWNLOAD_WORLD | CLIENT_DOWNLOAD_WORLD_SENT
  | CLIENT_DOWNLOADING_WORLD | CLIENT_SPAWN_CHARACTER | CLIENT_SPAWN_CHARACTER_SENT | CLIENT_LETS_GO

definition CLIENT_NAME_MAX :: nat where "CLIENT_NAME_MAX = 64"
definition CLIENT_IP_LENGTH :: nat where "CLIENT_IP_LENGTH = 32"

text \<open>\<open>NetHelloStatus\<close>, with its number on the wire.\<close>

datatype hello_status = HELLO_OK | HELLO_DUPLICATE_USERNAME | HELLO_GO_AWAY | HELLO_TOO_MANY
  | HELLO_DUPLICATE_CLIENT | HELLO_INVALID_VERSION

fun hello_byte :: "hello_status \<Rightarrow> byte" where
  "hello_byte HELLO_OK = 0"
| "hello_byte HELLO_DUPLICATE_USERNAME = 1"
| "hello_byte HELLO_GO_AWAY = 2"
| "hello_byte HELLO_TOO_MANY = 3"
| "hello_byte HELLO_DUPLICATE_CLIENT = 4"
| "hello_byte HELLO_INVALID_VERSION = 5"

text \<open>The part of a \<open>Client\<close> that the server's objects use; \<open>new Client()\<close> zeroes it.\<close>

record client_obj =
  cl_name :: "char list"
  cl_address :: nat
  cl_ipStr :: "char list"
  cl_port :: u16
  cl_connectPhase :: connect_phase
  cl_downloadProgress :: nat

definition Client_new :: client_obj where
  "Client_new = \<lparr>cl_name = replicate CLIENT_NAME_MAX NUL, cl_address = 0, cl_ipStr = replicate CLIENT_IP_LENGTH NUL,
     cl_port = 0, cl_connectPhase = CLIENT_HELLO, cl_downloadProgress = 0\<rparr>"

record server = net_mode +
  clients :: "nat option list"
  numClients :: int
  sv_objs :: "nat \<Rightarrow> client_obj option"
  sv_fresh :: nat
  sv_world :: world
  sv_state :: server_state
  sv_port :: u16

text \<open>The surroundings of a server: \<open>NET_GetAddressString\<close>, \<open>netMaxPlayers->value\<close> and \<open>map->name\<close>.\<close>

record server_env =
  address_string :: "nat \<Rightarrow> string"
  max_players :: f32
  map_name :: string

text \<open>The constructor with a port. It sets neither the number of clients nor the world's pointers; these are
  what the raw memory holds.\<close>

definition Server_new :: "u16 \<Rightarrow> server \<Rightarrow> server" where
  "Server_new port raw =
     raw\<lparr>netBufferPtr := -1, clients := replicate MAX_CLIENTS None, sv_port := port,
       sv_world := (sv_world raw)\<lparr>collision := Quad_new,
         w_header := (w_header (sv_world raw))\<lparr>wh_magic := WORLD_HEADER_MAGIC, wh_version := WORLD_FILE_FORMAT_VERSION,
           wh_size := Vector2_zero\<rparr>\<rparr>\<rparr>"

definition Server_GetState :: "server \<Rightarrow> server_state" where "Server_GetState s = sv_state s"

definition Server_SetState :: "server_state \<Rightarrow> server \<Rightarrow> server" where "Server_SetState st s = s\<lparr>sv_state := st\<rparr>"

section \<open>Sending\<close>

definition with_client :: "nat \<Rightarrow> server \<Rightarrow> (client_obj \<Rightarrow> 'a res) \<Rightarrow> 'a res" where
  "with_client c s f = (case sv_objs s c of None \<Rightarrow> Inl UseAfterFree | Some cl \<Rightarrow> f cl)"

definition Server_SendMessage :: "net_msg \<Rightarrow> nat \<Rightarrow> server \<Rightarrow> server res" where
  "Server_SendMessage m c s = with_client c s (\<lambda>cl. SendMessageToPort m (cl_address cl) (cl_port cl) s)"

text \<open>The message is passed by value, so every recipient gets a copy of the same data pointer.\<close>

definition Server_SendMessageToAll :: "net_msg \<Rightarrow> nat option \<Rightarrow> server \<Rightarrow> server res" where
  "Server_SendMessageToAll m exclude s =
     fold_res (\<lambda>i s. case clients s ! i of
         None \<Rightarrow> Inr s
       | Some c \<Rightarrow> if Some c = exclude then Inr s else Server_SendMessage m c s) [0..<MAX_CLIENTS] s"

text \<open>A message made on the server's heap.\<close>

definition make_msg :: "(byte_heap \<Rightarrow> (net_msg \<times> byte_heap) res) \<Rightarrow> 'a net_mode_scheme \<Rightarrow> (net_msg \<times> 'a net_mode_scheme) res" where
  "make_msg f s = map_res (\<lambda>(m, h). (m, s\<lparr>net_heap := h\<rparr>)) (f (net_heap s))"

section \<open>Looking up clients\<close>

fun find_client :: "(client_obj \<Rightarrow> bool) \<Rightarrow> (nat \<Rightarrow> client_obj option) \<Rightarrow> nat option list \<Rightarrow> nat option res" where
  "find_client P objs [] = Inr None"
| "find_client P objs (None # cs) = find_client P objs cs"
| "find_client P objs (Some c # cs) =
     (case objs c of None \<Rightarrow> Inl UseAfterFree
      | Some cl \<Rightarrow> if P cl then Inr (Some c) else find_client P objs cs)"

definition ClientByUsername :: "string \<Rightarrow> server \<Rightarrow> nat option res" where
  "ClientByUsername username s =
     find_client (\<lambda>cl. strneq (c_str (cl_name cl)) username CLIENT_NAME_MAX) (sv_objs s) (clients s)"

definition ClientByIp :: "net_msg \<Rightarrow> server \<Rightarrow> nat option res" where
  "ClientByIp m s = find_client (\<lambda>cl. cl_address cl = nm_addr m) (sv_objs s) (clients s)"

definition ClientByIpPort :: "net_msg \<Rightarrow> server \<Rightarrow> nat option res" where
  "ClientByIpPort m s =
     bind_res (ClientByIp m s) (\<lambda>r. case r of
        None \<Rightarrow> Inl NullDeref
      | Some c \<Rightarrow> with_client c s (\<lambda>cl. Inr (if cl_port cl = nm_port m then Some c else None)))"

section \<open>Joining and leaving\<close>

definition ClientIsNew :: "net_msg \<Rightarrow> string \<Rightarrow> server \<Rightarrow> bool res" where
  "ClientIsNew m username s =
     bind_res (ClientByIp m s) (\<lambda>r. case r of
        None \<Rightarrow> Inr True
      | Some _ \<Rightarrow> map_res (\<lambda>u. u = None) (ClientByUsername username s))"

text \<open>The status, in the order the source decides it.\<close>

definition hello_result :: "bool \<Rightarrow> bool \<Rightarrow> bool \<Rightarrow> hello_status" where
  "hello_result version_ok is_new full =
     (let st = HELLO_OK;
          st = (if \<not> version_ok then HELLO_INVALID_VERSION else st);
          st = (if \<not> is_new then HELLO_DUPLICATE_CLIENT else st)
      in if full then HELLO_TOO_MANY else st)"

definition ClientNew :: "server_env \<Rightarrow> net_msg \<Rightarrow> server \<Rightarrow> server res" where
  "ClientNew env m s =
     (let ip = address_string env (nm_addr m) in
      bind_res (NetMsg_Read 1 m (net_heap s)) (\<lambda>(netVersion, m).
      bind_res (NetMsg_Read_string m (net_heap s)) (\<lambda>(_, username, m).
      bind_res (ClientIsNew m username s) (\<lambda>is_new.
      bind_res (make_msg NetFactory_CreateServerHelloPacket s) (\<lambda>(hello, s).
        let st = hello_result (u8_dec netVersion = NET_PROTOCOL_VERSION) is_new
                   (f32_le (max_players env) (f32_of_int (numClients s)))
        in bind_res (make_msg (\<lambda>h. NetMsg_Write (u8_enc (hello_byte st)) (hello, h)) s) (\<lambda>(hello, s).
           if st = HELLO_OK then
             if numClients s < 0 \<or> int MAX_CLIENTS \<le> numClients s then Inl OutOfBoundsWrite
             else let c = sv_fresh s;
                      cl = Client_new\<lparr>cl_name := strncpy (cl_name Client_new) ip CLIENT_NAME_MAX, cl_address := nm_addr m,
                        cl_ipStr := strncpy (cl_ipStr Client_new) ip CLIENT_IP_LENGTH, cl_port := nm_port m\<rparr>;
                      s = s\<lparr>sv_objs := (sv_objs s)(c \<mapsto> cl), sv_fresh := c + 1,
                            clients := (clients s)[nat (numClients s) := Some c], numClients := numClients s + 1\<rparr>
                  in bind_res (Server_SendMessage hello c s) (\<lambda>s.
                     bind_res (make_msg (NetFactory_CreateRpcClientCreate (c_str (cl_name cl))) s) (\<lambda>(rpc, s).
                       Server_SendMessageToAll rpc (Some c) s))
           else Inr s))))))"

text \<open>The slot that is cleared is the last one, whichever client leaves.\<close>

definition ClientRemove :: "nat \<Rightarrow> server \<Rightarrow> server res" where
  "ClientRemove c s =
     with_client c s (\<lambda>cl.
     bind_res (make_msg (NetFactory_CreateRpcClientDelete (c_str (cl_name cl))) s) (\<lambda>(rpc, s).
     bind_res (Server_SendMessageToAll rpc (Some c) s) (\<lambda>s.
       if numClients s = 0 then Inr s
       else if sv_objs s c = None then Inl UseAfterFree
       else let s = s\<lparr>sv_objs := (sv_objs s)(c := None)\<rparr>
            in if numClients s - 1 < 0 \<or> int MAX_CLIENTS \<le> numClients s - 1 then Inl OutOfBoundsWrite
               else Inr (s\<lparr>clients := (clients s)[nat (numClients s - 1) := None], numClients := numClients s - 1\<rparr>))))"

section \<open>The world download\<close>

definition ClientStartWorldDownload :: "server_env \<Rightarrow> nat \<Rightarrow> server \<Rightarrow> server res" where
  "ClientStartWorldDownload env c s =
     (let sz = wh_size (w_header (sv_world s)) in
      bind_res (make_msg (NetFactory_CreateDownloadStartPacket_Server (Some (map_name env))
          (of_int (vx sz), of_int (vy sz)) (of_nat (GetSizeInBytes (sv_world s)))) s) (\<lambda>(m, s).
      bind_res (Server_SendMessage m c s) (\<lambda>s.
      with_client c s (\<lambda>cl.
        Inr (s\<lparr>sv_objs := (sv_objs s)(c \<mapsto> cl\<lparr>cl_connectPhase := CLIENT_DOWNLOADING_WORLD\<rparr>)\<rparr>)))))"

text \<open>\<open>size\<close> bytes of the tiles from position \<open>p\<close>; a copy of none reads nothing.\<close>

definition tile_chunk :: "world \<Rightarrow> nat \<Rightarrow> nat \<Rightarrow> byte list res" where
  "tile_chunk w p n =
     (if n = 0 then Inr []
      else case tileData w of None \<Rightarrow> Inl NullDeref
      | Some ts \<Rightarrow> if length ts < p + n then Inl OutOfBoundsRead else Inr (take n (drop p ts)))"

definition ClientSendWorldChunk :: "nat \<Rightarrow> server \<Rightarrow> server res" where
  "ClientSendWorldChunk c s =
     with_client c s (\<lambda>cl.
     let worldSize = GetSizeInBytes (sv_world s);
         remainingBytes = nat ((int worldSize - int (cl_downloadProgress cl)) mod 2 ^ 64);
         n = (if remainingBytes < MAX_PACKET_SIZE then remainingBytes else MAX_PACKET_SIZE)
     in bind_res (make_msg (NetFactory_CreateDownloadPacket n) s) (\<lambda>(m, s).
        let m = set_size n m in
        bind_res (tile_chunk (sv_world s) (cl_downloadProgress cl) n) (\<lambda>bs.
        bind_res (if n = 0 then Inr s
                  else case nm_data m of None \<Rightarrow> Inl Uninitialised
                  | Some a \<Rightarrow> map_res (\<lambda>h. s\<lparr>net_heap := h\<rparr>) (write_block a 0 bs (net_heap s))) (\<lambda>s.
        bind_res (Server_SendMessage m c s) (\<lambda>s.
        with_client c s (\<lambda>cl.
          let cl = cl\<lparr>cl_downloadProgress := cl_downloadProgress cl + n\<rparr>;
              cl = (if worldSize \<le> cl_downloadProgress cl then cl\<lparr>cl_connectPhase := CLIENT_LETS_GO\<rparr> else cl)
          in Inr (s\<lparr>sv_objs := (sv_objs s)(c \<mapsto> cl)\<rparr>)))))))"

definition TickDownloads :: "server \<Rightarrow> server res" where
  "TickDownloads s =
     fold_res (\<lambda>i s. case clients s ! i of
         None \<Rightarrow> Inr s
       | Some c \<Rightarrow> with_client c s (\<lambda>cl.
           if cl_connectPhase cl = CLIENT_DOWNLOADING_WORLD then ClientSendWorldChunk c s else Inr s))
       [0..<MAX_CLIENTS] s"

section \<open>The tick\<close>

definition TickNetwork_ClientMessage :: "server_env \<Rightarrow> nat \<Rightarrow> net_msg \<Rightarrow> server \<Rightarrow> server res" where
  "TickNetwork_ClientMessage env c m s =
     (if h_type (nm_header m) = NETMSG_WORLD_DOWNLOAD_START then ClientStartWorldDownload env c s
      else if h_type (nm_header m) = NETMSG_DISCONNECT then with_client c s (\<lambda>_. ClientRemove c s)
      else Inr s)"

text \<open>\<open>DoneMessage\<close> on the server's heap. A message from somebody who is not a client is not freed.\<close>

definition done_msg :: "net_msg \<Rightarrow> 'a net_mode_scheme \<Rightarrow> 'a net_mode_scheme res" where
  "done_msg m s = map_res (\<lambda>h. s\<lparr>net_heap := h\<rparr>) (DoneMessage m (net_heap s))"

definition Server_TickNetwork :: "server_env \<Rightarrow> server \<Rightarrow> server res" where
  "Server_TickNetwork env s =
     bind_res (TickDownloads s) (\<lambda>s.
       let (msg, s) = GetMessage s
       in case msg of None \<Rightarrow> Inr s
          | Some m \<Rightarrow>
              if \<not> nm_valid m then done_msg m s
              else if h_type (nm_header m) = NETMSG_HELLO then bind_res (ClientNew env m s) (done_msg m)
              else bind_res (ClientByIp m s) (\<lambda>r. case r of
                  None \<Rightarrow> Inr s
                | Some c \<Rightarrow> bind_res (TickNetwork_ClientMessage env c m s) (done_msg m)))"

definition Server_Shutdown :: "server \<Rightarrow> server res" where
  "Server_Shutdown s =
     map_res (Server_SetState SERVER_DEAD)
       (fold_res (\<lambda>i s. case clients s ! i of
           None \<Rightarrow> Inr s
         | Some c \<Rightarrow>
             bind_res (make_msg NetFactory_CreateShutdownPacket s) (\<lambda>(m, s).
             bind_res (Server_SendMessage m c s) (ClientRemove c)))
         [0..<MAX_CLIENTS] (Server_SetState SERVER_SHUTTING_DOWN s))"

definition Server_Tick :: "server_env \<Rightarrow> server \<Rightarrow> server res" where
  "Server_Tick env s =
     (case sv_state s of
        SERVER_RUNNING \<Rightarrow> Server_TickNetwork env s
      | SERVER_SHUTTING_DOWN \<Rightarrow> Server_Shutdown s
      | _ \<Rightarrow> Inr s)"


section \<open>Start, frame and console\<close>

text \<open>The convars are read through their pointers; \<open>mem\<close> is the memory that borrowed strings lie in.\<close>

definition cvar_at :: "cvar_sys \<Rightarrow> nat \<Rightarrow> cvar res" where
  "cvar_at cs a = (case cvars cs a of None \<Rightarrow> Inl UseAfterFree | Some c \<Rightarrow> Inr c)"

definition Server_SetMap ::
    "char list \<Rightarrow> (nat \<Rightarrow> f32) \<Rightarrow> (nat \<Rightarrow> byte) \<Rightarrow> nat \<Rightarrow> cvar_sys \<times> fs_sys \<times> server \<Rightarrow> (cvar_sys \<times> fs_sys \<times> server) res" where
  "Server_SetMap mem rnd junk fuel = (\<lambda>(cs, fs, s).
     bind_res (Cvar_Get_bool mem cs (Lit ''map'') (Lit '''') False) (\<lambda>(mapv, cs).
     bind_res (Cvar_Get_bool mem cs (Lit ''mapSizeX'') (Lit ''4000'') False) (\<lambda>(mx, cs).
     bind_res (Cvar_Get_bool mem cs (Lit ''mapSizeY'') (Lit ''300'') False) (\<lambda>(my, cs).
     bind_res (cvar_at cs mapv) (\<lambda>v.
       let file_name = deref mem (cv_string v) in
       if file_name \<noteq> [] then
         map_res (\<lambda>(_, w, fs). (cs, fs, s\<lparr>sv_world := w\<rparr>)) (Deserialise mem cs junk file_name (sv_world s) fs)
       else bind_res (cvar_at cs mx) (\<lambda>vx'. bind_res (cvar_at cs my) (\<lambda>vy'.
            bind_res (f32_to_i32 (cv_value vx')) (\<lambda>x. bind_res (f32_to_i32 (cv_value vy')) (\<lambda>y.
            let sz = \<lparr>vx = x, vy = y\<rparr>
            in map_res (\<lambda>w. (cs, fs, s\<lparr>sv_world := w\<rparr>)) (Generate fuel rnd (World_Init junk sz (sv_world s)))))))))))
     )"

definition Server_Init ::
    "char list \<Rightarrow> (nat \<Rightarrow> f32) \<Rightarrow> (nat \<Rightarrow> byte) \<Rightarrow> nat \<Rightarrow> cvar_sys \<times> fs_sys \<times> server \<Rightarrow> (cvar_sys \<times> fs_sys \<times> server) res" where
  "Server_Init mem rnd junk fuel st =
     map_res (\<lambda>(cs, fs, s). (cs, fs, Server_SetState SERVER_RUNNING s)) (Server_SetMap mem rnd junk fuel st)"

text \<open>A line of input that is ready is executed with the rights of the console; \<open>run\<close> is \<open>Command_Execute\<close>.\<close>

definition Server_ConsoleUpdate :: "(string \<Rightarrow> console \<Rightarrow> console res) \<Rightarrow> string option \<Rightarrow> console \<Rightarrow> console res" where
  "Server_ConsoleUpdate run line con = (case line of None \<Rightarrow> Inr con | Some l \<Rightarrow> run l con)"

definition Server_Frame ::
    "(string \<Rightarrow> console \<Rightarrow> console res) \<Rightarrow> net_mode_enum \<Rightarrow> bool \<times> datagram option \<Rightarrow> string option \<Rightarrow> server \<times> console \<Rightarrow> (server \<times> console) res" where
  "Server_Frame run mode received line = (\<lambda>(s, con).
     bind_res (NetMode_Frame received s) (\<lambda>s.
       if mode = NETMODE_SERVER_DEDICATED then map_res (Pair s) (Server_ConsoleUpdate run line con)
       else Inr (s, con)))"

section \<open>Well-formed servers\<close>

text \<open>The clients fill the first slots, every one with its own live object, none of them another's.\<close>

definition joined :: "server \<Rightarrow> nat list" where
  "joined s = map the (take (nat (numClients s)) (clients s))"

definition server_wf :: "server \<Rightarrow> bool" where
  "server_wf s \<longleftrightarrow>
     (\<exists>cs. clients s = map Some cs @ replicate (MAX_CLIENTS - length cs) None \<and> length cs \<le> MAX_CLIENTS \<and>
        numClients s = int (length cs) \<and> distinct cs \<and> (\<forall>c \<in> set cs. c < sv_fresh s \<and> sv_objs s c \<noteq> None)) \<and>
     heap_wf (net_heap s)"

lemma server_wf_joined:
  assumes "server_wf s"
  shows "clients s = map Some (joined s) @ replicate (MAX_CLIENTS - length (joined s)) None"
    and "length (joined s) \<le> MAX_CLIENTS" and "numClients s = int (length (joined s))" and "distinct (joined s)"
    and "\<And>c. c \<in> set (joined s) \<Longrightarrow> c < sv_fresh s \<and> sv_objs s c \<noteq> None" and "heap_wf (net_heap s)"
proof -
  obtain cs where cs: "clients s = map Some cs @ replicate (MAX_CLIENTS - length cs) None" "length cs \<le> MAX_CLIENTS"
    "numClients s = int (length cs)" "distinct cs" "\<forall>c \<in> set cs. c < sv_fresh s \<and> sv_objs s c \<noteq> None" "heap_wf (net_heap s)"
    using assms by (auto simp: server_wf_def)
  have "joined s = cs" using cs(1,3) by (simp add: joined_def comp_def)
  then show "clients s = map Some (joined s) @ replicate (MAX_CLIENTS - length (joined s)) None"
    "length (joined s) \<le> MAX_CLIENTS" "numClients s = int (length (joined s))" "distinct (joined s)"
    "\<And>c. c \<in> set (joined s) \<Longrightarrow> c < sv_fresh s \<and> sv_objs s c \<noteq> None" "heap_wf (net_heap s)"
    using cs by auto
qed

lemma find_client_live:
  assumes "\<forall>c \<in> set cs. objs c \<noteq> None"
  shows "find_client P objs (map Some cs @ replicate k None) = Inr (find (\<lambda>c. P (the (objs c))) cs)"
proof -
  have "find_client P objs (replicate k None) = Inr None" by (induction k) simp_all
  then show ?thesis using assms by (induction cs) auto
qed

text \<open>A loop over the slots is a loop over the clients, as long as its body leaves the slots alone.\<close>

lemma fold_slots:
  assumes "\<And>s. Q s \<Longrightarrow> clients s = map Some cs @ replicate (MAX_CLIENTS - length cs) None"
    and "length cs \<le> MAX_CLIENTS" and "Q s"
    and "\<And>c s s'. c \<in> set cs \<Longrightarrow> Q s \<Longrightarrow> f c s = Inr s' \<Longrightarrow> Q s'"
  shows "fold_res (\<lambda>i s. case clients s ! i of None \<Rightarrow> Inr s | Some c \<Rightarrow> f c s) [0..<MAX_CLIENTS] s = fold_res f cs s"
proof -
  let ?g = "\<lambda>i s. case clients s ! i of None \<Rightarrow> Inr s | Some c \<Rightarrow> f c s"
  have empty: "fold_res ?g [k..<MAX_CLIENTS] s = Inr s" if "length cs \<le> k" "Q s" for k s
    using that
  proof (induction "MAX_CLIENTS - k" arbitrary: k)
    case 0
    then show ?case by simp
  next
    case (Suc n)
    then have k: "k < MAX_CLIENTS" by simp
    have "clients s ! k = None" using assms(1) [OF Suc.prems(2)] Suc.prems(1) k by (simp add: nth_append)
    then show ?case using Suc k by (simp add: upt_conv_Cons)
  qed
  have "fold_res ?g [k..<MAX_CLIENTS] s = fold_res f (drop k cs) s" if "k \<le> length cs" "Q s" for k s
    using that
  proof (induction "length cs - k" arbitrary: k s)
    case 0
    then show ?case using empty by simp
  next
    case (Suc n)
    then have k: "k < length cs" by simp
    have "clients s ! k = Some (cs ! k)" using assms(1) [OF Suc.prems(2)] k by (simp add: nth_append)
    moreover have "fold_res ?g [Suc k..<MAX_CLIENTS] s' = fold_res f (drop (Suc k) cs) s'" if "f (cs ! k) s = Inr s'" for s'
      using Suc.hyps(1) [of "Suc k" s'] Suc.hyps(2) k assms(4) [OF nth_mem [OF k] Suc.prems(2) that] by simp
    ultimately show ?case
      using k assms(2) by (cases "f (cs ! k) s") (simp_all add: upt_conv_Cons Cons_nth_drop_Suc [symmetric])
  qed
  from this [of 0 s] assms(3) show ?thesis by simp
qed


section \<open>Sending to clients\<close>

lemma SendMessageToPort_ok:
  assumes "msg_ok m (net_heap s)" and "0 < nm_size m"
  shows "SendMessageToPort m addr port s = Inr (s\<lparr>net_sent := net_sent s @ [(addr, port, net_header_enc (nm_header m) @ block_of m (net_heap s))],
    net_heap := (net_heap s)\<lparr>blocks := (blocks (net_heap s))(the (nm_data m) := None)\<rparr>, seqNumber := seqNumber s + 1\<rparr>)"
proof -
  let ?h = "net_heap s"
  obtain a b where ab: "nm_data m = Some a" "blocks ?h a = Some b" using assms(1) by (auto simp: msg_ok_def)
  have hdr: "length (h_pad (nm_header m)) = 7" "nm_size m < 2 ^ 32"
    using assms(1) by (auto simp: msg_ok_def MAX_PACKET_SIZE_def)
  obtain bs where "datagram_bytes m ?h = Inr (net_header_enc (nm_header m) @ bs)" "bs = block_of m ?h"
    using datagram_bytes_ok [OF disjI2 [OF assms(1)] hdr] assms(2) by auto
  then show ?thesis
    using ab assms(2) by (simp add: SendMessageToPort_def DoneMessage_def free_block_def)
qed

text \<open>A message whose data is gone cannot be sent.\<close>

lemma SendMessageToPort_freed:
  assumes "0 < nm_size m" and "nm_data m = Some a" and "blocks (net_heap s) a = None"
  shows "SendMessageToPort m addr port s = Inl UseAfterFree"
  using assms by (simp add: SendMessageToPort_def datagram_bytes_def read_block_def)

definition after_send :: "net_msg \<Rightarrow> client_obj \<Rightarrow> server \<Rightarrow> server" where
  "after_send m cl s = s\<lparr>net_sent := net_sent s @ [(cl_address cl, cl_port cl, net_header_enc (nm_header m) @ block_of m (net_heap s))],
    net_heap := (net_heap s)\<lparr>blocks := (blocks (net_heap s))(the (nm_data m) := None)\<rparr>, seqNumber := seqNumber s + 1\<rparr>"

lemma after_send_simps [simp]:
  "clients (after_send m cl s) = clients s" "numClients (after_send m cl s) = numClients s"
  "sv_objs (after_send m cl s) = sv_objs s" "sv_fresh (after_send m cl s) = sv_fresh s"
  "sv_world (after_send m cl s) = sv_world s" "sv_state (after_send m cl s) = sv_state s"
  "netBuffer (after_send m cl s) = netBuffer s" "netBufferPtr (after_send m cl s) = netBufferPtr s"
  "net_sent (after_send m cl s) = net_sent s @ [(cl_address cl, cl_port cl, net_header_enc (nm_header m) @ block_of m (net_heap s))]"
  "net_heap (after_send m cl s) = (net_heap s)\<lparr>blocks := (blocks (net_heap s))(the (nm_data m) := None)\<rparr>"
  by (simp_all add: after_send_def)

lemma Server_SendMessage_ok:
  assumes "msg_ok m (net_heap s)" and "0 < nm_size m" and "sv_objs s c = Some cl"
  shows "Server_SendMessage m c s = Inr (after_send m cl s)"
  using assms by (simp add: Server_SendMessage_def with_client_def SendMessageToPort_ok after_send_def)

lemma heap_wf_after_send: "heap_wf (net_heap s) \<Longrightarrow> heap_wf (net_heap (after_send m cl s))"
  by (simp add: heap_wf_def)

lemma server_wf_after_send [simp]: "server_wf s \<Longrightarrow> server_wf (after_send m cl s)"
  by (simp add: server_wf_def heap_wf_def)

lemma joined_after_send [simp]: "joined (after_send m cl s) = joined s"
  by (simp add: joined_def)

lemma fold_res_filter:
  "fold_res (\<lambda>c s. if P c then Inr s else g c s) cs s = fold_res g (filter (\<lambda>c. \<not> P c) cs) s"
proof (induction cs arbitrary: s)
  case Nil
  then show ?case by simp
next
  case (Cons c cs)
  then show ?case by (cases "P c"; cases "g c s") simp_all
qed

lemma Server_SendMessage_keeps:
  assumes "Server_SendMessage m c s = Inr s'"
  shows "clients s' = clients s" and "numClients s' = numClients s" and "sv_objs s' = sv_objs s" and "sv_fresh s' = sv_fresh s"
    and "sv_world s' = sv_world s" and "sv_state s' = sv_state s"
  using assms by (auto simp: Server_SendMessage_def with_client_def SendMessageToPort_def bind_res_eq_Inr split: option.splits)

lemma broadcast_cases:
  assumes "server_wf s" and "msg_ok m (net_heap s)" and "0 < nm_size m"
  shows "Server_SendMessageToAll m exclude s =
    (case filter (\<lambda>c. Some c \<noteq> exclude) (joined s) of
       [] \<Rightarrow> Inr s
     | [c] \<Rightarrow> Inr (after_send m (the (sv_objs s c)) s)
     | _ \<Rightarrow> Inl UseAfterFree)"
proof -
  note wf = server_wf_joined [OF assms(1)]
  let ?f = "\<lambda>c s. if Some c = exclude then Inr s else Server_SendMessage m c s"
  let ?cs = "filter (\<lambda>c. Some c \<noteq> exclude) (joined s)"
  have "Server_SendMessageToAll m exclude s = fold_res ?f (joined s) s"
    unfolding Server_SendMessageToAll_def
    by (rule fold_slots [where Q = "\<lambda>t. clients t = clients s"])
       (use wf in \<open>auto dest: Server_SendMessage_keeps(1) split: if_splits\<close>)
  also have "\<dots> = fold_res (Server_SendMessage m) ?cs s" by (rule fold_res_filter)
  finally have eq: "Server_SendMessageToAll m exclude s = fold_res (Server_SendMessage m) ?cs s" .
  have live: "sv_objs s c \<noteq> None" if "c \<in> set ?cs" for c using that wf(5) by auto
  obtain a where a: "nm_data m = Some a" using assms(2) by (auto simp: msg_ok_def)
  show ?thesis
  proof (cases ?cs)
    case Nil
    then show ?thesis by (simp add: eq)
  next
    case (Cons c cs)
    then obtain cl where cl: "sv_objs s c = Some cl" using live [of c] by auto
    note 1 = Server_SendMessage_ok [OF assms(2,3) cl]
    show ?thesis
    proof (cases cs)
      case Nil
      then show ?thesis using 1 Cons cl by (simp add: eq)
    next
      case (Cons d ds)
      then obtain cl' where "sv_objs s d = Some cl'" using live [of d] \<open>?cs = c # cs\<close> by auto
      then have "Server_SendMessage m d (after_send m cl s) = Inl UseAfterFree"
        using a by (simp add: Server_SendMessage_def with_client_def SendMessageToPort_freed [OF assms(3)])
      then show ?thesis using 1 Cons \<open>?cs = c # cs\<close> by (simp add: eq)
    qed
  qed
qed

section \<open>Properties\<close>

text \<open>
  A broadcast reaches one client at most: the message's data is freed when it is sent, so a broadcast with
  data succeeds with no or one recipient and uses freed memory as soon as there are two.
\<close>

theorem broadcast_at_most_once:
  assumes "server_wf s" and "msg_ok m (net_heap s)" and "0 < nm_size m"
  shows "Server_SendMessageToAll m exclude s =
    (case filter (\<lambda>c. Some c \<noteq> exclude) (joined s) of
       [] \<Rightarrow> Inr s
     | [c] \<Rightarrow> Inr (after_send m (the (sv_objs s c)) s)
     | _ \<Rightarrow> Inl UseAfterFree)"
  by (rule broadcast_cases [OF assms])


text \<open>Servers with clients at the addresses 0, 1, ..., called by the printed form of their address.\<close>

definition ip_name :: "nat \<Rightarrow> string" where "ip_name a = ''10.0.0.'' @ replicate a CHR ''1''"

definition client_at :: "nat \<Rightarrow> connect_phase \<Rightarrow> client_obj" where
  "client_at a ph = Client_new\<lparr>cl_name := strncpy (cl_name Client_new) (ip_name a) CLIENT_NAME_MAX, cl_address := a,
     cl_ipStr := strncpy (cl_ipStr Client_new) (ip_name a) CLIENT_IP_LENGTH, cl_port := 7, cl_connectPhase := ph\<rparr>"

definition server_with :: "nat \<Rightarrow> connect_phase \<Rightarrow> world \<Rightarrow> server" where
  "server_with n ph w =
     \<lparr>net_heap = heap0, netBuffer = netBuffer net0, netBufferPtr = -1, seqNumber = 0, net_sent = [],
      clients = map Some [0..<n] @ replicate (MAX_CLIENTS - n) None, numClients = int n,
      sv_objs = (\<lambda>c. if c < n then Some (client_at c ph) else None), sv_fresh = n, sv_world = w,
      sv_state = SERVER_RUNNING, sv_port = PORT_DEFAULT\<rparr>"

definition env0 :: server_env where
  "env0 = \<lparr>address_string = ip_name, max_players = Fin 32, map_name = ''map''\<rparr>"

lemma joined_server_with: "n \<le> MAX_CLIENTS \<Longrightarrow> joined (server_with n ph w) = [0..<n]"
  by (simp add: joined_def server_with_def comp_def)

lemma server_wf_with: "n \<le> MAX_CLIENTS \<Longrightarrow> server_wf (server_with n ph w)"
  unfolding server_wf_def
  by (intro conjI exI [of _ "[0..<n]"]) (simp_all add: server_with_def)

lemma server_with_simps [simp]:
  "net_heap (server_with n ph w) = heap0" "sv_objs (server_with n ph w) c = (if c < n then Some (client_at c ph) else None)"
  "net_sent (server_with n ph w) = []" "sv_fresh (server_with n ph w) = n" "sv_world (server_with n ph w) = w" "sv_state (server_with n ph w) = SERVER_RUNNING"
  by (simp_all add: server_with_def)

lemma server_with_heap_simps [simp]:
  "joined (s\<lparr>net_heap := h\<rparr>) = joined s" "sv_objs (s\<lparr>net_heap := h\<rparr>) = sv_objs s" "clients (s\<lparr>net_heap := h\<rparr>) = clients s"
  by (simp_all add: joined_def)

lemma server_wf_heap: "server_wf s \<Longrightarrow> heap_wf h \<Longrightarrow> server_wf (s\<lparr>net_heap := h\<rparr>)"
  by (simp add: server_wf_def)

theorem broadcast_at_most_once_witness:
  "\<exists>m h. NetFactory_CreateRpcClientCreate ''bob'' heap0 = Inr (m, h) \<and>
    is_ok (Server_SendMessageToAll m (Some 1) ((server_with 2 CLIENT_LETS_GO world0)\<lparr>net_heap := h\<rparr>)) \<and>
    Server_SendMessageToAll m (Some 2) ((server_with 3 CLIENT_LETS_GO world0)\<lparr>net_heap := h\<rparr>) = Inl UseAfterFree"
proof -
  have b: "(0::nat) < 1 + length ''bob''" "1 + length ''bob'' < length ''bob'' + 2"
    "1 + length ''bob'' + length ''bob'' + 1 < MAX_PACKET_SIZE"
    by (simp_all add: MAX_PACKET_SIZE_def)
  obtain m h where m: "NetFactory_CreateRpcClientCreate ''bob'' heap0 = Inr (m, h)" "msg_ok m h" "0 < nm_size m"
    using tagged_ok [OF heap_wf_heap0 b, of NETMSG_SERVER_RPC NETMSG_RPC_REQUEST_CLIENT_CREATE] rpc_create_tagged [of "''bob''" heap0]
    by auto
  have h: "heap_wf h" using m(2) by (simp add: msg_ok_def)
  have max: "2 \<le> MAX_CLIENTS" "3 \<le> MAX_CLIENTS" by (simp_all add: MAX_CLIENTS_def)
  note b2 = broadcast_at_most_once [OF server_wf_heap [OF server_wf_with [OF max(1), of CLIENT_LETS_GO world0] h] _ m(3), of "Some 1"]
  note b3 = broadcast_at_most_once [OF server_wf_heap [OF server_wf_with [OF max(2), of CLIENT_LETS_GO world0] h] _ m(3), of "Some 2"]
  have j: "[0..<2] = [0, 1::nat]" "[0..<3] = [0, 1, 2::nat]" by (simp_all add: upt_rec numeral_2_eq_2 numeral_3_eq_3)
  show ?thesis
    using m(1,2) b2 b3 by (intro exI [of _ m] exI [of _ h]) (simp add: joined_server_with [OF max(1)] joined_server_with [OF max(2)] j)
qed

section \<open>Joining\<close>

definition knows_ip :: "server \<Rightarrow> nat \<Rightarrow> bool" where
  "knows_ip s a \<longleftrightarrow> (\<exists>c \<in> set (joined s). cl_address (the (sv_objs s c)) = a)"

definition knows_name :: "server \<Rightarrow> string \<Rightarrow> bool" where
  "knows_name s u \<longleftrightarrow> (\<exists>c \<in> set (joined s). strneq (c_str (cl_name (the (sv_objs s c)))) u CLIENT_NAME_MAX)"

lemma ClientByIp_wf:
  assumes "server_wf s"
  shows "ClientByIp m s = Inr (find (\<lambda>c. cl_address (the (sv_objs s c)) = nm_addr m) (joined s))"
  unfolding ClientByIp_def server_wf_joined(1) [OF assms]
  by (rule find_client_live) (use server_wf_joined(5) [OF assms] in blast)

lemma ClientByUsername_wf:
  assumes "server_wf s"
  shows "ClientByUsername u s = Inr (find (\<lambda>c. strneq (c_str (cl_name (the (sv_objs s c)))) u CLIENT_NAME_MAX) (joined s))"
  unfolding ClientByUsername_def server_wf_joined(1) [OF assms]
  by (rule find_client_live) (use server_wf_joined(5) [OF assms] in blast)

lemma find_eq_None: "(find P xs = None) \<longleftrightarrow> \<not> (\<exists>x \<in> set xs. P x)"
  by (auto simp: find_None_iff)

lemma ClientIsNew_wf:
  assumes "server_wf s"
  shows "ClientIsNew m u s = Inr (\<not> (knows_ip s (nm_addr m) \<and> knows_name s u))"
proof (cases "find (\<lambda>c. cl_address (the (sv_objs s c)) = nm_addr m) (joined s)")
  case None
  then have "\<not> knows_ip s (nm_addr m)" by (simp only: find_eq_None knows_ip_def not_False_eq_True)
  with None show ?thesis by (simp add: ClientIsNew_def ClientByIp_wf [OF assms])
next
  case (Some c)
  then have "find (\<lambda>c. cl_address (the (sv_objs s c)) = nm_addr m) (joined s) \<noteq> None" by simp
  then have "knows_ip s (nm_addr m)" by (simp only: find_eq_None knows_ip_def not_not)
  with Some show ?thesis
    by (simp add: ClientIsNew_def ClientByIp_wf [OF assms] ClientByUsername_wf [OF assms] find_eq_None knows_name_def)
qed

text \<open>A hello: the version and the name, at the reading position of a message with a live block.\<close>

definition hello_msg :: "net_msg \<Rightarrow> byte_heap \<Rightarrow> byte \<Rightarrow> string \<Rightarrow> bool" where
  "hello_msg m h ver u \<longleftrightarrow> readable m h \<and> is_c_string u \<and> (\<exists>rest. unread m h = ver # z_bytes u @ rest)"

lemma hello_reads:
  assumes "hello_msg m h ver u"
  shows "\<exists>m1 p m2. NetMsg_Read 1 m h = Inr ([ver], m1) \<and> NetMsg_Read_string m1 h = Inr (p, u, m2) \<and>
    nm_addr m2 = nm_addr m \<and> nm_port m2 = nm_port m"
proof -
  obtain rest where r: "readable m h" "is_c_string u" "unread m h = [ver] @ (z_bytes u @ rest)"
    using assms by (auto simp: hello_msg_def)
  note 1 = NetMsg_Read_ok [OF r(1,3)]
  show ?thesis using 1(1) NetMsg_Read_string_ok(1) [OF 1(2,3) r(2)] by auto
qed

text \<open>The hello the server builds.\<close>

lemma server_hello_ok:
  assumes "heap_wf h"
  shows "\<exists>m0 h0 m h1. NetFactory_CreateServerHelloPacket h = Inr (m0, h0) \<and> NetMsg_Write (u8_enc b) (m0, h0) = Inr (m, h1) \<and>
    msg_ok m h1 \<and> nm_size m = 1 \<and> block_of m h1 = [b] \<and> h_type (nm_header m) = NETMSG_SERVER_HELLO \<and>
    h_magic (nm_header m) = NETMSG_MAGIC"
proof -
  have one: "(0::nat) < 1" "(1::nat) \<le> MAX_PACKET_SIZE" by (simp_all add: MAX_PACKET_SIZE_def)
  obtain m0 h0 where 0: "NetMsg_new NETMSG_SERVER_HELLO 1 h = Inr (m0, h0)" "msg_ok m0 h0" "nm_write m0 = 0" "nm_size m0 = 1"
    "h_magic (nm_header m0) = NETMSG_MAGIC" "h_type (nm_header m0) = NETMSG_SERVER_HELLO" "written m0 h0 = []"
    using NetMsg_new_ok [OF assms one, of NETMSG_SERVER_HELLO] by auto
  have r: "room m0 (length (u8_enc b))" "grown m0 1 = 1" using 0(3,4) by (simp_all add: room_def grown_def MAX_PACKET_SIZE_def)
  obtain a h1 where 1: "NetMsg_Write (u8_enc b) (m0, h0) = Inr (m0\<lparr>nm_header := (nm_header m0)\<lparr>h_size := 1\<rparr>, nm_data := Some a, nm_write := 1\<rparr>, h1)"
    "msg_ok (m0\<lparr>nm_header := (nm_header m0)\<lparr>h_size := 1\<rparr>, nm_data := Some a, nm_write := 1\<rparr>) h1"
    "written (m0\<lparr>nm_header := (nm_header m0)\<lparr>h_size := 1\<rparr>, nm_data := Some a, nm_write := 1\<rparr>) h1 = [b]"
    using NetMsg_Write_ok [OF 0(2) r(1)] r(2) 0(3,7) by (auto simp: Let_def u8_enc_def)
  have "block_of (m0\<lparr>nm_header := (nm_header m0)\<lparr>h_size := 1\<rparr>, nm_data := Some a, nm_write := 1\<rparr>) h1 = [b]"
    using written_all [OF 1(2)] 1(3) by simp
  then show ?thesis
    using 0 1 by (intro exI [of _ m0] exI [of _ h0] exI [of _ "m0\<lparr>nm_header := (nm_header m0)\<lparr>h_size := 1\<rparr>, nm_data := Some a, nm_write := 1\<rparr>"] exI [of _ h1])
      (simp add: NetFactory_CreateServerHelloPacket_def)
qed


text \<open>Who is let in.\<close>

definition admitted :: "server_env \<Rightarrow> server \<Rightarrow> net_msg \<Rightarrow> byte \<Rightarrow> string \<Rightarrow> bool" where
  "admitted env s m ver u \<longleftrightarrow> ver = NET_PROTOCOL_VERSION \<and> \<not> (knows_ip s (nm_addr m) \<and> knows_name s u) \<and>
     \<not> f32_le (max_players env) (f32_of_int (numClients s))"

lemma hello_result_ok: "hello_result v n f = HELLO_OK \<longleftrightarrow> v \<and> n \<and> \<not> f"
  by (simp add: hello_result_def Let_def)

lemma hello_byte_inj: "hello_byte a = hello_byte b \<longleftrightarrow> a = b"
  by (cases a; cases b) simp_all

text \<open>The new client's object.\<close>

definition new_client :: "server_env \<Rightarrow> net_msg \<Rightarrow> client_obj" where
  "new_client env m = (let ip = address_string env (nm_addr m) in
     Client_new\<lparr>cl_name := strncpy (cl_name Client_new) ip CLIENT_NAME_MAX, cl_address := nm_addr m,
       cl_ipStr := strncpy (cl_ipStr Client_new) ip CLIENT_IP_LENGTH, cl_port := nm_port m\<rparr>)"

definition with_new_client :: "client_obj \<Rightarrow> server \<Rightarrow> server" where
  "with_new_client cl s = s\<lparr>sv_objs := (sv_objs s)(sv_fresh s \<mapsto> cl), sv_fresh := sv_fresh s + 1,
     clients := (clients s)[nat (numClients s) := Some (sv_fresh s)], numClients := numClients s + 1\<rparr>"

lemma u8_dec_single: "u8_dec [b] = b"
  using u8.dec_enc [of b] by (simp add: u8_enc_def)

text \<open>Up to the decision.\<close>

lemma ClientNew_decides:
  assumes "server_wf s" and "hello_msg m (net_heap s) ver u"
  shows "\<exists>hello h. ClientNew env m s =
      (if admitted env s m ver u then
         if numClients s < 0 \<or> int MAX_CLIENTS \<le> numClients s then Inl OutOfBoundsWrite
         else let s = with_new_client (new_client env m) (s\<lparr>net_heap := h\<rparr>) in
           bind_res (Server_SendMessage hello (sv_fresh s - 1) s) (\<lambda>s'.
           bind_res (make_msg (NetFactory_CreateRpcClientCreate (c_str (cl_name (new_client env m)))) s') (\<lambda>(rpc, s').
             Server_SendMessageToAll rpc (Some (sv_fresh s - 1)) s'))
       else Inr (s\<lparr>net_heap := h\<rparr>)) \<and>
    msg_ok hello h \<and> nm_size hello = 1 \<and> (admitted env s m ver u \<longrightarrow> block_of hello h = [0]) \<and>
    h_type (nm_header hello) = NETMSG_SERVER_HELLO \<and> h_magic (nm_header hello) = NETMSG_MAGIC"
proof -
  obtain m1 p m2 where r: "NetMsg_Read 1 m (net_heap s) = Inr ([ver], m1)" "NetMsg_Read_string m1 (net_heap s) = Inr (p, u, m2)"
    "nm_addr m2 = nm_addr m" "nm_port m2 = nm_port m"
    using hello_reads [OF assms(2)] by blast
  let ?st = "hello_result (ver = NET_PROTOCOL_VERSION) (\<not> (knows_ip s (nm_addr m2) \<and> knows_name s u))
               (f32_le (max_players env) (f32_of_int (numClients s)))"
  have st: "?st = HELLO_OK \<longleftrightarrow> admitted env s m ver u"
    unfolding hello_result_ok admitted_def r(3) by simp
  obtain m0 h0 mh h1 where h: "NetFactory_CreateServerHelloPacket (net_heap s) = Inr (m0, h0)"
    "NetMsg_Write (u8_enc (hello_byte ?st)) (m0, h0) = Inr (mh, h1)"
    "msg_ok mh h1" "nm_size mh = 1" "block_of mh h1 = [hello_byte ?st]" "h_type (nm_header mh) = NETMSG_SERVER_HELLO"
    "h_magic (nm_header mh) = NETMSG_MAGIC"
    using server_hello_ok [OF server_wf_joined(6) [OF assms(1)]] by blast
  have nc: "new_client env m2 = new_client env m" using r(3,4) by (simp add: new_client_def)
  have cl: "Client_new\<lparr>cl_name := strncpy (cl_name Client_new) (address_string env (nm_addr m)) CLIENT_NAME_MAX, cl_address := nm_addr m2,
      cl_ipStr := strncpy (cl_ipStr Client_new) (address_string env (nm_addr m)) CLIENT_IP_LENGTH, cl_port := nm_port m2\<rparr> = new_client env m"
    using r(3,4) by (simp add: new_client_def Let_def)
  have "ClientNew env m s = (if ?st = HELLO_OK then
         if numClients s < 0 \<or> int MAX_CLIENTS \<le> numClients s then Inl OutOfBoundsWrite
         else let s = with_new_client (new_client env m) (s\<lparr>net_heap := h1\<rparr>) in
           bind_res (Server_SendMessage mh (sv_fresh s - 1) s) (\<lambda>s'.
           bind_res (make_msg (NetFactory_CreateRpcClientCreate (c_str (cl_name (new_client env m)))) s') (\<lambda>(rpc, s').
             Server_SendMessageToAll rpc (Some (sv_fresh s - 1)) s'))
       else Inr (s\<lparr>net_heap := h1\<rparr>))"
    unfolding ClientNew_def Let_def r(1) bind_res_Inr split_conv r(2) ClientIsNew_wf [OF assms(1)] make_msg_def h(1) map_res_simps
    using h(2) by (simp add: u8_dec_single cl with_new_client_def)
  then show ?thesis
    unfolding st using h(3,4,5,6,7) st by (intro exI [of _ mh] exI [of _ h1]) auto
qed

text \<open>
  A client that is turned away never learns it: whenever the version is wrong, the address and the name are both
  known already, or the server is full, \<open>ClientNew\<close> returns with no datagram sent and no client added. The
  status is written into a hello that is dropped.
\<close>

theorem rejected_never_answered:
  assumes "server_wf s" and "hello_msg m (net_heap s) ver u" and "\<not> admitted env s m ver u"
  shows "\<exists>s'. ClientNew env m s = Inr s' \<and> net_sent s' = net_sent s \<and> joined s' = joined s \<and>
    sv_objs s' = sv_objs s \<and> numClients s' = numClients s \<and> server_wf s'"
proof -
  obtain hello h where "ClientNew env m s = Inr (s\<lparr>net_heap := h\<rparr>)" "msg_ok hello h"
    using ClientNew_decides [OF assms(1,2), of env] assms(3) by auto
  moreover have "heap_wf h" using calculation(2) by (simp add: msg_ok_def)
  ultimately show ?thesis
    using assms(1) by (intro exI [of _ "s\<lparr>net_heap := h\<rparr>"]) (simp add: server_wf_heap)
qed


lemma joined_eq: "clients t = map Some cs @ replicate k None \<Longrightarrow> numClients t = int (length cs) \<Longrightarrow> joined t = cs"
  by (simp add: joined_def comp_def)

lemma with_new_client_wf:
  assumes "server_wf s" and "length (joined s) < MAX_CLIENTS"
  shows "server_wf (with_new_client cl s)" and "joined (with_new_client cl s) = joined s @ [sv_fresh s]"
    and "sv_objs (with_new_client cl s) (sv_fresh s) = Some cl"
    and "\<And>c. c \<in> set (joined s) \<Longrightarrow> sv_objs (with_new_client cl s) c = sv_objs s c"
proof -
  note wf = server_wf_joined [OF assms(1)]
  let ?n = "length (joined s)"
  have fresh: "sv_fresh s \<notin> set (joined s)" using wf(5) by blast
  have rep: "replicate (MAX_CLIENTS - ?n) None = None # replicate (MAX_CLIENTS - Suc ?n) (None :: nat option)"
    using assms(2) by (metis Suc_diff_Suc replicate_Suc)
  have cl: "clients (with_new_client cl s) = map Some (joined s @ [sv_fresh s]) @ replicate (MAX_CLIENTS - length (joined s @ [sv_fresh s])) None"
    using wf(1,3) rep by (simp add: with_new_client_def list_update_append)
  have num: "numClients (with_new_client cl s) = int (length (joined s @ [sv_fresh s]))"
    using wf(3) by (simp add: with_new_client_def)
  show "joined (with_new_client cl s) = joined s @ [sv_fresh s]"
    by (rule joined_eq [OF cl num])
  show "server_wf (with_new_client cl s)"
    unfolding server_wf_def
  proof (intro conjI exI [of _ "joined s @ [sv_fresh s]"])
    show "\<forall>c\<in>set (joined s @ [sv_fresh s]). c < sv_fresh (with_new_client cl s) \<and> sv_objs (with_new_client cl s) c \<noteq> None"
      using wf(5) by (auto simp: with_new_client_def less_Suc_eq)
  qed (use cl num wf(4,6) fresh assms(2) in \<open>simp_all add: with_new_client_def\<close>)
  show "sv_objs (with_new_client cl s) (sv_fresh s) = Some cl" by (simp add: with_new_client_def)
  show "sv_objs (with_new_client cl s) c = sv_objs s c" if "c \<in> set (joined s)" for c
    using that fresh by (auto simp: with_new_client_def)
qed

lemma with_new_client_heap [simp]: "net_heap (with_new_client cl s) = net_heap s" "net_sent (with_new_client cl s) = net_sent s"
  "sv_fresh (with_new_client cl s) = sv_fresh s + 1"
  by (simp_all add: with_new_client_def)

lemma new_client_name:
  assumes "is_c_string (address_string env (nm_addr m))" and "length (address_string env (nm_addr m)) < CLIENT_IP_LENGTH"
  shows "c_str (cl_name (new_client env m)) = address_string env (nm_addr m)"
  using assms by (simp add: new_client_def Let_def Client_new_def c_str_strncpy CLIENT_NAME_MAX_def CLIENT_IP_LENGTH_def)

text \<open>The announcement of a client or of its leaving.\<close>

lemma rpc_name_ok:
  assumes "heap_wf h" and "length n < CLIENT_NAME_MAX"
  shows "\<exists>m h'. NetFactory_CreateRpcClientCreate n h = Inr (m, h') \<and> msg_ok m h' \<and> 0 < nm_size m \<and>
      h_type (nm_header m) = NETMSG_SERVER_RPC \<and> (\<exists>rest. block_of m h' = NETMSG_RPC_REQUEST_CLIENT_CREATE # z_bytes n @ rest)"
    and "\<exists>m h'. NetFactory_CreateRpcClientDelete n h = Inr (m, h') \<and> msg_ok m h' \<and> 0 < nm_size m \<and>
      h_type (nm_header m) = NETMSG_SERVER_RPC \<and> (\<exists>rest. block_of m h' = NETMSG_RPC_REQUEST_CLIENT_DELETE # z_bytes n @ rest)"
proof -
  have b: "0 < 1 + length n" "1 + length n < length n + 2" "1 + length n + length n + 1 < MAX_PACKET_SIZE"
    using assms(2) by (simp_all add: MAX_PACKET_SIZE_def CLIENT_NAME_MAX_def)
  have "\<exists>m h'. tagged NETMSG_SERVER_RPC t (1 + length n) n h = Inr (m, h') \<and> msg_ok m h' \<and> 0 < nm_size m \<and>
      h_type (nm_header m) = NETMSG_SERVER_RPC \<and> (\<exists>rest. block_of m h' = t # z_bytes n @ rest)" for t
  proof -
    obtain m h' where m: "tagged NETMSG_SERVER_RPC t (1 + length n) n h = Inr (m, h')" "msg_ok m h'"
      "nm_size m = 1 + length n + length n + 1" "h_type (nm_header m) = NETMSG_SERVER_RPC" "written m h' = t # z_bytes n"
      using tagged_ok [OF assms(1) b, of NETMSG_SERVER_RPC t] by blast
    have "block_of m h' = written m h' @ drop (nm_write m) (block_of m h')" by (simp add: written_def)
    then have "block_of m h' = t # z_bytes n @ drop (nm_write m) (block_of m h')" using m(5) by simp
    then show ?thesis using m by (intro exI [of _ m] exI [of _ h']) auto
  qed
  then show "\<exists>m h'. NetFactory_CreateRpcClientCreate n h = Inr (m, h') \<and> msg_ok m h' \<and> 0 < nm_size m \<and>
      h_type (nm_header m) = NETMSG_SERVER_RPC \<and> (\<exists>rest. block_of m h' = NETMSG_RPC_REQUEST_CLIENT_CREATE # z_bytes n @ rest)"
    "\<exists>m h'. NetFactory_CreateRpcClientDelete n h = Inr (m, h') \<and> msg_ok m h' \<and> 0 < nm_size m \<and>
      h_type (nm_header m) = NETMSG_SERVER_RPC \<and> (\<exists>rest. block_of m h' = NETMSG_RPC_REQUEST_CLIENT_DELETE # z_bytes n @ rest)"
    unfolding rpc_create_tagged rpc_delete_tagged by blast+
qed

text \<open>Somebody who is let in: the greeting is sent, and the announcement is built for the others.\<close>

lemma ClientNew_announces:
  assumes "server_wf s" and "hello_msg m (net_heap s) ver u" and "admitted env s m ver u" and "length (joined s) < MAX_CLIENTS"
    and "is_c_string (address_string env (nm_addr m))" and "length (address_string env (nm_addr m)) < CLIENT_IP_LENGTH"
  obtains hello h rpc h3 rest
  where "ClientNew env m s = Server_SendMessageToAll rpc (Some (sv_fresh s))
      ((after_send hello (new_client env m) (with_new_client (new_client env m) (s\<lparr>net_heap := h\<rparr>)))\<lparr>net_heap := h3\<rparr>)"
    and "msg_ok hello h" and "nm_size hello = 1" and "block_of hello h = [hello_byte HELLO_OK]"
    and "h_type (nm_header hello) = NETMSG_SERVER_HELLO" and "h_magic (nm_header hello) = NETMSG_MAGIC"
    and "msg_ok rpc h3" and "0 < nm_size rpc" and "h_type (nm_header rpc) = NETMSG_SERVER_RPC"
    and "block_of rpc h3 = NETMSG_RPC_REQUEST_CLIENT_CREATE # z_bytes (address_string env (nm_addr m)) @ rest"
proof -
  let ?ip = "address_string env (nm_addr m)" and ?cl = "new_client env m"
  obtain hello h where dec: "ClientNew env m s =
      (if numClients s < 0 \<or> int MAX_CLIENTS \<le> numClients s then Inl OutOfBoundsWrite
       else let s = with_new_client ?cl (s\<lparr>net_heap := h\<rparr>) in
           bind_res (Server_SendMessage hello (sv_fresh s - 1) s) (\<lambda>s'.
           bind_res (make_msg (NetFactory_CreateRpcClientCreate (c_str (cl_name ?cl))) s') (\<lambda>(rpc, s').
             Server_SendMessageToAll rpc (Some (sv_fresh s - 1)) s')))"
    and hello: "msg_ok hello h" "nm_size hello = 1" "block_of hello h = [0]" "h_type (nm_header hello) = NETMSG_SERVER_HELLO"
      "h_magic (nm_header hello) = NETMSG_MAGIC"
    using ClientNew_decides [OF assms(1,2), of env] assms(3) by auto
  have n: "0 \<le> numClients s" "numClients s < int MAX_CLIENTS"
    using server_wf_joined(3) [OF assms(1)] assms(4) by simp_all
  let ?s1 = "with_new_client ?cl (s\<lparr>net_heap := h\<rparr>)"
  have hwf: "heap_wf h" using hello(1) by (simp add: msg_ok_def)
  note s1 = with_new_client_wf [where cl = "?cl", OF server_wf_heap [OF assms(1) hwf], unfolded server_with_heap_simps, OF assms(4)]
  have fresh: "sv_fresh (s\<lparr>net_heap := h\<rparr>) = sv_fresh s" by simp
  let ?s2 = "after_send hello ?cl ?s1"
  have 2: "Server_SendMessage hello (sv_fresh s) ?s1 = Inr ?s2"
    using Server_SendMessage_ok [of hello ?s1 "sv_fresh s" ?cl] hello(1,2) s1(3) by simp
  have wf2: "server_wf ?s2" using s1(1) by simp
  have len: "length ?ip < CLIENT_NAME_MAX" using assms(6) by (simp add: CLIENT_NAME_MAX_def CLIENT_IP_LENGTH_def)
  obtain rpc h3 rest where 3: "NetFactory_CreateRpcClientCreate ?ip (net_heap ?s2) = Inr (rpc, h3)" "msg_ok rpc h3" "0 < nm_size rpc"
    "h_type (nm_header rpc) = NETMSG_SERVER_RPC" "block_of rpc h3 = NETMSG_RPC_REQUEST_CLIENT_CREATE # z_bytes ?ip @ rest"
    using rpc_name_ok(1) [OF server_wf_joined(6) [OF wf2] len] by blast
  have mk: "make_msg (NetFactory_CreateRpcClientCreate (c_str (cl_name ?cl))) ?s2 = Inr (rpc, ?s2\<lparr>net_heap := h3\<rparr>)"
    by (simp only: make_msg_def new_client_name [OF assms(5,6)] 3(1) map_res_simps split_conv)
  have "ClientNew env m s = Server_SendMessageToAll rpc (Some (sv_fresh s)) (?s2\<lparr>net_heap := h3\<rparr>)"
    unfolding dec using n 2 mk by (simp add: Let_def)
  then show thesis by (rule that) (use hello 3 in simp_all)
qed

text \<open>The object of a client who has just come: its name is the printed address, not the name it sent.\<close>

definition came_as :: "server_env \<Rightarrow> net_msg \<Rightarrow> nat \<Rightarrow> server \<Rightarrow> bool" where
  "came_as env m c s \<longleftrightarrow> (\<exists>cl. sv_objs s c = Some cl \<and> c_str (cl_name cl) = address_string env (nm_addr m) \<and>
     c_str (cl_ipStr cl) = address_string env (nm_addr m) \<and> cl_address cl = nm_addr m \<and> cl_port cl = nm_port m)"

lemma came_as_new:
  assumes "is_c_string (address_string env (nm_addr m))" and "length (address_string env (nm_addr m)) < CLIENT_IP_LENGTH"
    and "sv_objs s c = Some (new_client env m)"
  shows "came_as env m c s"
proof -
  have "c_str (cl_ipStr (new_client env m)) = address_string env (nm_addr m)"
    using assms(1,2) by (simp add: new_client_def Let_def Client_new_def c_str_strncpy)
  moreover have "cl_address (new_client env m) = nm_addr m" "cl_port (new_client env m) = nm_port m"
    by (simp_all add: new_client_def Let_def)
  ultimately show ?thesis using assms(3) new_client_name [OF assms(1,2)] by (auto simp: came_as_def)
qed

text \<open>
  C27. What an admitted greeting does. On an empty server the client is added and sent its hello; when one client has joined, the new
  one is added and sent its hello, and the other is told its name. Both times the new client's name and address text are
  the printed address, its address and port are the greeting's, and the server stays well-formed. When two or more have joined the call
  does not succeed: the announcement is a message freed after its first sending, so \<open>ClientNew\<close> uses freed memory.
\<close>

theorem ClientNew_accepts:
  assumes "server_wf s" and "hello_msg m (net_heap s) ver u" and "admitted env s m ver u" and "length (joined s) < MAX_CLIENTS"
    and "is_c_string (address_string env (nm_addr m))" and "length (address_string env (nm_addr m)) < CLIENT_IP_LENGTH"
  shows "\<exists>hd. h_type hd = NETMSG_SERVER_HELLO \<and>
    (let hello = (nm_addr m, nm_port m, net_header_enc hd @ [hello_byte HELLO_OK]) in
     case joined s of
       [] \<Rightarrow> \<exists>s'. ClientNew env m s = Inr s' \<and> server_wf s' \<and> joined s' = [sv_fresh s] \<and> came_as env m (sv_fresh s) s' \<and>
         net_sent s' = net_sent s @ [hello]
     | [c] \<Rightarrow> \<exists>s' hd2 rest. ClientNew env m s = Inr s' \<and> server_wf s' \<and> joined s' = [c, sv_fresh s] \<and>
         came_as env m (sv_fresh s) s' \<and> h_type hd2 = NETMSG_SERVER_RPC \<and>
         net_sent s' = net_sent s @ [hello, (cl_address (the (sv_objs s c)), cl_port (the (sv_objs s c)),
           net_header_enc hd2 @ NETMSG_RPC_REQUEST_CLIENT_CREATE # z_bytes (address_string env (nm_addr m)) @ rest)]
     | _ \<Rightarrow> ClientNew env m s = Inl UseAfterFree)"
proof -
  let ?cl = "new_client env m"
  obtain hello h rpc h3 rest where new: "ClientNew env m s = Server_SendMessageToAll rpc (Some (sv_fresh s))
      ((after_send hello ?cl (with_new_client ?cl (s\<lparr>net_heap := h\<rparr>)))\<lparr>net_heap := h3\<rparr>)"
    and hello: "msg_ok hello h" "nm_size hello = 1" "block_of hello h = [hello_byte HELLO_OK]" "h_type (nm_header hello) = NETMSG_SERVER_HELLO"
    and 3: "msg_ok rpc h3" "0 < nm_size rpc" "h_type (nm_header rpc) = NETMSG_SERVER_RPC"
      "block_of rpc h3 = NETMSG_RPC_REQUEST_CLIENT_CREATE # z_bytes (address_string env (nm_addr m)) @ rest"
    using ClientNew_announces [OF assms] by metis
  have hwf: "heap_wf h" using hello(1) by (simp add: msg_ok_def)
  note s1 = with_new_client_wf [where cl = "?cl", OF server_wf_heap [OF assms(1) hwf], unfolded server_with_heap_simps, OF assms(4)]
  have fresh: "sv_fresh (s\<lparr>net_heap := h\<rparr>) = sv_fresh s" by simp
  let ?s3 = "(after_send hello ?cl (with_new_client ?cl (s\<lparr>net_heap := h\<rparr>)))\<lparr>net_heap := h3\<rparr>"
  have wf3: "server_wf ?s3" using server_wf_heap [of "after_send hello ?cl (with_new_client ?cl (s\<lparr>net_heap := h\<rparr>))" h3] s1(1) 3(1)
    by (simp add: msg_ok_def)
  have j3: "joined ?s3 = joined s @ [sv_fresh s]" using s1(2) by simp
  have notin: "sv_fresh s \<notin> set (joined s)" using server_wf_joined(5) [OF assms(1)] by blast
  then have "filter (\<lambda>c. Some c \<noteq> Some (sv_fresh s)) (joined ?s3) = joined s"
    unfolding j3 by (auto simp: filter_id_conv)
  then have b: "ClientNew env m s = (case joined s of [] \<Rightarrow> Inr ?s3 | [c] \<Rightarrow> Inr (after_send rpc (the (sv_objs ?s3 c)) ?s3) | _ \<Rightarrow> Inl UseAfterFree)"
    using broadcast_cases [OF wf3 _ 3(2), of "Some (sv_fresh s)"] 3(1) new by simp
  have sent2: "net_sent ?s3 = net_sent s @ [(nm_addr m, nm_port m, net_header_enc (nm_header hello) @ [hello_byte HELLO_OK])]"
    using hello(3) by (simp add: new_client_def Let_def)
  have came: "came_as env m (sv_fresh s) ?s3" "came_as env m (sv_fresh s) (after_send rpc (the (sv_objs ?s3 c)) ?s3)" for c
    by (rule came_as_new [OF assms(5,6)], simp add: with_new_client_def)+
  show ?thesis
  proof (intro exI [of _ "nm_header hello"] conjI hello(4))
    show "let hello = (nm_addr m, nm_port m, net_header_enc (nm_header hello) @ [hello_byte HELLO_OK]) in
     case joined s of
       [] \<Rightarrow> \<exists>s'. ClientNew env m s = Inr s' \<and> server_wf s' \<and> joined s' = [sv_fresh s] \<and> came_as env m (sv_fresh s) s' \<and>
         net_sent s' = net_sent s @ [hello]
     | [c] \<Rightarrow> \<exists>s' hd2 rest. ClientNew env m s = Inr s' \<and> server_wf s' \<and> joined s' = [c, sv_fresh s] \<and>
         came_as env m (sv_fresh s) s' \<and> h_type hd2 = NETMSG_SERVER_RPC \<and>
         net_sent s' = net_sent s @ [hello, (cl_address (the (sv_objs s c)), cl_port (the (sv_objs s c)),
           net_header_enc hd2 @ NETMSG_RPC_REQUEST_CLIENT_CREATE # z_bytes (address_string env (nm_addr m)) @ rest)]
     | _ \<Rightarrow> ClientNew env m s = Inl UseAfterFree"
    proof (cases "joined s")
      case Nil
      then show ?thesis using b wf3 j3 sent2 came(1) by (auto simp: Let_def)
    next
      case (Cons c cs)
      show ?thesis
      proof (cases cs)
        case Nil
        then have js: "joined s = [c]" using Cons by simp
        have oc: "sv_objs ?s3 c = sv_objs s c" using s1(4) [of c] js by simp
        show ?thesis
          using b js wf3 j3 sent2 oc 3(3,4) came(2) [of c, unfolded oc]
          by (auto simp: Let_def intro!: exI [of _ "nm_header rpc"] exI [of _ rest])
      next
        case (Cons d ds)
        then show ?thesis using b \<open>joined s = c # cs\<close> by simp
      qed
    qed
  qed
qed


text \<open>A hello of a client called bob, from any address.\<close>

lemma bob_hello:
  "\<exists>m h. heap_wf h \<and> hello_msg (m\<lparr>nm_addr := a\<rparr>) h NET_PROTOCOL_VERSION ''bob'' \<and>
     NetFactory_CreateClientHelloPacket (Some ''bob'') heap0 = Inr (m, h)"
proof -
  have u: "is_c_string ''bob''" "length ''bob'' + 2 < MAX_PACKET_SIZE" "1 + length ''bob'' + 1 < MAX_PACKET_SIZE" "(1::nat) < length ''bob'' + 2"
    by (simp_all add: NUL_def MAX_PACKET_SIZE_def)
  obtain m h where m: "NetFactory_CreateClientHelloPacket (Some ''bob'') heap0 = Inr (m, h)" "msg_ok m h" "nm_read m = 0"
    "written m h = NET_PROTOCOL_VERSION # z_bytes ''bob''"
    using tagged_ok [OF heap_wf_heap0 _ u(4,3), of NETMSG_HELLO NET_PROTOCOL_VERSION] by (auto simp: client_hello_tagged)
  have "readable m h" "unread m h = NET_PROTOCOL_VERSION # z_bytes ''bob'' @ drop (nm_write m) (block_of m h)"
    using readable_new [OF m(2,3)] m(4) by simp_all
  then have "hello_msg (m\<lparr>nm_addr := a\<rparr>) h NET_PROTOCOL_VERSION ''bob''"
    using u(1) by (simp add: hello_msg_def readable_def unread_def block_of_def)
  then show ?thesis using m(1,2) by (auto simp: msg_ok_def)
qed

lemma env0_admits:
  assumes "n < 32" and "n \<le> a"
  shows "admitted env0 ((server_with n ph w)\<lparr>net_heap := h\<rparr>) (m\<lparr>nm_addr := a\<rparr>) NET_PROTOCOL_VERSION u"
proof -
  have "\<not> knows_ip ((server_with n ph w)\<lparr>net_heap := h\<rparr>) a"
    using assms joined_server_with [of n ph w] by (auto simp: knows_ip_def client_at_def MAX_CLIENTS_def)
  moreover have "f32_of_int (int n) = Fin (of_nat n)" using f32_of_int_exact [of "int n"] assms(1) by simp
  ultimately show ?thesis
    using assms(1) by (simp add: admitted_def env0_def f32_le_def server_with_def)
qed

theorem rejected_never_answered_witness:
  "\<exists>m h s'. hello_msg (m\<lparr>nm_addr := 9\<rparr>) h NET_PROTOCOL_VERSION ''bob'' \<and>
    ClientNew (env0\<lparr>max_players := Fin 1\<rparr>) (m\<lparr>nm_addr := 9\<rparr>) ((server_with 1 CLIENT_LETS_GO world0)\<lparr>net_heap := h\<rparr>) = Inr s' \<and>
    net_sent s' = [] \<and> numClients s' = 1"
proof -
  obtain m h where m: "heap_wf h" "hello_msg (m\<lparr>nm_addr := 9\<rparr>) h NET_PROTOCOL_VERSION ''bob''" using bob_hello by blast
  let ?s = "(server_with 1 CLIENT_LETS_GO world0)\<lparr>net_heap := h\<rparr>"
  have "server_wf ?s" using server_wf_heap [OF server_wf_with m(1)] by (simp add: MAX_CLIENTS_def)
  moreover have "hello_msg (m\<lparr>nm_addr := 9\<rparr>) (net_heap ?s) NET_PROTOCOL_VERSION ''bob''" using m(2) by simp
  moreover have "f32_of_int 1 = Fin 1" using f32_of_int_exact [of 1] by simp
  then have "\<not> admitted (env0\<lparr>max_players := Fin 1\<rparr>) ?s (m\<lparr>nm_addr := 9\<rparr>) NET_PROTOCOL_VERSION ''bob''"
    by (simp add: admitted_def f32_le_def server_with_def)
  ultimately obtain s' where "ClientNew (env0\<lparr>max_players := Fin 1\<rparr>) (m\<lparr>nm_addr := 9\<rparr>) ?s = Inr s'" "net_sent s' = net_sent ?s"
    "numClients s' = numClients ?s"
    using rejected_never_answered [of ?s "m\<lparr>nm_addr := 9\<rparr>" NET_PROTOCOL_VERSION "''bob''" "env0\<lparr>max_players := Fin 1\<rparr>"] by auto
  then show ?thesis using m(2) by (auto simp: server_with_def)
qed

theorem ClientNew_accepts_witness:
  "(\<exists>m h s'. ClientNew env0 (m\<lparr>nm_addr := 9\<rparr>) ((server_with 1 CLIENT_LETS_GO world0)\<lparr>net_heap := h\<rparr>) = Inr s' \<and>
      hello_msg (m\<lparr>nm_addr := 9\<rparr>) h NET_PROTOCOL_VERSION ''bob'' \<and> joined s' = [0, 1] \<and> length (net_sent s') = 2 \<and>
      c_str (cl_name (the (sv_objs s' 1))) = ip_name 9) \<and>
   (\<exists>m h. ClientNew env0 (m\<lparr>nm_addr := 9\<rparr>) ((server_with 2 CLIENT_LETS_GO world0)\<lparr>net_heap := h\<rparr>) = Inl UseAfterFree \<and>
      hello_msg (m\<lparr>nm_addr := 9\<rparr>) h NET_PROTOCOL_VERSION ''bob'')"
proof -
  obtain m h where m: "heap_wf h" "hello_msg (m\<lparr>nm_addr := 9\<rparr>) h NET_PROTOCOL_VERSION ''bob''" using bob_hello by blast
  have max: "1 \<le> MAX_CLIENTS" "2 \<le> MAX_CLIENTS" "[0..<1] = [0::nat]" "[0..<2] = [0, 1::nat]"
    by (simp_all add: MAX_CLIENTS_def upt_rec numeral_2_eq_2)
  have ip: "is_c_string (address_string env0 (nm_addr (m\<lparr>nm_addr := 9\<rparr>)))" "length (address_string env0 (nm_addr (m\<lparr>nm_addr := 9\<rparr>))) < CLIENT_IP_LENGTH"
    by (simp_all add: env0_def ip_name_def CLIENT_IP_LENGTH_def NUL_def is_c_string_def list_all_iff)
  have ip0: "address_string env0 = ip_name" "sv_fresh ((server_with 1 CLIENT_LETS_GO world0)\<lparr>net_heap := h\<rparr>) = 1"
    by (simp_all add: env0_def server_with_def)
  have pre: "server_wf ((server_with n CLIENT_LETS_GO world0)\<lparr>net_heap := h\<rparr>)"
    "hello_msg (m\<lparr>nm_addr := 9\<rparr>) (net_heap ((server_with n CLIENT_LETS_GO world0)\<lparr>net_heap := h\<rparr>)) NET_PROTOCOL_VERSION ''bob''"
    "admitted env0 ((server_with n CLIENT_LETS_GO world0)\<lparr>net_heap := h\<rparr>) (m\<lparr>nm_addr := 9\<rparr>) NET_PROTOCOL_VERSION ''bob''"
    "length (joined ((server_with n CLIENT_LETS_GO world0)\<lparr>net_heap := h\<rparr>)) < MAX_CLIENTS"
    if "n < 9" for n
    using that server_wf_heap [OF server_wf_with m(1), of n CLIENT_LETS_GO world0] m(2) env0_admits [of n 9]
      joined_server_with [of n CLIENT_LETS_GO world0]
    by (simp_all add: MAX_CLIENTS_def)
  have "\<exists>s'. ClientNew env0 (m\<lparr>nm_addr := 9\<rparr>) ((server_with 1 CLIENT_LETS_GO world0)\<lparr>net_heap := h\<rparr>) = Inr s' \<and>
      joined s' = [0, 1] \<and> length (net_sent s') = 2 \<and> c_str (cl_name (the (sv_objs s' 1))) = ip_name 9"
    using ClientNew_accepts [OF pre [of 1] ip] joined_server_with [OF max(1), of CLIENT_LETS_GO world0] max(3)
    by (auto simp: Let_def came_as_def ip0)
  moreover have "ClientNew env0 (m\<lparr>nm_addr := 9\<rparr>) ((server_with 2 CLIENT_LETS_GO world0)\<lparr>net_heap := h\<rparr>) = Inl UseAfterFree"
    using ClientNew_accepts [OF pre [of 2] ip] joined_server_with [OF max(2), of CLIENT_LETS_GO world0] max(4)
    by (simp add: Let_def)
  ultimately show ?thesis using m(2) by blast
qed


section \<open>Leaving\<close>

lemma TickDownloads_dangling:
  assumes "clients s ! 0 = Some c" and "sv_objs s c = None"
  shows "Server_TickNetwork env s = Inl UseAfterFree"
proof -
  have "[0..<MAX_CLIENTS] = 0 # [Suc 0..<MAX_CLIENTS]" by (simp add: MAX_CLIENTS_def upt_conv_Cons)
  then show ?thesis using assms by (simp add: Server_TickNetwork_def TickDownloads_def with_client_def)
qed

lemma ClientRemove_small:
  assumes "server_wf s" and "c \<in> set (joined s)" and "length (c_str (cl_name (the (sv_objs s c)))) < CLIENT_NAME_MAX"
    and "length (joined s) \<le> 2"
  shows "\<exists>s1. ClientRemove c s = Inr (s1\<lparr>sv_objs := (sv_objs s)(c := None), clients := (clients s)[length (joined s) - 1 := None],
      numClients := int (length (joined s)) - 1\<rparr>) \<and> heap_wf (net_heap s1) \<and> sv_fresh s1 = sv_fresh s"
proof -
  note wf = server_wf_joined [OF assms(1)]
  obtain cl where cl: "sv_objs s c = Some cl" using wf(5) [OF assms(2)] by auto
  have len: "length (c_str (cl_name cl)) < CLIENT_NAME_MAX" using assms(3) cl by simp
  obtain rpc h where rpc: "NetFactory_CreateRpcClientDelete (c_str (cl_name cl)) (net_heap s) = Inr (rpc, h)" "msg_ok rpc h" "0 < nm_size rpc"
    using rpc_name_ok(2) [OF wf(6) len] by blast
  let ?s1 = "s\<lparr>net_heap := h\<rparr>"
  have wf1: "server_wf ?s1" using server_wf_heap [OF assms(1)] rpc(2) by (simp add: msg_ok_def)
  let ?others = "filter (\<lambda>d. Some d \<noteq> Some c) (joined ?s1)"
  have "length ?others < length (joined s)"
    using assms(2) by (simp add: length_filter_less)
  then have "length ?others \<le> 1" using assms(4) by linarith
  then have "?others = [] \<or> (\<exists>d. ?others = [d])" by (cases ?others) auto
  then obtain s2 where s2: "Server_SendMessageToAll rpc (Some c) ?s1 = Inr s2" "s2 = ?s1 \<or> (\<exists>d. s2 = after_send rpc d ?s1)"
    using broadcast_cases [OF wf1 _ rpc(3), of "Some c"] rpc(2) by (auto; blast)
  have same: "clients s2 = clients s" "sv_objs s2 = sv_objs s" "numClients s2 = numClients s" "sv_fresh s2 = sv_fresh s" "heap_wf (net_heap s2)"
    using s2(2) rpc(2) by (auto simp: msg_ok_def heap_wf_def)
  have n: "0 < numClients s" "numClients s \<le> int MAX_CLIENTS" "nat (numClients s - 1) = length (joined s) - 1"
    using wf(2,3) assms(2) by (auto simp: length_pos_if_in_set nat_diff_distrib')
  have "ClientRemove c s = Inr (s2\<lparr>sv_objs := (sv_objs s)(c := None), clients := (clients s)[length (joined s) - 1 := None],
      numClients := int (length (joined s)) - 1\<rparr>)"
    using n wf(3) cl same s2(1) by (simp add: ClientRemove_def with_client_def make_msg_def rpc(1) Let_def)
  then show ?thesis using same by blast
qed

lemma ClientRemove_large:
  assumes "server_wf s" and "c \<in> set (joined s)" and "length (c_str (cl_name (the (sv_objs s c)))) < CLIENT_NAME_MAX"
    and "2 < length (joined s)"
  shows "ClientRemove c s = Inl UseAfterFree"
proof -
  note wf = server_wf_joined [OF assms(1)]
  obtain cl where cl: "sv_objs s c = Some cl" using wf(5) [OF assms(2)] by auto
  have len: "length (c_str (cl_name cl)) < CLIENT_NAME_MAX" using assms(3) cl by simp
  obtain rpc h where rpc: "NetFactory_CreateRpcClientDelete (c_str (cl_name cl)) (net_heap s) = Inr (rpc, h)" "msg_ok rpc h" "0 < nm_size rpc"
    using rpc_name_ok(2) [OF wf(6) len] by blast
  let ?s1 = "s\<lparr>net_heap := h\<rparr>"
  have wf1: "server_wf ?s1" using server_wf_heap [OF assms(1)] rpc(2) by (simp add: msg_ok_def)
  let ?others = "filter (\<lambda>d. Some d \<noteq> Some c) (joined ?s1)"
  have "?others = remove1 c (joined s)" using wf(4) by (simp add: distinct_remove1_removeAll removeAll_filter_not_eq) (metis)
  then have "2 \<le> length ?others" using assms(2,4) by (simp add: length_remove1)
  then obtain d e ds where "?others = d # e # ds" by (metis Suc_le_length_iff numeral_2_eq_2)
  then have "Server_SendMessageToAll rpc (Some c) ?s1 = Inl UseAfterFree"
    using broadcast_cases [OF wf1 _ rpc(3), of "Some c"] rpc(2) by simp
  then show ?thesis using cl by (simp add: ClientRemove_def with_client_def make_msg_def rpc(1))
qed

text \<open>
  What leaving does: only the last client of at most two leaves the array well-formed. When the first of two
  leaves, its object is freed but stays in the array while the other one, still connected, is dropped from
  it, and the next tick uses the freed object. With three clients or more, leaving itself uses freed memory.
\<close>

theorem ClientRemove_effect:
  assumes "server_wf s" and "c \<in> set (joined s)" and "length (c_str (cl_name (the (sv_objs s c)))) < CLIENT_NAME_MAX"
  shows "if 2 < length (joined s) then ClientRemove c s = Inl UseAfterFree
    else \<exists>s'. ClientRemove c s = Inr s' \<and> sv_objs s' c = None \<and>
      (if c = last (joined s) then server_wf s' \<and> joined s' = butlast (joined s)
       else Some c \<in> set (clients s') \<and> Some (last (joined s)) \<notin> set (clients s') \<and> sv_objs s' (last (joined s)) \<noteq> None \<and>
         (\<forall>env. Server_TickNetwork env s' = Inl UseAfterFree))"
proof (cases "2 < length (joined s)")
  case True
  then show ?thesis using ClientRemove_large [OF assms] by simp
next
  case False
  note wf = server_wf_joined [OF assms(1)]
  obtain s1 where s1: "ClientRemove c s = Inr (s1\<lparr>sv_objs := (sv_objs s)(c := None), clients := (clients s)[length (joined s) - 1 := None],
      numClients := int (length (joined s)) - 1\<rparr>)" "heap_wf (net_heap s1)" "sv_fresh s1 = sv_fresh s"
    using ClientRemove_small [OF assms] False by auto
  let ?s' = "s1\<lparr>sv_objs := (sv_objs s)(c := None), clients := (clients s)[length (joined s) - 1 := None],
      numClients := int (length (joined s)) - 1\<rparr>"
  have "joined s = [c] \<or> (\<exists>a. joined s = [a, c]) \<or> (\<exists>b. joined s = [c, b])"
    using False assms(2) by (cases "joined s"; cases "tl (joined s)") auto
  then consider (one) "joined s = [c]" | (second) a where "joined s = [a, c]" | (first) b where "joined s = [c, b]" by blast
  then show ?thesis
  proof cases
    case one
    then have "clients ?s' = map Some [] @ replicate MAX_CLIENTS None" using wf(1)
      by (simp add: MAX_CLIENTS_def replicate_Suc [symmetric] del: replicate_Suc)
    then have "server_wf ?s'" "joined ?s' = []"
      using one s1(2) joined_eq [of ?s' "[]"] by (auto simp: server_wf_def intro!: exI [of _ "[]"])
    then show ?thesis using s1(1) one by (intro if_not_P [THEN iffD2] exI [of _ ?s']) (simp_all)
  next
    case (second a)
    then have "clients ?s' = map Some [a] @ replicate (MAX_CLIENTS - 1) None" using wf(1)
      by (simp add: MAX_CLIENTS_def replicate_Suc [symmetric] del: replicate_Suc)
    then have "server_wf ?s'" "joined ?s' = [a]"
      using second s1(2,3) joined_eq [of ?s' "[a]"] wf(4,5) by (auto simp: server_wf_def MAX_CLIENTS_def intro!: exI [of _ "[a]"])
    then show ?thesis using s1(1) second by auto
  next
    case (first b)
    then have ne: "c \<noteq> b" and "clients ?s' = Some c # None # replicate (MAX_CLIENTS - 2) None" using wf(1,4) by auto
    then show ?thesis using s1(1) first wf(5) [of b] TickDownloads_dangling [of ?s' c] by auto
  qed
qed


theorem ClientRemove_effect_witness:
  "(\<exists>s'. ClientRemove 0 (server_with 2 CLIENT_LETS_GO world0) = Inr s' \<and> Some 0 \<in> set (clients s') \<and> sv_objs s' 0 = None \<and>
      Some 1 \<notin> set (clients s') \<and> Server_TickNetwork env0 s' = Inl UseAfterFree) \<and>
   (\<exists>s'. ClientRemove 1 (server_with 2 CLIENT_LETS_GO world0) = Inr s' \<and> server_wf s' \<and> joined s' = [0]) \<and>
   ClientRemove 1 (server_with 3 CLIENT_LETS_GO world0) = Inl UseAfterFree"
proof -
  have max: "2 \<le> MAX_CLIENTS" "3 \<le> MAX_CLIENTS" "[0..<2] = [0, 1::nat]" "[0..<3] = [0, 1, 2::nat]"
    by (simp_all add: MAX_CLIENTS_def upt_rec numeral_2_eq_2 numeral_3_eq_3)
  have nm: "length (c_str (cl_name (the (sv_objs (server_with n CLIENT_LETS_GO world0) c)))) < CLIENT_NAME_MAX" if "c < n" "c < 3" for c n
  proof -
    have ip: "is_c_string (ip_name c)" "length (ip_name c) < CLIENT_NAME_MAX"
      using that(2) by (simp_all add: ip_name_def CLIENT_NAME_MAX_def NUL_def is_c_string_def list_all_iff)
    then show ?thesis using that(1) by (simp add: client_at_def c_str_strncpy)
  qed
  note e2 = ClientRemove_effect [OF server_wf_with [OF max(1), of CLIENT_LETS_GO world0], unfolded joined_server_with [OF max(1)] max(3)]
  note e3 = ClientRemove_effect [OF server_wf_with [OF max(2), of CLIENT_LETS_GO world0], unfolded joined_server_with [OF max(2)] max(4)]
  show ?thesis using e2 [of 0] e2 [of 1] e3 [of 1] nm [of 0 2] nm [of 1 2] nm [of 1 3] by auto
qed

end
