(* ===== verification/Capy_Client.thy ===== *)
theory Capy_Client
  imports Capy_Server
begin

text \<open>
  \<open>net/client/\<close>: the client's connection to a server as a state machine, the download of the world, what the client
  knows of the other clients (told by remote calls), and its tick, frame and shutdown. What SDL_net answers
  (the resolved address, its status) and the port's convar are arguments.
\<close>

section \<open>Data\<close>

datatype client_state = CLIENT_UNCONNECTED | CLIENT_RESOLVING_ADDRESS | CLIENT_CONNECTING | CLIENT_CONNECTED
  | CLIENT_DISCONNECTING | CLIENT_DISCONNECTED | CLIENT_SHUTTING_DOWN | CLIENT_DEAD | CLIENT_FATAL

datatype address_status = NET_FAILURE | NET_WAITING | NET_SUCCESS

text \<open>The other clients are objects of which only the name is set.\<close>

record client = net_mode +
  others :: "nat option list"
  numOthers :: int
  ct_objs :: "nat \<Rightarrow> char list option"
  ct_fresh :: nat
  ct_name :: "char list"
  serverAddress :: "nat option"
  ct_state :: client_state
  ct_phase :: connect_phase
  ct_progress :: nat
  ct_world :: world

definition Client_GetState :: "client \<Rightarrow> client_state" where "Client_GetState s = ct_state s"

definition Client_SetState :: "client_state \<Rightarrow> client \<Rightarrow> client" where "Client_SetState st s = s\<lparr>ct_state := st\<rparr>"

section \<open>Sending\<close>

text \<open>A datagram to a null address is not sent, but the message is done all the same.\<close>

definition Client_SendMessage :: "f32 \<Rightarrow> net_msg \<Rightarrow> client \<Rightarrow> client res" where
  "Client_SendMessage portv m s =
     bind_res (f32_to_u16 portv) (\<lambda>port.
       case serverAddress s of
         Some a \<Rightarrow> SendMessageToPort m a (of_int port) s
       | None \<Rightarrow> map_res (\<lambda>t. t\<lparr>net_sent := net_sent s\<rparr>) (SendMessageToPort m 0 (of_int port) s))"

section \<open>Connecting\<close>

definition Client_Connect :: "string \<Rightarrow> nat option \<Rightarrow> client \<Rightarrow> client" where
  "Client_Connect playerName resolved s =
     (let s = s\<lparr>ct_name := strncpy (ct_name s) playerName CLIENT_NAME_MAX\<rparr>;
          s = Client_SetState CLIENT_RESOLVING_ADDRESS s;
          s = s\<lparr>serverAddress := resolved\<rparr>
      in if resolved = None then Client_SetState CLIENT_FATAL s else s)"

definition Client_Disconnect :: "f32 \<Rightarrow> client \<Rightarrow> client res" where
  "Client_Disconnect portv s =
     bind_res (make_msg NetFactory_CreateDisconnectPacket s) (\<lambda>(m, s). Client_SendMessage portv m s)"

text \<open>A chunk is copied to where the download has got to, whatever its size.\<close>

definition store_chunk :: "net_msg \<Rightarrow> client \<Rightarrow> world res" where
  "store_chunk m s =
     (let n = nm_size m; p = ct_progress s; w = ct_world s
      in if n = 0 then Inr w
         else case (nm_data m, tileData w) of
             (Some a, Some ts) \<Rightarrow>
               bind_res (read_block a 0 n (net_heap s)) (\<lambda>bs.
                 if length ts < p + n then Inl OutOfBoundsWrite
                 else Inr (w\<lparr>tileData := Some (take p ts @ bs @ drop (p + n) ts)\<rparr>))
           | _ \<Rightarrow> Inl NullDeref)"

definition ConnectDownloadWorldChunk :: "net_msg option \<Rightarrow> client \<Rightarrow> client res" where
  "ConnectDownloadWorldChunk msg s =
     (case msg of None \<Rightarrow> Inr s
      | Some m \<Rightarrow>
          if h_type (nm_header m) \<noteq> NETMSG_WORLD_DOWNLOAD_PACKET then Inr s
          else let totalBytes = GetSizeInBytes (ct_world s)
               in map_res (\<lambda>w. let s = s\<lparr>ct_world := w, ct_progress := ct_progress s + nm_size m\<rparr>
                    in if totalBytes \<le> ct_progress s then s\<lparr>ct_phase := CLIENT_LETS_GO\<rparr> else s)
                  (store_chunk m s))"

definition vec2_of_words :: "u32 \<times> u32 \<Rightarrow> int vec2" where
  "vec2_of_words v = \<lparr>vx = sint (fst v), vy = sint (snd v)\<rparr>"

definition TickNetworkConnecting :: "f32 \<Rightarrow> (nat \<Rightarrow> byte) \<Rightarrow> net_msg option \<Rightarrow> client \<Rightarrow> client res" where
  "TickNetworkConnecting portv junk msg s =
     (case ct_phase s of
        CLIENT_HELLO \<Rightarrow>
          if NUL \<notin> set (ct_name s) then Inl OutOfBoundsRead
          else bind_res (make_msg (NetFactory_CreateClientHelloPacket (Some (c_str (ct_name s)))) s) (\<lambda>(m, s).
               map_res (\<lambda>s. s\<lparr>ct_phase := CLIENT_HELLO_SENT\<rparr>) (Client_SendMessage portv m s))
      | CLIENT_HELLO_SENT \<Rightarrow>
          (case msg of None \<Rightarrow> Inr s
           | Some m \<Rightarrow>
               if h_type (nm_header m) \<noteq> NETMSG_SERVER_HELLO then Inr s
               else map_res (\<lambda>(bs, m). if u8_dec bs = hello_byte HELLO_OK then s\<lparr>ct_phase := CLIENT_DOWNLOAD_WORLD\<rparr>
                               else Client_SetState CLIENT_UNCONNECTED s)
                    (NetMsg_Read 1 m (net_heap s)))
      | CLIENT_DOWNLOAD_WORLD \<Rightarrow>
          bind_res (make_msg NetFactory_CreateDownloadStartPacket_Client s) (\<lambda>(m, s).
            map_res (\<lambda>s. s\<lparr>ct_phase := CLIENT_DOWNLOAD_WORLD_SENT\<rparr>) (Client_SendMessage portv m s))
      | CLIENT_DOWNLOAD_WORLD_SENT \<Rightarrow>
          (case msg of None \<Rightarrow> Inr s
           | Some m \<Rightarrow>
               bind_res (NetMsg_Read_string m (net_heap s)) (\<lambda>(_, mapName, m).
               bind_res (NetMsg_Read 8 m (net_heap s)) (\<lambda>(mapSize, m).
               bind_res (NetMsg_Read 4 m (net_heap s)) (\<lambda>(expectedMapBytes, m).
                 Inr (s\<lparr>ct_world := World_Init junk (vec2_of_words (vec_dec mapSize)) (ct_world s),
                        ct_phase := CLIENT_DOWNLOADING_WORLD\<rparr>)))))
      | CLIENT_DOWNLOADING_WORLD \<Rightarrow> ConnectDownloadWorldChunk msg s
      | CLIENT_LETS_GO \<Rightarrow> Inr (Client_SetState CLIENT_CONNECTED s)
      | _ \<Rightarrow> Inr s)"

section \<open>Remote calls\<close>

definition OnRpcClientCreate :: "net_msg \<Rightarrow> client \<Rightarrow> client res" where
  "OnRpcClientCreate m s =
     (if int MAX_CLIENTS < numOthers s then Inl AssertFailed
      else if numOthers s = int MAX_CLIENTS then Inr s
      else bind_res (NetMsg_Read_string m (net_heap s)) (\<lambda>(_, username, m).
        if numOthers s < 0 then Inl OutOfBoundsWrite
        else let c = ct_fresh s
             in Inr (s\<lparr>ct_objs := (ct_objs s)(c \<mapsto> strncpy (replicate CLIENT_NAME_MAX NUL) username CLIENT_NAME_MAX), ct_fresh := c + 1,
                       others := (others s)[nat (numOthers s) := Some c], numOthers := numOthers s + 1\<rparr>)))"

text \<open>One turn of the search for the client that left; the slot that is cleared is the one after the last.\<close>

definition rpc_delete_slot :: "string \<Rightarrow> nat \<Rightarrow> bool \<times> client \<Rightarrow> (bool \<times> client) res" where
  "rpc_delete_slot username i = (\<lambda>(found, s).
     case others s ! i of
       None \<Rightarrow> Inr (found, s)
     | Some c \<Rightarrow>
         (case ct_objs s c of
            None \<Rightarrow> Inl UseAfterFree
          | Some nm \<Rightarrow>
              if strneq (c_str nm) username CLIENT_NAME_MAX
              then Inr (True, s\<lparr>ct_objs := (ct_objs s)(c := None), others := (others s)[nat (numOthers s) := None]\<rparr>)
              else Inr (found, s)))"

definition OnRpcClientDelete :: "net_msg \<Rightarrow> client \<Rightarrow> client res" where
  "OnRpcClientDelete m s =
     (if numOthers s < 0 then Inl AssertFailed
      else if numOthers s = int MAX_CLIENTS then Inr s
      else bind_res (NetMsg_Read_string m (net_heap s)) (\<lambda>(_, username, m).
        map_res (\<lambda>(found, s). if found then s\<lparr>numOthers := numOthers s - 1\<rparr> else s)
          (fold_res (rpc_delete_slot username) [0..<MAX_CLIENTS] (False, s))))"

text \<open>An unknown call is a null pointer in the table of methods, and is called.\<close>

definition OnRpcReceive :: "net_msg \<Rightarrow> client \<Rightarrow> client res" where
  "OnRpcReceive m s =
     bind_res (NetMsg_Read 1 m (net_heap s)) (\<lambda>(bs, m).
       if u8_dec bs = NETMSG_RPC_REQUEST_CLIENT_CREATE then OnRpcClientCreate m s
       else if u8_dec bs = NETMSG_RPC_REQUEST_CLIENT_DELETE then OnRpcClientDelete m s
       else Inl NullCall)"

section \<open>The tick\<close>

definition TickNetworkConnected :: "net_msg option \<Rightarrow> client \<Rightarrow> client res" where
  "TickNetworkConnected msg s =
     (case msg of None \<Rightarrow> Inr s
      | Some m \<Rightarrow> if h_type (nm_header m) = NETMSG_SERVER_RPC then OnRpcReceive m s else Inr s)"

text \<open>The variable that the sender's address is compared into hides the one that is tested: no message is
  dropped for its sender.\<close>

definition Client_TickNetwork :: "f32 \<Rightarrow> (nat \<Rightarrow> byte) \<Rightarrow> client \<Rightarrow> client res" where
  "Client_TickNetwork portv junk s =
     (let (msg, s) = GetMessage s; dontCare = False in
      if dontCare then Inr s
      else if (case msg of None \<Rightarrow> False | Some m \<Rightarrow> h_type (nm_header m) = NETMSG_SERVER_SHUTDOWN) then
        map_res (\<lambda>s. if ct_state s \<noteq> CLIENT_SHUTTING_DOWN then Client_SetState CLIENT_DISCONNECTED s else s)
          (Client_Disconnect portv s)
      else bind_res (case ct_state s of
               CLIENT_CONNECTING \<Rightarrow> TickNetworkConnecting portv junk msg s
             | CLIENT_CONNECTED \<Rightarrow> TickNetworkConnected msg s
             | _ \<Rightarrow> Inr s)
           (\<lambda>s. case msg of None \<Rightarrow> Inr s | Some m \<Rightarrow> done_msg m s))"

text \<open>Without the renderer, which is modelled with the engine.\<close>

definition Client_Shutdown :: "f32 \<Rightarrow> client \<Rightarrow> client res" where
  "Client_Shutdown portv s =
     map_res (Client_SetState CLIENT_DEAD)
       (if ct_state s = CLIENT_CONNECTING \<or> ct_state s = CLIENT_CONNECTED then Client_Disconnect portv s else Inr s)"

definition Client_Tick :: "f32 \<Rightarrow> (nat \<Rightarrow> byte) \<Rightarrow> address_status \<Rightarrow> client \<Rightarrow> client res" where
  "Client_Tick portv junk status s =
     (case ct_state s of
        CLIENT_RESOLVING_ADDRESS \<Rightarrow>
          (case status of
             NET_FAILURE \<Rightarrow> Inr (Client_SetState CLIENT_FATAL s)
           | NET_SUCCESS \<Rightarrow> Inr ((Client_SetState CLIENT_CONNECTING s)\<lparr>ct_phase := CLIENT_HELLO\<rparr>)
           | NET_WAITING \<Rightarrow> Inr s)
      | CLIENT_CONNECTING \<Rightarrow> Client_TickNetwork portv junk s
      | CLIENT_CONNECTED \<Rightarrow> Client_TickNetwork portv junk s
      | CLIENT_SHUTTING_DOWN \<Rightarrow> Client_Shutdown portv s
      | CLIENT_FATAL \<Rightarrow> Client_Shutdown portv s
      | _ \<Rightarrow> Inr s)"

text \<open>A frame of a connected client draws its world into the texture.\<close>

definition Client_Frame ::
    "nat \<Rightarrow> nat \<Rightarrow> nat \<Rightarrow> bool \<times> datagram option \<Rightarrow> client \<times> bool \<times> nat list \<Rightarrow> (client \<times> bool \<times> nat list) res" where
  "Client_Frame screenX screenY pitch received = (\<lambda>(s, locked, tex).
     bind_res (NetMode_Frame received s) (\<lambda>s.
       if ct_state s = CLIENT_CONNECTED
       then map_res (\<lambda>(l, tex). (s, l, tex)) (Render screenX screenY pitch (ct_world s) tex)
       else Inr (s, locked, tex)))"


section \<open>A fresh client\<close>

definition client0 :: "connect_phase \<Rightarrow> world \<Rightarrow> client" where
  "client0 ph w =
     \<lparr>net_heap = heap0, netBuffer = netBuffer net0, netBufferPtr = -1, seqNumber = 0, net_sent = [],
      others = replicate MAX_CLIENTS None, numOthers = 0, ct_objs = Map.empty, ct_fresh = 0,
      ct_name = replicate CLIENT_NAME_MAX NUL, serverAddress = None, ct_state = CLIENT_CONNECTING, ct_phase = ph,
      ct_progress = 0, ct_world = w\<rparr>"

lemma client0_net [simp]: "nb_ok (client0 ph w)" "netBufferPtr (client0 ph w) = -1" "net_heap (client0 ph w) = heap0"
  by (simp_all add: client0_def nb_ok_def net0_def NET_BUFFER_SIZE_def)


section \<open>What a connected client knows\<close>

text \<open>The fields of the connection, which sending, receiving and remote calls leave alone.\<close>

definition conn :: "client \<Rightarrow> client_state \<times> connect_phase \<times> nat \<times> world" where
  "conn s = (ct_state s, ct_phase s, ct_progress s, ct_world s)"

lemma conn_update [simp]:
  "conn (s\<lparr>net_heap := h\<rparr>) = conn s" "conn (s\<lparr>net_sent := x\<rparr>) = conn s" "conn (s\<lparr>seqNumber := k\<rparr>) = conn s"
  "conn (s\<lparr>netBuffer := b\<rparr>) = conn s" "conn (s\<lparr>netBufferPtr := p\<rparr>) = conn s"
  "conn (s\<lparr>others := os\<rparr>) = conn s" "conn (s\<lparr>numOthers := n\<rparr>) = conn s" "conn (s\<lparr>ct_objs := ob\<rparr>) = conn s" "conn (s\<lparr>ct_fresh := f\<rparr>) = conn s"
  by (simp_all add: conn_def)

lemma make_msg_conn: "make_msg f s = Inr (m, t) \<Longrightarrow> conn t = conn s"
  by (auto simp: make_msg_def map_res_def bind_res_eq_Inr)

lemma SendMessageToPort_conn: "SendMessageToPort m a p s = Inr t \<Longrightarrow> conn t = conn s"
  by (auto simp: SendMessageToPort_def bind_res_eq_Inr)

lemma Client_SendMessage_conn: "Client_SendMessage portv m s = Inr t \<Longrightarrow> conn t = conn s"
  by (auto simp: Client_SendMessage_def bind_res_eq_Inr map_res_def dest: SendMessageToPort_conn split: option.splits)

lemma done_msg_conn: "done_msg m s = Inr t \<Longrightarrow> conn t = conn s"
  by (auto simp: done_msg_def map_res_def bind_res_eq_Inr)

lemma GetMessage_conn: "conn (snd (GetMessage s)) = conn s"
  by (simp add: GetMessage_def)

lemma NetMode_Frame_conn: "NetMode_Frame r s = Inr t \<Longrightarrow> conn t = conn s"
  by (cases r; cases "fst r"; cases "snd r")
     (auto simp: NetMode_Frame_def GetAllIncomingMessages_def Let_def bind_res_eq_Inr split: if_splits)

lemma Client_Disconnect_conn: "Client_Disconnect portv s = Inr t \<Longrightarrow> conn t = conn s"
  by (auto simp: Client_Disconnect_def bind_res_eq_Inr dest!: make_msg_conn Client_SendMessage_conn)

lemma rpc_delete_slots_conn: "fold_res (rpc_delete_slot u) xs (b, s) = Inr (b', t) \<Longrightarrow> conn t = conn s"
  by (induction xs arbitrary: b s)
     (auto simp: bind_res_eq_Inr rpc_delete_slot_def split: option.splits if_splits)

lemma OnRpcReceive_conn: "OnRpcReceive m s = Inr t \<Longrightarrow> conn t = conn s"
  by (auto simp: OnRpcReceive_def OnRpcClientCreate_def OnRpcClientDelete_def bind_res_eq_Inr map_res_def Let_def
      dest!: rpc_delete_slots_conn split: if_splits)

lemmas conn_keeps = make_msg_conn Client_SendMessage_conn done_msg_conn NetMode_Frame_conn Client_Disconnect_conn OnRpcReceive_conn

text \<open>A client that is connected has had a whole world's worth of bytes.\<close>

definition client_inv :: "client \<Rightarrow> bool" where
  "client_inv s \<longleftrightarrow> (ct_state s = CLIENT_CONNECTED \<longrightarrow> ct_phase s = CLIENT_LETS_GO) \<and>
     (ct_phase s = CLIENT_LETS_GO \<longrightarrow> GetSizeInBytes (ct_world s) \<le> ct_progress s)"

lemma client_inv_conn: "conn t = conn s \<Longrightarrow> client_inv t = client_inv s"
  by (simp add: client_inv_def conn_def)

lemma store_chunk_header: "store_chunk m s = Inr w \<Longrightarrow> w_header w = w_header (ct_world s)"
  by (auto simp: store_chunk_def Let_def bind_res_eq_Inr split: if_splits option.splits)

lemma ConnectDownloadWorldChunk_inv:
  assumes "ConnectDownloadWorldChunk msg s = Inr t" and "ct_phase s = CLIENT_DOWNLOADING_WORLD" and "ct_state s = CLIENT_CONNECTING"
  shows "client_inv t \<and> ct_state t = CLIENT_CONNECTING"
proof (cases "\<exists>m. msg = Some m \<and> h_type (nm_header m) = NETMSG_WORLD_DOWNLOAD_PACKET")
  case True
  then obtain m w where "store_chunk m s = Inr w" and t: "t = (let s' = s\<lparr>ct_world := w, ct_progress := ct_progress s + nm_size m\<rparr>
      in if GetSizeInBytes (ct_world s) \<le> ct_progress s' then s'\<lparr>ct_phase := CLIENT_LETS_GO\<rparr> else s')"
    using assms(1) by (auto simp: ConnectDownloadWorldChunk_def map_res_def bind_res_eq_Inr Let_def)
  then have "GetSizeInBytes w = GetSizeInBytes (ct_world s)" by (simp add: GetSizeInBytes_def store_chunk_header)
  then show ?thesis using assms(2,3) t by (auto simp: client_inv_def Let_def)
next
  case False
  then have "t = s" using assms(1) by (cases msg) (auto simp: ConnectDownloadWorldChunk_def)
  then show ?thesis using assms(2,3) by (simp add: client_inv_def)
qed

lemma TickNetworkConnecting_inv:
  assumes "TickNetworkConnecting portv junk msg s = Inr t" and "client_inv s" and "ct_state s = CLIENT_CONNECTING"
  shows "client_inv t"
proof (cases "ct_phase s")
  case CLIENT_HELLO
  then obtain m s1 s2 where "make_msg (NetFactory_CreateClientHelloPacket (Some (c_str (ct_name s)))) s = Inr (m, s1)"
    "Client_SendMessage portv m s1 = Inr s2" "t = s2\<lparr>ct_phase := CLIENT_HELLO_SENT\<rparr>"
    using assms(1) by (auto simp: TickNetworkConnecting_def bind_res_eq_Inr map_res_def split: if_splits)
  then show ?thesis using assms(3) conn_keeps(1,2) by (fastforce simp: client_inv_def conn_def)
next
  case CLIENT_DOWNLOAD_WORLD
  then obtain m s1 s2 where "make_msg NetFactory_CreateDownloadStartPacket_Client s = Inr (m, s1)"
    "Client_SendMessage portv m s1 = Inr s2" "t = s2\<lparr>ct_phase := CLIENT_DOWNLOAD_WORLD_SENT\<rparr>"
    using assms(1) by (auto simp: TickNetworkConnecting_def bind_res_eq_Inr map_res_def)
  then show ?thesis using assms(3) conn_keeps(1,2) by (fastforce simp: client_inv_def conn_def)
next
  case CLIENT_DOWNLOADING_WORLD
  then have "ConnectDownloadWorldChunk msg s = Inr t" using assms(1) by (simp add: TickNetworkConnecting_def)
  then show ?thesis using ConnectDownloadWorldChunk_inv CLIENT_DOWNLOADING_WORLD assms(3) by blast
qed (use assms in \<open>auto simp: TickNetworkConnecting_def client_inv_def Client_SetState_def bind_res_eq_Inr map_res_def
      split: option.splits if_splits\<close>)


section \<open>Runs of a client\<close>

text \<open>What can happen to a client, in any order: the engine connects it, ticks it, and runs a frame that receives a
  datagram from anyone.\<close>

datatype client_event =
    ClientConnect string "nat option"
  | ClientTick f32 "nat \<Rightarrow> byte" address_status
  | ClientFrame nat nat nat bool "nat list" "bool \<times> datagram option"

fun client_do :: "client_event \<Rightarrow> client \<Rightarrow> client res" where
  "client_do (ClientConnect nm a) s = Inr (Client_Connect nm a s)"
| "client_do (ClientTick portv junk st) s = Client_Tick portv junk st s"
| "client_do (ClientFrame x y p l tex r) s = map_res fst (Client_Frame x y p r (s, l, tex))"

inductive client_step :: "client \<Rightarrow> client \<Rightarrow> bool" where
  client_step: "client_do e s = Inr t \<Longrightarrow> client_step s t"

inductive_cases client_stepE: "client_step s t"

lemma client_run_steps: "fold_res client_do es s = Inr t \<Longrightarrow> client_step\<^sup>*\<^sup>* s t"
  by (induction es arbitrary: s) (auto simp: bind_res_eq_Inr intro: converse_rtranclp_into_rtranclp client_step)

text \<open>The client as \<open>Client_Init\<close> leaves it.\<close>

definition client_start :: "client \<Rightarrow> bool" where
  "client_start s \<longleftrightarrow> ct_state s = CLIENT_UNCONNECTED \<and> ct_phase s = CLIENT_HELLO \<and> ct_progress s = 0"

lemma client_inv_start: "client_start s \<Longrightarrow> client_inv s"
  by (simp add: client_start_def client_inv_def)

lemma client_inv_leave: "client_inv s \<Longrightarrow> st \<noteq> CLIENT_CONNECTED \<Longrightarrow> client_inv (Client_SetState st s)"
  by (simp add: client_inv_def Client_SetState_def)

lemma Client_Connect_inv: "client_inv s \<Longrightarrow> client_inv (Client_Connect nm a s)"
  by (auto simp: client_inv_def Client_Connect_def Client_SetState_def Let_def)

lemma client_inv_keep: "client_inv s \<Longrightarrow> conn t = conn s \<Longrightarrow> client_inv t"
  by (simp add: client_inv_conn [of t s])

lemma Client_Disconnect_inv: "Client_Disconnect portv s = Inr t \<Longrightarrow> client_inv s \<Longrightarrow> client_inv t"
  by (rule client_inv_keep, assumption, rule Client_Disconnect_conn)

lemma done_msg_inv: "done_msg m s = Inr t \<Longrightarrow> client_inv s \<Longrightarrow> client_inv t"
  by (rule client_inv_keep, assumption, rule done_msg_conn)

lemma OnRpcReceive_inv: "OnRpcReceive m s = Inr t \<Longrightarrow> client_inv s \<Longrightarrow> client_inv t"
  by (rule client_inv_keep, assumption, rule OnRpcReceive_conn)

lemma NetMode_Frame_inv: "NetMode_Frame r s = Inr t \<Longrightarrow> client_inv s \<Longrightarrow> client_inv t"
  by (rule client_inv_keep, assumption, rule NetMode_Frame_conn)

lemma TickNetworkConnected_inv: "TickNetworkConnected msg s = Inr t \<Longrightarrow> client_inv s \<Longrightarrow> client_inv t"
  by (auto simp: TickNetworkConnected_def dest: OnRpcReceive_inv split: option.splits if_splits)

lemma Client_TickNetwork_inv:
  assumes "Client_TickNetwork portv junk s = Inr t" and "client_inv s"
  shows "client_inv t"
proof -
  obtain msg u where g: "GetMessage s = (msg, u)" by (cases "GetMessage s")
  have u: "client_inv u" using GetMessage_conn [of s] g assms(2) client_inv_conn [of u s] by simp
  show ?thesis
  proof (cases "case msg of None \<Rightarrow> False | Some m \<Rightarrow> h_type (nm_header m) = NETMSG_SERVER_SHUTDOWN")
    case True
    then obtain v where "Client_Disconnect portv u = Inr v"
      "t = (if ct_state v \<noteq> CLIENT_SHUTTING_DOWN then Client_SetState CLIENT_DISCONNECTED v else v)"
      using assms(1) g by (auto simp: Client_TickNetwork_def map_res_def bind_res_eq_Inr)
    then show ?thesis by (auto intro: client_inv_leave Client_Disconnect_inv [OF _ u])
  next
    case False
    then obtain v where v: "(case ct_state u of CLIENT_CONNECTING \<Rightarrow> TickNetworkConnecting portv junk msg u
             | CLIENT_CONNECTED \<Rightarrow> TickNetworkConnected msg u | _ \<Rightarrow> Inr u) = Inr v"
      "(case msg of None \<Rightarrow> Inr v | Some m \<Rightarrow> done_msg m v) = Inr t"
      using assms(1) g by (auto simp: Client_TickNetwork_def bind_res_eq_Inr)
    then have "client_inv v"
      using TickNetworkConnecting_inv [OF _ u] TickNetworkConnected_inv [OF _ u] u by (cases "ct_state u") auto
    then show ?thesis using v(2) by (cases msg) (auto dest: done_msg_inv)
  qed
qed

lemma Client_Shutdown_inv: "Client_Shutdown portv s = Inr t \<Longrightarrow> client_inv s \<Longrightarrow> client_inv t"
  by (auto simp: Client_Shutdown_def map_res_def bind_res_eq_Inr split: if_splits
      intro!: client_inv_leave dest: Client_Disconnect_inv)

lemma Client_Tick_inv: "Client_Tick portv junk st s = Inr t \<Longrightarrow> client_inv s \<Longrightarrow> client_inv t"
  by (auto simp: Client_Tick_def client_inv_leave intro: Client_TickNetwork_inv Client_Shutdown_inv
      split: client_state.splits address_status.splits)
    (auto simp: client_inv_def Client_SetState_def)

lemma Client_Frame_inv: "Client_Frame x y p r (s, l, tex) = Inr (t, l', tex') \<Longrightarrow> client_inv s \<Longrightarrow> client_inv t"
  by (auto simp: Client_Frame_def bind_res_eq_Inr map_res_def dest: NetMode_Frame_inv split: if_splits)

lemma client_do_inv: "client_do e s = Inr t \<Longrightarrow> client_inv s \<Longrightarrow> client_inv t"
  by (cases e) (auto simp: map_res_def bind_res_eq_Inr Client_Connect_inv dest: Client_Tick_inv Client_Frame_inv)

interpretation cm: kept_invariant client_start client_step client_inv
  by unfold_locales (auto intro: client_inv_start elim!: client_stepE dest: client_do_inv)

end
