(* ===== verification/Capy_Download.thy ===== *)
theory Capy_Download
  imports Capy_Client
begin

text \<open>
  The download of the world, from both ends: what the server's chunks add up to, and that the client which takes
  them in order ends up with the server's tiles.
\<close>

section \<open>The world download\<close>

text \<open>A client's download in progress: the tiles are all there, and it has had the first \<open>p\<close> of them.\<close>

definition downloading :: "server \<Rightarrow> nat \<Rightarrow> byte list \<Rightarrow> nat \<Rightarrow> bool" where
  "downloading s c ts p \<longleftrightarrow> heap_wf (net_heap s) \<and> tileData (sv_world s) = Some ts \<and> GetSizeInBytes (sv_world s) = length ts \<and>
     length ts < 2 ^ 63 \<and> p < length ts \<and>
     (\<exists>cl. sv_objs s c = Some cl \<and> cl_downloadProgress cl = p \<and> cl_connectPhase cl = CLIENT_DOWNLOADING_WORLD)"

definition chunk_at :: "byte list \<Rightarrow> nat \<Rightarrow> byte list" where
  "chunk_at ts p = take MAX_PACKET_SIZE (drop p ts)"

lemma length_chunk_at: "length (chunk_at ts p) = min (length ts - p) MAX_PACKET_SIZE"
  by (simp add: chunk_at_def min.commute)

lemma take_length_take: "take (length (take k xs)) xs = take k xs"
  by (cases "length xs \<le> k") simp_all

text \<open>One chunk: the datagram, and the client's object afterwards.\<close>

lemma ClientSendWorldChunk_ok:
  assumes "downloading s c ts p"
  defines "cl \<equiv> the (sv_objs s c)" and "q \<equiv> p + length (chunk_at ts p)"
  shows "\<exists>s' hd. ClientSendWorldChunk c s = Inr s' \<and> heap_wf (net_heap s') \<and>
    h_type hd = NETMSG_WORLD_DOWNLOAD_PACKET \<and> h_size hd = length (chunk_at ts p) \<and> h_magic hd = NETMSG_MAGIC \<and> length (h_pad hd) = 7 \<and>
    net_sent s' = net_sent s @ [(cl_address cl, cl_port cl, net_header_enc hd @ chunk_at ts p)] \<and>
    clients s' = clients s \<and> numClients s' = numClients s \<and> sv_fresh s' = sv_fresh s \<and> sv_world s' = sv_world s \<and>
    sv_state s' = sv_state s \<and> netBufferPtr s' = netBufferPtr s \<and>
    sv_objs s' = (sv_objs s)(c \<mapsto> cl\<lparr>cl_downloadProgress := q,
      cl_connectPhase := (if length ts \<le> q then CLIENT_LETS_GO else CLIENT_DOWNLOADING_WORLD)\<rparr>)"
proof -
  let ?n = "length (chunk_at ts p)" and ?bs = "chunk_at ts p" and ?h = "net_heap s"
  have d: "heap_wf ?h" "tileData (sv_world s) = Some ts" "GetSizeInBytes (sv_world s) = length ts" "length ts < 2 ^ 63" "p < length ts"
    and cl: "sv_objs s c = Some cl" "cl_downloadProgress cl = p" "cl_connectPhase cl = CLIENT_DOWNLOADING_WORLD"
    using assms(1) by (auto simp: downloading_def cl_def)
  have n: "0 < ?n" "?n \<le> MAX_PACKET_SIZE" "p + ?n \<le> length ts"
    using d(5) by (auto simp: length_chunk_at MAX_PACKET_SIZE_def)
  have "0 \<le> int (length ts) - int p" "int (length ts) - int p < 2 ^ 64" using d(4,5) by simp_all
  then have "(int (length ts) - int p) mod 2 ^ 64 = int (length ts) - int p" by (rule mod_pos_pos_trivial)
  then have rem: "nat ((int (length ts) - int p) mod 2 ^ 64) = length ts - p" by linarith
  then have sz: "(if nat ((int (length ts) - int p) mod 2 ^ 64) < MAX_PACKET_SIZE then nat ((int (length ts) - int p) mod 2 ^ 64) else MAX_PACKET_SIZE) = ?n"
    by (simp add: length_chunk_at)
  obtain m h1 where m: "NetMsg_new NETMSG_WORLD_DOWNLOAD_PACKET ?n ?h = Inr (m, h1)" "msg_ok m h1" "nm_write m = 0" "nm_size m = ?n"
    "h_magic (nm_header m) = NETMSG_MAGIC" "h_type (nm_header m) = NETMSG_WORLD_DOWNLOAD_PACKET"
    using NetMsg_new_ok [OF d(1) n(1,2), of NETMSG_WORLD_DOWNLOAD_PACKET] by blast
  have set: "set_size ?n m = m" using m(4) n(2) by (simp add: set_size_def MAX_PACKET_SIZE_def)
  obtain a b where a: "nm_data m = Some a" "blocks h1 a = Some b" "length b = ?n" using m(2,4) by (auto simp: msg_ok_def)
  let ?h2 = "h1\<lparr>blocks := (blocks h1)(a \<mapsto> ?bs)\<rparr>"
  have w: "write_block a 0 ?bs h1 = Inr ?h2" using a by (simp add: write_block_def)
  have tc: "tile_chunk (sv_world s) p ?n = Inr ?bs"
    using n d(2) take_length_take [of MAX_PACKET_SIZE "drop p ts", folded chunk_at_def]
    by (simp add: tile_chunk_def del: length_chunk_at)
  let ?s2 = "s\<lparr>net_heap := ?h2\<rparr>"
  have ok2: "msg_ok m ?h2" "heap_wf ?h2" using m(2,3,4) a heap_wf_write [OF _ w] by (auto simp: msg_ok_def)
  let ?s3 = "after_send m cl ?s2"
  have "Server_SendMessage m c ?s2 = Inr ?s3"
    using Server_SendMessage_ok [of m ?s2 c cl] ok2(1) m(4) n(1) cl(1) by simp
  moreover have "make_msg (NetFactory_CreateDownloadPacket ?n) s = Inr (m, s\<lparr>net_heap := h1\<rparr>)"
    by (simp only: make_msg_def NetFactory_CreateDownloadPacket_def m(1) map_res_simps split_conv)
  ultimately have "ClientSendWorldChunk c s = Inr (?s3\<lparr>sv_objs := (sv_objs s)(c \<mapsto>
      (if length ts \<le> q then cl\<lparr>cl_downloadProgress := q, cl_connectPhase := CLIENT_LETS_GO\<rparr> else cl\<lparr>cl_downloadProgress := q\<rparr>))\<rparr>)"
    unfolding ClientSendWorldChunk_def with_client_def cl(1) option.case Let_def d(3) cl(2) sz
    using n(1) a(1) w tc cl by (simp add: set q_def)
  moreover have "(if length ts \<le> q then cl\<lparr>cl_downloadProgress := q, cl_connectPhase := CLIENT_LETS_GO\<rparr> else cl\<lparr>cl_downloadProgress := q\<rparr>) =
      cl\<lparr>cl_downloadProgress := q, cl_connectPhase := (if length ts \<le> q then CLIENT_LETS_GO else CLIENT_DOWNLOADING_WORLD)\<rparr>"
    using cl(3) by (cases cl) simp
  moreover have "length (h_pad (nm_header m)) = 7" using m(2) by (simp add: msg_ok_def)
  moreover have "block_of m ?h2 = ?bs" using a(1) by (simp add: block_of_def)
  ultimately show ?thesis
    using m(4,5,6) ok2(2)
    by (intro exI [of _ "?s3\<lparr>sv_objs := (sv_objs s)(c \<mapsto> cl\<lparr>cl_downloadProgress := q,
      cl_connectPhase := (if length ts \<le> q then CLIENT_LETS_GO else CLIENT_DOWNLOADING_WORLD)\<rparr>)\<rparr>"] exI [of _ "nm_header m"])
      (simp add: heap_wf_def)
qed


lemma ClientSendWorldChunk_frame:
  assumes "downloading s c ts p" and "ClientSendWorldChunk c s = Inr s'"
  shows "sv_state s' = sv_state s" and "netBufferPtr s' = netBufferPtr s"
  using ClientSendWorldChunk_ok [OF assms(1)] assms(2) by auto

section \<open>The server's ticks\<close>

fun server_ticks :: "server_env \<Rightarrow> nat \<Rightarrow> server \<Rightarrow> server res" where
  "server_ticks env 0 s = Inr s"
| "server_ticks env (Suc n) s = bind_res (Server_Tick env s) (server_ticks env n)"

text \<open>A running server with nothing to read, whose client \<open>c\<close> is downloading and the others are not.\<close>

definition serving :: "server \<Rightarrow> nat \<Rightarrow> byte list \<Rightarrow> nat \<Rightarrow> bool" where
  "serving s c ts p \<longleftrightarrow> server_wf s \<and> sv_state s = SERVER_RUNNING \<and> netBufferPtr s < 0 \<and> c \<in> set (joined s) \<and> downloading s c ts p \<and>
     (\<forall>d \<in> set (joined s). d \<noteq> c \<longrightarrow> cl_connectPhase (the (sv_objs s d)) \<noteq> CLIENT_DOWNLOADING_WORLD)"

text \<open>What a pass over the clients keeps.\<close>

definition pass_inv :: "nat option list \<Rightarrow> nat list \<Rightarrow> nat \<Rightarrow> byte list \<Rightarrow> server \<Rightarrow> bool" where
  "pass_inv slots cs c ts s \<longleftrightarrow> clients s = slots \<and>
     (\<forall>d \<in> set cs. d \<noteq> c \<longrightarrow> (\<exists>cl. sv_objs s d = Some cl \<and> cl_connectPhase cl \<noteq> CLIENT_DOWNLOADING_WORLD)) \<and>
     ((\<exists>p. downloading s c ts p) \<or> (\<exists>cl. sv_objs s c = Some cl \<and> cl_connectPhase cl \<noteq> CLIENT_DOWNLOADING_WORLD))"

lemma pass_inv_slots: "pass_inv slots cs c ts s \<Longrightarrow> clients s = slots"
  by (simp add: pass_inv_def)

definition download_one :: "nat \<Rightarrow> server \<Rightarrow> server res" where
  "download_one c s = with_client c s (\<lambda>cl.
     if cl_connectPhase cl = CLIENT_DOWNLOADING_WORLD then ClientSendWorldChunk c s else Inr s)"

lemma TickDownloads_eq:
  "TickDownloads s = fold_res (\<lambda>i s. case clients s ! i of None \<Rightarrow> Inr s | Some c \<Rightarrow> download_one c s) [0..<MAX_CLIENTS] s"
  by (simp only: TickDownloads_def download_one_def)

lemma downloading_after:
  assumes "downloading s c ts p" and "ClientSendWorldChunk c s = Inr s'"
  shows "pass_inv slots cs c ts s \<Longrightarrow> pass_inv slots cs c ts s'"
proof -
  define cl where "cl = the (sv_objs s c)"
  obtain hd where s': "heap_wf (net_heap s')" "clients s' = clients s" "sv_world s' = sv_world s"
    "sv_objs s' = (sv_objs s)(c \<mapsto> cl\<lparr>cl_downloadProgress := p + length (chunk_at ts p),
      cl_connectPhase := (if length ts \<le> p + length (chunk_at ts p) then CLIENT_LETS_GO else CLIENT_DOWNLOADING_WORLD)\<rparr>)"
    using ClientSendWorldChunk_ok [OF assms(1)] assms(2) by (auto simp: cl_def)
  show "pass_inv slots cs c ts s \<Longrightarrow> pass_inv slots cs c ts s'"
    using assms(1) s'(1,2,3) unfolding pass_inv_def downloading_def s'(4)
    by (cases "length ts \<le> p + length (chunk_at ts p)") auto
qed

lemma download_one_keeps:
  assumes "pass_inv slots cs c ts s" and "d \<in> set cs" and "download_one d s = Inr s'"
  shows "pass_inv slots cs c ts s'"
proof (cases "d = c \<and> (\<exists>p. downloading s c ts p)")
  case True
  then obtain p where p: "downloading s c ts p" by blast
  then have "ClientSendWorldChunk c s = Inr s'"
    using assms(3) True by (auto simp: download_one_def with_client_def downloading_def)
  with downloading_after [OF p] assms(1) show ?thesis by blast
next
  case False
  then have "\<exists>cl. sv_objs s d = Some cl \<and> cl_connectPhase cl \<noteq> CLIENT_DOWNLOADING_WORLD"
    using assms(1,2) by (auto simp: pass_inv_def)
  then have "s' = s" using assms(3) by (auto simp: download_one_def with_client_def)
  with assms(1) show ?thesis by simp
qed

text \<open>One pass sends the next chunk to the downloading client and nothing else.\<close>

lemma TickDownloads_serving:
  assumes "serving s c ts p"
  shows "TickDownloads s = ClientSendWorldChunk c s"
proof -
  have wf: "server_wf s" and c: "c \<in> set (joined s)" and d: "downloading s c ts p"
    and idle: "\<And>d. d \<in> set (joined s) \<Longrightarrow> d \<noteq> c \<Longrightarrow> cl_connectPhase (the (sv_objs s d)) \<noteq> CLIENT_DOWNLOADING_WORLD"
    using assms by (auto simp: serving_def)
  note j = server_wf_joined [OF wf]
  have inv: "pass_inv (clients s) (joined s) c ts s"
    unfolding pass_inv_def using d idle j(5) by force
  have "TickDownloads s = fold_res download_one (joined s) s"
    unfolding TickDownloads_eq
  proof (rule fold_slots [where Q = "pass_inv (clients s) (joined s) c ts"])
    show "clients t = map Some (joined s) @ replicate (MAX_CLIENTS - length (joined s)) None"
      if "pass_inv (clients s) (joined s) c ts t" for t
      using pass_inv_slots [OF that] j(1) by (rule trans)
  qed (use j(2) inv in \<open>auto elim: download_one_keeps\<close>)
  also have "\<dots> = download_one c s"
  proof -
    obtain as bs where sp: "joined s = as @ c # bs" using c by (meson split_list)
    then have ne: "c \<notin> set as" "c \<notin> set bs" using j(4) by auto
    have skip: "download_one x t = Inr t" if "x \<in> set (joined s)" "x \<noteq> c" "pass_inv (clients s) (joined s) c ts t" for x t
      using that by (auto simp: pass_inv_def download_one_def with_client_def)
    have a: "fold_res download_one as s = Inr s"
      by (rule fold_res_idle) (use skip sp ne inv in auto)
    have b: "fold_res download_one bs t = Inr t" if "download_one c s = Inr t" for t
      by (rule fold_res_idle) (use skip sp ne download_one_keeps [OF inv c that] in auto)
    show ?thesis using a b by (cases "download_one c s") (simp_all add: sp fold_res_append)
  qed
  also have "\<dots> = ClientSendWorldChunk c s"
    using d by (auto simp: download_one_def with_client_def downloading_def)
  finally show ?thesis .
qed

text \<open>Chunk by chunk, the datagrams carry the rest of the tiles.\<close>

definition chunk_datagram :: "byte list \<Rightarrow> byte list \<Rightarrow> bool" where
  "chunk_datagram bs dg \<longleftrightarrow> (\<exists>hd. dg = net_header_enc hd @ bs \<and> h_type hd = NETMSG_WORLD_DOWNLOAD_PACKET \<and>
     h_size hd = length bs \<and> h_magic hd = NETMSG_MAGIC \<and> length (h_pad hd) = 7)"

lemma Server_Tick_serving:
  assumes "serving s c ts p"
  shows "\<exists>s' dg. Server_Tick env s = Inr s' \<and> chunk_datagram (chunk_at ts p) dg \<and>
    net_sent s' = net_sent s @ [(cl_address (the (sv_objs s c)), cl_port (the (sv_objs s c)), dg)] \<and>
    cl_address (the (sv_objs s' c)) = cl_address (the (sv_objs s c)) \<and> cl_port (the (sv_objs s' c)) = cl_port (the (sv_objs s c)) \<and>
    server_wf s' \<and> joined s' = joined s \<and> sv_state s' = sv_state s \<and> netBufferPtr s' = netBufferPtr s \<and>
    (if length ts \<le> p + MAX_PACKET_SIZE then cl_connectPhase (the (sv_objs s' c)) = CLIENT_LETS_GO
     else serving s' c ts (p + MAX_PACKET_SIZE))"
proof -
  have sv: "sv_state s = SERVER_RUNNING" "netBufferPtr s < 0" "server_wf s" "downloading s c ts p" "c \<in> set (joined s)"
    using assms by (auto simp: serving_def)
  define cl where "cl = the (sv_objs s c)"
  let ?q = "p + length (chunk_at ts p)"
  obtain s' hd where s': "ClientSendWorldChunk c s = Inr s'" "heap_wf (net_heap s')" "h_type hd = NETMSG_WORLD_DOWNLOAD_PACKET"
    "h_size hd = length (chunk_at ts p)" "h_magic hd = NETMSG_MAGIC" "length (h_pad hd) = 7"
    "net_sent s' = net_sent s @ [(cl_address cl, cl_port cl, net_header_enc hd @ chunk_at ts p)]"
    "clients s' = clients s" "numClients s' = numClients s" "sv_fresh s' = sv_fresh s" "sv_world s' = sv_world s"
    "sv_objs s' = (sv_objs s)(c \<mapsto> cl\<lparr>cl_downloadProgress := ?q,
      cl_connectPhase := (if length ts \<le> ?q then CLIENT_LETS_GO else CLIENT_DOWNLOADING_WORLD)\<rparr>)"
    using ClientSendWorldChunk_ok [OF sv(4)] unfolding cl_def [symmetric] by blast
  have same: "sv_state s' = sv_state s" "netBufferPtr s' = netBufferPtr s"
    using ClientSendWorldChunk_frame [OF sv(4) s'(1)] by simp_all
  have tick: "Server_Tick env s = Inr s'"
    using TickDownloads_serving [OF assms] s'(1) same sv(1,2)
    by (simp add: Server_Tick_def Server_TickNetwork_def GetMessage_def)
  have p: "p < length ts" using sv(4) by (simp add: downloading_def)
  have q: "length ts \<le> ?q \<longleftrightarrow> length ts \<le> p + MAX_PACKET_SIZE" and q': "\<not> length ts \<le> ?q \<Longrightarrow> ?q = p + MAX_PACKET_SIZE"
    using p by (auto simp: length_chunk_at)
  have j: "joined s' = joined s" using s'(8,9) by (simp add: joined_def)
  have wf: "server_wf s'"
    using sv(3) s'(2) unfolding server_wf_def s'(8,9,10,12) by auto
  have "serving s' c ts (p + MAX_PACKET_SIZE)" if "\<not> length ts \<le> p + MAX_PACKET_SIZE"
  proof -
    have qq: "?q = p + MAX_PACKET_SIZE" "\<not> length ts \<le> ?q" using that q q' by auto
    have "sv_objs s' c = Some (cl\<lparr>cl_downloadProgress := p + MAX_PACKET_SIZE, cl_connectPhase := CLIENT_DOWNLOADING_WORLD\<rparr>)"
      using s'(12) qq by simp
    then have "downloading s' c ts (p + MAX_PACKET_SIZE)"
      using sv(4) s'(2,11) that by (simp add: downloading_def)
    moreover have "cl_connectPhase (the (sv_objs s' d)) \<noteq> CLIENT_DOWNLOADING_WORLD" if "d \<in> set (joined s)" "d \<noteq> c" for d
      using that assms s'(12) by (simp add: serving_def)
    ultimately show ?thesis
      using wf j same sv(1,2,5) by (simp add: serving_def)
  qed
  moreover have "cl_connectPhase (the (sv_objs s' c)) = CLIENT_LETS_GO" if "length ts \<le> p + MAX_PACKET_SIZE"
    using that q s'(12) by simp
  moreover have "chunk_datagram (chunk_at ts p) (net_header_enc hd @ chunk_at ts p)"
    using s'(3-6) by (auto simp: chunk_datagram_def)
  ultimately show ?thesis
    using tick s'(7,12) wf j same unfolding cl_def [symmetric]
    by (intro exI [of _ s'] exI [of _ "net_header_enc hd @ chunk_at ts p"]) auto
qed


section \<open>The client's turns\<close>

text \<open>A frame that receives a datagram, and a tick.\<close>

definition client_turn :: "f32 \<Rightarrow> (nat \<Rightarrow> byte) \<Rightarrow> address_status \<Rightarrow> datagram \<Rightarrow> client \<Rightarrow> client res" where
  "client_turn portv junk st dg ct = bind_res (NetMode_Frame (True, Some dg) ct) (Client_Tick portv junk st)"

definition client_taking :: "client \<Rightarrow> byte list \<Rightarrow> nat \<Rightarrow> bool" where
  "client_taking ct ts p \<longleftrightarrow> nb_ok ct \<and> netBufferPtr ct = -1 \<and> heap_wf (net_heap ct) \<and> ct_state ct = CLIENT_CONNECTING \<and>
     ct_phase ct = CLIENT_DOWNLOADING_WORLD \<and> ct_progress ct = p \<and> GetSizeInBytes (ct_world ct) = length ts \<and> p < length ts \<and>
     (\<exists>cur. tileData (ct_world ct) = Some cur \<and> length cur = length ts \<and> take p cur = take p ts)"

text \<open>Receiving a chunk puts it into the buffer.\<close>

lemma receive_chunk:
  assumes "nb_ok ct" and "netBufferPtr ct = -1" and "heap_wf (net_heap ct)" and "chunk_datagram bs (dg_buf dg)"
    and "bs \<noteq> []" and "length bs \<le> MAX_PACKET_SIZE"
  shows "\<exists>m h. NetMode_Frame (True, Some dg) ct = Inr (push m h ct) \<and> heap_wf h \<and> h_type (nm_header m) = NETMSG_WORLD_DOWNLOAD_PACKET \<and>
    nm_size m = length bs \<and> (\<exists>a. nm_data m = Some a \<and> blocks h a = Some bs)"
proof -
  obtain hd where hd: "dg_buf dg = net_header_enc hd @ bs" "h_type hd = NETMSG_WORLD_DOWNLOAD_PACKET" "h_size hd = length bs"
    "h_magic hd = NETMSG_MAGIC" "length (h_pad hd) = 7"
    using assms(4) by (auto simp: chunk_datagram_def)
  have small: "h_size hd < 2 ^ 32" "h_size hd \<le> MAX_PACKET_SIZE" "0 < h_size hd" using hd(3) assms(5,6) by (auto simp: MAX_PACKET_SIZE_def)
  have len: "length (dg_buf dg) = HEADER_SIZE + h_size hd" using length_net_header_enc [OF hd(5)] hd(1,3) by simp
  have bs: "drop HEADER_SIZE (dg_buf dg) = bs" using length_net_header_enc [OF hd(5)] hd(1) by simp
  obtain m h where m: "take_message hd dg (net_heap ct) = Inr (m, h)" "heap_wf h" "nm_header m = hd"
    "readable m h" "block_of m h = bs"
    using take_message_ok [OF assms(3) len small(2)] small(3) bs by auto
  have ok: "header_ok hd" using hd(2,4) small(2) by (simp add: header_ok_def NETMSG_WORLD_DOWNLOAD_PACKET_def NETMSG_LAST_VALID_def NETMSG_SERVER_SHUTDOWN_def)
  have dec: "hd = net_header_dec (take HEADER_SIZE (dg_buf dg))"
    using net_header_dec_take [OF hd(5) small(1)] hd(1) by simp
  have "NetMode_Frame (True, Some dg) ct = Inr (push m h ct)"
    using GetAll_accept [OF _ ok dec m(1)] len assms(2) by (simp add: NetMode_Frame_def NET_BUFFER_SIZE_def)
  moreover have "\<exists>a. nm_data m = Some a \<and> blocks h a = Some bs"
    using m(4,5) by (auto simp: readable_def block_of_def)
  ultimately show ?thesis using m(2,3) hd(2,3) by blast
qed

lemma push_simps [simp]:
  "net_heap (push m h ct) = h" "netBufferPtr (push m h ct) = netBufferPtr ct + 1"
  "netBuffer (push m h ct) = (netBuffer ct)[nat (netBufferPtr ct + 1) := m]"
  by (simp_all add: push_def)

lemma push_client_simps [simp]:
  "ct_state (push m h ct) = ct_state ct" "ct_phase (push m h ct) = ct_phase ct" "ct_progress (push m h ct) = ct_progress ct"
  "ct_world (push m h ct) = ct_world ct"
  by (simp_all add: push_def)

lemma chunk_put:
  assumes "length cur = length ts" and "take p cur = take p ts" and "p < length ts"
  defines "n \<equiv> length (chunk_at ts p)"
  shows "take (p + n) (take p cur @ chunk_at ts p @ drop (p + n) cur) = take (p + n) ts"
    and "length (take p cur @ chunk_at ts p @ drop (p + n) cur) = length ts" and "p + n \<le> length ts"
proof -
  show n: "p + n \<le> length ts" using assms(3) by (simp add: n_def length_chunk_at)
  show "length (take p cur @ chunk_at ts p @ drop (p + n) cur) = length ts" using n assms(1) by (simp add: n_def)
  have "chunk_at ts p = take n (drop p ts)"
    using take_length_take [of MAX_PACKET_SIZE "drop p ts", folded chunk_at_def] by (simp add: n_def)
  then have "take p ts @ chunk_at ts p = take (p + n) ts" by (simp add: take_add)
  then show "take (p + n) (take p cur @ chunk_at ts p @ drop (p + n) cur) = take (p + n) ts"
    using assms(1,2,3) n by (simp add: n_def)
qed

lemma client_turn_chunk:
  assumes "client_taking ct ts p" and "chunk_datagram (chunk_at ts p) (dg_buf dg)"
  shows "\<exists>ct'. client_turn portv junk st dg ct = Inr ct' \<and>
    (if length ts \<le> p + MAX_PACKET_SIZE then ct_phase ct' = CLIENT_LETS_GO \<and> ct_state ct' = CLIENT_CONNECTING \<and> tileData (ct_world ct') = Some ts
     else client_taking ct' ts (p + MAX_PACKET_SIZE))"
proof -
  obtain cur where ct: "nb_ok ct" "netBufferPtr ct = -1" "heap_wf (net_heap ct)" "ct_state ct = CLIENT_CONNECTING"
    "ct_phase ct = CLIENT_DOWNLOADING_WORLD" "ct_progress ct = p" "GetSizeInBytes (ct_world ct) = length ts" "p < length ts"
    and cur: "tileData (ct_world ct) = Some cur" "length cur = length ts" "take p cur = take p ts"
    using assms(1) by (auto simp: client_taking_def)
  let ?bs = "chunk_at ts p" and ?n = "length (chunk_at ts p)"
  have bs: "?bs \<noteq> []" "?n \<le> MAX_PACKET_SIZE" using ct(8) length_chunk_at [of ts p] by (auto simp: MAX_PACKET_SIZE_def)
  obtain m h a where m: "NetMode_Frame (True, Some dg) ct = Inr (push m h ct)" "heap_wf h"
    "h_type (nm_header m) = NETMSG_WORLD_DOWNLOAD_PACKET" "nm_size m = ?n" "nm_data m = Some a" "blocks h a = Some ?bs"
    using receive_chunk [OF ct(1,2,3) assms(2) bs] by blast
  let ?ts = "take p cur @ ?bs @ drop (p + ?n) cur"
  note put = chunk_put [OF cur(2,3) ct(8)]
  let ?s1 = "(push m h ct)\<lparr>netBufferPtr := -1\<rparr>"
  let ?s2 = "?s1\<lparr>ct_world := (ct_world ct)\<lparr>tileData := Some ?ts\<rparr>, ct_progress := p + ?n\<rparr>"
  let ?s3 = "if length ts \<le> p + ?n then ?s2\<lparr>ct_phase := CLIENT_LETS_GO\<rparr> else ?s2"
  have get: "GetMessage (push m h ct) = (Some m, ?s1)"
    using ct(1,2) by (simp add: GetMessage_def nb_ok_def NET_BUFFER_SIZE_def)
  have rd: "read_block a 0 ?n h = Inr ?bs" using m(6) by (simp add: read_block_def)
  have "ConnectDownloadWorldChunk (Some m) ?s1 = Inr ?s3"
    using m(3,4,5) bs(1) rd ct(6,7) cur(1,2) put(3) by (simp add: ConnectDownloadWorldChunk_def store_chunk_def Let_def)
  then have conn: "TickNetworkConnecting portv junk (Some m) ?s1 = Inr ?s3" using ct(5) by (simp add: TickNetworkConnecting_def)
  have fr: "DoneMessage m h = Inr (h\<lparr>blocks := (blocks h)(a := None)\<rparr>)"
    using m(4,5,6) bs(1) by (simp add: DoneMessage_def free_block_def)
  let ?s4 = "?s3\<lparr>net_heap := h\<lparr>blocks := (blocks h)(a := None)\<rparr>\<rparr>"
  have sd: "h_type (nm_header m) \<noteq> NETMSG_SERVER_SHUTDOWN"
    using m(3) by (simp add: NETMSG_WORLD_DOWNLOAD_PACKET_def NETMSG_SERVER_SHUTDOWN_def)
  have "Client_TickNetwork portv junk (push m h ct) = Inr ?s4"
    unfolding Client_TickNetwork_def get Let_def split_conv
    using sd conn ct(4) fr by (simp add: done_msg_def)
  then have turn: "client_turn portv junk st dg ct = Inr ?s4"
    using ct(4) by (simp add: client_turn_def m(1) Client_Tick_def)
  have q: "length ts \<le> p + ?n \<longleftrightarrow> length ts \<le> p + MAX_PACKET_SIZE" and q': "\<not> length ts \<le> p + ?n \<Longrightarrow> p + ?n = p + MAX_PACKET_SIZE"
    using ct(8) by (auto simp: length_chunk_at)
  have nb: "nb_ok ?s4" using ct(1) by (simp add: nb_ok_def NET_BUFFER_SIZE_def)
  show ?thesis
  proof (cases "length ts \<le> p + MAX_PACKET_SIZE")
    case True
    then have "p + ?n = length ts" using put(3) q by linarith
    then have "?ts = ts" using put(1,2) by (metis order_refl take_all_iff)
    then show ?thesis using turn True q ct(4) by simp
  next
    case False
    then have "p + ?n = p + MAX_PACKET_SIZE" using q q' by blast
    moreover have "heap_wf (h\<lparr>blocks := (blocks h)(a := None)\<rparr>)" using m(2) by (simp add: heap_wf_def)
    moreover have "GetSizeInBytes ((ct_world ct)\<lparr>tileData := Some ?ts\<rparr>) = length ts" using ct(7) by (simp add: GetSizeInBytes_def)
    ultimately have "client_taking ?s4 ts (p + MAX_PACKET_SIZE)"
      unfolding client_taking_def using nb False q ct(4,5) put(1,2) by (simp del: append_take_drop_id take_append)
    with turn False show ?thesis by auto
  qed
qed


section \<open>End to end\<close>

text \<open>\<open>k\<close> chunks are what is left after \<open>p\<close> bytes.\<close>

definition chunks_left :: "byte list \<Rightarrow> nat \<Rightarrow> nat \<Rightarrow> bool" where
  "chunks_left ts p k \<longleftrightarrow> length ts \<le> p + MAX_PACKET_SIZE * k \<and> p + MAX_PACKET_SIZE * (k - 1) < length ts"

lemma download_steps:
  assumes "serving s c ts p" and "client_taking ct ts p" and "chunks_left ts p (Suc k)"
  shows "\<exists>s' dgs ct'. server_ticks env (Suc k) s = Inr s' \<and> length dgs = Suc k \<and>
    net_sent s' = net_sent s @ map (\<lambda>d. (cl_address (the (sv_objs s c)), cl_port (the (sv_objs s c)), d)) dgs \<and>
    cl_connectPhase (the (sv_objs s' c)) = CLIENT_LETS_GO \<and>
    fold_res (\<lambda>d. client_turn portv junk st \<lparr>dg_buf = d, dg_addr = a, dg_port = q\<rparr>) dgs ct = Inr ct' \<and>
    tileData (ct_world ct') = Some ts \<and> ct_phase ct' = CLIENT_LETS_GO \<and> ct_state ct' = CLIENT_CONNECTING"
  using assms
proof (induction k arbitrary: s ct p)
  case 0
  let ?dg = "\<lambda>d. \<lparr>dg_buf = d, dg_addr = a, dg_port = q\<rparr>"
  have last: "length ts \<le> p + MAX_PACKET_SIZE" using 0(3) by (simp add: chunks_left_def)
  obtain s' d where s': "Server_Tick env s = Inr s'" "chunk_datagram (chunk_at ts p) d"
    "net_sent s' = net_sent s @ [(cl_address (the (sv_objs s c)), cl_port (the (sv_objs s c)), d)]"
    "cl_connectPhase (the (sv_objs s' c)) = CLIENT_LETS_GO"
    using Server_Tick_serving [OF 0(1), of env] last by auto
  obtain ct' where ct': "client_turn portv junk st (?dg d) ct = Inr ct'" "ct_phase ct' = CLIENT_LETS_GO"
    "ct_state ct' = CLIENT_CONNECTING" "tileData (ct_world ct') = Some ts"
    using client_turn_chunk [OF 0(2), of "?dg d" portv junk st] s'(2) last by auto
  show ?case using s' ct' by (intro exI [of _ s'] exI [of _ "[d]"] exI [of _ ct']) simp
next
  case (Suc k)
  let ?dg = "\<lambda>d. \<lparr>dg_buf = d, dg_addr = a, dg_port = q\<rparr>" and ?p = "p + MAX_PACKET_SIZE"
  have more: "\<not> length ts \<le> ?p" and left: "chunks_left ts ?p (Suc k)"
    using Suc.prems(3) by (auto simp: chunks_left_def algebra_simps)
  obtain s' d where s': "Server_Tick env s = Inr s'" "chunk_datagram (chunk_at ts p) d" "serving s' c ts ?p"
    "net_sent s' = net_sent s @ [(cl_address (the (sv_objs s c)), cl_port (the (sv_objs s c)), d)]"
    "cl_address (the (sv_objs s' c)) = cl_address (the (sv_objs s c))" "cl_port (the (sv_objs s' c)) = cl_port (the (sv_objs s c))"
    using Server_Tick_serving [OF Suc.prems(1), of env] more by auto
  obtain ct' where ct': "client_turn portv junk st (?dg d) ct = Inr ct'" "client_taking ct' ts ?p"
    using client_turn_chunk [OF Suc.prems(2), of "?dg d" portv junk st] s'(2) more by auto
  obtain s'' dgs ct'' where IH: "server_ticks env (Suc k) s' = Inr s''" "length dgs = Suc k"
    "net_sent s'' = net_sent s' @ map (\<lambda>d. (cl_address (the (sv_objs s' c)), cl_port (the (sv_objs s' c)), d)) dgs"
    "cl_connectPhase (the (sv_objs s'' c)) = CLIENT_LETS_GO"
    "fold_res (\<lambda>d. client_turn portv junk st (?dg d)) dgs ct' = Inr ct''"
    "tileData (ct_world ct'') = Some ts" "ct_phase ct'' = CLIENT_LETS_GO" "ct_state ct'' = CLIENT_CONNECTING"
    using Suc.IH [OF s'(3) ct'(2) left] by blast
  have "server_ticks env (Suc (Suc k)) s = Inr s''" using s'(1) IH(1) by simp
  moreover have "fold_res (\<lambda>d. client_turn portv junk st (?dg d)) (d # dgs) ct = Inr ct''" using ct'(1) IH(5) by simp
  ultimately show ?case
    using IH(2,3,4,6,7,8) s'(4,5,6) by (intro exI [of _ s''] exI [of _ "d # dgs"] exI [of _ ct'']) simp
qed

section \<open>Properties\<close>

text \<open>
  C3. The download completes and is exact: after one server tick for every 1400 bytes of the world, or part of
  them, the server has sent that many datagrams to the client, and the client that receives them in order, one
  each tick, holds exactly the server's tiles and takes the download for finished, as the server does.
\<close>

theorem download_end_to_end:
  assumes "serving s c ts 0" and "client_taking ct ts 0"
  shows "\<exists>s' dgs ct'. server_ticks env ((length ts + (MAX_PACKET_SIZE - 1)) div MAX_PACKET_SIZE) s = Inr s' \<and>
    length dgs = (length ts + (MAX_PACKET_SIZE - 1)) div MAX_PACKET_SIZE \<and>
    net_sent s' = net_sent s @ map (\<lambda>d. (cl_address (the (sv_objs s c)), cl_port (the (sv_objs s c)), d)) dgs \<and>
    cl_connectPhase (the (sv_objs s' c)) = CLIENT_LETS_GO \<and>
    fold_res (\<lambda>d. client_turn portv junk st \<lparr>dg_buf = d, dg_addr = a, dg_port = q\<rparr>) dgs ct = Inr ct' \<and>
    tileData (ct_world ct') = Some ts \<and> ct_phase ct' = CLIENT_LETS_GO"
proof -
  have "0 < length ts" using assms(2) by (simp add: client_taking_def)
  then have "0 < (length ts + (MAX_PACKET_SIZE - 1)) div MAX_PACKET_SIZE"
    by (simp add: MAX_PACKET_SIZE_def div_greater_zero_iff Suc_le_eq)
  then obtain k where k: "(length ts + (MAX_PACKET_SIZE - 1)) div MAX_PACKET_SIZE = Suc k"
    by (metis gr0_implies_Suc)
  have "chunks_left ts 0 (Suc k)"
    using k \<open>0 < length ts\<close> by (auto simp: chunks_left_def MAX_PACKET_SIZE_def)
  then show ?thesis using download_steps [OF assms] unfolding k by blast
qed


theorem download_end_to_end_witness:
  "\<exists>s' dg ct'. server_ticks env0 1 (server_with 1 CLIENT_DOWNLOADING_WORLD small_world) = Inr s' \<and> net_sent s' = [(0, 7, dg)] \<and>
    client_turn (Fin 6769) (\<lambda>_. 0) NET_SUCCESS \<lparr>dg_buf = dg, dg_addr = 1, dg_port = 6769\<rparr>
      (client0 CLIENT_DOWNLOADING_WORLD (small_world\<lparr>tileData := Some [9, 9, 9, 9]\<rparr>)) = Inr ct' \<and>
    tileData (ct_world ct') = Some [0, 1, 2, 3]"
proof -
  have sz: "GetSizeInBytes small_world = 4" "GetSizeInBytes (small_world\<lparr>tileData := x\<rparr>) = 4" for x
    by (simp_all add: GetSizeInBytes_def small_world_def i32_mul_def to_size_def)
  have t: "tileData small_world = Some [0, 1, 2, 3]" by (simp add: small_world_def)
  have one: "1 \<le> MAX_CLIENTS" by (simp add: MAX_CLIENTS_def)
  have "serving (server_with 1 CLIENT_DOWNLOADING_WORLD small_world) 0 [0, 1, 2, 3] 0"
    using server_wf_with [OF one] joined_server_with [OF one] sz(1) t
    by (simp add: serving_def downloading_def client_at_def Client_new_def) (simp add: server_with_def)
  moreover have "client_taking (client0 CLIENT_DOWNLOADING_WORLD (small_world\<lparr>tileData := Some [9, 9, 9, 9]\<rparr>)) [0, 1, 2, 3] 0"
    using sz(2) by (simp add: client_taking_def) (simp add: client0_def)
  moreover have "(length [0::byte, 1, 2, 3] + (MAX_PACKET_SIZE - 1)) div MAX_PACKET_SIZE = 1" by (simp add: MAX_PACKET_SIZE_def)
  ultimately obtain s' dgs ct' where r: "server_ticks env0 1 (server_with 1 CLIENT_DOWNLOADING_WORLD small_world) = Inr s'" "length dgs = 1"
    "net_sent s' = map (\<lambda>d. (0, 7, d)) dgs"
    "fold_res (\<lambda>d. client_turn (Fin 6769) (\<lambda>_. 0) NET_SUCCESS \<lparr>dg_buf = d, dg_addr = 1, dg_port = 6769\<rparr>) dgs
      (client0 CLIENT_DOWNLOADING_WORLD (small_world\<lparr>tileData := Some [9, 9, 9, 9]\<rparr>)) = Inr ct'"
    "tileData (ct_world ct') = Some [0, 1, 2, 3]"
    using download_end_to_end [of "server_with 1 CLIENT_DOWNLOADING_WORLD small_world" 0 "[0, 1, 2, 3]"
        "client0 CLIENT_DOWNLOADING_WORLD (small_world\<lparr>tileData := Some [9, 9, 9, 9]\<rparr>)" env0 "Fin 6769" "\<lambda>_. 0" NET_SUCCESS 1 6769]
    by (auto simp: client_at_def)
  obtain dg where "dgs = [dg]" using r(2) by (auto simp: length_Suc_conv)
  with r show ?thesis by (auto simp: bind_res_eq_Inr)
qed

end
