(* ===== verification/Capy_Handshake.thy ===== *)
theory Capy_Handshake
  imports Capy_Download
begin

text \<open>
  The client's side of joining, message by message: greeting, answer, request, announcement and download, up to the
  connected state; and what no order of events can break.
\<close>

section \<open>A client between messages\<close>

definition at_rest :: "client \<Rightarrow> bool" where
  "at_rest s \<longleftrightarrow> nb_ok s \<and> netBufferPtr s = -1 \<and> heap_wf (net_heap s) \<and> NUL \<in> set (ct_name s) \<and>
     length (ct_name s) = CLIENT_NAME_MAX \<and> serverAddress s \<noteq> None"

definition same_net :: "client \<Rightarrow> client \<Rightarrow> bool" where
  "same_net t s \<longleftrightarrow> net_heap t = net_heap s \<and> netBuffer t = netBuffer s \<and> netBufferPtr t = netBufferPtr s \<and>
     ct_name t = ct_name s \<and> serverAddress t = serverAddress s"

lemma at_rest_same_net: "same_net t s \<Longrightarrow> at_rest s \<Longrightarrow> at_rest t"
  by (simp add: same_net_def at_rest_def nb_ok_def)

lemma at_rest_update [simp]:
  "at_rest (s\<lparr>ct_phase := ph\<rparr>) = at_rest s" "at_rest (s\<lparr>ct_state := st\<rparr>) = at_rest s" "at_rest (s\<lparr>ct_world := w\<rparr>) = at_rest s"
  "at_rest (s\<lparr>ct_progress := n\<rparr>) = at_rest s"
  by (simp_all add: at_rest_def nb_ok_def)

lemma GetMessage_at_rest: "at_rest s \<Longrightarrow> GetMessage s = (None, s)"
  by (simp add: at_rest_def GetMessage_def)

text \<open>A tick without a message.\<close>

lemma Client_Tick_at_rest:
  assumes "at_rest s" and "ct_state s = CLIENT_CONNECTING"
  shows "Client_Tick portv junk st s = TickNetworkConnecting portv junk None s"
  using GetMessage_at_rest [OF assms(1)] assms(2)
  by (cases "TickNetworkConnecting portv junk None s") (simp_all add: Client_Tick_def Client_TickNetwork_def)

text \<open>Saying something without a message's data, and with it.\<close>

lemma heap_wf_clear: "heap_wf h \<Longrightarrow> heap_wf (h\<lparr>blocks := (blocks h)(a := None)\<rparr>)"
  by (simp add: heap_wf_def)

lemma Client_SendMessage_data:
  assumes "f32_to_u16 portv = Inr q" and "msg_ok m (net_heap s)" and "0 < nm_size m" and "serverAddress s = Some a"
  shows "\<exists>t. Client_SendMessage portv m s = Inr t \<and> conn t = conn s \<and>
    same_net t (s\<lparr>net_heap := (net_heap s)\<lparr>blocks := (blocks (net_heap s))(the (nm_data m) := None)\<rparr>\<rparr>) \<and>
    net_sent t = net_sent s @ [(a, of_int q, net_header_enc (nm_header m) @ block_of m (net_heap s))]"
  using SendMessageToPort_ok [OF assms(2,3), of a "of_int q"] assms(1,4)
  by (simp add: Client_SendMessage_def same_net_def conn_def)

lemma Client_SendMessage_bare:
  assumes "f32_to_u16 portv = Inr q" and "nm_size m = 0" and "serverAddress s = Some a"
  shows "\<exists>t bs. Client_SendMessage portv m s = Inr t \<and> conn t = conn s \<and> same_net t s \<and>
    net_sent t = net_sent s @ [(a, of_int q, net_header_enc (nm_header m) @ bs)]"
  using assms by (simp add: Client_SendMessage_def SendMessageToPort_def datagram_bytes_def DoneMessage_def same_net_def conn_def)

section \<open>The four messages\<close>

text \<open>A message as a datagram: a valid header and the data, which may be followed by what the header does not count.\<close>

definition datagram_of :: "byte \<Rightarrow> byte list \<Rightarrow> byte list \<Rightarrow> bool" where
  "datagram_of ty bs buf \<longleftrightarrow> (\<exists>hd junk. buf = net_header_enc hd @ bs @ junk \<and> (bs \<noteq> [] \<longrightarrow> junk = []) \<and> h_magic hd = NETMSG_MAGIC \<and> h_type hd = ty \<and>
     h_size hd = length bs \<and> length (h_pad hd) = 7)"

definition sends :: "byte \<Rightarrow> byte list \<Rightarrow> int \<Rightarrow> client \<Rightarrow> client \<Rightarrow> bool" where
  "sends ty bs q s t \<longleftrightarrow> (\<exists>a buf. net_sent t = net_sent s @ [(a, of_int q, buf)] \<and> serverAddress s = Some a \<and> datagram_of ty bs buf)"

definition stays :: "client \<Rightarrow> client \<Rightarrow> bool" where
  "stays t s \<longleftrightarrow> net_sent t = net_sent s \<and> serverAddress t = serverAddress s"

lemma tick_says_hello:
  assumes "at_rest s" and "ct_state s = CLIENT_CONNECTING" and "ct_phase s = CLIENT_HELLO" and "f32_to_u16 portv = Inr q"
  shows "\<exists>t. Client_Tick portv junk st s = Inr t \<and> at_rest t \<and>
    sends NETMSG_HELLO (NET_PROTOCOL_VERSION # z_bytes (c_str (ct_name s))) q s t \<and> serverAddress t = serverAddress s \<and>
    conn t = (CLIENT_CONNECTING, CLIENT_HELLO_SENT, ct_progress s, ct_world s)"
proof -
  let ?u = "c_str (ct_name s)"
  have nm: "NUL \<in> set (ct_name s)" "length ?u + 2 < MAX_PACKET_SIZE" "heap_wf (net_heap s)"
    using assms(1) length_takeWhile_le [of "\<lambda>c. c \<noteq> NUL" "ct_name s"]
    by (auto simp: at_rest_def c_str_def MAX_PACKET_SIZE_def CLIENT_NAME_MAX_def)
  obtain m h where m: "NetFactory_CreateClientHelloPacket (Some ?u) (net_heap s) = Inr (m, h)" "msg_ok m h"
    "nm_size m = 1 + length ?u + 1" "h_magic (nm_header m) = NETMSG_MAGIC" "h_type (nm_header m) = NETMSG_HELLO"
    "written m h = NET_PROTOCOL_VERSION # z_bytes ?u" "nm_write m = length ?u + 2"
    using tagged_ok [of "net_heap s" 1 ?u NETMSG_HELLO NET_PROTOCOL_VERSION] nm(2,3) by (auto simp: client_hello_tagged)
  let ?s1 = "s\<lparr>net_heap := h\<rparr>"
  obtain a where a: "serverAddress s = Some a" using assms(1) by (auto simp: at_rest_def)
  obtain t where t: "Client_SendMessage portv m ?s1 = Inr t" "conn t = conn ?s1"
    "same_net t (?s1\<lparr>net_heap := h\<lparr>blocks := (blocks h)(the (nm_data m) := None)\<rparr>\<rparr>)"
    "net_sent t = net_sent s @ [(a, of_int q, net_header_enc (nm_header m) @ block_of m h)]"
    using Client_SendMessage_data [OF assms(4), of m ?s1 a] m(2,3) a by auto
  let ?t = "t\<lparr>ct_phase := CLIENT_HELLO_SENT\<rparr>"
  have "Client_Tick portv junk st s = Inr ?t"
    unfolding Client_Tick_at_rest [OF assms(1,2)] using assms(3) nm(1) m(1) t(1) by (simp add: TickNetworkConnecting_def make_msg_def)
  moreover have "at_rest (s\<lparr>net_heap := h\<lparr>blocks := (blocks h)(the (nm_data m) := None)\<rparr>\<rparr>)"
    using assms(1) m(2) heap_wf_clear by (auto simp: at_rest_def msg_ok_def)
  then have "at_rest ?t" using at_rest_same_net [OF t(3)] by simp
  moreover have "block_of m h = NET_PROTOCOL_VERSION # z_bytes ?u" using written_all [OF m(2)] m(3,6,7) by simp
  then have "datagram_of NETMSG_HELLO (NET_PROTOCOL_VERSION # z_bytes ?u) (net_header_enc (nm_header m) @ block_of m h)"
    using m(2-5) by (auto simp: datagram_of_def msg_ok_def z_bytes_def)
  then have "sends NETMSG_HELLO (NET_PROTOCOL_VERSION # z_bytes ?u) q s ?t" using t(4) a by (auto simp: sends_def)
  moreover have "serverAddress ?t = serverAddress s" using t(3) by (simp add: same_net_def)
  ultimately show ?thesis using t(2) assms(2) by (intro exI [of _ ?t]) (simp add: conn_def)
qed

lemma tick_asks_for_world:
  assumes "at_rest s" and "ct_state s = CLIENT_CONNECTING" and "ct_phase s = CLIENT_DOWNLOAD_WORLD" and "f32_to_u16 portv = Inr q"
  shows "\<exists>t. Client_Tick portv junk st s = Inr t \<and> at_rest t \<and> sends NETMSG_WORLD_DOWNLOAD_START [] q s t \<and>
    serverAddress t = serverAddress s \<and> conn t = (CLIENT_CONNECTING, CLIENT_DOWNLOAD_WORLD_SENT, ct_progress s, ct_world s)"
proof -
  obtain m where m: "NetFactory_CreateDownloadStartPacket_Client (net_heap s) = Inr (m, net_heap s)" "nm_size m = 0"
    "h_magic (nm_header m) = NETMSG_MAGIC" "h_type (nm_header m) = NETMSG_WORLD_DOWNLOAD_START" "length (h_pad (nm_header m)) = 7"
    by (simp add: NetFactory_CreateDownloadStartPacket_Client_def NetMsg_new_def Let_def MAX_PACKET_SIZE_def)
  obtain a where a: "serverAddress s = Some a" using assms(1) by (auto simp: at_rest_def)
  obtain t bs where t: "Client_SendMessage portv m s = Inr t" "conn t = conn s" "same_net t s"
    "net_sent t = net_sent s @ [(a, of_int q, net_header_enc (nm_header m) @ bs)]"
    using Client_SendMessage_bare [OF assms(4) m(2) a] by auto
  let ?t = "t\<lparr>ct_phase := CLIENT_DOWNLOAD_WORLD_SENT\<rparr>"
  have "Client_Tick portv junk st s = Inr ?t"
    unfolding Client_Tick_at_rest [OF assms(1,2)] using assms(3) m(1) t(1) by (simp add: TickNetworkConnecting_def make_msg_def)
  moreover have "at_rest ?t" using t(3) at_rest_same_net [OF _ assms(1), of ?t] by (simp add: same_net_def)
  moreover have "datagram_of NETMSG_WORLD_DOWNLOAD_START [] (net_header_enc (nm_header m) @ bs)" using m by (auto simp: datagram_of_def)
  then have "sends NETMSG_WORLD_DOWNLOAD_START [] q s ?t" using t(4) a by (auto simp: sends_def)
  moreover have "serverAddress ?t = serverAddress s" using t(3) by (simp add: same_net_def)
  ultimately show ?thesis using t(2) assms(2) by (intro exI [of _ ?t]) (simp add: conn_def)
qed


section \<open>Being answered\<close>

text \<open>A server's message as a datagram.\<close>

definition server_datagram :: "byte \<Rightarrow> byte list \<Rightarrow> datagram" where
  "server_datagram ty bs =
     \<lparr>dg_buf = net_header_enc \<lparr>h_magic = NETMSG_MAGIC, h_seq = 0, h_size = length bs, h_type = ty, h_pad = replicate 7 0\<rparr> @ bs,
      dg_addr = 1, dg_port = 6769\<rparr>"

lemma datagram_of_server: "datagram_of ty bs (dg_buf (server_datagram ty bs))"
  unfolding datagram_of_def server_datagram_def
  by (intro exI [of _ "\<lparr>h_magic = NETMSG_MAGIC, h_seq = 0, h_size = length bs, h_type = ty, h_pad = replicate 7 0\<rparr>"] exI [of _ "[]"]) simp

definition carries :: "net_msg \<Rightarrow> byte_heap \<Rightarrow> byte \<Rightarrow> byte list \<Rightarrow> bool" where
  "carries m h ty bs \<longleftrightarrow> heap_wf h \<and> h_type (nm_header m) = ty \<and> nm_size m = length bs \<and> nm_read m = 0 \<and>
     (bs \<noteq> [] \<longrightarrow> readable m h \<and> unread m h = bs)"

text \<open>Receiving, for either side.\<close>

lemma receives:
  assumes "netBufferPtr s = -1" and "heap_wf (net_heap s)" and "length bs \<le> MAX_PACKET_SIZE" and "ty \<le> NETMSG_LAST_VALID"
    and "datagram_of ty bs (dg_buf dg)"
  shows "\<exists>m h. NetMode_Frame (True, Some dg) s = Inr (push m h s) \<and> carries m h ty bs \<and> nm_valid m \<and> nm_addr m = dg_addr dg \<and> nm_port m = dg_port dg"
proof -
  obtain hd j where hd: "dg_buf dg = net_header_enc hd @ bs @ j" "bs \<noteq> [] \<longrightarrow> j = []" "h_magic hd = NETMSG_MAGIC" "h_type hd = ty" "h_size hd = length bs"
    "length (h_pad hd) = 7"
    using assms(5) by (auto simp: datagram_of_def)
  have small: "h_size hd < 2 ^ 32" using hd(5) assms(3) by (simp add: MAX_PACKET_SIZE_def)
  have "\<exists>m h. take_message hd dg (net_heap s) = Inr (m, h) \<and> heap_wf h \<and> nm_header m = hd \<and> nm_read m = 0 \<and> nm_valid m \<and>
      nm_addr m = dg_addr dg \<and> nm_port m = dg_port dg \<and> (0 < length bs \<longrightarrow> readable m h \<and> unread m h = bs)"
  proof (cases "bs = []")
    case True
    then show ?thesis using hd(5) assms(2) by (simp add: take_message_def)
  next
    case False
    then have "length (dg_buf dg) = HEADER_SIZE + h_size hd" "drop HEADER_SIZE (dg_buf dg) = bs"
      using length_net_header_enc [OF hd(6)] hd(1,2,5) by simp_all
    moreover from this obtain m h where m: "take_message hd dg (net_heap s) = Inr (m, h)" "heap_wf h" "nm_header m = hd" "nm_read m = 0"
      "nm_addr m = dg_addr dg" "nm_port m = dg_port dg" "0 < length bs \<longrightarrow> readable m h \<and> unread m h = bs"
      using take_message_ok [OF assms(2)] assms(3) hd(5) by metis
    moreover have "nm_valid m" using m(1) False hd(5) by (auto simp: take_message_def Let_def map_res_def bind_res_eq_Inr split: if_splits prod.splits)
    ultimately show ?thesis by blast
  qed
  then obtain m h where m: "take_message hd dg (net_heap s) = Inr (m, h)" "heap_wf h" "nm_header m = hd" "nm_read m = 0" "nm_valid m"
    "nm_addr m = dg_addr dg" "nm_port m = dg_port dg" "0 < length bs \<longrightarrow> readable m h \<and> unread m h = bs" by blast
  have ok: "header_ok hd" using assms(3,4) hd(3-5) by (simp add: header_ok_def)
  have dec: "hd = net_header_dec (take HEADER_SIZE (dg_buf dg))" unfolding hd(1) net_header_dec_take [OF hd(6) small] ..
  have "HEADER_SIZE \<le> length (dg_buf dg)" using length_net_header_enc [OF hd(6)] by (simp add: hd(1))
  then have "NetMode_Frame (True, Some dg) s = Inr (push m h s)"
    using GetAll_accept [OF _ ok dec m(1)] assms(1) by (simp add: NetMode_Frame_def NET_BUFFER_SIZE_def)
  moreover have "carries m h ty bs" using m hd(4,5) by (simp add: carries_def)
  ultimately show ?thesis using m by blast
qed

lemma client_receives:
  assumes "at_rest s" and "length bs \<le> MAX_PACKET_SIZE" and "ty \<le> NETMSG_LAST_VALID" and "datagram_of ty bs (dg_buf dg)"
  shows "\<exists>m h. NetMode_Frame (True, Some dg) s = Inr (push m h s) \<and> carries m h ty bs"
  using receives [of s bs ty dg] assms by (auto simp: at_rest_def)

text \<open>The client at the moment it handles a message.\<close>

definition handling :: "net_msg \<Rightarrow> byte_heap \<Rightarrow> client \<Rightarrow> client" where
  "handling m h s = (push m h s)\<lparr>netBufferPtr := -1\<rparr>"

lemma handling_simps [simp]:
  "net_heap (handling m h s) = h" "ct_state (handling m h s) = ct_state s" "ct_phase (handling m h s) = ct_phase s"
  "ct_progress (handling m h s) = ct_progress s" "ct_world (handling m h s) = ct_world s" "net_sent (handling m h s) = net_sent s"
  by (simp_all add: handling_def push_def)

lemma handling_rest: "at_rest s \<Longrightarrow> heap_wf h \<Longrightarrow> at_rest (handling m h s)"
  by (simp add: at_rest_def handling_def nb_ok_def NET_BUFFER_SIZE_def) (simp add: push_def)

lemma DoneMessage_carries:
  assumes "carries m h ty bs"
  shows "\<exists>h'. DoneMessage m h = Inr h' \<and> heap_wf h'"
  using assms heap_wf_clear [of h]
  by (cases "bs = []") (auto simp: carries_def DoneMessage_def free_block_def readable_def)

text \<open>A message that the phase of the connection handles without touching the network is freed, and the client is at rest again.\<close>

lemma client_answered:
  assumes "at_rest s" and "ct_state s = CLIENT_CONNECTING" and "length bs \<le> MAX_PACKET_SIZE" and "ty \<le> NETMSG_LAST_VALID"
    and "ty \<noteq> NETMSG_SERVER_SHUTDOWN" and "datagram_of ty bs (dg_buf dg)"
    and step: "\<And>m h. carries m h ty bs \<Longrightarrow> \<exists>t. TickNetworkConnecting portv junk (Some m) (handling m h s) = Inr t \<and>
      same_net t (handling m h s) \<and> net_sent t = net_sent s \<and> P (conn t)"
  shows "\<exists>t. client_turn portv junk st dg s = Inr t \<and> at_rest t \<and> stays t s \<and> P (conn t)"
proof -
  obtain m h where m: "NetMode_Frame (True, Some dg) s = Inr (push m h s)" "carries m h ty bs"
    using client_receives [OF assms(1,3,4,6)] by blast
  obtain t where t: "TickNetworkConnecting portv junk (Some m) (handling m h s) = Inr t" "same_net t (handling m h s)" "P (conn t)" "net_sent t = net_sent s"
    using step [OF m(2)] by blast
  obtain h' where h': "DoneMessage m h = Inr h'" "heap_wf h'" using DoneMessage_carries [OF m(2)] by blast
  have get: "GetMessage (push m h s) = (Some m, handling m h s)"
    using assms(1) by (simp add: GetMessage_def at_rest_def nb_ok_def NET_BUFFER_SIZE_def handling_def)
  have hp: "net_heap t = h" using t(2) by (simp add: same_net_def)
  have "h_type (nm_header m) \<noteq> NETMSG_SERVER_SHUTDOWN" using m(2) assms(5) by (simp add: carries_def)
  then have "Client_TickNetwork portv junk (push m h s) = Inr (t\<lparr>net_heap := h'\<rparr>)"
    unfolding Client_TickNetwork_def get Let_def split_conv using t(1) assms(2) h'(1) hp by (simp add: done_msg_def)
  then have "client_turn portv junk st dg s = Inr (t\<lparr>net_heap := h'\<rparr>)"
    using assms(2) by (simp add: client_turn_def m(1) Client_Tick_def)
  moreover have "at_rest t" using at_rest_same_net [OF t(2) handling_rest [OF assms(1)]] m(2) by (simp add: carries_def)
  then have "at_rest (t\<lparr>net_heap := h'\<rparr>)" using h'(2) by (simp add: at_rest_def)
  moreover have "stays (t\<lparr>net_heap := h'\<rparr>) s" using t(2,4) by (simp add: stays_def same_net_def handling_def push_def)
  ultimately show ?thesis using t(3) by auto
qed

lemma client_accepted:
  assumes "at_rest s" and "ct_state s = CLIENT_CONNECTING" and "ct_phase s = CLIENT_HELLO_SENT"
    and "datagram_of NETMSG_SERVER_HELLO [hello_byte HELLO_OK] (dg_buf dg)"
  shows "\<exists>t. client_turn portv junk st dg s = Inr t \<and> at_rest t \<and> stays t s \<and>
    conn t = (CLIENT_CONNECTING, CLIENT_DOWNLOAD_WORLD, ct_progress s, ct_world s)"
proof (rule client_answered [OF assms(1,2)])
  fix m h assume m: "carries m h NETMSG_SERVER_HELLO [hello_byte HELLO_OK]"
  then have "NetMsg_Read 1 m h = Inr ([hello_byte HELLO_OK], m\<lparr>nm_read := nm_read m + 1\<rparr>)"
    using NetMsg_Read_ok(1) [of m h "[hello_byte HELLO_OK]" "[]"] by (simp add: carries_def)
  then show "\<exists>t. TickNetworkConnecting portv junk (Some m) (handling m h s) = Inr t \<and> same_net t (handling m h s) \<and> net_sent t = net_sent s \<and>
      conn t = (CLIENT_CONNECTING, CLIENT_DOWNLOAD_WORLD, ct_progress s, ct_world s)"
    using m assms(2,3) by (simp add: TickNetworkConnecting_def carries_def u8_dec_def same_net_def conn_def)
qed (use assms(4) in \<open>simp_all add: MAX_PACKET_SIZE_def NETMSG_LAST_VALID_def NETMSG_SERVER_SHUTDOWN_def NETMSG_SERVER_HELLO_def\<close>)

lemma client_told_of_world:
  assumes "at_rest s" and "ct_state s = CLIENT_CONNECTING" and "ct_phase s = CLIENT_DOWNLOAD_WORLD_SENT"
    and "is_c_string nm" and "length nm + 13 + length rest \<le> MAX_PACKET_SIZE"
    and "datagram_of NETMSG_WORLD_DOWNLOAD_START (z_bytes nm @ vec_enc v @ u32_enc n @ rest) (dg_buf dg)"
  shows "\<exists>t. client_turn portv junk st dg s = Inr t \<and> at_rest t \<and> stays t s \<and>
    conn t = (CLIENT_CONNECTING, CLIENT_DOWNLOADING_WORLD, ct_progress s, World_Init junk (vec2_of_words v) (ct_world s))"
proof (rule client_answered [OF assms(1,2)])
  let ?bs = "z_bytes nm @ vec_enc v @ u32_enc n @ rest"
  show "length ?bs \<le> MAX_PACKET_SIZE" using assms(5) by (simp add: length_vec_enc length_u32_enc)
  fix m h assume m: "carries m h NETMSG_WORLD_DOWNLOAD_START ?bs"
  then have u: "readable m h" "unread m h = z_bytes nm @ (vec_enc v @ (u32_enc n @ rest))" by (simp_all add: carries_def z_bytes_def)
  note s1 = NetMsg_Read_string_ok [OF u assms(4)]
  note s2 = NetMsg_Read_ok [OF s1(2,3)]
  note s3 = NetMsg_Read_ok(1) [OF s2(2,3)]
  show "\<exists>t. TickNetworkConnecting portv junk (Some m) (handling m h s) = Inr t \<and> same_net t (handling m h s) \<and> net_sent t = net_sent s \<and>
      conn t = (CLIENT_CONNECTING, CLIENT_DOWNLOADING_WORLD, ct_progress s, World_Init junk (vec2_of_words v) (ct_world s))"
    using s1(1) s2(1) s3 assms(2,3)
    by (simp add: TickNetworkConnecting_def length_vec_enc length_u32_enc vec_dec_enc same_net_def conn_def)
qed (use assms(6) in \<open>simp_all add: NETMSG_LAST_VALID_def NETMSG_SERVER_SHUTDOWN_def NETMSG_WORLD_DOWNLOAD_START_def\<close>)


section \<open>Joining\<close>

definition silent_tick :: client_event where "silent_tick = ClientTick (Fin 6769) (\<lambda>_. 0) NET_SUCCESS"

definition hears :: "byte \<Rightarrow> byte list \<Rightarrow> client_event list" where
  "hears ty bs = [ClientFrame 0 0 0 False [] (True, Some (server_datagram ty bs)), silent_tick]"

text \<open>Connecting, resolving, greeting, being accepted, asking, being told of the world.\<close>

definition joining :: "string \<Rightarrow> string \<Rightarrow> u32 \<times> u32 \<Rightarrow> u32 \<Rightarrow> client_event list" where
  "joining player mapName v n =
     [ClientConnect player (Some 1), silent_tick, silent_tick] @ hears NETMSG_SERVER_HELLO [hello_byte HELLO_OK] @
     [silent_tick] @ hears NETMSG_WORLD_DOWNLOAD_START (z_bytes mapName @ vec_enc v @ u32_enc n)"

lemma client_hears:
  assumes "client_turn (Fin 6769) (\<lambda>_. 0) NET_SUCCESS (server_datagram ty bs) s = Inr t" and "ct_state s \<noteq> CLIENT_CONNECTED"
  shows "fold_res client_do (hears ty bs) s = Inr t"
proof -
  obtain u where u: "NetMode_Frame (True, Some (server_datagram ty bs)) s = Inr u" "Client_Tick (Fin 6769) (\<lambda>_. 0) NET_SUCCESS u = Inr t"
    using assms(1) by (auto simp: client_turn_def bind_res_eq_Inr)
  moreover have "ct_state u \<noteq> CLIENT_CONNECTED" using NetMode_Frame_conn [OF u(1)] assms(2) by (simp add: conn_def)
  ultimately show ?thesis by (simp add: hears_def silent_tick_def Client_Frame_def)
qed

lemma port_ok: "f32_to_u16 (Fin 6769) = Inr 6769"
  by code_simp

lemma joining_start:
  assumes "nb_ok s" and "netBufferPtr s = -1" and "heap_wf (net_heap s)" and "length (ct_name s) = CLIENT_NAME_MAX"
    and "is_c_string player" and "length player < CLIENT_NAME_MAX"
  shows "\<exists>t. fold_res client_do [ClientConnect player (Some 1), silent_tick] s = Inr t \<and> at_rest t \<and>
    conn t = (CLIENT_CONNECTING, CLIENT_HELLO, ct_progress s, ct_world s) \<and> c_str (ct_name t) = player \<and> net_sent t = net_sent s \<and> serverAddress t = Some 1"
proof -
  let ?nm = "strncpy (ct_name s) player CLIENT_NAME_MAX"
  have "length ?nm = CLIENT_NAME_MAX" "NUL \<in> set ?nm"
    using assms(4,6) strncpy_short [of player CLIENT_NAME_MAX "ct_name s"] by auto
  then show ?thesis
    using c_str_strncpy [OF assms(5,6), of "ct_name s"]
    using assms(1-3)
    by (simp add: silent_tick_def Client_Connect_def Client_SetState_def Client_Tick_def Let_def at_rest_def nb_ok_def conn_def)
qed


lemma joining_ok:
  assumes "nb_ok s" and "netBufferPtr s = -1" and "heap_wf (net_heap s)" and "length (ct_name s) = CLIENT_NAME_MAX"
    and "is_c_string player" and "length player < CLIENT_NAME_MAX" and "is_c_string mapName" and "length mapName + 13 \<le> MAX_PACKET_SIZE"
  shows "\<exists>t. fold_res client_do (joining player mapName v n) s = Inr t \<and> at_rest t \<and>
    conn t = (CLIENT_CONNECTING, CLIENT_DOWNLOADING_WORLD, ct_progress s, World_Init (\<lambda>_. 0) (vec2_of_words v) (ct_world s))"
proof -
  obtain s1 where s1: "fold_res client_do [ClientConnect player (Some 1), silent_tick] s = Inr s1" "at_rest s1"
    "conn s1 = (CLIENT_CONNECTING, CLIENT_HELLO, ct_progress s, ct_world s)"
    using joining_start [OF assms(1-6)] by blast
  obtain s2 where s2: "client_do silent_tick s1 = Inr s2" "at_rest s2"
    "conn s2 = (CLIENT_CONNECTING, CLIENT_HELLO_SENT, ct_progress s, ct_world s)"
    using tick_says_hello [OF s1(2) _ _ port_ok, of "\<lambda>_. 0" NET_SUCCESS] s1(3) by (auto simp: conn_def silent_tick_def)
  obtain s3 where s3: "fold_res client_do (hears NETMSG_SERVER_HELLO [hello_byte HELLO_OK]) s2 = Inr s3" "at_rest s3"
    "conn s3 = (CLIENT_CONNECTING, CLIENT_DOWNLOAD_WORLD, ct_progress s, ct_world s)"
    using client_accepted [OF s2(2) _ _ datagram_of_server, of "Fin 6769" "\<lambda>_. 0" NET_SUCCESS] client_hears [of _ _ s2] s2(3) by (fastforce simp: conn_def)
  obtain s4 where s4: "client_do silent_tick s3 = Inr s4" "at_rest s4"
    "conn s4 = (CLIENT_CONNECTING, CLIENT_DOWNLOAD_WORLD_SENT, ct_progress s, ct_world s)"
    using tick_asks_for_world [OF s3(2) _ _ port_ok, of "\<lambda>_. 0" NET_SUCCESS] s3(3) by (auto simp: conn_def silent_tick_def)
  obtain s5 where s5: "fold_res client_do (hears NETMSG_WORLD_DOWNLOAD_START (z_bytes mapName @ vec_enc v @ u32_enc n)) s4 = Inr s5"
    "at_rest s5" "conn s5 = (CLIENT_CONNECTING, CLIENT_DOWNLOADING_WORLD, ct_progress s, World_Init (\<lambda>_. 0) (vec2_of_words v) (ct_world s))"
    using client_told_of_world [OF s4(2) _ _ assms(7) _ datagram_of_server, where rest = "[]" and v = v and n = n and portv = "Fin 6769" and junk = "\<lambda>_. 0" and st = NET_SUCCESS] assms(8) client_hears [of _ _ s4] s4(3)
    by (fastforce simp: conn_def)
  have "joining player mapName v n = [ClientConnect player (Some 1), silent_tick] @ [silent_tick] @
      hears NETMSG_SERVER_HELLO [hello_byte HELLO_OK] @ [silent_tick] @
      hears NETMSG_WORLD_DOWNLOAD_START (z_bytes mapName @ vec_enc v @ u32_enc n)"
    by (simp add: joining_def)
  then have "fold_res client_do (joining player mapName v n) s = Inr s5"
    using s1(1) s2(1) s3(1) s4(1) s5(1) by (simp only: fold_res_append fold_res.simps bind_res_Inr)
  then show ?thesis using s5(2,3) by blast
qed



lemma tick_lets_go:
  assumes "at_rest s" and "ct_state s = CLIENT_CONNECTING" and "ct_phase s = CLIENT_LETS_GO"
  shows "Client_Tick portv junk st s = Inr (s\<lparr>ct_state := CLIENT_CONNECTED\<rparr>)"
  unfolding Client_Tick_at_rest [OF assms(1,2)] using assms(3) by (simp add: TickNetworkConnecting_def Client_SetState_def)


text \<open>A client that has the first \<open>p\<close> of the tiles.\<close>

definition world_has :: "byte list \<Rightarrow> nat \<Rightarrow> world \<Rightarrow> bool" where
  "world_has ts p w \<longleftrightarrow> GetSizeInBytes w = length ts \<and>
     (\<exists>cur. tileData w = Some cur \<and> length cur = length ts \<and> take p cur = take p ts)"

lemma store_chunk_ok:
  assumes "world_has ts p (ct_world s)" and "ct_progress s = p" and "p < length ts" and "carries m (net_heap s) ty (chunk_at ts p)"
  shows "\<exists>w. store_chunk m s = Inr w \<and> world_has ts (p + length (chunk_at ts p)) w \<and> nm_size m = length (chunk_at ts p)"
proof -
  let ?n = "length (chunk_at ts p)"
  obtain cur where cur: "tileData (ct_world s) = Some cur" "length cur = length ts" "take p cur = take p ts"
    and s: "GetSizeInBytes (ct_world s) = length ts"
    using assms(1) by (auto simp: world_has_def)
  have bs: "chunk_at ts p \<noteq> []" using assms(3) length_chunk_at [of ts p] by (auto simp: MAX_PACKET_SIZE_def)
  then obtain a where a: "nm_data m = Some a" "blocks (net_heap s) a = Some (chunk_at ts p)" "nm_size m = ?n"
    using assms(4) by (auto simp: carries_def readable_def unread_def block_of_def)
  note put = chunk_put [OF cur(2,3) assms(3)]
  have "store_chunk m s = Inr ((ct_world s)\<lparr>tileData := Some (take p cur @ chunk_at ts p @ drop (p + ?n) cur)\<rparr>)"
    using a bs cur(1,2) assms(2) put(3) by (simp add: store_chunk_def Let_def read_block_def)
  then show ?thesis using put(1,2) s a(3) by (simp add: world_has_def GetSizeInBytes_def del: take_append)
qed

lemma client_gets_chunk:
  assumes "at_rest s" and "conn s = (CLIENT_CONNECTING, CLIENT_DOWNLOADING_WORLD, p, w)" and "world_has ts p w" and "p < length ts"
    and "datagram_of NETMSG_WORLD_DOWNLOAD_PACKET (chunk_at ts p) (dg_buf dg)"
  shows "\<exists>t w'. client_turn portv junk st dg s = Inr t \<and> at_rest t \<and> stays t s \<and>
    conn t = (CLIENT_CONNECTING, if length ts \<le> p + length (chunk_at ts p) then CLIENT_LETS_GO else CLIENT_DOWNLOADING_WORLD,
      p + length (chunk_at ts p), w') \<and> world_has ts (p + length (chunk_at ts p)) w'"
proof -
  let ?n = "length (chunk_at ts p)"
  define P where "P = (\<lambda>c. \<exists>w'. c = (CLIENT_CONNECTING, if length ts \<le> p + ?n then CLIENT_LETS_GO else CLIENT_DOWNLOADING_WORLD,
      p + ?n, w') \<and> world_has ts (p + ?n) w')"
  have s: "ct_state s = CLIENT_CONNECTING" "ct_phase s = CLIENT_DOWNLOADING_WORLD" "ct_progress s = p" "ct_world s = w"
    using assms(2) by (simp_all add: conn_def)
  have size: "GetSizeInBytes w = length ts" using assms(3) by (simp add: world_has_def)
  have "\<exists>t. client_turn portv junk st dg s = Inr t \<and> at_rest t \<and> stays t s \<and> P (conn t)"
  proof (rule client_answered [OF assms(1) s(1)])
    fix m h assume m: "carries m h NETMSG_WORLD_DOWNLOAD_PACKET (chunk_at ts p)"
    let ?u = "handling m h s"
    obtain w' where w': "store_chunk m ?u = Inr w'" "world_has ts (p + ?n) w'" "nm_size m = ?n"
      using store_chunk_ok [of ts p ?u m NETMSG_WORLD_DOWNLOAD_PACKET] m s assms(3,4) by auto
    let ?v = "?u\<lparr>ct_world := w', ct_progress := p + ?n\<rparr>"
    have "TickNetworkConnecting portv junk (Some m) ?u = Inr (if length ts \<le> p + ?n then ?v\<lparr>ct_phase := CLIENT_LETS_GO\<rparr> else ?v)"
      using m s size w'(1,3) by (simp add: TickNetworkConnecting_def ConnectDownloadWorldChunk_def Let_def carries_def)
    then show "\<exists>t. TickNetworkConnecting portv junk (Some m) ?u = Inr t \<and> same_net t ?u \<and> net_sent t = net_sent s \<and> P (conn t)"
      using w'(2) s by (simp add: P_def same_net_def conn_def)
  qed (use assms(5) in \<open>simp_all add: length_chunk_at NETMSG_LAST_VALID_def NETMSG_SERVER_SHUTDOWN_def NETMSG_WORLD_DOWNLOAD_PACKET_def\<close>)
  then show ?thesis by (auto simp: P_def)
qed

text \<open>The chunks of \<open>ts\<close> from \<open>p\<close> on.\<close>

fun chunk_run :: "byte list \<Rightarrow> nat \<Rightarrow> nat \<Rightarrow> client_event list" where
  "chunk_run ts p 0 = []"
| "chunk_run ts p (Suc k) = hears NETMSG_WORLD_DOWNLOAD_PACKET (chunk_at ts p) @ chunk_run ts (p + MAX_PACKET_SIZE) k"

lemma client_gets_chunks:
  assumes "at_rest s" and "conn s = (CLIENT_CONNECTING, CLIENT_DOWNLOADING_WORLD, p, w)" and "world_has ts p w" and "chunks_left ts p (Suc k)"
  shows "\<exists>t w' q. fold_res client_do (chunk_run ts p (Suc k)) s = Inr t \<and> at_rest t \<and>
    conn t = (CLIENT_CONNECTING, CLIENT_LETS_GO, q, w') \<and> tileData w' = Some ts"
  using assms
proof (induction k arbitrary: s p w)
  case 0
  have p: "p < length ts" "length ts \<le> p + MAX_PACKET_SIZE" using 0(4) by (auto simp: chunks_left_def)
  then have n: "p + length (chunk_at ts p) = length ts" by (simp add: length_chunk_at)
  obtain t w' where t: "client_turn (Fin 6769) (\<lambda>_. 0) NET_SUCCESS (server_datagram NETMSG_WORLD_DOWNLOAD_PACKET (chunk_at ts p)) s = Inr t"
    "at_rest t" "conn t = (CLIENT_CONNECTING, CLIENT_LETS_GO, length ts, w')" "world_has ts (length ts) w'"
    using client_gets_chunk [OF 0(1,2,3) p(1) datagram_of_server, of "Fin 6769" "\<lambda>_. 0" NET_SUCCESS] unfolding n by auto
  have "ct_state s \<noteq> CLIENT_CONNECTED" using 0(2) by (simp add: conn_def)
  moreover have "tileData w' = Some ts" using t(4) by (auto simp: world_has_def)
  ultimately show ?case using client_hears [OF t(1)] t(2,3) by auto
next
  case (Suc k)
  let ?q = "p + MAX_PACKET_SIZE"
  have more: "p < length ts" "\<not> length ts \<le> ?q" and left: "chunks_left ts ?q (Suc k)"
    using Suc.prems(4) by (auto simp: chunks_left_def MAX_PACKET_SIZE_def)
  then have n: "p + length (chunk_at ts p) = ?q" by (simp add: length_chunk_at)
  obtain t w' where t: "client_turn (Fin 6769) (\<lambda>_. 0) NET_SUCCESS (server_datagram NETMSG_WORLD_DOWNLOAD_PACKET (chunk_at ts p)) s = Inr t"
    "at_rest t" "conn t = (CLIENT_CONNECTING, CLIENT_DOWNLOADING_WORLD, ?q, w')" "world_has ts ?q w'"
    using client_gets_chunk [OF Suc.prems(1,2,3) more(1) datagram_of_server, of "Fin 6769" "\<lambda>_. 0" NET_SUCCESS] more(2) unfolding n by auto
  have "ct_state s \<noteq> CLIENT_CONNECTED" using Suc.prems(2) by (simp add: conn_def)
  then have "fold_res client_do (hears NETMSG_WORLD_DOWNLOAD_PACKET (chunk_at ts p)) s = Inr t" by (rule client_hears [OF t(1)])
  then show ?case using Suc.IH [OF t(2,3,4) left] by (simp add: fold_res_append)
qed


definition full_run :: "string \<Rightarrow> string \<Rightarrow> u32 \<times> u32 \<Rightarrow> u32 \<Rightarrow> byte list \<Rightarrow> client_event list" where
  "full_run player mapName v n ts =
     joining player mapName v n @ chunk_run ts 0 ((length ts + (MAX_PACKET_SIZE - 1)) div MAX_PACKET_SIZE) @ [silent_tick]"

lemma World_Init_has:
  assumes "sint (fst v) * sint (snd v) = int (length ts)" and "ts \<noteq> []" and "length ts < 2 ^ 31"
  shows "world_has ts 0 (World_Init junk (vec2_of_words v) w)"
proof -
  have m: "i32_mul (sint (fst v)) (sint (snd v)) = int (length ts)"
    using assms(1,3) by (simp add: i32_mul_def to_i32_def)
  moreover have "sint (fst v) \<noteq> 0" "sint (snd v) \<noteq> 0" using assms(1,2) by auto
  moreover have "to_u32 (int (length ts)) = length ts" "to_size (int (length ts)) = length ts"
    using assms(3) by (simp_all add: to_u32_def to_size_def nat_mod_distrib)
  ultimately show ?thesis by (simp add: world_has_def World_Init_def GetSizeInBytes_def vec2_of_words_def Let_def)
qed

lemma full_run_ok:
  assumes "nb_ok s" and "netBufferPtr s = -1" and "heap_wf (net_heap s)" and "length (ct_name s) = CLIENT_NAME_MAX" and "ct_progress s = 0"
    and "is_c_string player" and "length player < CLIENT_NAME_MAX" and "is_c_string mapName" and "length mapName + 13 \<le> MAX_PACKET_SIZE"
    and "sint (fst v) * sint (snd v) = int (length ts)" and "ts \<noteq> []" and "length ts < 2 ^ 31"
  shows "\<exists>t. fold_res client_do (full_run player mapName v n ts) s = Inr t \<and> ct_state t = CLIENT_CONNECTED \<and>
    tileData (ct_world t) = Some ts"
proof -
  obtain t1 where t1: "fold_res client_do (joining player mapName v n) s = Inr t1" "at_rest t1"
    "conn t1 = (CLIENT_CONNECTING, CLIENT_DOWNLOADING_WORLD, 0, World_Init (\<lambda>_. 0) (vec2_of_words v) (ct_world s))"
    using joining_ok [OF assms(1-4,6-9)] assms(5) by metis
  have "0 < (length ts + (MAX_PACKET_SIZE - 1)) div MAX_PACKET_SIZE"
    using assms(11) by (simp add: MAX_PACKET_SIZE_def div_greater_zero_iff Suc_le_eq)
  then obtain k where k: "(length ts + (MAX_PACKET_SIZE - 1)) div MAX_PACKET_SIZE = Suc k" by (metis gr0_implies_Suc)
  have "chunks_left ts 0 (Suc k)" using k assms(11) by (auto simp: chunks_left_def MAX_PACKET_SIZE_def)
  then obtain t2 w q where t2: "fold_res client_do (chunk_run ts 0 (Suc k)) t1 = Inr t2" "at_rest t2"
    "conn t2 = (CLIENT_CONNECTING, CLIENT_LETS_GO, q, w)" "tileData w = Some ts"
    using client_gets_chunks [OF t1(2,3) World_Init_has [OF assms(10-12)]] by blast
  have "client_do silent_tick t2 = Inr (t2\<lparr>ct_state := CLIENT_CONNECTED\<rparr>)"
    using tick_lets_go [OF t2(2)] t2(3) by (simp add: silent_tick_def conn_def)
  then have "fold_res client_do (full_run player mapName v n ts) s = Inr (t2\<lparr>ct_state := CLIENT_CONNECTED\<rparr>)"
    using t1(1) t2(1) k by (simp only: full_run_def fold_res_append fold_res.simps bind_res_Inr)
  then show ?thesis using t2(3,4) by (simp add: conn_def)
qed

text \<open>
  C4. A client gets in: told to connect, and answered with a greeting, the announcement of a world of any size below two
  gigabytes, and its chunks in order, it resolves, greets, asks, downloads, and is connected with exactly the server's tiles.
\<close>

theorem client_joins:
  assumes "nb_ok s" and "netBufferPtr s = -1" and "heap_wf (net_heap s)" and "length (ct_name s) = CLIENT_NAME_MAX" and "ct_progress s = 0"
    and "is_c_string player" and "length player < CLIENT_NAME_MAX" and "is_c_string mapName" and "length mapName + 13 \<le> MAX_PACKET_SIZE"
    and "sint (fst v) * sint (snd v) = int (length ts)" and "ts \<noteq> []" and "length ts < 2 ^ 31"
  shows "\<exists>t. fold_res client_do (full_run player mapName v n ts) s = Inr t \<and> ct_state t = CLIENT_CONNECTED \<and>
    tileData (ct_world t) = Some ts"
  by (rule full_run_ok [OF assms])

definition client_before :: client where
  "client_before = (client0 CLIENT_HELLO world0)\<lparr>ct_state := CLIENT_UNCONNECTED\<rparr>"

lemma client_before_simps [simp]:
  "nb_ok client_before" "netBufferPtr client_before = -1" "heap_wf (net_heap client_before)" "ct_progress client_before = 0"
  "length (ct_name client_before) = CLIENT_NAME_MAX" "client_start client_before"
  using net0_ok by (simp_all add: client_before_def client_start_def client0_def nb_ok_def net0_def)

theorem client_joins_witness:
  "\<exists>t. fold_res client_do (full_run ''Player'' ''map'' (2, 2) 4 [0, 1, 2, 3]) client_before = Inr t \<and> ct_state t = CLIENT_CONNECTED \<and>
    tileData (ct_world t) = Some [0, 1, 2, 3]"
  using client_joins [of client_before "''Player''" "''map''" "(2, 2)" "[0, 1, 2, 3]" 4]
  by (simp add: CLIENT_NAME_MAX_def MAX_PACKET_SIZE_def NUL_def)

text \<open>
  C12. Whatever the order of ticks, frames and datagrams, and whoever sent them: a client that is connected has gone
  through the whole connection and has been sent at least as many bytes as its world has tiles.
\<close>

theorem connected_after_download:
  assumes "client_start s" and "fold_res client_do es s = Inr t" and "ct_state t = CLIENT_CONNECTED"
  shows "ct_phase t = CLIENT_LETS_GO \<and> GetSizeInBytes (ct_world t) \<le> ct_progress t"
  using cm.inv_reachable [OF assms(1) client_run_steps [OF assms(2)]] assms(3) by (simp add: client_inv_def)

theorem connected_after_download_witness:
  "\<exists>t. fold_res client_do (full_run ''Player'' ''map'' (2, 2) 4 [0, 1, 2, 3]) client_before = Inr t \<and> ct_state t = CLIENT_CONNECTED \<and>
    ct_phase t = CLIENT_LETS_GO \<and> GetSizeInBytes (ct_world t) \<le> ct_progress t"
proof -
  obtain t where "fold_res client_do (full_run ''Player'' ''map'' (2, 2) 4 [0, 1, 2, 3]) client_before = Inr t" "ct_state t = CLIENT_CONNECTED"
    using full_run_ok [of client_before "''Player''" "''map''" "(2, 2)" "[0, 1, 2, 3]" 4]
    by (auto simp: CLIENT_NAME_MAX_def MAX_PACKET_SIZE_def NUL_def)
  then show ?thesis using connected_after_download [OF client_before_simps(6)] by blast
qed

text \<open>
  C38. While it downloads, a client writes whatever a chunk holds to where it has got to: a chunk that is longer than what is left of the
  tiles, from any address and any port, is a write past the end of the tiles.
\<close>

theorem oversized_chunk:
  assumes "at_rest s" and "ct_state s = CLIENT_CONNECTING" and "ct_phase s = CLIENT_DOWNLOADING_WORLD"
    and "tileData (ct_world s) = Some ts" and "length ts < ct_progress s + length bs" and "bs \<noteq> []" and "length bs \<le> MAX_PACKET_SIZE"
  shows "client_turn portv junk st ((server_datagram NETMSG_WORLD_DOWNLOAD_PACKET bs)\<lparr>dg_addr := anyone, dg_port := anything\<rparr>) s = Inl OutOfBoundsWrite"
proof -
  let ?dg = "(server_datagram NETMSG_WORLD_DOWNLOAD_PACKET bs)\<lparr>dg_addr := anyone, dg_port := anything\<rparr>"
  have "NETMSG_WORLD_DOWNLOAD_PACKET \<le> NETMSG_LAST_VALID" and sd: "NETMSG_WORLD_DOWNLOAD_PACKET \<noteq> NETMSG_SERVER_SHUTDOWN"
    by (simp_all add: NETMSG_LAST_VALID_def NETMSG_SERVER_SHUTDOWN_def NETMSG_WORLD_DOWNLOAD_PACKET_def)
  then obtain m h where m: "NetMode_Frame (True, Some ?dg) s = Inr (push m h s)" "carries m h NETMSG_WORLD_DOWNLOAD_PACKET bs"
    using client_receives [OF assms(1,7), of NETMSG_WORLD_DOWNLOAD_PACKET ?dg] datagram_of_server [of NETMSG_WORLD_DOWNLOAD_PACKET bs] by auto
  then obtain a where a: "nm_data m = Some a" "blocks h a = Some bs" "nm_size m = length bs" "h_type (nm_header m) = NETMSG_WORLD_DOWNLOAD_PACKET"
    using assms(6) by (auto simp: carries_def readable_def unread_def block_of_def)
  have "store_chunk m (handling m h s) = Inl OutOfBoundsWrite"
    using a assms(4,5,6) by (simp add: store_chunk_def Let_def read_block_def)
  then have "TickNetworkConnecting portv junk (Some m) (handling m h s) = Inl OutOfBoundsWrite"
    using a(4) assms(3) by (simp add: TickNetworkConnecting_def ConnectDownloadWorldChunk_def Let_def map_res_def)
  moreover have get: "GetMessage (push m h s) = (Some m, handling m h s)"
    using assms(1) by (simp add: GetMessage_def at_rest_def nb_ok_def NET_BUFFER_SIZE_def handling_def)
  ultimately have "Client_TickNetwork portv junk (push m h s) = Inl OutOfBoundsWrite"
    unfolding Client_TickNetwork_def get Let_def split_conv using a(4) sd assms(2) by simp
  then show ?thesis using assms(2) by (simp add: client_turn_def m(1) Client_Tick_def)
qed

theorem oversized_chunk_witness:
  "client_turn (Fin 6769) (\<lambda>_. 0) NET_SUCCESS ((server_datagram NETMSG_WORLD_DOWNLOAD_PACKET [1, 2, 3, 4, 5])\<lparr>dg_addr := 66, dg_port := 1\<rparr>)
    ((client0 CLIENT_DOWNLOADING_WORLD (small_world))\<lparr>serverAddress := Some 1\<rparr>) = Inl OutOfBoundsWrite"
  using net0_ok by (intro oversized_chunk [of _ "[0, 1, 2, 3]"])
    (simp_all add: at_rest_def client0_def small_world_def nb_ok_def net0_def MAX_PACKET_SIZE_def CLIENT_NAME_MAX_def)

end
