(* ===== verification/Capy_Roster.thy ===== *)
theory Capy_Roster
  imports Capy_Handshake
begin

text \<open>
  What a connected client knows of the others: the remote calls that add and remove them, what a removal leaves behind,
  and calls the client does not know.
\<close>

section \<open>A remote call, from the datagram to the handler\<close>

lemma client_turn_rpc:
  assumes "at_rest s" and "ct_state s = CLIENT_CONNECTED" and "length bs \<le> MAX_PACKET_SIZE"
  shows "\<exists>m h. carries m h NETMSG_SERVER_RPC bs \<and>
    client_turn portv junk st (server_datagram NETMSG_SERVER_RPC bs) s = bind_res (OnRpcReceive m (handling m h s)) (done_msg m)"
proof -
  obtain m h where m: "NetMode_Frame (True, Some (server_datagram NETMSG_SERVER_RPC bs)) s = Inr (push m h s)" "carries m h NETMSG_SERVER_RPC bs"
    using client_receives [OF assms(1,3) _ datagram_of_server, of NETMSG_SERVER_RPC]
    by (auto simp: NETMSG_LAST_VALID_def NETMSG_SERVER_SHUTDOWN_def NETMSG_SERVER_RPC_def)
  have ty: "h_type (nm_header m) = NETMSG_SERVER_RPC" "h_type (nm_header m) \<noteq> NETMSG_SERVER_SHUTDOWN"
    using m(2) by (simp_all add: carries_def NETMSG_SERVER_SHUTDOWN_def NETMSG_SERVER_RPC_def)
  have get: "GetMessage (push m h s) = (Some m, handling m h s)"
    using assms(1) by (simp add: GetMessage_def at_rest_def nb_ok_def NET_BUFFER_SIZE_def handling_def)
  have "Client_TickNetwork portv junk (push m h s) = bind_res (OnRpcReceive m (handling m h s)) (done_msg m)"
    unfolding Client_TickNetwork_def get Let_def split_conv using ty assms(2) by (simp add: TickNetworkConnected_def)
  then show ?thesis using m assms(2) by (auto simp: client_turn_def Client_Tick_def)
qed

text \<open>The first byte of the call, and the string after it.\<close>

lemma OnRpcReceive_reads:
  assumes "carries m h ty (b # bs)"
  shows "\<exists>m'. NetMsg_Read 1 m h = Inr ([b], m') \<and> readable m' h \<and> unread m' h = bs"
  using NetMsg_Read_ok [of m h "[b]" bs] assms by (auto simp: carries_def)

lemma rpc_reads_name:
  assumes "carries m h ty (b # z_bytes u)" and "is_c_string u"
  shows "\<exists>m' p m''. NetMsg_Read 1 m h = Inr ([b], m') \<and> NetMsg_Read_string m' h = Inr (p, u, m'')"
proof -
  obtain m' where m': "NetMsg_Read 1 m h = Inr ([b], m')" "readable m' h" "unread m' h = z_bytes u @ []"
    using OnRpcReceive_reads [OF assms(1)] by auto
  then show ?thesis using NetMsg_Read_string_ok(1) [OF m'(2,3) assms(2)] by blast
qed

text \<open>
  A connected client has two remote calls. A call of any other kind, the server's announcement of a new entity included, is looked up
  in the table of methods all the same, which adds a null method that is then called.
\<close>

theorem unknown_rpc_calls_null:
  assumes "at_rest s" and "ct_state s = CLIENT_CONNECTED" and "length (b # bs) \<le> MAX_PACKET_SIZE"
    and "b \<noteq> NETMSG_RPC_REQUEST_CLIENT_CREATE" and "b \<noteq> NETMSG_RPC_REQUEST_CLIENT_DELETE"
  shows "client_turn portv junk st (server_datagram NETMSG_SERVER_RPC (b # bs)) s = Inl NullCall"
proof -
  obtain m h where m: "carries m h NETMSG_SERVER_RPC (b # bs)"
    "client_turn portv junk st (server_datagram NETMSG_SERVER_RPC (b # bs)) s = bind_res (OnRpcReceive m (handling m h s)) (done_msg m)"
    using client_turn_rpc [OF assms(1-3)] by blast
  have "OnRpcReceive m (handling m h s) = Inl NullCall"
    using OnRpcReceive_reads [OF m(1)] assms(4,5) by (auto simp: OnRpcReceive_def u8_dec_def)
  then show ?thesis using m(2) by simp
qed

definition connected_client :: client where
  "connected_client = (client0 CLIENT_LETS_GO world0)\<lparr>ct_state := CLIENT_CONNECTED, serverAddress := Some 1\<rparr>"

lemma at_rest_connected: "at_rest connected_client"
  using net0_ok by (simp add: at_rest_def connected_client_def client0_def nb_ok_def net0_def CLIENT_NAME_MAX_def)

theorem unknown_rpc_calls_null_witness:
  "client_turn (Fin 6769) (\<lambda>_. 0) NET_SUCCESS (server_datagram NETMSG_SERVER_RPC [NETMSG_RPC_REQUEST_ENTITY_CREATE, 1, 0, 0, 0]) connected_client = Inl NullCall"
  using at_rest_connected
  by (intro unknown_rpc_calls_null) (simp_all add: connected_client_def client0_def MAX_PACKET_SIZE_def NETMSG_RPC_REQUEST_ENTITY_CREATE_def
      NETMSG_RPC_REQUEST_CLIENT_CREATE_def NETMSG_RPC_REQUEST_CLIENT_DELETE_def)

section \<open>Leaving\<close>

text \<open>The others are the first slots, each with a live object of its own.\<close>

definition roster :: "nat list \<Rightarrow> client \<Rightarrow> bool" where
  "roster cs s \<longleftrightarrow> others s = map Some cs @ replicate (MAX_CLIENTS - length cs) None \<and> numOthers s = int (length cs) \<and>
     length cs < MAX_CLIENTS \<and> distinct cs \<and> (\<forall>c\<in>set cs. ct_objs s c \<noteq> None)"

definition is_called :: "client \<Rightarrow> nat \<Rightarrow> string \<Rightarrow> bool" where
  "is_called s c u \<longleftrightarrow> (case ct_objs s c of None \<Rightarrow> False | Some nm \<Rightarrow> strneq (c_str nm) u CLIENT_NAME_MAX)"

definition without_obj :: "nat \<Rightarrow> client \<Rightarrow> client" where
  "without_obj c s = s\<lparr>ct_objs := (ct_objs s)(c := None)\<rparr>"

lemma roster_slot: "roster cs s \<Longrightarrow> j < MAX_CLIENTS \<Longrightarrow> others s ! j = (if j < length cs then Some (cs ! j) else None)"
  by (simp add: roster_def nth_append)

lemma delete_first:
  assumes "roster cs s" and "i < length cs" and "is_called s (cs ! i) u" and "\<And>j. j < length cs \<Longrightarrow> j \<noteq> i \<Longrightarrow> \<not> is_called s (cs ! j) u"
  shows "fold_res (rpc_delete_slot u) [0..<MAX_CLIENTS] (False, s) = Inr (True, without_obj (cs ! i) s)"
proof -
  let ?P = "\<lambda>k r. r = (if i < k then (True, without_obj (cs ! i) s) else (False, s))"
  have n: "nat (numOthers s) = length cs" "length cs < MAX_CLIENTS" "distinct cs" using assms(1) by (auto simp: roster_def)
  have keep: "(others s)[length cs := None] = others s"
    using roster_slot [OF assms(1) n(2)] by (metis less_irrefl list_update_id)
  have "\<exists>r. fold_res (rpc_delete_slot u) [0..<MAX_CLIENTS] (False, s) = Inr r \<and> ?P MAX_CLIENTS r"
  proof (rule fold_res_upt)
    fix k r assume k: "k < MAX_CLIENTS" and r: "?P k r"
    have slot: "others s ! k = (if k < length cs then Some (cs ! k) else None)" by (rule roster_slot [OF assms(1) k])
    show "\<exists>r'. rpc_delete_slot u k r = Inr r' \<and> ?P (Suc k) r'"
    proof (cases "k < length cs")
      case True
      then obtain b where b: "ct_objs s (cs ! k) = Some b" using assms(1) nth_mem [OF True] by (fastforce simp: roster_def)
      have ne: "k \<noteq> i \<Longrightarrow> cs ! k \<noteq> cs ! i" using True assms(2) n(3) by (simp add: nth_eq_iff_index_eq)
      have c: "strneq (c_str b) u CLIENT_NAME_MAX \<longleftrightarrow> k = i" using assms(3) assms(4) [OF True] b by (cases "k = i") (auto simp: is_called_def)
      show ?thesis using r slot True b ne c n(1) keep by (cases k i rule: linorder_cases) (simp_all add: rpc_delete_slot_def without_obj_def)
    next
      case False
      then show ?thesis using r slot assms(2) by (auto simp: rpc_delete_slot_def without_obj_def)
    qed
  qed simp
  then show ?thesis using assms(2) n(2) by auto
qed

text \<open>After that, slot \<open>i\<close> holds a freed object.\<close>

definition dangling :: "nat list \<Rightarrow> nat \<Rightarrow> client \<Rightarrow> bool" where
  "dangling cs i s \<longleftrightarrow> Suc i < length cs \<and> length cs < MAX_CLIENTS \<and> distinct cs \<and> numOthers s = int (length cs) - 1 \<and>
     (\<forall>j\<le>i. others s ! j = Some (cs ! j)) \<and> ct_objs s (cs ! i) = None \<and> (\<forall>j<i. ct_objs s (cs ! j) \<noteq> None)"

lemma dangling_after:
  assumes "roster cs s" and "Suc i < length cs"
  shows "dangling cs i ((without_obj (cs ! i) s)\<lparr>numOthers := numOthers s - 1\<rparr>)"
  using assms roster_slot [OF assms(1)] by (auto simp: dangling_def without_obj_def roster_def nth_eq_iff_index_eq)

lemma delete_second:
  assumes "dangling cs i s"
  shows "fold_res (rpc_delete_slot u) [0..<MAX_CLIENTS] (False, s) = Inl UseAfterFree"
proof -
  let ?P = "\<lambda>k (b::bool, t::client). numOthers t = numOthers s \<and> (\<forall>j\<le>i. others t ! j = Some (cs ! j)) \<and> ct_objs t (cs ! i) = None \<and>
    (\<forall>j. k \<le> j \<longrightarrow> j < i \<longrightarrow> ct_objs t (cs ! j) \<noteq> None)"
  have n: "nat (numOthers s) = length cs - 1" "Suc i < length cs" "length cs < MAX_CLIENTS" "distinct cs" using assms by (auto simp: dangling_def)
  have "\<exists>r. fold_res (rpc_delete_slot u) [0..<i] (False, s) = Inr r \<and> ?P i r"
  proof (rule fold_res_upt [of ?P])
    show "?P 0 (False, s)" using assms by (auto simp: dangling_def)
    fix k r assume k: "k < i" and r: "?P k r"
    obtain b t where bt: "r = (b, t)" by (cases r)
    obtain nm where live: "ct_objs t (cs ! k) = Some nm" using r k bt by auto
    have slot: "others t ! k = Some (cs ! k)" using r k bt by auto
    have ne: "\<And>j. j \<le> i \<Longrightarrow> j \<noteq> k \<Longrightarrow> cs ! j \<noteq> cs ! k" using k n(2,4) by (simp add: nth_eq_iff_index_eq)
    have last: "nat (numOthers t) = length cs - 1" using r n(1) bt by simp
    show "\<exists>r'. rpc_delete_slot u k r = Inr r' \<and> ?P (Suc k) r'"
      using r live slot ne k n(2) last unfolding bt by (cases "strneq (c_str nm) u CLIENT_NAME_MAX") (simp_all add: rpc_delete_slot_def)
  qed
  then obtain b t where t: "fold_res (rpc_delete_slot u) [0..<i] (False, s) = Inr (b, t)" "others t ! i = Some (cs ! i)" "ct_objs t (cs ! i) = None"
    by auto
  have "[0..<MAX_CLIENTS] = [0..<i] @ i # [Suc i..<MAX_CLIENTS]"
    using n(2,3) upt_add_eq_append [of 0 i "MAX_CLIENTS - i"] by (simp add: upt_conv_Cons)
  then show ?thesis using t by (simp add: fold_res_append rpc_delete_slot_def)
qed

text \<open>Both at the level of the remote call.\<close>

lemma OnRpcReceive_delete:
  assumes "carries m (net_heap s) ty (NETMSG_RPC_REQUEST_CLIENT_DELETE # z_bytes u)" and "is_c_string u"
    and "0 \<le> numOthers s" and "numOthers s < int MAX_CLIENTS"
  shows "OnRpcReceive m s = map_res (\<lambda>(found, s). if found then s\<lparr>numOthers := numOthers s - 1\<rparr> else s)
          (fold_res (rpc_delete_slot u) [0..<MAX_CLIENTS] (False, s))"
proof -
  obtain m' p m'' where r: "NetMsg_Read 1 m (net_heap s) = Inr ([NETMSG_RPC_REQUEST_CLIENT_DELETE], m')"
    "NetMsg_Read_string m' (net_heap s) = Inr (p, u, m'')"
    using rpc_reads_name [OF assms(1,2)] by blast
  then show ?thesis using assms(3,4)
    by (simp add: OnRpcReceive_def u8_dec_def OnRpcClientDelete_def NETMSG_RPC_REQUEST_CLIENT_CREATE_def NETMSG_RPC_REQUEST_CLIENT_DELETE_def)
qed

lemma roster_net: "roster cs (handling m h s) = roster cs s" "dangling cs i (handling m h s) = dangling cs i s"
    "is_called (handling m h s) c u = is_called s c u" "dangling cs i (s\<lparr>net_heap := h\<rparr>) = dangling cs i s"
  by (simp_all add: roster_def dangling_def is_called_def handling_def push_def)

lemma OnRpcReceive_dangling:
  assumes "dangling cs i s" and "carries m (net_heap s) ty (NETMSG_RPC_REQUEST_CLIENT_DELETE # z_bytes u)" and "is_c_string u"
  shows "OnRpcReceive m s = Inl UseAfterFree"
proof -
  have "0 \<le> numOthers s" "numOthers s < int MAX_CLIENTS" using assms(1) by (auto simp: dangling_def)
  then show ?thesis using OnRpcReceive_delete [OF assms(2,3)] delete_second [OF assms(1)] by (simp add: map_res_def)
qed

definition leave_datagram :: "string \<Rightarrow> datagram" where
  "leave_datagram u = server_datagram NETMSG_SERVER_RPC (NETMSG_RPC_REQUEST_CLIENT_DELETE # z_bytes u)"

text \<open>
  When the server says that a client other than the last one has left, the object is freed but its slot is kept: the slot that is cleared is
  the one after the last. Whoever leaves next, the search for the name then reads the freed object.
\<close>

theorem leaving_dangles:
  assumes "at_rest s" and "ct_state s = CLIENT_CONNECTED" and "roster cs s" and "Suc i < length cs" and "is_called s (cs ! i) u"
    and "\<And>j. j < length cs \<Longrightarrow> j \<noteq> i \<Longrightarrow> \<not> is_called s (cs ! j) u" and "is_c_string u" and "length u < CLIENT_NAME_MAX"
    and "is_c_string u'" and "length u' < CLIENT_NAME_MAX"
  shows "\<exists>t. client_turn portv junk st (leave_datagram u) s = Inr t \<and> others t = others s \<and> ct_objs t (cs ! i) = None \<and>
    numOthers t = numOthers s - 1 \<and> client_turn portv junk st (leave_datagram u') t = Inl UseAfterFree"
proof -
  let ?bs = "\<lambda>u. NETMSG_RPC_REQUEST_CLIENT_DELETE # z_bytes u"
  have len: "length (?bs u) \<le> MAX_PACKET_SIZE" "length (?bs u') \<le> MAX_PACKET_SIZE"
    using assms(8,10) by (simp_all add: MAX_PACKET_SIZE_def CLIENT_NAME_MAX_def)
  obtain m h where m: "carries m h NETMSG_SERVER_RPC (?bs u)"
    "client_turn portv junk st (leave_datagram u) s = bind_res (OnRpcReceive m (handling m h s)) (done_msg m)"
    using client_turn_rpc [OF assms(1,2) len(1)] unfolding leave_datagram_def by blast
  let ?u = "handling m h s"
  let ?v = "(without_obj (cs ! i) ?u)\<lparr>numOthers := numOthers ?u - 1\<rparr>"
  have n: "numOthers ?u = int (length cs)" "length cs < MAX_CLIENTS" "numOthers s = int (length cs)"
    using assms(3) by (auto simp: roster_def handling_def push_def)
  have "fold_res (rpc_delete_slot u) [0..<MAX_CLIENTS] (False, ?u) = Inr (True, without_obj (cs ! i) ?u)"
    using delete_first [of cs ?u i u] assms(3-6) by (simp add: roster_net)
  then have "OnRpcReceive m ?u = Inr ?v"
    using OnRpcReceive_delete [of m ?u NETMSG_SERVER_RPC u] m(1) assms(7) n by (simp add: without_obj_def)
  moreover obtain h' where h': "DoneMessage m h = Inr h'" "heap_wf h'" using DoneMessage_carries [OF m(1)] by blast
  ultimately have t: "client_turn portv junk st (leave_datagram u) s = Inr (?v\<lparr>net_heap := h'\<rparr>)"
    using m(2) by (simp add: done_msg_def without_obj_def)
  let ?t = "?v\<lparr>net_heap := h'\<rparr>"
  have d: "dangling cs i ?t" using dangling_after [of cs ?u i] assms(3,4) by (simp add: roster_net)
  have "at_rest ?u" using handling_rest [OF assms(1)] m(1) by (simp add: carries_def)
  then have r: "at_rest ?t" using h'(2) by (simp add: at_rest_def nb_ok_def without_obj_def)
  have "ct_state ?t = CLIENT_CONNECTED" using assms(2) by (simp add: without_obj_def)
  then obtain m' h'' where m': "carries m' h'' NETMSG_SERVER_RPC (?bs u')"
    "client_turn portv junk st (leave_datagram u') ?t = bind_res (OnRpcReceive m' (handling m' h'' ?t)) (done_msg m')"
    using client_turn_rpc [OF r _ len(2)] unfolding leave_datagram_def by blast
  have "OnRpcReceive m' (handling m' h'' ?t) = Inl UseAfterFree"
    using OnRpcReceive_dangling [of cs i "handling m' h'' ?t" m'] d m'(1) assms(9) by (simp only: roster_net(2) handling_simps(1))
  then have "client_turn portv junk st (leave_datagram u') ?t = Inl UseAfterFree" using m'(2) by simp
  moreover have "others ?t = others s" "ct_objs ?t (cs ! i) = None" "numOthers ?t = numOthers s - 1"
    using n by (simp_all add: without_obj_def handling_def push_def)
  ultimately show ?thesis using t by blast
qed


text \<open>Two other clients, the first of which leaves.\<close>

definition knows_two :: client where
  "knows_two = connected_client\<lparr>others := map Some [0, 1] @ replicate (MAX_CLIENTS - 2) None, numOthers := 2,
     ct_objs := [0 \<mapsto> ''ann'' @ replicate 61 NUL, 1 \<mapsto> ''bob'' @ replicate 61 NUL]\<rparr>"

theorem leaving_dangles_witness:
  "\<exists>t. client_turn (Fin 6769) (\<lambda>_. 0) NET_SUCCESS (leave_datagram ''ann'') knows_two = Inr t \<and> others t ! 0 = Some 0 \<and> ct_objs t 0 = None \<and>
    client_turn (Fin 6769) (\<lambda>_. 0) NET_SUCCESS (leave_datagram ''bob'') t = Inl UseAfterFree"
proof -
  have r: "at_rest knows_two" "ct_state knows_two = CLIENT_CONNECTED" "roster [0, 1] knows_two" "others knows_two ! 0 = Some 0"
    using at_rest_connected
    by (simp_all add: knows_two_def at_rest_def nb_ok_def roster_def MAX_CLIENTS_def) (simp add: connected_client_def client0_def)
  have nm: "is_called knows_two ([0, 1] ! 0) ''ann''" "\<not> is_called knows_two ([0, 1] ! 1) ''ann''"
    by (simp_all add: is_called_def knows_two_def c_str_def strneq_def CLIENT_NAME_MAX_def NUL_def)
  have s: "is_c_string ''ann''" "is_c_string ''bob''" "length ''ann'' < CLIENT_NAME_MAX" "length ''bob'' < CLIENT_NAME_MAX"
    by (simp_all add: NUL_def CLIENT_NAME_MAX_def)
  have one: "\<And>j. j < length [0::nat, 1] \<Longrightarrow> j \<noteq> 0 \<Longrightarrow> \<not> is_called knows_two ([0, 1] ! j) ''ann''"
    using nm(2) by (auto simp: less_Suc_eq)
  have "Suc 0 < length [0::nat, 1]" by simp
  from leaving_dangles [OF r(1-3) this nm(1) one s(1,3,2,4), of "Fin 6769" "\<lambda>_. 0" NET_SUCCESS] r(4)
  show ?thesis by auto
qed

end
