(* ===== verification/Capy_Engine.thy ===== *)
theory Capy_Engine
  imports Capy_Roster Capy_Command Capy_Cmdline Capy_World_Save Capy_Logging
begin

text \<open>
  \<open>core/engine.cpp\<close>, \<open>core/engine_input.cpp\<close>, \<open>core/script/script_core.cpp\<close>, \<open>Capy.cpp\<close> and the start of the client: how the
  components are brought up, run and shut down together. The console, the convars and the files are one state (\<open>console\<close>); the client
  and the server are there or not. What SDL, SDL_net and the scripting library answer in a turn is the turn's environment.
\<close>

section \<open>Data\<close>

definition NS_PER_SECOND :: u32 where "NS_PER_SECOND = 1000000000"
definition SDL_SCANCODE_COUNT :: nat where "SDL_SCANCODE_COUNT = 512"
definition SDL_SCANCODE_F9 :: nat where "SDL_SCANCODE_F9 = 66"
definition MINIMUM_REASONABLE_SQSTACK_SIZE :: int where "MINIMUM_REASONABLE_SQSTACK_SIZE = 128"

datatype sdl_event = KeyUp nat | KeyDown nat | Quit | OtherEvent

text \<open>The script machine: its table is an object that counts as one more reference into the machine it was made on, and keeps that machine's
  pointer.\<close>

record script_vm =
  vm_initialised :: bool
  vm_handle :: "nat option"
  vm_table :: "nat option"         \<comment> \<open>the machine of \<open>sqratTable\<close>, when it is not the null object\<close>

record engine =
  running :: bool
  tickrate :: u32
  lastTickTime :: u64
  screenX :: nat
  screenY :: nat
  keyStates :: "bool list"
  eng_log :: logger
  eng_args :: cmdline
  eng_console :: console
  eng_script :: script_vm
  eng_net :: net_cvars
  eng_playerName :: nat
  eng_client :: "client option"
  eng_server :: "server option"
  eng_locked :: bool
  eng_texture :: "nat list"

text \<open>One turn's environment.\<close>

record turn =
  tn_time :: u64
  tn_event :: "sdl_event option"
  tn_junk :: "nat \<Rightarrow> byte"
  tn_address :: address_status
  tn_client_in :: "bool \<times> datagram option"
  tn_server_in :: "bool \<times> datagram option"
  tn_names :: "nat \<Rightarrow> string"
  tn_map :: string
  tn_line :: "string option"
  tn_pitch :: nat

section \<open>Reading the convars\<close>

definition eng_cvar :: "(net_cvars \<Rightarrow> nat) \<Rightarrow> engine \<Rightarrow> f32 res" where
  "eng_cvar which e = map_res cv_value (cvar_at (con_cvars (eng_console e)) (which (eng_net e)))"

definition eng_mode :: "engine \<Rightarrow> net_mode_enum res" where
  "eng_mode e = bind_res (eng_cvar netMode e) net_mode_of"

section \<open>Input\<close>

definition Input_KeyIsDown :: "nat \<Rightarrow> engine \<Rightarrow> bool res" where
  "Input_KeyIsDown scancode e =
     (if scancode < length (keyStates e) then Inr (keyStates e ! scancode) else Inl OutOfBoundsRead)"

definition set_key :: "nat \<Rightarrow> bool \<Rightarrow> engine \<Rightarrow> engine res" where
  "set_key k b e =
     (if k < length (keyStates e) then Inr (e\<lparr>keyStates := (keyStates e)[k := b]\<rparr>) else Inl OutOfBoundsWrite)"

text \<open>Saving the world the engine has: the server's, or else the client's.\<close>

definition save_world :: "string \<Rightarrow> engine \<Rightarrow> engine res" where
  "save_world name e =
     (let con = eng_console e;
          save = (\<lambda>w. Serialise (mem_of con) (con_cvars con) name w (con_fs con))
      in case eng_server e of
           Some sv \<Rightarrow> map_res (\<lambda>(_, w, fs). e\<lparr>eng_server := Some (sv\<lparr>sv_world := w\<rparr>), eng_console := con\<lparr>con_fs := fs\<rparr>\<rparr>) (save (sv_world sv))
         | None \<Rightarrow>
             (case eng_client e of
                Some ct \<Rightarrow> map_res (\<lambda>(_, w, fs). e\<lparr>eng_client := Some (ct\<lparr>ct_world := w\<rparr>), eng_console := con\<lparr>con_fs := fs\<rparr>\<rparr>) (save (ct_world ct))
              | None \<Rightarrow> Inr e))"

text \<open>Any key that goes down while F9 is down saves.\<close>

definition Engine_PumpEvents :: "sdl_event option \<Rightarrow> engine \<Rightarrow> engine res" where
  "Engine_PumpEvents ev e =
     (case ev of
        None \<Rightarrow> Inr e
      | Some (KeyUp k) \<Rightarrow> set_key k False e
      | Some (KeyDown k) \<Rightarrow>
          bind_res (set_key k True e) (\<lambda>e.
          bind_res (Input_KeyIsDown SDL_SCANCODE_F9 e) (\<lambda>f9. if f9 then save_world ''Test.world'' e else Inr e))
      | Some Quit \<Rightarrow> Inr (e\<lparr>running := False\<rparr>)
      | Some OtherEvent \<Rightarrow> Inr e)"

section \<open>Tick and frame\<close>

definition tick_client :: "turn \<Rightarrow> engine \<Rightarrow> engine res" where
  "tick_client tn e =
     (case eng_client e of None \<Rightarrow> Inr e
      | Some ct \<Rightarrow> bind_res (eng_cvar netPort e) (\<lambda>portv.
          map_res (\<lambda>ct. e\<lparr>eng_client := Some ct\<rparr>) (Client_Tick portv (tn_junk tn) (tn_address tn) ct)))"

definition tick_server :: "turn \<Rightarrow> engine \<Rightarrow> engine res" where
  "tick_server tn e =
     (case eng_server e of None \<Rightarrow> Inr e
      | Some sv \<Rightarrow> bind_res (eng_cvar netMaxPlayers e) (\<lambda>mp.
          map_res (\<lambda>sv. e\<lparr>eng_server := Some sv\<rparr>)
            (Server_Tick \<lparr>address_string = tn_names tn, max_players = mp, map_name = tn_map tn\<rparr> sv)))"

definition Engine_Tick :: "turn \<Rightarrow> engine \<Rightarrow> engine res" where
  "Engine_Tick tn e = bind_res (tick_client tn e) (tick_server tn)"

definition frame_client :: "turn \<Rightarrow> engine \<Rightarrow> engine res" where
  "frame_client tn e =
     (case eng_client e of None \<Rightarrow> Inr e
      | Some ct \<Rightarrow>
          map_res (\<lambda>(ct, l, tex). e\<lparr>eng_client := Some ct, eng_locked := l, eng_texture := tex\<rparr>)
            (Client_Frame (screenX e) (screenY e) (tn_pitch tn) (tn_client_in tn) (ct, eng_locked e, eng_texture e)))"

definition frame_server :: "(string \<Rightarrow> console \<Rightarrow> console res) \<Rightarrow> turn \<Rightarrow> engine \<Rightarrow> engine res" where
  "frame_server run tn e =
     (case eng_server e of None \<Rightarrow> Inr e
      | Some sv \<Rightarrow> bind_res (eng_mode e) (\<lambda>mode.
          map_res (\<lambda>(sv, con). e\<lparr>eng_server := Some sv, eng_console := con\<rparr>)
            (Server_Frame run mode (tn_server_in tn) (tn_line tn) (sv, eng_console e))))"

definition Engine_Frame :: "(string \<Rightarrow> console \<Rightarrow> console res) \<Rightarrow> turn \<Rightarrow> engine \<Rightarrow> engine res" where
  "Engine_Frame run tn e = bind_res (frame_client tn e) (frame_server run tn)"

section \<open>One turn\<close>

definition tick_due :: "u64 \<Rightarrow> engine \<Rightarrow> bool" where
  "tick_due now e \<longleftrightarrow> lastTickTime e + ucast (NS_PER_SECOND div tickrate e) < now"

definition Engine_Run :: "(string \<Rightarrow> console \<Rightarrow> console res) \<Rightarrow> turn \<Rightarrow> engine \<Rightarrow> engine res" where
  "Engine_Run run tn e =
     bind_res (eng_mode e) (\<lambda>_.
     bind_res (Engine_PumpEvents (tn_event tn) e) (\<lambda>e.
     if tickrate e = 0 then Inl Terminated
     else bind_res (if tick_due (tn_time tn) e then map_res (\<lambda>e. e\<lparr>lastTickTime := tn_time tn\<rparr>) (Engine_Tick tn e) else Inr e)
            (Engine_Frame run tn)))"

section \<open>Starting\<close>

text \<open>What the system and the libraries answer at the start. No console command has run yet, so no convar points into the buffer of a
  command's parameters, which is therefore empty here.\<close>

datatype video = NoVideo | NoWindow | NoTexture | Video

record startup =
  su_log_opens :: bool
  su_errno :: nat
  su_now :: string
  su_build_date :: string
  su_video :: video
  su_vm :: "nat option"
  su_resolved :: "nat option"
  su_client :: client          \<comment> \<open>a new client, all zero but for its initialisers\<close>
  su_server :: server          \<comment> \<open>the memory of a new server\<close>
  su_random :: "nat \<Rightarrow> f32"
  su_junk :: "nat \<Rightarrow> byte"
  su_fuel :: nat

definition Game_PrintBuildInfo :: "startup \<Rightarrow> logger \<Rightarrow> logger res" where
  "Game_PrintBuildInfo su l =
     (let say = (\<lambda>s. Logging_LogChannel s s Message (su_now su))
      in bind_res (say (''Capybara Wars Project - CONFIDENTIAL Pre-Alpha 9.0 '' @ su_build_date su) l) (\<lambda>l.
         bind_res (say ''64-bit Linux binary'' l) (say ''Debug build'')))"

text \<open>The stack size is checked but not corrected.\<close>

definition Script_Init :: "startup \<Rightarrow> engine \<Rightarrow> engine res" where
  "Script_Init su e =
     (let con = eng_console e
      in bind_res (Cvar_Get_bool [] (con_cvars con) (Lit ''scriptStackSize'') (Lit ''1024'') False) (\<lambda>(a, cs).
         bind_res (cvar_at cs a) (\<lambda>v.
         bind_res (f32_to_i32 (cv_value v)) (\<lambda>_.
           case su_vm su of None \<Rightarrow> Inl NullDeref
           | Some h \<Rightarrow> Inr (e\<lparr>eng_console := con\<lparr>con_cvars := cs\<rparr>, eng_script := \<lparr>vm_initialised = True, vm_handle = Some h, vm_table = Some h\<rparr>\<rparr>)))))"

definition Script_Shutdown :: "script_vm \<Rightarrow> script_vm res" where
  "Script_Shutdown vm = (case vm_handle vm of None \<Rightarrow> Inl NullDeref | Some _ \<Rightarrow> Inr (vm\<lparr>vm_initialised := False, vm_handle := None\<rparr>))"

text \<open>What destroys the global machine object when the process exits: its table is released in the machine it was made on, which the
  closing has freed.\<close>

definition ScriptVM_destroy :: "script_vm \<Rightarrow> script_vm res" where
  "ScriptVM_destroy vm =
     (case vm_table vm of None \<Rightarrow> Inr vm
      | Some h \<Rightarrow> if vm_handle vm = Some h then Inr (vm\<lparr>vm_table := None\<rparr>) else Inl UseAfterFree)"

definition shut_client :: "engine \<Rightarrow> engine res" where
  "shut_client e =
     (case eng_client e of None \<Rightarrow> Inr e
      | Some ct \<Rightarrow> bind_res (eng_cvar netPort e) (\<lambda>portv. map_res (\<lambda>ct. e\<lparr>eng_client := Some ct\<rparr>) (Client_Shutdown portv ct)))"

definition shut_server :: "engine \<Rightarrow> engine res" where
  "shut_server e =
     (case eng_server e of None \<Rightarrow> Inr e
      | Some sv \<Rightarrow> map_res (\<lambda>sv. e\<lparr>eng_server := Some sv\<rparr>) (Server_Shutdown sv))"

text \<open>The process ends in here.\<close>

definition Engine_Shutdown :: "engine \<Rightarrow> engine res" where
  "Engine_Shutdown e =
     bind_res (shut_client e) (\<lambda>e.
     bind_res (shut_server e) (\<lambda>e.
     bind_res (Script_Shutdown (eng_script e)) (\<lambda>vm.
     bind_res (Cvar_Shutdown (con_cvars (eng_console e))) (\<lambda>cs.
     map_res (\<lambda>l. e\<lparr>eng_script := vm, eng_log := l, eng_console := (eng_console e)\<lparr>con_cvars := cs, con_exited := True\<rparr>\<rparr>)
       (Logging_Shutdown (eng_log e))))))"

text \<open>The renderer's start. Where SDL cannot make the texture the process ends in here; where it cannot start or make a window the client
  ends it.\<close>

definition Render_Init :: "startup \<Rightarrow> engine \<Rightarrow> (bool \<times> engine) res" where
  "Render_Init su e =
     (if su_video su = NoVideo then Inr (False, e)
      else let e = e\<lparr>screenX := 1024, screenY := 768\<rparr>
           in if su_video su = NoWindow then Inr (False, e)
              else if su_video su = NoTexture then map_res (Pair True) (Engine_Shutdown e)
              else Inr (True, e))"

definition Client_Init :: "startup \<Rightarrow> client \<Rightarrow> engine \<Rightarrow> engine res" where
  "Client_Init su ct e =
     bind_res (Render_Init su e) (\<lambda>(ok, e).
       if con_exited (eng_console e) then Inr e
       else if \<not> ok then Engine_Shutdown e
       else let con = eng_console e; ct = Client_SetState CLIENT_UNCONNECTED ct
            in map_res (\<lambda>(a, cs). e\<lparr>eng_client := Some ct, eng_playerName := a, eng_console := con\<lparr>con_cvars := cs\<rparr>\<rparr>)
                 (Cvar_Get_bool [] (con_cvars con) (Lit ''playerName'') (Lit ''Player'') False))"

definition new_server :: "startup \<Rightarrow> engine \<Rightarrow> server res" where
  "new_server su e = bind_res (eng_cvar netPort e) (\<lambda>v. map_res (\<lambda>p. Server_new (of_int p) (su_server su)) (f32_to_u16 v))"

definition make_modes :: "startup \<Rightarrow> net_mode_enum \<Rightarrow> engine \<Rightarrow> engine res" where
  "make_modes su mode e =
     (case mode of
        NETMODE_CLIENT \<Rightarrow> Inr (e\<lparr>eng_client := Some (su_client su)\<rparr>)
      | NETMODE_SERVER_LISTEN \<Rightarrow> map_res (\<lambda>sv. e\<lparr>eng_client := Some (su_client su), eng_server := Some sv\<rparr>) (new_server su e)
      | NETMODE_SERVER_DEDICATED \<Rightarrow> map_res (\<lambda>sv. e\<lparr>eng_server := Some sv\<rparr>) (new_server su e)
      | NETMODE_OTHER \<Rightarrow> Inr e)"

definition init_client :: "startup \<Rightarrow> engine \<Rightarrow> engine res" where
  "init_client su e = (case eng_client e of None \<Rightarrow> Inr e | Some ct \<Rightarrow> Client_Init su ct e)"

definition init_server :: "startup \<Rightarrow> engine \<Rightarrow> engine res" where
  "init_server su e =
     (case eng_server e of None \<Rightarrow> Inr e
      | Some sv \<Rightarrow>
          map_res (\<lambda>(cs, fs, sv). e\<lparr>eng_server := Some sv, eng_console := (eng_console e)\<lparr>con_cvars := cs, con_fs := fs\<rparr>\<rparr>)
            (Server_Init [] (su_random su) (su_junk su) (su_fuel su) (con_cvars (eng_console e), con_fs (eng_console e), sv)))"

definition connect_client :: "startup \<Rightarrow> net_mode_enum \<Rightarrow> engine \<Rightarrow> engine res" where
  "connect_client su mode e =
     (if mode \<noteq> NETMODE_CLIENT then Inr e
      else case eng_client e of None \<Rightarrow> Inl NullDeref
      | Some ct \<Rightarrow>
          map_res (\<lambda>v. e\<lparr>eng_client := Some (Client_Connect (deref [] (cv_string v)) (su_resolved su) ct)\<rparr>)
            (cvar_at (con_cvars (eng_console e)) (eng_playerName e)))"

definition Engine_Init :: "startup \<Rightarrow> int \<Rightarrow> string option list \<Rightarrow> engine \<Rightarrow> engine res" where
  "Engine_Init su n args e =
     (let l = (eng_log e)\<lparr>settings := (settings (eng_log e))\<lparr>channels := all_channels, destination := or File Printf, keepOldLogs := False\<rparr>\<rparr>
      in bind_res (Logging_Init (su_log_opens su) (su_errno su) (su_now su) l) (\<lambda>(_, l).
         bind_res (Game_PrintBuildInfo su l) (\<lambda>l.
         bind_res (Cmdline_Init n args (con_cvars (eng_console e))) (\<lambda>(cl, cs).
         bind_res (Command_Init True (con_cmds (eng_console e))) (\<lambda>cmds.
         bind_res (Filesystem_Init [] cs (con_fs (eng_console e))) (\<lambda>(cs, fs).
         bind_res (Script_Init su (e\<lparr>eng_log := l, eng_args := cl,
             eng_console := (eng_console e)\<lparr>con_cmds := cmds, con_cvars := cs, con_fs := fs\<rparr>\<rparr>)) (\<lambda>e.
         bind_res (CapyNet_Init [] (con_cvars (eng_console e))) (\<lambda>(nc, cs).
         let e = e\<lparr>eng_net := nc, eng_console := (eng_console e)\<lparr>con_cvars := cs\<rparr>\<rparr>
         in bind_res (eng_mode e) (\<lambda>mode.
            bind_res (make_modes su mode e) (\<lambda>e.
            bind_res (init_client su e) (\<lambda>e.
            if con_exited (eng_console e) then Inr e
            else bind_res (init_server su e) (\<lambda>e.
                 connect_client su mode (e\<lparr>running := True, tickrate := 60\<rparr>)))))))))))))"

section \<open>The program\<close>

text \<open>The loop, over the turns that the system grants it; when they are used up and nothing has stopped it, it does not return.\<close>

fun main_loop :: "(string \<Rightarrow> console \<Rightarrow> console res) \<Rightarrow> turn list \<Rightarrow> engine \<Rightarrow> engine res" where
  "main_loop run [] e = (if \<not> running e \<or> con_exited (eng_console e) then Inr e else Inl NoReturn)"
| "main_loop run (tn # tns) e =
     (if \<not> running e \<or> con_exited (eng_console e) then Inr e
      else bind_res (Engine_Run run tn e) (main_loop run tns))"

definition Capy_Main :: "startup \<Rightarrow> int \<Rightarrow> string option list \<Rightarrow> (string \<Rightarrow> console \<Rightarrow> console res) \<Rightarrow> turn list \<Rightarrow> engine \<Rightarrow> engine res" where
  "Capy_Main su n args run tns e =
     bind_res (Engine_Init su n args e) (\<lambda>e.
     bind_res (main_loop run tns e) (\<lambda>e. if con_exited (eng_console e) then Inr e else Engine_Shutdown e))"

text \<open>The process: \<open>exit\<close>, like the end of \<open>main\<close>, destroys the global objects, of which the script machine's is the one that does anything.\<close>

definition main_program :: "startup \<Rightarrow> int \<Rightarrow> string option list \<Rightarrow> (string \<Rightarrow> console \<Rightarrow> console res) \<Rightarrow> turn list \<Rightarrow> engine \<Rightarrow> engine res" where
  "main_program su n args run tns e =
     bind_res (Capy_Main su n args run tns e) (\<lambda>e. map_res (\<lambda>vm. e\<lparr>eng_script := vm\<rparr>) (ScriptVM_destroy (eng_script e)))"

section \<open>Saving with a key\<close>

text \<open>
  C39. F9 saves the server's world once: the first press writes \<open>Test.world\<close>, from which the format's reader gets every tile; but the world
  keeps a pointer to its closed file, so the next key that goes down, F9 or any other while F9 is down, uses a freed object.
\<close>

theorem saving_twice_faults:
  assumes "eng_server e = Some sv" and "length (keyStates e) = SDL_SCANCODE_COUNT"
    and "fs_wf (con_fs (eng_console e))" and "basedir_string (mem_of (eng_console e)) (con_cvars (eng_console e)) (con_fs (eng_console e)) = Inr base"
    and "creatable (fs_disk (con_fs (eng_console e))) (take (MAX_PATH - 1) (base @ ''Test.world''))"
    and "w_file (sv_world sv) = None" and "header_wf (w_header (sv_world sv))" and "tileData (sv_world sv) = Some tiles"
    and "0 < size_x (sv_world sv)" and "0 < size_y (sv_world sv)" and "size_x (sv_world sv) * size_y (sv_world sv) < 2 ^ 31"
    and "int (length tiles) = size_x (sv_world sv) * size_y (sv_world sv)"
  shows "\<exists>e' bs. Engine_PumpEvents (Some (KeyDown SDL_SCANCODE_F9)) e = Inr e' \<and>
    files (fs_disk (con_fs (eng_console e'))) (take (MAX_PATH - 1) (base @ ''Test.world'')) = Some bs \<and> drop WORLD_HEADER_SIZE bs = tiles \<and>
    (\<forall>k < SDL_SCANCODE_COUNT. Engine_PumpEvents (Some (KeyDown k)) e' = Inl UseAfterFree)"
proof -
  let ?con = "eng_console e" and ?w = "sv_world sv"
  have np: "\<not> is_package_path ''Test.world''" by code_simp
  obtain w' s' bs where s': "Serialise (mem_of ?con) (con_cvars ?con) ''Test.world'' ?w (con_fs ?con) = Inr (True, w', s')"
    "files (fs_disk s') (take (MAX_PATH - 1) (base @ ''Test.world'')) = Some bs" "drop WORLD_HEADER_SIZE bs = tiles"
    "Serialise (mem_of ?con) (con_cvars ?con) ''Test.world'' w' s' = Inl UseAfterFree"
    using Serialise_saves [OF assms(3,4) np assms(5-12)] by metis
  let ?keys = "(keyStates e)[SDL_SCANCODE_F9 := True]"
  let ?e = "e\<lparr>keyStates := ?keys, eng_server := Some (sv\<lparr>sv_world := w'\<rparr>), eng_console := ?con\<lparr>con_fs := s'\<rparr>\<rparr>"
  have f9: "SDL_SCANCODE_F9 < length (keyStates e)" using assms(2) by (simp add: SDL_SCANCODE_F9_def SDL_SCANCODE_COUNT_def)
  have first: "Engine_PumpEvents (Some (KeyDown SDL_SCANCODE_F9)) e = Inr ?e"
    using f9 assms(1) s'(1) by (simp add: Engine_PumpEvents_def set_key_def Input_KeyIsDown_def save_world_def Let_def mem_of_def)
  have "Engine_PumpEvents (Some (KeyDown k)) ?e = Inl UseAfterFree" if "k < SDL_SCANCODE_COUNT" for k
    using that f9 assms(2) s'(4)
    by (simp add: Engine_PumpEvents_def set_key_def Input_KeyIsDown_def save_world_def Let_def mem_of_def map_res_def nth_list_update)
  then show ?thesis using first s'(2,3) by (intro exI [of _ ?e] exI [of _ bs]) simp
qed

text \<open>An engine before anything is started.\<close>

definition net_cvars0 :: net_cvars where "net_cvars0 = \<lparr>netMode = 0, netServerAddress = 0, netPort = 0, netMaxPlayers = 0\<rparr>"

definition engine0 :: "disk \<Rightarrow> engine" where
  "engine0 d =
     \<lparr>running = False, tickrate = 0, lastTickTime = 0, screenX = 0, screenY = 0, keyStates = replicate SDL_SCANCODE_COUNT False,
      eng_log = logger0, eng_args = \<lparr>cmdline_argc = 0, cmdline_argv = []\<rparr>,
      eng_console = \<lparr>con_cmds = cmd_sys0, con_cvars = cvar_sys0, con_fs = fs0 d, con_log = [], con_execCfg = None, con_exited = False\<rparr>,
      eng_script = \<lparr>vm_initialised = False, vm_handle = None, vm_table = None\<rparr>, eng_net = net_cvars0, eng_playerName = 0,
      eng_client = None, eng_server = None, eng_locked = False, eng_texture = []\<rparr>"

definition no_disk :: disk where "no_disk = \<lparr>files = Map.empty, dirs = (\<lambda>p. p = ''./''), creatable = (\<lambda>p. True)\<rparr>"

definition small_server_engine :: engine where
  "small_server_engine =
     (engine0 no_disk)\<lparr>eng_server := Some (server_with 0 CLIENT_HELLO small_world),
       eng_console := (eng_console (engine0 no_disk))\<lparr>con_cvars := one_cvar ''fsBasedir'' ''./'', con_fs := one_file\<rparr>\<rparr>"

theorem saving_twice_faults_witness:
  "\<exists>e' bs. Engine_PumpEvents (Some (KeyDown SDL_SCANCODE_F9)) small_server_engine = Inr e' \<and>
    files (fs_disk (con_fs (eng_console e'))) ''./Test.world'' = Some bs \<and> drop WORLD_HEADER_SIZE bs = [0, 1, 2, 3] \<and>
    Engine_PumpEvents (Some (KeyDown 4)) e' = Inl UseAfterFree"
proof -
  let ?e = small_server_engine
  have p: "take (MAX_PATH - Suc 0) ''./Test.world'' = ''./Test.world''" by (simp add: MAX_PATH_def)
  have e: "eng_server ?e = Some (server_with 0 CLIENT_HELLO small_world)" "length (keyStates ?e) = SDL_SCANCODE_COUNT"
    "fs_wf (con_fs (eng_console ?e))" "creatable (fs_disk (con_fs (eng_console ?e))) ''./Test.world''"
    by (simp_all add: small_server_engine_def engine0_def one_file_def) (simp add: fs0_def)
  have b: "basedir_string (mem_of (eng_console ?e)) (con_cvars (eng_console ?e)) (con_fs (eng_console ?e)) = Inr ''./''"
    using basedir_one_file by (simp add: small_server_engine_def)
  have w: "w_file small_world = None" "header_wf (w_header small_world)" "tileData small_world = Some [0, 1, 2, 3]"
    "0 < size_x small_world" "0 < size_y small_world" "size_x small_world * size_y small_world < 2 ^ 31"
    "int (length [0::byte, 1, 2, 3]) = size_x small_world * size_y small_world"
    by (simp_all add: small_world_def world0_def header_wf_def WORLD_HEADER_MAGIC_def WORLD_FILE_FORMAT_VERSION_def)
  have sw: "sv_world (server_with 0 CLIENT_HELLO small_world) = small_world" by (simp add: server_with_def)
  show ?thesis
    using saving_twice_faults [OF e(1,2,3) b, unfolded sw, OF _ w] e(4) by (auto simp: p SDL_SCANCODE_COUNT_def)
qed

end
