(* ===== verification/Capy_Startup.thy ===== *)
theory Capy_Startup
  imports Capy_Engine
begin

text \<open>
  What a start of the engine comes to: every subsystem in turn, through the convars' interface, to a running client.
\<close>

section \<open>New convars, one after the other\<close>

context convar_store
begin

lemma get_fresh:
  assumes "inv s" and "lookup s n = None"
  shows "\<exists>a t. get n d s = Inr (a, t) \<and> inv t \<and> (\<forall>m. \<not> strcaseeq n m \<longrightarrow> lookup t m = lookup s m) \<and>
    contents t a = Some d \<and> num t a = Some (atof d) \<and> (\<forall>b v. contents s b = Some v \<longrightarrow> contents t b = Some v \<and> num t b = Some (atof v))"
proof -
  obtain a t where t: "get n d s = Inr (a, t)" "inv t"
    "lookup t = (\<lambda>m. if lookup s m = None \<and> strcaseeq n m then Some a else lookup s m)"
    "contents t a = Some d" "\<forall>b. contents s b \<noteq> None \<longrightarrow> contents t b = contents s b"
    using get_ok [OF assms(1), of n d] assms(2) by auto
  then show ?thesis using num_contents [OF t(2)] by (intro exI [of _ a] exI [of _ t]) auto
qed

text \<open>What a name stands for: its text, or the default of whoever asks first.\<close>

definition reads_as :: "'s \<Rightarrow> string \<Rightarrow> string \<Rightarrow> string \<Rightarrow> bool" where
  "reads_as s n d v \<longleftrightarrow> lookup s n = None \<and> v = d \<or> (\<exists>a. lookup s n = Some a \<and> contents s a = Some v)"

lemma get_any:
  assumes "inv s" and "reads_as s n d v"
  shows "\<exists>a t. get n d s = Inr (a, t) \<and> inv t \<and> (\<forall>m. \<not> strcaseeq n m \<longrightarrow> lookup t m = lookup s m) \<and>
    contents t a = Some v \<and> (\<forall>b u. contents s b = Some u \<longrightarrow> contents t b = Some u \<and> num t b = Some (atof u))"
proof (cases "lookup s n")
  case None
  then show ?thesis using get_fresh [OF assms(1) None, of d] assms(2) by (auto simp: reads_as_def)
next
  case (Some a)
  obtain b t where t: "get n d s = Inr (b, t)" "inv t" "lookup t = (\<lambda>m. if lookup s m = None \<and> strcaseeq n m then Some b else lookup s m)"
    "a = b" "\<forall>b. contents s b \<noteq> None \<longrightarrow> contents t b = contents s b"
    using get_ok [OF assms(1), of n d] Some by auto
  have "contents s a = Some v" using assms(2) Some by (simp add: reads_as_def)
  then have "contents t b = Some v" using t(4,5) by auto
  moreover have "num t c = Some (atof u)" if "contents s c = Some u" for c u
    using that t(5) num_contents [OF t(2)] by auto
  ultimately show ?thesis using t by (intro exI [of _ b] exI [of _ t]) auto
qed

lemma reads_as_kept:
  assumes "reads_as s n d v" and "lookup t n = lookup s n" and "\<And>b u. contents s b = Some u \<Longrightarrow> contents t b = Some u"
  shows "reads_as t n d v"
  using assms by (auto simp: reads_as_def)

end

lemma engine_inv_empty: "engine_inv cvar_sys0" "cvar_lookup cvar_sys0 n = None"
proof -
  have "cvar_ok cvar_sys0" using cvar_wf_empty by (auto simp: cvar_ok_def cvar_sys0_def)
  then show "engine_inv cvar_sys0" by (simp add: engine_inv_def cvar_sys0_def)
  show "cvar_lookup cvar_sys0 n = None" by (simp add: cvar_lookup_def Cvar_Exists_wf [OF cvar_wf_empty] found_def)
qed

lemma get_lit: "Cvar_Get_bool [] s (Lit n) (Lit d) False = engine_get n d s"
  by (simp add: engine_get_def)

lemma num_at:
  assumes "cvar_num s a = Some v"
  shows "\<exists>c. cvar_at s a = Inr c \<and> cv_value c = v"
  using assms by (auto simp: cvar_num_def cvar_at_def)

lemma text_at:
  assumes "cvar_text s a = Some v"
  shows "\<exists>c. cvar_at s a = Inr c \<and> cvars s a = Some c \<and> deref [] (cv_string c) = v"
  using assms by (auto simp: cvar_text_def cvar_at_def)

section \<open>The subsystems\<close>

lemma atof_numbers: "atof ''0'' = Fin 0" "atof ''32'' = Fin 32" "atof ''1024'' = Fin 1024" "atof ''6769'' = Fin 6769"
  using atof_decimal [of "''0''"] atof_decimal [of "''32''"] atof_decimal [of "''1024''"] atof_decimal [of "''6769''"]
  by (simp_all add: digits_nat_def is_digit_def digit_of_def)


lemma CapyNet_Init_ok:
  assumes "engine_inv cs" and "capy_cvars.reads_as cs ''netMode'' ''0'' mode" and "cvar_lookup cs ''netServerAddress'' = None"
    and "cvar_lookup cs ''netPort'' = None" and "cvar_lookup cs ''netMaxPlayers'' = None"
  shows "\<exists>nc t. CapyNet_Init [] cs = Inr (nc, t) \<and> engine_inv t \<and> cvar_num t (netMode nc) = Some (atof mode) \<and>
    cvar_num t (netPort nc) = Some (Fin 6769) \<and> cvar_num t (netMaxPlayers nc) = Some (Fin 32) \<and>
    cvar_text t (netServerAddress nc) = Some ''127.0.0.1'' \<and>
    (\<forall>m. \<not> strcaseeq ''netMode'' m \<longrightarrow> \<not> strcaseeq ''netServerAddress'' m \<longrightarrow> \<not> strcaseeq ''netPort'' m \<longrightarrow> \<not> strcaseeq ''netMaxPlayers'' m \<longrightarrow>
      cvar_lookup t m = cvar_lookup cs m)"
proof -
  note diff = strcaseeq_def to_lower_def
  obtain a s1 where 1: "engine_get ''netMode'' ''0'' cs = Inr (a, s1)" "engine_inv s1" "\<And>m. \<not> strcaseeq ''netMode'' m \<Longrightarrow> cvar_lookup s1 m = cvar_lookup cs m"
    "cvar_text s1 a = Some mode"
    using capy_cvars.get_any [OF assms(1,2)] by blast
  have "cvar_lookup s1 ''netServerAddress'' = None" using 1(3) assms(3) by (simp add: diff)
  then obtain b s2 where 2: "engine_get ''netServerAddress'' ''127.0.0.1'' s1 = Inr (b, s2)" "engine_inv s2"
    "\<And>m. \<not> strcaseeq ''netServerAddress'' m \<Longrightarrow> cvar_lookup s2 m = cvar_lookup s1 m" "cvar_text s2 b = Some ''127.0.0.1''"
    "\<And>x v. cvar_text s1 x = Some v \<Longrightarrow> cvar_text s2 x = Some v"
    using capy_cvars.get_fresh [OF 1(2), of "''netServerAddress''" "''127.0.0.1''"] by blast
  have "cvar_lookup s2 ''netPort'' = None" using 1(3) 2(3) assms(4) by (simp add: diff)
  then obtain c s3 where 3: "engine_get ''netPort'' ''6769'' s2 = Inr (c, s3)" "engine_inv s3"
    "\<And>m. \<not> strcaseeq ''netPort'' m \<Longrightarrow> cvar_lookup s3 m = cvar_lookup s2 m" "cvar_text s3 c = Some ''6769''"
    "\<And>x v. cvar_text s2 x = Some v \<Longrightarrow> cvar_text s3 x = Some v"
    using capy_cvars.get_fresh [OF 2(2), of "''netPort''" "''6769''"] by blast
  have "cvar_lookup s3 ''netMaxPlayers'' = None" using 1(3) 2(3) 3(3) assms(5) by (simp add: diff)
  then obtain d s4 where 4: "engine_get ''netMaxPlayers'' ''32'' s3 = Inr (d, s4)" "engine_inv s4"
    "\<And>m. \<not> strcaseeq ''netMaxPlayers'' m \<Longrightarrow> cvar_lookup s4 m = cvar_lookup s3 m" "cvar_text s4 d = Some ''32''" "cvar_num s4 d = Some (Fin 32)"
    "\<And>x v. cvar_text s3 x = Some v \<Longrightarrow> cvar_text s4 x = Some v \<and> cvar_num s4 x = Some (atof v)"
    using capy_cvars.get_fresh [OF 3(2), of "''netMaxPlayers''" "''32''"] by (auto simp: atof_numbers)
  obtain v where v: "cvars s4 d = Some v" "cv_value v = Fin 32" using 4(5) by (auto simp: cvar_num_def)
  let ?nc = "\<lparr>netMode = a, netServerAddress = b, netPort = c, netMaxPlayers = d\<rparr>"
  have "CapyNet_Init [] cs = Inr (?nc, s4)"
    by (simp add: CapyNet_Init_def get_lit 1(1) 2(1) 3(1) 4(1) v)
  moreover have "cvar_num s4 a = Some (atof mode)" "cvar_num s4 c = Some (Fin 6769)" "cvar_text s4 b = Some ''127.0.0.1''"
    using 1(4) 2(4,5) 3(4,5) 4(6) by (simp_all add: atof_numbers)
  ultimately show ?thesis using 1(3) 2(3) 3(3) 4(2,3,5) by (intro exI [of _ ?nc] exI [of _ s4]) simp
qed

lemma Filesystem_Init_fresh:
  assumes "engine_inv cs" and "cvar_lookup cs ''fsBasedir'' = None" and "path_exists d ''./'' \<or> creatable d ''./''"
  shows "\<exists>t fs. Filesystem_Init [] cs (fs0 d) = Inr (t, fs) \<and> engine_inv t \<and>
    (\<forall>m. \<not> strcaseeq ''fsBasedir'' m \<longrightarrow> cvar_lookup t m = cvar_lookup cs m) \<and> (\<forall>b u. cvar_text cs b = Some u \<longrightarrow> cvar_text t b = Some u)"
proof -
  obtain a t where t: "engine_get ''fsBasedir'' ''./'' cs = Inr (a, t)" "engine_inv t"
    "\<forall>m. \<not> strcaseeq ''fsBasedir'' m \<longrightarrow> cvar_lookup t m = cvar_lookup cs m" "cvar_text t a = Some ''./''"
    "\<forall>b u. cvar_text cs b = Some u \<longrightarrow> cvar_text t b = Some u"
    using capy_cvars.get_fresh [OF assms(1,2), of "''./''"] by blast
  obtain c where c: "cvars t a = Some c" "deref [] (cv_string c) = ''./''" using text_at [OF t(4)] by blast
  have disk: "fs_disk (fs0 d) = d" by (simp add: fs0_def)
  have b: "basedir_string [] t ((fs0 d)\<lparr>fsBasedir := Some a\<rparr>) = Inr ''./''"
    using c by (simp add: basedir_string_def)
  have "\<exists>fs. Filesystem_Init [] cs (fs0 d) = Inr (t, fs)"
    using assms(3) by (auto simp: Filesystem_Init_def get_lit t(1) b disk Let_def)
  then show ?thesis using t(2,3,5) by blast
qed

lemma Script_Init_fresh:
  assumes "engine_inv (con_cvars (eng_console e))" and "cvar_lookup (con_cvars (eng_console e)) ''scriptStackSize'' = None" and "su_vm su = Some h"
  shows "\<exists>t. Script_Init su e = Inr (e\<lparr>eng_console := (eng_console e)\<lparr>con_cvars := t\<rparr>, eng_script := \<lparr>vm_initialised = True, vm_handle = Some h, vm_table = Some h\<rparr>\<rparr>) \<and>
    engine_inv t \<and> (\<forall>m. \<not> strcaseeq ''scriptStackSize'' m \<longrightarrow> cvar_lookup t m = cvar_lookup (con_cvars (eng_console e)) m) \<and>
    (\<forall>b u. cvar_text (con_cvars (eng_console e)) b = Some u \<longrightarrow> cvar_text t b = Some u)"
proof -
  obtain a t where t: "engine_get ''scriptStackSize'' ''1024'' (con_cvars (eng_console e)) = Inr (a, t)" "engine_inv t"
    "\<forall>m. \<not> strcaseeq ''scriptStackSize'' m \<longrightarrow> cvar_lookup t m = cvar_lookup (con_cvars (eng_console e)) m" "cvar_num t a = Some (Fin 1024)"
    "\<forall>b u. cvar_text (con_cvars (eng_console e)) b = Some u \<longrightarrow> cvar_text t b = Some u"
    using capy_cvars.get_fresh [OF assms(1,2), of "''1024''"] by (auto simp: atof_numbers)
  obtain c where c: "cvar_at t a = Inr c" "cv_value c = Fin 1024" using num_at [OF t(4)] by blast
  have "f32_to_i32 (Fin 1024) = Inr 1024" by code_simp
  then show ?thesis using t(2,3,5) c assms(3) by (intro exI [of _ t]) (simp add: Script_Init_def get_lit t(1) Let_def)
qed

lemma Logging_start:
  assumes "now \<noteq> []"
  shows "\<exists>l. Logging_Init True errno now (logger0\<lparr>settings := (settings logger0)\<lparr>channels := all_channels, destination := or File Printf, keepOldLogs := False\<rparr>\<rparr>) = Inr (True, l) \<and>
    logging l"
proof -
  let ?st = "(settings logger0)\<lparr>channels := all_channels, destination := or File Printf, keepOldLogs := False\<rparr>"
  let ?l = "logger0\<lparr>settings := init_settings ?st, handle := OpenHandle, logfile := [], initialised := True, initFailed := False\<rparr>"
  have l: "logging ?l" "has_flag (destination (init_settings ?st)) File" "\<not> suppressSignOnMessage (init_settings ?st)"
    by (simp_all add: logging_def init_settings_def logger0_def has_flag_def File_def Printf_def Let_def)
  have "length sign_on \<le> LOGGING_MAX_LENGTH_TEXT" by (simp add: sign_on_def LOGGING_MAX_LENGTH_TEXT_def)
  then obtain l' where l': "Logging_LogChannel sign_on sign_on Debug now ?l = Inr l'" "logging l'"
    using log_written [OF l(1) _ assms, of sign_on Debug sign_on] by blast
  have "logger0\<lparr>settings := ?st\<rparr>\<lparr>settings := init_settings ?st, handle := OpenHandle, logfile := [], initialised := True, initFailed := False\<rparr> = ?l"
    by simp
  then have "Logging_Init True errno now (logger0\<lparr>settings := ?st\<rparr>) = Inr (True, l')"
    using l' l(2,3) by (simp add: Logging_Init_def Let_def) (simp add: logger0_def)
  then show ?thesis using l'(2) by blast
qed

lemma Game_PrintBuildInfo_ok:
  assumes "logging l" and "su_now su \<noteq> []" and "length (su_build_date su) \<le> 900"
  shows "\<exists>l'. Game_PrintBuildInfo su l = Inr l' \<and> logging l'"
proof -
  let ?say = "\<lambda>s. Logging_LogChannel s s Message (su_now su)"
  have say: "\<exists>l'. ?say s l = Inr l' \<and> logging l'" if "logging l" "length s \<le> 1024" for s l
    using log_written [OF that(1) _ assms(2), of s Message s] that(2) by (auto simp: LOGGING_MAX_LENGTH_TEXT_def)
  obtain l1 where 1: "?say (''Capybara Wars Project - CONFIDENTIAL Pre-Alpha 9.0 '' @ su_build_date su) l = Inr l1" "logging l1"
    using say [OF assms(1), of "''Capybara Wars Project - CONFIDENTIAL Pre-Alpha 9.0 '' @ su_build_date su"] assms(3) by auto
  obtain l2 where 2: "?say ''64-bit Linux binary'' l1 = Inr l2" "logging l2" using say [OF 1(2), of "''64-bit Linux binary''"] by auto
  obtain l3 where 3: "?say ''Debug build'' l2 = Inr l3" "logging l3" using say [OF 2(2), of "''Debug build''"] by auto
  show ?thesis using 1 2 3 by (simp add: Game_PrintBuildInfo_def Let_def)
qed

section \<open>A client comes up\<close>

lemma eng_cvar_num: "cvar_num (con_cvars (eng_console e)) (which (eng_net e)) = Some v \<Longrightarrow> eng_cvar which e = Inr v"
  using num_at by (fastforce simp: eng_cvar_def)

text \<open>The client's part of the start, from the convars that the network set up.\<close>

lemma client_part:
  assumes "engine_inv (con_cvars (eng_console e))" and "cvar_lookup (con_cvars (eng_console e)) ''playerName'' = None"
    and "cvar_num (con_cvars (eng_console e)) (netMode (eng_net e)) = Some (Fin 0)"
    and "cvar_num (con_cvars (eng_console e)) (netPort (eng_net e)) = Some (Fin 6769)"
    and "eng_server e = None" and "\<not> con_exited (eng_console e)" and "su_video su = Video" and "length (ct_name (su_client su)) = CLIENT_NAME_MAX"
  shows "\<exists>e1 e2 e3 ct. eng_mode e = Inr NETMODE_CLIENT \<and> make_modes su NETMODE_CLIENT e = Inr e1 \<and> init_client su e1 = Inr e2 \<and>
    \<not> con_exited (eng_console e2) \<and> init_server su e2 = Inr e2 \<and> connect_client su NETMODE_CLIENT (e2\<lparr>running := True, tickrate := 60\<rparr>) = Inr e3 \<and>
    running e3 \<and> tickrate e3 = 60 \<and> eng_server e3 = None \<and> eng_client e3 = Some ct \<and> eng_log e3 = eng_log e \<and>
    ct_state ct = (if su_resolved su = None then CLIENT_FATAL else CLIENT_RESOLVING_ADDRESS) \<and> serverAddress ct = su_resolved su \<and>
    c_str (ct_name ct) = ''Player'' \<and> eng_mode e3 = Inr NETMODE_CLIENT \<and> eng_cvar netPort e3 = Inr (Fin 6769) \<and>
    engine_inv (con_cvars (eng_console e3)) \<and> \<not> con_exited (eng_console e3) \<and> eng_script e3 = eng_script e \<and> keyStates e3 = keyStates e \<and>
    net_sent ct = net_sent (su_client su) \<and> netBufferPtr ct = netBufferPtr (su_client su)"
proof -
  let ?cs = "con_cvars (eng_console e)" and ?ct = "Client_SetState CLIENT_UNCONNECTED (su_client su)"
  have zero: "net_mode_of (Fin 0) = Inr NETMODE_CLIENT" by code_simp
  have cv: "\<exists>v. cvar_text ?cs (netMode (eng_net e)) = Some v \<and> atof v = Fin 0" "\<exists>v. cvar_text ?cs (netPort (eng_net e)) = Some v \<and> atof v = Fin 6769"
    using capy_cvars.num_contents [OF assms(1)] assms(3,4) by auto
  obtain a t where t: "engine_get ''playerName'' ''Player'' ?cs = Inr (a, t)" "cvar_text t a = Some ''Player''" "engine_inv t"
    "\<And>x v. cvar_text ?cs x = Some v \<Longrightarrow> cvar_num t x = Some (atof v)"
    using capy_cvars.get_fresh [OF assms(1,2), of "''Player''"] by blast
  obtain c where c: "cvar_at t a = Inr c" "deref [] (cv_string c) = ''Player''" using text_at [OF t(2)] by blast
  let ?e1 = "e\<lparr>eng_client := Some (su_client su)\<rparr>"
  let ?e2 = "e\<lparr>screenX := 1024, screenY := 768, eng_client := Some ?ct, eng_playerName := a, eng_console := (eng_console e)\<lparr>con_cvars := t\<rparr>\<rparr>"
  let ?r = "Client_Connect ''Player'' (su_resolved su) ?ct"
  let ?e3 = "?e2\<lparr>running := True, tickrate := 60, eng_client := Some ?r\<rparr>"
  have mode: "eng_mode e = Inr NETMODE_CLIENT" using eng_cvar_num [of e netMode, OF assms(3)] zero by (simp add: eng_mode_def)
  have num: "cvar_num t (netMode (eng_net e)) = Some (Fin 0)" "cvar_num t (netPort (eng_net e)) = Some (Fin 6769)"
    using cv t(4) by auto
  have mode3: "eng_mode ?e3 = Inr NETMODE_CLIENT" "eng_cvar netPort ?e3 = Inr (Fin 6769)"
    using num zero eng_cvar_num [of ?e3 netMode] eng_cvar_num [of ?e3 netPort] by (simp_all add: eng_mode_def)
  have init: "init_client su ?e1 = Inr ?e2"
    using assms(6,7) by (simp add: init_client_def Client_Init_def Render_Init_def Let_def get_lit t(1))
  have conn: "connect_client su NETMODE_CLIENT (?e2\<lparr>running := True, tickrate := 60\<rparr>) = Inr ?e3"
    using c by (simp add: connect_client_def)
  have name: "c_str (ct_name ?r) = ''Player''"
    using c_str_strncpy [of "''Player''" CLIENT_NAME_MAX] by (simp add: Client_Connect_def Client_SetState_def Let_def CLIENT_NAME_MAX_def NUL_def)
  have st: "ct_state ?r = (if su_resolved su = None then CLIENT_FATAL else CLIENT_RESOLVING_ADDRESS)" "serverAddress ?r = su_resolved su"
    "net_sent ?r = net_sent (su_client su)" "netBufferPtr ?r = netBufferPtr (su_client su)"
    by (simp_all add: Client_Connect_def Client_SetState_def Let_def)
  show ?thesis
    using mode mode3 init conn name st assms(5,6) t(3)
    by (intro exI [of _ ?e1] exI [of _ ?e2] exI [of _ ?e3] exI [of _ ?r]) (simp add: make_modes_def init_server_def)
qed

text \<open>The start up to the network, for any command line.\<close>

lemma start_until_net:
  assumes "su_log_opens su" and "su_now su \<noteq> []" and "length (su_build_date su) \<le> 900" and "su_vm su = Some h"
    and "path_exists d ''./'' \<or> creatable d ''./''" and "Cmdline_Init n args cvar_sys0 = Inr (cl, s0)" and "engine_inv s0"
    and "capy_cvars.reads_as s0 ''netMode'' ''0'' mode" and "\<And>m. \<not> strcaseeq ''netMode'' m \<Longrightarrow> cvar_lookup s0 m = None"
  shows "\<exists>e. Engine_Init su n args (engine0 d) = bind_res (eng_mode e) (\<lambda>mode.
      bind_res (make_modes su mode e) (\<lambda>e.
      bind_res (init_client su e) (\<lambda>e.
      if con_exited (eng_console e) then Inr e
      else bind_res (init_server su e) (\<lambda>e. connect_client su mode (e\<lparr>running := True, tickrate := 60\<rparr>))))) \<and>
    logging (eng_log e) \<and> eng_server e = None \<and> eng_client e = None \<and> \<not> con_exited (eng_console e) \<and> engine_inv (con_cvars (eng_console e)) \<and>
    cvar_num (con_cvars (eng_console e)) (netMode (eng_net e)) = Some (atof mode) \<and>
    cvar_num (con_cvars (eng_console e)) (netPort (eng_net e)) = Some (Fin 6769) \<and>
    cvar_num (con_cvars (eng_console e)) (netMaxPlayers (eng_net e)) = Some (Fin 32) \<and>
    (\<forall>m \<in> {''playerName'', ''map'', ''mapSizeX'', ''mapSizeY''}. cvar_lookup (con_cvars (eng_console e)) m = None) \<and>
    eng_script e = \<lparr>vm_initialised = True, vm_handle = Some h, vm_table = Some h\<rparr> \<and> keyStates e = replicate SDL_SCANCODE_COUNT False"
proof -
  note diff = strcaseeq_def to_lower_def
  define e where "e = engine0 d"
  have parts: "eng_log e = logger0" "con_cvars (eng_console e) = cvar_sys0" "con_cmds (eng_console e) = cmd_sys0" "con_fs (eng_console e) = fs0 d"
    "eng_server e = None" "eng_client e = None" "\<not> con_exited (eng_console e)" "keyStates e = replicate SDL_SCANCODE_COUNT False"
    by (simp_all add: e_def engine0_def)
  obtain l1 where l1: "Logging_Init True (su_errno su) (su_now su) (logger0\<lparr>settings := (settings logger0)\<lparr>channels := all_channels, destination := or File Printf, keepOldLogs := False\<rparr>\<rparr>) = Inr (True, l1)" "logging l1"
    using Logging_start [OF assms(2)] by blast
  obtain l2 where l2: "Game_PrintBuildInfo su l1 = Inr l2" "logging l2" using Game_PrintBuildInfo_ok [OF l1(2) assms(2,3)] by blast
  obtain cmds where cmds: "Command_Init True cmd_sys0 = Inr cmds" using Command_Init_ok by blast
  have "cvar_lookup s0 ''fsBasedir'' = None" using assms(9) by (simp add: diff)
  then obtain s1 fs where s1: "Filesystem_Init [] s0 (fs0 d) = Inr (s1, fs)" "engine_inv s1"
    "\<And>m. \<not> strcaseeq ''fsBasedir'' m \<Longrightarrow> cvar_lookup s1 m = cvar_lookup s0 m" "\<And>b u. cvar_text s0 b = Some u \<Longrightarrow> cvar_text s1 b = Some u"
    using Filesystem_Init_fresh [OF assms(7) _ assms(5)] by blast
  let ?e1 = "e\<lparr>eng_log := l2, eng_args := cl, eng_console := (eng_console e)\<lparr>con_cmds := cmds, con_cvars := s1, con_fs := fs\<rparr>\<rparr>"
  have "cvar_lookup s1 ''scriptStackSize'' = None" using s1(3) assms(9) by (simp add: diff)
  then obtain s2 where s2: "Script_Init su ?e1 = Inr (?e1\<lparr>eng_console := (eng_console ?e1)\<lparr>con_cvars := s2\<rparr>, eng_script := \<lparr>vm_initialised = True, vm_handle = Some h, vm_table = Some h\<rparr>\<rparr>)"
    "engine_inv s2" "\<And>m. \<not> strcaseeq ''scriptStackSize'' m \<Longrightarrow> cvar_lookup s2 m = cvar_lookup s1 m" "\<And>b u. cvar_text s1 b = Some u \<Longrightarrow> cvar_text s2 b = Some u"
    using Script_Init_fresh [of ?e1 su h] s1(2) assms(4) by auto
  let ?e2 = "?e1\<lparr>eng_console := (eng_console ?e1)\<lparr>con_cvars := s2\<rparr>, eng_script := \<lparr>vm_initialised = True, vm_handle = Some h, vm_table = Some h\<rparr>\<rparr>"
  have n2: "cvar_lookup s2 ''netServerAddress'' = None" "cvar_lookup s2 ''netPort'' = None" "cvar_lookup s2 ''netMaxPlayers'' = None"
    "\<forall>m \<in> {''playerName'', ''map'', ''mapSizeX'', ''mapSizeY''}. cvar_lookup s2 m = None"
    using s1(3) s2(3) assms(9) by (simp_all add: diff)
  have "capy_cvars.reads_as s2 ''netMode'' ''0'' mode"
    by (rule capy_cvars.reads_as_kept [OF assms(8)]) (use s1(3,4) s2(3,4) in \<open>simp_all add: diff\<close>)
  then obtain nc s3 where s3: "CapyNet_Init [] s2 = Inr (nc, s3)" "engine_inv s3" "cvar_num s3 (netMode nc) = Some (atof mode)"
    "cvar_num s3 (netPort nc) = Some (Fin 6769)" "cvar_num s3 (netMaxPlayers nc) = Some (Fin 32)"
    and same: "\<And>m. \<not> strcaseeq ''netMode'' m \<Longrightarrow> \<not> strcaseeq ''netServerAddress'' m \<Longrightarrow> \<not> strcaseeq ''netPort'' m \<Longrightarrow>
      \<not> strcaseeq ''netMaxPlayers'' m \<Longrightarrow> cvar_lookup s3 m = cvar_lookup s2 m"
    using CapyNet_Init_ok [OF s2(2) _ n2(1-3)] by blast
  have n3: "\<forall>m \<in> {''playerName'', ''map'', ''mapSizeX'', ''mapSizeY''}. cvar_lookup s3 m = cvar_lookup s2 m"
    using same by (simp add: diff)
  let ?e3 = "?e2\<lparr>eng_net := nc, eng_console := (eng_console ?e2)\<lparr>con_cvars := s3\<rparr>\<rparr>"
  have i1: "Script_Init su (e\<lparr>eng_log := l2, eng_args := cl, eng_console := (eng_console e)\<lparr>con_cmds := cmds, con_cvars := s1, con_fs := fs\<rparr>\<rparr>) = Inr ?e2"
    by (rule s2(1))
  have i2: "CapyNet_Init [] (con_cvars (eng_console ?e2)) = Inr (nc, s3)" using s3(1) by simp
  have "Engine_Init su n args e = bind_res (eng_mode ?e3) (\<lambda>mode.
      bind_res (make_modes su mode ?e3) (\<lambda>e.
      bind_res (init_client su e) (\<lambda>e.
      if con_exited (eng_console e) then Inr e
      else bind_res (init_server su e) (\<lambda>e. connect_client su mode (e\<lparr>running := True, tickrate := 60\<rparr>)))))"
    using assms(1) unfolding Engine_Init_def Let_def parts
    by (simp only: l1(1) l2(1) assms(6) cmds s1(1) i1 i2 bind_res_Inr prod.case if_True simp_thms)
  then show ?thesis
    unfolding e_def [symmetric] using s3 n3 n2(4) parts l2(2) by (intro exI [of _ ?e3]) simp
qed

text \<open>A start without arguments.\<close>

lemma client_started:
  assumes "su_log_opens su" and "su_now su \<noteq> []" and "length (su_build_date su) \<le> 900" and "su_video su = Video" and "su_vm su = Some h"
    and "path_exists d ''./'' \<or> creatable d ''./''" and "\<not> strcaseeq prog ''+set''" and "length (ct_name (su_client su)) = CLIENT_NAME_MAX"
  shows "\<exists>e ct. Engine_Init su 1 (os_argv [prog]) (engine0 d) = Inr e \<and> running e \<and> tickrate e = 60 \<and> logging (eng_log e) \<and>
    eng_server e = None \<and> eng_mode e = Inr NETMODE_CLIENT \<and> eng_cvar netPort e = Inr (Fin 6769) \<and> eng_client e = Some ct \<and>
    c_str (ct_name ct) = ''Player'' \<and> serverAddress ct = su_resolved su \<and>
    ct_state ct = (if su_resolved su = None then CLIENT_FATAL else CLIENT_RESOLVING_ADDRESS) \<and>
    engine_inv (con_cvars (eng_console e)) \<and> \<not> con_exited (eng_console e) \<and> eng_script e = \<lparr>vm_initialised = True, vm_handle = Some h, vm_table = Some h\<rparr> \<and>
    keyStates e = replicate SDL_SCANCODE_COUNT False \<and> net_sent ct = net_sent (su_client su) \<and> netBufferPtr ct = netBufferPtr (su_client su)"
proof -
  have "parse_cvars (os_argv [prog]) b 0 cvar_sys0 = Inr cvar_sys0" for b using parse_cvars_short [of "[prog]"] assms(7) by auto
  then obtain cl where cl: "Cmdline_Init 1 (os_argv [prog]) cvar_sys0 = Inr (cl, cvar_sys0)"
    by (auto simp: Cmdline_Init_def Cmdline_ParseEarlyCvars_def Let_def)
  have mode: "capy_cvars.reads_as cvar_sys0 ''netMode'' ''0'' ''0''" by (simp add: capy_cvars.reads_as_def engine_inv_empty)
  obtain e where e: "Engine_Init su 1 (os_argv [prog]) (engine0 d) = bind_res (eng_mode e) (\<lambda>mode.
      bind_res (make_modes su mode e) (\<lambda>e.
      bind_res (init_client su e) (\<lambda>e.
      if con_exited (eng_console e) then Inr e
      else bind_res (init_server su e) (\<lambda>e. connect_client su mode (e\<lparr>running := True, tickrate := 60\<rparr>)))))"
    "logging (eng_log e)" "eng_server e = None" "\<not> con_exited (eng_console e)" "engine_inv (con_cvars (eng_console e))"
    "cvar_num (con_cvars (eng_console e)) (netMode (eng_net e)) = Some (Fin 0)"
    "cvar_num (con_cvars (eng_console e)) (netPort (eng_net e)) = Some (Fin 6769)"
    "cvar_lookup (con_cvars (eng_console e)) ''playerName'' = None"
    "eng_script e = \<lparr>vm_initialised = True, vm_handle = Some h, vm_table = Some h\<rparr>" "keyStates e = replicate SDL_SCANCODE_COUNT False"
    using start_until_net [OF assms(1-3,5,6) cl engine_inv_empty(1) mode engine_inv_empty(2)] by (auto simp: atof_numbers)
  show ?thesis
    using client_part [OF e(5,8,6,7,3,4) assms(4,8)] e(1,2,9,10) by auto
qed

text \<open>
  C13. A start without arguments comes up as a client. Every subsystem's start succeeds, the command line leaves the convars alone, and the
  engine runs at sixty ticks a second with logging on and no server; the client's mode is read back from the convars that the network
  created, its port is 6769, its name is the convar's default, and it is resolving the local server's address, or is in its fatal state where
  that could not even be started.
\<close>

theorem client_starts:
  assumes "su_log_opens su" and "su_now su \<noteq> []" and "length (su_build_date su) \<le> 900" and "su_video su = Video" and "su_vm su = Some h"
    and "path_exists d ''./'' \<or> creatable d ''./''" and "\<not> strcaseeq prog ''+set''" and "length (ct_name (su_client su)) = CLIENT_NAME_MAX"
  shows "\<exists>e ct. Engine_Init su 1 (os_argv [prog]) (engine0 d) = Inr e \<and> running e \<and> tickrate e = 60 \<and> logging (eng_log e) \<and>
    eng_server e = None \<and> eng_mode e = Inr NETMODE_CLIENT \<and> eng_cvar netPort e = Inr (Fin 6769) \<and> eng_client e = Some ct \<and>
    c_str (ct_name ct) = ''Player'' \<and> serverAddress ct = su_resolved su \<and>
    ct_state ct = (if su_resolved su = None then CLIENT_FATAL else CLIENT_RESOLVING_ADDRESS)"
  using client_started [OF assms] by blast

definition plain_start :: startup where
  "plain_start =
     \<lparr>su_log_opens = True, su_errno = 0, su_now = ''12:00'', su_build_date = ''2025-06-01'', su_video = Video, su_vm = Some 1,
      su_resolved = Some 7, su_client = client_before, su_server = server_with 0 CLIENT_HELLO world0, su_random = (\<lambda>_. Fin 0),
      su_junk = (\<lambda>_. 0), su_fuel = 0\<rparr>"

theorem client_starts_witness:
  "\<exists>e ct. Engine_Init plain_start 1 (os_argv [''capy'']) (engine0 no_disk) = Inr e \<and> running e \<and> eng_client e = Some ct \<and>
    c_str (ct_name ct) = ''Player'' \<and> ct_state ct = CLIENT_RESOLVING_ADDRESS \<and> serverAddress ct = Some 7"
  using client_starts [of plain_start 1 no_disk "''capy''"]
  by (auto simp: plain_start_def path_exists_def no_disk_def strcaseeq_def to_lower_def)

end
