(* ===== verification/Capy_Server_Runs.thy ===== *)
theory Capy_Server_Runs
  imports Capy_Server Capy_Machine
begin

text \<open>
  Whole runs of the server (\<open>net/server/\<close>): its start, its frames with any datagram, its ticks, saves of its world and its shutdown, in
  any order. A run is seen through the roster: the slots, the number of clients, the live client objects and the next address.
\<close>

section \<open>The roster\<close>

type_synonym server_roster_t = "nat option list \<times> int \<times> nat set \<times> nat"

definition server_roster :: "server \<Rightarrow> server_roster_t" where
  "server_roster s = (clients s, numClients s, dom (sv_objs s), sv_fresh s)"

text \<open>A client takes the next slot; a live object is freed and the last slot is cleared.\<close>

inductive roster_step :: "server_roster_t \<Rightarrow> server_roster_t \<Rightarrow> bool" where
  join: "0 \<le> n \<Longrightarrow> n < int MAX_CLIENTS \<Longrightarrow> roster_step (sl, n, live, f) (sl[nat n := Some f], n + 1, insert f live, f + 1)"
| leave: "c \<in> live \<Longrightarrow> 0 < n \<Longrightarrow> roster_step (sl, n, live, f) (sl[nat (n - 1) := None], n - 1, live - {c}, f)"

definition roster_ok :: "server_roster_t \<Rightarrow> bool" where
  "roster_ok = (\<lambda>(sl, n, live, f). finite live \<and> (\<forall>c \<in> live. c < f) \<and> n = int (card live) \<and>
     (\<exists>cs. sl = map Some cs @ replicate (MAX_CLIENTS - length cs) None \<and> length cs = card live \<and> length cs \<le> MAX_CLIENTS \<and>
        distinct cs \<and> (\<forall>c \<in> set cs. c < f)))"

lemma roster_ok_step:
  assumes "roster_ok r" and "roster_step r r'"
  shows "roster_ok r'"
  using assms(2,1)
proof cases
  case (join n sl live f)
  obtain cs where cs: "sl = map Some cs @ replicate (MAX_CLIENTS - length cs) None" "length cs = card live" "distinct cs" "\<forall>c \<in> set cs. c < f"
    and live: "finite live" "\<forall>c \<in> live. c < f" "n = int (card live)"
    using assms(1) join(1) by (auto simp: roster_ok_def)
  have new: "f \<notin> live" "f \<notin> set cs" using live(2) cs(4) by auto
  have room: "length cs < MAX_CLIENTS" using join(4) live(3) cs(2) by simp
  then have "replicate (MAX_CLIENTS - length cs) None = None # replicate (MAX_CLIENTS - Suc (length cs)) (None :: nat option)"
    by (metis Suc_diff_Suc replicate_Suc)
  then have "sl[nat n := Some f] = map Some (cs @ [f]) @ replicate (MAX_CLIENTS - length (cs @ [f])) None"
    using cs(1,2) live(3) by (simp add: list_update_append)
  then show ?thesis
    using join(2) cs new live room by (auto simp: roster_ok_def less_Suc_eq intro!: exI [of _ "cs @ [f]"])
next
  case (leave c live n sl f)
  obtain cs where cs: "sl = map Some cs @ replicate (MAX_CLIENTS - length cs) None" "length cs = card live" "length cs \<le> MAX_CLIENTS" "distinct cs"
    "\<forall>c \<in> set cs. c < f" and live: "finite live" "\<forall>c \<in> live. c < f" "n = int (card live)"
    using assms(1) leave(1) by (auto simp: roster_ok_def)
  have pos: "0 < card live" using leave(3) live(1) by (auto simp: card_gt_0_iff)
  then obtain as a where as: "cs = as @ [a]" using cs(2) by (metis list.size(3) nat_less_le rev_exhaust)
  have "length as + 1 = card live" using cs(2) as by simp
  then have n: "nat (n - 1) = length as" "card (live - {c}) = length as" "n - 1 = int (length as)"
    using live(1,3) leave(3) by (simp_all add: card_Diff_singleton nat_diff_distrib)
  have "MAX_CLIENTS - length as = Suc (MAX_CLIENTS - length cs)" using cs(3) as by simp
  then have "sl[nat (n - 1) := None] = map Some as @ replicate (MAX_CLIENTS - length as) None"
    using cs(1) as n(1) by (simp add: list_update_append)
  then show ?thesis
    using leave(2) cs as n live by (auto simp: roster_ok_def intro!: exI [of _ as])
qed

definition roster_start :: "server_roster_t \<Rightarrow> bool" where
  "roster_start = (\<lambda>(sl, n, live, f). sl = replicate MAX_CLIENTS None \<and> n = 0 \<and> live = {})"

interpretation rm: kept_invariant roster_start roster_step roster_ok
proof
  show "roster_ok r" if "roster_start r" for r using that by (auto simp: roster_start_def roster_ok_def)
  show "roster_ok r'" if "roster_ok r" "roster_step r r'" for r r' using that by (rule roster_ok_step)
qed

section \<open>What sending leaves alone\<close>

text \<open>The network's operations change neither the roster nor the state, and keep the heap of messages well-formed.\<close>

definition kept :: "server \<Rightarrow> server \<Rightarrow> bool" where
  "kept s t \<longleftrightarrow> server_roster t = server_roster s \<and> sv_state t = sv_state s \<and> (heap_wf (net_heap s) \<longrightarrow> heap_wf (net_heap t))"

lemma kept_refl [simp]: "kept s s" by (simp add: kept_def)

lemma kept_trans [trans]: "kept s t \<Longrightarrow> kept t u \<Longrightarrow> kept s u" by (auto simp: kept_def)

definition keeps_heap :: "(byte_heap \<Rightarrow> (net_msg \<times> byte_heap) res) \<Rightarrow> bool" where
  "keeps_heap f \<longleftrightarrow> (\<forall>h m h'. heap_wf h \<longrightarrow> f h = Inr (m, h') \<longrightarrow> heap_wf h')"

named_theorems keeps

lemma keeps_heap_new [keeps]: "keeps_heap (NetMsg_new ty sz)"
proof -
  have "heap_wf h'" if "heap_wf h" "NetMsg_new ty sz h = Inr (m, h')" for h m h'
  proof -
    have "h' = h \<or> h' = snd (new_block sz h)" using that(2) by (auto simp: NetMsg_new_def Let_def split: prod.splits if_splits)
    then show ?thesis using heap_wf_new [OF that(1)] that(1) by auto
  qed
  then show ?thesis by (auto simp: keeps_heap_def)
qed

lemma EnsureCapacityWrite_heap: "heap_wf h \<Longrightarrow> EnsureCapacityWrite n m h = Inr (b, m', h') \<Longrightarrow> heap_wf h'"
  using heap_wf_new [of h "nm_size (set_size (nm_size m + n) m)"]
  by (auto simp: EnsureCapacityWrite_def Let_def bind_res_eq_Inr dest: heap_wf_write heap_wf_free split: if_splits option.splits prod.splits)

lemma NetMsg_Write_heap:
  assumes "heap_wf h" and "NetMsg_Write bs (m, h) = Inr (m', h')"
  shows "heap_wf h'"
proof (cases "True")
  case True
  then obtain b m1 h1 n where e: "EnsureCapacityWrite n m h = Inr (b, m1, h1)" "h1 = h' \<or> (\<exists>a i bs. write_block a i bs h1 = Inr h')"
    using assms(2) unfolding NetMsg_Write_def by (fastforce simp: map_res_def bind_res_eq_Inr split: if_splits option.splits)
  show ?thesis using EnsureCapacityWrite_heap [OF assms(1) e(1)] e(2) heap_wf_write by blast
qed (use assms in \<open>simp add: NetMsg_Write_def\<close>)

lemma NetMsg_Write_string_heap:
  assumes "heap_wf h" and "NetMsg_Write_string u (m, h) = Inr (m', h')"
  shows "heap_wf h'"
proof (cases "u \<noteq> None")
  case True
  then obtain b m1 h1 n where e: "EnsureCapacityWrite n m h = Inr (b, m1, h1)" "h1 = h' \<or> (\<exists>a i bs. write_block a i bs h1 = Inr h')"
    using assms(2) unfolding NetMsg_Write_string_def by (fastforce simp: map_res_def bind_res_eq_Inr split: if_splits option.splits)
  show ?thesis using EnsureCapacityWrite_heap [OF assms(1) e(1)] e(2) heap_wf_write by blast
qed (use assms in \<open>simp add: NetMsg_Write_string_def\<close>)

lemma keeps_heap_write [keeps]: "keeps_heap (\<lambda>h. NetMsg_Write bs (m, h))"
  by (auto simp: keeps_heap_def intro: NetMsg_Write_heap)

lemma keeps_heap_bind:
  assumes "keeps_heap f" and "\<And>m. keeps_heap (\<lambda>h. g (m, h))"
  shows "keeps_heap (\<lambda>h. bind_res (f h) g)"
  unfolding keeps_heap_def
proof (intro allI impI)
  fix h m h' assume h: "heap_wf h" and r: "bind_res (f h) g = Inr (m, h')"
  from r obtain m1 h1 where "f h = Inr (m1, h1)" "g (m1, h1) = Inr (m, h')" by (cases "f h") auto
  then show "heap_wf h'" using assms h by (meson keeps_heap_def)
qed

lemma keeps_heap_string: "keeps_heap (\<lambda>h. NetMsg_Write_string u (m, h))"
  by (auto simp: keeps_heap_def intro: NetMsg_Write_string_heap)

lemma keeps_heap_tagged: "keeps_heap (\<lambda>h. bind_res (NetMsg_new ty sz h) (\<lambda>mh. bind_res (NetMsg_Write bs mh) (NetMsg_Write_string u)))"
  by (rule keeps_heap_bind [OF keeps_heap_new keeps_heap_bind [OF keeps_heap_write keeps_heap_string]])

lemma keeps_heap_hello [keeps]: "keeps_heap NetFactory_CreateServerHelloPacket"
  unfolding NetFactory_CreateServerHelloPacket_def [abs_def] by (rule keeps_heap_new)

lemma keeps_heap_rpc_create [keeps]: "keeps_heap (NetFactory_CreateRpcClientCreate u)"
  unfolding NetFactory_CreateRpcClientCreate_def [abs_def] by (rule keeps_heap_tagged)

lemma keeps_heap_rpc_delete [keeps]: "keeps_heap (NetFactory_CreateRpcClientDelete u)"
  unfolding NetFactory_CreateRpcClientDelete_def [abs_def] by (rule keeps_heap_tagged)

lemma keeps_heap_download [keeps]: "keeps_heap (NetFactory_CreateDownloadPacket k)"
  unfolding NetFactory_CreateDownloadPacket_def [abs_def] by (rule keeps_heap_new)

lemma keeps_heap_shutdown [keeps]: "keeps_heap NetFactory_CreateShutdownPacket"
  unfolding NetFactory_CreateShutdownPacket_def [abs_def] by (rule keeps_heap_new)

lemma keeps_heap_download_start [keeps]: "keeps_heap (NetFactory_CreateDownloadStartPacket_Server nm v n)"
  unfolding NetFactory_CreateDownloadStartPacket_Server_def [abs_def]
  by (rule keeps_heap_bind [OF keeps_heap_new keeps_heap_bind [OF keeps_heap_string keeps_heap_bind [OF keeps_heap_write keeps_heap_write]]])

lemma make_msg_kept: "make_msg f s = Inr (m, t) \<Longrightarrow> keeps_heap f \<Longrightarrow> kept s t"
  by (fastforce simp: make_msg_def map_res_def bind_res_eq_Inr kept_def server_roster_def keeps_heap_def)

lemma DoneMessage_heap: "heap_wf h \<Longrightarrow> DoneMessage m h = Inr h' \<Longrightarrow> heap_wf h'"
  by (cases "nm_size m = 0"; cases "nm_data m") (auto simp: DoneMessage_def dest: heap_wf_free)

lemma Server_SendMessage_kept: "Server_SendMessage m c s = Inr t \<Longrightarrow> kept s t"
  by (auto simp: Server_SendMessage_def with_client_def SendMessageToPort_def bind_res_eq_Inr kept_def server_roster_def dest: DoneMessage_heap
      split: option.splits)

lemma done_msg_kept: "done_msg m s = Inr t \<Longrightarrow> kept s t"
  by (auto simp: done_msg_def map_res_def bind_res_eq_Inr kept_def server_roster_def dest: DoneMessage_heap)

lemma GetMessage_kept: "kept s (snd (GetMessage s))"
  by (simp add: GetMessage_def kept_def server_roster_def)

lemma take_message_heap:
  assumes "heap_wf h" and "take_message hdr dg h = Inr (m, h')"
  shows "heap_wf h'"
proof (cases "h_size hdr = 0 \<or> length (dg_buf dg) < HEADER_SIZE + h_size hdr")
  case True
  then show ?thesis using assms by (auto simp: take_message_def Let_def split: if_splits)
next
  case False
  then obtain a bs where "write_block a 0 bs (snd (new_block (h_size hdr) h)) = Inr h'"
    using assms(2) by (auto simp: take_message_def Let_def map_res_def bind_res_eq_Inr split: prod.splits)
  then show ?thesis using heap_wf_write [OF heap_wf_new [OF assms(1)]] by blast
qed

lemma NetMode_Frame_kept:
  assumes "NetMode_Frame r s = Inr t"
  shows "kept s t"
proof (cases "t = s")
  case False
  then obtain hdr dg m h where "take_message hdr dg (net_heap s) = Inr (m, h)" "net_heap t = h" "server_roster t = server_roster s" "sv_state t = sv_state s"
    using assms by (cases r; cases "fst r"; cases "snd r")
      (auto simp: NetMode_Frame_def GetAllIncomingMessages_def Let_def bind_res_eq_Inr server_roster_def split: if_splits)
  then show ?thesis using take_message_heap by (auto simp: kept_def)
qed simp

lemma fold_res_kept:
  assumes "\<And>x u v. x \<in> set xs \<Longrightarrow> f x u = Inr v \<Longrightarrow> kept u v" and "fold_res f xs s = Inr t"
  shows "kept s t"
  using assms
proof (induction xs arbitrary: s)
  case Nil
  then show ?case by simp
next
  case (Cons x xs)
  then obtain u where "f x s = Inr u" "fold_res f xs u = Inr t" by (auto simp: bind_res_eq_Inr)
  with Cons show ?case by (meson kept_trans list.set_intros)
qed

lemma broadcast_kept: "Server_SendMessageToAll m ex s = Inr t \<Longrightarrow> kept s t"
  unfolding Server_SendMessageToAll_def
  by (erule fold_res_kept [rotated]) (auto dest: Server_SendMessage_kept split: option.splits if_splits)

section \<open>What every operation does to the roster\<close>

text \<open>An operation is a run of joins and leaves.\<close>

definition moves :: "server \<Rightarrow> server \<Rightarrow> bool" where
  "moves s t \<longleftrightarrow> roster_step\<^sup>*\<^sup>* (server_roster s) (server_roster t) \<and> sv_state t = sv_state s \<and> (heap_wf (net_heap s) \<longrightarrow> heap_wf (net_heap t))"

lemma moves_trans [trans]: "moves s t \<Longrightarrow> moves t u \<Longrightarrow> moves s u"
  by (auto simp: moves_def)

lemma kept_moves: "kept s t \<Longrightarrow> moves s t"
  by (auto simp: kept_def moves_def)

lemma kept_slots:
  assumes "kept s t"
  shows "clients t = clients s" and "numClients t = numClients s" and "dom (sv_objs t) = dom (sv_objs s)" and "sv_fresh t = sv_fresh s"
    and "sv_objs t c = None \<longleftrightarrow> sv_objs s c = None"
  using assms by (auto simp: kept_def server_roster_def)

text \<open>What a greeting does, step by step.\<close>

lemma ClientNew_cases:
  assumes "ClientNew env m s = Inr t"
  obtains (kept) st hello s0 hello' where "make_msg NetFactory_CreateServerHelloPacket s = Inr (hello, s0)"
      "make_msg (\<lambda>h. NetMsg_Write (u8_enc (hello_byte st)) (hello, h)) s0 = Inr (hello', t)"
  | (added) st hello s0 hello' s1 cl s2 rpc s3 where "make_msg NetFactory_CreateServerHelloPacket s = Inr (hello, s0)"
      "make_msg (\<lambda>h. NetMsg_Write (u8_enc (hello_byte st)) (hello, h)) s0 = Inr (hello', s1)"
      "0 \<le> numClients s1" "numClients s1 < int MAX_CLIENTS" "Server_SendMessage hello' (sv_fresh s1) (with_new_client cl s1) = Inr s2"
      "make_msg (NetFactory_CreateRpcClientCreate (c_str (cl_name cl))) s2 = Inr (rpc, s3)"
      "Server_SendMessageToAll rpc (Some (sv_fresh s1)) s3 = Inr t"
proof -
  obtain ver m1 where 1: "NetMsg_Read 1 m (net_heap s) = Inr (ver, m1)"
    using assms by (cases "NetMsg_Read 1 m (net_heap s)") (auto simp: ClientNew_def)
  obtain p u m2 where 2: "NetMsg_Read_string m1 (net_heap s) = Inr (p, u, m2)"
    using assms 1 by (cases "NetMsg_Read_string m1 (net_heap s)") (auto simp: ClientNew_def)
  obtain n where 3: "ClientIsNew m2 u s = Inr n"
    using assms 1 2 by (cases "ClientIsNew m2 u s") (auto simp: ClientNew_def)
  obtain hello s0 where 4: "make_msg NetFactory_CreateServerHelloPacket s = Inr (hello, s0)"
    using assms 1 2 3 by (cases "make_msg NetFactory_CreateServerHelloPacket s") (auto simp: ClientNew_def)
  let ?st = "hello_result (u8_dec ver = NET_PROTOCOL_VERSION) n (f32_le (max_players env) (f32_of_int (numClients s0)))"
  let ?w = "make_msg (\<lambda>h. NetMsg_Write (u8_enc (hello_byte ?st)) (hello, h)) s0" and ?ip = "address_string env (nm_addr m)"
  let ?cl = "Client_new\<lparr>cl_name := strncpy (cl_name Client_new) ?ip CLIENT_NAME_MAX, cl_address := nm_addr m2,
    cl_ipStr := strncpy (cl_ipStr Client_new) ?ip CLIENT_IP_LENGTH, cl_port := nm_port m2\<rparr>"
  have new: "Inr t = bind_res ?w (\<lambda>(hello, s1).
     if ?st = HELLO_OK then if numClients s1 < 0 \<or> int MAX_CLIENTS \<le> numClients s1 then Inl OutOfBoundsWrite
       else bind_res (Server_SendMessage hello (sv_fresh s1) (with_new_client ?cl s1)) (\<lambda>s.
         bind_res (make_msg (NetFactory_CreateRpcClientCreate (c_str (cl_name ?cl))) s) (\<lambda>(rpc, s).
           Server_SendMessageToAll rpc (Some (sv_fresh s1)) s))
     else Inr s1)"
    using assms [symmetric] by (simp only: ClientNew_def Let_def 1 2 3 4 bind_res_Inr split_conv with_new_client_def)
  obtain hello' s1 where 5: "?w = Inr (hello', s1)" using new by (cases ?w) auto
  show ?thesis
  proof (cases "?st = HELLO_OK")
    case True
    have n: "0 \<le> numClients s1" "numClients s1 < int MAX_CLIENTS"
      and rest: "bind_res (Server_SendMessage hello' (sv_fresh s1) (with_new_client ?cl s1)) (\<lambda>s.
         bind_res (make_msg (NetFactory_CreateRpcClientCreate (c_str (cl_name ?cl))) s) (\<lambda>(rpc, s).
           Server_SendMessageToAll rpc (Some (sv_fresh s1)) s)) = Inr t"
      using new 5 True by (auto split: if_splits)
    then obtain s2 rpc s3 where "Server_SendMessage hello' (sv_fresh s1) (with_new_client ?cl s1) = Inr s2"
      "make_msg (NetFactory_CreateRpcClientCreate (c_str (cl_name ?cl))) s2 = Inr (rpc, s3)" "Server_SendMessageToAll rpc (Some (sv_fresh s1)) s3 = Inr t"
      by (auto simp: bind_res_eq_Inr)
    then show ?thesis by (rule added [OF 4 5 n])
  next
    case False
    then have "t = s1" using new 5 by simp
    then show ?thesis using kept [OF 4] 5 by blast
  qed
qed

lemma ClientNew_moves:
  assumes "ClientNew env m s = Inr t"
  shows "moves s t"
  using assms
proof (cases rule: ClientNew_cases)
  case (kept st hello s0 hello')
  then have "kept s t" by (blast intro: kept_trans dest: make_msg_kept [OF _ keeps_heap_hello] make_msg_kept [OF _ keeps_heap_write])
  then show ?thesis by (rule kept_moves)
next
  case (added st hello s0 hello' s1 cl s2 rpc s3)
  have "kept s s1" using added(1,2) by (blast intro: kept_trans dest: make_msg_kept [OF _ keeps_heap_hello] make_msg_kept [OF _ keeps_heap_write])
  moreover have "roster_step (server_roster s1) (server_roster (with_new_client cl s1))"
    using roster_step.join [OF added(3,4)] by (simp add: server_roster_def with_new_client_def)
  then have "moves s1 (with_new_client cl s1)" by (auto simp: moves_def with_new_client_def)
  moreover have "kept (with_new_client cl s1) t"
    using added(5,6,7) by (blast intro: kept_trans dest: Server_SendMessage_kept make_msg_kept [OF _ keeps_heap_rpc_create] broadcast_kept)
  ultimately show ?thesis by (blast intro: moves_trans kept_moves)
qed

lemma ClientRemove_moves:
  assumes "ClientRemove c s = Inr t"
  shows "moves s t"
proof -
  obtain cl where 0: "sv_objs s c = Some cl" using assms by (cases "sv_objs s c") (auto simp: ClientRemove_def with_client_def)
  obtain rpc s1 where 1: "make_msg (NetFactory_CreateRpcClientDelete (c_str (cl_name cl))) s = Inr (rpc, s1)"
    using assms 0 by (auto simp: ClientRemove_def with_client_def bind_res_eq_Inr)
  obtain s2 where 2: "Server_SendMessageToAll rpc (Some c) s1 = Inr s2"
    using assms 0 1 by (auto simp: ClientRemove_def with_client_def bind_res_eq_Inr)
  note k = 1 2
  have t: "t = s2 \<and> numClients s2 = 0 \<or> sv_objs s2 c \<noteq> None \<and> 0 \<le> numClients s2 - 1 \<and>
      t = s2\<lparr>sv_objs := (sv_objs s2)(c := None), clients := (clients s2)[nat (numClients s2 - 1) := None], numClients := numClients s2 - 1\<rparr>"
    using assms 0 1 2 by (auto simp: ClientRemove_def with_client_def Let_def split: if_splits)
  have "kept s s2" using k by (blast intro: kept_trans dest: make_msg_kept [OF _ keeps_heap_rpc_delete] broadcast_kept)
  moreover have "moves s2 t" if "sv_objs s2 c \<noteq> None" "0 \<le> numClients s2 - 1"
    "t = s2\<lparr>sv_objs := (sv_objs s2)(c := None), clients := (clients s2)[nat (numClients s2 - 1) := None], numClients := numClients s2 - 1\<rparr>"
    using roster_step.leave [of c "dom (sv_objs s2)" "numClients s2" "clients s2" "sv_fresh s2"] that
    by (auto simp: moves_def server_roster_def)
  ultimately show ?thesis using t by (blast intro: moves_trans kept_moves)
qed

lemma kept_update:
  "sv_objs s c = Some cl \<Longrightarrow> kept s (s\<lparr>sv_objs := (sv_objs s)(c \<mapsto> cl')\<rparr>)"
  by (auto simp: kept_def server_roster_def)

lemma ClientStartWorldDownload_kept:
  assumes "ClientStartWorldDownload env c s = Inr t"
  shows "kept s t"
proof -
  let ?f = "NetFactory_CreateDownloadStartPacket_Server (Some (map_name env)) (of_int (vx (wh_size (w_header (sv_world s)))), of_int (vy (wh_size (w_header (sv_world s)))))
    (of_nat (GetSizeInBytes (sv_world s)))"
  obtain m s1 where 1: "make_msg ?f s = Inr (m, s1)" using assms by (auto simp: ClientStartWorldDownload_def Let_def bind_res_eq_Inr)
  obtain s2 where 2: "Server_SendMessage m c s1 = Inr s2" using assms 1 by (auto simp: ClientStartWorldDownload_def Let_def bind_res_eq_Inr)
  have "kept s2 t" using assms 1 2 by (auto simp: ClientStartWorldDownload_def Let_def with_client_def intro: kept_update split: option.splits)
  then show ?thesis using make_msg_kept [OF 1 keeps_heap_download_start] Server_SendMessage_kept [OF 2] by (blast intro: kept_trans)
qed

lemma ClientSendWorldChunk_kept:
  assumes "ClientSendWorldChunk c s = Inr t"
  shows "kept s t"
proof -
  obtain cl where 0: "sv_objs s c = Some cl" using assms by (cases "sv_objs s c") (auto simp: ClientSendWorldChunk_def with_client_def)
  define n where "n = (let r = nat ((int (GetSizeInBytes (sv_world s)) - int (cl_downloadProgress cl)) mod 2 ^ 64)
    in if r < MAX_PACKET_SIZE then r else MAX_PACKET_SIZE)"
  note def = ClientSendWorldChunk_def with_client_def 0 option.case Let_def n_def [symmetric, unfolded Let_def]
  obtain m s1 where 1: "make_msg (NetFactory_CreateDownloadPacket n) s = Inr (m, s1)"
    using assms unfolding def by (cases "make_msg (NetFactory_CreateDownloadPacket n) s") auto
  obtain bs where 2: "tile_chunk (sv_world s1) (cl_downloadProgress cl) n = Inr bs"
    using assms 1 unfolding def by (cases "tile_chunk (sv_world s1) (cl_downloadProgress cl) n") auto
  let ?put = "if n = 0 then Inr s1 else case nm_data (set_size n m) of None \<Rightarrow> Inl Uninitialised
    | Some a \<Rightarrow> map_res (\<lambda>h. s1\<lparr>net_heap := h\<rparr>) (write_block a 0 bs (net_heap s1))"
  obtain s2 where 3: "?put = Inr s2" using assms 1 2 unfolding def by (cases ?put) auto
  obtain s3 where 4: "Server_SendMessage (set_size n m) c s2 = Inr s3"
    using assms 1 2 3 unfolding def by (cases "Server_SendMessage (set_size n m) c s2") auto
  have "kept s1 s2" using 3
    by (auto simp: kept_def server_roster_def map_res_def bind_res_eq_Inr dest: heap_wf_write split: if_splits option.splits)
  moreover have "kept s3 t"
  proof (cases "sv_objs s3 c")
    case (Some cl')
    then obtain cl'' where "t = s3\<lparr>sv_objs := (sv_objs s3)(c \<mapsto> cl'')\<rparr>" using assms 1 2 3 4 unfolding def by auto
    then show ?thesis using kept_update [OF Some] by simp
  next
    case None
    then show ?thesis using assms 1 2 3 4 unfolding def by auto
  qed
  ultimately show ?thesis using make_msg_kept [OF 1 keeps_heap_download] Server_SendMessage_kept [OF 4] by (blast intro: kept_trans)
qed

lemma download_slot_kept:
  "(case clients s ! i of None \<Rightarrow> Inr s
    | Some c \<Rightarrow> with_client c s (\<lambda>cl. if cl_connectPhase cl = CLIENT_DOWNLOADING_WORLD then ClientSendWorldChunk c s else Inr s)) = Inr t \<Longrightarrow> kept s t"
  by (auto simp: with_client_def dest: ClientSendWorldChunk_kept split: option.splits if_splits)

lemma TickDownloads_kept: "TickDownloads s = Inr t \<Longrightarrow> kept s t"
  unfolding TickDownloads_def by (erule fold_res_kept [rotated]) (rule download_slot_kept)

lemma ClientMessage_moves: "TickNetwork_ClientMessage env c m s = Inr t \<Longrightarrow> moves s t"
  by (auto simp: TickNetwork_ClientMessage_def with_client_def intro: kept_moves dest: ClientStartWorldDownload_kept ClientRemove_moves
      split: if_splits option.splits)

lemma Server_TickNetwork_moves:
  assumes "Server_TickNetwork env s = Inr t"
  shows "moves s t"
proof -
  obtain s1 where 1: "TickDownloads s = Inr s1" using assms by (auto simp: Server_TickNetwork_def bind_res_eq_Inr)
  obtain msg s2 where 2: "GetMessage s1 = (msg, s2)" by fastforce
  have k: "moves s s2" using TickDownloads_kept [OF 1] GetMessage_kept [of s1] 2 by (auto intro: kept_moves kept_trans)
  have d: "moves u t" if "done_msg m u = Inr t" for m u using that by (blast intro: kept_moves done_msg_kept)
  have "moves s2 t"
  proof (cases msg)
    case None
    then show ?thesis using assms 1 2 by (simp add: Server_TickNetwork_def kept_moves)
  next
    case (Some m)
    note r = assms [unfolded Server_TickNetwork_def 1 bind_res_Inr Let_def 2 split_conv Some option.case]
    consider (bad) "\<not> nm_valid m" | (hello) "nm_valid m" "h_type (nm_header m) = NETMSG_HELLO"
      | (other) "nm_valid m" "h_type (nm_header m) \<noteq> NETMSG_HELLO" by blast
    then show ?thesis
    proof cases
      case bad
      then show ?thesis using r d by simp
    next
      case hello
      then obtain u where "ClientNew env m s2 = Inr u" "done_msg m u = Inr t" using r by (auto simp: bind_res_eq_Inr)
      then show ?thesis using d by (blast intro: moves_trans dest: ClientNew_moves)
    next
      case other
      then obtain q where q: "(case q of None \<Rightarrow> Inr s2 | Some c \<Rightarrow> bind_res (TickNetwork_ClientMessage env c m s2) (done_msg m)) = Inr t"
        using r by (auto simp: bind_res_eq_Inr)
      show ?thesis
      proof (cases q)
        case None
        then show ?thesis using q by (simp add: kept_moves)
      next
        case (Some c)
        then obtain u where "TickNetwork_ClientMessage env c m s2 = Inr u" "done_msg m u = Inr t" using q by (auto simp: bind_res_eq_Inr)
        then show ?thesis using d by (blast intro: moves_trans dest: ClientMessage_moves)
      qed
    qed
  qed
  with k show ?thesis by (rule moves_trans)
qed

lemma fold_res_moves:
  assumes "\<And>x u v. f x u = Inr v \<Longrightarrow> moves u v" and "fold_res f xs s = Inr t"
  shows "moves s t"
  using assms(2)
proof (induction xs arbitrary: s)
  case Nil
  then show ?case by (simp add: kept_moves)
next
  case (Cons x xs)
  then obtain u where "f x s = Inr u" "fold_res f xs u = Inr t" by (auto simp: bind_res_eq_Inr)
  with Cons assms(1) show ?case by (blast intro: moves_trans)
qed

lemma shutdown_slot_moves:
  assumes "(case clients s ! i of None \<Rightarrow> Inr s
    | Some c \<Rightarrow> bind_res (make_msg NetFactory_CreateShutdownPacket s) (\<lambda>(m, s). bind_res (Server_SendMessage m c s) (ClientRemove c))) = Inr t"
  shows "moves s t"
proof (cases "clients s ! i")
  case None
  then show ?thesis using assms by (simp add: kept_moves)
next
  case (Some c)
  then obtain m s1 s2 where "make_msg NetFactory_CreateShutdownPacket s = Inr (m, s1)" "Server_SendMessage m c s1 = Inr s2" "ClientRemove c s2 = Inr t"
    using assms by (auto simp: bind_res_eq_Inr)
  then show ?thesis
    by (blast intro: kept_moves moves_trans dest: make_msg_kept [OF _ keeps_heap_shutdown] Server_SendMessage_kept ClientRemove_moves)
qed

section \<open>Runs\<close>

text \<open>What happens to a server: it starts, has a frame or a tick, its world is saved or changed, it is shut down.\<close>

inductive server_step :: "server \<Rightarrow> server \<Rightarrow> bool" where
  init: "Server_Init mem rnd junk fuel (cs, fs, s) = Inr (cs', fs', t) \<Longrightarrow> server_step s t"
| frame: "Server_Frame run mode received line (s, con) = Inr (t, con') \<Longrightarrow> server_step s t"
| tick: "Server_Tick env s = Inr t \<Longrightarrow> server_step s t"
| save: "server_step s (s\<lparr>sv_world := w\<rparr>)"
| shutdown: "Server_Shutdown s = Inr t \<Longrightarrow> server_step s t"

definition server_start :: "server \<Rightarrow> bool" where
  "server_start s \<longleftrightarrow> (\<exists>port raw. s = Server_new port raw \<and> numClients raw = 0 \<and> sv_objs raw = Map.empty \<and>
     sv_state raw = SERVER_INITIALISING \<and> heap_wf (net_heap raw))"

definition server_inv :: "server \<Rightarrow> bool" where
  "server_inv s \<longleftrightarrow> roster_ok (server_roster s) \<and> heap_wf (net_heap s) \<and> sv_state s \<noteq> SERVER_SHUTTING_DOWN"

lemma server_inv_moves: "server_inv s \<Longrightarrow> moves s t \<Longrightarrow> server_inv t"
  using rm.inv_steps [of "server_roster s" "server_roster t"] by (simp add: server_inv_def moves_def)

lemma Server_Init_roster:
  assumes "Server_Init mem rnd junk fuel (cs, fs, s) = Inr (cs', fs', t)"
  shows "\<exists>w. t = s\<lparr>sv_world := w, sv_state := SERVER_RUNNING\<rparr>"
proof -
  obtain u where u: "Server_SetMap mem rnd junk fuel (cs, fs, s) = Inr (cs', fs', u)" "t = Server_SetState SERVER_RUNNING u"
    using assms by (auto simp: Server_Init_def map_res_def bind_res_eq_Inr)
  have "\<exists>w. u = s\<lparr>sv_world := w\<rparr>"
    using u(1) by (auto simp: Server_SetMap_def map_res_def bind_res_eq_Inr Let_def split: if_splits)
  then show ?thesis using u(2) by (auto simp: Server_SetState_def)
qed

lemma Server_Shutdown_moves:
  assumes "Server_Shutdown s = Inr t"
  shows "\<exists>u. moves (Server_SetState SERVER_SHUTTING_DOWN s) u \<and> t = Server_SetState SERVER_DEAD u"
proof -
  obtain u where u: "fold_res (\<lambda>i s. case clients s ! i of None \<Rightarrow> Inr s
    | Some c \<Rightarrow> bind_res (make_msg NetFactory_CreateShutdownPacket s) (\<lambda>(m, s). bind_res (Server_SendMessage m c s) (ClientRemove c)))
    [0..<MAX_CLIENTS] (Server_SetState SERVER_SHUTTING_DOWN s) = Inr u" "t = Server_SetState SERVER_DEAD u"
    using assms by (auto simp: Server_Shutdown_def map_res_def bind_res_eq_Inr)
  have "moves (Server_SetState SERVER_SHUTTING_DOWN s) u" using u(1) by (rule fold_res_moves [rotated]) (rule shutdown_slot_moves)
  then show ?thesis using u(2) by blast
qed

lemma roster_SetState [simp]: "server_roster (Server_SetState st s) = server_roster s" "sv_state (Server_SetState st s) = st"
  "net_heap (Server_SetState st s) = net_heap s"
  by (simp_all add: server_roster_def Server_SetState_def)

lemma Server_Shutdown_inv:
  assumes "Server_Shutdown s = Inr t" and "server_inv s"
  shows "server_inv t"
proof -
  obtain u where u: "moves (Server_SetState SERVER_SHUTTING_DOWN s) u" "t = Server_SetState SERVER_DEAD u"
    using Server_Shutdown_moves [OF assms(1)] by blast
  then show ?thesis using rm.inv_steps [of "server_roster s" "server_roster u"] assms(2) by (simp add: server_inv_def moves_def)
qed

lemma Server_Tick_inv:
  assumes "server_inv s" and "Server_Tick env s = Inr t"
  shows "server_inv t"
  using assms by (auto simp: Server_Tick_def intro: server_inv_moves dest: Server_TickNetwork_moves Server_Shutdown_inv split: server_state.splits)

lemma Server_Frame_kept: "Server_Frame run mode received line (s, con) = Inr (t, con') \<Longrightarrow> kept s t"
  by (auto simp: Server_Frame_def bind_res_eq_Inr map_res_def dest: NetMode_Frame_kept split: if_splits)

lemma server_step_inv:
  assumes "server_inv s" and "server_step s t"
  shows "server_inv t"
  using assms(2)
proof cases
  case (init mem rnd junk fuel cs fs cs' fs')
  then show ?thesis using assms(1) Server_Init_roster by (fastforce simp: server_inv_def server_roster_def)
next
  case (frame run mode received line con con')
  then show ?thesis using assms(1) by (blast intro: server_inv_moves kept_moves Server_Frame_kept)
next
  case (tick env)
  then show ?thesis using assms(1) by (blast intro: Server_Tick_inv)
next
  case (save w)
  then show ?thesis using assms(1) by (simp add: server_inv_def server_roster_def)
next
  case shutdown
  then show ?thesis using assms(1) by (blast intro: Server_Shutdown_inv)
qed

lemma server_step_roster:
  assumes "server_step s t"
  shows "roster_step\<^sup>*\<^sup>* (server_roster s) (server_roster t)"
  using assms
proof cases
  case (init mem rnd junk fuel cs fs cs' fs')
  then have "server_roster t = server_roster s" using Server_Init_roster by (fastforce simp: server_roster_def)
  then show ?thesis by simp
next
  case (frame run mode received line con con')
  then show ?thesis using Server_Frame_kept by (fastforce simp: kept_def)
next
  case (tick env)
  then show ?thesis
    by (auto simp: Server_Tick_def moves_def dest!: Server_TickNetwork_moves Server_Shutdown_moves split: server_state.splits)
next
  case (save w)
  then show ?thesis by (simp add: server_roster_def)
next
  case shutdown
  then show ?thesis by (auto simp: moves_def dest!: Server_Shutdown_moves)
qed

interpretation sm: kept_invariant server_start server_step server_inv
proof
  show "server_inv s" if "server_start s" for s
    using that by (auto simp: server_start_def server_inv_def server_roster_def Server_new_def roster_ok_def)
  show "server_inv t" if "server_inv s" "server_step s t" for s t using that by (rule server_step_inv)
qed

section \<open>Dangling slots\<close>

definition slot_dangles :: "server \<Rightarrow> bool" where
  "slot_dangles s \<longleftrightarrow> (\<exists>c. Some c \<in> set (clients s) \<and> sv_objs s c = None)"

lemma dangling_tick:
  assumes "server_inv s" and "slot_dangles s"
  shows "\<exists>e. TickDownloads s = Inl e"
proof (rule ccontr)
  let ?f = "\<lambda>i s. case clients s ! i of None \<Rightarrow> Inr s
    | Some c \<Rightarrow> with_client c s (\<lambda>cl. if cl_connectPhase cl = CLIENT_DOWNLOADING_WORLD then ClientSendWorldChunk c s else Inr s)"
  assume "\<nexists>e. TickDownloads s = Inl e"
  then obtain t where t: "fold_res ?f [0..<MAX_CLIENTS] s = Inr t" by (cases "TickDownloads s") (auto simp: TickDownloads_def)
  obtain c i where c: "sv_objs s c = None" "i < length (clients s)" "clients s ! i = Some c"
    using assms(2) by (auto simp: slot_dangles_def in_set_conv_nth)
  have "length (clients s) = MAX_CLIENTS" using assms(1) by (auto simp: server_inv_def roster_ok_def server_roster_def)
  then have "[0..<MAX_CLIENTS] = [0..<i] @ i # [Suc i..<MAX_CLIENTS]"
    using c(2) by (metis less_imp_le upt_conv_Cons upt_add_eq_append le_add_diff_inverse zero_le)
  then obtain u v where u: "fold_res ?f [0..<i] s = Inr u" "?f i u = Inr v" using t by (auto simp: fold_res_append bind_res_eq_Inr)
  have "kept s u" using u(1) by (rule fold_res_kept [rotated]) (rule download_slot_kept)
  then have "sv_objs u c = None" "clients u ! i = Some c" using c kept_slots(1,5) [of s u] by auto
  then show False using u(2) by (simp add: with_client_def)
qed

lemma live_server:
  assumes "server_inv s"
  shows "length (clients s) = MAX_CLIENTS" and "int (card (dom (sv_objs s))) = numClients s" and "numClients s \<le> int MAX_CLIENTS"
    and "\<not> slot_dangles s \<Longrightarrow> server_wf s \<and> dom (sv_objs s) = set (joined s)"
proof -
  obtain cs where cs: "clients s = map Some cs @ replicate (MAX_CLIENTS - length cs) None" "length cs = card (dom (sv_objs s))"
    "length cs \<le> MAX_CLIENTS" "distinct cs" "\<forall>c \<in> set cs. c < sv_fresh s" "numClients s = int (length cs)" "finite (dom (sv_objs s))" "heap_wf (net_heap s)"
    using assms by (auto simp: server_inv_def roster_ok_def server_roster_def)
  then show "length (clients s) = MAX_CLIENTS" "int (card (dom (sv_objs s))) = numClients s" "numClients s \<le> int MAX_CLIENTS" by simp_all
  assume "\<not> slot_dangles s"
  then have sub: "set cs \<subseteq> dom (sv_objs s)" using cs(1) by (auto simp: slot_dangles_def)
  moreover have "card (set cs) = card (dom (sv_objs s))" using cs(2,4) by (simp add: distinct_card)
  ultimately have "set cs = dom (sv_objs s)" using cs(7) by (simp add: card_subset_eq)
  moreover have "joined s = cs" by (rule joined_eq [OF cs(1,6)])
  ultimately show "server_wf s \<and> dom (sv_objs s) = set (joined s)" using cs sub by (auto simp: server_wf_def intro!: exI [of _ cs])
qed

section \<open>Properties\<close>

text \<open>
  C6. The server's clients in every run of a server whose raw memory counted no client. However starts, frames with any datagram, ticks, saves and shutdowns follow each other, there are 32
  slots, the clients counted are the client objects alive, 32 at most, and the server is never left half shut down. As long as no slot
  dangles, the server is well-formed and its objects are exactly its clients', so nobody is lost and nothing is leaked. Once a slot dangles,
  no running server survives its next tick.
\<close>

theorem server_clients_in_every_run:
  assumes "server_start s0" and "server_step\<^sup>*\<^sup>* s0 s"
  shows "length (clients s) = MAX_CLIENTS \<and> int (card (dom (sv_objs s))) = numClients s \<and> numClients s \<le> int MAX_CLIENTS \<and>
    sv_state s \<noteq> SERVER_SHUTTING_DOWN \<and>
    (if \<exists>c. Some c \<in> set (clients s) \<and> sv_objs s c = None then sv_state s = SERVER_RUNNING \<longrightarrow> (\<forall>env. \<exists>e. Server_Tick env s = Inl e)
     else server_wf s \<and> dom (sv_objs s) = set (joined s))"
proof -
  have inv: "server_inv s" using assms by (rule sm.inv_reachable)
  have "\<exists>e. Server_Tick env s = Inl e" if "slot_dangles s" "sv_state s = SERVER_RUNNING" for env
    using dangling_tick [OF inv that(1)] that(2) by (auto simp: Server_Tick_def Server_TickNetwork_def)
  then show ?thesis using live_server [OF inv] inv by (auto simp: slot_dangles_def server_inv_def)
qed

text \<open>
  C29. Every event of a server is a sequence of joins, each taking the next slot and a new object, and leaves, each freeing a live object and
  clearing the last slot; sending, receiving, downloads, saves and starts change nothing in the roster.
\<close>

theorem server_refines_roster:
  assumes "server_step s t"
  shows "roster_step\<^sup>*\<^sup>* (clients s, numClients s, dom (sv_objs s), sv_fresh s) (clients t, numClients t, dom (sv_objs t), sv_fresh t)"
  using server_step_roster [OF assms] by (simp only: server_roster_def)

section \<open>The shutdown\<close>

text \<open>A removal from a server of at most two, with what it sends.\<close>

lemma ClientRemove_sends:
  assumes "server_wf s" and "c \<in> set (joined s)" and "length (c_str (cl_name (the (sv_objs s c)))) < CLIENT_NAME_MAX"
    and "filter (\<lambda>d. Some d \<noteq> Some c) (joined s) = ds" and "length ds \<le> 1"
  shows "\<exists>s1 hd rest. ClientRemove c s = Inr (s1\<lparr>sv_objs := (sv_objs s)(c := None), clients := (clients s)[length (joined s) - 1 := None],
      numClients := int (length (joined s)) - 1\<rparr>) \<and> heap_wf (net_heap s1) \<and> sv_state s1 = sv_state s \<and> h_type hd = NETMSG_SERVER_RPC \<and>
    net_sent s1 = net_sent s @ map (\<lambda>d. (cl_address (the (sv_objs s d)), cl_port (the (sv_objs s d)),
      net_header_enc hd @ NETMSG_RPC_REQUEST_CLIENT_DELETE # z_bytes (c_str (cl_name (the (sv_objs s c)))) @ rest)) ds"
proof -
  note wf = server_wf_joined [OF assms(1)]
  obtain cl where cl: "sv_objs s c = Some cl" using wf(5) [OF assms(2)] by auto
  have len: "length (c_str (cl_name cl)) < CLIENT_NAME_MAX" using assms(3) cl by simp
  obtain rpc h rest where rpc: "NetFactory_CreateRpcClientDelete (c_str (cl_name cl)) (net_heap s) = Inr (rpc, h)" "msg_ok rpc h" "0 < nm_size rpc"
    "h_type (nm_header rpc) = NETMSG_SERVER_RPC" "block_of rpc h = NETMSG_RPC_REQUEST_CLIENT_DELETE # z_bytes (c_str (cl_name cl)) @ rest"
    using rpc_name_ok(2) [OF wf(6) len] by blast
  let ?s1 = "s\<lparr>net_heap := h\<rparr>"
  have wf1: "server_wf ?s1" using server_wf_heap [OF assms(1)] rpc(2) by (simp add: msg_ok_def)
  define s2 where "s2 = (case ds of [] \<Rightarrow> ?s1 | d # _ \<Rightarrow> after_send rpc (the (sv_objs s d)) ?s1)"
  have ds: "ds = [] \<or> (\<exists>d. ds = [d])" using assms(5) by (cases ds) auto
  then have s2: "Server_SendMessageToAll rpc (Some c) ?s1 = Inr s2"
    using broadcast_cases [OF wf1 _ rpc(3), of "Some c"] rpc(2) assms(4) by (auto simp: s2_def)
  have same: "clients s2 = clients s" "sv_objs s2 = sv_objs s" "numClients s2 = numClients s" "heap_wf (net_heap s2)" "sv_state s2 = sv_state s"
    using ds rpc(2) by (auto simp: s2_def msg_ok_def heap_wf_def)
  have n: "0 < numClients s" "numClients s \<le> int MAX_CLIENTS" "nat (numClients s - 1) = length (joined s) - 1"
    using wf(2,3) assms(2) by (auto simp: length_pos_if_in_set nat_diff_distrib')
  have "ClientRemove c s = Inr (s2\<lparr>sv_objs := (sv_objs s)(c := None), clients := (clients s)[length (joined s) - 1 := None],
      numClients := int (length (joined s)) - 1\<rparr>)"
    using n wf(3) cl same s2 by (simp add: ClientRemove_def with_client_def make_msg_def rpc(1) Let_def)
  moreover have "net_sent s2 = net_sent s @ map (\<lambda>d. (cl_address (the (sv_objs s d)), cl_port (the (sv_objs s d)),
      net_header_enc (nm_header rpc) @ NETMSG_RPC_REQUEST_CLIENT_DELETE # z_bytes (c_str (cl_name (the (sv_objs s c)))) @ rest)) ds"
    using ds cl rpc(5) by (auto simp: s2_def)
  ultimately show ?thesis using same(4,5) rpc(4) by blast
qed

text \<open>One client is told, and removed.\<close>

definition tell_and_remove :: "nat \<Rightarrow> server \<Rightarrow> server res" where
  "tell_and_remove c s = bind_res (make_msg NetFactory_CreateShutdownPacket s) (\<lambda>(m, s). bind_res (Server_SendMessage m c s) (ClientRemove c))"

lemma Server_Shutdown_eq:
  "Server_Shutdown s = map_res (Server_SetState SERVER_DEAD)
     (fold_res (\<lambda>i s. case clients s ! i of None \<Rightarrow> Inr s | Some c \<Rightarrow> tell_and_remove c s) [0..<MAX_CLIENTS] (Server_SetState SERVER_SHUTTING_DOWN s))"
  by (simp only: Server_Shutdown_def tell_and_remove_def)

lemma tell_told:
  assumes "sv_objs s c = Some cl"
  shows "\<exists>hd raw. h_type hd = NETMSG_SERVER_SHUTDOWN \<and>
    tell_and_remove c s = ClientRemove c (s\<lparr>net_sent := net_sent s @ [(cl_address cl, cl_port cl, net_header_enc hd @ raw)], seqNumber := seqNumber s + 1\<rparr>)"
proof -
  obtain m where m: "NetMsg_new NETMSG_SERVER_SHUTDOWN 0 (net_heap s) = Inr (m, net_heap s)" "nm_size m = 0" "h_type (nm_header m) = NETMSG_SERVER_SHUTDOWN"
    by (simp add: NetMsg_new_def Let_def)
  obtain raw where "datagram_bytes m (net_heap s) = Inr (net_header_enc (nm_header m) @ raw)"
    using m(2) by (simp add: datagram_bytes_def)
  then have "Server_SendMessage m c s = Inr (s\<lparr>net_sent := net_sent s @ [(cl_address cl, cl_port cl, net_header_enc (nm_header m) @ raw)], seqNumber := seqNumber s + 1\<rparr>)"
    using assms m(2) by (simp add: Server_SendMessage_def with_client_def SendMessageToPort_def DoneMessage_def)
  then have "tell_and_remove c s = ClientRemove c (s\<lparr>net_sent := net_sent s @ [(cl_address cl, cl_port cl, net_header_enc (nm_header m) @ raw)], seqNumber := seqNumber s + 1\<rparr>)"
    by (simp add: tell_and_remove_def make_msg_def NetFactory_CreateShutdownPacket_def m(1))
  then show ?thesis using m(3) by blast
qed

lemma shut_rest:
  assumes "\<And>i. i \<in> set is \<Longrightarrow> clients s ! i = None"
  shows "fold_res (\<lambda>i s. case clients s ! i of None \<Rightarrow> Inr s | Some c \<Rightarrow> tell_and_remove c s) is s = Inr s"
  by (rule fold_res_idle) (simp add: assms)

lemma shut_first:
  assumes "clients s ! 0 = Some c"
  shows "Server_Shutdown s = map_res (Server_SetState SERVER_DEAD) (bind_res (tell_and_remove c (Server_SetState SERVER_SHUTTING_DOWN s))
    (fold_res (\<lambda>i s. case clients s ! i of None \<Rightarrow> Inr s | Some c \<Rightarrow> tell_and_remove c s) [1..<MAX_CLIENTS]))"
proof -
  have "[0..<MAX_CLIENTS] = 0 # [1..<MAX_CLIENTS]" by (simp add: MAX_CLIENTS_def upt_conv_Cons)
  moreover have "clients (Server_SetState SERVER_SHUTTING_DOWN s) ! 0 = Some c" using assms by (simp add: Server_SetState_def)
  ultimately show ?thesis by (simp only: Server_Shutdown_eq fold_res.simps option.case)
qed

lemma shut_ok:
  assumes "server_wf s" and "joined s = c # ds" and "length ds \<le> 1" and "length (c_str (cl_name (the (sv_objs s c)))) < CLIENT_NAME_MAX"
  shows "\<exists>t hd raw hd2 rest. Server_Shutdown s = Inr t \<and> sv_state t = SERVER_DEAD \<and> sv_objs t = (sv_objs s)(c := None) \<and>
    numClients t = int (length ds) \<and> clients t = (clients s)[length ds := None] \<and>
    h_type hd = NETMSG_SERVER_SHUTDOWN \<and> h_type hd2 = NETMSG_SERVER_RPC \<and>
    net_sent t = net_sent s @ (cl_address (the (sv_objs s c)), cl_port (the (sv_objs s c)), net_header_enc hd @ raw) #
      map (\<lambda>d. (cl_address (the (sv_objs s d)), cl_port (the (sv_objs s d)),
        net_header_enc hd2 @ NETMSG_RPC_REQUEST_CLIENT_DELETE # z_bytes (c_str (cl_name (the (sv_objs s c)))) @ rest)) ds"
proof -
  note wf = server_wf_joined [OF assms(1)]
  let ?s = "Server_SetState SERVER_SHUTTING_DOWN s"
  obtain cl where cl: "sv_objs s c = Some cl" using wf(5) [of c] assms(2) by auto
  have sc: "sv_objs ?s c = Some cl" using cl by (simp add: Server_SetState_def)
  obtain hd raw where told: "h_type hd = NETMSG_SERVER_SHUTDOWN"
    "tell_and_remove c ?s = ClientRemove c (?s\<lparr>net_sent := net_sent ?s @ [(cl_address cl, cl_port cl, net_header_enc hd @ raw)], seqNumber := seqNumber ?s + 1\<rparr>)"
    using tell_told [OF sc] by blast
  let ?u = "?s\<lparr>net_sent := net_sent ?s @ [(cl_address cl, cl_port cl, net_header_enc hd @ raw)], seqNumber := seqNumber ?s + 1\<rparr>"
  have u: "server_wf ?u" "joined ?u = joined s" "sv_objs ?u = sv_objs s" "clients ?u = clients s" "sv_state ?u = SERVER_SHUTTING_DOWN"
    "net_sent ?u = net_sent s @ [(cl_address cl, cl_port cl, net_header_enc hd @ raw)]"
    using assms(1) by (simp_all add: server_wf_def joined_def Server_SetState_def)
  have ds: "filter (\<lambda>d. Some d \<noteq> Some c) (joined ?u) = ds" using wf(4) assms(2) u(2) by (auto simp: filter_id_conv)
  obtain s1 hd2 rest where s1: "ClientRemove c ?u = Inr (s1\<lparr>sv_objs := (sv_objs s)(c := None), clients := (clients s)[length ds := None],
      numClients := int (length ds)\<rparr>)" "h_type hd2 = NETMSG_SERVER_RPC"
    "net_sent s1 = net_sent ?u @ map (\<lambda>d. (cl_address (the (sv_objs s d)), cl_port (the (sv_objs s d)),
      net_header_enc hd2 @ NETMSG_RPC_REQUEST_CLIENT_DELETE # z_bytes (c_str (cl_name (the (sv_objs s c)))) @ rest)) ds"
    using ClientRemove_sends [OF u(1) _ _ ds assms(3)] assms(2,4) unfolding u(2,3,4) by auto
  let ?v = "s1\<lparr>sv_objs := (sv_objs s)(c := None), clients := (clients s)[length ds := None], numClients := int (length ds)\<rparr>"
  have len: "length (clients s) = MAX_CLIENTS" using arg_cong [OF wf(1), of length] wf(2) by simp
  have "clients ?v ! i = None" if "i \<in> set [1..<MAX_CLIENTS]" for i
  proof (cases "i = length ds")
    case True
    then show ?thesis using that len by simp
  next
    case False
    then have "length (c # ds) \<le> i" using that assms(3) by auto
    then have "clients s ! i = replicate (MAX_CLIENTS - length (joined s)) None ! (i - length (joined s))"
      unfolding assms(2) [symmetric] by (subst wf(1)) (simp add: nth_append del: upt_Suc)
    then have "clients s ! i = None" using that \<open>length (c # ds) \<le> i\<close> assms(2) by simp
    then show ?thesis using False by simp
  qed
  then have "fold_res (\<lambda>i s. case clients s ! i of None \<Rightarrow> Inr s | Some c \<Rightarrow> tell_and_remove c s) [1..<MAX_CLIENTS] ?v = Inr ?v" by (rule shut_rest)
  moreover have "clients s ! 0 = Some c" using wf(1) assms(2) by simp
  ultimately have "Server_Shutdown s = Inr (Server_SetState SERVER_DEAD ?v)" using shut_first told(2) s1(1) by simp
  then show ?thesis using s1(2,3) told(1) u(6) cl
    by (intro exI [of _ "Server_SetState SERVER_DEAD ?v"] exI [of _ hd] exI [of _ raw] exI [of _ hd2] exI [of _ rest]) (simp add: Server_SetState_def)
qed

text \<open>
  C28. What a shutdown does. Without clients the server is dead at once. A single client is told and freed. Of two clients only the first is
  told of the shutdown and freed; the second gets the news that the first has left, its object is never freed, and the slot of the first
  keeps pointing to the freed one. With three clients or more, the shutdown itself uses freed memory.
\<close>

theorem Server_Shutdown_effect:
  assumes "server_wf s" and "\<And>c. c \<in> set (joined s) \<Longrightarrow> length (c_str (cl_name (the (sv_objs s c)))) < CLIENT_NAME_MAX"
  shows "case joined s of
     [] \<Rightarrow> Server_Shutdown s = Inr (s\<lparr>sv_state := SERVER_DEAD\<rparr>)
   | [c] \<Rightarrow> \<exists>t hd raw. Server_Shutdown s = Inr t \<and> sv_state t = SERVER_DEAD \<and> sv_objs t = (sv_objs s)(c := None) \<and> set (clients t) = {None} \<and>
       h_type hd = NETMSG_SERVER_SHUTDOWN \<and>
       net_sent t = net_sent s @ [(cl_address (the (sv_objs s c)), cl_port (the (sv_objs s c)), net_header_enc hd @ raw)]
   | [c, d] \<Rightarrow> \<exists>t hd raw hd2 rest. Server_Shutdown s = Inr t \<and> sv_state t = SERVER_DEAD \<and> sv_objs t = (sv_objs s)(c := None) \<and>
       Some c \<in> set (clients t) \<and> Some d \<notin> set (clients t) \<and> sv_objs t d \<noteq> None \<and> h_type hd = NETMSG_SERVER_SHUTDOWN \<and> h_type hd2 = NETMSG_SERVER_RPC \<and>
       net_sent t = net_sent s @ [(cl_address (the (sv_objs s c)), cl_port (the (sv_objs s c)), net_header_enc hd @ raw),
         (cl_address (the (sv_objs s d)), cl_port (the (sv_objs s d)),
           net_header_enc hd2 @ NETMSG_RPC_REQUEST_CLIENT_DELETE # z_bytes (c_str (cl_name (the (sv_objs s c)))) @ rest)]
   | _ \<Rightarrow> Server_Shutdown s = Inl UseAfterFree"
proof -
  note wf = server_wf_joined [OF assms(1)]
  have rep: "replicate MAX_CLIENTS (None :: nat option) = None # replicate 31 None" "replicate (MAX_CLIENTS - 1) (None :: nat option) = None # replicate 30 None"
    by (simp_all add: MAX_CLIENTS_def replicate_Suc [symmetric] del: replicate_Suc)
  consider (none) "joined s = []" | (one) c where "joined s = [c]" | (two) c d where "joined s = [c, d]" | (many) c d e es where "joined s = c # d # e # es"
    by (metis list.exhaust)
  then show ?thesis
  proof cases
    case none
    then have "clients (Server_SetState SERVER_SHUTTING_DOWN s) ! i = None" if "i \<in> set [0..<MAX_CLIENTS]" for i
      using that wf(1) by (simp add: Server_SetState_def)
    then show ?thesis using none shut_rest [of "[0..<MAX_CLIENTS]"] by (simp add: Server_Shutdown_eq) (simp add: Server_SetState_def)
  next
    case (one c)
    have "set ((clients s)[0 := None]) = {None}" using wf(1) one by (simp add: MAX_CLIENTS_def)
    then show ?thesis using shut_ok [OF assms(1) one] assms(2) [of c] one by fastforce
  next
    case (two c d)
    have ne: "c \<noteq> d" "sv_objs s d \<noteq> None" using wf(4,5) two by auto
    have "(clients s)[1 := None] = Some c # None # replicate (MAX_CLIENTS - 2) None" using wf(1) two by simp
    then have "Some c \<in> set ((clients s)[1 := None])" "Some d \<notin> set ((clients s)[1 := None])" using ne(1) by auto
    moreover obtain t hd raw hd2 rest where "Server_Shutdown s = Inr t" "sv_state t = SERVER_DEAD" "sv_objs t = (sv_objs s)(c := None)"
      "clients t = (clients s)[1 := None]" "h_type hd = NETMSG_SERVER_SHUTDOWN" "h_type hd2 = NETMSG_SERVER_RPC"
      "net_sent t = net_sent s @ [(cl_address (the (sv_objs s c)), cl_port (the (sv_objs s c)), net_header_enc hd @ raw),
         (cl_address (the (sv_objs s d)), cl_port (the (sv_objs s d)),
           net_header_enc hd2 @ NETMSG_RPC_REQUEST_CLIENT_DELETE # z_bytes (c_str (cl_name (the (sv_objs s c)))) @ rest)]"
      using shut_ok [OF assms(1) two] assms(2) [of c] two by auto
    ultimately show ?thesis using two ne by auto
  next
    case (many c d e es)
    let ?s = "Server_SetState SERVER_SHUTTING_DOWN s"
    obtain cl where cl: "sv_objs ?s c = Some cl" using wf(5) [of c] many by (auto simp: Server_SetState_def)
    obtain hd raw where told:
      "tell_and_remove c ?s = ClientRemove c (?s\<lparr>net_sent := net_sent ?s @ [(cl_address cl, cl_port cl, net_header_enc hd @ raw)], seqNumber := seqNumber ?s + 1\<rparr>)"
      using tell_told [OF cl] by blast
    have "ClientRemove c (?s\<lparr>net_sent := net_sent ?s @ [(cl_address cl, cl_port cl, net_header_enc hd @ raw)], seqNumber := seqNumber ?s + 1\<rparr>) = Inl UseAfterFree"
    proof (rule ClientRemove_large)
      show "length (c_str (cl_name (the (sv_objs (?s\<lparr>net_sent := net_sent ?s @ [(cl_address cl, cl_port cl, net_header_enc hd @ raw)],
        seqNumber := seqNumber ?s + 1\<rparr>) c)))) < CLIENT_NAME_MAX" using assms(2) [of c] many by (simp add: Server_SetState_def)
    qed (use assms(1) many in \<open>simp_all add: server_wf_def joined_def Server_SetState_def\<close>)
    moreover have "clients s ! 0 = Some c" using wf(1) many by simp
    ultimately show ?thesis using shut_first told many by simp
  qed
qed

section \<open>Examples\<close>

theorem Server_Shutdown_effect_witness:
  "(\<exists>t. Server_Shutdown (server_with 2 CLIENT_LETS_GO world0) = Inr t \<and> sv_state t = SERVER_DEAD \<and> Some 0 \<in> set (clients t) \<and>
     sv_objs t 0 = None \<and> sv_objs t 1 \<noteq> None \<and> length (net_sent t) = 2) \<and>
   Server_Shutdown (server_with 3 CLIENT_LETS_GO world0) = Inl UseAfterFree"
proof -
  have max: "2 \<le> MAX_CLIENTS" "3 \<le> MAX_CLIENTS" "[0..<2] = [0, 1::nat]" "[0..<3] = [0, 1, 2::nat]"
    by (simp_all add: MAX_CLIENTS_def upt_rec numeral_2_eq_2 numeral_3_eq_3)
  have nm: "length (c_str (cl_name (the (sv_objs (server_with n CLIENT_LETS_GO world0) c)))) < CLIENT_NAME_MAX" if "c \<in> {0..<n}" "n \<le> 3" for c n
  proof -
    have "is_c_string (ip_name c)" "length (ip_name c) < CLIENT_NAME_MAX"
      using that by (simp_all add: ip_name_def CLIENT_NAME_MAX_def NUL_def is_c_string_def list_all_iff)
    then show ?thesis using that(1) by (simp add: client_at_def c_str_strncpy)
  qed
  note e2 = Server_Shutdown_effect [OF server_wf_with [OF max(1), of CLIENT_LETS_GO world0], unfolded joined_server_with [OF max(1)] max(3)]
  note e3 = Server_Shutdown_effect [OF server_wf_with [OF max(2), of CLIENT_LETS_GO world0], unfolded joined_server_with [OF max(2)] max(4)]
  have "Server_Shutdown (server_with 3 CLIENT_LETS_GO world0) = Inl UseAfterFree"
  proof -
    have "length (c_str (cl_name (the (sv_objs (server_with 3 CLIENT_LETS_GO world0) c)))) < CLIENT_NAME_MAX" if "c \<in> set [0, 1, 2]" for c
      by (rule nm) (use that in auto)
    from e3 [OF this] show ?thesis by simp
  qed
  moreover have "\<exists>t. Server_Shutdown (server_with 2 CLIENT_LETS_GO world0) = Inr t \<and> sv_state t = SERVER_DEAD \<and> Some 0 \<in> set (clients t) \<and>
     sv_objs t 0 = None \<and> sv_objs t 1 \<noteq> None \<and> length (net_sent t) = 2"
    using e2 nm [of _ 2] by fastforce
  ultimately show ?thesis by blast
qed

text \<open>A server that starts, receives nothing and is shut down.\<close>

definition raw_server :: server where
  "raw_server = (server_with 0 CLIENT_HELLO world0)\<lparr>sv_state := SERVER_INITIALISING, sv_objs := Map.empty\<rparr>"

theorem server_clients_in_every_run_witness:
  "\<exists>s. server_step\<^sup>*\<^sup>* (Server_new 6769 raw_server) s \<and> sv_state s = SERVER_DEAD \<and> server_wf s \<and> dom (sv_objs s) = {} \<and> numClients s = 0"
proof -
  let ?s0 = "Server_new 6769 raw_server" and ?t = "(Server_new 6769 raw_server)\<lparr>sv_state := SERVER_DEAD\<rparr>"
  have raw: "numClients raw_server = 0" "sv_objs raw_server = Map.empty" "sv_state raw_server = SERVER_INITIALISING" "net_heap raw_server = heap0"
    by (simp_all add: raw_server_def server_with_def)
  then have start: "server_start ?s0" unfolding server_start_def by (intro exI [of _ 6769] exI [of _ raw_server]) simp
  have "clients ?s0 = replicate MAX_CLIENTS None" by (simp add: Server_new_def)
  then have "Server_Shutdown ?s0 = Inr ?t"
    using shut_rest [of "[0..<MAX_CLIENTS]" "Server_SetState SERVER_SHUTTING_DOWN ?s0"]
    by (simp add: Server_Shutdown_eq) (simp add: Server_SetState_def)
  then have "server_step\<^sup>*\<^sup>* ?s0 ?t" by (blast intro: server_step.shutdown)
  moreover have "\<nexists>c. Some c \<in> set (clients ?t) \<and> sv_objs ?t c = None" "numClients ?t = 0" "sv_state ?t = SERVER_DEAD"
    using raw by (simp_all add: Server_new_def)
  ultimately show ?thesis using server_clients_in_every_run [OF start, of ?t] raw by (intro exI [of _ ?t]) (auto simp: Server_new_def)
qed

theorem server_refines_roster_witness:
  "\<exists>t f. server_step (server_with 1 CLIENT_LETS_GO world0) t \<and>
    roster_step\<^sup>*\<^sup>* (Some 0 # replicate 31 None, 1, {0}, 1) (replicate 32 None, 0, {}, f)"
proof -
  let ?s = "server_with 1 CLIENT_LETS_GO world0"
  have one: "1 \<le> MAX_CLIENTS" "[0..<1] = [0::nat]" by (simp_all add: MAX_CLIENTS_def)
  have "length (c_str (cl_name (client_at 0 CLIENT_LETS_GO))) < CLIENT_NAME_MAX"
    by (simp add: client_at_def c_str_strncpy ip_name_def CLIENT_NAME_MAX_def NUL_def is_c_string_def list_all_iff)
  then obtain t where t: "Server_Shutdown ?s = Inr t" "sv_objs t = (sv_objs ?s)(0 := None)" "numClients t = 0" "clients t = (clients ?s)[0 := None]"
    using shut_ok [OF server_wf_with [OF one(1), of CLIENT_LETS_GO world0] joined_server_with [OF one(1), unfolded one(2)]] by auto
  have s: "clients ?s = Some 0 # replicate 31 None" "numClients ?s = 1" "dom (sv_objs ?s) = {0}" "sv_fresh ?s = 1"
    by (auto simp: server_with_def MAX_CLIENTS_def split: if_splits)
  have "clients t = replicate 32 None" unfolding t(4) s(1) by (simp add: numeral_eq_Suc)
  moreover have "dom (sv_objs t) = {}" using t(2) s(3) by auto
  moreover have step: "server_step ?s t" by (rule server_step.shutdown [OF t(1)])
  ultimately show ?thesis using server_refines_roster [OF step] unfolding s t(3) by metis
qed

end
