(* ===== verification/Capy_Dedicated.thy ===== *)
theory Capy_Dedicated
  imports Capy_Startup Capy_Server_Runs
begin

text \<open>
  The start of a dedicated server from the command line: the convar that \<open>+set\<close> creates is the one the network reads, the server is made on
  the default port, and its map is the generated world of the default size.
\<close>

section \<open>The generated world\<close>

lemma Generate_returns:
  assumes "good_size sz" and "unit_random rnd" and "rest_scale (nat (vx sz)) \<noteq> 8" and "rest_scale (nat (vy sz)) \<noteq> 8"
    and "nat (vx sz) + nat (vy sz) < fuel"
  shows "\<exists>w' tiles. Generate fuel rnd (World_Init junk sz w) = Inr w' \<and> wh_size (w_header w') = sz \<and> tileData w' = Some tiles \<and>
    length tiles = nat (vx sz) * nat (vy sz) \<and> GetSizeInBytes w' = length tiles \<and>
    (\<forall>x < nat (vx sz). \<forall>r < 6. tiles ! (r * nat (vx sz) + x) = pointersToIndicesMap WorldTileAir)"
proof -
  let ?w = "CreateGenerateNoise rnd (World_Init junk sz w)"
  obtain w' t where w': "CreateGenerateWorld rnd ?w = Inr w'"
    and rows: "rows_done ?w (map junk [0..<nat (vx sz) * nat (vy sz)]) (nat (vy sz)) (w', t)"
    using terrain_rows [OF assms(1,2)] by blast
  have sz: "wh_size (w_header w') = sz" "wh_size (w_header ?w) = sz"
    using rows World_Init_good(1) [OF assms(1)] by (simp_all add: rows_done_def Let_def)
  have h: "vy sz < 2 ^ 30" "0 < nat (vy sz)" "int (nat (vy sz)) < 2 ^ 30" "17 \<le> vy sz" using assms(1) by (auto simp: good_size_def)
  obtain q where "quadtree_loop fuel (vy sz) (nat (vx sz)) (nat (vy sz)) (Divide DIVIDE_2BY2 (collision w')) = Inr q"
    using quadtree_loop_returns [OF h(1) assms(3,4) h(2,3) assms(5) full_quad_Divide] by blast
  then have "Generate fuel rnd (World_Init junk sz w) = Inr (w'\<lparr>collision := q\<rparr>)"
    by (simp add: Generate_def w' CreateGenerateQuadtree_def sz good_size_bounds(1,2) [OF assms(1)])
  moreover have "\<exists>tiles. tileData w' = Some tiles \<and> length tiles = nat (vx sz) * nat (vy sz) \<and>
      (\<forall>x < nat (vx sz). \<forall>r < min (nat (vy sz)) 6. tiles ! (r * nat (vx sz) + x) = 0)"
    using rows sz(2) by (simp add: rows_done_def Let_def) blast
  moreover have "GetSizeInBytes (w'\<lparr>collision := q\<rparr>) = nat (vx sz) * nat (vy sz)"
    using rows World_Init_good(3) [OF assms(1), of junk w] by (simp add: rows_done_def Let_def GetSizeInBytes_def)
  moreover have "min (nat (vy sz)) 6 = 6" using h(4) by simp
  ultimately show ?thesis using sz(1) by (intro exI [of _ "w'\<lparr>collision := q\<rparr>"]) auto
qed

section \<open>The server's part of the start\<close>

lemma atof_map: "atof ''4000'' = Fin 4000" "atof ''300'' = Fin 300" "atof ''2'' = Fin 2"
  using atof_decimal [of "''4000''"] atof_decimal [of "''300''"] atof_decimal [of "''2''"]
  by (simp_all add: digits_nat_def is_digit_def digit_of_def)

lemma default_size: "good_size \<lparr>vx = 4000, vy = 300\<rparr>" "rest_scale (nat (vx \<lparr>vx = 4000 :: int, vy = 300\<rparr>)) \<noteq> 8"
    "rest_scale (nat (vy \<lparr>vx = 4000 :: int, vy = 300\<rparr>)) \<noteq> 8"
  by (simp_all add: good_size_def rest_scale.simps)

lemma default_numbers: "f32_to_i32 (Fin 4000) = Inr 4000" "f32_to_i32 (Fin 300) = Inr 300" "f32_to_u16 (Fin 6769) = Inr 6769"
    "net_mode_of (Fin 2) = Inr NETMODE_SERVER_DEDICATED"
  by code_simp+

lemma SetMap_generates:
  assumes "engine_inv cs" and "\<forall>m \<in> {''map'', ''mapSizeX'', ''mapSizeY''}. cvar_lookup cs m = None" and "unit_random rnd" and "4300 < fuel"
  shows "\<exists>t w tiles. Server_Init [] rnd junk fuel (cs, fs, s) = Inr (t, fs, s\<lparr>sv_world := w, sv_state := SERVER_RUNNING\<rparr>) \<and> engine_inv t \<and>
    (\<forall>b u. cvar_text cs b = Some u \<longrightarrow> cvar_text t b = Some u) \<and> tileData w = Some tiles \<and> length tiles = 1200000 \<and> GetSizeInBytes w = 1200000 \<and>
    wh_size (w_header w) = \<lparr>vx = 4000, vy = 300\<rparr> \<and> (\<forall>i < 24000. tiles ! i = 0)"
proof -
  note diff = strcaseeq_def to_lower_def
  have "cvar_lookup cs ''map'' = None" using assms(2) by simp
  then obtain a s1 where 1: "engine_get ''map'' '''' cs = Inr (a, s1)" "engine_inv s1" "\<And>m. \<not> strcaseeq ''map'' m \<Longrightarrow> cvar_lookup s1 m = cvar_lookup cs m"
    "cvar_text s1 a = Some ''''" "\<And>b u. cvar_text cs b = Some u \<Longrightarrow> cvar_text s1 b = Some u"
    using capy_cvars.get_fresh [OF assms(1), of "''map''" "''''"] by blast
  have "cvar_lookup s1 ''mapSizeX'' = None" using assms(2) 1(3) by (simp add: diff)
  then obtain b s2 where 2: "engine_get ''mapSizeX'' ''4000'' s1 = Inr (b, s2)" "engine_inv s2" "\<And>m. \<not> strcaseeq ''mapSizeX'' m \<Longrightarrow> cvar_lookup s2 m = cvar_lookup s1 m"
    "cvar_text s2 b = Some ''4000''" "\<And>b u. cvar_text s1 b = Some u \<Longrightarrow> cvar_text s2 b = Some u"
    using capy_cvars.get_fresh [OF 1(2), of "''mapSizeX''" "''4000''"] by blast
  have "cvar_lookup s2 ''mapSizeY'' = None" using assms(2) 1(3) 2(3) by (simp add: diff)
  then obtain c s3 where 3: "engine_get ''mapSizeY'' ''300'' s2 = Inr (c, s3)" "engine_inv s3"
    "cvar_text s3 c = Some ''300''" "cvar_num s3 c = Some (Fin 300)" "\<And>b u. cvar_text s2 b = Some u \<Longrightarrow> cvar_text s3 b = Some u \<and> cvar_num s3 b = Some (atof u)"
    using capy_cvars.get_fresh [OF 2(2), of "''mapSizeY''" "''300''"] by (auto simp: atof_map)
  obtain va vb vc where v: "cvar_at s3 a = Inr va" "deref [] (cv_string va) = ''''" "cvar_at s3 b = Inr vb" "cv_value vb = Fin 4000"
    "cvar_at s3 c = Inr vc" "cv_value vc = Fin 300"
    using text_at [of s3 a "''''"] num_at [of s3 b "Fin 4000"] num_at [OF 3(4)] 1(4) 2(4,5) 3(5) by (auto simp: atof_map)
  obtain w tiles where w: "Generate fuel rnd (World_Init junk \<lparr>vx = 4000, vy = 300\<rparr> (sv_world s)) = Inr w" "wh_size (w_header w) = \<lparr>vx = 4000, vy = 300\<rparr>"
    "tileData w = Some tiles" "length tiles = 1200000" "GetSizeInBytes w = length tiles"
    and air: "\<And>x r. x < 4000 \<Longrightarrow> r < 6 \<Longrightarrow> tiles ! (r * 4000 + x) = pointersToIndicesMap WorldTileAir"
    using Generate_returns [OF default_size(1) assms(3) default_size(2,3), of fuel junk "sv_world s"] assms(4) by auto
  have "Server_SetMap [] rnd junk fuel (cs, fs, s) = Inr (s3, fs, s\<lparr>sv_world := w\<rparr>)"
    by (simp only: Server_SetMap_def split_conv get_lit 1(1) 2(1) 3(1) v default_numbers w(1) bind_res_Inr Let_def map_res_simps) simp
  then have "Server_Init [] rnd junk fuel (cs, fs, s) = Inr (s3, fs, s\<lparr>sv_world := w, sv_state := SERVER_RUNNING\<rparr>)"
    by (simp add: Server_Init_def Server_SetState_def)
  moreover have "tiles ! i = 0" if "i < 24000" for i
    using air [of "i mod 4000" "i div 4000"] that by simp
  ultimately show ?thesis using w 1(5) 2(5) 3(2,5) by (intro exI [of _ s3] exI [of _ w] exI [of _ tiles]) simp
qed

section \<open>The command line\<close>

lemma set_netMode:
  assumes "\<not> strcaseeq prog ''+set''"
  shows "\<exists>cl s. Cmdline_Init 4 (os_argv [prog, ''+set'', ''netMode'', ''2'']) cvar_sys0 = Inr (cl, s) \<and> engine_inv s \<and>
    capy_cvars.reads_as s ''netMode'' ''0'' ''2'' \<and> (\<forall>m. \<not> strcaseeq ''netMode'' m \<longrightarrow> cvar_lookup s m = None)"
proof -
  let ?args = "[prog, ''+set'', ''netMode'', ''2'']"
  obtain a s where s: "engine_put ''netMode'' ''2'' cvar_sys0 = Inr s" "engine_inv s"
    "cvar_lookup s = (\<lambda>m. if strcaseeq ''netMode'' m then Some a else None)" "cvar_text s a = Some ''2''"
    using capy_created.put_fresh [OF engine_inv_empty, of "''netMode''" "''2''"] unfolding engine_inv_empty(2) by auto
  have "set_pairs ?args = [(''netMode'', ''2'')]" using assms by (simp add: strcaseeq_def to_lower_def)
  then have pairs: "fold_res (\<lambda>(n, v). engine_put n v) (set_pairs (drop 0 ?args)) cvar_sys0 = Inr s" using s(1) by simp
  have four: "length ?args - 2 = 2" by simp
  have "parse_cvars (os_argv ?args) 2 0 cvar_sys0 = Inr s"
    using parse_cvars_pairs [of ?args 0 cvar_sys0] unfolding pairs four by simp
  moreover have "unat ((word_of_int 4 :: u32) - 2) = 2" using argc_minus_2 [of 4] by simp
  ultimately have "parse_cvars (os_argv ?args) (unat ((word_of_int 4 :: u32) - 2)) 0 cvar_sys0 = Inr s" by (simp only:)
  then obtain cl where "Cmdline_Init 4 (os_argv ?args) cvar_sys0 = Inr (cl, s)"
    by (simp add: Cmdline_Init_def Cmdline_ParseEarlyCvars_def Let_def)
  moreover have "capy_cvars.reads_as s ''netMode'' ''0'' ''2''"
    using s(3,4) by (auto simp: capy_cvars.reads_as_def strcaseeq_def)
  ultimately show ?thesis using s(2,3) by auto
qed

section \<open>Properties\<close>

text \<open>
  C14. A start with \<open>+set netMode 2\<close> comes up as a dedicated server: there is no client, the server listens on the default port, is running and
  has 32 free slots, and its world is the default one, 4000 by 300, with a byte for every tile and six rows of sky; the map's loop ends. The
  server's later life is a run as \<open>server_clients_in_every_run\<close> describes it.
\<close>

theorem dedicated_server_starts:
  assumes "su_log_opens su" and "su_now su \<noteq> []" and "length (su_build_date su) \<le> 900" and "su_vm su = Some h"
    and "path_exists d ''./'' \<or> creatable d ''./''" and "\<not> strcaseeq prog ''+set''" and "unit_random (su_random su)" and "4300 < su_fuel su"
    and "server_start (Server_new 6769 (su_server su))"
  shows "\<exists>e sv tiles. Engine_Init su 4 (os_argv [prog, ''+set'', ''netMode'', ''2'']) (engine0 d) = Inr e \<and> running e \<and> tickrate e = 60 \<and>
    logging (eng_log e) \<and> eng_mode e = Inr NETMODE_SERVER_DEDICATED \<and> eng_client e = None \<and> eng_server e = Some sv \<and>
    sv_state sv = SERVER_RUNNING \<and> sv_port sv = 6769 \<and> clients sv = replicate 32 None \<and> netBufferPtr sv = -1 \<and>
    server_step\<^sup>*\<^sup>* (Server_new 6769 (su_server su)) sv \<and>
    tileData (sv_world sv) = Some tiles \<and> length tiles = 1200000 \<and> GetSizeInBytes (sv_world sv) = 1200000 \<and>
    wh_size (w_header (sv_world sv)) = \<lparr>vx = 4000, vy = 300\<rparr> \<and> (\<forall>i < 24000. tiles ! i = pointersToIndicesMap WorldTileAir)"
proof -
  obtain cl s0 where cl: "Cmdline_Init 4 (os_argv [prog, ''+set'', ''netMode'', ''2'']) cvar_sys0 = Inr (cl, s0)" "engine_inv s0"
    "capy_cvars.reads_as s0 ''netMode'' ''0'' ''2''" "\<And>m. \<not> strcaseeq ''netMode'' m \<Longrightarrow> cvar_lookup s0 m = None"
    using set_netMode [OF assms(6)] by blast
  obtain e where init: "Engine_Init su 4 (os_argv [prog, ''+set'', ''netMode'', ''2'']) (engine0 d) = bind_res (eng_mode e) (\<lambda>mode.
      bind_res (make_modes su mode e) (\<lambda>e.
      bind_res (init_client su e) (\<lambda>e.
      if con_exited (eng_console e) then Inr e
      else bind_res (init_server su e) (\<lambda>e. connect_client su mode (e\<lparr>running := True, tickrate := 60\<rparr>)))))"
    and e: "logging (eng_log e)" "eng_client e = None" "\<not> con_exited (eng_console e)" "engine_inv (con_cvars (eng_console e))"
    "cvar_num (con_cvars (eng_console e)) (netMode (eng_net e)) = Some (Fin 2)"
    "cvar_num (con_cvars (eng_console e)) (netPort (eng_net e)) = Some (Fin 6769)"
    "\<forall>m \<in> {''map'', ''mapSizeX'', ''mapSizeY''}. cvar_lookup (con_cvars (eng_console e)) m = None"
    using start_until_net [OF assms(1-5) cl] by (auto simp: atof_map)
  let ?cs = "con_cvars (eng_console e)" and ?new = "Server_new 6769 (su_server su)"
  obtain t w tiles where sv: "Server_Init [] (su_random su) (su_junk su) (su_fuel su) (?cs, con_fs (eng_console e), ?new) =
      Inr (t, con_fs (eng_console e), ?new\<lparr>sv_world := w, sv_state := SERVER_RUNNING\<rparr>)" "engine_inv t"
    "\<And>b u. cvar_text ?cs b = Some u \<Longrightarrow> cvar_text t b = Some u"
    and w: "tileData w = Some tiles" "length tiles = 1200000" "GetSizeInBytes w = 1200000" "wh_size (w_header w) = \<lparr>vx = 4000, vy = 300\<rparr>"
      "\<And>i. i < 24000 \<Longrightarrow> tiles ! i = 0"
    using SetMap_generates [OF e(4,7) assms(7,8)] by blast
  let ?sv = "?new\<lparr>sv_world := w, sv_state := SERVER_RUNNING\<rparr>"
  let ?e1 = "e\<lparr>eng_server := Some ?new\<rparr>"
  let ?e2 = "?e1\<lparr>eng_server := Some ?sv, eng_console := (eng_console e)\<lparr>con_cvars := t, con_fs := con_fs (eng_console e)\<rparr>\<rparr>"
  let ?e3 = "?e2\<lparr>running := True, tickrate := 60\<rparr>"
  have mode: "eng_mode e = Inr NETMODE_SERVER_DEDICATED"
    using eng_cvar_num [of e netMode, OF e(5)] default_numbers by (simp add: eng_mode_def)
  have "eng_cvar netPort e = Inr (Fin 6769)" using eng_cvar_num [of e netPort, OF e(6)] .
  then have make: "make_modes su NETMODE_SERVER_DEDICATED e = Inr ?e1" using default_numbers by (simp add: make_modes_def new_server_def)
  have "\<exists>v. cvar_text ?cs (netMode (eng_net e)) = Some v \<and> atof v = Fin 2" using capy_cvars.num_contents [OF e(4)] e(5) by auto
  then have "cvar_num t (netMode (eng_net e)) = Some (Fin 2)" using capy_cvars.num_contents [OF sv(2)] sv(3) by auto
  then have mode3: "eng_mode ?e3 = Inr NETMODE_SERVER_DEDICATED"
    using eng_cvar_num [of ?e3 netMode "Fin 2"] default_numbers by (simp add: eng_mode_def)
  have "init_client su ?e1 = Inr ?e1" using e(2) by (simp add: init_client_def)
  moreover have "init_server su ?e1 = Inr ?e2" using sv(1) by (simp add: init_server_def)
  ultimately have "Engine_Init su 4 (os_argv [prog, ''+set'', ''netMode'', ''2'']) (engine0 d) = Inr ?e3"
    using init mode make e(3) by (simp add: connect_client_def)
  moreover have "server_step\<^sup>*\<^sup>* ?new ?sv" using server_step.init [OF sv(1)] by blast
  moreover have "clients ?sv = replicate 32 None" "sv_port ?sv = 6769" "netBufferPtr ?sv = -1" by (simp_all add: Server_new_def MAX_CLIENTS_def)
  ultimately show ?thesis using mode3 e(1,2) w
    by (intro exI [of _ ?e3] exI [of _ ?sv] exI [of _ tiles]) simp
qed

definition server_plan :: startup where
  "server_plan = plain_start\<lparr>su_server := raw_server, su_random := (\<lambda>_. Fin (1 / 2)), su_fuel := 4301\<rparr>"

theorem dedicated_server_starts_witness:
  "\<exists>e sv. Engine_Init server_plan 4 (os_argv [''capy'', ''+set'', ''netMode'', ''2'']) (engine0 no_disk) = Inr e \<and> running e \<and>
    eng_client e = None \<and> eng_server e = Some sv \<and> sv_state sv = SERVER_RUNNING \<and> GetSizeInBytes (sv_world sv) = 1200000"
proof -
  have "server_start (Server_new 6769 raw_server)"
    unfolding server_start_def by (intro exI [of _ 6769] exI [of _ raw_server]) (simp add: raw_server_def server_with_def)
  then show ?thesis
    using dedicated_server_starts [of server_plan 1 no_disk "''capy''"] good_size_example(2)
    by (auto simp: server_plan_def plain_start_def path_exists_def no_disk_def strcaseeq_def to_lower_def)
qed

end
