(* ===== verification/Capy_Login.thy ===== *)
theory Capy_Login
  imports Capy_Dedicated
begin

text \<open>
  Both ends together: a real server (\<open>net/server\<close>) and a real client (\<open>net/client\<close>) that exchange their datagrams, from the first tick to the
  connected state. What the server's handlers do to the heap of messages is followed closely enough to see that the message they handle is
  still there when it is freed.
\<close>

section \<open>What a handler leaves alone\<close>

text \<open>Every block of the first heap is still in the second as it was.\<close>

definition below :: "byte_heap \<Rightarrow> byte_heap \<Rightarrow> bool" where
  "below h0 h \<longleftrightarrow> bh_fresh h0 \<le> bh_fresh h \<and> (\<forall>b < bh_fresh h0. blocks h b = blocks h0 b)"

lemma below_refl [simp]: "below h h" by (simp add: below_def)

lemma below_trans: "below a b \<Longrightarrow> below b c \<Longrightarrow> below a c"
  by (auto simp: below_def)

text \<open>A message that was made since then.\<close>

definition made_since :: "byte_heap \<Rightarrow> net_msg \<Rightarrow> byte_heap \<Rightarrow> bool" where
  "made_since h0 m h \<longleftrightarrow> below h0 h \<and> (\<forall>a. nm_data m = Some a \<longrightarrow> bh_fresh h0 \<le> a)"

lemma below_write: "below h0 h \<Longrightarrow> bh_fresh h0 \<le> a \<Longrightarrow> write_block a i bs h = Inr h' \<Longrightarrow> below h0 h'"
  by (auto simp: below_def write_block_def split: option.splits)

lemma below_free: "below h0 h \<Longrightarrow> bh_fresh h0 \<le> a \<Longrightarrow> free_block a h = Inr h' \<Longrightarrow> below h0 h'"
  by (auto simp: below_def free_block_def split: option.splits)

lemma below_new: "below h0 h \<Longrightarrow> new_block n h = (a, h') \<Longrightarrow> below h0 h' \<and> bh_fresh h0 \<le> a"
  by (auto simp: below_def new_block_def)

lemma made_new: "below h0 h \<Longrightarrow> NetMsg_new ty sz h = Inr (m, h') \<Longrightarrow> made_since h0 m h'"
  using below_new [of h0 h sz "bh_fresh h" "snd (new_block sz h)"]
  by (auto simp: NetMsg_new_def Let_def made_since_def new_block_def split: if_splits)

lemma made_ensure:
  assumes "made_since h0 m h" and "EnsureCapacityWrite n m h = Inr (b, m', h')"
  shows "made_since h0 m' h'"
proof (cases "m' = m \<and> h' = h \<or> nm_data m' = nm_data m \<and> h' = h")
  case True
  then show ?thesis using assms(1) by (auto simp: made_since_def)
next
  case False
  let ?n = "nm_size (set_size (nm_size m + n) m)"
  obtain a bs h1 where a: "nm_data m = Some a" "write_block (fst (new_block ?n h)) 0 bs (snd (new_block ?n h)) = Inr h1" "free_block a h1 = Inr h'"
    "nm_data m' = Some (fst (new_block ?n h))"
    using assms(2) False by (auto simp: EnsureCapacityWrite_def Let_def bind_res_eq_Inr set_size_def split: if_splits option.splits prod.splits)
  have "below h0 (snd (new_block ?n h))" "bh_fresh h0 \<le> fst (new_block ?n h)"
    using below_new [of h0 h ?n "fst (new_block ?n h)" "snd (new_block ?n h)"] assms(1) by (auto simp: made_since_def)
  then have "below h0 h1" using below_write a(2) by blast
  then have "below h0 h'" using below_free [OF _ _ a(3)] a(1) assms(1) by (auto simp: made_since_def)
  then show ?thesis using a(4) \<open>bh_fresh h0 \<le> fst (new_block ?n h)\<close> by (simp add: made_since_def)
qed

lemma made_write:
  assumes "made_since h0 m h" and "NetMsg_Write bs (m, h) = Inr (m', h')"
  shows "made_since h0 m' h'"
proof -
  obtain b m1 h1 where e: "EnsureCapacityWrite (length bs) m h = Inr (b, m1, h1)"
    "m' = m1 \<and> h' = h1 \<or> (\<exists>a. nm_data m1 = Some a \<and> nm_data m' = Some a \<and> write_block a (nm_write m1) bs h1 = Inr h')"
    using assms(2) by (cases "EnsureCapacityWrite (length bs) m h")
      (auto simp: NetMsg_Write_def map_res_def bind_res_eq_Inr split: if_splits option.splits)
  then show ?thesis using made_ensure [OF assms(1) e(1)] below_write by (fastforce simp: made_since_def)
qed

lemma made_string:
  assumes "made_since h0 m h" and "NetMsg_Write_string u (m, h) = Inr (m', h')"
  shows "made_since h0 m' h'"
proof (cases u)
  case None
  then show ?thesis using assms by (simp add: NetMsg_Write_string_def)
next
  case (Some w)
  obtain r where r: "EnsureCapacityWrite (length w + 1) m h = Inr r" using assms(2) Some by (auto simp: NetMsg_Write_string_def bind_res_eq_Inr)
  obtain b m1 h1 where e: "EnsureCapacityWrite (length w + 1) m h = Inr (b, m1, h1)" using r by (cases r) auto
  have w:     "m' = m1 \<and> h' = h1 \<or> (\<exists>a bs. nm_data m1 = Some a \<and> nm_data m' = Some a \<and> write_block a (nm_write m1) bs h1 = Inr h')"
    using assms(2) Some e by (auto simp: NetMsg_Write_string_def map_res_def bind_res_eq_Inr split: if_splits option.splits)
  show ?thesis using w made_ensure [OF assms(1) e] below_write by (fastforce simp: made_since_def)
qed

definition makes :: "(byte_heap \<Rightarrow> (net_msg \<times> byte_heap) res) \<Rightarrow> bool" where
  "makes f \<longleftrightarrow> (\<forall>h0 h m h'. below h0 h \<longrightarrow> f h = Inr (m, h') \<longrightarrow> made_since h0 m h')"

lemma makes_new: "makes (NetMsg_new ty sz)"
  by (auto simp: makes_def intro: made_new)

definition writes :: "(net_msg \<times> byte_heap \<Rightarrow> (net_msg \<times> byte_heap) res) \<Rightarrow> bool" where
  "writes g \<longleftrightarrow> (\<forall>h0 m h m' h'. made_since h0 m h \<longrightarrow> g (m, h) = Inr (m', h') \<longrightarrow> made_since h0 m' h')"

lemma writes_bytes: "writes (NetMsg_Write bs)"
  unfolding writes_def using made_write by blast

lemma writes_string: "writes (NetMsg_Write_string u)"
  unfolding writes_def using made_string by blast

lemma writes_bind:
  assumes "writes f" and "writes g"
  shows "writes (\<lambda>mh. bind_res (f mh) g)"
  unfolding writes_def
proof (intro allI impI)
  fix h0 m h m' h' assume b: "made_since h0 m h" and r: "bind_res (f (m, h)) g = Inr (m', h')"
  from r obtain m1 h1 where r1: "f (m, h) = Inr (m1, h1)" "g (m1, h1) = Inr (m', h')" by (cases "f (m, h)") auto
  then show "made_since h0 m' h'" using assms b unfolding writes_def by blast
qed

lemma makes_bind:
  assumes "makes f" and "writes g"
  shows "makes (\<lambda>h. bind_res (f h) g)"
  unfolding makes_def
proof (intro allI impI)
  fix h0 h m h' assume b: "below h0 h" and r: "bind_res (f h) g = Inr (m, h')"
  from r obtain m1 h1 where r1: "f h = Inr (m1, h1)" "g (m1, h1) = Inr (m, h')" by (cases "f h") auto
  then show "made_since h0 m h'" using assms b unfolding makes_def writes_def by blast
qed

lemma makes_hello: "makes NetFactory_CreateServerHelloPacket"
  unfolding NetFactory_CreateServerHelloPacket_def [abs_def] by (rule makes_new)

lemma makes_rpc: "makes (NetFactory_CreateRpcClientCreate u)"
  unfolding NetFactory_CreateRpcClientCreate_def [abs_def] by (rule makes_bind [OF makes_new writes_bind [OF writes_bytes writes_string]])

lemma makes_download_start: "makes (NetFactory_CreateDownloadStartPacket_Server nm v n)"
  unfolding NetFactory_CreateDownloadStartPacket_Server_def [abs_def]
  by (rule makes_bind [OF makes_new writes_bind [OF writes_string writes_bind [OF writes_bytes writes_bytes]]])

lemma Server_SendMessage_below:
  assumes "Server_SendMessage m c s = Inr t" and "made_since h0 m (net_heap s)"
  shows "below h0 (net_heap t)"
proof -
  have "DoneMessage m (net_heap s) = Inr (net_heap t)"
    using assms(1) by (auto simp: Server_SendMessage_def with_client_def SendMessageToPort_def bind_res_eq_Inr split: option.splits)
  then show ?thesis using assms(2) below_free by (auto simp: DoneMessage_def made_since_def split: if_splits option.splits)
qed

lemma broadcast_below:
  assumes "Server_SendMessageToAll m ex s = Inr t" and "made_since h0 m (net_heap s)"
  shows "below h0 (net_heap t)"
proof -
  have "fold_res (\<lambda>i s. case clients s ! i of None \<Rightarrow> Inr s
       | Some c \<Rightarrow> if Some c = ex then Inr s else Server_SendMessage m c s) xs u = Inr v \<Longrightarrow> made_since h0 m (net_heap u) \<Longrightarrow> made_since h0 m (net_heap v)"
    for xs u v
  proof (induction xs arbitrary: u)
    case Nil
    then show ?case by simp
  next
    case (Cons x xs)
    obtain w where w: "(case clients u ! x of None \<Rightarrow> Inr u | Some c \<Rightarrow> if Some c = ex then Inr u else Server_SendMessage m c u) = Inr w"
      "fold_res (\<lambda>i s. case clients s ! i of None \<Rightarrow> Inr s | Some c \<Rightarrow> if Some c = ex then Inr s else Server_SendMessage m c s) xs w = Inr v"
      using Cons.prems(1) by (auto simp: bind_res_eq_Inr)
    have "made_since h0 m (net_heap w)"
      using w(1) Cons.prems(2) Server_SendMessage_below [of m _ u w h0] by (auto simp: made_since_def split: option.splits if_splits)
    then show ?case using Cons.IH [OF w(2)] by simp
  qed
  then show ?thesis using assms by (auto simp: Server_SendMessageToAll_def made_since_def)
qed

lemma make_msg_heap: "make_msg f s = Inr (m, t) \<Longrightarrow> f (net_heap s) = Inr (m, net_heap t)"
  by (cases "f (net_heap s)") (auto simp: make_msg_def)

lemma make_msg_made:
  assumes "make_msg f s = Inr (m, t)" and "makes f" and "below h0 (net_heap s)"
  shows "made_since h0 m (net_heap t)"
  using make_msg_heap [OF assms(1)] assms(2,3) unfolding makes_def by blast

lemma ClientNew_below:
  assumes "ClientNew env m s = Inr t"
  shows "below (net_heap s) (net_heap t)"
  using assms
proof (cases rule: ClientNew_cases)
  case (kept st hello s0 hello')
  have "made_since (net_heap s) hello (net_heap s0)" by (rule make_msg_made [OF kept(1) makes_hello below_refl])
  then have "made_since (net_heap s) hello' (net_heap t)" by (rule made_write [OF _ make_msg_heap [OF kept(2)]])
  then show ?thesis by (simp add: made_since_def)
next
  case (added st hello s0 hello' s1 cl s2 rpc s3)
  have "made_since (net_heap s) hello (net_heap s0)" by (rule make_msg_made [OF added(1) makes_hello below_refl])
  then have "made_since (net_heap s) hello' (net_heap s1)" by (rule made_write [OF _ make_msg_heap [OF added(2)]])
  then have "below (net_heap s) (net_heap s2)" using Server_SendMessage_below [OF added(5)] by simp
  then have "made_since (net_heap s) rpc (net_heap s3)" by (rule make_msg_made [OF added(6) makes_rpc])
  then show ?thesis by (rule broadcast_below [OF added(7)])
qed

section \<open>A server between messages\<close>

definition sv_rest :: "server \<Rightarrow> bool" where
  "sv_rest s \<longleftrightarrow> server_wf s \<and> nb_ok s \<and> netBufferPtr s = -1 \<and> sv_state s = SERVER_RUNNING"

definition nobody_downloads :: "server \<Rightarrow> bool" where
  "nobody_downloads s \<longleftrightarrow> (\<forall>c \<in> set (joined s). cl_connectPhase (the (sv_objs s c)) \<noteq> CLIENT_DOWNLOADING_WORLD)"

text \<open>The server at the moment it handles a message.\<close>

definition taking :: "net_msg \<Rightarrow> byte_heap \<Rightarrow> server \<Rightarrow> server" where
  "taking m h s = (push m h s)\<lparr>netBufferPtr := -1\<rparr>"

lemma push_server_simps [simp]:
  "clients (push m h s) = clients s" "numClients (push m h s) = numClients s" "sv_objs (push m h s) = sv_objs s"
  "sv_fresh (push m h s) = sv_fresh s" "sv_state (push m h s) = sv_state s" "sv_world (push m h s) = sv_world s"
  "net_sent (push m h s) = net_sent s" "joined (push m h s) = joined s"
  by (simp_all add: push_def joined_def)

lemma taking_simps [simp]:
  "net_heap (taking m h s) = h" "netBufferPtr (taking m h s) = -1" "clients (taking m h s) = clients s" "numClients (taking m h s) = numClients s"
  "sv_objs (taking m h s) = sv_objs s" "sv_fresh (taking m h s) = sv_fresh s" "sv_state (taking m h s) = sv_state s"
  "sv_world (taking m h s) = sv_world s" "net_sent (taking m h s) = net_sent s" "joined (taking m h s) = joined s"
  by (simp_all add: taking_def) (simp add: joined_def)

lemma server_wf_net: "heap_wf (net_heap t) \<Longrightarrow> clients t = clients s \<Longrightarrow> numClients t = numClients s \<Longrightarrow> sv_objs t = sv_objs s \<Longrightarrow>
    sv_fresh t = sv_fresh s \<Longrightarrow> server_wf s \<Longrightarrow> server_wf t"
  by (simp add: server_wf_def)

lemma taking_rest: "sv_rest s \<Longrightarrow> heap_wf h \<Longrightarrow> sv_rest (taking m h s)"
  using server_wf_net [of "taking m h s" s] by (simp add: sv_rest_def) (simp add: taking_def nb_ok_def NET_BUFFER_SIZE_def)

lemma idle_downloads:
  assumes "server_wf s" and "nobody_downloads s"
  shows "TickDownloads s = Inr s"
proof -
  note j = server_wf_joined [OF assms(1)]
  have idle: "download_one c s = Inr s" if "c \<in> set (joined s)" for c
    using j(5) [OF that] assms(2) that by (auto simp: nobody_downloads_def download_one_def with_client_def)
  have "TickDownloads s = fold_res download_one (joined s) s"
    unfolding TickDownloads_eq by (rule fold_slots [where Q = "\<lambda>t. t = s"]) (use j idle in auto)
  also have "\<dots> = Inr s" by (rule fold_res_idle) (rule idle)
  finally show ?thesis .
qed

lemma Server_Tick_idle:
  assumes "server_wf s" and "netBufferPtr s < 0" and "sv_state s = SERVER_RUNNING" and "nobody_downloads s"
  shows "Server_Tick env s = Inr s"
  using idle_downloads [OF assms(1,4)] assms(2,3) by (simp add: Server_Tick_def Server_TickNetwork_def GetMessage_def)

lemma Server_Tick_message:
  assumes "sv_rest s" and "nobody_downloads s" and "heap_wf h" and "nm_valid m"
  shows "Server_Tick env (push m h s) =
    (if h_type (nm_header m) = NETMSG_HELLO then bind_res (ClientNew env m (taking m h s)) (done_msg m)
     else bind_res (ClientByIp m (taking m h s)) (\<lambda>r. case r of
         None \<Rightarrow> Inr (taking m h s)
       | Some c \<Rightarrow> bind_res (TickNetwork_ClientMessage env c m (taking m h s)) (done_msg m)))"
proof -
  have "server_wf (push m h s)" using server_wf_net [of "push m h s" s] assms(1,3) by (simp add: sv_rest_def)
  moreover have "nobody_downloads (push m h s)" using assms(2) by (simp add: nobody_downloads_def)
  ultimately have "TickDownloads (push m h s) = Inr (push m h s)" by (rule idle_downloads)
  moreover have "GetMessage (push m h s) = (Some m, taking m h s)"
    using assms(1) by (simp add: GetMessage_def sv_rest_def nb_ok_def NET_BUFFER_SIZE_def taking_def)
  ultimately show ?thesis using assms(1,4) by (simp add: Server_Tick_def Server_TickNetwork_def sv_rest_def)
qed

text \<open>The message is still there when it has been handled.\<close>

lemma done_msg_below:
  assumes "carries m h ty bs" and "below h (net_heap t)" and "heap_wf (net_heap t)"
  shows "\<exists>h'. done_msg m t = Inr (t\<lparr>net_heap := h'\<rparr>) \<and> heap_wf h'"
proof (cases "bs = []")
  case True
  then show ?thesis using assms(1,3) by (intro exI [of _ "net_heap t"]) (simp add: done_msg_def carries_def DoneMessage_def)
next
  case False
  then obtain a b where a: "nm_data m = Some a" "blocks h a = Some b" "heap_wf h" using assms(1) by (auto simp: carries_def readable_def)
  then have "a < bh_fresh h" by (meson heap_wf_less)
  then have "blocks (net_heap t) a = Some b" using assms(2) a(2) by (simp add: below_def)
  moreover have "0 < nm_size m" using assms(1) False by (simp add: carries_def)
  ultimately have "done_msg m t = Inr (t\<lparr>net_heap := (net_heap t)\<lparr>blocks := (blocks (net_heap t))(a := None)\<rparr>\<rparr>)"
    using a(1) by (simp add: done_msg_def DoneMessage_def free_block_def)
  then show ?thesis using heap_wf_clear [OF assms(3)] by blast
qed

section \<open>What the server does for a client\<close>

definition waits_for :: "connect_phase \<Rightarrow> nat \<Rightarrow> nat \<Rightarrow> u16 \<Rightarrow> server \<Rightarrow> bool" where
  "waits_for ph c a p s \<longleftrightarrow> joined s = [c] \<and> (\<exists>cl. sv_objs s c = Some cl \<and> cl_connectPhase cl = ph \<and> cl_downloadProgress cl = 0 \<and>
     cl_address cl = a \<and> cl_port cl = p)"

lemma waits_idle: "waits_for ph c a p s \<Longrightarrow> ph \<noteq> CLIENT_DOWNLOADING_WORLD \<Longrightarrow> nobody_downloads s"
  by (auto simp: waits_for_def nobody_downloads_def)

lemma sv_rest_heap: "sv_rest s \<Longrightarrow> heap_wf h \<Longrightarrow> sv_rest (s\<lparr>net_heap := h\<rparr>)"
  using server_wf_heap [of s h] by (simp add: sv_rest_def)

text \<open>A server that lets in whoever comes from an address.\<close>

definition welcomes :: "server_env \<Rightarrow> nat \<Rightarrow> bool" where
  "welcomes env a \<longleftrightarrow> \<not> f32_le (max_players env) (f32_of_int 0) \<and> is_c_string (address_string env a) \<and>
     length (address_string env a) < CLIENT_IP_LENGTH"

lemma ClientNew_first:
  assumes "sv_rest s" and "joined s = []" and "hello_msg m (net_heap s) NET_PROTOCOL_VERSION u" and "welcomes env (nm_addr m)"
  shows "\<exists>t dg. ClientNew env m s = Inr t \<and> sv_rest t \<and> waits_for CLIENT_HELLO (sv_fresh s) (nm_addr m) (nm_port m) t \<and> sv_world t = sv_world s \<and>
    net_sent t = net_sent s @ [(nm_addr m, nm_port m, dg)] \<and> datagram_of NETMSG_SERVER_HELLO [hello_byte HELLO_OK] dg"
proof -
  let ?cl = "new_client env m"
  have wf: "server_wf s" and room: "length (joined s) < MAX_CLIENTS" using assms(1,2) by (simp_all add: sv_rest_def MAX_CLIENTS_def)
  have "numClients s = 0" using server_wf_joined(3) [OF wf] assms(2) by simp
  then have adm: "admitted env s m NET_PROTOCOL_VERSION u" using assms(2,4) by (simp add: admitted_def knows_ip_def welcomes_def)
  obtain hello h rpc h3 where new: "ClientNew env m s = Server_SendMessageToAll rpc (Some (sv_fresh s))
      ((after_send hello ?cl (with_new_client ?cl (s\<lparr>net_heap := h\<rparr>)))\<lparr>net_heap := h3\<rparr>)"
    and hello: "msg_ok hello h" "nm_size hello = 1" "block_of hello h = [hello_byte HELLO_OK]"
      "h_type (nm_header hello) = NETMSG_SERVER_HELLO" "h_magic (nm_header hello) = NETMSG_MAGIC"
    and rpc: "msg_ok rpc h3" "0 < nm_size rpc"
    using ClientNew_announces [OF wf assms(3) adm room] assms(4) unfolding welcomes_def by metis
  let ?s1 = "with_new_client ?cl (s\<lparr>net_heap := h\<rparr>)"
  let ?s3 = "(after_send hello ?cl ?s1)\<lparr>net_heap := h3\<rparr>"
  have "heap_wf h" "heap_wf h3" using hello(1) rpc(1) by (simp_all add: msg_ok_def)
  note s1 = with_new_client_wf [where cl = "?cl", OF server_wf_heap [OF wf \<open>heap_wf h\<close>], unfolded server_with_heap_simps, OF room]
  have wf3: "server_wf ?s3" using server_wf_heap [OF server_wf_after_send [OF s1(1)] \<open>heap_wf h3\<close>] by simp
  have j: "joined ?s3 = [sv_fresh s]" using s1(2) assms(2) by simp
  then have "ClientNew env m s = Inr ?s3" using broadcast_cases [OF wf3, of rpc "Some (sv_fresh s)"] rpc new by simp
  moreover have "sv_rest ?s3" using wf3 assms(1) by (simp add: sv_rest_def nb_ok_def) (simp add: with_new_client_def)
  moreover have "waits_for CLIENT_HELLO (sv_fresh s) (nm_addr m) (nm_port m) ?s3" using j s1(3) by (simp add: waits_for_def new_client_def Client_new_def Let_def)
  moreover have "sv_world ?s3 = sv_world s" by (simp add: with_new_client_def)
  moreover have "net_sent ?s3 = net_sent s @ [(nm_addr m, nm_port m, net_header_enc (nm_header hello) @ [hello_byte HELLO_OK])]"
    using hello(3) by (simp add: new_client_def Let_def)
  moreover have "datagram_of NETMSG_SERVER_HELLO [hello_byte HELLO_OK] (net_header_enc (nm_header hello) @ [hello_byte HELLO_OK])"
    using hello unfolding datagram_of_def by (intro exI [of _ "nm_header hello"] exI [of _ "[]"]) (simp add: msg_ok_def)
  ultimately show ?thesis by blast
qed

lemma server_greets:
  assumes "sv_rest s" and "joined s = []" and "carries m h NETMSG_HELLO (NET_PROTOCOL_VERSION # z_bytes u)" and "nm_valid m"
    and "is_c_string u" and "welcomes env (nm_addr m)"
  shows "\<exists>t dg. Server_Tick env (push m h s) = Inr t \<and> sv_rest t \<and> waits_for CLIENT_HELLO (sv_fresh s) (nm_addr m) (nm_port m) t \<and>
    sv_world t = sv_world s \<and> net_sent t = net_sent s @ [(nm_addr m, nm_port m, dg)] \<and> datagram_of NETMSG_SERVER_HELLO [hello_byte HELLO_OK] dg"
proof -
  let ?s = "taking m h s"
  have h: "heap_wf h" "h_type (nm_header m) = NETMSG_HELLO" using assms(3) by (simp_all add: carries_def)
  have "hello_msg m (net_heap ?s) NET_PROTOCOL_VERSION u" using assms(3,5) by (simp add: carries_def hello_msg_def)
  then obtain t dg where t: "ClientNew env m ?s = Inr t" "sv_rest t" "waits_for CLIENT_HELLO (sv_fresh s) (nm_addr m) (nm_port m) t" "sv_world t = sv_world s"
    "net_sent t = net_sent s @ [(nm_addr m, nm_port m, dg)]" "datagram_of NETMSG_SERVER_HELLO [hello_byte HELLO_OK] dg"
    using ClientNew_first [OF taking_rest [OF assms(1) h(1)] _ _ assms(6), of m u] assms(2) by (auto simp del: hello_byte.simps)
  have wt: "heap_wf (net_heap t)" using t(2) server_wf_joined(6) by (simp add: sv_rest_def)
  obtain h' where h': "done_msg m t = Inr (t\<lparr>net_heap := h'\<rparr>)" "heap_wf h'"
    using done_msg_below [OF assms(3) _ wt] ClientNew_below [OF t(1)] by auto
  have "nobody_downloads s" using assms(2) by (simp add: nobody_downloads_def)
  then have "Server_Tick env (push m h s) = Inr (t\<lparr>net_heap := h'\<rparr>)"
    using Server_Tick_message [OF assms(1) _ h(1) assms(4)] h(2) t(1) h'(1) by simp
  moreover have "waits_for CLIENT_HELLO (sv_fresh s) (nm_addr m) (nm_port m) (t\<lparr>net_heap := h'\<rparr>)" using t(3) by (simp add: waits_for_def)
  ultimately show ?thesis using sv_rest_heap [OF t(2) h'(2)] t(4-6) by (intro exI [of _ "t\<lparr>net_heap := h'\<rparr>"] exI [of _ dg]) simp
qed

text \<open>A world whose tiles are all there.\<close>

definition good_world :: "world \<Rightarrow> byte list \<Rightarrow> bool" where
  "good_world w ts \<longleftrightarrow> tileData w = Some ts \<and> 0 < vx (wh_size (w_header w)) \<and> 0 < vy (wh_size (w_header w)) \<and>
     vx (wh_size (w_header w)) * vy (wh_size (w_header w)) = int (length ts) \<and> length ts < 2 ^ 31"

definition size_words :: "world \<Rightarrow> u32 \<times> u32" where
  "size_words w = (of_int (vx (wh_size (w_header w))), of_int (vy (wh_size (w_header w))))"

lemma good_world_size:
  assumes "good_world w ts"
  shows "GetSizeInBytes w = length ts" and "ts \<noteq> []" and "sint (fst (size_words w)) * sint (snd (size_words w)) = int (length ts)"
proof -
  let ?x = "vx (wh_size (w_header w))" and ?y = "vy (wh_size (w_header w))"
  have xy: "0 < ?x" "0 < ?y" "?x * ?y = int (length ts)" "length ts < 2 ^ 31" using assms by (simp_all add: good_world_def)
  have "?x \<le> ?x * ?y" "?y \<le> ?x * ?y" using xy(1,2) by simp_all
  moreover have "int (length ts) < 2 ^ 31" using xy(4) by simp
  ultimately have small: "?x < 2 ^ 31" "?y < 2 ^ 31" using xy(3) by linarith+
  show "GetSizeInBytes w = length ts" using xy by (simp add: GetSizeInBytes_def i32_mul_def to_i32_def to_size_def nat_mod_distrib)
  show "ts \<noteq> []" using xy(1-3) by auto
  show "sint (fst (size_words w)) * sint (snd (size_words w)) = int (length ts)"
    using small xy by (simp add: size_words_def sint_sbintrunc' signed_take_bit_int_eq_self)
qed

lemma ClientStartWorldDownload_ok:
  assumes "sv_rest s" and "waits_for ph c a p s" and "length (map_name env) < WORLD_NAME_LENGTH"
  shows "\<exists>t dg rest. ClientStartWorldDownload env c s = Inr t \<and> sv_rest t \<and> waits_for CLIENT_DOWNLOADING_WORLD c a p t \<and> sv_world t = sv_world s \<and>
    below (net_heap s) (net_heap t) \<and> net_sent t = net_sent s @ [(a, p, dg)] \<and> length (map_name env) + 13 + length rest \<le> MAX_PACKET_SIZE \<and>
    datagram_of NETMSG_WORLD_DOWNLOAD_START
      (z_bytes (map_name env) @ vec_enc (size_words (sv_world s)) @ u32_enc (of_nat (GetSizeInBytes (sv_world s))) @ rest) dg"
proof -
  let ?v = "size_words (sv_world s)" and ?n = "of_nat (GetSizeInBytes (sv_world s)) :: u32" and ?nm = "map_name env"
  have wf: "server_wf s" using assms(1) by (simp add: sv_rest_def)
  obtain cl where cl: "sv_objs s c = Some cl" "cl_downloadProgress cl = 0" "cl_address cl = a" "cl_port cl = p" "joined s = [c]"
    using assms(2) by (auto simp: waits_for_def)
  obtain m h where m: "NetFactory_CreateDownloadStartPacket_Server (Some ?nm) ?v ?n (net_heap s) = Inr (m, h)" "msg_ok m h"
    "nm_size m = WORLD_NAME_LENGTH + 12" "h_type (nm_header m) = NETMSG_WORLD_DOWNLOAD_START" "h_magic (nm_header m) = NETMSG_MAGIC"
    "written m h = z_bytes ?nm @ vec_enc ?v @ u32_enc ?n"
    using download_start_ok [OF server_wf_joined(6) [OF wf] assms(3), of ?v ?n] by blast
  let ?s1 = "s\<lparr>net_heap := h\<rparr>"
  have mk: "make_msg (NetFactory_CreateDownloadStartPacket_Server (Some ?nm) ?v ?n) s = Inr (m, ?s1)" by (simp add: make_msg_def m(1))
  have send: "Server_SendMessage m c ?s1 = Inr (after_send m cl ?s1)" using Server_SendMessage_ok [of m ?s1 c cl] m(2,3) cl(1) by simp
  let ?t = "(after_send m cl ?s1)\<lparr>sv_objs := (sv_objs s)(c \<mapsto> cl\<lparr>cl_connectPhase := CLIENT_DOWNLOADING_WORLD\<rparr>)\<rparr>"
  have "ClientStartWorldDownload env c s = Inr ?t"
    using mk send cl(1) by (simp add: ClientStartWorldDownload_def with_client_def size_words_def Let_def)
  moreover have "heap_wf h" using m(2) by (simp add: msg_ok_def)
  then have "server_wf (after_send m cl ?s1)" using server_wf_heap [OF wf] by simp
  then have "server_wf ?t" by (auto simp: server_wf_def)
  then have "sv_rest ?t" using assms(1) by (simp add: sv_rest_def nb_ok_def)
  moreover have "waits_for CLIENT_DOWNLOADING_WORLD c a p ?t" using cl by (simp add: waits_for_def joined_def)
  moreover have "below (net_heap s) (net_heap ?t)"
    using Server_SendMessage_below [OF send] make_msg_made [OF mk makes_download_start below_refl] by simp
  moreover have blk: "block_of m h = z_bytes ?nm @ vec_enc ?v @ u32_enc ?n @ drop (nm_write m) (block_of m h)"
    using m(6) append_take_drop_id [of "nm_write m" "block_of m h"] by (simp add: written_def)
  moreover have "length (block_of m h) = WORLD_NAME_LENGTH + 12" using m(2,3) by (auto simp: msg_ok_def block_of_def)
  then have "datagram_of NETMSG_WORLD_DOWNLOAD_START (block_of m h) (net_header_enc (nm_header m) @ block_of m h)"
    using m(2-5) unfolding datagram_of_def by (intro exI [of _ "nm_header m"] exI [of _ "[]"]) (simp add: msg_ok_def)
  moreover have "length ?nm + 13 + length (drop (nm_write m) (block_of m h)) \<le> MAX_PACKET_SIZE"
    using arg_cong [OF blk, of length] \<open>length (block_of m h) = _\<close>
    by (simp add: length_vec_enc length_u32_enc WORLD_NAME_LENGTH_def MAX_PACKET_SIZE_def)
  moreover have "net_sent ?t = net_sent s @ [(a, p, net_header_enc (nm_header m) @ block_of m h)]" "sv_world ?t = sv_world s" using cl by simp_all
  ultimately show ?thesis by (metis (no_types, lifting))
qed

lemma server_announces:
  assumes "sv_rest s" and "waits_for CLIENT_HELLO c a p s" and "good_world (sv_world s) ts" and "length (map_name env) < WORLD_NAME_LENGTH"
    and "carries m h NETMSG_WORLD_DOWNLOAD_START []" and "nm_valid m" and "nm_addr m = a"
  shows "\<exists>t dg rest. Server_Tick env (push m h s) = Inr t \<and> serving t c ts 0 \<and> waits_for CLIENT_DOWNLOADING_WORLD c a p t \<and>
    net_sent t = net_sent s @ [(a, p, dg)] \<and> length (map_name env) + 13 + length rest \<le> MAX_PACKET_SIZE \<and>
    datagram_of NETMSG_WORLD_DOWNLOAD_START (z_bytes (map_name env) @ vec_enc (size_words (sv_world s)) @ u32_enc (of_nat (length ts)) @ rest) dg"
proof -
  let ?s = "taking m h s"
  have h: "heap_wf h" "h_type (nm_header m) = NETMSG_WORLD_DOWNLOAD_START" using assms(5) by (simp_all add: carries_def)
  have rest: "sv_rest ?s" and wait: "waits_for CLIENT_HELLO c a p ?s" using taking_rest [OF assms(1) h(1)] assms(2) by (simp_all add: waits_for_def)
  obtain t dg r where t: "ClientStartWorldDownload env c ?s = Inr t" "sv_rest t" "waits_for CLIENT_DOWNLOADING_WORLD c a p t" "sv_world t = sv_world s"
    "below h (net_heap t)" "net_sent t = net_sent s @ [(a, p, dg)]" "length (map_name env) + 13 + length r \<le> MAX_PACKET_SIZE"
    "datagram_of NETMSG_WORLD_DOWNLOAD_START (z_bytes (map_name env) @ vec_enc (size_words (sv_world s)) @ u32_enc (of_nat (length ts)) @ r) dg"
    using ClientStartWorldDownload_ok [OF rest wait assms(4)] good_world_size(1) [OF assms(3)] by auto
  have wt: "heap_wf (net_heap t)" using t(2) server_wf_joined(6) by (simp add: sv_rest_def)
  obtain h' where h': "done_msg m t = Inr (t\<lparr>net_heap := h'\<rparr>)" "heap_wf h'" using done_msg_below [OF assms(5) t(5) wt] by blast
  let ?t = "t\<lparr>net_heap := h'\<rparr>"
  have "ClientByIp m ?s = Inr (Some c)"
    using ClientByIp_wf [of ?s m] rest wait assms(7) by (auto simp: sv_rest_def waits_for_def)
  then have tick: "Server_Tick env (push m h s) = Inr ?t"
    using Server_Tick_message [OF assms(1) waits_idle [OF assms(2)] h(1) assms(6), of env] h(2) t(1) h'(1)
    by (simp add: TickNetwork_ClientMessage_def NETMSG_HELLO_def NETMSG_WORLD_DOWNLOAD_START_def)
  have wait': "waits_for CLIENT_DOWNLOADING_WORLD c a p ?t" using t(3) by (simp add: waits_for_def)
  have "serving ?t c ts 0"
    using sv_rest_heap [OF t(2) h'(2)] wait' h'(2) assms(3) t(4) good_world_size(1,2) [OF assms(3)]
    by (auto simp: serving_def downloading_def waits_for_def sv_rest_def good_world_def)
  then show ?thesis using tick wait' t(6-8) by auto
qed

section \<open>Exchanges\<close>

text \<open>
  The server is at address 1 and port 6769, the client at an address and a port of its own. What either of them sends is received by the
  other in its next frame.
\<close>

definition from_server :: "nat \<Rightarrow> u16 \<Rightarrow> nat \<times> u16 \<times> byte list \<Rightarrow> client \<Rightarrow> client res" where
  "from_server a p = (\<lambda>(to, port, buf) ct.
     if to = a \<and> port = p
     then client_do (ClientFrame 0 0 0 False [] (True, Some \<lparr>dg_buf = buf, dg_addr = 1, dg_port = 6769\<rparr>)) ct
     else Inr ct)"

definition from_client :: "nat \<Rightarrow> u16 \<Rightarrow> nat \<times> u16 \<times> byte list \<Rightarrow> server \<Rightarrow> server res" where
  "from_client a p = (\<lambda>(to, port, buf) sv.
     if to = 1 \<and> port = 6769 then NetMode_Frame (True, Some \<lparr>dg_buf = buf, dg_addr = a, dg_port = p\<rparr>) sv else Inr sv)"

text \<open>A tick of the server, the client's frame and tick, the server's frame.\<close>

definition exchange :: "server_env \<Rightarrow> nat \<Rightarrow> u16 \<Rightarrow> server \<times> client \<Rightarrow> (server \<times> client) res" where
  "exchange env a p = (\<lambda>(sv, ct).
     bind_res (Server_Tick env sv) (\<lambda>sv'.
     bind_res (fold_res (from_server a p) (drop (length (net_sent sv)) (net_sent sv')) ct) (\<lambda>ct'.
     bind_res (client_do silent_tick ct') (\<lambda>ct''.
     map_res (\<lambda>sv''. (sv'', ct'')) (fold_res (from_client a p) (drop (length (net_sent ct)) (net_sent ct'')) sv')))))"

fun exchanges :: "server_env \<Rightarrow> nat \<Rightarrow> u16 \<Rightarrow> nat \<Rightarrow> server \<times> client \<Rightarrow> (server \<times> client) res" where
  "exchanges env a p 0 st = Inr st"
| "exchanges env a p (Suc n) st = bind_res (exchange env a p st) (exchanges env a p n)"

lemma exchanges_add: "exchanges env a p m st = Inr u \<Longrightarrow> exchanges env a p (m + n) st = exchanges env a p n u"
  by (induction m arbitrary: st) (auto simp: bind_res_eq_Inr)

lemma exchanges_1: "exchange env a p st = Inr u \<Longrightarrow> exchanges env a p 1 st = Inr u"
  by simp

text \<open>The three kinds: nobody says anything, the client does, the server does.\<close>

lemma exchange_quiet:
  assumes "Server_Tick env sv = Inr sv" and "client_do silent_tick ct = Inr ct'" and "net_sent ct' = net_sent ct"
  shows "exchange env a p (sv, ct) = Inr (sv, ct')"
  using assms by (simp add: exchange_def)

lemma exchange_asks:
  assumes "Server_Tick env sv = Inr sv" and "netBufferPtr sv = -1" and "heap_wf (net_heap sv)"
    and "client_do silent_tick ct = Inr ct'" and "sends ty bs 6769 ct ct'" and "serverAddress ct = Some 1"
    and "length bs \<le> MAX_PACKET_SIZE" and "ty \<le> NETMSG_LAST_VALID"
  shows "\<exists>m h. exchange env a p (sv, ct) = Inr (push m h sv, ct') \<and> carries m h ty bs \<and> nm_valid m \<and> nm_addr m = a \<and> nm_port m = p"
proof -
  obtain buf where buf: "net_sent ct' = net_sent ct @ [(1, 6769, buf)]" "datagram_of ty bs buf"
    using assms(5,6) by (auto simp: sends_def)
  let ?dg = "\<lparr>dg_buf = buf, dg_addr = a, dg_port = p\<rparr>"
  obtain m h where "NetMode_Frame (True, Some ?dg) sv = Inr (push m h sv)" "carries m h ty bs" "nm_valid m" "nm_addr m = a" "nm_port m = p"
    using receives [OF assms(2,3,7,8), of ?dg] buf(2) by auto
  then show ?thesis using assms(1,4) buf(1) by (intro exI [of _ m] exI [of _ h]) (simp add: exchange_def from_client_def)
qed

lemma exchange_told:
  assumes "Server_Tick env sv = Inr sv'" and "net_sent sv' = net_sent sv @ [(a, p, buf)]" and "ct_state ct \<noteq> CLIENT_CONNECTED"
    and "client_turn (Fin 6769) (\<lambda>_. 0) NET_SUCCESS \<lparr>dg_buf = buf, dg_addr = 1, dg_port = 6769\<rparr> ct = Inr ct'" and "stays ct' ct"
  shows "exchange env a p (sv, ct) = Inr (sv', ct')"
proof -
  let ?dg = "\<lparr>dg_buf = buf, dg_addr = 1, dg_port = 6769\<rparr> :: datagram"
  obtain u where u: "NetMode_Frame (True, Some ?dg) ct = Inr u" "Client_Tick (Fin 6769) (\<lambda>_. 0) NET_SUCCESS u = Inr ct'"
    using assms(4) by (auto simp: client_turn_def bind_res_eq_Inr)
  moreover have "ct_state u \<noteq> CLIENT_CONNECTED" using NetMode_Frame_conn [OF u(1)] assms(3) by (simp add: conn_def)
  ultimately have "client_do (ClientFrame 0 0 0 False [] (True, Some ?dg)) ct = Inr u" "client_do silent_tick u = Inr ct'"
    by (simp_all add: silent_tick_def Client_Frame_def)
  then show ?thesis using assms(1,2,5) by (simp add: exchange_def from_server_def stays_def)
qed

section \<open>The exchanges of a login\<close>

text \<open>Connecting, greeting, being let in, asking.\<close>

definition hopeful :: "client \<Rightarrow> string \<Rightarrow> bool" where
  "hopeful s player \<longleftrightarrow> nb_ok s \<and> netBufferPtr s = -1 \<and> heap_wf (net_heap s) \<and> length (ct_name s) = CLIENT_NAME_MAX \<and> ct_progress s = 0 \<and>
     is_c_string player \<and> length player < CLIENT_NAME_MAX"

definition phase_of :: "client \<Rightarrow> connect_phase \<Rightarrow> world \<Rightarrow> bool" where
  "phase_of s ph w \<longleftrightarrow> at_rest s \<and> serverAddress s = Some 1 \<and> conn s = (CLIENT_CONNECTING, ph, 0, w)"

lemma login_resolves:
  assumes "sv_rest sv" and "joined sv = []" and "hopeful ct0 player" and "client_do (ClientConnect player (Some 1)) ct0 = Inr ct"
  shows "\<exists>ct'. exchange env a p (sv, ct) = Inr (sv, ct') \<and> phase_of ct' CLIENT_HELLO (ct_world ct0) \<and> c_str (ct_name ct') = player"
proof -
  obtain ct' where ct': "fold_res client_do [ClientConnect player (Some 1), silent_tick] ct0 = Inr ct'" "at_rest ct'"
    "conn ct' = (CLIENT_CONNECTING, CLIENT_HELLO, ct_progress ct0, ct_world ct0)" "c_str (ct_name ct') = player" "net_sent ct' = net_sent ct0"
    "serverAddress ct' = Some 1"
    using joining_start [of ct0 player] assms(3) unfolding hopeful_def by blast
  have "client_do silent_tick ct = Inr ct'" using ct'(1) assms(4) by (simp add: bind_res_eq_Inr)
  moreover have "net_sent ct = net_sent ct0" using assms(4) by (auto simp: Client_Connect_def Client_SetState_def Let_def)
  moreover have "Server_Tick env sv = Inr sv"
    by (rule Server_Tick_idle) (use assms(1,2) in \<open>simp_all add: sv_rest_def nobody_downloads_def\<close>)
  ultimately have "exchange env a p (sv, ct) = Inr (sv, ct')" using ct'(5) by (simp add: exchange_quiet)
  then show ?thesis using ct' assms(3) by (auto simp: phase_of_def hopeful_def)
qed

lemma login_greets:
  assumes "sv_rest sv" and "joined sv = []" and "phase_of ct CLIENT_HELLO w"
  shows "\<exists>m h ct'. exchange env a p (sv, ct) = Inr (push m h sv, ct') \<and> phase_of ct' CLIENT_HELLO_SENT w \<and>
    carries m h NETMSG_HELLO (NET_PROTOCOL_VERSION # z_bytes (c_str (ct_name ct))) \<and> nm_valid m \<and> nm_addr m = a \<and> nm_port m = p"
proof -
  have ct: "at_rest ct" "serverAddress ct = Some 1" "ct_state ct = CLIENT_CONNECTING" "ct_phase ct = CLIENT_HELLO" "ct_progress ct = 0" "ct_world ct = w"
    using assms(3) by (simp_all add: phase_of_def conn_def)
  have len: "length (NET_PROTOCOL_VERSION # z_bytes (c_str (ct_name ct))) \<le> MAX_PACKET_SIZE"
    using ct(1) length_takeWhile_le [of "\<lambda>c. c \<noteq> NUL" "ct_name ct"] by (simp add: at_rest_def c_str_def MAX_PACKET_SIZE_def CLIENT_NAME_MAX_def)
  obtain ct' where ct': "client_do silent_tick ct = Inr ct'" "at_rest ct'"
    "sends NETMSG_HELLO (NET_PROTOCOL_VERSION # z_bytes (c_str (ct_name ct))) 6769 ct ct'" "serverAddress ct' = serverAddress ct"
    "conn ct' = (CLIENT_CONNECTING, CLIENT_HELLO_SENT, 0, w)"
    using tick_says_hello [OF ct(1,3,4) port_ok, of "\<lambda>_. 0" NET_SUCCESS] ct(5,6) by (auto simp: silent_tick_def)
  have "Server_Tick env sv = Inr sv"
    by (rule Server_Tick_idle) (use assms(1,2) in \<open>simp_all add: sv_rest_def nobody_downloads_def\<close>)
  from exchange_asks [OF this _ _ ct'(1,3) ct(2) len, of a p]
  show ?thesis using assms(1) server_wf_joined(6) ct'(2,4,5) ct(2)
    by (auto simp: phase_of_def sv_rest_def NETMSG_HELLO_def NETMSG_LAST_VALID_def)
qed

lemma login_let_in:
  assumes "sv_rest sv" and "joined sv = []" and "phase_of ct CLIENT_HELLO_SENT w" and "is_c_string u" and "welcomes env (nm_addr m)"
    and "carries m h NETMSG_HELLO (NET_PROTOCOL_VERSION # z_bytes u)" and "nm_valid m"
  shows "\<exists>sv' ct'. exchange env (nm_addr m) (nm_port m) (push m h sv, ct) = Inr (sv', ct') \<and> sv_rest sv' \<and> sv_world sv' = sv_world sv \<and>
    waits_for CLIENT_HELLO (sv_fresh sv) (nm_addr m) (nm_port m) sv' \<and> phase_of ct' CLIENT_DOWNLOAD_WORLD w"
proof -
  have ct: "at_rest ct" "serverAddress ct = Some 1" "ct_state ct = CLIENT_CONNECTING" "ct_phase ct = CLIENT_HELLO_SENT" "ct_progress ct = 0" "ct_world ct = w"
    using assms(3) by (simp_all add: phase_of_def conn_def)
  obtain sv' buf where sv': "Server_Tick env (push m h sv) = Inr sv'" "sv_rest sv'" "sv_world sv' = sv_world sv"
    "waits_for CLIENT_HELLO (sv_fresh sv) (nm_addr m) (nm_port m) sv'"
    "net_sent sv' = net_sent (push m h sv) @ [(nm_addr m, nm_port m, buf)]" "datagram_of NETMSG_SERVER_HELLO [hello_byte HELLO_OK] buf"
    using server_greets [OF assms(1,2,6,7,4,5)] by auto
  let ?dg = "\<lparr>dg_buf = buf, dg_addr = 1, dg_port = 6769\<rparr> :: datagram"
  obtain ct' where ct': "client_turn (Fin 6769) (\<lambda>_. 0) NET_SUCCESS ?dg ct = Inr ct'" "at_rest ct'" "stays ct' ct"
    "conn ct' = (CLIENT_CONNECTING, CLIENT_DOWNLOAD_WORLD, 0, w)"
    using client_accepted [OF ct(1,3,4), of ?dg "Fin 6769" "\<lambda>_. 0" NET_SUCCESS] sv'(6) ct(5,6) by auto
  have "ct_state ct \<noteq> CLIENT_CONNECTED" using ct(3) by simp
  from exchange_told [OF sv'(1,5) this ct'(1,3)] show ?thesis
    using sv'(2-4) ct'(2-4) ct(2) by (auto simp: phase_of_def stays_def)
qed

lemma login_asks:
  assumes "sv_rest sv" and "waits_for CLIENT_HELLO c a p sv" and "phase_of ct CLIENT_DOWNLOAD_WORLD w"
  shows "\<exists>m h ct'. exchange env a p (sv, ct) = Inr (push m h sv, ct') \<and> phase_of ct' CLIENT_DOWNLOAD_WORLD_SENT w \<and>
    carries m h NETMSG_WORLD_DOWNLOAD_START [] \<and> nm_valid m \<and> nm_addr m = a \<and> nm_port m = p"
proof -
  have ct: "at_rest ct" "serverAddress ct = Some 1" "ct_state ct = CLIENT_CONNECTING" "ct_phase ct = CLIENT_DOWNLOAD_WORLD" "ct_progress ct = 0" "ct_world ct = w"
    using assms(3) by (simp_all add: phase_of_def conn_def)
  obtain ct' where ct': "client_do silent_tick ct = Inr ct'" "at_rest ct'" "sends NETMSG_WORLD_DOWNLOAD_START [] 6769 ct ct'"
    "serverAddress ct' = serverAddress ct" "conn ct' = (CLIENT_CONNECTING, CLIENT_DOWNLOAD_WORLD_SENT, 0, w)"
    using tick_asks_for_world [OF ct(1,3,4) port_ok, of "\<lambda>_. 0" NET_SUCCESS] ct(5,6) by (auto simp: silent_tick_def)
  have "Server_Tick env sv = Inr sv"
    by (rule Server_Tick_idle) (use assms(1) waits_idle [OF assms(2)] in \<open>simp_all add: sv_rest_def\<close>)
  from exchange_asks [OF this _ _ ct'(1,3) ct(2), of a p]
  show ?thesis using assms(1) server_wf_joined(6) ct'(2,4,5) ct(2)
    by (auto simp: phase_of_def sv_rest_def NETMSG_WORLD_DOWNLOAD_START_def NETMSG_LAST_VALID_def NETMSG_SERVER_SHUTDOWN_def)
qed

lemma login_told:
  assumes "sv_rest sv" and "waits_for CLIENT_HELLO c a p sv" and "good_world (sv_world sv) ts" and "phase_of ct CLIENT_DOWNLOAD_WORLD_SENT w"
    and "length (map_name env) < WORLD_NAME_LENGTH" and "is_c_string (map_name env)"
    and "carries m h NETMSG_WORLD_DOWNLOAD_START []" and "nm_valid m" and "nm_addr m = a"
  shows "\<exists>sv' ct' w'. exchange env a p (push m h sv, ct) = Inr (sv', ct') \<and> serving sv' c ts 0 \<and> waits_for CLIENT_DOWNLOADING_WORLD c a p sv' \<and>
    phase_of ct' CLIENT_DOWNLOADING_WORLD w' \<and> world_has ts 0 w'"
proof -
  have ct: "at_rest ct" "serverAddress ct = Some 1" "ct_state ct = CLIENT_CONNECTING" "ct_phase ct = CLIENT_DOWNLOAD_WORLD_SENT" "ct_progress ct = 0"
    using assms(4) by (simp_all add: phase_of_def conn_def)
  let ?v = "size_words (sv_world sv)"
  obtain sv' buf r where sv': "Server_Tick env (push m h sv) = Inr sv'" "serving sv' c ts 0" "waits_for CLIENT_DOWNLOADING_WORLD c a p sv'"
    "net_sent sv' = net_sent (push m h sv) @ [(a, p, buf)]" "length (map_name env) + 13 + length r \<le> MAX_PACKET_SIZE"
    "datagram_of NETMSG_WORLD_DOWNLOAD_START (z_bytes (map_name env) @ vec_enc ?v @ u32_enc (of_nat (length ts)) @ r) buf"
    using server_announces [OF assms(1,2,3,5,7,8,9)] by auto
  let ?dg = "\<lparr>dg_buf = buf, dg_addr = 1, dg_port = 6769\<rparr> :: datagram"
  let ?w = "World_Init (\<lambda>_. 0) (vec2_of_words ?v) (ct_world ct)"
  obtain ct' where ct': "client_turn (Fin 6769) (\<lambda>_. 0) NET_SUCCESS ?dg ct = Inr ct'" "at_rest ct'" "stays ct' ct"
    "conn ct' = (CLIENT_CONNECTING, CLIENT_DOWNLOADING_WORLD, 0, ?w)"
    using client_told_of_world [OF ct(1,3,4) assms(6) sv'(5), of ?v "of_nat (length ts)" ?dg "Fin 6769" "\<lambda>_. 0" NET_SUCCESS] sv'(6) ct(5) by auto
  have "ct_state ct \<noteq> CLIENT_CONNECTED" using ct(3) by simp
  from exchange_told [OF sv'(1,4) this ct'(1,3)]
  have "exchange env a p (push m h sv, ct) = Inr (sv', ct')" .
  moreover have "world_has ts 0 ?w"
    by (rule World_Init_has) (use good_world_size [OF assms(3)] assms(3) in \<open>simp_all add: good_world_def\<close>)
  moreover have "phase_of ct' CLIENT_DOWNLOADING_WORLD ?w" using ct' ct(2) by (simp add: phase_of_def stays_def)
  ultimately show ?thesis using sv'(2,3) by blast
qed

text \<open>The download, one chunk in each exchange.\<close>

definition at_address :: "nat \<Rightarrow> nat \<Rightarrow> u16 \<Rightarrow> server \<Rightarrow> bool" where
  "at_address c a p s \<longleftrightarrow> cl_address (the (sv_objs s c)) = a \<and> cl_port (the (sv_objs s c)) = p"

definition served :: "server \<Rightarrow> nat \<Rightarrow> bool" where
  "served s c \<longleftrightarrow> server_wf s \<and> sv_state s = SERVER_RUNNING \<and> netBufferPtr s < 0 \<and> joined s = [c] \<and>
     cl_connectPhase (the (sv_objs s c)) = CLIENT_LETS_GO"

definition taking_world :: "client \<Rightarrow> byte list \<Rightarrow> nat \<Rightarrow> bool" where
  "taking_world ct ts k \<longleftrightarrow> at_rest ct \<and> (\<exists>w. conn ct = (CLIENT_CONNECTING, CLIENT_DOWNLOADING_WORLD, k, w) \<and> world_has ts k w)"

lemma datagram_of_chunk: "chunk_datagram bs buf \<Longrightarrow> datagram_of NETMSG_WORLD_DOWNLOAD_PACKET bs buf"
  unfolding datagram_of_def chunk_datagram_def by (metis append_Nil2)

lemma login_chunk:
  assumes "serving sv c ts k" and "joined sv = [c]" and "at_address c a p sv" and "taking_world ct ts k"
  shows "\<exists>sv' ct'. exchange env a p (sv, ct) = Inr (sv', ct') \<and>
    (if length ts \<le> k + MAX_PACKET_SIZE
     then served sv' c \<and> at_rest ct' \<and> ct_state ct' = CLIENT_CONNECTING \<and> ct_phase ct' = CLIENT_LETS_GO \<and> tileData (ct_world ct') = Some ts
     else serving sv' c ts (k + MAX_PACKET_SIZE) \<and> joined sv' = [c] \<and> at_address c a p sv' \<and> taking_world ct' ts (k + MAX_PACKET_SIZE))"
proof -
  let ?n = "length (chunk_at ts k)"
  have k: "k < length ts" using assms(1) by (auto simp: serving_def downloading_def)
  obtain sv' buf where sv': "Server_Tick env sv = Inr sv'" "chunk_datagram (chunk_at ts k) buf" "net_sent sv' = net_sent sv @ [(a, p, buf)]"
    "at_address c a p sv'" "server_wf sv'" "joined sv' = [c]" "sv_state sv' = SERVER_RUNNING" "netBufferPtr sv' < 0"
    "if length ts \<le> k + MAX_PACKET_SIZE then cl_connectPhase (the (sv_objs sv' c)) = CLIENT_LETS_GO else serving sv' c ts (k + MAX_PACKET_SIZE)"
    using Server_Tick_serving [OF assms(1), of env] assms(1-3) by (auto simp: at_address_def serving_def)
  let ?dg = "\<lparr>dg_buf = buf, dg_addr = 1, dg_port = 6769\<rparr> :: datagram"
  have dg: "datagram_of NETMSG_WORLD_DOWNLOAD_PACKET (chunk_at ts k) (dg_buf ?dg)" using sv'(2) by (simp add: datagram_of_chunk)
  obtain w where w: "at_rest ct" "conn ct = (CLIENT_CONNECTING, CLIENT_DOWNLOADING_WORLD, k, w)" "world_has ts k w"
    using assms(4) by (auto simp: taking_world_def)
  obtain ct' w' where ct': "client_turn (Fin 6769) (\<lambda>_. 0) NET_SUCCESS ?dg ct = Inr ct'" "at_rest ct'" "stays ct' ct"
    "conn ct' = (CLIENT_CONNECTING, if length ts \<le> k + ?n then CLIENT_LETS_GO else CLIENT_DOWNLOADING_WORLD, k + ?n, w')" "world_has ts (k + ?n) w'"
    using client_gets_chunk [OF w k dg, of "Fin 6769" "\<lambda>_. 0" NET_SUCCESS] by blast
  have "ct_state ct \<noteq> CLIENT_CONNECTED" using w(2) by (simp add: conn_def)
  then have ex: "exchange env a p (sv, ct) = Inr (sv', ct')" by (rule exchange_told [OF sv'(1,3) _ ct'(1,3)])
  show ?thesis
  proof (cases "length ts \<le> k + MAX_PACKET_SIZE")
    case True
    then have n: "k + ?n = length ts" using k by (simp add: length_chunk_at)
    then have "tileData w' = Some ts" using ct'(5) by (auto simp: world_has_def)
    moreover have "served sv' c" using True sv'(5-9) by (simp add: served_def)
    ultimately show ?thesis using ex True n ct'(2,4) by (intro exI [of _ sv'] exI [of _ ct']) (simp add: conn_def)
  next
    case False
    then have n: "k + ?n = k + MAX_PACKET_SIZE" using k by (simp add: length_chunk_at)
    then have "taking_world ct' ts (k + MAX_PACKET_SIZE)" using ct'(2,4,5) False unfolding taking_world_def n by auto
    then show ?thesis using ex False sv'(4,6,9) by auto
  qed
qed

lemma login_chunks:
  assumes "serving sv c ts k" and "joined sv = [c]" and "at_address c a p sv" and "taking_world ct ts k" and "chunks_left ts k (Suc n)"
  shows "\<exists>sv' ct'. exchanges env a p (Suc n) (sv, ct) = Inr (sv', ct') \<and> served sv' c \<and> at_rest ct' \<and> ct_state ct' = CLIENT_CONNECTING \<and>
    ct_phase ct' = CLIENT_LETS_GO \<and> tileData (ct_world ct') = Some ts"
  using assms
proof (induction n arbitrary: sv ct k)
  case 0
  then have "length ts \<le> k + MAX_PACKET_SIZE" by (simp add: chunks_left_def)
  then show ?case using login_chunk [OF 0(1-4), of env] by auto
next
  case (Suc n)
  let ?k = "k + MAX_PACKET_SIZE"
  have more: "\<not> length ts \<le> ?k" and left: "chunks_left ts ?k (Suc n)"
    using Suc.prems(5) by (auto simp: chunks_left_def algebra_simps)
  obtain sv1 ct1 where 1: "exchange env a p (sv, ct) = Inr (sv1, ct1)" "serving sv1 c ts ?k" "joined sv1 = [c]" "at_address c a p sv1"
    "taking_world ct1 ts ?k"
    using login_chunk [OF Suc.prems(1-4), of env] more by auto
  show ?case using Suc.IH [OF 1(2-5) left] 1(1) by simp
qed

section \<open>Properties\<close>

lemma client_connects: "\<exists>ct. client_do (ClientConnect player (Some 1)) ct0 = Inr ct"
  by (simp add: Client_Connect_def)

text \<open>
  C2. Both ends, from the first tick to the last: a running server that nobody has joined and a client that has been told to connect to it
  exchange what they send. After six exchanges, and one for every 1400 bytes of the server's world or part of them, the client is connected,
  holds exactly the server's tiles, and is the server's only client, which takes it for complete.
\<close>

theorem login:
  assumes "sv_rest sv" and "joined sv = []" and "good_world (sv_world sv) ts" and "welcomes env a"
    and "is_c_string (map_name env)" and "length (map_name env) < WORLD_NAME_LENGTH" and "hopeful ct0 player"
  shows "\<exists>ct sv' ct' c. client_do (ClientConnect player (Some 1)) ct0 = Inr ct \<and>
    exchanges env a p (6 + (length ts + (MAX_PACKET_SIZE - 1)) div MAX_PACKET_SIZE) (sv, ct) = Inr (sv', ct') \<and>
    ct_state ct' = CLIENT_CONNECTED \<and> tileData (ct_world ct') = Some ts \<and>
    joined sv' = [c] \<and> cl_connectPhase (the (sv_objs sv' c)) = CLIENT_LETS_GO"
proof -
  obtain ct where ct: "client_do (ClientConnect player (Some 1)) ct0 = Inr ct" using client_connects by blast
  obtain ct1 where 1: "exchange env a p (sv, ct) = Inr (sv, ct1)" "phase_of ct1 CLIENT_HELLO (ct_world ct0)" "c_str (ct_name ct1) = player"
    using login_resolves [OF assms(1,2,7) ct] by blast
  obtain m h ct2 where 2: "exchange env a p (sv, ct1) = Inr (push m h sv, ct2)" "phase_of ct2 CLIENT_HELLO_SENT (ct_world ct0)"
    "carries m h NETMSG_HELLO (NET_PROTOCOL_VERSION # z_bytes player)" "nm_valid m" "nm_addr m = a" "nm_port m = p"
    using login_greets [OF assms(1,2) 1(2)] 1(3) by blast
  have "is_c_string player" using assms(7) by (simp add: hopeful_def)
  then obtain sv3 ct3 where 3: "exchange env a p (push m h sv, ct2) = Inr (sv3, ct3)" "sv_rest sv3" "sv_world sv3 = sv_world sv"
    "waits_for CLIENT_HELLO (sv_fresh sv) a p sv3" "phase_of ct3 CLIENT_DOWNLOAD_WORLD (ct_world ct0)"
    using login_let_in [OF assms(1,2) 2(2) _ _ 2(3,4), of env] assms(4) 2(5,6) by blast
  obtain m' h' ct4 where 4: "exchange env a p (sv3, ct3) = Inr (push m' h' sv3, ct4)" "phase_of ct4 CLIENT_DOWNLOAD_WORLD_SENT (ct_world ct0)"
    "carries m' h' NETMSG_WORLD_DOWNLOAD_START []" "nm_valid m'" "nm_addr m' = a"
    using login_asks [OF 3(2,4,5)] by blast
  have good: "good_world (sv_world sv3) ts" using assms(3) 3(3) by simp
  obtain sv5 ct5 w where 5: "exchange env a p (push m' h' sv3, ct4) = Inr (sv5, ct5)" "serving sv5 (sv_fresh sv) ts 0"
    "waits_for CLIENT_DOWNLOADING_WORLD (sv_fresh sv) a p sv5" "phase_of ct5 CLIENT_DOWNLOADING_WORLD w" "world_has ts 0 w"
    using login_told [OF 3(2,4) good 4(2) assms(6,5) 4(3-5)] by blast
  have c5: "joined sv5 = [sv_fresh sv]" "at_address (sv_fresh sv) a p sv5" "taking_world ct5 ts 0"
    using 5(3-5) by (auto simp: waits_for_def at_address_def phase_of_def taking_world_def)
  have "0 < (length ts + (MAX_PACKET_SIZE - 1)) div MAX_PACKET_SIZE"
    using good_world_size(2) [OF assms(3)] by (simp add: MAX_PACKET_SIZE_def div_greater_zero_iff Suc_le_eq)
  then obtain n where n: "(length ts + (MAX_PACKET_SIZE - 1)) div MAX_PACKET_SIZE = Suc n" by (metis gr0_implies_Suc)
  have "chunks_left ts 0 (Suc n)" using n good_world_size(2) [OF assms(3)] by (auto simp: chunks_left_def MAX_PACKET_SIZE_def)
  then obtain sv6 ct6 where 6: "exchanges env a p (Suc n) (sv5, ct5) = Inr (sv6, ct6)" "served sv6 (sv_fresh sv)" "at_rest ct6"
    "ct_state ct6 = CLIENT_CONNECTING" "ct_phase ct6 = CLIENT_LETS_GO" "tileData (ct_world ct6) = Some ts"
    using login_chunks [OF 5(2) c5] by blast
  let ?ct7 = "ct6\<lparr>ct_state := CLIENT_CONNECTED\<rparr>"
  have "Server_Tick env sv6 = Inr sv6" by (rule Server_Tick_idle) (use 6(2) in \<open>simp_all add: served_def nobody_downloads_def\<close>)
  then have 7: "exchange env a p (sv6, ct6) = Inr (sv6, ?ct7)"
    using tick_lets_go [OF 6(3-5)] by (intro exchange_quiet) (simp_all add: silent_tick_def)
  have "exchanges env a p 5 (sv, ct) = Inr (sv5, ct5)" using 1(1) 2(1) 3(1) 4(1) 5(1) by (simp add: numeral_eq_Suc)
  then have "exchanges env a p (5 + (Suc n + 1)) (sv, ct) = exchanges env a p (Suc n + 1) (sv5, ct5)" by (rule exchanges_add)
  also have "\<dots> = exchanges env a p 1 (sv6, ct6)" by (rule exchanges_add [OF 6(1)])
  also have "\<dots> = Inr (sv6, ?ct7)" by (rule exchanges_1 [OF 7])
  finally have "exchanges env a p (6 + Suc n) (sv, ct) = Inr (sv6, ?ct7)" by (simp add: numeral_eq_Suc)
  then show ?thesis using ct 6(2,6) n by (intro exI [of _ ct] exI [of _ sv6] exI [of _ ?ct7] exI [of _ "sv_fresh sv"]) (simp add: served_def)
qed

theorem login_witness:
  "\<exists>ct sv' ct'. client_do (ClientConnect ''bob'' (Some 1)) client_before = Inr ct \<and>
    exchanges env0 9 7 7 (server_with 0 CLIENT_HELLO small_world, ct) = Inr (sv', ct') \<and>
    ct_state ct' = CLIENT_CONNECTED \<and> tileData (ct_world ct') = Some [0, 1, 2, 3] \<and> length (joined sv') = 1"
proof -
  have "sv_rest (server_with 0 CLIENT_HELLO small_world)"
    using server_wf_with [of 0 CLIENT_HELLO small_world] net0_ok by (simp add: sv_rest_def nb_ok_def) (simp add: server_with_def net0_def)
  moreover have "joined (server_with 0 CLIENT_HELLO small_world) = []" using joined_server_with [of 0] by simp
  moreover have "good_world (sv_world (server_with 0 CLIENT_HELLO small_world)) [0, 1, 2, 3]" by (simp add: good_world_def small_world_def)
  moreover have "f32_of_int 0 = Fin 0" using f32_of_int_exact [of 0] by simp
  then have "welcomes env0 9"
    by (simp add: welcomes_def env0_def f32_le_def ip_name_def CLIENT_IP_LENGTH_def NUL_def is_c_string_def list_all_iff)
  moreover have "is_c_string (map_name env0)" "length (map_name env0) < WORLD_NAME_LENGTH" by (simp_all add: env0_def NUL_def WORLD_NAME_LENGTH_def)
  moreover have "hopeful client_before ''bob''" by (simp add: hopeful_def NUL_def CLIENT_NAME_MAX_def)
  moreover have "6 + (length [0::byte, 1, 2, 3] + (MAX_PACKET_SIZE - 1)) div MAX_PACKET_SIZE = 7" by (simp add: MAX_PACKET_SIZE_def)
  ultimately show ?thesis
    using login [of "server_with 0 CLIENT_HELLO small_world" "[0, 1, 2, 3]" env0 9 client_before "''bob''" 7] by fastforce
qed

end
