(* ===== verification/Capy_Program.thy ===== *)
theory Capy_Program
  imports Capy_Startup
begin

text \<open>
  A whole run of the program (\<open>Capy.cpp\<close>, \<open>core/engine.cpp\<close>): a client that starts, waits for its server's address turn after turn, is told to
  quit, and shuts everything down.
\<close>

section \<open>Turns in which nothing much happens\<close>

definition harmless :: "sdl_event option \<Rightarrow> bool" where
  "harmless ev = (case ev of
      Some (KeyUp k) \<Rightarrow> k < SDL_SCANCODE_COUNT
    | Some (KeyDown k) \<Rightarrow> k < SDL_SCANCODE_COUNT \<and> k \<noteq> SDL_SCANCODE_F9
    | Some Quit \<Rightarrow> False
    | _ \<Rightarrow> True)"

text \<open>The address is not there yet, and nothing is received.\<close>

definition nothing_new :: "turn \<Rightarrow> bool" where
  "nothing_new tn \<longleftrightarrow> tn_address tn = NET_WAITING \<and> snd (tn_client_in tn) = None"

text \<open>A client that waits for the address.\<close>

definition waiting :: "engine \<Rightarrow> client \<Rightarrow> nat \<Rightarrow> bool" where
  "waiting e ct h \<longleftrightarrow> eng_client e = Some ct \<and> ct_state ct = CLIENT_RESOLVING_ADDRESS \<and> eng_server e = None \<and> eng_mode e = Inr NETMODE_CLIENT \<and>
     eng_cvar netPort e = Inr (Fin 6769) \<and> tickrate e = 60 \<and> \<not> con_exited (eng_console e) \<and> engine_inv (con_cvars (eng_console e)) \<and>
     eng_script e = \<lparr>vm_initialised = True, vm_handle = Some h, vm_table = Some h\<rparr> \<and> logging (eng_log e) \<and> length (keyStates e) = SDL_SCANCODE_COUNT \<and> \<not> keyStates e ! SDL_SCANCODE_F9"

lemma waiting_update:
  "waiting (e\<lparr>lastTickTime := t\<rparr>) ct h = waiting e ct h" "waiting (e\<lparr>running := b\<rparr>) ct h = waiting e ct h"
  by (simp_all add: waiting_def eng_mode_def eng_cvar_def)

lemma waiting_keys:
  "waiting e ct h \<Longrightarrow> k < SDL_SCANCODE_COUNT \<Longrightarrow> b \<longrightarrow> k \<noteq> SDL_SCANCODE_F9 \<Longrightarrow> waiting (e\<lparr>keyStates := (keyStates e)[k := b]\<rparr>) ct h"
  by (auto simp: waiting_def eng_mode_def eng_cvar_def nth_list_update SDL_SCANCODE_COUNT_def SDL_SCANCODE_F9_def)

lemma waiting_events:
  assumes "waiting e ct h" and "harmless ev"
  shows "\<exists>e'. Engine_PumpEvents ev e = Inr e' \<and> waiting e' ct h \<and> running e' = running e"
proof (cases ev)
  case None
  then show ?thesis using assms(1) by (simp add: Engine_PumpEvents_def)
next
  case (Some x)
  have len: "length (keyStates e) = SDL_SCANCODE_COUNT" "\<not> keyStates e ! SDL_SCANCODE_F9" using assms(1) by (simp_all add: waiting_def)
  have f9: "SDL_SCANCODE_F9 < SDL_SCANCODE_COUNT" by (simp add: SDL_SCANCODE_F9_def SDL_SCANCODE_COUNT_def)
  show ?thesis
  proof (cases x)
    case (KeyUp k)
    then show ?thesis using assms Some len waiting_keys [OF assms(1), of k False] by (simp add: Engine_PumpEvents_def harmless_def set_key_def)
  next
    case (KeyDown k)
    then have k: "k < SDL_SCANCODE_COUNT" "k \<noteq> SDL_SCANCODE_F9" using assms(2) Some by (simp_all add: harmless_def)
    then show ?thesis using Some KeyDown len f9 waiting_keys [OF assms(1) k(1), of True]
      by (simp add: Engine_PumpEvents_def set_key_def Input_KeyIsDown_def)
  next
    case Quit
    then show ?thesis using assms(2) Some by (simp add: harmless_def)
  next
    case OtherEvent
    then show ?thesis using assms(1) Some by (simp add: Engine_PumpEvents_def)
  qed
qed

text \<open>The rest of the turn leaves the engine as it is, but for the time of the tick.\<close>

lemma waiting_tick:
  assumes "waiting e ct h" and "nothing_new tn"
  shows "Engine_Tick tn e = Inr e" and "Engine_Frame run tn e = Inr e"
proof -
  have e: "eng_client e = Some ct" "ct_state ct = CLIENT_RESOLVING_ADDRESS" "eng_server e = None" "eng_cvar netPort e = Inr (Fin 6769)"
    using assms(1) by (simp_all add: waiting_def)
  have same: "e\<lparr>eng_client := Some ct\<rparr> = e" "e\<lparr>eng_client := Some ct, eng_locked := eng_locked e, eng_texture := eng_texture e\<rparr> = e"
    using e(1) by simp_all
  show "Engine_Tick tn e = Inr e"
    using e same(1) assms(2) by (simp add: Engine_Tick_def tick_client_def tick_server_def Client_Tick_def nothing_new_def)
  obtain b where "tn_client_in tn = (b, None)" using assms(2) by (cases "tn_client_in tn") (simp add: nothing_new_def)
  then have "NetMode_Frame (tn_client_in tn) ct = Inr ct" by (cases b) (simp_all add: NetMode_Frame_def GetAllIncomingMessages_def)
  then have "frame_client tn e = Inr e" using e(1,2) same(2) by (simp add: frame_client_def Client_Frame_def)
  then show "Engine_Frame run tn e = Inr e" using e(3) by (simp add: Engine_Frame_def frame_server_def)
qed

lemma waiting_turn:
  assumes "waiting e ct h" and "nothing_new tn" and "Engine_PumpEvents (tn_event tn) e = Inr e'" and "waiting e' ct h"
  shows "\<exists>e''. Engine_Run run tn e = Inr e'' \<and> waiting e'' ct h \<and> running e'' = running e'"
proof -
  let ?e = "if tick_due (tn_time tn) e' then e'\<lparr>lastTickTime := tn_time tn\<rparr> else e'"
  have w: "waiting ?e ct h" using assms(4) by (simp add: waiting_update)
  have "eng_mode e = Inr NETMODE_CLIENT" "tickrate e' \<noteq> 0" using assms(1,4) by (simp_all add: waiting_def)
  then have "Engine_Run run tn e = Engine_Frame run tn ?e"
    using assms(3) waiting_tick(1) [OF assms(4,2)] by (simp add: Engine_Run_def)
  then show ?thesis using waiting_tick(2) [OF w assms(2)] w by auto
qed

text \<open>Turn after turn.\<close>

lemma waiting_loop:
  assumes "waiting e ct h" and "running e" and "\<forall>tn\<in>set tns. harmless (tn_event tn) \<and> nothing_new tn"
  shows "\<exists>e'. main_loop run (tns @ later) e = main_loop run later e' \<and> waiting e' ct h \<and> running e'"
  using assms
proof (induction tns arbitrary: e)
  case Nil
  then show ?case by auto
next
  case (Cons tn tns)
  obtain e1 where 1: "Engine_PumpEvents (tn_event tn) e = Inr e1" "waiting e1 ct h" "running e1 = running e"
    using waiting_events [OF Cons.prems(1), of "tn_event tn"] Cons.prems(3) by auto
  obtain e2 where 2: "Engine_Run run tn e = Inr e2" "waiting e2 ct h" "running e2"
    using waiting_turn [OF Cons.prems(1) _ 1(1,2), of run] Cons.prems(2,3) 1(3) by auto
  have "\<not> con_exited (eng_console e)" using Cons.prems(1) by (simp add: waiting_def)
  then show ?case using Cons.IH [OF 2(2,3)] Cons.prems(2,3) 2(1) by simp
qed

section \<open>The end\<close>

text \<open>Everything is shut down and \<open>exit\<close> called; the table of the closed machine is still there.\<close>

definition over :: "nat \<Rightarrow> engine \<Rightarrow> bool" where
  "over h e \<longleftrightarrow> con_exited (eng_console e) \<and> cvars (con_cvars (eng_console e)) = Map.empty \<and> cvarlist_head (con_cvars (eng_console e)) = None \<and>
     eng_script e = \<lparr>vm_initialised = False, vm_handle = None, vm_table = Some h\<rparr> \<and> handle (eng_log e) = ClosedHandle"

lemma waiting_shutdown:
  assumes "waiting e ct h"
  shows "\<exists>e'. Engine_Shutdown e = Inr e' \<and> over h e' \<and> eng_client e' = Some (Client_SetState CLIENT_DEAD ct)"
proof -
  have e: "eng_client e = Some ct" "ct_state ct = CLIENT_RESOLVING_ADDRESS" "eng_server e = None" "eng_cvar netPort e = Inr (Fin 6769)"
    "eng_script e = \<lparr>vm_initialised = True, vm_handle = Some h, vm_table = Some h\<rparr>" "handle (eng_log e) = OpenHandle" "engine_inv (con_cvars (eng_console e))"
    using assms by (simp_all add: waiting_def logging_def)
  obtain as where "cvar_wf (con_cvars (eng_console e)) as" using e(7) by (auto simp: engine_inv_def cvar_ok_def)
  note cv = Cvar_Shutdown_wf [OF this]
  have "shut_client e = Inr (e\<lparr>eng_client := Some (Client_SetState CLIENT_DEAD ct)\<rparr>)" using e(1,2,4) by (simp add: shut_client_def Client_Shutdown_def)
  then show ?thesis using e(3,5,6) cv
    by (simp add: Engine_Shutdown_def shut_server_def Script_Shutdown_def Logging_Shutdown_def over_def)
qed

text \<open>
  C5. The whole program, for a client that never gets anywhere: started without arguments where the log, the
  window and the script machine can be made and the base folder is there, with the address of its server not known and
  no datagram received in any of its turns, whatever keys but F9 go down and up in how many turns, it leaves its loop in the turn that brings
  the event to quit. \<open>Capy_Main\<close> then shuts everything down without a fault: the client is dead and has sent nothing, the convars are freed, the
  script machine and the log are closed and \<open>exit\<close> is called, whatever the turns after that would have been. But the process does not end
  cleanly: \<open>exit\<close> destroys the global script object, whose table is released in the machine that the shutdown has freed.
\<close>

theorem program_ends:
  assumes "su_log_opens su" and "su_now su \<noteq> []" and "length (su_build_date su) \<le> 900" and "su_video su = Video" and "su_vm su = Some h"
    and "path_exists d ''./'' \<or> creatable d ''./''" and "\<not> strcaseeq prog ''+set''" and "length (ct_name (su_client su)) = CLIENT_NAME_MAX"
    and "su_resolved su = Some a" and "\<forall>tn\<in>set tns. harmless (tn_event tn) \<and> nothing_new tn"
    and "tn_event last_turn = Some Quit" and "nothing_new last_turn"
  shows "\<exists>e ct. Capy_Main su 1 (os_argv [prog]) run (tns @ last_turn # later) (engine0 d) = Inr e \<and> over h e \<and>
    eng_client e = Some ct \<and> ct_state ct = CLIENT_DEAD \<and> net_sent ct = net_sent (su_client su) \<and>
    main_program su 1 (os_argv [prog]) run (tns @ last_turn # later) (engine0 d) = Inl UseAfterFree"
proof -
  obtain e ct where e: "Engine_Init su 1 (os_argv [prog]) (engine0 d) = Inr e" "running e" "waiting e ct h" "net_sent ct = net_sent (su_client su)"
    using client_started [OF assms(1-8)] assms(9) by (auto simp: waiting_def SDL_SCANCODE_F9_def SDL_SCANCODE_COUNT_def)
  obtain e1 where 1: "main_loop run (tns @ last_turn # later) e = main_loop run (last_turn # later) e1" "waiting e1 ct h" "running e1"
    using waiting_loop [OF e(3,2) assms(10)] by blast
  let ?e2 = "e1\<lparr>running := False\<rparr>"
  have "Engine_PumpEvents (tn_event last_turn) e1 = Inr ?e2" using assms(11) by (simp add: Engine_PumpEvents_def)
  then obtain e3 where 3: "Engine_Run run last_turn e1 = Inr e3" "waiting e3 ct h" "\<not> running e3"
    using waiting_turn [OF 1(2) assms(12), of ?e2 run] 1(2) by (auto simp: waiting_update)
  have ex: "\<not> con_exited (eng_console e1)" "\<not> con_exited (eng_console e3)" using 1(2) 3(2) by (simp_all add: waiting_def)
  have "main_loop run later e3 = Inr e3" using 3(3) by (cases later) simp_all
  then have loop: "main_loop run (tns @ last_turn # later) e = Inr e3" using 1 3(1) ex(1) by simp
  obtain e4 where 4: "Engine_Shutdown e3 = Inr e4" "over h e4" "eng_client e4 = Some (Client_SetState CLIENT_DEAD ct)"
    using waiting_shutdown [OF 3(2)] by blast
  have "Capy_Main su 1 (os_argv [prog]) run (tns @ last_turn # later) (engine0 d) = Inr e4"
    using e(1) loop 4(1) ex(2) by (simp add: Capy_Main_def)
  moreover from this have "main_program su 1 (os_argv [prog]) run (tns @ last_turn # later) (engine0 d) = Inl UseAfterFree"
    using 4(2) by (simp add: main_program_def ScriptVM_destroy_def over_def)
  ultimately show ?thesis using 4(2,3) e(4) by (simp add: Client_SetState_def)
qed

definition dull_turn :: "sdl_event option \<Rightarrow> turn" where
  "dull_turn ev = \<lparr>tn_time = 1, tn_event = ev, tn_junk = (\<lambda>_. 0), tn_address = NET_WAITING, tn_client_in = (True, None), tn_server_in = (False, None),
     tn_names = (\<lambda>_. []), tn_map = [], tn_line = None, tn_pitch = 0\<rparr>"

theorem program_ends_witness:
  "(\<exists>e ct. Capy_Main plain_start 1 (os_argv [''capy'']) (\<lambda>_ con. Inr con)
      ([dull_turn None, dull_turn (Some (KeyDown 4)), dull_turn (Some (KeyUp 4))] @ dull_turn (Some Quit) # []) (engine0 no_disk) = Inr e \<and> over 1 e \<and>
    eng_client e = Some ct \<and> ct_state ct = CLIENT_DEAD \<and> net_sent ct = []) \<and>
   main_program plain_start 1 (os_argv [''capy'']) (\<lambda>_ con. Inr con)
      ([dull_turn None, dull_turn (Some (KeyDown 4)), dull_turn (Some (KeyUp 4))] @ dull_turn (Some Quit) # []) (engine0 no_disk) = Inl UseAfterFree"
proof -
  have "net_sent client_before = []" by (simp add: client_before_def client0_def)
  then show ?thesis
    using program_ends [of plain_start 1 no_disk "''capy''" 7 "[dull_turn None, dull_turn (Some (KeyDown 4)), dull_turn (Some (KeyUp 4))]"
        "dull_turn (Some Quit)" "\<lambda>_ con. Inr con" "[]"]
    by (auto simp: plain_start_def path_exists_def no_disk_def strcaseeq_def to_lower_def dull_turn_def nothing_new_def harmless_def
        SDL_SCANCODE_COUNT_def SDL_SCANCODE_F9_def)
qed

end
