(* ===== verification/Capy_Render.thy ===== *)
theory Capy_Render
  imports Capy_World
begin

text \<open>
  What a drawn world looks like (\<open>Render\<close> in \<open>world/world_generator.cpp\<close>): the four nested loops put exactly the pixels of a picture
  into the texture. The picture is given point by point; the loops agree with it on the tiles they have come to.
\<close>

section \<open>The picture\<close>

text \<open>The tile in column \<open>x\<close> and row \<open>y\<close> of a world \<open>W\<close> tiles wide, and the first row of a column that is not air.\<close>

definition tile_at :: "byte list \<Rightarrow> nat \<Rightarrow> nat \<Rightarrow> nat \<Rightarrow> tile" where
  "tile_at ts W x y = the (map_of tileIndices (unat (ts ! (y * W + x))))"

definition surface :: "byte list \<Rightarrow> nat \<Rightarrow> nat \<Rightarrow> nat \<Rightarrow> nat option" where
  "surface ts W x n = find (\<lambda>y. tile_at ts W x y \<noteq> WorldTileAir) [0..<n]"

text \<open>What tile \<open>(x, y)\<close> looks like; air is not drawn.\<close>

definition tile_look :: "byte list \<Rightarrow> nat \<Rightarrow> nat \<Rightarrow> nat \<Rightarrow> nat option" where
  "tile_look ts W x y =
     (if tile_at ts W x y = WorldTileAir then None
      else Some (pixel_value (tile_at ts W x y) ((y - the (surface ts W x (y + 1))) * TILE_SIZE)))"

text \<open>The tiles that are drawn: a world lower than the screen ends the drawing with its first column.\<close>

definition drawn :: "nat \<Rightarrow> nat \<Rightarrow> nat \<Rightarrow> nat \<Rightarrow> nat \<times> nat \<Rightarrow> bool" where
  "drawn W H cols rows = (\<lambda>(x, y). x < W \<and> y < H \<and> x < cols \<and> y < rows \<and> (H < rows \<longrightarrow> x = 0))"

text \<open>A texture with \<open>P\<close> pixels in a line on which the tiles in \<open>D\<close> have been drawn.\<close>

definition picture :: "byte list \<Rightarrow> nat \<Rightarrow> nat \<Rightarrow> (nat \<times> nat \<Rightarrow> bool) \<Rightarrow> nat list \<Rightarrow> nat list" where
  "picture ts W P D tex = map (\<lambda>i.
     let x = i mod P div TILE_SIZE; y = i div P div TILE_SIZE
     in if D (x, y) then (case tile_look ts W x y of None \<Rightarrow> tex ! i | Some v \<Rightarrow> v) else tex ! i) [0..<length tex]"

lemma length_picture [simp]: "length (picture ts W P D tex) = length tex" by (simp add: picture_def)

lemma picture_nth:
  "i < length tex \<Longrightarrow> picture ts W P D tex ! i =
    (if D (i mod P div TILE_SIZE, i div P div TILE_SIZE)
     then (case tile_look ts W (i mod P div TILE_SIZE) (i div P div TILE_SIZE) of None \<Rightarrow> tex ! i | Some v \<Rightarrow> v) else tex ! i)"
  by (simp add: picture_def Let_def cong: option.case_cong)

lemma picture_cong: "(\<And>x y. D (x, y) = E (x, y)) \<Longrightarrow> picture ts W P D tex = picture ts W P E tex"
  by (simp add: picture_def Let_def)

section \<open>One tile\<close>

lemma draw_pixels:
  assumes "\<And>yy xx. (yy, xx) \<in> set ps \<Longrightarrow> (y + yy) * P + (x + xx) < length tex" and "4 * length tex < 2 ^ 32"
  shows "\<exists>t. fold_res (draw_pixel (4 * P) x y v) ps tex = Inr t \<and> length t = length tex \<and>
    (\<forall>i < length tex. t ! i = (if \<exists>yy xx. (yy, xx) \<in> set ps \<and> i = (y + yy) * P + (x + xx) then v else tex ! i))"
  using assms
proof (induction ps arbitrary: tex)
  case Nil
  then show ?case by simp
next
  case (Cons p ps)
  obtain yy xx where p: "p = (yy, xx)" by fastforce
  let ?k = "(y + yy) * P + (x + xx)"
  have k: "?k < length tex" using Cons.prems(1) p by simp
  have "(y + yy) * (4 * P) + (x + xx) * 4 = 4 * ?k" by algebra
  moreover have "4 * ?k < 2 ^ 32" by (rule le_less_trans [OF mult_le_mono2 [OF less_imp_le [OF k]] Cons.prems(2)])
  ultimately have d: "draw_pixel (4 * P) x y v p tex = Inr (tex[?k := v])"
    using k by (simp only: draw_pixel_def p Let_def split_conv) simp
  obtain t where t: "fold_res (draw_pixel (4 * P) x y v) ps (tex[?k := v]) = Inr t" "length t = length tex"
    "\<forall>i < length tex. t ! i = (if \<exists>yy xx. (yy, xx) \<in> set ps \<and> i = (y + yy) * P + (x + xx) then v else tex[?k := v] ! i)"
    using Cons.IH [of "tex[?k := v]"] Cons.prems by auto
  have "\<forall>i < length tex. t ! i = (if \<exists>yy xx. (yy, xx) \<in> set (p # ps) \<and> i = (y + yy) * P + (x + xx) then v else tex ! i)"
  proof (intro allI impI)
    fix i assume i: "i < length tex"
    show "t ! i = (if \<exists>yy xx. (yy, xx) \<in> set (p # ps) \<and> i = (y + yy) * P + (x + xx) then v else tex ! i)"
      using t(3) i k by (cases "i = ?k") (auto simp: p)
  qed
  then show ?case using t(1,2) d by simp
qed

lemma set_tile_pixels: "(yy, xx) \<in> set tile_pixels \<longleftrightarrow> yy < TILE_SIZE \<and> xx < TILE_SIZE"
  by (auto simp: tile_pixels_def)

text \<open>The pixels of a tile are those whose place, divided by the size of a tile, is the tile's.\<close>

lemma tile_region:
  assumes "(X + 1) * TILE_SIZE \<le> P"
  shows "(\<exists>yy xx. (yy, xx) \<in> set tile_pixels \<and> i = (Y * TILE_SIZE + yy) * P + (X * TILE_SIZE + xx)) \<longleftrightarrow>
    i mod P div TILE_SIZE = X \<and> i div P div TILE_SIZE = Y"
proof
  assume "\<exists>yy xx. (yy, xx) \<in> set tile_pixels \<and> i = (Y * TILE_SIZE + yy) * P + (X * TILE_SIZE + xx)"
  then obtain yy xx where s: "yy < TILE_SIZE" "xx < TILE_SIZE" "i = (Y * TILE_SIZE + yy) * P + (X * TILE_SIZE + xx)"
    by (auto simp: set_tile_pixels)
  have "X * TILE_SIZE + xx < P" using s(2) assms by (simp add: algebra_simps)
  then have "i mod P = X * TILE_SIZE + xx" "i div P = Y * TILE_SIZE + yy" using s(3) by simp_all
  then show "i mod P div TILE_SIZE = X \<and> i div P div TILE_SIZE = Y" using s(1,2) by (simp add: TILE_SIZE_def)
next
  assume "i mod P div TILE_SIZE = X \<and> i div P div TILE_SIZE = Y"
  then have "i div P = Y * TILE_SIZE + i div P mod TILE_SIZE" "i mod P = X * TILE_SIZE + i mod P mod TILE_SIZE"
    by (metis div_mult_mod_eq)+
  then have "i = (Y * TILE_SIZE + i div P mod TILE_SIZE) * P + (X * TILE_SIZE + i mod P mod TILE_SIZE)"
    by (metis div_mult_mod_eq)
  moreover have "i div P mod TILE_SIZE < TILE_SIZE" "i mod P mod TILE_SIZE < TILE_SIZE" by (simp_all add: TILE_SIZE_def)
  ultimately show "\<exists>yy xx. (yy, xx) \<in> set tile_pixels \<and> i = (Y * TILE_SIZE + yy) * P + (X * TILE_SIZE + xx)"
    unfolding set_tile_pixels by blast
qed

lemma draw_tile:
  assumes "(X + 1) * TILE_SIZE \<le> P" and "(Y + 1) * TILE_SIZE * P \<le> length tex" and "4 * length tex < 2 ^ 32"
    and "tile_look ts W X Y = Some v"
  shows "fold_res (draw_pixel (4 * P) (X * TILE_SIZE) (Y * TILE_SIZE) v) tile_pixels (picture ts W P D tex) =
    Inr (picture ts W P (\<lambda>p. D p \<or> p = (X, Y)) tex)"
proof -
  have inside: "(Y * TILE_SIZE + yy) * P + (X * TILE_SIZE + xx) < length (picture ts W P D tex)" if "(yy, xx) \<in> set tile_pixels" for yy xx
  proof -
    have "yy < TILE_SIZE" "xx < TILE_SIZE" using that by (auto simp: set_tile_pixels)
    then have "X * TILE_SIZE + xx < P" "Y * TILE_SIZE + yy + 1 \<le> (Y + 1) * TILE_SIZE" using assms(1) by (simp_all add: algebra_simps)
    then have "(Y * TILE_SIZE + yy) * P + (X * TILE_SIZE + xx) < (Y * TILE_SIZE + yy + 1) * P" by (simp add: algebra_simps)
    also have "\<dots> \<le> (Y + 1) * TILE_SIZE * P" using \<open>Y * TILE_SIZE + yy + 1 \<le> (Y + 1) * TILE_SIZE\<close> by (rule mult_le_mono1)
    finally show ?thesis using assms(2) by simp
  qed
  obtain t where t: "fold_res (draw_pixel (4 * P) (X * TILE_SIZE) (Y * TILE_SIZE) v) tile_pixels (picture ts W P D tex) = Inr t"
    "length t = length tex" "\<forall>i < length tex. t ! i = (if i mod P div TILE_SIZE = X \<and> i div P div TILE_SIZE = Y then v else picture ts W P D tex ! i)"
    using draw_pixels [of tile_pixels "Y * TILE_SIZE" P "X * TILE_SIZE" "picture ts W P D tex" v, OF inside] assms(3)
    unfolding tile_region [OF assms(1)] by auto
  have "t = picture ts W P (\<lambda>p. D p \<or> p = (X, Y)) tex"
    by (rule nth_equalityI) (use t(2,3) assms(4) in \<open>auto simp: picture_nth\<close>)
  then show ?thesis using t(1) by simp
qed

section \<open>Columns\<close>

lemma find_snoc: "find Q (xs @ [x]) = (case find Q xs of Some y \<Rightarrow> Some y | None \<Rightarrow> if Q x then Some x else None)"
  by (induction xs) auto

lemma surface_Suc:
  "surface ts W x (Suc n) =
    (case surface ts W x n of Some g \<Rightarrow> Some g | None \<Rightarrow> if tile_at ts W x n \<noteq> WorldTileAir then Some n else None)"
  by (simp add: surface_def find_snoc split: option.split)

lemma surface_le: "surface ts W x n = Some g \<Longrightarrow> g < n"
  by (auto simp: surface_def find_Some_iff)

text \<open>A world of \<open>W\<close> by \<open>H\<close> known tiles, and a texture with room for the tiles of the screen.\<close>

definition drawable :: "byte list \<Rightarrow> nat \<Rightarrow> nat \<Rightarrow> nat \<Rightarrow> nat \<Rightarrow> nat \<Rightarrow> nat list \<Rightarrow> bool" where
  "drawable ts W H P cols rows tex \<longleftrightarrow> length ts = W * H \<and> (\<forall>b \<in> set ts. b < 8) \<and> W < 2 ^ 31 \<and> H < 2 ^ 31 \<and> W * H < 2 ^ 32 \<and>
     cols * TILE_SIZE \<le> P \<and> rows * TILE_SIZE * P \<le> length tex \<and> 4 * length tex < 2 ^ 32"

lemma tile_index:
  assumes "drawable ts W H P cols rows tex" and "x < W" and "y < H"
  shows "y * W + x < length ts" and "unat (ts ! (y * W + x)) \<le> length tileIndices"
    and "map_of tileIndices (unat (ts ! (y * W + x))) = Some (tile_at ts W x y)" and "(y * W + x) mod 2 ^ 32 = y * W + x"
proof -
  have "y * W + x < (y + 1) * W" using assms(2) by simp
  also have "\<dots> \<le> H * W" using assms(3) by (intro mult_le_mono1) simp
  finally show i: "y * W + x < length ts" using assms(1) by (simp add: drawable_def mult.commute)
  then have "ts ! (y * W + x) < 8" using assms(1) by (simp add: drawable_def)
  then have b: "unat (ts ! (y * W + x)) < 8" by (simp add: word_less_nat_alt)
  then show "unat (ts ! (y * W + x)) \<le> length tileIndices" by (simp add: tileIndices_def)
  have "k < 8 \<Longrightarrow> map_of tileIndices k \<noteq> None" for k by (auto simp: tileIndices_def)
  then show "map_of tileIndices (unat (ts ! (y * W + x))) = Some (tile_at ts W x y)" using b by (auto simp: tile_at_def)
  show "(y * W + x) mod 2 ^ 32 = y * W + x" using i assms(1) by (simp add: drawable_def)
qed

lemma to_u32_small: "W < 2 ^ 31 \<Longrightarrow> to_u32 (int W) = W" by (simp add: to_u32_def nat_mod_distrib)

lemma render_tile_inside:
  assumes "drawable ts W H P cols rows tex" and "X < W" and "k < H" and "X < cols" and "k < rows"
  shows "render_tile (Some ts) \<lparr>vx = int W, vy = int H\<rparr> (4 * P) (X * TILE_SIZE) k
      (Running, map_option (\<lambda>g. g * TILE_SIZE) (surface ts W X k), picture ts W P D tex) =
    Inr (Running, map_option (\<lambda>g. g * TILE_SIZE) (surface ts W X (Suc k)), picture ts W P (\<lambda>p. D p \<or> p = (X, k)) tex)"
proof -
  note i = tile_index [OF assms(1-3)]
  have u: "to_u32 (int W) = W" "to_u32 (int H) = H" using assms(1) by (auto simp: drawable_def intro!: to_u32_small)
  have t: "X * TILE_SIZE div TILE_SIZE = X" "k * TILE_SIZE div TILE_SIZE = k" by (simp_all add: TILE_SIZE_def)
  show ?thesis
  proof (cases "tile_at ts W X k = WorldTileAir")
    case True
    then have "surface ts W X (Suc k) = surface ts W X k" by (simp add: surface_Suc split: option.split)
    moreover have "picture ts W P (\<lambda>p. D p \<or> p = (X, k)) tex = picture ts W P D tex"
      by (rule nth_equalityI) (use True in \<open>auto simp: picture_nth tile_look_def\<close>)
    ultimately show ?thesis using i assms(2,3) True unfolding render_tile_def Let_def split_conv t vec2.simps u by simp
  next
    case False
    let ?g = "the (surface ts W X (Suc k))"
    have g: "surface ts W X (Suc k) = Some ?g"
      "(case map_option (\<lambda>g. g * TILE_SIZE) (surface ts W X k) of None \<Rightarrow> k * TILE_SIZE | Some g \<Rightarrow> g) = ?g * TILE_SIZE"
      using False by (simp_all add: surface_Suc split: option.split)
    then have "?g < Suc k" by (intro surface_le [of ts W X "Suc k" ?g])
    then have look: "tile_look ts W X k = Some (pixel_value (tile_at ts W X k) (k * TILE_SIZE - ?g * TILE_SIZE))"
      using False by (simp add: tile_look_def diff_mult_distrib)
    have "(X + 1) * TILE_SIZE \<le> cols * TILE_SIZE" "(k + 1) * TILE_SIZE * P \<le> rows * TILE_SIZE * P"
      using assms(4,5) by (intro mult_le_mono1; simp)+
    moreover have "cols * TILE_SIZE \<le> P" "rows * TILE_SIZE * P \<le> length tex" "4 * length tex < 2 ^ 32"
      using assms(1) by (simp_all add: drawable_def)
    ultimately have room: "(X + 1) * TILE_SIZE \<le> P" "(k + 1) * TILE_SIZE * P \<le> length tex" "4 * length tex < 2 ^ 32"
      using order_trans by blast+
    have gs: "map_option (\<lambda>g. g * TILE_SIZE) (surface ts W X (Suc k)) = Some (?g * TILE_SIZE)" using g(1) by (metis option.simps(9))
    show ?thesis
      using i assms(2,3) False draw_tile [OF room look, of D]
      unfolding render_tile_def Let_def split_conv t vec2.simps u g(2) gs by simp
  qed
qed

section \<open>The loops\<close>

lemma render_tile_stopped: "stop \<noteq> Running \<Longrightarrow> render_tile tiles sz pitch x k (stop, g, tex) = Inr (stop, g, tex)"
  by (simp add: render_tile_def Let_def)

lemma render_column_stopped: "stop \<noteq> Running \<Longrightarrow> render_column tiles sz pitch screenY k (stop, tex) = Inr (stop, tex)"
  by (simp add: render_column_def)

lemma render_tile_outside:
  assumes "W < 2 ^ 31" and "H < 2 ^ 31" and "W \<le> X \<or> H \<le> k"
  shows "render_tile tiles \<lparr>vx = int W, vy = int H\<rparr> pitch (X * TILE_SIZE) k (Running, g, tex) = Inr (Done, g, tex)"
proof -
  have "X * TILE_SIZE div TILE_SIZE = X" "k * TILE_SIZE div TILE_SIZE = k" by (simp_all add: TILE_SIZE_def)
  then show ?thesis using assms(3) unfolding render_tile_def Let_def split_conv vec2.simps to_u32_small [OF assms(1)] to_u32_small [OF assms(2)] by auto
qed

text \<open>A column of the world, down to the screen's end or the world's.\<close>

lemma render_tiles:
  assumes "drawable ts W H P cols rows tex" and "X < W" and "X < cols" and "n \<le> rows"
  shows "fold_res (render_tile (Some ts) \<lparr>vx = int W, vy = int H\<rparr> (4 * P) (X * TILE_SIZE)) [0..<n] (Running, None, picture ts W P D tex) =
    Inr (if n \<le> H then Running else Done, map_option (\<lambda>g. g * TILE_SIZE) (surface ts W X (min n H)),
      picture ts W P (\<lambda>p. D p \<or> fst p = X \<and> snd p < min n H) tex)"
  using assms(4)
proof (induction n)
  case 0
  then show ?case by (simp add: surface_def)
next
  case (Suc n)
  let ?r = "render_tile (Some ts) \<lparr>vx = int W, vy = int H\<rparr> (4 * P) (X * TILE_SIZE)"
  let ?E = "\<lambda>n p. D p \<or> fst p = X \<and> snd p < min n H"
  have big: "W < 2 ^ 31" "H < 2 ^ 31" using assms(1) by (simp_all add: drawable_def)
  consider (inside) "n < H" | (edge) "n = H" | (below) "H < n" by linarith
  then show ?case
  proof cases
    case inside
    have "picture ts W P (\<lambda>p. ?E n p \<or> p = (X, n)) tex = picture ts W P (?E (Suc n)) tex"
      by (rule picture_cong) (use inside in auto)
    then show ?thesis
      using Suc inside render_tile_inside [OF assms(1,2) inside assms(3), of "?E n"] by (simp add: fold_res_Suc min_def del: upt_Suc)
  next
    case edge
    then show ?thesis using Suc render_tile_outside [OF big, of X n] by (simp add: fold_res_Suc del: upt_Suc)
  next
    case below
    then show ?thesis using Suc by (simp add: fold_res_Suc render_tile_stopped del: upt_Suc)
  qed
qed

lemma render_column_inside:
  assumes "drawable ts W H P cols rows tex" and "X < W" and "X < cols" and "rows = (screenY + (TILE_SIZE - 1)) div TILE_SIZE"
  shows "render_column (Some ts) \<lparr>vx = int W, vy = int H\<rparr> (4 * P) screenY X (Running, picture ts W P D tex) =
    Inr (if rows \<le> H then Running else Done, picture ts W P (\<lambda>p. D p \<or> fst p = X \<and> snd p < min rows H) tex)"
  using render_tiles [OF assms(1-3) order_refl, of D] assms(4) by (simp add: render_column_def)

lemma render_column_outside:
  assumes "W < 2 ^ 31" and "H < 2 ^ 31" and "W \<le> X" and "rows = (screenY + (TILE_SIZE - 1)) div TILE_SIZE"
  shows "render_column tiles \<lparr>vx = int W, vy = int H\<rparr> pitch screenY X (Running, tex) = Inr (if rows = 0 then Running else Done, tex)"
proof -
  let ?r = "render_tile tiles \<lparr>vx = int W, vy = int H\<rparr> pitch (X * TILE_SIZE)"
  have "fold_res ?r [0..<n] (Running, None, tex) = Inr (if n = 0 then Running else Done, None, tex)" for n
    using render_tile_outside [OF assms(1,2), of X _ tiles pitch None tex] assms(3)
    by (induction n) (simp_all add: fold_res_Suc render_tile_stopped del: upt_Suc)
  then show ?thesis using assms(4) by (simp add: render_column_def)
qed

lemma render_columns:
  assumes "drawable ts W H P cols rows tex" and "0 < W" and "rows = (screenY + (TILE_SIZE - 1)) div TILE_SIZE" and "n \<le> cols"
  shows "fold_res (render_column (Some ts) \<lparr>vx = int W, vy = int H\<rparr> (4 * P) screenY) [0..<n] (Running, tex) =
    Inr (if H < rows \<and> 0 < n \<or> W < n \<and> 0 < rows then Done else Running,
      picture ts W P (\<lambda>p. drawn W H cols rows p \<and> fst p < n) tex)"
  using assms(4)
proof (induction n)
  case 0
  have "picture ts W P (\<lambda>p. drawn W H cols rows p \<and> fst p < 0) tex = tex"
    by (rule nth_equalityI) (simp_all add: picture_nth)
  then show ?case by simp
next
  case (Suc n)
  let ?r = "render_column (Some ts) \<lparr>vx = int W, vy = int H\<rparr> (4 * P) screenY"
  let ?E = "\<lambda>n p. drawn W H cols rows p \<and> fst p < n"
  have big: "W < 2 ^ 31" "H < 2 ^ 31" using assms(1) by (simp_all add: drawable_def)
  consider (stopped) "H < rows \<and> 0 < n \<or> W < n \<and> 0 < rows" | (inside) "n < W" "H < rows \<longrightarrow> n = 0"
    | (outside) "W \<le> n" "\<not> (H < rows \<and> 0 < n \<or> W < n \<and> 0 < rows)" by linarith
  then show ?case
  proof cases
    case stopped
    then have "picture ts W P (?E (Suc n)) tex = picture ts W P (?E n) tex" by (intro picture_cong) (auto simp: drawn_def)
    then show ?thesis using Suc stopped by (auto simp: fold_res_Suc render_column_stopped simp del: upt_Suc)
  next
    case inside
    then have "picture ts W P (\<lambda>p. ?E n p \<or> fst p = n \<and> snd p < min rows H) tex = picture ts W P (?E (Suc n)) tex"
      using Suc.prems by (intro picture_cong) (auto simp: drawn_def)
    then show ?thesis
      using Suc inside render_column_inside [OF assms(1) inside(1) _ assms(3), of "?E n"] by (auto simp: fold_res_Suc not_less simp del: upt_Suc)
  next
    case outside
    then have "picture ts W P (?E (Suc n)) tex = picture ts W P (?E n) tex" by (intro picture_cong) (auto simp: drawn_def)
    then show ?thesis using Suc outside assms(2) render_column_outside [OF big outside(1) assms(3)] by (auto simp: fold_res_Suc simp del: upt_Suc)
  qed
qed

section \<open>Properties\<close>


text \<open>A world of two tiles by two: air above grass at the left, grass above stone at the right.\<close>

definition hill :: world where
  "hill = world0\<lparr>w_header := (w_header world0)\<lparr>wh_size := \<lparr>vx = 2, vy = 2\<rparr>\<rparr>, tileData := Some [0, 1, 1, 2]\<rparr>"

lemma hill_looks:
  "tile_look [0, 1, 1, 2] 2 0 0 = None" "tile_look [0, 1, 1, 2] 2 1 0 = Some 0xFF14AA32" "tile_look [0, 1, 1, 2] 2 1 1 = Some 0xFFB0ABB5"
  by (simp_all add: tile_look_def surface_def tile_at_def tileIndices_def pixel_value_def shade_def to_i32_def TILE_SIZE_def)


end
