(* ===== verification/Capy_Chain.thy ===== *)
theory Capy_Chain
  imports Capy_List
begin

text \<open>
  Lists linked by a \<open>next\<close> pointer alone, as the script language's hash tables have them. A list that ends visits no node twice, so the search
  and the other loops over it end.
\<close>

fun chain :: "('n \<Rightarrow> nat option) \<Rightarrow> 'n heap \<Rightarrow> nat option \<Rightarrow> nat list \<Rightarrow> bool" where
  "chain nx h p [] = (p = None)"
| "chain nx h p (a # as) = (p = Some a \<and> (\<exists>n. h a = Some n \<and> chain nx h (nx n) as))"

lemma chain_in_heap: "chain nx h p as \<Longrightarrow> a \<in> set as \<Longrightarrow> \<exists>n. h a = Some n"
  by (induction as arbitrary: p) auto

lemma chain_None [simp]: "chain nx h None as \<longleftrightarrow> as = []"
  by (cases as) auto

lemma chain_Some: "chain nx h (Some a) as \<longleftrightarrow> (\<exists>n bs. as = a # bs \<and> h a = Some n \<and> chain nx h (nx n) bs)"
  by (cases as) auto

lemma chain_unique: "chain nx h p as \<Longrightarrow> chain nx h p bs \<Longrightarrow> as = bs"
proof (induction as arbitrary: p bs)
  case (Cons a as)
  then show ?case by (cases bs) auto
qed simp

lemma chain_split: "chain nx h p (as @ b # bs) \<Longrightarrow> chain nx h (Some b) (b # bs)"
  by (induction as arbitrary: p) auto

text \<open>From a node on, the rest of the list is determined, so a node that came twice would come for ever.\<close>

lemma chain_distinct: "chain nx h p as \<Longrightarrow> distinct as"
proof (induction as arbitrary: p)
  case (Cons a as)
  then obtain n where n: "h a = Some n" "chain nx h (nx n) as" by auto
  have "a \<notin> set as"
  proof
    assume "a \<in> set as"
    then obtain us vs where "as = us @ a # vs" by (auto simp: in_set_conv_decomp)
    then have "chain nx h (Some a) (a # vs)" using n(2) chain_split by simp
    then have "a # vs = a # as" using Cons.prems chain_unique by (metis chain.simps(2))
    then show False using \<open>as = us @ a # vs\<close> by simp
  qed
  then show ?case using Cons.IH [OF n(2)] by simp
qed simp

lemma chain_upd_other [simp]: "a \<notin> set as \<Longrightarrow> chain nx (h(a := x)) p as = chain nx h p as"
  by (induction as arbitrary: p) auto

lemma chain_upd_same:
  assumes "h a = Some n" and "nx n' = nx n"
  shows "chain nx (h(a \<mapsto> n')) p as = chain nx h p as"
  using assms by (induction as arbitrary: p) auto

lemma chain_cong: "(\<And>a. a \<in> set as \<Longrightarrow> h a = h' a) \<Longrightarrow> chain nx h p as = chain nx h' p as"
  by (induction as arbitrary: p) auto

lemma walk_chain: "chain nx h p as \<Longrightarrow> run_loop (walk nx P h p) = Inr (find (\<lambda>a. P (the (h a))) as)"
proof (induction as arbitrary: p)
  case Nil
  then show ?case by (simp add: walk.simps)
next
  case (Cons a as)
  then obtain n where n: "p = Some a" "h a = Some n" "chain nx h (nx n) as" by auto
  from Cons.IH [OF n(3)] n(1,2) show ?case by (simp add: walk.simps [of nx P h "Some a"])
qed

lemma chain_append: "chain nx h p (us @ b # vs) \<Longrightarrow> \<exists>n. h b = Some n \<and> chain nx h (nx n) vs"
  by (induction us arbitrary: p) auto

text \<open>Taking a node out: the one before it points past it.\<close>

lemma chain_unlink:
  assumes "chain nx h p (us @ b # vs)" and "us \<noteq> []" and "h b = Some n" and "h (last us) = Some m" and "nx m' = nx n"
  shows "chain nx (h(last us \<mapsto> m', b := x)) p (us @ vs)"
  using assms(1,2,4) chain_distinct [OF assms(1)]
proof (induction us arbitrary: p)
  case (Cons a us)
  then obtain k where k: "p = Some a" "h a = Some k" "chain nx h (nx k) (us @ b # vs)" by auto
  show ?case
  proof (cases "us = []")
    case True
    then have "chain nx h (nx n) vs" using k(3) assms(3) by simp
    then show ?thesis using True Cons.prems k(1) assms(5) by (simp del: fun_upd_apply) simp
  next
    case False
    then have "chain nx (h(last us \<mapsto> m', b := x)) (nx k) (us @ vs)" by (intro Cons.IH [OF k(3)]) (use Cons.prems in simp_all)
    moreover have "(h(last us \<mapsto> m', b := x)) a = Some k" using k(2) False Cons.prems by auto
    ultimately show ?thesis using k(1) False by (metis append_Cons chain.simps(2) last_ConsR)
  qed
qed simp

end
