(* ===== verification/Capy_SQString.thy ===== *)
theory Capy_SQString
  imports Capy_Chain Capy_Machine
begin

text \<open>
  The strings of the script language (\<open>squirrel/sqstring.h\<close>, the string table of \<open>squirrel/sqstate.cpp\<close>): a string object
  is immutable and interned, so that the machine compares strings by their address. The lemmas show that the table keeps exactly one live object
  for each text, over every run of creations, concatenations and releases. Who holds a reference is not modelled: a release is a step of its own.
\<close>

section \<open>Hashing\<close>

type_synonym sq_hash = u64

text \<open>\<open>(unsigned short)s[i]\<close>: the characters are signed.\<close>

definition short_of_char :: "char \<Rightarrow> sq_hash" where
  "short_of_char c = ucast (scast (byte_of_char c) :: u16)"

definition hash_char :: "char \<Rightarrow> sq_hash \<Rightarrow> sq_hash" where
  "hash_char c h = xor h (push_bit 5 h + drop_bit 2 h + short_of_char c)"

text \<open>The loop takes one character of every \<open>step\<close>, from the last one on.\<close>

function hash_loop :: "char list \<Rightarrow> nat \<Rightarrow> nat \<Rightarrow> sq_hash \<Rightarrow> sq_hash" where
  "hash_loop s step l1 h = (if step \<le> l1 \<and> 0 < step then hash_loop s step (l1 - step) (hash_char (s ! (l1 - 1)) h) else h)"
  by pat_completeness auto
termination by (relation "measure (\<lambda>(s, step, l1, h). l1)") auto

declare hash_loop.simps [simp del]

definition hashstr :: "char list \<Rightarrow> nat \<Rightarrow> sq_hash" where
  "hashstr s l = hash_loop s (l div 32 + 1) l (of_nat l)"

text \<open>The hash of two strings in a row: the loop is in the second one until it leaves it, and then in the first.\<close>

function hash_loop2 :: "nat \<Rightarrow> char list \<Rightarrow> nat \<Rightarrow> nat \<Rightarrow> sq_hash \<Rightarrow> nat \<times> sq_hash" where
  "hash_loop2 al b step l1 h =
     (if step \<le> l1 \<and> 0 < step \<and> al < l1 then hash_loop2 al b step (l1 - step) (hash_char (b ! (l1 - 1 - al)) h) else (l1, h))"
  by pat_completeness auto
termination by (relation "measure (\<lambda>(al, b, step, l1, h). l1)") auto

declare hash_loop2.simps [simp del]

definition hashstr2 :: "char list \<Rightarrow> nat \<Rightarrow> char list \<Rightarrow> nat \<Rightarrow> sq_hash" where
  "hashstr2 a al b bl =
     (let l = al + bl; step = l div 32 + 1; (l1, h) = hash_loop2 al b step l (of_nat l) in hash_loop a step l1 h)"

text \<open>\<open>hash & (n - 1)\<close>, the place of a hash among \<open>n\<close>.\<close>

definition slot_of :: "sq_hash \<Rightarrow> nat \<Rightarrow> nat" where
  "slot_of h n = unat (and h (of_nat n - 1))"

lemma unat_and_le: "unat (and a b) \<le> unat (b :: 'a :: len word)"
  by (metis word_and_le1 word_le_nat_alt)

lemma slot_of_less [simp]: "slot_of h (2 ^ k) < 2 ^ k"
proof (cases "k < 64")
  case True
  have "of_nat (2 ^ k) - 1 = (of_nat (2 ^ k - 1) :: sq_hash)" by (simp add: of_nat_diff)
  moreover have "(2 :: nat) ^ k - 1 < 2 ^ LENGTH(64)" using True power_strict_increasing [of k 64 "2 :: nat"] by simp
  ultimately have "unat ((of_nat (2 ^ k) :: sq_hash) - 1) = 2 ^ k - 1" by (metis mod_less unat_of_nat)
  then show ?thesis unfolding slot_of_def using unat_and_le [of h "of_nat (2 ^ k) - 1"] by (metis Suc_diff_1 le_imp_less_Suc zero_less_numeral zero_less_power)
next
  case False
  have "unat (and h (of_nat (2 ^ k) - 1)) < 2 ^ 64" using unsigned_less [of "and h (of_nat (2 ^ k) - 1)", where ?'a = nat] by simp
  also have "(2 :: nat) ^ 64 \<le> 2 ^ k" by (rule power_increasing) (use False in simp_all)
  finally show ?thesis by (simp add: slot_of_def)
qed

lemma hash_loop_cong:
  assumes "\<And>i. i < l1 \<Longrightarrow> s ! i = t ! i"
  shows "hash_loop s step l1 h = hash_loop t step l1 h"
  using assms
proof (induction s step l1 h rule: hash_loop.induct)
  case (1 s step l1 h)
  then show ?case by (subst (1 2) hash_loop.simps) auto
qed

lemma hashstr_cong: "take l s = take l t \<Longrightarrow> l \<le> length s \<Longrightarrow> l \<le> length t \<Longrightarrow> hashstr s l = hashstr t l"
  unfolding hashstr_def by (rule hash_loop_cong) (metis nth_take)

lemma hash_loop2_append:
  assumes "0 < step" and "l1 \<le> al + length b" and "al \<le> length a"
  shows "(let (l1', h') = hash_loop2 al b step l1 h in hash_loop a step l1' h') = hash_loop (take al a @ b) step l1 h"
  using assms
proof (induction al b step l1 h rule: hash_loop2.induct)
  case (1 al b step l1 h)
  show ?case
  proof (cases "step \<le> l1 \<and> al < l1")
    case True
    then have "\<not> l1 - 1 < al" by linarith
    then have "(take al a @ b) ! (l1 - 1) = b ! (l1 - 1 - al)" using "1.prems" by (simp add: nth_append)
    then show ?thesis using "1.IH" "1.prems" True
      by (subst hash_loop2.simps, subst hash_loop.simps [of "take al a @ b"]) simp
  next
    case False
    have "hash_loop a step l1 h = hash_loop (take al a @ b) step l1 h"
    proof (cases "al < l1")
      case True
      with False show ?thesis by (subst (1 2) hash_loop.simps) simp
    next
      case False
      then show ?thesis using "1.prems" by (intro hash_loop_cong) (simp add: nth_append)
    qed
    with False "1.prems" show ?thesis by (subst hash_loop2.simps) auto
  qed
qed

lemma hashstr2_append:
  assumes "al \<le> length a" and "bl \<le> length b"
  shows "hashstr2 a al b bl = hashstr (take al a @ take bl b) (al + bl)"
proof -
  have "hashstr2 a al b bl = hashstr (take al a @ b) (al + bl)"
    using hash_loop2_append [of "(al + bl) div 32 + 1" "al + bl" al b a "of_nat (al + bl)"] assms
    by (simp add: hashstr2_def hashstr_def Let_def)
  also have "\<dots> = hashstr (take al a @ take bl b) (al + bl)" by (rule hashstr_cong) (use assms in simp_all)
  finally show ?thesis .
qed

section \<open>The string table\<close>

record sq_string =
  str_next :: "nat option"
  str_len :: nat
  str_hash :: sq_hash
  str_val :: "char list"

text \<open>The table's slots hold the heads of the lists; \<open>ss_fresh\<close> is the address the allocator gives next.\<close>

record sq_strings =
  ss_heap :: "sq_string heap"
  ss_slots :: "nat option list"
  ss_used :: int
  ss_fresh :: nat

definition SQStringTable_AllocNodes :: "nat \<Rightarrow> nat option list" where
  "SQStringTable_AllocNodes n = replicate n None"

definition SQStringTable_new :: sq_strings where
  "SQStringTable_new = \<lparr>ss_heap = Map.empty, ss_slots = SQStringTable_AllocNodes 4, ss_used = 0, ss_fresh = 0\<rparr>"

text \<open>The inner loop of \<open>Resize\<close>: each string of an old list becomes the first of its new one.\<close>

partial_function (option) relink :: "nat option \<Rightarrow> sq_string heap \<Rightarrow> nat option list \<Rightarrow> (sq_string heap \<times> nat option list) res option" where
  "relink p h ss =
     (case p of None \<Rightarrow> Some (Inr (h, ss))
      | Some a \<Rightarrow> (case h a of None \<Rightarrow> Some (Inl UseAfterFree)
                  | Some s \<Rightarrow> let i = slot_of (str_hash s) (length ss) in relink (str_next s) (h(a \<mapsto> s\<lparr>str_next := ss ! i\<rparr>)) (ss[i := Some a])))"

definition SQStringTable_Resize :: "nat \<Rightarrow> sq_strings \<Rightarrow> sq_strings res" where
  "SQStringTable_Resize n st =
     bind_res (fold_res (\<lambda>i (h, ss). run_loop (relink (ss_slots st ! i) h ss)) [0..<length (ss_slots st)] (ss_heap st, SQStringTable_AllocNodes n))
       (\<lambda>(h, ss). Inr (st\<lparr>ss_heap := h, ss_slots := ss\<rparr>))"

text \<open>What \<open>Add\<close> and \<open>Concat\<close> do with the characters of a string that is not there yet.\<close>

definition new_string :: "char list \<Rightarrow> sq_hash \<Rightarrow> sq_strings \<Rightarrow> (nat \<times> sq_strings) res" where
  "new_string s newhash st =
     (let n = length (ss_slots st); h = slot_of newhash n; a = ss_fresh st;
          t = \<lparr>str_next = ss_slots st ! h, str_len = length s, str_hash = newhash, str_val = s @ [NUL]\<rparr>;
          st = st\<lparr>ss_heap := (ss_heap st)(a \<mapsto> t), ss_slots := (ss_slots st)[h := Some a], ss_used := ss_used st + 1, ss_fresh := a + 1\<rparr>
      in bind_res (if int n < ss_used st then SQStringTable_Resize (n * 2) st else Inr st) (\<lambda>st. Inr (a, st)))"

definition SQStringTable_Add :: "char list \<Rightarrow> int \<Rightarrow> sq_strings \<Rightarrow> (nat \<times> sq_strings) res" where
  "SQStringTable_Add news len st =
     (let l = (if len < 0 then length (c_str news) else nat len) in
      if length news < l then Inl OutOfBoundsRead
      else
        let newhash = hashstr news l; h = slot_of newhash (length (ss_slots st)) in
        bind_res (run_loop (walk str_next (\<lambda>s. str_len s = l \<and> take l (str_val s) = take l news) (ss_heap st) (ss_slots st ! h)))
          (\<lambda>r. case r of Some s \<Rightarrow> Inr (s, st) | None \<Rightarrow> new_string (take l news) newhash st))"

definition SQStringTable_Concat :: "char list \<Rightarrow> nat \<Rightarrow> char list \<Rightarrow> nat \<Rightarrow> sq_strings \<Rightarrow> (nat \<times> sq_strings) res" where
  "SQStringTable_Concat a alen b blen st =
     (if length a < alen \<or> length b < blen then Inl OutOfBoundsRead
      else
        let newhash = hashstr2 a alen b blen; h = slot_of newhash (length (ss_slots st)); len = alen + blen in
        bind_res (run_loop (walk str_next (\<lambda>s. str_len s = len \<and> take alen (str_val s) = take alen a \<and> take blen (drop alen (str_val s)) = take blen b)
            (ss_heap st) (ss_slots st ! h)))
          (\<lambda>r. case r of Some s \<Rightarrow> Inr (s, st) | None \<Rightarrow> new_string (take alen a @ take blen b) newhash st))"

text \<open>The search of \<open>Remove\<close> for a string and the one before it; a string that is not in its list fails an assertion.\<close>

partial_function (option) find_previous :: "nat \<Rightarrow> sq_string heap \<Rightarrow> nat option \<Rightarrow> nat option \<Rightarrow> nat option res option" where
  "find_previous bs h s prev =
     (case s of None \<Rightarrow> Some (Inl AssertFailed)
      | Some a \<Rightarrow> (case h a of None \<Rightarrow> Some (Inl UseAfterFree)
                  | Some n \<Rightarrow> if a = bs then Some (Inr prev) else find_previous bs h (str_next n) (Some a)))"

definition SQStringTable_Remove :: "nat \<Rightarrow> sq_strings \<Rightarrow> sq_strings res" where
  "SQStringTable_Remove bs st =
     (case ss_heap st bs of None \<Rightarrow> Inl UseAfterFree
      | Some s \<Rightarrow>
          let h = slot_of (str_hash s) (length (ss_slots st)) in
          bind_res (run_loop (find_previous bs (ss_heap st) (ss_slots st ! h) None)) (\<lambda>prev.
            let st = (case prev of
                        Some p \<Rightarrow> st\<lparr>ss_heap := (ss_heap st)(p := map_option (\<lambda>n. n\<lparr>str_next := str_next s\<rparr>) (ss_heap st p))\<rparr>
                      | None \<Rightarrow> st\<lparr>ss_slots := (ss_slots st)[h := str_next s]\<rparr>)
            in Inr (st\<lparr>ss_heap := (ss_heap st)(bs := None), ss_used := ss_used st - 1\<rparr>)))"

section \<open>Well-formed tables\<close>

definition text_of :: "sq_string \<Rightarrow> char list" where
  "text_of s = take (str_len s) (str_val s)"

definition well_made :: "sq_string \<Rightarrow> bool" where
  "well_made s = (str_val s = text_of s @ [NUL] \<and> str_len s = length (text_of s) \<and> str_hash s = hashstr (text_of s) (str_len s))"

text \<open>Each slot's list has the strings of that slot, out of a set of strings.\<close>

definition slot_at :: "sq_string heap \<Rightarrow> nat \<Rightarrow> nat \<Rightarrow> nat" where
  "slot_at h n a = slot_of (str_hash (the (h a))) n"

definition chained :: "sq_string heap \<Rightarrow> nat option list \<Rightarrow> nat set \<Rightarrow> bool" where
  "chained h ss M = (M \<subseteq> dom h \<and> (\<forall>i<length ss. \<exists>as. chain str_next h (ss ! i) as \<and> set as = {a \<in> M. slot_at h (length ss) a = i}))"

definition strings_wf :: "sq_strings \<Rightarrow> bool" where
  "strings_wf st =
     ((\<exists>k. length (ss_slots st) = 2 ^ k) \<and> chained (ss_heap st) (ss_slots st) (dom (ss_heap st)) \<and>
      (\<forall>a s. ss_heap st a = Some s \<longrightarrow> well_made s \<and> a < ss_fresh st) \<and>
      (\<forall>a b s t. ss_heap st a = Some s \<and> ss_heap st b = Some t \<and> text_of s = text_of t \<longrightarrow> a = b) \<and>
      ss_used st = int (card (dom (ss_heap st))))"

definition bare :: "sq_string \<Rightarrow> sq_string" where
  "bare s = s\<lparr>str_next := None\<rparr>"

definition same_strings :: "sq_string heap \<Rightarrow> sq_string heap \<Rightarrow> bool" where
  "same_strings h h' = (\<forall>a. map_option bare (h' a) = map_option bare (h a))"

lemma same_strings_refl [simp]: "same_strings h h"
  by (simp add: same_strings_def)

lemma same_strings_trans: "same_strings h h' \<Longrightarrow> same_strings h' h'' \<Longrightarrow> same_strings h h''"
  by (simp add: same_strings_def)

lemma same_strings_dom: "same_strings h h' \<Longrightarrow> dom h' = dom h"
  by (auto simp: same_strings_def) (metis map_option_is_None option.exhaust)+

lemma same_strings_Some:
  assumes "same_strings h h'" and "h' a = Some s'"
  shows "\<exists>s. h a = Some s \<and> text_of s = text_of s' \<and> str_hash s = str_hash s' \<and> well_made s = well_made s'"
proof -
  have "map_option bare (h' a) = map_option bare (h a)" using assms(1) by (simp add: same_strings_def)
  with assms(2) obtain s where s: "h a = Some s" "bare s = bare s'" by (cases "h a") auto
  from s(2) have "str_len s = str_len s'" "str_hash s = str_hash s'" "str_val s = str_val s'"
    unfolding bare_def by (metis sq_string.select_convs sq_string.update_convs(1) sq_string.surjective)+
  with s(1) show ?thesis by (simp add: text_of_def well_made_def)
qed

lemma same_strings_sym: "same_strings h h' \<Longrightarrow> same_strings h' h"
  by (simp add: same_strings_def)

lemma chained_push:
  assumes "chained h ss M" and "a \<notin> M" and "i = slot_of (str_hash s) (length ss)" and "str_next s = ss ! i"
  shows "chained (h(a \<mapsto> s)) (ss[i := Some a]) (insert a M)"
  unfolding chained_def
proof (intro conjI allI impI)
  show "insert a M \<subseteq> dom (h(a \<mapsto> s))" using assms(1) by (auto simp: chained_def)
next
  fix j assume "j < length (ss[i := Some a])"
  then have j: "j < length ss" by simp
  have at: "slot_at (h(a \<mapsto> s)) n b = slot_at h n b" if "b \<in> M" for b n using that assms(2) by (auto simp: slot_at_def)
  have new: "slot_at (h(a \<mapsto> s)) (length ss) a = i" using assms(3) by (simp add: slot_at_def)
  from assms(1) j obtain as where as: "chain str_next h (ss ! j) as" "set as = {a \<in> M. slot_at h (length ss) a = j}" by (auto simp: chained_def)
  have ch: "chain str_next (h(a \<mapsto> s)) (ss ! j) as" using as assms(2) by simp
  show "\<exists>as. chain str_next (h(a \<mapsto> s)) (ss[i := Some a] ! j) as \<and> set as = {x \<in> insert a M. slot_at (h(a \<mapsto> s)) (length (ss[i := Some a])) x = j}"
  proof (cases "j = i")
    case True
    then have "chain str_next (h(a \<mapsto> s)) (ss[i := Some a] ! j) (a # as)" using ch j assms(4) by simp
    moreover have "set (a # as) = {x \<in> insert a M. slot_at (h(a \<mapsto> s)) (length (ss[i := Some a])) x = j}"
      using as(2) at new True by (auto simp: fun_upd_def)
    ultimately show ?thesis by blast
  next
    case False
    moreover have "set as = {x \<in> insert a M. slot_at (h(a \<mapsto> s)) (length (ss[i := Some a])) x = j}"
      using as(2) at new False assms(2) by auto
    ultimately show ?thesis using ch j by auto
  qed
qed

lemma relink_chain:
  assumes "chained h ss M" and "chain str_next h p as" and "set as \<inter> M = {}"
  shows "\<exists>h' ss'. run_loop (relink p h ss) = Inr (h', ss') \<and> chained h' ss' (M \<union> set as) \<and> length ss' = length ss \<and>
    (\<forall>a. a \<notin> set as \<longrightarrow> h' a = h a) \<and> same_strings h h'"
  using assms
proof (induction as arbitrary: p h ss M)
  case Nil
  then show ?case by (simp add: relink.simps)
next
  case (Cons a as)
  then obtain s where s: "p = Some a" "h a = Some s" "chain str_next h (str_next s) as" by auto
  have "a \<notin> set as" using chain_distinct [OF Cons.prems(2)] by simp
  let ?i = "slot_of (str_hash s) (length ss)" and ?s = "s\<lparr>str_next := ss ! slot_of (str_hash s) (length ss)\<rparr>"
  let ?h = "h(a \<mapsto> ?s)" and ?ss = "ss[slot_of (str_hash s) (length ss) := Some a]"
  have push: "chained ?h ?ss (insert a M)" using chained_push [OF Cons.prems(1), of a ?i ?s] Cons.prems(3) by simp
  have tl: "chain str_next ?h (str_next s) as" using s(3) \<open>a \<notin> set as\<close> by simp
  have disj: "set as \<inter> insert a M = {}" using Cons.prems(3) \<open>a \<notin> set as\<close> by auto
  obtain h' ss' where IH: "run_loop (relink (str_next s) ?h ?ss) = Inr (h', ss')" "chained h' ss' (insert a M \<union> set as)" "length ss' = length ?ss"
    "\<forall>b. b \<notin> set as \<longrightarrow> h' b = ?h b" "same_strings ?h h'"
    using Cons.IH [OF push tl disj] by blast
  have "same_strings h ?h" using s(2) by (simp add: same_strings_def bare_def)
  then have "same_strings h h'" using IH(5) by (rule same_strings_trans)
  moreover have "relink p h ss = relink (str_next s) ?h ?ss" using s(1,2) by (subst relink.simps) (simp add: Let_def)
  ultimately show ?case using IH by (intro exI [of _ h'] exI [of _ ss']) auto
qed

section \<open>The operations keep the table\<close>

lemma strings_wf_slot: "strings_wf st \<Longrightarrow> slot_of h (length (ss_slots st)) < length (ss_slots st)"
  by (auto simp: strings_wf_def)

lemma strings_wf_finite: "strings_wf st \<Longrightarrow> finite (dom (ss_heap st))"
  by (rule finite_subset [of _ "{..<ss_fresh st}"]) (auto simp: strings_wf_def)

text \<open>A rearrangement of the lists alone keeps everything else.\<close>

lemma strings_wf_rearranged:
  assumes "strings_wf st" and "same_strings (ss_heap st) h" and "chained h ss (dom h)" and "length ss = 2 ^ k"
  shows "strings_wf (st\<lparr>ss_heap := h, ss_slots := ss\<rparr>)"
proof -
  have old: "\<exists>s'. ss_heap st a = Some s' \<and> text_of s' = text_of s \<and> well_made s' = well_made s" if "h a = Some s" for a s
    using same_strings_Some [OF assms(2) that] by auto
  have "well_made s \<and> a < ss_fresh st" if "h a = Some s" for a s
    using old [OF that] assms(1) by (auto simp: strings_wf_def)
  moreover have "a = b" if "h a = Some s" "h b = Some t" "text_of s = text_of t" for a b s t
    using old [OF that(1)] old [OF that(2)] that(3) assms(1) unfolding strings_wf_def by metis
  ultimately show ?thesis using assms same_strings_dom [OF assms(2)] by (auto simp: strings_wf_def)
qed

lemma slot_at_same: "same_strings h h' \<Longrightarrow> a \<in> dom h \<Longrightarrow> slot_at h' n a = slot_at h n a"
  using same_strings_dom [of h h'] same_strings_Some [of h h' a] by (fastforce simp: slot_at_def)

lemma Resize_strings:
  assumes "strings_wf st" and "n = 2 ^ k"
  shows "\<exists>st'. SQStringTable_Resize n st = Inr st' \<and> strings_wf st' \<and> same_strings (ss_heap st) (ss_heap st') \<and>
    ss_fresh st' = ss_fresh st \<and> length (ss_slots st') = n"
proof -
  let ?old = "ss_slots st" and ?h = "ss_heap st"
  let ?f = "\<lambda>i (h, ss). run_loop (relink (?old ! i) h ss)"
  let ?P = "\<lambda>i (h, ss). same_strings ?h h \<and> length ss = n \<and> chained h ss {a \<in> dom ?h. slot_at ?h (length ?old) a < i} \<and>
    (\<forall>a \<in> dom ?h. i \<le> slot_at ?h (length ?old) a \<longrightarrow> h a = ?h a)"
  have wf: "chained ?h ?old (dom ?h)" using assms(1) by (simp add: strings_wf_def)
  have start: "?P 0 (?h, SQStringTable_AllocNodes n)" by (auto simp: SQStringTable_AllocNodes_def chained_def intro!: exI [of _ "[]"])
  have step: "\<exists>t'. ?f i t = Inr t' \<and> ?P (Suc i) t'" if "i < length ?old" "?P i t" for i t
  proof -
    obtain h ss where t: "t = (h, ss)" by (cases t)
    let ?M = "{a \<in> dom ?h. slot_at ?h (length ?old) a < i}"
    from wf that(1) obtain as where as: "chain str_next ?h (?old ! i) as" "set as = {a \<in> dom ?h. slot_at ?h (length ?old) a = i}"
      by (auto simp: chained_def)
    have "chain str_next h (?old ! i) as"
      by (subst chain_cong [of as h ?h]) (use as that(2) t in auto)
    moreover have "set as \<inter> ?M = {}" using as(2) by auto
    moreover have "chained h ss ?M" using that(2) t by simp
    ultimately obtain h' ss' where r: "run_loop (relink (?old ! i) h ss) = Inr (h', ss')" "chained h' ss' (?M \<union> set as)" "length ss' = length ss"
      "\<forall>a. a \<notin> set as \<longrightarrow> h' a = h a" "same_strings h h'"
      using relink_chain by blast
    have "?M \<union> set as = {a \<in> dom ?h. slot_at ?h (length ?old) a < Suc i}" unfolding as(2) by (auto simp: less_Suc_eq)
    moreover have "same_strings ?h h'" using same_strings_trans [OF _ r(5)] that(2) t by simp
    moreover have "\<forall>a \<in> dom ?h. Suc i \<le> slot_at ?h (length ?old) a \<longrightarrow> h' a = ?h a" using r(4) as(2) that(2) t by simp
    ultimately have "?P (Suc i) (h', ss')" using r(2,3) that(2) t by simp
    then show ?thesis using r(1) t by auto
  qed
  obtain t where t: "fold_res ?f [0..<length ?old] (?h, SQStringTable_AllocNodes n) = Inr t" "?P (length ?old) t"
    using fold_res_upt [of ?P "(?h, SQStringTable_AllocNodes n)" "length ?old" ?f, OF start step] by blast
  obtain h ss where hs: "t = (h, ss)" by (cases t)
  have "slot_at ?h (length ?old) a < length ?old" for a using strings_wf_slot [OF assms(1)] by (simp add: slot_at_def)
  then have "{a \<in> dom ?h. slot_at ?h (length ?old) a < length ?old} = dom ?h" by auto
  moreover have "dom h = dom ?h" using t(2) hs same_strings_dom by auto
  ultimately have "chained h ss (dom h)" using t(2) hs by simp
  then have "strings_wf (st\<lparr>ss_heap := h, ss_slots := ss\<rparr>)" using strings_wf_rearranged [OF assms(1)] t(2) hs assms(2) by auto
  then show ?thesis using t hs by (auto simp: SQStringTable_Resize_def)
qed

text \<open>A text that is not in the table becomes a new object.\<close>

definition has_text :: "sq_strings \<Rightarrow> nat \<Rightarrow> char list \<Rightarrow> bool" where
  "has_text st a s = (\<exists>t. ss_heap st a = Some t \<and> text_of t = s)"

lemma has_text_same: "same_strings (ss_heap st) (ss_heap st') \<Longrightarrow> has_text st' a s = has_text st a s"
  unfolding has_text_def using same_strings_Some same_strings_sym by metis

lemma new_string_added:
  assumes "strings_wf st" and "h = hashstr s (length s)" and "\<And>a. \<not> has_text st a s"
  shows "\<exists>st'. new_string s h st = Inr (ss_fresh st, st') \<and> strings_wf st' \<and>
    (\<forall>a u. has_text st' a u \<longleftrightarrow> (if a = ss_fresh st then u = s else has_text st a u)) \<and> ss_fresh st' = ss_fresh st + 1"
proof -
  let ?n = "length (ss_slots st)" and ?a = "ss_fresh st"
  let ?i = "slot_of h ?n"
  let ?t = "\<lparr>str_next = ss_slots st ! ?i, str_len = length s, str_hash = h, str_val = s @ [NUL]\<rparr>"
  let ?st = "st\<lparr>ss_heap := (ss_heap st)(?a \<mapsto> ?t), ss_slots := (ss_slots st)[?i := Some ?a], ss_used := ss_used st + 1, ss_fresh := ?a + 1\<rparr>"
  have fresh: "?a \<notin> dom (ss_heap st)" using assms(1) by (auto simp: strings_wf_def)
  have t: "text_of ?t = s" "well_made ?t" using assms(2) by (simp_all add: text_of_def well_made_def)
  have "chained ((ss_heap st)(?a \<mapsto> ?t)) ((ss_slots st)[?i := Some ?a]) (insert ?a (dom (ss_heap st)))"
    by (rule chained_push) (use assms(1) fresh in \<open>auto simp: strings_wf_def\<close>)
  moreover have "dom ((ss_heap st)(?a \<mapsto> ?t)) = insert ?a (dom (ss_heap st))" by auto
  moreover have "ss_heap st b = Some u \<Longrightarrow> text_of u \<noteq> s" for b u using assms(3) [of b] by (auto simp: has_text_def)
  ultimately have wf: "strings_wf ?st"
    using assms(1) fresh t strings_wf_finite [OF assms(1)] unfolding strings_wf_def by (auto simp: less_Suc_eq split: if_splits)
  have has: "has_text ?st a u \<longleftrightarrow> (if a = ?a then u = s else has_text st a u)" for a u using t by (auto simp: has_text_def)
  obtain k where k: "?n * 2 = 2 ^ Suc k" using assms(1) by (auto simp: strings_wf_def)
  have new: "new_string s h st = bind_res (if int ?n < ss_used ?st then SQStringTable_Resize (?n * 2) ?st else Inr ?st) (\<lambda>st. Inr (?a, st))"
    by (simp add: new_string_def Let_def)
  show ?thesis
  proof (cases "int ?n < ss_used ?st")
    case True
    obtain st' where "SQStringTable_Resize (?n * 2) ?st = Inr st'" "strings_wf st'" "same_strings (ss_heap ?st) (ss_heap st')" "ss_fresh st' = ss_fresh ?st"
      using Resize_strings [OF wf k] by blast
    then show ?thesis using has has_text_same [of ?st st'] new True by auto
  next
    case False
    then show ?thesis using wf has new by auto
  qed
qed

text \<open>The search in the slot of its hash finds the object of a text, if there is one.\<close>

lemma search_text:
  assumes "strings_wf st" and "h = hashstr s (length s)"
    and "\<And>t. well_made t \<Longrightarrow> P t \<longleftrightarrow> text_of t = s"
  shows "\<exists>r. run_loop (walk str_next P (ss_heap st) (ss_slots st ! slot_of h (length (ss_slots st)))) = Inr r \<and>
    (case r of Some a \<Rightarrow> has_text st a s | None \<Rightarrow> \<forall>a. \<not> has_text st a s)"
proof -
  let ?i = "slot_of h (length (ss_slots st))"
  from assms(1) strings_wf_slot [OF assms(1)] obtain as where as: "chain str_next (ss_heap st) (ss_slots st ! ?i) as"
    "set as = {a \<in> dom (ss_heap st). slot_at (ss_heap st) (length (ss_slots st)) a = ?i}"
    unfolding strings_wf_def chained_def by metis
  have P: "P (the (ss_heap st a)) \<longleftrightarrow> has_text st a s" if "a \<in> set as" for a
    using that as(2) assms(1,3) unfolding strings_wf_def has_text_def by fastforce
  have in_as: "a \<in> set as" if "has_text st a s" for a
    using that as(2) assms(1,2) by (auto simp: has_text_def slot_at_def strings_wf_def well_made_def)
  show ?thesis
  proof (cases "find (\<lambda>a. P (the (ss_heap st a))) as")
    case None
    then have "\<not> has_text st a s" for a using in_as P by (auto simp: find_None_iff)
    then show ?thesis using walk_chain [OF as(1), of P] None by simp
  next
    case (Some a)
    then have "has_text st a s" using find_Some_set P by fastforce
    then show ?thesis using walk_chain [OF as(1), of P] Some by simp
  qed
qed

text \<open>So to add a text gives its only object, an old one or a new one.\<close>

definition adds_text :: "char list \<Rightarrow> (nat \<times> sq_strings) res \<Rightarrow> sq_strings \<Rightarrow> bool" where
  "adds_text s r st = (\<exists>a st'. r = Inr (a, st') \<and> strings_wf st' \<and> has_text st' a s \<and>
     (if \<exists>b. has_text st b s then st' = st else (\<forall>u. \<not> has_text st a u) \<and> (\<forall>b u. has_text st' b u \<longleftrightarrow> (if b = a then u = s else has_text st b u))))"

lemma intern_adds:
  assumes "strings_wf st" and "h = hashstr s (length s)" and "\<And>t. well_made t \<Longrightarrow> P t \<longleftrightarrow> text_of t = s"
  shows "adds_text s (bind_res (run_loop (walk str_next P (ss_heap st) (ss_slots st ! slot_of h (length (ss_slots st)))))
    (\<lambda>r. case r of Some a \<Rightarrow> Inr (a, st) | None \<Rightarrow> new_string s h st)) st"
proof -
  obtain r where r: "run_loop (walk str_next P (ss_heap st) (ss_slots st ! slot_of h (length (ss_slots st)))) = Inr r"
    "case r of Some a \<Rightarrow> has_text st a s | None \<Rightarrow> \<forall>a. \<not> has_text st a s"
    using search_text [OF assms] by blast
  show ?thesis
  proof (cases r)
    case None
    then have "\<not> has_text st a s" for a using r(2) by simp
    moreover have "\<not> has_text st (ss_fresh st) u" for u using assms(1) by (auto simp: has_text_def strings_wf_def)
    ultimately show ?thesis using new_string_added [OF assms(1,2)] r None by (fastforce simp: adds_text_def)
  next
    case (Some a)
    then show ?thesis using r assms(1) by (auto simp: adds_text_def)
  qed
qed

lemma Add_adds:
  assumes "strings_wf st" and "(if len < 0 then length (c_str news) else nat len) \<le> length news"
  shows "adds_text (if len < 0 then c_str news else take (nat len) news) (SQStringTable_Add news len st) st"
proof -
  define l where "l = (if len < 0 then length (c_str news) else nat len)"
  have s: "(if len < 0 then c_str news else take (nat len) news) = take l news"
    by (auto simp: l_def c_str_def simp flip: takeWhile_eq_take)
  have "l \<le> length news" using assms(2) by (simp add: l_def)
  then have h: "hashstr news l = hashstr (take l news) (length (take l news))" using hashstr_cong [of l news "take l news"] by simp
  have P: "str_len t = l \<and> take l (str_val t) = take l news \<longleftrightarrow> text_of t = take l news" if "well_made t" for t
  proof -
    have "str_val t = text_of t @ [NUL]" "str_len t = length (text_of t)" using that by (simp_all add: well_made_def)
    moreover have "length (take l news) = l" using \<open>l \<le> length news\<close> by simp
    ultimately show ?thesis by (metis append_eq_conv_conj length_take append_take_drop_id)
  qed
  have "SQStringTable_Add news len st =
      bind_res (run_loop (walk str_next (\<lambda>s. str_len s = l \<and> take l (str_val s) = take l news) (ss_heap st) (ss_slots st ! slot_of (hashstr news l) (length (ss_slots st)))))
        (\<lambda>r. case r of Some s \<Rightarrow> Inr (s, st) | None \<Rightarrow> new_string (take l news) (hashstr news l) st)"
    unfolding SQStringTable_Add_def Let_def l_def [symmetric] by (rule if_not_P) (use \<open>l \<le> length news\<close> in simp)
  then show ?thesis unfolding s by (simp only:) (rule intern_adds [OF assms(1) h P])
qed

lemma Concat_adds:
  assumes "strings_wf st" and "alen \<le> length a" and "blen \<le> length b"
  shows "adds_text (take alen a @ take blen b) (SQStringTable_Concat a alen b blen st) st"
proof -
  let ?s = "take alen a @ take blen b"
  have h: "hashstr2 a alen b blen = hashstr ?s (length ?s)"
    using hashstr2_append [OF assms(2,3)] assms(2,3) by simp
  have P: "str_len t = alen + blen \<and> take alen (str_val t) = take alen a \<and> take blen (drop alen (str_val t)) = take blen b \<longleftrightarrow> text_of t = ?s"
    if "well_made t" for t
  proof
    assume r: "str_len t = alen + blen \<and> take alen (str_val t) = take alen a \<and> take blen (drop alen (str_val t)) = take blen b"
    then show "text_of t = ?s" by (simp add: text_of_def take_add)
  next
    assume r: "text_of t = ?s"
    with that have "str_val t = take alen a @ take blen b @ [NUL]" "str_len t = alen + blen" using assms(2,3) by (auto simp: well_made_def)
    then show "str_len t = alen + blen \<and> take alen (str_val t) = take alen a \<and> take blen (drop alen (str_val t)) = take blen b"
      using assms(2,3) by simp
  qed
  have "SQStringTable_Concat a alen b blen st =
      bind_res (run_loop (walk str_next (\<lambda>s. str_len s = alen + blen \<and> take alen (str_val s) = take alen a \<and> take blen (drop alen (str_val s)) = take blen b)
          (ss_heap st) (ss_slots st ! slot_of (hashstr2 a alen b blen) (length (ss_slots st)))))
        (\<lambda>r. case r of Some s \<Rightarrow> Inr (s, st) | None \<Rightarrow> new_string ?s (hashstr2 a alen b blen) st)"
    unfolding SQStringTable_Concat_def Let_def by (rule if_not_P) (use assms(2,3) in simp)
  then show ?thesis by (simp only:) (rule intern_adds [OF assms(1) h P])
qed

lemma find_previous_chain:
  "chain str_next h p (us @ b # vs) \<Longrightarrow> b \<notin> set us \<Longrightarrow> run_loop (find_previous b h p prev) = Inr (if us = [] then prev else Some (last us))"
proof (induction us arbitrary: p prev)
  case Nil
  then show ?case by (subst find_previous.simps) auto
next
  case (Cons a us)
  then obtain n where "p = Some a" "h a = Some n" "chain str_next h (str_next n) (us @ b # vs)" by auto
  then show ?case using Cons.IH [of "str_next n" "Some a"] Cons.prems(2) by (subst find_previous.simps) auto
qed

lemma Remove_removes:
  assumes "strings_wf st" and "ss_heap st b = Some s"
  shows "\<exists>st'. SQStringTable_Remove b st = Inr st' \<and> strings_wf st' \<and> (\<forall>a u. has_text st' a u \<longleftrightarrow> a \<noteq> b \<and> has_text st a u)"
proof -
  let ?h = "ss_heap st" and ?ss = "ss_slots st"
  let ?n = "length ?ss" and ?i = "slot_of (str_hash s) (length (ss_slots st))"
  have ch: "chained ?h ?ss (dom ?h)" using assms(1) by (simp add: strings_wf_def)
  have i: "?i < ?n" using strings_wf_slot [OF assms(1)] .
  obtain as where as: "chain str_next ?h (?ss ! ?i) as" "set as = {a \<in> dom ?h. slot_at ?h ?n a = ?i}"
    using ch i unfolding chained_def by metis
  have "b \<in> set as" using as(2) assms(2) by (auto simp: slot_at_def)
  then obtain us vs where us: "as = us @ b # vs" by (auto simp: in_set_conv_decomp)
  have dist: "distinct as" using chain_distinct [OF as(1)] .
  have prev: "run_loop (find_previous b ?h (?ss ! ?i) None) = Inr (if us = [] then None else Some (last us))"
    by (rule find_previous_chain [where vs = vs]) (use as(1) us dist in auto)
  let ?st = "if us = [] then st\<lparr>ss_heap := ?h(b := None), ss_slots := ?ss[?i := str_next s], ss_used := ss_used st - 1\<rparr>
    else st\<lparr>ss_heap := ?h(last us := map_option (\<lambda>n. n\<lparr>str_next := str_next s\<rparr>) (?h (last us)), b := None), ss_used := ss_used st - 1\<rparr>"
  define st' where "st' = ?st"
  have run: "SQStringTable_Remove b st = Inr st'" using prev assms(2) by (simp add: SQStringTable_Remove_def Let_def st'_def)
  have same: "same_strings (?h(b := None)) (ss_heap st')"
    by (auto simp: st'_def same_strings_def bare_def [abs_def] option.map_comp comp_def)
  have "dom (?h(b := None)) = dom ?h - {b}" by auto
  then have dom: "dom (ss_heap st') = dom ?h - {b}" using same_strings_dom [OF same] by simp
  have at: "slot_at (ss_heap st') ?n a = slot_at ?h ?n a" if "a \<in> dom ?h - {b}" for a
    using slot_at_same [OF same, of a ?n] that by (auto simp: slot_at_def)
  have len: "length (ss_slots st') = ?n" "ss_fresh st' = ss_fresh st" "ss_used st' = ss_used st - 1" by (simp_all add: st'_def)
  have "chained (ss_heap st') (ss_slots st') (dom (ss_heap st'))"
    unfolding chained_def len
  proof (intro conjI allI impI)
    fix j assume j: "j < ?n"
    have M: "{a \<in> dom (ss_heap st'). slot_at (ss_heap st') ?n a = j} = {a \<in> dom ?h. slot_at ?h ?n a = j} - {b}"
      (is "?A = ?B")
    proof (rule set_eqI)
      show "a \<in> ?A \<longleftrightarrow> a \<in> ?B" for a unfolding dom using at [of a] by (cases "a \<in> dom ?h - {b}") (simp_all, blast)
    qed
    show "\<exists>as. chain str_next (ss_heap st') (ss_slots st' ! j) as \<and> set as = {a \<in> dom (ss_heap st'). slot_at (ss_heap st') ?n a = j}"
    proof (cases "j = ?i")
      case True
      have "chain str_next (ss_heap st') (ss_slots st' ! j) (us @ vs)"
      proof (cases "us = []")
        case u: True
        then show ?thesis using as(1) us dist True i assms(2) by (simp add: st'_def)
      next
        case False
        then have "last us \<in> set as" using us by simp
        then obtain m where "?h (last us) = Some m" using as(2) by auto
        then show ?thesis using chain_unlink [of str_next ?h "?ss ! ?i" us b vs s m "m\<lparr>str_next := str_next s\<rparr>" None] as(1) us False assms(2) True by (simp add: st'_def)
      qed
      moreover have "set (us @ vs) = set as - {b}" using us dist by auto
      ultimately show ?thesis unfolding M using True as(2) by (intro exI [of _ "us @ vs"]) simp
    next
      case False
      obtain bs where bs: "chain str_next ?h (?ss ! j) bs" "set bs = {a \<in> dom ?h. slot_at ?h ?n a = j}"
        using ch j unfolding chained_def by metis
      have "b \<notin> set bs" using bs(2) False assms(2) by (auto simp: slot_at_def)
      moreover have "us \<noteq> [] \<Longrightarrow> last us \<notin> set bs" using bs(2) as(2) us False by fastforce
      ultimately have "chain str_next (ss_heap st') (ss_slots st' ! j) bs" using bs(1) False by (simp add: st'_def)
      moreover have "set bs = {a \<in> dom (ss_heap st'). slot_at (ss_heap st') ?n a = j}" unfolding M using bs(2) \<open>b \<notin> set bs\<close> by blast
      ultimately show ?thesis by blast
    qed
  qed simp
  moreover have old: "\<exists>t'. ?h a = Some t' \<and> a \<noteq> b \<and> text_of t' = text_of t \<and> well_made t' = well_made t" if "ss_heap st' a = Some t" for a t
    using same_strings_Some [OF same that] by (auto split: if_splits)
  moreover have "card (dom ?h) = Suc (card (dom ?h - {b}))"
    using card.remove [OF strings_wf_finite [OF assms(1)], of b] assms(2) by blast
  ultimately have "strings_wf st'" using assms(1) unfolding strings_wf_def len dom by simp metis
  moreover have "has_text st' a u \<longleftrightarrow> a \<noteq> b \<and> has_text st a u" for a u
    using has_text_same [of "st\<lparr>ss_heap := ?h(b := None)\<rparr>" st' a u] same by (auto simp: has_text_def)
  ultimately show ?thesis using run by blast
qed

section \<open>Every run\<close>

text \<open>What the language does to the table: strings are made from characters the caller has, joined, and released. Before, the start gives an empty
  table.\<close>

inductive strings_step :: "sq_strings \<Rightarrow> sq_strings \<Rightarrow> bool" where
  step_Add: "SQStringTable_Add news len st = Inr (a, st') \<Longrightarrow> strings_step st st'"
| step_Concat: "SQStringTable_Concat s alen t blen st = Inr (a, st') \<Longrightarrow> strings_step st st'"
| step_Remove: "SQStringTable_Remove a st = Inr st' \<Longrightarrow> strings_step st st'"

lemma strings_wf_new: "strings_wf SQStringTable_new"
  by (auto simp: strings_wf_def SQStringTable_new_def SQStringTable_AllocNodes_def chained_def intro!: exI [of _ 2])

lemma strings_step_wf:
  assumes "strings_wf st" and "strings_step st st'"
  shows "strings_wf st'"
  using assms(2,1)
proof induction
  case (step_Add news len st a st')
  then have "(if len < 0 then length (c_str news) else nat len) \<le> length news"
    by (auto simp: SQStringTable_Add_def Let_def split: if_splits)
  from Add_adds [OF step_Add(2) this] step_Add(1) show ?case by (auto simp: adds_text_def)
next
  case (step_Concat s alen t blen st a st')
  then have "alen \<le> length s" "blen \<le> length t" by (auto simp: SQStringTable_Concat_def split: if_splits)
  from Concat_adds [OF step_Concat(2) this] step_Concat(1) show ?case by (auto simp: adds_text_def)
next
  case (step_Remove a st st')
  then obtain s where "ss_heap st a = Some s" by (auto simp: SQStringTable_Remove_def split: option.splits)
  from Remove_removes [OF step_Remove(2) this] step_Remove(1) show ?case by auto
qed

interpretation strs: kept_invariant "\<lambda>st. st = SQStringTable_new" strings_step strings_wf
  by unfold_locales (auto intro: strings_wf_new strings_step_wf)

section \<open>Properties\<close>

text \<open>
  C8. In every run of the string table, whatever is made, joined and released: two live strings are the same object exactly when they have the
  same characters, so the machine may compare strings by address; making a string from characters the caller has never faults and gives the
  object of those characters, a live one where there is one; and releasing a live string takes away that string and no other.
\<close>

theorem strings_interned_in_every_run:
  assumes "strings_step\<^sup>*\<^sup>* SQStringTable_new st" and "has_text st a s" and "has_text st b t" and "len \<le> int (length news)"
  shows "(a = b \<longleftrightarrow> s = t) \<and>
    (\<exists>c st'. SQStringTable_Add news len st = Inr (c, st') \<and> has_text st' c (if len < 0 then c_str news else take (nat len) news) \<and>
      {(d, u). has_text st d u} \<subseteq> {(d, u). has_text st' d u} \<and> {(d, u). has_text st' d u \<and> d \<noteq> c} \<subseteq> {(d, u). has_text st d u}) \<and>
    (\<exists>st'. SQStringTable_Remove a st = Inr st' \<and> {(d, u). has_text st' d u} = {(d, u). has_text st d u \<and> d \<noteq> a})"
proof (intro conjI)
  have wf: "strings_wf st" using strs.inv_reachable [OF refl assms(1)] .
  then show "a = b \<longleftrightarrow> s = t" using assms(2,3) unfolding strings_wf_def has_text_def by (metis option.inject)
  have "length (c_str news) \<le> length news" by (simp add: c_str_def length_takeWhile_le)
  then have "(if len < 0 then length (c_str news) else nat len) \<le> length news" using assms(4) by auto
  from Add_adds [OF wf this] obtain c st' where add: "SQStringTable_Add news len st = Inr (c, st')" "strings_wf st'"
    "has_text st' c (if len < 0 then c_str news else take (nat len) news)"
    "if \<exists>b. has_text st b (if len < 0 then c_str news else take (nat len) news) then st' = st
     else (\<forall>u. \<not> has_text st c u) \<and>
       (\<forall>b u. has_text st' b u \<longleftrightarrow> (if b = c then u = (if len < 0 then c_str news else take (nat len) news) else has_text st b u))"
    unfolding adds_text_def by blast
  then show "\<exists>c st'. SQStringTable_Add news len st = Inr (c, st') \<and> has_text st' c (if len < 0 then c_str news else take (nat len) news) \<and>
      {(d, u). has_text st d u} \<subseteq> {(d, u). has_text st' d u} \<and> {(d, u). has_text st' d u \<and> d \<noteq> c} \<subseteq> {(d, u). has_text st d u}"
    by (intro exI [of _ c] exI [of _ st']) (auto split: if_splits)
  show "\<exists>st'. SQStringTable_Remove a st = Inr st' \<and> {(d, u). has_text st' d u} = {(d, u). has_text st d u \<and> d \<noteq> a}"
    using assms(2) Remove_removes [OF wf] by (fastforce simp: has_text_def)
qed

text \<open>The text of an identifier and the longer one that joining it makes.\<close>

theorem strings_interned_in_every_run_witness:
  "\<exists>st a b. strings_step\<^sup>*\<^sup>* SQStringTable_new st \<and> has_text st a ''on'' \<and> has_text st b ''onTick'' \<and> a \<noteq> b \<and>
    (\<exists>st'. SQStringTable_Remove a st = Inr st' \<and> {(d, u). has_text st' d u} = {(d, u). has_text st d u \<and> d \<noteq> a})"
proof -
  obtain a st1 where s1: "SQStringTable_Add ''on'' (- 1) SQStringTable_new = Inr (a, st1)" "has_text st1 a ''on''" "strings_wf st1"
    using Add_adds [OF strings_wf_new, of "- 1" "''on''"] by (auto simp: adds_text_def c_str_def NUL_def)
  obtain b st2 where s2: "SQStringTable_Concat ''on'' 2 ''Tick'' 4 st1 = Inr (b, st2)" "has_text st2 b ''onTick''"
    "if \<exists>b. has_text st1 b ''onTick'' then st2 = st1 else (\<forall>u. \<not> has_text st1 b u) \<and> (\<forall>c u. has_text st2 c u \<longleftrightarrow> (if c = b then u = ''onTick'' else has_text st1 c u))"
    using Concat_adds [OF s1(3), of 2 "''on''" 4 "''Tick''"] by (auto simp: adds_text_def)
  have run: "strings_step\<^sup>*\<^sup>* SQStringTable_new st2"
    using step_Add [OF s1(1)] step_Concat [OF s2(1)] by (meson r_into_rtranclp rtranclp.rtrancl_into_rtrancl)
  have "has_text st2 a ''on''" using s1(2) s2(3) by (auto split: if_splits)
  then show ?thesis
    using strings_interned_in_every_run [OF run _ s2(2), of a "''on''" "- 1" "''on''"] run s2(2) by auto
qed

end
