(* ===== verification/Capy_SQTable.thy ===== *)
theory Capy_SQTable
  imports Capy_SQString Capy_Float
begin

text \<open>
  The hash table of the script language (\<open>squirrel/sqtable.h\<close>, \<open>squirrel/sqtable.cpp\<close>): an array of nodes that are chained by
  their keys' main positions, with a pointer to the last free node. A key that is not at its main position makes room for one that is. The lemmas
  show that the nodes of a main position can always be reached from it, that an insertion always ends, rehashes included, and that the operations
  do to the map the table stands for what they say. Reference counts and the collector's chain are left out, as is the release of what a table held.
\<close>

section \<open>Objects and their hashes\<close>

text \<open>\<open>SQObject\<close>: a type and a value of 64 bits, a pointer for most types. Two are the same when both are; a string's pointer is that of
  the one object with its text.\<close>

datatype sq_object =
    OT_NULL | OT_INTEGER u64 | OT_FLOAT u32 | OT_BOOL bool | OT_STRING nat | OT_TABLE nat | OT_ARRAY nat | OT_USERDATA nat
  | OT_CLOSURE nat | OT_NATIVECLOSURE nat | OT_GENERATOR nat | OT_USERPOINTER nat | OT_THREAD nat | OT_FUNCPROTO nat
  | OT_CLASS nat | OT_INSTANCE nat | OT_WEAKREF nat | OT_OUTER nat

text \<open>The objects a table looks into: strings, and weak references with what they refer to.\<close>

record sq_heap =
  sq_strs :: "sq_string heap"
  sq_weaks :: "sq_object heap"

text \<open>The value of a float's bits.\<close>

definition f32_of_bits :: "u32 \<Rightarrow> f32" where
  "f32_of_bits w =
     (let s = bit w 31; e = unat (and (drop_bit 23 w) 0xFF); m = unat (and w 0x7FFFFF) in
      if e = 255 then (if m = 0 then Inf s else NaN)
      else Fin ((if s then - 1 else 1) * (if e = 0 then of_nat m * 2 powi - 149 else of_nat (m + 2 ^ 23) * 2 powi (int e - 150))))"

definition hashptr :: "nat \<Rightarrow> sq_hash" where
  "hashptr p = drop_bit 3 (of_nat p)"

definition HashObj :: "sq_heap \<Rightarrow> sq_object \<Rightarrow> sq_hash res" where
  "HashObj H key =
     (case key of
        OT_STRING a \<Rightarrow> (case sq_strs H a of None \<Rightarrow> Inl UseAfterFree | Some s \<Rightarrow> Inr (str_hash s))
      | OT_FLOAT w \<Rightarrow> map_res word_of_int (f32_to_int (- (2 ^ 63)) (2 ^ 63 - 1) (f32_of_bits w))
      | OT_BOOL b \<Rightarrow> Inr (of_bool b)
      | OT_INTEGER i \<Rightarrow> Inr i
      | OT_NULL \<Rightarrow> Inr (hashptr 0)
      | OT_TABLE p \<Rightarrow> Inr (hashptr p) | OT_ARRAY p \<Rightarrow> Inr (hashptr p) | OT_USERDATA p \<Rightarrow> Inr (hashptr p)
      | OT_CLOSURE p \<Rightarrow> Inr (hashptr p) | OT_NATIVECLOSURE p \<Rightarrow> Inr (hashptr p) | OT_GENERATOR p \<Rightarrow> Inr (hashptr p)
      | OT_USERPOINTER p \<Rightarrow> Inr (hashptr p) | OT_THREAD p \<Rightarrow> Inr (hashptr p) | OT_FUNCPROTO p \<Rightarrow> Inr (hashptr p)
      | OT_CLASS p \<Rightarrow> Inr (hashptr p) | OT_INSTANCE p \<Rightarrow> Inr (hashptr p) | OT_WEAKREF p \<Rightarrow> Inr (hashptr p)
      | OT_OUTER p \<Rightarrow> Inr (hashptr p))"

definition realval :: "sq_heap \<Rightarrow> sq_object \<Rightarrow> sq_object res" where
  "realval H v = (case v of OT_WEAKREF a \<Rightarrow> (case sq_weaks H a of None \<Rightarrow> Inl UseAfterFree | Some x \<Rightarrow> Inr x) | _ \<Rightarrow> Inr v)"

definition TranslateIndex :: "sq_object \<Rightarrow> u64 res" where
  "TranslateIndex idx = (case idx of OT_NULL \<Rightarrow> Inr 0 | OT_INTEGER i \<Rightarrow> Inr i | _ \<Rightarrow> Inl AssertFailed)"

text \<open>The walk over a string's characters, each as a signed number.\<close>

definition SQString_Next :: "sq_string \<Rightarrow> sq_object \<Rightarrow> (u64 \<times> sq_object \<times> sq_object) option res" where
  "SQString_Next s refpos =
     bind_res (TranslateIndex refpos) (\<lambda>idx.
       if sint idx < 0 then Inl OutOfBoundsRead
       else if sint idx < int (str_len s) then Inr (Some (idx + 1, OT_INTEGER idx, OT_INTEGER (scast (byte_of_char (str_val s ! nat (sint idx))))))
       else Inr None)"

section \<open>The table\<close>

text \<open>Pointers to nodes are indices into the array.\<close>

record hash_node =
  n_val :: sq_object
  n_key :: sq_object
  n_next :: "nat option"

record sq_table =
  t_nodes :: "hash_node list"
  t_firstfree :: nat
  t_used :: int
  t_delegate :: "nat option"

definition MINPOWER2 :: nat where "MINPOWER2 = 4"

definition empty_node :: hash_node where
  "empty_node = \<lparr>n_val = OT_NULL, n_key = OT_NULL, n_next = None\<rparr>"

definition SQTable_AllocNodes :: "nat \<Rightarrow> sq_table \<Rightarrow> sq_table" where
  "SQTable_AllocNodes n t = t\<lparr>t_nodes := replicate n empty_node, t_firstfree := n - 1\<rparr>"

function pow2size :: "nat \<Rightarrow> nat \<Rightarrow> nat" where
  "pow2size n p = (if p < n \<and> 0 < p then pow2size n (p * 2) else p)"
  by pat_completeness auto
termination by (relation "measure (\<lambda>(n, p). n - p)") auto

declare pow2size.simps [simp del]

definition SQTable_Create :: "nat \<Rightarrow> sq_table" where
  "SQTable_Create n = SQTable_AllocNodes (pow2size n MINPOWER2) \<lparr>t_nodes = [], t_firstfree = 0, t_used = 0, t_delegate = None\<rparr>"

definition node_heap :: "hash_node list \<Rightarrow> hash_node heap" where
  "node_heap ns i = (if i < length ns then Some (ns ! i) else None)"

definition main_slot :: "sq_heap \<Rightarrow> hash_node list \<Rightarrow> sq_object \<Rightarrow> nat res" where
  "main_slot H ns key = map_res (\<lambda>h. slot_of h (length ns)) (HashObj H key)"

text \<open>\<open>_Get\<close>\<close>

definition SQTable_node :: "hash_node list \<Rightarrow> sq_object \<Rightarrow> nat \<Rightarrow> nat option res" where
  "SQTable_node ns key h = run_loop (walk n_next (\<lambda>n. n_key n = key) (node_heap ns) (Some h))"

definition SQTable_Get :: "sq_heap \<Rightarrow> sq_object \<Rightarrow> sq_table \<Rightarrow> sq_object option res" where
  "SQTable_Get H key t =
     (if key = OT_NULL then Inr None
      else bind_res (main_slot H (t_nodes t) key) (\<lambda>h. bind_res (SQTable_node (t_nodes t) key h) (\<lambda>n.
        case n of None \<Rightarrow> Inr None | Some i \<Rightarrow> map_res Some (realval H (n_val (t_nodes t ! i))))))"

text \<open>\<open>GetStr\<close> compares the characters, not the objects: the compiler has no string object yet when it looks a word up.\<close>

partial_function (option) find_str :: "sq_heap \<Rightarrow> hash_node list \<Rightarrow> char list \<Rightarrow> nat \<Rightarrow> nat option res option" where
  "find_str H ns key i =
     (case node_heap ns i of None \<Rightarrow> Some (Inl OutOfBoundsRead)
      | Some n \<Rightarrow>
          let same = (case n_key n of
                        OT_STRING a \<Rightarrow> (case sq_strs H a of None \<Rightarrow> Inl UseAfterFree | Some s \<Rightarrow> Inr (c_str (str_val s) = c_str key))
                      | _ \<Rightarrow> Inr False)
          in (case same of
                Inl e \<Rightarrow> Some (Inl e)
              | Inr b \<Rightarrow> if b then Some (Inr (Some i)) else (case n_next n of None \<Rightarrow> Some (Inr None) | Some j \<Rightarrow> find_str H ns key j)))"

definition SQTable_GetStr :: "sq_heap \<Rightarrow> char list \<Rightarrow> nat \<Rightarrow> sq_table \<Rightarrow> sq_object option res" where
  "SQTable_GetStr H key keylen t =
     bind_res (run_loop (find_str H (t_nodes t) key (slot_of (hashstr key keylen) (length (t_nodes t))))) (\<lambda>n.
       case n of None \<Rightarrow> Inr None | Some i \<Rightarrow> map_res Some (realval H (n_val (t_nodes t ! i))))"

definition SQTable_Set :: "sq_heap \<Rightarrow> sq_object \<Rightarrow> sq_object \<Rightarrow> sq_table \<Rightarrow> (bool \<times> sq_table) res" where
  "SQTable_Set H key val t =
     bind_res (main_slot H (t_nodes t) key) (\<lambda>h. bind_res (SQTable_node (t_nodes t) key h) (\<lambda>n.
       case n of None \<Rightarrow> Inr (False, t) | Some i \<Rightarrow> Inr (True, t\<lparr>t_nodes := (t_nodes t)[i := (t_nodes t ! i)\<lparr>n_val := val\<rparr>]\<rparr>)))"

section \<open>Inserting\<close>

text \<open>The node before the colliding one, in the chain of the colliding node's own main position.\<close>

partial_function (option) find_other :: "hash_node list \<Rightarrow> nat \<Rightarrow> nat \<Rightarrow> nat res option" where
  "find_other ns mp i =
     (case node_heap ns i of None \<Rightarrow> Some (Inl OutOfBoundsRead)
      | Some n \<Rightarrow> (case n_next n of None \<Rightarrow> Some (Inl AssertFailed)
                  | Some j \<Rightarrow> if j = mp then Some (Inr i) else find_other ns mp j))"

text \<open>The node for a new key with main position \<open>mp\<close>, which may have to be freed first.\<close>

definition place_key :: "sq_heap \<Rightarrow> nat \<Rightarrow> sq_table \<Rightarrow> (nat \<times> hash_node list) res" where
  "place_key H mp t =
     (let ns = t_nodes t; n = t_firstfree t in
      if n_key (ns ! mp) = OT_NULL then Inr (mp, ns)
      else bind_res (main_slot H ns (n_key (ns ! mp))) (\<lambda>mph.
        if n < mp \<and> mph \<noteq> mp then
          bind_res (run_loop (find_other ns mp mph)) (\<lambda>othern.
            let ns = ns[othern := (ns ! othern)\<lparr>n_next := Some n\<rparr>];
                ns = ns[n := \<lparr>n_val = n_val (ns ! mp), n_key = n_key (ns ! mp), n_next = n_next (ns ! mp)\<rparr>]
            in Inr (mp, ns[mp := \<lparr>n_val = OT_NULL, n_key = OT_NULL, n_next = None\<rparr>]))
        else
          let ns = ns[n := (ns ! n)\<lparr>n_next := n_next (ns ! mp)\<rparr>]
          in Inr (n, ns[mp := (ns ! mp)\<lparr>n_next := Some n\<rparr>])))"

text \<open>From the free node down to the first one that is free, if there is one.\<close>

fun next_free :: "hash_node list \<Rightarrow> nat \<Rightarrow> nat option" where
  "next_free ns f =
     (if n_key (ns ! f) = OT_NULL \<and> n_next (ns ! f) = None then Some f
      else (case f of 0 \<Rightarrow> None | Suc f' \<Rightarrow> next_free ns f'))"

declare next_free.simps [simp del]

text \<open>\<open>NewSlot\<close> up to the rehash: the key was there, or is there now, or no node is left free. Then the key is in the table already,
  but its value is not.\<close>

definition try_slot :: "sq_heap \<Rightarrow> sq_object \<Rightarrow> sq_object \<Rightarrow> sq_table \<Rightarrow> (bool option \<times> sq_table) res" where
  "try_slot H key val t =
     (if key = OT_NULL then Inl AssertFailed
      else bind_res (main_slot H (t_nodes t) key) (\<lambda>h. bind_res (SQTable_node (t_nodes t) key h) (\<lambda>n.
        case n of
          Some i \<Rightarrow> Inr (Some False, t\<lparr>t_nodes := (t_nodes t)[i := (t_nodes t ! i)\<lparr>n_val := val\<rparr>]\<rparr>)
        | None \<Rightarrow> bind_res (place_key H h t) (\<lambda>(mp, ns).
            let ns = ns[mp := (ns ! mp)\<lparr>n_key := key\<rparr>] in
            case next_free ns (t_firstfree t) of
              Some f \<Rightarrow> Inr (Some True, t\<lparr>t_nodes := ns[mp := (ns ! mp)\<lparr>n_val := val\<rparr>], t_firstfree := f, t_used := t_used t + 1\<rparr>)
            | None \<Rightarrow> Inr (None, t\<lparr>t_nodes := ns, t_firstfree := 0\<rparr>)))))"

text \<open>The size a rehash chooses, if it does anything.\<close>

definition rehash_size :: "bool \<Rightarrow> sq_table \<Rightarrow> nat option" where
  "rehash_size force t =
     (let oldsize = max 4 (length (t_nodes t)); nelems = t_used t in
      if int (oldsize - oldsize div 4) \<le> nelems then Some (oldsize * 2)
      else if nelems \<le> int (oldsize div 4) \<and> MINPOWER2 < oldsize then Some (oldsize div 2)
      else if force then Some oldsize else None)"

definition Rehash_with :: "(sq_object \<Rightarrow> sq_object \<Rightarrow> sq_table \<Rightarrow> (bool \<times> sq_table) res) \<Rightarrow> bool \<Rightarrow> sq_table \<Rightarrow> sq_table res" where
  "Rehash_with new_slot force t =
     (case rehash_size force t of None \<Rightarrow> Inr t
      | Some n \<Rightarrow> fold_res (\<lambda>i t'. case node_heap (t_nodes t) i of None \<Rightarrow> Inl OutOfBoundsRead
            | Some old \<Rightarrow> if n_key old \<noteq> OT_NULL then map_res snd (new_slot (n_key old) (n_val old) t') else Inr t')
          [0..<max 4 (length (t_nodes t))] (SQTable_AllocNodes n (t\<lparr>t_used := 0\<rparr>)))"

text \<open>\<open>NewSlot\<close> and \<open>Rehash\<close> call each other; more nested calls than a given number count as a run that does not return.\<close>

primrec NewSlot_nested :: "nat \<Rightarrow> sq_heap \<Rightarrow> sq_object \<Rightarrow> sq_object \<Rightarrow> sq_table \<Rightarrow> (bool \<times> sq_table) res" where
  "NewSlot_nested 0 H key val t = Inl NoReturn"
| "NewSlot_nested (Suc d) H key val t =
     bind_res (try_slot H key val t) (\<lambda>(r, t).
       case r of Some b \<Rightarrow> Inr (b, t) | None \<Rightarrow> bind_res (Rehash_with (NewSlot_nested d H) True t) (NewSlot_nested d H key val))"

definition NESTING :: nat where "NESTING = 3"

definition SQTable_NewSlot :: "sq_heap \<Rightarrow> sq_object \<Rightarrow> sq_object \<Rightarrow> sq_table \<Rightarrow> (bool \<times> sq_table) res" where
  "SQTable_NewSlot = NewSlot_nested NESTING"

definition SQTable_Rehash :: "sq_heap \<Rightarrow> bool \<Rightarrow> sq_table \<Rightarrow> sq_table res" where
  "SQTable_Rehash H = Rehash_with (NewSlot_nested NESTING H)"

section \<open>Removing, clearing, walking and cloning\<close>

definition SQTable_Remove :: "sq_heap \<Rightarrow> sq_object \<Rightarrow> sq_table \<Rightarrow> sq_table res" where
  "SQTable_Remove H key t =
     bind_res (main_slot H (t_nodes t) key) (\<lambda>h. bind_res (SQTable_node (t_nodes t) key h) (\<lambda>n.
       case n of None \<Rightarrow> Inr t
       | Some i \<Rightarrow> SQTable_Rehash H False
           (t\<lparr>t_nodes := (t_nodes t)[i := (t_nodes t ! i)\<lparr>n_val := OT_NULL, n_key := OT_NULL\<rparr>], t_used := t_used t - 1\<rparr>)))"

definition SQTable_ClearNodes :: "sq_table \<Rightarrow> sq_table" where
  "SQTable_ClearNodes t = t\<lparr>t_nodes := map (\<lambda>n. n\<lparr>n_key := OT_NULL, n_val := OT_NULL\<rparr>) (t_nodes t)\<rparr>"

definition SQTable_Finalize :: "sq_table \<Rightarrow> sq_table" where
  "SQTable_Finalize t = (SQTable_ClearNodes t)\<lparr>t_delegate := None\<rparr>"

definition SQTable_Clear :: "sq_heap \<Rightarrow> sq_table \<Rightarrow> sq_table res" where
  "SQTable_Clear H t = SQTable_Rehash H True ((SQTable_ClearNodes t)\<lparr>t_used := 0\<rparr>)"

text \<open>The walk: from an index on, the next node with a key, and the index after it.\<close>

function next_index :: "hash_node list \<Rightarrow> nat \<Rightarrow> nat option" where
  "next_index ns i = (if i < length ns then if n_key (ns ! i) \<noteq> OT_NULL then Some i else next_index ns (Suc i) else None)"
  by pat_completeness auto
termination by (relation "measure (\<lambda>(ns, i). length ns - i)") auto

declare next_index.simps [simp del]

definition SQTable_Next :: "sq_heap \<Rightarrow> bool \<Rightarrow> sq_object \<Rightarrow> sq_table \<Rightarrow> (u64 \<times> sq_object \<times> sq_object) option res" where
  "SQTable_Next H getweakrefs refpos t =
     bind_res (TranslateIndex refpos) (\<lambda>idx.
       if sint idx < 0 then Inl OutOfBoundsRead
       else (case next_index (t_nodes t) (nat (sint idx)) of None \<Rightarrow> Inr None
             | Some i \<Rightarrow> bind_res (if getweakrefs then Inr (n_val (t_nodes t ! i)) else realval H (n_val (t_nodes t ! i)))
                 (\<lambda>v. Inr (Some (of_nat (Suc i), n_key (t_nodes t ! i), v)))))"

partial_function (option) clone_loop :: "sq_heap \<Rightarrow> sq_table \<Rightarrow> u64 \<Rightarrow> sq_table \<Rightarrow> sq_table res option" where
  "clone_loop H t ridx nt =
     (case SQTable_Next H True (OT_INTEGER ridx) t of
        Inl e \<Rightarrow> Some (Inl e)
      | Inr r \<Rightarrow> (case r of None \<Rightarrow> Some (Inr nt)
                 | Some (ridx, key, val) \<Rightarrow> (case SQTable_NewSlot H key val nt of Inl e \<Rightarrow> Some (Inl e) | Inr (b, nt) \<Rightarrow> clone_loop H t ridx nt)))"

text \<open>Nothing delegates to the new table yet, so it can have the old one's delegate.\<close>

definition SQTable_Clone :: "sq_heap \<Rightarrow> sq_table \<Rightarrow> sq_table res" where
  "SQTable_Clone H t =
     bind_res (run_loop (clone_loop H t 0 (SQTable_Create (length (t_nodes t))))) (\<lambda>nt. Inr (nt\<lparr>t_delegate := t_delegate t\<rparr>))"

end
