(* ===== verification/Capy_SQLinks.thy ===== *)
theory Capy_SQLinks
  imports Capy_SQTable
begin

text \<open>
  The links between a hash table's nodes, as a function from an index to the next one, and the two ways an insertion changes them: a free node
  is put after the main position, or takes the place of a colliding node. The lemmas show that links that end still do, and that what could be
  reached from a main position still can.
\<close>

section \<open>Paths\<close>

fun path :: "(nat \<Rightarrow> nat option) \<Rightarrow> nat option \<Rightarrow> nat list \<Rightarrow> bool" where
  "path nx p [] = (p = None)"
| "path nx p (a # as) = (p = Some a \<and> path nx (nx a) as)"

definition reaches :: "(nat \<Rightarrow> nat option) \<Rightarrow> nat \<Rightarrow> nat \<Rightarrow> bool" where
  "reaches nx i j = (\<exists>as. path nx (Some i) as \<and> j \<in> set as)"

lemma path_chain: "path nx p as = chain nx Some p as"
  by (induction as arbitrary: p) auto

lemma path_distinct: "path nx p as \<Longrightarrow> distinct as"
  by (auto simp: path_chain intro: chain_distinct)

lemma path_unique: "path nx p as \<Longrightarrow> path nx p bs \<Longrightarrow> as = bs"
  by (auto simp: path_chain intro: chain_unique)

lemma path_None [simp]: "path nx None as \<longleftrightarrow> as = []"
  by (cases as) auto

lemma path_Some: "path nx (Some a) as \<longleftrightarrow> (\<exists>bs. as = a # bs \<and> path nx (nx a) bs)"
  by (cases as) auto

lemma path_cong: "(\<And>a. a \<in> set as \<Longrightarrow> nx a = nx' a) \<Longrightarrow> path nx p as = path nx' p as"
  by (induction as arbitrary: p) auto

lemma path_successor: "path nx p as \<Longrightarrow> a \<in> set as \<Longrightarrow> nx a = Some b \<Longrightarrow> b \<in> set as"
proof (induction as arbitrary: p)
  case (Cons c as)
  then show ?case by (cases as) auto
qed simp

text \<open>Everything on a path but its start is the next of something on it.\<close>

lemma path_predecessor: "path nx (Some i) as \<Longrightarrow> j \<in> set as \<Longrightarrow> j \<noteq> i \<Longrightarrow> \<exists>a \<in> set as. nx a = Some j"
proof (induction as arbitrary: i)
  case (Cons a as)
  then have a: "a = i" "path nx (nx i) as" "j \<in> set as" by auto
  then obtain b bs where b: "as = b # bs" "nx i = Some b" by (cases as) auto
  show ?case
  proof (cases "j = b")
    case False
    then show ?thesis using Cons.IH [of b] a b by auto
  qed (use b a in auto)
qed simp

section \<open>Well-formed links\<close>

text \<open>Among \<open>n\<close> nodes: every path ends, leads only above the free pointer after its start, and no node is the next of two.\<close>

definition links :: "(nat \<Rightarrow> nat option) \<Rightarrow> nat \<Rightarrow> nat \<Rightarrow> bool" where
  "links nx n ff =
     ((\<forall>i<n. \<exists>as. path nx (Some i) as \<and> set as \<subseteq> {..<n}) \<and> (\<forall>i<n. \<forall>j. nx i = Some j \<longrightarrow> ff < j) \<and>
      (\<forall>i<n. \<forall>j<n. nx i = nx j \<and> nx i \<noteq> None \<longrightarrow> i = j))"

lemma links_path: "links nx n ff \<Longrightarrow> i < n \<Longrightarrow> \<exists>as. path nx (Some i) as \<and> set as \<subseteq> {..<n}"
  by (simp add: links_def)

lemma links_next:
  assumes "links nx n ff" and "i < n" and "nx i = Some j"
  shows "ff < j \<and> j < n"
proof -
  obtain as where as: "path nx (Some i) as" "set as \<subseteq> {..<n}" using links_path [OF assms(1,2)] by blast
  then have "i \<in> set as" by (cases as) simp_all
  then have "j \<in> set as" by (rule path_successor [OF as(1) _ assms(3)])
  moreover have "ff < j" using assms by (simp add: links_def)
  ultimately show ?thesis using as(2) by auto
qed

lemma links_inj: "links nx n ff \<Longrightarrow> nx a = Some y \<Longrightarrow> nx c = Some y \<Longrightarrow> a < n \<Longrightarrow> c < n \<Longrightarrow> a = c"
  unfolding links_def by (metis option.distinct(1))

lemma links_no_loop: "links nx n ff \<Longrightarrow> a < n \<Longrightarrow> nx a \<noteq> Some a"
proof
  assume l: "links nx n ff" "a < n" "nx a = Some a"
  then obtain as where as: "path nx (Some a) as" using links_path by blast
  then obtain bs where bs: "as = a # bs" "path nx (nx a) bs" unfolding path_Some by blast
  have "path nx (Some a) bs" using bs(2) unfolding l(3) .
  from path_unique [OF as this] show False using bs(1) by simp
qed

lemma links_mono: "links nx n ff \<Longrightarrow> f \<le> ff \<Longrightarrow> links nx n f"
  by (fastforce simp: links_def)

lemma reaches_less: "links nx n ff \<Longrightarrow> i < n \<Longrightarrow> reaches nx i j \<Longrightarrow> j < n"
  using links_path path_unique by (fastforce simp: reaches_def)

lemma reaches_refl: "links nx n ff \<Longrightarrow> i < n \<Longrightarrow> reaches nx i i"
  using links_path by (fastforce simp: reaches_def path_Some)

text \<open>The free node is on no path but its own.\<close>

lemma links_free: "links nx n ff \<Longrightarrow> i < n \<Longrightarrow> i \<noteq> ff \<Longrightarrow> path nx (Some i) as \<Longrightarrow> ff \<notin> set as"
proof
  assume l: "links nx n ff" "i < n" "i \<noteq> ff" "path nx (Some i) as" "ff \<in> set as"
  then obtain a where "a \<in> set as" "nx a = Some ff" using path_predecessor by metis
  moreover have "a < n" using links_path [OF l(1,2)] path_unique [OF l(4)] \<open>a \<in> set as\<close> by auto
  ultimately show False using links_next [OF l(1)] by fastforce
qed

lemma reaches_free: "nx ff = None \<Longrightarrow> reaches nx ff j \<Longrightarrow> j = ff"
  by (auto simp: reaches_def path_Some)

subsection \<open>A free node after another node\<close>

definition link_after :: "nat \<Rightarrow> nat \<Rightarrow> (nat \<Rightarrow> nat option) \<Rightarrow> nat \<Rightarrow> nat option" where
  "link_after m f nx = nx(f := nx m, m := Some f)"

definition ins_after :: "nat \<Rightarrow> nat \<Rightarrow> nat list \<Rightarrow> nat list" where
  "ins_after m f as = concat (map (\<lambda>a. if a = m then [m, f] else [a]) as)"

lemma set_ins_after: "set (ins_after m f as) = set as \<union> (if m \<in> set as then {f} else {})"
  by (auto simp: ins_after_def)

lemma path_link: "path nx p as \<Longrightarrow> f \<notin> set as \<Longrightarrow> m \<noteq> f \<Longrightarrow> path (link_after m f nx) p (ins_after m f as)"
proof (induction as arbitrary: p)
  case (Cons a as)
  then show ?case by (auto simp: link_after_def ins_after_def)
qed (simp add: ins_after_def)

lemma path_link_free:
  assumes "links nx n f" and "m < n" and "f < n" and "m \<noteq> f"
  shows "\<exists>as. path (link_after m f nx) (Some f) as \<and> set as \<subseteq> {..<n}"
proof -
  obtain as where as: "path nx (Some m) as" "set as \<subseteq> {..<n}" using links_path [OF assms(1,2)] by blast
  then obtain bs where bs: "as = m # bs" "path nx (nx m) bs" by (auto simp: path_Some)
  have "f \<notin> set as" using links_free [OF assms(1,2,4) as(1)] .
  moreover have "m \<notin> set bs" using path_distinct [OF as(1)] bs(1) by simp
  ultimately have "path (link_after m f nx) (nx m) bs" using bs by (subst path_cong [of _ _ nx]) (auto simp: link_after_def)
  then have "path (link_after m f nx) (Some f) (f # bs)" using assms(4) by (simp add: link_after_def)
  then show ?thesis using as(2) bs(1) assms(3) by (intro exI [of _ "f # bs"]) auto
qed

lemma links_link:
  assumes "links nx n f" and "m < n" and "f < n" and "m \<noteq> f" and "nx f = None" and "f' < f"
  shows "links (link_after m f nx) n f'"
  unfolding links_def
proof (intro conjI allI impI)
  fix i assume i: "i < n"
  show "\<exists>as. path (link_after m f nx) (Some i) as \<and> set as \<subseteq> {..<n}"
  proof (cases "i = f")
    case False
    obtain as where as: "path nx (Some i) as" "set as \<subseteq> {..<n}" using links_path [OF assms(1) i] by blast
    have "path (link_after m f nx) (Some i) (ins_after m f as)" using path_link [OF as(1)] links_free [OF assms(1) i False as(1)] assms(4) by simp
    then show ?thesis using as(2) assms(3) by (intro exI [of _ "ins_after m f as"]) (auto simp: set_ins_after)
  qed (use path_link_free [OF assms(1-4)] in simp)
next
  fix i j assume "i < n" "link_after m f nx i = Some j"
  then show "f' < j" using assms links_next [OF assms(1)] by (fastforce simp: link_after_def split: if_splits)
next
  fix i j assume *: "i < n" "j < n" "link_after m f nx i = link_after m f nx j \<and> link_after m f nx i \<noteq> None"
  then obtain y where "link_after m f nx i = Some y" "link_after m f nx j = Some y" by (metis not_None_eq)
  moreover have "nx a \<noteq> Some f" if "a < n" for a using links_next [OF assms(1) that] by auto
  ultimately show "i = j" using *(1,2) assms(2,4) links_inj [OF assms(1)]
    by (auto simp: link_after_def split: if_splits)
qed

lemma reaches_link:
  assumes "links nx n f" and "i < n" and "i \<noteq> f" and "m \<noteq> f" and "reaches nx i j"
  shows "reaches (link_after m f nx) i j"
proof -
  obtain as where as: "path nx (Some i) as" "j \<in> set as" using assms(5) by (auto simp: reaches_def)
  have "path (link_after m f nx) (Some i) (ins_after m f as)" using path_link [OF as(1) links_free [OF assms(1-3) as(1)] assms(4)] .
  then show ?thesis using as(2) by (auto simp: reaches_def set_ins_after)
qed

lemma reaches_linked:
  assumes "links nx n f" and "m < n" and "m \<noteq> f"
  shows "reaches (link_after m f nx) m f"
proof -
  obtain as where as: "path nx (Some m) as" using links_path [OF assms(1,2)] by blast
  have "path (link_after m f nx) (Some m) (ins_after m f as)" using path_link [OF as links_free [OF assms as]] assms(3) by simp
  moreover have "m \<in> set as" using as by (auto simp: path_Some)
  ultimately show ?thesis by (auto simp: reaches_def set_ins_after)
qed

subsection \<open>A free node in the place of another\<close>

definition link_instead :: "nat \<Rightarrow> nat \<Rightarrow> nat \<Rightarrow> (nat \<Rightarrow> nat option) \<Rightarrow> nat \<Rightarrow> nat option" where
  "link_instead x f b nx = nx(b := Some f, f := nx x, x := None)"

definition moved :: "nat \<Rightarrow> nat \<Rightarrow> nat \<Rightarrow> nat" where
  "moved x f a = (if a = x then f else a)"

lemma path_moved:
  assumes "links nx n f" and "nx b = Some x" and "b < n" and "x \<noteq> f" and "b \<noteq> f"
    and "path nx p as" and "f \<notin> set as" and "set as \<subseteq> {..<n}"
  shows "path (link_instead x f b nx) (map_option (moved x f) p) (map (moved x f) as)"
  using assms(6-8)
proof (induction as arbitrary: p)
  case (Cons a as)
  then have a: "p = Some a" "path nx (nx a) as" by auto
  have IH: "path (link_instead x f b nx) (map_option (moved x f) (nx a)) (map (moved x f) as)" using Cons.IH [OF a(2)] Cons.prems by simp
  have "a \<noteq> f" "a < n" using Cons.prems by auto
  have "x < n" using links_next [OF assms(1,3,2)] by simp
  then have self: "nx x \<noteq> Some x" using links_no_loop [OF assms(1)] by simp
  have "b \<noteq> x" using self assms(2) by auto
  have step: "link_instead x f b nx (moved x f a) = map_option (moved x f) (nx a)"
  proof (cases "a = x")
    case True
    then have "link_instead x f b nx (moved x f a) = nx x" using assms(4) by (simp add: link_instead_def moved_def)
    also have "nx x = map_option (moved x f) (nx x)" using self by (cases "nx x") (auto simp: moved_def)
    finally show ?thesis using True by simp
  next
    case False
    show ?thesis
    proof (cases "a = b")
      case True
      then show ?thesis using \<open>a \<noteq> x\<close> assms(2,5) by (simp add: link_instead_def moved_def)
    next
      case ab: False
      have "nx a \<noteq> Some x" using ab links_inj [OF assms(1,2) _ assms(3) \<open>a < n\<close>] by auto
      then have "nx a = map_option (moved x f) (nx a)" by (cases "nx a") (auto simp: moved_def)
      then show ?thesis using False ab \<open>a \<noteq> f\<close> by (simp add: link_instead_def moved_def)
    qed
  qed
  show ?case using IH by (simp add: a(1) step)
qed simp

lemma links_instead:
  assumes "links nx n f" and "nx b = Some x" and "b < n" and "x < n" and "x \<noteq> f" and "b \<noteq> f" and "f < n" and "f' < f"
  shows "links (link_instead x f b nx) n f'"
  unfolding links_def
proof (intro conjI allI impI)
  fix i assume i: "i < n"
  show "\<exists>as. path (link_instead x f b nx) (Some i) as \<and> set as \<subseteq> {..<n}"
  proof (cases "i = x \<or> i = f")
    case True
    obtain as where as: "path nx (Some x) as" "set as \<subseteq> {..<n}" using links_path [OF assms(1,4)] by blast
    have "path (link_instead x f b nx) (map_option (moved x f) (Some x)) (map (moved x f) as)"
      by (rule path_moved [OF assms(1,2,3,5,6) as(1) links_free [OF assms(1,4,5) as(1)] as(2)])
    then have "path (link_instead x f b nx) (Some f) (map (moved x f) as)" by (simp add: moved_def)
    moreover have "path (link_instead x f b nx) (Some x) [x]" by (simp add: link_instead_def)
    moreover have "set (map (moved x f) as) \<subseteq> {..<n}" "set [x] \<subseteq> {..<n}" using as(2) assms(4,7) by (auto simp: moved_def)
    ultimately show ?thesis using True by blast
  next
    case False
    obtain as where as: "path nx (Some i) as" "set as \<subseteq> {..<n}" using links_path [OF assms(1) i] by blast
    have "path (link_instead x f b nx) (map_option (moved x f) (Some i)) (map (moved x f) as)"
      by (rule path_moved [OF assms(1,2,3,5,6) as(1) links_free [OF assms(1) i _ as(1)] as(2)]) (use False in simp)
    then have "path (link_instead x f b nx) (Some i) (map (moved x f) as)" using False by (simp add: moved_def)
    moreover have "set (map (moved x f) as) \<subseteq> {..<n}" using as(2) assms(7) by (auto simp: moved_def)
    ultimately show ?thesis by blast
  qed
next
  fix i j assume "i < n" "link_instead x f b nx i = Some j"
  then show "f' < j" using assms(4,8) links_next [OF assms(1)] by (fastforce simp: link_instead_def split: if_splits)
next
  fix i j assume *: "i < n" "j < n" "link_instead x f b nx i = link_instead x f b nx j \<and> link_instead x f b nx i \<noteq> None"
  then obtain y where "link_instead x f b nx i = Some y" "link_instead x f b nx j = Some y" by (metis not_None_eq)
  moreover have "nx a \<noteq> Some f" if "a < n" for a using links_next [OF assms(1) that] by auto
  ultimately show "i = j" using *(1,2) assms(4,5,6) links_inj [OF assms(1)]
    by (auto simp: link_instead_def split: if_splits)
qed

lemma reaches_instead:
  assumes "links nx n f" and "nx b = Some x" and "b < n" and "x \<noteq> f" and "b \<noteq> f"
    and "i < n" and "i \<noteq> f" and "i \<noteq> x" and "reaches nx i j"
  shows "reaches (link_instead x f b nx) i (moved x f j)"
proof -
  obtain as where as: "path nx (Some i) as" "j \<in> set as" using assms(9) by (auto simp: reaches_def)
  moreover have "set as \<subseteq> {..<n}" using links_path [OF assms(1,6)] path_unique [OF as(1)] by auto
  ultimately have "path (link_instead x f b nx) (map_option (moved x f) (Some i)) (map (moved x f) as)"
    using path_moved [OF assms(1-5) as(1) links_free [OF assms(1,6,7) as(1)]] by blast
  then show ?thesis using as(2) assms(8) by (auto simp: reaches_def moved_def)
qed

lemma reaches_emptied: "x \<noteq> b \<Longrightarrow> x \<noteq> f \<Longrightarrow> reaches (link_instead x f b nx) x x"
  by (auto simp: reaches_def link_instead_def intro!: exI [of _ "[x]"])

end
