(* ===== verification/Capy_SQMap.thy ===== *)
theory Capy_SQMap
  imports Capy_SQLinks
begin

text \<open>
  The hash table of the script language as a map: what a well-formed table is, and that an insertion keeps it so and does to the map what it
  says. An insertion that finds no free node rehashes, which inserts every key into a table with room for all of them, so that it ends.
\<close>

section \<open>Keys at their places\<close>

text \<open>Every key's node can be reached from the key's main position; a node that is not at it was free once, and so above the free pointer;
  no key is there twice; and where a key's main position is taken, it is by a key of that position.\<close>

definition keys_wf :: "(sq_object \<Rightarrow> nat) \<Rightarrow> (nat \<Rightarrow> sq_object) \<Rightarrow> (nat \<Rightarrow> nat option) \<Rightarrow> nat \<Rightarrow> nat \<Rightarrow> bool" where
  "keys_wf main ky nx n ff =
     ((\<forall>i<n. ky i \<noteq> OT_NULL \<longrightarrow> main (ky i) < n \<and> reaches nx (main (ky i)) i \<and> (main (ky i) \<noteq> i \<longrightarrow> ff < i)) \<and>
      (\<forall>i<n. \<forall>j<n. ky i = ky j \<and> ky i \<noteq> OT_NULL \<longrightarrow> i = j) \<and>
      (\<forall>i<n. \<forall>j<n. ky i \<noteq> OT_NULL \<and> ky j \<noteq> OT_NULL \<and> main (ky i) = j \<longrightarrow> main (ky j) = j))"

definition nodes_wf :: "(sq_object \<Rightarrow> nat) \<Rightarrow> (nat \<Rightarrow> sq_object) \<Rightarrow> (nat \<Rightarrow> nat option) \<Rightarrow> nat \<Rightarrow> nat \<Rightarrow> bool" where
  "nodes_wf main ky nx n ff = (links nx n ff \<and> keys_wf main ky nx n ff \<and> ff < n \<and> ky ff = OT_NULL \<and> nx ff = None)"

lemma keys_wf_place:
  assumes "keys_wf main ky nx n ff" and "i < n" and "ky i \<noteq> OT_NULL"
  shows "main (ky i) < n" and "reaches nx (main (ky i)) i" and "main (ky i) \<noteq> i \<Longrightarrow> ff < i"
  using assms by (auto simp: keys_wf_def)

lemma keys_wf_distinct: "keys_wf main ky nx n ff \<Longrightarrow> i < n \<Longrightarrow> j < n \<Longrightarrow> ky i = ky j \<Longrightarrow> ky i \<noteq> OT_NULL \<Longrightarrow> i = j"
  by (auto simp: keys_wf_def)

lemma keys_wf_main: "keys_wf main ky nx n ff \<Longrightarrow> i < n \<Longrightarrow> main (ky i) < n \<Longrightarrow> ky i \<noteq> OT_NULL \<Longrightarrow> ky (main (ky i)) \<noteq> OT_NULL \<Longrightarrow>
    main (ky (main (ky i))) = main (ky i)"
  by (auto simp: keys_wf_def)

text \<open>Only the free node itself has the free node for its main position.\<close>

lemma main_not_free: "nodes_wf main ky nx n ff \<Longrightarrow> i < n \<Longrightarrow> ky i \<noteq> OT_NULL \<Longrightarrow> main (ky i) \<noteq> ff"
  unfolding nodes_wf_def using keys_wf_place(2) reaches_free by metis

text \<open>A key goes to its empty main position.\<close>

lemma nodes_wf_empty_main:
  assumes "nodes_wf main ky nx n ff" and "mp < n" and "ky mp = OT_NULL" and "main k = mp" and "\<And>i. i < n \<Longrightarrow> ky i \<noteq> k" and "f' \<le> ff"
  shows "links nx n f'" and "keys_wf main (ky(mp := k)) nx n f'"
proof -
  have wf: "links nx n ff" "keys_wf main ky nx n ff" using assms(1) by (simp_all add: nodes_wf_def)
  show "links nx n f'" using wf(1) assms(6) by (rule links_mono)
  have r: "reaches nx mp mp" using reaches_refl [OF wf(1) assms(2)] .
  show "keys_wf main (ky(mp := k)) nx n f'"
    unfolding keys_wf_def
  proof (intro conjI allI impI)
    fix i assume i: "i < n" "(ky(mp := k)) i \<noteq> OT_NULL"
    show "main ((ky(mp := k)) i) < n" "reaches nx (main ((ky(mp := k)) i)) i"
      using i keys_wf_place [OF wf(2) i(1)] assms(2,4) r by auto
    show "f' < i" if "main ((ky(mp := k)) i) \<noteq> i" using that i keys_wf_place(3) [OF wf(2) i(1)] assms(4,6) by (auto split: if_splits)
  next
    fix i j assume "i < n" "j < n" "(ky(mp := k)) i = (ky(mp := k)) j \<and> (ky(mp := k)) i \<noteq> OT_NULL"
    then show "i = j" using keys_wf_distinct [OF wf(2), of i j] assms(5) [of i] assms(5) [of j] by (auto split: if_splits)
  next
    fix i j assume "i < n" "j < n" "(ky(mp := k)) i \<noteq> OT_NULL \<and> (ky(mp := k)) j \<noteq> OT_NULL \<and> main ((ky(mp := k)) i) = j"
    then show "main ((ky(mp := k)) j) = j" using keys_wf_main [OF wf(2), of i] assms(4) by (auto split: if_splits)
  qed
qed

text \<open>A key goes to the free node, after the key that has its main position.\<close>

lemma nodes_wf_link:
  assumes "nodes_wf main ky nx n ff" and "mp < n" and "ky mp \<noteq> OT_NULL" and "main (ky mp) = mp" and "main k = mp"
    and "\<And>i. i < n \<Longrightarrow> ky i \<noteq> k" and "f' < ff"
  shows "links (link_after mp ff nx) n f'" and "keys_wf main (ky(ff := k)) (link_after mp ff nx) n f'"
proof -
  have wf: "links nx n ff" "keys_wf main ky nx n ff" and ff: "ff < n" "ky ff = OT_NULL" "nx ff = None" using assms(1) by (simp_all add: nodes_wf_def)
  have ne: "mp \<noteq> ff" using assms(3) ff(2) by auto
  show "links (link_after mp ff nx) n f'" by (rule links_link [OF wf(1) assms(2) ff(1) ne ff(3) assms(7)])
  show "keys_wf main (ky(ff := k)) (link_after mp ff nx) n f'"
    unfolding keys_wf_def
  proof (intro conjI allI impI)
    fix i assume i: "i < n" "(ky(ff := k)) i \<noteq> OT_NULL"
    have old: "main (ky i) < n \<and> main (ky i) \<noteq> ff \<and> reaches nx (main (ky i)) i \<and> (main (ky i) \<noteq> i \<longrightarrow> ff < i)" if "i \<noteq> ff"
      using that i keys_wf_place [OF wf(2) i(1)] main_not_free [OF assms(1) i(1)] by auto
    show "main ((ky(ff := k)) i) < n" using old assms(2,5) by auto
    show "reaches (link_after mp ff nx) (main ((ky(ff := k)) i)) i"
      using old assms(5) reaches_linked [OF wf(1) assms(2) ne] reaches_link [OF wf(1), of "main (ky i)" mp i] ne by auto
    show "f' < i" if "main ((ky(ff := k)) i) \<noteq> i" using that old assms(7) by (auto split: if_splits)
  next
    fix i j assume "i < n" "j < n" "(ky(ff := k)) i = (ky(ff := k)) j \<and> (ky(ff := k)) i \<noteq> OT_NULL"
    then show "i = j" using keys_wf_distinct [OF wf(2), of i j] assms(6) [of i] assms(6) [of j] by (auto split: if_splits)
  next
    fix i j assume *: "i < n" "j < n" "(ky(ff := k)) i \<noteq> OT_NULL \<and> (ky(ff := k)) j \<noteq> OT_NULL \<and> main ((ky(ff := k)) i) = j"
    then have "j \<noteq> ff" using main_not_free [OF assms(1) *(1)] assms(5) ne by (auto split: if_splits)
    then show "main ((ky(ff := k)) j) = j" using * keys_wf_main [OF wf(2), of i] assms(4,5) by (auto split: if_splits)
  qed
qed

text \<open>A key goes to its main position, whose key goes to the free node.\<close>

lemma nodes_wf_instead:
  assumes "nodes_wf main ky nx n ff" and "x < n" and "ky x \<noteq> OT_NULL" and "main (ky x) \<noteq> x" and "main k = x"
    and "\<And>i. i < n \<Longrightarrow> ky i \<noteq> k" and "b < n" and "nx b = Some x" and "f' < ff"
  shows "links (link_instead x ff b nx) n f'" and "keys_wf main (ky(ff := ky x, x := k)) (link_instead x ff b nx) n f'"
proof -
  let ?ky = "ky(ff := ky x, x := k)" and ?nx = "link_instead x ff b nx"
  have wf: "links nx n ff" "keys_wf main ky nx n ff" and ff: "ff < n" "ky ff = OT_NULL" "nx ff = None" using assms(1) by (simp_all add: nodes_wf_def)
  have ne: "x \<noteq> ff" using assms(3) ff(2) by auto
  have bne: "b \<noteq> ff" "b \<noteq> x" using assms(8) ff(3) links_no_loop [OF wf(1) assms(2)] by auto
  show "links ?nx n f'" by (rule links_instead [OF wf(1) assms(8,7,2) ne bne(1) ff(1) assms(9)])
  have main: "main (ky i) < n \<and> main (ky i) \<noteq> ff \<and> main (ky i) \<noteq> x" if "i < n" "ky i \<noteq> OT_NULL" for i
    using that keys_wf_place [OF wf(2) that] main_not_free [OF assms(1) that] keys_wf_main [OF wf(2) that(1)] assms(3,4) by fastforce
  have reach: "reaches ?nx (main (ky i)) (moved x ff i)" if "i < n" "ky i \<noteq> OT_NULL" for i
    using reaches_instead [OF wf(1) assms(8,7) ne bne(1)] main [OF that] keys_wf_place(2) [OF wf(2) that] by simp
  show "keys_wf main ?ky ?nx n f'"
    unfolding keys_wf_def
  proof (intro conjI allI impI)
    fix i assume i: "i < n" "?ky i \<noteq> OT_NULL"
    show "main (?ky i) < n" using i main [of i] main [OF assms(2,3)] assms(2,5) by auto
    show "reaches ?nx (main (?ky i)) i"
      using i reach [of i] reach [OF assms(2,3)] assms(5) reaches_emptied [of x b ff nx] bne ne by (auto simp: moved_def split: if_splits)
    show "f' < i" if "main (?ky i) \<noteq> i"
      using that i keys_wf_place(3) [OF wf(2) i(1)] assms(5,9) by (cases "i = x"; cases "i = ff") auto
  next
    fix i j assume "i < n" "j < n" "?ky i = ?ky j \<and> ?ky i \<noteq> OT_NULL"
    then show "i = j" using keys_wf_distinct [OF wf(2), of i j] keys_wf_distinct [OF wf(2), of i x] keys_wf_distinct [OF wf(2), of x j]
        assms(2) assms(6) [of i] assms(6) [of j] assms(6) [of x] by (auto split: if_splits)
  next
    fix i j assume *: "i < n" "j < n" "?ky i \<noteq> OT_NULL \<and> ?ky j \<noteq> OT_NULL \<and> main (?ky i) = j"
    show "main (?ky j) = j"
    proof (cases "j = x")
      case False
      then have "j \<noteq> ff" using * main [of i] main [OF assms(2,3)] assms(5) by (auto split: if_splits)
      then show ?thesis using * False keys_wf_main [OF wf(2), of i] keys_wf_main [OF wf(2), of x] assms(2,3,5) by (auto split: if_splits)
    qed (use assms(5) in simp)
  qed
qed

section \<open>Well-formed tables and their maps\<close>

definition key_at :: "hash_node list \<Rightarrow> nat \<Rightarrow> sq_object" where
  "key_at ns i = n_key (ns ! i)"

definition next_at :: "hash_node list \<Rightarrow> nat \<Rightarrow> nat option" where
  "next_at ns i = n_next (ns ! i)"

definition hashable :: "sq_heap \<Rightarrow> sq_object \<Rightarrow> bool" where
  "hashable H k = is_ok (HashObj H k)"

definition main_of :: "sq_heap \<Rightarrow> nat \<Rightarrow> sq_object \<Rightarrow> nat" where
  "main_of H n k = (case HashObj H k of Inl _ \<Rightarrow> 0 | Inr h \<Rightarrow> slot_of h n)"

definition distinct_keys :: "hash_node list \<Rightarrow> bool" where
  "distinct_keys ns = (\<forall>i<length ns. \<forall>j<length ns. key_at ns i = key_at ns j \<and> key_at ns i \<noteq> OT_NULL \<longrightarrow> i = j)"

definition num_keys :: "hash_node list \<Rightarrow> nat" where
  "num_keys ns = card {i. i < length ns \<and> key_at ns i \<noteq> OT_NULL}"

definition hashable_keys :: "sq_heap \<Rightarrow> hash_node list \<Rightarrow> bool" where
  "hashable_keys H ns = (\<forall>i<length ns. hashable H (key_at ns i))"

definition tbl_wf :: "sq_heap \<Rightarrow> sq_table \<Rightarrow> bool" where
  "tbl_wf H t =
     ((\<exists>k\<ge>2. length (t_nodes t) = 2 ^ k) \<and> hashable_keys H (t_nodes t) \<and>
      nodes_wf (main_of H (length (t_nodes t))) (key_at (t_nodes t)) (next_at (t_nodes t)) (length (t_nodes t)) (t_firstfree t) \<and>
      t_used t = int (num_keys (t_nodes t)))"

text \<open>The map a table stands for.\<close>

definition nodes_map :: "hash_node list \<Rightarrow> sq_object \<Rightarrow> sq_object option" where
  "nodes_map ns k = (if k = OT_NULL then None else map_option n_val (find (\<lambda>n. n_key n = k) ns))"

abbreviation tbl_map :: "sq_table \<Rightarrow> sq_object \<Rightarrow> sq_object option" where
  "tbl_map t \<equiv> nodes_map (t_nodes t)"

lemma nodes_map_Some:
  assumes "distinct_keys ns"
  shows "nodes_map ns k = Some v \<longleftrightarrow> k \<noteq> OT_NULL \<and> (\<exists>i<length ns. key_at ns i = k \<and> n_val (ns ! i) = v)"
proof (cases "k = OT_NULL")
  case False
  have "find (\<lambda>n. n_key n = k) ns = Some x \<longleftrightarrow> (\<exists>i<length ns. key_at ns i = k \<and> ns ! i = x)" for x
    unfolding find_Some_iff key_at_def [symmetric]
    using assms False unfolding distinct_keys_def by (metis less_trans nat_neq_iff)
  then show ?thesis using False by (auto simp: nodes_map_def)
qed (simp add: nodes_map_def)

lemma find_map_of: "map_option n_val (find (\<lambda>n. n_key n = k) ns) = map_of (map (\<lambda>n. (n_key n, n_val n)) ns) k"
  by (induction ns) auto

lemma nodes_map_None: "nodes_map ns k = None \<longleftrightarrow> k = OT_NULL \<or> (\<forall>i<length ns. key_at ns i \<noteq> k)"
  by (auto simp: nodes_map_def find_None_iff key_at_def in_set_conv_nth)

lemma nodes_map_eqI:
  assumes "distinct_keys ns"
    and "\<And>i. i < length ns \<Longrightarrow> key_at ns i \<noteq> OT_NULL \<Longrightarrow> m (key_at ns i) = Some (n_val (ns ! i))"
    and "\<And>k v. m k = Some v \<Longrightarrow> k \<noteq> OT_NULL \<and> (\<exists>i<length ns. key_at ns i = k)"
  shows "nodes_map ns = m"
proof
  fix k
  show "nodes_map ns k = m k"
  proof (cases "m k")
    case None
    then have "nodes_map ns k = None" unfolding nodes_map_None using assms(2) by (metis option.distinct(1))
    then show ?thesis using None by simp
  next
    case (Some v)
    then obtain i where "k \<noteq> OT_NULL" "i < length ns" "key_at ns i = k" using assms(3) by blast
    then have "nodes_map ns k = Some (n_val (ns ! i))" using nodes_map_Some [OF assms(1)] by blast
    then show ?thesis using assms(2) [of i] \<open>i < length ns\<close> \<open>key_at ns i = k\<close> \<open>k \<noteq> OT_NULL\<close> by simp
  qed
qed

lemma nodes_map_at: "distinct_keys ns \<Longrightarrow> i < length ns \<Longrightarrow> key_at ns i \<noteq> OT_NULL \<Longrightarrow> nodes_map ns (key_at ns i) = Some (n_val (ns ! i))"
  using nodes_map_Some by blast

lemma tbl_wf_distinct: "tbl_wf H t \<Longrightarrow> distinct_keys (t_nodes t)"
  unfolding tbl_wf_def nodes_wf_def distinct_keys_def using keys_wf_distinct by blast

lemma main_slot_main: "hashable H k \<Longrightarrow> main_slot H ns k = Inr (main_of H (length ns) k)"
  by (cases "HashObj H k") (auto simp: main_slot_def main_of_def hashable_def)

lemma main_of_less: "n = 2 ^ j \<Longrightarrow> main_of H n k < n"
  by (auto simp: main_of_def split: sum.split)

lemma chain_nodes: "chain n_next (node_heap ns) p as \<longleftrightarrow> path (next_at ns) p as \<and> set as \<subseteq> {..<length ns}"
  by (induction as arbitrary: p) (auto simp: node_heap_def next_at_def)

section \<open>Looking a key up\<close>

lemma SQTable_node_found:
  assumes "nodes_wf (main_of H (length ns)) (key_at ns) (next_at ns) (length ns) ff" and "main_of H (length ns) k < length ns"
  shows "\<exists>r. SQTable_node ns k (main_of H (length ns) k) = Inr r \<and>
    (case r of Some i \<Rightarrow> i < length ns \<and> key_at ns i = k | None \<Rightarrow> k \<noteq> OT_NULL \<longrightarrow> (\<forall>i<length ns. key_at ns i \<noteq> k))"
proof -
  let ?m = "main_of H (length ns) k"
  have wf: "links (next_at ns) (length ns) ff" "keys_wf (main_of H (length ns)) (key_at ns) (next_at ns) (length ns) ff"
    using assms(1) by (simp_all add: nodes_wf_def)
  obtain as where as: "path (next_at ns) (Some ?m) as" "set as \<subseteq> {..<length ns}" using links_path [OF wf(1) assms(2)] by blast
  then have run: "SQTable_node ns k ?m = Inr (find (\<lambda>a. n_key (the (node_heap ns a)) = k) as)"
    unfolding SQTable_node_def by (intro walk_chain) (simp add: chain_nodes)
  have node: "n_key (the (node_heap ns a)) = key_at ns a" if "a \<in> set as" for a using that as(2) by (auto simp: node_heap_def key_at_def)
  show ?thesis
  proof (cases "find (\<lambda>a. n_key (the (node_heap ns a)) = k) as")
    case None
    have "key_at ns i \<noteq> k" if i: "i < length ns" and k: "k \<noteq> OT_NULL" for i
    proof
      assume "key_at ns i = k"
      then have "reaches (next_at ns) ?m i" using keys_wf_place(2) [OF wf(2) i] k by simp
      then have "i \<in> set as" using path_unique as(1) by (auto simp: reaches_def)
      then show False using None node \<open>key_at ns i = k\<close> by (auto simp: find_None_iff)
    qed
    then show ?thesis using run None by simp
  next
    case (Some i)
    then have "i \<in> set as" "key_at ns i = k" using find_Some_set node by fastforce+
    then show ?thesis using run Some as(2) by auto
  qed
qed

lemma find_other_path:
  assumes "path (next_at ns) (Some i) as" and "set as \<subseteq> {..<length ns}" and "x \<in> set as" and "x \<noteq> i"
  shows "\<exists>b<length ns. run_loop (find_other ns x i) = Inr b \<and> next_at ns b = Some x"
  using assms
proof (induction as arbitrary: i)
  case (Cons a as)
  then have a: "a = i" "path (next_at ns) (next_at ns i) as" "i < length ns" "x \<in> set as" by auto
  then obtain j bs where j: "next_at ns i = Some j" "as = j # bs" by (cases as) auto
  have run: "find_other ns x i = (if j = x then Some (Inr i) else find_other ns x j)"
    using a(3) j(1) by (subst find_other.simps) (simp add: node_heap_def next_at_def)
  show ?case
  proof (cases "j = x")
    case True
    then show ?thesis using run a(3) j(1) by auto
  next
    case False
    then show ?thesis using run Cons.IH [of j] Cons.prems a j by auto
  qed
qed simp

section \<open>Placing a key\<close>

text \<open>Room for a key: a node without one, in an array that still has the others. When it has the key, the array is well-formed for any node
  below that is free.\<close>

definition compact_nodes :: "hash_node list \<Rightarrow> nat \<Rightarrow> bool" where
  "compact_nodes ns ff = (\<forall>i<length ns. (key_at ns i = OT_NULL \<longrightarrow> next_at ns i = None) \<and> (ff < i \<longrightarrow> key_at ns i \<noteq> OT_NULL))"

definition same_entries :: "hash_node list \<Rightarrow> hash_node list \<Rightarrow> bool" where
  "same_entries ns ns' = (length ns' = length ns \<and> (distinct_keys ns \<longrightarrow> distinct_keys ns') \<and> num_keys ns' = num_keys ns \<and> nodes_map ns' = nodes_map ns \<and>
     (\<forall>i<length ns. key_at ns' i = OT_NULL \<or> (\<exists>j<length ns. key_at ns' i = key_at ns j)))"

definition with_key :: "nat \<Rightarrow> sq_object \<Rightarrow> hash_node list \<Rightarrow> hash_node list" where
  "with_key mp k ns = ns[mp := (ns ! mp)\<lparr>n_key := k\<rparr>]"

lemma with_key_simps [simp]:
  "length (with_key mp k ns) = length ns"
  "mp < length ns \<Longrightarrow> key_at (with_key mp k ns) = (key_at ns)(mp := k)"
  "mp < length ns \<Longrightarrow> next_at (with_key mp k ns) = next_at ns"
  by (auto simp: with_key_def key_at_def next_at_def nth_list_update fun_eq_iff)

definition placed :: "sq_heap \<Rightarrow> sq_object \<Rightarrow> sq_table \<Rightarrow> nat \<Rightarrow> hash_node list \<Rightarrow> bool" where
  "placed H k t mp ns =
     (let n = length (t_nodes t); ns2 = with_key mp k ns in
      mp < n \<and> key_at ns mp = OT_NULL \<and> same_entries (t_nodes t) ns \<and>
      (\<forall>f\<le>t_firstfree t. key_at ns2 f = OT_NULL \<longrightarrow> links (next_at ns2) n f \<and> keys_wf (main_of H n) (key_at ns2) (next_at ns2) n f) \<and>
      (compact_nodes (t_nodes t) (t_firstfree t) \<longrightarrow>
        (\<forall>i<n. (key_at ns2 i = OT_NULL \<longrightarrow> next_at ns2 i = None) \<and> (t_firstfree t < i \<longrightarrow> key_at ns2 i \<noteq> OT_NULL))))"

lemma same_entries_refl [simp]: "same_entries ns ns"
  by (auto simp: same_entries_def)

lemma same_entries_links:
  assumes "length ns' = length ns" and "\<And>i. i < length ns \<Longrightarrow> n_key (ns' ! i) = n_key (ns ! i) \<and> n_val (ns' ! i) = n_val (ns ! i)"
  shows "same_entries ns ns'"
proof -
  have key: "key_at ns' i = key_at ns i" if "i < length ns" for i using assms(2) [OF that] by (simp add: key_at_def)
  have "{i. i < length ns' \<and> key_at ns' i \<noteq> OT_NULL} = {i. i < length ns \<and> key_at ns i \<noteq> OT_NULL}" using key assms(1) by auto
  moreover have "map (\<lambda>n. (n_key n, n_val n)) ns' = map (\<lambda>n. (n_key n, n_val n)) ns"
    using assms by (intro nth_equalityI) auto
  then have "map_option n_val (find (\<lambda>n. n_key n = k) ns') = map_option n_val (find (\<lambda>n. n_key n = k) ns)" for k
    unfolding find_map_of by simp
  ultimately show ?thesis using assms(1) key unfolding same_entries_def distinct_keys_def num_keys_def nodes_map_def by auto
qed

text \<open>A key and its value go from one node to an empty one.\<close>

lemma same_entries_moved:
  assumes "length ns' = length ns" and "f < length ns" and "x < length ns" and "key_at ns f = OT_NULL" and "key_at ns x \<noteq> OT_NULL" and "distinct_keys ns"
    and "\<And>i. i < length ns \<Longrightarrow> i \<noteq> x \<Longrightarrow> i \<noteq> f \<Longrightarrow> n_key (ns' ! i) = n_key (ns ! i) \<and> n_val (ns' ! i) = n_val (ns ! i)"
    and "n_key (ns' ! f) = n_key (ns ! x)" "n_val (ns' ! f) = n_val (ns ! x)" "n_key (ns' ! x) = OT_NULL"
  shows "same_entries ns ns'"
proof -
  have ne: "x \<noteq> f" using assms(4,5) by auto
  have key: "key_at ns' i = (if i = x then OT_NULL else if i = f then key_at ns x else key_at ns i)" if "i < length ns" for i
    using assms(7) [of i] that assms(8-10) by (auto simp: key_at_def)
  have dist: "distinct_keys ns'"
    using assms(6) key assms(1,3) unfolding distinct_keys_def by (simp split: if_splits) metis
  have "{i. i < length ns' \<and> key_at ns' i \<noteq> OT_NULL} = insert f ({i. i < length ns \<and> key_at ns i \<noteq> OT_NULL} - {x})"
    using key assms(1-5) ne by (auto split: if_splits)
  then have num: "num_keys ns' = num_keys ns"
    unfolding num_keys_def using assms(3,4,5) by (simp add: card_Diff_singleton card_gt_0_iff) (metis (mono_tags, lifting) Suc_pred card_gt_0_iff emptyE finite_nat_set_iff_bounded mem_Collect_eq)
  have "nodes_map ns' = nodes_map ns"
  proof (rule nodes_map_eqI [OF dist])
    fix i assume "i < length ns'" "key_at ns' i \<noteq> OT_NULL"
    then show "nodes_map ns (key_at ns' i) = Some (n_val (ns' ! i))"
      using key [of i] assms(1,3,5,7,9) nodes_map_at [OF assms(6), of i] nodes_map_at [OF assms(6), of x] by (auto split: if_splits)
  next
    fix k v assume "nodes_map ns k = Some v"
    then obtain i where i: "k \<noteq> OT_NULL" "i < length ns" "key_at ns i = k" using nodes_map_Some [OF assms(6)] by blast
    then have "key_at ns' (if i = x then f else i) = k" using key [of f] key [of i] assms(2,4) ne by auto
    then show "k \<noteq> OT_NULL \<and> (\<exists>i<length ns'. key_at ns' i = k)" using i(1,2) assms(1,2) by (metis)
  qed
  then show ?thesis using dist num assms(1,3) key unfolding same_entries_def by auto
qed

lemma place_key_placed:
  assumes "tbl_wf H t" and "\<And>i. i < length (t_nodes t) \<Longrightarrow> key_at (t_nodes t) i \<noteq> k"
  defines "m \<equiv> main_of H (length (t_nodes t)) k"
  shows "\<exists>mp ns. place_key H m t = Inr (mp, ns) \<and> placed H k t mp ns"
proof -
  let ?ns = "t_nodes t" and ?f = "t_firstfree t"
  let ?n = "length ?ns"
  have wf: "nodes_wf (main_of H ?n) (key_at ?ns) (next_at ?ns) ?n ?f" using assms(1) by (simp add: tbl_wf_def)
  have links: "links (next_at ?ns) ?n ?f" and keys: "keys_wf (main_of H ?n) (key_at ?ns) (next_at ?ns) ?n ?f"
    and f: "?f < ?n" "key_at ?ns ?f = OT_NULL" "next_at ?ns ?f = None" using wf by (simp_all add: nodes_wf_def)
  have dist: "distinct_keys ?ns" using tbl_wf_distinct [OF assms(1)] .
  have m: "m < ?n" using assms(1) main_of_less by (auto simp: tbl_wf_def m_def)
  show ?thesis
  proof (cases "key_at ?ns m = OT_NULL")
    case True
    have "placed H k t m ?ns"
      using nodes_wf_empty_main [OF wf m True _ assms(2)] m True by (auto simp: placed_def m_def Let_def compact_nodes_def)
    moreover have "place_key H m t = Inr (m, ?ns)" using True by (simp add: place_key_def key_at_def Let_def)
    ultimately show ?thesis by blast
  next
    case False
    let ?mph = "main_of H ?n (key_at ?ns m)"
    have "hashable H (key_at ?ns m)" using assms(1) m by (simp add: tbl_wf_def hashable_keys_def)
    then have slot: "main_slot H ?ns (n_key (?ns ! m)) = Inr ?mph" using main_slot_main by (simp add: key_at_def)
    have ne: "m \<noteq> ?f" using False f(2) by auto
    show ?thesis
    proof (cases "?mph = m")
      case True
      define ns where "ns = ?ns[?f := (?ns ! ?f)\<lparr>n_next := n_next (?ns ! m)\<rparr>, m := (?ns ! m)\<lparr>n_next := Some ?f\<rparr>]"
      have run: "place_key H m t = Inr (?f, ns)" using False slot True ne by (simp add: place_key_def key_at_def Let_def ns_def)
      have len: "length ns = ?n" by (simp add: ns_def)
      have nx: "next_at ns = link_after m ?f (next_at ?ns)"
        using f(1) m ne by (auto simp: fun_eq_iff ns_def next_at_def link_after_def nth_list_update)
      have ky: "key_at ns = key_at ?ns" using f(1) m ne by (auto simp: fun_eq_iff ns_def key_at_def nth_list_update)
      have same: "same_entries ?ns ns" by (rule same_entries_links) (use f(1) m ne in \<open>auto simp: ns_def nth_list_update\<close>)
      have "k \<noteq> OT_NULL" using assms(2) [OF f(1)] f(2) by auto
      have "placed H k t ?f ns"
        unfolding placed_def Let_def
      proof (intro conjI allI impI)
        fix g assume "g \<le> ?f" "key_at (with_key ?f k ns) g = OT_NULL"
        then have "g < ?f" using \<open>k \<noteq> OT_NULL\<close> f(1) len by (cases "g = ?f") auto
        then show "links (next_at (with_key ?f k ns)) ?n g" "keys_wf (main_of H ?n) (key_at (with_key ?f k ns)) (next_at (with_key ?f k ns)) ?n g"
          using nodes_wf_link [OF wf m False True _ assms(2), where f' = g] f(1) len by (simp_all add: nx ky m_def)
      next
        fix i assume "compact_nodes ?ns ?f" "i < ?n" "key_at (with_key ?f k ns) i = OT_NULL"
        then show "next_at (with_key ?f k ns) i = None" using f(1) len False \<open>k \<noteq> OT_NULL\<close>
          by (auto simp: nx ky link_after_def compact_nodes_def split: if_splits)
      next
        fix i assume "compact_nodes ?ns ?f" "i < ?n" "?f < i"
        then show "key_at (with_key ?f k ns) i \<noteq> OT_NULL" using f(1) len by (auto simp: ky compact_nodes_def)
      qed (use f(1,2) same in \<open>simp_all add: ky\<close>)
      then show ?thesis using run by blast
    next
      case off: False
      have "?f < m" using keys_wf_place(3) [OF keys m False off] .
      have mph: "?mph < ?n" "reaches (next_at ?ns) ?mph m" using keys_wf_place(1,2) [OF keys m False] .
      obtain as where as: "path (next_at ?ns) (Some ?mph) as" "m \<in> set as" using mph(2) by (auto simp: reaches_def)
      have "set as \<subseteq> {..<?n}" using links_path [OF links mph(1)] path_unique [OF as(1)] by auto
      then obtain b where b: "b < ?n" "run_loop (find_other ?ns m ?mph) = Inr b" "next_at ?ns b = Some m"
        using find_other_path [OF as(1) _ as(2)] off by metis
      have bne: "b \<noteq> ?f" "b \<noteq> m" using b(3) f(3) links_no_loop [OF links m] by auto
      define ns where "ns = ?ns[b := (?ns ! b)\<lparr>n_next := Some ?f\<rparr>, ?f := \<lparr>n_val = n_val (?ns ! m), n_key = n_key (?ns ! m), n_next = n_next (?ns ! m)\<rparr>,
        m := \<lparr>n_val = OT_NULL, n_key = OT_NULL, n_next = None\<rparr>]"
      have run: "place_key H m t = Inr (m, ns)" using False slot off \<open>?f < m\<close> b(2) bne by (simp add: place_key_def key_at_def Let_def ns_def)
      have len: "length ns = ?n" by (simp add: ns_def)
      have nx: "next_at ns = link_instead m ?f b (next_at ?ns)"
        using f(1) m ne b(1) bne by (auto simp: fun_eq_iff ns_def next_at_def link_instead_def nth_list_update)
      have ky: "key_at ns = (key_at ?ns)(?f := key_at ?ns m, m := OT_NULL)"
        using f(1) m ne b(1) bne by (auto simp: fun_eq_iff ns_def key_at_def nth_list_update)
      have ky2: "key_at (with_key m k ns) = (key_at ?ns)(?f := key_at ?ns m, m := k)" using m len by (simp add: ky)
      have same: "same_entries ?ns ns"
        by (rule same_entries_moved [OF len f(1) m f(2) False dist]) (use f(1) m ne b(1) bne in \<open>auto simp: ns_def nth_list_update\<close>)
      have "k \<noteq> OT_NULL" using assms(2) [OF f(1)] f(2) by auto
      have "placed H k t m ns"
        unfolding placed_def Let_def
      proof (intro conjI allI impI)
        fix g assume "g \<le> ?f" "key_at (with_key m k ns) g = OT_NULL"
        then have "g < ?f" using False ne by (cases "g = ?f") (auto simp: ky2)
        then show "links (next_at (with_key m k ns)) ?n g" "keys_wf (main_of H ?n) (key_at (with_key m k ns)) (next_at (with_key m k ns)) ?n g"
          using nodes_wf_instead [OF wf m False off _ assms(2) b(1,3), where f' = g] m len unfolding ky2 by (simp_all add: nx m_def)
      next
        fix i assume i: "compact_nodes ?ns ?f" "i < ?n" "key_at (with_key m k ns) i = OT_NULL"
        moreover have "key_at ?ns b \<noteq> OT_NULL" using i(1) b(1,3) by (auto simp: compact_nodes_def)
        ultimately show "next_at (with_key m k ns) i = None" using m len False \<open>k \<noteq> OT_NULL\<close>
          by (auto simp: nx ky2 link_instead_def compact_nodes_def split: if_splits)
      next
        fix i assume "compact_nodes ?ns ?f" "i < ?n" "?f < i"
        then show "key_at (with_key m k ns) i \<noteq> OT_NULL" using \<open>k \<noteq> OT_NULL\<close> by (auto simp: ky2 compact_nodes_def)
      qed (use m same in \<open>simp_all add: ky\<close>)
      then show ?thesis using run by blast
    qed
  qed
qed

section \<open>Inserting without a rehash\<close>

lemma next_free_Some:
  "next_free ns f = Some g \<Longrightarrow> g \<le> f \<and> key_at ns g = OT_NULL \<and> next_at ns g = None \<and>
    (\<forall>i. g < i \<and> i \<le> f \<longrightarrow> \<not> (key_at ns i = OT_NULL \<and> next_at ns i = None))"
proof (induction f)
  case (Suc f)
  then show ?case by (auto simp: next_free.simps [of ns "Suc f"] key_at_def next_at_def le_Suc_eq split: if_splits)
qed (auto simp: next_free.simps [of ns 0] key_at_def next_at_def split: if_splits)

lemma next_free_None: "next_free ns f = None \<Longrightarrow> i \<le> f \<Longrightarrow> \<not> (key_at ns i = OT_NULL \<and> next_at ns i = None)"
proof (induction f)
  case (Suc f)
  then show ?case by (auto simp: next_free.simps [of ns "Suc f"] key_at_def next_at_def le_Suc_eq split: if_splits)
qed (auto simp: next_free.simps [of ns 0] key_at_def next_at_def split: if_splits)

definition with_val :: "nat \<Rightarrow> sq_object \<Rightarrow> hash_node list \<Rightarrow> hash_node list" where
  "with_val i v ns = ns[i := (ns ! i)\<lparr>n_val := v\<rparr>]"

lemma with_val_nth: "with_val i v ns ! j = (if j = i \<and> i < length ns then (ns ! i)\<lparr>n_val := v\<rparr> else ns ! j)"
  by (cases "i < length ns") (simp_all add: with_val_def nth_list_update not_less list_update_beyond)

lemma with_val_simps [simp]:
  "length (with_val i v ns) = length ns"
  "key_at (with_val i v ns) = key_at ns"
  "next_at (with_val i v ns) = next_at ns"
  by (simp_all add: key_at_def next_at_def with_val_nth fun_eq_iff) (simp add: with_val_def)

lemma with_val_keys [simp]:
  "distinct_keys (with_val i v ns) = distinct_keys ns"
  "num_keys (with_val i v ns) = num_keys ns"
  "hashable_keys H (with_val i v ns) = hashable_keys H ns"
  by (simp_all add: distinct_keys_def num_keys_def hashable_keys_def)

lemma with_val_map:
  assumes "distinct_keys ns" and "i < length ns" and "key_at ns i \<noteq> OT_NULL"
  shows "nodes_map (with_val i v ns) = (nodes_map ns)(key_at ns i \<mapsto> v)"
proof (rule nodes_map_eqI)
  fix j assume j: "j < length (with_val i v ns)" "key_at (with_val i v ns) j \<noteq> OT_NULL"
  show "((nodes_map ns)(key_at ns i \<mapsto> v)) (key_at (with_val i v ns) j) = Some (n_val (with_val i v ns ! j))"
  proof (cases "j = i")
    case True
    then show ?thesis using assms(2) by (simp add: with_val_nth)
  next
    case False
    then have "key_at ns j \<noteq> key_at ns i" using assms j unfolding distinct_keys_def by auto
    then show ?thesis using j False nodes_map_at [OF assms(1), of j] by (simp add: with_val_nth)
  qed
next
  fix k w assume "((nodes_map ns)(key_at ns i \<mapsto> v)) k = Some w"
  then show "k \<noteq> OT_NULL \<and> (\<exists>j<length (with_val i v ns). key_at (with_val i v ns) j = k)"
    using assms nodes_map_Some [OF assms(1)] by (auto split: if_splits)
qed (use assms(1) in simp)

lemma with_key_new:
  assumes "distinct_keys ns" and "mp < length ns" and "key_at ns mp = OT_NULL" and "k \<noteq> OT_NULL" and "\<And>i. i < length ns \<Longrightarrow> key_at ns i \<noteq> k"
  shows "distinct_keys (with_key mp k ns)" and "num_keys (with_key mp k ns) = num_keys ns + 1"
    and "nodes_map (with_key mp k ns) = (nodes_map ns)(k \<mapsto> n_val (ns ! mp))"
proof -
  show dist: "distinct_keys (with_key mp k ns)"
    using assms unfolding distinct_keys_def by (auto simp: eq_commute split: if_splits)
  have "{i. i < length ns \<and> key_at (with_key mp k ns) i \<noteq> OT_NULL} = insert mp {i. i < length ns \<and> key_at ns i \<noteq> OT_NULL}"
    using assms(2-4) by auto
  then show "num_keys (with_key mp k ns) = num_keys ns + 1" using assms(3) by (simp add: num_keys_def)
  show "nodes_map (with_key mp k ns) = (nodes_map ns)(k \<mapsto> n_val (ns ! mp))"
  proof (rule nodes_map_eqI [OF dist])
    fix i assume i: "i < length (with_key mp k ns)" "key_at (with_key mp k ns) i \<noteq> OT_NULL"
    then show "((nodes_map ns)(k \<mapsto> n_val (ns ! mp))) (key_at (with_key mp k ns) i) = Some (n_val (with_key mp k ns ! i))"
      using assms(2) nodes_map_at [OF assms(1), of i] assms(5) [of i] by (auto simp: with_key_def [of mp k ns] key_at_def nth_list_update split: if_splits)
  next
    fix k' v assume "((nodes_map ns)(k \<mapsto> n_val (ns ! mp))) k' = Some v"
    then show "k' \<noteq> OT_NULL \<and> (\<exists>i<length (with_key mp k ns). key_at (with_key mp k ns) i = k')"
    proof (cases "k' = k")
      case True
      then show ?thesis using assms(2,4) by auto
    next
      case False
      assume "((nodes_map ns)(k \<mapsto> n_val (ns ! mp))) k' = Some v"
      then obtain i where "k' \<noteq> OT_NULL" "i < length ns" "key_at ns i = k'" using False nodes_map_Some [OF assms(1)] by auto
      moreover from this have "i \<noteq> mp" using assms(3) by auto
      ultimately show ?thesis using assms(2) by auto
    qed
  qed
qed

lemma try_slot_old:
  fixes v :: sq_object
  assumes "tbl_wf H t" and "k \<noteq> OT_NULL" and "hashable H k" and "i < length (t_nodes t)" and "key_at (t_nodes t) i = k"
  defines "t' \<equiv> t\<lparr>t_nodes := with_val i v (t_nodes t)\<rparr>"
  shows "try_slot H k v t = Inr (Some False, t')" and "tbl_wf H t'" and "tbl_map t' = (tbl_map t)(k \<mapsto> v)"
proof -
  have wf: "nodes_wf (main_of H (length (t_nodes t))) (key_at (t_nodes t)) (next_at (t_nodes t)) (length (t_nodes t)) (t_firstfree t)"
    using assms(1) by (simp add: tbl_wf_def)
  have "main_of H (length (t_nodes t)) k < length (t_nodes t)" using assms(1) main_of_less by (auto simp: tbl_wf_def)
  from SQTable_node_found [OF wf this] obtain r where r: "SQTable_node (t_nodes t) k (main_of H (length (t_nodes t)) k) = Inr r"
    "case r of Some i \<Rightarrow> i < length (t_nodes t) \<and> key_at (t_nodes t) i = k | None \<Rightarrow> k \<noteq> OT_NULL \<longrightarrow> (\<forall>i<length (t_nodes t). key_at (t_nodes t) i \<noteq> k)"
    by blast
  have dist: "distinct_keys (t_nodes t)" using tbl_wf_distinct [OF assms(1)] .
  have "r = Some i" using r(2) assms(2,4,5) dist by (auto simp: distinct_keys_def split: option.splits)
  then show "try_slot H k v t = Inr (Some False, t')"
    using r(1) assms(2) main_slot_main [OF assms(3)] by (simp add: try_slot_def t'_def with_val_def)
  show "tbl_wf H t'" using assms(1) by (simp add: tbl_wf_def t'_def)
  show "tbl_map t' = (tbl_map t)(k \<mapsto> v)" using with_val_map [OF dist assms(4)] assms(2,5) by (simp add: t'_def)
qed

lemma try_slot_new:
  assumes "tbl_wf H t" and "k \<noteq> OT_NULL" and "hashable H k" and "\<And>i. i < length (t_nodes t) \<Longrightarrow> key_at (t_nodes t) i \<noteq> k"
  shows "\<exists>r t'. try_slot H k v t = Inr (r, t') \<and> t_delegate t' = t_delegate t \<and> length (t_nodes t') = length (t_nodes t) \<and>
    (case r of
       Some b \<Rightarrow> b \<and> tbl_wf H t' \<and> tbl_map t' = (tbl_map t)(k \<mapsto> v) \<and> t_used t' = t_used t + 1
     | None \<Rightarrow> distinct_keys (t_nodes t') \<and> hashable_keys H (t_nodes t') \<and> num_keys (t_nodes t') = num_keys (t_nodes t) + 1 \<and>
         t_used t' = t_used t \<and> (\<exists>w. tbl_map t' = (tbl_map t)(k \<mapsto> w))) \<and>
    (compact_nodes (t_nodes t) (t_firstfree t) \<and> t_used t + 1 < int (length (t_nodes t)) \<longrightarrow> r = Some True \<and> compact_nodes (t_nodes t') (t_firstfree t'))"
proof -
  let ?n = "length (t_nodes t)" and ?f = "t_firstfree t"
  have wf: "nodes_wf (main_of H ?n) (key_at (t_nodes t)) (next_at (t_nodes t)) ?n ?f" using assms(1) by (simp add: tbl_wf_def)
  then have f: "?f < ?n" by (simp add: nodes_wf_def)
  have "main_of H ?n k < ?n" using assms(1) main_of_less by (auto simp: tbl_wf_def)
  from SQTable_node_found [OF wf this] obtain r where "SQTable_node (t_nodes t) k (main_of H ?n k) = Inr r"
    "case r of Some i \<Rightarrow> i < ?n \<and> key_at (t_nodes t) i = k | None \<Rightarrow> k \<noteq> OT_NULL \<longrightarrow> (\<forall>i<?n. key_at (t_nodes t) i \<noteq> k)"
    by blast
  then have none: "SQTable_node (t_nodes t) k (main_of H ?n k) = Inr None" using assms(4) by (auto split: option.splits)
  obtain mp ns where place: "place_key H (main_of H ?n k) t = Inr (mp, ns)" "placed H k t mp ns" using place_key_placed [OF assms(1,4)] by blast
  then have ns: "length ns = ?n" "mp < ?n" "key_at ns mp = OT_NULL" "distinct_keys ns" "num_keys ns = num_keys (t_nodes t)" "nodes_map ns = tbl_map t"
    using tbl_wf_distinct [OF assms(1)] by (auto simp: placed_def same_entries_def Let_def)
  have from_old: "key_at ns i = OT_NULL \<or> (\<exists>j<?n. key_at ns i = key_at (t_nodes t) j)" if "i < ?n" for i
    using place(2) that by (auto simp: placed_def same_entries_def Let_def)
  have absent: "key_at ns i \<noteq> k" if "i < length ns" for i using from_old [of i] that ns(1) assms(2,4) by metis
  define ns2 where "ns2 = with_key mp k ns"
  have len2: "length ns2 = ?n" by (simp add: ns2_def ns(1))
  have new: "distinct_keys ns2" "num_keys ns2 = num_keys (t_nodes t) + 1" "nodes_map ns2 = (tbl_map t)(k \<mapsto> n_val (ns ! mp))"
    using with_key_new [OF ns(4) _ ns(3) assms(2) absent] ns(1,2,5,6) by (simp_all add: ns2_def)
  have key2: "key_at ns2 = (key_at ns)(mp := k)" using ns(1,2) by (simp add: ns2_def)
  have hash_null: "hashable H OT_NULL" by (simp add: hashable_def HashObj_def)
  have hash2: "hashable_keys H ns2"
    unfolding hashable_keys_def
  proof (intro allI impI)
    fix i assume "i < length ns2"
    then show "hashable H (key_at ns2 i)"
      using from_old [of i] len2 assms(1,3) hash_null by (auto simp: key2 tbl_wf_def hashable_keys_def)
  qed
  have run: "try_slot H k v t =
      (case next_free ns2 ?f of
        Some f \<Rightarrow> Inr (Some True, t\<lparr>t_nodes := with_val mp v ns2, t_firstfree := f, t_used := t_used t + 1\<rparr>)
      | None \<Rightarrow> Inr (None, t\<lparr>t_nodes := ns2, t_firstfree := 0\<rparr>))"
    using none place(1) assms(2) main_slot_main [OF assms(3)] by (simp add: try_slot_def Let_def ns2_def with_key_def with_val_def split: option.split)
  have compact2: "(key_at ns2 i = OT_NULL \<longrightarrow> next_at ns2 i = None) \<and> (?f < i \<longrightarrow> key_at ns2 i \<noteq> OT_NULL)"
    if "compact_nodes (t_nodes t) ?f" "i < ?n" for i
    using place(2) that unfolding placed_def Let_def ns2_def [symmetric] by blast
  have used: "t_used t = int (num_keys (t_nodes t))" using assms(1) by (simp add: tbl_wf_def)
  show ?thesis
  proof (cases "next_free ns2 ?f")
    case None
    have "?n \<le> num_keys ns2" if "compact_nodes (t_nodes t) ?f"
    proof -
      have "key_at ns2 i \<noteq> OT_NULL" if "i < ?n" for i
        using next_free_None [OF None, of i] compact2 [OF \<open>compact_nodes (t_nodes t) ?f\<close> that] by (cases "i \<le> ?f") auto
      then have "{i. i < length ns2 \<and> key_at ns2 i \<noteq> OT_NULL} = {..<?n}" using len2 by auto
      then show ?thesis by (simp add: num_keys_def)
    qed
    then show ?thesis using run None new hash2 len2 used by auto
  next
    case (Some f)
    note g = next_free_Some [OF Some]
    let ?t = "t\<lparr>t_nodes := with_val mp v ns2, t_firstfree := f, t_used := t_used t + 1\<rparr>"
    have "nodes_wf (main_of H ?n) (key_at ns2) (next_at ns2) ?n f"
      using place(2) g f unfolding placed_def Let_def ns2_def [symmetric] nodes_wf_def by auto
    then have "tbl_wf H ?t" using assms(1) len2 hash2 new(2) used by (simp add: tbl_wf_def)
    moreover have "tbl_map ?t = (tbl_map t)(k \<mapsto> v)"
      using with_val_map [OF new(1), of mp v] len2 ns(2) assms(2) new(3) by (simp add: key2)
    moreover have "compact_nodes (t_nodes ?t) f" if "compact_nodes (t_nodes t) ?f"
      unfolding compact_nodes_def using compact2 [OF that] g len2 by (fastforce simp: not_le)
    ultimately show ?thesis using run Some len2 by auto
  qed
qed

section \<open>Rehashing\<close>

lemma num_keys_le: "num_keys ns \<le> length ns"
  unfolding num_keys_def using card_mono [of "{..<length ns}" "{i. i < length ns \<and> key_at ns i \<noteq> OT_NULL}"] by auto

lemma key_at_empty [simp]: "i < n \<Longrightarrow> key_at (replicate n empty_node) i = OT_NULL"
  by (simp add: key_at_def empty_node_def)

lemma next_at_empty [simp]: "i < n \<Longrightarrow> next_at (replicate n empty_node) i = None"
  by (simp add: next_at_def empty_node_def)

lemma num_keys_empty [simp]: "num_keys (replicate n empty_node) = 0"
proof -
  have none: "{i. i < n \<and> key_at (replicate n empty_node) i \<noteq> OT_NULL} = {}" by auto
  show ?thesis unfolding num_keys_def length_replicate none by simp
qed

lemma nodes_map_empty [simp]: "nodes_map (replicate n empty_node) = Map.empty"
  by (rule ext) (auto simp: nodes_map_None)

lemma AllocNodes_wf:
  assumes "n = 2 ^ k" and "2 \<le> k" and "t_used t = 0"
  shows "tbl_wf H (SQTable_AllocNodes n t)" and "compact_nodes (t_nodes (SQTable_AllocNodes n t)) (t_firstfree (SQTable_AllocNodes n t))"
proof -
  have "0 < n" using assms(1) by simp
  have "\<exists>as. path (next_at (replicate n empty_node)) (Some i) as \<and> set as \<subseteq> {..<n}" if "i < n" for i
    using that by (intro exI [of _ "[i]"]) simp
  then have "links (next_at (replicate n empty_node)) n (n - 1)" by (auto simp: links_def)
  moreover have "keys_wf m (key_at (replicate n empty_node)) (next_at (replicate n empty_node)) n (n - 1)" for m
    by (auto simp: keys_wf_def)
  moreover have "hashable_keys H (replicate n empty_node)" by (simp add: hashable_keys_def hashable_def HashObj_def)
  ultimately show "tbl_wf H (SQTable_AllocNodes n t)"
    using assms \<open>0 < n\<close> by (auto simp: tbl_wf_def SQTable_AllocNodes_def nodes_wf_def)
  show "compact_nodes (t_nodes (SQTable_AllocNodes n t)) (t_firstfree (SQTable_AllocNodes n t))"
    by (auto simp: compact_nodes_def SQTable_AllocNodes_def)
qed

text \<open>What a rehash needs of the old nodes: their keys, not their links. An insertion that failed has put one more key there than it has counted.\<close>

definition rehashable :: "sq_heap \<Rightarrow> sq_table \<Rightarrow> bool" where
  "rehashable H t =
     ((\<exists>k\<ge>2. length (t_nodes t) = 2 ^ k) \<and> distinct_keys (t_nodes t) \<and> hashable_keys H (t_nodes t) \<and>
      t_used t \<le> int (num_keys (t_nodes t)) \<and> int (num_keys (t_nodes t)) \<le> t_used t + 1)"

lemma tbl_wf_rehashable: "tbl_wf H t \<Longrightarrow> rehashable H t"
  using tbl_wf_distinct by (auto simp: tbl_wf_def rehashable_def)

text \<open>The new size has room for all keys and one node more.\<close>

lemma rehash_size_room:
  assumes "rehashable H t" and "rehash_size force t = Some n"
  shows "\<exists>k\<ge>2. n = 2 ^ k" and "num_keys (t_nodes t) < n"
proof -
  obtain k where k: "2 \<le> k" "length (t_nodes t) = 2 ^ k" using assms(1) by (auto simp: rehashable_def)
  define j where "j = k - 2"
  have j: "k = Suc (Suc j)" using k(1) by (simp add: j_def)
  define q where "q = (2 :: nat) ^ j"
  have len: "length (t_nodes t) = 4 * q" "0 < q" using k(2) j by (simp_all add: q_def)
  have used: "t_used t \<le> int (num_keys (t_nodes t))" "int (num_keys (t_nodes t)) \<le> t_used t + 1" using assms(1) by (simp_all add: rehashable_def)
  have le: "num_keys (t_nodes t) \<le> 4 * q" using num_keys_le [of "t_nodes t"] len by simp
  have n: "(n = 8 * q) \<or> (n = 2 * q \<and> t_used t \<le> int q \<and> 1 < q) \<or> (n = 4 * q \<and> t_used t < 3 * int q)"
  proof -
    have "max 4 (4 * q) = 4 * q" "4 * q - 4 * q div 4 = 3 * q" "4 * q div 4 = q" "4 * q div 2 = 2 * q" "4 * q * 2 = 8 * q" using len(2) by simp_all
    then have "rehash_size force t = (if int (3 * q) \<le> t_used t then Some (8 * q) else if t_used t \<le> int q \<and> 4 < 4 * q then Some (2 * q)
        else if force then Some (4 * q) else None)"
      unfolding rehash_size_def Let_def len(1) MINPOWER2_def by simp
    then show ?thesis using assms(2) by (simp split: if_splits)
  qed
  show "num_keys (t_nodes t) < n" using n used le len(2) by auto
  show "\<exists>k\<ge>2. n = 2 ^ k"
  proof -
    consider "n = 8 * q" | "n = 2 * q" "1 < q" | "n = 4 * q" using n by blast
    then show ?thesis
    proof cases
      case 1
      then show ?thesis by (intro exI [of _ "Suc k"]) (use k j in \<open>simp add: q_def\<close>)
    next
      case 2
      then show ?thesis by (intro exI [of _ "Suc j"]) (cases j; simp add: q_def)
    next
      case 3
      then show ?thesis by (intro exI [of _ k]) (use k j in \<open>simp add: q_def\<close>)
    qed
  qed
qed

lemma NewSlot_nested_room:
  assumes "tbl_wf H t" and "compact_nodes (t_nodes t) (t_firstfree t)" and "k \<noteq> OT_NULL" and "hashable H k" and "tbl_map t k = None"
    and "t_used t + 1 < int (length (t_nodes t))"
  shows "\<exists>t'. NewSlot_nested (Suc d) H k v t = Inr (True, t') \<and> tbl_wf H t' \<and> compact_nodes (t_nodes t') (t_firstfree t') \<and>
    tbl_map t' = (tbl_map t)(k \<mapsto> v) \<and> t_used t' = t_used t + 1 \<and> t_delegate t' = t_delegate t \<and> length (t_nodes t') = length (t_nodes t)"
proof -
  have "key_at (t_nodes t) i \<noteq> k" if "i < length (t_nodes t)" for i using that assms(3,5) by (simp add: nodes_map_None)
  from try_slot_new [OF assms(1,3,4) this, of v] obtain r t' where t': "try_slot H k v t = Inr (r, t')" "t_delegate t' = t_delegate t"
    "length (t_nodes t') = length (t_nodes t)" "r = Some True" "compact_nodes (t_nodes t') (t_firstfree t')"
    "case r of Some b \<Rightarrow> b \<and> tbl_wf H t' \<and> tbl_map t' = (tbl_map t)(k \<mapsto> v) \<and> t_used t' = t_used t + 1 | None \<Rightarrow> True"
    using assms(2,6) by (auto split: option.splits)
  then show ?thesis by auto
qed

definition keys_below :: "hash_node list \<Rightarrow> nat \<Rightarrow> nat set" where
  "keys_below ns i = {j. j < i \<and> j < length ns \<and> key_at ns j \<noteq> OT_NULL}"

lemma keys_below_Suc: "i < length ns \<Longrightarrow> keys_below ns (Suc i) = (if key_at ns i = OT_NULL then keys_below ns i else insert i (keys_below ns i))"
  by (auto simp: keys_below_def less_Suc_eq)

lemma keys_below_finite [simp]: "finite (keys_below ns i)"
  by (rule finite_subset [of _ "{..<i}"]) (auto simp: keys_below_def)

lemma Rehash_with_all:
  assumes "rehashable H t" and "rehash_size force t = Some n"
  shows "\<exists>t'. Rehash_with (NewSlot_nested (Suc d) H) force t = Inr t' \<and> tbl_wf H t' \<and> tbl_map t' = tbl_map t \<and>
    t_delegate t' = t_delegate t \<and> compact_nodes (t_nodes t') (t_firstfree t') \<and> length (t_nodes t') = n"
proof -
  let ?ns = "t_nodes t" and ?t0 = "SQTable_AllocNodes n (t\<lparr>t_used := 0\<rparr>)"
  let ?n = "length (t_nodes t)"
  have dist: "distinct_keys ?ns" and hash: "hashable_keys H ?ns" using assms(1) by (simp_all add: rehashable_def)
  have "4 \<le> ?n"
  proof -
    obtain k where "2 \<le> k" "?n = 2 ^ k" using assms(1) by (auto simp: rehashable_def)
    then show ?thesis using power_increasing [of 2 k "2 :: nat"] by simp
  qed
  then have max: "max 4 ?n = ?n" by simp
  let ?f = "\<lambda>i t'. case node_heap ?ns i of None \<Rightarrow> Inl OutOfBoundsRead
    | Some old \<Rightarrow> if n_key old \<noteq> OT_NULL then map_res snd (NewSlot_nested (Suc d) H (n_key old) (n_val old) t') else Inr t'"
  let ?P = "\<lambda>i t'. tbl_wf H t' \<and> compact_nodes (t_nodes t') (t_firstfree t') \<and> length (t_nodes t') = n \<and> t_delegate t' = t_delegate t \<and>
    t_used t' = int (card (keys_below ?ns i)) \<and> tbl_map t' = (\<lambda>k. if \<exists>j<i. key_at ?ns j = k then nodes_map ?ns k else None)"
  obtain k where k: "2 \<le> k" "n = 2 ^ k" using rehash_size_room(1) [OF assms] by auto
  have start: "?P 0 ?t0"
    using AllocNodes_wf(1) [OF k(2,1), of "t\<lparr>t_used := 0\<rparr>" H] AllocNodes_wf(2) [OF k(2,1), of "t\<lparr>t_used := 0\<rparr>"]
    by (auto simp: SQTable_AllocNodes_def keys_below_def)
  have step: "\<exists>u'. ?f i u = Inr u' \<and> ?P (Suc i) u'" if i: "i < ?n" and P: "?P i u" for i u
  proof (cases "key_at ?ns i = OT_NULL")
    case True
    have "nodes_map ?ns OT_NULL = None" by (simp add: nodes_map_def)
    then have "?P (Suc i) u" using P True keys_below_Suc [OF i] by (auto simp: less_Suc_eq fun_eq_iff)
    then show ?thesis using i True by (simp add: node_heap_def key_at_def)
  next
    case False
    let ?k = "key_at ?ns i"
    have val: "nodes_map ?ns ?k = Some (n_val (?ns ! i))" by (rule nodes_map_at [OF dist i False])
    have "\<not> (\<exists>j<i. key_at ?ns j = ?k)" using i False dist unfolding distinct_keys_def by (metis less_trans less_irrefl)
    then have new: "tbl_map u ?k = None" using P by (metis (no_types, lifting))
    have card: "card (keys_below ?ns (Suc i)) = card (keys_below ?ns i) + 1"
      using keys_below_Suc [OF i] False by (simp add: keys_below_def)
    have "keys_below ?ns (Suc i) \<subseteq> {j. j < ?n \<and> key_at ?ns j \<noteq> OT_NULL}" by (auto simp: keys_below_def)
    then have "card (keys_below ?ns (Suc i)) \<le> num_keys ?ns" unfolding num_keys_def by (rule card_mono [rotated]) simp
    then have room: "t_used u + 1 < int (length (t_nodes u))" using P card rehash_size_room(2) [OF assms] by linarith
    have "hashable H ?k" using hash i by (simp add: hashable_keys_def)
    from NewSlot_nested_room [OF _ _ False this new room, of d "n_val (?ns ! i)"] P obtain u' where
      u': "NewSlot_nested (Suc d) H ?k (n_val (?ns ! i)) u = Inr (True, u')" "tbl_wf H u'" "compact_nodes (t_nodes u') (t_firstfree u')"
      "tbl_map u' = (tbl_map u)(?k \<mapsto> n_val (?ns ! i))" "t_used u' = t_used u + 1" "t_delegate u' = t_delegate u" "length (t_nodes u') = length (t_nodes u)"
      by blast
    have "tbl_map u' = (\<lambda>k. if \<exists>j<Suc i. key_at ?ns j = k then nodes_map ?ns k else None)"
      using u'(4) P val by (auto simp: fun_eq_iff less_Suc_eq)
    then have "?P (Suc i) u'" using u' P card by simp
    moreover have "?f i u = Inr u'" using u'(1) i False by (simp add: node_heap_def key_at_def del: NewSlot_nested.simps)
    ultimately show ?thesis by blast
  qed
  obtain t' where t': "fold_res ?f [0..<?n] ?t0 = Inr t'" "?P ?n t'" using fold_res_upt [of ?P ?t0 ?n ?f, OF start step] by blast
  have "tbl_map t' = tbl_map t"
  proof
    fix k
    show "tbl_map t' k = tbl_map t k" using t'(2) nodes_map_None [of ?ns k] by auto
  qed
  then show ?thesis using t' assms(2) max by (auto simp: Rehash_with_def simp del: NewSlot_nested.simps)
qed

section \<open>Inserting\<close>

lemma NewSlot_inserts:
  assumes "tbl_wf H t" and "k \<noteq> OT_NULL" and "hashable H k"
  shows "\<exists>b t'. SQTable_NewSlot H k v t = Inr (b, t') \<and> tbl_wf H t' \<and> tbl_map t' = (tbl_map t)(k \<mapsto> v) \<and> t_delegate t' = t_delegate t \<and>
    (b \<longrightarrow> tbl_map t k = None) \<and> (\<not> b \<and> tbl_map t k = None \<longrightarrow> compact_nodes (t_nodes t') (t_firstfree t'))"
proof -
  have depth: "NESTING = Suc (Suc (Suc 0))" by (simp add: NESTING_def)
  show ?thesis
  proof (cases "\<exists>i<length (t_nodes t). key_at (t_nodes t) i = k")
    case True
    then obtain i where i: "i < length (t_nodes t)" "key_at (t_nodes t) i = k" by blast
    have "tbl_map t k \<noteq> None" using i assms(2) nodes_map_None by blast
    then have some: "(tbl_map t k = None) = False" by simp
    show ?thesis unfolding some using try_slot_old [OF assms i, of v]
      by (intro exI [of _ False] exI [of _ "t\<lparr>t_nodes := with_val i v (t_nodes t)\<rparr>"]) (simp add: SQTable_NewSlot_def depth)
  next
    case False
    then have absent: "key_at (t_nodes t) i \<noteq> k" if "i < length (t_nodes t)" for i using that by blast
    then have none: "tbl_map t k = None" by (simp add: nodes_map_None)
    from try_slot_new [OF assms absent, of v] obtain r t1 where t1: "try_slot H k v t = Inr (r, t1)" "t_delegate t1 = t_delegate t"
      "length (t_nodes t1) = length (t_nodes t)"
      "case r of Some b \<Rightarrow> b \<and> tbl_wf H t1 \<and> tbl_map t1 = (tbl_map t)(k \<mapsto> v) \<and> t_used t1 = t_used t + 1
       | None \<Rightarrow> distinct_keys (t_nodes t1) \<and> hashable_keys H (t_nodes t1) \<and> num_keys (t_nodes t1) = num_keys (t_nodes t) + 1 \<and>
           t_used t1 = t_used t \<and> (\<exists>w. tbl_map t1 = (tbl_map t)(k \<mapsto> w))"
      by blast
    show ?thesis
    proof (cases r)
      case (Some b)
      then show ?thesis using t1 none by (auto simp: SQTable_NewSlot_def depth)
    next
      case None
      then obtain w where w: "tbl_map t1 = (tbl_map t)(k \<mapsto> w)" using t1(4) by auto
      have reh: "rehashable H t1" using t1(3,4) None assms(1) by (auto simp: rehashable_def tbl_wf_def)
      have "\<exists>n. rehash_size True t1 = Some n" by (simp add: rehash_size_def Let_def)
      then obtain n where "rehash_size True t1 = Some n" by blast
      from Rehash_with_all [OF reh this, of 1] obtain t2 where t2: "Rehash_with (NewSlot_nested 2 H) True t1 = Inr t2" "tbl_wf H t2"
        "tbl_map t2 = tbl_map t1" "t_delegate t2 = t_delegate t1" "compact_nodes (t_nodes t2) (t_firstfree t2)"
        by (auto simp: numeral_2_eq_2 simp del: NewSlot_nested.simps)
      have "tbl_map t2 k \<noteq> None" using t2(3) w by simp
      then obtain i where i: "i < length (t_nodes t2)" "key_at (t_nodes t2) i = k" unfolding nodes_map_None by blast
      let ?t3 = "t2\<lparr>t_nodes := with_val i v (t_nodes t2)\<rparr>"
      note old = try_slot_old [OF t2(2) assms(2,3) i, of v]
      have "SQTable_NewSlot H k v t = Inr (False, ?t3)"
        using t1(1) None t2(1) old(1) by (simp add: SQTable_NewSlot_def depth numeral_2_eq_2)
      moreover have "compact_nodes (t_nodes ?t3) (t_firstfree ?t3)" using t2(5) by (simp add: compact_nodes_def)
      moreover have "tbl_map ?t3 = (tbl_map t)(k \<mapsto> v)" using old(3) t2(3) w by simp
      moreover have "t_delegate ?t3 = t_delegate t" using t2(4) t1(2) by simp
      ultimately show ?thesis using old(2) by (intro exI [of _ False] exI [of _ ?t3] conjI impI) (assumption | simp only: simp_thms)+
    qed
  qed
qed

end
