(* ===== verification/Capy_SQOps.thy ===== *)
theory Capy_SQOps
  imports Capy_SQMap
begin

text \<open>
  The other operations of the script language's hash table, and the table as a whole: whatever is done to it, it answers as the map does.
\<close>

section \<open>The other operations\<close>

lemma main_slot_wf:
  assumes "tbl_wf H t"
  shows "\<exists>r. SQTable_node (t_nodes t) k (main_of H (length (t_nodes t)) k) = Inr r \<and>
    (case r of Some i \<Rightarrow> i < length (t_nodes t) \<and> key_at (t_nodes t) i = k | None \<Rightarrow> k \<noteq> OT_NULL \<longrightarrow> tbl_map t k = None)"
proof -
  have "main_of H (length (t_nodes t)) k < length (t_nodes t)" using assms main_of_less by (auto simp: tbl_wf_def)
  moreover have "nodes_wf (main_of H (length (t_nodes t))) (key_at (t_nodes t)) (next_at (t_nodes t)) (length (t_nodes t)) (t_firstfree t)"
    using assms by (simp add: tbl_wf_def)
  ultimately obtain r where "SQTable_node (t_nodes t) k (main_of H (length (t_nodes t)) k) = Inr r"
    "case r of Some i \<Rightarrow> i < length (t_nodes t) \<and> key_at (t_nodes t) i = k | None \<Rightarrow> k \<noteq> OT_NULL \<longrightarrow> (\<forall>i<length (t_nodes t). key_at (t_nodes t) i \<noteq> k)"
    using SQTable_node_found by blast
  then show ?thesis by (cases r) (auto simp: nodes_map_None)
qed

lemma Get_map:
  assumes "tbl_wf H t" and "hashable H k"
  shows "SQTable_Get H k t = (case tbl_map t k of None \<Rightarrow> Inr None | Some v \<Rightarrow> map_res Some (realval H v))"
proof (cases "k = OT_NULL")
  case True
  then show ?thesis by (simp add: SQTable_Get_def nodes_map_def)
next
  case False
  obtain r where r: "SQTable_node (t_nodes t) k (main_of H (length (t_nodes t)) k) = Inr r"
    "case r of Some i \<Rightarrow> i < length (t_nodes t) \<and> key_at (t_nodes t) i = k | None \<Rightarrow> k \<noteq> OT_NULL \<longrightarrow> tbl_map t k = None"
    using main_slot_wf [OF assms(1)] by blast
  show ?thesis
  proof (cases r)
    case None
    then show ?thesis using r False main_slot_main [OF assms(2)] by (simp add: SQTable_Get_def)
  next
    case (Some i)
    then have "tbl_map t k = Some (n_val (t_nodes t ! i))" using r(2) nodes_map_at [OF tbl_wf_distinct [OF assms(1)]] False by auto
    then show ?thesis using r(1) Some False main_slot_main [OF assms(2)] by (simp add: SQTable_Get_def)
  qed
qed

lemma Set_updates:
  assumes "tbl_wf H t" and "k \<noteq> OT_NULL" and "hashable H k"
  shows "\<exists>t'. SQTable_Set H k v t = Inr (tbl_map t k \<noteq> None, t') \<and> tbl_wf H t' \<and> t_delegate t' = t_delegate t \<and>
    tbl_map t' = (if tbl_map t k = None then tbl_map t else (tbl_map t)(k \<mapsto> v))"
proof -
  obtain r where r: "SQTable_node (t_nodes t) k (main_of H (length (t_nodes t)) k) = Inr r"
    "case r of Some i \<Rightarrow> i < length (t_nodes t) \<and> key_at (t_nodes t) i = k | None \<Rightarrow> k \<noteq> OT_NULL \<longrightarrow> tbl_map t k = None"
    using main_slot_wf [OF assms(1)] by blast
  show ?thesis
  proof (cases r)
    case None
    then show ?thesis using r assms main_slot_main [OF assms(3)] by (simp add: SQTable_Set_def)
  next
    case (Some i)
    then have i: "i < length (t_nodes t)" "key_at (t_nodes t) i = k" using r(2) by simp_all
    have dist: "distinct_keys (t_nodes t)" using tbl_wf_distinct [OF assms(1)] .
    have "tbl_map t k \<noteq> None" using nodes_map_at [OF dist i(1)] i(2) assms(2) by simp
    then have some: "(tbl_map t k = None) = False" by simp
    have "SQTable_Set H k v t = Inr (True, t\<lparr>t_nodes := with_val i v (t_nodes t)\<rparr>)"
      using r(1) Some main_slot_main [OF assms(3)] by (simp add: SQTable_Set_def with_val_def)
    moreover have "tbl_wf H (t\<lparr>t_nodes := with_val i v (t_nodes t)\<rparr>)" using assms(1) by (simp add: tbl_wf_def)
    moreover have "nodes_map (with_val i v (t_nodes t)) = (tbl_map t)(k \<mapsto> v)" using with_val_map [OF dist i(1), of v] i(2) assms(2) by simp
    ultimately show ?thesis unfolding some by simp
  qed
qed

text \<open>A node loses its key; the links stay.\<close>

definition without_key :: "nat \<Rightarrow> hash_node list \<Rightarrow> hash_node list" where
  "without_key i ns = ns[i := (ns ! i)\<lparr>n_val := OT_NULL, n_key := OT_NULL\<rparr>]"

lemma without_key_simps:
  assumes "i < length ns"
  shows "length (without_key i ns) = length ns" "key_at (without_key i ns) = (key_at ns)(i := OT_NULL)" "next_at (without_key i ns) = next_at ns"
    "j \<noteq> i \<Longrightarrow> n_val (without_key i ns ! j) = n_val (ns ! j)"
  using assms by (auto simp: without_key_def key_at_def next_at_def nth_list_update fun_eq_iff)

lemma without_key_wf:
  assumes "tbl_wf H t" and "i < length (t_nodes t)" and "key_at (t_nodes t) i = k" and "k \<noteq> OT_NULL"
  defines "t' \<equiv> t\<lparr>t_nodes := without_key i (t_nodes t), t_used := t_used t - 1\<rparr>"
  shows "tbl_wf H t'" and "tbl_map t' = (tbl_map t)(k := None)"
proof -
  let ?ns = "t_nodes t"
  note simps [simp] = without_key_simps [OF assms(2)]
  have dist: "distinct_keys ?ns" using tbl_wf_distinct [OF assms(1)] .
  have dist': "distinct_keys (without_key i ?ns)" using dist unfolding distinct_keys_def by auto
  have "{j. j < length ?ns \<and> key_at ?ns j \<noteq> OT_NULL} = insert i {j. j < length ?ns \<and> key_at (without_key i ?ns) j \<noteq> OT_NULL}"
    using assms(2-4) by auto
  then have num: "num_keys ?ns = num_keys (without_key i ?ns) + 1" by (simp add: num_keys_def)
  have wf: "links (next_at ?ns) (length ?ns) (t_firstfree t)"
    "keys_wf (main_of H (length ?ns)) (key_at ?ns) (next_at ?ns) (length ?ns) (t_firstfree t)"
    "t_firstfree t < length ?ns" "key_at ?ns (t_firstfree t) = OT_NULL" "next_at ?ns (t_firstfree t) = None"
    using assms(1) by (simp_all add: tbl_wf_def nodes_wf_def)
  have "keys_wf (main_of H (length ?ns)) ((key_at ?ns)(i := OT_NULL)) (next_at ?ns) (length ?ns) (t_firstfree t)"
    using wf(2) unfolding keys_wf_def by (auto split: if_splits)
  then have "nodes_wf (main_of H (length ?ns)) (key_at (without_key i ?ns)) (next_at (without_key i ?ns)) (length ?ns) (t_firstfree t)"
    using wf by (simp add: nodes_wf_def)
  moreover have "hashable_keys H (without_key i ?ns)" using assms(1) by (auto simp: tbl_wf_def hashable_keys_def) (simp add: hashable_def HashObj_def)
  ultimately show "tbl_wf H t'" using assms(1) num by (auto simp: tbl_wf_def t'_def)
  have "nodes_map (without_key i ?ns) = (tbl_map t)(k := None)"
  proof (rule nodes_map_eqI [OF dist'])
    fix j assume j: "j < length (without_key i ?ns)" "key_at (without_key i ?ns) j \<noteq> OT_NULL"
    then have "j \<noteq> i" by auto
    moreover from this have "key_at ?ns j \<noteq> k" using j dist assms(2,3) unfolding distinct_keys_def by auto
    ultimately show "((tbl_map t)(k := None)) (key_at (without_key i ?ns) j) = Some (n_val (without_key i ?ns ! j))"
      using j nodes_map_at [OF dist, of j] by simp
  next
    fix k' v assume "((tbl_map t)(k := None)) k' = Some v"
    then have "k' \<noteq> k" "tbl_map t k' = Some v" by (auto split: if_splits)
    then obtain j where "k' \<noteq> OT_NULL" "j < length ?ns" "key_at ?ns j = k'" using nodes_map_Some [OF dist] by blast
    moreover from this have "j \<noteq> i" using \<open>k' \<noteq> k\<close> assms(3) by auto
    ultimately show "k' \<noteq> OT_NULL \<and> (\<exists>j<length (without_key i ?ns). key_at (without_key i ?ns) j = k')" by auto
  qed
  then show "tbl_map t' = (tbl_map t)(k := None)" by (simp add: t'_def)
qed

lemma SQTable_Rehash_wf:
  assumes "rehashable H t" and "force \<or> tbl_wf H t"
  shows "\<exists>t'. SQTable_Rehash H force t = Inr t' \<and> tbl_wf H t' \<and> tbl_map t' = tbl_map t \<and> t_delegate t' = t_delegate t"
proof (cases "rehash_size force t")
  case None
  then have "tbl_wf H t" using assms(2) by (auto simp: rehash_size_def Let_def split: if_splits)
  then show ?thesis using None by (simp add: SQTable_Rehash_def Rehash_with_def)
next
  case (Some n)
  have "NESTING = Suc 2" by (simp add: NESTING_def)
  then show ?thesis using Rehash_with_all [OF assms(1) Some, of 2] unfolding SQTable_Rehash_def by metis
qed

lemma Remove_removes_key:
  assumes "tbl_wf H t" and "k \<noteq> OT_NULL" and "hashable H k"
  shows "\<exists>t'. SQTable_Remove H k t = Inr t' \<and> tbl_wf H t' \<and> tbl_map t' = (tbl_map t)(k := None) \<and> t_delegate t' = t_delegate t"
proof -
  obtain r where r: "SQTable_node (t_nodes t) k (main_of H (length (t_nodes t)) k) = Inr r"
    "case r of Some i \<Rightarrow> i < length (t_nodes t) \<and> key_at (t_nodes t) i = k | None \<Rightarrow> k \<noteq> OT_NULL \<longrightarrow> tbl_map t k = None"
    using main_slot_wf [OF assms(1)] by blast
  show ?thesis
  proof (cases r)
    case None
    then show ?thesis using r assms main_slot_main [OF assms(3)] by (auto simp: SQTable_Remove_def fun_upd_idem)
  next
    case (Some i)
    then have i: "i < length (t_nodes t)" "key_at (t_nodes t) i = k" using r(2) by simp_all
    let ?t = "t\<lparr>t_nodes := without_key i (t_nodes t), t_used := t_used t - 1\<rparr>"
    note wf = without_key_wf [OF assms(1) i assms(2)]
    obtain t' where "SQTable_Rehash H False ?t = Inr t'" "tbl_wf H t'" "tbl_map t' = tbl_map ?t" "t_delegate t' = t_delegate ?t"
      using SQTable_Rehash_wf [OF tbl_wf_rehashable [OF wf(1)], of False] wf(1) by blast
    moreover have "SQTable_Remove H k t = SQTable_Rehash H False ?t"
      using r(1) Some main_slot_main [OF assms(3)] by (simp add: SQTable_Remove_def without_key_def)
    ultimately show ?thesis using wf(2) by auto
  qed
qed

lemma Clear_empties:
  assumes "tbl_wf H t"
  shows "\<exists>t'. SQTable_Clear H t = Inr t' \<and> tbl_wf H t' \<and> tbl_map t' = Map.empty \<and> t_delegate t' = t_delegate t"
proof -
  let ?t = "(SQTable_ClearNodes t)\<lparr>t_used := 0\<rparr>"
  have len: "length (t_nodes ?t) = length (t_nodes t)" and key: "i < length (t_nodes t) \<Longrightarrow> key_at (t_nodes ?t) i = OT_NULL" for i
    by (simp_all add: SQTable_ClearNodes_def key_at_def)
  have none: "{i. i < length (t_nodes ?t) \<and> key_at (t_nodes ?t) i \<noteq> OT_NULL} = {}" using key len by auto
  have "num_keys (t_nodes ?t) = 0" unfolding num_keys_def none by simp
  moreover have "distinct_keys (t_nodes ?t)" "hashable_keys H (t_nodes ?t)"
    using key len by (auto simp: distinct_keys_def hashable_keys_def hashable_def HashObj_def)
  ultimately have "rehashable H ?t" using assms len by (simp add: rehashable_def tbl_wf_def)
  moreover have "tbl_map ?t = Map.empty" using key len by (intro ext) (auto simp: nodes_map_None)
  ultimately show ?thesis using SQTable_Rehash_wf [of H ?t True] by (auto simp: SQTable_Clear_def SQTable_ClearNodes_def)
qed

lemma pow2size_pow2: "\<exists>k. pow2size n (2 ^ j) = 2 ^ k \<and> j \<le> k"
proof (induction n "(2 :: nat) ^ j" arbitrary: j rule: pow2size.induct)
  case (1 n)
  have "pow2size n (2 ^ j) = (if 2 ^ j < n then pow2size n (2 ^ Suc j) else 2 ^ j)" by (subst pow2size.simps) (simp add: mult.commute)
  moreover have "\<exists>k. pow2size n (2 ^ Suc j) = 2 ^ k \<and> Suc j \<le> k" if "2 ^ j < n" using 1 [of "Suc j"] that by (simp add: mult.commute)
  ultimately show ?case by (auto intro: Suc_leD)
qed

lemma Create_wf: "tbl_wf H (SQTable_Create n)" and Create_map: "tbl_map (SQTable_Create n) = Map.empty"
proof -
  obtain k where "pow2size n MINPOWER2 = 2 ^ k" "2 \<le> k" using pow2size_pow2 [of n 2] by (auto simp: MINPOWER2_def)
  then show "tbl_wf H (SQTable_Create n)" unfolding SQTable_Create_def by (intro AllocNodes_wf) auto
  show "tbl_map (SQTable_Create n) = Map.empty" by (simp add: SQTable_Create_def SQTable_AllocNodes_def)
qed

section \<open>Looking a text up\<close>

lemma find_str_path:
  assumes "path (next_at ns) (Some i) as" and "set as \<subseteq> {..<length ns}" and "hashable_keys H ns"
  shows "run_loop (find_str H ns key i) =
    Inr (find (\<lambda>j. case key_at ns j of OT_STRING a \<Rightarrow> c_str (str_val (the (sq_strs H a))) = c_str key | _ \<Rightarrow> False) as)"
  using assms(1,2)
proof (induction as arbitrary: i)
  case (Cons a as)
  let ?P = "\<lambda>j. case key_at ns j of OT_STRING a \<Rightarrow> c_str (str_val (the (sq_strs H a))) = c_str key | _ \<Rightarrow> False"
  let ?same = "case n_key (ns ! a) of OT_STRING a \<Rightarrow> (case sq_strs H a of None \<Rightarrow> Inl UseAfterFree | Some s \<Rightarrow> Inr (c_str (str_val s) = c_str key)) | _ \<Rightarrow> Inr False"
  have a: "a = i" "a < length ns" "path (next_at ns) (next_at ns a) as" "set as \<subseteq> {..<length ns}" using Cons.prems by auto
  have "hashable H (key_at ns a)" using assms(3) a(2) by (simp add: hashable_keys_def)
  then have same: "?same = Inr (?P a)"
    by (cases "n_key (ns ! a)") (auto simp: key_at_def hashable_def HashObj_def split: option.splits)
  have run: "find_str H ns key i = (if ?P a then Some (Inr (Some a)) else case next_at ns a of None \<Rightarrow> Some (Inr None) | Some j \<Rightarrow> find_str H ns key j)"
    using a(1,2) by (subst find_str.simps) (simp add: node_heap_def next_at_def Let_def same [unfolded a(1)])
  show ?case
  proof (cases "?P a")
    case True
    then show ?thesis using run a(1) by simp
  next
    case False
    show ?thesis
    proof (cases "next_at ns a")
      case None
      then show ?thesis using run False a by simp
    next
      case (Some j)
      then show ?thesis using run False a Cons.IH [of j] by simp
    qed
  qed
qed simp

lemma c_str_val:
  assumes "well_made s" and "is_c_string (text_of s)"
  shows "c_str (str_val s) = text_of s"
proof -
  have "str_val s = text_of s @ [NUL]" using assms(1) by (simp add: well_made_def)
  then show ?thesis using c_str_append_NUL [OF assms(2), of "[]"] by simp
qed

lemma GetStr_map:
  assumes "tbl_wf H t" and "sq_strs H = ss_heap st" and "strings_wf st" and "is_c_string s"
    and keys: "\<And>i a u. i < length (t_nodes t) \<Longrightarrow> key_at (t_nodes t) i = OT_STRING a \<Longrightarrow> has_text st a u \<Longrightarrow> is_c_string u"
  shows "has_text st a s \<Longrightarrow> SQTable_GetStr H (s @ [NUL]) (length s) t =
      (case tbl_map t (OT_STRING a) of None \<Rightarrow> Inr None | Some v \<Rightarrow> map_res Some (realval H v))"
    and "(\<And>a. \<not> has_text st a s) \<Longrightarrow> SQTable_GetStr H (s @ [NUL]) (length s) t = Inr None"
proof -
  let ?ns = "t_nodes t"
  let ?n = "length ?ns"
  define h where "h = slot_of (hashstr (s @ [NUL]) (length s)) ?n"
  let ?P = "\<lambda>j. case key_at ?ns j of OT_STRING a \<Rightarrow> c_str (str_val (the (sq_strs H a))) = c_str (s @ [NUL]) | _ \<Rightarrow> False"
  have wf: "links (next_at ?ns) ?n (t_firstfree t)" "keys_wf (main_of H ?n) (key_at ?ns) (next_at ?ns) ?n (t_firstfree t)" "hashable_keys H ?ns"
    using assms(1) by (simp_all add: tbl_wf_def nodes_wf_def)
  have dist: "distinct_keys ?ns" using tbl_wf_distinct [OF assms(1)] .
  have "h < ?n" using assms(1) by (auto simp: h_def tbl_wf_def)
  then obtain as where as: "path (next_at ?ns) (Some h) as" "set as \<subseteq> {..<?n}" using links_path [OF wf(1)] by blast
  have run: "SQTable_GetStr H (s @ [NUL]) (length s) t =
      (case find ?P as of None \<Rightarrow> Inr None | Some i \<Rightarrow> map_res Some (realval H (n_val (?ns ! i))))"
    using find_str_path [OF as wf(3)] by (simp add: SQTable_GetStr_def h_def)
  have s: "c_str (s @ [NUL]) = s" using c_str_append_NUL [OF assms(4), of "[]"] by simp
  have P: "?P j \<longleftrightarrow> (\<exists>a. key_at ?ns j = OT_STRING a \<and> has_text st a s)" if j: "j < ?n" for j
  proof (cases "\<exists>a. key_at ?ns j = OT_STRING a")
    case True
    then obtain a where a: "key_at ?ns j = OT_STRING a" by blast
    have "hashable H (OT_STRING a)" using wf(3) j a by (auto simp: hashable_keys_def)
    then obtain x where x: "ss_heap st a = Some x" by (auto simp: hashable_def HashObj_def assms(2) split: option.splits)
    have "is_c_string (text_of x)" using keys [OF j a, of "text_of x"] x by (simp add: has_text_def)
    moreover have "well_made x" using assms(3) x by (simp add: strings_wf_def)
    ultimately have "c_str (str_val x) = text_of x" by (rule c_str_val [rotated])
    then show ?thesis using a x s by (auto simp: assms(2) has_text_def)
  next
    case False
    then show ?thesis by (auto split: sq_object.splits)
  qed
  have unique: "a = b" if "has_text st a s" "has_text st b s" for a b
    using that assms(3) unfolding strings_wf_def has_text_def by metis
  show "SQTable_GetStr H (s @ [NUL]) (length s) t = (case tbl_map t (OT_STRING a) of None \<Rightarrow> Inr None | Some v \<Rightarrow> map_res Some (realval H v))"
    if a: "has_text st a s"
  proof -
    obtain x where x: "ss_heap st a = Some x" "text_of x = s" "well_made x" using a assms(3) by (auto simp: has_text_def strings_wf_def)
    have "hashstr (s @ [NUL]) (length s) = hashstr s (length s)" by (rule hashstr_cong) simp_all
    then have main: "main_of H ?n (OT_STRING a) = h" using x by (simp add: main_of_def HashObj_def assms(2) h_def well_made_def)
    show ?thesis
    proof (cases "find ?P as")
      case None
      have "tbl_map t (OT_STRING a) = None"
      proof (rule ccontr)
        assume "tbl_map t (OT_STRING a) \<noteq> None"
        then obtain j where j: "j < ?n" "key_at ?ns j = OT_STRING a" unfolding nodes_map_None by blast
        then have "reaches (next_at ?ns) h j" using keys_wf_place(2) [OF wf(2) j(1)] main by simp
        then have "j \<in> set as" using path_unique as(1) by (auto simp: reaches_def)
        moreover have "?P j" using P [OF j(1)] j(2) a by blast
        ultimately show False using None by (auto simp: find_None_iff)
      qed
      then show ?thesis using run None by simp
    next
      case (Some i)
      then have i: "i \<in> set as" "?P i" by (auto dest: find_Some_set)
      then have "i < ?n" using as(2) by auto
      then obtain b where "key_at ?ns i = OT_STRING b" "has_text st b s" using P i(2) by blast
      then have "key_at ?ns i = OT_STRING a" using unique a by blast
      then have "tbl_map t (OT_STRING a) = Some (n_val (?ns ! i))" using nodes_map_at [OF dist \<open>i < ?n\<close>] by simp
      then show ?thesis using run Some by simp
    qed
  qed
  show "SQTable_GetStr H (s @ [NUL]) (length s) t = Inr None" if "\<And>a. \<not> has_text st a s"
  proof -
    have "\<not> ?P j" if "j \<in> set as" for j using P [of j] that as(2) \<open>\<And>a. \<not> has_text st a s\<close> by blast
    then have "find ?P as = None" by (auto simp: find_None_iff)
    then show ?thesis using run by simp
  qed
qed

section \<open>Walking and cloning\<close>

lemma next_index_Some: "next_index ns i = Some j \<Longrightarrow> i \<le> j \<and> j < length ns \<and> key_at ns j \<noteq> OT_NULL \<and> (\<forall>l. i \<le> l \<and> l < j \<longrightarrow> key_at ns l = OT_NULL)"
proof (induction ns i rule: next_index.induct)
  case (1 ns i)
  show ?case
  proof (cases "i < length ns \<and> n_key (ns ! i) = OT_NULL")
    case True
    then have "next_index ns (Suc i) = Some j" using "1.prems" by (subst (asm) next_index.simps) simp
    then have IH: "Suc i \<le> j \<and> j < length ns \<and> key_at ns j \<noteq> OT_NULL \<and> (\<forall>l. Suc i \<le> l \<and> l < j \<longrightarrow> key_at ns l = OT_NULL)"
      using "1.IH" True by simp
    have "key_at ns l = OT_NULL" if "i \<le> l" "l < j" for l using that IH True by (cases "l = i") (auto simp: key_at_def)
    then show ?thesis using IH by auto
  next
    case False
    then show ?thesis using "1.prems" by (subst (asm) next_index.simps) (auto simp: key_at_def split: if_splits)
  qed
qed

lemma next_index_None: "next_index ns i = None \<Longrightarrow> i \<le> l \<Longrightarrow> l < length ns \<Longrightarrow> key_at ns l = OT_NULL"
proof (induction ns i rule: next_index.induct)
  case (1 ns i)
  have i: "i < length ns" using "1.prems" by simp
  then have null: "n_key (ns ! i) = OT_NULL" using "1.prems"(1) by (subst (asm) next_index.simps) (auto split: if_splits)
  then have "next_index ns (Suc i) = None" using "1.prems"(1) i by (subst (asm) next_index.simps) simp
  then show ?case using "1.IH" i null "1.prems"(2,3) by (cases "l = i") (auto simp: key_at_def)
qed

lemma index_word:
  assumes "i < 2 ^ 63"
  shows "sint (of_nat i :: u64) = int i"
proof -
  have "int i < 2 ^ 63" using assms by (metis of_nat_less_iff of_nat_numeral of_nat_power)
  then have "signed_take_bit 63 (int i) = int i" by (intro signed_take_bit_int_eq_self) simp_all
  then show ?thesis by (simp add: signed_of_nat)
qed

lemma Next_index:
  assumes "length (t_nodes t) < 2 ^ 63" and "i \<le> length (t_nodes t)"
  shows "SQTable_Next H w (OT_INTEGER (of_nat i)) t =
    (case next_index (t_nodes t) i of None \<Rightarrow> Inr None
     | Some j \<Rightarrow> bind_res (if w then Inr (n_val (t_nodes t ! j)) else realval H (n_val (t_nodes t ! j)))
         (\<lambda>v. Inr (Some (of_nat (Suc j), key_at (t_nodes t) j, v))))"
  using index_word [of i] assms by (simp add: SQTable_Next_def TranslateIndex_def key_at_def split: option.split)

text \<open>The map of the nodes from an index on.\<close>

lemma clone_loop_from:
  assumes "tbl_wf H t" and "length (t_nodes t) < 2 ^ 63" and "i \<le> length (t_nodes t)" and "tbl_wf H nt"
  shows "\<exists>nt'. run_loop (clone_loop H t (of_nat i) nt) = Inr nt' \<and> tbl_wf H nt' \<and> t_delegate nt' = t_delegate nt \<and>
    tbl_map nt' = (\<lambda>k. if \<exists>j\<ge>i. j < length (t_nodes t) \<and> key_at (t_nodes t) j = k \<and> k \<noteq> OT_NULL then tbl_map t k else tbl_map nt k)"
  using assms(3,4)
proof (induction "length (t_nodes t) - i" arbitrary: i nt rule: less_induct)
  case less
  let ?ns = "t_nodes t"
  have dist: "distinct_keys ?ns" using tbl_wf_distinct [OF assms(1)] .
  note nxt = Next_index [OF assms(2) less.prems(1), of H True]
  show ?case
  proof (cases "next_index ?ns i")
    case None
    have "clone_loop H t (of_nat i) nt = Some (Inr nt)" using nxt None by (subst clone_loop.simps) simp
    moreover have "\<not> (\<exists>j\<ge>i. j < length ?ns \<and> key_at ?ns j = k \<and> k \<noteq> OT_NULL)" for k using next_index_None [OF None] by auto
    ultimately show ?thesis using less.prems(2) by (simp add: fun_eq_iff) blast
  next
    case (Some j)
    note j = next_index_Some [OF Some]
    let ?k = "key_at ?ns j"
    have "hashable H ?k" using assms(1) j by (simp add: tbl_wf_def hashable_keys_def)
    then obtain b nt1 where nt1: "SQTable_NewSlot H ?k (n_val (?ns ! j)) nt = Inr (b, nt1)" "tbl_wf H nt1"
      "tbl_map nt1 = (tbl_map nt)(?k \<mapsto> n_val (?ns ! j))" "t_delegate nt1 = t_delegate nt"
      using NewSlot_inserts [OF less.prems(2)] j by blast
    have step: "clone_loop H t (of_nat i) nt = clone_loop H t (of_nat (Suc j)) nt1" using nxt Some nt1(1) by (subst clone_loop.simps) simp
    have "length ?ns - Suc j < length ?ns - i" "Suc j \<le> length ?ns" using j by linarith+
    then obtain nt' where nt': "run_loop (clone_loop H t (of_nat (Suc j)) nt1) = Inr nt'" "tbl_wf H nt'" "t_delegate nt' = t_delegate nt1"
      "tbl_map nt' = (\<lambda>k. if \<exists>l\<ge>Suc j. l < length ?ns \<and> key_at ?ns l = k \<and> k \<noteq> OT_NULL then tbl_map t k else tbl_map nt1 k)"
      using less.hyps [OF _ _ nt1(2), of "Suc j"] by blast
    have at: "tbl_map t ?k = Some (n_val (?ns ! j))" using nodes_map_at [OF dist] j by blast
    have from_i: "(\<exists>l\<ge>i. l < length ?ns \<and> key_at ?ns l = k \<and> k \<noteq> OT_NULL) \<longleftrightarrow> k = ?k \<or> (\<exists>l\<ge>Suc j. l < length ?ns \<and> key_at ?ns l = k \<and> k \<noteq> OT_NULL)"
      (is "?L k \<longleftrightarrow> ?R k") for k
    proof
      assume "?L k"
      then obtain l where l: "i \<le> l" "l < length ?ns" "key_at ?ns l = k" "k \<noteq> OT_NULL" by blast
      then have "\<not> l < j" using j by blast
      then consider "l = j" | "Suc j \<le> l" by linarith
      then show "?R k" using l by cases blast+
    next
      assume "?R k"
      then show "?L k" using j Suc_leD le_trans by blast
    qed
    have "tbl_map nt' = (\<lambda>k. if \<exists>l\<ge>i. l < length ?ns \<and> key_at ?ns l = k \<and> k \<noteq> OT_NULL then tbl_map t k else tbl_map nt k)"
      unfolding from_i using nt'(4) nt1(3) at by (auto simp: fun_eq_iff)
    then show ?thesis using step nt' nt1(4) by simp
  qed
qed

section \<open>What the answers leave out\<close>

text \<open>Three keys fill a table of four nodes; the fourth key is new, but \<open>NewSlot\<close> says it was there: after the rehash it finds it.\<close>

declare walk.simps [code] find_other.simps [code] find_str.simps [code] clone_loop.simps [code]

lemma NewSlot_denies_new:
  "case fold_res (\<lambda>i t. map_res snd (SQTable_NewSlot \<lparr>sq_strs = Map.empty, sq_weaks = Map.empty\<rparr> (OT_INTEGER i) OT_NULL t)) [0, 1, 2] (SQTable_Create 4) of
     Inl e \<Rightarrow> False
   | Inr t \<Rightarrow> tbl_map t (OT_INTEGER 3) = None \<and>
       (case SQTable_NewSlot \<lparr>sq_strs = Map.empty, sq_weaks = Map.empty\<rparr> (OT_INTEGER 3) (OT_BOOL True) t of
          Inl e \<Rightarrow> False | Inr (b, t') \<Rightarrow> \<not> b \<and> tbl_map t' (OT_INTEGER 3) = Some (OT_BOOL True))"
  by code_simp

text \<open>\<open>Get\<close> refuses null, but \<open>Set\<close> takes a node without a key for null's: it says that it has assigned, and has not.\<close>

lemma Set_null_ignored:
  assumes "tbl_wf H t" and "key_at (t_nodes t) 0 = OT_NULL"
  shows "\<exists>t'. SQTable_Set H OT_NULL v t = Inr (True, t') \<and> tbl_map t' = tbl_map t"
proof -
  have slot: "main_slot H (t_nodes t) OT_NULL = Inr 0" by (simp add: main_slot_def HashObj_def hashptr_def slot_of_def)
  have "0 < length (t_nodes t)" using assms(1) by (auto simp: tbl_wf_def)
  then have "SQTable_node (t_nodes t) OT_NULL 0 = Inr (Some 0)"
    using assms(2) by (simp add: SQTable_node_def walk.simps [of n_next _ _ "Some 0"] node_heap_def key_at_def)
  then have "SQTable_Set H OT_NULL v t = Inr (True, t\<lparr>t_nodes := with_val 0 v (t_nodes t)\<rparr>)" using slot by (simp add: SQTable_Set_def with_val_def)
  moreover have "nodes_map (with_val 0 v (t_nodes t)) = tbl_map t"
  proof (rule nodes_map_eqI)
    fix i assume "i < length (with_val 0 v (t_nodes t))" "key_at (with_val 0 v (t_nodes t)) i \<noteq> OT_NULL"
    then show "tbl_map t (key_at (with_val 0 v (t_nodes t)) i) = Some (n_val (with_val 0 v (t_nodes t) ! i))"
      using nodes_map_at [OF tbl_wf_distinct [OF assms(1)], of i] assms(2) by (auto simp: with_val_nth)
  qed (use tbl_wf_distinct [OF assms(1)] nodes_map_Some [OF tbl_wf_distinct [OF assms(1)]] in auto)
  ultimately show ?thesis by auto
qed

section \<open>Every run\<close>

text \<open>A run of steps that each do to the abstract state what an abstract step does.\<close>

locale simulated_steps =
  fixes inv :: "'t \<Rightarrow> bool"
    and abs :: "'t \<Rightarrow> 'a"
    and ok :: "'op \<Rightarrow> bool"
    and step :: "'op \<Rightarrow> 't \<Rightarrow> 't res"
    and astep :: "'op \<Rightarrow> 'a \<Rightarrow> 'a"
  assumes step_sim: "inv t \<Longrightarrow> ok x \<Longrightarrow> \<exists>t'. step x t = Inr t' \<and> inv t' \<and> abs t' = astep x (abs t)"
begin

lemma run_sim: "inv t \<Longrightarrow> list_all ok xs \<Longrightarrow> \<exists>t'. fold_res step xs t = Inr t' \<and> inv t' \<and> abs t' = fold astep xs (abs t)"
proof (induction xs arbitrary: t)
  case (Cons x xs)
  then obtain t1 where "step x t = Inr t1" "inv t1" "abs t1 = astep x (abs t)" using step_sim by force
  then show ?case using Cons.IH [of t1] Cons.prems(2) by auto
qed simp

end

text \<open>What is done to a table, and to a map.\<close>

datatype table_op = NewSlotOp sq_object sq_object | SetOp sq_object sq_object | RemoveOp sq_object | ClearOp

definition table_op_ok :: "sq_heap \<Rightarrow> table_op \<Rightarrow> bool" where
  "table_op_ok H x =
     (case x of NewSlotOp k v \<Rightarrow> k \<noteq> OT_NULL \<and> hashable H k | SetOp k v \<Rightarrow> k \<noteq> OT_NULL \<and> hashable H k
      | RemoveOp k \<Rightarrow> k \<noteq> OT_NULL \<and> hashable H k | ClearOp \<Rightarrow> True)"

definition table_step :: "sq_heap \<Rightarrow> table_op \<Rightarrow> sq_table \<Rightarrow> sq_table res" where
  "table_step H x t =
     (case x of NewSlotOp k v \<Rightarrow> map_res snd (SQTable_NewSlot H k v t) | SetOp k v \<Rightarrow> map_res snd (SQTable_Set H k v t)
      | RemoveOp k \<Rightarrow> SQTable_Remove H k t | ClearOp \<Rightarrow> SQTable_Clear H t)"

definition map_step :: "table_op \<Rightarrow> (sq_object \<Rightarrow> sq_object option) \<Rightarrow> sq_object \<Rightarrow> sq_object option" where
  "map_step x m =
     (case x of NewSlotOp k v \<Rightarrow> m(k \<mapsto> v) | SetOp k v \<Rightarrow> if m k = None then m else m(k \<mapsto> v)
      | RemoveOp k \<Rightarrow> m(k := None) | ClearOp \<Rightarrow> Map.empty)"

interpretation tbl: simulated_steps "tbl_wf H" tbl_map "table_op_ok H" "table_step H" map_step for H
proof
  fix t x assume wf: "tbl_wf H t" and ok: "table_op_ok H x"
  show "\<exists>t'. table_step H x t = Inr t' \<and> tbl_wf H t' \<and> tbl_map t' = map_step x (tbl_map t)"
  proof (cases x)
    case (NewSlotOp k v)
    then show ?thesis using NewSlot_inserts [OF wf, of k v] ok by (auto simp: table_op_ok_def table_step_def map_step_def)
  next
    case (SetOp k v)
    then show ?thesis using Set_updates [OF wf, of k v] ok by (auto simp: table_op_ok_def table_step_def map_step_def)
  next
    case (RemoveOp k)
    then show ?thesis using Remove_removes_key [OF wf, of k] ok by (auto simp: table_op_ok_def table_step_def map_step_def)
  next
    case ClearOp
    then show ?thesis using Clear_empties [OF wf] by (auto simp: table_step_def map_step_def)
  qed
qed

section \<open>Properties\<close>

text \<open>
  C7. Whatever is done to a table, in any order and with any keys but null that have a hash, every operation returns, the rehashes it makes
  included, and the table answers a lookup as the map to which the same was done: new slots add or replace, assignments replace only,
  removals and clearing take away.
\<close>

theorem table_in_every_run:
  assumes "list_all (table_op_ok H) ops" and "hashable H k"
  shows "\<exists>t. fold_res (table_step H) ops (SQTable_Create n) = Inr t \<and>
    SQTable_Get H k t = (case fold map_step ops Map.empty k of None \<Rightarrow> Inr None | Some v \<Rightarrow> map_res Some (realval H v))"
proof -
  obtain t where "fold_res (table_step H) ops (SQTable_Create n) = Inr t" "tbl_wf H t" "tbl_map t = fold map_step ops Map.empty"
    using tbl.run_sim [OF Create_wf assms(1), of n] unfolding Create_map by blast
  then show ?thesis using Get_map [OF _ assms(2), of t] by simp
qed

text \<open>Twenty numbers, all with the same main position, one of them taken out again and one changed.\<close>

definition no_objects :: sq_heap where
  "no_objects = \<lparr>sq_strs = Map.empty, sq_weaks = Map.empty\<rparr>"

definition colliding_ops :: "table_op list" where
  "colliding_ops = map (\<lambda>i. NewSlotOp (OT_INTEGER (of_nat (64 * i))) (OT_INTEGER (of_nat i))) [0..<20] @
     [RemoveOp (OT_INTEGER 128), SetOp (OT_INTEGER 192) (OT_BOOL True)]"

theorem table_in_every_run_witness:
  "\<exists>t. fold_res (table_step no_objects) colliding_ops (SQTable_Create 0) = Inr t \<and>
    SQTable_Get no_objects (OT_INTEGER 128) t = Inr None \<and> SQTable_Get no_objects (OT_INTEGER 192) t = Inr (Some (OT_BOOL True))"
proof -
  have ok: "list_all (table_op_ok no_objects) colliding_ops"
    by (auto simp: colliding_ops_def list_all_iff table_op_ok_def hashable_def HashObj_def)
  have h: "hashable no_objects (OT_INTEGER i)" for i by (simp add: hashable_def HashObj_def)
  have "fold map_step colliding_ops Map.empty (OT_INTEGER 128) = None"
    "fold map_step colliding_ops Map.empty (OT_INTEGER 192) = Some (OT_BOOL True)"
    by (simp_all add: colliding_ops_def map_step_def upt_rec)
  then show ?thesis
    using table_in_every_run [OF ok h, of 0 128] table_in_every_run [OF ok h, of 0 192] by (auto simp: realval_def)
qed

text \<open>
  A clone of a table, made by walking the nodes of the old one, always comes about, is well-formed, and answers as the old one does.
\<close>

theorem table_clone:
  assumes "tbl_wf H t" and "length (t_nodes t) < 2 ^ 63"
  shows "\<exists>nt. SQTable_Clone H t = Inr nt \<and> tbl_wf H nt \<and> t_delegate nt = t_delegate t \<and>
    (\<forall>k. hashable H k \<longrightarrow> SQTable_Get H k nt = SQTable_Get H k t)"
proof -
  obtain nt where nt: "run_loop (clone_loop H t (of_nat 0) (SQTable_Create (length (t_nodes t)))) = Inr nt" "tbl_wf H nt"
    "tbl_map nt = (\<lambda>k. if \<exists>j\<ge>0. j < length (t_nodes t) \<and> key_at (t_nodes t) j = k \<and> k \<noteq> OT_NULL then tbl_map t k else tbl_map (SQTable_Create (length (t_nodes t))) k)"
    using clone_loop_from [OF assms _ Create_wf, of 0 "length (t_nodes t)"] by blast
  have "tbl_map nt = tbl_map t"
  proof
    show "tbl_map nt k = tbl_map t k" for k using nt(3) nodes_map_None [of "t_nodes t" k] by (auto simp: Create_map)
  qed
  moreover have "tbl_wf H (nt\<lparr>t_delegate := d\<rparr>)" for d using nt(2) by (simp add: tbl_wf_def)
  ultimately show ?thesis using nt(1) Get_map [OF assms(1)] Get_map [of H "nt\<lparr>t_delegate := t_delegate t\<rparr>"]
    by (intro exI [of _ "nt\<lparr>t_delegate := t_delegate t\<rparr>"]) (simp add: SQTable_Clone_def)
qed

text \<open>Three keys fill four nodes; the clone has the values, collisions included.\<close>

definition three_keys :: "table_op list" where
  "three_keys = [NewSlotOp (OT_INTEGER 1) (OT_BOOL True), NewSlotOp (OT_INTEGER 5) (OT_INTEGER 7), NewSlotOp (OT_BOOL True) OT_NULL]"

lemma three_keys_nodes:
  "case fold_res (table_step no_objects) three_keys (SQTable_Create 4) of Inl e \<Rightarrow> False
   | Inr t \<Rightarrow> length (t_nodes t) = 4 \<and> SQTable_Get no_objects (OT_INTEGER 5) t = Inr (Some (OT_INTEGER 7))"
  by code_simp

theorem table_clone_witness:
  "\<exists>t nt. fold_res (table_step no_objects) three_keys (SQTable_Create 4) = Inr t \<and> SQTable_Clone no_objects t = Inr nt \<and>
    SQTable_Get no_objects (OT_INTEGER 5) nt = Inr (Some (OT_INTEGER 7))"
proof -
  have h: "hashable no_objects (OT_INTEGER i)" "hashable no_objects (OT_BOOL b)" for i b by (simp_all add: hashable_def HashObj_def)
  then have "list_all (table_op_ok no_objects) three_keys" by (simp add: three_keys_def table_op_ok_def)
  then obtain t where t: "fold_res (table_step no_objects) three_keys (SQTable_Create 4) = Inr t" "tbl_wf no_objects t"
    using tbl.run_sim [OF Create_wf] by blast
  then have "length (t_nodes t) < 2 ^ 63" "SQTable_Get no_objects (OT_INTEGER 5) t = Inr (Some (OT_INTEGER 7))" using three_keys_nodes by simp_all
  then show ?thesis using table_clone [OF t(2)] t(1) h(1) by metis
qed

end
