(* ===== verification/Capy_SQLexer.thy ===== *)
theory Capy_SQLexer
  imports Capy_SQOps
begin

text \<open>
  The lexer of the script language (\<open>squirrel/sqlexer.h\<close>, \<open>squirrel/sqlexer.cpp\<close>, the token numbers of \<open>sqcompiler.h\<close>): it
  asks a reader for one character after the other and gives the compiler one token after the other. The characters the reader still has are part of the
  lexer's state; when there are no more it gives zeros. An error ends the compilation, with its text and where it is. Every loop ends, because each
  turn takes a character and none goes on at the end.
\<close>

section \<open>Results\<close>

datatype lex_stop = LexError string int int | LexFault fault

type_synonym 'a lex = "lex_stop + 'a"

definition bind_lex :: "'a lex \<Rightarrow> ('a \<Rightarrow> 'b lex) \<Rightarrow> 'b lex" where
  "bind_lex m f = (case m of Inl e \<Rightarrow> Inl e | Inr x \<Rightarrow> f x)"

definition lift_lex :: "'a res \<Rightarrow> 'a lex" where
  "lift_lex m = (case m of Inl e \<Rightarrow> Inl (LexFault e) | Inr x \<Rightarrow> Inr x)"

named_theorems lex_simps "evaluation of the lexer's results"

lemma bind_lex_simps [simp, lex_simps]: "bind_lex (Inl e) f = Inl e" "bind_lex (Inr x) f = f x"
  by (simp_all add: bind_lex_def)

lemma bind_lex_cong [fundef_cong]: "m = m' \<Longrightarrow> (\<And>x. m' = Inr x \<Longrightarrow> f x = f' x) \<Longrightarrow> bind_lex m f = bind_lex m' f'"
  by (cases m') auto

lemma bind_lex_Inr [lex_simps]: "bind_lex m f = Inr y \<longleftrightarrow> (\<exists>x. m = Inr x \<and> f x = Inr y)"
  by (cases m) auto

lemma lift_lex_simps [simp, lex_simps]: "lift_lex (Inl e) = Inl (LexFault e)" "lift_lex (Inr x) = Inr x"
  by (simp_all add: lift_lex_def)

section \<open>Characters of the C locale\<close>

definition is_xdigit :: "char \<Rightarrow> bool" where
  "is_xdigit c = (digit_val c \<noteq> None)"

definition is_alpha :: "char \<Rightarrow> bool" where
  "is_alpha c = (let n = (of_char c :: nat) in (65 \<le> n \<and> n \<le> 90) \<or> (97 \<le> n \<and> n \<le> 122))"

definition is_alnum :: "char \<Rightarrow> bool" where
  "is_alnum c = (is_alpha c \<or> is_digit c)"

definition is_cntrl :: "char \<Rightarrow> bool" where
  "is_cntrl c = (let n = (of_char c :: nat) in n < 32 \<or> n = 127)"

definition to_upper :: "char \<Rightarrow> char" where
  "to_upper c = (let n = (of_char c :: nat) in if 97 \<le> n \<and> n \<le> 122 then char_of (n - 32) else c)"

definition scisodigit :: "char \<Rightarrow> bool" where
  "scisodigit c = (let n = (of_char c :: nat) in 48 \<le> n \<and> n \<le> 55)"

definition isexponent :: "char \<Rightarrow> bool" where
  "isexponent c = (c = CHR ''e'' \<or> c = CHR ''E'')"

abbreviation LF :: char where "LF \<equiv> CHR 0x0A"
abbreviation TAB :: char where "TAB \<equiv> CHR 0x09"
abbreviation CR :: char where "CR \<equiv> CHR 0x0D"
abbreviation QUOTE :: char where "QUOTE \<equiv> CHR 0x22"
abbreviation APOS :: char where "APOS \<equiv> CHR 0x27"
abbreviation BSL :: char where "BSL \<equiv> CHR 0x5C"

lemma class_NUL [simp]:
  "\<not> is_digit (CHR 0x00)" "\<not> is_xdigit (CHR 0x00)" "\<not> is_alpha (CHR 0x00)" "\<not> is_alnum (CHR 0x00)" "\<not> scisodigit (CHR 0x00)" "\<not> isexponent (CHR 0x00)"
  by (simp_all add: is_digit_def is_xdigit_def digit_val_def to_lower_def is_alpha_def is_alnum_def scisodigit_def isexponent_def)

section \<open>Tokens\<close>

abbreviation "TK_IDENTIFIER \<equiv> 258 :: int"
abbreviation "TK_STRING_LITERAL \<equiv> 259 :: int"
abbreviation "TK_INTEGER \<equiv> 260 :: int"
abbreviation "TK_FLOAT \<equiv> 261 :: int"
abbreviation "TK_EQ \<equiv> 264 :: int"
abbreviation "TK_NE \<equiv> 265 :: int"
abbreviation "TK_LE \<equiv> 266 :: int"
abbreviation "TK_GE \<equiv> 267 :: int"
abbreviation "TK_AND \<equiv> 270 :: int"
abbreviation "TK_OR \<equiv> 271 :: int"
abbreviation "TK_NEWSLOT \<equiv> 281 :: int"
abbreviation "TK_PLUSEQ \<equiv> 289 :: int"
abbreviation "TK_MINUSEQ \<equiv> 290 :: int"
abbreviation "TK_SHIFTL \<equiv> 296 :: int"
abbreviation "TK_SHIFTR \<equiv> 297 :: int"
abbreviation "TK_DOUBLE_COLON \<equiv> 299 :: int"
abbreviation "TK_PLUSPLUS \<equiv> 303 :: int"
abbreviation "TK_MINUSMINUS \<equiv> 304 :: int"
abbreviation "TK_3WAYSCMP \<equiv> 305 :: int"
abbreviation "TK_USHIFTR \<equiv> 306 :: int"
abbreviation "TK_CONSTRUCTOR \<equiv> 310 :: int"
abbreviation "TK_VARPARAMS \<equiv> 312 :: int"
abbreviation "TK_MULEQ \<equiv> 317 :: int"
abbreviation "TK_DIVEQ \<equiv> 318 :: int"
abbreviation "TK_MODEQ \<equiv> 319 :: int"
abbreviation "TK_ATTR_OPEN \<equiv> 320 :: int"
abbreviation "TK_ATTR_CLOSE \<equiv> 321 :: int"

text \<open>The keywords, in the order in which \<open>Init\<close> adds them.\<close>

definition keyword_list :: "(string \<times> int) list" where
  "keyword_list =
     [(''while'', 274), (''do'', 277), (''if'', 272), (''else'', 273), (''break'', 275), (''continue'', 291), (''return'', 286), (''null'', 278),
      (''function'', 285), (''local'', 283), (''for'', 276), (''foreach'', 279), (''in'', 280), (''typeof'', 287), (''base'', 262), (''delete'', 263),
      (''try'', 293), (''catch'', 294), (''throw'', 295), (''clone'', 284), (''yield'', 292), (''resume'', 298), (''switch'', 268), (''case'', 300),
      (''default'', 301), (''this'', 302), (''class'', 307), (''extends'', 308), (''constructor'', 310), (''instanceof'', 311), (''true'', 315),
      (''false'', 316), (''static'', 322), (''enum'', 323), (''const'', 324), (''__LINE__'', 313), (''__FILE__'', 314), (''rawcall'', 325)]"

section \<open>The lexer\<close>

text \<open>The strings the machine has, and the weak references.\<close>

record sq_shared =
  sh_strings :: sq_strings
  sh_weaks :: "sq_object heap"

definition heap_of :: "sq_shared \<Rightarrow> sq_heap" where
  "heap_of ss = \<lparr>sq_strs = ss_heap (sh_strings ss), sq_weaks = sh_weaks ss\<rparr>"

text \<open>\<open>lx_svalue\<close> is what the pointer into the buffer points to when it is set: the compiler takes it before it asks for the next token.\<close>

record sq_lexer =
  lx_input :: "int list"
  lx_curtoken :: int
  lx_keywords :: sq_table
  lx_reached_eof :: bool
  lx_prevtoken :: int
  lx_currentline :: int
  lx_lasttokenline :: int
  lx_currentcolumn :: int
  lx_svalue :: "char list"
  lx_nvalue :: u64
  lx_fvalue :: f32
  lx_currdata :: char
  lx_longstr :: "char list"

definition SQLexer_Error :: "string \<Rightarrow> sq_lexer \<Rightarrow> 'a lex" where
  "SQLexer_Error err lx = Inl (LexError err (lx_currentline lx) (lx_currentcolumn lx))"

definition SQLexer_Next :: "sq_lexer \<Rightarrow> sq_lexer lex" where
  "SQLexer_Next lx =
     (let (t, ts) = (case lx_input lx of [] \<Rightarrow> (0, []) | t # ts \<Rightarrow> (t, ts)); lx' = lx\<lparr>lx_input := ts\<rparr> in
      if 255 < t then SQLexer_Error ''Invalid character'' lx'
      else if t \<noteq> 0 then Inr (lx'\<lparr>lx_currdata := char_of (t mod 256)\<rparr>)
      else Inr (lx'\<lparr>lx_currdata := NUL, lx_reached_eof := True\<rparr>))"

definition NEXT :: "sq_lexer \<Rightarrow> sq_lexer lex" where
  "NEXT lx = bind_lex (SQLexer_Next lx) (\<lambda>lx. Inr (lx\<lparr>lx_currentcolumn := lx_currentcolumn lx + 1\<rparr>))"

definition APPEND_CHAR :: "char \<Rightarrow> sq_lexer \<Rightarrow> sq_lexer" where
  "APPEND_CHAR c lx = lx\<lparr>lx_longstr := lx_longstr lx @ [c]\<rparr>"

definition RETURN_TOKEN :: "int \<Rightarrow> sq_lexer \<Rightarrow> (int \<times> sq_lexer) lex" where
  "RETURN_TOKEN t lx = Inr (t, lx\<lparr>lx_prevtoken := lx_curtoken lx, lx_curtoken := t\<rparr>)"

abbreviation cur :: "sq_lexer \<Rightarrow> char" where "cur \<equiv> lx_currdata"

text \<open>What is left to read: each character that is taken makes it less.\<close>

definition left :: "sq_lexer \<Rightarrow> nat" where
  "left lx = 2 * length (lx_input lx) + of_bool (cur lx \<noteq> NUL)"

lemma NEXT_left: "NEXT lx = Inr lx' \<Longrightarrow> left lx' \<le> left lx \<and> (cur lx \<noteq> NUL \<or> cur lx' \<noteq> NUL \<longrightarrow> left lx' < left lx)"
  by (auto simp: NEXT_def SQLexer_Next_def SQLexer_Error_def left_def Let_def bind_lex_Inr split: list.splits if_splits)

lemma NEXT_less [termination_simp]: "NEXT lx = Inr lx' \<Longrightarrow> cur lx \<noteq> NUL \<Longrightarrow> left lx' < left lx"
  using NEXT_left by blast

lemma left_updates [simp]:
  "left (lx\<lparr>lx_currentline := l\<rparr>) = left lx" "left (lx\<lparr>lx_longstr := s\<rparr>) = left lx" "left (APPEND_CHAR c lx) = left lx"
  "left (lx\<lparr>lx_currentcolumn := l\<rparr>) = left lx" "left (lx\<lparr>lx_prevtoken := l\<rparr>) = left lx" "left (lx\<lparr>lx_curtoken := l\<rparr>) = left lx"
  "left (lx\<lparr>lx_nvalue := n\<rparr>) = left lx" "left (lx\<lparr>lx_fvalue := f\<rparr>) = left lx" "left (lx\<lparr>lx_svalue := s\<rparr>) = left lx"
  "left (lx\<lparr>lx_lasttokenline := l\<rparr>) = left lx"
  by (simp_all add: left_def APPEND_CHAR_def)

lemma cur_append [simp]: "cur (APPEND_CHAR c lx) = cur lx"
  by (simp add: APPEND_CHAR_def)

section \<open>Comments\<close>

function SQLexer_LexBlockComment :: "sq_lexer \<Rightarrow> sq_lexer lex" where
  "SQLexer_LexBlockComment lx =
     (if cur lx = CHR ''*'' then bind_lex (NEXT lx) (\<lambda>lx'. if cur lx' = CHR ''/'' then NEXT lx' else SQLexer_LexBlockComment lx')
      else if cur lx = LF then bind_lex (NEXT (lx\<lparr>lx_currentline := lx_currentline lx + 1\<rparr>)) (\<lambda>lx'. SQLexer_LexBlockComment lx')
      else if cur lx = NUL then SQLexer_Error ''missing \"*/\" in comment'' lx
      else bind_lex (NEXT lx) (\<lambda>lx'. SQLexer_LexBlockComment lx'))"
  by pat_completeness auto
termination by (relation "measure left") (auto dest: NEXT_left simp: NUL_def)

function SQLexer_LexLineComment :: "sq_lexer \<Rightarrow> sq_lexer lex" where
  "SQLexer_LexLineComment lx =
     bind_lex (NEXT lx) (\<lambda>lx'. if cur lx' \<noteq> LF \<and> cur lx' \<noteq> NUL then SQLexer_LexLineComment lx' else Inr lx')"
  by pat_completeness auto
termination by (relation "measure left") (auto dest: NEXT_left)

declare SQLexer_LexBlockComment.simps [simp del] SQLexer_LexLineComment.simps [simp del]

lemma LexBlockComment_left: "SQLexer_LexBlockComment lx = Inr lx' \<Longrightarrow> left lx' \<le> left lx"
proof (induction lx rule: SQLexer_LexBlockComment.induct)
  case (1 lx)
  let ?lx = "lx\<lparr>lx_currentline := lx_currentline lx + 1\<rparr>"
  consider (star) x where "cur lx = CHR ''*''" "NEXT lx = Inr x" "(if cur x = CHR ''/'' then NEXT x else SQLexer_LexBlockComment x) = Inr lx'"
    | (lf) x where "cur lx = LF" "cur lx \<noteq> CHR ''*''" "NEXT ?lx = Inr x" "SQLexer_LexBlockComment x = Inr lx'"
    | (other) x where "cur lx \<noteq> CHR ''*''" "cur lx \<noteq> LF" "cur lx \<noteq> NUL" "NEXT lx = Inr x" "SQLexer_LexBlockComment x = Inr lx'"
    using 1(4) by (subst (asm) SQLexer_LexBlockComment.simps) (auto simp: bind_lex_Inr SQLexer_Error_def split: if_splits)
  then show ?case
  proof cases
    case star
    then show ?thesis using 1(1) [OF star(1,2)] NEXT_left [OF star(2)] NEXT_left [of x lx'] by (auto split: if_splits)
  next
    case lf
    then show ?thesis using 1(2) [OF lf(2,1,3,4)] NEXT_left [OF lf(3)] by auto
  next
    case other
    then show ?thesis using 1(3) [OF other] NEXT_left [OF other(4)] by auto
  qed
qed

lemma LexLineComment_left:
  "SQLexer_LexLineComment lx = Inr lx' \<Longrightarrow> left lx' \<le> left lx \<and> (cur lx \<noteq> NUL \<longrightarrow> left lx' < left lx)"
proof (induction lx rule: SQLexer_LexLineComment.induct)
  case (1 lx)
  then obtain x where x: "NEXT lx = Inr x" "(if cur x \<noteq> LF \<and> cur x \<noteq> NUL then SQLexer_LexLineComment x else Inr x) = Inr lx'"
    by (subst (asm) (2) SQLexer_LexLineComment.simps) (auto simp: bind_lex_Inr)
  then show ?case using 1(1) [OF x(1)] NEXT_left [OF x(1)] by (auto split: if_splits)
qed

section \<open>Strings\<close>

text \<open>\<open>strtoul\<close> in base 16, on at most eight digits.\<close>

definition strtoul16 :: "char list \<Rightarrow> nat" where
  "strtoul16 s = digits_nat 16 (fst (scan_digits 16 s))"

text \<open>The bytes are cut from the code as the source does, by shifting and masking.\<close>

definition AddUTF8 :: "nat \<Rightarrow> sq_lexer \<Rightarrow> sq_lexer" where
  "AddUTF8 ch lx =
     (let six = (\<lambda>n. char_of (or (and (ch div 2 ^ n) 0x3F) 0x80)) in
      if ch < 0x80 then APPEND_CHAR (char_of ch) lx
      else if ch < 0x800 then APPEND_CHAR (six 0) (APPEND_CHAR (char_of (or (ch div 2 ^ 6) 0xC0)) lx)
      else if ch < 0x10000 then APPEND_CHAR (six 0) (APPEND_CHAR (six 6) (APPEND_CHAR (char_of (or (ch div 2 ^ 12) 0xE0)) lx))
      else if ch < 0x110000 then
        APPEND_CHAR (six 0) (APPEND_CHAR (six 6) (APPEND_CHAR (six 12) (APPEND_CHAR (char_of (or (ch div 2 ^ 18) 0xF0)) lx)))
      else lx)"

function read_hex :: "nat \<Rightarrow> char list \<Rightarrow> sq_lexer \<Rightarrow> (char list \<times> sq_lexer) lex" where
  "read_hex maxdigits dest lx =
     (if is_xdigit (cur lx) \<and> length dest < maxdigits then bind_lex (NEXT lx) (\<lambda>lx'. read_hex maxdigits (dest @ [cur lx]) lx') else Inr (dest, lx))"
  by pat_completeness auto
termination by (relation "measure (\<lambda>(m, dest, lx). m - length dest)") auto

declare read_hex.simps [simp del]

definition ProcessStringHexEscape :: "nat \<Rightarrow> sq_lexer \<Rightarrow> (char list \<times> sq_lexer) lex" where
  "ProcessStringHexEscape maxdigits lx =
     bind_lex (NEXT lx) (\<lambda>lx. if \<not> is_xdigit (cur lx) then SQLexer_Error ''hexadecimal number expected'' lx else read_hex maxdigits [] lx)"

text \<open>What follows a backslash.\<close>

definition lex_escape :: "char \<Rightarrow> sq_lexer \<Rightarrow> sq_lexer lex" where
  "lex_escape ndelim lx =
     (let c = cur lx in
      if c = CHR ''x'' then bind_lex (ProcessStringHexEscape 2 lx) (\<lambda>(temp, lx). Inr (APPEND_CHAR (char_of (strtoul16 temp)) lx))
      else if c = CHR ''U'' \<or> c = CHR ''u'' then
        bind_lex (ProcessStringHexEscape (if c = CHR ''u'' then 4 else 8) lx) (\<lambda>(temp, lx). Inr (AddUTF8 (strtoul16 temp) lx))
      else if c = CHR ''t'' then NEXT (APPEND_CHAR TAB lx)
      else if c = CHR ''a'' then NEXT (APPEND_CHAR (CHR 0x07) lx)
      else if c = CHR ''b'' then NEXT (APPEND_CHAR (CHR 0x08) lx)
      else if c = CHR ''n'' then NEXT (APPEND_CHAR LF lx)
      else if c = CHR ''r'' then NEXT (APPEND_CHAR CR lx)
      else if c = CHR ''v'' then NEXT (APPEND_CHAR (CHR 0x0B) lx)
      else if c = CHR ''f'' then NEXT (APPEND_CHAR (CHR 0x0C) lx)
      else if c = CHR ''0'' then NEXT (APPEND_CHAR NUL lx)
      else if c = BSL then NEXT (APPEND_CHAR BSL lx)
      else if c = QUOTE then NEXT (APPEND_CHAR QUOTE lx)
      else if c = APOS then NEXT (APPEND_CHAR APOS lx)
      else if c = LF \<and> ndelim = QUOTE then NEXT (lx\<lparr>lx_currentline := lx_currentline lx + 1\<rparr>)
      else SQLexer_Error ''unrecognised escaper char'' lx)"

lemma read_hex_left: "read_hex m dest lx = Inr (s, lx') \<Longrightarrow> left lx' \<le> left lx"
proof (induction m dest lx rule: read_hex.induct)
  case (1 m dest lx)
  show ?case
  proof (cases "is_xdigit (cur lx) \<and> length dest < m")
    case True
    then obtain x where "NEXT lx = Inr x" "read_hex m (dest @ [cur lx]) x = Inr (s, lx')"
      using 1(2) by (subst (asm) read_hex.simps) (auto simp: bind_lex_Inr)
    then show ?thesis using 1(1) [OF True] NEXT_left [of lx x] by fastforce
  next
    case False
    then show ?thesis using 1(2) by (subst (asm) read_hex.simps) auto
  qed
qed

lemma ProcessStringHexEscape_left: "ProcessStringHexEscape m lx = Inr (s, lx') \<Longrightarrow> left lx' \<le> left lx"
  using read_hex_left NEXT_left by (fastforce simp: ProcessStringHexEscape_def bind_lex_Inr SQLexer_Error_def split: if_splits)

lemma AddUTF8_left [simp]: "left (AddUTF8 ch lx) = left lx"
  by (simp add: AddUTF8_def Let_def)

lemma lex_escape_left:
  assumes "lex_escape d lx = Inr lx'"
  shows "left lx' \<le> left lx"
proof -
  have nx: "left lx' \<le> left lx" if "NEXT (APPEND_CHAR c lx) = Inr lx'" for c using NEXT_left [OF that] by simp
  have nl: "left lx' \<le> left lx" if "NEXT (lx\<lparr>lx_currentline := l\<rparr>) = Inr lx'" for l using NEXT_left [OF that] by simp
  have hex: "left y \<le> left lx" if "ProcessStringHexEscape m lx = Inr (s, y)" for m s y
    using ProcessStringHexEscape_left [OF that] .
  show ?thesis
    using assms unfolding lex_escape_def Let_def SQLexer_Error_def
    by (auto simp: bind_lex_Inr intro: nx nl hex split: if_splits)
qed

function read_string :: "char \<Rightarrow> bool \<Rightarrow> sq_lexer \<Rightarrow> sq_lexer lex" where
  "read_string ndelim verbatim lx =
     (if cur lx \<noteq> ndelim then
        if cur lx = NUL then SQLexer_Error ''unfinished string'' lx
        else if cur lx = LF then
          if \<not> verbatim then SQLexer_Error ''newline in a constant'' lx
          else bind_lex (NEXT (APPEND_CHAR LF lx)) (\<lambda>lx'. read_string ndelim verbatim (lx'\<lparr>lx_currentline := lx_currentline lx' + 1\<rparr>))
        else if cur lx = BSL then
          if verbatim then bind_lex (NEXT (APPEND_CHAR BSL lx)) (\<lambda>lx'. read_string ndelim verbatim lx')
          else bind_lex (NEXT lx) (\<lambda>lx'. bind_lex (lex_escape ndelim lx') (\<lambda>lx''. read_string ndelim verbatim lx''))
        else bind_lex (NEXT (APPEND_CHAR (cur lx) lx)) (\<lambda>lx'. read_string ndelim verbatim lx')
      else bind_lex (NEXT lx) (\<lambda>lx'.
        if verbatim \<and> cur lx' = QUOTE then bind_lex (NEXT (APPEND_CHAR QUOTE lx')) (\<lambda>lx''. read_string ndelim verbatim lx'') else Inr lx'))"
  by pat_completeness auto
termination
proof (relation "measure (\<lambda>(d, v, lx). left lx)", goal_cases)
  case (4 d v lx lx' lx'')
  then have "left lx' < left lx" "left lx'' \<le> left lx'" using NEXT_left [of lx lx'] lex_escape_left by auto
  then show ?case by simp
next
  case (6 d v lx lx' lx'')
  then have "left lx' \<le> left lx" "left lx'' < left lx'" using NEXT_left [of lx lx'] NEXT_left [of "APPEND_CHAR QUOTE lx'" lx''] by (auto simp: NUL_def)
  then show ?case by simp
qed (auto dest!: NEXT_left)

declare read_string.simps [simp del]

text \<open>The delimiter is \<open>'\"'\<close> or \<open>'\\''\<close>. A character constant is the value of a signed character.\<close>

definition SQLexer_ReadString :: "char \<Rightarrow> bool \<Rightarrow> sq_lexer \<Rightarrow> (int \<times> sq_lexer) lex" where
  "SQLexer_ReadString ndelim verbatim lx =
     bind_lex (NEXT (lx\<lparr>lx_longstr := []\<rparr>)) (\<lambda>lx.
       if cur lx = NUL then Inr (- 1, lx)
       else bind_lex (read_string ndelim verbatim lx) (\<lambda>lx.
         let lx = APPEND_CHAR NUL lx; len = length (lx_longstr lx) - 1 in
         if ndelim = APOS then
           if len = 0 then SQLexer_Error ''empty constant'' lx
           else if 1 < len then SQLexer_Error ''constant too long'' lx
           else Inr (TK_INTEGER, lx\<lparr>lx_nvalue := scast (byte_of_char (lx_longstr lx ! 0))\<rparr>)
         else Inr (TK_STRING_LITERAL, lx\<lparr>lx_svalue := take len (lx_longstr lx)\<rparr>)))"

section \<open>Numbers\<close>

text \<open>The three conversions wrap around; they are called on digits of their base only.\<close>

definition LexInteger :: "char list \<Rightarrow> u64" where
  "LexInteger s = foldl (\<lambda>res c. res * 10 + of_int (int (of_char c) - 48)) 0 s"

fun LexHexadecimal :: "char list \<Rightarrow> u64 \<Rightarrow> u64 res" where
  "LexHexadecimal [] res = Inr res"
| "LexHexadecimal (c # s) res =
     (if is_digit c then LexHexadecimal s (res * 16 + of_int (int (of_char c) - 48))
      else if is_xdigit c then LexHexadecimal s (res * 16 + of_int (int (of_char (to_upper c)) - 65 + 10))
      else Inl AssertFailed)"

fun LexOctal :: "char list \<Rightarrow> u64 \<Rightarrow> u64 res" where
  "LexOctal [] res = Inr res"
| "LexOctal (c # s) res = (if scisodigit c then LexOctal s (res * 8 + of_int (int (of_char c) - 48)) else Inl AssertFailed)"

text \<open>The three loops of \<open>ReadNumber\<close>.\<close>

function read_while :: "(char \<Rightarrow> bool) \<Rightarrow> sq_lexer \<Rightarrow> sq_lexer lex" where
  "read_while P lx = (if P (cur lx) \<and> cur lx \<noteq> NUL then bind_lex (NEXT (APPEND_CHAR (cur lx) lx)) (\<lambda>lx'. read_while P lx') else Inr lx)"
  by pat_completeness auto
termination by (relation "measure (\<lambda>(P, lx). left lx)") (auto dest!: NEXT_left)

datatype num_type = TINT | TFLOAT | THEX | TSCIENTIFIC | TOCTAL

text \<open>A point makes it a float and an exponent a scientific number; the test for an exponent in the wrong place comes after the type
  has been set, and never fails.\<close>

definition lex_exponent :: "num_type \<Rightarrow> sq_lexer \<Rightarrow> (num_type \<times> sq_lexer) lex" where
  "lex_exponent type lx =
     (let type = (if cur lx = CHR ''.'' \<or> isexponent (cur lx) then TFLOAT else type) in
      if isexponent (cur lx) then
        if type \<noteq> TFLOAT then SQLexer_Error ''invalid numeric format'' lx
        else bind_lex (NEXT (APPEND_CHAR (cur lx) lx)) (\<lambda>lx.
          bind_lex (if cur lx = CHR ''+'' \<or> cur lx = CHR ''-'' then NEXT (APPEND_CHAR (cur lx) lx) else Inr lx) (\<lambda>lx.
            if \<not> is_digit (cur lx) then SQLexer_Error ''exponent expected'' lx else Inr (TSCIENTIFIC, lx)))
      else Inr (type, lx))"

lemma lex_exponent_left: "lex_exponent type lx = Inr (type', lx') \<Longrightarrow> left lx' \<le> left lx \<and> (cur lx \<noteq> NUL \<longrightarrow> cur lx' \<noteq> NUL)"
  by (auto simp: lex_exponent_def Let_def bind_lex_Inr SQLexer_Error_def NUL_def split: if_splits dest!: NEXT_left)

function read_decimal :: "num_type \<Rightarrow> sq_lexer \<Rightarrow> (num_type \<times> sq_lexer) lex" where
  "read_decimal type lx =
     (if cur lx = CHR ''.'' \<or> is_digit (cur lx) \<or> isexponent (cur lx) then
        bind_lex (lex_exponent type lx) (\<lambda>(type', lx'). bind_lex (NEXT (APPEND_CHAR (cur lx') lx')) (\<lambda>lx''. read_decimal type' lx''))
      else Inr (type, lx))"
  by pat_completeness auto
termination
proof (relation "measure (\<lambda>(t, lx). left lx)", goal_cases)
  case (2 t lx x t' lx' lx'')
  have "cur lx \<noteq> NUL" using 2(1) by (auto simp: NUL_def is_digit_def isexponent_def)
  then have "left lx' \<le> left lx" "cur lx' \<noteq> NUL" using 2(2,3) lex_exponent_left [of t lx t' lx'] by auto
  moreover from this have "left lx'' < left lx'" using NEXT_left [OF 2(4)] by simp
  ultimately show ?case by simp
qed simp

declare read_while.simps [simp del] read_decimal.simps [simp del]

definition SQLexer_ReadNumber :: "sq_lexer \<Rightarrow> (int \<times> sq_lexer) lex" where
  "SQLexer_ReadNumber lx =
     (let firstchar = cur lx in
      bind_lex (NEXT (lx\<lparr>lx_longstr := []\<rparr>)) (\<lambda>lx.
      bind_lex
        (if firstchar = CHR ''0'' \<and> (to_upper (cur lx) = CHR ''X'' \<or> scisodigit (cur lx)) then
           if scisodigit (cur lx) then
             bind_lex (read_while scisodigit lx) (\<lambda>lx.
               if is_digit (cur lx) then SQLexer_Error ''invalid octal number'' lx else Inr (TOCTAL, lx))
           else
             bind_lex (NEXT lx) (\<lambda>lx. bind_lex (read_while is_xdigit lx) (\<lambda>lx.
               if 16 < length (lx_longstr lx) then SQLexer_Error ''too many digits for an Hex number'' lx else Inr (THEX, lx)))
         else read_decimal TINT (APPEND_CHAR firstchar lx))
        (\<lambda>(type, lx).
          let s = lx_longstr lx; lx = APPEND_CHAR NUL lx in
          case type of
            TSCIENTIFIC \<Rightarrow> Inr (TK_FLOAT, lx\<lparr>lx_fvalue := atof s\<rparr>)
          | TFLOAT \<Rightarrow> Inr (TK_FLOAT, lx\<lparr>lx_fvalue := atof s\<rparr>)
          | TINT \<Rightarrow> Inr (TK_INTEGER, lx\<lparr>lx_nvalue := LexInteger s\<rparr>)
          | THEX \<Rightarrow> bind_lex (lift_lex (LexHexadecimal s 0)) (\<lambda>n. Inr (TK_INTEGER, lx\<lparr>lx_nvalue := n\<rparr>))
          | TOCTAL \<Rightarrow> bind_lex (lift_lex (LexOctal s 0)) (\<lambda>n. Inr (TK_INTEGER, lx\<lparr>lx_nvalue := n\<rparr>)))))"

section \<open>Identifiers and keywords\<close>

text \<open>\<open>_integer\<close> reads the 64 bits of an object's value, whatever its type.\<close>

definition unval :: "sq_object \<Rightarrow> u64" where
  "unval x =
     (case x of
        OT_NULL \<Rightarrow> 0 | OT_INTEGER i \<Rightarrow> i | OT_FLOAT w \<Rightarrow> ucast w | OT_BOOL b \<Rightarrow> of_bool b
      | OT_STRING p \<Rightarrow> of_nat p | OT_TABLE p \<Rightarrow> of_nat p | OT_ARRAY p \<Rightarrow> of_nat p | OT_USERDATA p \<Rightarrow> of_nat p | OT_CLOSURE p \<Rightarrow> of_nat p
      | OT_NATIVECLOSURE p \<Rightarrow> of_nat p | OT_GENERATOR p \<Rightarrow> of_nat p | OT_USERPOINTER p \<Rightarrow> of_nat p | OT_THREAD p \<Rightarrow> of_nat p
      | OT_FUNCPROTO p \<Rightarrow> of_nat p | OT_CLASS p \<Rightarrow> of_nat p | OT_INSTANCE p \<Rightarrow> of_nat p | OT_WEAKREF p \<Rightarrow> of_nat p | OT_OUTER p \<Rightarrow> of_nat p)"

definition GetIDType :: "sq_shared \<Rightarrow> char list \<Rightarrow> nat \<Rightarrow> sq_lexer \<Rightarrow> int res" where
  "GetIDType ss s len lx =
     bind_res (SQTable_GetStr (heap_of ss) s len (lx_keywords lx)) (\<lambda>t. Inr (case t of None \<Rightarrow> TK_IDENTIFIER | Some v \<Rightarrow> sint (unval v)))"

function read_id :: "sq_lexer \<Rightarrow> sq_lexer lex" where
  "read_id lx = bind_lex (NEXT (APPEND_CHAR (cur lx) lx)) (\<lambda>lx'. if is_alnum (cur lx') \<or> cur lx' = CHR ''_'' then read_id lx' else Inr lx')"
  by pat_completeness auto
termination
proof (relation "measure left", goal_cases)
  case (2 lx lx')
  then have "cur lx' \<noteq> NUL" by (auto simp: NUL_def)
  then show ?case using NEXT_left [OF 2(1)] by simp
qed simp

declare read_id.simps [simp del]

definition SQLexer_ReadID :: "sq_shared \<Rightarrow> sq_lexer \<Rightarrow> (int \<times> sq_lexer) lex" where
  "SQLexer_ReadID ss lx =
     bind_lex (read_id (lx\<lparr>lx_longstr := []\<rparr>)) (\<lambda>lx.
       let s = lx_longstr lx; lx = APPEND_CHAR NUL lx in
       bind_lex (lift_lex (GetIDType ss (lx_longstr lx) (length (lx_longstr lx) - 1) lx)) (\<lambda>res.
         Inr (res, if res = TK_IDENTIFIER \<or> res = TK_CONSTRUCTOR then lx\<lparr>lx_svalue := s\<rparr> else lx)))"

section \<open>The next token\<close>

text \<open>One character that is a token, and two tokens that differ in a second character.\<close>

abbreviation tok :: "char \<Rightarrow> int" where "tok c \<equiv> int (of_char c)"

definition then_token :: "int \<Rightarrow> sq_lexer \<Rightarrow> (int \<times> sq_lexer) lex" where
  "then_token t lx = bind_lex (NEXT lx) (RETURN_TOKEN t)"

definition lex_less :: "sq_lexer \<Rightarrow> (int \<times> sq_lexer) lex" where
  "lex_less lx =
     (if cur lx = CHR ''='' then
        bind_lex (NEXT lx) (\<lambda>lx. if cur lx = CHR ''>'' then then_token TK_3WAYSCMP lx else RETURN_TOKEN TK_LE lx)
      else if cur lx = CHR ''-'' then then_token TK_NEWSLOT lx
      else if cur lx = CHR ''<'' then then_token TK_SHIFTL lx
      else if cur lx = CHR ''/'' then then_token TK_ATTR_OPEN lx
      else RETURN_TOKEN (tok CHR ''<'') lx)"

definition lex_greater :: "sq_lexer \<Rightarrow> (int \<times> sq_lexer) lex" where
  "lex_greater lx =
     (if cur lx = CHR ''='' then then_token TK_GE lx
      else if cur lx = CHR ''>'' then
        bind_lex (NEXT lx) (\<lambda>lx. if cur lx = CHR ''>'' then then_token TK_USHIFTR lx else RETURN_TOKEN TK_SHIFTR lx)
      else RETURN_TOKEN (tok CHR ''>'') lx)"

definition lex_string :: "char \<Rightarrow> bool \<Rightarrow> sq_lexer \<Rightarrow> (int \<times> sq_lexer) lex" where
  "lex_string ndelim verbatim lx =
     bind_lex (SQLexer_ReadString ndelim verbatim lx) (\<lambda>(stype, lx).
       if stype \<noteq> - 1 then RETURN_TOKEN stype lx else SQLexer_Error ''error parsing the string'' lx)"

definition lex_dots :: "sq_lexer \<Rightarrow> (int \<times> sq_lexer) lex" where
  "lex_dots lx =
     (if cur lx \<noteq> CHR ''.'' then RETURN_TOKEN (tok CHR ''.'') lx
      else bind_lex (NEXT lx) (\<lambda>lx.
        if cur lx \<noteq> CHR ''.'' then SQLexer_Error (''invalid token '' @ [APOS] @ ''..'' @ [APOS]) lx else then_token TK_VARPARAMS lx))"

text \<open>Operators of one or two characters, where the second one only makes a difference if it is one of a few.\<close>

definition lex_maybe :: "char \<Rightarrow> (char \<times> int) list \<Rightarrow> sq_lexer \<Rightarrow> (int \<times> sq_lexer) lex" where
  "lex_maybe c seconds lx = (case map_of seconds (cur lx) of Some t \<Rightarrow> then_token t lx | None \<Rightarrow> RETURN_TOKEN (tok c) lx)"

definition two_char_tokens :: "(char \<times> (char \<times> int) list) list" where
  "two_char_tokens =
     [(CHR ''='', [(CHR ''='', TK_EQ)]), (CHR ''!'', [(CHR ''='', TK_NE)]), (CHR ''&'', [(CHR ''&'', TK_AND)]), (CHR ''|'', [(CHR ''|'', TK_OR)]),
      (CHR '':'', [(CHR '':'', TK_DOUBLE_COLON)]), (CHR ''*'', [(CHR ''='', TK_MULEQ)]), (CHR ''%'', [(CHR ''='', TK_MODEQ)]),
      (CHR ''-'', [(CHR ''='', TK_MINUSEQ), (CHR ''-'', TK_MINUSMINUS)]), (CHR ''+'', [(CHR ''='', TK_PLUSEQ), (CHR ''+'', TK_PLUSPLUS)])]"

definition one_char_tokens :: "char list" where
  "one_char_tokens = ''{}()[];,?^~''"

text \<open>The cases of \<open>Lex\<close> that are no layout.\<close>

definition lex_token :: "sq_shared \<Rightarrow> sq_lexer \<Rightarrow> (int \<times> sq_lexer) lex" where
  "lex_token ss lx =
     (let c = cur lx in
      if c = CHR ''<'' then bind_lex (NEXT lx) lex_less
      else if c = CHR ''>'' then bind_lex (NEXT lx) lex_greater
      else if c = CHR ''@'' then bind_lex (NEXT lx) (\<lambda>lx. if cur lx \<noteq> QUOTE then RETURN_TOKEN (tok CHR ''@'') lx else lex_string QUOTE True lx)
      else if c = QUOTE \<or> c = APOS then lex_string c False lx
      else if c \<in> set one_char_tokens then then_token (tok c) lx
      else if c = CHR ''.'' then bind_lex (NEXT lx) lex_dots
      else case map_of two_char_tokens c of
        Some seconds \<Rightarrow> bind_lex (NEXT lx) (lex_maybe c seconds)
      | None \<Rightarrow>
          if is_digit c then bind_lex (SQLexer_ReadNumber lx) (\<lambda>(t, lx). RETURN_TOKEN t lx)
          else if is_alpha c \<or> c = CHR ''_'' then bind_lex (SQLexer_ReadID ss lx) (\<lambda>(t, lx). RETURN_TOKEN t lx)
          else if is_cntrl c then SQLexer_Error ''unexpected character(control)'' lx
          else then_token (tok c) lx)"

text \<open>What follows a slash that starts no comment.\<close>

definition lex_slash :: "sq_lexer \<Rightarrow> (int \<times> sq_lexer) lex" where
  "lex_slash lx =
     (if cur lx = CHR ''='' then then_token TK_DIVEQ lx
      else if cur lx = CHR ''>'' then then_token TK_ATTR_CLOSE lx
      else RETURN_TOKEN (tok CHR ''/'') lx)"

function lex_loop :: "sq_shared \<Rightarrow> sq_lexer \<Rightarrow> (int \<times> sq_lexer) lex" where
  "lex_loop ss lx =
     (let c = cur lx in
      if c = NUL then Inr (0, lx)
      else if c = TAB \<or> c = CR \<or> c = CHR '' '' then bind_lex (NEXT lx) (\<lambda>lx'. lex_loop ss lx')
      else if c = LF then
        bind_lex (NEXT (lx\<lparr>lx_currentline := lx_currentline lx + 1, lx_prevtoken := lx_curtoken lx, lx_curtoken := tok LF\<rparr>))
          (\<lambda>lx'. lex_loop ss (lx'\<lparr>lx_currentcolumn := 1\<rparr>))
      else if c = CHR ''#'' then bind_lex (SQLexer_LexLineComment lx) (\<lambda>lx'. lex_loop ss lx')
      else if c = CHR ''/'' then
        bind_lex (NEXT lx) (\<lambda>lx'.
          if cur lx' = CHR ''*'' then bind_lex (NEXT lx') (\<lambda>lx''. bind_lex (SQLexer_LexBlockComment lx'') (\<lambda>lx'''. lex_loop ss lx'''))
          else if cur lx' = CHR ''/'' then bind_lex (SQLexer_LexLineComment lx') (\<lambda>lx''. lex_loop ss lx'')
          else lex_slash lx')
      else lex_token ss lx)"
  by pat_completeness auto
termination
proof (relation "measure (\<lambda>(ss, lx). left lx)", goal_cases)
  case (3 ss lx c lx')
  then show ?case by (auto dest!: NEXT_left)
next
  case (5 ss lx c lx' lx'' lx''')
  then show ?case using NEXT_left [of lx lx'] NEXT_left [of lx' lx''] LexBlockComment_left [of lx'' lx'''] by (auto simp: NUL_def)
next
  case (6 ss lx c lx' lx'')
  then show ?case using NEXT_left [of lx lx'] LexLineComment_left [of lx' lx''] by (auto simp: NUL_def)
qed (auto dest!: NEXT_left LexLineComment_left)

declare lex_loop.simps [simp del]

definition SQLexer_Lex :: "sq_shared \<Rightarrow> sq_lexer \<Rightarrow> (int \<times> sq_lexer) lex" where
  "SQLexer_Lex ss lx = lex_loop ss (lx\<lparr>lx_lasttokenline := lx_currentline lx\<rparr>)"

section \<open>Starting, and the name of a token\<close>

definition add_keyword :: "string \<times> int \<Rightarrow> sq_shared \<times> sq_table \<Rightarrow> (sq_shared \<times> sq_table) res" where
  "add_keyword = (\<lambda>(key, i) (ss, t).
     bind_res (SQStringTable_Add (key @ [NUL]) (- 1) (sh_strings ss)) (\<lambda>(a, st).
       let ss = ss\<lparr>sh_strings := st\<rparr> in
       bind_res (SQTable_NewSlot (heap_of ss) (OT_STRING a) (OT_INTEGER (of_int i)) t) (\<lambda>(b, t). Inr (ss, t))))"

text \<open>
  The lexer is an object of the compiler's, not yet initialised; \<open>_curtoken\<close> stays so. The reader is its characters. An invalid first character is an
  error like any other here, a call of the error function it was given. What that function does is the compiler's: it jumps to where the compiling
  began, and the compiler's constructor calls \<open>Init\<close> before there is such a place, so in the program that jump is undefined.
\<close>

definition SQLexer_Init :: "sq_shared \<Rightarrow> int list \<Rightarrow> sq_lexer \<Rightarrow> (sq_shared \<times> sq_lexer) lex" where
  "SQLexer_Init ss rg lx =
     bind_lex (lift_lex (fold_res add_keyword keyword_list (ss, SQTable_Create 37))) (\<lambda>(ss, keywords).
       bind_lex (SQLexer_Next (lx\<lparr>lx_keywords := keywords, lx_input := rg, lx_lasttokenline := 1, lx_currentline := 1, lx_currentcolumn := 0,
         lx_prevtoken := - 1, lx_reached_eof := False\<rparr>)) (\<lambda>lx. Inr (ss, lx)))"

text \<open>The text that \<open>_stringval\<close> reads; the keys are strings.\<close>

definition string_text :: "sq_heap \<Rightarrow> sq_object \<Rightarrow> char list res" where
  "string_text H x =
     (case x of OT_STRING a \<Rightarrow> (case sq_strs H a of None \<Rightarrow> Inl UseAfterFree | Some s \<Rightarrow> Inr (c_str (str_val s))) | _ \<Rightarrow> Inl OutOfBoundsRead)"

partial_function (option) tok2str_loop :: "sq_heap \<Rightarrow> sq_table \<Rightarrow> int \<Rightarrow> sq_object \<Rightarrow> char list option res option" where
  "tok2str_loop H t token itr =
     (case SQTable_Next H False itr t of
        Inl e \<Rightarrow> Some (Inl e)
      | Inr r \<Rightarrow> (case r of None \<Rightarrow> Some (Inr None)
                 | Some (nitr, key, val) \<Rightarrow>
                     if sint (unval val) = token then Some (map_res Some (string_text H key)) else tok2str_loop H t token (OT_INTEGER nitr)))"

definition SQLexer_Tok2Str :: "sq_shared \<Rightarrow> int \<Rightarrow> sq_lexer \<Rightarrow> char list option res" where
  "SQLexer_Tok2Str ss token lx = run_loop (tok2str_loop (heap_of ss) (lx_keywords lx) token OT_NULL)"

end
