(* ===== verification/Capy_SQWords.thy ===== *)
theory Capy_SQWords
  imports Capy_SQLexer
begin

text \<open>
  The lexer's keywords: the table that \<open>SQLexer::Init\<close> fills finds the token of every word, and the word of every token, also when the
  machine has made more strings since.
\<close>

section \<open>A table while the strings grow\<close>

text \<open>Every string of one string table is in the other, at its address.\<close>

definition strings_kept :: "sq_strings \<Rightarrow> sq_strings \<Rightarrow> bool" where
  "strings_kept st st' = (strings_wf st \<and> strings_wf st' \<and> (\<forall>a s. has_text st a s \<longrightarrow> has_text st' a s))"

lemma strings_kept_trans: "strings_kept st st' \<Longrightarrow> strings_kept st' st'' \<Longrightarrow> strings_kept st st''"
  by (auto simp: strings_kept_def)

lemma strings_kept_hash:
  assumes "strings_kept st st'" and "ss_heap st a = Some s"
  shows "\<exists>s'. ss_heap st' a = Some s' \<and> str_hash s' = str_hash s"
proof -
  have "has_text st a (text_of s)" using assms(2) by (simp add: has_text_def)
  then obtain s' where s': "ss_heap st' a = Some s'" "text_of s' = text_of s" using assms(1) by (auto simp: strings_kept_def has_text_def)
  moreover have "well_made s" "well_made s'" using assms s'(1) by (auto simp: strings_kept_def strings_wf_def)
  ultimately show ?thesis by (auto simp: well_made_def)
qed

lemma HashObj_kept:
  assumes "strings_kept st st'" and "hashable \<lparr>sq_strs = ss_heap st, sq_weaks = w\<rparr> k"
  shows "HashObj \<lparr>sq_strs = ss_heap st', sq_weaks = w'\<rparr> k = HashObj \<lparr>sq_strs = ss_heap st, sq_weaks = w\<rparr> k"
proof (cases k)
  case (OT_STRING a)
  then obtain s where "ss_heap st a = Some s" using assms(2) by (auto simp: hashable_def HashObj_def split: option.splits)
  then show ?thesis using strings_kept_hash [OF assms(1)] OT_STRING by (fastforce simp: HashObj_def)
qed (simp_all add: HashObj_def)

lemma keys_wf_cong:
  assumes "\<And>i. i < n \<Longrightarrow> main (ky i) = main' (ky i)"
  shows "keys_wf main ky nx n ff = keys_wf main' ky nx n ff"
  using assms by (simp add: keys_wf_def cong: conj_cong imp_cong)

lemma tbl_wf_kept:
  assumes "strings_kept (sh_strings ss) (sh_strings ss')" and "tbl_wf (heap_of ss) t"
  shows "tbl_wf (heap_of ss') t"
proof -
  have hk: "HashObj (heap_of ss') (key_at (t_nodes t) i) = HashObj (heap_of ss) (key_at (t_nodes t) i)" if "i < length (t_nodes t)" for i
    unfolding heap_of_def
    by (rule HashObj_kept [OF assms(1)]) (use assms(2) that in \<open>simp add: tbl_wf_def hashable_keys_def heap_of_def\<close>)
  then have "hashable_keys (heap_of ss') (t_nodes t)" using assms(2) by (simp add: tbl_wf_def hashable_keys_def hashable_def)
  moreover have "keys_wf (main_of (heap_of ss') (length (t_nodes t))) (key_at (t_nodes t)) (next_at (t_nodes t)) (length (t_nodes t)) (t_firstfree t)"
    using assms(2) keys_wf_cong [of "length (t_nodes t)" "main_of (heap_of ss) (length (t_nodes t))" "key_at (t_nodes t)"
      "main_of (heap_of ss') (length (t_nodes t))"] hk by (simp add: tbl_wf_def nodes_wf_def main_of_def)
  ultimately show ?thesis using assms(2) by (simp add: tbl_wf_def nodes_wf_def)
qed

section \<open>The table of keywords\<close>

text \<open>The table has the words of a list as its keys, and their tokens as the values.\<close>

definition has_words :: "(string \<times> int) list \<Rightarrow> sq_shared \<Rightarrow> sq_table \<Rightarrow> bool" where
  "has_words ws ss t =
     (strings_wf (sh_strings ss) \<and> tbl_wf (heap_of ss) t \<and>
      (\<forall>s\<in>fst ` set ws. \<exists>a. has_text (sh_strings ss) a s) \<and>
      (\<forall>k v. tbl_map t k = Some v \<longleftrightarrow> (\<exists>a s. k = OT_STRING a \<and> has_text (sh_strings ss) a s \<and> map_option (\<lambda>i. OT_INTEGER (of_int i)) (map_of ws s) = Some v)))"

text \<open>The table is big enough for all of them from the start, so no word makes it grow.\<close>

definition roomy :: "nat \<Rightarrow> sq_table \<Rightarrow> bool" where
  "roomy n t = (compact_nodes (t_nodes t) (t_firstfree t) \<and> t_used t = int n \<and> length (t_nodes t) = 64)"

lemma strings_wf_text: "strings_wf st \<Longrightarrow> has_text st a s \<Longrightarrow> has_text st b t \<Longrightarrow> a = b \<longleftrightarrow> s = t"
  unfolding strings_wf_def has_text_def by (metis option.inject)

lemma Add_kept:
  assumes "strings_wf st" and "is_c_string s"
  shows "\<exists>a st'. SQStringTable_Add (s @ [NUL]) (- 1) st = Inr (a, st') \<and> strings_kept st st' \<and> has_text st' a s"
proof -
  have s: "c_str (s @ [NUL]) = s" using c_str_append_NUL [OF assms(2), of "[]"] by simp
  from Add_adds [OF assms(1), of "- 1" "s @ [NUL]"] obtain a st' where add: "SQStringTable_Add (s @ [NUL]) (- 1) st = Inr (a, st')" "strings_wf st'"
    "has_text st' a s"
    "if \<exists>b. has_text st b s then st' = st else (\<forall>u. \<not> has_text st a u) \<and> (\<forall>b u. has_text st' b u \<longleftrightarrow> (if b = a then u = s else has_text st b u))"
    by (auto simp: adds_text_def s)
  have "has_text st' b u" if "has_text st b u" for b u using add(4) that by (cases "\<exists>b. has_text st b s") (auto split: if_splits)
  then show ?thesis using add(1-3) assms(1) by (auto simp: strings_kept_def)
qed

lemma has_words_kept:
  assumes "has_words ws ss t" and "strings_kept (sh_strings ss) (sh_strings ss')"
  shows "has_words ws ss' t"
proof -
  have kept: "has_text (sh_strings ss') a s" if "has_text (sh_strings ss) a s" for a s using assms(2) that by (simp add: strings_kept_def)
  have wf': "strings_wf (sh_strings ss')" using assms(2) by (simp add: strings_kept_def)
  have same: "(\<exists>a s. k = OT_STRING a \<and> has_text (sh_strings ss) a s \<and> map_option f (map_of ws s) = Some v) \<longleftrightarrow>
      (\<exists>a s. k = OT_STRING a \<and> has_text (sh_strings ss') a s \<and> map_option f (map_of ws s) = Some v)" (is "?L \<longleftrightarrow> ?R") for k v and f :: "int \<Rightarrow> sq_object"
  proof
    show "?L \<Longrightarrow> ?R" using kept by blast
    assume ?R
    then obtain a s where a: "k = OT_STRING a" "has_text (sh_strings ss') a s" "map_option f (map_of ws s) = Some v" by blast
    then have "s \<in> fst ` set ws" by (force dest: map_of_SomeD)
    then obtain b where b: "has_text (sh_strings ss) b s" using assms(1) by (auto simp: has_words_def)
    then have "b = a" using strings_wf_text [OF wf' kept [OF b] a(2)] by simp
    then show ?L using a b by blast
  qed
  have "tbl_wf (heap_of ss') t" using tbl_wf_kept [OF assms(2)] assms(1) by (simp add: has_words_def)
  then show ?thesis using assms(1) wf' kept unfolding has_words_def same by blast
qed

lemma add_keyword_words:
  assumes "has_words ws ss t" and "is_c_string s" and "s \<notin> fst ` set ws" and "roomy (length ws) t" and "length ws < 63"
  shows "\<exists>ss' t'. add_keyword (s, i) (ss, t) = Inr (ss', t') \<and> has_words (ws @ [(s, i)]) ss' t' \<and> strings_kept (sh_strings ss) (sh_strings ss') \<and>
    roomy (length ws + 1) t'"
proof -
  have wf: "strings_wf (sh_strings ss)" using assms(1) by (simp add: has_words_def)
  obtain a st where add: "SQStringTable_Add (s @ [NUL]) (- 1) (sh_strings ss) = Inr (a, st)" "strings_kept (sh_strings ss) st" "has_text st a s"
    using Add_kept [OF wf assms(2)] by blast
  let ?ss = "ss\<lparr>sh_strings := st\<rparr>"
  have words: "has_words ws ?ss t" by (rule has_words_kept [OF assms(1)]) (use add(2) in simp)
  then have twf: "tbl_wf (heap_of ?ss) t" by (simp add: has_words_def)
  have "hashable (heap_of ?ss) (OT_STRING a)" using add(3) by (auto simp: hashable_def HashObj_def heap_of_def has_text_def)
  have st: "strings_wf st" using add(2) by (simp add: strings_kept_def)
  have old: "tbl_map t k = Some v \<longleftrightarrow> (\<exists>a s. k = OT_STRING a \<and> has_text st a s \<and> map_option (\<lambda>i. OT_INTEGER (of_int i)) (map_of ws s) = Some v)" for k v
    using words by (simp add: has_words_def)
  have none: "map_of ws s = None" using assms(3) by (simp add: map_of_eq_None_iff)
  have "u = s" if "has_text st a u" for u using strings_wf_text [OF st that add(3)] by simp
  then have "tbl_map t (OT_STRING a) \<noteq> Some v" for v unfolding old using none by auto
  then have absent: "tbl_map t (OT_STRING a) = None" by (metis option.exhaust)
  have "NESTING = Suc 2" by (simp add: NESTING_def)
  moreover have "t_used t + 1 < int (length (t_nodes t))" using assms(4,5) by (simp add: roomy_def)
  ultimately obtain t' where t': "SQTable_NewSlot (heap_of ?ss) (OT_STRING a) (OT_INTEGER (of_int i)) t = Inr (True, t')" "tbl_wf (heap_of ?ss) t'"
    "tbl_map t' = (tbl_map t)(OT_STRING a \<mapsto> OT_INTEGER (of_int i))" "roomy (length ws + 1) t'"
    using NewSlot_nested_room [OF twf _ _ \<open>hashable (heap_of ?ss) (OT_STRING a)\<close> absent, of 2 "OT_INTEGER (of_int i)"] assms(4)
    unfolding SQTable_NewSlot_def roomy_def by (auto simp del: NewSlot_nested.simps)
  have new: "map_of (ws @ [(s, i)]) u = (if u = s then Some i else map_of ws u)" for u
    using none by (simp add: map_add_def split: option.split)
  have "tbl_map t' k = Some v \<longleftrightarrow>
      (\<exists>a s'. k = OT_STRING a \<and> has_text st a s' \<and> map_option (\<lambda>i. OT_INTEGER (of_int i)) (map_of (ws @ [(s, i)]) s') = Some v)" for k v
  proof (cases "k = OT_STRING a")
    case True
    have only: "s' = s" if "has_text st a s'" for s' using strings_wf_text [OF st that add(3)] by simp
    have "(\<exists>a' s'. k = OT_STRING a' \<and> has_text st a' s' \<and> Q s') \<longleftrightarrow> Q s" for Q using True only add(3) by blast
    from this [of "\<lambda>s'. map_option (\<lambda>i. OT_INTEGER (of_int i)) (map_of (ws @ [(s, i)]) s') = Some v"] show ?thesis
      using True t'(3) by (simp add: new del: map_of_append)
  next
    case False
    have other: "map_of (ws @ [(s, i)]) s' = map_of ws s'" if "k = OT_STRING b" "has_text st b s'" for s' b
      using strings_wf_text [OF st that(2) add(3)] that(1) False new by auto
    have "tbl_map t' k = tbl_map t k" using False t'(3) by simp
    moreover have "(\<exists>b s'. k = OT_STRING b \<and> has_text st b s' \<and> map_option (\<lambda>i. OT_INTEGER (of_int i)) (map_of (ws @ [(s, i)]) s') = Some v) \<longleftrightarrow>
        (\<exists>b s'. k = OT_STRING b \<and> has_text st b s' \<and> map_option (\<lambda>i. OT_INTEGER (of_int i)) (map_of ws s') = Some v)"
      by (intro ex_cong1 conj_cong refl) (simp only: other)
    ultimately show ?thesis using old [of k v] by (simp only:)
  qed
  moreover have "\<forall>u\<in>fst ` set (ws @ [(s, i)]). \<exists>a. has_text st a u" using words add(3) by (auto simp: has_words_def)
  ultimately have "has_words (ws @ [(s, i)]) ?ss t'" using t'(2) st by (simp add: has_words_def)
  then show ?thesis using add(1,2) t'(1,4) by (auto simp: add_keyword_def)
qed

lemma add_keywords_words:
  assumes "has_words ws ss t" and "list_all (\<lambda>(s, i). is_c_string s) us" and "distinct (map fst (ws @ us))"
    and "roomy (length ws) t" and "length (ws @ us) < 64"
  shows "\<exists>ss' t'. fold_res add_keyword us (ss, t) = Inr (ss', t') \<and> has_words (ws @ us) ss' t' \<and> strings_kept (sh_strings ss) (sh_strings ss') \<and>
    roomy (length (ws @ us)) t'"
  using assms
proof (induction us arbitrary: ws ss t)
  case Nil
  then show ?case by (auto simp: has_words_def strings_kept_def)
next
  case (Cons u us)
  obtain s i where u: "u = (s, i)" by (cases u)
  have "is_c_string s" "s \<notin> fst ` set ws" "length ws < 63" using Cons.prems(2,3,5) u by auto
  from add_keyword_words [OF Cons.prems(1) this(1,2) Cons.prems(4) this(3)] obtain ss1 t1 where 1: "add_keyword (s, i) (ss, t) = Inr (ss1, t1)" "has_words (ws @ [(s, i)]) ss1 t1"
    "strings_kept (sh_strings ss) (sh_strings ss1)" "roomy (length (ws @ [(s, i)])) t1" by fastforce
  have "length ((ws @ [(s, i)]) @ us) < 64" using Cons.prems(5) by simp
  moreover have "list_all (\<lambda>(s, i). is_c_string s) us" "distinct (map fst ((ws @ [(s, i)]) @ us))" using Cons.prems(2,3) u by simp_all
  ultimately obtain ss' t' where "fold_res add_keyword us (ss1, t1) = Inr (ss', t')" "has_words ((ws @ [(s, i)]) @ us) ss' t'"
    "strings_kept (sh_strings ss1) (sh_strings ss')" "roomy (length ((ws @ [(s, i)]) @ us)) t'" using Cons.IH [OF 1(2) _ _ 1(4)] by blast
  then show ?case using 1(1,3) u strings_kept_trans by auto
qed

lemma keyword_list_words: "list_all (\<lambda>(s, i). is_c_string s) keyword_list" "distinct (map fst keyword_list)" "distinct (map snd keyword_list)"
  "list_all (\<lambda>(s, i). 0 \<le> i \<and> i < 2 ^ 63 \<and> i \<noteq> TK_IDENTIFIER) keyword_list"
  by code_simp+

lemma keywords_added:
  assumes "strings_wf (sh_strings ss)"
  shows "\<exists>ss' t. fold_res add_keyword keyword_list (ss, SQTable_Create 37) = Inr (ss', t) \<and> has_words keyword_list ss' t \<and>
    strings_kept (sh_strings ss) (sh_strings ss') \<and> length (t_nodes t) = 64"
proof -
  have "has_words [] ss (SQTable_Create 37)" using assms Create_wf by (simp add: has_words_def Create_map)
  moreover have "roomy 0 (SQTable_Create 37)"
    by (simp add: roomy_def SQTable_Create_def MINPOWER2_def pow2size.simps SQTable_AllocNodes_def compact_nodes_def)
  ultimately show ?thesis
    using add_keywords_words [of "[]" ss "SQTable_Create 37" keyword_list] keyword_list_words by (auto simp: roomy_def keyword_list_def)
qed

section \<open>Looking a word up\<close>

lemma keyword_value:
  assumes "map_of keyword_list s = Some i"
  shows "sint (of_int i :: u64) = i"
proof -
  have "0 \<le> i" "i < 2 ^ 63" using keyword_list_words(4) map_of_SomeD [OF assms] by (auto simp: list_all_iff)
  then have "signed_take_bit 63 i = i" by (intro signed_take_bit_int_eq_self) simp_all
  then show ?thesis by (simp add: signed_of_int)
qed

definition word_token :: "string \<Rightarrow> int" where
  "word_token s = (case map_of keyword_list s of None \<Rightarrow> TK_IDENTIFIER | Some i \<Rightarrow> i)"

lemma GetIDType_words:
  assumes "has_words keyword_list ss (lx_keywords lx)" and "is_c_string s"
  shows "GetIDType ss (s @ [NUL]) (length s) lx = Inr (word_token s)"
proof -
  let ?t = "lx_keywords lx"
  have wf: "strings_wf (sh_strings ss)" "tbl_wf (heap_of ss) ?t" and
    m: "tbl_map ?t k = Some v \<longleftrightarrow> (\<exists>a s. k = OT_STRING a \<and> has_text (sh_strings ss) a s \<and> map_option (\<lambda>i. OT_INTEGER (of_int i)) (map_of keyword_list s) = Some v)"
    for k v using assms(1) by (simp_all add: has_words_def)
  have strs: "sq_strs (heap_of ss) = ss_heap (sh_strings ss)" by (simp add: heap_of_def)
  have keys: "is_c_string u" if "i < length (t_nodes ?t)" "key_at (t_nodes ?t) i = OT_STRING a" "has_text (sh_strings ss) a u" for i a u
  proof -
    have "tbl_map ?t (OT_STRING a) = Some (n_val (t_nodes ?t ! i))" using nodes_map_at [OF tbl_wf_distinct [OF wf(2)] that(1)] that(2) by simp
    then obtain w where w: "has_text (sh_strings ss) a w" "map_option (\<lambda>i. OT_INTEGER (of_int i)) (map_of keyword_list w) = Some (n_val (t_nodes ?t ! i))"
      unfolding m by blast
    then have "u = w" using strings_wf_text [OF wf(1) that(3) w(1)] by simp
    then show ?thesis using w(2) keyword_list_words(1) by (force simp: list_all_iff dest: map_of_SomeD)
  qed
  have get: "has_text (sh_strings ss) a s \<Longrightarrow> SQTable_GetStr (heap_of ss) (s @ [NUL]) (length s) ?t =
      (case tbl_map ?t (OT_STRING a) of None \<Rightarrow> Inr None | Some v \<Rightarrow> map_res Some (realval (heap_of ss) v))"
    "(\<And>a. \<not> has_text (sh_strings ss) a s) \<Longrightarrow> SQTable_GetStr (heap_of ss) (s @ [NUL]) (length s) ?t = Inr None" for a
    by (rule GetStr_map [OF wf(2) strs wf(1) assms(2)]; use keys in blast)+
  show ?thesis
  proof (cases "\<exists>a. has_text (sh_strings ss) a s")
    case True
    then obtain a where a: "has_text (sh_strings ss) a s" by blast
    have "tbl_map ?t (OT_STRING a) = map_option (\<lambda>i. OT_INTEGER (of_int i)) (map_of keyword_list s)"
    proof (cases "map_of keyword_list s")
      case (Some i)
      then have "tbl_map ?t (OT_STRING a) = Some (OT_INTEGER (of_int i))" unfolding m using a by auto
      then show ?thesis using Some by simp
    next
      case None
      have only: "u = s" if "has_text (sh_strings ss) a u" for u using strings_wf_text [OF wf(1) that a] by simp
      have "tbl_map ?t (OT_STRING a) \<noteq> Some v" for v unfolding m using None only by auto
      then have "tbl_map ?t (OT_STRING a) = None" by (metis option.exhaust)
      then show ?thesis using None by simp
    qed
    then show ?thesis using get(1) [OF a] keyword_value by (auto simp: GetIDType_def word_token_def realval_def unval_def split: option.split)
  next
    case False
    then have "map_of keyword_list s = None"
      using assms(1) by (cases "map_of keyword_list s") (force simp: has_words_def dest: map_of_SomeD)+
    then show ?thesis using get(2) False by (simp add: GetIDType_def word_token_def)
  qed
qed

section \<open>The word of a token\<close>

declare tok2str_loop.simps [code]

lemma word_value:
  assumes "has_words keyword_list ss t" and "j < length (t_nodes t)" and "key_at (t_nodes t) j \<noteq> OT_NULL"
  obtains a s i where "key_at (t_nodes t) j = OT_STRING a" "has_text (sh_strings ss) a s" "map_of keyword_list s = Some i" "n_val (t_nodes t ! j) = OT_INTEGER (of_int i)"
    "is_c_string s" "sint (of_int i :: u64) = i"
proof -
  have wf: "tbl_wf (heap_of ss) t" using assms(1) by (simp add: has_words_def)
  have "tbl_map t (key_at (t_nodes t) j) = Some (n_val (t_nodes t ! j))" using nodes_map_at [OF tbl_wf_distinct [OF wf] assms(2,3)] .
  then obtain a s where a: "key_at (t_nodes t) j = OT_STRING a" "has_text (sh_strings ss) a s"
    "map_option (\<lambda>i. OT_INTEGER (of_int i)) (map_of keyword_list s) = Some (n_val (t_nodes t ! j))"
    using assms(1) unfolding has_words_def by blast
  then obtain i where i: "map_of keyword_list s = Some i" "n_val (t_nodes t ! j) = OT_INTEGER (of_int i)" by auto
  have "is_c_string s" using map_of_SomeD [OF i(1)] keyword_list_words(1) by (auto simp: list_all_iff)
  then show thesis using that a(1,2) i keyword_value [OF i(1)] by blast
qed

lemma word_at:
  assumes "has_words keyword_list ss t" and "map_of keyword_list s = Some i"
  obtains j where "j < length (t_nodes t)" "key_at (t_nodes t) j \<noteq> OT_NULL" "n_val (t_nodes t ! j) = OT_INTEGER (of_int i)"
proof -
  have wf: "tbl_wf (heap_of ss) t" using assms(1) by (simp add: has_words_def)
  have "s \<in> fst ` set keyword_list" using map_of_SomeD [OF assms(2)] by force
  then obtain a where "has_text (sh_strings ss) a s" using assms(1) by (auto simp: has_words_def)
  then have "tbl_map t (OT_STRING a) = Some (OT_INTEGER (of_int i))" using assms unfolding has_words_def by fastforce
  then show thesis using that nodes_map_Some [OF tbl_wf_distinct [OF wf]] by auto
qed

lemma tok2str_from:
  assumes "has_words keyword_list ss t" and "length (t_nodes t) < 2 ^ 63" and "k \<le> length (t_nodes t)"
  shows "(\<exists>j s. run_loop (tok2str_loop (heap_of ss) t token (OT_INTEGER (of_nat k))) = Inr (Some s) \<and> map_of keyword_list s = Some token) \<or>
    run_loop (tok2str_loop (heap_of ss) t token (OT_INTEGER (of_nat k))) = Inr None \<and>
      (\<forall>j. k \<le> j \<and> j < length (t_nodes t) \<and> key_at (t_nodes t) j \<noteq> OT_NULL \<longrightarrow> sint (unval (n_val (t_nodes t ! j))) \<noteq> token)"
  using assms(3)
proof (induction "length (t_nodes t) - k" arbitrary: k rule: less_induct)
  case less
  let ?ns = "t_nodes t"
  note nxt = Next_index [OF assms(2) less.prems, of "heap_of ss" False]
  show ?case
  proof (cases "next_index ?ns k")
    case None
    then have "tok2str_loop (heap_of ss) t token (OT_INTEGER (of_nat k)) = Some (Inr None)" using nxt by (subst tok2str_loop.simps) simp
    then show ?thesis using next_index_None [OF None] by auto
  next
    case (Some j)
    note j = next_index_Some [OF Some]
    obtain a s i where w: "key_at ?ns j = OT_STRING a" "has_text (sh_strings ss) a s" "map_of keyword_list s = Some i" "n_val (?ns ! j) = OT_INTEGER (of_int i)"
      "is_c_string s" "sint (of_int i :: u64) = i"
      using word_value [OF assms(1), of j] j by blast
    obtain x where x: "ss_heap (sh_strings ss) a = Some x" "text_of x = s" using w(2) by (auto simp: has_text_def)
    have "well_made x" using assms(1) x(1) by (auto simp: has_words_def strings_wf_def)
    then have str: "string_text (heap_of ss) (OT_STRING a) = Inr s" using x c_str_val [of x] w(5) by (simp add: string_text_def heap_of_def)
    have step: "tok2str_loop (heap_of ss) t token (OT_INTEGER (of_nat k)) =
        (if i = token then Some (Inr (Some s)) else tok2str_loop (heap_of ss) t token (OT_INTEGER (of_nat (Suc j))))"
      using nxt Some w(1,4,6) str by (subst tok2str_loop.simps) (simp add: realval_def unval_def)
    show ?thesis
    proof (cases "i = token")
      case True
      then show ?thesis using step w(3) by simp
    next
      case False
      have "length ?ns - Suc j < length ?ns - k" "Suc j \<le> length ?ns" using j by linarith+
      from less.hyps [OF this] show ?thesis
      proof
        assume "run_loop (tok2str_loop (heap_of ss) t token (OT_INTEGER (of_nat (Suc j)))) = Inr None \<and>
          (\<forall>l. Suc j \<le> l \<and> l < length ?ns \<and> key_at ?ns l \<noteq> OT_NULL \<longrightarrow> sint (unval (n_val (?ns ! l))) \<noteq> token)"
        moreover have "sint (unval (n_val (?ns ! l))) \<noteq> token" if "k \<le> l" "\<not> Suc j \<le> l" "key_at ?ns l \<noteq> OT_NULL" for l
        proof -
          have "l = j" using that j by (metis linorder_neqE_nat not_less_eq_eq not_less)
          then show ?thesis using w(4,6) False by (simp add: unval_def)
        qed
        ultimately show ?thesis using step False by (metis (no_types, lifting))
      qed (use step False in simp)
    qed
  qed
qed

lemma map_of_distinct_values: "distinct (map snd xs) \<Longrightarrow> map_of xs s = Some i \<Longrightarrow> map_of xs t = Some i \<Longrightarrow> s = t"
proof -
  assume "distinct (map snd xs)" "map_of xs s = Some i" "map_of xs t = Some i"
  then have "inj_on snd (set xs)" "(s, i) \<in> set xs" "(t, i) \<in> set xs" by (auto simp: distinct_map dest: map_of_SomeD)
  then show "s = t" by (metis inj_on_def prod.inject snd_conv)
qed

lemma Tok2Str_words:
  assumes "has_words keyword_list ss (lx_keywords lx)" and "length (t_nodes (lx_keywords lx)) < 2 ^ 63"
  shows "map_of keyword_list s = Some token \<Longrightarrow> SQLexer_Tok2Str ss token lx = Inr (Some s)"
    and "token \<notin> snd ` set keyword_list \<Longrightarrow> SQLexer_Tok2Str ss token lx = Inr None"
proof -
  let ?t = "lx_keywords lx"
  have "tok2str_loop (heap_of ss) ?t token OT_NULL = tok2str_loop (heap_of ss) ?t token (OT_INTEGER 0)"
    by (subst (1 2) tok2str_loop.simps) (simp add: SQTable_Next_def TranslateIndex_def)
  then have run: "SQLexer_Tok2Str ss token lx = run_loop (tok2str_loop (heap_of ss) ?t token (OT_INTEGER (of_nat 0)))"
    by (simp add: SQLexer_Tok2Str_def)
  note from_0 = tok2str_from [OF assms le0, of token, folded run]
  show "SQLexer_Tok2Str ss token lx = Inr (Some s)" if word: "map_of keyword_list s = Some token"
  proof -
    obtain j where "j < length (t_nodes ?t)" "key_at (t_nodes ?t) j \<noteq> OT_NULL" "n_val (t_nodes ?t ! j) = OT_INTEGER (of_int token)"
      using word_at [OF assms(1) word] by blast
    then show ?thesis using from_0 map_of_distinct_values [OF keyword_list_words(3) word] keyword_value [OF word] by (auto simp: unval_def)
  qed
  show "SQLexer_Tok2Str ss token lx = Inr None" if "token \<notin> snd ` set keyword_list"
    using from_0 that map_of_SomeD by (metis image_eqI snd_conv)
qed

section \<open>Properties\<close>

lemma Init_words:
  assumes "strings_wf (sh_strings ss)" and "SQLexer_Init ss rg lx0 = Inr (ss', lx)"
  shows "has_words keyword_list ss' (lx_keywords lx)" and "strings_kept (sh_strings ss) (sh_strings ss')"
    and "length (t_nodes (lx_keywords lx)) = 64"
proof -
  obtain ss1 t where 1: "fold_res add_keyword keyword_list (ss, SQTable_Create 37) = Inr (ss1, t)" "has_words keyword_list ss1 t"
    "strings_kept (sh_strings ss) (sh_strings ss1)" "length (t_nodes t) = 64"
    using keywords_added [OF assms(1)] by blast
  have "ss' = ss1" "lx_keywords lx = t"
    using assms(2) 1(1) by (auto simp: SQLexer_Init_def SQLexer_Next_def SQLexer_Error_def Let_def bind_lex_Inr split: list.splits if_splits)
  then show "has_words keyword_list ss' (lx_keywords lx)" "strings_kept (sh_strings ss) (sh_strings ss')" "length (t_nodes (lx_keywords lx)) = 64"
    using 1 by simp_all
qed

text \<open>
  C32. Whatever strings the machine has when a lexer is initialised and whatever it makes afterwards, as long as it keeps what it has: the lexer
  gives a word the token its definition gives it, a keyword's or an identifier's, and the name it then prints for the token, in an error
  message, is the word again.
\<close>

theorem keywords_found:
  assumes "strings_step\<^sup>*\<^sup>* SQStringTable_new (sh_strings ss)" and "SQLexer_Init ss rg lx0 = Inr (ss', lx)"
    and "strings_kept (sh_strings ss') (sh_strings ss'')" and "is_c_string s"
  shows "GetIDType ss'' (s @ [NUL]) (length s) lx = Inr (word_token s) \<and>
    SQLexer_Tok2Str ss'' (word_token s) lx = Inr (if word_token s = TK_IDENTIFIER then None else Some s)"
proof -
  note init = Init_words [OF strs.inv_reachable [OF refl assms(1)] assms(2)]
  have words: "has_words keyword_list ss'' (lx_keywords lx)" using has_words_kept [OF init(1) assms(3)] .
  have len: "length (t_nodes (lx_keywords lx)) < 2 ^ 63" using init(3) by simp
  have "TK_IDENTIFIER \<notin> snd ` set keyword_list" "map_of keyword_list s = Some i \<Longrightarrow> i \<noteq> TK_IDENTIFIER" for i
    using keyword_list_words(4) by (auto simp: list_all_iff dest: map_of_SomeD)
  then show ?thesis using GetIDType_words [OF words assms(4)] Tok2Str_words [OF words len]
    by (auto simp: word_token_def split: option.split)
qed

text \<open>A machine that has just been started, and memory for a lexer.\<close>

definition new_shared :: sq_shared where
  "new_shared = \<lparr>sh_strings = SQStringTable_new, sh_weaks = Map.empty\<rparr>"

definition new_lexer :: sq_lexer where
  "new_lexer = \<lparr>lx_input = [], lx_curtoken = 0, lx_keywords = SQTable_Create 0, lx_reached_eof = False, lx_prevtoken = 0, lx_currentline = 0,
     lx_lasttokenline = 0, lx_currentcolumn = 0, lx_svalue = [], lx_nvalue = 0, lx_fvalue = NaN, lx_currdata = NUL, lx_longstr = []\<rparr>"

theorem keywords_found_witness:
  "\<exists>ss lx. SQLexer_Init new_shared [] new_lexer = Inr (ss, lx) \<and>
    GetIDType ss (''constructor'' @ [NUL]) (length ''constructor'') lx = Inr TK_CONSTRUCTOR \<and> SQLexer_Tok2Str ss TK_CONSTRUCTOR lx = Inr (Some ''constructor'') \<and>
    GetIDType ss (''onTick'' @ [NUL]) (length ''onTick'') lx = Inr TK_IDENTIFIER"
proof -
  have run: "strings_step\<^sup>*\<^sup>* SQStringTable_new (sh_strings new_shared)" by (simp add: new_shared_def)
  obtain ss lx where init: "SQLexer_Init new_shared [] new_lexer = Inr (ss, lx)"
    using keywords_added [of new_shared] strings_wf_new by (auto simp: SQLexer_Init_def SQLexer_Next_def Let_def new_shared_def)
  have kept: "strings_kept (sh_strings ss) (sh_strings ss)"
    using Init_words(2) [OF strs.inv_reachable [OF refl run] init] by (simp add: strings_kept_def)
  have "is_c_string ''constructor''" "is_c_string ''onTick''" "word_token ''constructor'' = TK_CONSTRUCTOR" "word_token ''onTick'' = TK_IDENTIFIER"
    by code_simp+
  then show ?thesis
    using keywords_found [OF run init kept, of "''constructor''"] keywords_found [OF run init kept, of "''onTick''"] init
    by (intro exI [of _ ss] exI [of _ lx]) (simp del: list.size)
qed

end
