(* ===== verification/Capy_SQScan.thy ===== *)
theory Capy_SQScan
  imports Capy_SQWords
begin

text \<open>
  The lexer on any input: every call ends, no call faults, each token takes at least one character, the keywords stay, and the line the lexer is
  at is always one more than the newlines that are behind it.
\<close>

section \<open>What a step of the lexer does\<close>

text \<open>A result that is no fault (if faults are forbidden), and has a property if it is no error.\<close>

definition lexes :: "bool \<Rightarrow> 'a lex \<Rightarrow> ('a \<Rightarrow> bool) \<Rightarrow> bool" where
  "lexes b m P = (case m of Inl (LexFault e) \<Rightarrow> \<not> b | Inl (LexError s l c) \<Rightarrow> True | Inr x \<Rightarrow> P x)"

named_theorems lexes_intro "rules for what results of the lexer have"

lemma lexes_Inr [simp]: "lexes b (Inr x) P = P x" and lexes_Error [simp]: "lexes b (SQLexer_Error s lx) P" "lexes b (Inl (LexError s l c)) P"
  and lexes_Fault [simp]: "lexes b (Inl (LexFault e)) P = (\<not> b)"
  by (simp_all add: lexes_def SQLexer_Error_def)

lemma lexes_bind: "lexes b m Q \<Longrightarrow> (\<And>x. m = Inr x \<Longrightarrow> Q x \<Longrightarrow> lexes b (f x) P) \<Longrightarrow> lexes b (bind_lex m f) P"
  by (cases m) (auto simp: lexes_def split: lex_stop.splits)

lemma lexes_mono: "lexes b m Q \<Longrightarrow> (\<And>x. m = Inr x \<Longrightarrow> Q x \<Longrightarrow> P x) \<Longrightarrow> lexes b m P"
  by (cases m) (auto simp: lexes_def split: lex_stop.splits)

lemma lexes_Inr_D: "lexes b m P \<Longrightarrow> m = Inr x \<Longrightarrow> P x"
  by simp

text \<open>The line of the lexer and the newlines still to come; what a step keeps.\<close>

definition line_total :: "sq_lexer \<Rightarrow> int" where
  "line_total lx = lx_currentline lx + of_bool (cur lx = LF) + int (length (filter (\<lambda>t. t mod 256 = 10) (lx_input lx)))"

definition onward :: "sq_lexer \<Rightarrow> sq_lexer \<Rightarrow> bool" where
  "onward lx lx' = (lx_keywords lx' = lx_keywords lx \<and> line_total lx' = line_total lx \<and> left lx' \<le> left lx)"

lemma onward_refl [simp]: "onward lx lx"
  by (simp add: onward_def)

lemma onward_trans [trans]: "onward lx lx' \<Longrightarrow> onward lx' lx'' \<Longrightarrow> onward lx lx''"
  by (auto simp: onward_def)

lemma line_total_updates [simp]:
  "line_total (lx\<lparr>lx_longstr := s\<rparr>) = line_total lx" "line_total (APPEND_CHAR c lx) = line_total lx" "line_total (lx\<lparr>lx_currentcolumn := l\<rparr>) = line_total lx"
  "line_total (lx\<lparr>lx_prevtoken := l\<rparr>) = line_total lx" "line_total (lx\<lparr>lx_curtoken := l\<rparr>) = line_total lx"
  "line_total (lx\<lparr>lx_nvalue := n\<rparr>) = line_total lx" "line_total (lx\<lparr>lx_fvalue := f\<rparr>) = line_total lx" "line_total (lx\<lparr>lx_svalue := s\<rparr>) = line_total lx"
  "line_total (lx\<lparr>lx_lasttokenline := l\<rparr>) = line_total lx"
  "line_total (lx\<lparr>lx_currentline := k\<rparr>) = line_total lx - lx_currentline lx + k"
  by (simp_all add: line_total_def APPEND_CHAR_def)

lemma keywords_append [simp]: "lx_keywords (APPEND_CHAR c lx) = lx_keywords lx" "lx_longstr (APPEND_CHAR c lx) = lx_longstr lx @ [c]"
  "lx_currentline (APPEND_CHAR c lx) = lx_currentline lx"
  by (simp_all add: APPEND_CHAR_def)

lemma line_char: "char_of t = LF \<longleftrightarrow> t mod 256 = (10 :: int)"
proof -
  have "of_char (char_of t :: char) = t mod 256" "(of_char LF :: int) = 10" by simp_all
  then show ?thesis by (metis char_of_char)
qed

text \<open>The next character: one less is left, and if it was a newline that is taken, the line has to be counted.\<close>

definition one_on :: "sq_lexer \<Rightarrow> sq_lexer \<Rightarrow> bool" where
  "one_on lx lx' =
     (lx_keywords lx' = lx_keywords lx \<and> line_total lx' + of_bool (cur lx = LF) = line_total lx \<and> left lx' \<le> left lx \<and>
      (cur lx \<noteq> NUL \<or> cur lx' \<noteq> NUL \<longrightarrow> left lx' < left lx) \<and> lx_longstr lx' = lx_longstr lx)"

lemma NEXT_one_on [lexes_intro]: "lexes b (NEXT lx) (one_on lx)"
proof (cases "NEXT lx")
  case (Inl e)
  then show ?thesis by (auto simp: NEXT_def SQLexer_Next_def SQLexer_Error_def Let_def split: list.splits if_splits)
next
  case (Inr lx')
  have "lx_keywords lx' = lx_keywords lx \<and> line_total lx' + of_bool (cur lx = LF) = line_total lx \<and> lx_longstr lx' = lx_longstr lx"
    using Inr by (auto simp: NEXT_def SQLexer_Next_def SQLexer_Error_def line_total_def Let_def bind_lex_Inr line_char NUL_def split: list.splits if_splits)
  then show ?thesis using Inr NEXT_left [OF Inr] by (auto simp: one_on_def)
qed


lemma one_on_onward: "one_on lx lx' \<Longrightarrow> cur lx \<noteq> LF \<Longrightarrow> onward lx lx'"
  by (simp add: one_on_def onward_def)

lemma NEXT_onward [lexes_intro]: "cur lx \<noteq> LF \<Longrightarrow> lexes b (NEXT lx) (onward lx)"
  by (rule lexes_mono [OF NEXT_one_on]) (rule one_on_onward)

section \<open>Comments and strings\<close>

lemma onward_NEXT: "onward lx0 lx \<Longrightarrow> cur lx \<noteq> LF \<Longrightarrow> lexes b (NEXT lx) (onward lx0)"
  by (rule lexes_mono [OF NEXT_onward]) (auto intro: onward_trans)

lemma line_NEXT: "lexes b (NEXT (lx\<lparr>lx_currentline := lx_currentline lx + 1\<rparr>)) (onward lx)" if "cur lx = LF"
  by (rule lexes_mono [OF NEXT_one_on]) (use that in \<open>auto simp: one_on_def onward_def\<close>)

lemma LexBlockComment_onward: "lexes b (SQLexer_LexBlockComment lx) (onward lx)"
proof (induction lx rule: SQLexer_LexBlockComment.induct)
  case (1 lx)
  have nolf: "CHR ''*'' \<noteq> LF" "CHR ''/'' \<noteq> LF" by simp_all
  consider "cur lx = CHR ''*''" | "cur lx = LF" | "cur lx \<noteq> CHR ''*''" "cur lx \<noteq> LF" by blast
  then show ?case
  proof cases
    case a: 1
    show ?thesis
      by (subst SQLexer_LexBlockComment.simps) (auto simp: a intro!: lexes_bind [OF NEXT_onward] onward_NEXT lexes_mono [OF 1(1) [OF a]] intro: onward_trans)
  next
    case a: 2
    then show ?thesis
      by (subst SQLexer_LexBlockComment.simps) (auto intro!: lexes_bind [OF line_NEXT] lexes_mono [OF 1(2)] intro: onward_trans)
  next
    case a: 3
    then show ?thesis
      by (subst SQLexer_LexBlockComment.simps) (auto intro!: lexes_bind [OF NEXT_onward] lexes_mono [OF 1(3)] intro: onward_trans)
  qed
qed

lemma LexLineComment_onward: "cur lx \<noteq> LF \<Longrightarrow> lexes b (SQLexer_LexLineComment lx) (onward lx)"
proof (induction lx rule: SQLexer_LexLineComment.induct)
  case (1 lx)
  then show ?case
    by (subst SQLexer_LexLineComment.simps) (auto intro!: lexes_bind [OF NEXT_onward] lexes_mono [OF 1(1)] intro: onward_trans)
qed

lemma read_hex_onward: "lexes b (read_hex m dest lx) (\<lambda>(s, lx'). onward lx lx')"
proof (induction m dest lx rule: read_hex.induct)
  case (1 m dest lx)
  have "\<not> is_xdigit LF" by code_simp
  then show ?case
    by (subst read_hex.simps) (auto intro!: lexes_bind [OF NEXT_onward] lexes_mono [OF 1] intro: onward_trans)
qed

lemma ProcessStringHexEscape_onward: "cur lx \<noteq> LF \<Longrightarrow> lexes b (ProcessStringHexEscape m lx) (\<lambda>(s, lx'). onward lx lx')"
  unfolding ProcessStringHexEscape_def
  by (auto intro!: lexes_bind [OF NEXT_onward] lexes_mono [OF read_hex_onward] intro: onward_trans)

lemma AddUTF8_onward [simp]: "onward lx (AddUTF8 ch lx') = onward lx lx'" "onward lx (APPEND_CHAR c lx') = onward lx lx'" "onward (APPEND_CHAR c lx) = onward lx"
  by (simp_all add: onward_def AddUTF8_def Let_def fun_eq_iff)

lemma lex_escape_onward: "lexes b (lex_escape d lx) (onward lx)"
proof -
  have app: "lexes b (NEXT (APPEND_CHAR c lx)) (onward lx)" if "cur lx \<noteq> LF" for c using NEXT_onward [of "APPEND_CHAR c lx" b] that by simp
  show ?thesis
    unfolding lex_escape_def Let_def
    by (auto intro!: app line_NEXT lexes_bind [OF ProcessStringHexEscape_onward])
qed

lemma read_string_onward: "d \<noteq> LF \<Longrightarrow> lexes b (read_string d v lx) (onward lx)"
proof (induction d v lx rule: read_string.induct)
  case (1 d v lx)
  have app: "lexes b (NEXT (APPEND_CHAR c lx)) (onward lx)" if "cur lx \<noteq> LF" for c lx using NEXT_onward [of "APPEND_CHAR c lx" b] that by simp
  have line: "lexes b (NEXT (APPEND_CHAR LF lx)) (\<lambda>lx'. onward lx (lx'\<lparr>lx_currentline := lx_currentline lx' + 1\<rparr>))" if "cur lx = LF"
    by (rule lexes_mono [OF NEXT_one_on]) (use that in \<open>auto simp: one_on_def onward_def\<close>)
  consider "cur lx = d" | "cur lx \<noteq> d" "cur lx = LF" | "cur lx \<noteq> d" "cur lx = BSL" | "cur lx \<noteq> d" "cur lx \<noteq> LF" "cur lx \<noteq> BSL" by blast
  then show ?case
  proof cases
    case a: 1
    have again: "lexes b (read_string d v y) (onward lx)"
      if "NEXT lx = Inr x" "onward lx x" "v \<and> cur x = QUOTE" "NEXT (APPEND_CHAR QUOTE x) = Inr y" "onward x y" for x y
      by (rule lexes_mono [OF 1(5)]) (use that a 1(6) in \<open>auto intro: onward_trans\<close>)
    have "lexes b (if v \<and> cur x = QUOTE then bind_lex (NEXT (APPEND_CHAR QUOTE x)) (read_string d v) else Inr x) (onward lx)"
      if x: "NEXT lx = Inr x" "onward lx x" for x
    proof (cases "v \<and> cur x = QUOTE")
      case True
      then have "cur x \<noteq> LF" by simp
      have "lexes b (bind_lex (NEXT (APPEND_CHAR QUOTE x)) (read_string d v)) (onward lx)"
        by (rule lexes_bind [OF app [OF \<open>cur x \<noteq> LF\<close>]], rule again [OF x True])
      then show ?thesis using True by simp
    next
      case False
      then show ?thesis using x(2) by (simp add: if_not_P)
    qed
    then show ?thesis using a 1(6) by (subst read_string.simps) (auto intro!: lexes_bind [OF NEXT_onward])
  next
    case a: 2
    show ?thesis
    proof (cases v)
      case True
      note ih = 1(1) [unfolded eqTrueI [OF True]]
      show ?thesis using a 1(6) True
        by (subst read_string.simps) (auto intro!: lexes_bind [OF line] lexes_mono [OF ih] intro: onward_trans)
    qed (use a in \<open>subst read_string.simps, simp\<close>)
  next
    case a: 3
    show ?thesis
    proof (cases v)
      case True
      note ih = 1(2) [unfolded eqTrueI [OF True]]
      show ?thesis using a 1(6) True
        by (subst read_string.simps) (auto intro!: lexes_bind [OF app] lexes_mono [OF ih] intro: onward_trans)
    next
      case False
      note ih = 1(3) [unfolded Eq_FalseI [OF False]]
      show ?thesis using a 1(6) False
        by (subst read_string.simps) (auto intro!: lexes_bind [OF NEXT_onward] lexes_bind [OF lex_escape_onward] lexes_mono [OF ih] intro: onward_trans)
    qed
  next
    case a: 4
    then show ?thesis using 1(6)
      by (subst read_string.simps) (auto intro!: lexes_bind [OF app] lexes_mono [OF 1(4)] intro: onward_trans)
  qed
qed


lemma ReadString_onward: "d \<noteq> LF \<Longrightarrow> cur lx \<noteq> LF \<Longrightarrow> lexes b (SQLexer_ReadString d v lx) (\<lambda>(t, lx'). onward lx lx' \<and> (cur lx \<noteq> NUL \<longrightarrow> left lx' < left lx) \<and> t \<noteq> 0)"
proof -
  assume d: "d \<noteq> LF" "cur lx \<noteq> LF"
  let ?lx = "lx\<lparr>lx_longstr := []\<rparr>"
  have nx: "lexes b (NEXT ?lx) (\<lambda>lx'. onward lx lx' \<and> (cur lx \<noteq> NUL \<longrightarrow> left lx' < left lx))"
    by (rule lexes_mono [OF NEXT_one_on]) (use d in \<open>auto simp: one_on_def onward_def\<close>)
  have body: "lexes b (read_string d v x) (\<lambda>lx'. onward lx lx' \<and> (cur lx \<noteq> NUL \<longrightarrow> left lx' < left lx))"
    if "onward lx x \<and> (cur lx \<noteq> NUL \<longrightarrow> left x < left lx)" for x
    by (rule lexes_mono [OF read_string_onward [OF d(1)]]) (use that in \<open>auto simp: onward_def\<close>)
  let ?last = "\<lambda>lx. let lx = APPEND_CHAR NUL lx; len = length (lx_longstr lx) - 1 in
    if d = APOS then
      if len = 0 then SQLexer_Error ''empty constant'' lx
      else if 1 < len then SQLexer_Error ''constant too long'' lx
      else Inr (TK_INTEGER, lx\<lparr>lx_nvalue := scast (byte_of_char (lx_longstr lx ! 0))\<rparr>)
    else Inr (TK_STRING_LITERAL, lx\<lparr>lx_svalue := take len (lx_longstr lx)\<rparr>)"
  have fin: "lexes b (?last x) (\<lambda>(t, lx'). onward lx lx' \<and> (cur lx \<noteq> NUL \<longrightarrow> left lx' < left lx) \<and> t \<noteq> 0)"
    if "onward lx x \<and> (cur lx \<noteq> NUL \<longrightarrow> left x < left lx)" for x
    using that by (simp add: Let_def onward_def)
  have "lexes b (if cur x = NUL then Inr (- 1, x) else bind_lex (read_string d v x) ?last) (\<lambda>(t, lx'). onward lx lx' \<and> (cur lx \<noteq> NUL \<longrightarrow> left lx' < left lx) \<and> t \<noteq> 0)"
    if x: "onward lx x \<and> (cur lx \<noteq> NUL \<longrightarrow> left x < left lx)" for x
    using x lexes_bind [OF body [OF x] fin] by simp
  then show ?thesis
    unfolding SQLexer_ReadString_def by (rule lexes_bind [OF nx])
qed

section \<open>Numbers and words\<close>

lemma append_NEXT: "cur lx \<noteq> LF \<Longrightarrow> lexes b (NEXT (APPEND_CHAR c lx)) (\<lambda>lx'. onward lx lx' \<and> lx_longstr lx' = lx_longstr lx @ [c])"
  by (rule lexes_mono [OF NEXT_one_on]) (auto simp: one_on_def onward_def)

lemma read_while_onward: "\<not> P LF \<Longrightarrow> list_all P (lx_longstr lx) \<Longrightarrow> lexes b (read_while P lx) (\<lambda>lx'. onward lx lx' \<and> list_all P (lx_longstr lx'))"
proof (induction P lx rule: read_while.induct)
  case (1 P lx)
  then show ?case
    by (subst read_while.simps) (auto intro!: lexes_bind [OF append_NEXT] lexes_mono [OF 1(1)] intro: onward_trans)
qed

lemma lex_exponent_onward: "lexes b (lex_exponent t lx) (\<lambda>(t', lx'). onward lx lx' \<and> (is_digit (cur lx) \<or> isexponent (cur lx) \<or> cur lx = CHR ''.'' \<longrightarrow> cur lx' \<noteq> LF))"
proof -
  have lf: "\<not> isexponent LF" "\<not> is_digit LF" by code_simp+
  have app: "lexes b (NEXT (APPEND_CHAR c lx)) (onward lx)" if "cur lx \<noteq> LF" for c lx using NEXT_onward [of "APPEND_CHAR c lx" b] that by simp
  have sign: "lexes b (if cur x = CHR ''+'' \<or> cur x = CHR ''-'' then NEXT (APPEND_CHAR (cur x) x) else Inr x) (onward x)" for x
    using app [of x "cur x"] by auto
  have exp: "cur lx \<noteq> LF" if "isexponent (cur lx) \<or> is_digit (cur lx)" using that lf by auto
  show ?thesis
    unfolding lex_exponent_def Let_def using lf
    by (auto intro!: lexes_bind [OF app] lexes_bind [OF sign] exp dest: exp intro: onward_trans)
qed

lemma read_decimal_onward: "lexes b (read_decimal t lx) (\<lambda>(t', lx'). onward lx lx' \<and> t' \<in> {t, TFLOAT, TSCIENTIFIC})"
proof (induction t lx rule: read_decimal.induct)
  case (1 t lx)
  have app: "lexes b (NEXT (APPEND_CHAR c lx)) (onward lx)" if "cur lx \<noteq> LF" for c lx using NEXT_onward [of "APPEND_CHAR c lx" b] that by simp
  have type: "t' \<in> {t, TFLOAT, TSCIENTIFIC}" if "lex_exponent t lx = Inr (t', lx')" for t' lx'
    using that by (auto simp: lex_exponent_def Let_def SQLexer_Error_def bind_lex_Inr split: if_splits)
  show ?case
  proof (cases "cur lx = CHR ''.'' \<or> is_digit (cur lx) \<or> isexponent (cur lx)")
    case True
    have "lexes b (bind_lex (NEXT (APPEND_CHAR (cur lx') lx')) (read_decimal t')) (\<lambda>(t', lx'). onward lx lx' \<and> t' \<in> {t, TFLOAT, TSCIENTIFIC})"
      if "lex_exponent t lx = Inr (t', lx')" "onward lx lx'" "cur lx' \<noteq> LF" for t' lx'
      by (rule lexes_bind [OF app [OF that(3)]], rule lexes_mono [OF 1 [OF True that(1) refl]]) (use that(2) type [OF that(1)] in \<open>auto intro: onward_trans\<close>)
    then show ?thesis using True by (subst read_decimal.simps) (auto intro!: lexes_bind [OF lex_exponent_onward])
  next
    case False
    then show ?thesis by (subst read_decimal.simps) auto
  qed
qed

lemma LexHexadecimal_digits: "list_all is_xdigit s \<Longrightarrow> \<exists>n. LexHexadecimal s res = Inr n"
  by (induction s res rule: LexHexadecimal.induct) auto

lemma LexOctal_digits: "list_all scisodigit s \<Longrightarrow> \<exists>n. LexOctal s res = Inr n"
  by (induction s res rule: LexOctal.induct) auto

definition number_read :: "sq_lexer \<Rightarrow> num_type \<times> sq_lexer \<Rightarrow> bool" where
  "number_read lx = (\<lambda>(t, lx'). onward lx lx' \<and> (t = THEX \<longrightarrow> list_all is_xdigit (lx_longstr lx')) \<and> (t = TOCTAL \<longrightarrow> list_all scisodigit (lx_longstr lx')))"

lemma ReadNumber_onward:
  assumes "cur lx \<noteq> LF"
  shows "lexes b (SQLexer_ReadNumber lx) (\<lambda>(t, lx'). onward lx lx' \<and> (cur lx \<noteq> NUL \<longrightarrow> left lx' < left lx) \<and> t \<noteq> 0)"
proof -
  let ?lx = "lx\<lparr>lx_longstr := []\<rparr>"
  let ?on = "\<lambda>lx'. onward lx lx' \<and> (cur lx \<noteq> NUL \<longrightarrow> left lx' < left lx)"
  have lf: "\<not> scisodigit LF" "\<not> is_xdigit LF" "to_upper LF \<noteq> CHR ''X''" by code_simp+
  have first: "lexes b (NEXT ?lx) (\<lambda>lx'. ?on lx' \<and> lx_longstr lx' = [])"
    by (rule lexes_mono [OF NEXT_one_on]) (use assms in \<open>auto simp: one_on_def onward_def\<close>)
  have oct: "lexes b (bind_lex (read_while scisodigit x) (\<lambda>lx. if is_digit (cur lx) then SQLexer_Error e lx else Inr (TOCTAL, lx))) (number_read x)"
    if "lx_longstr x = []" for x e
    by (rule lexes_bind [OF read_while_onward]) (use lf that in \<open>auto simp: number_read_def\<close>)
  have hex: "lexes b (bind_lex (NEXT x) (\<lambda>lx. bind_lex (read_while is_xdigit lx) (\<lambda>lx.
      if 16 < length (lx_longstr lx) then SQLexer_Error e lx else Inr (THEX, lx)))) (number_read x)"
    if x: "lx_longstr x = []" "cur x \<noteq> LF" for x e
  proof -
    have "lexes b (NEXT x) (\<lambda>y. onward x y \<and> lx_longstr y = [])"
      by (rule lexes_mono [OF NEXT_one_on]) (use x in \<open>auto simp: one_on_def onward_def\<close>)
    moreover have "lexes b (bind_lex (read_while is_xdigit y) (\<lambda>lx. if 16 < length (lx_longstr lx) then SQLexer_Error e lx else Inr (THEX, lx))) (number_read x)"
      if "onward x y \<and> lx_longstr y = []" for y
      by (rule lexes_bind [OF read_while_onward]) (use lf that in \<open>auto simp: number_read_def intro: onward_trans\<close>)
    ultimately show ?thesis by (rule lexes_bind) auto
  qed
  have dec: "lexes b (read_decimal TINT (APPEND_CHAR c x)) (number_read x)" for x c
    by (rule lexes_mono [OF read_decimal_onward]) (auto simp: number_read_def)
  have number: "lexes b
      (if c = CHR ''0'' \<and> (to_upper (cur x) = CHR ''X'' \<or> scisodigit (cur x)) then
         if scisodigit (cur x) then bind_lex (read_while scisodigit x) (\<lambda>lx. if is_digit (cur lx) then SQLexer_Error e lx else Inr (TOCTAL, lx))
         else bind_lex (NEXT x) (\<lambda>lx. bind_lex (read_while is_xdigit lx) (\<lambda>lx. if 16 < length (lx_longstr lx) then SQLexer_Error e' lx else Inr (THEX, lx)))
       else read_decimal TINT (APPEND_CHAR c x)) (number_read x)" if "lx_longstr x = []" for x c e e'
  proof -
    have "cur x \<noteq> LF" if "to_upper (cur x) = CHR ''X''" using that lf(3) by metis
    then show ?thesis using oct [OF that] hex [OF that] dec lf by auto
  qed
  have val: "lexes b (case t of
        TSCIENTIFIC \<Rightarrow> Inr (TK_FLOAT, y\<lparr>lx_fvalue := atof s\<rparr>) | TFLOAT \<Rightarrow> Inr (TK_FLOAT, y\<lparr>lx_fvalue := atof s\<rparr>)
      | TINT \<Rightarrow> Inr (TK_INTEGER, y\<lparr>lx_nvalue := LexInteger s\<rparr>)
      | THEX \<Rightarrow> bind_lex (lift_lex (LexHexadecimal s 0)) (\<lambda>n. Inr (TK_INTEGER, y\<lparr>lx_nvalue := n\<rparr>))
      | TOCTAL \<Rightarrow> bind_lex (lift_lex (LexOctal s 0)) (\<lambda>n. Inr (TK_INTEGER, y\<lparr>lx_nvalue := n\<rparr>))) (\<lambda>(t, lx'). ?on lx' \<and> t \<noteq> 0)"
    if "?on y" "t = THEX \<longrightarrow> list_all is_xdigit s" "t = TOCTAL \<longrightarrow> list_all scisodigit s" for t y s
    using that LexHexadecimal_digits [of s 0] LexOctal_digits [of s 0] by (cases t) (auto simp: onward_def)
  show ?thesis
    unfolding SQLexer_ReadNumber_def Let_def
  proof (rule lexes_bind [OF first], rule lexes_bind [OF number], goal_cases)
    case (2 x p)
    obtain t y where p: "p = (t, y)" by (cases p)
    have "?on (APPEND_CHAR NUL y)" "t = THEX \<longrightarrow> list_all is_xdigit (lx_longstr y)" "t = TOCTAL \<longrightarrow> list_all scisodigit (lx_longstr y)"
      using 2 p by (auto simp: number_read_def onward_def)
    from val [OF this] show ?case by (simp only: p prod.case conj_assoc)
  qed simp
qed

lemma read_id_onward:
  "cur lx \<noteq> LF \<Longrightarrow> cur lx \<noteq> NUL \<Longrightarrow> NUL \<notin> set (lx_longstr lx) \<Longrightarrow>
    lexes b (read_id lx) (\<lambda>lx'. onward lx lx' \<and> left lx' < left lx \<and> NUL \<notin> set (lx_longstr lx'))"
proof (induction lx rule: read_id.induct)
  case (1 lx)
  have cls: "\<not> is_alnum LF" "\<not> is_alnum NUL" by code_simp+
  have "lexes b (NEXT (APPEND_CHAR (cur lx) lx)) (\<lambda>x. onward lx x \<and> left x < left lx \<and> lx_longstr x = lx_longstr lx @ [cur lx])"
    by (rule lexes_mono [OF NEXT_one_on]) (use 1(2,3) in \<open>auto simp: one_on_def onward_def\<close>)
  moreover have "lexes b (read_id x) (\<lambda>lx'. onward lx lx' \<and> left lx' < left lx \<and> NUL \<notin> set (lx_longstr lx'))"
    if "NEXT (APPEND_CHAR (cur lx) lx) = Inr x" "onward lx x" "lx_longstr x = lx_longstr lx @ [cur lx]" "is_alnum (cur x) \<or> cur x = CHR ''_''" for x
    by (rule lexes_mono [OF 1(1) [OF that(1,4)]]) (use that cls 1(3,4) in \<open>auto simp: onward_def NUL_def\<close>)
  ultimately show ?case
    using 1(3,4) by (subst read_id.simps) (auto elim!: lexes_bind)
qed

lemma ReadID_onward:
  assumes "cur lx \<noteq> LF" and "cur lx \<noteq> NUL" and "b \<longrightarrow> has_words keyword_list ss (lx_keywords lx)"
  shows "lexes b (SQLexer_ReadID ss lx) (\<lambda>(t, lx'). onward lx lx' \<and> left lx' < left lx)"
proof -
  have id: "lexes b (read_id (lx\<lparr>lx_longstr := []\<rparr>)) (\<lambda>x. onward lx x \<and> left x < left lx \<and> NUL \<notin> set (lx_longstr x))"
    by (rule lexes_mono [OF read_id_onward]) (use assms in \<open>auto simp: onward_def\<close>)
  have fault: "\<not> b" if "onward lx x" "NUL \<notin> set (lx_longstr x)" "GetIDType ss (lx_longstr x @ [NUL]) (length (lx_longstr x)) (APPEND_CHAR NUL x) = Inl e" for x e
  proof
    assume b
    then have "has_words keyword_list ss (lx_keywords (APPEND_CHAR NUL x))" using assms(3) that(1) by (simp add: onward_def)
    moreover have "is_c_string (lx_longstr x)" using that(2) by (simp add: is_c_string_def list_all_iff) metis
    ultimately show False using GetIDType_words that(3) by simp
  qed
  have typed: "lexes b (lift_lex (GetIDType ss (lx_longstr x @ [NUL]) (length (lx_longstr x)) (APPEND_CHAR NUL x))) (\<lambda>_. True)"
    if "onward lx x" "NUL \<notin> set (lx_longstr x)" for x
    using fault [OF that] by (cases "GetIDType ss (lx_longstr x @ [NUL]) (length (lx_longstr x)) (APPEND_CHAR NUL x)") auto
  show ?thesis
    unfolding SQLexer_ReadID_def
    by (rule lexes_bind [OF id]) (auto simp: Let_def onward_def intro!: lexes_bind [OF typed])
qed

section \<open>Tokens\<close>

definition took :: "sq_lexer \<Rightarrow> int \<times> sq_lexer \<Rightarrow> bool" where
  "took lx = (\<lambda>(t, lx'). onward lx lx' \<and> left lx' < left lx)"

lemma RETURN_TOKEN_took: "onward lx x \<Longrightarrow> left x < left lx \<Longrightarrow> lexes b (RETURN_TOKEN t x) (took lx)"
  by (simp add: RETURN_TOKEN_def took_def onward_def)

lemma then_token_took: "onward lx x \<Longrightarrow> cur x \<noteq> LF \<Longrightarrow> left x < left lx \<or> x = lx \<and> cur lx \<noteq> NUL \<Longrightarrow> lexes b (then_token t x) (took lx)"
  unfolding then_token_def
  by (rule lexes_bind [OF NEXT_one_on], rule RETURN_TOKEN_took) (auto simp: one_on_def onward_def)

lemma first_NEXT: "cur lx \<noteq> LF \<Longrightarrow> cur lx \<noteq> NUL \<Longrightarrow> lexes b (NEXT lx) (\<lambda>x. onward lx x \<and> left x < left lx)"
  by (rule lexes_mono [OF NEXT_one_on]) (auto simp: one_on_def onward_def)

lemma further_NEXT: "cur x \<noteq> LF \<Longrightarrow> onward lx x \<Longrightarrow> left x < left lx \<Longrightarrow> lexes b (NEXT x) (\<lambda>y. onward lx y \<and> left y < left lx)"
  by (rule lexes_mono [OF NEXT_one_on]) (auto simp: one_on_def onward_def)

lemma lex_string_took:
  assumes "d \<noteq> LF" and "cur x \<noteq> LF" and "onward lx x" and "left x < left lx \<or> x = lx \<and> cur lx \<noteq> NUL"
  shows "lexes b (lex_string d v x) (took lx)"
proof -
  have fin: "lexes b (if t \<noteq> - 1 then RETURN_TOKEN t y else SQLexer_Error e y) (took lx)" if "onward lx y" "left y < left lx" for t y e
    using that by (simp add: RETURN_TOKEN_took)
  show ?thesis
    unfolding lex_string_def
  proof (rule lexes_bind [OF ReadString_onward [OF assms(1,2)]], goal_cases)
    case (1 p)
    obtain t y where p: "p = (t, y)" by (cases p)
    have "onward lx y" "left y < left lx" using 1(2) assms(3,4) p by (auto simp: onward_def)
    from fin [OF this] show ?case by (simp only: p prod.case)
  qed
qed

lemma lex_less_took: "onward lx x \<Longrightarrow> left x < left lx \<Longrightarrow> lexes b (lex_less x) (took lx)"
  unfolding lex_less_def
  by (auto intro!: then_token_took RETURN_TOKEN_took lexes_bind [OF further_NEXT])

lemma lex_greater_took: "onward lx x \<Longrightarrow> left x < left lx \<Longrightarrow> lexes b (lex_greater x) (took lx)"
  unfolding lex_greater_def
  by (auto intro!: then_token_took RETURN_TOKEN_took lexes_bind [OF further_NEXT])

lemma lex_dots_took: "onward lx x \<Longrightarrow> left x < left lx \<Longrightarrow> lexes b (lex_dots x) (took lx)"
  unfolding lex_dots_def
  by (auto intro!: then_token_took RETURN_TOKEN_took lexes_bind [OF further_NEXT])

lemma lex_slash_took: "onward lx x \<Longrightarrow> left x < left lx \<Longrightarrow> lexes b (lex_slash x) (took lx)"
  unfolding lex_slash_def
  by (auto intro!: then_token_took RETURN_TOKEN_took)

lemma lex_maybe_took:
  assumes "onward lx x" and "left x < left lx" and "LF \<notin> fst ` set seconds"
  shows "lexes b (lex_maybe c seconds x) (took lx)"
proof (cases "map_of seconds (cur x)")
  case (Some t)
  then have "cur x \<noteq> LF" using assms(3) map_of_SomeD by force
  then show ?thesis using Some assms(1,2) by (simp add: lex_maybe_def then_token_took)
qed (use assms in \<open>simp add: lex_maybe_def RETURN_TOKEN_took\<close>)

lemma two_char_lines: "map_of two_char_tokens c = Some seconds \<Longrightarrow> LF \<notin> fst ` set seconds"
  using map_of_SomeD [of two_char_tokens c seconds] by (auto simp: two_char_tokens_def)

lemma lex_token_took:
  assumes "cur lx \<noteq> LF" and "cur lx \<noteq> NUL" and "b \<longrightarrow> has_words keyword_list ss (lx_keywords lx)"
  shows "lexes b (lex_token ss lx) (took lx)"
proof -
  note first = first_NEXT [OF assms(1,2), of b]
  have at: "lexes b (if cur x \<noteq> QUOTE then RETURN_TOKEN t x else lex_string QUOTE True x) (took lx)" if "onward lx x" "left x < left lx" for x t
    using that by (auto intro!: RETURN_TOKEN_took lex_string_took)
  have number: "lexes b (bind_lex (SQLexer_ReadNumber lx) (\<lambda>(t, lx). RETURN_TOKEN t lx)) (took lx)"
    by (rule lexes_bind [OF ReadNumber_onward [OF assms(1)]]) (use assms(2) in \<open>auto intro!: RETURN_TOKEN_took\<close>)
  have word: "lexes b (bind_lex (SQLexer_ReadID ss lx) (\<lambda>(t, lx). RETURN_TOKEN t lx)) (took lx)"
    by (rule lexes_bind [OF ReadID_onward [OF assms]]) (auto intro!: RETURN_TOKEN_took)
  have one: "lexes b (then_token t lx) (took lx)" for t using assms by (intro then_token_took) simp_all
  show ?thesis
    unfolding lex_token_def Let_def
    using number word one
    by (auto intro!: lexes_bind [OF first] at lex_less_took lex_greater_took lex_dots_took lex_maybe_took lex_string_took
      simp: assms(1,2) dest: two_char_lines split: option.split)
qed

definition took_or_end :: "sq_lexer \<Rightarrow> int \<times> sq_lexer \<Rightarrow> bool" where
  "took_or_end lx = (\<lambda>(t, lx'). onward lx lx' \<and> (t \<noteq> 0 \<longrightarrow> left lx' < left lx) \<and> (t = 0 \<and> cur lx' = NUL \<or> left lx' < left lx))"

lemma took_end: "took x p \<Longrightarrow> onward lx x \<Longrightarrow> took_or_end lx p"
  by (auto simp: took_def took_or_end_def onward_def)

lemma took_or_end_after: "took_or_end x p \<Longrightarrow> onward lx x \<Longrightarrow> took_or_end lx p"
  by (auto simp: took_or_end_def onward_def)

lemma lex_loop_took: "b \<longrightarrow> has_words keyword_list ss (lx_keywords lx) \<Longrightarrow> lexes b (lex_loop ss lx) (took_or_end lx)"
proof (induction ss lx rule: lex_loop.induct)
  case (1 ss lx)
  have words: "b \<longrightarrow> has_words keyword_list ss (lx_keywords x)" if "onward lx x" for x using 1(6) that by (simp add: onward_def)
  have nolf: "TAB \<noteq> LF" "CR \<noteq> LF" "CHR '' '' \<noteq> LF" "CHR ''#'' \<noteq> LF" "CHR ''/'' \<noteq> LF" "CHR ''/'' \<noteq> NUL" by (simp_all add: NUL_def)
  have newline: "lexes b (NEXT (lx\<lparr>lx_currentline := lx_currentline lx + 1, lx_prevtoken := lx_curtoken lx, lx_curtoken := 10\<rparr>))
      (\<lambda>x. onward lx (x\<lparr>lx_currentcolumn := 1\<rparr>))" if "cur lx = LF"
    by (rule lexes_mono [OF NEXT_one_on]) (use that in \<open>auto simp: one_on_def onward_def\<close>)
  show ?case
  proof (cases "cur lx = NUL")
    case True
    then show ?thesis by (subst lex_loop.simps) (simp add: took_or_end_def)
  next
    case nul: False
    consider "cur lx = TAB \<or> cur lx = CR \<or> cur lx = CHR '' ''" | "cur lx = LF" | "cur lx = CHR ''#''" | "cur lx = CHR ''/''"
      | "\<not> (cur lx = TAB \<or> cur lx = CR \<or> cur lx = CHR '' '')" "cur lx \<noteq> LF" "cur lx \<noteq> CHR ''#''" "cur lx \<noteq> CHR ''/''" by blast
    then show ?thesis
    proof cases
      case a: 1
      show ?thesis using nul a
        by (subst lex_loop.simps) (auto intro!: lexes_bind [OF NEXT_onward] lexes_mono [OF 1(1)] words intro: took_or_end_after)
    next
      case a: 2
      show ?thesis using nul a
        by (subst lex_loop.simps) (auto intro!: lexes_bind [OF newline] lexes_mono [OF 1(2)] words intro: took_or_end_after)
    next
      case a: 3
      show ?thesis using nul a
        by (subst lex_loop.simps) (auto intro!: lexes_bind [OF LexLineComment_onward] lexes_mono [OF 1(3)] words intro: took_or_end_after)
    next
      case a: 4
      have first: "lexes b (NEXT lx) (\<lambda>x. onward lx x \<and> left x < left lx)" using first_NEXT a nul by simp
      have block: "lexes b (bind_lex (NEXT x) (\<lambda>y. bind_lex (SQLexer_LexBlockComment y) (lex_loop ss))) (took_or_end lx)"
        if x: "NEXT lx = Inr x" "onward lx x" "cur x = CHR ''*''" for x
      proof (rule lexes_bind [OF NEXT_onward], goal_cases)
        case (2 y)
        have y: "onward lx y" using onward_trans [OF x(2) 2(2)] .
        show ?case
          by (rule lexes_bind [OF LexBlockComment_onward], rule lexes_mono [OF 1(4) [OF refl nul _ _ _ a x(1,3) 2(1)]])
            (use a y in \<open>auto intro!: words intro: took_or_end_after onward_trans\<close>)
      qed (use x in simp)
      have line: "lexes b (bind_lex (SQLexer_LexLineComment x) (lex_loop ss)) (took_or_end lx)"
        if x: "NEXT lx = Inr x" "onward lx x" "cur x \<noteq> CHR ''*''" "cur x = CHR ''/''" for x
        by (rule lexes_bind [OF LexLineComment_onward], use x in simp, rule lexes_mono [OF 1(5) [OF refl nul _ _ _ a x(1,3,4)]])
          (use a x(2) in \<open>auto intro!: words intro: took_or_end_after onward_trans\<close>)
      have slash: "lexes b (lex_slash x) (took_or_end lx)" if "onward lx x" "left x < left lx" for x
        by (rule lexes_mono [OF lex_slash_took [OF that]]) (auto intro: took_end)
      show ?thesis using nul a
        by (subst lex_loop.simps) (auto intro!: lexes_bind [OF first] block line slash)
    next
      case a: 5
      have "lexes b (lex_token ss lx) (took_or_end lx)" by (rule lexes_mono [OF lex_token_took [OF a(2) nul 1(6)]]) (auto intro: took_end)
      then show ?thesis using nul a by (subst lex_loop.simps) (simp add: Let_def)
    qed
  qed
qed

lemma SQLexer_Lex_took: "b \<longrightarrow> has_words keyword_list ss (lx_keywords lx) \<Longrightarrow> lexes b (SQLexer_Lex ss lx) (took_or_end lx)"
  unfolding SQLexer_Lex_def
  by (rule lexes_mono [OF lex_loop_took]) (auto simp: took_or_end_def onward_def)

section \<open>All tokens of an input\<close>

text \<open>A token with the value that goes with it.\<close>

datatype lexeme = Word int string | Text string | Num u64 | Real f32 | Plain int

definition lexeme_of :: "int \<Rightarrow> sq_lexer \<Rightarrow> lexeme" where
  "lexeme_of t lx =
     (if t = TK_IDENTIFIER \<or> t = TK_CONSTRUCTOR then Word t (lx_svalue lx)
      else if t = TK_STRING_LITERAL then Text (lx_svalue lx)
      else if t = TK_INTEGER then Num (lx_nvalue lx)
      else if t = TK_FLOAT then Real (lx_fvalue lx)
      else Plain t)"

text \<open>What the compiler gets that asks for tokens until there are no more: each with the lexer as it is then.\<close>

function lex_all :: "sq_shared \<Rightarrow> sq_lexer \<Rightarrow> (sq_lexer \<times> int) list lex" where
  "lex_all ss lx =
     bind_lex (SQLexer_Lex ss lx) (\<lambda>(t, lx'). if t = 0 then Inr [] else bind_lex (lex_all ss lx') (\<lambda>ts. Inr ((lx', t) # ts)))"
  by pat_completeness auto
termination
proof (relation "measure (\<lambda>(ss, lx). left lx)", goal_cases)
  case (2 ss lx p t lx')
  then show ?case using lexes_Inr_D [OF SQLexer_Lex_took [of False ss lx] 2(1)] by (auto simp: took_or_end_def)
qed simp

declare lex_all.simps [simp del]

abbreviation lexemes :: "(sq_lexer \<times> int) list \<Rightarrow> lexeme list" where
  "lexemes ts \<equiv> map (\<lambda>(lx, t). lexeme_of t lx) ts"

lemma lex_all_tokens:
  "b \<longrightarrow> has_words keyword_list ss (lx_keywords lx) \<Longrightarrow>
    lexes b (lex_all ss lx) (\<lambda>ts. length ts \<le> left lx \<and> (\<forall>(lx', t) \<in> set ts. line_total lx' = line_total lx))"
proof (induction ss lx rule: lex_all.induct)
  case (1 ss lx)
  show ?case
  proof (subst lex_all.simps, rule lexes_bind [OF SQLexer_Lex_took [OF 1(2)]], goal_cases)
    case (1 p)
    obtain t lx' where p: "p = (t, lx')" by (cases p)
    have x: "onward lx lx'" "t \<noteq> 0 \<Longrightarrow> left lx' < left lx" using 1(2) p by (auto simp: took_or_end_def)
    show ?case
    proof (cases "t = 0")
      case False
      have "b \<longrightarrow> has_words keyword_list ss (lx_keywords lx')" using "1.prems" x(1) by (simp add: onward_def)
      note ih = "1.IH" [OF 1(1) p [symmetric] False this]
      show ?thesis unfolding p using False x
        by (auto intro!: lexes_bind [OF ih] simp: onward_def)
    qed (simp add: p)
  qed
qed

text \<open>How many characters a token can still be made of.\<close>

definition chars_left :: "sq_lexer \<Rightarrow> nat" where
  "chars_left lx = (left lx + 1) div 2"

lemma Lex_chars_left:
  assumes "SQLexer_Lex ss lx = Inr (t, lx')" and "t \<noteq> 0"
  shows "chars_left lx' < chars_left lx"
proof -
  have "left lx' < left lx" using lexes_Inr_D [OF SQLexer_Lex_took [of False ss lx] assms(1)] assms(2) by (auto simp: took_or_end_def)
  moreover have "cur lx \<noteq> NUL"
  proof
    assume "cur lx = NUL"
    then have "SQLexer_Lex ss lx = Inr (0, lx\<lparr>lx_lasttokenline := lx_currentline lx\<rparr>)" by (simp add: SQLexer_Lex_def lex_loop.simps)
    then show False using assms by simp
  qed
  then have "odd (left lx)" by (simp add: left_def)
  ultimately show ?thesis unfolding chars_left_def by presburger
qed

lemma lex_all_chars:
  "lex_all ss lx = Inr ts \<Longrightarrow> length ts \<le> chars_left lx"
proof (induction ss lx arbitrary: ts rule: lex_all.induct)
  case (1 ss lx)
  obtain t lx' where lex: "SQLexer_Lex ss lx = Inr (t, lx')" using 1(2) by (subst (asm) lex_all.simps) (auto simp: bind_lex_Inr)
  show ?case
  proof (cases "t = 0")
    case False
    then obtain us where us: "lex_all ss lx' = Inr us" "ts = (lx', t) # us"
      using 1(2) lex by (subst (asm) lex_all.simps) (auto simp: bind_lex_Inr)
    have "length us \<le> chars_left lx'" by (rule 1(1) [OF lex refl False us(1)])
    then show ?thesis using us(2) Lex_chars_left [OF lex False] by simp
  qed (use 1(2) lex in \<open>subst (asm) lex_all.simps, simp\<close>)
qed

section \<open>Properties\<close>

text \<open>The newlines in characters, and those still before the lexer.\<close>

definition newlines :: "int list \<Rightarrow> int" where
  "newlines cs = int (length (filter (\<lambda>t. t mod 256 = 10) cs))"

definition newlines_ahead :: "sq_lexer \<Rightarrow> int" where
  "newlines_ahead lx = of_bool (cur lx = LF) + newlines (lx_input lx)"

text \<open>
  C11. Whatever characters a script consists of, and whatever strings the machine has: the lexer starts, or finds that the first is no character;
  and asked for one token after the other it comes to the end of the input, or to an error it reports, without a fault; it gives no more tokens
  than there are characters; and with each token the line it is at, which the compiler takes for its messages, is one more than the newlines
  it has passed.
\<close>

theorem lexing_ends:
  assumes "strings_step\<^sup>*\<^sup>* SQStringTable_new (sh_strings ss)"
  shows "case SQLexer_Init ss rg lx0 of
      Inl e \<Rightarrow> e = LexError ''Invalid character'' 1 0
    | Inr (ss', lx) \<Rightarrow>
        (case lex_all ss' lx of
           Inl (LexFault e) \<Rightarrow> False
         | Inl (LexError msg line col) \<Rightarrow> True
         | Inr ts \<Rightarrow> length ts \<le> length rg \<and> list_all (\<lambda>(lx', t). lx_currentline lx' = 1 + newlines rg - newlines_ahead lx') ts)"
proof -
  note wf = strs.inv_reachable [OF refl assms]
  obtain ss1 t where init: "fold_res add_keyword keyword_list (ss, SQTable_Create 37) = Inr (ss1, t)" using keywords_added [OF wf] by blast
  show ?thesis
  proof (cases "SQLexer_Init ss rg lx0")
    case (Inl e)
    then show ?thesis using init
      by (auto simp: SQLexer_Init_def SQLexer_Next_def SQLexer_Error_def Let_def split: list.splits if_splits)
  next
    case (Inr p)
    obtain ss' lx where p: "p = (ss', lx)" by (cases p)
    have words: "has_words keyword_list ss' (lx_keywords lx)" using Init_words(1) [OF wf] Inr p by simp
    have start: "chars_left lx \<le> length rg" "line_total lx = 1 + newlines rg"
      using Inr p init
      by (auto simp: SQLexer_Init_def SQLexer_Next_def SQLexer_Error_def Let_def chars_left_def left_def line_total_def newlines_def line_char NUL_def
        split: list.splits if_splits)
    have toks: "lexes True (lex_all ss' lx) (\<lambda>ts. length ts \<le> left lx \<and> (\<forall>(lx', t) \<in> set ts. line_total lx' = line_total lx))"
      using lex_all_tokens [of True ss' lx] words by simp
    have "lexes True (lex_all ss' lx) (\<lambda>ts. length ts \<le> length rg \<and> list_all (\<lambda>(lx', t). lx_currentline lx' = 1 + newlines rg - newlines_ahead lx') ts)"
    proof (rule lexes_mono [OF toks], goal_cases)
      case (1 ts)
      have "lx_currentline lx' = 1 + newlines rg - newlines_ahead lx'" if "line_total lx' = line_total lx" for lx'
        using that start(2) by (simp add: line_total_def newlines_ahead_def newlines_def)
      then show ?case using 1(2) lex_all_chars [OF 1(1)] start(1) by (auto simp: list_all_iff)
    qed
    then show ?thesis using Inr p by (simp add: lexes_def split: sum.splits lex_stop.splits)
  qed
qed

text \<open>A string that never ends.\<close>

theorem lexing_ends_witness:
  "\<exists>ss lx. SQLexer_Init new_shared (map tok [QUOTE, CHR ''a'', LF]) new_lexer = Inr (ss, lx) \<and>
    (case lex_all ss lx of Inl (LexFault e) \<Rightarrow> False | Inl (LexError msg line col) \<Rightarrow> True | Inr ts \<Rightarrow> length ts \<le> 3)"
proof -
  have run: "strings_step\<^sup>*\<^sup>* SQStringTable_new (sh_strings new_shared)" by (simp add: new_shared_def)
  obtain ss t where "fold_res add_keyword keyword_list (new_shared, SQTable_Create 37) = Inr (ss, t)"
    using keywords_added [of new_shared] strings_wf_new by (auto simp: new_shared_def)
  then obtain lx where "SQLexer_Init new_shared (map tok [QUOTE, CHR ''a'', LF]) new_lexer = Inr (ss, lx)"
    by (simp add: SQLexer_Init_def SQLexer_Next_def)
  then show ?thesis using lexing_ends [OF run, of "map tok [QUOTE, CHR ''a'', LF]" new_lexer]
    by (auto split: sum.splits lex_stop.splits)
qed

end
