(* ===== verification/Capy_SQPrint.thy ===== *)
theory Capy_SQPrint
  imports Capy_SQScan
begin

text \<open>
  Printing tokens and lexing them again: words, keywords, operators, numbers and strings, with any blanks and comments between them, come back as
  they were.
\<close>

section \<open>Printing\<close>

text \<open>The text of the tokens that are not words, numbers or strings.\<close>

definition operator_texts :: "(int \<times> string) list" where
  "operator_texts =
     [(TK_DIVEQ, ''/=''), (TK_ATTR_CLOSE, ''/>''), (tok CHR ''/'', ''/''), (TK_EQ, ''==''), (tok CHR ''='', ''=''), (TK_3WAYSCMP, ''<=>''), (TK_LE, ''<=''),
      (TK_NEWSLOT, ''<-''), (TK_SHIFTL, ''<<''), (TK_ATTR_OPEN, ''</''), (tok CHR ''<'', ''<''), (TK_GE, ''>=''), (TK_USHIFTR, ''>>>''), (TK_SHIFTR, ''>>''),
      (tok CHR ''>'', ''>''), (TK_NE, ''!=''), (tok CHR ''!'', ''!''), (tok CHR ''@'', ''@''), (tok CHR ''.'', ''.''), (TK_VARPARAMS, ''...''),
      (TK_AND, ''&&''), (tok CHR ''&'', ''&''), (TK_OR, ''||''), (tok CHR ''|'', ''|''), (TK_DOUBLE_COLON, ''::''), (tok CHR '':'', '':''),
      (TK_MULEQ, ''*=''), (tok CHR ''*'', ''*''), (TK_MODEQ, ''%=''), (tok CHR ''%'', ''%''), (TK_MINUSEQ, ''-=''), (TK_MINUSMINUS, ''--''),
      (tok CHR ''-'', ''-''), (TK_PLUSEQ, ''+=''), (TK_PLUSPLUS, ''++''), (tok CHR ''+'', ''+'')] @ map (\<lambda>c. (tok c, [c])) one_char_tokens"

definition keyword_texts :: "(int \<times> string) list" where
  "keyword_texts = map (\<lambda>(s, t). (t, s)) (filter (\<lambda>(s, t). t \<noteq> TK_CONSTRUCTOR) keyword_list)"

definition plain_text :: "int \<Rightarrow> string option" where
  "plain_text t = map_of (operator_texts @ keyword_texts) t"

definition escaped :: "char \<Rightarrow> string" where
  "escaped c =
     (if c = LF then [BSL, CHR ''n''] else if c = NUL then [BSL, CHR ''0''] else if c = QUOTE \<or> c = BSL then [BSL, c] else [c])"

fun decimal :: "nat \<Rightarrow> string" where
  "decimal n = (if n < 10 then [char_of (48 + n)] else decimal (n div 10) @ [char_of (48 + n mod 10)])"

declare decimal.simps [simp del]

definition print_lexeme :: "lexeme \<Rightarrow> string" where
  "print_lexeme x =
     (case x of Word t s \<Rightarrow> s | Text s \<Rightarrow> [QUOTE] @ concat (map escaped s) @ [QUOTE] | Num n \<Rightarrow> decimal (unat n) | Real f \<Rightarrow> '''' | Plain t \<Rightarrow> the (plain_text t))"

definition word_char :: "char \<Rightarrow> bool" where
  "word_char c = (is_alnum c \<or> c = CHR ''_'')"

definition is_word :: "string \<Rightarrow> bool" where
  "is_word s = (case s of [] \<Rightarrow> False | c # cs \<Rightarrow> (is_alpha c \<or> c = CHR ''_'') \<and> list_all word_char cs)"

text \<open>Floats are left out: their text is no more exact than the reading of it.\<close>

definition printable :: "lexeme \<Rightarrow> bool" where
  "printable x =
     (case x of Word t s \<Rightarrow> is_word s \<and> word_token s = t \<and> t \<in> {TK_IDENTIFIER, TK_CONSTRUCTOR} | Text s \<Rightarrow> True | Num n \<Rightarrow> True | Real f \<Rightarrow> False
      | Plain t \<Rightarrow> plain_text t \<noteq> None)"

text \<open>What may be between tokens.\<close>

datatype layout = Blank char | SlashComment string | HashComment string | BlockComment string

definition blank :: "char \<Rightarrow> bool" where
  "blank c = (c = CHR '' '' \<or> c = TAB \<or> c = CR \<or> c = LF)"

fun no_end :: "string \<Rightarrow> bool" where
  "no_end (c # d # cs) = (\<not> (c = CHR ''*'' \<and> d = CHR ''/'') \<and> no_end (d # cs))"
| "no_end _ = True"

definition layout_ok :: "layout \<Rightarrow> bool" where
  "layout_ok l =
     (case l of Blank c \<Rightarrow> blank c | SlashComment s \<Rightarrow> LF \<notin> set s \<and> NUL \<notin> set s | HashComment s \<Rightarrow> LF \<notin> set s \<and> NUL \<notin> set s
      | BlockComment s \<Rightarrow> NUL \<notin> set s \<and> no_end s)"

definition print_layout :: "layout \<Rightarrow> string" where
  "print_layout l =
     (case l of Blank c \<Rightarrow> [c] | SlashComment s \<Rightarrow> ''//'' @ s @ [LF] | HashComment s \<Rightarrow> ''#'' @ s @ [LF] | BlockComment s \<Rightarrow> ''/*'' @ s @ ''*/'')"

definition print_layouts :: "layout list \<Rightarrow> string" where
  "print_layouts ls = concat (map print_layout ls)"

text \<open>After each token a blank, at least.\<close>

definition print_tokens :: "(lexeme \<times> char \<times> layout list) list \<Rightarrow> string" where
  "print_tokens xs = concat (map (\<lambda>(x, c, ls). print_lexeme x @ [c] @ print_layouts ls) xs)"

section \<open>Reading characters\<close>

definition reading :: "string \<Rightarrow> sq_lexer \<Rightarrow> bool" where
  "reading s lx = (NUL \<notin> set s \<and> cur lx = (case s of [] \<Rightarrow> NUL | c # cs \<Rightarrow> c) \<and> lx_input lx = map tok (tl s))"

definition adv :: "sq_lexer \<Rightarrow> sq_lexer" where
  "adv lx = (case NEXT lx of Inl e \<Rightarrow> lx | Inr x \<Rightarrow> x)"

lemma reading_cur [dest]: "reading (c # s) lx \<Longrightarrow> cur lx = c"
  by (simp add: reading_def)

lemma reading_end [dest]: "reading [] lx \<Longrightarrow> cur lx = NUL"
  by (simp add: reading_def)

lemma reading_not_NUL: "reading (c # s) lx \<Longrightarrow> c \<noteq> NUL"
  by (auto simp: reading_def)

lemma tok_range: "0 \<le> tok c" "tok c \<le> 255"
proof -
  show "0 \<le> tok c" by simp
  have "of_char c < (256 :: nat)" using of_char_mod_256 [of c, where ?'a = nat] by (metis mod_less_divisor zero_less_numeral)
  then show "tok c \<le> 255" by linarith
qed

lemma tok_zero: "c \<noteq> NUL \<Longrightarrow> tok c \<noteq> 0"
proof
  assume c: "c \<noteq> NUL" and "tok c = 0"
  then have "(of_char c :: nat) = of_char NUL" by (simp add: NUL_def)
  then show False using c by simp
qed

lemma char_of_tok [simp]: "char_of (tok c) = c"
  by simp

lemma NEXT_reading:
  assumes "reading (c # s) lx"
  shows "NEXT lx = Inr (adv lx)" and "reading s (adv lx)"
proof -
  have in_lx: "lx_input lx = map tok s" "NUL \<notin> set s" using assms by (simp_all add: reading_def)
  have "\<exists>x. NEXT lx = Inr x \<and> reading s x"
  proof (cases s)
    case Nil
    then show ?thesis using in_lx by (simp add: NEXT_def SQLexer_Next_def reading_def)
  next
    case (Cons d ds)
    then have "d \<noteq> NUL" using in_lx(2) by auto
    then show ?thesis using Cons in_lx tok_zero [of d] tok_range(2) [of d] by (simp add: NEXT_def SQLexer_Next_def reading_def)
  qed
  then show "NEXT lx = Inr (adv lx)" "reading s (adv lx)" by (auto simp: adv_def)
qed

lemma adv_same [simp]:
  "lx_keywords (adv lx) = lx_keywords lx" "lx_longstr (adv lx) = lx_longstr lx" "lx_svalue (adv lx) = lx_svalue lx" "lx_nvalue (adv lx) = lx_nvalue lx"
  by (auto simp: adv_def NEXT_def SQLexer_Next_def SQLexer_Error_def Let_def split: sum.split list.split)

lemma reading_updates [simp]:
  "reading s (lx\<lparr>lx_longstr := a\<rparr>) = reading s lx" "reading s (APPEND_CHAR c lx) = reading s lx" "reading s (lx\<lparr>lx_currentcolumn := l\<rparr>) = reading s lx"
  "reading s (lx\<lparr>lx_prevtoken := l\<rparr>) = reading s lx" "reading s (lx\<lparr>lx_curtoken := l\<rparr>) = reading s lx" "reading s (lx\<lparr>lx_nvalue := n\<rparr>) = reading s lx"
  "reading s (lx\<lparr>lx_svalue := a\<rparr>) = reading s lx" "reading s (lx\<lparr>lx_lasttokenline := l\<rparr>) = reading s lx" "reading s (lx\<lparr>lx_currentline := l\<rparr>) = reading s lx"
  by (simp_all add: reading_def APPEND_CHAR_def)

section \<open>Layout\<close>

text \<open>The lexer goes on with the characters after the layout.\<close>

definition skips :: "sq_shared \<Rightarrow> sq_lexer \<Rightarrow> string \<Rightarrow> bool" where
  "skips ss lx s = (\<exists>x. lex_loop ss lx = lex_loop ss x \<and> reading s x \<and> lx_keywords x = lx_keywords lx)"

lemma skips_trans: "skips ss lx s \<Longrightarrow> (\<And>x. reading s x \<Longrightarrow> skips ss x t) \<Longrightarrow> skips ss lx t"
  unfolding skips_def by metis

lemma skips_blank:
  assumes "reading (c # s) lx" and "blank c"
  shows "skips ss lx s"
proof (cases "c = LF")
  case True
  let ?lx = "lx\<lparr>lx_currentline := lx_currentline lx + 1, lx_prevtoken := lx_curtoken lx, lx_curtoken := tok LF\<rparr>"
  have n: "NEXT ?lx = Inr (adv ?lx)" "reading s (adv ?lx)" using NEXT_reading [of c s ?lx] assms(1) by simp_all
  have "lex_loop ss lx = lex_loop ss ((adv ?lx)\<lparr>lx_currentcolumn := 1\<rparr>)"
    using assms(1) True n(1) reading_not_NUL [OF assms(1)] by (subst lex_loop.simps) (auto simp: Let_def dest!: reading_cur)
  then show ?thesis using n(2) unfolding skips_def by fastforce
next
  case False
  note n = NEXT_reading [OF assms(1)]
  have "lex_loop ss lx = lex_loop ss (adv lx)"
    using assms False n(1) reading_not_NUL [OF assms(1)] by (subst lex_loop.simps) (auto simp: Let_def blank_def dest!: reading_cur)
  then show ?thesis using n(2) unfolding skips_def by fastforce
qed

lemma LexLineComment_reading:
  assumes "reading (c # s @ LF # r) lx" and "LF \<notin> set s"
  shows "\<exists>x. SQLexer_LexLineComment lx = Inr x \<and> reading (LF # r) x \<and> lx_keywords x = lx_keywords lx"
  using assms
proof (induction s arbitrary: c lx)
  case Nil
  note n = NEXT_reading [OF Nil(1) [simplified]]
  show ?case using n by (subst SQLexer_LexLineComment.simps) (auto dest!: reading_cur)
next
  case (Cons d s)
  note n = NEXT_reading [OF Cons(2) [simplified]]
  have d: "cur (adv lx) = d" "d \<noteq> NUL" "d \<noteq> LF" using n(2) reading_not_NUL [OF n(2)] Cons(3) by auto
  then show ?case using Cons(1) [OF n(2)] Cons(3) n(1) by (subst SQLexer_LexLineComment.simps) auto
qed

lemma LexBlockComment_reading:
  assumes "reading (s @ CHR ''*'' # CHR ''/'' # r) lx" and "no_end s"
  shows "\<exists>x. SQLexer_LexBlockComment lx = Inr x \<and> reading r x \<and> lx_keywords x = lx_keywords lx"
  using assms
proof (induction s arbitrary: lx)
  case Nil
  note n = NEXT_reading [OF Nil(1) [simplified]] and m = NEXT_reading [OF NEXT_reading(2) [OF Nil(1) [simplified]]]
  show ?case using n m Nil(1) by (subst SQLexer_LexBlockComment.simps) (auto simp: NUL_def dest!: reading_cur)
next
  case (Cons c s)
  have end_s: "no_end s" using Cons(3) by (cases s) auto
  note c = reading_cur [OF Cons(2) [simplified]] reading_not_NUL [OF Cons(2) [simplified]]
  note n = NEXT_reading [OF Cons(2) [simplified]]
  show ?case
  proof (cases "c = LF")
    case True
    let ?lx = "lx\<lparr>lx_currentline := lx_currentline lx + 1\<rparr>"
    have m: "NEXT ?lx = Inr (adv ?lx)" "reading (s @ CHR ''*'' # CHR ''/'' # r) (adv ?lx)"
      using NEXT_reading [of c "s @ CHR ''*'' # CHR ''/'' # r" ?lx] Cons(2) by simp_all
    show ?thesis using Cons(1) [OF m(2) end_s] m(1) c True by (subst SQLexer_LexBlockComment.simps) simp
  next
    case False
    have "cur (adv lx) \<noteq> CHR ''/''" if "c = CHR ''*''" using n(2) that Cons(3) by (cases s) (auto dest!: reading_cur)
    then show ?thesis using Cons(1) [OF n(2) end_s] n(1) c False by (subst SQLexer_LexBlockComment.simps) auto
  qed
qed

lemma skips_layout:
  assumes "reading (print_layout l @ s) lx" and "layout_ok l"
  shows "skips ss lx s"
proof (cases l)
  case (Blank c)
  then show ?thesis using assms by (intro skips_blank [of c]) (simp_all add: print_layout_def layout_ok_def)
next
  case (SlashComment t)
  have r: "reading (CHR ''/'' # CHR ''/'' # t @ LF # s) lx" using assms(1) SlashComment by (simp add: print_layout_def)
  note n = NEXT_reading [OF r]
  obtain x where x: "SQLexer_LexLineComment (adv lx) = Inr x" "reading (LF # s) x" "lx_keywords x = lx_keywords lx"
    using LexLineComment_reading [OF n(2)] assms(2) SlashComment by (auto simp: layout_ok_def)
  have "lex_loop ss lx = lex_loop ss x"
    using reading_cur [OF r] reading_cur [OF n(2)] n(1) x(1) by (subst lex_loop.simps) (simp add: Let_def NUL_def)
  then have "skips ss lx (LF # s)" using x unfolding skips_def by blast
  then show ?thesis by (rule skips_trans) (auto intro: skips_blank simp: blank_def)
next
  case (HashComment t)
  have r: "reading (CHR ''#'' # t @ LF # s) lx" using assms(1) HashComment by (simp add: print_layout_def)
  obtain x where x: "SQLexer_LexLineComment lx = Inr x" "reading (LF # s) x" "lx_keywords x = lx_keywords lx"
    using LexLineComment_reading [OF r] assms(2) HashComment by (auto simp: layout_ok_def)
  have "lex_loop ss lx = lex_loop ss x"
    using reading_cur [OF r] x(1) by (subst lex_loop.simps) (simp add: Let_def NUL_def)
  then have "skips ss lx (LF # s)" using x unfolding skips_def by blast
  then show ?thesis by (rule skips_trans) (auto intro: skips_blank simp: blank_def)
next
  case (BlockComment t)
  have r: "reading (CHR ''/'' # CHR ''*'' # t @ CHR ''*'' # CHR ''/'' # s) lx" using assms(1) BlockComment by (simp add: print_layout_def)
  note n = NEXT_reading [OF r] and m = NEXT_reading [OF NEXT_reading(2) [OF r]]
  obtain x where x: "SQLexer_LexBlockComment (adv (adv lx)) = Inr x" "reading s x" "lx_keywords x = lx_keywords lx"
    using LexBlockComment_reading [OF m(2)] assms(2) BlockComment by (auto simp: layout_ok_def)
  have "lex_loop ss lx = lex_loop ss x"
    using reading_cur [OF r] reading_cur [OF n(2)] n(1) m(1) x(1) by (subst lex_loop.simps) (simp add: Let_def NUL_def)
  then show ?thesis using x unfolding skips_def by blast
qed

lemma skips_layouts: "reading (print_layouts ls @ s) lx \<Longrightarrow> list_all layout_ok ls \<Longrightarrow> skips ss lx s"
proof (induction ls arbitrary: lx)
  case Nil
  then show ?case unfolding skips_def by (auto simp: print_layouts_def)
next
  case (Cons l ls)
  have "skips ss lx (print_layouts ls @ s)" by (rule skips_layout [of l]) (use Cons(2,3) in \<open>simp_all add: print_layouts_def\<close>)
  then show ?case by (rule skips_trans) (use Cons(1,3) in auto)
qed

section \<open>Tokens\<close>

text \<open>The lexer gives a token with its value, and is at the characters after it.\<close>

definition lexes_to :: "(int \<times> sq_lexer) lex \<Rightarrow> sq_table \<Rightarrow> lexeme \<Rightarrow> string \<Rightarrow> bool" where
  "lexes_to m kw x s = (\<exists>t lx. m = Inr (t, lx) \<and> t \<noteq> 0 \<and> lexeme_of t lx = x \<and> reading s lx \<and> lx_keywords lx = kw)"

lemma lexes_to_RETURN:
  "reading s lx \<Longrightarrow> t \<noteq> 0 \<Longrightarrow> lexeme_of t (lx\<lparr>lx_prevtoken := lx_curtoken lx, lx_curtoken := t\<rparr>) = x \<Longrightarrow> lx_keywords lx = kw \<Longrightarrow> lexes_to (RETURN_TOKEN t lx) kw x s"
  unfolding lexes_to_def RETURN_TOKEN_def by (intro exI conjI) (rule refl, simp_all)

lemma lexeme_of_Plain [simp]: "t \<notin> {TK_IDENTIFIER, TK_CONSTRUCTOR, TK_STRING_LITERAL, TK_INTEGER, TK_FLOAT} \<Longrightarrow> lexeme_of t lx = Plain t"
  by (simp add: lexeme_of_def)

text \<open>Words.\<close>

lemma read_id_reading:
  assumes "reading (c # w @ b # s) lx" and "list_all word_char w" and "\<not> word_char b"
  shows "\<exists>x. read_id lx = Inr x \<and> reading (b # s) x \<and> lx_keywords x = lx_keywords lx \<and> lx_longstr x = lx_longstr lx @ c # w"
  using assms
proof (induction w arbitrary: c lx)
  case Nil
  have "reading (c # b # s) (APPEND_CHAR (cur lx) lx)" using Nil(1) by simp
  note n = NEXT_reading [OF this]
  show ?case using n Nil(3) reading_cur [OF Nil(1) [simplified]] reading_cur [OF n(2)] by (subst read_id.simps) (simp add: word_char_def)
next
  case (Cons d w)
  have "reading (c # d # w @ b # s) (APPEND_CHAR (cur lx) lx)" using Cons(2) by simp
  note n = NEXT_reading [OF this]
  have "is_alnum d \<or> d = CHR ''_''" using Cons(3) by (simp add: word_char_def)
  then show ?case using Cons(1) [OF n(2)] Cons(3,4) n(1) reading_cur [OF Cons(2) [simplified]] reading_cur [OF n(2)]
    by (subst read_id.simps) simp
qed

lemma word_char_classes:
  assumes "is_alpha c \<or> c = CHR ''_''"
  shows "c \<noteq> NUL" "c \<notin> set ''<>@.'' \<union> {QUOTE, APOS, TAB, CR, LF, CHR '' '', CHR ''#'', CHR ''/''}" "c \<notin> set one_char_tokens" "map_of two_char_tokens c = None" "\<not> is_digit c"
proof -
  have "\<not> (is_alpha d \<or> d = CHR ''_'')" if "d \<in> set ''<>@.'' \<union> {NUL, QUOTE, APOS, TAB, CR, LF, CHR '' '', CHR ''#'', CHR ''/''} \<union> set one_char_tokens \<union> fst ` set two_char_tokens" for d
    using that by (auto simp: is_alpha_def one_char_tokens_def two_char_tokens_def NUL_def)
  then show "c \<noteq> NUL" "c \<notin> set ''<>@.'' \<union> {QUOTE, APOS, TAB, CR, LF, CHR '' '', CHR ''#'', CHR ''/''}" "c \<notin> set one_char_tokens" "map_of two_char_tokens c = None"
    using assms unfolding map_of_eq_None_iff by auto
  show "\<not> is_digit c" using assms by (auto simp: is_alpha_def is_digit_def Let_def)
qed

lemma lex_loop_token:
  assumes "cur lx \<notin> {NUL, TAB, CR, LF, CHR '' '', CHR ''#'', CHR ''/''}"
  shows "lex_loop ss lx = lex_token ss lx"
  using assms by (subst lex_loop.simps) (simp add: Let_def)

lemma lexes_word:
  assumes "reading (w @ b # s) lx" and "is_word w" and "\<not> word_char b" and "has_words keyword_list ss (lx_keywords lx)"
  shows "lexes_to (lex_loop ss lx) (lx_keywords lx) (if word_token w \<in> {TK_IDENTIFIER, TK_CONSTRUCTOR} then Word (word_token w) w else Plain (word_token w)) (b # s)"
proof -
  obtain c cs where w: "w = c # cs" "is_alpha c \<or> c = CHR ''_''" "list_all word_char cs" using assms(2) by (auto simp: is_word_def split: list.splits)
  note cls = word_char_classes [OF w(2)]
  have r: "reading (c # cs @ b # s) lx" using assms(1) w(1) by simp
  note cur = reading_cur [OF r]
  have "reading (c # cs @ b # s) (lx\<lparr>lx_longstr := []\<rparr>)" using r by simp
  from read_id_reading [OF this w(3) assms(3)] obtain x where x: "read_id (lx\<lparr>lx_longstr := []\<rparr>) = Inr x" "reading (b # s) x"
    "lx_keywords x = lx_keywords lx" "lx_longstr x = w" using w(1) by auto
  have str: "is_c_string w" using r w(1) by (auto simp: reading_def is_c_string_def list_all_iff)
  have "has_words keyword_list ss (lx_keywords (APPEND_CHAR NUL x))" using assms(4) x(3) by simp
  note type = GetIDType_words [OF this str]
  let ?t = "word_token w"
  let ?y = "if ?t = TK_IDENTIFIER \<or> ?t = TK_CONSTRUCTOR then (APPEND_CHAR NUL x)\<lparr>lx_svalue := w\<rparr> else APPEND_CHAR NUL x"
  have id: "SQLexer_ReadID ss lx = Inr (?t, ?y)" using x type by (simp add: SQLexer_ReadID_def Let_def)
  have "lex_loop ss lx = lex_token ss lx" using cls cur by (intro lex_loop_token) auto
  also have "\<dots> = RETURN_TOKEN ?t ?y" using cls cur w(2) id by (simp add: lex_token_def Let_def)
  finally have run: "lex_loop ss lx = RETURN_TOKEN ?t ?y" .
  have vals: "?t \<notin> {0, TK_STRING_LITERAL, TK_INTEGER, TK_FLOAT}"
  proof -
    have "list_all (\<lambda>(s, i). i \<notin> {0, TK_STRING_LITERAL, TK_INTEGER, TK_FLOAT}) keyword_list" by code_simp
    then show ?thesis using map_of_SomeD [of keyword_list w] by (auto simp: word_token_def list_all_iff split: option.split)
  qed
  show ?thesis unfolding run
    by (rule lexes_to_RETURN) (use vals x in \<open>auto simp: lexeme_of_def\<close>)
qed

text \<open>Numbers.\<close>

lemma decimal_digits: "list_all is_digit (decimal n)" and decimal_not_Nil: "decimal n \<noteq> []" and decimal_zero: "hd (decimal n) = CHR ''0'' \<Longrightarrow> n = 0"
  and decimal_value: "LexInteger (decimal n) = of_nat n"
proof -
  have dig: "is_digit (char_of (48 + d))" "int (of_char (char_of (48 + d) :: char)) - 48 = int d" "d \<noteq> 0 \<Longrightarrow> char_of (48 + d) \<noteq> CHR ''0''"
    if "d < 10" for d :: nat
  proof -
    have code: "(of_char (char_of (48 + d) :: char) :: nat) = 48 + d" using that by simp
    show "is_digit (char_of (48 + d))" unfolding is_digit_def Let_def code using that by simp
    show "int (of_char (char_of (48 + d) :: char)) - 48 = int d" unfolding code by simp
    show "char_of (48 + d) \<noteq> CHR ''0''" if "d \<noteq> 0"
    proof
      assume "char_of (48 + d) = CHR ''0''"
      then have "(of_char (CHR ''0'') :: nat) = 48 + d" using code by simp
      then show False using that by simp
    qed
  qed
  have "list_all is_digit (decimal n) \<and> decimal n \<noteq> [] \<and> (hd (decimal n) = CHR ''0'' \<longrightarrow> n = 0) \<and> LexInteger (decimal n) = of_nat n"
  proof (induction n rule: decimal.induct)
    case (1 n)
    show ?case
    proof (cases "n < 10")
      case True
      then have dec: "decimal n = [char_of (48 + n)]" by (subst decimal.simps) simp
      have "LexInteger (decimal n) = of_int (int n)" unfolding dec LexInteger_def using dig(2) [OF True] by simp
      then show ?thesis using dig(1,3) [OF True] dec by auto
    next
      case False
      note ih = 1 [OF False]
      have "n mod 10 < 10" by simp
      note d = dig [OF this]
      have "LexInteger (decimal (n div 10) @ [char_of (48 + n mod 10)]) = LexInteger (decimal (n div 10)) * 10 + of_int (int (of_char (char_of (48 + n mod 10) :: char)) - 48)"
        by (simp add: LexInteger_def)
      also have "\<dots> = of_nat (n div 10) * 10 + of_nat (n mod 10)" unfolding d(2) using ih by simp
      also have "\<dots> = of_nat (n div 10 * 10 + n mod 10)" by (simp only: of_nat_add of_nat_mult of_nat_numeral)
      finally have "LexInteger (decimal (n div 10) @ [char_of (48 + n mod 10)]) = of_nat n" by (simp only: div_mult_mod_eq)
      moreover have dec: "decimal n = decimal (n div 10) @ [char_of (48 + n mod 10)]" using False by (subst decimal.simps) simp
      ultimately show ?thesis unfolding dec using ih d(1) False by auto
    qed
  qed
  then show "list_all is_digit (decimal n)" "decimal n \<noteq> []" "hd (decimal n) = CHR ''0'' \<Longrightarrow> n = 0" "LexInteger (decimal n) = of_nat n" by auto
qed

definition number_end :: "char \<Rightarrow> bool" where
  "number_end c = (c \<noteq> CHR ''.'' \<and> \<not> is_digit c \<and> \<not> isexponent c \<and> to_upper c \<noteq> CHR ''X'' \<and> \<not> scisodigit c)"

lemma digit_classes:
  assumes "is_digit c"
  shows "c \<notin> set ''<>@.'' \<union> {NUL, QUOTE, APOS, TAB, CR, LF, CHR '' '', CHR ''#'', CHR ''/''}" "c \<notin> set one_char_tokens" "map_of two_char_tokens c = None" "\<not> isexponent c" "c \<noteq> CHR ''.''"
proof -
  have "\<not> is_digit d" if "d \<in> set ''<>@.'' \<union> {NUL, QUOTE, APOS, TAB, CR, LF, CHR '' '', CHR ''#'', CHR ''/''} \<union> set one_char_tokens \<union> fst ` set two_char_tokens \<union> set ''eE.''" for d
    using that by (auto simp: is_digit_def one_char_tokens_def two_char_tokens_def NUL_def)
  then show "c \<notin> set ''<>@.'' \<union> {NUL, QUOTE, APOS, TAB, CR, LF, CHR '' '', CHR ''#'', CHR ''/''}" "c \<notin> set one_char_tokens" "map_of two_char_tokens c = None" "\<not> isexponent c" "c \<noteq> CHR ''.''"
    using assms unfolding map_of_eq_None_iff isexponent_def by auto
qed

lemma read_decimal_reading:
  assumes "reading (ds @ b # s) lx" and "list_all is_digit ds" and "number_end b"
  shows "\<exists>x. read_decimal TINT lx = Inr (TINT, x) \<and> reading (b # s) x \<and> lx_keywords x = lx_keywords lx \<and> lx_longstr x = lx_longstr lx @ ds"
  using assms
proof (induction ds arbitrary: lx)
  case Nil
  then show ?case using reading_cur [OF Nil(1) [simplified]] by (subst read_decimal.simps) (simp add: number_end_def)
next
  case (Cons d ds)
  have r: "reading (d # ds @ b # s) (APPEND_CHAR (cur lx) lx)" using Cons(2) by simp
  note n = NEXT_reading [OF r] and cur = reading_cur [OF Cons(2) [simplified]]
  have d: "is_digit d" "list_all is_digit ds" using Cons(3) by simp_all
  have "lex_exponent TINT lx = Inr (TINT, lx)" using digit_classes [OF d(1)] cur by (simp add: lex_exponent_def Let_def)
  then show ?case using Cons(1) [OF n(2) d(2) Cons(4)] n(1) cur d(1) by (subst read_decimal.simps) simp
qed

lemma lexes_number:
  assumes "reading (decimal n @ b # s) lx" and "number_end b" and "n < 2 ^ 64"
  shows "lexes_to (lex_loop ss lx) (lx_keywords lx) (Num (of_nat n)) (b # s)"
proof -
  obtain c cs where d: "decimal n = c # cs" using decimal_not_Nil by (meson neq_Nil_conv)
  have r: "reading (c # cs @ b # s) lx" and dig: "is_digit c" "list_all is_digit cs" using assms(1) decimal_digits [of n] d by auto
  note cls = digit_classes [OF dig(1)] and cur = reading_cur [OF r]
  have "reading (c # cs @ b # s) (lx\<lparr>lx_longstr := []\<rparr>)" using r by simp
  note n = NEXT_reading [OF this]
  let ?y = "adv (lx\<lparr>lx_longstr := []\<rparr>)"
  have no_prefix: "\<not> (c = CHR ''0'' \<and> (to_upper (cur ?y) = CHR ''X'' \<or> scisodigit (cur ?y)))"
  proof (cases "c = CHR ''0''")
    case True
    then have "cs = []" using decimal_zero [of n] d by (simp add: decimal.simps)
    then show ?thesis using reading_cur [of b s ?y] n(2) assms(2) by (simp add: number_end_def)
  qed simp
  have "reading (cs @ b # s) (APPEND_CHAR c ?y)" using n(2) by simp
  from read_decimal_reading [OF this dig(2) assms(2)] obtain x where x: "read_decimal TINT (APPEND_CHAR c ?y) = Inr (TINT, x)" "reading (b # s) x"
    "lx_keywords x = lx_keywords lx" "lx_longstr x = decimal n" using d by auto
  have num: "SQLexer_ReadNumber lx = Inr (TK_INTEGER, (APPEND_CHAR NUL x)\<lparr>lx_nvalue := of_nat n\<rparr>)"
    using n(1) no_prefix x cur decimal_value [of n] by (auto simp: SQLexer_ReadNumber_def Let_def)
  have "lex_loop ss lx = lex_token ss lx" using cls cur by (intro lex_loop_token) auto
  also have "\<dots> = RETURN_TOKEN TK_INTEGER ((APPEND_CHAR NUL x)\<lparr>lx_nvalue := of_nat n\<rparr>)" using cls cur dig num by (simp add: lex_token_def Let_def)
  finally show ?thesis
    by (simp only:) (rule lexes_to_RETURN, use x in \<open>simp_all add: lexeme_of_def\<close>)
qed

text \<open>Strings.\<close>

lemma read_string_reading:
  assumes "reading (concat (map escaped t) @ QUOTE # s) lx"
  shows "\<exists>x. read_string QUOTE False lx = Inr x \<and> reading s x \<and> lx_keywords x = lx_keywords lx \<and> lx_longstr x = lx_longstr lx @ t"
  using assms
proof (induction t arbitrary: lx)
  case Nil
  note n = NEXT_reading [OF Nil(1) [simplified]]
  show ?case using n reading_cur [OF Nil(1) [simplified]] by (subst read_string.simps) simp
next
  case (Cons c t)
  let ?r = "concat (map escaped t) @ QUOTE # s"
  show ?case
  proof (cases "escaped c = [c]")
    case True
    then have r: "reading (c # ?r) (APPEND_CHAR (cur lx) lx)" "cur lx = c" using Cons(2) by (auto dest: reading_cur)
    have c: "c \<noteq> LF" "c \<noteq> NUL" "c \<noteq> QUOTE" "c \<noteq> BSL" using True by (auto simp: escaped_def split: if_splits)
    note n = NEXT_reading [OF r(1)]
    show ?thesis using Cons(1) [OF n(2)] n(1) r(2) c by (subst read_string.simps) simp
  next
    case False
    obtain d where d: "escaped c = [BSL, d]" "(c, d) \<in> {(LF, CHR ''n''), (NUL, CHR ''0''), (QUOTE, QUOTE), (BSL, BSL)}"
      using False by (auto simp: escaped_def split: if_splits)
    have r: "reading (BSL # d # ?r) lx" using Cons(2) d(1) by simp
    note n = NEXT_reading [OF r] and cur = reading_cur [OF r]
    have r2: "reading (d # ?r) (APPEND_CHAR c (adv lx))" using n(2) by simp
    note m = NEXT_reading [OF r2] and cur2 = reading_cur [OF n(2)]
    have "lex_escape QUOTE (adv lx) = NEXT (APPEND_CHAR c (adv lx))" using d(2) cur2 by (auto simp: lex_escape_def Let_def)
    then show ?thesis using Cons(1) [OF m(2)] n(1) m(1) cur by (subst read_string.simps) (simp add: NUL_def)
  qed
qed

lemma lexes_text:
  assumes "reading ([QUOTE] @ concat (map escaped t) @ [QUOTE] @ s) lx"
  shows "lexes_to (lex_loop ss lx) (lx_keywords lx) (Text t) s"
proof -
  let ?r = "concat (map escaped t) @ QUOTE # s"
  have r: "reading (QUOTE # ?r) lx" using assms by simp
  note cur = reading_cur [OF r]
  have "reading (QUOTE # ?r) (lx\<lparr>lx_longstr := []\<rparr>)" using r by simp
  note n = NEXT_reading [OF this]
  have "cur (adv (lx\<lparr>lx_longstr := []\<rparr>)) \<noteq> NUL"
    using n(2) by (cases ?r) (auto dest: reading_cur reading_not_NUL)
  moreover obtain x where x: "read_string QUOTE False (adv (lx\<lparr>lx_longstr := []\<rparr>)) = Inr x" "reading s x" "lx_keywords x = lx_keywords lx" "lx_longstr x = t"
    using read_string_reading [OF n(2)] by auto
  ultimately have str: "SQLexer_ReadString QUOTE False lx = Inr (TK_STRING_LITERAL, (APPEND_CHAR NUL x)\<lparr>lx_svalue := t\<rparr>)"
    using n(1) by (simp add: SQLexer_ReadString_def Let_def)
  have "lex_loop ss lx = lex_token ss lx" using cur by (intro lex_loop_token) (simp add: NUL_def)
  also have "\<dots> = RETURN_TOKEN TK_STRING_LITERAL ((APPEND_CHAR NUL x)\<lparr>lx_svalue := t\<rparr>)" using cur str by (simp add: lex_token_def lex_string_def Let_def)
  finally show ?thesis
    by (simp only:) (rule lexes_to_RETURN, use x in \<open>simp_all add: lexeme_of_def\<close>)
qed

text \<open>Operators, before a blank.\<close>

lemma blank_classes:
  assumes "blank c"
  shows "\<not> word_char c" "number_end c" "c \<notin> set ''<>=-/&|:+.'' \<union> {QUOTE, CHR ''*''}"
proof -
  have "\<forall>c \<in> {CHR '' '', TAB, CR, LF}. \<not> word_char c \<and> number_end c \<and> c \<notin> set ''<>=-/&|:+.'' \<union> {QUOTE, CHR ''*''}" by code_simp
  then show "\<not> word_char c" "number_end c" "c \<notin> set ''<>=-/&|:+.'' \<union> {QUOTE, CHR ''*''}" using assms unfolding blank_def by blast+
qed

lemma reading_chars:
  shows "reading (c1 # b # s) lx \<Longrightarrow> NEXT lx = Inr (adv lx) \<and> cur lx = c1 \<and> cur (adv lx) = b \<and> reading (b # s) (adv lx)"
    and "reading (c1 # c2 # b # s) lx \<Longrightarrow> NEXT lx = Inr (adv lx) \<and> cur lx = c1 \<and> NEXT (adv lx) = Inr (adv (adv lx)) \<and> cur (adv lx) = c2 \<and>
      cur (adv (adv lx)) = b \<and> reading (b # s) (adv (adv lx))"
    and "reading (c1 # c2 # c3 # b # s) lx \<Longrightarrow> NEXT lx = Inr (adv lx) \<and> cur lx = c1 \<and> NEXT (adv lx) = Inr (adv (adv lx)) \<and> cur (adv lx) = c2 \<and>
      NEXT (adv (adv lx)) = Inr (adv (adv (adv lx))) \<and> cur (adv (adv lx)) = c3 \<and> cur (adv (adv (adv lx))) = b \<and> reading (b # s) (adv (adv (adv lx)))"
  using NEXT_reading reading_cur by metis+

text \<open>One, two or three characters, each with the rest of the lexer's decisions.\<close>

lemmas lexing_defs = Let_def lex_token_def lex_less_def lex_greater_def lex_dots_def lex_slash_def lex_maybe_def then_token_def two_char_tokens_def one_char_tokens_def

lemma lexes_operator:
  assumes "(t, w) \<in> set operator_texts" and "reading (w @ b # s) lx" and "blank b"
  shows "lexes_to (lex_loop ss lx) (lx_keywords lx) (Plain t) (b # s)"
proof -
  have b: "b \<noteq> CHR ''<''" "b \<noteq> CHR ''>''" "b \<noteq> CHR ''=''" "b \<noteq> CHR ''-''" "b \<noteq> CHR ''/''" "b \<noteq> CHR ''&''" "b \<noteq> CHR ''|''" "b \<noteq> CHR '':''" "b \<noteq> CHR ''+''"
    "b \<noteq> CHR ''.''" "b \<noteq> QUOTE" "b \<noteq> CHR ''*''"
    using blank_classes(3) [OF assms(3)] by auto
  have last: "lexes_to (RETURN_TOKEN t x) (lx_keywords lx) (Plain t) (b # s)"
    if "reading (b # s) x" "lx_keywords x = lx_keywords lx" "t \<notin> {0, TK_IDENTIFIER, TK_CONSTRUCTOR, TK_STRING_LITERAL, TK_INTEGER, TK_FLOAT}" for x t
    by (rule lexes_to_RETURN) (use that in auto)
  show ?thesis
    using assms(1,2) unfolding operator_texts_def one_char_tokens_def set_append list.map list.set Un_iff insert_iff empty_iff prod.inject
    apply (elim disjE conjE FalseE)
    apply (simp_all only: append_Cons append_Nil)
    apply (frule reading_chars(1) [where b = b and s = s] reading_chars(2) [where b = b and s = s] reading_chars(3) [where b = b and s = s],
       subst lex_loop.simps, simp add: lexing_defs NUL_def b last)+
    done
qed

section \<open>A whole text\<close>

lemma plain_text_cases:
  assumes "plain_text t = Some w"
  shows "(t, w) \<in> set operator_texts \<or> map_of keyword_list w = Some t \<and> t \<noteq> TK_CONSTRUCTOR \<and> is_word w"
proof -
  have "(t, w) \<in> set operator_texts \<or> (w, t) \<in> set keyword_list \<and> t \<noteq> TK_CONSTRUCTOR"
    using map_of_SomeD [OF assms [unfolded plain_text_def]] by (auto simp: keyword_texts_def)
  moreover have "list_all (\<lambda>(w, t). is_word w) keyword_list" by code_simp
  ultimately show ?thesis using keyword_list_words(2) by (auto simp: list_all_iff)
qed

lemma lexes_lexeme:
  assumes "printable x" and "reading (print_lexeme x @ b # s) lx" and "blank b" and "has_words keyword_list ss (lx_keywords lx)"
  shows "lexes_to (lex_loop ss lx) (lx_keywords lx) x (b # s)"
proof (cases x)
  case (Word t w)
  then have w: "is_word w" "word_token w = t" "t \<in> {TK_IDENTIFIER, TK_CONSTRUCTOR}" using assms(1) by (simp_all add: printable_def)
  have "reading (w @ b # s) lx" using assms(2) Word by (simp add: print_lexeme_def)
  from lexes_word [OF this w(1) blank_classes(1) [OF assms(3)] assms(4)] show ?thesis using Word w(2,3) by simp
next
  case (Text t)
  then have "reading ([QUOTE] @ concat (map escaped t) @ [QUOTE] @ b # s) lx" using assms(2) by (simp add: print_lexeme_def)
  from lexes_text [OF this] show ?thesis using Text by simp
next
  case (Num n)
  have "unat n < 2 ^ 64" using unsigned_less [of n, where ?'a = nat] by simp
  moreover have "reading (decimal (unat n) @ b # s) lx" using assms(2) Num by (simp add: print_lexeme_def)
  ultimately show ?thesis using lexes_number [OF _ blank_classes(2) [OF assms(3)], of "unat n" s lx ss] Num by simp
next
  case (Real f)
  then show ?thesis using assms(1) by (simp add: printable_def)
next
  case (Plain t)
  then obtain w where w: "plain_text t = Some w" using assms(1) by (auto simp: printable_def)
  then have r: "reading (w @ b # s) lx" using assms(2) Plain by (simp add: print_lexeme_def)
  from plain_text_cases [OF w] show ?thesis
  proof
    assume "(t, w) \<in> set operator_texts"
    then show ?thesis using lexes_operator [OF _ r assms(3)] Plain by simp
  next
    assume k: "map_of keyword_list w = Some t \<and> t \<noteq> TK_CONSTRUCTOR \<and> is_word w"
    then have "t \<noteq> TK_IDENTIFIER" using keyword_list_words(4) map_of_SomeD by (force simp: list_all_iff)
    then have "word_token w = t" "t \<notin> {TK_IDENTIFIER, TK_CONSTRUCTOR}" using k by (simp_all add: word_token_def)
    then show ?thesis using lexes_word [OF r _ blank_classes(1) [OF assms(3)] assms(4)] k Plain by simp
  qed
qed

lemma lex_all_reading:
  assumes "reading (print_layouts ls @ print_tokens xs) lx" and "has_words keyword_list ss (lx_keywords lx)" and "list_all layout_ok ls"
    and "list_all (\<lambda>(x, b, ls). printable x \<and> blank b \<and> list_all layout_ok ls) xs"
  shows "\<exists>ts. lex_all ss lx = Inr ts \<and> lexemes ts = map fst xs"
  using assms
proof (induction xs arbitrary: ls lx)
  case Nil
  let ?lx = "lx\<lparr>lx_lasttokenline := lx_currentline lx\<rparr>"
  have "reading (print_layouts ls @ []) ?lx" using Nil(1) by (simp add: print_tokens_def)
  from skips_layouts [OF this Nil(3), of ss] obtain x where "lex_loop ss ?lx = lex_loop ss x" "reading [] x" unfolding skips_def by blast
  moreover from this have "lex_loop ss x = Inr (0, x)" using reading_end [of x] by (subst lex_loop.simps) simp
  ultimately show ?case by (subst lex_all.simps) (simp add: SQLexer_Lex_def)
next
  case (Cons y xs)
  obtain x b ks where y: "y = (x, b, ks)" by (cases y) auto
  have ok: "printable x" "blank b" "list_all layout_ok ks" "list_all (\<lambda>(x, b, ls). printable x \<and> blank b \<and> list_all layout_ok ls) xs"
    using Cons.prems(4) y by simp_all
  let ?lx = "lx\<lparr>lx_lasttokenline := lx_currentline lx\<rparr>" and ?r = "print_layouts ks @ print_tokens xs"
  have "reading (print_layouts ls @ print_lexeme x @ b # ?r) ?lx" using Cons.prems(1) y by (simp add: print_tokens_def)
  from skips_layouts [OF this Cons.prems(3), of ss] obtain l1 where l1: "lex_loop ss ?lx = lex_loop ss l1" "reading (print_lexeme x @ b # ?r) l1"
    "lx_keywords l1 = lx_keywords lx" unfolding skips_def by auto
  have "lexes_to (lex_loop ss l1) (lx_keywords l1) x (b # ?r)" using lexes_lexeme [OF ok(1) l1(2) ok(2)] Cons.prems(2) l1(3) by simp
  then obtain t l2 where l2: "SQLexer_Lex ss lx = Inr (t, l2)" "t \<noteq> 0" "lexeme_of t l2 = x" "reading (b # ?r) l2" "lx_keywords l2 = lx_keywords lx"
    using l1 by (auto simp: lexes_to_def SQLexer_Lex_def)
  have "reading (print_layouts (Blank b # ks) @ print_tokens xs) l2" using l2(4) by (simp add: print_layouts_def print_layout_def)
  moreover have "list_all layout_ok (Blank b # ks)" using ok(2,3) by (simp add: layout_ok_def)
  ultimately obtain ts where "lex_all ss l2 = Inr ts" "lexemes ts = map fst xs" using Cons.IH [of "Blank b # ks" l2] Cons.prems(2) l2(5) ok(4) by auto
  then show ?case using l2(1-3) y by (subst lex_all.simps) simp
qed

lemma printed_not_NUL:
  assumes "printable x"
  shows "NUL \<notin> set (print_lexeme x)"
proof -
  have word: "NUL \<notin> set w" if "is_word w" for w
  proof -
    have "\<not> word_char NUL" "\<not> is_alpha NUL" by code_simp+
    then show ?thesis using that by (auto simp: is_word_def list_all_iff NUL_def split: list.splits)
  qed
  have ops: "list_all (\<lambda>(t, w). NUL \<notin> set w) operator_texts" by code_simp
  show ?thesis
  proof (cases x)
    case (Num n)
    have "\<not> is_digit NUL" by code_simp
    then show ?thesis using decimal_digits [of "unat n"] Num by (auto simp: print_lexeme_def list_all_iff)
  next
    case (Plain t)
    then obtain w where w: "plain_text t = Some w" using assms by (auto simp: printable_def)
    then show ?thesis using plain_text_cases [OF w] ops word Plain by (auto simp: print_lexeme_def list_all_iff)
  qed (use assms word in \<open>auto simp: printable_def print_lexeme_def escaped_def NUL_def split: if_splits\<close>)
qed

lemma layouts_not_NUL: "list_all layout_ok ls \<Longrightarrow> NUL \<notin> set (print_layouts ls)"
  by (induction ls) (auto simp: print_layouts_def print_layout_def layout_ok_def blank_def NUL_def split: layout.splits)

lemma tokens_not_NUL:
  "list_all (\<lambda>(x, b, ls). printable x \<and> blank b \<and> list_all layout_ok ls) xs \<Longrightarrow> NUL \<notin> set (print_tokens xs)"
proof (induction xs)
  case (Cons y xs)
  then show ?case using printed_not_NUL [of "fst y"] layouts_not_NUL [of "snd (snd y)"]
    by (auto simp: print_tokens_def split: prod.splits) (auto simp: blank_def NUL_def)
qed (simp add: print_tokens_def)

lemma Init_reading:
  assumes "strings_wf (sh_strings ss)" and "NUL \<notin> set s"
  shows "\<exists>ss' lx. SQLexer_Init ss (map tok s) lx0 = Inr (ss', lx) \<and> reading s lx"
proof -
  obtain ss1 t where 1: "fold_res add_keyword keyword_list (ss, SQTable_Create 37) = Inr (ss1, t)" using keywords_added [OF assms(1)] by blast
  show ?thesis
  proof (cases s)
    case Nil
    then show ?thesis using 1 by (auto simp: SQLexer_Init_def SQLexer_Next_def reading_def)
  next
    case (Cons c cs)
    then have "c \<noteq> NUL" using assms(2) by auto
    then show ?thesis using 1 Cons assms(2) tok_zero [of c] tok_range(2) [of c] by (auto simp: SQLexer_Init_def SQLexer_Next_def reading_def Let_def)
  qed
qed

section \<open>Properties\<close>

text \<open>
  C10. Words, keywords, operators, integers and strings of any characters, printed with at least a blank after each and any blanks and comments
  between them, are what the lexer gives the compiler, one after the other and with their values, and then it gives the end. Floats are not
  printed. A comment here ends as the lexer ends it: one that begins with two slashes or a hash ends at the first newline whatever is before that,
  where the language's reference (\<open>lexical_structure.rst\<close>) says that a newline after a backslash does not end it.
\<close>

theorem lex_printed:
  assumes "strings_step\<^sup>*\<^sup>* SQStringTable_new (sh_strings ss)" and "list_all layout_ok ls"
    and "list_all (\<lambda>(x, b, ls). printable x \<and> blank b \<and> list_all layout_ok ls) xs"
  shows "\<exists>ss' lx ts. SQLexer_Init ss (map tok (print_layouts ls @ print_tokens xs)) lx0 = Inr (ss', lx) \<and>
    lex_all ss' lx = Inr ts \<and> lexemes ts = map fst xs"
proof -
  note wf = strs.inv_reachable [OF refl assms(1)]
  have "NUL \<notin> set (print_layouts ls @ print_tokens xs)" using layouts_not_NUL [OF assms(2)] tokens_not_NUL [OF assms(3)] by simp
  from Init_reading [OF wf this] obtain ss' lx where lx: "SQLexer_Init ss (map tok (print_layouts ls @ print_tokens xs)) lx0 = Inr (ss', lx)"
    "reading (print_layouts ls @ print_tokens xs) lx" by blast
  then show ?thesis using lex_all_reading [OF lx(2) Init_words(1) [OF wf lx(1)] assms(2,3)] by blast
qed

text \<open>A statement with a comment before it, an escape in its string, and the largest integer.\<close>

definition a_statement :: "(lexeme \<times> char \<times> layout list) list" where
  "a_statement =
     [(Plain 283, CHR '' '', []), (Word TK_IDENTIFIER ''x'', CHR '' '', []), (Plain TK_NEWSLOT, LF, [SlashComment '' a slot'']),
      (Text [CHR ''a'', LF, QUOTE], CHR '' '', []), (Plain (tok CHR ''+''), CHR '' '', [BlockComment ''**'']), (Num (- 1), CHR '' '', []), (Plain (tok CHR '';''), LF, [])]"

theorem lex_printed_witness:
  "print_tokens (take 2 a_statement) = ''local x '' \<and>
    (\<exists>ss' lx ts. SQLexer_Init new_shared (map tok (print_layouts [HashComment ''!'', SlashComment [CHR ''x'', BSL]] @ print_tokens a_statement)) new_lexer = Inr (ss', lx) \<and>
      lex_all ss' lx = Inr ts \<and> lexemes ts = [Plain 283, Word TK_IDENTIFIER ''x'', Plain TK_NEWSLOT, Text [CHR ''a'', LF, QUOTE], Plain 43, Num (- 1), Plain 59])"
proof -
  have run: "strings_step\<^sup>*\<^sup>* SQStringTable_new (sh_strings new_shared)" by (simp add: new_shared_def)
  have ok: "list_all layout_ok [HashComment ''!'', SlashComment [CHR ''x'', BSL]]" "list_all (\<lambda>(x, b, ls). printable x \<and> blank b \<and> list_all layout_ok ls) a_statement" by code_simp+
  have "map fst a_statement = [Plain 283, Word TK_IDENTIFIER ''x'', Plain TK_NEWSLOT, Text [CHR ''a'', LF, QUOTE], Plain 43, Num (- 1), Plain 59]"
    by (simp add: a_statement_def)
  moreover have "print_tokens (take 2 a_statement) = ''local x ''" by code_simp
  ultimately show ?thesis using lex_printed [OF run ok, of new_lexer] by metis
qed

end
