(* ===== verification/Capy_SQScript.thy ===== *)
theory Capy_SQScript
  imports Capy_SQScan Capy_Script
begin

text \<open>
  The script file as the lexer sees it: the reader of \<open>core/script/script_core.cpp\<close> under the lexer of the language.
\<close>

section \<open>What the reader gives\<close>

text \<open>The first characters that are asked for.\<close>

primrec script_chars :: "nat \<Rightarrow> disk \<Rightarrow> stream \<Rightarrow> int list" where
  "script_chars 0 d st = []"
| "script_chars (Suc n) d st = (let (c, st') = Script_ReadCharacter d st in c # script_chars n d st')"

lemma chars_at_end: "st_eof st \<Longrightarrow> script_chars n d st = replicate n 0"
  by (induction n) (simp_all add: Script_ReadCharacter_def)

lemma chars_empty:
  assumes "file_bytes d (st_path st) = []" and "st_good st" and "st_in st"
  shows "script_chars (Suc n) d st = - 1 # replicate n 0"
proof -
  let ?st = "st\<lparr>st_eof := True, st_fail := True\<rparr>"
  have "Script_ReadCharacter d st = (- 1, ?st)"
    using assms by (simp add: Script_ReadCharacter_def stream_get_def stream_read_def st_good_def)
  then show ?thesis using chars_at_end [of ?st n d] by simp
qed

lemma chars_unopened:
  assumes "st_fail st" and "\<not> st_eof st"
  shows "script_chars n d st = replicate n (- 1)"
proof (induction n)
  case (Suc n)
  have "st\<lparr>st_fail := True\<rparr> = st" using assms(1) by simp
  then have "Script_ReadCharacter d st = (- 1, st)"
    using assms by (simp add: Script_ReadCharacter_def stream_get_def stream_read_def st_good_def)
  then show ?case using Suc by simp
qed simp

section \<open>What the lexer makes of it\<close>

abbreviation FF :: char where "FF \<equiv> CHR 0xFF"

lemma lex_FF: "cur lx = FF \<Longrightarrow> lex_loop ss lx = bind_lex (NEXT lx) (RETURN_TOKEN 255)"
proof -
  assume cur: "cur lx = FF"
  have cls: "\<not> is_digit FF" "\<not> is_alpha FF" "\<not> is_cntrl FF" "FF \<notin> set one_char_tokens" "map_of two_char_tokens FF = None" by code_simp+
  show ?thesis using cur cls by (subst lex_loop.simps) (simp add: Let_def NUL_def lex_token_def then_token_def)
qed

lemma lex_all_FF:
  assumes "cur lx = FF"
  shows "lex_all ss lx = bind_lex (NEXT (lx\<lparr>lx_lasttokenline := lx_currentline lx\<rparr>)) (\<lambda>x.
    let x = x\<lparr>lx_prevtoken := lx_curtoken x, lx_curtoken := 255\<rparr> in bind_lex (lex_all ss x) (\<lambda>ts. Inr ((x, 255) # ts)))"
  using lex_FF [of "lx\<lparr>lx_lasttokenline := lx_currentline lx\<rparr>" ss] assms
  by (cases "NEXT (lx\<lparr>lx_lasttokenline := lx_currentline lx\<rparr>)") (simp_all add: lex_all.simps [of ss lx] SQLexer_Lex_def RETURN_TOKEN_def Let_def)

lemma lex_all_end: "cur lx = NUL \<Longrightarrow> lex_all ss lx = Inr []"
  by (subst lex_all.simps) (simp add: SQLexer_Lex_def lex_loop.simps)

lemma FF_char: "char_of (255 :: int) = FF"
proof -
  have "(of_char FF :: int) = 255" by simp
  then show ?thesis by (metis char_of_char)
qed

lemma NEXT_zeros: "lx_input lx = replicate n 0 \<Longrightarrow> \<exists>x. NEXT lx = Inr x \<and> cur x = NUL"
  by (cases n) (simp_all add: NEXT_def SQLexer_Next_def)

lemma lex_all_zeros:
  assumes "cur lx = FF" and "lx_input lx = replicate n 0"
  shows "\<exists>ts. lex_all ss lx = Inr ts \<and> lexemes ts = [Plain 255]"
proof -
  obtain x where "NEXT (lx\<lparr>lx_lasttokenline := lx_currentline lx\<rparr>) = Inr x" "cur x = NUL"
    using NEXT_zeros [of "lx\<lparr>lx_lasttokenline := lx_currentline lx\<rparr>" n] assms(2) by auto
  then show ?thesis using lex_all_FF [OF assms(1), of ss] lex_all_end by (simp add: Let_def lexeme_of_def)
qed

lemma lex_all_ones:
  assumes "cur lx = FF" and "lx_input lx = replicate n (- 1)"
  shows "\<exists>ts. lex_all ss lx = Inr ts \<and> lexemes ts = replicate (Suc n) (Plain 255)"
  using assms
proof (induction n arbitrary: lx)
  case 0
  then show ?case using lex_all_zeros [of lx 0 ss] by simp
next
  case (Suc n)
  let ?lx = "lx\<lparr>lx_lasttokenline := lx_currentline lx\<rparr>"
  obtain x where x: "NEXT ?lx = Inr x" "cur x = FF" "lx_input x = replicate n (- 1)"
    using Suc.prems(2) FF_char by (simp add: NEXT_def SQLexer_Next_def)
  let ?x = "x\<lparr>lx_prevtoken := lx_curtoken x, lx_curtoken := 255\<rparr>"
  have "cur ?x = FF" "lx_input ?x = replicate n (- 1)" using x by simp_all
  from Suc.IH [OF this] obtain ts where "lex_all ss ?x = Inr ts" "lexemes ts = replicate (Suc n) (Plain 255)" by blast
  then show ?case using lex_all_FF [OF Suc.prems(1), of ss] x(1) by (simp add: Let_def lexeme_of_def)
qed

section \<open>Properties\<close>

text \<open>
  C33. The compiler never sees a script: whatever the file held, however many characters are read, its lexer, in a machine with whatever strings,
  makes them into the single token 255, which is no token of the language, and the end; or, where the file could not be made, into as many tokens
  255 as it has read characters.
\<close>

theorem script_tokens:
  assumes "fs_wf s" and "basedir_string mem cs s = Inr base" and "\<not> is_package_path filename"
    and "strings_step\<^sup>*\<^sup>* SQStringTable_new (sh_strings ss)"
  shows "\<exists>a s' f st ss' lx ts. Filesystem_Open mem cs filename FILE_TEXT s = Inr (Some a, s') \<and> fs_files s' a = Some f \<and>
    fs_streams s' (ff_stream f) = Some st \<and> SQLexer_Init ss (script_chars (Suc n) (fs_disk s') st) lx0 = Inr (ss', lx) \<and> lex_all ss' lx = Inr ts \<and>
    lexemes ts = (if creatable (fs_disk s) (take (MAX_PATH - 1) (base @ filename)) then [Plain 255] else replicate (Suc n) (Plain 255))"
proof -
  define p where "p = take (MAX_PATH - 1) (base @ filename)"
  let ?a = "fs_fresh s" and ?ok = "creatable (fs_disk s) p"
  let ?d = "if ?ok then store (fs_disk s) p [] else fs_disk s"
  let ?st = "if ?ok then opened_stream p else stream0\<lparr>st_fail := True\<rparr>"
  let ?s = "s\<lparr>fs_disk := ?d, fs_fresh := ?a + 2, fs_streams := (fs_streams s)(?a \<mapsto> ?st),
    fs_files := (fs_files s)(?a + 1 \<mapsto> \<lparr>ff_stream = ?a, ff_path = p, ff_open = True\<rparr>)\<rparr>"
  have open_it: "Filesystem_Open mem cs filename FILE_TEXT s = Inr (Some (?a + 1), ?s)"
    using Filesystem_Open_file [OF assms(2,3)] by (simp add: Let_def p_def)
  have chars: "script_chars (Suc n) ?d ?st = - 1 # (if ?ok then replicate n 0 else replicate n (- 1))"
  proof (cases ?ok)
    case True
    then have "file_bytes ?d (st_path ?st) = []" "st_good ?st" "st_in ?st" by (simp_all add: opened_stream_def file_bytes_def store_def st_good_def)
    from chars_empty [OF this] True show ?thesis by simp
  next
    case False
    then have "st_fail ?st" "\<not> st_eof ?st" by (simp_all add: stream0_def)
    from chars_unopened [OF this, of "Suc n"] False show ?thesis by simp
  qed
  note wf = strs.inv_reachable [OF refl assms(4)]
  obtain ss1 t where 1: "fold_res add_keyword keyword_list (ss, SQTable_Create 37) = Inr (ss1, t)" using keywords_added [OF wf] by blast
  obtain lx where lx: "SQLexer_Init ss (script_chars (Suc n) ?d ?st) lx0 = Inr (ss1, lx)" "cur lx = FF"
    "lx_input lx = (if ?ok then replicate n 0 else replicate n (- 1))"
    unfolding chars using 1 FF_char by (simp add: SQLexer_Init_def SQLexer_Next_def)
  obtain ts where "lex_all ss1 lx = Inr ts" "lexemes ts = (if ?ok then [Plain 255] else replicate (Suc n) (Plain 255))"
    using lex_all_zeros [OF lx(2), of n ss1] lex_all_ones [OF lx(2), of n ss1] lx(3) by (cases ?ok) auto
  then show ?thesis using lx(1) open_it unfolding p_def [symmetric] by (intro exI [of _ "?a + 1"] exI [of _ ?s]) auto
qed

text \<open>A file of three characters.\<close>

theorem script_tokens_witness:
  "files (fs_disk one_file) ''./a.cfg'' = Some [115, 101, 116] \<and>
    (\<exists>a s' f st ss' lx ts. Filesystem_Open [] (one_cvar ''fsBasedir'' ''./'') ''a.cfg'' FILE_TEXT one_file = Inr (Some a, s') \<and> fs_files s' a = Some f \<and>
      fs_streams s' (ff_stream f) = Some st \<and> SQLexer_Init new_shared (script_chars 3 (fs_disk s') st) new_lexer = Inr (ss', lx) \<and> lex_all ss' lx = Inr ts \<and>
      lexemes ts = [Plain 255])"
proof -
  have "fs_wf one_file" by (simp add: one_file_def)
  moreover have "take (MAX_PATH - 1) (''./'' @ ''a.cfg'') = ''./a.cfg''" by (simp add: MAX_PATH_def)
  moreover have "creatable (fs_disk one_file) ''./a.cfg''" "files (fs_disk one_file) ''./a.cfg'' = Some [115, 101, 116]"
    by (simp_all add: one_file_def fs0_def)
  moreover have "strings_step\<^sup>*\<^sup>* SQStringTable_new (sh_strings new_shared)" by (simp add: new_shared_def)
  ultimately show ?thesis
    using script_tokens [OF _ basedir_one_file not_package_a_cfg, of new_shared "[]" 2 new_lexer] by (simp add: numeral_3_eq_3 numeral_2_eq_2)
qed

end
