(* ===== verification/Capy_SQRefs.thy ===== *)
theory Capy_SQRefs
  imports Capy_SQOps
begin

text \<open>
  The table of references that the program holds to objects of the script language (\<open>RefTable\<close> in \<open>squirrel/sqstate.h\<close> and
  \<open>squirrel/sqstate.cpp\<close>, and the functions of \<open>squirrel/sqapi.cpp\<close> that lead to it): an array of counted nodes, in lists by the hash of
  their objects and in a list of free nodes. The lemmas show that it counts, whatever is referred to and released, resizes included.
\<close>

section \<open>The table\<close>

record ref_node =
  r_obj :: sq_object
  r_refs :: u64
  r_next :: "nat option"

text \<open>Pointers to nodes are indices into the array, which has as many as there are buckets.\<close>

record ref_table =
  rt_slotused :: nat
  rt_nodes :: "ref_node list"
  rt_freelist :: "nat option"
  rt_buckets :: "nat option list"

definition list_heap :: "'a list \<Rightarrow> 'a heap" where
  "list_heap xs i = (if i < length xs then Some (xs ! i) else None)"

definition RefTable_AllocNodes :: "nat \<Rightarrow> ref_table" where
  "RefTable_AllocNodes n =
     \<lparr>rt_slotused = 0, rt_nodes = map (\<lambda>i. \<lparr>r_obj = OT_NULL, r_refs = 0, r_next = (if i < n - 1 then Some (i + 1) else None)\<rparr>) [0..<n],
      rt_freelist = Some 0, rt_buckets = replicate n None\<rparr>"

definition RefTable_new :: ref_table where
  "RefTable_new = RefTable_AllocNodes 4"

definition mainpos :: "sq_heap \<Rightarrow> sq_object \<Rightarrow> ref_table \<Rightarrow> nat res" where
  "mainpos H obj t = map_res (\<lambda>h. slot_of h (length (rt_buckets t))) (HashObj H obj)"

text \<open>The assertion comes after the writes, but nothing is done after it.\<close>

definition RefTable_Add :: "nat \<Rightarrow> sq_object \<Rightarrow> ref_table \<Rightarrow> (nat \<times> ref_table) res" where
  "RefTable_Add m obj t =
     (case rt_freelist t of
        None \<Rightarrow> Inl NullDeref
      | Some f \<Rightarrow> (case list_heap (rt_nodes t) f of
          None \<Rightarrow> Inl OutOfBoundsWrite
        | Some n \<Rightarrow>
            if r_refs n \<noteq> 0 then Inl AssertFailed
            else Inr (f, t\<lparr>rt_nodes := (rt_nodes t)[f := n\<lparr>r_obj := obj, r_next := rt_buckets t ! m\<rparr>], rt_buckets := (rt_buckets t)[m := Some f],
              rt_freelist := r_next n, rt_slotused := rt_slotused t + 1\<rparr>)))"

definition set_refs :: "nat \<Rightarrow> u64 \<Rightarrow> ref_table \<Rightarrow> ref_table" where
  "set_refs a r t = t\<lparr>rt_nodes := (rt_nodes t)[a := (rt_nodes t ! a)\<lparr>r_refs := r\<rparr>]\<rparr>"

definition RefTable_Resize :: "sq_heap \<Rightarrow> nat \<Rightarrow> ref_table \<Rightarrow> ref_table res" where
  "RefTable_Resize H n t =
     bind_res (fold_res (\<lambda>i (t', nfound).
         let nd = rt_nodes t ! i in
         if r_obj nd \<noteq> OT_NULL then
           if r_refs nd = 0 then Inl AssertFailed
           else bind_res (mainpos H (r_obj nd) t') (\<lambda>m. bind_res (RefTable_Add m (r_obj nd) t') (\<lambda>(nn, t'). Inr (set_refs nn (r_refs nd) t', nfound + 1)))
         else Inr (t', nfound))
       [0..<length (rt_nodes t)] (RefTable_AllocNodes n, 0))
     (\<lambda>(t', nfound). if nfound \<noteq> length (rt_nodes t) then Inl AssertFailed else Inr t')"

text \<open>The search of \<open>Get\<close>: the node of an object, and the one before it.\<close>

partial_function (option) find_ref :: "sq_object \<Rightarrow> ref_node heap \<Rightarrow> nat option \<Rightarrow> nat option \<Rightarrow> (nat option \<times> nat option) res option" where
  "find_ref obj h ref prev =
     (case ref of None \<Rightarrow> Some (Inr (prev, None))
      | Some a \<Rightarrow> (case h a of None \<Rightarrow> Some (Inl OutOfBoundsRead)
                  | Some n \<Rightarrow> if r_obj n = obj then Some (Inr (prev, Some a)) else find_ref obj h (r_next n) (Some a)))"

definition RefTable_Get :: "sq_heap \<Rightarrow> sq_object \<Rightarrow> bool \<Rightarrow> ref_table \<Rightarrow> (nat \<times> nat option \<times> nat option \<times> ref_table) res" where
  "RefTable_Get H obj add t =
     bind_res (mainpos H obj t) (\<lambda>m. bind_res (run_loop (find_ref obj (list_heap (rt_nodes t)) (rt_buckets t ! m) None)) (\<lambda>(prev, ref).
       if ref = None \<and> add then
         bind_res
           (if length (rt_nodes t) = rt_slotused t then
              if rt_freelist t \<noteq> None then Inl AssertFailed
              else bind_res (RefTable_Resize H (length (rt_nodes t) * 2) t) (\<lambda>t. map_res (\<lambda>m. (m, t)) (mainpos H obj t))
            else Inr (m, t))
           (\<lambda>(m, t). bind_res (RefTable_Add m obj t) (\<lambda>(a, t). Inr (m, prev, Some a, t)))
       else Inr (m, prev, ref, t)))"

definition RefTable_AddRef :: "sq_heap \<Rightarrow> sq_object \<Rightarrow> ref_table \<Rightarrow> ref_table res" where
  "RefTable_AddRef H obj t =
     bind_res (RefTable_Get H obj True t) (\<lambda>(m, prev, ref, t).
       case ref of None \<Rightarrow> Inl NullDeref | Some a \<Rightarrow> Inr (set_refs a (r_refs (rt_nodes t ! a) + 1) t))"

definition RefTable_GetRefCount :: "sq_heap \<Rightarrow> sq_object \<Rightarrow> ref_table \<Rightarrow> u64 res" where
  "RefTable_GetRefCount H obj t =
     bind_res (RefTable_Get H obj False t) (\<lambda>(m, prev, ref, t). case ref of None \<Rightarrow> Inr 0 | Some a \<Rightarrow> Inr (r_refs (rt_nodes t ! a)))"

definition RefTable_Release :: "sq_heap \<Rightarrow> sq_object \<Rightarrow> ref_table \<Rightarrow> (bool \<times> ref_table) res" where
  "RefTable_Release H obj t =
     bind_res (RefTable_Get H obj False t) (\<lambda>(m, prev, ref, t).
       case ref of
         None \<Rightarrow> Inl AssertFailed
       | Some a \<Rightarrow>
           let t = set_refs a (r_refs (rt_nodes t ! a) - 1) t; n = rt_nodes t ! a in
           if r_refs n = 0 then
             let t = (case prev of
                        Some p \<Rightarrow> t\<lparr>rt_nodes := (rt_nodes t)[p := (rt_nodes t ! p)\<lparr>r_next := r_next n\<rparr>]\<rparr>
                      | None \<Rightarrow> t\<lparr>rt_buckets := (rt_buckets t)[m := r_next n]\<rparr>)
             in Inr (True, t\<lparr>rt_nodes := (rt_nodes t)[a := (rt_nodes t ! a)\<lparr>r_next := rt_freelist t, r_obj := OT_NULL\<rparr>], rt_freelist := Some a,
               rt_slotused := rt_slotused t - 1\<rparr>)
           else Inr (False, t))"

definition RefTable_Finalize :: "ref_table \<Rightarrow> ref_table" where
  "RefTable_Finalize t = t\<lparr>rt_nodes := map (\<lambda>n. n\<lparr>r_obj := OT_NULL\<rparr>) (rt_nodes t)\<rparr>"

text \<open>Numbers, booleans, null and the pointers of the program's own are not counted.\<close>

definition ISREFCOUNTED :: "sq_object \<Rightarrow> bool" where
  "ISREFCOUNTED x = (case x of OT_NULL \<Rightarrow> False | OT_INTEGER i \<Rightarrow> False | OT_FLOAT w \<Rightarrow> False | OT_BOOL b \<Rightarrow> False | OT_USERPOINTER p \<Rightarrow> False | _ \<Rightarrow> True)"

definition sq_addref :: "sq_heap \<Rightarrow> sq_object \<Rightarrow> ref_table \<Rightarrow> ref_table res" where
  "sq_addref H po t = (if \<not> ISREFCOUNTED po then Inr t else RefTable_AddRef H po t)"

definition sq_getrefcount :: "sq_heap \<Rightarrow> sq_object \<Rightarrow> ref_table \<Rightarrow> u64 res" where
  "sq_getrefcount H po t = (if \<not> ISREFCOUNTED po then Inr 0 else RefTable_GetRefCount H po t)"

definition sq_release :: "sq_heap \<Rightarrow> sq_object \<Rightarrow> ref_table \<Rightarrow> (bool \<times> ref_table) res" where
  "sq_release H po t = (if \<not> ISREFCOUNTED po then Inr (True, t) else RefTable_Release H po t)"

section \<open>Well-formed tables\<close>

abbreviation obj_at :: "ref_table \<Rightarrow> nat \<Rightarrow> sq_object" where "obj_at t i \<equiv> r_obj (rt_nodes t ! i)"
abbreviation refs_at :: "ref_table \<Rightarrow> nat \<Rightarrow> u64" where "refs_at t i \<equiv> r_refs (rt_nodes t ! i)"
abbreviation rt_size :: "ref_table \<Rightarrow> nat" where "rt_size t \<equiv> length (rt_nodes t)"
abbreviation rt_heap :: "ref_table \<Rightarrow> ref_node heap" where "rt_heap t \<equiv> list_heap (rt_nodes t)"

definition in_bucket :: "sq_heap \<Rightarrow> ref_table \<Rightarrow> nat \<Rightarrow> nat set" where
  "in_bucket H t i = {j. j < rt_size t \<and> obj_at t j \<noteq> OT_NULL \<and> main_of H (rt_size t) (obj_at t j) = i}"

definition free_nodes :: "ref_table \<Rightarrow> nat set" where
  "free_nodes t = {j. j < rt_size t \<and> obj_at t j = OT_NULL}"

definition used_nodes :: "ref_table \<Rightarrow> nat set" where
  "used_nodes t = {j. j < rt_size t \<and> obj_at t j \<noteq> OT_NULL}"

definition rt_wf :: "sq_heap \<Rightarrow> ref_table \<Rightarrow> bool" where
  "rt_wf H t =
     ((\<exists>k. rt_size t = 2 ^ k) \<and> length (rt_buckets t) = rt_size t \<and>
      (\<forall>i<rt_size t. \<exists>as. chain r_next (rt_heap t) (rt_buckets t ! i) as \<and> set as = in_bucket H t i) \<and>
      (\<exists>fs. chain r_next (rt_heap t) (rt_freelist t) fs \<and> set fs = free_nodes t) \<and>
      (\<forall>i<rt_size t. \<forall>j<rt_size t. obj_at t i = obj_at t j \<and> obj_at t i \<noteq> OT_NULL \<longrightarrow> i = j) \<and>
      (\<forall>i<rt_size t. refs_at t i = 0 \<longleftrightarrow> obj_at t i = OT_NULL) \<and>
      (\<forall>i<rt_size t. hashable H (obj_at t i)) \<and>
      rt_slotused t = card (used_nodes t))"

text \<open>The count of an object.\<close>

definition count_of :: "ref_table \<Rightarrow> sq_object \<Rightarrow> u64" where
  "count_of t x = (if x = OT_NULL then 0 else case find (\<lambda>n. r_obj n = x) (rt_nodes t) of None \<Rightarrow> 0 | Some n \<Rightarrow> r_refs n)"

lemma list_heap_upd [simp]: "i < length xs \<Longrightarrow> list_heap (xs[i := x]) = (list_heap xs)(i \<mapsto> x)"
  by (auto simp: list_heap_def fun_eq_iff)

lemma list_heap_Some [simp]: "list_heap xs i = Some x \<longleftrightarrow> i < length xs \<and> xs ! i = x"
  by (simp add: list_heap_def)

lemma used_free: "i < rt_size t \<Longrightarrow> i \<in> used_nodes t \<longleftrightarrow> i \<notin> free_nodes t"
  by (auto simp: used_nodes_def free_nodes_def)

lemma finite_used [simp]: "finite (used_nodes t)"
  by (rule finite_subset [of _ "{..<rt_size t}"]) (auto simp: used_nodes_def)

lemma count_at:
  assumes "rt_wf H t" and "i < rt_size t" and "obj_at t i \<noteq> OT_NULL"
  shows "count_of t (obj_at t i) = refs_at t i"
proof -
  obtain n where n: "find (\<lambda>n. r_obj n = obj_at t i) (rt_nodes t) = Some n"
    using assms(2) by (cases "find (\<lambda>n. r_obj n = obj_at t i) (rt_nodes t)") (auto simp: find_None_iff in_set_conv_nth)
  then obtain j where "j < rt_size t" "rt_nodes t ! j = n" "r_obj n = obj_at t i" by (auto simp: find_Some_iff)
  moreover from this have "j = i" using assms unfolding rt_wf_def by metis
  ultimately show ?thesis using n assms(3) by (simp add: count_of_def)
qed

lemma count_none: "\<forall>i<rt_size t. obj_at t i \<noteq> x \<Longrightarrow> count_of t x = 0"
proof -
  assume "\<forall>i<rt_size t. obj_at t i \<noteq> x"
  then have "find (\<lambda>n. r_obj n = x) (rt_nodes t) = None" by (auto simp: find_None_iff in_set_conv_nth)
  then show ?thesis by (simp add: count_of_def)
qed

lemma count_NULL [simp]: "count_of t OT_NULL = 0"
  by (simp add: count_of_def)

lemma count_zero: "rt_wf H t \<Longrightarrow> count_of t x = 0 \<longleftrightarrow> x = OT_NULL \<or> (\<forall>i<rt_size t. obj_at t i \<noteq> x)"
proof
  assume wf: "rt_wf H t" and zero: "count_of t x = 0"
  show "x = OT_NULL \<or> (\<forall>i<rt_size t. obj_at t i \<noteq> x)"
  proof (rule ccontr)
    assume "\<not> (x = OT_NULL \<or> (\<forall>i<rt_size t. obj_at t i \<noteq> x))"
    then obtain i where "i < rt_size t" "obj_at t i = x" "x \<noteq> OT_NULL" by blast
    then show False using count_at [OF wf, of i] zero wf by (auto simp: rt_wf_def)
  qed
qed (auto intro: count_none)

lemma count_eqI:
  assumes "rt_wf H t" and "\<And>i. i < rt_size t \<Longrightarrow> obj_at t i \<noteq> OT_NULL \<Longrightarrow> f (obj_at t i) = refs_at t i"
    and "\<And>x. x = OT_NULL \<or> (\<forall>i<rt_size t. obj_at t i \<noteq> x) \<Longrightarrow> f x = 0"
  shows "count_of t = f"
proof
  fix x
  show "count_of t x = f x"
  proof (cases "x = OT_NULL \<or> (\<forall>i<rt_size t. obj_at t i \<noteq> x)")
    case True
    then show ?thesis using assms(3) count_zero [OF assms(1)] by simp
  next
    case False
    then obtain i where "i < rt_size t" "obj_at t i = x" "x \<noteq> OT_NULL" by blast
    then show ?thesis using count_at [OF assms(1), of i] assms(2) [of i] by simp
  qed
qed

lemma mainpos_wf: "rt_wf H t \<Longrightarrow> hashable H x \<Longrightarrow> mainpos H x t = Inr (main_of H (rt_size t) x)"
  by (cases "HashObj H x") (auto simp: mainpos_def main_of_def rt_wf_def hashable_def)

lemma main_in_range: "rt_wf H t \<Longrightarrow> main_of H (rt_size t) x < rt_size t"
  using main_of_less by (auto simp: rt_wf_def)

section \<open>Looking an object up\<close>

lemma find_ref_found:
  "chain r_next h p (us @ a # vs) \<Longrightarrow> r_obj (the (h a)) = x \<Longrightarrow> \<forall>u\<in>set us. r_obj (the (h u)) \<noteq> x \<Longrightarrow>
    run_loop (find_ref x h p prev) = Inr (if us = [] then prev else Some (last us), Some a)"
proof (induction us arbitrary: p prev)
  case Nil
  then show ?case by (subst find_ref.simps) auto
next
  case (Cons u us)
  then obtain n where "p = Some u" "h u = Some n" "chain r_next h (r_next n) (us @ a # vs)" by auto
  then show ?case using Cons.IH [of "r_next n" "Some u"] Cons.prems(2,3) by (subst find_ref.simps) auto
qed

lemma find_ref_none: "chain r_next h p as \<Longrightarrow> \<forall>u\<in>set as. r_obj (the (h u)) \<noteq> x \<Longrightarrow> \<exists>pr. run_loop (find_ref x h p prev) = Inr (pr, None)"
proof (induction as arbitrary: p prev)
  case Nil
  then show ?case by (subst find_ref.simps) auto
next
  case (Cons u us)
  then obtain n where "p = Some u" "h u = Some n" "chain r_next h (r_next n) us" by auto
  then show ?case using Cons.IH [of "r_next n" "Some u"] Cons.prems(2) by (subst find_ref.simps) auto
qed

lemma Get_old:
  assumes "rt_wf H t" and "j < rt_size t" and "obj_at t j = x" and "x \<noteq> OT_NULL"
  shows "\<exists>us vs. RefTable_Get H x add t = Inr (main_of H (rt_size t) x, if us = [] then None else Some (last us), Some j, t) \<and>
    chain r_next (rt_heap t) (rt_buckets t ! main_of H (rt_size t) x) (us @ j # vs) \<and> set (us @ j # vs) = in_bucket H t (main_of H (rt_size t) x)"
proof -
  let ?m = "main_of H (rt_size t) x"
  have hash: "hashable H x" using assms(1-3) by (auto simp: rt_wf_def)
  obtain as where as: "chain r_next (rt_heap t) (rt_buckets t ! ?m) as" "set as = in_bucket H t ?m"
    using assms(1) main_in_range [OF assms(1)] unfolding rt_wf_def by metis
  have "j \<in> set as" using as(2) assms(2-4) by (simp add: in_bucket_def)
  then obtain us vs where us: "as = us @ j # vs" by (auto simp: in_set_conv_decomp)
  have "r_obj (the (rt_heap t u)) \<noteq> x" if "u \<in> set us" for u
  proof -
    have "u \<noteq> j" using chain_distinct [OF as(1)] us that by auto
    moreover have "u < rt_size t" using as(2) us that by (auto simp: in_bucket_def)
    ultimately show ?thesis using assms unfolding rt_wf_def by (auto simp: list_heap_def)
  qed
  moreover have "r_obj (the (rt_heap t j)) = x" using assms(2,3) by (simp add: list_heap_def)
  ultimately have "run_loop (find_ref x (rt_heap t) (rt_buckets t ! ?m) None) = Inr (if us = [] then None else Some (last us), Some j)"
    using find_ref_found [of "rt_heap t" _ us j vs x None] as(1) us by simp
  then show ?thesis using as us mainpos_wf [OF assms(1) hash] by (auto simp: RefTable_Get_def)
qed

lemma find_ref_absent:
  assumes "rt_wf H t" and "\<forall>i<rt_size t. obj_at t i \<noteq> x"
  shows "\<exists>pr. run_loop (find_ref x (rt_heap t) (rt_buckets t ! main_of H (rt_size t) x) None) = Inr (pr, None)"
proof -
  obtain as where as: "chain r_next (rt_heap t) (rt_buckets t ! main_of H (rt_size t) x) as" "set as = in_bucket H t (main_of H (rt_size t) x)"
    using assms(1) main_in_range [OF assms(1)] unfolding rt_wf_def by metis
  have "\<forall>u\<in>set as. r_obj (the (rt_heap t u)) \<noteq> x" using as(2) assms(2) by (auto simp: in_bucket_def list_heap_def)
  then show ?thesis using find_ref_none [OF as(1)] by blast
qed

lemma GetRefCount_count:
  assumes "rt_wf H t" and "hashable H x" and "x \<noteq> OT_NULL"
  shows "RefTable_GetRefCount H x t = Inr (count_of t x)"
proof (cases "\<forall>i<rt_size t. obj_at t i \<noteq> x")
  case True
  obtain pr where "run_loop (find_ref x (rt_heap t) (rt_buckets t ! main_of H (rt_size t) x) None) = Inr (pr, None)"
    using find_ref_absent [OF assms(1) True] by blast
  then show ?thesis using mainpos_wf [OF assms(1,2)] count_none [OF True] by (simp add: RefTable_GetRefCount_def RefTable_Get_def)
next
  case False
  then obtain j where j: "j < rt_size t" "obj_at t j = x" by blast
  show ?thesis using Get_old [OF assms(1) j assms(3), of False] count_at [OF assms(1) j(1)] j(2) assms(3) by (auto simp: RefTable_GetRefCount_def)
qed

section \<open>Changing counts\<close>

lemma set_refs_simps [simp]:
  "rt_size (set_refs a r t) = rt_size t" "rt_buckets (set_refs a r t) = rt_buckets t" "rt_freelist (set_refs a r t) = rt_freelist t"
  "rt_slotused (set_refs a r t) = rt_slotused t"
  by (simp_all add: set_refs_def)

lemma set_refs_nth: "i < rt_size t \<Longrightarrow> rt_nodes (set_refs a r t) ! i = (if i = a then (rt_nodes t ! a)\<lparr>r_refs := r\<rparr> else rt_nodes t ! i)"
  by (simp add: set_refs_def nth_list_update)

lemma set_refs_obj [simp]: "i < rt_size t \<Longrightarrow> obj_at (set_refs a r t) i = obj_at t i"
  by (simp add: set_refs_nth)

lemma set_refs_sets [simp]: "in_bucket H (set_refs a r t) = in_bucket H t" "free_nodes (set_refs a r t) = free_nodes t" "used_nodes (set_refs a r t) = used_nodes t"
  by (auto simp: in_bucket_def free_nodes_def used_nodes_def fun_eq_iff)

lemma set_refs_chain: "a < rt_size t \<Longrightarrow> chain r_next (rt_heap (set_refs a r t)) p as = chain r_next (rt_heap t) p as"
  unfolding set_refs_def by simp (rule chain_upd_same, simp_all)

lemma set_refs_wf:
  assumes "rt_wf H t" and "a < rt_size t" and "obj_at t a \<noteq> OT_NULL" and "r \<noteq> 0"
  shows "rt_wf H (set_refs a r t)" and "count_of (set_refs a r t) = (count_of t)(obj_at t a := r)"
proof -
  show wf: "rt_wf H (set_refs a r t)"
  proof -
    have "refs_at (set_refs a r t) i = 0 \<longleftrightarrow> obj_at t i = OT_NULL" if "i < rt_size t" for i
      using assms that unfolding rt_wf_def by (cases "i = a") (simp_all add: set_refs_nth)
    then show ?thesis using assms(1) unfolding rt_wf_def set_refs_chain [OF assms(2)] by simp blast
  qed
  show "count_of (set_refs a r t) = (count_of t)(obj_at t a := r)"
  proof (rule count_eqI [OF wf])
    fix i assume i: "i < rt_size (set_refs a r t)" "obj_at (set_refs a r t) i \<noteq> OT_NULL"
    then have "obj_at t i = obj_at t a \<longleftrightarrow> i = a" using assms(1-3) unfolding rt_wf_def by auto
    then show "((count_of t)(obj_at t a := r)) (obj_at (set_refs a r t) i) = refs_at (set_refs a r t) i"
      using i count_at [OF assms(1), of i] assms(2) by (cases "i = a") (simp_all add: set_refs_nth)
  next
    fix x assume "x = OT_NULL \<or> (\<forall>i<rt_size (set_refs a r t). obj_at (set_refs a r t) i \<noteq> x)"
    then show "((count_of t)(obj_at t a := r)) x = 0" using assms(2,3) count_none [of t x] by auto
  qed
qed

section \<open>Entering an object\<close>

lemma Add_enters:
  assumes "rt_wf H t" and "x \<noteq> OT_NULL" and "hashable H x" and "\<forall>i<rt_size t. obj_at t i \<noteq> x" and "free_nodes t \<noteq> {}" and "r \<noteq> 0"
  shows "\<exists>a t'. RefTable_Add (main_of H (rt_size t) x) x t = Inr (a, t') \<and> a < rt_size t \<and> refs_at t' a = 0 \<and> rt_wf H (set_refs a r t') \<and>
    count_of (set_refs a r t') = (count_of t)(x := r) \<and> rt_size t' = rt_size t \<and> rt_slotused t' = rt_slotused t + 1"
proof -
  let ?m = "main_of H (rt_size t) x" and ?n = "rt_size t"
  obtain fs0 where fs0: "chain r_next (rt_heap t) (rt_freelist t) fs0" "set fs0 = free_nodes t" using assms(1) unfolding rt_wf_def by metis
  then obtain f fs where f: "fs0 = f # fs" using assms(5) by (cases fs0) auto
  let ?nd = "rt_nodes t ! f"
  have fl: "rt_freelist t = Some f" "f < ?n" "chain r_next (rt_heap t) (r_next ?nd) fs" "f \<notin> set fs"
    using fs0(1) f chain_distinct [OF fs0(1)] by auto
  have null: "r_obj ?nd = OT_NULL" using fs0(2) f by (auto simp: free_nodes_def)
  then have zero: "r_refs ?nd = 0" using assms(1) fl(2) unfolding rt_wf_def by blast
  define t' where "t' = t\<lparr>rt_nodes := (rt_nodes t)[f := ?nd\<lparr>r_obj := x, r_next := rt_buckets t ! ?m\<rparr>], rt_buckets := (rt_buckets t)[?m := Some f],
    rt_freelist := r_next ?nd, rt_slotused := rt_slotused t + 1\<rparr>"
  have run: "RefTable_Add ?m x t = Inr (f, t')" using fl(1,2) zero by (simp add: RefTable_Add_def t'_def list_heap_def)
  define u where "u = set_refs f r t'"
  have len: "rt_size u = ?n" "length (rt_buckets u) = ?n" using assms(1) by (simp_all add: u_def t'_def rt_wf_def)
  have nth: "rt_nodes u ! i = (if i = f then \<lparr>r_obj = x, r_refs = r, r_next = rt_buckets t ! ?m\<rparr> else rt_nodes t ! i)" if "i < ?n" for i
    using that by (simp add: u_def t'_def set_refs_def nth_list_update)
  have heap: "rt_heap u = (rt_heap t)(f \<mapsto> \<lparr>r_obj = x, r_refs = r, r_next = rt_buckets t ! ?m\<rparr>)"
    using nth len fl(2) by (auto simp: list_heap_def fun_eq_iff)
  have used: "used_nodes u = insert f (used_nodes t)" "f \<notin> used_nodes t" using nth len null fl(2) assms(2) by (auto simp: used_nodes_def split: if_splits)
  have free: "free_nodes u = free_nodes t - {f}" using nth len assms(2) by (auto simp: free_nodes_def split: if_splits)
  have m: "?m < ?n" using main_in_range [OF assms(1)] .
  have buckets: "\<exists>as. chain r_next (rt_heap u) (rt_buckets u ! i) as \<and> set as = in_bucket H u i" if i: "i < ?n" for i
  proof -
    obtain as where as: "chain r_next (rt_heap t) (rt_buckets t ! i) as" "set as = in_bucket H t i" using assms(1) i unfolding rt_wf_def by metis
    have "f \<notin> set as" using as(2) null by (simp add: in_bucket_def)
    then have old: "chain r_next (rt_heap u) (rt_buckets t ! i) as" using as(1) heap by simp
    show ?thesis
    proof (cases "i = ?m")
      case True
      have "rt_buckets u ! i = Some f" using True m assms(1) by (simp add: u_def t'_def rt_wf_def)
      then have "chain r_next (rt_heap u) (rt_buckets u ! i) (f # as)" using old True by (simp add: heap)
      moreover have "in_bucket H u i = insert f (in_bucket H t i)" using nth len fl(2) True assms(2) null by (auto simp: in_bucket_def split: if_splits)
      ultimately show ?thesis using as(2) by (intro exI [of _ "f # as"]) simp
    next
      case False
      then have "rt_buckets u ! i = rt_buckets t ! i" by (simp add: u_def t'_def)
      moreover have "in_bucket H u i = in_bucket H t i" using nth len False null by (auto simp: in_bucket_def split: if_splits)
      ultimately show ?thesis using old as(2) by auto
    qed
  qed
  have "rt_freelist u = r_next ?nd" by (simp add: u_def t'_def)
  then have "chain r_next (rt_heap u) (rt_freelist u) fs" using fl(3,4) heap by simp
  moreover have "set fs = free_nodes u" using fs0(2) f fl(4) free by auto
  ultimately have "\<exists>fs. chain r_next (rt_heap u) (rt_freelist u) fs \<and> set fs = free_nodes u" by blast
  moreover have "\<forall>i<?n. \<forall>j<?n. obj_at u i = obj_at u j \<and> obj_at u i \<noteq> OT_NULL \<longrightarrow> i = j"
    using assms(1,4) nth unfolding rt_wf_def by auto
  moreover have "\<forall>i<?n. refs_at u i = 0 \<longleftrightarrow> obj_at u i = OT_NULL" using assms(1,2,6) nth unfolding rt_wf_def by auto
  moreover have "\<forall>i<?n. hashable H (obj_at u i)" using assms(1,3) nth unfolding rt_wf_def by auto
  moreover have "rt_slotused u = card (used_nodes u)" using assms(1) used by (simp add: u_def t'_def rt_wf_def)
  ultimately have wf: "rt_wf H u" using buckets len assms(1) unfolding rt_wf_def by simp
  have "count_of u = (count_of t)(x := r)"
  proof (rule count_eqI [OF wf])
    fix i assume "i < rt_size u" "obj_at u i \<noteq> OT_NULL"
    then show "((count_of t)(x := r)) (obj_at u i) = refs_at u i" using nth len assms(4) count_at [OF assms(1), of i] by auto
  next
    fix y assume y: "y = OT_NULL \<or> (\<forall>i<rt_size u. obj_at u i \<noteq> y)"
    have "y = OT_NULL \<or> (y \<noteq> x \<and> (\<forall>i<?n. obj_at t i \<noteq> y))"
    proof (cases "y = OT_NULL")
      case False
      then have "obj_at t i \<noteq> y" if "i < ?n" for i using y nth [OF that] len that null by (cases "i = f") auto
      then show ?thesis using y nth [OF fl(2)] len fl(2) by auto
    qed simp
    then show "((count_of t)(x := r)) y = 0" using count_none [of t y] assms(2) by auto
  qed
  then show ?thesis using run fl(2) wf zero by (intro exI [of _ f] exI [of _ t']) (auto simp: u_def t'_def)
qed

section \<open>Resizing\<close>

lemma AllocNodes_chain: "i < n \<Longrightarrow> chain r_next (rt_heap (RefTable_AllocNodes n)) (Some i) [i..<n]"
proof (induction "n - i" arbitrary: i)
  case (Suc d)
  let ?nd = "\<lparr>r_obj = OT_NULL, r_refs = 0, r_next = (if i < n - 1 then Some (i + 1) else None)\<rparr>"
  have nd: "rt_heap (RefTable_AllocNodes n) i = Some ?nd" using Suc.prems by (simp add: RefTable_AllocNodes_def)
  have upt: "[i..<n] = i # [Suc i..<n]" using Suc.prems by (simp add: upt_conv_Cons)
  show ?case
  proof (cases "Suc i < n")
    case True
    then have "chain r_next (rt_heap (RefTable_AllocNodes n)) (Some (Suc i)) [Suc i..<n]" using Suc by simp
    then show ?thesis using nd True unfolding upt by simp
  next
    case False
    then have "[Suc i..<n] = []" by simp
    then show ?thesis using nd False Suc.prems unfolding upt by simp
  qed
qed simp

lemma AllocNodes_simps [simp]:
  "rt_size (RefTable_AllocNodes n) = n" "i < n \<Longrightarrow> obj_at (RefTable_AllocNodes n) i = OT_NULL" "i < n \<Longrightarrow> refs_at (RefTable_AllocNodes n) i = 0"
  "rt_slotused (RefTable_AllocNodes n) = 0"
  by (simp_all add: RefTable_AllocNodes_def)

lemma RefTable_AllocNodes_wf:
  assumes "n = 2 ^ k"
  shows "rt_wf H (RefTable_AllocNodes n)" and "count_of (RefTable_AllocNodes n) = (\<lambda>x. 0)"
proof -
  let ?t = "RefTable_AllocNodes n"
  have sets: "in_bucket H ?t i = {}" "free_nodes ?t = {..<n}" "used_nodes ?t = {}" for i
    by (auto simp: in_bucket_def free_nodes_def used_nodes_def)
  have "chain r_next (rt_heap ?t) (rt_freelist ?t) [0..<n]" using AllocNodes_chain [of 0 n] assms by (simp add: RefTable_AllocNodes_def)
  moreover have "set [0..<n] = {..<n}" by auto
  ultimately have "\<exists>fs. chain r_next (rt_heap ?t) (rt_freelist ?t) fs \<and> set fs = free_nodes ?t" unfolding sets by blast
  moreover have "rt_buckets ?t = replicate n None" by (simp add: RefTable_AllocNodes_def)
  moreover have "hashable H OT_NULL" by (simp add: hashable_def HashObj_def)
  ultimately show "rt_wf H ?t" using assms unfolding rt_wf_def sets by simp
  show "count_of ?t = (\<lambda>x. 0)"
  proof
    show "count_of ?t x = 0" for x by (cases "x = OT_NULL") (auto intro: count_none)
  qed
qed

lemma full_nodes:
  assumes "rt_wf H t" and "rt_size t = rt_slotused t"
  shows "i < rt_size t \<Longrightarrow> obj_at t i \<noteq> OT_NULL"
proof -
  have "used_nodes t = {..<rt_size t}"
    using assms by (intro card_subset_eq) (auto simp: rt_wf_def used_nodes_def)
  then show "i < rt_size t \<Longrightarrow> obj_at t i \<noteq> OT_NULL" by (auto simp: used_nodes_def)
qed

lemma has_free:
  assumes "rt_wf H t" and "rt_slotused t \<noteq> rt_size t"
  shows "free_nodes t \<noteq> {}"
proof
  assume "free_nodes t = {}"
  then have "used_nodes t = {..<rt_size t}" by (auto simp: used_nodes_def free_nodes_def)
  then show False using assms by (simp add: rt_wf_def)
qed

lemma RefTable_Resize_all:
  assumes "rt_wf H t" and "rt_size t = rt_slotused t"
  shows "\<exists>t'. RefTable_Resize H (rt_size t * 2) t = Inr t' \<and> rt_wf H t' \<and> count_of t' = count_of t \<and> free_nodes t' \<noteq> {}"
proof -
  let ?n = "rt_size t"
  let ?f = "\<lambda>i (t', nfound).
      let nd = rt_nodes t ! i in
      if r_obj nd \<noteq> OT_NULL then
        if r_refs nd = 0 then Inl AssertFailed
        else bind_res (mainpos H (r_obj nd) t') (\<lambda>m. bind_res (RefTable_Add m (r_obj nd) t') (\<lambda>(nn, t'). Inr (set_refs nn (r_refs nd) t', nfound + 1)))
      else Inr (t', nfound)"
  let ?P = "\<lambda>i (t', nfound). rt_wf H t' \<and> rt_size t' = ?n * 2 \<and> nfound = i \<and> rt_slotused t' = i \<and>
    count_of t' = (\<lambda>x. if \<exists>j<i. obj_at t j = x then count_of t x else 0)"
  obtain k where k: "?n = 2 ^ k" using assms(1) by (auto simp: rt_wf_def)
  then have "?n * 2 = 2 ^ (k + 1)" by simp
  note start = RefTable_AllocNodes_wf [OF this]
  have "\<exists>p. fold_res ?f [0..<?n] (RefTable_AllocNodes (?n * 2), 0) = Inr p \<and> ?P ?n p"
  proof (rule fold_res_upt [of ?P])
    show "?P 0 (RefTable_AllocNodes (?n * 2), 0)" using start by simp
    fix i p assume i: "i < ?n" and P: "?P i p"
    obtain u where p: "p = (u, i)" and u: "rt_wf H u" "rt_size u = ?n * 2" "rt_slotused u = i"
      "count_of u = (\<lambda>x. if \<exists>j<i. obj_at t j = x then count_of t x else 0)" using P by (cases p) auto
    let ?x = "obj_at t i"
    have x: "?x \<noteq> OT_NULL" "hashable H ?x" "refs_at t i \<noteq> 0" using full_nodes [OF assms i] assms(1) i by (auto simp: rt_wf_def)
    have "\<not> (\<exists>j<i. obj_at t j = ?x)" using assms(1) x(1) i unfolding rt_wf_def by (metis less_trans less_irrefl)
    then have "count_of u ?x = 0" using u(4) by auto
    then have absent: "\<forall>j<rt_size u. obj_at u j \<noteq> ?x" using count_zero [OF u(1)] x(1) by simp
    have "free_nodes u \<noteq> {}" using has_free [OF u(1)] u(2,3) i by simp
    from Add_enters [OF u(1) x(1,2) absent this x(3)] obtain a v where v: "RefTable_Add (main_of H (rt_size u) ?x) ?x u = Inr (a, v)"
      "rt_wf H (set_refs a (refs_at t i) v)" "count_of (set_refs a (refs_at t i) v) = (count_of u)(?x := refs_at t i)" "rt_size v = rt_size u"
      "rt_slotused v = rt_slotused u + 1" by blast
    have "?f i p = Inr (set_refs a (refs_at t i) v, i + 1)" using p x mainpos_wf [OF u(1) x(2)] v(1) by (simp add: Let_def)
    moreover have "count_of (set_refs a (refs_at t i) v) = (\<lambda>x. if \<exists>j<Suc i. obj_at t j = x then count_of t x else 0)"
      unfolding v(3) u(4) using count_at [OF assms(1) i x(1)] by (auto simp: fun_eq_iff less_Suc_eq)
    ultimately show "\<exists>p'. ?f i p = Inr p' \<and> ?P (Suc i) p'" using v u by auto
  qed
  then obtain t' where t': "fold_res ?f [0..<?n] (RefTable_AllocNodes (?n * 2), 0) = Inr (t', ?n)" "rt_wf H t'" "rt_size t' = ?n * 2"
    "rt_slotused t' = ?n" "count_of t' = (\<lambda>x. if \<exists>j<?n. obj_at t j = x then count_of t x else 0)" by auto
  have "count_of t' = count_of t" unfolding t'(5) using count_none [of t] by (auto simp: fun_eq_iff)
  moreover have "free_nodes t' \<noteq> {}" using has_free [OF t'(2)] t'(3,4) k by simp
  ultimately show ?thesis using t'(1,2) by (simp add: RefTable_Resize_def)
qed

section \<open>Referring and releasing\<close>

lemma AddRef_counts:
  assumes "rt_wf H t" and "x \<noteq> OT_NULL" and "hashable H x" and "count_of t x + 1 \<noteq> 0"
  shows "\<exists>t'. RefTable_AddRef H x t = Inr t' \<and> rt_wf H t' \<and> count_of t' = (count_of t)(x := count_of t x + 1)"
proof (cases "\<forall>i<rt_size t. obj_at t i \<noteq> x")
  case False
  then obtain j where j: "j < rt_size t" "obj_at t j = x" by blast
  have c: "count_of t x = refs_at t j" using count_at [OF assms(1) j(1)] j(2) assms(2) by simp
  let ?t = "set_refs j (refs_at t j + 1) t"
  have "RefTable_AddRef H x t = Inr ?t" using Get_old [OF assms(1) j assms(2), of True] by (auto simp: RefTable_AddRef_def)
  then show ?thesis using set_refs_wf [OF assms(1) j(1), of "refs_at t j + 1"] j(2) assms(2,4) c by auto
next
  case True
  obtain pr where find: "run_loop (find_ref x (rt_heap t) (rt_buckets t ! main_of H (rt_size t) x) None) = Inr (pr, None)"
    using find_ref_absent [OF assms(1) True] by blast
  have zero: "count_of t x = 0" using count_none [OF True] .
  have "\<exists>u. (if rt_size t = rt_slotused t then
              if rt_freelist t \<noteq> None then Inl AssertFailed
              else bind_res (RefTable_Resize H (rt_size t * 2) t) (\<lambda>t. map_res (\<lambda>m. (m, t)) (mainpos H x t))
            else Inr (main_of H (rt_size t) x, t)) = Inr (main_of H (rt_size u) x, u) \<and> rt_wf H u \<and> count_of u = count_of t \<and> free_nodes u \<noteq> {}"
  proof (cases "rt_size t = rt_slotused t")
    case full: True
    have "free_nodes t = {}" using full_nodes [OF assms(1) full] by (auto simp: free_nodes_def)
    then have "rt_freelist t = None" using assms(1) unfolding rt_wf_def by (metis chain.simps(1) set_empty)
    then show ?thesis using RefTable_Resize_all [OF assms(1) full] mainpos_wf [OF _ assms(3)] full by auto
  next
    case False
    then show ?thesis using assms(1) has_free [OF assms(1)] by auto
  qed
  then obtain u where u: "(if rt_size t = rt_slotused t then
              if rt_freelist t \<noteq> None then Inl AssertFailed
              else bind_res (RefTable_Resize H (rt_size t * 2) t) (\<lambda>t. map_res (\<lambda>m. (m, t)) (mainpos H x t))
            else Inr (main_of H (rt_size t) x, t)) = Inr (main_of H (rt_size u) x, u)" "rt_wf H u" "count_of u = count_of t" "free_nodes u \<noteq> {}" by blast
  have absent: "\<forall>i<rt_size u. obj_at u i \<noteq> x" using count_zero [OF u(2), of x] u(3) zero assms(2) by simp
  from Add_enters [OF u(2) assms(2,3) absent u(4), of 1] obtain a v where v: "RefTable_Add (main_of H (rt_size u) x) x u = Inr (a, v)" "refs_at v a = 0"
    "rt_wf H (set_refs a 1 v)" "count_of (set_refs a 1 v) = (count_of u)(x := 1)" by auto
  have "RefTable_AddRef H x t = Inr (set_refs a 1 v)"
    using mainpos_wf [OF assms(1,3)] find u(1) v(1,2) by (simp add: RefTable_AddRef_def RefTable_Get_def)
  then show ?thesis using v(3,4) u(3) zero by simp
qed

text \<open>The last reference takes the node out of its list and into the free one.\<close>

lemma release_node:
  assumes "rt_wf H t" and "j < rt_size t" and "obj_at t j \<noteq> OT_NULL"
    and "chain r_next (rt_heap t) (rt_buckets t ! main_of H (rt_size t) (obj_at t j)) (us @ j # vs)"
    and "set (us @ j # vs) = in_bucket H t (main_of H (rt_size t) (obj_at t j))"
    and len: "rt_size u = rt_size t" "length (rt_buckets u) = rt_size t" "rt_slotused u = rt_slotused t - 1" "rt_freelist u = Some j"
    and nth: "\<And>i. i < rt_size t \<Longrightarrow> rt_nodes u ! i =
        (if i = j then \<lparr>r_obj = OT_NULL, r_refs = 0, r_next = rt_freelist t\<rparr>
         else if us \<noteq> [] \<and> i = last us then (rt_nodes t ! i)\<lparr>r_next := r_next (rt_nodes t ! j)\<rparr> else rt_nodes t ! i)"
    and bk: "rt_buckets u = (if us = [] then (rt_buckets t)[main_of H (rt_size t) (obj_at t j) := r_next (rt_nodes t ! j)] else rt_buckets t)"
  shows "rt_wf H u" and "count_of u = (count_of t)(obj_at t j := 0)"
proof -
  let ?n = "rt_size t" and ?m = "main_of H (rt_size t) (obj_at t j)" and ?h = "rt_heap t" and ?J = "\<lparr>r_obj = OT_NULL, r_refs = 0, r_next = rt_freelist t\<rparr>"
  have m: "?m < ?n" using main_in_range [OF assms(1)] .
  have dist: "distinct (us @ j # vs)" using chain_distinct [OF assms(4)] .
  have pin: "last us < ?n" "obj_at t (last us) \<noteq> OT_NULL" "main_of H ?n (obj_at t (last us)) = ?m" "last us \<noteq> j" if "us \<noteq> []"
  proof -
    have "last us \<in> set (us @ j # vs)" using that by simp
    then show "last us < ?n" "obj_at t (last us) \<noteq> OT_NULL" "main_of H ?n (obj_at t (last us)) = ?m" unfolding assms(5) by (simp_all add: in_bucket_def)
    show "last us \<noteq> j" using dist that by auto
  qed
  have heap: "rt_heap u = (if us = [] then ?h else ?h(last us \<mapsto> (rt_nodes t ! last us)\<lparr>r_next := r_next (rt_nodes t ! j)\<rparr>))(j \<mapsto> ?J)"
    using nth len(1) assms(2) pin by (auto simp: list_heap_def fun_eq_iff)
  have obj: "obj_at u i = (if i = j then OT_NULL else obj_at t i)" and refs: "refs_at u i = (if i = j then 0 else refs_at t i)" if "i < ?n" for i
    using nth [OF that] by simp_all
  have bucket: "in_bucket H u i = in_bucket H t i - {j}" for i using obj len(1) by (auto simp: in_bucket_def split: if_splits)
  have used: "used_nodes u = used_nodes t - {j}" "j \<in> used_nodes t" using obj len(1) assms(2,3) by (auto simp: used_nodes_def split: if_splits)
  have free: "free_nodes u = insert j (free_nodes t)" using obj len(1) assms(2) by (auto simp: free_nodes_def split: if_splits)
  have other: "chain r_next (rt_heap u) q as = chain r_next ?h q as" if "j \<notin> set as" "us \<noteq> [] \<Longrightarrow> last us \<notin> set as" for q as
    using that heap by (cases "us = []") simp_all
  have buckets: "\<exists>as. chain r_next (rt_heap u) (rt_buckets u ! i) as \<and> set as = in_bucket H u i" if i: "i < ?n" for i
  proof (cases "i = ?m")
    case True
    have "set (us @ vs) = in_bucket H u i" unfolding bucket True assms(5) [symmetric] using dist by auto
    moreover have "chain r_next (rt_heap u) (rt_buckets u ! i) (us @ vs)"
    proof (cases "us = []")
      case u: True
      then have "chain r_next ?h (r_next (rt_nodes t ! j)) vs" using assms(2,4) by (auto simp: list_heap_def)
      moreover have "rt_buckets u ! i = r_next (rt_nodes t ! j)" using u True m assms(1) bk by (simp add: rt_wf_def)
      ultimately show ?thesis using other [of vs] u dist by simp
    next
      case False
      have "?h j = Some (rt_nodes t ! j)" "?h (last us) = Some (rt_nodes t ! last us)" using assms(2) pin [OF False] by simp_all
      from chain_unlink [OF assms(4) False this, of "(rt_nodes t ! last us)\<lparr>r_next := r_next (rt_nodes t ! j)\<rparr>" "Some ?J"]
      show ?thesis using False True bk heap by simp
    qed
    ultimately show ?thesis by blast
  next
    case False
    obtain as where as: "chain r_next ?h (rt_buckets t ! i) as" "set as = in_bucket H t i" using assms(1) i unfolding rt_wf_def by metis
    have "j \<notin> set as" "us \<noteq> [] \<Longrightarrow> last us \<notin> set as" using as(2) False pin by (auto simp: in_bucket_def)
    moreover have "rt_buckets u ! i = rt_buckets t ! i" using False bk by simp
    moreover have "set as = in_bucket H u i" unfolding bucket using as(2) \<open>j \<notin> set as\<close> by auto
    ultimately show ?thesis using as(1) other by metis
  qed
  obtain fs where fs: "chain r_next ?h (rt_freelist t) fs" "set fs = free_nodes t" using assms(1) unfolding rt_wf_def by metis
  have "j \<notin> set fs" "us \<noteq> [] \<Longrightarrow> last us \<notin> set fs" using fs(2) assms(3) pin by (auto simp: free_nodes_def)
  then have "chain r_next (rt_heap u) (rt_freelist t) fs" using other fs(1) by simp
  then have "chain r_next (rt_heap u) (rt_freelist u) (j # fs)" using len(4) heap by simp
  moreover have "set (j # fs) = free_nodes u" using fs(2) free by simp
  ultimately have "\<exists>fs. chain r_next (rt_heap u) (rt_freelist u) fs \<and> set fs = free_nodes u" by blast
  moreover have "\<forall>i<?n. \<forall>k<?n. obj_at u i = obj_at u k \<and> obj_at u i \<noteq> OT_NULL \<longrightarrow> i = k"
    using assms(1) obj unfolding rt_wf_def by auto
  moreover have "\<forall>i<?n. refs_at u i = 0 \<longleftrightarrow> obj_at u i = OT_NULL" using assms(1) obj refs unfolding rt_wf_def by auto
  moreover have "\<forall>i<?n. hashable H (obj_at u i)" using assms(1) obj unfolding rt_wf_def by (auto simp: hashable_def HashObj_def)
  moreover have "rt_slotused u = card (used_nodes u)" using assms(1) used len(3) by (simp add: rt_wf_def)
  moreover have "\<exists>k. rt_size u = 2 ^ k" using assms(1) len(1) by (simp add: rt_wf_def)
  ultimately show wf: "rt_wf H u" using buckets len(1,2) unfolding rt_wf_def by simp
  show "count_of u = (count_of t)(obj_at t j := 0)"
  proof (rule count_eqI [OF wf])
    fix i assume i: "i < rt_size u" "obj_at u i \<noteq> OT_NULL"
    then have "i \<noteq> j" "obj_at u i = obj_at t i" using obj [of i] len(1) by (auto split: if_splits)
    moreover from this have "obj_at t i \<noteq> obj_at t j" using assms(1,2) i len(1) unfolding rt_wf_def by auto
    ultimately show "((count_of t)(obj_at t j := 0)) (obj_at u i) = refs_at u i" using i len(1) count_at [OF assms(1), of i] refs [of i] by simp
  next
    fix x assume x: "x = OT_NULL \<or> (\<forall>i<rt_size u. obj_at u i \<noteq> x)"
    have "x = OT_NULL \<or> x = obj_at t j \<or> (\<forall>i<?n. obj_at t i \<noteq> x)" using x obj len(1) by metis
    then show "((count_of t)(obj_at t j := 0)) x = 0" using count_none [of t x] by auto
  qed
qed

lemma Release_counts:
  assumes "rt_wf H t" and "x \<noteq> OT_NULL" and "count_of t x \<noteq> 0"
  shows "\<exists>t'. RefTable_Release H x t = Inr (count_of t x = 1, t') \<and> rt_wf H t' \<and> count_of t' = (count_of t)(x := count_of t x - 1)"
proof -
  obtain j where j: "j < rt_size t" "obj_at t j = x" using count_none [of t x] assms(3) by blast
  have c: "count_of t x = refs_at t j" using count_at [OF assms(1) j(1)] j(2) assms(2) by simp
  obtain us vs where us: "RefTable_Get H x False t = Inr (main_of H (rt_size t) x, if us = [] then None else Some (last us), Some j, t)"
    "chain r_next (rt_heap t) (rt_buckets t ! main_of H (rt_size t) x) (us @ j # vs)" "set (us @ j # vs) = in_bucket H t (main_of H (rt_size t) x)"
    using Get_old [OF assms(1) j assms(2), of False] by blast
  let ?t1 = "set_refs j (refs_at t j - 1) t"
  have zero: "r_refs (rt_nodes ?t1 ! j) = refs_at t j - 1" "r_next (rt_nodes ?t1 ! j) = r_next (rt_nodes t ! j)" using j(1) by (simp_all add: set_refs_nth)
  show ?thesis
  proof (cases "refs_at t j = 1")
    case False
    then have "refs_at t j - 1 \<noteq> 0" by simp
    from set_refs_wf [OF assms(1) j(1) _ this] show ?thesis using us(1) zero c False j(2) assms(2) by (simp add: RefTable_Release_def Let_def)
  next
    case True
    let ?m = "main_of H (rt_size t) x"
    define t2 where "t2 = (if us = [] then ?t1\<lparr>rt_buckets := (rt_buckets t)[?m := r_next (rt_nodes t ! j)]\<rparr>
      else ?t1\<lparr>rt_nodes := (rt_nodes ?t1)[last us := (rt_nodes ?t1 ! last us)\<lparr>r_next := r_next (rt_nodes t ! j)\<rparr>]\<rparr>)"
    define u where "u = t2\<lparr>rt_nodes := (rt_nodes t2)[j := (rt_nodes t2 ! j)\<lparr>r_next := rt_freelist t2, r_obj := OT_NULL\<rparr>], rt_freelist := Some j,
      rt_slotused := rt_slotused t2 - 1\<rparr>"
    have run: "RefTable_Release H x t = Inr (True, u)"
      using us(1) zero True by (simp add: RefTable_Release_def Let_def u_def t2_def)
    have dist: "distinct (us @ j # vs)" using chain_distinct [OF us(2)] .
    have pin: "last us < rt_size t" "last us \<noteq> j" if "us \<noteq> []"
    proof -
      have "last us \<in> set (us @ j # vs)" using that by simp
      then show "last us < rt_size t" unfolding us(3) by (simp add: in_bucket_def)
      show "last us \<noteq> j" using dist that by auto
    qed
    have t2: "rt_size t2 = rt_size t" "rt_freelist t2 = rt_freelist t" "rt_slotused t2 = rt_slotused t" by (simp_all add: t2_def)
    have nth2: "rt_nodes t2 ! i = (if i = j then (rt_nodes t ! j)\<lparr>r_refs := 0\<rparr>
        else if us \<noteq> [] \<and> i = last us then (rt_nodes t ! i)\<lparr>r_next := r_next (rt_nodes t ! j)\<rparr> else rt_nodes t ! i)" if "i < rt_size t" for i
      using that True pin j(1) by (cases "us = []") (auto simp: t2_def set_refs_nth nth_list_update)
    have bk: "rt_buckets u = (if us = [] then (rt_buckets t)[main_of H (rt_size t) (obj_at t j) := r_next (rt_nodes t ! j)] else rt_buckets t)"
      using j(2) by (simp add: u_def t2_def)
    have len: "rt_size u = rt_size t" "length (rt_buckets u) = rt_size t" "rt_slotused u = rt_slotused t - 1" "rt_freelist u = Some j"
      using t2 bk assms(1) by (simp_all add: u_def rt_wf_def)
    have nth: "rt_nodes u ! i = (if i = j then \<lparr>r_obj = OT_NULL, r_refs = 0, r_next = rt_freelist t\<rparr>
       else if us \<noteq> [] \<and> i = last us then (rt_nodes t ! i)\<lparr>r_next := r_next (rt_nodes t ! j)\<rparr> else rt_nodes t ! i)" if "i < rt_size t" for i
      using that nth2 [OF that] nth2 [OF j(1)] j(1) t2 by (simp add: u_def nth_list_update)
    have nn: "obj_at t j \<noteq> OT_NULL" using j(2) assms(2) by simp
    note at = us(2,3) [folded j(2)]
    have "rt_wf H u" "count_of u = (count_of t)(x := 0)"
      using release_node [OF assms(1) j(1) nn at len nth bk] j(2) by simp_all
    then show ?thesis using run c True by simp
  qed
qed

section \<open>Every run\<close>

text \<open>What the program does with its references, and what it is told: for a release, whether it was the last.\<close>

datatype ref_op = AddRefOp sq_object | ReleaseOp sq_object

definition op_object :: "ref_op \<Rightarrow> sq_object" where
  "op_object r = (case r of AddRefOp x \<Rightarrow> x | ReleaseOp x \<Rightarrow> x)"

definition ref_step :: "sq_heap \<Rightarrow> ref_op \<Rightarrow> bool list \<times> ref_table \<Rightarrow> (bool list \<times> ref_table) res" where
  "ref_step H r = (\<lambda>(as, t). case r of
      AddRefOp x \<Rightarrow> map_res (\<lambda>t. (as, t)) (sq_addref H x t)
    | ReleaseOp x \<Rightarrow> map_res (\<lambda>(b, t). (as @ [b], t)) (sq_release H x t))"

text \<open>The same on counts. A release of what is not held is the program's mistake, and has no result.\<close>

fun count_run :: "ref_op list \<Rightarrow> bool list \<times> (sq_object \<Rightarrow> nat) \<Rightarrow> (bool list \<times> (sq_object \<Rightarrow> nat)) option" where
  "count_run [] s = Some s"
| "count_run (AddRefOp x # rs) (as, f) = count_run rs (as, if ISREFCOUNTED x then f(x := f x + 1) else f)"
| "count_run (ReleaseOp x # rs) (as, f) =
     (if \<not> ISREFCOUNTED x then count_run rs (as @ [True], f)
      else if f x = 0 then None
      else count_run rs (as @ [f x = 1], f(x := f x - 1)))"

lemma refcounted_not_null: "ISREFCOUNTED x \<Longrightarrow> x \<noteq> OT_NULL"
  by (auto simp: ISREFCOUNTED_def)

lemma small_count:
  assumes "n + 1 < 2 ^ 64"
  shows "(of_nat n :: u64) = 0 \<longleftrightarrow> n = 0" and "(of_nat n :: u64) = 1 \<longleftrightarrow> n = 1" and "(of_nat n + 1 :: u64) \<noteq> 0"
proof -
  have u: "unat (of_nat k :: u64) = k" if "k < 2 ^ 64" for k using that by (simp add: unat_of_nat take_bit_nat_eq_self)
  have v: "unat (of_nat n :: u64) = n" "unat (of_nat n + 1 :: u64) = n + 1" using u [of n] u [OF assms] assms by (simp_all add: add.commute)
  show "(of_nat n :: u64) = 0 \<longleftrightarrow> n = 0" using v(1) by (simp add: unat_eq_zero [symmetric] del: unat_eq_zero)
  show "(of_nat n :: u64) = 1 \<longleftrightarrow> n = 1" using v(1) by (metis of_nat_1 unat_1)
  show "(of_nat n + 1 :: u64) \<noteq> 0" using v(2) by auto
qed

lemma ref_run_counts:
  assumes "rt_wf H t" and "count_of t = (\<lambda>x. of_nat (f x))" and "\<And>x. f x + length rs < 2 ^ 64" and "count_run rs (as, f) = Some (bs, g)"
    and "list_all (\<lambda>r. hashable H (op_object r)) rs"
  shows "\<exists>t'. fold_res (ref_step H) rs (as, t) = Inr (bs, t') \<and> rt_wf H t' \<and> count_of t' = (\<lambda>x. of_nat (g x))"
  using assms
proof (induction rs arbitrary: as f t)
  case (Cons r rs)
  have less: "f x < 2 ^ 64" "f x + 1 < 2 ^ 64" "f x + 1 + length rs < 2 ^ 64" for x using Cons.prems(3) [of x] by simp_all
  note zero = small_count [OF less(2)]
  show ?case
  proof (cases r)
    case (AddRefOp x)
    show ?thesis
    proof (cases "ISREFCOUNTED x")
      case True
      have "hashable H x" using Cons.prems(5) AddRefOp by (simp add: op_object_def)
      moreover have "count_of t x + 1 \<noteq> 0" using zero(3) Cons.prems(2) by simp
      ultimately obtain t1 where t1: "RefTable_AddRef H x t = Inr t1" "rt_wf H t1" "count_of t1 = (count_of t)(x := count_of t x + 1)"
        using AddRef_counts [OF Cons.prems(1) refcounted_not_null [OF True]] by blast
      have c: "count_of t1 = (\<lambda>y. of_nat ((f(x := f x + 1)) y))" using t1(3) Cons.prems(2) by auto
      have b: "(f(x := f x + 1)) y + length rs < 2 ^ 64" for y using less(3) [of x] less(3) [of y] by simp
      have "count_run rs (as, f(x := f x + 1)) = Some (bs, g)" using Cons.prems(4) AddRefOp True by simp
      from Cons.IH [OF t1(2) c b this] show ?thesis using Cons.prems(5) AddRefOp True t1(1) by (simp add: ref_step_def sq_addref_def)
    next
      case False
      have b: "f y + length rs < 2 ^ 64" for y using less(3) [of y] by simp
      have "count_run rs (as, f) = Some (bs, g)" using Cons.prems(4) AddRefOp False by simp
      from Cons.IH [OF Cons.prems(1,2) b this] show ?thesis using Cons.prems(5) AddRefOp False by (simp add: ref_step_def sq_addref_def)
    qed
  next
    case (ReleaseOp x)
    show ?thesis
    proof (cases "ISREFCOUNTED x")
      case True
      have held: "f x \<noteq> 0" using Cons.prems(4) ReleaseOp True by (auto split: if_splits)
      then have "count_of t x \<noteq> 0" using zero(1) Cons.prems(2) by simp
      then obtain t1 where t1: "RefTable_Release H x t = Inr (count_of t x = 1, t1)" "rt_wf H t1" "count_of t1 = (count_of t)(x := count_of t x - 1)"
        using Release_counts [OF Cons.prems(1) refcounted_not_null [OF True]] by blast
      have c: "count_of t1 = (\<lambda>y. of_nat ((f(x := f x - 1)) y))" using t1(3) Cons.prems(2) held by (auto simp: fun_eq_iff of_nat_diff)
      have b: "(f(x := f x - 1)) y + length rs < 2 ^ 64" for y using less(3) [of x] less(3) [of y] by (cases "y = x") auto
      have last: "(count_of t x = 1) = (f x = 1)" using zero(2) Cons.prems(2) by simp
      have "count_run rs (as @ [f x = 1], f(x := f x - 1)) = Some (bs, g)" using Cons.prems(4) ReleaseOp True held by simp
      from Cons.IH [OF t1(2) c b this] show ?thesis using Cons.prems(5) ReleaseOp True t1(1) last by (simp add: ref_step_def sq_release_def)
    next
      case False
      have b: "f y + length rs < 2 ^ 64" for y using less(3) [of y] by simp
      have "count_run rs (as @ [True], f) = Some (bs, g)" using Cons.prems(4) ReleaseOp False by simp
      from Cons.IH [OF Cons.prems(1,2) b this] show ?thesis using Cons.prems(5) ReleaseOp False by (simp add: ref_step_def sq_release_def)
    qed
  qed
qed simp

lemma count_run_only: "count_run rs (as, f) = Some (bs, g) \<Longrightarrow> \<not> ISREFCOUNTED x \<Longrightarrow> g x = f x"
  by (induction rs "(as, f)" arbitrary: as f rule: count_run.induct) (auto split: if_splits)

section \<open>Properties\<close>

text \<open>
  C9. Whatever references are taken and given back, in any order and over any objects that have a hash, the table answers as a count
  for every object does: as long as nothing is given back that is not held, no operation faults, growing included, a release is told to be
  the last exactly when it is, and the count of an object is the number of its references that are held.
\<close>

theorem references_counted:
  assumes "list_all (\<lambda>r. hashable H (op_object r)) ops" and "length ops < 2 ^ 64" and "hashable H x"
    and "count_run ops ([], \<lambda>x. 0) = Some (answers, held)"
  shows "\<exists>t. fold_res (ref_step H) ops ([], RefTable_new) = Inr (answers, t) \<and> sq_getrefcount H x t = Inr (of_nat (held x))"
proof -
  have new: "rt_wf H RefTable_new" "count_of RefTable_new = (\<lambda>x. of_nat 0)"
    using RefTable_AllocNodes_wf(1) [of 4 2 H] RefTable_AllocNodes_wf(2) [of 4 2] by (simp_all add: RefTable_new_def)
  obtain t where "fold_res (ref_step H) ops ([], RefTable_new) = Inr (answers, t)" "rt_wf H t" "count_of t = (\<lambda>x. of_nat (held x))"
    using ref_run_counts [OF new _ assms(4,1)] assms(2) by auto
  moreover from this have "sq_getrefcount H x t = Inr (of_nat (held x))"
    using GetRefCount_count [OF _ assms(3), of t] refcounted_not_null [of x] count_run_only [OF assms(4), of x]
    by (auto simp: sq_getrefcount_def)
  ultimately show ?thesis by blast
qed

text \<open>Six objects, two more than the first table has nodes for, the first of them held twice.\<close>

definition six_objects :: "ref_op list" where
  "six_objects = map (\<lambda>i. AddRefOp (OT_TABLE (32 * i))) [0, 1, 2, 3, 4, 5, 0] @ map (\<lambda>i. ReleaseOp (OT_TABLE (32 * i))) [0, 1, 0]"

theorem references_counted_witness:
  "\<exists>t. fold_res (ref_step no_objects) six_objects ([], RefTable_new) = Inr ([False, True, True], t) \<and>
    sq_getrefcount no_objects (OT_TABLE 160) t = Inr 1"
proof -
  let ?f = "\<lambda>x. if x \<in> {OT_TABLE 64, OT_TABLE 96, OT_TABLE 128, OT_TABLE 160} then 1 else (0 :: nat)"
  have ok: "list_all (\<lambda>r. hashable no_objects (op_object r)) six_objects" "hashable no_objects (OT_TABLE 160)"
    by (simp_all add: six_objects_def op_object_def hashable_def HashObj_def)
  have run: "count_run six_objects ([], \<lambda>x. 0) = Some ([False, True, True], ?f)"
    by (simp add: six_objects_def ISREFCOUNTED_def fun_eq_iff)
  have "length six_objects < 2 ^ 64" by (simp add: six_objects_def)
  from references_counted [OF ok(1) this ok(2) run] show ?thesis by simp
qed

end
