(* ===== verification/Spec2Isabelle.thy ===== *)
theory Spec2Isabelle
  imports Capy_Memory Capy_Brewery Capy_Texture Capy_Files Capy_Script Capy_Login Capy_Program Capy_Render Capy_SQPrint Capy_SQScript Capy_SQRefs
begin

text \<open>
  \<^bold>\<open>The Capybara Wars engine and its packing tool.\<close>

  The program is a small 2D multiplayer game engine in C++ (\<open>src/src/engine\<close>) and a tool that packs a folder of game files
  (\<open>src/src/tools/brewery\<close>). A start of the engine (\<open>core/engine.cpp\<close>) brings up the logger, the command line, the console commands, the
  files, the script machine and the network convars, and then a client, a server or both. Server and client share \<open>NetMode\<close>: a socket and
  a buffer of pending messages. A client greets, is admitted, asks for the world, and receives it chunk by chunk; the server generates the
  world when it starts. Settings are convars, which every subsystem creates by name and then reads through the pointer.

  \<^bold>\<open>Where what is modelled.\<close> (Paths are under \<open>src/src/engine\<close> unless they begin with \<open>tools\<close>.)

  \<^item> \<open>Capy_Prelude\<close>: machine words, faults, C strings, little-endian bytes, the result type. \<open>Capy_Float\<close>: binary32 and \<open>atof\<close>.
    \<open>Capy_List\<close>: linked lists on a heap with their search, visit and free loops. \<open>Capy_Machine\<close>: the contract of a kept invariant.
  \<^item> \<open>Capy_Cvar\<close> (\<open>core/cvar\<close>): the list of convars. \<open>Capy_Cvar_Store\<close>: its interface to the other subsystems, a locale interpreted there.
  \<^item> \<open>Capy_Tokens\<close> (\<open>util/util.cpp\<close>, \<open>strtok\<close>), \<open>Capy_Command\<close> (\<open>core/command\<close>): the console.
  \<^item> \<open>Capy_Stream\<close> (\<open>std::fstream\<close>), \<open>Capy_Beer\<close> (the package writer), \<open>Capy_Filesystem\<close> and
    \<open>Capy_Files\<close> (\<open>core/filesystem\<close>: its operations, its runs), \<open>Capy_Script\<close> (\<open>core/script\<close>: opening a script).
  \<^item> The script language (\<open>external/squirrel/squirrel\<close>): \<open>Capy_SQString\<close> (\<open>sqstring.h\<close>, the string table of \<open>sqstate.cpp\<close>, over
    \<open>Capy_Chain\<close>: linked lists that change), \<open>Capy_SQTable\<close>, \<open>Capy_SQMap\<close> and \<open>Capy_SQOps\<close> (\<open>sqtable.h\<close>, \<open>sqtable.cpp\<close>: the
    hash table, its invariant and insertion, its other operations and its runs, over \<open>Capy_SQLinks\<close>: chains inside an array),
    \<open>Capy_SQRefs\<close> (\<open>RefTable\<close> of \<open>sqstate.cpp\<close>: the references that the program holds),
    \<open>Capy_SQLexer\<close> (\<open>sqlexer.h\<close>, \<open>sqlexer.cpp\<close>), \<open>Capy_SQWords\<close> (its keyword table), \<open>Capy_SQScan\<close> (its runs), \<open>Capy_SQPrint\<close>
    (printed tokens), \<open>Capy_SQScript\<close> (the lexer on the program's script files).
  \<^item> \<open>Capy_Codec\<close> (heap blocks and raw encodings), \<open>Capy_Entity\<close> (\<open>entity\<close>, \<open>core/engine_scriptableobject.hpp\<close>), \<open>Capy_NetMsg\<close>
    (\<open>net/net_message.cpp\<close>, \<open>net/net_packetfactory.cpp\<close>), \<open>Capy_NetMode\<close> (\<open>net/net_core.cpp\<close>).
  \<^item> \<open>Capy_Quad\<close> (\<open>core/tier0\<close>), \<open>Capy_World\<close>, \<open>Capy_World_Save\<close> and \<open>Capy_Render\<close>
    (\<open>world\<close>: generation, files, drawing).
  \<^item> \<open>Capy_Server\<close> and \<open>Capy_Server_Runs\<close> (\<open>net/server\<close>: its operations, its runs), \<open>Capy_Client\<close> (\<open>net/client\<close>), \<open>Capy_Download\<close>,
    \<open>Capy_Handshake\<close> and \<open>Capy_Roster\<close> (a client that is sent what a server sends), \<open>Capy_Login\<close> (a server and a client that exchange
    what they send).
  \<^item> \<open>Capy_Logging\<close> (\<open>util/logging.cpp\<close>), \<open>Capy_Memory\<close> (\<open>core/tier0/memory\<close> and \<open>tools/brewery/memory\<close>), \<open>Capy_Cmdline\<close>
    (\<open>core/cmdline\<close> and \<open>tools/brewery/cmdline\<close>), \<open>Capy_Texture\<close> (\<open>core/render/assets\<close>).
  \<^item> \<open>Capy_Engine\<close> (\<open>core/engine.cpp\<close>, \<open>core/engine_input.cpp\<close>, \<open>core/script\<close>, \<open>Capy.cpp\<close>) and \<open>Capy_Startup\<close>, which follows a start
    through all of them to a client, \<open>Capy_Dedicated\<close> to a dedicated server;
    \<open>Capy_Program\<close> follows a whole run of the program. \<open>Capy_Brewery\<close> (\<open>tools/brewery\<close>): the packing tool.

  \<^bold>\<open>How.\<close> A class is a record, its methods are functions on the record, with the source's names; a name that two classes share is
  prefixed. An object that others point to lives on a heap, a partial map from addresses, and a freed address is not in it: using one is
  the fault \<open>UseAfterFree\<close>. Every operation that can fault returns \<open>fault + 'a\<close>, and each null dereference, read or write out of bounds,
  double free and loop that does not return is a fault of its own. Where a write past a block corrupts memory in silence (the network
  messages), the bytes are dropped and counted, so that a theorem can say how many there are. What the system and the libraries answer
  (SDL, SDL_net, the random numbers, fresh memory, the clock, the folder walk) is an argument of the operation, or a field of the record
  that stands for a turn's or a start's environment.

  \<^bold>\<open>What the lemmas show.\<close> Each theory ends in its properties, each with an instance.

  \<^item> The convar and command lists refine plain lists: every operation keeps them well-formed, every loop returns, and a lookup finds what the
    abstract list holds. The convars' interface is a locale; startup and command line rest on its facts.
  \<^item> Packets, world files and packages read back as what was written, byte for byte; the packing tool's package holds the folder,
    unless a file's name is so long that the tool copies it over itself with \<open>strncpy\<close>.
  \<^item> World generation stays inside its array for every noise exactly from 36 tiles of width and 17 of height on (of the sizes above zero that the
    arithmetic is exact for), faults in every narrower world, and from there on returns exactly for the sizes the quadtree's loop ends on.
  \<^item> A download delivers exactly the server's tiles; a client that is answered in order reaches the connected state with them; no order of
    events brings it there with fewer bytes than the world has. This is an invariant of a step relation, by the contract in
    \<open>Capy_Machine\<close>.
  \<^item> A server and a client that exchange their datagrams get from the first tick to the connected state, with the server's tiles.
  \<^item> In every run of the server its counted clients are its live objects: it refines a roster of slots in which somebody joins or leaves. The
    slots stay right until the first client leaves that is not the last; what the server does then is said exactly. In every run of the file
    system each object keeps a stream of its own, as long as no package is made in memory that already looks like a package's header; only
    such a one is ever taken for loaded.
  \<^item> The script language's string table keeps one object for each text; its hash table refines a map over every run of its operations, with
    rehashes that always return; its table of references counts, in every run that gives back only what is held; its lexer ends on every
    input, without a fault and at the right line, finds every keyword, and gives back what is printed; and no script file of the program reaches it with its text.
  \<^item> A start without arguments brings up a running client, one in the dedicated mode a server with a generated world; a
    program that waits for its server shuts everything down when it is told to quit, and then, as its global objects are destroyed, releases a
    table in the script machine it has freed.
  \<^item> Drawing a world paints, for each pixel, the tile that a specification of the picture says.
  \<^item> The error properties say what the code does where it goes wrong: stale slots, double frees, short datagrams, long chunks, files emptied
    before they are read, and so on.

  \<^bold>\<open>Bounds and fuel.\<close> The loops over the linked lists and the packer's copying loop are partial functions, so that one that does not return
  has no result. Nested console lines and the loop over the quadtree's scales carry fuel, and using it up is the fault \<open>NoReturn\<close>: for the
  quadtree the sum of the world's dimensions is enough where the loop ends at all, and no amount is where it does not; the one pass over the
  rows has one unit per row and one more, which is enough for any step but zero. The theorem on \<open>exec\<close> holds for any amount. The float lemmas
  are used below \<open>2 ^ 24\<close>, where integers are exact. \<open>NewSlot\<close> and \<open>Rehash\<close> of the hash table call each other: three nested calls are
  enough, since the calls of a rehash find room. The lexer's loops are total functions, measured by the characters that are left.

  World sizes are above zero, below \<open>2 ^ 29\<close> by \<open>2 ^ 23\<close> and of less than \<open>2 ^ 31\<close> tiles, where the 32-bit products do not wrap. The engine's loop runs over
  the list of its turns, and to be still running when they are used up is \<open>NoReturn\<close> too.

  \<^bold>\<open>Not modelled.\<close> Of the copy of Squirrel under \<open>external\<close> the strings, the tables, the program's references and the lexer are modelled;
  the compiler, the virtual machine and the library are not, nor are \<open>Sqrat\<close> and \<open>stb_image\<close>. The references that objects hold to each other are not modelled:
  the release of a string is a step that may come at any time. The bridge to scripts, its start, its shutdown and the opening of a script, is modelled with
  the machine and the compiler as arguments; what the compiler's error function does is not, a jump that for an invalid first character of a
  script goes nowhere (see \<open>Capy_SQLexer\<close>). A path is the name of one file: that two spellings may name the same one is not modelled. The renderer passes its calls on to SDL; its start is modelled
  by its outcomes, and drawing the world as the pixels it writes. Log messages are modelled where they are the behaviour (the logger, the
  console, the allocator, the start of the engine's log and of the packing tool's), and left out elsewhere. The terminal's input thread is the line it delivers. The handlers of the entity classes are
  empty, and several templates (\<open>AddComponent\<close>, \<open>AssetManager::Load\<close>) do not compile when used. The
  release build and Windows are not modelled.

  \<^bold>\<open>Next.\<close> A turn of the engine with both ends in one process; a login while others are connected; what is left of the entities once the
  program uses them; the compiler of the script language on the lexer's tokens.
\<close>

end
